(* ===== verification/Prelude.thy ===== *)
theory Prelude
  imports Main "HOL-Library.Word" "HOL-Library.Monad_Syntax"
begin

text \<open>
  Shared vocabulary of the development.

  \<^item> Machine integers: \<open>uint8_t\<close>, \<open>uint16_t\<close>, \<open>uint32_t\<close> and \<open>size_t\<close> of the LP64
    Linux platform are words of 8, 16, 32 and 64 bits.
  \<^item> Memory: a C object that is read or written through a pointer is the list of its bytes.
    \<open>mem_get\<close>, \<open>mem_read\<close> and \<open>mem_write\<close> access it and give \<open>None\<close> when the access leaves
    the object, so that a buffer overrun of the C code is a value of the model.
    A \<open>char *\<close> that may be NULL is an optional byte list.
  \<^item> Executions: code that talks to the network or the clock has type \<open>'a exec\<close>.
    \<open>None\<close> is an execution that never returns, \<open>Some Fault\<close> one that leaves a buffer, and
    \<open>Some (Ret a)\<close> one that returns \<open>a\<close>.  \<open>bnd\<close> runs one piece of code after another.
  \<^item> Two Hoare-style predicates over executions with their rules: \<open>valid\<close> (whatever is
    returned satisfies the postcondition) and \<open>runs\<close> (the execution does return, without
    leaving a buffer, and satisfies the postcondition).
\<close>

unbundle bit_operations_syntax

type_synonym u8 = "8 word"
type_synonym u16 = "16 word"
type_synonym u32 = "32 word"
type_synonym size_t = "64 word"

type_synonym mem = "u8 list"
type_synonym cptr = "u8 list option"

named_theorems wp \<open>rules that compute what an execution returns\<close>
named_theorems mem_simps \<open>rewrite rules for accesses inside a buffer\<close>

section \<open>Memory objects\<close>

definition mem_get :: "mem \<Rightarrow> nat \<Rightarrow> u8 option" where
  "mem_get buf i = (if i < length buf then Some (buf ! i) else None)"

definition mem_read :: "mem \<Rightarrow> nat \<Rightarrow> nat \<Rightarrow> mem option" where
  "mem_read buf off n =
     (if off + n \<le> length buf then Some (take n (drop off buf)) else None)"

definition mem_write :: "mem \<Rightarrow> nat \<Rightarrow> u8 list \<Rightarrow> mem option" where
  "mem_write buf off bs =
     (if off + length bs \<le> length buf
      then Some (take off buf @ bs @ drop (off + length bs) buf) else None)"

lemma mem_write_length:
  "mem_write buf off bs = Some buf' \<Longrightarrow> length buf' = length buf"
  by (auto simp: mem_write_def split: if_splits)

lemma mem_write_prefix:
  assumes "mem_write buf off bs = Some buf'"
  shows "take (off + length bs) buf' = take off buf @ bs"
  using assms by (auto simp: mem_write_def split: if_splits)

lemma mem_write_extend:
  assumes "take off buf = pre" and "mem_write buf off bs = Some buf'"
  shows "take (off + length bs) buf' = pre @ bs"
  using assms mem_write_prefix by blast

lemma mem_write_ok [mem_simps]:
  "off + length bs \<le> length buf \<Longrightarrow>
   mem_write buf off bs = Some (take off buf @ bs @ drop (off + length bs) buf)"
  by (simp add: mem_write_def)

lemma mem_write_None: "mem_write buf off bs = None \<longleftrightarrow> length buf < off + length bs"
  by (auto simp: mem_write_def)

lemma mem_get_append [mem_simps]: "mem_get (pre @ b # post) (length pre) = Some b"
  by (simp add: mem_get_def)

lemma mem_get_Cons_0 [simp]: "mem_get (b # bs) 0 = Some b"
  by (simp add: mem_get_def)

lemma mem_get_Cons_Suc [simp]: "mem_get (b # bs) (Suc i) = mem_get bs i"
  by (simp add: mem_get_def)

lemma mem_read_append [mem_simps]:
  "mem_read (pre @ bs @ post) (length pre) (length bs) = Some bs"
  by (simp add: mem_read_def)

text \<open>Reading an element of an array of any type.\<close>

definition arr_get :: "'a list \<Rightarrow> nat \<Rightarrow> 'a option" where
  "arr_get xs i = (if i < length xs then Some (xs ! i) else None)"

lemma arr_get_Some [simp]: "arr_get xs i = Some x \<longleftrightarrow> i < length xs \<and> x = xs ! i"
  by (auto simp: arr_get_def)

text \<open>A buffer whose first bytes are known: the form in which frames are read back.\<close>

lemma take_eq_append_ex:
  assumes "take (length xs) buf = xs"
  shows "\<exists>post. buf = xs @ post"
  using assms by (metis append_take_drop_id)

section \<open>NUL-terminated strings\<close>

text \<open>\<open>strlen\<close> and \<open>strcmp\<close> read up to the first NUL; a string without one is overrun.\<close>

fun c_strlen :: "mem \<Rightarrow> nat option" where
  "c_strlen [] = None"
| "c_strlen (c # cs) = (if c = 0 then Some 0 else map_option Suc (c_strlen cs))"

fun c_streq :: "mem \<Rightarrow> mem \<Rightarrow> bool option" where
  "c_streq (a # as) (b # bs) =
     (if a \<noteq> b then Some False else if a = 0 then Some True else c_streq as bs)"
| "c_streq _ _ = None"

fun c_strneq :: "mem \<Rightarrow> mem \<Rightarrow> nat \<Rightarrow> bool option" where
  "c_strneq as bs 0 = Some True"
| "c_strneq (a # as) (b # bs) (Suc n) =
     (if a \<noteq> b then Some False else if a = 0 then Some True else c_strneq as bs n)"
| "c_strneq _ _ (Suc n) = None"

definition c_string :: "u8 list \<Rightarrow> mem" where
  "c_string s = s @ [0]"

definition is_c_string :: "mem \<Rightarrow> bool" where
  "is_c_string m \<longleftrightarrow> (0 \<in> set m)"

lemma c_strlen_c_string [simp]: "0 \<notin> set s \<Longrightarrow> c_strlen (s @ 0 # r) = Some (length s)"
  by (induction s) auto

lemma c_streq_c_string:
  "0 \<notin> set s \<Longrightarrow> 0 \<notin> set t \<Longrightarrow> c_streq (s @ 0 # r) (t @ 0 # r') = Some (s = t)"
proof (induction s arbitrary: t)
  case Nil
  then show ?case by (cases t) auto
next
  case (Cons a s)
  then show ?case by (cases t) auto
qed

lemma c_streq_defined:
  "0 \<in> set a \<Longrightarrow> 0 \<in> set b \<Longrightarrow> \<exists>r. c_streq a b = Some r"
proof (induction a b rule: c_streq.induct)
  case (1 a as b bs)
  then show ?case by auto
qed auto

section \<open>Executions\<close>

datatype 'a run = Ret 'a | Fault

type_synonym 'a exec = "'a run option"

definition ret :: "'a \<Rightarrow> 'a exec" where
  "ret a = Some (Ret a)"

definition bnd :: "'a exec \<Rightarrow> ('a \<Rightarrow> 'b exec) \<Rightarrow> 'b exec" where
  "bnd m f = Option.bind m (\<lambda>r. case r of Ret a \<Rightarrow> f a | Fault \<Rightarrow> Some Fault)"

text \<open>A memory access inside an execution: leaving the object is a fault.\<close>

definition access :: "'a option \<Rightarrow> 'a exec" where
  "access m = (case m of None \<Rightarrow> Some Fault | Some a \<Rightarrow> Some (Ret a))"

lemma bnd_simps [simp]:
  "bnd (ret a) f = f a"
  "bnd (Some (Ret a)) f = f a"
  "bnd (Some Fault) f = Some Fault"
  "bnd None f = None"
  by (simp_all add: bnd_def ret_def)

lemma access_simps [simp]:
  "access (Some a) = ret a"
  "access None = Some Fault"
  by (simp_all add: access_def ret_def)

lemma ret_inject [simp]:
  "ret a = ret b \<longleftrightarrow> a = b" "Some (Ret a) = ret b \<longleftrightarrow> a = b" "ret a = Some (Ret b) \<longleftrightarrow> a = b"
  "ret a \<noteq> None" "None \<noteq> ret a" "ret a \<noteq> Some Fault" "Some Fault \<noteq> ret a"
  by (auto simp: ret_def)

lemma bnd_assoc: "bnd (bnd m f) g = bnd m (\<lambda>a. bnd (f a) g)"
  by (cases m) (auto simp: bnd_def split: run.splits)

lemma bnd_eq_ret: "bnd m f = ret b \<longleftrightarrow> (\<exists>a. m = ret a \<and> f a = ret b)"
  by (cases m) (auto simp: bnd_def ret_def split: run.splits)

lemma access_eq_ret [simp]: "access m = ret a \<longleftrightarrow> m = Some a"
  by (cases m) auto

lemma bnd_mono [partial_function_mono]:
  assumes "mono_option B" and "\<And>y. mono_option (\<lambda>f. C y f)"
  shows "mono_option (\<lambda>f. bnd (B f) (\<lambda>y. C y f))"
proof -
  have "mono_option (\<lambda>f. case r of Ret a \<Rightarrow> C a f | Fault \<Rightarrow> Some Fault)" for r
    using assms(2) by (cases r) (auto intro: option.const_mono)
  then show ?thesis
    unfolding bnd_def using assms(1) by (intro bind_mono)
qed

subsection \<open>What an execution returns\<close>

definition valid :: "'a exec \<Rightarrow> ('a \<Rightarrow> bool) \<Rightarrow> bool" where
  "valid m Q \<longleftrightarrow> (\<forall>a. m = ret a \<longrightarrow> Q a)"

definition runs :: "'a exec \<Rightarrow> ('a \<Rightarrow> bool) \<Rightarrow> bool" where
  "runs m Q \<longleftrightarrow> (\<exists>a. m = ret a \<and> Q a)"

lemma valid_ret [simp]: "valid (ret a) Q \<longleftrightarrow> Q a"
  by (auto simp: valid_def)

lemma valid_Fault [simp]: "valid (Some Fault) Q"
  by (simp add: valid_def)

lemma valid_None [simp]: "valid None Q"
  by (simp add: valid_def)

lemma valid_bnd:
  "valid m (\<lambda>a. valid (f a) Q) \<Longrightarrow> valid (bnd m f) Q"
  by (auto simp: valid_def bnd_eq_ret)

lemma valid_bnd_seq:
  assumes "valid m R" and "\<And>a. R a \<Longrightarrow> valid (f a) Q"
  shows "valid (bnd m f) Q"
  using assms by (auto simp: valid_def bnd_eq_ret)

lemma valid_access [simp]: "valid (access m) Q \<longleftrightarrow> (\<forall>a. m = Some a \<longrightarrow> Q a)"
  by (auto simp: valid_def)

lemma valid_mono: "valid m Q \<Longrightarrow> (\<And>a. Q a \<Longrightarrow> R a) \<Longrightarrow> valid m R"
  by (auto simp: valid_def)

lemma valid_conj: "valid m Q \<Longrightarrow> valid m R \<Longrightarrow> valid m (\<lambda>a. Q a \<and> R a)"
  by (auto simp: valid_def)

lemma validD: "valid m Q \<Longrightarrow> m = ret a \<Longrightarrow> Q a"
  by (auto simp: valid_def)

lemma validI: "(\<And>a. m = ret a \<Longrightarrow> Q a) \<Longrightarrow> valid m Q"
  by (auto simp: valid_def)

text \<open>For loops given by a fixed point, whose induction rule speaks of the results.\<close>

definition res_ok :: "('a \<Rightarrow> bool) \<Rightarrow> 'a run \<Rightarrow> bool" where
  "res_ok Q y \<longleftrightarrow> (\<forall>a. y = Ret a \<longrightarrow> Q a)"

lemma valid_res: "valid m Q \<Longrightarrow> m = Some y \<Longrightarrow> res_ok Q y"
  by (auto simp: valid_def res_ok_def ret_def)

lemma valid_resI: "(\<And>y. m = Some y \<Longrightarrow> res_ok Q y) \<Longrightarrow> valid m Q"
  by (auto simp: valid_def res_ok_def ret_def)

text \<open>Rules that walk through the body of a function.\<close>

lemma valid_retI [wp]: "Q a \<Longrightarrow> valid (ret a) Q"
  by simp

lemma valid_FaultI [wp]: "valid (Some Fault) Q"
  by simp

lemma valid_Let [wp]: "valid (f e) Q \<Longrightarrow> valid (Let e f) Q"
  by simp

lemma valid_case_prod [wp]: "(\<And>a b. p = (a, b) \<Longrightarrow> valid (f a b) Q) \<Longrightarrow> valid (case_prod f p) Q"
  by (cases p) simp

lemma valid_if [wp]: "(b \<Longrightarrow> valid x Q) \<Longrightarrow> (\<not> b \<Longrightarrow> valid y Q) \<Longrightarrow> valid (if b then x else y) Q"
  by simp

lemma valid_case_option [wp]:
  "(p = None \<Longrightarrow> valid x Q) \<Longrightarrow> (\<And>a. p = Some a \<Longrightarrow> valid (f a) Q) \<Longrightarrow> valid (case_option x f p) Q"
  by (cases p) simp_all

lemma valid_case_sum [wp]:
  "(\<And>a. p = Inl a \<Longrightarrow> valid (f a) Q) \<Longrightarrow> (\<And>b. p = Inr b \<Longrightarrow> valid (g b) Q) \<Longrightarrow> valid (case_sum f g p) Q"
  by (cases p) simp_all

lemma valid_bnd_ret [wp]: "(\<And>a. m = ret a \<Longrightarrow> valid (f a) Q) \<Longrightarrow> valid (bnd m f) Q"
  by (auto simp: valid_def bnd_eq_ret)

lemma runs_ret [simp]: "runs (ret a) Q \<longleftrightarrow> Q a"
  by (auto simp: runs_def)

lemma runs_Fault [simp]: "\<not> runs (Some Fault) Q"
  by (simp add: runs_def)

lemma runs_None [simp]: "\<not> runs None Q"
  by (simp add: runs_def)

lemma runs_bnd: "runs (bnd m f) Q \<longleftrightarrow> runs m (\<lambda>a. runs (f a) Q)"
  by (auto simp: runs_def bnd_eq_ret)

lemma runs_access [simp]: "runs (access m) Q \<longleftrightarrow> (\<exists>a. m = Some a \<and> Q a)"
  by (auto simp: runs_def)

lemma runs_mono: "runs m Q \<Longrightarrow> (\<And>a. Q a \<Longrightarrow> R a) \<Longrightarrow> runs m R"
  by (auto simp: runs_def)

lemma runs_valid: "runs m Q \<Longrightarrow> valid m Q"
  by (auto simp: runs_def valid_def)

lemma runs_seq:
  assumes "runs m R" and "\<And>a. R a \<Longrightarrow> runs (f a) Q"
  shows "runs (bnd m f) Q"
  using assms by (auto simp: runs_def bnd_eq_ret)

subsection \<open>Where an execution can leave a buffer\<close>

text \<open>\<open>fault_only m P\<close>: if \<open>m\<close> leaves a buffer then \<open>P\<close> holds.\<close>

named_theorems nf \<open>rules that find the accesses of an execution\<close>

definition fault_only :: "'a exec \<Rightarrow> bool \<Rightarrow> bool" where
  "fault_only m P \<longleftrightarrow> (m = Some Fault \<longrightarrow> P)"

lemma fault_only_ret [nf]: "fault_only (ret a) P"
  by (simp add: fault_only_def)

lemma fault_only_Fault [nf]: "P \<Longrightarrow> fault_only (Some Fault) P"
  by (simp add: fault_only_def)

lemma fault_only_access [nf]: "(m = None \<Longrightarrow> P) \<Longrightarrow> fault_only (access m) P"
  by (cases m) (simp_all add: fault_only_def)

lemma fault_only_Let [nf]: "fault_only (f e) P \<Longrightarrow> fault_only (Let e f) P"
  by simp

lemma fault_only_case_prod [nf]:
  "(\<And>a b. p = (a, b) \<Longrightarrow> fault_only (f a b) P) \<Longrightarrow> fault_only (case_prod f p) P"
  by (cases p) simp

lemma fault_only_if [nf]:
  "(b \<Longrightarrow> fault_only x P) \<Longrightarrow> (\<not> b \<Longrightarrow> fault_only y P) \<Longrightarrow> fault_only (if b then x else y) P"
  by simp

lemma fault_only_case_option [nf]:
  "(p = None \<Longrightarrow> fault_only x P) \<Longrightarrow> (\<And>a. p = Some a \<Longrightarrow> fault_only (f a) P) \<Longrightarrow> fault_only (case_option x f p) P"
  by (cases p) simp_all

lemma fault_only_case_sum [nf]:
  "(\<And>a. p = Inl a \<Longrightarrow> fault_only (f a) P) \<Longrightarrow> (\<And>b. p = Inr b \<Longrightarrow> fault_only (g b) P) \<Longrightarrow>
   fault_only (case_sum f g p) P"
  by (cases p) simp_all

lemma fault_only_bnd [nf]:
  "fault_only m P \<Longrightarrow> (\<And>a. m = ret a \<Longrightarrow> fault_only (f a) P) \<Longrightarrow> fault_only (bnd m f) P"
  by (cases m) (auto simp: fault_only_def bnd_def ret_def split: run.splits)

lemma fault_only_res: "fault_only m P \<Longrightarrow> m = Some y \<Longrightarrow> y = Fault \<longrightarrow> P"
  by (auto simp: fault_only_def)

lemma fault_only_resI: "(\<And>y. m = Some y \<Longrightarrow> y = Fault \<longrightarrow> P) \<Longrightarrow> fault_only m P"
  by (auto simp: fault_only_def)

section \<open>Words\<close>

lemma unat_ucast_up [simp]:
  "LENGTH('a) \<le> LENGTH('b) \<Longrightarrow> unat (ucast (w :: 'a::len word) :: 'b::len word) = unat w"
  by (simp add: unsigned_ucast_eq take_bit_nat_eq_self_iff)
    (metis less_le_trans one_le_numeral power_increasing unsigned_less)

lemma u16_lt [simp]: "unat (w :: u16) < 65536"
  using unsigned_less [of w, where ?'a = nat] by simp

lemma u8_lt [simp]: "unat (w :: u8) < 256"
  using unsigned_less [of w, where ?'a = nat] by simp

lemma u32_lt [simp]: "unat (w :: u32) < 4294967296"
  using unsigned_less [of w, where ?'a = nat] by simp

end
