(* ===== verification/Iot_Types.thy ===== *)
theory Iot_Types
  imports Prelude
begin

text \<open>
  The data of the MQTT client: the return codes of \<open>include/aws_iot_error.h\<close>, the enums and
  structs of \<open>include/aws_iot_mqtt_client.h\<close>, the packet types of
  \<open>include/aws_iot_mqtt_client_common_internal.h\<close> and the configuration macros of
  \<open>samples/linux/aws/aws_iot_config.h\<close>.

  A function pointer is the address of the function (\<open>handler\<close>, 0-based), NULL being \<open>None\<close>;
  the code at an address is a parameter of the functions that call it.  \<open>void *\<close> arguments that
  the client only hands on are addresses too.  \<open>QoS\<close> is an enum that the code also fills by
  casts from received bytes, so it is the integer it is stored in.
\<close>

section \<open>Configuration\<close>

definition AWS_IOT_MQTT_TX_BUF_LEN :: nat where
  "AWS_IOT_MQTT_TX_BUF_LEN = 512"

definition AWS_IOT_MQTT_RX_BUF_LEN :: nat where
  "AWS_IOT_MQTT_RX_BUF_LEN = 512"

definition AWS_IOT_MQTT_NUM_SUBSCRIBE_HANDLERS :: nat where
  "AWS_IOT_MQTT_NUM_SUBSCRIBE_HANDLERS = 5"

definition AWS_IOT_MQTT_MIN_RECONNECT_WAIT_INTERVAL :: u32 where
  "AWS_IOT_MQTT_MIN_RECONNECT_WAIT_INTERVAL = 1000"

definition AWS_IOT_MQTT_MAX_RECONNECT_WAIT_INTERVAL :: u32 where
  "AWS_IOT_MQTT_MAX_RECONNECT_WAIT_INTERVAL = 128000"

definition MAX_PACKET_ID :: u16 where
  "MAX_PACKET_ID = 65535"

definition MAX_NO_OF_REMAINING_LENGTH_BYTES :: u32 where
  "MAX_NO_OF_REMAINING_LENGTH_BYTES = 4"

lemmas config_defs =
  AWS_IOT_MQTT_TX_BUF_LEN_def AWS_IOT_MQTT_RX_BUF_LEN_def
  AWS_IOT_MQTT_NUM_SUBSCRIBE_HANDLERS_def
  AWS_IOT_MQTT_MIN_RECONNECT_WAIT_INTERVAL_def AWS_IOT_MQTT_MAX_RECONNECT_WAIT_INTERVAL_def
  MAX_PACKET_ID_def MAX_NO_OF_REMAINING_LENGTH_BYTES_def

section \<open>Return codes\<close>

datatype IoT_Error_t =
    NETWORK_PHYSICAL_LAYER_CONNECTED
  | NETWORK_MANUALLY_DISCONNECTED
  | NETWORK_ATTEMPTING_RECONNECT
  | NETWORK_RECONNECTED
  | MQTT_NOTHING_TO_READ
  | MQTT_CONNACK_CONNECTION_ACCEPTED
  | SUCCESS
  | FAILURE
  | NULL_VALUE_ERROR
  | TCP_CONNECTION_ERROR
  | SSL_CONNECTION_ERROR
  | TCP_SETUP_ERROR
  | NETWORK_SSL_CONNECT_TIMEOUT_ERROR
  | NETWORK_SSL_WRITE_ERROR
  | NETWORK_SSL_INIT_ERROR
  | NETWORK_SSL_CERT_ERROR
  | NETWORK_SSL_WRITE_TIMEOUT_ERROR
  | NETWORK_SSL_READ_TIMEOUT_ERROR
  | NETWORK_SSL_READ_ERROR
  | NETWORK_DISCONNECTED_ERROR
  | NETWORK_RECONNECT_TIMED_OUT_ERROR
  | NETWORK_ALREADY_CONNECTED_ERROR
  | NETWORK_MBEDTLS_ERR_CTR_DRBG_ENTROPY_SOURCE_FAILED
  | NETWORK_SSL_UNKNOWN_ERROR
  | NETWORK_PHYSICAL_LAYER_DISCONNECTED
  | NETWORK_X509_ROOT_CRT_PARSE_ERROR
  | NETWORK_X509_DEVICE_CRT_PARSE_ERROR
  | NETWORK_PK_PRIVATE_KEY_PARSE_ERROR
  | NETWORK_ERR_NET_SOCKET_FAILED
  | NETWORK_ERR_NET_UNKNOWN_HOST
  | NETWORK_ERR_NET_CONNECT_FAILED
  | NETWORK_SSL_NOTHING_TO_READ
  | MQTT_CONNECTION_ERROR
  | MQTT_CONNECT_TIMEOUT_ERROR
  | MQTT_REQUEST_TIMEOUT_ERROR
  | MQTT_UNEXPECTED_CLIENT_STATE_ERROR
  | MQTT_CLIENT_NOT_IDLE_ERROR
  | MQTT_RX_MESSAGE_PACKET_TYPE_INVALID_ERROR
  | MQTT_RX_BUFFER_TOO_SHORT_ERROR
  | MQTT_TX_BUFFER_TOO_SHORT_ERROR
  | MQTT_MAX_SUBSCRIPTIONS_REACHED_ERROR
  | MQTT_DECODE_REMAINING_LENGTH_ERROR
  | MQTT_CONNACK_UNKNOWN_ERROR
  | MQTT_CONNACK_UNACCEPTABLE_PROTOCOL_VERSION_ERROR
  | MQTT_CONNACK_IDENTIFIER_REJECTED_ERROR
  | MQTT_CONNACK_SERVER_UNAVAILABLE_ERROR
  | MQTT_CONNACK_BAD_USERDATA_ERROR
  | MQTT_CONNACK_NOT_AUTHORIZED_ERROR
  | JSON_PARSE_ERROR
  | SHADOW_WAIT_FOR_PUBLISH
  | SHADOW_JSON_BUFFER_TRUNCATED
  | SHADOW_JSON_ERROR
  | MUTEX_INIT_ERROR
  | MUTEX_LOCK_ERROR
  | MUTEX_UNLOCK_ERROR
  | MUTEX_DESTROY_ERROR

section \<open>Enums\<close>

type_synonym QoS = u32

abbreviation (input) QOS0 :: QoS where "QOS0 \<equiv> 0"
abbreviation (input) QOS1 :: QoS where "QOS1 \<equiv> 1"

type_synonym MQTT_Ver_t = u32

abbreviation (input) MQTT_3_1_1 :: MQTT_Ver_t where "MQTT_3_1_1 \<equiv> 4"

datatype ClientState =
    CLIENT_STATE_INVALID
  | CLIENT_STATE_INITIALIZED
  | CLIENT_STATE_CONNECTING
  | CLIENT_STATE_CONNECTED_IDLE
  | CLIENT_STATE_CONNECTED_YIELD_IN_PROGRESS
  | CLIENT_STATE_CONNECTED_PUBLISH_IN_PROGRESS
  | CLIENT_STATE_CONNECTED_SUBSCRIBE_IN_PROGRESS
  | CLIENT_STATE_CONNECTED_UNSUBSCRIBE_IN_PROGRESS
  | CLIENT_STATE_CONNECTED_RESUBSCRIBE_IN_PROGRESS
  | CLIENT_STATE_CONNECTED_WAIT_FOR_CB_RETURN
  | CLIENT_STATE_DISCONNECTING
  | CLIENT_STATE_DISCONNECTED_ERROR
  | CLIENT_STATE_DISCONNECTED_MANUALLY
  | CLIENT_STATE_PENDING_RECONNECT

datatype MessageTypes =
    UNKNOWN | CONNECT | CONNACK | PUBLISH | PUBACK | PUBREC | PUBREL | PUBCOMP
  | SUBSCRIBE | SUBACK | UNSUBSCRIBE | UNSUBACK | PINGREQ | PINGRESP | DISCONNECT

text \<open>The number an enumerator of \<open>MessageTypes\<close> stands for.\<close>

fun msgCode :: "MessageTypes \<Rightarrow> int" where
  "msgCode UNKNOWN = -1"
| "msgCode CONNECT = 1"
| "msgCode CONNACK = 2"
| "msgCode PUBLISH = 3"
| "msgCode PUBACK = 4"
| "msgCode PUBREC = 5"
| "msgCode PUBREL = 6"
| "msgCode PUBCOMP = 7"
| "msgCode SUBSCRIBE = 8"
| "msgCode SUBACK = 9"
| "msgCode UNSUBSCRIBE = 10"
| "msgCode UNSUBACK = 11"
| "msgCode PINGREQ = 12"
| "msgCode PINGRESP = 13"
| "msgCode DISCONNECT = 14"

section \<open>Structs\<close>

type_synonym handler = nat
type_synonym addr = nat

record timeval =
  tv_sec :: int
  tv_usec :: int

record Timer =
  end_time :: timeval

record IoT_Publish_Message_Params =
  pm_qos :: QoS
  pm_isRetained :: u8
  pm_isDup :: u8
  pm_id :: u16
  pm_payload :: cptr
  pm_payloadLen :: size_t

record IoT_MQTT_Will_Options =
  will_struct_id :: "u8 list"
  will_pTopicName :: cptr
  will_topicNameLen :: u16
  will_pMessage :: cptr
  will_msgLen :: u16
  will_isRetained :: bool
  will_qos :: QoS

record IoT_Client_Connect_Params =
  cp_struct_id :: "u8 list"
  MQTTVersion :: MQTT_Ver_t
  pClientID :: cptr
  clientIDLen :: u16
  keepAliveIntervalInSec :: u16
  isCleanSession :: bool
  isWillMsgPresent :: bool
  will :: IoT_MQTT_Will_Options
  pUsername :: cptr
  usernameLen :: u16
  pPassword :: cptr
  passwordLen :: u16

definition iotMqttWillOptionsDefault :: IoT_MQTT_Will_Options where
  "iotMqttWillOptionsDefault =
     \<lparr> will_struct_id = [77, 81, 84, 87], will_pTopicName = None, will_topicNameLen = 0,
       will_pMessage = None, will_msgLen = 0, will_isRetained = False, will_qos = QOS0 \<rparr>"

definition iotClientConnectParamsDefault :: IoT_Client_Connect_Params where
  "iotClientConnectParamsDefault =
     \<lparr> cp_struct_id = [77, 81, 84, 67], MQTTVersion = MQTT_3_1_1, pClientID = None,
       clientIDLen = 0, keepAliveIntervalInSec = 60, isCleanSession = True,
       isWillMsgPresent = False, will = iotMqttWillOptionsDefault, pUsername = None,
       usernameLen = 0, pPassword = None, passwordLen = 0 \<rparr>"

record IoT_Client_Init_Params =
  enableAutoReconnect :: bool
  pHostURL :: cptr
  port :: u16
  pRootCALocation :: cptr
  pDeviceCertLocation :: cptr
  pDevicePrivateKeyLocation :: cptr
  mqttPacketTimeout_ms :: u32
  mqttCommandTimeout_ms :: u32
  tlsHandshakeTimeout_ms :: u32
  isSSLHostnameVerify :: bool
  ip_disconnectHandler :: "handler option"
  ip_disconnectHandlerData :: "addr option"

definition iotClientInitParamsDefault :: IoT_Client_Init_Params where
  "iotClientInitParamsDefault =
     \<lparr> enableAutoReconnect = True, pHostURL = None, port = 0, pRootCALocation = None,
       pDeviceCertLocation = None, pDevicePrivateKeyLocation = None,
       mqttPacketTimeout_ms = 2000, mqttCommandTimeout_ms = 20000,
       tlsHandshakeTimeout_ms = 5000, isSSLHostnameVerify = True,
       ip_disconnectHandler = None, ip_disconnectHandlerData = None \<rparr>"

record MessageHandlers =
  mh_topicName :: cptr
  mh_topicNameLen :: u16
  mh_qos :: QoS
  mh_pApplicationHandler :: "handler option"
  mh_pApplicationHandlerData :: "addr option"

record ClientStatus =
  cs_clientState :: ClientState
  cs_isPingOutstanding :: bool
  cs_isAutoReconnectEnabled :: bool

record ClientData =
  nextPacketId :: u16
  packetTimeoutMs :: u32
  commandTimeoutMs :: u32
  keepAliveInterval :: u16
  currentReconnectWaitInterval :: u32
  counterNetworkDisconnected :: u32
  writeBufSize :: size_t
  readBufSize :: size_t
  writeBuf :: mem
  readBuf :: mem
  options :: IoT_Client_Connect_Params
  messageHandlers :: "MessageHandlers list"
  disconnectHandler :: "handler option"
  disconnectHandlerData :: "addr option"

record TLSConnectParams =
  tls_pRootCALocation :: cptr
  tls_pDeviceCertLocation :: cptr
  tls_pDevicePrivateKeyLocation :: cptr
  tls_pDestinationURL :: cptr
  tls_DestinationPort :: u16
  tls_timeout_ms :: u32
  tls_ServerVerificationFlag :: bool

text \<open>
  The data members of \<open>struct Network\<close>.  Its function pointers are the record of operations that
  the client functions take as an argument; of \<open>TLSDataParams\<close> only \<open>flags\<close> is a value of its
  own, the mbedTLS contexts belong to the outside world.
\<close>

record Network =
  tlsConnectParams :: TLSConnectParams
  tlsDataParams_flags :: u32

record AWS_IoT_Client =
  pingTimer :: Timer
  reconnectDelayTimer :: Timer
  clientStatus :: ClientStatus
  clientData :: ClientData
  networkStack :: Network

text \<open>
  A client pointer passed to the public functions: NULL, or the client of the current state.
\<close>

datatype clientRef = NullClient | TheClient

text \<open>The client together with the outside world \<open>'w\<close> (clock, sockets, server).\<close>

record 'w st =
  cl :: AWS_IoT_Client
  wd :: 'w

abbreviation clientState :: "'w st \<Rightarrow> ClientState" where
  "clientState s \<equiv> cs_clientState (clientStatus (cl s))"

definition upd_status :: "(ClientStatus \<Rightarrow> ClientStatus) \<Rightarrow> 'w st \<Rightarrow> 'w st" where
  "upd_status f s = s\<lparr>cl := (cl s)\<lparr>clientStatus := f (clientStatus (cl s))\<rparr>\<rparr>"

definition upd_data :: "(ClientData \<Rightarrow> ClientData) \<Rightarrow> 'w st \<Rightarrow> 'w st" where
  "upd_data f s = s\<lparr>cl := (cl s)\<lparr>clientData := f (clientData (cl s))\<rparr>\<rparr>"

abbreviation set_clientState :: "ClientState \<Rightarrow> 'w st \<Rightarrow> 'w st" where
  "set_clientState x \<equiv> upd_status (\<lambda>t. t\<lparr>cs_clientState := x\<rparr>)"

abbreviation cdata :: "'w st \<Rightarrow> ClientData" where
  "cdata s \<equiv> clientData (cl s)"

lemma upd_status_simps [simp]:
  "wd (upd_status f s) = wd s"
  "cdata (upd_status f s) = cdata s"
  "clientStatus (cl (upd_status f s)) = f (clientStatus (cl s))"
  "pingTimer (cl (upd_status f s)) = pingTimer (cl s)"
  "reconnectDelayTimer (cl (upd_status f s)) = reconnectDelayTimer (cl s)"
  "networkStack (cl (upd_status f s)) = networkStack (cl s)"
  by (simp_all add: upd_status_def)

lemma upd_data_simps [simp]:
  "wd (upd_data f s) = wd s"
  "cdata (upd_data f s) = f (cdata s)"
  "clientStatus (cl (upd_data f s)) = clientStatus (cl s)"
  "pingTimer (cl (upd_data f s)) = pingTimer (cl s)"
  "reconnectDelayTimer (cl (upd_data f s)) = reconnectDelayTimer (cl s)"
  "networkStack (cl (upd_data f s)) = networkStack (cl s)"
  by (simp_all add: upd_data_def)

end
