(* ===== verification/Timer.thy ===== *)
theory Timer
  imports Iot_Types "HOL-Library.Signed_Division"
begin

text \<open>
  The Linux timer of \<open>platform/linux/common/timer.c\<close>.  The wall clock is outside the program:
  \<open>gtod\<close> is \<open>gettimeofday\<close>, a parameter that reads the time off the world.
  \<open>timeradd\<close> and \<open>timersub\<close> are the macros of \<open>sys/time.h\<close> that the file uses.
  The lemmas express a timer in microseconds: a countdown ends exactly the requested time
  after it was started, and \<open>has_timer_expired\<close> compares that instant with the clock.
\<close>

type_synonym 'w clock = "'w \<Rightarrow> timeval \<times> 'w"

section \<open>Operations\<close>

definition timeradd :: "timeval \<Rightarrow> timeval \<Rightarrow> timeval" where
  "timeradd a b =
     (let sec = tv_sec a + tv_sec b; usec = tv_usec a + tv_usec b
      in if usec \<ge> 1000000 then \<lparr>tv_sec = sec + 1, tv_usec = usec - 1000000\<rparr>
         else \<lparr>tv_sec = sec, tv_usec = usec\<rparr>)"

definition timersub :: "timeval \<Rightarrow> timeval \<Rightarrow> timeval" where
  "timersub a b =
     (let sec = tv_sec a - tv_sec b; usec = tv_usec a - tv_usec b
      in if usec < 0 then \<lparr>tv_sec = sec - 1, tv_usec = usec + 1000000\<rparr>
         else \<lparr>tv_sec = sec, tv_usec = usec\<rparr>)"

definition has_timer_expired :: "'w clock \<Rightarrow> Timer \<Rightarrow> 'w \<Rightarrow> bool \<times> 'w" where
  "has_timer_expired gtod timer w =
     (let (now, w) = gtod w; res = timersub (end_time timer) now
      in (tv_sec res < 0 \<or> (tv_sec res = 0 \<and> tv_usec res \<le> 0), w))"

definition countdown_ms :: "'w clock \<Rightarrow> u32 \<Rightarrow> 'w \<Rightarrow> Timer \<times> 'w" where
  "countdown_ms gtod timeout w =
     (let interval = \<lparr>tv_sec = uint (timeout div 1000), tv_usec = uint ((timeout mod 1000) * 1000)\<rparr>;
          (now, w) = gtod w
      in (\<lparr>end_time = timeradd now interval\<rparr>, w))"

definition left_ms :: "'w clock \<Rightarrow> Timer \<Rightarrow> 'w \<Rightarrow> u32 \<times> 'w" where
  "left_ms gtod timer w =
     (let (now, w) = gtod w; res = timersub (end_time timer) now
      in (if tv_sec res \<ge> 0 then word_of_int (tv_sec res * 1000 + tv_usec res sdiv 1000) else 0, w))"

definition countdown_sec :: "'w clock \<Rightarrow> u32 \<Rightarrow> 'w \<Rightarrow> Timer \<times> 'w" where
  "countdown_sec gtod timeout w =
     (let interval = \<lparr>tv_sec = uint timeout, tv_usec = 0\<rparr>; (now, w) = gtod w
      in (\<lparr>end_time = timeradd now interval\<rparr>, w))"

definition init_timer :: Timer where
  "init_timer = \<lparr>end_time = \<lparr>tv_sec = 0, tv_usec = 0\<rparr>\<rparr>"

section \<open>Timers in microseconds\<close>

definition wf_tv :: "timeval \<Rightarrow> bool" where
  "wf_tv t \<longleftrightarrow> 0 \<le> tv_usec t \<and> tv_usec t < 1000000"

definition us :: "timeval \<Rightarrow> int" where
  "us t = tv_sec t * 1000000 + tv_usec t"

lemma us_timeradd: "us (timeradd a b) = us a + us b"
  by (simp add: us_def timeradd_def Let_def algebra_simps)

lemma us_timersub: "us (timersub a b) = us a - us b"
  by (simp add: us_def timersub_def Let_def algebra_simps)

lemma wf_timeradd: "wf_tv a \<Longrightarrow> wf_tv b \<Longrightarrow> wf_tv (timeradd a b)"
  by (auto simp: wf_tv_def timeradd_def Let_def)

lemma wf_timersub: "wf_tv a \<Longrightarrow> wf_tv b \<Longrightarrow> wf_tv (timersub a b)"
  by (auto simp: wf_tv_def timersub_def Let_def)

lemma us_nonpos_iff:
  "wf_tv t \<Longrightarrow> us t \<le> 0 \<longleftrightarrow> tv_sec t < 0 \<or> (tv_sec t = 0 \<and> tv_usec t \<le> 0)"
  by (auto simp: us_def wf_tv_def)

lemma has_timer_expired_us:
  assumes "gtod w = (now, w')" and "wf_tv now" and "wf_tv (end_time t)"
  shows "has_timer_expired gtod t w = (us (end_time t) \<le> us now, w')"
  using assms us_nonpos_iff [OF wf_timersub, of "end_time t" now]
  by (simp add: has_timer_expired_def us_timersub Let_def)

lemma u32_interval:
  "uint ((t mod 1000) * 1000 :: u32) = (uint t mod 1000) * 1000"
  "uint (t div 1000 :: u32) = uint t div 1000"
proof -
  have "uint t mod 1000 * 1000 < 2 ^ 32"
    using pos_mod_bound [of 1000 "uint t"] by simp
  then show "uint ((t mod 1000) * 1000) = (uint t mod 1000) * 1000"
    by (simp add: uint_word_ariths uint_mod)
  show "uint (t div 1000) = uint t div 1000"
    by (simp add: uint_div)
qed

lemma countdown_ms_us:
  assumes "gtod w = (now, w')" and "wf_tv now"
  shows "\<exists>t. countdown_ms gtod timeout w = (t, w') \<and> wf_tv (end_time t) \<and>
             us (end_time t) = us now + uint timeout * 1000"
proof -
  let ?i = "\<lparr>tv_sec = uint (timeout div 1000), tv_usec = uint ((timeout mod 1000) * 1000)\<rparr>"
  have wf: "wf_tv ?i"
    using pos_mod_bound [of 1000 "uint timeout"] by (simp add: wf_tv_def u32_interval)
  have "us ?i = uint timeout * 1000"
    by (simp add: us_def u32_interval) presburger
  then show ?thesis
    using assms wf by (simp add: countdown_ms_def us_timeradd wf_timeradd)
qed

lemma countdown_sec_us:
  assumes "gtod w = (now, w')" and "wf_tv now"
  shows "\<exists>t. countdown_sec gtod timeout w = (t, w') \<and> wf_tv (end_time t) \<and>
             us (end_time t) = us now + uint timeout * 1000000"
proof -
  let ?i = "\<lparr>tv_sec = uint timeout, tv_usec = 0\<rparr>"
  have "wf_tv ?i" and "us ?i = uint timeout * 1000000"
    by (simp_all add: wf_tv_def us_def)
  then show ?thesis
    using assms by (simp add: countdown_sec_def us_timeradd wf_timeradd)
qed

text \<open>
  A countdown of \<open>timeout\<close> milliseconds started at time \<open>now\<close> is reported expired by a
  later clock reading \<open>now2\<close> exactly when \<open>timeout\<close> milliseconds have passed, for every
  32-bit timeout and all clock values in normal form.
\<close>

theorem countdown_ms_expires:
  assumes "gtod w = (now, w1)" and "gtod w1' = (now2, w2)" and "wf_tv now" and "wf_tv now2"
  shows "has_timer_expired gtod (fst (countdown_ms gtod timeout w)) w1' =
           (us now + uint timeout * 1000 \<le> us now2, w2)"
proof -
  obtain t where "countdown_ms gtod timeout w = (t, w1)" "wf_tv (end_time t)"
    "us (end_time t) = us now + uint timeout * 1000"
    using countdown_ms_us [of gtod w now w1] assms by blast
  then show ?thesis
    using has_timer_expired_us [of gtod w1' now2 w2 t] assms by simp
qed

text \<open>The clock of the witnesses: a world that is its own time in microseconds.\<close>

definition us_clock :: "int clock" where
  "us_clock w = (\<lparr>tv_sec = w div 1000000, tv_usec = w mod 1000000\<rparr>, w)"

theorem countdown_ms_expires_witness:
  "has_timer_expired us_clock (fst (countdown_ms us_clock 1500 9800000)) 11299999 = (False, 11299999) \<and>
   has_timer_expired us_clock (fst (countdown_ms us_clock 1500 9800000)) 11300000 = (True, 11300000)"
  using countdown_ms_expires [of us_clock 9800000 _ 9800000 11299999 _ 11299999 1500]
        countdown_ms_expires [of us_clock 9800000 _ 9800000 11300000 _ 11300000 1500]
  by (simp add: us_clock_def wf_tv_def us_def)

end
