(* ===== verification/Tls_Network.thy ===== *)
theory Tls_Network
  imports Timer
begin

text \<open>
  The network layer: the interface \<open>struct Network\<close> of \<open>include/network_interface.h\<close> and its
  implementation over mbedTLS in \<open>platform/linux/mbedtls/network_mbedtls_wrapper.c\<close> (the variant
  with the secure element, \<open>MBEDTLS_SE\<close>, that \<open>aws_iot_config.h\<close> selects).

  mbedTLS and the secure element library are outside the program: their functions are the fields
  of the record \<open>mbedtls\<close>, acting on the world \<open>'w\<close> that holds their contexts.  An error return
  is the natural number behind the minus sign, a read either stores bytes or returns an error.

  \<open>Network_ops\<close> are the function pointers of a network.  The locale \<open>network\<close> is what the MQTT
  client relies on; it is interpreted on the functions \<open>iot_tls_*\<close>, for every behaviour of
  mbedTLS and of the clock.
\<close>

section \<open>mbedTLS\<close>

datatype ssl_result = SslBytes "u8 list" | SslError nat

definition MBEDTLS_ERR_SSL_WANT_READ :: nat where "MBEDTLS_ERR_SSL_WANT_READ = 0x6900"
definition MBEDTLS_ERR_SSL_WANT_WRITE :: nat where "MBEDTLS_ERR_SSL_WANT_WRITE = 0x6880"
definition MBEDTLS_ERR_SSL_TIMEOUT :: nat where "MBEDTLS_ERR_SSL_TIMEOUT = 0x6800"
definition MBEDTLS_ERR_NET_SOCKET_FAILED :: int where "MBEDTLS_ERR_NET_SOCKET_FAILED = -0x42"
definition MBEDTLS_ERR_NET_UNKNOWN_HOST :: int where "MBEDTLS_ERR_NET_UNKNOWN_HOST = -0x52"

datatype authmode = MBEDTLS_SSL_VERIFY_REQUIRED | MBEDTLS_SSL_VERIFY_OPTIONAL

record 'w mbedtls =
  net_init :: "'w \<Rightarrow> 'w"
  ssl_init :: "'w \<Rightarrow> 'w"
  ssl_config_init :: "'w \<Rightarrow> 'w"
  ctr_drbg_init :: "'w \<Rightarrow> 'w"
  cacert_init :: "'w \<Rightarrow> 'w"
  clicert_init :: "'w \<Rightarrow> 'w"
  pk_init :: "'w \<Rightarrow> 'w"
  entropy_init :: "'w \<Rightarrow> 'w"
  ctr_drbg_seed :: "u8 list \<Rightarrow> 'w \<Rightarrow> int \<times> 'w"
  x509_crt_parse_ca :: "mem \<Rightarrow> nat \<Rightarrow> 'w \<Rightarrow> int \<times> 'w"
  x509_crt_parse_se :: "cptr \<Rightarrow> mem \<Rightarrow> 'w \<Rightarrow> int \<times> 'w"
  pk_parse_se :: "cptr \<Rightarrow> mem \<Rightarrow> 'w \<Rightarrow> int \<times> 'w"
  mnet_connect :: "cptr \<Rightarrow> mem \<Rightarrow> 'w \<Rightarrow> int \<times> 'w"
  net_set_block :: "'w \<Rightarrow> int \<times> 'w"
  ssl_config_defaults :: "'w \<Rightarrow> int \<times> 'w"
  ssl_conf_verify :: "(u32 \<Rightarrow> int \<times> u32) \<Rightarrow> 'w \<Rightarrow> 'w"
  ssl_conf_authmode :: "authmode \<Rightarrow> 'w \<Rightarrow> 'w"
  ssl_conf_rng :: "'w \<Rightarrow> 'w"
  ssl_conf_ca_chain :: "'w \<Rightarrow> 'w"
  ssl_conf_own_cert :: "'w \<Rightarrow> int \<times> 'w"
  ssl_conf_read_timeout :: "u32 \<Rightarrow> 'w \<Rightarrow> 'w"
  ssl_setup :: "'w \<Rightarrow> int \<times> 'w"
  ssl_set_hostname :: "cptr \<Rightarrow> 'w \<Rightarrow> int \<times> 'w"
  ssl_set_bio :: "'w \<Rightarrow> 'w"
  ssl_handshake :: "'w \<Rightarrow> int \<times> 'w"
  ssl_get_verify_result :: "'w \<Rightarrow> u32 \<times> 'w"
  ssl_write :: "u8 list \<Rightarrow> 'w \<Rightarrow> int \<times> 'w"
  ssl_read :: "size_t \<Rightarrow> 'w \<Rightarrow> ssl_result \<times> 'w"
  ssl_close_notify :: "'w \<Rightarrow> int \<times> 'w"
  net_free :: "'w \<Rightarrow> 'w"
  clicert_free :: "'w \<Rightarrow> 'w"
  cacert_free :: "'w \<Rightarrow> 'w"
  pk_free :: "'w \<Rightarrow> 'w"
  ssl_free :: "'w \<Rightarrow> 'w"
  ssl_config_free :: "'w \<Rightarrow> 'w"
  ctr_drbg_free :: "'w \<Rightarrow> 'w"
  entropy_free :: "'w \<Rightarrow> 'w"

section \<open>The TLS functions\<close>

definition IOT_SSL_READ_TIMEOUT :: u32 where "IOT_SSL_READ_TIMEOUT = 10"

definition SE_CERTIFICATE_PIN :: mem where "SE_CERTIFICATE_PIN = [48, 48, 48, 48, 0]"
definition SE_PRIVATE_KEY_PIN :: mem where "SE_PRIVATE_KEY_PIN = [48, 48, 48, 48, 0]"

text \<open>The certificate callback only prints: it returns 0 and leaves the flags as they are.\<close>

definition iot_tls_verify_cert :: "u32 \<Rightarrow> int \<times> u32" where
  "iot_tls_verify_cert flags = (0, flags)"

definition iot_tls_set_connect_params ::
  "cptr \<Rightarrow> cptr \<Rightarrow> cptr \<Rightarrow> cptr \<Rightarrow> u16 \<Rightarrow> u32 \<Rightarrow> bool \<Rightarrow> Network \<Rightarrow> Network" where
  "iot_tls_set_connect_params rootCA cert key url destPort timeout verify n =
     n\<lparr>tlsConnectParams :=
        \<lparr> tls_pRootCALocation = rootCA, tls_pDeviceCertLocation = cert,
          tls_pDevicePrivateKeyLocation = key, tls_pDestinationURL = url,
          tls_DestinationPort = destPort, tls_timeout_ms = timeout,
          tls_ServerVerificationFlag = verify \<rparr>\<rparr>"

definition iot_tls_init ::
  "cptr \<Rightarrow> cptr \<Rightarrow> cptr \<Rightarrow> cptr \<Rightarrow> u16 \<Rightarrow> u32 \<Rightarrow> bool \<Rightarrow> Network \<Rightarrow> IoT_Error_t \<times> Network" where
  "iot_tls_init rootCA cert key url destPort timeout verify n =
     (SUCCESS,
      (iot_tls_set_connect_params rootCA cert key url destPort timeout verify n)
        \<lparr>tlsDataParams_flags := 0\<rparr>)"

definition iot_tls_is_connected :: "'w \<Rightarrow> IoT_Error_t \<times> 'w" where
  "iot_tls_is_connected w = (NETWORK_PHYSICAL_LAYER_CONNECTED, w)"

text \<open>\<open>snprintf(portBuffer, 6, "%d", port)\<close>.\<close>

fun dec_digits :: "nat \<Rightarrow> u8 list" where
  "dec_digits n = (if n < 10 then [of_nat (48 + n)] else dec_digits (n div 10) @ [of_nat (48 + n mod 10)])"

declare dec_digits.simps [simp del]

definition portBuffer :: "u16 \<Rightarrow> mem" where
  "portBuffer p = take 5 (dec_digits (unat p)) @ [0]"

partial_function (option) handshake_loop :: "'w mbedtls \<Rightarrow> 'w \<Rightarrow> (IoT_Error_t \<times> 'w) exec" where
  "handshake_loop m w =
     (let (r, w) = ssl_handshake m w
      in if r \<noteq> 0 then
           if r \<noteq> - int MBEDTLS_ERR_SSL_WANT_READ \<and> r \<noteq> - int MBEDTLS_ERR_SSL_WANT_WRITE
           then ret (SSL_CONNECTION_ERROR, w) else handshake_loop m w
         else ret (SUCCESS, w))"

definition tls_setup_contexts :: "'w mbedtls \<Rightarrow> 'w \<Rightarrow> 'w" where
  "tls_setup_contexts m w =
     entropy_init m (pk_init m (clicert_init m (cacert_init m (ctr_drbg_init m
       (ssl_config_init m (ssl_init m (net_init m w)))))))"

text \<open>\<open>"aws_iot_tls_wrapper"\<close>, the personalisation string.\<close>

definition tls_pers :: "u8 list" where
  "tls_pers = [97, 119, 115, 95, 105, 111, 116, 95, 116, 108, 115, 95, 119, 114, 97, 112, 112, 101, 114]"

definition iot_tls_connect ::
  "'w mbedtls \<Rightarrow> TLSConnectParams option \<Rightarrow> Network \<Rightarrow> 'w \<Rightarrow> (IoT_Error_t \<times> Network \<times> 'w) exec" where
  "iot_tls_connect m params n w =
     (let n = (case params of
                 None \<Rightarrow> n
               | Some p \<Rightarrow> iot_tls_set_connect_params (tls_pRootCALocation p) (tls_pDeviceCertLocation p)
                   (tls_pDevicePrivateKeyLocation p) (tls_pDestinationURL p) (tls_DestinationPort p)
                   (tls_timeout_ms p) (tls_ServerVerificationFlag p) n);
          p = tlsConnectParams n;
          w = tls_setup_contexts m w;
          (r, w) = ctr_drbg_seed m tls_pers w
      in if r \<noteq> 0 then ret (NETWORK_MBEDTLS_ERR_CTR_DRBG_ENTROPY_SOURCE_FAILED, n, w)
      else bnd (access (tls_pRootCALocation p)) (\<lambda>ca.
        bnd (access (c_strlen ca)) (\<lambda>caLen.
        let (r, w) = x509_crt_parse_ca m ca (caLen + 1) w
        in if r < 0 then ret (NETWORK_X509_ROOT_CRT_PARSE_ERROR, n, w)
        else let (r, w) = x509_crt_parse_se m (tls_pDeviceCertLocation p) SE_CERTIFICATE_PIN w
        in if r \<noteq> 0 then ret (NETWORK_X509_DEVICE_CRT_PARSE_ERROR, n, w)
        else let (r, w) = pk_parse_se m (tls_pDevicePrivateKeyLocation p) SE_PRIVATE_KEY_PIN w
        in if r \<noteq> 0 then ret (NETWORK_PK_PRIVATE_KEY_PARSE_ERROR, n, w)
        else let (r, w) = mnet_connect m (tls_pDestinationURL p) (portBuffer (tls_DestinationPort p)) w
        in if r \<noteq> 0 then
             ret (if r = MBEDTLS_ERR_NET_SOCKET_FAILED then NETWORK_ERR_NET_SOCKET_FAILED
                  else if r = MBEDTLS_ERR_NET_UNKNOWN_HOST then NETWORK_ERR_NET_UNKNOWN_HOST
                  else NETWORK_ERR_NET_CONNECT_FAILED, n, w)
        else let (r, w) = net_set_block m w
        in if r \<noteq> 0 then ret (SSL_CONNECTION_ERROR, n, w)
        else let (r, w) = ssl_config_defaults m w
        in if r \<noteq> 0 then ret (SSL_CONNECTION_ERROR, n, w)
        else let w = ssl_conf_verify m iot_tls_verify_cert w;
                 w = ssl_conf_authmode m (if tls_ServerVerificationFlag p
                       then MBEDTLS_SSL_VERIFY_REQUIRED else MBEDTLS_SSL_VERIFY_OPTIONAL) w;
                 w = ssl_conf_ca_chain m (ssl_conf_rng m w);
                 (r, w) = ssl_conf_own_cert m w
        in if r \<noteq> 0 then ret (SSL_CONNECTION_ERROR, n, w)
        else let (r, w) = ssl_setup m (ssl_conf_read_timeout m (tls_timeout_ms p) w)
        in if r \<noteq> 0 then ret (SSL_CONNECTION_ERROR, n, w)
        else let (r, w) = ssl_set_hostname m (tls_pDestinationURL p) w
        in if r \<noteq> 0 then ret (SSL_CONNECTION_ERROR, n, w)
        else bnd (handshake_loop m (ssl_set_bio m w)) (\<lambda>(rc, w).
        if rc \<noteq> SUCCESS then ret (rc, n, w)
        else if tls_ServerVerificationFlag p then
          let (flags, w) = ssl_get_verify_result m w
          in ret (if flags \<noteq> 0 then SSL_CONNECTION_ERROR else SUCCESS,
                  n\<lparr>tlsDataParams_flags := flags\<rparr>, ssl_conf_read_timeout m IOT_SSL_READ_TIMEOUT w)
        else ret (SUCCESS, n, ssl_conf_read_timeout m IOT_SSL_READ_TIMEOUT w)))))"

text \<open>
  \<open>iot_tls_write\<close>: the inner loop offers the rest of the message until some of it is taken or an
  error occurs; \<open>ret\<close> of the C code is \<open>None\<close> while it is uninitialised.  The message is the
  object \<open>msg\<close> and the offset of the pointer into it.
\<close>

partial_function (option) tls_write_inner ::
  "'w clock \<Rightarrow> 'w mbedtls \<Rightarrow> mem \<Rightarrow> nat \<Rightarrow> size_t \<Rightarrow> Timer \<Rightarrow> size_t \<Rightarrow> int option \<Rightarrow> 'w \<Rightarrow>
   (bool \<times> int option \<times> 'w) exec" where
  "tls_write_inner gtod m msg off len timer written r w =
     (let (expired, w) = has_timer_expired gtod timer w
      in if expired then ret (False, r, w)
         else bnd (access (mem_read msg (off + unat written) (unat (len - written)))) (\<lambda>bs.
           let (r, w) = ssl_write m bs w
           in if r \<le> 0 then
                if r \<noteq> - int MBEDTLS_ERR_SSL_WANT_READ \<and> r \<noteq> - int MBEDTLS_ERR_SSL_WANT_WRITE
                then ret (True, Some r, w)
                else tls_write_inner gtod m msg off len timer written (Some r) w
              else ret (False, Some r, w)))"

partial_function (option) tls_write_loop ::
  "'w clock \<Rightarrow> 'w mbedtls \<Rightarrow> mem \<Rightarrow> nat \<Rightarrow> size_t \<Rightarrow> Timer \<Rightarrow> size_t \<Rightarrow> int option \<Rightarrow> 'w \<Rightarrow>
   (bool \<times> size_t \<times> 'w) exec" where
  "tls_write_loop gtod m msg off len timer written r w =
     (if written < len then
        let (expired, w) = has_timer_expired gtod timer w
        in if expired then ret (False, written, w)
           else bnd (tls_write_inner gtod m msg off len timer written r w) (\<lambda>(isErrorFlag, r, w).
             if isErrorFlag then ret (True, written, w)
             else (case r of
                     None \<Rightarrow> Some Fault
                   | Some i \<Rightarrow> tls_write_loop gtod m msg off len timer (written + of_int i) r w))
      else ret (False, written, w))"

definition iot_tls_write ::
  "'w clock \<Rightarrow> 'w mbedtls \<Rightarrow> mem \<Rightarrow> nat \<Rightarrow> size_t \<Rightarrow> Timer \<Rightarrow> 'w \<Rightarrow> (IoT_Error_t \<times> size_t \<times> 'w) exec" where
  "iot_tls_write gtod m msg off len timer w =
     bnd (tls_write_loop gtod m msg off len timer 0 None w) (\<lambda>(isErrorFlag, written, w).
       if isErrorFlag then ret (NETWORK_SSL_WRITE_ERROR, written, w)
       else let (expired, w) = has_timer_expired gtod timer w
         in ret (if expired \<and> written \<noteq> len then NETWORK_SSL_WRITE_TIMEOUT_ERROR else SUCCESS, written, w))"

text \<open>
  \<open>iot_tls_read\<close> gives the bytes stored through \<open>pMsg\<close> and, if it was stored, the value of
  \<open>*read_len\<close>.  Storing more than the \<open>len\<close> bytes asked for would leave the caller's buffer.
\<close>

partial_function (option) tls_read_loop ::
  "'w clock \<Rightarrow> 'w mbedtls \<Rightarrow> Timer \<Rightarrow> size_t \<Rightarrow> size_t \<Rightarrow> u8 list \<Rightarrow> 'w \<Rightarrow>
   (IoT_Error_t \<times> size_t \<times> size_t \<times> u8 list \<times> 'w) exec" where
  "tls_read_loop gtod m timer len rxLen stored w =
     (if len > 0 then
        let (r, w) = ssl_read m len w
        in (case r of
              SslBytes bs \<Rightarrow>
                if bs = [] then ret (NETWORK_SSL_READ_ERROR, len, rxLen, stored, w)
                else if unat len < length bs then Some Fault
                else let rxLen = rxLen + of_nat (length bs); stored = stored @ bs;
                         len = len - of_nat (length bs);
                         (expired, w) = has_timer_expired gtod timer w
                  in if expired then ret (SUCCESS, len, rxLen, stored, w)
                     else tls_read_loop gtod m timer len rxLen stored w
            | SslError e \<Rightarrow>
                if e = 0 \<or> (e \<noteq> MBEDTLS_ERR_SSL_WANT_READ \<and> e \<noteq> MBEDTLS_ERR_SSL_WANT_WRITE
                            \<and> e \<noteq> MBEDTLS_ERR_SSL_TIMEOUT)
                then ret (NETWORK_SSL_READ_ERROR, len, rxLen, stored, w)
                else let (expired, w) = has_timer_expired gtod timer w
                  in if expired then ret (SUCCESS, len, rxLen, stored, w)
                     else tls_read_loop gtod m timer len rxLen stored w)
      else ret (SUCCESS, len, rxLen, stored, w))"

definition iot_tls_read ::
  "'w clock \<Rightarrow> 'w mbedtls \<Rightarrow> size_t \<Rightarrow> Timer \<Rightarrow> 'w \<Rightarrow>
   (IoT_Error_t \<times> u8 list \<times> size_t option \<times> 'w) exec" where
  "iot_tls_read gtod m len timer w =
     bnd (tls_read_loop gtod m timer len 0 [] w) (\<lambda>(rc, len, rxLen, stored, w).
       if rc \<noteq> SUCCESS then ret (rc, stored, None, w)
       else if len = 0 then ret (SUCCESS, stored, Some rxLen, w)
       else if rxLen = 0 then ret (NETWORK_SSL_NOTHING_TO_READ, stored, None, w)
       else ret (NETWORK_SSL_READ_TIMEOUT_ERROR, stored, None, w))"

partial_function (option) close_notify_loop :: "'w mbedtls \<Rightarrow> 'w \<Rightarrow> 'w exec" where
  "close_notify_loop m w =
     (let (r, w) = ssl_close_notify m w
      in if r = - int MBEDTLS_ERR_SSL_WANT_WRITE then close_notify_loop m w else ret w)"

definition iot_tls_disconnect :: "'w mbedtls \<Rightarrow> 'w \<Rightarrow> (IoT_Error_t \<times> 'w) exec" where
  "iot_tls_disconnect m w = bnd (close_notify_loop m w) (\<lambda>w. ret (SUCCESS, w))"

definition iot_tls_destroy :: "'w mbedtls \<Rightarrow> 'w \<Rightarrow> (IoT_Error_t \<times> 'w) exec" where
  "iot_tls_destroy m w =
     ret (SUCCESS, entropy_free m (ctr_drbg_free m (ssl_config_free m (ssl_free m (pk_free m
       (cacert_free m (clicert_free m (net_free m w))))))))"

section \<open>The interface\<close>

record 'w Network_ops =
  net_connect :: "TLSConnectParams option \<Rightarrow> Network \<Rightarrow> 'w \<Rightarrow> (IoT_Error_t \<times> Network \<times> 'w) exec"
  net_read :: "size_t \<Rightarrow> Timer \<Rightarrow> 'w \<Rightarrow> (IoT_Error_t \<times> u8 list \<times> size_t option \<times> 'w) exec"
  net_write :: "mem \<Rightarrow> nat \<Rightarrow> size_t \<Rightarrow> Timer \<Rightarrow> 'w \<Rightarrow> (IoT_Error_t \<times> size_t \<times> 'w) exec"
  net_disconnect :: "'w \<Rightarrow> (IoT_Error_t \<times> 'w) exec"
  net_isConnected :: "('w \<Rightarrow> IoT_Error_t \<times> 'w) option"
  net_destroy :: "'w \<Rightarrow> (IoT_Error_t \<times> 'w) exec"

text \<open>The pointers \<open>iot_tls_init\<close> stores.\<close>

definition tls_ops :: "'w clock \<Rightarrow> 'w mbedtls \<Rightarrow> 'w Network_ops" where
  "tls_ops gtod m =
     \<lparr> net_connect = iot_tls_connect m, net_read = iot_tls_read gtod m, net_write = iot_tls_write gtod m,
       net_disconnect = iot_tls_disconnect m, net_isConnected = Some iot_tls_is_connected,
       net_destroy = iot_tls_destroy m \<rparr>"


section \<open>What the TLS functions guarantee\<close>

definition tls_read_post :: "size_t \<Rightarrow> u8 list \<Rightarrow> IoT_Error_t \<times> size_t \<times> size_t \<times> u8 list \<times> 'w \<Rightarrow> bool" where
  "tls_read_post len stored = (\<lambda>(rc, len', rxLen', stored', w').
     unat len' + length stored' = unat len + length stored \<and> rxLen' = of_nat (length stored') \<and>
     (rc = SUCCESS \<or> rc = NETWORK_SSL_READ_ERROR))"

lemma tls_read_post_here [simp]:
  "tls_read_post len stored (SUCCESS, len, of_nat (length stored), stored, w)"
  "tls_read_post len stored (NETWORK_SSL_READ_ERROR, len, of_nat (length stored), stored, w)"
  by (simp_all add: tls_read_post_def)

lemma tls_read_post_step:
  assumes "bs \<noteq> []" and "\<not> unat len < length bs"
    and "tls_read_post (len - of_nat (length bs)) (stored @ bs) y"
  shows "tls_read_post len stored y"
proof -
  have "unat len < 2 ^ 64"
    using unsigned_less [of len, where ?'a = nat] by simp
  then have "unat (of_nat (length bs) :: size_t) = length bs"
    using assms(2) by (simp only: unsigned_of_nat) (simp add: take_bit_nat_eq_self_iff)
  then have "unat (len - of_nat (length bs)) = unat len - length bs"
    using assms(2) by (simp add: unat_sub word_le_nat_alt)
  then show ?thesis
    using assms(2,3) by (auto simp: tls_read_post_def)
qed

lemma tls_read_loop_post:
  assumes "tls_read_loop gtod m timer len rxLen stored w = Some y"
  shows "rxLen = of_nat (length stored) \<longrightarrow> (\<forall>a. y = Ret a \<longrightarrow> tls_read_post len stored a)"
  using assms
proof (induction rule: tls_read_loop.raw_induct [rotated, consumes 1, case_names step])
  case (step loop gtod m timer len rxLen stored w y)
  obtain r w1 where r: "ssl_read m len w = (r, w1)" by fastforce
  obtain e w2 where e: "has_timer_expired gtod timer w1 = (e, w2)" by fastforce
  show ?case
  proof (intro impI)
    assume rx: "rxLen = of_nat (length stored)"
    show "\<forall>a. y = Ret a \<longrightarrow> tls_read_post len stored a"
    proof (cases "len > 0")
      case False
      then show ?thesis using step.hyps rx by (auto simp: ret_def)
    next
      case True
      show ?thesis
      proof (cases r)
        case (SslBytes bs)
        have rx': "rxLen + of_nat (length bs) = of_nat (length (stored @ bs))"
          using rx by simp
        have here: "tls_read_post (len - of_nat (length bs)) (stored @ bs)
            (SUCCESS, len - of_nat (length bs), rxLen + of_nat (length bs), stored @ bs, w2)"
          using rx' by (simp add: tls_read_post_def)
        show ?thesis
          using step.hyps True r e SslBytes here tls_read_post_step [of bs len stored]
            step.IH [of gtod m timer "len - of_nat (length bs)" "rxLen + of_nat (length bs)" "stored @ bs" w2 y] rx rx'
          by (auto simp: ret_def Let_def split: if_splits)
      next
        case (SslError n)
        then show ?thesis
          using step.hyps True r e step.IH [of gtod m timer len rxLen stored w2 y] rx
          by (auto simp: ret_def Let_def split: if_splits)
      qed
    qed
  qed
qed

lemma iot_tls_read_laws:
  assumes "iot_tls_read gtod m n t w = ret (rc, bs, rl, w')"
  shows "length bs \<le> unat n"
    and "rc = SUCCESS \<Longrightarrow> length bs = unat n \<and> rl = Some n"
    and "rc \<noteq> SUCCESS \<Longrightarrow> rl = None"
    and "rc \<in> {SUCCESS, NETWORK_SSL_READ_ERROR, NETWORK_SSL_NOTHING_TO_READ, NETWORK_SSL_READ_TIMEOUT_ERROR}"
proof -
  obtain c l rx st w1 where loop: "tls_read_loop gtod m t n 0 [] w = Some (Ret (c, l, rx, st, w1))"
    and res: "(if c \<noteq> SUCCESS then (c, st, None, w1) else if l = 0 then (SUCCESS, st, Some rx, w1)
      else if rx = 0 then (NETWORK_SSL_NOTHING_TO_READ, st, None, w1)
      else (NETWORK_SSL_READ_TIMEOUT_ERROR, st, None, w1)) = (rc, bs, rl, w')"
    using assms
    by (auto simp: iot_tls_read_def bnd_eq_ret simp flip: ret_def split: if_splits prod.splits)
  have post: "unat l + length st = unat n" "rx = of_nat (length st)" "c = SUCCESS \<or> c = NETWORK_SSL_READ_ERROR"
    using tls_read_loop_post [OF loop] by (auto simp: tls_read_post_def)
  show "length bs \<le> unat n" and "rc = SUCCESS \<Longrightarrow> length bs = unat n \<and> rl = Some n"
    and "rc \<noteq> SUCCESS \<Longrightarrow> rl = None"
    and "rc \<in> {SUCCESS, NETWORK_SSL_READ_ERROR, NETWORK_SSL_NOTHING_TO_READ, NETWORK_SSL_READ_TIMEOUT_ERROR}"
    using res post by (auto split: if_splits)
qed

text \<open>The contract of a network, as the MQTT client uses it.\<close>

locale network =
  fixes N :: "'w Network_ops"
  assumes read_le: "net_read N n t w = ret (rc, bs, rl, w') \<Longrightarrow> length bs \<le> unat n"
    and read_success: "net_read N n t w = ret (SUCCESS, bs, rl, w') \<Longrightarrow> length bs = unat n \<and> rl = Some n"
    and read_failure: "net_read N n t w = ret (rc, bs, rl, w') \<Longrightarrow> rc \<noteq> SUCCESS \<Longrightarrow> rl = None"
    and read_codes: "net_read N n t w = ret (rc, bs, rl, w') \<Longrightarrow>
      rc \<in> {SUCCESS, NETWORK_SSL_READ_ERROR, NETWORK_SSL_NOTHING_TO_READ, NETWORK_SSL_READ_TIMEOUT_ERROR}"
    and disconnect_ok: "net_disconnect N w = ret (rc, w') \<Longrightarrow> rc = SUCCESS"
    and destroy_ok: "net_destroy N w = ret (rc, w') \<Longrightarrow> rc = SUCCESS"
begin

lemma read_valid:
  "valid (net_read N n t w) (\<lambda>(rc, bs, rl, w'). length bs \<le> unat n \<and>
     (if rc = SUCCESS then length bs = unat n \<and> rl = Some n else rl = None))"
  using read_le read_success read_failure by (fastforce intro: validI)

lemma read_one:
  assumes "net_read N 1 t w = ret (SUCCESS, bs, rl, w')"
  shows "\<exists>b. bs = [b] \<and> rl = Some 1"
  using read_success [OF assms] by (cases bs) auto

end

interpretation tls: network "tls_ops gtod m" for gtod :: "'w clock" and m :: "'w mbedtls"
proof unfold_locales
  fix n t w rc bs rl w'
  assume "net_read (tls_ops gtod m) n t w = ret (rc, bs, rl, w')"
  then have r: "iot_tls_read gtod m n t w = ret (rc, bs, rl, w')"
    by (simp add: tls_ops_def)
  show "length bs \<le> unat n"
    and "rc \<in> {SUCCESS, NETWORK_SSL_READ_ERROR, NETWORK_SSL_NOTHING_TO_READ, NETWORK_SSL_READ_TIMEOUT_ERROR}"
    using iot_tls_read_laws [OF r] by blast+
  show "rl = None" if "rc \<noteq> SUCCESS"
    using iot_tls_read_laws(3) [OF r that] .
next
  fix n t w bs rl w'
  assume "net_read (tls_ops gtod m) n t w = ret (SUCCESS, bs, rl, w')"
  then show "length bs = unat n \<and> rl = Some n"
    using iot_tls_read_laws(2) [of gtod m n t w SUCCESS bs rl w'] by (simp add: tls_ops_def)
next
  fix w rc w'
  show "net_disconnect (tls_ops gtod m) w = ret (rc, w') \<Longrightarrow> rc = SUCCESS"
    by (auto simp: tls_ops_def iot_tls_disconnect_def bnd_eq_ret)
  show "net_destroy (tls_ops gtod m) w = ret (rc, w') \<Longrightarrow> rc = SUCCESS"
    by (auto simp: tls_ops_def iot_tls_destroy_def)
qed


section \<open>Termination\<close>

lemma unat_sub_of_nat:
  fixes len :: size_t
  assumes "k \<le> unat len"
  shows "unat (len - of_nat k) = unat len - k"
proof -
  have "unat len < 2 ^ 64"
    using unsigned_less [of len, where ?'a = nat] by simp
  then have "unat (of_nat k :: size_t) = k"
    using assms by (simp only: unsigned_of_nat) (simp add: take_bit_nat_eq_self_iff)
  then show ?thesis
    using assms by (simp add: unat_sub word_le_nat_alt)
qed

lemma tls_read_loop_returns:
  assumes "\<And>n w. n > 0 \<Longrightarrow> \<exists>bs w'. ssl_read m n w = (SslBytes bs, w') \<and> bs \<noteq> [] \<and> length bs \<le> unat n"
  shows "\<exists>l rx st w'. tls_read_loop gtod m timer len rxLen stored w = ret (SUCCESS, l, rx, st, w') \<and>
           length stored \<le> length st \<and> (len > 0 \<longrightarrow> length stored < length st)"
proof (induction "unat len" arbitrary: len rxLen stored w rule: less_induct)
  case less
  show ?case
  proof (cases "len > 0")
    case True
    then obtain bs w1 where r: "ssl_read m len w = (SslBytes bs, w1)" "bs \<noteq> []" "length bs \<le> unat len"
      using assms by blast
    obtain e w2 where e: "has_timer_expired gtod timer w1 = (e, w2)" by fastforce
    have "unat (len - of_nat (length bs)) < unat len"
      using r(2,3) unat_sub_of_nat [OF r(3)] by (cases bs) auto
    from less [OF this, of "rxLen + of_nat (length bs)" "stored @ bs" w2] obtain l rx st w' where
      "tls_read_loop gtod m timer (len - of_nat (length bs)) (rxLen + of_nat (length bs)) (stored @ bs) w2 =
         ret (SUCCESS, l, rx, st, w')" and le: "length (stored @ bs) \<le> length st"
      by blast
    moreover have "length stored < length st"
      using r(2) le by (cases bs) auto
    ultimately show ?thesis
      using True r e by (cases e) (subst tls_read_loop.simps, auto simp: Let_def)+
  qed (subst tls_read_loop.simps, auto)
qed

lemma tls_write_loop_returns:
  assumes "\<And>w. has_timer_expired gtod timer w = (False, tick w)"
    and "\<And>bs w. bs \<noteq> [] \<Longrightarrow> \<exists>n w'. ssl_write m bs w = (n, w') \<and> 0 < n \<and> n \<le> int (length bs)"
    and "off + unat len \<le> length msg" and "written \<le> len"
  shows "\<exists>w'. tls_write_loop gtod m msg off len timer written r w = ret (False, len, w')"
  using assms(4)
proof (induction "unat (len - written)" arbitrary: written r w rule: less_induct)
  case less
  show ?case
  proof (cases "written < len")
    case False
    then show ?thesis
      using less.prems by (subst tls_write_loop.simps) auto
  next
    case True
    let ?bs = "take (unat (len - written)) (drop (off + unat written) msg)"
    have sub: "unat (len - written) = unat len - unat written" "unat written < unat len"
      using True less.prems by (simp_all add: unat_sub word_less_nat_alt)
    then have rd: "mem_read msg (off + unat written) (unat (len - written)) = Some ?bs"
      and l: "length ?bs = unat len - unat written"
      using assms(3) by (simp_all add: mem_read_def)
    then obtain n w1 where n: "ssl_write m ?bs (tick (tick w)) = (n, w1)" "0 < n" "n \<le> int (length ?bs)"
      using assms(2) [of ?bs "tick (tick w)"] sub by fastforce
    have inner: "tls_write_inner gtod m msg off len timer written r (tick w) = ret (False, Some n, w1)"
      using n rd by (subst tls_write_inner.simps) (simp add: assms(1))
    obtain k where k: "n = int k" "0 < k" "k \<le> unat len - unat written"
      using n l by (metis of_nat_0_less_iff of_nat_le_iff zero_less_imp_eq_int)
    have wk: "unat (written + of_nat k) = unat written + k"
    proof -
      have "unat len < 2 ^ 64"
        using unsigned_less [of len, where ?'a = nat] by simp
      then have "unat (of_nat k :: size_t) = k" "unat written + k < 2 ^ 64"
        using k(3) sub(2) by (simp_all only: unsigned_of_nat) (simp_all add: take_bit_nat_eq_self_iff)
      then show ?thesis
        by (simp add: unat_word_ariths)
    qed
    then have le: "written + of_nat k \<le> len"
      using k(3) sub(2) by (simp add: word_le_nat_alt)
    have "unat (len - (written + of_nat k)) < unat (len - written)"
      using wk k(2) le sub(1) k(3) by (simp add: unat_sub)
    from less.hyps [OF this le] obtain w2 where
      "tls_write_loop gtod m msg off len timer (written + of_nat k) (Some n) w1 = ret (False, len, w2)"
      by blast
    then show ?thesis
      using True inner k(1) by (subst tls_write_loop.simps) (simp add: assms(1))
  qed
qed

section \<open>Memory safety of reading\<close>

lemma fault_only_case_ssl [nf]:
  "(\<And>bs. p = SslBytes bs \<Longrightarrow> fault_only (f bs) P) \<Longrightarrow> (\<And>e. p = SslError e \<Longrightarrow> fault_only (g e) P) \<Longrightarrow>
   fault_only (case_ssl_result f g p) P"
  by (cases p) simp_all

text \<open>The contract of \<open>mbedtls_ssl_read\<close>: it stores at most as many bytes as it was asked for.\<close>

definition ssl_reads_within :: "'w mbedtls \<Rightarrow> bool" where
  "ssl_reads_within m \<longleftrightarrow> (\<forall>n w bs w'. ssl_read m n w = (SslBytes bs, w') \<longrightarrow> length bs \<le> unat n)"

lemma tls_read_no_fault:
  assumes "ssl_reads_within m"
  shows "fault_only (iot_tls_read gtd m n t w) P"
proof -
  have "fault_only (tls_read_loop gtd m t l r st w) False" for l r st w
  proof (rule fault_only_resI)
    fix y assume "tls_read_loop gtd m t l r st w = Some y"
    then show "y = Fault \<longrightarrow> False"
      using assms
    proof (induction rule: tls_read_loop.raw_induct [rotated, consumes 1, case_names step])
      case (step loop gtd m t l r st w y)
      have IH: "fault_only (loop gtd m t l r st w) False" for l r st w
        using step.IH [OF _ step.prems] by (rule fault_only_resI)
      show ?case
        by (rule fault_only_res [OF _ step.hyps], intro nf IH)
          (use step.prems in \<open>fastforce simp: ssl_reads_within_def\<close>)
    qed
  qed
  then show ?thesis
    unfolding iot_tls_read_def by (intro nf) (auto simp: fault_only_def)
qed

section \<open>Properties\<close>


text \<open>The connection of the witnesses: mbedTLS hands out and takes one byte at a time; the world
  counts the clock readings and the bytes.\<close>

definition slow_tls :: "(int \<times> nat) mbedtls" where
  "slow_tls =
     \<lparr> net_init = id, ssl_init = id, ssl_config_init = id, ctr_drbg_init = id, cacert_init = id,
       clicert_init = id, pk_init = id, entropy_init = id,
       ctr_drbg_seed = (\<lambda>p w. (0, w)), x509_crt_parse_ca = (\<lambda>c n w. (0, w)),
       x509_crt_parse_se = (\<lambda>l p w. (0, w)), pk_parse_se = (\<lambda>l p w. (0, w)),
       mnet_connect = (\<lambda>h p w. (0, w)), net_set_block = (\<lambda>w. (0, w)), ssl_config_defaults = (\<lambda>w. (0, w)),
       ssl_conf_verify = (\<lambda>f. id), ssl_conf_authmode = (\<lambda>a. id), ssl_conf_rng = id, ssl_conf_ca_chain = id,
       ssl_conf_own_cert = (\<lambda>w. (0, w)), ssl_conf_read_timeout = (\<lambda>t. id), ssl_setup = (\<lambda>w. (0, w)),
       ssl_set_hostname = (\<lambda>h w. (0, w)), ssl_set_bio = id, ssl_handshake = (\<lambda>w. (0, w)),
       ssl_get_verify_result = (\<lambda>w. (0, w)),
       ssl_write = (\<lambda>bs (t, n). (1, (t, n + 1))),
       ssl_read = (\<lambda>len (t, n). (SslBytes [of_nat n], (t, n + 1))),
       ssl_close_notify = (\<lambda>w. (0, w)), net_free = id, clicert_free = id, cacert_free = id, pk_free = id,
       ssl_free = id, ssl_config_free = id, ctr_drbg_free = id, entropy_free = id \<rparr>"

text \<open>A clock that advances one second with every reading.\<close>

definition ticking :: "(int \<times> nat) clock" where
  "ticking = (\<lambda>(t, n). (\<lparr>tv_sec = t, tv_usec = 0\<rparr>, (t + 1, n)))"

definition timer_at :: "int \<Rightarrow> Timer" where
  "timer_at t = \<lparr>end_time = \<lparr>tv_sec = t, tv_usec = 0\<rparr>\<rparr>"

lemma ticking_expired: "has_timer_expired ticking (timer_at e) (t, n) = (e \<le> t, (t + 1, n))"
  by (auto simp: has_timer_expired_def ticking_def timer_at_def timersub_def Let_def)


text \<open>
  Writing to the TLS connection.  If the timer does not expire and every call of mbedTLS
  takes between one and all of the offered bytes, \<open>iot_tls_write\<close> returns \<open>SUCCESS\<close> after a
  finite number of calls, having handed over the whole message, and reports its length.
\<close>

theorem iot_tls_write_total:
  assumes "\<And>w. has_timer_expired gtod timer w = (False, tick w)"
    and "\<And>bs w. bs \<noteq> [] \<Longrightarrow> \<exists>n w'. ssl_write m bs w = (n, w') \<and> 0 < n \<and> n \<le> int (length bs)"
    and "off + unat len \<le> length msg"
  shows "\<exists>w'. iot_tls_write gtod m msg off len timer w = ret (SUCCESS, len, w')"
  using tls_write_loop_returns [OF assms(1,2,3), of 0 None w]
  by (auto simp: iot_tls_write_def assms(1))

theorem iot_tls_write_total_witness:
  "\<exists>w'. iot_tls_write (\<lambda>w. (\<lparr>tv_sec = 0, tv_usec = 0\<rparr>, w)) slow_tls [1, 2, 3, 4] 1 3 (timer_at 1) (0, 0) =
     ret (SUCCESS, 3, w')"
proof -
  have c: "has_timer_expired (\<lambda>w. (\<lparr>tv_sec = 0, tv_usec = 0\<rparr>, w)) (timer_at 1) w = (False, id w)"
    for w :: "int \<times> nat"
    by (simp add: has_timer_expired_def timer_at_def timersub_def Let_def)
  have w: "\<exists>n w'. ssl_write slow_tls bs w = (n, w') \<and> 0 < n \<and> n \<le> int (length bs)" if "bs \<noteq> []" for bs w
    using that by (cases w; cases bs) (simp_all add: slow_tls_def)
  show ?thesis
    by (rule iot_tls_write_total [OF c w]) simp_all
qed


lemma iot_tls_connect_outcome:
  "valid (iot_tls_connect m None n w) (\<lambda>(rc, n', w').
     rc = SUCCESS \<longrightarrow> tlsConnectParams n' = tlsConnectParams n \<and>
       (\<exists>w1 w2. handshake_loop m w1 = ret (SUCCESS, w2) \<and>
         (tls_ServerVerificationFlag (tlsConnectParams n) \<longrightarrow>
            fst (ssl_get_verify_result m w2) = 0 \<and> tlsDataParams_flags n' = 0)))"
  unfolding iot_tls_connect_def option.case
  by (intro wp) (auto, metis fst_conv)

text \<open>
  C34: a verified peer.  If the network was configured to verify the server and
  \<open>iot_tls_connect\<close> reports \<open>SUCCESS\<close>, then the certificate verification result that mbedTLS
  gave for the handshake was 0 (it is kept in \<open>tlsDataParams.flags\<close>), for every behaviour of
  mbedTLS, and the connection parameters are those the network was configured with.
\<close>

theorem iot_tls_connect_verified:
  assumes "iot_tls_connect m None n w = ret (SUCCESS, n', w')"
    and "tls_ServerVerificationFlag (tlsConnectParams n)"
  shows "\<exists>w1 w2. handshake_loop m w1 = ret (SUCCESS, w2) \<and>
           fst (ssl_get_verify_result m w2) = 0 \<and> tlsDataParams_flags n' = 0 \<and>
           tlsConnectParams n' = tlsConnectParams n"
  using iot_tls_connect_outcome [of m n w, THEN validD, OF assms(1)] assms(2) by simp

theorem iot_tls_connect_verified_witness:
  "\<exists>n w'. tls_ServerVerificationFlag (tlsConnectParams n) \<and>
     iot_tls_connect slow_tls None n (0, 0) = ret (SUCCESS, n, w') \<and> tlsDataParams_flags n = 0"
proof -
  let ?n = "\<lparr>tlsConnectParams = \<lparr>tls_pRootCALocation = Some [65, 0], tls_pDeviceCertLocation = None,
    tls_pDevicePrivateKeyLocation = None, tls_pDestinationURL = None, tls_DestinationPort = 8883,
    tls_timeout_ms = 5000, tls_ServerVerificationFlag = True\<rparr>, tlsDataParams_flags = 0\<rparr>"
  have h: "handshake_loop slow_tls w = ret (SUCCESS, w)" for w
    by (subst handshake_loop.simps) (simp add: slow_tls_def)
  have c: "iot_tls_connect slow_tls None ?n (0, 0) = ret (SUCCESS, ?n, (0, 0))"
    using h by (simp add: iot_tls_connect_def Let_def) (simp add: slow_tls_def tls_setup_contexts_def)
  have "tlsDataParams_flags ?n = 0"
    using iot_tls_connect_verified [OF c] by simp
  moreover have "tls_ServerVerificationFlag (tlsConnectParams ?n)"
    by simp
  ultimately show ?thesis
    using c by blast
qed

text \<open>
  A partial write can be reported as complete.  When the timer expires between the two tests
  of \<open>iot_tls_write\<close>, the loop adds the result of the previous call of mbedTLS a second time:
  here a connection that takes one byte per call has taken one of the two bytes of the
  message, and the function still returns \<open>SUCCESS\<close> with a written length of two.
\<close>

theorem iot_tls_write_counts_twice:
  "iot_tls_write ticking slow_tls [7, 8] 0 2 (timer_at 3) (0, 0) = ret (SUCCESS, 2, (5, 1))"
proof -
  have inner: "tls_write_inner ticking slow_tls [7, 8] 0 2 (timer_at 3) 0 None (1, 0) = ret (False, Some 1, (2, 1))"
    by (subst tls_write_inner.simps) (simp add: ticking_expired mem_read_def slow_tls_def)
  have inner2: "tls_write_inner ticking slow_tls [7, 8] 0 2 (timer_at 3) 1 (Some 1) (3, 1) = ret (False, Some 1, (4, 1))"
    by (subst tls_write_inner.simps) (simp add: ticking_expired)
  have "tls_write_loop ticking slow_tls [7, 8] 0 2 (timer_at 3) 2 (Some 1) (4, 1) = ret (False, 2, (4, 1))"
    by (subst tls_write_loop.simps) simp
  then have "tls_write_loop ticking slow_tls [7, 8] 0 2 (timer_at 3) 1 (Some 1) (2, 1) = ret (False, 2, (4, 1))"
    using inner2 by (subst tls_write_loop.simps) (simp add: ticking_expired)
  then have "tls_write_loop ticking slow_tls [7, 8] 0 2 (timer_at 3) 0 None (0, 0) = ret (False, 2, (4, 1))"
    using inner by (subst tls_write_loop.simps) (simp add: ticking_expired)
  then show ?thesis
    by (simp add: iot_tls_write_def ticking_expired)
qed

end
