(* ===== verification/Mqtt_Codec.thy ===== *)
theory Mqtt_Codec
  imports Iot_Types
begin

text \<open>
  The byte-level primitives of \<open>src/aws_iot_mqtt_client_common_internal.c\<close>: the fixed header,
  the variable-length \<open>remaining length\<close> field, 16-bit integers, strings and packets without
  a body.  A write pointer \<open>unsigned char *ptr\<close> into a buffer is a pair of the buffer and the
  offset, and every write is checked against the size of the buffer.

  The lemmas reduce each writer to \<open>emit\<close>, one checked copy of the bytes the writer stands
  for, which is how the packet serialisers are later shown to produce the frame of the MQTT
  specification.  The locale \<open>wire_field\<close> is the contract between a writer and its reader;
  it is interpreted for the remaining length and for 16-bit integers.
\<close>

section \<open>The fixed header\<close>

text \<open>
  \<open>MQTTHeader\<close> is a union of a byte and bit fields; on the little-endian layout the fields are,
  from the least significant bit, \<open>retain\<close> (1), \<open>qos\<close> (2), \<open>dup\<close> (1) and \<open>type\<close> (4).
\<close>

type_synonym MQTTHeader = u8

definition header_type :: "MQTTHeader \<Rightarrow> u8" where
  "header_type h = drop_bit 4 h"

definition header_dup :: "MQTTHeader \<Rightarrow> u8" where
  "header_dup h = drop_bit 3 h AND 1"

definition header_qos :: "MQTTHeader \<Rightarrow> u8" where
  "header_qos h = drop_bit 1 h AND 3"

definition header_retain :: "MQTTHeader \<Rightarrow> u8" where
  "header_retain h = h AND 1"

definition set_header_type :: "u8 \<Rightarrow> MQTTHeader \<Rightarrow> MQTTHeader" where
  "set_header_type v h = (h AND 0x0F) OR push_bit 4 (v AND 15)"

definition set_header_dup :: "u8 \<Rightarrow> MQTTHeader \<Rightarrow> MQTTHeader" where
  "set_header_dup v h = (h AND 0xF7) OR push_bit 3 (v AND 1)"

definition set_header_qos :: "u8 \<Rightarrow> MQTTHeader \<Rightarrow> MQTTHeader" where
  "set_header_qos v h = (h AND 0xF9) OR push_bit 1 (v AND 3)"

definition set_header_retain :: "u8 \<Rightarrow> MQTTHeader \<Rightarrow> MQTTHeader" where
  "set_header_retain v h = (h AND 0xFE) OR (v AND 1)"

lemmas header_defs = header_type_def header_dup_def header_qos_def header_retain_def
  set_header_type_def set_header_dup_def set_header_qos_def set_header_retain_def

fun header_type_of_message :: "MessageTypes \<Rightarrow> u8 option" where
  "header_type_of_message UNKNOWN = None"
| "header_type_of_message CONNECT = Some 0x01"
| "header_type_of_message CONNACK = Some 0x02"
| "header_type_of_message PUBLISH = Some 0x03"
| "header_type_of_message PUBACK = Some 0x04"
| "header_type_of_message PUBREC = Some 0x05"
| "header_type_of_message PUBREL = Some 0x06"
| "header_type_of_message PUBCOMP = Some 0x07"
| "header_type_of_message SUBSCRIBE = Some 0x08"
| "header_type_of_message SUBACK = Some 0x09"
| "header_type_of_message UNSUBSCRIBE = Some 0x0A"
| "header_type_of_message UNSUBACK = Some 0x0B"
| "header_type_of_message PINGREQ = Some 0x0C"
| "header_type_of_message PINGRESP = Some 0x0D"
| "header_type_of_message DISCONNECT = Some 0x0E"

definition aws_iot_mqtt_internal_init_header ::
  "MessageTypes \<Rightarrow> QoS \<Rightarrow> u8 \<Rightarrow> u8 \<Rightarrow> IoT_Error_t + MQTTHeader" where
  "aws_iot_mqtt_internal_init_header message_type qos dup retained =
     (case header_type_of_message message_type of
        None \<Rightarrow> Inl FAILURE
      | Some t \<Rightarrow>
          (let h = set_header_type t 0;
               h = set_header_dup (if dup = 1 then 0x01 else 0x00) h;
               h = set_header_qos (if qos = QOS0 then 0x00 else if qos = QOS1 then 0x01 else 0x00) h;
               h = set_header_retain (if retained = 1 then 0x01 else 0x00) h
           in Inr h))"

section \<open>Reading and writing through a pointer\<close>

function write_len_loop :: "mem \<Rightarrow> nat \<Rightarrow> nat \<Rightarrow> u32 \<Rightarrow> (mem \<times> nat) option" where
  "write_len_loop buf ptr outLen len =
     (let encodedByte = ucast (len mod 128) :: u8;
          len' = len div 128;
          encodedByte = (if len' > 0 then encodedByte OR 0x80 else encodedByte)
      in do {
        buf \<leftarrow> mem_write buf (ptr + outLen) [encodedByte];
        if len' > 0 then write_len_loop buf ptr (outLen + 1) len' else Some (buf, outLen + 1)
      })"
  by pat_completeness auto
termination
proof (relation "measure (\<lambda>(buf, ptr, outLen, len). unat len)", goal_cases)
  case (2 buf ptr outLen len b x y z)
  then have "0 < unat len div 128"
    by (simp add: word_less_nat_alt unat_div)
  then show ?case
    using "2" by (simp add: unat_div)
qed simp

declare write_len_loop.simps [simp del]

definition aws_iot_mqtt_internal_write_len_to_buffer ::
  "mem \<Rightarrow> nat \<Rightarrow> u32 \<Rightarrow> (mem \<times> nat) option" where
  "aws_iot_mqtt_internal_write_len_to_buffer buf ptr len = write_len_loop buf ptr 0 len"

function decode_len_loop ::
  "mem \<Rightarrow> nat \<Rightarrow> u32 \<Rightarrow> nat \<Rightarrow> u32 \<Rightarrow> (IoT_Error_t + u32 \<times> nat) option" where
  "decode_len_loop buf ptr multiplier len decodedLen =
     (let len = len + 1
      in if len > unat MAX_NO_OF_REMAINING_LENGTH_BYTES
         then Some (Inl MQTT_DECODE_REMAINING_LENGTH_ERROR)
         else do {
           encodedByte \<leftarrow> mem_get buf ptr;
           let ptr = ptr + 1;
           let decodedLen = decodedLen + ucast (encodedByte AND 127) * multiplier;
           let multiplier = multiplier * 128;
           if encodedByte AND 128 \<noteq> 0 then decode_len_loop buf ptr multiplier len decodedLen
           else Some (Inr (decodedLen, len))
         })"
  by pat_completeness auto
termination
  by (relation "measure (\<lambda>(buf, ptr, multiplier, len, decodedLen). 4 - len)")
    (auto simp: MAX_NO_OF_REMAINING_LENGTH_BYTES_def)

declare decode_len_loop.simps [simp del]

definition aws_iot_mqtt_internal_decode_remaining_length_from_buffer ::
  "mem \<Rightarrow> nat \<Rightarrow> (IoT_Error_t + u32 \<times> nat) option" where
  "aws_iot_mqtt_internal_decode_remaining_length_from_buffer buf ptr =
     decode_len_loop buf ptr 1 0 0"

definition aws_iot_mqtt_internal_get_final_packet_length_from_remaining_length ::
  "u32 \<Rightarrow> u32" where
  "aws_iot_mqtt_internal_get_final_packet_length_from_remaining_length rem_len =
     (let rem_len = rem_len + 1
      in if rem_len < 128 then rem_len + 1
         else if rem_len < 16384 then rem_len + 2
         else if rem_len < 2097152 then rem_len + 3
         else rem_len + 4)"

definition aws_iot_mqtt_internal_read_uint16_t :: "mem \<Rightarrow> nat \<Rightarrow> (u16 \<times> nat) option" where
  "aws_iot_mqtt_internal_read_uint16_t buf ptr = do {
     firstByte \<leftarrow> mem_get buf ptr;
     secondByte \<leftarrow> mem_get buf (ptr + 1);
     Some (ucast secondByte + 256 * ucast firstByte, ptr + 2) }"

definition aws_iot_mqtt_internal_write_uint_16 ::
  "mem \<Rightarrow> nat \<Rightarrow> u16 \<Rightarrow> (mem \<times> nat) option" where
  "aws_iot_mqtt_internal_write_uint_16 buf ptr anInt = do {
     buf \<leftarrow> mem_write buf ptr [ucast (anInt div 256)];
     let ptr = ptr + 1;
     buf \<leftarrow> mem_write buf ptr [ucast (anInt mod 256)];
     Some (buf, ptr + 1) }"

definition aws_iot_mqtt_internal_read_char :: "mem \<Rightarrow> nat \<Rightarrow> (u8 \<times> nat) option" where
  "aws_iot_mqtt_internal_read_char buf ptr = do {
     c \<leftarrow> mem_get buf ptr;
     Some (c, ptr + 1) }"

definition aws_iot_mqtt_internal_write_char :: "mem \<Rightarrow> nat \<Rightarrow> u8 \<Rightarrow> (mem \<times> nat) option" where
  "aws_iot_mqtt_internal_write_char buf ptr c = do {
     buf \<leftarrow> mem_write buf ptr [c];
     Some (buf, ptr + 1) }"

text \<open>\<open>memcpy\<close> from a pointer: reading past the source object, or through NULL, is an overrun.\<close>

definition c_memcpy :: "mem \<Rightarrow> nat \<Rightarrow> cptr \<Rightarrow> nat \<Rightarrow> mem option" where
  "c_memcpy buf ptr src n = do {
     src \<leftarrow> src;
     bs \<leftarrow> mem_read src 0 n;
     mem_write buf ptr bs }"

definition aws_iot_mqtt_internal_write_utf8_string ::
  "mem \<Rightarrow> nat \<Rightarrow> cptr \<Rightarrow> u16 \<Rightarrow> (mem \<times> nat) option" where
  "aws_iot_mqtt_internal_write_utf8_string buf ptr str stringLen = do {
     (buf, ptr) \<leftarrow> aws_iot_mqtt_internal_write_uint_16 buf ptr stringLen;
     if stringLen > 0 then do {
       buf \<leftarrow> c_memcpy buf ptr str (unat stringLen);
       Some (buf, ptr + unat stringLen) }
     else Some (buf, ptr) }"

text \<open>The idiom \<open>ptr += aws_iot_mqtt_internal_write_len_to_buffer(ptr, n)\<close> of the serialisers.\<close>

definition put_len :: "mem \<Rightarrow> nat \<Rightarrow> u32 \<Rightarrow> (mem \<times> nat) option" where
  "put_len buf ptr n = do {
     (buf, k) \<leftarrow> aws_iot_mqtt_internal_write_len_to_buffer buf ptr n;
     Some (buf, ptr + k) }"

definition aws_iot_mqtt_internal_serialize_zero ::
  "mem \<Rightarrow> size_t \<Rightarrow> MessageTypes \<Rightarrow> (IoT_Error_t + mem \<times> size_t) option" where
  "aws_iot_mqtt_internal_serialize_zero pTxBuf txBufLen packetType =
     (if 4 > txBufLen then Some (Inl MQTT_TX_BUFFER_TOO_SHORT_ERROR)
      else case aws_iot_mqtt_internal_init_header packetType QOS0 0 0 of
        Inl rc \<Rightarrow> Some (Inl rc)
      | Inr header \<Rightarrow> do {
          (buf, ptr) \<leftarrow> aws_iot_mqtt_internal_write_char pTxBuf 0 header;
          (buf, ptr) \<leftarrow> put_len buf ptr 0;
          Some (Inr (buf, of_nat ptr)) })"


section \<open>Writers as checked copies\<close>

definition emit :: "mem \<Rightarrow> nat \<Rightarrow> u8 list \<Rightarrow> (mem \<times> nat) option" where
  "emit buf ptr bs = map_option (\<lambda>b. (b, ptr + length bs)) (mem_write buf ptr bs)"

lemma emit_Nil [simp]: "ptr \<le> length buf \<Longrightarrow> emit buf ptr [] = Some (buf, ptr)"
  by (simp add: emit_def mem_write_def)

lemma emit_append:
  "Option.bind (emit buf ptr xs) (\<lambda>(b, p). emit b p ys) = emit buf ptr (xs @ ys)"
proof (cases "ptr + length xs + length ys \<le> length buf")
  case True
  then have "take (ptr + length xs) (take ptr buf @ xs @ drop (ptr + length xs) buf) = take ptr buf @ xs"
    by simp
  with True show ?thesis
    by (simp add: emit_def mem_write_def ac_simps)
next
  case False
  then show ?thesis
    by (auto simp: emit_def mem_write_def ac_simps)
qed

lemma emit_Cons:
  "Option.bind (mem_write buf ptr [x]) (\<lambda>b. emit b (Suc ptr) ys) = emit buf ptr (x # ys)"
  using emit_append [of buf ptr "[x]" ys] by (cases "mem_write buf ptr [x]") (simp_all add: emit_def)

lemma emit_Some:
  assumes "ptr + length bs \<le> length buf"
  shows "emit buf ptr bs = Some (take ptr buf @ bs @ drop (ptr + length bs) buf, ptr + length bs)"
  using assms by (simp add: emit_def mem_write_def)

lemma emit_None: "length buf < ptr + length bs \<Longrightarrow> emit buf ptr bs = None"
  by (simp add: emit_def mem_write_def)

section \<open>Bits of a byte\<close>

lemma u8_and_127: "unat (b AND 127) = unat (b::u8) mod 128"
proof -
  have "b AND 127 = take_bit 7 b"
    by (simp add: take_bit_eq_mask mask_eq_exp_minus_1)
  then have "unat (b AND 127) = take_bit 7 (unat b)"
    by (simp only: unsigned_take_bit_eq)
  then show ?thesis
    by (simp add: take_bit_eq_mod)
qed

lemma u8_and_128: "(b::u8) AND 128 = 0 \<longleftrightarrow> unat b < 128"
proof -
  have "b AND 128 = 0 \<longleftrightarrow> \<not> bit b 7"
    using and_exp_eq_0_iff_not_bit [of b 7] by simp
  also have "bit b 7 \<longleftrightarrow> bit (unat b) 7"
    by (simp add: bit_unsigned_iff)
  also have "\<dots> \<longleftrightarrow> odd (unat b div 128)"
    by (simp add: bit_iff_odd)
  also have "\<dots> \<longleftrightarrow> \<not> unat b < 128"
  proof (cases "unat b < 128")
    case False
    then have "unat b div 128 = 1"
      using u8_lt [of b] by (intro div_nat_eqI) auto
    with False show ?thesis by simp
  qed simp
  finally show ?thesis by simp
qed

lemma u8_or_128: "unat (b::u8) < 128 \<Longrightarrow> b OR 128 = b + 128"
  by (simp add: disjunctive_add_eq_or u8_and_128)

section \<open>The remaining length field\<close>

text \<open>The encoding of the MQTT specification: base 128, least significant digit first, the top
  bit marking that more digits follow.\<close>

fun enc_len :: "nat \<Rightarrow> u8 list" where
  "enc_len n =
     (if n < 128 then [of_nat n] else of_nat (n mod 128 + 128) # enc_len (n div 128))"

declare enc_len.simps [simp del]

lemma u32_digit: "(ucast (l mod 128 :: u32) :: u8) = of_nat (unat l mod 128)"
  by (rule word_unat_eq_iff [THEN iffD2])
    (simp add: unsigned_ucast_eq unsigned_of_nat take_bit_eq_mod unat_mod)

lemma u32_digit_more: "(ucast (l mod 128 :: u32) OR 0x80 :: u8) = of_nat (unat l mod 128 + 128)"
  by (simp add: u32_digit u8_or_128 unsigned_of_nat take_bit_eq_mod)

lemma write_len_loop_emit:
  "write_len_loop buf ptr outLen len =
     map_option (\<lambda>(b, p). (b, p - ptr)) (emit buf (ptr + outLen) (enc_len (unat len)))"
proof (induction buf ptr outLen len rule: write_len_loop.induct)
  case (1 buf ptr outLen len)
  have pos: "len div 128 > 0 \<longleftrightarrow> \<not> unat len < 128"
    by (simp add: word_less_nat_alt unat_div div_greater_zero_iff not_less)
  show ?case
  proof (cases "unat len < 128")
    case True
    then show ?thesis
      by (subst write_len_loop.simps, subst enc_len.simps)
        (auto simp: pos u32_digit emit_def split: bind_split)
  next
    case False
    have "write_len_loop buf ptr outLen len =
        Option.bind (mem_write buf (ptr + outLen) [of_nat (unat len mod 128 + 128)])
          (\<lambda>b. map_option (\<lambda>(b, p). (b, p - ptr)) (emit b (Suc (ptr + outLen)) (enc_len (unat (len div 128)))))"
      using False pos "1.IH" [OF refl refl refl]
      by (subst write_len_loop.simps) (auto simp: u32_digit_more Let_def split: bind_split)
    also have "\<dots> = map_option (\<lambda>(b, p). (b, p - ptr))
        (emit buf (ptr + outLen) (of_nat (unat len mod 128 + 128) # enc_len (unat (len div 128))))"
      by (simp add: emit_Cons [symmetric] map_option_bind comp_def)
    finally show ?thesis
      using False by (simp add: enc_len.simps [of "unat len"] unat_div)
  qed
qed

lemma write_len_emit:
  "aws_iot_mqtt_internal_write_len_to_buffer buf ptr len =
     map_option (\<lambda>(b, p). (b, p - ptr)) (emit buf ptr (enc_len (unat len)))"
  by (simp add: aws_iot_mqtt_internal_write_len_to_buffer_def write_len_loop_emit)

lemma length_enc_len:
  "length (enc_len n) \<le> 4 \<longleftrightarrow> n < 268435456"
  "length (enc_len n) =
     (if n < 128 then 1 else if n < 16384 then 2 else if n < 2097152 then 3
      else if n < 268435456 then 4 else length (enc_len n))"
  "0 < length (enc_len n)"
proof -
  have unfold: "length (enc_len m) = (if m < 128 then 1 else Suc (length (enc_len (m div 128))))" for m
    by (simp add: enc_len.simps [of m])
  show pos: "0 < length (enc_len n)" for n
    by (simp add: unfold [of n])
  have l4: "length (enc_len n) =
     (if n < 128 then 1 else if n < 16384 then 2 else if n < 2097152 then 3
      else if n < 268435456 then 4 else 4 + length (enc_len (n div 268435456)))"
    by (simp add: unfold [of n] unfold [of "n div 128"] unfold [of "n div 16384"]
        unfold [of "n div 2097152"] div_mult2_eq [symmetric] div_less_iff_less_mult)
  then show "length (enc_len n) =
     (if n < 128 then 1 else if n < 16384 then 2 else if n < 2097152 then 3
      else if n < 268435456 then 4 else length (enc_len n))"
    by simp
  show "length (enc_len n) \<le> 4 \<longleftrightarrow> n < 268435456"
    using l4 pos [of "n div 268435456"] by (auto split: if_splits)
qed

lemma len_byte_digit:
  assumes "m < 128"
  shows "ucast ((of_nat (m + 128) :: u8) AND 127) = (of_nat m :: u32)"
    and "(of_nat (m + 128) :: u8) AND 128 \<noteq> 0"
    and "ucast ((of_nat m :: u8) AND 127) = (of_nat m :: u32)"
    and "(of_nat m :: u8) AND 128 = 0"
proof -
  have u: "unat (of_nat (m + 128) :: u8) = m + 128" "unat (of_nat m :: u8) = m"
    using assms by (simp_all add: unsigned_of_nat take_bit_eq_mod del: of_nat_add)
  have eq: "ucast b = (of_nat (unat b) :: u32)" for b :: u8
    by (rule word_unat_eq_iff [THEN iffD2])
      (simp add: unsigned_ucast_eq unsigned_of_nat take_bit_eq_mod)
  show "ucast ((of_nat (m + 128) :: u8) AND 127) = (of_nat m :: u32)"
    and "ucast ((of_nat m :: u8) AND 127) = (of_nat m :: u32)"
    unfolding eq u8_and_127 u using assms by simp_all
  show "(of_nat (m + 128) :: u8) AND 128 \<noteq> 0" and "(of_nat m :: u8) AND 128 = 0"
    unfolding u8_and_128 u using assms by simp_all
qed

lemma decode_len_loop_enc:
  assumes "drop ptr buf = enc_len n @ rest" and "len + length (enc_len n) \<le> 4"
  shows "decode_len_loop buf ptr mult len acc =
           Some (Inr (acc + of_nat n * mult, len + length (enc_len n)))"
  using assms
proof (induction n arbitrary: ptr mult len acc rule: enc_len.induct)
  case (1 n)
  show ?case
  proof (cases "n < 128")
    case True
    with "1.prems"(1) have "mem_get buf ptr = Some (of_nat n)"
      by (metis enc_len.simps append_Cons mem_get_def drop_eq_Nil list.distinct(1) nth_via_drop not_less)
    with True "1.prems"(2) show ?thesis
      by (subst decode_len_loop.simps)
        (simp add: MAX_NO_OF_REMAINING_LENGTH_BYTES_def len_byte_digit enc_len.simps [of n])
  next
    case False
    define m where "m = n mod 128"
    have enc: "enc_len n = of_nat (m + 128) # enc_len (n div 128)"
      using False by (simp add: enc_len.simps [of n] m_def)
    have get: "mem_get buf ptr = Some (of_nat (m + 128))"
      using "1.prems"(1) unfolding enc
      by (metis append_Cons mem_get_def drop_eq_Nil list.distinct(1) nth_via_drop not_less)
    have rest: "drop (ptr + 1) buf = enc_len (n div 128) @ rest"
      using "1.prems"(1) unfolding enc by (metis append_Cons drop_Suc Suc_eq_plus1 list.sel(3) tl_drop)
    have m: "m < 128" by (simp add: m_def)
    have "of_nat n = of_nat m + of_nat (n div 128) * (128 :: u32)"
      unfolding m_def by (metis of_nat_add of_nat_mult of_nat_numeral mod_div_mult_eq)
    then have val: "acc + of_nat m * mult + of_nat (n div 128) * (mult * 128) = acc + of_nat n * mult"
      by (simp add: algebra_simps)
    have "decode_len_loop buf ptr mult len acc =
        decode_len_loop buf (ptr + 1) (mult * 128) (len + 1) (acc + of_nat m * mult)"
      using "1.prems"(2) length_enc_len(3) [of "n div 128"] m get
      by (subst decode_len_loop.simps)
        (simp add: MAX_NO_OF_REMAINING_LENGTH_BYTES_def len_byte_digit enc del: of_nat_add)
    also have "\<dots> = Some (Inr (acc + of_nat m * mult + of_nat (n div 128) * (mult * 128),
        len + 1 + length (enc_len (n div 128))))"
      using False rest "1.prems"(2) by (intro "1.IH") (simp_all add: enc)
    finally show ?thesis
      by (simp only: val enc) simp
  qed
qed

lemma decode_len_enc:
  assumes "drop ptr buf = enc_len n @ rest" and "n < 268435456"
  shows "aws_iot_mqtt_internal_decode_remaining_length_from_buffer buf ptr =
           Some (Inr (of_nat n, length (enc_len n)))"
  using decode_len_loop_enc [OF assms(1), of 0 1 0] assms(2)
  by (simp add: aws_iot_mqtt_internal_decode_remaining_length_from_buffer_def length_enc_len)

lemma decode_len_loop_bound:
  assumes "decode_len_loop buf ptr mult len acc = Some (Inr (v, k))"
    and "mult = of_nat (128 ^ len)" and "unat acc < 128 ^ len" and "len \<le> 4"
  shows "len < k \<and> k \<le> 4 \<and> unat v < 128 ^ k \<and> ptr + k \<le> length buf + len"
  using assms
proof (induction buf ptr mult len acc rule: decode_len_loop.induct)
  case (1 buf ptr mult len acc)
  have len: "len < 4"
    using "1.prems"(1) by (subst (asm) decode_len_loop.simps)
      (simp add: MAX_NO_OF_REMAINING_LENGTH_BYTES_def split: if_splits)
  then have cases_len: "len = 0 \<or> len = 1 \<or> len = 2 \<or> len = 3" by linarith
  obtain b where get: "mem_get buf ptr = Some b"
    using "1.prems"(1) len by (subst (asm) decode_len_loop.simps)
      (auto simp: MAX_NO_OF_REMAINING_LENGTH_BYTES_def split: bind_split_asm)
  then have ptr: "ptr < length buf"
    by (simp add: mem_get_def split: if_splits)
  define acc' where "acc' = acc + ucast (b AND 127) * mult"
  have b: "unat (ucast (b AND 127) :: u32) \<le> 127"
    by (simp add: unsigned_ucast_eq take_bit_eq_mod u8_and_127)
  have mult: "unat mult = 128 ^ len"
    using "1.prems"(2) cases_len by (auto simp: unsigned_of_nat take_bit_eq_mod)
  have "unat (ucast (b AND 127) :: u32) * 128 ^ len \<le> 127 * 128 ^ len"
    using b by (rule mult_right_mono) simp
  then have "unat acc + unat (ucast (b AND 127) :: u32) * 128 ^ len < 128 ^ len + 127 * 128 ^ len"
    by (rule add_less_le_mono [OF "1.prems"(3)])
  then have sum: "unat acc + unat (ucast (b AND 127) :: u32) * 128 ^ len < 128 ^ Suc len"
    by simp
  moreover have "(128::nat) ^ Suc len < 2 ^ 32"
    using cases_len by auto
  ultimately have acc': "unat acc' < 128 ^ Suc len"
    unfolding acc'_def by (simp add: unat_word_ariths mult)
  show ?case
  proof (cases "b AND 128 = 0")
    case True
    then have "v = acc'" "k = len + 1"
      using "1.prems"(1) len get by (subst (asm) decode_len_loop.simps,
        simp add: MAX_NO_OF_REMAINING_LENGTH_BYTES_def acc'_def)+
    with acc' len ptr show ?thesis by simp
  next
    case False
    then have rec: "decode_len_loop buf (ptr + 1) (mult * 128) (len + 1) acc' = Some (Inr (v, k))"
      using "1.prems"(1) len get by (subst (asm) decode_len_loop.simps)
        (simp add: MAX_NO_OF_REMAINING_LENGTH_BYTES_def acc'_def)
    have "len + 1 < k \<and> k \<le> 4 \<and> unat v < 128 ^ k \<and> ptr + 1 + k \<le> length buf + (len + 1)"
      using False len get rec "1.prems"(2) acc'
      by (intro "1.IH" [OF refl _ get refl refl refl])
        (simp_all add: MAX_NO_OF_REMAINING_LENGTH_BYTES_def acc'_def)
    then show ?thesis by simp
  qed
qed

lemma decode_len_bound:
  assumes "aws_iot_mqtt_internal_decode_remaining_length_from_buffer buf ptr = Some (Inr (v, k))"
  shows "0 < k \<and> k \<le> 4 \<and> unat v < 128 ^ k \<and> ptr + k \<le> length buf"
  using decode_len_loop_bound [OF assms [unfolded aws_iot_mqtt_internal_decode_remaining_length_from_buffer_def]]
  by simp

lemma decode_len_loop_defined:
  assumes "ptr + 4 \<le> length buf + len" and "len \<le> 4"
  shows "decode_len_loop buf ptr mult len acc \<noteq> None"
  using assms
proof (induction buf ptr mult len acc rule: decode_len_loop.induct)
  case (1 buf ptr mult len acc)
  show ?case
  proof (cases "len < 4")
    case True
    then have get: "mem_get buf ptr = Some (buf ! ptr)"
      using "1.prems" by (simp add: mem_get_def)
    then show ?thesis
      using True "1.prems" "1.IH" [OF refl _ get refl refl refl]
      by (subst decode_len_loop.simps) (simp add: MAX_NO_OF_REMAINING_LENGTH_BYTES_def Let_def)
  next
    case False
    then show ?thesis
      by (subst decode_len_loop.simps) (simp add: MAX_NO_OF_REMAINING_LENGTH_BYTES_def)
  qed
qed

lemma decode_len_defined:
  "ptr + 4 \<le> length buf \<Longrightarrow>
   aws_iot_mqtt_internal_decode_remaining_length_from_buffer buf ptr \<noteq> None"
  by (simp add: aws_iot_mqtt_internal_decode_remaining_length_from_buffer_def
      decode_len_loop_defined)

lemma decode_len_loop_error:
  "decode_len_loop buf ptr mult len acc = Some (Inl rc) \<Longrightarrow> rc = MQTT_DECODE_REMAINING_LENGTH_ERROR"
  by (induction buf ptr mult len acc rule: decode_len_loop.induct)
    (subst (asm) (2) decode_len_loop.simps, auto simp: Let_def split: if_splits bind_split_asm)

lemma decode_len_error:
  "aws_iot_mqtt_internal_decode_remaining_length_from_buffer buf ptr = Some (Inl rc) \<Longrightarrow>
   rc = MQTT_DECODE_REMAINING_LENGTH_ERROR"
  by (simp add: aws_iot_mqtt_internal_decode_remaining_length_from_buffer_def decode_len_loop_error)

lemma final_packet_length_val:
  assumes "unat n < 268435456"
  shows "unat (aws_iot_mqtt_internal_get_final_packet_length_from_remaining_length n) =
           1 + length (enc_len (unat n)) + unat n
           + (if unat n \<in> {127, 16383, 2097151} then 1 else 0)"
proof -
  have *: "unat (n + 1) = unat n + 1" "unat (2 + n) = 2 + unat n" "unat (3 + n) = 3 + unat n"
    "unat (4 + n) = 4 + unat n" "unat (5 + n) = 5 + unat n"
    using assms by (simp_all add: unat_word_ariths)
  show ?thesis
    using assms length_enc_len(2) [of "unat n"]
    by (auto simp: aws_iot_mqtt_internal_get_final_packet_length_from_remaining_length_def Let_def
        word_less_nat_alt * split: if_splits)
qed

section \<open>Integers, characters, strings\<close>

definition enc_u16 :: "u16 \<Rightarrow> u8 list" where
  "enc_u16 n = [ucast (n div 256), ucast (n mod 256)]"

definition enc_utf8 :: "u8 list \<Rightarrow> u8 list" where
  "enc_utf8 s = enc_u16 (of_nat (length s)) @ s"

lemma length_enc_u16 [simp]: "length (enc_u16 n) = 2"
  by (simp add: enc_u16_def)

lemma u16_of_bytes:
  "(ucast (ucast (n mod 256) :: u8) :: u16) + 256 * ucast (ucast (n div 256) :: u8) = n"
proof -
  have lo: "unat (ucast (ucast (n mod 256) :: u8) :: u16) = unat n mod 256"
    by (simp add: unsigned_ucast_eq take_bit_eq_mod unat_mod)
  have "unat n div 256 < 256"
    using u16_lt [of n] by (simp add: div_less_iff_less_mult)
  then have hi: "unat (ucast (ucast (n div 256) :: u8) :: u16) = unat n div 256"
    by (simp add: unsigned_ucast_eq take_bit_eq_mod unat_div unat_mod)
  have "256 * (unat n div 256) < 65536"
    using u16_lt [of n] by (meson le_less_trans times_div_less_eq_dividend)
  then show ?thesis
    by (intro word_unat_eq_iff [THEN iffD2])
      (simp only: unat_word_ariths lo hi, simp)
qed

lemma write_char_emit [simp]: "aws_iot_mqtt_internal_write_char buf ptr c = emit buf ptr [c]"
  by (simp add: aws_iot_mqtt_internal_write_char_def emit_def map_conv_bind_option comp_def)

lemma write_uint_16_emit [simp]:
  "aws_iot_mqtt_internal_write_uint_16 buf ptr n = emit buf ptr (enc_u16 n)"
proof -
  have "aws_iot_mqtt_internal_write_uint_16 buf ptr n =
      Option.bind (mem_write buf ptr [ucast (n div 256)]) (\<lambda>b. emit b (Suc ptr) [ucast (n mod 256)])"
    by (simp add: aws_iot_mqtt_internal_write_uint_16_def emit_def map_conv_bind_option comp_def)
  then show ?thesis
    by (simp add: emit_Cons enc_u16_def)
qed

lemma write_utf8_string_emit:
  assumes "str = Some m" and "unat len \<le> length m"
  shows "aws_iot_mqtt_internal_write_utf8_string buf ptr str len =
           emit buf ptr (enc_u16 len @ take (unat len) m)"
proof -
  have "aws_iot_mqtt_internal_write_utf8_string buf ptr str len =
      Option.bind (emit buf ptr (enc_u16 len)) (\<lambda>(b, p). emit b p (take (unat len) m))"
    using assms
    by (cases "emit buf ptr (enc_u16 len)")
      (auto simp: aws_iot_mqtt_internal_write_utf8_string_def c_memcpy_def mem_read_def emit_def
        mem_write_def word_gt_0 unat_eq_0 split: if_splits)
  then show ?thesis
    by (simp add: emit_append)
qed

lemma write_utf8_string_empty:
  "aws_iot_mqtt_internal_write_utf8_string buf ptr str 0 = emit buf ptr (enc_u16 0)"
  by (cases "emit buf ptr (enc_u16 0)")
    (auto simp: aws_iot_mqtt_internal_write_utf8_string_def)

section \<open>The contract between a writer and its reader\<close>

locale wire_field =
  fixes enc :: "'a \<Rightarrow> u8 list"
    and put :: "mem \<Rightarrow> nat \<Rightarrow> 'a \<Rightarrow> (mem \<times> nat) option"
    and get :: "mem \<Rightarrow> nat \<Rightarrow> ('a \<times> nat) option"
    and ok :: "'a \<Rightarrow> bool"
  assumes put_emit: "put buf ptr a = emit buf ptr (enc a)"
    and get_enc: "ok a \<Longrightarrow> drop ptr buf = enc a @ rest \<Longrightarrow> get buf ptr = Some (a, ptr + length (enc a))"
begin

lemma put_fits:
  "ptr + length (enc a) \<le> length buf \<longleftrightarrow> put buf ptr a \<noteq> None"
  by (cases "ptr + length (enc a) \<le> length buf") (auto simp: put_emit emit_Some emit_None)

lemma put_frame:
  assumes "put buf ptr a = Some (buf', ptr')"
  shows "length buf' = length buf \<and> take ptr buf' = take ptr buf \<and>
         drop ptr' buf' = drop ptr' buf \<and> ptr' = ptr + length (enc a)"
proof -
  have "ptr + length (enc a) \<le> length buf"
    using assms put_fits [of ptr a buf] by simp
  then show ?thesis
    using assms by (auto simp: put_emit emit_Some)
qed

lemma get_put:
  assumes "ok a" and "put buf ptr a = Some (buf', ptr')"
  shows "get buf' ptr = Some (a, ptr')"
proof -
  have fits: "ptr + length (enc a) \<le> length buf"
    using assms(2) put_fits [of ptr a buf] by simp
  then have "drop ptr buf' = enc a @ drop ptr' buf" and "ptr' = ptr + length (enc a)"
    using assms(2) by (auto simp: put_emit emit_Some)
  then show ?thesis
    using get_enc [OF assms(1)] by blast
qed

end

text \<open>The reader of the remaining length field, with the pointer advanced as its callers do.\<close>

definition get_len :: "mem \<Rightarrow> nat \<Rightarrow> (u32 \<times> nat) option" where
  "get_len buf ptr = do {
     r \<leftarrow> aws_iot_mqtt_internal_decode_remaining_length_from_buffer buf ptr;
     (case r of Inl rc \<Rightarrow> None | Inr (n, k) \<Rightarrow> Some (n, ptr + k)) }"

lemma put_len_emit: "put_len buf ptr n = emit buf ptr (enc_len (unat n))"
  by (cases "mem_write buf ptr (enc_len (unat n))")
    (simp_all add: put_len_def write_len_emit emit_def)

interpretation remlen: wire_field "\<lambda>n. enc_len (unat n)" put_len get_len "\<lambda>n. unat n < 268435456"
proof
  show "put_len buf ptr a = emit buf ptr (enc_len (unat a))" for buf ptr a
    by (rule put_len_emit)
  show "get_len buf ptr = Some (a, ptr + length (enc_len (unat a)))"
    if "unat a < 268435456" and "drop ptr buf = enc_len (unat a) @ rest" for a ptr buf rest
    using decode_len_enc [OF that(2) that(1)] by (simp add: get_len_def)
qed

interpretation uint16: wire_field enc_u16 aws_iot_mqtt_internal_write_uint_16
  aws_iot_mqtt_internal_read_uint16_t "\<lambda>_. True"
proof
  show "aws_iot_mqtt_internal_write_uint_16 buf ptr a = emit buf ptr (enc_u16 a)" for buf ptr a
    by simp
  show "aws_iot_mqtt_internal_read_uint16_t buf ptr = Some (a, ptr + length (enc_u16 a))"
    if "drop ptr buf = enc_u16 a @ rest" for a ptr buf rest
  proof -
    have "ptr + 1 < length buf"
      using arg_cong [OF that, of length] by (simp add: enc_u16_def)
    moreover have "buf ! ptr = ucast (a div 256)" "buf ! (ptr + 1) = ucast (a mod 256)"
      using that calculation nth_drop [of ptr buf 0] nth_drop [of ptr buf 1]
      by (simp_all add: enc_u16_def)
    ultimately show ?thesis
      by (simp add: aws_iot_mqtt_internal_read_uint16_t_def mem_get_def u16_of_bytes)
  qed
qed

interpretation character: wire_field "\<lambda>c. [c]" aws_iot_mqtt_internal_write_char
  aws_iot_mqtt_internal_read_char "\<lambda>_. True"
proof
  show "aws_iot_mqtt_internal_write_char buf ptr a = emit buf ptr [a]" for buf ptr a
    by simp
  show "aws_iot_mqtt_internal_read_char buf ptr = Some (a, ptr + length [a])"
    if "drop ptr buf = [a] @ rest" for a ptr buf rest
  proof -
    have "ptr < length buf" "buf ! ptr = a"
      using that by (auto simp: nth_via_drop intro: ccontr)
    then show ?thesis
      by (simp add: aws_iot_mqtt_internal_read_char_def mem_get_def)
  qed
qed

section \<open>Properties\<close>

text \<open>
  The remaining length field round-trips.  For every length below \<open>2^28\<close> (the MQTT
  maximum), whatever \<open>aws_iot_mqtt_internal_write_len_to_buffer\<close> stores at a pointer is decoded
  by \<open>aws_iot_mqtt_internal_decode_remaining_length_from_buffer\<close> to the same length, and the
  reader consumes exactly the bytes the writer reported.
\<close>

theorem remaining_length_roundtrip:
  assumes "unat n < 268435456"
    and "aws_iot_mqtt_internal_write_len_to_buffer buf ptr n = Some (buf', k)"
  shows "aws_iot_mqtt_internal_decode_remaining_length_from_buffer buf' ptr = Some (Inr (n, k))"
proof -
  have "put_len buf ptr n = Some (buf', ptr + k)"
    using assms(2) by (simp add: put_len_def)
  then have "get_len buf' ptr = Some (n, ptr + k)"
    by (rule remlen.get_put [OF assms(1)])
  then show ?thesis
    by (auto simp: get_len_def split: bind_splits sum.splits prod.splits)
qed

theorem remaining_length_roundtrip_witness:
  "aws_iot_mqtt_internal_write_len_to_buffer [9, 0, 0, 7] 1 321 = Some ([9, 193, 2, 7], 2) \<and>
   aws_iot_mqtt_internal_decode_remaining_length_from_buffer [9, 193, 2, 7] 1 = Some (Inr (321, 2))"
proof -
  have w: "aws_iot_mqtt_internal_write_len_to_buffer [9, 0, 0, 7] 1 321 = Some ([9, 193, 2, 7], 2)"
    by (simp add: write_len_emit emit_def mem_write_def enc_len.simps)
  with remaining_length_roundtrip [OF _ w] show ?thesis by simp
qed

text \<open>
  Decoding a remaining length is memory safe and bounded.  With four readable bytes the
  decoder always returns; a length it accepts took at most four bytes, all inside the buffer,
  and is below \<open>128^k\<close> for the \<open>k\<close> bytes read; four continuation bytes are rejected with
  \<open>MQTT_DECODE_REMAINING_LENGTH_ERROR\<close>.
\<close>

theorem decode_remaining_length_bounds:
  assumes "ptr + 4 \<le> length buf"
  shows "case aws_iot_mqtt_internal_decode_remaining_length_from_buffer buf ptr of
           None \<Rightarrow> False
         | Some (Inr (n, k)) \<Rightarrow> 0 < k \<and> k \<le> 4 \<and> ptr + k \<le> length buf \<and> unat n < 128 ^ k
         | Some (Inl rc) \<Rightarrow> rc = MQTT_DECODE_REMAINING_LENGTH_ERROR"
  using decode_len_defined [OF assms] decode_len_bound [of buf ptr] decode_len_error [of buf ptr]
  by (auto split: option.splits sum.splits)

theorem decode_remaining_length_bounds_witness:
  "aws_iot_mqtt_internal_decode_remaining_length_from_buffer [255, 255, 255, 255, 1] 0 =
     Some (Inl MQTT_DECODE_REMAINING_LENGTH_ERROR) \<and>
   aws_iot_mqtt_internal_decode_remaining_length_from_buffer [255, 255, 255, 127, 1] 0 =
     Some (Inr (268435455, 4)) \<and> unat (268435455 :: u32) < 128 ^ 4"
proof -
  have "aws_iot_mqtt_internal_decode_remaining_length_from_buffer [255, 255, 255, 255, 1] 0 =
     Some (Inl MQTT_DECODE_REMAINING_LENGTH_ERROR)"
    and *: "aws_iot_mqtt_internal_decode_remaining_length_from_buffer [255, 255, 255, 127, 1] 0 =
     Some (Inr (268435455, 4))"
    by (simp_all add: aws_iot_mqtt_internal_decode_remaining_length_from_buffer_def
        decode_len_loop.simps MAX_NO_OF_REMAINING_LENGTH_BYTES_def mem_get_def)
  with decode_remaining_length_bounds [of 0 "[255, 255, 255, 127, 1]"] show ?thesis
    by simp
qed

text \<open>
  The size estimate used before serialising is sound.  Unless it wraps around,
  \<open>aws_iot_mqtt_internal_get_final_packet_length_from_remaining_length\<close> is at least the size of
  the whole packet (header byte, length field, body), and it exceeds it by one byte exactly for
  the remaining lengths 127, 16383 and 2097151.
\<close>

theorem final_packet_length_sound:
  assumes "unat n < 268435456"
  shows "unat (aws_iot_mqtt_internal_get_final_packet_length_from_remaining_length n) =
           1 + length (enc_len (unat n)) + unat n
           + (if unat n \<in> {127, 16383, 2097151} then 1 else 0)"
  by (rule final_packet_length_val [OF assms])

theorem final_packet_length_sound_witness:
  "unat (aws_iot_mqtt_internal_get_final_packet_length_from_remaining_length 127) = 130 \<and>
   1 + length (enc_len 127) + 127 = 129"
  using final_packet_length_sound [of 127] length_enc_len(2) [of 127] by simp

text \<open>
  The fixed header carries its fields.  For every packet type of the protocol the header
  byte is built, reading its bit fields gives back the packet type number, the quality of
  service clipped to 0 or 1, and the two flags; the type \<open>UNKNOWN\<close> is refused.
\<close>

theorem init_header_fields:
  "case aws_iot_mqtt_internal_init_header mt qos dup retained of
     Inl rc \<Rightarrow> rc = FAILURE \<and> mt = UNKNOWN
   | Inr h \<Rightarrow> uint (header_type h) = msgCode mt \<and>
       header_qos h = (if qos = QOS1 then 1 else 0) \<and>
       header_dup h = (if dup = 1 then 1 else 0) \<and>
       header_retain h = (if retained = 1 then 1 else 0)"
  by (cases mt) (simp_all add: aws_iot_mqtt_internal_init_header_def Let_def header_defs)

end
