(* ===== verification/Mqtt_Packets.thy ===== *)
theory Mqtt_Packets
  imports Mqtt_Codec
begin

text \<open>
  The packet serialisers and deserialisers of \<open>src/aws_iot_mqtt_client_publish.c\<close>,
  \<open>src/aws_iot_mqtt_client_subscribe.c\<close>, \<open>src/aws_iot_mqtt_client_unsubscribe.c\<close> and
  \<open>src/aws_iot_mqtt_client_connect.c\<close>.

  A result \<open>None\<close> is an access outside a buffer or argument, \<open>Some (Inl rc)\<close> an early return
  with the error \<open>rc\<close>, \<open>Some (Inr x)\<close> a return of \<open>SUCCESS\<close> with the out-parameters \<open>x\<close>.
  (The buffers and out-parameters are addresses of members or locals of the callers, so the
  code's tests of those pointers against NULL have no counterpart.)
  Pointers into the receive buffer are offsets; \<open>endData - curData\<close> is the signed difference.

  The abstract specification is \<open>mqtt_frame\<close>: header byte, remaining length, body.  Each
  serialiser is shown to write exactly its frame, inside the buffer, and the deserialisers are
  shown to read back what was written.
\<close>

section \<open>PUBLISH and acknowledgements\<close>

definition aws_iot_mqtt_read_string_with_len ::
  "mem \<Rightarrow> nat \<Rightarrow> nat \<Rightarrow> (IoT_Error_t + nat \<times> u16 \<times> nat) option" where
  "aws_iot_mqtt_read_string_with_len buf ptr enddata =
     (if int enddata - int ptr > 1 then do {
        (stringLen, ptr) \<leftarrow> aws_iot_mqtt_internal_read_uint16_t buf ptr;
        if ptr + unat stringLen \<le> enddata
        then Some (Inr (ptr, stringLen, ptr + unat stringLen))
        else Some (Inl FAILURE) }
      else Some (Inl FAILURE))"

definition aws_iot_mqtt_internal_serialize_publish ::
  "mem \<Rightarrow> size_t \<Rightarrow> u8 \<Rightarrow> QoS \<Rightarrow> u8 \<Rightarrow> u16 \<Rightarrow> cptr \<Rightarrow> u16 \<Rightarrow> cptr \<Rightarrow> size_t \<Rightarrow>
   (IoT_Error_t + mem \<times> u32) option" where
  "aws_iot_mqtt_internal_serialize_publish pTxBuf txBufLen dup qos retained packetId
       pTopicName topicNameLen pPayload payloadLen =
     (if pPayload = None then Some (Inl NULL_VALUE_ERROR)
      else let rem_len = (ucast (ucast topicNameLen + payloadLen + 2 :: size_t) :: u32);
               rem_len = (if qos > 0 then rem_len + 2 else rem_len)
        in if ucast (aws_iot_mqtt_internal_get_final_packet_length_from_remaining_length rem_len) > txBufLen
           then Some (Inl MQTT_TX_BUFFER_TOO_SHORT_ERROR)
           else case aws_iot_mqtt_internal_init_header PUBLISH qos dup retained of
             Inl rc \<Rightarrow> Some (Inl rc)
           | Inr header \<Rightarrow> do {
               (buf, ptr) \<leftarrow> aws_iot_mqtt_internal_write_char pTxBuf 0 header;
               (buf, ptr) \<leftarrow> put_len buf ptr rem_len;
               (buf, ptr) \<leftarrow> aws_iot_mqtt_internal_write_utf8_string buf ptr pTopicName topicNameLen;
               (buf, ptr) \<leftarrow> (if qos > 0 then aws_iot_mqtt_internal_write_uint_16 buf ptr packetId
                             else Some (buf, ptr));
               buf \<leftarrow> c_memcpy buf ptr pPayload (unat payloadLen);
               let ptr = ptr + unat payloadLen;
               Some (Inr (buf, of_nat ptr)) })"

definition aws_iot_mqtt_internal_serialize_ack ::
  "mem \<Rightarrow> size_t \<Rightarrow> MessageTypes \<Rightarrow> u8 \<Rightarrow> u16 \<Rightarrow> (IoT_Error_t + mem \<times> u32) option" where
  "aws_iot_mqtt_internal_serialize_ack pTxBuf txBufLen msgType dup packetId =
     (if 4 > txBufLen then Some (Inl MQTT_TX_BUFFER_TOO_SHORT_ERROR)
      else let requestQoS = (if PUBREL = msgType then QOS1 else QOS0)
        in case aws_iot_mqtt_internal_init_header msgType requestQoS dup 0 of
             Inl rc \<Rightarrow> Some (Inl rc)
           | Inr header \<Rightarrow> do {
               (buf, ptr) \<leftarrow> aws_iot_mqtt_internal_write_char pTxBuf 0 header;
               (buf, ptr) \<leftarrow> put_len buf ptr 2;
               (buf, ptr) \<leftarrow> aws_iot_mqtt_internal_write_uint_16 buf ptr packetId;
               Some (Inr (buf, of_nat ptr)) })"

text \<open>What \<open>aws_iot_mqtt_internal_deserialize_publish\<close> stores through its out-parameters.  The
  packet identifier is only stored for a QoS other than 0.\<close>

record publish_fields =
  pf_dup :: u8
  pf_qos :: QoS
  pf_retained :: u8
  pf_packetId :: "u16 option"
  pf_topicName :: nat
  pf_topicNameLen :: u16
  pf_payload :: nat
  pf_payloadLen :: size_t

definition aws_iot_mqtt_internal_deserialize_publish ::
  "mem \<Rightarrow> size_t \<Rightarrow> (IoT_Error_t + publish_fields) option" where
  "aws_iot_mqtt_internal_deserialize_publish pRxBuf rxBufLen =
     (if 4 > rxBufLen then Some (Inl MQTT_RX_BUFFER_TOO_SHORT_ERROR)
      else do {
        (header, curData) \<leftarrow> aws_iot_mqtt_internal_read_char pRxBuf 0;
        if msgCode PUBLISH \<noteq> uint (header_type header) then Some (Inl FAILURE)
        else do {
          let dup = header_dup header;
          let qos = (ucast (header_qos header) :: QoS);
          let retained = header_retain header;
          r \<leftarrow> aws_iot_mqtt_internal_decode_remaining_length_from_buffer pRxBuf curData;
          (case r of
             Inl rc \<Rightarrow> Some (Inl rc)
           | Inr (decodedLen, readBytesLen) \<Rightarrow> do {
               let curData = curData + readBytesLen;
               let endData = curData + unat decodedLen;
               r \<leftarrow> aws_iot_mqtt_read_string_with_len pRxBuf curData endData;
               (case r of
                  Inl rc \<Rightarrow> Some (Inl FAILURE)
                | Inr (pTopicName, topicNameLen, curData) \<Rightarrow>
                    if 0 > int endData - int curData then Some (Inl FAILURE)
                    else do {
                      (pPacketId, curData) \<leftarrow>
                        (if QOS0 \<noteq> qos
                         then do { (i, p) \<leftarrow> aws_iot_mqtt_internal_read_uint16_t pRxBuf curData;
                                   Some (Some i, p) }
                         else Some (None, curData));
                      Some (Inr \<lparr>pf_dup = dup, pf_qos = qos, pf_retained = retained,
                        pf_packetId = pPacketId, pf_topicName = pTopicName,
                        pf_topicNameLen = topicNameLen, pf_payload = curData,
                        pf_payloadLen = of_int (int endData - int curData)\<rparr>) }) }) } })"

definition aws_iot_mqtt_internal_deserialize_ack ::
  "mem \<Rightarrow> size_t \<Rightarrow> (IoT_Error_t + u8 \<times> u8 \<times> u16) option" where
  "aws_iot_mqtt_internal_deserialize_ack pRxBuf rxBuflen =
     (if 4 > rxBuflen then Some (Inl MQTT_RX_BUFFER_TOO_SHORT_ERROR)
      else do {
        (header, curdata) \<leftarrow> aws_iot_mqtt_internal_read_char pRxBuf 0;
        let dup = header_dup header;
        let packetType = header_type header;
        r \<leftarrow> aws_iot_mqtt_internal_decode_remaining_length_from_buffer pRxBuf curdata;
        (case r of
           Inl rc \<Rightarrow> Some (Inl rc)
         | Inr (decodedLen, readBytesLen) \<Rightarrow> do {
             let curdata = curdata + readBytesLen;
             let enddata = curdata + unat decodedLen;
             if int enddata - int curdata < 2 then Some (Inl FAILURE)
             else do {
               (packetId, curdata) \<leftarrow> aws_iot_mqtt_internal_read_uint16_t pRxBuf curdata;
               Some (Inr (packetType, dup, packetId)) } }) })"

section \<open>SUBSCRIBE and SUBACK\<close>

text \<open>The three parallel arrays of topic filters, their lengths and the requested QoS are one
  list of triples, whose length is \<open>topicCount\<close>.\<close>

type_synonym sub_topic = "cptr \<times> u16 \<times> QoS"

fun subscribe_rem_len :: "sub_topic list \<Rightarrow> u32 \<Rightarrow> u32" where
  "subscribe_rem_len [] rem_len = rem_len"
| "subscribe_rem_len ((topic, len, qos) # ts) rem_len =
     subscribe_rem_len ts (rem_len + (ucast len + 2 + 1))"

fun subscribe_write_topics :: "mem \<Rightarrow> nat \<Rightarrow> sub_topic list \<Rightarrow> (mem \<times> nat) option" where
  "subscribe_write_topics buf ptr [] = Some (buf, ptr)"
| "subscribe_write_topics buf ptr ((topic, len, qos) # ts) = do {
     (buf, ptr) \<leftarrow> aws_iot_mqtt_internal_write_utf8_string buf ptr topic len;
     (buf, ptr) \<leftarrow> aws_iot_mqtt_internal_write_char buf ptr (ucast qos);
     subscribe_write_topics buf ptr ts }"

definition aws_iot_mqtt_serialize_subscribe ::
  "mem \<Rightarrow> size_t \<Rightarrow> u8 \<Rightarrow> u16 \<Rightarrow> sub_topic list \<Rightarrow> (IoT_Error_t + mem \<times> u32) option" where
  "aws_iot_mqtt_serialize_subscribe pTxBuf txBufLen dup packetId topics =
     (let rem_len = subscribe_rem_len topics 2
      in if ucast (aws_iot_mqtt_internal_get_final_packet_length_from_remaining_length rem_len) > txBufLen
         then Some (Inl MQTT_TX_BUFFER_TOO_SHORT_ERROR)
         else case aws_iot_mqtt_internal_init_header SUBSCRIBE QOS1 dup 0 of
           Inl rc \<Rightarrow> Some (Inl rc)
         | Inr header \<Rightarrow> do {
             (buf, ptr) \<leftarrow> aws_iot_mqtt_internal_write_char pTxBuf 0 header;
             (buf, ptr) \<leftarrow> put_len buf ptr rem_len;
             (buf, ptr) \<leftarrow> aws_iot_mqtt_internal_write_uint_16 buf ptr packetId;
             (buf, ptr) \<leftarrow> subscribe_write_topics buf ptr topics;
             Some (Inr (buf, of_nat ptr)) })"

function suback_loop ::
  "mem \<Rightarrow> nat \<Rightarrow> nat \<Rightarrow> u32 \<Rightarrow> u32 \<Rightarrow> QoS list \<Rightarrow> (IoT_Error_t + u32 \<times> QoS list) option" where
  "suback_loop buf curData endData maxExpectedQoSCount grantedQoSCount grantedQoSs =
     (if curData < endData then
        if grantedQoSCount > maxExpectedQoSCount then Some (Inl FAILURE)
        else do {
          (c, curData') \<leftarrow> aws_iot_mqtt_internal_read_char buf curData;
          (if unat grantedQoSCount < length grantedQoSs
           then suback_loop buf (curData + 1) endData maxExpectedQoSCount (grantedQoSCount + 1)
                  (grantedQoSs[unat grantedQoSCount := ucast c])
           else None) }
      else Some (Inr (grantedQoSCount, grantedQoSs)))"
  by pat_completeness auto
termination
  by (relation "measure (\<lambda>(buf, curData, endData, m, c, q). endData - curData)") auto

declare suback_loop.simps [simp del]

definition aws_iot_mqtt_deserialize_suback ::
  "u32 \<Rightarrow> QoS list \<Rightarrow> mem \<Rightarrow> size_t \<Rightarrow> (IoT_Error_t + u16 \<times> u32 \<times> QoS list) option" where
  "aws_iot_mqtt_deserialize_suback maxExpectedQoSCount grantedQoSs pRxBuf rxBufLen =
     (if 5 > rxBufLen then Some (Inl MQTT_RX_BUFFER_TOO_SHORT_ERROR)
      else do {
        (header, curData) \<leftarrow> aws_iot_mqtt_internal_read_char pRxBuf 0;
        if msgCode SUBACK \<noteq> uint (header_type header) then Some (Inl FAILURE)
        else do {
          r \<leftarrow> aws_iot_mqtt_internal_decode_remaining_length_from_buffer pRxBuf curData;
          (case r of
             Inl rc \<Rightarrow> Some (Inl rc)
           | Inr (decodedLen, readBytesLen) \<Rightarrow> do {
               let curData = curData + readBytesLen;
               let endData = curData + unat decodedLen;
               if int endData - int curData < 2 then Some (Inl FAILURE)
               else do {
                 (packetId, curData) \<leftarrow> aws_iot_mqtt_internal_read_uint16_t pRxBuf curData;
                 r \<leftarrow> suback_loop pRxBuf curData endData maxExpectedQoSCount 0 grantedQoSs;
                 (case r of
                    Inl rc \<Rightarrow> Some (Inl rc)
                  | Inr (count, granted) \<Rightarrow> Some (Inr (packetId, count, granted))) } }) } })"

section \<open>UNSUBSCRIBE and UNSUBACK\<close>

type_synonym unsub_topic = "cptr \<times> u16"

fun unsubscribe_rem_len :: "unsub_topic list \<Rightarrow> u32 \<Rightarrow> u32" where
  "unsubscribe_rem_len [] rem_len = rem_len"
| "unsubscribe_rem_len ((topic, len) # ts) rem_len =
     unsubscribe_rem_len ts (rem_len + (ucast len + 2))"

fun unsubscribe_write_topics :: "mem \<Rightarrow> nat \<Rightarrow> unsub_topic list \<Rightarrow> (mem \<times> nat) option" where
  "unsubscribe_write_topics buf ptr [] = Some (buf, ptr)"
| "unsubscribe_write_topics buf ptr ((topic, len) # ts) = do {
     (buf, ptr) \<leftarrow> aws_iot_mqtt_internal_write_utf8_string buf ptr topic len;
     unsubscribe_write_topics buf ptr ts }"

definition aws_iot_mqtt_serialize_unsubscribe ::
  "mem \<Rightarrow> size_t \<Rightarrow> u8 \<Rightarrow> u16 \<Rightarrow> unsub_topic list \<Rightarrow> (IoT_Error_t + mem \<times> u32) option" where
  "aws_iot_mqtt_serialize_unsubscribe pTxBuf txBufLen dup packetId topics =
     (let rem_len = unsubscribe_rem_len topics 2
      in if ucast (aws_iot_mqtt_internal_get_final_packet_length_from_remaining_length rem_len) > txBufLen
         then Some (Inl MQTT_TX_BUFFER_TOO_SHORT_ERROR)
         else case aws_iot_mqtt_internal_init_header UNSUBSCRIBE QOS1 dup 0 of
           Inl rc \<Rightarrow> Some (Inl rc)
         | Inr header \<Rightarrow> do {
             (buf, ptr) \<leftarrow> aws_iot_mqtt_internal_write_char pTxBuf 0 header;
             (buf, ptr) \<leftarrow> put_len buf ptr rem_len;
             (buf, ptr) \<leftarrow> aws_iot_mqtt_internal_write_uint_16 buf ptr packetId;
             (buf, ptr) \<leftarrow> unsubscribe_write_topics buf ptr topics;
             Some (Inr (buf, of_nat ptr)) })"

definition aws_iot_mqtt_deserialize_unsuback ::
  "mem \<Rightarrow> size_t \<Rightarrow> (IoT_Error_t + u16) option" where
  "aws_iot_mqtt_deserialize_unsuback pRxBuf rxBufLen = do {
     r \<leftarrow> aws_iot_mqtt_internal_deserialize_ack pRxBuf rxBufLen;
     (case r of
        Inl rc \<Rightarrow> Some (Inl rc)
      | Inr (type, dup, packetId) \<Rightarrow>
          if msgCode UNSUBACK \<noteq> uint type then Some (Inl FAILURE) else Some (Inr packetId)) }"

section \<open>CONNECT and CONNACK\<close>

text \<open>
  \<open>MQTT_Connect_Header_Flags\<close>, from the least significant bit: unused (1), cleansession (1),
  will (1), willQoS (2), willRetain (1), password (1), username (1).
  \<open>MQTT_Connack_Header_Flags\<close>: unused (7), sessionpresent (1).
\<close>

definition set_flags_cleansession :: "u8 \<Rightarrow> u8 \<Rightarrow> u8" where
  "set_flags_cleansession v f = (f AND 0xFD) OR push_bit 1 (v AND 1)"

definition set_flags_will :: "u8 \<Rightarrow> u8 \<Rightarrow> u8" where
  "set_flags_will v f = (f AND 0xFB) OR push_bit 2 (v AND 1)"

definition set_flags_willQoS :: "u8 \<Rightarrow> u8 \<Rightarrow> u8" where
  "set_flags_willQoS v f = (f AND 0xE7) OR push_bit 3 (v AND 3)"

definition set_flags_willRetain :: "u8 \<Rightarrow> u8 \<Rightarrow> u8" where
  "set_flags_willRetain v f = (f AND 0xDF) OR push_bit 5 (v AND 1)"

definition set_flags_password :: "u8 \<Rightarrow> u8 \<Rightarrow> u8" where
  "set_flags_password v f = (f AND 0xBF) OR push_bit 6 (v AND 1)"

definition set_flags_username :: "u8 \<Rightarrow> u8 \<Rightarrow> u8" where
  "set_flags_username v f = (f AND 0x7F) OR push_bit 7 (v AND 1)"

definition flags_sessionpresent :: "u8 \<Rightarrow> u8" where
  "flags_sessionpresent f = drop_bit 7 f"

lemmas flags_defs = set_flags_cleansession_def set_flags_will_def set_flags_willQoS_def
  set_flags_willRetain_def set_flags_password_def set_flags_username_def

definition aws_iot_get_connect_packet_length :: "IoT_Client_Connect_Params \<Rightarrow> u32" where
  "aws_iot_get_connect_packet_length p =
     (let len = 10;
          len = len + ucast (clientIDLen p) + 2;
          len = (if isWillMsgPresent p
                 then len + ucast (will_topicNameLen (will p)) + 2 + ucast (will_msgLen (will p)) + 2
                 else len);
          len = (if pUsername p \<noteq> None then len + ucast (usernameLen p) + 2 else len);
          len = (if pPassword p \<noteq> None then len + ucast (passwordLen p) + 2 else len)
      in len)"

definition connect_flags :: "IoT_Client_Connect_Params \<Rightarrow> u8" where
  "connect_flags p =
     (let flags = set_flags_cleansession (if isCleanSession p then 1 else 0) 0;
          flags = set_flags_will (if isWillMsgPresent p then 1 else 0) flags;
          flags = (if isWillMsgPresent p
                   then set_flags_willRetain (if will_isRetained (will p) then 1 else 0)
                          (set_flags_willQoS (ucast (will_qos (will p))) flags)
                   else flags);
          flags = (if pUsername p \<noteq> None then set_flags_username 1 flags else flags);
          flags = (if pPassword p \<noteq> None then set_flags_password 1 flags else flags)
      in flags)"

definition aws_iot_mqtt_serialize_connect ::
  "mem \<Rightarrow> size_t \<Rightarrow> IoT_Client_Connect_Params \<Rightarrow> (IoT_Error_t + mem \<times> size_t) option" where
  "aws_iot_mqtt_serialize_connect pTxBuf txBufLen p =
     (if (pClientID p = None \<and> clientIDLen p \<noteq> 0) \<or> (pClientID p \<noteq> None \<and> clientIDLen p = 0)
      then Some (Inl NULL_VALUE_ERROR)
      else if MQTTVersion p \<noteq> MQTT_3_1_1
      then Some (Inl MQTT_CONNACK_UNACCEPTABLE_PROTOCOL_VERSION_ERROR)
      else let len = aws_iot_get_connect_packet_length p
        in if ucast (aws_iot_mqtt_internal_get_final_packet_length_from_remaining_length len) > txBufLen
           then Some (Inl MQTT_TX_BUFFER_TOO_SHORT_ERROR)
           else case aws_iot_mqtt_internal_init_header CONNECT QOS0 0 0 of
             Inl rc \<Rightarrow> Some (Inl rc)
           | Inr header \<Rightarrow> do {
               (buf, ptr) \<leftarrow> aws_iot_mqtt_internal_write_char pTxBuf 0 header;
               (buf, ptr) \<leftarrow> put_len buf ptr len;
               (buf, ptr) \<leftarrow> aws_iot_mqtt_internal_write_utf8_string buf ptr (Some [77, 81, 84, 84]) 4;
               (buf, ptr) \<leftarrow> aws_iot_mqtt_internal_write_char buf ptr (ucast (MQTTVersion p));
               let flags = connect_flags p;
               (buf, ptr) \<leftarrow> aws_iot_mqtt_internal_write_char buf ptr flags;
               (buf, ptr) \<leftarrow> aws_iot_mqtt_internal_write_uint_16 buf ptr (keepAliveIntervalInSec p);
               (buf, ptr) \<leftarrow>
                 (if pClientID p = None then aws_iot_mqtt_internal_write_uint_16 buf ptr 0
                  else aws_iot_mqtt_internal_write_utf8_string buf ptr (pClientID p) (clientIDLen p));
               (buf, ptr) \<leftarrow>
                 (if isWillMsgPresent p then do {
                    (buf, ptr) \<leftarrow> aws_iot_mqtt_internal_write_utf8_string buf ptr
                      (will_pTopicName (will p)) (will_topicNameLen (will p));
                    aws_iot_mqtt_internal_write_utf8_string buf ptr
                      (will_pMessage (will p)) (will_msgLen (will p)) }
                  else Some (buf, ptr));
               (buf, ptr) \<leftarrow>
                 (if pUsername p \<noteq> None
                  then aws_iot_mqtt_internal_write_utf8_string buf ptr (pUsername p) (usernameLen p)
                  else Some (buf, ptr));
               (buf, ptr) \<leftarrow>
                 (if pPassword p \<noteq> None
                  then aws_iot_mqtt_internal_write_utf8_string buf ptr (pPassword p) (passwordLen p)
                  else Some (buf, ptr));
               Some (Inr (buf, of_nat ptr)) })"

definition connack_return_code :: "u8 \<Rightarrow> IoT_Error_t" where
  "connack_return_code c =
     (if c = 0 then MQTT_CONNACK_CONNECTION_ACCEPTED
      else if c = 1 then MQTT_CONNACK_UNACCEPTABLE_PROTOCOL_VERSION_ERROR
      else if c = 2 then MQTT_CONNACK_IDENTIFIER_REJECTED_ERROR
      else if c = 3 then MQTT_CONNACK_SERVER_UNAVAILABLE_ERROR
      else if c = 4 then MQTT_CONNACK_BAD_USERDATA_ERROR
      else if c = 5 then MQTT_CONNACK_NOT_AUTHORIZED_ERROR
      else MQTT_CONNACK_UNKNOWN_ERROR)"

definition aws_iot_mqtt_deserialize_connack ::
  "mem \<Rightarrow> size_t \<Rightarrow> (IoT_Error_t + u8 \<times> IoT_Error_t) option" where
  "aws_iot_mqtt_deserialize_connack pRxBuf rxBufLen =
     (if 4 > rxBufLen then Some (Inl MQTT_RX_BUFFER_TOO_SHORT_ERROR)
      else do {
        (header, curdata) \<leftarrow> aws_iot_mqtt_internal_read_char pRxBuf 0;
        if msgCode CONNACK \<noteq> uint (header_type header) then Some (Inl FAILURE)
        else do {
          r \<leftarrow> aws_iot_mqtt_internal_decode_remaining_length_from_buffer pRxBuf curdata;
          (case r of
             Inl rc \<Rightarrow> Some (Inl rc)
           | Inr (decodedLen, readBytesLen) \<Rightarrow> do {
               let curdata = curdata + readBytesLen;
               let enddata = curdata + unat decodedLen;
               if 2 \<noteq> int enddata - int curdata then Some (Inl MQTT_DECODE_REMAINING_LENGTH_ERROR)
               else do {
                 (flags, curdata) \<leftarrow> aws_iot_mqtt_internal_read_char pRxBuf curdata;
                 let sessionPresent = flags_sessionpresent flags;
                 (connack_rc_char, curdata) \<leftarrow> aws_iot_mqtt_internal_read_char pRxBuf curdata;
                 Some (Inr (sessionPresent, connack_return_code connack_rc_char)) } }) } })"


section \<open>Frames\<close>

definition mqtt_frame :: "u8 \<Rightarrow> u8 list \<Rightarrow> u8 list" where
  "mqtt_frame header body = header # enc_len (length body) @ body"

text \<open>The bytes a length-prefixed string contributes, for a pointer with enough readable bytes.\<close>

definition readable :: "cptr \<Rightarrow> u16 \<Rightarrow> bool" where
  "readable p len \<longleftrightarrow> len = 0 \<or> (\<exists>m. p = Some m \<and> unat len \<le> length m)"

definition c_bytes :: "cptr \<Rightarrow> nat \<Rightarrow> u8 list" where
  "c_bytes p n = (case p of None \<Rightarrow> [] | Some m \<Rightarrow> take n m)"

definition enc_str :: "cptr \<Rightarrow> u16 \<Rightarrow> u8 list" where
  "enc_str p len = enc_u16 len @ c_bytes p (unat len)"

lemma length_enc_str [simp]: "readable p len \<Longrightarrow> length (enc_str p len) = 2 + unat len"
  by (auto simp: readable_def enc_str_def c_bytes_def split: option.splits)

lemma write_utf8_string_enc_str:
  assumes "readable p len"
  shows "aws_iot_mqtt_internal_write_utf8_string buf ptr p len = emit buf ptr (enc_str p len)"
proof (cases "len = 0")
  case True
  then show ?thesis
    by (simp add: write_utf8_string_empty enc_str_def c_bytes_def split: option.splits)
next
  case False
  with assms show ?thesis
    by (auto simp: readable_def enc_str_def c_bytes_def write_utf8_string_emit)
qed

lemma emit_bind [simp]:
  "Option.bind (emit b p xs) (\<lambda>(b, p). Option.bind (emit b p ys) k) = Option.bind (emit b p (xs @ ys)) k"
proof -
  have "Option.bind (emit b p xs) (\<lambda>(b, p). Option.bind (emit b p ys) k) =
      Option.bind (Option.bind (emit b p xs) (\<lambda>(b, p). emit b p ys)) k"
    by (cases "emit b p xs") auto
  then show ?thesis
    by (simp only: emit_append)
qed

lemma memcpy_bind:
  assumes "n \<le> length m"
  shows "Option.bind (c_memcpy buf ptr (Some m) n) (\<lambda>buf. Some (Inr (buf, of_nat (ptr + n)))) =
           Option.bind (emit buf ptr (take n m)) (\<lambda>(b, p). Some (Inr (b, of_nat p)))"
  using assms by (auto simp: c_memcpy_def mem_read_def emit_def mem_write_def)

lemma init_header_Inr:
  "mt \<noteq> UNKNOWN \<Longrightarrow> \<exists>h. aws_iot_mqtt_internal_init_header mt qos dup retained = Inr h"
  by (cases mt) (simp_all add: aws_iot_mqtt_internal_init_header_def Let_def)

definition header_of :: "MessageTypes \<Rightarrow> QoS \<Rightarrow> u8 \<Rightarrow> u8 \<Rightarrow> u8" where
  "header_of mt qos dup retained =
     (case aws_iot_mqtt_internal_init_header mt qos dup retained of Inl rc \<Rightarrow> 0 | Inr h \<Rightarrow> h)"

lemma init_header_eq:
  "mt \<noteq> UNKNOWN \<Longrightarrow>
   aws_iot_mqtt_internal_init_header mt qos dup retained = Inr (header_of mt qos dup retained)"
  using init_header_Inr [of mt qos dup retained] by (auto simp: header_of_def)

lemma header_of_fields:
  assumes "mt \<noteq> UNKNOWN"
  shows "uint (header_type (header_of mt qos dup retained)) = msgCode mt"
    and "header_qos (header_of mt qos dup retained) = (if qos = QOS1 then 1 else 0)"
    and "header_dup (header_of mt qos dup retained) = (if dup = 1 then 1 else 0)"
    and "header_retain (header_of mt qos dup retained) = (if retained = 1 then 1 else 0)"
  using assms
  by (cases mt; simp add: header_of_def aws_iot_mqtt_internal_init_header_def Let_def header_defs)+

text \<open>The test every serialiser makes before it writes is enough for its frame.\<close>

lemma frame_fits:
  fixes txBufLen :: size_t
  assumes "unat n = length body" and "length body + 5 < 2 ^ 32"
    and "\<not> ucast (aws_iot_mqtt_internal_get_final_packet_length_from_remaining_length n) > txBufLen"
    and "unat txBufLen \<le> length buf" and "unat txBufLen < 268435456"
  shows "length (mqtt_frame h body) \<le> length buf" and "length (mqtt_frame h body) < 268435456"
    and "unat n < 268435456"
proof -
  let ?f = "aws_iot_mqtt_internal_get_final_packet_length_from_remaining_length n"
  have le: "unat ?f \<le> unat txBufLen"
    using assms(3) by (simp add: word_less_nat_alt not_less)
  have *: "unat (n + 1) = unat n + 1" "unat (2 + n) = 2 + unat n" "unat (3 + n) = 3 + unat n"
    "unat (4 + n) = 4 + unat n" "unat (5 + n) = 5 + unat n"
    using assms(1,2) by (simp_all add: unat_word_ariths)
  have "unat n \<le> unat ?f"
    by (auto simp: aws_iot_mqtt_internal_get_final_packet_length_from_remaining_length_def Let_def *)
  then show n: "unat n < 268435456"
    using le assms(5) by simp
  have "1 + length (enc_len (length body)) + length body \<le> unat ?f"
    using final_packet_length_val [OF n] assms(1) by simp
  then show "length (mqtt_frame h body) \<le> length buf" "length (mqtt_frame h body) < 268435456"
    using le assms(4,5) by (simp_all add: mqtt_frame_def)
qed

text \<open>What a serialiser returns when it wrote a frame at the start of its buffer.\<close>

definition framed :: "mem \<Rightarrow> u8 list \<Rightarrow> (IoT_Error_t + mem \<times> 'l::len word) option" where
  "framed buf frame = Some (Inr (frame @ drop (length frame) buf, of_nat (length frame)))"

lemma emit_framed:
  "length frame \<le> length buf \<Longrightarrow>
   Option.bind (emit buf 0 frame) (\<lambda>(buf, ptr). Some (Inr (buf, of_nat ptr))) = framed buf frame"
  by (simp add: emit_Some framed_def)

section \<open>Serialisers write their frame\<close>

definition publish_body :: "QoS \<Rightarrow> u16 \<Rightarrow> cptr \<Rightarrow> u16 \<Rightarrow> cptr \<Rightarrow> size_t \<Rightarrow> u8 list" where
  "publish_body qos packetId topic topicLen payload payloadLen =
     enc_str topic topicLen @ (if qos > 0 then enc_u16 packetId else [])
     @ c_bytes payload (unat payloadLen)"

definition publish_rem_len :: "QoS \<Rightarrow> u16 \<Rightarrow> size_t \<Rightarrow> u32" where
  "publish_rem_len qos topicLen payloadLen =
     (let n = (ucast (ucast topicLen + payloadLen + 2 :: size_t) :: u32)
      in if qos > 0 then n + 2 else n)"

lemma publish_rem_len_val:
  assumes "unat payloadLen + 65540 < 2 ^ 32"
  shows "unat (publish_rem_len qos topicLen payloadLen) =
           2 + unat topicLen + (if qos > 0 then 2 else 0) + unat payloadLen"
proof -
  have t: "unat topicLen \<le> 65535"
    using u16_lt [of topicLen] by linarith
  have "unat (ucast topicLen + payloadLen + 2 :: size_t) = unat topicLen + unat payloadLen + 2"
    using assms t by (simp add: unat_word_ariths)
  then have n: "unat (ucast (ucast topicLen + payloadLen + 2 :: size_t) :: u32) =
      unat topicLen + unat payloadLen + 2"
    using assms t by (simp only: unsigned_ucast_eq) (simp add: take_bit_eq_mod)
  show ?thesis
    unfolding publish_rem_len_def Let_def using n assms t
    by (auto simp: unat_word_ariths simp del: unsigned_ucast_eq)
qed

lemma serialize_publish_emit:
  assumes "readable topic topicLen" and "unat payloadLen \<le> length pm"
  shows "aws_iot_mqtt_internal_serialize_publish buf txBufLen dup qos retained packetId
           topic topicLen (Some pm) payloadLen =
         (let n = publish_rem_len qos topicLen payloadLen
          in if ucast (aws_iot_mqtt_internal_get_final_packet_length_from_remaining_length n) > txBufLen
             then Some (Inl MQTT_TX_BUFFER_TOO_SHORT_ERROR)
             else Option.bind (emit buf 0 (header_of PUBLISH qos dup retained # enc_len (unat n)
                     @ publish_body qos packetId topic topicLen (Some pm) payloadLen))
                    (\<lambda>(buf, ptr). Some (Inr (buf, of_nat ptr))))"
  using assms
  by (auto simp: aws_iot_mqtt_internal_serialize_publish_def publish_rem_len_def Let_def
      init_header_eq put_len_emit write_utf8_string_enc_str memcpy_bind publish_body_def c_bytes_def
      simp del: of_nat_add split: if_splits)


text \<open>
  The common outcome of the serialisers: the estimate of the packet length is compared with the
  size of the buffer (\<open>slack\<close> is the byte by which the estimate is too large for three body
  lengths), and a packet that fits is written at the start of the buffer, leaving the rest of the
  buffer as it was.
\<close>

definition slack :: "u8 list \<Rightarrow> nat" where
  "slack body = (if length body \<in> {127, 16383, 2097151} then 1 else 0)"

definition serialised ::
  "mem \<Rightarrow> size_t \<Rightarrow> u8 \<Rightarrow> u8 list \<Rightarrow> (IoT_Error_t + mem \<times> 'l::len word) option" where
  "serialised buf txBufLen h body =
     (if unat txBufLen < length (mqtt_frame h body) + slack body
      then Some (Inl MQTT_TX_BUFFER_TOO_SHORT_ERROR) else framed buf (mqtt_frame h body))"

lemma final_length_check:
  fixes txBufLen :: size_t
  assumes "unat n = length body" and "length body + 5 < 2 ^ 32" and "unat txBufLen < 268435456"
  shows "ucast (aws_iot_mqtt_internal_get_final_packet_length_from_remaining_length n) > txBufLen
           \<longleftrightarrow> unat txBufLen < length (mqtt_frame h body) + slack body"
proof (cases "unat n < 268435456")
  case True
  then show ?thesis
    using final_packet_length_val [OF True] assms(1)
    by (simp add: word_less_nat_alt mqtt_frame_def slack_def)
next
  case False
  have *: "unat (n + 1) = unat n + 1" "unat (2 + n) = 2 + unat n" "unat (3 + n) = 3 + unat n"
    "unat (4 + n) = 4 + unat n" "unat (5 + n) = 5 + unat n"
    using assms(1,2) by (simp_all add: unat_word_ariths)
  have "unat n \<le> unat (aws_iot_mqtt_internal_get_final_packet_length_from_remaining_length n)"
    by (auto simp: aws_iot_mqtt_internal_get_final_packet_length_from_remaining_length_def Let_def *)
  then show ?thesis
    using False assms(1,3) by (simp add: word_less_nat_alt mqtt_frame_def)
qed

lemma serialised_emit:
  fixes txBufLen :: size_t
  assumes "unat n = length body" and "length body + 5 < 2 ^ 32" and "unat txBufLen < 268435456"
    and "unat txBufLen \<le> length buf"
  shows "(if ucast (aws_iot_mqtt_internal_get_final_packet_length_from_remaining_length n) > txBufLen
          then Some (Inl MQTT_TX_BUFFER_TOO_SHORT_ERROR)
          else Option.bind (emit buf 0 (h # enc_len (unat n) @ body))
                 (\<lambda>(buf, ptr). Some (Inr (buf, of_nat ptr))))
         = serialised buf txBufLen h body"
proof (cases "unat txBufLen < length (mqtt_frame h body) + slack body")
  case True
  then show ?thesis
    using final_length_check [OF assms(1-3)] by (simp add: serialised_def)
next
  case False
  then have "length (mqtt_frame h body) \<le> length buf"
    using assms(4) by simp
  then show ?thesis
    using final_length_check [OF assms(1-3)] False assms(1)
    by (simp add: serialised_def emit_framed [symmetric] mqtt_frame_def)
qed

lemma length_publish_body:
  assumes "readable topic topicLen" and "unat payloadLen \<le> length pm"
  shows "length (publish_body qos packetId topic topicLen (Some pm) payloadLen) =
           2 + unat topicLen + (if qos > 0 then 2 else 0) + unat payloadLen"
  using assms by (auto simp: publish_body_def c_bytes_def)

lemma serialize_publish_serialised:
  assumes "readable topic topicLen" and "unat payloadLen \<le> length pm"
    and "unat payloadLen + 65550 < 2 ^ 32"
    and "unat txBufLen \<le> length buf" and "unat txBufLen < 268435456"
  shows "aws_iot_mqtt_internal_serialize_publish buf txBufLen dup qos retained packetId
           topic topicLen (Some pm) payloadLen =
         serialised buf txBufLen (header_of PUBLISH qos dup retained)
           (publish_body qos packetId topic topicLen (Some pm) payloadLen)"
proof -
  have t: "unat topicLen \<le> 65535"
    using u16_lt [of topicLen] by linarith
  show ?thesis
    unfolding serialize_publish_emit [OF assms(1,2)] Let_def
    using assms t
    by (intro serialised_emit) (simp_all add: publish_rem_len_val length_publish_body)
qed

lemma serialize_ack_framed:
  assumes "4 \<le> unat txBufLen" and "unat txBufLen \<le> length buf" and "mt \<noteq> UNKNOWN"
  shows "aws_iot_mqtt_internal_serialize_ack buf txBufLen mt dup packetId =
           framed buf (mqtt_frame (header_of mt (if mt = PUBREL then QOS1 else QOS0) dup 0) (enc_u16 packetId))"
proof -
  have n: "\<not> 4 > txBufLen"
    using assms(1) by (simp add: word_less_nat_alt)
  have e: "enc_len 2 = [2]"
    by (simp add: enc_len.simps)
  show ?thesis
    using assms n
    by (simp add: aws_iot_mqtt_internal_serialize_ack_def Let_def init_header_eq put_len_emit
        emit_framed mqtt_frame_def e eq_commute [of PUBREL])
qed

section \<open>SUBSCRIBE, UNSUBSCRIBE and CONNECT bodies\<close>

fun enc_sub_topics :: "sub_topic list \<Rightarrow> u8 list" where
  "enc_sub_topics [] = []"
| "enc_sub_topics ((t, l, q) # ts) = enc_str t l @ [ucast q] @ enc_sub_topics ts"

fun enc_unsub_topics :: "unsub_topic list \<Rightarrow> u8 list" where
  "enc_unsub_topics [] = []"
| "enc_unsub_topics ((t, l) # ts) = enc_str t l @ enc_unsub_topics ts"

definition subs_readable :: "sub_topic list \<Rightarrow> bool" where
  "subs_readable ts \<longleftrightarrow> (\<forall>(t, l, q) \<in> set ts. readable t l)"

definition unsubs_readable :: "unsub_topic list \<Rightarrow> bool" where
  "unsubs_readable ts \<longleftrightarrow> (\<forall>(t, l) \<in> set ts. readable t l)"

lemma emit_fits: "ptr \<le> length buf \<Longrightarrow> emit buf ptr bs = Some (b, p) \<Longrightarrow> p \<le> length b"
  by (auto simp: emit_def mem_write_def split: if_splits)

lemma subscribe_write_topics_emit:
  "subs_readable ts \<Longrightarrow> ptr \<le> length buf \<Longrightarrow>
   subscribe_write_topics buf ptr ts = emit buf ptr (enc_sub_topics ts)"
proof (induction buf ptr ts rule: subscribe_write_topics.induct)
  case (2 buf ptr topic len qos ts)
  have "subscribe_write_topics buf ptr ((topic, len, qos) # ts) =
      Option.bind (emit buf ptr (enc_str topic len @ [ucast qos])) (\<lambda>(b, p). subscribe_write_topics b p ts)"
    using "2.prems" by (simp add: subs_readable_def write_utf8_string_enc_str)
  also have "\<dots> = Option.bind (emit buf ptr (enc_str topic len @ [ucast qos])) (\<lambda>(b, p). emit b p (enc_sub_topics ts))"
  proof (cases "emit buf ptr (enc_str topic len @ [ucast qos])")
    case (Some bp)
    then obtain b p where bp: "emit buf ptr (enc_str topic len @ [ucast qos]) = Some (b, p)"
      by (cases bp) auto
    then obtain b' p' where m: "emit buf ptr (enc_str topic len) = Some (b', p')"
      "emit b' p' [ucast qos] = Some (b, p)"
      by (auto simp: emit_append [symmetric] split: bind_split_asm)
    have "subs_readable ts"
      using "2.prems" by (simp add: subs_readable_def)
    moreover have "p \<le> length b"
      using emit_fits [OF "2.prems"(2) bp] .
    ultimately show ?thesis
      using "2.IH" m "2.prems" bp by (simp add: subs_readable_def write_utf8_string_enc_str)
  qed simp
  finally show ?case
    by (simp add: emit_append)
qed simp

lemma unsubscribe_write_topics_emit:
  "unsubs_readable ts \<Longrightarrow> ptr \<le> length buf \<Longrightarrow>
   unsubscribe_write_topics buf ptr ts = emit buf ptr (enc_unsub_topics ts)"
proof (induction buf ptr ts rule: unsubscribe_write_topics.induct)
  case (2 buf ptr topic len ts)
  have "unsubscribe_write_topics buf ptr ((topic, len) # ts) =
      Option.bind (emit buf ptr (enc_str topic len)) (\<lambda>(b, p). unsubscribe_write_topics b p ts)"
    using "2.prems" by (simp add: unsubs_readable_def write_utf8_string_enc_str)
  also have "\<dots> = Option.bind (emit buf ptr (enc_str topic len)) (\<lambda>(b, p). emit b p (enc_unsub_topics ts))"
  proof (cases "emit buf ptr (enc_str topic len)")
    case (Some bp)
    then obtain b p where bp: "emit buf ptr (enc_str topic len) = Some (b, p)"
      by (cases bp) auto
    have "unsubs_readable ts" "p \<le> length b"
      using "2.prems" emit_fits [OF "2.prems"(2) bp] by (simp_all add: unsubs_readable_def)
    then show ?thesis
      using "2.IH" "2.prems" bp by (simp add: unsubs_readable_def write_utf8_string_enc_str)
  qed simp
  finally show ?case
    by (simp add: emit_append)
qed simp

lemma length_enc_sub_topics:
  "subs_readable ts \<Longrightarrow> length (enc_sub_topics ts) = (\<Sum>(t, l, q) \<leftarrow> ts. unat l + 3)"
  by (induction ts rule: enc_sub_topics.induct) (auto simp: subs_readable_def)

lemma length_enc_unsub_topics:
  "unsubs_readable ts \<Longrightarrow> length (enc_unsub_topics ts) = (\<Sum>(t, l) \<leftarrow> ts. unat l + 2)"
  by (induction ts rule: enc_unsub_topics.induct) (auto simp: unsubs_readable_def)

lemma subscribe_rem_len_val:
  "subs_readable ts \<Longrightarrow> unat n + length (enc_sub_topics ts) < 2 ^ 32 \<Longrightarrow>
   unat (subscribe_rem_len ts n) = unat n + length (enc_sub_topics ts)"
proof (induction ts n rule: subscribe_rem_len.induct)
  case (2 topic len qos ts n)
  have "unat len < 65536" by simp
  then have "unat (n + (ucast len + 2 + 1)) = unat n + unat len + 3"
    using "2.prems" by (simp add: unat_word_ariths subs_readable_def)
  with "2" show ?case
    by (simp add: subs_readable_def)
qed simp

lemma unsubscribe_rem_len_val:
  "unsubs_readable ts \<Longrightarrow> unat n + length (enc_unsub_topics ts) < 2 ^ 32 \<Longrightarrow>
   unat (unsubscribe_rem_len ts n) = unat n + length (enc_unsub_topics ts)"
proof (induction ts n rule: unsubscribe_rem_len.induct)
  case (2 topic len ts n)
  have "unat len < 65536" by simp
  then have "unat (n + (ucast len + 2)) = unat n + unat len + 2"
    using "2.prems" by (simp add: unat_word_ariths unsubs_readable_def)
  with "2" show ?case
    by (simp add: unsubs_readable_def)
qed simp


lemma emit_then_sub_topics:
  assumes "subs_readable ts"
  shows "Option.bind (emit buf 0 xs) (\<lambda>(b, p). Option.bind (subscribe_write_topics b p ts) k) =
           Option.bind (emit buf 0 (xs @ enc_sub_topics ts)) k"
proof -
  have "Option.bind (emit buf 0 xs) (\<lambda>(b, p). Option.bind (subscribe_write_topics b p ts) k) =
      Option.bind (emit buf 0 xs) (\<lambda>(b, p). Option.bind (emit b p (enc_sub_topics ts)) k)"
    using emit_fits [of 0 buf xs] assms
    by (cases "emit buf 0 xs") (auto simp: subscribe_write_topics_emit)
  then show ?thesis by simp
qed

lemma emit_then_unsub_topics:
  assumes "unsubs_readable ts"
  shows "Option.bind (emit buf 0 xs) (\<lambda>(b, p). Option.bind (unsubscribe_write_topics b p ts) k) =
           Option.bind (emit buf 0 (xs @ enc_unsub_topics ts)) k"
proof -
  have "Option.bind (emit buf 0 xs) (\<lambda>(b, p). Option.bind (unsubscribe_write_topics b p ts) k) =
      Option.bind (emit buf 0 xs) (\<lambda>(b, p). Option.bind (emit b p (enc_unsub_topics ts)) k)"
    using emit_fits [of 0 buf xs] assms
    by (cases "emit buf 0 xs") (auto simp: unsubscribe_write_topics_emit)
  then show ?thesis by simp
qed

lemma serialize_subscribe_serialised:
  assumes "subs_readable ts" and "length (enc_sub_topics ts) + 7 < 2 ^ 32"
    and "unat txBufLen \<le> length buf" and "unat txBufLen < 268435456"
  shows "aws_iot_mqtt_serialize_subscribe buf txBufLen dup packetId ts =
           serialised buf txBufLen (header_of SUBSCRIBE QOS1 dup 0) (enc_u16 packetId @ enc_sub_topics ts)"
proof -
  let ?n = "subscribe_rem_len ts 2"
  have "aws_iot_mqtt_serialize_subscribe buf txBufLen dup packetId ts =
      (if ucast (aws_iot_mqtt_internal_get_final_packet_length_from_remaining_length ?n) > txBufLen
       then Some (Inl MQTT_TX_BUFFER_TOO_SHORT_ERROR)
       else Option.bind (emit buf 0 (header_of SUBSCRIBE QOS1 dup 0 # enc_len (unat ?n)
                @ enc_u16 packetId @ enc_sub_topics ts))
              (\<lambda>(buf, ptr). Some (Inr (buf, of_nat ptr))))"
    using assms(1)
    by (simp add: aws_iot_mqtt_serialize_subscribe_def Let_def init_header_eq put_len_emit
        emit_then_sub_topics)
  then show ?thesis
    using assms subscribe_rem_len_val [of ts 2] by (simp only:) (rule serialised_emit, simp_all)
qed

lemma serialize_unsubscribe_serialised:
  assumes "unsubs_readable ts" and "length (enc_unsub_topics ts) + 7 < 2 ^ 32"
    and "unat txBufLen \<le> length buf" and "unat txBufLen < 268435456"
  shows "aws_iot_mqtt_serialize_unsubscribe buf txBufLen dup packetId ts =
           serialised buf txBufLen (header_of UNSUBSCRIBE QOS1 dup 0) (enc_u16 packetId @ enc_unsub_topics ts)"
proof -
  let ?n = "unsubscribe_rem_len ts 2"
  have "aws_iot_mqtt_serialize_unsubscribe buf txBufLen dup packetId ts =
      (if ucast (aws_iot_mqtt_internal_get_final_packet_length_from_remaining_length ?n) > txBufLen
       then Some (Inl MQTT_TX_BUFFER_TOO_SHORT_ERROR)
       else Option.bind (emit buf 0 (header_of UNSUBSCRIBE QOS1 dup 0 # enc_len (unat ?n)
                @ enc_u16 packetId @ enc_unsub_topics ts))
              (\<lambda>(buf, ptr). Some (Inr (buf, of_nat ptr))))"
    using assms(1)
    by (simp add: aws_iot_mqtt_serialize_unsubscribe_def Let_def init_header_eq put_len_emit
        emit_then_unsub_topics)
  then show ?thesis
    using assms unsubscribe_rem_len_val [of ts 2] by (simp only:) (rule serialised_emit, simp_all)
qed

text \<open>The CONNECT packet: protocol name and level, flags, keep-alive time, then the strings that
  the parameters announce.\<close>

definition connect_body :: "IoT_Client_Connect_Params \<Rightarrow> u8 list" where
  "connect_body p =
     enc_str (Some [77, 81, 84, 84]) 4 @ [ucast (MQTTVersion p), connect_flags p]
     @ enc_u16 (keepAliveIntervalInSec p) @ enc_str (pClientID p) (clientIDLen p)
     @ (if isWillMsgPresent p
        then enc_str (will_pTopicName (will p)) (will_topicNameLen (will p))
             @ enc_str (will_pMessage (will p)) (will_msgLen (will p))
        else [])
     @ (if pUsername p \<noteq> None then enc_str (pUsername p) (usernameLen p) else [])
     @ (if pPassword p \<noteq> None then enc_str (pPassword p) (passwordLen p) else [])"

definition connect_readable :: "IoT_Client_Connect_Params \<Rightarrow> bool" where
  "connect_readable p \<longleftrightarrow> readable (pClientID p) (clientIDLen p) \<and>
     (isWillMsgPresent p \<longrightarrow> readable (will_pTopicName (will p)) (will_topicNameLen (will p)) \<and>
        readable (will_pMessage (will p)) (will_msgLen (will p))) \<and>
     (pUsername p \<noteq> None \<longrightarrow> readable (pUsername p) (usernameLen p)) \<and>
     (pPassword p \<noteq> None \<longrightarrow> readable (pPassword p) (passwordLen p))"

lemma u16_le: "unat (w :: u16) \<le> 65535"
  using u16_lt [of w] by linarith

lemma readable_const [simp]: "readable (Some [a, b, c, d]) 4"
  by (simp add: readable_def)

lemma length_connect_body:
  assumes "connect_readable p"
  shows "length (connect_body p) = 12 + unat (clientIDLen p)
    + (if isWillMsgPresent p then unat (will_topicNameLen (will p)) + unat (will_msgLen (will p)) + 4 else 0)
    + (if pUsername p \<noteq> None then unat (usernameLen p) + 2 else 0)
    + (if pPassword p \<noteq> None then unat (passwordLen p) + 2 else 0)"
  using assms by (auto simp: connect_body_def connect_readable_def)

lemma connect_packet_length_val:
  "unat (aws_iot_get_connect_packet_length p) = 12 + unat (clientIDLen p)
    + (if isWillMsgPresent p then unat (will_topicNameLen (will p)) + unat (will_msgLen (will p)) + 4 else 0)
    + (if pUsername p \<noteq> None then unat (usernameLen p) + 2 else 0)
    + (if pPassword p \<noteq> None then unat (passwordLen p) + 2 else 0)"
proof -
  have *: "unat (clientIDLen p) \<le> 65535" "unat (will_topicNameLen (will p)) \<le> 65535"
    "unat (will_msgLen (will p)) \<le> 65535" "unat (usernameLen p) \<le> 65535" "unat (passwordLen p) \<le> 65535"
    by (rule u16_le)+
  then show ?thesis
    by (auto simp: aws_iot_get_connect_packet_length_def Let_def unat_word_ariths)
qed

lemma enc_str_0 [simp]: "enc_str p 0 = enc_u16 0"
  by (simp add: enc_str_def c_bytes_def split: option.splits)

lemma serialize_connect_serialised:
  assumes "connect_readable p" and "pClientID p = None \<longleftrightarrow> clientIDLen p = 0"
    and "MQTTVersion p = MQTT_3_1_1"
    and "unat txBufLen \<le> length buf" and "unat txBufLen < 268435456"
  shows "aws_iot_mqtt_serialize_connect buf txBufLen p =
           serialised buf txBufLen (header_of CONNECT QOS0 0 0) (connect_body p)"
proof -
  let ?n = "aws_iot_get_connect_packet_length p"
  have len: "unat ?n = length (connect_body p)"
    using assms(1) by (simp only: length_connect_body connect_packet_length_val)
  have small: "length (connect_body p) + 5 < 2 ^ 32"
  proof -
    have *: "unat (clientIDLen p) \<le> 65535" "unat (will_topicNameLen (will p)) \<le> 65535"
      "unat (will_msgLen (will p)) \<le> 65535" "unat (usernameLen p) \<le> 65535" "unat (passwordLen p) \<le> 65535"
      by (rule u16_le)+
    then show ?thesis
      using assms(1) by (auto simp: length_connect_body)
  qed
  have "aws_iot_mqtt_serialize_connect buf txBufLen p =
      (if ucast (aws_iot_mqtt_internal_get_final_packet_length_from_remaining_length ?n) > txBufLen
       then Some (Inl MQTT_TX_BUFFER_TOO_SHORT_ERROR)
       else Option.bind (emit buf 0 (header_of CONNECT QOS0 0 0 # enc_len (unat ?n) @ connect_body p))
              (\<lambda>(buf, ptr). Some (Inr (buf, of_nat ptr))))"
    using assms(1-3) unfolding aws_iot_mqtt_serialize_connect_def Let_def
    by (cases "pClientID p")
      (simp_all add: init_header_eq put_len_emit write_utf8_string_enc_str emit_append
        connect_readable_def connect_body_def del: Option.bind_assoc)
  then show ?thesis
    using serialised_emit [OF len small assms(5,4)] by (simp only:)
qed

section \<open>Reading frames back\<close>

lemma read_uint16_enc:
  "drop ptr buf = enc_u16 n @ rest \<Longrightarrow>
   aws_iot_mqtt_internal_read_uint16_t buf ptr = Some (n, ptr + 2)"
  using uint16.get_enc [OF TrueI, of ptr buf n rest] by simp

lemma frame_header [simp]:
  "aws_iot_mqtt_internal_read_char (mqtt_frame h body @ rest) 0 = Some (h, 1)"
  by (simp add: aws_iot_mqtt_internal_read_char_def mqtt_frame_def)

lemma frame_decode:
  assumes "length body < 268435456"
  shows "aws_iot_mqtt_internal_decode_remaining_length_from_buffer (mqtt_frame h body @ rest) (Suc 0) =
           Some (Inr (of_nat (length body), length (enc_len (length body))))"
  using assms by (intro decode_len_enc) (simp_all add: mqtt_frame_def)

lemma drop_frame_body:
  "drop (Suc (length (enc_len (length body)))) (mqtt_frame h body @ rest) = body @ rest"
  by (simp add: mqtt_frame_def)

lemma drop_frame_body_add:
  "drop (Suc (length (enc_len (length body)) + k)) (mqtt_frame h body @ rest) = drop k (body @ rest)"
  by (simp add: mqtt_frame_def)

lemma unat_of_nat_u32: "n < 268435456 \<Longrightarrow> unat (of_nat n :: u32) = n"
  by (simp add: unsigned_of_nat take_bit_nat_eq_self_iff)

lemma unat_of_nat_size_t: "n < 268435456 \<Longrightarrow> unat (of_nat n :: size_t) = n"
  by (simp add: unsigned_of_nat take_bit_nat_eq_self_iff)

lemma header_of_qos_cast:
  "qos = QOS0 \<or> qos = QOS1 \<Longrightarrow> ucast (header_qos (header_of PUBLISH qos dup retained)) = qos"
  by (auto simp: header_of_fields)

lemma deserialize_publish_frame:
  fixes packetId :: u16
  assumes "qos = QOS0 \<or> qos = QOS1" and "\<not> 4 > rxBufLen"
    and "readable topic topicLen" and "unat payloadLen \<le> length pm"
    and "unat payloadLen + 65550 < 268435456"
  defines "body \<equiv> publish_body qos packetId topic topicLen (Some pm) payloadLen"
  defines "start \<equiv> Suc (length (enc_len (length body)))"
  shows "aws_iot_mqtt_internal_deserialize_publish
           (mqtt_frame (header_of PUBLISH qos dup retained) body @ rest) rxBufLen =
         Some (Inr \<lparr>pf_dup = (if dup = 1 then 1 else 0), pf_qos = qos,
           pf_retained = (if retained = 1 then 1 else 0),
           pf_packetId = (if qos = QOS0 then None else Some packetId),
           pf_topicName = start + 2, pf_topicNameLen = topicLen,
           pf_payload = start + 2 + unat topicLen + (if qos = QOS0 then 0 else 2),
           pf_payloadLen = payloadLen\<rparr>)"
proof -
  let ?buf = "mqtt_frame (header_of PUBLISH qos dup retained) body @ rest"
  have t: "unat topicLen \<le> 65535" by (rule u16_le)
  have q: "qos > 0 \<longleftrightarrow> qos \<noteq> QOS0" by (simp add: word_neq_0_conv)
  have len: "length body = 2 + unat topicLen + (if qos = QOS0 then 0 else 2) + unat payloadLen"
    using length_publish_body [OF assms(3,4)] by (simp add: body_def q)
  have small: "length body < 268435456"
    using len t assms(5) by auto
  have d: "drop start ?buf = enc_u16 topicLen @ c_bytes topic (unat topicLen) @
      ((if qos = QOS0 then [] else enc_u16 packetId) @ c_bytes (Some pm) (unat payloadLen) @ rest)"
    unfolding start_def drop_frame_body by (simp add: body_def publish_body_def enc_str_def q)
  have topic: "aws_iot_mqtt_internal_read_uint16_t ?buf start = Some (topicLen, start + 2)"
    using d by (rule read_uint16_enc)
  have lt: "length (c_bytes topic (unat topicLen)) = unat topicLen"
    using length_enc_str [OF assms(3)] by (simp add: enc_str_def)
  have pid: "aws_iot_mqtt_internal_read_uint16_t ?buf (start + 2 + unat topicLen) =
      Some (packetId, start + 2 + unat topicLen + 2)" if "qos \<noteq> QOS0"
  proof (rule read_uint16_enc)
    have "drop (start + 2 + unat topicLen) ?buf = drop (2 + unat topicLen) (drop start ?buf)"
      by (simp only: drop_drop add.assoc) (simp add: add.commute)
    then show "drop (start + 2 + unat topicLen) ?buf = enc_u16 packetId @ (c_bytes (Some pm) (unat payloadLen) @ rest)"
      using that lt unfolding d by simp
  qed
  have dec: "aws_iot_mqtt_internal_decode_remaining_length_from_buffer ?buf (Suc 0) =
      Some (Inr (of_nat (length body), length (enc_len (length body))))"
    using small by (rule frame_decode)
  have pl: "of_int (int (start + length body) - int (start + 2 + unat topicLen + (if qos = QOS0 then 0 else 2))) = payloadLen"
    by (simp add: len)
  have str: "aws_iot_mqtt_read_string_with_len ?buf start (start + length body) =
      Some (Inr (start + 2, topicLen, start + 2 + unat topicLen))"
  proof -
    have "Suc 0 < length body" "2 + unat topicLen \<le> length body"
      by (simp_all add: len)
    then show ?thesis
      unfolding aws_iot_mqtt_read_string_with_len_def topic by simp
  qed
  have h: "\<not> length body < Suc (Suc (unat topicLen))"
    using len by simp
  have u: "unat (of_nat (length body) :: u32) = length body"
    using small by (rule unat_of_nat_u32)
  show ?thesis
    using assms(1,2) str pid h pl
    by (auto simp: aws_iot_mqtt_internal_deserialize_publish_def frame_header dec header_of_fields
        start_def u Let_def)
qed


section \<open>Malformed packets\<close>

lemma suback_loop_count:
  assumes "suback_loop buf cur en mx c q = Some (Inr (c', q'))" and "unat c \<le> Suc (unat mx)"
    and "unat mx < 2 ^ 32 - 1"
  shows "unat c' \<le> Suc (unat mx) \<and> (cur \<le> en \<longrightarrow> unat c' = unat c + (en - cur)) \<and> length q' = length q"
  using assms
proof (induction buf cur en mx c q rule: suback_loop.induct)
  case (1 buf cur en mx c q)
  show ?case
  proof (cases "cur < en")
    case True
    with "1.prems"(1) have le: "\<not> c > mx"
      by (subst (asm) suback_loop.simps) (auto split: if_splits)
    then have c: "unat (c + 1) = Suc (unat c)" "unat c \<le> unat mx"
      using "1.prems"(3) by (simp_all add: word_less_nat_alt unat_word_ariths)
    obtain b where b: "aws_iot_mqtt_internal_read_char buf cur = Some (b, Suc cur)"
      and lt: "unat c < length q"
      and rec: "suback_loop buf (cur + 1) en mx (c + 1) (q[unat c := ucast b]) = Some (Inr (c', q'))"
      using True le "1.prems"(1)
      by (subst (asm) suback_loop.simps)
        (auto simp: aws_iot_mqtt_internal_read_char_def split: if_splits bind_split_asm)
    have "unat c' \<le> Suc (unat mx) \<and> (cur + 1 \<le> en \<longrightarrow> unat c' = unat (c + 1) + (en - (cur + 1))) \<and>
        length q' = length (q[unat c := ucast b :: QoS])"
      using True le b lt rec c "1.prems"(3) by (intro "1.IH") simp_all
    then show ?thesis
      using True c by simp
  next
    case False
    with "1.prems" show ?thesis
      by (subst (asm) suback_loop.simps) auto
  qed
qed

lemma suback_loop_safe:
  assumes "en \<le> length buf" and "unat mx < length q" and "unat mx < 2 ^ 32 - 1"
  shows "suback_loop buf cur en mx c q \<noteq> None"
  using assms
proof (induction buf cur en mx c q rule: suback_loop.induct)
  case (1 buf cur en mx c q)
  show ?case
  proof (cases "cur < en \<and> \<not> c > mx")
    case True
    then have b: "aws_iot_mqtt_internal_read_char buf cur = Some (buf ! cur, Suc cur)"
      using "1.prems"(1) by (simp add: aws_iot_mqtt_internal_read_char_def mem_get_def)
    have lt: "unat c < length q"
      using True "1.prems"(2) by (simp add: word_less_nat_alt)
    have "suback_loop buf (cur + 1) en mx (c + 1) (q[unat c := ucast (buf ! cur)]) \<noteq> None"
      using True b lt "1.prems" by (intro "1.IH") simp_all
    then show ?thesis
      using True b lt by (subst suback_loop.simps) simp
  qed (subst suback_loop.simps, auto)
qed

text \<open>The message of the witnesses: topic \<open>a/b\<close>, QoS 1, packet 7, two bytes of payload.\<close>

lemma publish_example:
  "mqtt_frame (header_of PUBLISH QOS1 0 0) (publish_body QOS1 7 (Some [97, 47, 98]) 3 (Some [1, 2]) 2)
     = [0x32, 9, 0, 3, 97, 47, 98, 0, 7, 1, 2]"
  "slack (publish_body QOS1 7 (Some [97, 47, 98]) 3 (Some [1, 2]) 2) = 0"
  "readable (Some [97, 47, 98]) 3"
proof -
  have b: "publish_body QOS1 7 (Some [97, 47, 98]) 3 (Some [1, 2]) 2 = [0, 3, 97, 47, 98, 0, 7, 1, 2]"
    by (simp add: publish_body_def enc_str_def c_bytes_def enc_u16_def)
  have h: "header_of PUBLISH QOS1 0 0 = 0x32"
    by (simp add: header_of_def aws_iot_mqtt_internal_init_header_def Let_def header_defs)
  show "mqtt_frame (header_of PUBLISH QOS1 0 0) (publish_body QOS1 7 (Some [97, 47, 98]) 3 (Some [1, 2]) 2)
     = [0x32, 9, 0, 3, 97, 47, 98, 0, 7, 1, 2]"
    unfolding b h mqtt_frame_def by (simp add: enc_len.simps)
  show "slack (publish_body QOS1 7 (Some [97, 47, 98]) 3 (Some [1, 2]) 2) = 0"
    unfolding b by (simp add: slack_def)
  show "readable (Some [97, 47, 98]) 3"
    by (simp add: readable_def)
qed

section \<open>Properties\<close>

text \<open>
  Serialising a PUBLISH.  When the topic and the payload are readable and the payload is
  shorter than \<open>2^32 - 65550\<close> bytes, \<open>aws_iot_mqtt_internal_serialize_publish\<close> never writes
  outside the transmit buffer; it either reports \<open>MQTT_TX_BUFFER_TOO_SHORT_ERROR\<close>, exactly when
  the frame (plus the byte of slack of the size estimate) is longer than the buffer, or stores
  the MQTT frame of the message at the start of the buffer, keeps the rest of the buffer, and
  returns the length of the frame.
\<close>

theorem serialize_publish_frame:
  assumes "readable topic topicLen" and "unat payloadLen \<le> length pm"
    and "unat payloadLen + 65550 < 2 ^ 32"
    and "unat txBufLen \<le> length buf" and "unat txBufLen < 268435456"
  shows "aws_iot_mqtt_internal_serialize_publish buf txBufLen dup qos retained packetId
           topic topicLen (Some pm) payloadLen =
         (let frame = mqtt_frame (header_of PUBLISH qos dup retained)
                (publish_body qos packetId topic topicLen (Some pm) payloadLen);
              sl = slack (publish_body qos packetId topic topicLen (Some pm) payloadLen)
          in if unat txBufLen < length frame + sl then Some (Inl MQTT_TX_BUFFER_TOO_SHORT_ERROR)
             else Some (Inr (frame @ drop (length frame) buf, of_nat (length frame))))"
  unfolding serialize_publish_serialised [OF assms] by (simp add: serialised_def framed_def Let_def)

theorem serialize_publish_frame_witness:
  "aws_iot_mqtt_internal_serialize_publish [0, 0, 0, 0, 0, 0, 0, 0, 0, 0, 0, 5] 12 0 QOS1 0 7
     (Some [97, 47, 98]) 3 (Some [1, 2]) 2 = Some (Inr ([0x32, 9, 0, 3, 97, 47, 98, 0, 7, 1, 2, 5], 11)) \<and>
   aws_iot_mqtt_internal_serialize_publish [0, 0, 0, 0, 0, 0, 0, 0, 0, 0, 0, 5] 10 0 QOS1 0 7
     (Some [97, 47, 98]) 3 (Some [1, 2]) 2 = Some (Inl MQTT_TX_BUFFER_TOO_SHORT_ERROR)"
  using serialize_publish_frame [OF publish_example(3), of 2 "[1, 2]" 12 "[0, 0, 0, 0, 0, 0, 0, 0, 0, 0, 0, 5]" 0 QOS1 0 7]
    serialize_publish_frame [OF publish_example(3), of 2 "[1, 2]" 10 "[0, 0, 0, 0, 0, 0, 0, 0, 0, 0, 0, 5]" 0 QOS1 0 7]
  by (simp add: publish_example)

text \<open>
  C2: a PUBLISH round-trips.  Whatever message with QoS 0 or 1 the serialiser accepts, the
  deserialiser applied to the resulting buffer succeeds and gives back the flags, the packet
  identifier (for QoS 1), the bytes of the topic and the bytes of the payload.
\<close>

theorem publish_roundtrip:
  assumes "qos = QOS0 \<or> qos = QOS1" and "readable topic topicLen" and "unat payloadLen \<le> length pm"
    and "unat payloadLen + 65550 < 268435456"
    and "unat txBufLen \<le> length buf" and "unat txBufLen < 268435456"
    and "aws_iot_mqtt_internal_serialize_publish buf txBufLen dup qos retained packetId
           topic topicLen (Some pm) payloadLen = Some (Inr (buf', len))"
  shows "\<exists>f. aws_iot_mqtt_internal_deserialize_publish buf' txBufLen = Some (Inr f) \<and>
           pf_dup f = (if dup = 1 then 1 else 0) \<and> pf_qos f = qos \<and>
           pf_retained f = (if retained = 1 then 1 else 0) \<and>
           pf_packetId f = (if qos = QOS0 then None else Some packetId) \<and>
           mem_read buf' (pf_topicName f) (unat (pf_topicNameLen f)) = Some (c_bytes topic (unat topicLen)) \<and>
           mem_read buf' (pf_payload f) (unat (pf_payloadLen f)) = Some (take (unat payloadLen) pm)"
proof -
  let ?body = "publish_body qos packetId topic topicLen (Some pm) payloadLen"
  let ?h = "header_of PUBLISH qos dup retained"
  let ?frame = "mqtt_frame ?h ?body"
  have q: "qos > 0 \<longleftrightarrow> qos \<noteq> QOS0" by (simp add: word_neq_0_conv)
  have fits: "length ?frame \<le> unat txBufLen" and buf': "buf' = ?frame @ drop (length ?frame) buf"
    using assms(7) serialize_publish_serialised [OF assms(2,3) _ assms(5,6)] assms(4)
    by (auto simp: serialised_def framed_def split: if_splits)
  have "4 \<le> length ?frame"
    using length_publish_body [OF assms(2,3), of qos packetId] length_enc_len(3) [of "length ?body"]
    by (cases "enc_len (length ?body)") (simp_all add: mqtt_frame_def)
  then have n4: "\<not> 4 > txBufLen"
    using fits by (simp add: word_less_nat_alt)
  have lt: "length (c_bytes topic (unat topicLen)) = unat topicLen"
    using length_enc_str [OF assms(2)] by (simp add: enc_str_def)
  let ?pre = "?h # enc_len (length ?body) @ enc_u16 topicLen"
  let ?mid = "c_bytes topic (unat topicLen)"
  let ?pid = "if qos = QOS0 then [] else enc_u16 packetId"
  let ?pay = "take (unat payloadLen) pm"
  have b: "buf' = ?pre @ ?mid @ (?pid @ ?pay @ drop (length ?frame) buf)"
    unfolding buf' by (simp add: mqtt_frame_def publish_body_def enc_str_def c_bytes_def q)
  then have b2: "buf' = (?pre @ ?mid @ ?pid) @ ?pay @ drop (length ?frame) buf"
    by simp
  have "mem_read buf' (length ?pre) (length ?mid) = Some ?mid"
    unfolding b by (rule mem_read_append)
  moreover have "mem_read buf' (length (?pre @ ?mid @ ?pid)) (length ?pay) = Some ?pay"
    unfolding b2 by (rule mem_read_append)
  ultimately show ?thesis
    using deserialize_publish_frame [OF assms(1) n4 assms(2-4), where packetId = packetId and dup = dup and retained = retained
          and rest = "drop (length ?frame) buf"]
      assms(3) lt unfolding buf' [symmetric]
    by (simp add: min_def split: if_splits)
qed

theorem publish_roundtrip_witness:
  "\<exists>f. aws_iot_mqtt_internal_deserialize_publish [0x32, 9, 0, 3, 97, 47, 98, 0, 7, 1, 2, 5] 12 = Some (Inr f) \<and>
     pf_packetId f = Some 7 \<and>
     mem_read [0x32, 9, 0, 3, 97, 47, 98, 0, 7, 1, 2, 5] (pf_payload f) (unat (pf_payloadLen f)) = Some [1, 2]"
proof -
  have s: "aws_iot_mqtt_internal_serialize_publish [0, 0, 0, 0, 0, 0, 0, 0, 0, 0, 0, 5] 12 0 QOS1 0 7
     (Some [97, 47, 98]) 3 (Some [1, 2]) 2 = Some (Inr ([0x32, 9, 0, 3, 97, 47, 98, 0, 7, 1, 2, 5], 11))"
    using serialize_publish_serialised [OF publish_example(3), of 2 "[1, 2]" 12 "[0, 0, 0, 0, 0, 0, 0, 0, 0, 0, 0, 5]" 0 QOS1 0 7]
    by (simp add: serialised_def framed_def publish_example)
  show ?thesis
    using publish_roundtrip [OF _ publish_example(3) _ _ _ _ s] by auto
qed


text \<open>
  What a received PUBLISH can claim about its own extent.  Whenever the deserialiser accepts
  a buffer, the topic lies inside the bytes announced by the remaining length, and the payload
  starts right behind the topic and (for a QoS other than 0) the packet identifier.  If at least
  the identifier fits, topic, identifier and payload fill the packet exactly.  If the packet
  announces a QoS other than 0 but ends less than two bytes after the topic, the difference of
  the pointers is negative and the payload length is \<open>2^64 - 1\<close> or \<open>2^64 - 2\<close>.
\<close>

theorem deserialize_publish_extent:
  assumes "aws_iot_mqtt_internal_deserialize_publish buf rxBufLen = Some (Inr f)"
  shows "\<exists>d k. aws_iot_mqtt_internal_decode_remaining_length_from_buffer buf 1 = Some (Inr (d, k)) \<and>
     (let endData = 1 + k + unat d; topicEnd = pf_topicName f + unat (pf_topicNameLen f)
      in pf_topicName f = 1 + k + 2 \<and> topicEnd \<le> endData \<and>
         pf_payload f = topicEnd + (if pf_qos f = QOS0 then 0 else 2) \<and>
         (if pf_payload f \<le> endData then pf_payload f + unat (pf_payloadLen f) = endData
          else 2 ^ 64 - 2 \<le> unat (pf_payloadLen f)))"
proof -
  obtain h d k tn tl cd pid pd where
    d: "aws_iot_mqtt_internal_decode_remaining_length_from_buffer buf 1 = Some (Inr (d, k))"
    and s: "aws_iot_mqtt_read_string_with_len buf (1 + k) (1 + k + unat d) = Some (Inr (tn, tl, cd))"
    and p: "(if QOS0 \<noteq> ucast (header_qos h)
             then Option.bind (aws_iot_mqtt_internal_read_uint16_t buf cd) (\<lambda>(i, p). Some (Some i, p))
             else Some (None, cd)) = Some (pid, pd)"
    and f: "f = \<lparr>pf_dup = header_dup h, pf_qos = ucast (header_qos h), pf_retained = header_retain h,
      pf_packetId = pid, pf_topicName = tn, pf_topicNameLen = tl, pf_payload = pd,
      pf_payloadLen = of_int (int (1 + k + unat d) - int pd)\<rparr>"
    using assms
    by (auto simp: aws_iot_mqtt_internal_deserialize_publish_def aws_iot_mqtt_internal_read_char_def Let_def
        split: if_splits bind_split_asm sum.splits prod.splits)
  have str: "tn = 1 + k + 2" "cd = tn + unat tl" "cd \<le> 1 + k + unat d"
    using s by (auto simp: aws_iot_mqtt_read_string_with_len_def aws_iot_mqtt_internal_read_uint16_t_def
        split: if_splits bind_split_asm)
  have pd: "pd = cd + (if (ucast (header_qos h) :: QoS) = QOS0 then 0 else 2)"
    using p by (auto simp: aws_iot_mqtt_internal_read_uint16_t_def split: if_splits bind_split_asm)
  define pl where "pl = (of_int (int (1 + k + unat d) - int pd) :: size_t)"
  have small: "unat d \<le> 4294967295" using u32_lt [of d] by linarith
  have "unat pl = 1 + k + unat d - pd" if "pd \<le> 1 + k + unat d"
  proof -
    have "unat (of_nat (1 + k + unat d - pd) :: size_t) = 1 + k + unat d - pd"
    proof -
      have "1 + k + unat d - pd < 2 ^ 64"
        using small str(1,2) pd by (simp split: if_splits)
      then show ?thesis by (simp only: unsigned_of_nat) (simp add: take_bit_nat_eq_self_iff)
    qed
    moreover have "int (1 + k + unat d) - int pd = int (1 + k + unat d - pd)"
      using that by (rule of_nat_diff [symmetric])
    ultimately show ?thesis
      by (metis of_int_of_nat_eq pl_def)
  qed
  moreover have "2 ^ 64 - 2 \<le> unat pl" if "\<not> pd \<le> 1 + k + unat d"
  proof -
    have "pd = 1 + k + unat d + 1 \<or> pd = 1 + k + unat d + 2"
      using that pd str(3) by (simp split: if_splits; linarith)
    then have "int (1 + k + unat d) - int pd = -1 \<or> int (1 + k + unat d) - int pd = -2"
      by auto
    moreover have "unat (-1 :: size_t) = 2 ^ 64 - 1"
      by (simp add: unsigned_minus_1_eq_mask mask_eq_exp_minus_1)
    ultimately show ?thesis unfolding pl_def by (elim disjE) (simp_all only:, simp_all)
  qed
  ultimately show ?thesis
    using d str pd unfolding f [folded pl_def] by (auto simp: Let_def)
qed

theorem deserialize_publish_extent_witness:
  "\<exists>f. aws_iot_mqtt_internal_deserialize_publish [0x32, 3, 0, 1, 97, 0, 0] 7 = Some (Inr f) \<and>
       pf_payload f = 7 \<and> 2 ^ 64 - 2 \<le> unat (pf_payloadLen f)"
proof -
  have d: "aws_iot_mqtt_internal_decode_remaining_length_from_buffer [0x32, 3, 0, 1, 97, 0, 0] 1 = Some (Inr (3, 1))"
    by (simp add: aws_iot_mqtt_internal_decode_remaining_length_from_buffer_def
        decode_len_loop.simps MAX_NO_OF_REMAINING_LENGTH_BYTES_def)
  obtain f where f: "aws_iot_mqtt_internal_deserialize_publish [0x32, 3, 0, 1, 97, 0, 0] 7 = Some (Inr f)"
    and "pf_topicNameLen f = 1" and "pf_qos f = 1"
    using d by (simp add: aws_iot_mqtt_internal_deserialize_publish_def aws_iot_mqtt_internal_read_char_def
        aws_iot_mqtt_read_string_with_len_def aws_iot_mqtt_internal_read_uint16_t_def mem_get_def
        header_defs Let_def)
  moreover from deserialize_publish_extent [OF f] d calculation
  have "pf_payload f = 7" and "\<not> pf_payload f \<le> 5 \<longrightarrow> 2 ^ 64 - 2 \<le> unat (pf_payloadLen f)"
    by (simp_all add: Let_def split: if_splits)
  ultimately show ?thesis by simp
qed

text \<open>
  Acknowledgements round-trip.  For every packet type of the protocol and every packet
  identifier, \<open>aws_iot_mqtt_internal_serialize_ack\<close> into a buffer of at least four bytes
  succeeds, and \<open>aws_iot_mqtt_internal_deserialize_ack\<close> reads the type, the duplicate flag and
  the identifier back; as an UNSUBACK exactly the type UNSUBACK is accepted.
\<close>

theorem ack_roundtrip:
  assumes "4 \<le> unat txBufLen" and "unat txBufLen \<le> length buf" and "mt \<noteq> UNKNOWN"
  shows "\<exists>buf'. aws_iot_mqtt_internal_serialize_ack buf txBufLen mt dup packetId = Some (Inr (buf', 4)) \<and>
     drop 4 buf' = drop 4 buf \<and>
     aws_iot_mqtt_internal_deserialize_ack buf' txBufLen =
       Some (Inr (word_of_int (msgCode mt), if dup = 1 then 1 else 0, packetId)) \<and>
     aws_iot_mqtt_deserialize_unsuback buf' txBufLen =
       Some (if mt = UNSUBACK then Inr packetId else Inl FAILURE)"
proof -
  define h where "h = header_of mt (if mt = PUBREL then QOS1 else QOS0) dup 0"
  let ?buf' = "mqtt_frame h (enc_u16 packetId) @ drop 4 buf"
  have n: "\<not> 4 > txBufLen"
    using assms(1) by (simp add: word_less_nat_alt)
  have e: "enc_len 2 = [2]" by (simp add: enc_len.simps)
  have len: "length (mqtt_frame h (enc_u16 packetId)) = 4"
    by (simp add: mqtt_frame_def e)
  have ser: "aws_iot_mqtt_internal_serialize_ack buf txBufLen mt dup packetId = Some (Inr (?buf', 4))"
    using serialize_ack_framed [OF assms] len by (simp add: framed_def h_def)
  have dec: "aws_iot_mqtt_internal_decode_remaining_length_from_buffer ?buf' (Suc 0) = Some (Inr (2, 1))"
    using frame_decode [of "enc_u16 packetId" h "drop 4 buf"] by (simp add: e)
  have u: "aws_iot_mqtt_internal_read_uint16_t ?buf' (Suc (Suc 0)) = Some (packetId, 4)"
    using read_uint16_enc [of "Suc (Suc 0)" ?buf' packetId "drop 4 buf"] by (simp add: mqtt_frame_def e)
  have ht: "header_type h = word_of_int (msgCode mt)"
    using header_of_fields(1) [OF assms(3)] by (metis h_def word_of_int_uint)
  have des: "aws_iot_mqtt_internal_deserialize_ack ?buf' txBufLen =
      Some (Inr (word_of_int (msgCode mt), if dup = 1 then 1 else 0, packetId))"
    using n dec u header_of_fields [OF assms(3)] ht
    by (simp add: aws_iot_mqtt_internal_deserialize_ack_def h_def)
  have "aws_iot_mqtt_deserialize_unsuback ?buf' txBufLen =
      Some (if mt = UNSUBACK then Inr packetId else Inl FAILURE)"
    using des assms(3) by (cases mt) (simp_all add: aws_iot_mqtt_deserialize_unsuback_def)
  moreover have "drop 4 ?buf' = drop 4 buf"
    using len by simp
  ultimately show ?thesis
    using ser des by blast
qed

theorem ack_roundtrip_witness:
  "\<exists>buf'. aws_iot_mqtt_internal_serialize_ack [0, 0, 0, 0, 1] 5 UNSUBACK 0 777 = Some (Inr (buf', 4)) \<and>
     drop 4 buf' = [1] \<and> aws_iot_mqtt_deserialize_unsuback buf' 5 = Some (Inr 777)"
  using ack_roundtrip [of 5 "[0, 0, 0, 0, 1]" UNSUBACK 0 777] by auto

lemma suback_loop_error:
  "suback_loop buf cur en mx c q = Some (Inl rc) \<Longrightarrow> rc = FAILURE"
  by (induction buf cur en mx c q rule: suback_loop.induct)
    (subst (asm) (2) suback_loop.simps, auto split: if_splits bind_split_asm)

text \<open>
  SUBSCRIBE and UNSUBSCRIBE packets.  For readable topic filters of any number whose total
  length does not wrap around 32 bits, both serialisers stay inside the transmit buffer: they
  either report that the packet does not fit, or store the frame made of the packet identifier
  followed by every filter in order (with its requested QoS for SUBSCRIBE).
\<close>

theorem serialize_subscribe_unsubscribe_frame:
  assumes "subs_readable ts" and "length (enc_sub_topics ts) + 7 < 2 ^ 32"
    and "unsubs_readable us" and "length (enc_unsub_topics us) + 7 < 2 ^ 32"
    and "unat txBufLen \<le> length buf" and "unat txBufLen < 268435456"
  shows "aws_iot_mqtt_serialize_subscribe buf txBufLen dup packetId ts =
           serialised buf txBufLen (header_of SUBSCRIBE QOS1 dup 0) (enc_u16 packetId @ enc_sub_topics ts)
       \<and> aws_iot_mqtt_serialize_unsubscribe buf txBufLen dup packetId us =
           serialised buf txBufLen (header_of UNSUBSCRIBE QOS1 dup 0) (enc_u16 packetId @ enc_unsub_topics us)"
  using serialize_subscribe_serialised [OF assms(1,2,5,6)]
    serialize_unsubscribe_serialised [OF assms(3-6)] by blast

theorem serialize_subscribe_unsubscribe_frame_witness:
  "aws_iot_mqtt_serialize_subscribe [0, 0, 0, 0, 0, 0, 0, 0, 0, 9] 10 0 3 [(Some [97, 98], 2, QOS1)] =
     Some (Inr ([0x82, 7, 0, 3, 0, 2, 97, 98, 1, 9], 9)) \<and>
   aws_iot_mqtt_serialize_unsubscribe [0, 0, 0, 0, 0, 0, 0, 0, 0, 9] 10 0 3 [(Some [97, 98], 2)] =
     Some (Inr ([0xA2, 6, 0, 3, 0, 2, 97, 98, 0, 9], 8))"
proof -
  have s: "enc_sub_topics [(Some [97, 98], 2, QOS1)] = [0, 2, 97, 98, 1]"
    and u: "enc_unsub_topics [(Some [97, 98], 2)] = [0, 2, 97, 98]"
    and r: "subs_readable [(Some [97, 98], 2, QOS1)]" "unsubs_readable [(Some [97, 98], 2)]"
    by (simp_all add: enc_str_def enc_u16_def c_bytes_def subs_readable_def unsubs_readable_def readable_def)
  have h: "header_of SUBSCRIBE QOS1 0 0 = 0x82" "header_of UNSUBSCRIBE QOS1 0 0 = 0xA2"
    by (simp_all add: header_of_def aws_iot_mqtt_internal_init_header_def Let_def header_defs)
  show ?thesis
    using serialize_subscribe_unsubscribe_frame
      [OF r(1) _ r(2), of 10 "[0, 0, 0, 0, 0, 0, 0, 0, 0, 9]" 0 3]
    by (simp add: s u h serialised_def framed_def mqtt_frame_def slack_def enc_u16_def enc_len.simps
        del: enc_sub_topics.simps enc_unsub_topics.simps)
qed

text \<open>
  The CONNECT packet.  With readable strings, a client identifier given exactly when its
  length is not zero, and protocol version 3.1.1, \<open>aws_iot_mqtt_serialize_connect\<close> stores the
  frame whose body is the protocol name and level, the connect flags, the keep-alive time, the
  client identifier and then the will, user name and password that the parameters announce, or
  reports that it does not fit; it never leaves the buffer.
\<close>

theorem serialize_connect_frame:
  assumes "connect_readable p" and "pClientID p = None \<longleftrightarrow> clientIDLen p = 0"
    and "MQTTVersion p = MQTT_3_1_1"
    and "unat txBufLen \<le> length buf" and "unat txBufLen < 268435456"
  shows "aws_iot_mqtt_serialize_connect buf txBufLen p =
           serialised buf txBufLen (header_of CONNECT QOS0 0 0) (connect_body p)"
  using assms by (rule serialize_connect_serialised)

theorem serialize_connect_frame_witness:
  "aws_iot_mqtt_serialize_connect (replicate 16 0) 16
     (iotClientConnectParamsDefault\<lparr>pClientID := Some [99, 0], clientIDLen := 1\<rparr>) =
   Some (Inr ([0x10, 13, 0, 4, 77, 81, 84, 84, 4, 2, 0, 60, 0, 1, 99, 0], 15))"
proof -
  define p where "p = iotClientConnectParamsDefault\<lparr>pClientID := Some [99, 0], clientIDLen := 1\<rparr>"
  have b: "connect_body p = [0, 4, 77, 81, 84, 84, 4, 2, 0, 60, 0, 1, 99]"
    by (simp add: p_def connect_body_def iotClientConnectParamsDefault_def enc_str_def enc_u16_def
        c_bytes_def connect_flags_def flags_defs Let_def)
  have h: "header_of CONNECT QOS0 0 0 = 0x10"
    by (simp add: header_of_def aws_iot_mqtt_internal_init_header_def Let_def header_defs)
  have r: "connect_readable p" "pClientID p = None \<longleftrightarrow> clientIDLen p = 0" "MQTTVersion p = MQTT_3_1_1"
    by (simp_all add: p_def connect_readable_def readable_def iotClientConnectParamsDefault_def)
  show ?thesis
    using serialize_connect_frame [OF r, of 16 "replicate 16 0"] unfolding p_def [symmetric]
    by (simp add: b h serialised_def framed_def mqtt_frame_def slack_def enc_len.simps)
qed

text \<open>
  SUBACK is read safely.  If the announced packet lies inside the receive buffer and the
  array of granted QoS values has more than \<open>maxExpectedQoSCount\<close> elements,
  \<open>aws_iot_mqtt_deserialize_suback\<close> never leaves either; an accepted packet grants at most
  \<open>maxExpectedQoSCount + 1\<close> values (one more than the caller asked for), as many as it has
  bytes behind the packet identifier.
\<close>

theorem deserialize_suback_safe:
  assumes "unat mx < length q" and "unat mx < 2 ^ 32 - 1" and "5 \<le> length buf"
    and "\<And>d k. aws_iot_mqtt_internal_decode_remaining_length_from_buffer buf 1 = Some (Inr (d, k))
           \<Longrightarrow> 1 + k + unat d \<le> length buf"
  shows "case aws_iot_mqtt_deserialize_suback mx q buf rxBufLen of
           None \<Rightarrow> False
         | Some (Inl rc) \<Rightarrow> rc \<noteq> SUCCESS
         | Some (Inr (packetId, count, granted)) \<Rightarrow>
             unat count \<le> unat mx + 1 \<and> length granted = length q \<and>
             (\<exists>d k. aws_iot_mqtt_internal_decode_remaining_length_from_buffer buf 1 = Some (Inr (d, k)) \<and>
                unat count = unat d - 2)"
proof -
  have h: "aws_iot_mqtt_internal_read_char buf 0 = Some (buf ! 0, 1)"
    using assms(3) by (cases buf) (simp_all add: aws_iot_mqtt_internal_read_char_def)
  show ?thesis
  proof (cases "5 > rxBufLen \<or> msgCode SUBACK \<noteq> uint (header_type (buf ! 0))")
    case True
    then show ?thesis
      using assms(3) by (auto simp: aws_iot_mqtt_deserialize_suback_def h)
  next
    case False
    let ?dec = "aws_iot_mqtt_internal_decode_remaining_length_from_buffer buf 1"
    have "?dec \<noteq> None"
      using assms(3) by (intro decode_len_defined) simp
    then obtain r where r: "?dec = Some r" by blast
    show ?thesis
    proof (cases r)
      case (Inl rc)
      then have "rc \<noteq> SUCCESS"
        using decode_len_error [of buf 1 rc] r by auto
      then show ?thesis
        using False r Inl assms(3) by (simp add: aws_iot_mqtt_deserialize_suback_def h)
    next
      case (Inr dk)
      then obtain d k where dec: "?dec = Some (Inr (d, k))"
        using r by (cases dk) auto
      note fits = assms(4) [OF dec]
      show ?thesis
      proof (cases "unat d < 2")
        case True
        then have "int (unat d) < 2" by linarith
        then show ?thesis
          using False dec by (simp add: aws_iot_mqtt_deserialize_suback_def h)
      next
        case d2: False
        then have d2': "\<not> int (unat d) < 2" by linarith
        let ?loop = "suback_loop buf (1 + k + 2) (1 + k + unat d) mx 0 q"
        obtain i where i: "aws_iot_mqtt_internal_read_uint16_t buf (1 + k) = Some (i, 1 + k + 2)"
          using fits d2 by (auto simp: aws_iot_mqtt_internal_read_uint16_t_def mem_get_def)
        have eq: "aws_iot_mqtt_deserialize_suback mx q buf rxBufLen =
            Option.bind ?loop (\<lambda>r. case r of Inl rc \<Rightarrow> Some (Inl rc)
              | Inr (count, granted) \<Rightarrow> Some (Inr (i, count, granted)))"
          using False dec d2' i
          by (simp add: aws_iot_mqtt_deserialize_suback_def h)
        have "?loop \<noteq> None"
          using suback_loop_safe [OF fits assms(1,2)] .
        moreover have "rc \<noteq> SUCCESS" if "?loop = Some (Inl rc)" for rc
          using suback_loop_error [OF that] by simp
        moreover have "unat c \<le> Suc (unat mx) \<and> unat c = unat d - 2 \<and> length g = length q"
          if "?loop = Some (Inr (c, g))" for c g
          using suback_loop_count [OF that _ assms(2)] d2 by simp
        ultimately show ?thesis
          using dec unfolding eq by (fastforce split: option.splits sum.splits)
      qed
    qed
  qed
qed

theorem deserialize_suback_safe_witness:
  "aws_iot_mqtt_deserialize_suback 1 [0, 0, 0] [0x90, 3, 0, 9, 1] 512 = Some (Inr (9, 1, [1, 0, 0])) \<and>
   aws_iot_mqtt_deserialize_suback 1 [0, 0, 0] [0x90, 5, 0, 9, 1, 1, 1] 512 = Some (Inl FAILURE)"
proof -
  have d: "aws_iot_mqtt_internal_decode_remaining_length_from_buffer [0x90, 3, 0, 9, 1] 1 = Some (Inr (3, 1))"
    "aws_iot_mqtt_internal_decode_remaining_length_from_buffer [0x90, 5, 0, 9, 1, 1, 1] 1 = Some (Inr (5, 1))"
    by (simp_all add: aws_iot_mqtt_internal_decode_remaining_length_from_buffer_def
        decode_len_loop.simps MAX_NO_OF_REMAINING_LENGTH_BYTES_def)
  have "case aws_iot_mqtt_deserialize_suback 1 [0, 0, 0] [0x90, 3, 0, 9, 1] 512 of
      Some (Inr (packetId, count, granted)) \<Rightarrow> unat count = 1 | _ \<Rightarrow> True"
    using deserialize_suback_safe [of 1 "[0, 0, 0]" "[0x90, 3, 0, 9, 1]" 512] d
    by (auto split: option.splits sum.splits)
  moreover have "suback_loop [0x90, 3, 0, 9, 1] (Suc (Suc (Suc (Suc 0)))) 5 1 0 [0, 0, 0] = Some (Inr (1, [1, 0, 0]))"
    "suback_loop [0x90, 5, 0, 9, 1, 1, 1] (Suc (Suc (Suc (Suc 0)))) 7 1 0 [0, 0, 0] = Some (Inl FAILURE)"
    by (simp_all add: suback_loop.simps aws_iot_mqtt_internal_read_char_def mem_get_def)
  ultimately show ?thesis
    using d
    by (simp add: aws_iot_mqtt_deserialize_suback_def aws_iot_mqtt_internal_read_char_def
        aws_iot_mqtt_internal_read_uint16_t_def header_defs)
qed

text \<open>
  CONNACK decides the outcome of connecting.  For a received packet that lies inside the
  buffer, \<open>aws_iot_mqtt_deserialize_connack\<close> refuses a packet of another type and one whose
  remaining length is not two; otherwise it reports the verdict of the return code: 0 is
  accepted, 1 to 5 are the refusals of the specification in their order, and every other code
  is unknown.
\<close>

theorem connack_verdict:
  assumes "4 \<le> unat rxBufLen" and "buf \<noteq> []"
    and "aws_iot_mqtt_internal_decode_remaining_length_from_buffer buf 1 = Some (Inr (d, k))"
    and "1 + k + unat d \<le> length buf"
  shows "aws_iot_mqtt_deserialize_connack buf rxBufLen =
    (if header_type (buf ! 0) \<noteq> 2 then Some (Inl FAILURE)
     else if d \<noteq> 2 then Some (Inl MQTT_DECODE_REMAINING_LENGTH_ERROR)
     else Some (Inr (drop_bit 7 (buf ! (1 + k)),
       let codes = [MQTT_CONNACK_CONNECTION_ACCEPTED, MQTT_CONNACK_UNACCEPTABLE_PROTOCOL_VERSION_ERROR,
             MQTT_CONNACK_IDENTIFIER_REJECTED_ERROR, MQTT_CONNACK_SERVER_UNAVAILABLE_ERROR,
             MQTT_CONNACK_BAD_USERDATA_ERROR, MQTT_CONNACK_NOT_AUTHORIZED_ERROR];
           c = unat (buf ! (2 + k))
       in if c < length codes then codes ! c else MQTT_CONNACK_UNKNOWN_ERROR)))"
proof -
  have h: "aws_iot_mqtt_internal_read_char buf 0 = Some (buf ! 0, 1)"
    using assms(2) by (simp add: aws_iot_mqtt_internal_read_char_def mem_get_def)
  have n: "\<not> 4 > rxBufLen"
    using assms(1) by (simp add: word_less_nat_alt)
  have t: "msgCode CONNACK \<noteq> uint (header_type (buf ! 0)) \<longleftrightarrow> header_type (buf ! 0) \<noteq> 2"
    using word_uint_eq_iff [of "header_type (buf ! 0)" 2] by auto
  have d: "2 = int (1 + k + unat d) - int (1 + k) \<longleftrightarrow> d = 2"
    by (auto simp: word_uint_eq_iff)
  have code: "connack_return_code c =
      (let codes = [MQTT_CONNACK_CONNECTION_ACCEPTED, MQTT_CONNACK_UNACCEPTABLE_PROTOCOL_VERSION_ERROR,
             MQTT_CONNACK_IDENTIFIER_REJECTED_ERROR, MQTT_CONNACK_SERVER_UNAVAILABLE_ERROR,
             MQTT_CONNACK_BAD_USERDATA_ERROR, MQTT_CONNACK_NOT_AUTHORIZED_ERROR]
       in if unat c < length codes then codes ! unat c else MQTT_CONNACK_UNKNOWN_ERROR)" for c
    by (auto simp: connack_return_code_def word_unat_eq_iff less_Suc_eq)
  have two: "aws_iot_mqtt_internal_read_char buf (Suc k) = Some (buf ! (1 + k), 2 + k)"
    "aws_iot_mqtt_internal_read_char buf (2 + k) = Some (buf ! (2 + k), 3 + k)" if "d = 2"
    using assms(4) that by (simp_all add: aws_iot_mqtt_internal_read_char_def mem_get_def)
  show ?thesis
  proof (cases "header_type (buf ! 0) = 2")
    case False
    then show ?thesis
      using n h t by (simp add: aws_iot_mqtt_deserialize_connack_def)
  next
    case True
    have t': "uint (header_type (buf ! 0)) = 2"
      using True by simp
    show ?thesis
    proof (cases "d = 2")
      case False
      then show ?thesis
        using n h t' True d assms(3) by (simp add: aws_iot_mqtt_deserialize_connack_def)
    next
      case d2: True
      then show ?thesis
        using n h t' True assms(3) two [OF d2]
        by (simp add: aws_iot_mqtt_deserialize_connack_def flags_sessionpresent_def code)
    qed
  qed
qed

theorem connack_verdict_witness:
  "aws_iot_mqtt_deserialize_connack [0x20, 2, 1, 0, 7] 512 = Some (Inr (0, MQTT_CONNACK_CONNECTION_ACCEPTED)) \<and>
   aws_iot_mqtt_deserialize_connack [0x20, 2, 0, 5, 7] 512 = Some (Inr (0, MQTT_CONNACK_NOT_AUTHORIZED_ERROR))"
proof -
  have d: "aws_iot_mqtt_internal_decode_remaining_length_from_buffer (a # 2 # bs) 1 = Some (Inr (2, 1))" for a bs
    by (simp add: aws_iot_mqtt_internal_decode_remaining_length_from_buffer_def
        decode_len_loop.simps MAX_NO_OF_REMAINING_LENGTH_BYTES_def)
  show ?thesis
    using connack_verdict [of 512 "[0x20, 2, 1, 0, 7]", OF _ _ d] connack_verdict [of 512 "[0x20, 2, 0, 5, 7]", OF _ _ d]
    by (simp add: header_defs)
qed

end
