(* ===== verification/Topic_Match.thy ===== *)
theory Topic_Match
  imports Iot_Types
begin

text \<open>
  Matching of topic filters, \<open>_aws_iot_mqtt_internal_is_topic_matched\<close> of
  \<open>src/aws_iot_mqtt_client_common_internal.c\<close>.  The two cursors of the C code are indices into
  the filter (NUL-terminated) and the topic name (with an explicit length).

  The abstract specification \<open>topic_matches\<close> works on the levels of filter and name: a literal
  level matches itself, the single-level wildcard one level, the multi-level wildcard all
  remaining ones.  The C code wants at least one character where a wildcard starts, so the
  specification requires a non-empty level there, and the multi-level wildcard does not match
  the parent level.
\<close>

section \<open>The matcher\<close>

function skip_level :: "mem \<Rightarrow> nat \<Rightarrow> nat \<Rightarrow> nat option" where
  "skip_level name curn curn_end =
     (if curn + 1 < curn_end then do {
        c \<leftarrow> mem_get name (curn + 1);
        if c \<noteq> 47 then skip_level name (curn + 1) curn_end else Some curn }
      else Some curn)"
  by pat_completeness auto
termination
  by (relation "measure (\<lambda>(name, curn, curn_end). curn_end - curn)") auto

declare skip_level.simps [simp del]

function match_loop :: "mem \<Rightarrow> mem \<Rightarrow> nat \<Rightarrow> nat \<Rightarrow> nat \<Rightarrow> (nat \<times> nat) option" where
  "match_loop flt name curf curn curn_end = do {
     cf \<leftarrow> mem_get flt curf;
     if cf \<noteq> 0 \<and> curn < curn_end then do {
       cn \<leftarrow> mem_get name curn;
       if cn = 47 \<and> cf \<noteq> 47 then Some (curf, curn)
       else if cf \<noteq> 43 \<and> cf \<noteq> 35 \<and> cf \<noteq> cn then Some (curf, curn)
       else do {
         curn \<leftarrow> (if cf = 43 then skip_level name curn curn_end
                 else if cf = 35 then Some (curn_end - 1)
                 else Some curn);
         match_loop flt name (curf + 1) (curn + 1) curn_end } }
     else Some (curf, curn) }"
  by pat_completeness auto
termination
  by (relation "measure (\<lambda>(flt, name, curf, curn, curn_end). length flt - curf)")
    (auto simp: mem_get_def split: if_splits)

declare match_loop.simps [simp del]

text \<open>The result is a \<open>char\<close>; \<open>NULL_VALUE_ERROR\<close> is the number -2.\<close>

definition is_topic_matched :: "cptr \<Rightarrow> cptr \<Rightarrow> u16 \<Rightarrow> int option" where
  "is_topic_matched pTopicFilter pTopicName topicNameLen =
     (case (pTopicFilter, pTopicName) of
        (Some flt, Some name) \<Rightarrow> do {
          let curn_end = unat topicNameLen;
          (curf, curn) \<leftarrow> match_loop flt name 0 0 curn_end;
          cf \<leftarrow> mem_get flt curf;
          Some (if curn = curn_end \<and> cf = 0 then 1 else 0) }
      | _ \<Rightarrow> Some (-2))"

section \<open>The cursors as lists\<close>

fun chars_match :: "u8 list \<Rightarrow> u8 list \<Rightarrow> bool" where
  "chars_match [] n = (n = [])"
| "chars_match (c # f) [] = False"
| "chars_match (c # f) (d # n) =
     (if d = 47 \<and> c \<noteq> 47 then False
      else if c \<noteq> 43 \<and> c \<noteq> 35 \<and> c \<noteq> d then False
      else if c = 43 then chars_match f (dropWhile (\<lambda>x. x \<noteq> 47) n)
      else if c = 35 then chars_match f []
      else chars_match f n)"

lemma skip_level_dropWhile:
  assumes "curn < e" and "e \<le> length name"
  shows "\<exists>p. skip_level name curn e = Some p \<and> curn \<le> p \<and> p < e \<and>
           drop (Suc p) (take e name) = dropWhile (\<lambda>x. x \<noteq> 47) (drop (Suc curn) (take e name))"
  using assms
proof (induction name curn e rule: skip_level.induct)
  case (1 name curn e)
  show ?case
  proof (cases "Suc curn < e")
    case True
    then have get: "mem_get name (curn + 1) = Some (name ! Suc curn)"
      using "1.prems" by (simp add: mem_get_def)
    have d: "drop (Suc curn) (take e name) = name ! Suc curn # drop (Suc (Suc curn)) (take e name)"
      using True "1.prems" by (subst Cons_nth_drop_Suc [symmetric]) simp_all
    show ?thesis
    proof (cases "name ! Suc curn = 47")
      case True
      then show ?thesis
        using \<open>Suc curn < e\<close> get d by (subst skip_level.simps) auto
    next
      case False
      then obtain p where "skip_level name (curn + 1) e = Some p" "curn + 1 \<le> p" "p < e"
        "drop (Suc p) (take e name) = dropWhile (\<lambda>x. x \<noteq> 47) (drop (Suc (curn + 1)) (take e name))"
        using "1.IH" [OF _ get] True "1.prems" by auto
      then show ?thesis
        using False True get d by (subst skip_level.simps) auto
    qed
  next
    case False
    then show ?thesis
      using "1.prems" by (subst skip_level.simps) auto
  qed
qed

definition match_end :: "mem \<Rightarrow> nat \<Rightarrow> nat \<times> nat \<Rightarrow> bool option" where
  "match_end flt e p = map_option (\<lambda>c. snd p = e \<and> c = 0) (mem_get flt (fst p))"

lemma match_loop_chars:
  assumes "drop curf flt = f @ 0 # r" and "0 \<notin> set f" and "curn \<le> e" and "e \<le> length name"
  shows "Option.bind (match_loop flt name curf curn e) (match_end flt e) =
           Some (chars_match f (drop curn (take e name)))"
  using assms
proof (induction f arbitrary: curf curn)
  case Nil
  then have get: "mem_get flt curf = Some 0"
    by (metis append_Nil mem_get_def drop_eq_Nil list.distinct(1) nth_via_drop not_less)
  have "match_loop flt name curf curn e = Some (curf, curn)"
    using get by (subst match_loop.simps) simp
  then show ?case
    using Nil.prems get by (auto simp: match_end_def)
next
  case (Cons c f)
  then have get: "mem_get flt curf = Some c"
    by (metis append_Cons mem_get_def drop_eq_Nil list.distinct(1) nth_via_drop not_less)
  have c0: "c \<noteq> 0" and f0: "0 \<notin> set f" using Cons.prems(2) by auto
  have f: "drop (curf + 1) flt = f @ 0 # r"
    using Cons.prems(1) by (metis append_Cons drop_Suc Suc_eq_plus1 list.sel(3) tl_drop)
  show ?case
  proof (cases "curn < e")
    case False
    then show ?thesis
      using get c0 Cons.prems(3,4) by (subst match_loop.simps) (auto simp: match_end_def)
  next
    case True
    then have n: "mem_get name curn = Some (name ! curn)"
      and d: "drop curn (take e name) = name ! curn # drop (Suc curn) (take e name)"
      using Cons.prems(4) Cons_nth_drop_Suc [of curn "take e name"] by (simp_all add: mem_get_def)
    obtain p where p: "skip_level name curn e = Some p" "curn \<le> p" "p < e"
      "drop (Suc p) (take e name) = dropWhile (\<lambda>x. x \<noteq> 47) (drop (Suc curn) (take e name))"
      using skip_level_dropWhile [OF True Cons.prems(4)] by blast
    have stop: "Option.bind (Some (curf, curn)) (match_end flt e) = Some False"
      using get c0 by (simp add: match_end_def)
    have IH: "Option.bind (match_loop flt name (curf + 1) (k + 1) e) (match_end flt e) =
        Some (chars_match f (drop (k + 1) (take e name)))" if "k < e" for k
      using Cons.IH [OF f f0, of "k + 1"] that Cons.prems(4) by simp
    have step: "match_loop flt name curf curn e =
        (if (name ! curn = 47 \<and> c \<noteq> 47) \<or> (c \<noteq> 43 \<and> c \<noteq> 35 \<and> c \<noteq> name ! curn) then Some (curf, curn)
         else match_loop flt name (curf + 1)
           ((if c = 43 then p else if c = 35 then e - 1 else curn) + 1) e)"
      using get c0 True n p(1) by (subst match_loop.simps) auto
    show ?thesis
      unfolding step d using stop IH [of p] IH [of "e - 1"] IH [of curn] p True Cons.prems(4)
      by auto
  qed
qed

lemma is_topic_matched_chars:
  assumes "0 \<notin> set f" and "unat n = length t"
  shows "is_topic_matched (Some (f @ 0 # r)) (Some (t @ r')) n = Some (if chars_match f t then 1 else 0)"
proof -
  have "Option.bind (match_loop (f @ 0 # r) (t @ r') 0 0 (length t)) (match_end (f @ 0 # r) (length t)) =
      Some (chars_match f t)"
    using match_loop_chars [of 0 "f @ 0 # r" f r 0 "length t" "t @ r'"] assms(1) by simp
  then show ?thesis
    using assms(2)
    by (auto simp: is_topic_matched_def match_end_def Let_def split: bind_split_asm)
qed

section \<open>Levels\<close>

fun join_levels :: "u8 list list \<Rightarrow> u8 list" where
  "join_levels [] = []"
| "join_levels [l] = l"
| "join_levels (l # ls) = l @ 47 # join_levels ls"

fun wf_filter :: "u8 list list \<Rightarrow> bool" where
  "wf_filter [] = True"
| "wf_filter (f # fs) =
     (if f = [35] then fs = []
      else (f = [43] \<or> set f \<inter> {0, 35, 43, 47} = {}) \<and> wf_filter fs)"

fun topic_matches :: "u8 list list \<Rightarrow> u8 list list \<Rightarrow> bool" where
  "topic_matches [] ns = (ns = [])"
| "topic_matches (f # fs) [] = False"
| "topic_matches (f # fs) (n # ns) =
     (if f = [35] then n \<noteq> []
      else if f = [43] then n \<noteq> [] \<and> topic_matches fs ns
      else f = n \<and> topic_matches fs ns)"

text \<open>The rest of a filter or name behind a level: nothing, or a separator.\<close>

definition tail_ok :: "u8 list \<Rightarrow> bool" where
  "tail_ok s \<longleftrightarrow> s = [] \<or> hd s = 47"

lemma chars_match_literal:
  assumes "set l \<inter> {35, 43, 47} = {}" and "47 \<notin> set m" and "tail_ok F" and "tail_ok N"
  shows "chars_match (l @ F) (m @ N) \<longleftrightarrow> l = m \<and> chars_match F N"
  using assms
proof (induction l arbitrary: m)
  case Nil
  show ?case
  proof (cases m)
    case (Cons d m')
    with Nil show ?thesis
      by (cases F) (auto simp: tail_ok_def)
  qed simp
next
  case (Cons c l)
  show ?case
  proof (cases m)
    case Nil
    with Cons.prems show ?thesis
      by (cases N) (auto simp: tail_ok_def)
  next
    case (Cons d m')
    with Cons.prems Cons.IH [of m'] show ?thesis
      by auto
  qed
qed

lemma chars_match_plus:
  assumes "47 \<notin> set m" and "tail_ok N"
  shows "chars_match (43 # F) (m @ N) \<longleftrightarrow> m \<noteq> [] \<and> chars_match F N"
proof (cases m)
  case Nil
  with assms show ?thesis by (cases N) (auto simp: tail_ok_def)
next
  case (Cons d m')
  have "dropWhile (\<lambda>x. x \<noteq> 47) (m' @ N) = N"
  proof -
    have "dropWhile (\<lambda>x. x \<noteq> 47) (m' @ N) = dropWhile (\<lambda>x. x \<noteq> 47) N"
      using assms(1) Cons by (intro dropWhile_append2) auto
    then show ?thesis
      using assms(2) by (cases N) (auto simp: tail_ok_def)
  qed
  with assms Cons show ?thesis by auto
qed

lemma chars_match_hash:
  assumes "47 \<notin> set m" and "tail_ok N"
  shows "chars_match [35] (m @ N) \<longleftrightarrow> m \<noteq> []"
  using assms by (cases m; cases N) (auto simp: tail_ok_def)

lemma join_levels_tail:
  obtains T where "join_levels (l # ls) = l @ T" "tail_ok T" "T = (if ls = [] then [] else 47 # join_levels ls)"
  by (cases ls) (auto simp: tail_ok_def)

lemma chars_match_levels:
  assumes "wf_filter fs" and "\<forall>n \<in> set ns. 47 \<notin> set n" and "fs \<noteq> []" and "ns \<noteq> []"
  shows "chars_match (join_levels fs) (join_levels ns) \<longleftrightarrow> topic_matches fs ns"
  using assms
proof (induction fs ns rule: topic_matches.induct)
  case (3 f fs n ns)
  obtain F where F: "join_levels (f # fs) = f @ F" "tail_ok F" "F = (if fs = [] then [] else 47 # join_levels fs)"
    by (rule join_levels_tail)
  obtain N where N: "join_levels (n # ns) = n @ N" "tail_ok N" "N = (if ns = [] then [] else 47 # join_levels ns)"
    by (rule join_levels_tail)
  have n: "47 \<notin> set n" using "3.prems" by simp
  have rest: "chars_match F N \<longleftrightarrow> topic_matches fs ns" if "f \<noteq> [35]"
  proof (cases "fs = [] \<or> ns = []")
    case True
    then show ?thesis using F(3) N(3) by (cases fs; cases ns) auto
  next
    case False
    then have "chars_match (join_levels fs) (join_levels ns) \<longleftrightarrow> topic_matches fs ns"
      using "3.IH" "3.prems" that by (cases "f = [43]") auto
    then show ?thesis using False F(3) N(3) by simp
  qed
  show ?case
  proof (cases "f = [35]")
    case True
    then show ?thesis
      using "3.prems"(1) F N n by (simp add: chars_match_hash)
  next
    case False
    then show ?thesis
      using "3.prems"(1) F(1,2) N(1,2) n rest chars_match_literal [of f n F N]
      by (auto simp: chars_match_plus)
  qed
qed auto

lemma wf_filter_no_nul: "wf_filter fs \<Longrightarrow> 0 \<notin> set (join_levels fs)"
  by (induction fs rule: join_levels.induct) (auto split: if_splits)

section \<open>Properties\<close>

text \<open>
  C13: the topic matcher implements filter matching.  For a well-formed filter (a wildcard
  occupies a whole level, the multi-level wildcard is last) and a topic name, given by their
  levels, \<open>_aws_iot_mqtt_internal_is_topic_matched\<close> stays inside both strings and returns 1
  exactly when the name matches the filter level by level, otherwise 0.
\<close>

theorem is_topic_matched_correct:
  assumes "wf_filter fs" and "fs \<noteq> []" and "ns \<noteq> []" and "\<forall>n \<in> set ns. 47 \<notin> set n"
    and "unat len = length (join_levels ns)"
  shows "is_topic_matched (Some (join_levels fs @ 0 # r)) (Some (join_levels ns @ r')) len =
           Some (if topic_matches fs ns then 1 else 0)"
  using is_topic_matched_chars [OF wf_filter_no_nul [OF assms(1)] assms(5)]
    chars_match_levels [OF assms(1,4,2,3)] by simp

text \<open>The filter \<open>a/+/#\<close> against \<open>a/b/c/d\<close> and \<open>a/b\<close>.\<close>

theorem is_topic_matched_correct_witness:
  "is_topic_matched (Some [97, 47, 43, 47, 35, 0]) (Some [97, 47, 98, 47, 99, 47, 100]) 7 = Some 1 \<and>
   is_topic_matched (Some [97, 47, 43, 47, 35, 0]) (Some [97, 47, 98]) 3 = Some 0"
  using is_topic_matched_correct [of "[[97], [43], [35]]" "[[97], [98], [99], [100]]" 7 "[]" "[]"]
    is_topic_matched_correct [of "[[97], [43], [35]]" "[[97], [98]]" 3 "[]" "[]"]
  by simp

end
