(* ===== verification/Client_State.thy ===== *)
theory Client_State
  imports Tls_Network Mqtt_Packets Topic_Match
begin

text \<open>
  \<open>src/aws_iot_mqtt_client.c\<close>: the state of the client, its initialisation, packet identifiers
  and settings (the build without \<open>_ENABLE_THREAD_SUPPORT_\<close>).

  \<open>env\<close> collects what the client code calls but does not contain: the clock, the function
  pointers of the network, and the code of the application's callbacks.  A message callback gets
  the address of the topic in the receive buffer, its length, the message (whose payload points
  into the receive buffer) and the registered argument; it may change the message and the client.

  \<open>wf_client\<close> is the invariant of the client's memory; \<open>keeps\<close> relates the states before and
  after a piece of code that keeps it and leaves the connection state alone.
\<close>

record 'w env =
  gtod :: "'w clock"
  net :: "'w Network_ops"
  app :: "handler \<Rightarrow> nat \<Rightarrow> u16 \<Rightarrow> publish_fields \<Rightarrow> addr option \<Rightarrow> 'w st \<Rightarrow> (publish_fields \<times> 'w st) exec"
  disc :: "handler \<Rightarrow> addr option \<Rightarrow> 'w st \<Rightarrow> 'w st exec"

section \<open>Operations\<close>

definition aws_iot_mqtt_get_client_state :: "clientRef \<Rightarrow> 'w st \<Rightarrow> ClientState" where
  "aws_iot_mqtt_get_client_state pClient s =
     (case pClient of NullClient \<Rightarrow> CLIENT_STATE_INVALID | TheClient \<Rightarrow> clientState s)"

definition aws_iot_mqtt_set_client_state ::
  "clientRef \<Rightarrow> ClientState \<Rightarrow> ClientState \<Rightarrow> 'w st \<Rightarrow> IoT_Error_t \<times> 'w st" where
  "aws_iot_mqtt_set_client_state pClient expectedCurrentState newState s =
     (case pClient of
        NullClient \<Rightarrow> (NULL_VALUE_ERROR, s)
      | TheClient \<Rightarrow>
          if expectedCurrentState = aws_iot_mqtt_get_client_state pClient s
          then (SUCCESS, set_clientState newState s)
          else (MQTT_UNEXPECTED_CLIENT_STATE_ERROR, s))"

definition copy_connect_params ::
  "IoT_Client_Connect_Params \<Rightarrow> IoT_Client_Connect_Params \<Rightarrow> IoT_Client_Connect_Params" where
  "copy_connect_params new p =
     p\<lparr>isWillMsgPresent := isWillMsgPresent new,
       MQTTVersion := MQTTVersion new,
       pClientID := pClientID new,
       clientIDLen := clientIDLen new,
       pUsername := pUsername new,
       usernameLen := usernameLen new,
       pPassword := pUsername new,
       passwordLen := passwordLen new,
       will := (will p)\<lparr>will_pTopicName := will_pTopicName (will new),
                       will_topicNameLen := will_topicNameLen (will new),
                       will_pMessage := will_pMessage (will new),
                       will_msgLen := will_msgLen (will new),
                       will_qos := will_qos (will new),
                       will_isRetained := will_isRetained (will new)\<rparr>,
       keepAliveIntervalInSec := keepAliveIntervalInSec new,
       isCleanSession := isCleanSession new\<rparr>"

definition aws_iot_mqtt_set_connect_params ::
  "clientRef \<Rightarrow> IoT_Client_Connect_Params option \<Rightarrow> 'w st \<Rightarrow> IoT_Error_t \<times> 'w st" where
  "aws_iot_mqtt_set_connect_params pClient pNewConnectParams s =
     (case (pClient, pNewConnectParams) of
        (TheClient, Some new) \<Rightarrow>
          (SUCCESS, upd_data (\<lambda>d. d\<lparr>options := copy_connect_params new (options d)\<rparr>) s)
      | _ \<Rightarrow> (NULL_VALUE_ERROR, s))"

definition aws_iot_mqtt_init ::
  "clientRef \<Rightarrow> IoT_Client_Init_Params option \<Rightarrow> 'w st \<Rightarrow> IoT_Error_t \<times> 'w st" where
  "aws_iot_mqtt_init pClient pInitParams s =
     (case (pClient, pInitParams) of
        (TheClient, Some p) \<Rightarrow>
          if pHostURL p = None \<or> port p = 0 \<or> pRootCALocation p = None
             \<or> pDevicePrivateKeyLocation p = None \<or> pDeviceCertLocation p = None
          then (NULL_VALUE_ERROR, s)
          else
            let s = upd_data (\<lambda>d. d\<lparr>
                  messageHandlers := map (\<lambda>h. h\<lparr>mh_topicName := None, mh_pApplicationHandler := None,
                    mh_pApplicationHandlerData := None, mh_qos := QOS0\<rparr>) (messageHandlers d),
                  packetTimeoutMs := mqttPacketTimeout_ms p,
                  commandTimeoutMs := mqttCommandTimeout_ms p,
                  writeBufSize := of_nat AWS_IOT_MQTT_TX_BUF_LEN,
                  readBufSize := of_nat AWS_IOT_MQTT_RX_BUF_LEN,
                  counterNetworkDisconnected := 0,
                  disconnectHandler := ip_disconnectHandler p,
                  disconnectHandlerData := ip_disconnectHandlerData p,
                  nextPacketId := 1\<rparr>) s;
                (rc, s) = aws_iot_mqtt_set_connect_params pClient (Some iotClientConnectParamsDefault) s
            in if rc \<noteq> SUCCESS then (rc, s)
            else
              let s = upd_status (\<lambda>t. t\<lparr>cs_isPingOutstanding := False,
                        cs_isAutoReconnectEnabled := enableAutoReconnect p\<rparr>) s;
                  (rc, n) = iot_tls_init (pRootCALocation p) (pDeviceCertLocation p)
                    (pDevicePrivateKeyLocation p) (pHostURL p) (port p) (tlsHandshakeTimeout_ms p)
                    (isSSLHostnameVerify p) (networkStack (cl s));
                  s = s\<lparr>cl := (cl s)\<lparr>networkStack := n\<rparr>\<rparr>
              in if rc \<noteq> SUCCESS then (rc, set_clientState CLIENT_STATE_INVALID s)
              else
                (SUCCESS, set_clientState CLIENT_STATE_INITIALIZED
                  (s\<lparr>cl := (cl s)\<lparr>pingTimer := init_timer, reconnectDelayTimer := init_timer\<rparr>\<rparr>))
      | _ \<Rightarrow> (NULL_VALUE_ERROR, s))"

definition aws_iot_mqtt_get_next_packet_id :: "'w st \<Rightarrow> u16 \<times> 'w st" where
  "aws_iot_mqtt_get_next_packet_id s =
     (let i = (if MAX_PACKET_ID = nextPacketId (cdata s) then 1 else nextPacketId (cdata s) + 1)
      in (i, upd_data (\<lambda>d. d\<lparr>nextPacketId := i\<rparr>) s))"

fun state_is_connected :: "ClientState \<Rightarrow> bool" where
  "state_is_connected CLIENT_STATE_INVALID = False"
| "state_is_connected CLIENT_STATE_INITIALIZED = False"
| "state_is_connected CLIENT_STATE_CONNECTING = False"
| "state_is_connected CLIENT_STATE_CONNECTED_IDLE = True"
| "state_is_connected CLIENT_STATE_CONNECTED_YIELD_IN_PROGRESS = True"
| "state_is_connected CLIENT_STATE_CONNECTED_PUBLISH_IN_PROGRESS = True"
| "state_is_connected CLIENT_STATE_CONNECTED_SUBSCRIBE_IN_PROGRESS = True"
| "state_is_connected CLIENT_STATE_CONNECTED_UNSUBSCRIBE_IN_PROGRESS = True"
| "state_is_connected CLIENT_STATE_CONNECTED_RESUBSCRIBE_IN_PROGRESS = True"
| "state_is_connected CLIENT_STATE_CONNECTED_WAIT_FOR_CB_RETURN = True"
| "state_is_connected CLIENT_STATE_DISCONNECTING = False"
| "state_is_connected CLIENT_STATE_DISCONNECTED_ERROR = False"
| "state_is_connected CLIENT_STATE_DISCONNECTED_MANUALLY = False"
| "state_is_connected CLIENT_STATE_PENDING_RECONNECT = False"

definition aws_iot_mqtt_is_client_connected :: "clientRef \<Rightarrow> 'w st \<Rightarrow> bool" where
  "aws_iot_mqtt_is_client_connected pClient s =
     (case pClient of NullClient \<Rightarrow> False | TheClient \<Rightarrow> state_is_connected (clientState s))"

definition aws_iot_is_autoreconnect_enabled :: "clientRef \<Rightarrow> 'w st \<Rightarrow> bool" where
  "aws_iot_is_autoreconnect_enabled pClient s =
     (case pClient of NullClient \<Rightarrow> False
      | TheClient \<Rightarrow> cs_isAutoReconnectEnabled (clientStatus (cl s)))"

definition aws_iot_mqtt_autoreconnect_set_status ::
  "clientRef \<Rightarrow> bool \<Rightarrow> 'w st \<Rightarrow> IoT_Error_t \<times> 'w st" where
  "aws_iot_mqtt_autoreconnect_set_status pClient newStatus s =
     (case pClient of NullClient \<Rightarrow> (NULL_VALUE_ERROR, s)
      | TheClient \<Rightarrow> (SUCCESS, upd_status (\<lambda>t. t\<lparr>cs_isAutoReconnectEnabled := newStatus\<rparr>) s))"

definition aws_iot_mqtt_set_disconnect_handler ::
  "clientRef \<Rightarrow> handler option \<Rightarrow> addr option \<Rightarrow> 'w st \<Rightarrow> IoT_Error_t \<times> 'w st" where
  "aws_iot_mqtt_set_disconnect_handler pClient pDisconnectHandler pDisconnectHandlerData s =
     (if pClient = NullClient \<or> pDisconnectHandler = None then (NULL_VALUE_ERROR, s)
      else (SUCCESS, upd_data (\<lambda>d. d\<lparr>disconnectHandler := pDisconnectHandler,
              disconnectHandlerData := pDisconnectHandlerData\<rparr>) s))"

definition aws_iot_mqtt_get_network_disconnected_count :: "'w st \<Rightarrow> u32" where
  "aws_iot_mqtt_get_network_disconnected_count s = counterNetworkDisconnected (cdata s)"

definition aws_iot_mqtt_reset_network_disconnected_count :: "'w st \<Rightarrow> 'w st" where
  "aws_iot_mqtt_reset_network_disconnected_count s =
     upd_data (\<lambda>d. d\<lparr>counterNetworkDisconnected := 0\<rparr>) s"

text \<open>The functions on a client that is there, as the rest of the client code uses them.\<close>

lemma client_state_simps [simp]:
  "aws_iot_mqtt_get_client_state TheClient s = clientState s"
  "aws_iot_mqtt_is_client_connected TheClient s = state_is_connected (clientState s)"
  "aws_iot_mqtt_set_client_state TheClient e n s =
     (if clientState s = e then (SUCCESS, set_clientState n s) else (MQTT_UNEXPECTED_CLIENT_STATE_ERROR, s))"
  "aws_iot_mqtt_set_connect_params TheClient (Some p) s =
     (SUCCESS, upd_data (\<lambda>d. d\<lparr>options := copy_connect_params p (options d)\<rparr>) s)"
  by (auto simp: aws_iot_mqtt_get_client_state_def aws_iot_mqtt_is_client_connected_def
      aws_iot_mqtt_set_client_state_def aws_iot_mqtt_set_connect_params_def)

section \<open>The invariant of the client\<close>

definition wf_data :: "ClientData \<Rightarrow> bool" where
  "wf_data d \<longleftrightarrow>
     length (writeBuf d) = AWS_IOT_MQTT_TX_BUF_LEN \<and> writeBufSize d = of_nat AWS_IOT_MQTT_TX_BUF_LEN \<and>
     length (readBuf d) = AWS_IOT_MQTT_RX_BUF_LEN \<and> readBufSize d = of_nat AWS_IOT_MQTT_RX_BUF_LEN \<and>
     length (messageHandlers d) = AWS_IOT_MQTT_NUM_SUBSCRIBE_HANDLERS \<and>
     nextPacketId d \<noteq> 0"

abbreviation wf_client :: "'w st \<Rightarrow> bool" where
  "wf_client s \<equiv> wf_data (cdata s)"

definition keeps :: "'w st \<Rightarrow> 'w st \<Rightarrow> bool" where
  "keeps s s' \<longleftrightarrow> (wf_client s \<longrightarrow> wf_client s') \<and> clientState s' = clientState s"

lemma keeps_refl [simp]: "keeps s s"
  by (simp add: keeps_def)

lemma keeps_trans [trans]: "keeps s s' \<Longrightarrow> keeps s' s'' \<Longrightarrow> keeps s s''"
  by (simp add: keeps_def)

lemma keeps_wf: "keeps s s' \<Longrightarrow> wf_client s \<Longrightarrow> wf_client s'"
  by (simp add: keeps_def)

lemma keeps_state: "keeps s s' \<Longrightarrow> clientState s' = clientState s"
  by (simp add: keeps_def)

lemma keeps_upd_data: "(wf_client s \<Longrightarrow> wf_data (f (cdata s))) \<Longrightarrow> keeps s (upd_data f s)"
  by (simp add: keeps_def)

lemma keeps_world [simp]: "keeps s (s\<lparr>wd := w\<rparr>)"
  by (simp add: keeps_def)

lemma wf_data_writeBuf:
  "wf_data d \<Longrightarrow> length b = length (writeBuf d) \<Longrightarrow> wf_data (d\<lparr>writeBuf := b\<rparr>)"
  by (simp add: wf_data_def)

lemma wf_data_readBuf:
  "wf_data d \<Longrightarrow> length b = length (readBuf d) \<Longrightarrow> wf_data (d\<lparr>readBuf := b\<rparr>)"
  by (simp add: wf_data_def)

text \<open>Application callbacks that respect the client: they may use it, but hand it back in the
  state it was in.\<close>

definition callbacks_ok :: "'w env \<Rightarrow> bool" where
  "callbacks_ok E \<longleftrightarrow>
     (\<forall>h topic len msg data s. valid (app E h topic len msg data s) (\<lambda>(msg', s'). keeps s s')) \<and>
     (\<forall>h data s. valid (disc E h data s) (\<lambda>s'. keeps s s'))"

section \<open>Packet identifiers\<close>

lemma next_packet_id_val:
  assumes "nextPacketId (cdata s) \<noteq> 0"
  shows "unat (fst (aws_iot_mqtt_get_next_packet_id s)) = unat (nextPacketId (cdata s)) mod 65535 + 1"
proof (cases "nextPacketId (cdata s) = MAX_PACKET_ID")
  case True
  then show ?thesis
    by (simp add: aws_iot_mqtt_get_next_packet_id_def Let_def MAX_PACKET_ID_def)
next
  case False
  let ?i = "nextPacketId (cdata s)"
  have "unat ?i \<noteq> 65535"
    using False by (simp add: MAX_PACKET_ID_def word_unat_eq_iff)
  then have "unat ?i < 65535"
    using u16_le [of ?i] by linarith
  then show ?thesis
    using False by (simp add: aws_iot_mqtt_get_next_packet_id_def Let_def unat_word_ariths eq_commute [of MAX_PACKET_ID])
qed

lemma next_packet_id_data:
  "nextPacketId (cdata (snd (aws_iot_mqtt_get_next_packet_id s))) = fst (aws_iot_mqtt_get_next_packet_id s)"
  by (simp add: aws_iot_mqtt_get_next_packet_id_def Let_def)

lemma next_packet_id_nonzero:
  "nextPacketId (cdata s) \<noteq> 0 \<Longrightarrow> fst (aws_iot_mqtt_get_next_packet_id s) \<noteq> 0"
  using next_packet_id_val [of s] by auto

lemma next_packet_id_keeps: "aws_iot_mqtt_get_next_packet_id s = (i, s') \<Longrightarrow> keeps s s'"
  using next_packet_id_nonzero [of s]
  by (auto simp: aws_iot_mqtt_get_next_packet_id_def Let_def wf_data_def keeps_def)

fun packet_ids :: "nat \<Rightarrow> 'w st \<Rightarrow> u16 list" where
  "packet_ids 0 s = []"
| "packet_ids (Suc k) s =
     (let (i, s) = aws_iot_mqtt_get_next_packet_id s in i # packet_ids k s)"

lemma packet_ids_nth:
  "nextPacketId (cdata s) \<noteq> 0 \<Longrightarrow> j < k \<Longrightarrow>
   unat (packet_ids k s ! j) = (unat (nextPacketId (cdata s)) + j) mod 65535 + 1"
proof (induction k arbitrary: s j)
  case (Suc k)
  let ?r = "aws_iot_mqtt_get_next_packet_id s"
  have nz: "nextPacketId (cdata (snd ?r)) \<noteq> 0"
    using next_packet_id_nonzero [OF Suc.prems(1)] by (simp add: next_packet_id_data)
  show ?case
  proof (cases j)
    case 0
    then show ?thesis
      using next_packet_id_val [OF Suc.prems(1)] by (simp add: split_beta Let_def)
  next
    case (Suc j')
    then have "unat (packet_ids k (snd ?r) ! j') = (unat (nextPacketId (cdata (snd ?r))) + j') mod 65535 + 1"
      using Suc.IH [OF nz, of j'] Suc.prems by simp
    also have "\<dots> = (unat (nextPacketId (cdata s)) + j) mod 65535 + 1"
      using next_packet_id_val [OF Suc.prems(1)] Suc
      by (simp add: next_packet_id_data) (metis mod_Suc_eq mod_add_left_eq)
    finally show ?thesis
      using Suc by (simp add: split_beta Let_def)
  qed
qed simp

lemma length_packet_ids [simp]: "length (packet_ids k s) = k"
  by (induction k arbitrary: s) (simp_all add: split_beta Let_def)

lemma mod_shift_inj:
  fixes a i j n :: nat
  assumes "(a + i) mod n = (a + j) mod n" and "i < n" and "j < n"
  shows "i = j"
proof -
  have "int n dvd int i - int j"
    using assms(1) by (metis add_diff_cancel_left mod_eq_dvd_iff of_nat_add of_nat_mod)
  then show ?thesis
    using assms(2,3) zdvd_imp_le [of "int n" "int i - int j"] zdvd_imp_le [of "int n" "int j - int i"]
      dvd_minus_iff [of "int n" "int i - int j"] by force
qed

section \<open>Properties\<close>

text \<open>
  Packet identifiers are not reused early.  Starting from any valid client, the identifiers
  returned by up to 65535 consecutive calls of \<open>aws_iot_mqtt_get_next_packet_id\<close> are pairwise
  different and never 0, which the protocol forbids; the call after that wraps around.
\<close>

theorem packet_ids_distinct:
  assumes "wf_client s" and "k \<le> 65535"
  shows "distinct (packet_ids k s) \<and> 0 \<notin> set (packet_ids k s)"
proof
  have nz: "nextPacketId (cdata s) \<noteq> 0"
    using assms(1) by (simp add: wf_data_def)
  have inj: "i = j" if "i < k" "j < k"
    "(unat (nextPacketId (cdata s)) + i) mod 65535 = (unat (nextPacketId (cdata s)) + j) mod 65535" for i j
    using mod_shift_inj [OF that(3)] that(1,2) assms(2) by simp
  show "distinct (packet_ids k s)"
    unfolding distinct_conv_nth
  proof (intro allI impI)
    fix i j
    assume ij: "i < length (packet_ids k s)" "j < length (packet_ids k s)" "i \<noteq> j"
    then have "unat (packet_ids k s ! i) \<noteq> unat (packet_ids k s ! j)"
      using inj [of i j] packet_ids_nth [OF nz] by auto
    then show "packet_ids k s ! i \<noteq> packet_ids k s ! j" by auto
  qed
  have "unat (packet_ids k s ! i) \<noteq> 0" if "i < k" for i
    using packet_ids_nth [OF nz that] by simp
  then show "0 \<notin> set (packet_ids k s)"
    unfolding in_set_conv_nth by (metis length_packet_ids unsigned_0)
qed

text \<open>A client for the witnesses, as \<open>aws_iot_mqtt_init\<close> leaves it.\<close>

definition sample_client :: AWS_IoT_Client where
  "sample_client =
     \<lparr> pingTimer = init_timer, reconnectDelayTimer = init_timer,
       clientStatus = \<lparr> cs_clientState = CLIENT_STATE_INITIALIZED, cs_isPingOutstanding = False,
         cs_isAutoReconnectEnabled = True \<rparr>,
       clientData = \<lparr> nextPacketId = 1, packetTimeoutMs = 2000, commandTimeoutMs = 20000,
         keepAliveInterval = 60, currentReconnectWaitInterval = 1000, counterNetworkDisconnected = 0,
         writeBufSize = 512, readBufSize = 512, writeBuf = replicate 512 0, readBuf = replicate 512 0,
         options = iotClientConnectParamsDefault,
         messageHandlers = replicate 5 \<lparr> mh_topicName = None, mh_topicNameLen = 0, mh_qos = 0,
           mh_pApplicationHandler = None, mh_pApplicationHandlerData = None \<rparr>,
         disconnectHandler = None, disconnectHandlerData = None \<rparr>,
       networkStack = \<lparr> tlsConnectParams = \<lparr> tls_pRootCALocation = Some [0],
         tls_pDeviceCertLocation = Some [0], tls_pDevicePrivateKeyLocation = Some [0],
         tls_pDestinationURL = Some [0], tls_DestinationPort = 8883, tls_timeout_ms = 5000,
         tls_ServerVerificationFlag = True \<rparr>, tlsDataParams_flags = 0 \<rparr> \<rparr>"

lemma sample_client_wf: "wf_data (clientData sample_client)"
  by (simp add: sample_client_def wf_data_def config_defs)

theorem packet_ids_distinct_witness:
  "distinct (packet_ids 65535 \<lparr>cl = sample_client, wd = ()\<rparr>)"
  using packet_ids_distinct [of "\<lparr>cl = sample_client, wd = ()\<rparr>" 65535] sample_client_wf by simp

text \<open>
  Initialisation.  \<open>aws_iot_mqtt_init\<close> refuses exactly the calls without a client, without
  parameters or with one of the required parameters missing, and then changes nothing;
  otherwise it succeeds and, given a client structure with arrays of the configured sizes,
  establishes the invariant: state \<open>CLIENT_STATE_INITIALIZED\<close>, no subscription, no ping
  outstanding, default connect options and the network configured from the parameters.
\<close>

theorem mqtt_init_establishes:
  assumes "length (writeBuf (cdata s)) = 512" and "length (readBuf (cdata s)) = 512"
    and "length (messageHandlers (cdata s)) = 5"
  shows "case aws_iot_mqtt_init c ip s of (rc, s') \<Rightarrow>
    if c = NullClient \<or> (case ip of None \<Rightarrow> True | Some p \<Rightarrow>
         pHostURL p = None \<or> port p = 0 \<or> pRootCALocation p = None \<or>
         pDevicePrivateKeyLocation p = None \<or> pDeviceCertLocation p = None)
    then rc = NULL_VALUE_ERROR \<and> s' = s
    else rc = SUCCESS \<and> wf_client s' \<and> clientState s' = CLIENT_STATE_INITIALIZED \<and>
         (\<forall>h \<in> set (messageHandlers (cdata s')). mh_topicName h = None \<and> mh_pApplicationHandler h = None) \<and>
         \<not> cs_isPingOutstanding (clientStatus (cl s')) \<and>
         tls_DestinationPort (tlsConnectParams (networkStack (cl s'))) = port (the ip) \<and>
         MQTTVersion (options (cdata s')) = MQTT_3_1_1 \<and> pClientID (options (cdata s')) = None"
proof (cases "c = NullClient \<or> ip = None")
  case True
  then show ?thesis
    by (cases c; cases ip) (auto simp: aws_iot_mqtt_init_def)
next
  case False
  then obtain p where "c = TheClient" "ip = Some p"
    by (cases c) auto
  then show ?thesis
    using assms
    by (auto simp: aws_iot_mqtt_init_def Let_def iot_tls_init_def iot_tls_set_connect_params_def
        wf_data_def config_defs copy_connect_params_def iotClientConnectParamsDefault_def
        upd_status_def upd_data_def)
qed

theorem mqtt_init_establishes_witness:
  "\<exists>s'. aws_iot_mqtt_init TheClient
      (Some (iotClientInitParamsDefault\<lparr>pHostURL := Some [104, 0], port := 8883, pRootCALocation := Some [99, 0],
        pDevicePrivateKeyLocation := Some [107, 0], pDeviceCertLocation := Some [100, 0]\<rparr>))
      \<lparr>cl = sample_client, wd = ()\<rparr> = (SUCCESS, s') \<and>
    wf_client s' \<and> clientState s' = CLIENT_STATE_INITIALIZED"
proof -
  let ?p = "iotClientInitParamsDefault\<lparr>pHostURL := Some [104, 0], port := 8883, pRootCALocation := Some [99, 0],
        pDevicePrivateKeyLocation := Some [107, 0], pDeviceCertLocation := Some [100, 0]\<rparr>"
  obtain rc s' where r: "aws_iot_mqtt_init TheClient (Some ?p) \<lparr>cl = sample_client, wd = ()\<rparr> = (rc, s')"
    by fastforce
  have "length (writeBuf (clientData sample_client)) = 512" "length (readBuf (clientData sample_client)) = 512"
    "length (messageHandlers (clientData sample_client)) = 5"
    by (simp_all add: sample_client_def)
  then have "rc = SUCCESS \<and> wf_client s' \<and> clientState s' = CLIENT_STATE_INITIALIZED"
    using mqtt_init_establishes [of "\<lparr>cl = sample_client, wd = ()\<rparr>" TheClient "Some ?p"] r by simp
  then show ?thesis using r by blast
qed

text \<open>
  The password is not stored.  Whatever parameters are set, afterwards the password pointer
  of the client's options is the user name pointer of the new parameters, not their password
  pointer; all other members are copied from their counterparts.
\<close>

theorem set_connect_params_password:
  "case aws_iot_mqtt_set_connect_params TheClient (Some new) s of (rc, s') \<Rightarrow>
     rc = SUCCESS \<and> pPassword (options (cdata s')) = pUsername new \<and>
     passwordLen (options (cdata s')) = passwordLen new \<and>
     options (cdata s') = new\<lparr>pPassword := pUsername new, cp_struct_id := cp_struct_id (options (cdata s)),
       will := (will new)\<lparr>will_struct_id := will_struct_id (will (options (cdata s)))\<rparr>\<rparr>"
  by (simp add: copy_connect_params_def)

end
