(* ===== verification/Client_IO.thy ===== *)
theory Client_IO
  imports Client_State
begin

text \<open>
  Sending and receiving packets, the second half of
  \<open>src/aws_iot_mqtt_client_common_internal.c\<close>: \<open>aws_iot_mqtt_internal_send_packet\<close>, the reader of
  one packet, the dispatch to the message handlers and the loop that waits for a response.

  These functions are only called with the address of the client and of a timer, so their tests
  of these pointers against NULL have no counterpart.  \<open>*pPacketType\<close> is an optional result,
  \<open>None\<close> where the C code does not store it.
\<close>

section \<open>Timers and the network seen from the client\<close>

definition timer_expired :: "'w env \<Rightarrow> Timer \<Rightarrow> 'w st \<Rightarrow> bool \<times> 'w st" where
  "timer_expired E t s = (let (e, w) = has_timer_expired (gtod E) t (wd s) in (e, s\<lparr>wd := w\<rparr>))"

definition start_ms :: "'w env \<Rightarrow> u32 \<Rightarrow> 'w st \<Rightarrow> Timer \<times> 'w st" where
  "start_ms E ms s = (let (t, w) = countdown_ms (gtod E) ms (wd s) in (t, s\<lparr>wd := w\<rparr>))"

definition start_sec :: "'w env \<Rightarrow> u32 \<Rightarrow> 'w st \<Rightarrow> Timer \<times> 'w st" where
  "start_sec E sec s = (let (t, w) = countdown_sec (gtod E) sec (wd s) in (t, s\<lparr>wd := w\<rparr>))"

definition set_pingTimer :: "Timer \<Rightarrow> 'w st \<Rightarrow> 'w st" where
  "set_pingTimer t s = s\<lparr>cl := (cl s)\<lparr>pingTimer := t\<rparr>\<rparr>"

definition set_reconnectDelayTimer :: "Timer \<Rightarrow> 'w st \<Rightarrow> 'w st" where
  "set_reconnectDelayTimer t s = s\<lparr>cl := (cl s)\<lparr>reconnectDelayTimer := t\<rparr>\<rparr>"

definition st_read :: "'w env \<Rightarrow> size_t \<Rightarrow> Timer \<Rightarrow> 'w st \<Rightarrow> (IoT_Error_t \<times> u8 list \<times> size_t option \<times> 'w st) exec" where
  "st_read E n t s = bnd (net_read (net E) n t (wd s)) (\<lambda>(rc, bs, rl, w). ret (rc, bs, rl, s\<lparr>wd := w\<rparr>))"

text \<open>A read into the receive buffer: the bytes are stored whatever the result.\<close>

definition read_into :: "'w env \<Rightarrow> nat \<Rightarrow> size_t \<Rightarrow> Timer \<Rightarrow> 'w st \<Rightarrow> (IoT_Error_t \<times> size_t option \<times> 'w st) exec" where
  "read_into E off n t s =
     bnd (st_read E n t s) (\<lambda>(rc, bs, rl, s).
     bnd (access (mem_write (readBuf (cdata s)) off bs)) (\<lambda>buf.
     ret (rc, rl, upd_data (\<lambda>d. d\<lparr>readBuf := buf\<rparr>) s)))"

definition set_writeBuf :: "mem \<Rightarrow> 'w st \<Rightarrow> 'w st" where
  "set_writeBuf buf s = upd_data (\<lambda>d. d\<lparr>writeBuf := buf\<rparr>) s"

section \<open>Sending\<close>

partial_function (option) send_loop ::
  "'w env \<Rightarrow> size_t \<Rightarrow> Timer \<Rightarrow> size_t \<Rightarrow> 'w st \<Rightarrow> (size_t \<times> 'w st) exec" where
  "send_loop E len t sent s =
     (if sent < len then
        let (expired, s) = timer_expired E t s
        in if expired then ret (sent, s)
           else bnd (net_write (net E) (writeBuf (cdata s)) (unat sent) len t (wd s)) (\<lambda>(rc, sentLen, w).
             if rc \<noteq> SUCCESS then ret (sent, s\<lparr>wd := w\<rparr>)
             else send_loop E len t (sent + sentLen) (s\<lparr>wd := w\<rparr>))
      else ret (sent, s))"

definition aws_iot_mqtt_internal_send_packet ::
  "'w env \<Rightarrow> size_t \<Rightarrow> Timer \<Rightarrow> 'w st \<Rightarrow> (IoT_Error_t \<times> 'w st) exec" where
  "aws_iot_mqtt_internal_send_packet E len t s =
     (if len \<ge> writeBufSize (cdata s) then ret (MQTT_TX_BUFFER_TOO_SHORT_ERROR, s)
      else bnd (send_loop E len t 0 s) (\<lambda>(sent, s). ret (if sent = len then SUCCESS else FAILURE, s)))"

section \<open>Receiving a packet\<close>

text \<open>The variable \<open>len\<close> counts the length bytes, but it is also where the read stores the
  number of bytes it read.\<close>

partial_function (option) decode_rem_loop ::
  "'w env \<Rightarrow> Timer \<Rightarrow> size_t \<Rightarrow> size_t \<Rightarrow> size_t \<Rightarrow> 'w st \<Rightarrow> (IoT_Error_t \<times> size_t \<times> 'w st) exec" where
  "decode_rem_loop E t multiplier len rem_len s =
     (let len = len + 1
      in if len > ucast MAX_NO_OF_REMAINING_LENGTH_BYTES
         then ret (MQTT_DECODE_REMAINING_LENGTH_ERROR, rem_len, s)
         else bnd (st_read E 1 t s) (\<lambda>(rc, bs, rl, s).
           if rc \<noteq> SUCCESS then ret (rc, rem_len, s)
           else bnd (access (arr_get bs 0)) (\<lambda>encodedByte.
             let len = (case rl of None \<Rightarrow> len | Some l \<Rightarrow> l);
                 rem_len = rem_len + ucast (encodedByte AND 127) * multiplier;
                 multiplier = multiplier * 128
             in if encodedByte AND 128 \<noteq> 0 then decode_rem_loop E t multiplier len rem_len s
                else ret (rc, rem_len, s))))"

definition aws_iot_mqtt_internal_decode_packet_remaining_len ::
  "'w env \<Rightarrow> Timer \<Rightarrow> 'w st \<Rightarrow> (IoT_Error_t \<times> size_t \<times> 'w st) exec" where
  "aws_iot_mqtt_internal_decode_packet_remaining_len E t s = decode_rem_loop E t 1 0 0 s"

partial_function (option) drain_loop ::
  "'w env \<Rightarrow> Timer \<Rightarrow> size_t \<Rightarrow> size_t \<Rightarrow> size_t \<Rightarrow> size_t \<Rightarrow> 'w st \<Rightarrow> 'w st exec" where
  "drain_loop E t rem_len bytes_to_be_read total_bytes_read read_len s =
     bnd (read_into E 0 bytes_to_be_read t s) (\<lambda>(rc, rl, s).
       if rc = SUCCESS then
         let read_len = (case rl of None \<Rightarrow> read_len | Some l \<Rightarrow> l);
             total_bytes_read = total_bytes_read + read_len;
             bytes_to_be_read = (if rem_len - total_bytes_read \<ge> readBufSize (cdata s)
                                 then readBufSize (cdata s) else rem_len - total_bytes_read)
         in if total_bytes_read < rem_len
            then drain_loop E t rem_len bytes_to_be_read total_bytes_read read_len s
            else ret s
       else ret s)"

definition aws_iot_mqtt_internal_read_packet ::
  "'w env \<Rightarrow> Timer \<Rightarrow> 'w st \<Rightarrow> (IoT_Error_t \<times> u8 option \<times> 'w st) exec" where
  "aws_iot_mqtt_internal_read_packet E pTimer s =
     (let (packetTimer, s) = start_ms E (packetTimeoutMs (cdata s)) s
      in bnd (read_into E 0 1 pTimer s) (\<lambda>(rc, rl, s).
         if rc = NETWORK_SSL_NOTHING_TO_READ then ret (MQTT_NOTHING_TO_READ, None, s)
         else if rc \<noteq> SUCCESS then ret (rc, None, s)
         else let read_len = (case rl of None \<Rightarrow> 0 | Some l \<Rightarrow> l)
         in bnd (aws_iot_mqtt_internal_decode_packet_remaining_len E packetTimer s) (\<lambda>(rc, rem_len, s).
         if rc \<noteq> SUCCESS then ret (rc, None, s)
         else if rem_len \<ge> readBufSize (cdata s) then
           bnd (drain_loop E packetTimer rem_len (readBufSize (cdata s)) 0 read_len s) (\<lambda>s.
           ret (MQTT_RX_BUFFER_TOO_SHORT_ERROR, None, s))
         else
           bnd (access (aws_iot_mqtt_internal_write_len_to_buffer (readBuf (cdata s)) 1 (ucast rem_len))) (\<lambda>(buf, k).
           let len = 1 + k; s = upd_data (\<lambda>d. d\<lparr>readBuf := buf\<rparr>) s
           in bnd (if rem_len > 0 then
                     bnd (read_into E len rem_len packetTimer s) (\<lambda>(rc, rl, s).
                     let read_len = (case rl of None \<Rightarrow> read_len | Some l \<Rightarrow> l)
                     in ret (if rc \<noteq> SUCCESS \<or> read_len \<noteq> rem_len then FAILURE else SUCCESS, s))
                   else ret (SUCCESS, s)) (\<lambda>(rc, s).
              if rc \<noteq> SUCCESS then ret (rc, None, s)
              else bnd (access (mem_get (readBuf (cdata s)) 0)) (\<lambda>header.
                ret (rc, Some (header_type header), s)))))))"

section \<open>Dispatch to the message handlers\<close>

definition handler_matches :: "MessageHandlers \<Rightarrow> mem \<Rightarrow> u16 \<Rightarrow> bool option" where
  "handler_matches h pTopicName topicNameLen =
     (case mh_topicName h of
        None \<Rightarrow> Some False
      | Some f \<Rightarrow> do {
          same \<leftarrow> (if topicNameLen = mh_topicNameLen h
                  then c_strneq pTopicName f (unat topicNameLen) else Some False);
          if same then Some True
          else do {
            r \<leftarrow> is_topic_matched (Some f) (Some pTopicName) topicNameLen;
            Some (r \<noteq> 0) } })"

fun deliver_loop ::
  "'w env \<Rightarrow> nat \<Rightarrow> u16 \<Rightarrow> nat list \<Rightarrow> publish_fields \<Rightarrow> 'w st \<Rightarrow> (publish_fields \<times> 'w st) exec" where
  "deliver_loop E topic len [] msg s = ret (msg, s)"
| "deliver_loop E topic len (itr # itrs) msg s =
     bnd (access (arr_get (messageHandlers (cdata s)) itr)) (\<lambda>h.
     bnd (access (handler_matches h (drop topic (readBuf (cdata s))) len)) (\<lambda>matched.
     bnd (if matched then
            (case mh_pApplicationHandler h of
               None \<Rightarrow> ret (msg, s)
             | Some f \<Rightarrow> app E f topic len msg (mh_pApplicationHandlerData h) s)
          else ret (msg, s)) (\<lambda>(msg, s).
     deliver_loop E topic len itrs msg s)))"

definition aws_iot_mqtt_internal_deliver_message ::
  "'w env \<Rightarrow> nat option \<Rightarrow> u16 \<Rightarrow> publish_fields \<Rightarrow> 'w st \<Rightarrow> (IoT_Error_t \<times> publish_fields \<times> 'w st) exec" where
  "aws_iot_mqtt_internal_deliver_message E pTopicName topicNameLen msg s =
     (case pTopicName of
        None \<Rightarrow> ret (NULL_VALUE_ERROR, msg, s)
      | Some topic \<Rightarrow>
          let st = aws_iot_mqtt_get_client_state TheClient s;
              (rc, s) = aws_iot_mqtt_set_client_state TheClient st CLIENT_STATE_CONNECTED_WAIT_FOR_CB_RETURN s
          in bnd (deliver_loop E topic topicNameLen [0..<AWS_IOT_MQTT_NUM_SUBSCRIBE_HANDLERS] msg s) (\<lambda>(msg, s).
             let (rc, s) = aws_iot_mqtt_set_client_state TheClient CLIENT_STATE_CONNECTED_WAIT_FOR_CB_RETURN st s
             in ret (rc, msg, s)))"

definition aws_iot_mqtt_internal_handle_publish ::
  "'w env \<Rightarrow> Timer \<Rightarrow> 'w st \<Rightarrow> (IoT_Error_t \<times> 'w st) exec" where
  "aws_iot_mqtt_internal_handle_publish E pTimer s =
     bnd (access (aws_iot_mqtt_internal_deserialize_publish (readBuf (cdata s)) (readBufSize (cdata s)))) (\<lambda>r.
     case r of
       Inl rc \<Rightarrow> ret (rc, s)
     | Inr msg \<Rightarrow>
         bnd (aws_iot_mqtt_internal_deliver_message E (Some (pf_topicName msg)) (pf_topicNameLen msg) msg s) (\<lambda>(rc, msg, s).
         if rc \<noteq> SUCCESS then ret (rc, s)
         else if pf_qos msg = QOS0 then ret (SUCCESS, s)
         else bnd (access (pf_packetId msg)) (\<lambda>i.
           bnd (access (aws_iot_mqtt_internal_serialize_ack (writeBuf (cdata s)) (writeBufSize (cdata s)) PUBACK 0 i)) (\<lambda>r.
           case r of
             Inl rc \<Rightarrow> ret (rc, s)
           | Inr (buf, len) \<Rightarrow>
               aws_iot_mqtt_internal_send_packet E (ucast len) pTimer (set_writeBuf buf s)))))"

definition aws_iot_mqtt_internal_cycle_read ::
  "'w env \<Rightarrow> Timer \<Rightarrow> 'w st \<Rightarrow> (IoT_Error_t \<times> u8 option \<times> 'w st) exec" where
  "aws_iot_mqtt_internal_cycle_read E pTimer s =
     bnd (aws_iot_mqtt_internal_read_packet E pTimer s) (\<lambda>(rc, pt, s).
       if rc = MQTT_NOTHING_TO_READ then ret (SUCCESS, pt, s)
       else if rc \<noteq> SUCCESS then ret (rc, pt, s)
       else bnd (access pt) (\<lambda>packetType.
         let code = uint packetType
         in if code \<in> {msgCode CONNACK, msgCode PUBACK, msgCode SUBACK, msgCode UNSUBACK}
            then ret (rc, pt, s)
            else if code = msgCode PUBLISH then
              bnd (aws_iot_mqtt_internal_handle_publish E pTimer s) (\<lambda>(rc, s). ret (rc, pt, s))
            else if code \<in> {msgCode PUBREC, msgCode PUBCOMP} then ret (rc, pt, s)
            else if code = msgCode PINGRESP then
              let s = upd_status (\<lambda>t. t\<lparr>cs_isPingOutstanding := False\<rparr>) s;
                  (t, s) = start_sec E (ucast (keepAliveInterval (cdata s))) s
              in ret (rc, pt, set_pingTimer t s)
            else ret (MQTT_RX_MESSAGE_PACKET_TYPE_INVALID_ERROR, pt, s)))"

partial_function (option) wait_loop ::
  "'w env \<Rightarrow> u8 \<Rightarrow> Timer \<Rightarrow> u8 \<Rightarrow> 'w st \<Rightarrow> (IoT_Error_t \<times> u8 \<times> 'w st) exec" where
  "wait_loop E packetType pTimer read_packet_type s =
     (let (expired, s) = timer_expired E pTimer s
      in if expired then ret (MQTT_REQUEST_TIMEOUT_ERROR, read_packet_type, s)
         else bnd (aws_iot_mqtt_internal_cycle_read E pTimer s) (\<lambda>(rc, pt, s).
           let read_packet_type = (case pt of None \<Rightarrow> read_packet_type | Some x \<Rightarrow> x)
           in if rc \<noteq> NETWORK_DISCONNECTED_ERROR \<and> read_packet_type \<noteq> packetType
              then wait_loop E packetType pTimer read_packet_type s
              else ret (rc, read_packet_type, s)))"

definition aws_iot_mqtt_internal_wait_for_read ::
  "'w env \<Rightarrow> MessageTypes \<Rightarrow> Timer \<Rightarrow> 'w st \<Rightarrow> (IoT_Error_t \<times> 'w st) exec" where
  "aws_iot_mqtt_internal_wait_for_read E packetType pTimer s =
     (let packetType = word_of_int (msgCode packetType)
      in bnd (wait_loop E packetType pTimer 0 s) (\<lambda>(rc, read_packet_type, s).
         if rc \<noteq> MQTT_REQUEST_TIMEOUT_ERROR \<and> rc \<noteq> NETWORK_DISCONNECTED_ERROR \<and> read_packet_type \<noteq> packetType
         then ret (FAILURE, s) else ret (rc, s)))"


section \<open>What the primitives keep\<close>

named_theorems keepsD \<open>an execution that returned kept the client\<close>

lemma timer_expired_keeps [keepsD]: "timer_expired E t s = (e, s') \<Longrightarrow> keeps s s'"
  by (auto simp: timer_expired_def split_beta)

lemma start_ms_keeps [keepsD]: "start_ms E ms s = (t, s') \<Longrightarrow> keeps s s'"
  by (auto simp: start_ms_def split_beta)

lemma start_sec_keeps [keepsD]: "start_sec E sec s = (t, s') \<Longrightarrow> keeps s s'"
  by (auto simp: start_sec_def split_beta)

lemma st_read_keeps [keepsD]: "st_read E n t s = ret (rc, bs, rl, s') \<Longrightarrow> keeps s s'"
  by (auto simp: st_read_def bnd_eq_ret)

lemma read_into_keeps [keepsD]: "read_into E off n t s = ret (rc, rl, s') \<Longrightarrow> keeps s s'"
  by (auto simp: read_into_def bnd_eq_ret dest!: st_read_keeps mem_write_length
      intro!: keeps_trans [OF _ keeps_upd_data] wf_data_readBuf)

lemma set_pingTimer_simps [simp]:
  "cdata (set_pingTimer t s) = cdata s" "clientStatus (cl (set_pingTimer t s)) = clientStatus (cl s)"
  "wd (set_pingTimer t s) = wd s"
  by (simp_all add: set_pingTimer_def)

lemma set_reconnectDelayTimer_simps [simp]:
  "cdata (set_reconnectDelayTimer t s) = cdata s"
  "clientStatus (cl (set_reconnectDelayTimer t s)) = clientStatus (cl s)"
  "wd (set_reconnectDelayTimer t s) = wd s"
  by (simp_all add: set_reconnectDelayTimer_def)

lemma keeps_timers [simp]: "keeps s (set_pingTimer t s)" "keeps s (set_reconnectDelayTimer t s)"
  by (simp_all add: keeps_def)

lemma keeps_set_writeBuf: "length buf = length (writeBuf (cdata s)) \<Longrightarrow> keeps s (set_writeBuf buf s)"
  by (simp add: set_writeBuf_def keeps_upd_data wf_data_writeBuf)

lemma keeps_ping: "keeps s (upd_status (\<lambda>t. t\<lparr>cs_isPingOutstanding := b\<rparr>) s)"
  by (simp add: keeps_def)

section \<open>Sending keeps the client\<close>

lemma send_loop_keeps [keepsD]:
  "send_loop E len t sent s = ret (n, s') \<Longrightarrow> keeps s s'"
proof -
  have "valid (send_loop E len t sent s) (\<lambda>(n, s'). keeps s s')"
  proof (rule valid_resI)
    fix y assume "send_loop E len t sent s = Some y"
    then show "res_ok (\<lambda>(n, s'). keeps s s') y"
    proof (induction rule: send_loop.raw_induct [rotated, consumes 1, case_names step])
      case (step loop E len t sent s y)
      have IH: "valid (loop E len t n s1) (\<lambda>(n, s'). keeps s1 s')" for n s1
        using step.IH by (rule valid_resI)
      show ?case
        by (rule valid_res [OF _ step.hyps], intro wp)
          (auto dest!: timer_expired_keeps intro: keeps_trans [OF _ keeps_trans] valid_mono [OF IH]
            keeps_trans [OF _ keeps_world] keeps_trans [OF keeps_trans [OF _ keeps_world]])
    qed
  qed
  then show "send_loop E len t sent s = ret (n, s') \<Longrightarrow> keeps s s'"
    by (auto dest: validD)
qed

lemma send_packet_keeps [keepsD]:
  "aws_iot_mqtt_internal_send_packet E len t s = ret (rc, s') \<Longrightarrow> keeps s s'"
  by (auto simp: aws_iot_mqtt_internal_send_packet_def bnd_eq_ret dest: send_loop_keeps split: if_splits)

section \<open>Receiving keeps the client\<close>

lemma decode_rem_loop_keeps [keepsD]:
  "decode_rem_loop E t mult len n s = ret (rc, n', s') \<Longrightarrow> keeps s s'"
proof -
  have "valid (decode_rem_loop E t mult len n s) (\<lambda>(rc, n', s'). keeps s s')"
  proof (rule valid_resI)
    fix y assume "decode_rem_loop E t mult len n s = Some y"
    then show "res_ok (\<lambda>(rc, n', s'). keeps s s') y"
    proof (induction rule: decode_rem_loop.raw_induct [rotated, consumes 1, case_names step])
      case (step loop E t mult len n s y)
      have IH: "valid (loop E t m l n s1) (\<lambda>(rc, n', s'). keeps s1 s')" for m l n s1
        using step.IH by (rule valid_resI)
      show ?case
        by (rule valid_res [OF _ step.hyps], intro wp)
          (auto dest!: st_read_keeps intro: valid_mono [OF IH] keeps_trans)
    qed
  qed
  then show "decode_rem_loop E t mult len n s = ret (rc, n', s') \<Longrightarrow> keeps s s'"
    by (auto dest: validD)
qed

lemma drain_loop_keeps [keepsD]:
  "drain_loop E t n btr tot rlen s = ret s' \<Longrightarrow> keeps s s'"
proof -
  have "valid (drain_loop E t n btr tot rlen s) (\<lambda>s'. keeps s s')"
  proof (rule valid_resI)
    fix y assume "drain_loop E t n btr tot rlen s = Some y"
    then show "res_ok (\<lambda>s'. keeps s s') y"
    proof (induction rule: drain_loop.raw_induct [rotated, consumes 1, case_names step])
      case (step loop E t n btr tot rlen s y)
      have IH: "valid (loop E t n b tt r s1) (\<lambda>s'. keeps s1 s')" for b tt r s1
        using step.IH by (rule valid_resI)
      show ?case
        by (rule valid_res [OF _ step.hyps], intro wp)
          (auto dest!: read_into_keeps intro: valid_mono [OF IH] keeps_trans)
    qed
  qed
  then show "drain_loop E t n btr tot rlen s = ret s' \<Longrightarrow> keeps s s'"
    by (auto dest: validD)
qed

lemma emit_length: "emit buf ptr bs = Some (b, p) \<Longrightarrow> length b = length buf"
  by (auto simp: emit_def dest: mem_write_length)

lemma write_len_length:
  "aws_iot_mqtt_internal_write_len_to_buffer buf ptr n = Some (b, k) \<Longrightarrow> length b = length buf"
  by (auto simp: write_len_emit dest: emit_length)

lemma read_packet_keeps [keepsD]:
  assumes "aws_iot_mqtt_internal_read_packet E t s = ret (rc, pt, s')"
  shows "keeps s s'"
proof -
  have "valid (aws_iot_mqtt_internal_read_packet E t s) (\<lambda>(rc, pt, s'). keeps s s')"
    unfolding aws_iot_mqtt_internal_read_packet_def aws_iot_mqtt_internal_decode_packet_remaining_len_def
    by (intro wp) (auto simp: keeps_def bnd_eq_ret wf_data_readBuf dest!: keepsD write_len_length split: if_splits)
  then show ?thesis
    using assms by (auto dest: validD)
qed


section \<open>Dispatch and waiting keep the client\<close>

lemma callbacks_app:
  assumes "callbacks_ok E" and "app E h topic len msg data s = ret (msg', s')"
  shows "keeps s s'"
proof -
  have "valid (app E h topic len msg data s) (\<lambda>(msg', s'). keeps s s')"
    using assms(1) by (simp add: callbacks_ok_def)
  from validD [OF this assms(2)] show ?thesis by simp
qed

lemma callbacks_disc:
  assumes "callbacks_ok E" and "disc E h data s = ret s'"
  shows "keeps s s'"
proof -
  have "valid (disc E h data s) (\<lambda>s'. keeps s s')"
    using assms(1) by (simp add: callbacks_ok_def)
  from validD [OF this assms(2)] show ?thesis by simp
qed

lemma deliver_loop_keeps:
  assumes "callbacks_ok E"
  shows "valid (deliver_loop E topic len itrs msg s) (\<lambda>(msg', s'). keeps s s')"
proof (induction itrs arbitrary: msg s)
  case (Cons itr itrs)
  show ?case
    unfolding deliver_loop.simps
    by (intro wp) (auto intro: valid_mono [OF Cons] intro: keeps_trans dest: callbacks_app [OF assms]
        split: if_splits option.splits)
qed simp

lemma deliver_message_keeps:
  assumes "callbacks_ok E" and "aws_iot_mqtt_internal_deliver_message E tn len msg s = ret (rc, msg', s')"
  shows "keeps s s' \<and> (tn \<noteq> None \<longrightarrow> rc = SUCCESS)"
proof -
  have "valid (aws_iot_mqtt_internal_deliver_message E tn len msg s)
      (\<lambda>(rc, msg', s'). keeps s s' \<and> (tn \<noteq> None \<longrightarrow> rc = SUCCESS))"
    unfolding aws_iot_mqtt_internal_deliver_message_def
    by (intro wp) (auto simp: keeps_def dest!: validD [OF deliver_loop_keeps [OF assms(1)]] split: if_splits)
  from validD [OF this assms(2)] show ?thesis by simp
qed

lemma serialize_ack_length:
  assumes "aws_iot_mqtt_internal_serialize_ack buf n mt dup i = Some (Inr (b, len))"
  shows "length b = length buf"
  using assms
  by (auto simp: aws_iot_mqtt_internal_serialize_ack_def put_len_emit Let_def
      dest!: emit_length split: if_splits sum.splits bind_split_asm)

lemma handle_publish_keeps:
  assumes "callbacks_ok E" and "aws_iot_mqtt_internal_handle_publish E t s = ret (rc, s')"
  shows "keeps s s'"
proof -
  have "valid (aws_iot_mqtt_internal_handle_publish E t s) (\<lambda>(rc, s'). keeps s s')"
    unfolding aws_iot_mqtt_internal_handle_publish_def
    by (intro wp) (auto intro!: validI dest!: deliver_message_keeps [OF assms(1)] send_packet_keeps,
        metis keeps_trans keeps_set_writeBuf serialize_ack_length)
  from validD [OF this assms(2)] show ?thesis by simp
qed

lemma cycle_read_keeps:
  assumes "callbacks_ok E" and "aws_iot_mqtt_internal_cycle_read E t s = ret (rc, pt, s')"
  shows "keeps s s'"
proof -
  have "valid (aws_iot_mqtt_internal_cycle_read E t s) (\<lambda>(rc, pt, s'). keeps s s')"
    unfolding aws_iot_mqtt_internal_cycle_read_def
    by (intro wp) (auto simp: keeps_def dest!: handle_publish_keeps [OF assms(1)] keepsD)
  from validD [OF this assms(2)] show ?thesis by simp
qed

lemma wait_loop_result:
  assumes "callbacks_ok E"
  shows "valid (wait_loop E pt t rpt s) (\<lambda>(rc, rpt', s'). keeps s s' \<and>
    (rc = MQTT_REQUEST_TIMEOUT_ERROR \<or> rc = NETWORK_DISCONNECTED_ERROR \<or> rpt' = pt))"
proof (rule valid_resI)
  fix y assume "wait_loop E pt t rpt s = Some y"
  then show "res_ok (\<lambda>(rc, rpt', s'). keeps s s' \<and>
      (rc = MQTT_REQUEST_TIMEOUT_ERROR \<or> rc = NETWORK_DISCONNECTED_ERROR \<or> rpt' = pt)) y"
    using assms
  proof (induction rule: wait_loop.raw_induct [rotated, consumes 1, case_names step])
    case (step loop E pt t rpt s y)
    have IH: "valid (loop E pt t r s1) (\<lambda>(rc, rpt', s'). keeps s1 s' \<and>
        (rc = MQTT_REQUEST_TIMEOUT_ERROR \<or> rc = NETWORK_DISCONNECTED_ERROR \<or> rpt' = pt))" for r s1
      using step.IH step.prems by (blast intro: valid_resI)
    show ?case
      by (rule valid_res [OF _ step.hyps], intro wp)
        (auto dest!: timer_expired_keeps cycle_read_keeps [OF step.prems]
          intro: valid_mono [OF IH] keeps_trans [OF keeps_trans] keeps_trans)
  qed
qed

lemma wait_for_read_keeps:
  assumes "callbacks_ok E" and "aws_iot_mqtt_internal_wait_for_read E mt t s = ret (rc, s')"
  shows "keeps s s'"
proof -
  have "valid (aws_iot_mqtt_internal_wait_for_read E mt t s) (\<lambda>(rc, s'). keeps s s')"
    unfolding aws_iot_mqtt_internal_wait_for_read_def
    by (intro wp) (auto dest!: validD [OF wait_loop_result [OF assms(1)]])
  from validD [OF this assms(2)] show ?thesis by simp
qed


section \<open>The packet in the receive buffer\<close>

text \<open>The receive buffer starts with a complete packet of type \<open>pt\<close>.\<close>

definition holds_packet :: "mem \<Rightarrow> u8 \<Rightarrow> bool" where
  "holds_packet buf pt \<longleftrightarrow>
     (\<exists>h body rest. buf = mqtt_frame h body @ rest \<and> header_type h = pt \<and> length body < 512)"

lemma read_into_success:
  assumes "network (net E)" and "read_into E off n t s = ret (SUCCESS, rl, s')"
  shows "\<exists>bs. length bs = unat n \<and> rl = Some n \<and> mem_write (readBuf (cdata s)) off bs = Some (readBuf (cdata s')) \<and>
     readBufSize (cdata s') = readBufSize (cdata s)"
proof -
  obtain bs w' buf where r: "net_read (net E) n t (wd s) = ret (SUCCESS, bs, rl, w')"
    "mem_write (readBuf (cdata s)) off bs = Some buf" "s' = upd_data (\<lambda>d. d\<lparr>readBuf := buf\<rparr>) (s\<lparr>wd := w'\<rparr>)"
    using assms(2) by (auto simp: read_into_def st_read_def bnd_eq_ret)
  then show ?thesis
    using network.read_success [OF assms(1) r(1)] by auto
qed

lemma mem_write_take:
  assumes "mem_write buf off bs = Some buf'"
  shows "take off buf' = take off buf" and "take (off + length bs) buf' = take off buf @ bs"
  using assms by (auto simp: mem_write_def split: if_splits)

lemma emit_take:
  assumes "emit buf ptr bs = Some (b, p)"
  shows "take (ptr + length bs) b = take ptr buf @ bs"
  using assms mem_write_take(2) by (auto simp: emit_def)

lemma decode_rem_loop_data:
  "decode_rem_loop E t mult len n s = ret (rc, n', s') \<Longrightarrow> cdata s' = cdata s"
proof -
  have "valid (decode_rem_loop E t mult len n s) (\<lambda>(rc, n', s'). cdata s' = cdata s)"
  proof (rule valid_resI)
    fix y assume "decode_rem_loop E t mult len n s = Some y"
    then show "res_ok (\<lambda>(rc, n', s'). cdata s' = cdata s) y"
    proof (induction rule: decode_rem_loop.raw_induct [rotated, consumes 1, case_names step])
      case (step loop E t mult len n s y)
      have IH: "valid (loop E t m l n s1) (\<lambda>(rc, n', s'). cdata s' = cdata s1)" for m l n s1
        using step.IH by (rule valid_resI)
      show ?case
        by (rule valid_res [OF _ step.hyps], intro wp)
          (auto simp: st_read_def bnd_eq_ret intro: valid_mono [OF IH])
    qed
  qed
  then show "decode_rem_loop E t mult len n s = ret (rc, n', s') \<Longrightarrow> cdata s' = cdata s"
    by (auto dest: validD)
qed

lemma start_ms_data: "start_ms E ms s = (t, s') \<Longrightarrow> cl s' = cl s"
  by (auto simp: start_ms_def split_beta)

text \<open>Header byte, re-encoded length and body end up next to each other.\<close>

lemma frame_assembled:
  assumes "take 1 b1 = [h]" and "emit b1 1 (enc_len (length body)) = Some (b2, p)"
    and "mem_write b2 p body = Some b3"
  shows "b3 = mqtt_frame h body @ drop (length (mqtt_frame h body)) b3"
proof -
  have p: "p = 1 + length (enc_len (length body))"
    using assms(2) by (auto simp: emit_def)
  have "take p b2 = h # enc_len (length body)"
    using emit_take [OF assms(2)] assms(1) p by simp
  then have "take (p + length body) b3 = mqtt_frame h body"
    using mem_write_take(2) [OF assms(3)] by (simp add: mqtt_frame_def)
  then show ?thesis
    using append_take_drop_id [of "length (mqtt_frame h body)" b3] p by (simp add: mqtt_frame_def)
qed

lemma ucast_small: "unat (r :: size_t) < 512 \<Longrightarrow> unat (ucast r :: u32) = unat r"
  by (simp add: unsigned_ucast_eq take_bit_nat_eq_self_iff)

definition packet_read :: "'w env \<Rightarrow> Timer \<Rightarrow> 'w st \<Rightarrow> u8 option \<Rightarrow> 'w st \<Rightarrow> bool" where
  "packet_read E t s pt s' \<longleftrightarrow>
    (\<exists>pT s0 rl1 s1 r s2 buf k h.
       start_ms E (packetTimeoutMs (cdata s)) s = (pT, s0) \<and>
       read_into E 0 1 t s0 = ret (SUCCESS, rl1, s1) \<and>
       decode_rem_loop E pT 1 0 0 s1 = ret (SUCCESS, r, s2) \<and>
       \<not> r \<ge> readBufSize (cdata s2) \<and>
       aws_iot_mqtt_internal_write_len_to_buffer (readBuf (cdata s2)) 1 (ucast r) = Some (buf, k) \<and>
       (if r > 0 then \<exists>rl. read_into E (1 + k) r pT (upd_data (\<lambda>d. d\<lparr>readBuf := buf\<rparr>) s2) = ret (SUCCESS, rl, s')
        else s' = upd_data (\<lambda>d. d\<lparr>readBuf := buf\<rparr>) s2) \<and>
       mem_get (readBuf (cdata s')) 0 = Some h \<and> pt = Some (header_type h))"

lemma read_packet_read:
  "valid (aws_iot_mqtt_internal_read_packet E t s) (\<lambda>(rc, pt, s'). rc = SUCCESS \<longrightarrow> packet_read E t s pt s')"
  unfolding aws_iot_mqtt_internal_read_packet_def aws_iot_mqtt_internal_decode_packet_remaining_len_def
  by (intro wp; clarsimp?; (simp; fail)?; clarsimp simp: bnd_eq_ret Let_def packet_read_def split: if_splits)

lemma read_packet_holds:
  assumes "network (net E)" and "wf_client s"
    and "aws_iot_mqtt_internal_read_packet E t s = ret (SUCCESS, pt, s')"
  shows "\<exists>ty. pt = Some ty \<and> holds_packet (readBuf (cdata s')) ty"
proof -
  have "packet_read E t s pt s'"
    using validD [OF read_packet_read assms(3)] by simp
  then obtain pT s0 rl1 s1 r s2 buf k where
    s0: "start_ms E (packetTimeoutMs (cdata s)) s = (pT, s0)"
    and r1: "read_into E 0 1 t s0 = ret (SUCCESS, rl1, s1)"
    and dec: "decode_rem_loop E pT 1 0 0 s1 = ret (SUCCESS, r, s2)"
    and small: "\<not> r \<ge> readBufSize (cdata s2)"
    and wl: "aws_iot_mqtt_internal_write_len_to_buffer (readBuf (cdata s2)) 1 (ucast r) = Some (buf, k)"
    and body: "if r > 0 then \<exists>rl. read_into E (1 + k) r pT (upd_data (\<lambda>d. d\<lparr>readBuf := buf\<rparr>) s2) = ret (SUCCESS, rl, s')
       else s' = upd_data (\<lambda>d. d\<lparr>readBuf := buf\<rparr>) s2"
    and get: "\<exists>h. mem_get (readBuf (cdata s')) 0 = Some h \<and> pt = Some (header_type h)"
    unfolding packet_read_def by blast
  have c0: "cdata s0 = cdata s"
    using start_ms_data [OF s0] by simp
  obtain b where b: "mem_write (readBuf (cdata s0)) 0 [b] = Some (readBuf (cdata s1))"
    and d1: "readBufSize (cdata s1) = readBufSize (cdata s0)"
    using read_into_success [OF assms(1) r1] by (auto simp: length_Suc_conv)
  have d2: "cdata s2 = cdata s1"
    using decode_rem_loop_data [OF dec] .
  have "readBufSize (cdata s2) = 512"
    using assms(2) d1 d2 c0 by (simp add: wf_data_def config_defs)
  then have r512: "unat r < 512"
    using small by (simp add: word_le_nat_alt)
  have h: "take 1 (readBuf (cdata s2)) = [b]"
    using mem_write_take(2) [OF b] d2 by simp
  have em: "emit (readBuf (cdata s2)) 1 (enc_len (unat r)) = Some (buf, 1 + k)"
    using wl ucast_small [OF r512] by (auto simp: write_len_emit emit_def)
  obtain bs where bs: "length bs = unat r" "mem_write buf (1 + k) bs = Some (readBuf (cdata s'))"
  proof (cases "r > 0")
    case True
    then obtain rl where "read_into E (1 + k) r pT (upd_data (\<lambda>d. d\<lparr>readBuf := buf\<rparr>) s2) = ret (SUCCESS, rl, s')"
      using body by auto
    from read_into_success [OF assms(1) this] show ?thesis
      using that by auto
  next
    case False
    then have "unat r = 0" "s' = upd_data (\<lambda>d. d\<lparr>readBuf := buf\<rparr>) s2"
      using body by (simp_all add: word_less_nat_alt)
    then show ?thesis
      using that [of "[]"] emit_fits [OF _ em] h by (cases "readBuf (cdata s2)") (auto simp: mem_write_def)
  qed
  have frame: "readBuf (cdata s') = mqtt_frame b bs @ drop (length (mqtt_frame b bs)) (readBuf (cdata s'))"
    using frame_assembled [OF h _ bs(2)] em bs(1) by simp
  moreover have "pt = Some (header_type b)"
    using get frame by (metis append_Cons mem_get_Cons_0 mqtt_frame_def option.inject)
  ultimately show ?thesis
    using bs(1) r512 unfolding holds_packet_def by metis
qed


section \<open>Waiting for a response\<close>

abbreviation is_ack_type :: "u8 \<Rightarrow> bool" where
  "is_ack_type ty \<equiv> uint ty \<in> {msgCode CONNACK, msgCode PUBACK, msgCode SUBACK, msgCode UNSUBACK}"

lemma cycle_read_ack:
  assumes "aws_iot_mqtt_internal_cycle_read E t s = ret (rc, Some ty, s')" and "is_ack_type ty"
  shows "rc = SUCCESS \<and> aws_iot_mqtt_internal_read_packet E t s = ret (SUCCESS, Some ty, s')"
proof -
  have "valid (aws_iot_mqtt_internal_read_packet E t s) (\<lambda>(rc, pt, s'). rc \<noteq> SUCCESS \<longrightarrow> pt = None)"
    unfolding aws_iot_mqtt_internal_read_packet_def by (intro wp) auto
  then have none: "aws_iot_mqtt_internal_read_packet E t s = ret (rc1, pt1, s1) \<Longrightarrow> rc1 \<noteq> SUCCESS \<Longrightarrow> pt1 = None" for rc1 pt1 s1
    by (auto dest: validD)
  have "valid (aws_iot_mqtt_internal_cycle_read E t s) (\<lambda>(rc, pt, s'). pt = Some ty \<longrightarrow> is_ack_type ty \<longrightarrow>
      rc = SUCCESS \<and> aws_iot_mqtt_internal_read_packet E t s = ret (SUCCESS, Some ty, s'))"
    unfolding aws_iot_mqtt_internal_cycle_read_def by (intro wp) (auto dest: none)
  from validD [OF this assms(1)] show ?thesis
    using assms(2) by auto
qed

lemma wait_loop_success:
  assumes "network (net E)" and "callbacks_ok E" and "wf_client s" and "is_ack_type pt" and "rpt \<noteq> pt"
  shows "valid (wait_loop E pt t rpt s) (\<lambda>(rc, rpt', s'). rc = SUCCESS \<longrightarrow> holds_packet (readBuf (cdata s')) pt)"
proof (rule valid_resI)
  fix y assume "wait_loop E pt t rpt s = Some y"
  then show "res_ok (\<lambda>(rc, rpt', s'). rc = SUCCESS \<longrightarrow> holds_packet (readBuf (cdata s')) pt) y"
    using assms
  proof (induction rule: wait_loop.raw_induct [rotated, consumes 1, case_names step])
    case (step loop E pt t rpt s y)
    have IH: "valid (loop E pt t r s1) (\<lambda>(rc, rpt', s'). rc = SUCCESS \<longrightarrow> holds_packet (readBuf (cdata s')) pt)"
      if "wf_client s1" "r \<noteq> pt" for r s1
      using step.IH [OF _ step.prems(1,2) that(1) step.prems(4) that(2)] by (blast intro: valid_resI)
    have wf: "wf_client s2" if "timer_expired E t s = (e, s1)"
      "aws_iot_mqtt_internal_cycle_read E t s1 = ret (rc, ty, s2)" for e s1 rc ty s2
      using keeps_wf [OF timer_expired_keeps [OF that(1)] step.prems(3)]
        cycle_read_keeps [OF step.prems(2) that(2)] by (blast dest: keeps_wf)
    have fin: "holds_packet (readBuf (cdata s2)) pt" if "timer_expired E t s = (e, s1)"
      "aws_iot_mqtt_internal_cycle_read E t s1 = ret (rc, Some pt, s2)" for e s1 rc s2
    proof -
      have "wf_client s1"
        using keeps_wf [OF timer_expired_keeps [OF that(1)] step.prems(3)] .
      then show ?thesis
        using cycle_read_ack [OF that(2) step.prems(4)] read_packet_holds [OF step.prems(1)] by blast
    qed
    show ?case
      by (rule valid_res [OF _ step.hyps], intro wp)
        (use step.prems(5) in \<open>auto intro!: IH wf fin split: option.splits\<close>)
  qed
qed

lemma wait_for_read_success:
  assumes "network (net E)" and "callbacks_ok E" and "wf_client s"
    and "mt \<in> {CONNACK, PUBACK, SUBACK, UNSUBACK}"
    and "aws_iot_mqtt_internal_wait_for_read E mt t s = ret (SUCCESS, s')"
  shows "holds_packet (readBuf (cdata s')) (word_of_int (msgCode mt))"
proof -
  have ty: "is_ack_type (word_of_int (msgCode mt))" "0 \<noteq> (word_of_int (msgCode mt) :: u8)"
    using assms(4) by auto
  have "valid (aws_iot_mqtt_internal_wait_for_read E mt t s)
      (\<lambda>(rc, s'). rc = SUCCESS \<longrightarrow> holds_packet (readBuf (cdata s')) (word_of_int (msgCode mt)))"
    unfolding aws_iot_mqtt_internal_wait_for_read_def
    by (intro wp) (auto dest!: validD [OF wait_loop_success [OF assms(1-3) ty]])
  from validD [OF this assms(5)] show ?thesis by simp
qed

section \<open>A scripted connection\<close>

text \<open>
  For concrete runs: a TLS connection whose incoming bytes are given in advance and whose
  outgoing bytes are recorded, and a clock that stands still.  The world is the pair of the
  bytes still to be received and the bytes sent so far.
\<close>

type_synonym script = "u8 list \<times> u8 list"

definition script_tls :: "script mbedtls" where
  "script_tls =
     \<lparr> net_init = id, ssl_init = id, ssl_config_init = id, ctr_drbg_init = id, cacert_init = id,
       clicert_init = id, pk_init = id, entropy_init = id,
       ctr_drbg_seed = (\<lambda>p w. (0, w)), x509_crt_parse_ca = (\<lambda>c n w. (0, w)),
       x509_crt_parse_se = (\<lambda>l p w. (0, w)), pk_parse_se = (\<lambda>l p w. (0, w)),
       mnet_connect = (\<lambda>h p w. (0, w)), net_set_block = (\<lambda>w. (0, w)), ssl_config_defaults = (\<lambda>w. (0, w)),
       ssl_conf_verify = (\<lambda>f. id), ssl_conf_authmode = (\<lambda>a. id), ssl_conf_rng = id, ssl_conf_ca_chain = id,
       ssl_conf_own_cert = (\<lambda>w. (0, w)), ssl_conf_read_timeout = (\<lambda>t. id), ssl_setup = (\<lambda>w. (0, w)),
       ssl_set_hostname = (\<lambda>h w. (0, w)), ssl_set_bio = id, ssl_handshake = (\<lambda>w. (0, w)),
       ssl_get_verify_result = (\<lambda>w. (0, w)),
       ssl_write = (\<lambda>bs (rx, tx). (int (length bs), (rx, tx @ bs))),
       ssl_read = (\<lambda>n (rx, tx).
         if rx = [] then (SslError 1, (rx, tx))
         else (SslBytes (take (unat n) rx), (drop (unat n) rx, tx))),
       ssl_close_notify = (\<lambda>w. (0, w)), net_free = id, clicert_free = id, cacert_free = id, pk_free = id,
       ssl_free = id, ssl_config_free = id, ctr_drbg_free = id, entropy_free = id \<rparr>"

lemma script_tls_simps [simp]:
  "ssl_write script_tls bs (rx, tx) = (int (length bs), (rx, tx @ bs))"
  "ssl_read script_tls n (rx, tx) = (if rx = [] then (SslError 1, (rx, tx))
     else (SslBytes (take (unat n) rx), (drop (unat n) rx, tx)))"
  "ssl_handshake script_tls w = (0, w)" "ssl_get_verify_result script_tls w = (0, w)"
  "ssl_close_notify script_tls w = (0, w)"
  by (simp_all add: script_tls_def)

definition still_clock :: "'w clock" where
  "still_clock w = (\<lparr>tv_sec = 0, tv_usec = 0\<rparr>, w)"

definition running :: "Timer \<Rightarrow> bool" where
  "running t \<longleftrightarrow> tv_sec (end_time t) > 0 \<and> 0 \<le> tv_usec (end_time t)"

definition script_env :: "script env" where
  "script_env =
     \<lparr> gtod = still_clock, net = tls_ops still_clock script_tls,
       app = (\<lambda>h topic len msg data s. ret (msg, s)), disc = (\<lambda>h data s. ret s) \<rparr>"

lemma script_env_simps [simp]:
  "gtod script_env = still_clock" "net script_env = tls_ops still_clock script_tls"
  by (simp_all add: script_env_def)

lemma script_callbacks [simp]: "callbacks_ok script_env"
  by (simp add: callbacks_ok_def script_env_def)

lemma still_not_expired [simp]: "running t \<Longrightarrow> has_timer_expired still_clock t w = (False, w)"
  by (auto simp: has_timer_expired_def still_clock_def timersub_def running_def Let_def)

lemma still_timer_expired [simp]: "running t \<Longrightarrow> timer_expired script_env t s = (False, s)"
  by (simp add: timer_expired_def)

lemma script_read:
  assumes "running t" and "0 < n" and "unat n \<le> length rx"
  shows "iot_tls_read still_clock script_tls n t (rx, tx) =
           ret (SUCCESS, take (unat n) rx, Some n, (drop (unat n) rx, tx))"
proof -
  have n: "unat n > 0" using assms(2) by (simp add: word_less_nat_alt)
  have z: "tls_read_loop still_clock script_tls t 0 n st w = ret (SUCCESS, 0, n, st, w)" for st w
    by (subst tls_read_loop.simps) simp
  have "tls_read_loop still_clock script_tls t n 0 [] (rx, tx) =
      ret (SUCCESS, 0, n, take (unat n) rx, (drop (unat n) rx, tx))"
    using assms n z by (subst tls_read_loop.simps) (auto simp: Let_def min_def)
  then show ?thesis
    by (simp add: iot_tls_read_def)
qed

lemma script_write:
  assumes "running t" and "0 < n" and "off + unat n \<le> length msg"
  shows "iot_tls_write still_clock script_tls msg off n t (rx, tx) =
           ret (SUCCESS, n, (rx, tx @ take (unat n) (drop off msg)))"
proof -
  let ?bs = "take (unat n) (drop off msg)"
  have n: "unat n > 0" using assms(2) by (simp add: word_less_nat_alt)
  have len: "length ?bs = unat n" using assms(3) by simp
  have i: "tls_write_inner still_clock script_tls msg off n t 0 None (rx, tx) =
      ret (False, Some (int (unat n)), (rx, tx @ ?bs))"
  proof -
    have "int (unat n) > 0" using n by linarith
    then show ?thesis
      using assms len by (subst tls_write_inner.simps) (simp add: mem_read_def)
  qed
  have z: "tls_write_loop still_clock script_tls msg off n t n r w = ret (False, n, w)" for r w
    by (subst tls_write_loop.simps) simp
  have "tls_write_loop still_clock script_tls msg off n t 0 None (rx, tx) = ret (False, n, (rx, tx @ ?bs))"
    using assms i z by (subst tls_write_loop.simps) simp
  then show ?thesis
    using assms(1) by (simp add: iot_tls_write_def)
qed

lemma start_ms_running:
  assumes "1000 \<le> uint ms"
  shows "\<exists>t. start_ms script_env ms s = (t, s) \<and> running t"
proof -
  have "0 < uint (ms div 1000)"
    using assms by (simp add: uint_div)
  then show ?thesis
    by (auto simp: start_ms_def countdown_ms_def still_clock_def timeradd_def running_def Let_def)
qed


lemma script_st_read:
  assumes "running t" and "0 < n" and "unat n \<le> length rx" and "wd s = (rx, tx)"
  shows "st_read script_env n t s =
           ret (SUCCESS, take (unat n) rx, Some n, s\<lparr>wd := (drop (unat n) rx, tx)\<rparr>)"
  using assms by (simp add: st_read_def tls_ops_def script_read)

lemma script_read_into:
  assumes "running t" and "0 < n" and "unat n \<le> length rx" and "wd s = (rx, tx)"
    and "off + unat n \<le> length (readBuf (cdata s))"
  shows "read_into script_env off n t s = ret (SUCCESS, Some n,
           upd_data (\<lambda>d. d\<lparr>readBuf := take off (readBuf d) @ take (unat n) rx @ drop (off + unat n) (readBuf d)\<rparr>)
             (s\<lparr>wd := (drop (unat n) rx, tx)\<rparr>))"
  using assms script_st_read [OF assms(1-4)] by (simp add: read_into_def mem_write_def min_def upd_data_def)

text \<open>A frame whose body has at most 127 bytes, received through the scripted connection.\<close>

lemma script_read_packet:
  assumes "running t" and "wf_client s" and "1000 \<le> uint (packetTimeoutMs (cdata s))"
    and "length body < 128" and "wd s = (mqtt_frame h body @ rest, tx)"
  shows "aws_iot_mqtt_internal_read_packet script_env t s =
    ret (SUCCESS, Some (header_type h),
      upd_data (\<lambda>d. d\<lparr>readBuf := mqtt_frame h body @ drop (length (mqtt_frame h body)) (readBuf d)\<rparr>)
        (s\<lparr>wd := (rest, tx)\<rparr>))"
proof -
  let ?n = "of_nat (length body) :: size_t"
  have e: "enc_len (length body) = [of_nat (length body)]"
    using assms(4) by (simp add: enc_len.simps)
  obtain pT where pT: "start_ms script_env (packetTimeoutMs (cdata s)) s = (pT, s)" "running pT"
    using start_ms_running [OF assms(3)] by blast
  obtain b0 bs where rb: "readBuf (cdata s) = b0 # bs" "length bs = 511"
    using assms(2) by (cases "readBuf (cdata s)") (auto simp: wf_data_def config_defs)
  define s1 where "s1 = upd_data (\<lambda>d. d\<lparr>readBuf := h # bs\<rparr>) (s\<lparr>wd := (of_nat (length body) # body @ rest, tx)\<rparr>)"
  have w: "wd s = (h # of_nat (length body) # body @ rest, tx)"
    using assms(5) e by (simp add: mqtt_frame_def)
  have r1: "read_into script_env 0 1 t s = ret (SUCCESS, Some 1, s1)"
    using script_read_into [OF assms(1), of 1 "h # of_nat (length body) # body @ rest" s tx 0] w rb by (simp add: s1_def upd_data_def)
  define s2 where "s2 = s1\<lparr>wd := (body @ rest, tx)\<rparr>"
  have r2: "st_read script_env 1 pT s1 = ret (SUCCESS, [of_nat (length body)], Some 1, s2)"
    using script_st_read [OF pT(2), of 1 "of_nat (length body) # body @ rest" s1 tx] by (simp add: s1_def s2_def)
  have dig: "(of_nat (length body) :: u8) AND 128 = 0" "ucast ((of_nat (length body) :: u8) AND 127) = ?n"
  proof -
    have u: "unat (of_nat (length body) :: u8) = length body"
      using assms(4) by (simp add: unsigned_of_nat take_bit_nat_eq_self_iff)
    then show "(of_nat (length body) :: u8) AND 128 = 0"
      using assms(4) by (simp add: u8_and_128)
    show "ucast ((of_nat (length body) :: u8) AND 127) = ?n"
      using u8_and_127 [of "of_nat (length body)"] u assms(4)
      by (intro word_unat_eq_iff [THEN iffD2]) (simp add: unsigned_of_nat take_bit_eq_mod)
  qed
  have dec: "decode_rem_loop script_env pT 1 0 0 s1 = ret (SUCCESS, ?n, s2)"
    using r2 dig by (subst decode_rem_loop.simps) (simp add: MAX_NO_OF_REMAINING_LENGTH_BYTES_def arr_get_def)
  have un: "unat ?n = length body"
    using assms(4) by (simp add: unsigned_of_nat take_bit_nat_eq_self_iff)
  have c2: "cdata s2 = (cdata s)\<lparr>readBuf := h # bs\<rparr>"
    by (simp add: s2_def s1_def)
  have small: "\<not> ?n \<ge> readBufSize (cdata s2)"
    using assms(2,4) un by (simp add: c2 wf_data_def config_defs word_le_nat_alt)
  obtain b1 bs' where bs: "bs = b1 # bs'" "length bs' = 510"
    using rb(2) by (cases bs) auto
  have wl: "aws_iot_mqtt_internal_write_len_to_buffer (readBuf (cdata s2)) 1 (ucast ?n) =
      Some (h # of_nat (length body) # bs', 1)"
    using un ucast_small [of ?n] assms(4) bs by (simp add: write_len_emit c2 emit_def mem_write_def e)
  define s3 where "s3 = upd_data (\<lambda>d. d\<lparr>readBuf := h # of_nat (length body) # bs'\<rparr>) s2"
  define s4 where "s4 = upd_data (\<lambda>d. d\<lparr>readBuf := mqtt_frame h body @ drop (length (mqtt_frame h body)) (readBuf d)\<rparr>)
        (s\<lparr>wd := (rest, tx)\<rparr>)"
  have fr: "mqtt_frame h body @ drop (length (mqtt_frame h body)) (readBuf (cdata s)) =
      h # of_nat (length body) # body @ drop (length body) bs'"
    using rb bs e by (simp add: mqtt_frame_def)
  have body: "read_into script_env (1 + 1) ?n pT s3 = ret (SUCCESS, Some ?n, s4)" if "?n > 0"
    using script_read_into [OF pT(2) that, of "body @ rest" s3 tx "Suc (Suc 0)"] un assms(4) bs fr
    by (simp add: s3_def s2_def s1_def s4_def upd_data_def)
  have nobody: "s3 = s4" if "\<not> ?n > 0"
  proof -
    have "body = []" using that un by (simp add: word_less_nat_alt)
    then show ?thesis
      using fr by (simp add: s3_def s2_def s1_def s4_def upd_data_def)
  qed
  have fin: "mem_get (readBuf (cdata s4)) 0 = Some h"
    by (simp add: s4_def mqtt_frame_def)
  show ?thesis
    unfolding aws_iot_mqtt_internal_read_packet_def aws_iot_mqtt_internal_decode_packet_remaining_len_def
    using pT(1) r1 dec small wl body nobody fin
    by (simp add: s3_def [symmetric] s4_def [symmetric] Let_def)
qed


text \<open>A client connected through the scripted connection.\<close>

definition script_client :: "ClientState \<Rightarrow> u8 list \<Rightarrow> script st" where
  "script_client st rx =
     set_clientState st \<lparr>cl = sample_client, wd = (rx, [])\<rparr>"

lemma script_client_simps [simp]:
  "cdata (script_client st rx) = clientData sample_client" "wd (script_client st rx) = (rx, [])"
  "clientState (script_client st rx) = st" "wf_data (clientData sample_client)"
  "uint (packetTimeoutMs (clientData sample_client)) = 2000"
  "uint (commandTimeoutMs (clientData sample_client)) = 20000"
  using sample_client_wf by (simp_all add: script_client_def sample_client_def)

lemma script_cycle_ack:
  assumes "running t" and "wf_client s" and "1000 \<le> uint (packetTimeoutMs (cdata s))"
    and "length body < 128" and "wd s = (mqtt_frame h body @ rest, tx)" and "is_ack_type (header_type h)"
  shows "aws_iot_mqtt_internal_cycle_read script_env t s =
    ret (SUCCESS, Some (header_type h),
      upd_data (\<lambda>d. d\<lparr>readBuf := mqtt_frame h body @ drop (length (mqtt_frame h body)) (readBuf d)\<rparr>)
        (s\<lparr>wd := (rest, tx)\<rparr>))"
  using script_read_packet [OF assms(1-5)] assms(6)
  by (simp add: aws_iot_mqtt_internal_cycle_read_def Let_def)

lemma script_wait_ack:
  assumes "running t" and "wf_client s" and "1000 \<le> uint (packetTimeoutMs (cdata s))"
    and "length body < 128" and "wd s = (mqtt_frame h body @ rest, tx)"
    and "mt \<in> {CONNACK, PUBACK, SUBACK, UNSUBACK}" and "uint (header_type h) = msgCode mt"
  shows "aws_iot_mqtt_internal_wait_for_read script_env mt t s =
    ret (SUCCESS,
      upd_data (\<lambda>d. d\<lparr>readBuf := mqtt_frame h body @ drop (length (mqtt_frame h body)) (readBuf d)\<rparr>)
        (s\<lparr>wd := (rest, tx)\<rparr>))"
proof -
  have ty: "header_type h = word_of_int (msgCode mt)"
    using assms(7) by (metis word_of_int_uint)
  have ack: "is_ack_type (header_type h)"
    using assms(6,7) by auto
  have "wait_loop script_env (word_of_int (msgCode mt)) t 0 s =
      ret (SUCCESS, word_of_int (msgCode mt),
        upd_data (\<lambda>d. d\<lparr>readBuf := mqtt_frame h body @ drop (length (mqtt_frame h body)) (readBuf d)\<rparr>)
          (s\<lparr>wd := (rest, tx)\<rparr>))"
    using script_cycle_ack [OF assms(1-5) ack] assms(1) ty by (subst wait_loop.simps) simp
  then show ?thesis
    by (simp add: aws_iot_mqtt_internal_wait_for_read_def)
qed

section \<open>Properties\<close>

text \<open>
  C22: a response is really there.  Over the TLS network and with callbacks that hand the client
  back, whenever \<open>aws_iot_mqtt_internal_wait_for_read\<close> reports \<open>SUCCESS\<close> for an
  acknowledgement type, the receive buffer starts with a complete packet of that type (header,
  length field and the whole body), the client is still valid and its state is unchanged.
\<close>

theorem wait_for_read_delivers:
  assumes "net E = tls_ops (gtod E) m" and "callbacks_ok E" and "wf_client s"
    and "mt \<in> {CONNACK, PUBACK, SUBACK, UNSUBACK}"
    and "aws_iot_mqtt_internal_wait_for_read E mt t s = ret (SUCCESS, s')"
  shows "wf_client s' \<and> clientState s' = clientState s \<and>
    (\<exists>h body rest. readBuf (cdata s') = mqtt_frame h body @ rest \<and>
       uint (header_type h) = msgCode mt \<and> length body < 512)"
proof -
  have N: "network (net E)"
    using assms(1) by (simp add: tls.network_axioms)
  have "keeps s s'"
    using wait_for_read_keeps [OF assms(2,5)] .
  moreover have "uint (word_of_int (msgCode mt) :: u8) = msgCode mt"
    using assms(4) by auto
  ultimately show ?thesis
    using wait_for_read_success [OF N assms(2-5)] assms(3)
    unfolding holds_packet_def keeps_def by metis
qed

text \<open>A SUBACK arrives.\<close>

theorem wait_for_read_delivers_witness:
  "\<exists>s'. aws_iot_mqtt_internal_wait_for_read script_env SUBACK (timer_at 1)
           (script_client CLIENT_STATE_CONNECTED_SUBSCRIBE_IN_PROGRESS [0x90, 3, 0, 9, 1]) = ret (SUCCESS, s') \<and>
        wf_client s' \<and> (\<exists>h body rest. readBuf (cdata s') = mqtt_frame h body @ rest \<and> uint (header_type h) = 9)"
proof -
  let ?s = "script_client CLIENT_STATE_CONNECTED_SUBSCRIBE_IN_PROGRESS [0x90, 3, 0, 9, 1]"
  have f: "mqtt_frame 0x90 [0, 9, 1] = [0x90, 3, 0, 9, 1]"
    by (simp add: mqtt_frame_def enc_len.simps)
  have t: "running (timer_at 1)"
    by (simp add: running_def timer_at_def)
  obtain s' where s': "aws_iot_mqtt_internal_wait_for_read script_env SUBACK (timer_at 1) ?s = ret (SUCCESS, s')"
    using script_wait_ack [OF t, where s = ?s and body = "[0, 9, 1]" and h = "0x90" and rest = "[]"
        and tx = "[]" and mt = SUBACK] f by (simp add: header_defs)
  from wait_for_read_delivers [OF _ _ _ _ s', of script_tls] show ?thesis
    using s' by auto
qed

text \<open>
  The limit on length bytes is not enforced when receiving.  The counter of
  \<open>_aws_iot_mqtt_internal_decode_packet_remaining_len\<close> is overwritten by each read, so six
  length bytes are accepted and give a remaining length of \<open>2^35\<close>, while the decoder for
  buffers rejects the same bytes.
\<close>

theorem decode_packet_remaining_len_unbounded:
  "aws_iot_mqtt_internal_decode_packet_remaining_len script_env (timer_at 1)
     (script_client CLIENT_STATE_CONNECTED_IDLE [128, 128, 128, 128, 128, 1]) =
     ret (SUCCESS, 2 ^ 35, script_client CLIENT_STATE_CONNECTED_IDLE []) \<and>
   aws_iot_mqtt_internal_decode_remaining_length_from_buffer [128, 128, 128, 128, 128, 1] 0 =
     Some (Inl MQTT_DECODE_REMAINING_LENGTH_ERROR)"
proof
  let ?s = "script_client CLIENT_STATE_CONNECTED_IDLE"
  have t: "running (timer_at 1)"
    by (simp add: running_def timer_at_def)
  have w: "(?s rx)\<lparr>wd := (r, [])\<rparr> = ?s r" for rx r
    by (simp add: script_client_def upd_status_def)
  have rd: "st_read script_env 1 (timer_at 1) (?s (b # rx)) = ret (SUCCESS, [b], Some 1, ?s rx)" for b rx
    using script_st_read [OF t, of 1 "b # rx" "?s (b # rx)" "[]"] w by simp
  have step: "decode_rem_loop script_env (timer_at 1) m l n (?s (128 # rx)) =
      decode_rem_loop script_env (timer_at 1) (m * 128) 1 n (?s rx)" if "l + 1 \<le> 4" for m l n rx
    using rd [of 128 rx] that
    by (subst decode_rem_loop.simps) (auto simp: MAX_NO_OF_REMAINING_LENGTH_BYTES_def arr_get_def Let_def)
  have last: "decode_rem_loop script_env (timer_at 1) m 1 n (?s [1]) = ret (SUCCESS, n + m, ?s [])" for m n
    using rd [of 1 "[]"]
    by (subst decode_rem_loop.simps) (simp add: MAX_NO_OF_REMAINING_LENGTH_BYTES_def arr_get_def Let_def)
  show "aws_iot_mqtt_internal_decode_packet_remaining_len script_env (timer_at 1)
     (?s [128, 128, 128, 128, 128, 1]) = ret (SUCCESS, 2 ^ 35, ?s [])"
    by (simp add: aws_iot_mqtt_internal_decode_packet_remaining_len_def step last)
  show "aws_iot_mqtt_internal_decode_remaining_length_from_buffer [128, 128, 128, 128, 128, 1] 0 =
     Some (Inl MQTT_DECODE_REMAINING_LENGTH_ERROR)"
    by (simp add: aws_iot_mqtt_internal_decode_remaining_length_from_buffer_def
        decode_len_loop.simps MAX_NO_OF_REMAINING_LENGTH_BYTES_def mem_get_def)
qed


lemma read_into_fault:
  assumes "\<And>n t w. fault_only (net_read (net E) n t w) P" and "network (net E)"
    and "length (readBuf (cdata s)) < off + unat n \<Longrightarrow> P"
  shows "fault_only (read_into E off n t s) P"
proof -
  have le: "length bs \<le> unat n" if "st_read E n t s = ret (rc, bs, rl, s')" for rc bs rl s'
    using that network.read_le [OF assms(2)] by (auto simp: st_read_def bnd_eq_ret)
  have same: "cdata s' = cdata s" if "st_read E n t s = ret (rc, bs, rl, s')" for rc bs rl s'
    using that by (auto simp: st_read_def bnd_eq_ret)
  have "fault_only (st_read E n t s) P"
    unfolding st_read_def using assms(1) by (intro nf) auto
  then show ?thesis
    unfolding read_into_def using assms(3) le same
    by (intro nf) (fastforce simp: mem_write_None)+
qed

lemma decode_rem_loop_fault:
  assumes "\<And>n t w. fault_only (net_read (net E) n t w) False" and "network (net E)"
  shows "fault_only (decode_rem_loop E t mult len n s) P"
proof -
  have "fault_only (decode_rem_loop E t mult len n s) False"
  proof (rule fault_only_resI)
    fix y assume "decode_rem_loop E t mult len n s = Some y"
    then show "y = Fault \<longrightarrow> False"
      using assms
    proof (induction rule: decode_rem_loop.raw_induct [rotated, consumes 1, case_names step])
      case (step loop E t mult len n s y)
      have IH: "fault_only (loop E t m l n s1) False" for m l n s1
        using step.IH [OF _ step.prems] by (rule fault_only_resI)
      have rd: "fault_only (st_read E 1 t s) False"
        unfolding st_read_def by (intro nf) (auto intro: step.prems)
      show ?case
        by (rule fault_only_res [OF _ step.hyps], intro nf IH rd)
          (use network.read_success [OF step.prems(2)] in
            \<open>fastforce simp: st_read_def bnd_eq_ret arr_get_def split: if_splits\<close>)
    qed
  qed
  then show ?thesis
    by (simp add: fault_only_def)
qed

lemma drain_loop_fault:
  assumes "\<And>n t w. fault_only (net_read (net E) n t w) False" and "network (net E)"
    and "unat (readBufSize (cdata s)) = length (readBuf (cdata s))" and "btr \<le> readBufSize (cdata s)"
  shows "fault_only (drain_loop E t n btr tot rlen s) P"
proof -
  have "fault_only (drain_loop E t n btr tot rlen s) False"
  proof (rule fault_only_resI)
    fix y assume "drain_loop E t n btr tot rlen s = Some y"
    then show "y = Fault \<longrightarrow> False"
      using assms
    proof (induction rule: drain_loop.raw_induct [rotated, consumes 1, case_names step])
      case (step loop E t n btr tot rlen s y)
      have IH: "fault_only (loop E t n b tt r s1) False"
        if "unat (readBufSize (cdata s1)) = length (readBuf (cdata s1))" "b \<le> readBufSize (cdata s1)" for b tt r s1
        using step.IH [OF _ step.prems(1,2) that] by (rule fault_only_resI)
      have rd: "fault_only (read_into E 0 btr t s) False"
        using step.prems by (intro read_into_fault) (auto simp: word_le_nat_alt)
      have same: "readBufSize (cdata s') = readBufSize (cdata s) \<and> length (readBuf (cdata s')) = length (readBuf (cdata s))"
        if "read_into E 0 btr t s = ret (rc, rl, s')" for rc rl s'
        using that by (auto simp: read_into_def st_read_def bnd_eq_ret dest: mem_write_length)
      show ?case
        by (rule fault_only_res [OF _ step.hyps], intro nf IH rd)
          (use step.prems(3) in \<open>auto dest!: same simp: linorder_not_le\<close>)
    qed
  qed
  then show ?thesis
    by (simp add: fault_only_def)
qed

lemma read_packet_fault:
  assumes "\<And>n t w. fault_only (net_read (net E) n t w) False" and "network (net E)" and "wf_client s"
  shows "fault_only (aws_iot_mqtt_internal_read_packet E t s)
    (\<exists>pT s1 r s2. aws_iot_mqtt_internal_decode_packet_remaining_len E pT s1 = ret (SUCCESS, r, s2) \<and>
       unat r \<in> {510, 511})" (is "fault_only _ ?P")
proof -
  define P where "P = ?P"
  have rd: "fault_only (net_read (net E) n t w) P" for n t w
    using assms(1) by (simp add: fault_only_def)
  have sizes: "length (readBuf (cdata s1)) = 512 \<and> readBufSize (cdata s1) = 512" if "keeps s s1" for s1
    using keeps_wf [OF that assms(3)] by (simp add: wf_data_def config_defs)
  have k0: "keeps s b" if "start_ms E ms s = (a, b)" for ms a b
    using that by (rule start_ms_keeps)
  have k2: "keeps s s2" if "start_ms E ms s = (a, b)" "read_into E 0 1 t b = ret (rc, rl, s1)"
    "decode_rem_loop E a 1 0 0 s1 = ret (rc', r, s2)" for ms a b rc rl s1 rc' r s2
    using that by (meson keeps_trans start_ms_keeps read_into_keeps decode_rem_loop_keeps)
  have k3: "readBuf (cdata s3) \<noteq> []" if "keeps s s2"
    "(if 0 < r then bnd (read_into E n r a (upd_data (\<lambda>d. d\<lparr>readBuf := buf\<rparr>) s2)) (\<lambda>(rc, rl, s).
        let read_len = (case rl of None \<Rightarrow> x | Some l \<Rightarrow> l)
        in ret (if rc \<noteq> SUCCESS \<or> read_len \<noteq> r then FAILURE else SUCCESS, s))
      else ret (SUCCESS, upd_data (\<lambda>d. d\<lparr>readBuf := buf\<rparr>) s2)) = ret (rc, s3)"
    "aws_iot_mqtt_internal_write_len_to_buffer (readBuf (cdata s2)) 1 l = Some (buf, k)" for r n a buf s2 x rc s3 l k
    using that sizes [OF that(1)] write_len_length [OF that(3)]
    by (auto simp: bnd_eq_ret read_into_def st_read_def Let_def dest: mem_write_length split: if_splits)
  have wl: "1 + length (enc_len (unat r)) \<le> 512 \<and> (512 < 1 + length (enc_len (unat r)) + unat r \<longrightarrow> unat r \<in> {510, 511})"
    if "unat r < 512" for r :: size_t
    using length_enc_len(2) [of "unat r"] that by (auto split: if_splits)
  have em: "aws_iot_mqtt_internal_write_len_to_buffer buf 1 (ucast r) =
      (if 1 + length (enc_len (unat r)) \<le> length buf
       then Some (take 1 buf @ enc_len (unat r) @ drop (1 + length (enc_len (unat r))) buf, length (enc_len (unat r)))
       else None)" if "unat r < 512" for buf and r :: size_t
    using ucast_small [OF that] by (simp add: write_len_emit emit_def mem_write_def)
  have small: "unat r < 512" if "keeps s s2" "\<not> readBufSize (cdata s2) \<le> r" for s2 r
    using sizes [OF that(1)] that(2) by (simp add: word_le_nat_alt)
  have "fault_only (aws_iot_mqtt_internal_read_packet E t s) P"
    unfolding aws_iot_mqtt_internal_read_packet_def aws_iot_mqtt_internal_decode_packet_remaining_len_def
  proof (intro nf read_into_fault [OF rd assms(2)] decode_rem_loop_fault [OF assms(1,2)]
      drain_loop_fault [OF assms(1,2)], goal_cases)
    case (1 a b)
    then show ?case using sizes [OF k0] by simp
  next
    case (2 a b aa ab ba ac bb ad ae bc af bd)
    then show ?case using sizes [OF k2] by simp
  next
    case (3 a b aa ab ba ac bb ad ae bc af bd)
    then show ?case by simp
  next
    case (4 a b aa ab ba ac bb ad ae bc af bd)
    then have k: "keeps s bd" by (simp add: k2)
    then show ?case
      using 4 sizes [OF k] small [OF k] wl [of af] em [of af] by simp
  next
    case (5 a b aa ab ba ac bb ad ae bc af bd ag ah be)
    then have k: "keeps s bd" by (simp add: k2)
    have af: "unat af < 512" using 5 small [OF k] by simp
    have "length ah = 512" "be = length (enc_len (unat af))"
      using 5 sizes [OF k] write_len_length [of "readBuf (cdata bd)" 1 "ucast af" ah be] em [OF af]
      by (auto split: if_splits)
    then have "unat af \<in> {510, 511}"
      using 5 wl [OF af] by simp
    then show ?case
      using 5 unfolding P_def aws_iot_mqtt_internal_decode_packet_remaining_len_def by auto
  next
    case (6 a b aa ab ba ac bb ad ae bc af bd ag ah be ai aj bf)
    then have k: "keeps s bd" by (simp add: k2)
    then have "readBuf (cdata bf) \<noteq> []"
      using 6 k3 [OF k] by simp
    then show ?case
      using 6 by (simp add: mem_get_def)
  qed
  then show ?thesis
    unfolding P_def .
qed





subsection \<open>Dispatch\<close>

lemma c_strneq_nonzero:
  "0 \<notin> set b \<Longrightarrow> length a = length b \<Longrightarrow> c_strneq (a @ r) (b @ r') (length a) = Some (a = b)"
proof (induction a arbitrary: b)
  case (Cons x a)
  then show ?case by (cases b) auto
qed simp

lemma topic_matches_same: "wf_filter fs \<Longrightarrow> topic_matches fs fs"
  by (induction fs) (auto split: if_splits)

lemma join_levels_inject:
  assumes "join_levels fs = join_levels ns" and "fs \<noteq> []" and "ns \<noteq> []"
    and "\<forall>f \<in> set fs. 47 \<notin> set f" and "\<forall>n \<in> set ns. 47 \<notin> set n"
  shows "fs = ns"
  using assms
proof (induction fs arbitrary: ns)
  case (Cons f fs)
  obtain n ns' where ns: "ns = n # ns'" using Cons.prems by (cases ns) auto
  let ?F = "if fs = [] then [] else 47 # join_levels fs"
  let ?N = "if ns' = [] then [] else 47 # join_levels ns'"
  have eq: "f @ ?F = n @ ?N"
    using Cons.prems(1) ns by (cases fs; cases ns') auto
  have hd: "takeWhile (\<lambda>c. c \<noteq> 47) (f @ ?F) = f" "takeWhile (\<lambda>c. c \<noteq> 47) (n @ ?N) = n"
    using Cons.prems(4,5) ns by (auto simp: takeWhile_append)
  have fn: "f = n"
    using arg_cong [OF eq, of "takeWhile (\<lambda>c. c \<noteq> 47)"] unfolding hd .
  then have "?F = ?N"
    using eq by simp
  then show ?case
    using Cons.IH [of ns'] Cons.prems(4,5) fn ns by (auto split: if_splits)
qed simp

definition registered :: "MessageHandlers \<Rightarrow> u8 list list \<Rightarrow> bool" where
  "registered h fs \<longleftrightarrow> mh_topicName h = Some (join_levels fs @ [0]) \<and>
     unat (mh_topicNameLen h) = length (join_levels fs) \<and> wf_filter fs \<and> fs \<noteq> []"

lemma wf_filter_no_slash: "wf_filter fs \<Longrightarrow> \<forall>f \<in> set fs. 47 \<notin> set f"
  by (induction fs) (auto split: if_splits)

lemma handler_matches_registered:
  assumes "registered h fs" and "ns \<noteq> []" and "\<forall>n \<in> set ns. 47 \<notin> set n"
    and "unat len = length (join_levels ns)"
  shows "handler_matches h (join_levels ns @ r) len = Some (topic_matches fs ns)"
proof -
  have f: "mh_topicName h = Some (join_levels fs @ [0])" "unat (mh_topicNameLen h) = length (join_levels fs)"
    "wf_filter fs" "fs \<noteq> []"
    using assms(1) by (auto simp: registered_def)
  have m: "is_topic_matched (Some (join_levels fs @ [0])) (Some (join_levels ns @ r)) len =
      Some (if topic_matches fs ns then 1 else 0)"
    using is_topic_matched_chars [OF wf_filter_no_nul [OF f(3)] assms(4), of "[]" r]
      chars_match_levels [OF f(3) assms(3) f(4) assms(2)] by simp
  have same: "topic_matches fs ns" if "join_levels ns = join_levels fs"
    using join_levels_inject [OF that assms(2) f(4) assms(3) wf_filter_no_slash [OF f(3)]]
      topic_matches_same [OF f(3)] by simp
  have eq: "c_strneq (join_levels ns @ r) (join_levels fs @ [0]) (unat len) = Some (join_levels ns = join_levels fs)"
    if "len = mh_topicNameLen h"
    using c_strneq_nonzero [OF wf_filter_no_nul [OF f(3)], of "join_levels ns" r "[0]"] that f(2) assms(4) by simp
  show ?thesis
    using f m same eq by (auto simp: handler_matches_def)
qed

text \<open>A slot of the handler table and the topic filter in it, if any.\<close>

definition slot_filter :: "MessageHandlers \<Rightarrow> u8 list list option \<Rightarrow> bool" where
  "slot_filter h flt \<longleftrightarrow> (case flt of None \<Rightarrow> mh_topicName h = None | Some fs \<Rightarrow> registered h fs)"

definition calls :: "MessageHandlers \<Rightarrow> u8 list list option \<Rightarrow> u8 list list \<Rightarrow> (handler \<times> addr option) list" where
  "calls h flt ns =
     (case (flt, mh_pApplicationHandler h) of
        (Some fs, Some f) \<Rightarrow> if topic_matches fs ns then [(f, mh_pApplicationHandlerData h)] else []
      | _ \<Rightarrow> [])"

lemma deliver_loop_dispatch:
  assumes "\<And>h t l m d s. app E h t l m d s = ret (m, s\<lparr>wd := wd s @ [(h, d)]\<rparr>)"
    and "drop topic (readBuf (cdata s)) = join_levels ns @ r" and "ns \<noteq> []" and "\<forall>n \<in> set ns. 47 \<notin> set n"
    and "unat len = length (join_levels ns)"
    and "\<forall>i \<in> set itrs. i < length (messageHandlers (cdata s)) \<and> i < length filters \<and>
      slot_filter (messageHandlers (cdata s) ! i) (filters ! i)"
  shows "deliver_loop E topic len itrs msg s = ret (msg, s\<lparr>wd := wd s @
    concat (map (\<lambda>i. calls (messageHandlers (cdata s) ! i) (filters ! i) ns) itrs)\<rparr>)"
  using assms(2,6)
proof (induction itrs arbitrary: s)
  case (Cons i itrs)
  let ?h = "messageHandlers (cdata s) ! i"
  have i: "i < length (messageHandlers (cdata s))"
    using Cons.prems(2) by simp
  have m: "handler_matches ?h (join_levels ns @ r) len =
      Some (case filters ! i of None \<Rightarrow> False | Some fs \<Rightarrow> topic_matches fs ns)"
    using Cons.prems(2) handler_matches_registered [OF _ assms(3-5)]
    by (cases "filters ! i") (auto simp: handler_matches_def slot_filter_def)
  let ?s1 = "s\<lparr>wd := wd s @ calls ?h (filters ! i) ns\<rparr>"
  have step: "deliver_loop E topic len (i # itrs) msg s = deliver_loop E topic len itrs msg ?s1"
    using i m Cons.prems(1) assms(1)
    by (auto simp: arr_get_def calls_def split: option.splits)
  have "deliver_loop E topic len itrs msg ?s1 = ret (msg, ?s1\<lparr>wd := wd ?s1 @
      concat (map (\<lambda>i. calls (messageHandlers (cdata ?s1) ! i) (filters ! i) ns) itrs)\<rparr>)"
    using Cons.prems by (intro Cons.IH) auto
  then show ?case
    unfolding step by simp
qed simp

text \<open>
  C3: messages reach the right callbacks.  With the registered topic filters given by their
  levels (or a free slot), and callbacks that record their invocation, delivering a message
  calls exactly the callbacks of the handlers whose filter matches the topic level by level,
  once each, in the order of the handler table, with the argument registered for them; the
  client state and everything else of the client is as before, and the result is \<open>SUCCESS\<close>.
\<close>

theorem deliver_message_dispatch:
  assumes "\<And>h t l m d s. app E h t l m d s = ret (m, s\<lparr>wd := wd s @ [(h, d)]\<rparr>)"
    and "drop topic (readBuf (cdata s)) = join_levels ns @ r" and "ns \<noteq> []" and "\<forall>n \<in> set ns. 47 \<notin> set n"
    and "unat len = length (join_levels ns)"
    and "length (messageHandlers (cdata s)) = 5" and "list_all2 slot_filter (messageHandlers (cdata s)) filters"
  shows "aws_iot_mqtt_internal_deliver_message E (Some topic) len msg s =
    ret (SUCCESS, msg, s\<lparr>wd := wd s @
      concat (map2 (\<lambda>h flt. calls h flt ns) (messageHandlers (cdata s)) filters)\<rparr>)"
proof -
  have len: "length filters = 5"
    using assms(6,7) list_all2_lengthD by fastforce
  have zip: "map (\<lambda>i. calls (messageHandlers (cdata s) ! i) (filters ! i) ns) [0..<5] =
      map2 (\<lambda>h flt. calls h flt ns) (messageHandlers (cdata s)) filters"
    using assms(6) len by (intro nth_equalityI) auto
  let ?s = "set_clientState CLIENT_STATE_CONNECTED_WAIT_FOR_CB_RETURN s"
  have "deliver_loop E topic len [0..<5] msg ?s = ret (msg, ?s\<lparr>wd := wd ?s @
      concat (map (\<lambda>i. calls (messageHandlers (cdata ?s) ! i) (filters ! i) ns) [0..<5])\<rparr>)"
    using assms len by (intro deliver_loop_dispatch) (auto simp: list_all2_conv_all_nth)
  moreover have "set_clientState (clientState s) (?s\<lparr>wd := w\<rparr>) = s\<lparr>wd := w\<rparr>" for w
    by (simp add: upd_status_def)
  ultimately show ?thesis
    by (simp add: aws_iot_mqtt_internal_deliver_message_def AWS_IOT_MQTT_NUM_SUBSCRIBE_HANDLERS_def Let_def zip)
qed


text \<open>Callbacks that record their invocation, and a table with two matching handlers of three.\<close>

definition log_env :: "(handler \<times> addr option) list env" where
  "log_env =
     \<lparr> gtod = still_clock,
       net = \<lparr> net_connect = (\<lambda>p n w. ret (SUCCESS, n, w)), net_read = (\<lambda>n t w. ret (FAILURE, [], None, w)),
               net_write = (\<lambda>b off n t w. ret (FAILURE, 0, w)), net_disconnect = (\<lambda>w. ret (SUCCESS, w)),
               net_isConnected = None, net_destroy = (\<lambda>w. ret (SUCCESS, w)) \<rparr>,
       app = (\<lambda>h topic len msg data s. ret (msg, s\<lparr>wd := wd s @ [(h, data)]\<rparr>)),
       disc = (\<lambda>h data s. ret s) \<rparr>"

definition slot_for :: "u8 list list \<Rightarrow> handler \<Rightarrow> addr option \<Rightarrow> MessageHandlers" where
  "slot_for fs h d = \<lparr> mh_topicName = Some (join_levels fs @ [0]), mh_topicNameLen = of_nat (length (join_levels fs)),
     mh_qos = 0, mh_pApplicationHandler = Some h, mh_pApplicationHandlerData = d \<rparr>"

definition free_slot :: MessageHandlers where
  "free_slot = \<lparr> mh_topicName = None, mh_topicNameLen = 0, mh_qos = 0,
     mh_pApplicationHandler = None, mh_pApplicationHandlerData = None \<rparr>"

definition log_client :: "(handler \<times> addr option) list st" where
  "log_client = upd_data (\<lambda>d. d\<lparr>readBuf := [0x30, 5, 0, 3, 97, 47, 98] @ replicate 505 0,
     messageHandlers := [slot_for [[97], [98]] 7 None, free_slot, slot_for [[99]] 9 None,
       slot_for [[97], [43]] 8 (Some 1), free_slot]\<rparr>) \<lparr>cl = sample_client, wd = []\<rparr>"

theorem deliver_message_dispatch_witness:
  "aws_iot_mqtt_internal_deliver_message log_env (Some 4) 3
     \<lparr> pf_dup = 0, pf_qos = 0, pf_retained = 0, pf_packetId = None, pf_topicName = 4, pf_topicNameLen = 3,
       pf_payload = 7, pf_payloadLen = 0 \<rparr> log_client =
   ret (SUCCESS, \<lparr> pf_dup = 0, pf_qos = 0, pf_retained = 0, pf_packetId = None, pf_topicName = 4, pf_topicNameLen = 3,
       pf_payload = 7, pf_payloadLen = 0 \<rparr>, log_client\<lparr>wd := [(7, None), (8, Some 1)]\<rparr>)"
proof -
  let ?f = "[Some [[97], [98]], None, Some [[99]], Some [[97], [43]], None] :: u8 list list option list"
  have slots: "list_all2 slot_filter (messageHandlers (cdata log_client)) ?f"
    by (simp add: log_client_def slot_filter_def registered_def slot_for_def free_slot_def)
  have "drop 4 (readBuf (cdata log_client)) = join_levels [[97], [98]] @ replicate 505 0"
    by (simp add: log_client_def)
  from deliver_message_dispatch [of log_env 4 log_client "[[97], [98]]" "replicate 505 0" 3 ?f, OF _ this _ _ _ _ slots]
  show ?thesis
    by (simp add: log_env_def calls_def log_client_def slot_for_def free_slot_def)
qed


subsection \<open>Sending\<close>

lemma timer_expired_client: "timer_expired E t s = (e, s') \<Longrightarrow> cl s' = cl s"
  by (auto simp: timer_expired_def split_beta)

lemma send_loop_full: "send_loop E len t len s = ret (len, s)"
  by (subst send_loop.simps) simp

text \<open>
  Sending a packet.  When the network writes all it is asked for or reports an error,
  \<open>aws_iot_mqtt_internal_send_packet\<close> refuses a packet that does not fit and sends nothing of
  it, sends nothing when the timer is over, and otherwise hands the first \<open>length\<close> bytes of the
  transmit buffer to the network in one write; it reports \<open>SUCCESS\<close> exactly when this write
  succeeds, and changes nothing of the client in any case.
\<close>

theorem send_packet_outcome:
  assumes "\<And>k w. net_write (net E) (writeBuf (cdata s)) 0 len t (wd (snd (timer_expired E t s))) =
    ret (SUCCESS, k, w) \<Longrightarrow> k = len"
  shows "aws_iot_mqtt_internal_send_packet E len t s =
    (if len \<ge> writeBufSize (cdata s) then ret (MQTT_TX_BUFFER_TOO_SHORT_ERROR, s)
     else if len = 0 then ret (SUCCESS, s)
     else case timer_expired E t s of (expired, s1) \<Rightarrow>
       if expired then ret (FAILURE, s1)
       else bnd (net_write (net E) (writeBuf (cdata s)) 0 len t (wd s1)) (\<lambda>(rc, k, w).
         ret (if rc = SUCCESS then SUCCESS else FAILURE, s1\<lparr>wd := w\<rparr>)))"
proof -
  obtain e s1 where t: "timer_expired E t s = (e, s1)" by fastforce
  have c: "cdata s1 = cdata s"
    using timer_expired_client [OF t] by simp
  let ?w = "net_write (net E) (writeBuf (cdata s)) 0 len t (wd s1)"
  have "send_loop E len t 0 s = (if e then ret (0, s1) else bnd ?w (\<lambda>(rc, k, w).
      ret (if rc = SUCCESS then len else 0, s1\<lparr>wd := w\<rparr>)))" if "len \<noteq> 0"
  proof (cases "\<exists>rc k w. ?w = ret (rc, k, w)")
    case True
    then obtain rc k w where w: "?w = ret (rc, k, w)" by blast
    show ?thesis
      using assms [of k w] that t c w
      by (subst send_loop.simps) (auto simp: word_gt_0 send_loop_full)
  next
    case False
    then have "?w = None \<or> ?w = Some Fault"
      by (cases ?w rule: option.exhaust) (auto simp: ret_def, metis prod_cases3 run.exhaust)
    then show ?thesis
      using that t c by (subst send_loop.simps) (auto simp: word_gt_0)
  qed
  moreover have "send_loop E len t 0 s = ret (0, s)" if "len = 0"
    using that by (subst send_loop.simps) simp
  ultimately show ?thesis
    using t by (auto simp: aws_iot_mqtt_internal_send_packet_def bnd_assoc split_beta intro!: arg_cong [of _ _ "bnd _"])
qed

lemma script_send:
  assumes "running t" and "0 < len" and "wf_client s" and "unat len < 512" and "wd s = (rx, tx)"
  shows "aws_iot_mqtt_internal_send_packet script_env len t s =
    ret (SUCCESS, s\<lparr>wd := (rx, tx @ take (unat len) (writeBuf (cdata s)))\<rparr>)"
proof -
  have w: "net_write (net script_env) (writeBuf (cdata s)) 0 len t (wd s) =
      ret (SUCCESS, len, (rx, tx @ take (unat len) (writeBuf (cdata s))))"
    using script_write [OF assms(1,2), of 0 "writeBuf (cdata s)" rx tx] assms(3-5)
    by (simp add: tls_ops_def wf_data_def config_defs)
  have "send_loop script_env len t 0 s = ret (len, s\<lparr>wd := (rx, tx @ take (unat len) (writeBuf (cdata s)))\<rparr>)"
    using w assms(1,2) by (subst send_loop.simps) (simp add: send_loop_full)
  moreover have "\<not> len \<ge> writeBufSize (cdata s)"
    using assms(3,4) by (simp add: wf_data_def config_defs word_le_nat_alt)
  ultimately show ?thesis
    by (simp add: aws_iot_mqtt_internal_send_packet_def)
qed

text \<open>A PINGREQ goes out through the scripted connection.\<close>

theorem send_packet_outcome_witness:
  "aws_iot_mqtt_internal_send_packet script_env 2 (timer_at 1)
     (set_writeBuf (0xC0 # 0 # replicate 510 0) (script_client CLIENT_STATE_CONNECTED_IDLE [])) =
   ret (SUCCESS, (set_writeBuf (0xC0 # 0 # replicate 510 0) (script_client CLIENT_STATE_CONNECTED_IDLE []))
     \<lparr>wd := ([], [0xC0, 0])\<rparr>)"
proof -
  let ?s = "set_writeBuf (0xC0 # 0 # replicate 510 0) (script_client CLIENT_STATE_CONNECTED_IDLE [])"
  have t: "running (timer_at 1)"
    by (simp add: running_def timer_at_def)
  have "iot_tls_write still_clock script_tls (writeBuf (cdata ?s)) 0 2 (timer_at 1) ([], []) =
      ret (SUCCESS, 2, ([], [0xC0, 0]))"
    using script_write [OF t, of 2 0 "writeBuf (cdata ?s)" "[]" "[]"] by (simp add: set_writeBuf_def)
  then show ?thesis
    using t send_packet_outcome [of script_env ?s 2 "timer_at 1"]
    by (simp add: tls_ops_def set_writeBuf_def sample_client_def)
qed

end
