(* ===== verification/Client_Ops.thy ===== *)
theory Client_Ops
  imports Client_IO
begin

text \<open>
  The operations of the client: connecting and disconnecting
  (\<open>src/aws_iot_mqtt_client_connect.c\<close>), publishing (\<open>src/aws_iot_mqtt_client_publish.c\<close>),
  subscribing and resubscribing (\<open>src/aws_iot_mqtt_client_subscribe.c\<close>) and unsubscribing
  (\<open>src/aws_iot_mqtt_client_unsubscribe.c\<close>).  Each public function checks its arguments and the
  state of the client, marks the client busy, runs the internal function and restores the state.

  \<open>grantedQoS[3]\<close> and the packet identifiers read back are local variables that the code does
  not look at again.  \<open>pParams\<close> of a publish is also written (\<open>id\<close>), so it is returned.
\<close>

section \<open>Connecting\<close>

fun aws_iot_mqtt_is_client_state_valid_for_connect :: "ClientState \<Rightarrow> bool" where
  "aws_iot_mqtt_is_client_state_valid_for_connect CLIENT_STATE_INVALID = False"
| "aws_iot_mqtt_is_client_state_valid_for_connect CLIENT_STATE_INITIALIZED = True"
| "aws_iot_mqtt_is_client_state_valid_for_connect CLIENT_STATE_CONNECTING = False"
| "aws_iot_mqtt_is_client_state_valid_for_connect CLIENT_STATE_CONNECTED_IDLE = False"
| "aws_iot_mqtt_is_client_state_valid_for_connect CLIENT_STATE_CONNECTED_YIELD_IN_PROGRESS = False"
| "aws_iot_mqtt_is_client_state_valid_for_connect CLIENT_STATE_CONNECTED_PUBLISH_IN_PROGRESS = False"
| "aws_iot_mqtt_is_client_state_valid_for_connect CLIENT_STATE_CONNECTED_SUBSCRIBE_IN_PROGRESS = False"
| "aws_iot_mqtt_is_client_state_valid_for_connect CLIENT_STATE_CONNECTED_UNSUBSCRIBE_IN_PROGRESS = False"
| "aws_iot_mqtt_is_client_state_valid_for_connect CLIENT_STATE_CONNECTED_RESUBSCRIBE_IN_PROGRESS = False"
| "aws_iot_mqtt_is_client_state_valid_for_connect CLIENT_STATE_CONNECTED_WAIT_FOR_CB_RETURN = False"
| "aws_iot_mqtt_is_client_state_valid_for_connect CLIENT_STATE_DISCONNECTING = False"
| "aws_iot_mqtt_is_client_state_valid_for_connect CLIENT_STATE_DISCONNECTED_ERROR = True"
| "aws_iot_mqtt_is_client_state_valid_for_connect CLIENT_STATE_DISCONNECTED_MANUALLY = True"
| "aws_iot_mqtt_is_client_state_valid_for_connect CLIENT_STATE_PENDING_RECONNECT = True"

definition st_connect :: "'w env \<Rightarrow> 'w st \<Rightarrow> (IoT_Error_t \<times> 'w st) exec" where
  "st_connect E s =
     bnd (net_connect (net E) None (networkStack (cl s)) (wd s)) (\<lambda>(rc, n, w).
     ret (rc, \<lparr>cl = (cl s)\<lparr>networkStack := n\<rparr>, wd = w\<rparr>))"

text \<open>\<open>disconnect\<close> of the network, whose result is ignored, and then \<open>destroy\<close>.\<close>

definition close_network :: "'w env \<Rightarrow> 'w st \<Rightarrow> (IoT_Error_t \<times> 'w st) exec" where
  "close_network E s =
     bnd (net_disconnect (net E) (wd s)) (\<lambda>(rc, w).
     bnd (net_destroy (net E) w) (\<lambda>(rc, w).
     ret (rc, s\<lparr>wd := w\<rparr>)))"

definition aws_iot_mqtt_internal_connect ::
  "'w env \<Rightarrow> IoT_Client_Connect_Params option \<Rightarrow> 'w st \<Rightarrow> (IoT_Error_t \<times> 'w st) exec" where
  "aws_iot_mqtt_internal_connect E pConnectParams s =
     (let (rc, s) = (case pConnectParams of
                       None \<Rightarrow> (SUCCESS, s)
                     | Some p \<Rightarrow> aws_iot_mqtt_set_connect_params TheClient pConnectParams s)
      in if rc \<noteq> SUCCESS then ret (MQTT_CONNECTION_ERROR, s)
      else bnd (st_connect E s) (\<lambda>(rc, s).
      if rc \<noteq> SUCCESS then ret (rc, s)
      else let (connect_timer, s) = start_ms E (commandTimeoutMs (cdata s)) s;
               s = upd_data (\<lambda>d. d\<lparr>keepAliveInterval := keepAliveIntervalInSec (options d)\<rparr>) s
      in bnd (access (aws_iot_mqtt_serialize_connect (writeBuf (cdata s)) (writeBufSize (cdata s)) (options (cdata s)))) (\<lambda>r.
      case r of
        Inl rc \<Rightarrow> ret (rc, s)
      | Inr (buf, len) \<Rightarrow>
          let s = set_writeBuf buf s
          in if len = 0 then ret (SUCCESS, s)
          else bnd (aws_iot_mqtt_internal_send_packet E len connect_timer s) (\<lambda>(rc, s).
          if rc \<noteq> SUCCESS then ret (rc, s)
          else bnd (aws_iot_mqtt_internal_wait_for_read E CONNACK connect_timer s) (\<lambda>(rc, s).
          if rc \<noteq> SUCCESS then ret (rc, s)
          else bnd (access (aws_iot_mqtt_deserialize_connack (readBuf (cdata s)) (readBufSize (cdata s)))) (\<lambda>r.
          case r of
            Inl rc \<Rightarrow> ret (rc, s)
          | Inr (sessionPresent, connack_rc) \<Rightarrow>
              if connack_rc \<noteq> MQTT_CONNACK_CONNECTION_ACCEPTED then ret (connack_rc, s)
              else
                let s = upd_status (\<lambda>t. t\<lparr>cs_isPingOutstanding := False\<rparr>) s;
                    (t, s) = start_sec E (ucast (keepAliveInterval (cdata s))) s
                in ret (SUCCESS, set_pingTimer t s)))))))"

definition aws_iot_mqtt_connect ::
  "'w env \<Rightarrow> clientRef \<Rightarrow> IoT_Client_Connect_Params option \<Rightarrow> 'w st \<Rightarrow> (IoT_Error_t \<times> 'w st) exec" where
  "aws_iot_mqtt_connect E pClient pConnectParams s =
     (if pClient = NullClient then ret (NULL_VALUE_ERROR, s)
      else
        let st = aws_iot_mqtt_get_client_state pClient s
        in if \<not> aws_iot_mqtt_is_client_state_valid_for_connect st then ret (NETWORK_ALREADY_CONNECTED_ERROR, s)
        else
          let (r, s) = aws_iot_mqtt_set_client_state pClient st CLIENT_STATE_CONNECTING s
          in bnd (aws_iot_mqtt_internal_connect E pConnectParams s) (\<lambda>(rc, s).
             if rc \<noteq> SUCCESS then
               bnd (close_network E s) (\<lambda>(disconRc, s).
               let (r, s) = aws_iot_mqtt_set_client_state pClient CLIENT_STATE_CONNECTING CLIENT_STATE_DISCONNECTED_ERROR s
               in ret (rc, s))
             else
               let (r, s) = aws_iot_mqtt_set_client_state pClient CLIENT_STATE_CONNECTING CLIENT_STATE_CONNECTED_IDLE s
               in ret (rc, s)))"

section \<open>Disconnecting\<close>

definition aws_iot_mqtt_internal_disconnect :: "'w env \<Rightarrow> 'w st \<Rightarrow> (IoT_Error_t \<times> 'w st) exec" where
  "aws_iot_mqtt_internal_disconnect E s =
     bnd (access (aws_iot_mqtt_internal_serialize_zero (writeBuf (cdata s)) (writeBufSize (cdata s)) DISCONNECT)) (\<lambda>r.
     case r of
       Inl rc \<Rightarrow> ret (rc, s)
     | Inr (buf, serialized_len) \<Rightarrow>
         let s = set_writeBuf buf s;
             (timer, s) = start_ms E (commandTimeoutMs (cdata s)) s
         in bnd (if serialized_len > 0 then aws_iot_mqtt_internal_send_packet E serialized_len timer s
                 else ret (SUCCESS, s)) (\<lambda>(rc, s).
            if rc \<noteq> SUCCESS then ret (rc, s)
            else bnd (close_network E s) (\<lambda>(rc, s).
              if rc \<noteq> SUCCESS then ret (FAILURE, s) else ret (SUCCESS, s))))"

definition aws_iot_mqtt_disconnect :: "'w env \<Rightarrow> clientRef \<Rightarrow> 'w st \<Rightarrow> (IoT_Error_t \<times> 'w st) exec" where
  "aws_iot_mqtt_disconnect E pClient s =
     (if pClient = NullClient then ret (NULL_VALUE_ERROR, s)
      else
        let st = aws_iot_mqtt_get_client_state pClient s
        in if \<not> aws_iot_mqtt_is_client_connected pClient s then ret (NETWORK_DISCONNECTED_ERROR, s)
        else
          let (rc, s) = aws_iot_mqtt_set_client_state pClient st CLIENT_STATE_DISCONNECTING s
          in if rc \<noteq> SUCCESS then ret (rc, s)
          else bnd (aws_iot_mqtt_internal_disconnect E s) (\<lambda>(rc, s).
            ret (rc, set_clientState (if rc \<noteq> SUCCESS then st else CLIENT_STATE_DISCONNECTED_MANUALLY) s)))"

section \<open>Publishing\<close>

definition aws_iot_mqtt_internal_publish ::
  "'w env \<Rightarrow> cptr \<Rightarrow> u16 \<Rightarrow> IoT_Publish_Message_Params \<Rightarrow> 'w st \<Rightarrow>
   (IoT_Error_t \<times> IoT_Publish_Message_Params \<times> 'w st) exec" where
  "aws_iot_mqtt_internal_publish E pTopicName topicNameLen pParams s =
     (let (timer, s) = start_ms E (commandTimeoutMs (cdata s)) s;
          (pParams, s) = (if pm_qos pParams = QOS1 then
                            let (i, s) = aws_iot_mqtt_get_next_packet_id s in (pParams\<lparr>pm_id := i\<rparr>, s)
                          else (pParams, s))
      in bnd (access (aws_iot_mqtt_internal_serialize_publish (writeBuf (cdata s)) (writeBufSize (cdata s)) 0
              (pm_qos pParams) (pm_isRetained pParams) (pm_id pParams) pTopicName topicNameLen
              (pm_payload pParams) (pm_payloadLen pParams))) (\<lambda>r.
         case r of
           Inl rc \<Rightarrow> ret (rc, pParams, s)
         | Inr (buf, len) \<Rightarrow>
             bnd (aws_iot_mqtt_internal_send_packet E (ucast len) timer (set_writeBuf buf s)) (\<lambda>(rc, s).
             if rc \<noteq> SUCCESS then ret (rc, pParams, s)
             else if pm_qos pParams = QOS1 then
               bnd (aws_iot_mqtt_internal_wait_for_read E PUBACK timer s) (\<lambda>(rc, s).
               if rc \<noteq> SUCCESS then ret (rc, pParams, s)
               else bnd (access (aws_iot_mqtt_internal_deserialize_ack (readBuf (cdata s)) (readBufSize (cdata s)))) (\<lambda>r.
               case r of
                 Inl rc \<Rightarrow> ret (rc, pParams, s)
               | Inr (type, dup, packet_id) \<Rightarrow> ret (SUCCESS, pParams, s)))
             else ret (SUCCESS, pParams, s))))"

definition aws_iot_mqtt_publish ::
  "'w env \<Rightarrow> clientRef \<Rightarrow> cptr \<Rightarrow> u16 \<Rightarrow> IoT_Publish_Message_Params option \<Rightarrow> 'w st \<Rightarrow>
   (IoT_Error_t \<times> IoT_Publish_Message_Params option \<times> 'w st) exec" where
  "aws_iot_mqtt_publish E pClient pTopicName topicNameLen pParams s =
     (case pParams of
        None \<Rightarrow> ret (NULL_VALUE_ERROR, pParams, s)
      | Some params \<Rightarrow>
        if pClient = NullClient \<or> pTopicName = None \<or> topicNameLen = 0 then ret (NULL_VALUE_ERROR, pParams, s)
        else if \<not> aws_iot_mqtt_is_client_connected pClient s then ret (NETWORK_DISCONNECTED_ERROR, pParams, s)
        else
          let st = aws_iot_mqtt_get_client_state pClient s
          in if st \<noteq> CLIENT_STATE_CONNECTED_IDLE \<and> st \<noteq> CLIENT_STATE_CONNECTED_WAIT_FOR_CB_RETURN
          then ret (MQTT_CLIENT_NOT_IDLE_ERROR, pParams, s)
          else
            let (rc, s) = aws_iot_mqtt_set_client_state pClient st CLIENT_STATE_CONNECTED_PUBLISH_IN_PROGRESS s
            in if rc \<noteq> SUCCESS then ret (rc, pParams, s)
            else bnd (aws_iot_mqtt_internal_publish E pTopicName topicNameLen params s) (\<lambda>(pubRc, params, s).
              let (rc, s) = aws_iot_mqtt_set_client_state pClient CLIENT_STATE_CONNECTED_PUBLISH_IN_PROGRESS st s
              in ret (if pubRc = SUCCESS \<and> rc \<noteq> SUCCESS then rc else pubRc, Some params, s)))"

section \<open>Subscribing\<close>

fun free_index_loop :: "MessageHandlers list \<Rightarrow> nat list \<Rightarrow> nat option" where
  "free_index_loop hs [] = Some AWS_IOT_MQTT_NUM_SUBSCRIBE_HANDLERS"
| "free_index_loop hs (itr # itrs) = do {
     h \<leftarrow> arr_get hs itr;
     if mh_topicName h = None then Some itr else free_index_loop hs itrs }"

definition aws_iot_mqtt_get_free_message_handler_index :: "'w st \<Rightarrow> nat option" where
  "aws_iot_mqtt_get_free_message_handler_index s =
     free_index_loop (messageHandlers (cdata s)) [0..<AWS_IOT_MQTT_NUM_SUBSCRIBE_HANDLERS]"

definition aws_iot_mqtt_internal_subscribe ::
  "'w env \<Rightarrow> cptr \<Rightarrow> u16 \<Rightarrow> QoS \<Rightarrow> handler option \<Rightarrow> addr option \<Rightarrow> 'w st \<Rightarrow> (IoT_Error_t \<times> 'w st) exec" where
  "aws_iot_mqtt_internal_subscribe E pTopicName topicNameLen qos pApplicationHandler pApplicationHandlerData s =
     (let (timer, s) = start_ms E (commandTimeoutMs (cdata s)) s;
          (txPacketId, s) = aws_iot_mqtt_get_next_packet_id s
      in bnd (access (aws_iot_mqtt_serialize_subscribe (writeBuf (cdata s)) (writeBufSize (cdata s)) 0 txPacketId
              [(pTopicName, topicNameLen, qos)])) (\<lambda>r.
         case r of
           Inl rc \<Rightarrow> ret (rc, s)
         | Inr (buf, serializedLen) \<Rightarrow>
             let s = set_writeBuf buf s
             in bnd (access (aws_iot_mqtt_get_free_message_handler_index s)) (\<lambda>indexOfFreeMessageHandler.
             if AWS_IOT_MQTT_NUM_SUBSCRIBE_HANDLERS \<le> indexOfFreeMessageHandler
             then ret (MQTT_MAX_SUBSCRIPTIONS_REACHED_ERROR, s)
             else bnd (aws_iot_mqtt_internal_send_packet E (ucast serializedLen) timer s) (\<lambda>(rc, s).
             if rc \<noteq> SUCCESS then ret (rc, s)
             else bnd (aws_iot_mqtt_internal_wait_for_read E SUBACK timer s) (\<lambda>(rc, s).
             if rc \<noteq> SUCCESS then ret (rc, s)
             else bnd (access (aws_iot_mqtt_deserialize_suback 1 [QOS0, QOS0, QOS0]
                         (readBuf (cdata s)) (readBufSize (cdata s)))) (\<lambda>r.
             case r of
               Inl rc \<Rightarrow> ret (rc, s)
             | Inr (rxPacketId, count, grantedQoS) \<Rightarrow>
                 bnd (access (arr_get (messageHandlers (cdata s)) indexOfFreeMessageHandler)) (\<lambda>h.
                 ret (SUCCESS, upd_data (\<lambda>d. d\<lparr>messageHandlers :=
                   (messageHandlers d)[indexOfFreeMessageHandler :=
                     h\<lparr>mh_topicName := pTopicName, mh_topicNameLen := topicNameLen,
                       mh_pApplicationHandler := pApplicationHandler,
                       mh_pApplicationHandlerData := pApplicationHandlerData, mh_qos := qos\<rparr>]\<rparr>) s))))))))"

definition aws_iot_mqtt_subscribe ::
  "'w env \<Rightarrow> clientRef \<Rightarrow> cptr \<Rightarrow> u16 \<Rightarrow> QoS \<Rightarrow> handler option \<Rightarrow> addr option \<Rightarrow> 'w st \<Rightarrow>
   (IoT_Error_t \<times> 'w st) exec" where
  "aws_iot_mqtt_subscribe E pClient pTopicName topicNameLen qos pApplicationHandler pApplicationHandlerData s =
     (if pClient = NullClient \<or> pTopicName = None \<or> pApplicationHandler = None then ret (NULL_VALUE_ERROR, s)
      else if \<not> aws_iot_mqtt_is_client_connected pClient s then ret (NETWORK_DISCONNECTED_ERROR, s)
      else
        let st = aws_iot_mqtt_get_client_state pClient s
        in if st \<noteq> CLIENT_STATE_CONNECTED_IDLE \<and> st \<noteq> CLIENT_STATE_CONNECTED_WAIT_FOR_CB_RETURN
        then ret (MQTT_CLIENT_NOT_IDLE_ERROR, s)
        else
          let (rc, s) = aws_iot_mqtt_set_client_state pClient st CLIENT_STATE_CONNECTED_SUBSCRIBE_IN_PROGRESS s
          in if rc \<noteq> SUCCESS then ret (rc, s)
          else bnd (aws_iot_mqtt_internal_subscribe E pTopicName topicNameLen qos
                      pApplicationHandler pApplicationHandlerData s) (\<lambda>(subRc, s).
            let (rc, s) = aws_iot_mqtt_set_client_state pClient CLIENT_STATE_CONNECTED_SUBSCRIBE_IN_PROGRESS st s
            in ret (if subRc = SUCCESS \<and> rc \<noteq> SUCCESS then rc else subRc, s)))"

fun resubscribe_loop :: "'w env \<Rightarrow> nat list \<Rightarrow> 'w st \<Rightarrow> (IoT_Error_t \<times> 'w st) exec" where
  "resubscribe_loop E [] s = ret (SUCCESS, s)"
| "resubscribe_loop E (itr # itrs) s =
     (let (timer, s) = start_ms E (commandTimeoutMs (cdata s)) s;
          (packetId, s) = aws_iot_mqtt_get_next_packet_id s
      in bnd (access (arr_get (messageHandlers (cdata s)) itr)) (\<lambda>h.
         bnd (access (aws_iot_mqtt_serialize_subscribe (writeBuf (cdata s)) (writeBufSize (cdata s)) 0 packetId
              [(mh_topicName h, mh_topicNameLen h, mh_qos h)])) (\<lambda>r.
         case r of
           Inl rc \<Rightarrow> ret (rc, s)
         | Inr (buf, len) \<Rightarrow>
             bnd (aws_iot_mqtt_internal_send_packet E (ucast len) timer (set_writeBuf buf s)) (\<lambda>(rc, s).
             if rc \<noteq> SUCCESS then ret (rc, s)
             else bnd (aws_iot_mqtt_internal_wait_for_read E SUBACK timer s) (\<lambda>(rc, s).
             if rc \<noteq> SUCCESS then ret (rc, s)
             else bnd (access (aws_iot_mqtt_deserialize_suback 1 [QOS0, QOS0, QOS0]
                         (readBuf (cdata s)) (readBufSize (cdata s)))) (\<lambda>r.
             case r of
               Inl rc \<Rightarrow> ret (rc, s)
             | Inr _ \<Rightarrow> resubscribe_loop E itrs s))))))"

definition aws_iot_mqtt_internal_resubscribe :: "'w env \<Rightarrow> 'w st \<Rightarrow> (IoT_Error_t \<times> 'w st) exec" where
  "aws_iot_mqtt_internal_resubscribe E s =
     bnd (access (aws_iot_mqtt_get_free_message_handler_index s)) (\<lambda>existingSubCount.
     resubscribe_loop E [0..<existingSubCount] s)"

definition aws_iot_mqtt_resubscribe :: "'w env \<Rightarrow> clientRef \<Rightarrow> 'w st \<Rightarrow> (IoT_Error_t \<times> 'w st) exec" where
  "aws_iot_mqtt_resubscribe E pClient s =
     (if pClient = NullClient then ret (NULL_VALUE_ERROR, s)
      else if \<not> aws_iot_mqtt_is_client_connected pClient s then ret (NETWORK_DISCONNECTED_ERROR, s)
      else if aws_iot_mqtt_get_client_state pClient s \<noteq> CLIENT_STATE_CONNECTED_IDLE
      then ret (MQTT_CLIENT_NOT_IDLE_ERROR, s)
      else
        let (rc, s) = aws_iot_mqtt_set_client_state pClient CLIENT_STATE_CONNECTED_IDLE
              CLIENT_STATE_CONNECTED_RESUBSCRIBE_IN_PROGRESS s
        in if rc \<noteq> SUCCESS then ret (rc, s)
        else bnd (aws_iot_mqtt_internal_resubscribe E s) (\<lambda>(resubRc, s).
          let (rc, s) = aws_iot_mqtt_set_client_state pClient CLIENT_STATE_CONNECTED_RESUBSCRIBE_IN_PROGRESS
                CLIENT_STATE_CONNECTED_IDLE s
          in ret (if resubRc = SUCCESS \<and> rc \<noteq> SUCCESS then rc else resubRc, s)))"

section \<open>Unsubscribing\<close>

text \<open>\<open>strcmp\<close> of a registered filter with the argument; a free slot does not match.\<close>

definition slot_is :: "MessageHandlers \<Rightarrow> mem \<Rightarrow> bool option" where
  "slot_is h pTopicFilter =
     (case mh_topicName h of None \<Rightarrow> Some False | Some t \<Rightarrow> c_streq t pTopicFilter)"

fun exists_loop :: "MessageHandlers list \<Rightarrow> mem \<Rightarrow> nat list \<Rightarrow> bool \<Rightarrow> bool option" where
  "exists_loop hs pTopicFilter [] found = Some found"
| "exists_loop hs pTopicFilter (i # is') found = do {
     h \<leftarrow> arr_get hs i;
     b \<leftarrow> slot_is h pTopicFilter;
     exists_loop hs pTopicFilter is' (if b then True else found) }"

fun remove_loop :: "MessageHandlers list \<Rightarrow> mem \<Rightarrow> nat list \<Rightarrow> MessageHandlers list option" where
  "remove_loop hs pTopicFilter [] = Some hs"
| "remove_loop hs pTopicFilter (i # is') = do {
     h \<leftarrow> arr_get hs i;
     b \<leftarrow> slot_is h pTopicFilter;
     remove_loop (if b then hs[i := h\<lparr>mh_topicName := None\<rparr>] else hs) pTopicFilter is' }"

definition aws_iot_mqtt_internal_unsubscribe ::
  "'w env \<Rightarrow> mem \<Rightarrow> u16 \<Rightarrow> 'w st \<Rightarrow> (IoT_Error_t \<times> 'w st) exec" where
  "aws_iot_mqtt_internal_unsubscribe E pTopicFilter topicFilterLen s =
     bnd (access (exists_loop (messageHandlers (cdata s)) pTopicFilter
            [0..<AWS_IOT_MQTT_NUM_SUBSCRIBE_HANDLERS] False)) (\<lambda>subscriptionExists.
     if \<not> subscriptionExists then ret (FAILURE, s)
     else
       let (timer, s) = start_ms E (commandTimeoutMs (cdata s)) s;
           (packetId, s) = aws_iot_mqtt_get_next_packet_id s
       in bnd (access (aws_iot_mqtt_serialize_unsubscribe (writeBuf (cdata s)) (writeBufSize (cdata s)) 0 packetId
               [(Some pTopicFilter, topicFilterLen)])) (\<lambda>r.
          case r of
            Inl rc \<Rightarrow> ret (rc, s)
          | Inr (buf, serializedLen) \<Rightarrow>
              bnd (aws_iot_mqtt_internal_send_packet E (ucast serializedLen) timer (set_writeBuf buf s)) (\<lambda>(rc, s).
              if rc \<noteq> SUCCESS then ret (rc, s)
              else bnd (aws_iot_mqtt_internal_wait_for_read E UNSUBACK timer s) (\<lambda>(rc, s).
              if rc \<noteq> SUCCESS then ret (rc, s)
              else bnd (access (aws_iot_mqtt_deserialize_unsuback (readBuf (cdata s)) (readBufSize (cdata s)))) (\<lambda>r.
              case r of
                Inl rc \<Rightarrow> ret (rc, s)
              | Inr packet_id \<Rightarrow>
                  bnd (access (remove_loop (messageHandlers (cdata s)) pTopicFilter
                         [0..<AWS_IOT_MQTT_NUM_SUBSCRIBE_HANDLERS])) (\<lambda>hs.
                  ret (SUCCESS, upd_data (\<lambda>d. d\<lparr>messageHandlers := hs\<rparr>) s)))))))"

definition aws_iot_mqtt_unsubscribe ::
  "'w env \<Rightarrow> clientRef \<Rightarrow> cptr \<Rightarrow> u16 \<Rightarrow> 'w st \<Rightarrow> (IoT_Error_t \<times> 'w st) exec" where
  "aws_iot_mqtt_unsubscribe E pClient pTopicFilter topicFilterLen s =
     (case pTopicFilter of
        None \<Rightarrow> ret (NULL_VALUE_ERROR, s)
      | Some topic \<Rightarrow>
        if pClient = NullClient then ret (NULL_VALUE_ERROR, s)
        else if \<not> aws_iot_mqtt_is_client_connected pClient s then ret (NETWORK_DISCONNECTED_ERROR, s)
        else
          let st = aws_iot_mqtt_get_client_state pClient s
          in if st \<noteq> CLIENT_STATE_CONNECTED_IDLE \<and> st \<noteq> CLIENT_STATE_CONNECTED_WAIT_FOR_CB_RETURN
          then ret (MQTT_CLIENT_NOT_IDLE_ERROR, s)
          else
            let (rc, s) = aws_iot_mqtt_set_client_state pClient st CLIENT_STATE_CONNECTED_UNSUBSCRIBE_IN_PROGRESS s
            in if rc \<noteq> SUCCESS then
                 let (rc, s) = aws_iot_mqtt_set_client_state pClient CLIENT_STATE_CONNECTED_UNSUBSCRIBE_IN_PROGRESS st s
                 in ret (rc, s)
            else bnd (aws_iot_mqtt_internal_unsubscribe E topic topicFilterLen s) (\<lambda>(unsubRc, s).
              let (rc, s) = aws_iot_mqtt_set_client_state pClient CLIENT_STATE_CONNECTED_UNSUBSCRIBE_IN_PROGRESS st s
              in ret (if unsubRc = SUCCESS \<and> rc \<noteq> SUCCESS then rc else unsubRc, s)))"

section \<open>Reconnecting\<close>

definition aws_iot_mqtt_attempt_reconnect :: "'w env \<Rightarrow> clientRef \<Rightarrow> 'w st \<Rightarrow> (IoT_Error_t \<times> 'w st) exec" where
  "aws_iot_mqtt_attempt_reconnect E pClient s =
     (if pClient = NullClient then ret (NULL_VALUE_ERROR, s)
      else if aws_iot_mqtt_is_client_connected pClient s then ret (NETWORK_ALREADY_CONNECTED_ERROR, s)
      else bnd (aws_iot_mqtt_connect E pClient None s) (\<lambda>(rc, s).
        if aws_iot_mqtt_get_client_state pClient s \<noteq> CLIENT_STATE_CONNECTED_IDLE then
          let (r, s) = aws_iot_mqtt_set_client_state pClient CLIENT_STATE_DISCONNECTED_ERROR CLIENT_STATE_PENDING_RECONNECT s
          in ret (NETWORK_ATTEMPTING_RECONNECT, s)
        else bnd (aws_iot_mqtt_resubscribe E pClient s) (\<lambda>(rc, s).
          if rc \<noteq> SUCCESS then ret (rc, s) else ret (NETWORK_RECONNECTED, s))))"


section \<open>The serialisers keep the size of the transmit buffer\<close>

lemma c_memcpy_length: "c_memcpy buf ptr src n = Some b \<Longrightarrow> length b = length buf"
  by (auto simp: c_memcpy_def dest!: mem_write_length split: bind_split_asm)

lemma write_utf8_length:
  assumes "aws_iot_mqtt_internal_write_utf8_string buf ptr str n = Some (b, p)"
  shows "length b = length buf"
  using assms
  by (auto simp: aws_iot_mqtt_internal_write_utf8_string_def
      dest!: emit_length c_memcpy_length split: bind_split_asm if_splits)

lemma put_len_length: "put_len buf ptr n = Some (b, p) \<Longrightarrow> length b = length buf"
  by (auto simp: put_len_emit dest: emit_length)

lemmas writer_lengths = write_utf8_length put_len_length c_memcpy_length emit_length

lemma subscribe_write_topics_length:
  "subscribe_write_topics buf ptr ts = Some (b, p) \<Longrightarrow> length b = length buf"
proof (induction ts arbitrary: buf ptr)
  case (Cons t ts)
  from Cons.prems show ?case
    by (cases t) (auto dest!: writer_lengths Cons.IH split: bind_split_asm)
qed simp

lemma unsubscribe_write_topics_length:
  "unsubscribe_write_topics buf ptr ts = Some (b, p) \<Longrightarrow> length b = length buf"
proof (induction ts arbitrary: buf ptr)
  case (Cons t ts)
  from Cons.prems show ?case
    by (cases t) (auto dest!: writer_lengths Cons.IH split: bind_split_asm)
qed simp

lemma serialize_subscribe_length:
  "aws_iot_mqtt_serialize_subscribe buf n dup i ts = Some (Inr (b, len)) \<Longrightarrow> length b = length buf"
  by (auto simp: aws_iot_mqtt_serialize_subscribe_def Let_def
      dest!: writer_lengths subscribe_write_topics_length split: if_splits sum.splits bind_split_asm)

lemma serialize_unsubscribe_length:
  "aws_iot_mqtt_serialize_unsubscribe buf n dup i ts = Some (Inr (b, len)) \<Longrightarrow> length b = length buf"
  by (auto simp: aws_iot_mqtt_serialize_unsubscribe_def Let_def
      dest!: writer_lengths unsubscribe_write_topics_length split: if_splits sum.splits bind_split_asm)

lemma serialize_zero_length:
  "aws_iot_mqtt_internal_serialize_zero buf n mt = Some (Inr (b, len)) \<Longrightarrow> length b = length buf"
  by (auto simp: aws_iot_mqtt_internal_serialize_zero_def dest!: writer_lengths
      split: if_splits sum.splits bind_split_asm)

lemma serialize_publish_length:
  "aws_iot_mqtt_internal_serialize_publish buf n dup qos r i t tlen p pl = Some (Inr (b, len)) \<Longrightarrow> length b = length buf"
  by (auto simp: aws_iot_mqtt_internal_serialize_publish_def Let_def
      dest!: writer_lengths split: if_splits sum.splits bind_split_asm)

lemma serialize_connect_length:
  "aws_iot_mqtt_serialize_connect buf n p = Some (Inr (b, len)) \<Longrightarrow> length b = length buf"
  by (auto simp: aws_iot_mqtt_serialize_connect_def Let_def
      dest!: writer_lengths split: if_splits sum.splits bind_split_asm)

lemmas serialiser_lengths =
  serialize_connect_length serialize_publish_length serialize_subscribe_length
  serialize_unsubscribe_length serialize_zero_length

section \<open>The operations keep the client\<close>

lemma st_connect_keeps [keepsD]: "st_connect E s = ret (rc, s') \<Longrightarrow> keeps s s'"
  by (auto simp: st_connect_def bnd_eq_ret keeps_def)

lemma close_network_keeps [keepsD]: "close_network E s = ret (rc, s') \<Longrightarrow> keeps s s'"
  by (auto simp: close_network_def bnd_eq_ret)

lemma close_network_client: "close_network E s = ret (rc, s') \<Longrightarrow> cl s' = cl s"
  by (auto simp: close_network_def bnd_eq_ret)

lemma set_writeBuf_simps [simp]:
  "clientStatus (cl (set_writeBuf buf s)) = clientStatus (cl s)" "wd (set_writeBuf buf s) = wd s"
  "cdata (set_writeBuf buf s) = (cdata s)\<lparr>writeBuf := buf\<rparr>"
  by (simp_all add: set_writeBuf_def)

lemma internal_connect_keeps:
  assumes "callbacks_ok E" and "aws_iot_mqtt_internal_connect E p s = ret (rc, s')"
  shows "keeps s s'"
proof -
  have "valid (aws_iot_mqtt_internal_connect E p s) (\<lambda>(rc, s'). keeps s s')"
    unfolding aws_iot_mqtt_internal_connect_def
    by (intro wp) (auto simp: keeps_def wf_data_def dest!: keepsD wait_for_read_keeps [OF assms(1)] serialiser_lengths
      split: option.splits)
  from validD [OF this assms(2)] show ?thesis by simp
qed

lemma internal_disconnect_keeps:
  assumes "aws_iot_mqtt_internal_disconnect E s = ret (rc, s')"
  shows "keeps s s'"
proof -
  have "valid (aws_iot_mqtt_internal_disconnect E s) (\<lambda>(rc, s'). keeps s s')"
    unfolding aws_iot_mqtt_internal_disconnect_def
    by (intro wp) (auto simp: keeps_def wf_data_def dest!: keepsD serialiser_lengths split: if_splits)
  from validD [OF this assms] show ?thesis by simp
qed

lemma internal_publish_keeps:
  assumes "callbacks_ok E" and "aws_iot_mqtt_internal_publish E t n p s = ret (rc, p', s')"
  shows "keeps s s'"
proof -
  have "valid (aws_iot_mqtt_internal_publish E t n p s) (\<lambda>(rc, p', s'). keeps s s')"
    unfolding aws_iot_mqtt_internal_publish_def
    by (intro wp) (auto simp: keeps_def wf_data_def
        dest!: keepsD next_packet_id_keeps wait_for_read_keeps [OF assms(1)] serialiser_lengths split: if_splits prod.splits)
  from validD [OF this assms(2)] show ?thesis by simp
qed

lemma internal_subscribe_keeps:
  assumes "callbacks_ok E" and "aws_iot_mqtt_internal_subscribe E t n q h d s = ret (rc, s')"
  shows "keeps s s'"
proof -
  have "valid (aws_iot_mqtt_internal_subscribe E t n q h d s) (\<lambda>(rc, s'). keeps s s')"
    unfolding aws_iot_mqtt_internal_subscribe_def
    by (intro wp) (auto simp: keeps_def wf_data_def
        dest!: keepsD next_packet_id_keeps wait_for_read_keeps [OF assms(1)] serialiser_lengths)
  from validD [OF this assms(2)] show ?thesis by simp
qed

lemma resubscribe_loop_keeps:
  assumes "callbacks_ok E"
  shows "valid (resubscribe_loop E itrs s) (\<lambda>(rc, s'). keeps s s')"
proof (induction itrs arbitrary: s)
  case (Cons itr itrs)
  show ?case
    unfolding resubscribe_loop.simps
    by (intro wp) (auto simp: keeps_def wf_data_def
        dest!: keepsD next_packet_id_keeps wait_for_read_keeps [OF assms] serialiser_lengths
        intro!: valid_mono [OF Cons])
qed simp

lemma remove_loop_length:
  "remove_loop hs f is' = Some hs' \<Longrightarrow> length hs' = length hs"
proof (induction is' arbitrary: hs)
  case (Cons i is')
  then show ?case by (auto split: bind_split_asm if_splits)
qed simp

lemma internal_unsubscribe_keeps:
  assumes "callbacks_ok E" and "aws_iot_mqtt_internal_unsubscribe E t n s = ret (rc, s')"
  shows "keeps s s'"
proof -
  have "valid (aws_iot_mqtt_internal_unsubscribe E t n s) (\<lambda>(rc, s'). keeps s s')"
    unfolding aws_iot_mqtt_internal_unsubscribe_def
    by (intro wp) (auto simp: keeps_def wf_data_def
        dest!: keepsD next_packet_id_keeps wait_for_read_keeps [OF assms(1)] serialiser_lengths remove_loop_length)
  from validD [OF this assms(2)] show ?thesis by simp
qed


section \<open>The contract of the operations\<close>

text \<open>
  The operations that use the connection share a contract: outside the states in which they may
  be used they change nothing and do not succeed, and otherwise they hand the client back in the
  state in which they found it.
\<close>

locale client_op =
  fixes op :: "'w env \<Rightarrow> 'w st \<Rightarrow> (IoT_Error_t \<times> 'w st) exec"
    and states :: "ClientState set"
  assumes refuse: "clientState s \<notin> states \<Longrightarrow> op E s = ret (rc, s') \<Longrightarrow> rc \<noteq> SUCCESS \<and> s' = s"
    and op_keeps: "callbacks_ok E \<Longrightarrow> op E s = ret (rc, s') \<Longrightarrow> keeps s s'"
begin

lemma success_states: "op E s = ret (SUCCESS, s') \<Longrightarrow> clientState s \<in> states"
  using refuse by blast

lemma restores:
  assumes "callbacks_ok E" and "wf_client s" and "op E s = ret (rc, s')"
  shows "wf_client s' \<and> clientState s' = clientState s \<and>
    (clientState s \<notin> states \<longrightarrow> rc \<noteq> SUCCESS \<and> s' = s)"
  using op_keeps [OF assms(1,3)] refuse [OF _ assms(3)] assms(2) by (auto simp: keeps_def)

lemma then_keeps:
  assumes "callbacks_ok E" and "op E s = ret (rc, s')" and "keeps s0 s"
  shows "keeps s0 s'"
  using op_keeps [OF assms(1,2)] assms(3) by (rule keeps_trans [rotated])

end

lemma keeps_busy:
  assumes "keeps (set_clientState st s) s1"
  shows "keeps s (set_clientState (clientState s) s1)" and "clientState s1 = st"
  using assms by (simp_all add: keeps_def)

definition publish_op where
  "publish_op c t n p E s = bnd (aws_iot_mqtt_publish E c t n p s) (\<lambda>(rc, p, s). ret (rc, s))"

lemma publish_outcome:
  assumes "callbacks_ok E" and "aws_iot_mqtt_publish E c t n p s = ret (rc, p', s')"
  shows "keeps s s'"
proof -
  have "valid (aws_iot_mqtt_publish E c t n p s) (\<lambda>(rc, p', s'). keeps s s')"
    unfolding aws_iot_mqtt_publish_def
    by (cases c) (intro wp, auto simp: keeps_def dest!: internal_publish_keeps [OF assms(1)] split: if_splits)+
  from validD [OF this assms(2)] show ?thesis by simp
qed

interpretation publish: client_op "publish_op c t n p"
    "{CLIENT_STATE_CONNECTED_IDLE, CLIENT_STATE_CONNECTED_WAIT_FOR_CB_RETURN}" for c t n p
proof
  show "rc \<noteq> SUCCESS \<and> s' = s" if "clientState s \<notin> {CLIENT_STATE_CONNECTED_IDLE, CLIENT_STATE_CONNECTED_WAIT_FOR_CB_RETURN}"
    "publish_op c t n p E s = ret (rc, s')" for s :: "'w st" and E rc s'
    using that by (cases c) (auto simp: publish_op_def aws_iot_mqtt_publish_def bnd_eq_ret Let_def split: option.splits if_splits)
  show "keeps s s'" if "callbacks_ok E" "publish_op c t n p E s = ret (rc, s')" for s :: "'w st" and E rc s'
    using that by (auto simp: publish_op_def bnd_eq_ret dest: publish_outcome)
qed


lemma subscribe_keeps:
  assumes "callbacks_ok E" and "aws_iot_mqtt_subscribe E c t n q h d s = ret (rc, s')"
  shows "keeps s s'"
proof -
  have "valid (aws_iot_mqtt_subscribe E c t n q h d s) (\<lambda>(rc, s'). keeps s s')"
    unfolding aws_iot_mqtt_subscribe_def
    by (cases c) (intro wp, auto simp: keeps_def dest!: internal_subscribe_keeps [OF assms(1)] split: if_splits)+
  from validD [OF this assms(2)] show ?thesis by simp
qed

interpretation subscribe: client_op "\<lambda>E s. aws_iot_mqtt_subscribe E c t n q h d s"
    "{CLIENT_STATE_CONNECTED_IDLE, CLIENT_STATE_CONNECTED_WAIT_FOR_CB_RETURN}" for c t n q h d
proof
  show "rc \<noteq> SUCCESS \<and> s' = s" if "clientState s \<notin> {CLIENT_STATE_CONNECTED_IDLE, CLIENT_STATE_CONNECTED_WAIT_FOR_CB_RETURN}"
    "aws_iot_mqtt_subscribe E c t n q h d s = ret (rc, s')" for s :: "'w st" and E rc s'
    using that by (cases c) (auto simp: aws_iot_mqtt_subscribe_def Let_def split: option.splits if_splits)
  show "keeps s s'" if "callbacks_ok E" "aws_iot_mqtt_subscribe E c t n q h d s = ret (rc, s')" for s :: "'w st" and E rc s'
    using that by (rule subscribe_keeps)
qed

lemma unsubscribe_keeps:
  assumes "callbacks_ok E" and "aws_iot_mqtt_unsubscribe E c t n s = ret (rc, s')"
  shows "keeps s s'"
proof -
  have "valid (aws_iot_mqtt_unsubscribe E c t n s) (\<lambda>(rc, s'). keeps s s')"
    unfolding aws_iot_mqtt_unsubscribe_def
    by (cases c) (intro wp, auto simp: keeps_def dest!: internal_unsubscribe_keeps [OF assms(1)] split: if_splits)+
  from validD [OF this assms(2)] show ?thesis by simp
qed

interpretation unsubscribe: client_op "\<lambda>E s. aws_iot_mqtt_unsubscribe E c t n s"
    "{CLIENT_STATE_CONNECTED_IDLE, CLIENT_STATE_CONNECTED_WAIT_FOR_CB_RETURN}" for c t n
proof
  show "rc \<noteq> SUCCESS \<and> s' = s" if "clientState s \<notin> {CLIENT_STATE_CONNECTED_IDLE, CLIENT_STATE_CONNECTED_WAIT_FOR_CB_RETURN}"
    "aws_iot_mqtt_unsubscribe E c t n s = ret (rc, s')" for s :: "'w st" and E rc s'
    using that by (cases c) (auto simp: aws_iot_mqtt_unsubscribe_def Let_def split: option.splits if_splits)
  show "keeps s s'" if "callbacks_ok E" "aws_iot_mqtt_unsubscribe E c t n s = ret (rc, s')" for s :: "'w st" and E rc s'
    using that by (rule unsubscribe_keeps)
qed

lemma internal_resubscribe_keeps:
  assumes "callbacks_ok E" and "aws_iot_mqtt_internal_resubscribe E s = ret (rc, s')"
  shows "keeps s s'"
  using assms(2) by (auto simp: aws_iot_mqtt_internal_resubscribe_def bnd_eq_ret
      dest!: validD [OF resubscribe_loop_keeps [OF assms(1)]])

lemma resubscribe_keeps:
  assumes "callbacks_ok E" and "aws_iot_mqtt_resubscribe E c s = ret (rc, s')"
  shows "keeps s s'"
proof -
  have "valid (aws_iot_mqtt_resubscribe E c s) (\<lambda>(rc, s'). keeps s s')"
    unfolding aws_iot_mqtt_resubscribe_def
    by (cases c) (intro wp, auto simp: keeps_def dest!: internal_resubscribe_keeps [OF assms(1)] split: if_splits)+
  from validD [OF this assms(2)] show ?thesis by simp
qed

interpretation resubscribe: client_op "\<lambda>E s. aws_iot_mqtt_resubscribe E c s"
    "{CLIENT_STATE_CONNECTED_IDLE}" for c
proof
  show "rc \<noteq> SUCCESS \<and> s' = s" if "clientState s \<notin> {CLIENT_STATE_CONNECTED_IDLE}"
    "aws_iot_mqtt_resubscribe E c s = ret (rc, s')" for s :: "'w st" and E rc s'
    using that by (cases c) (auto simp: aws_iot_mqtt_resubscribe_def Let_def split: option.splits if_splits)
  show "keeps s s'" if "callbacks_ok E" "aws_iot_mqtt_resubscribe E c s = ret (rc, s')" for s :: "'w st" and E rc s'
    using that by (rule resubscribe_keeps)
qed

text \<open>A call of one of these operations with its arguments.\<close>

datatype operation =
    Publish cptr u16 "IoT_Publish_Message_Params option"
  | Subscribe cptr u16 QoS "handler option" "addr option"
  | Unsubscribe cptr u16
  | Resubscribe

fun perform :: "'w env \<Rightarrow> clientRef \<Rightarrow> operation \<Rightarrow> 'w st \<Rightarrow> (IoT_Error_t \<times> 'w st) exec" where
  "perform E c (Publish t n p) s = bnd (aws_iot_mqtt_publish E c t n p s) (\<lambda>(rc, p, s). ret (rc, s))"
| "perform E c (Subscribe t n q h d) s = aws_iot_mqtt_subscribe E c t n q h d s"
| "perform E c (Unsubscribe t n) s = aws_iot_mqtt_unsubscribe E c t n s"
| "perform E c Resubscribe s = aws_iot_mqtt_resubscribe E c s"

interpretation perform: client_op "\<lambda>E s. perform E c x s"
    "{CLIENT_STATE_CONNECTED_IDLE, CLIENT_STATE_CONNECTED_WAIT_FOR_CB_RETURN}" for c x
proof
  show "rc \<noteq> SUCCESS \<and> s' = s" if "clientState s \<notin> {CLIENT_STATE_CONNECTED_IDLE, CLIENT_STATE_CONNECTED_WAIT_FOR_CB_RETURN}"
    "perform E c x s = ret (rc, s')" for s :: "'w st" and E rc s'
  proof (cases x)
    case (Publish t n p)
    then show ?thesis
      using that publish.refuse [of s c t n p E] by (simp add: publish_op_def)
  qed (use that subscribe.refuse [OF that(1)] unsubscribe.refuse [OF that(1)] resubscribe.refuse [of s E c rc s'] in auto)
  show "keeps s s'" if "callbacks_ok E" "perform E c x s = ret (rc, s')" for s :: "'w st" and E rc s'
  proof (cases x)
    case (Publish t n p)
    then show ?thesis
      using that publish.op_keeps [of E c t n p s rc s'] by (simp add: publish_op_def)
  qed (use that subscribe.op_keeps unsubscribe.op_keeps resubscribe.op_keeps in auto)
qed

text \<open>
  C20: an operation hands the client back.  With callbacks that do so too, publishing,
  subscribing, unsubscribing and resubscribing keep the invariant of the client and leave it in
  the state in which they found it, whatever the network does and whichever branch they take;
  unless the client is idle or inside a callback they do not succeed and change nothing at all.
\<close>

theorem operations_restore:
  assumes "callbacks_ok E" and "wf_client s" and "perform E c x s = ret (rc, s')"
  shows "wf_client s' \<and> clientState s' = clientState s \<and>
    (clientState s \<notin> {CLIENT_STATE_CONNECTED_IDLE, CLIENT_STATE_CONNECTED_WAIT_FOR_CB_RETURN} \<longrightarrow>
       rc \<noteq> SUCCESS \<and> s' = s)"
  using assms by (rule perform.restores)


section \<open>Connecting and disconnecting\<close>

text \<open>The receive buffer holds a CONNACK that accepts the connection.\<close>

definition accepted :: "mem \<Rightarrow> bool" where
  "accepted buf \<longleftrightarrow>
     (\<exists>h flags rest. buf = mqtt_frame h [flags, 0] @ rest \<and> uint (header_type h) = msgCode CONNACK)"

lemma connack_accepted:
  assumes "buf = mqtt_frame h body @ rest" and "length body < 512" and "n \<ge> 4"
    and "aws_iot_mqtt_deserialize_connack buf n = Some (Inr (sp, MQTT_CONNACK_CONNECTION_ACCEPTED))"
  shows "accepted buf"
proof -
  let ?k = "length (enc_len (length body))"
  have dec: "aws_iot_mqtt_internal_decode_remaining_length_from_buffer buf 1 = Some (Inr (of_nat (length body), ?k))"
    using frame_decode [of body h rest] assms(1,2) by simp
  have len: "unat (of_nat (length body) :: u32) = length body"
    using assms(2) by (simp add: unsigned_of_nat take_bit_nat_eq_self_iff)
  have len': "uint (of_nat (length body) :: u32) = int (length body)"
    using assms(2) by (simp add: unsigned_of_nat take_bit_nat_eq_self_iff flip: of_nat_take_bit)
  have h: "uint (header_type h) = msgCode CONNACK" and two: "length body = 2"
    using assms(4) dec len len' unfolding aws_iot_mqtt_deserialize_connack_def
    by (auto simp: assms(1) mqtt_frame_def aws_iot_mqtt_internal_read_char_def split: if_splits bind_split_asm)
  obtain f c where b: "body = [f, c]"
    using two by (auto simp: length_Suc_conv numeral_2_eq_2)
  have get: "mem_get buf (Suc (Suc ?k)) = Some c" "mem_get buf (Suc ?k) = Some f"
    using b by (simp_all add: assms(1) mqtt_frame_def mem_get_def nth_append)
  have "connack_return_code c = MQTT_CONNACK_CONNECTION_ACCEPTED"
    using assms(3,4) dec len' h two get unfolding aws_iot_mqtt_deserialize_connack_def
    by (auto simp: assms(1) mqtt_frame_def aws_iot_mqtt_internal_read_char_def split: if_splits bind_split_asm)
  then have "c = 0"
    by (auto simp: connack_return_code_def split: if_splits)
  then show ?thesis
    unfolding accepted_def using assms(1) b h by blast
qed


lemma emit_ptr: "emit buf ptr bs = Some (b, p) \<Longrightarrow> length b = length buf \<and> p = ptr + length bs \<and> p \<le> length buf"
  by (auto simp: emit_def mem_write_def split: if_splits)

lemma put_len_ptr: "put_len buf ptr n = Some (b, p) \<Longrightarrow> length b = length buf \<and> ptr \<le> p \<and> p \<le> length buf"
  by (auto simp: put_len_emit dest: emit_ptr)

lemma write_utf8_ptr:
  "aws_iot_mqtt_internal_write_utf8_string buf ptr str n = Some (b, p) \<Longrightarrow>
   length b = length buf \<and> ptr \<le> p \<and> p \<le> length buf"
  by (auto simp: aws_iot_mqtt_internal_write_utf8_string_def c_memcpy_def mem_read_def mem_write_def
      dest!: emit_ptr split: bind_split_asm if_splits)

lemma serialize_connect_pos:
  assumes "aws_iot_mqtt_serialize_connect buf n p = Some (Inr (b, len))" and "length buf = 512"
  shows "len \<noteq> 0"
proof -
  have nz: "(of_nat ptr :: size_t) = 0 \<longleftrightarrow> ptr = 0" if "ptr \<le> 512" for ptr
    using that by (auto simp: word_unat_eq_iff unsigned_of_nat take_bit_eq_mod)
  show ?thesis
    using assms
    by (auto simp: aws_iot_mqtt_serialize_connect_def Let_def nz simp del: of_nat_add
        dest!: emit_ptr put_len_ptr write_utf8_ptr split: if_splits sum.splits bind_split_asm)
qed

lemma start_sec_client: "start_sec E n s = (t, s') \<Longrightarrow> cl s' = cl s"
  by (auto simp: start_sec_def split_beta)

lemma serialize_connect_error: "aws_iot_mqtt_serialize_connect buf n p \<noteq> Some (Inl SUCCESS)"
  by (auto simp: aws_iot_mqtt_serialize_connect_def Let_def aws_iot_mqtt_internal_init_header_def
      split: if_splits sum.splits bind_split_asm)

lemma connack_error:
  "aws_iot_mqtt_deserialize_connack buf n \<noteq> Some (Inl SUCCESS)"
  "aws_iot_mqtt_deserialize_connack buf n \<noteq> Some (Inr (sp, SUCCESS))"
  by (auto simp: aws_iot_mqtt_deserialize_connack_def Let_def connack_return_code_def
      dest!: decode_len_error split: if_splits sum.splits bind_split_asm)

text \<open>What a successful connection went through.\<close>

definition handshake :: "'w env \<Rightarrow> 'w st \<Rightarrow> 'w st \<Rightarrow> bool" where
  "handshake E s s' \<longleftrightarrow>
     (\<exists>s1 t s2 sp. keeps s s1 \<and> aws_iot_mqtt_internal_wait_for_read E CONNACK t s1 = ret (SUCCESS, s2) \<and>
        aws_iot_mqtt_deserialize_connack (readBuf (cdata s2)) (readBufSize (cdata s2)) =
          Some (Inr (sp, MQTT_CONNACK_CONNECTION_ACCEPTED)) \<and>
        cdata s' = cdata s2 \<and> \<not> cs_isPingOutstanding (clientStatus (cl s')))"

lemma handshakeI:
  assumes "aws_iot_mqtt_internal_wait_for_read E CONNACK t s1 = ret (SUCCESS, s2)" and "keeps s s0" and "keeps s0 s1"
    and "aws_iot_mqtt_deserialize_connack (readBuf (cdata s2)) (readBufSize (cdata s2)) =
          Some (Inr (sp, MQTT_CONNACK_CONNECTION_ACCEPTED))"
    and "cdata s' = cdata s2" and "\<not> cs_isPingOutstanding (clientStatus (cl s'))"
  shows "handshake E s s'"
  unfolding handshake_def using assms keeps_trans by blast

lemma handshake_accepted:
  assumes "network (net E)" and "callbacks_ok E" and "wf_client s" and "handshake E s s'"
  shows "accepted (readBuf (cdata s')) \<and> \<not> cs_isPingOutstanding (clientStatus (cl s'))"
proof -
  obtain s1 t s2 sp where k: "keeps s s1" and w: "aws_iot_mqtt_internal_wait_for_read E CONNACK t s1 = ret (SUCCESS, s2)"
    and d: "aws_iot_mqtt_deserialize_connack (readBuf (cdata s2)) (readBufSize (cdata s2)) =
          Some (Inr (sp, MQTT_CONNACK_CONNECTION_ACCEPTED))"
    and e: "cdata s' = cdata s2" "\<not> cs_isPingOutstanding (clientStatus (cl s'))"
    using assms(4) unfolding handshake_def by blast
  have wf: "wf_client s1" using keeps_wf [OF k assms(3)] .
  have "wf_client s2" using keeps_wf [OF wait_for_read_keeps [OF assms(2) w] wf] .
  then have "readBufSize (cdata s2) \<ge> 4"
    by (simp add: wf_data_def config_defs)
  moreover obtain h body rest where "readBuf (cdata s2) = mqtt_frame h body @ rest" "length body < 512"
    using wait_for_read_success [OF assms(1,2) wf _ w] unfolding holds_packet_def by auto
  ultimately have "accepted (readBuf (cdata s2))"
    using connack_accepted d by blast
  then show ?thesis
    using e by simp
qed

lemma internal_connect_handshake:
  assumes "wf_client s"
  shows "valid (aws_iot_mqtt_internal_connect E p s) (\<lambda>(rc, s'). rc = SUCCESS \<longrightarrow> handshake E s s')"
proof -
  have pre: "keeps s (set_writeBuf buf (upd_data (\<lambda>d. d\<lparr>keepAliveInterval := keepAliveIntervalInSec (options d)\<rparr>) s3)) \<and> len \<noteq> 0"
    if "(case p of None \<Rightarrow> (SUCCESS, s) | Some x \<Rightarrow> aws_iot_mqtt_set_connect_params TheClient p s) = (rc, s1)"
      "st_connect E s1 = ret (rc', s2)" "start_ms E n s2 = (t, s3)"
      "aws_iot_mqtt_serialize_connect (writeBuf (cdata s3)) m q = Some (Inr (buf, len))" for rc s1 rc' s2 n t s3 m q buf len
  proof -
    have "keeps s s3"
      using that(1-3) by (auto simp: keeps_def wf_data_def dest!: keepsD split: option.splits)
    then have "wf_client s3" using assms by (simp add: keeps_def)
    then show ?thesis
      using \<open>keeps s s3\<close> serialize_connect_length [OF that(4)] serialize_connect_pos [OF that(4)]
      by (auto simp: keeps_def wf_data_def config_defs)
  qed
  show ?thesis
    unfolding aws_iot_mqtt_internal_connect_def
    by (intro wp) (auto simp: serialize_connect_error connack_error
        dest!: pre send_packet_keeps start_sec_client intro: handshakeI)
qed


lemma connect_result:
  assumes "network (net E)" and "callbacks_ok E" and "wf_client s"
  shows "valid (aws_iot_mqtt_connect E TheClient p s) (\<lambda>(rc, s'). wf_client s' \<and>
    (if \<not> aws_iot_mqtt_is_client_state_valid_for_connect (clientState s)
     then rc = NETWORK_ALREADY_CONNECTED_ERROR \<and> s' = s
     else if rc = SUCCESS
     then clientState s' = CLIENT_STATE_CONNECTED_IDLE \<and> accepted (readBuf (cdata s')) \<and>
          \<not> cs_isPingOutstanding (clientStatus (cl s'))
     else clientState s' = CLIENT_STATE_DISCONNECTED_ERROR))"
proof -
  let ?s = "set_clientState CLIENT_STATE_CONNECTING s"
  have wf: "wf_client ?s" using assms(3) by simp
  have res: "wf_client s1 \<and> clientState s1 = CLIENT_STATE_CONNECTING \<and>
      (rc = SUCCESS \<longrightarrow> accepted (readBuf (cdata s1)) \<and> \<not> cs_isPingOutstanding (clientStatus (cl s1)))"
    if "aws_iot_mqtt_internal_connect E p ?s = ret (rc, s1)" for rc s1
    using validD [OF internal_connect_handshake [OF wf] that] handshake_accepted [OF assms(1,2) wf]
      internal_connect_keeps [OF assms(2) that] wf by (auto simp: keeps_def)
  show ?thesis
    unfolding aws_iot_mqtt_connect_def
    by (intro wp) (auto simp: assms(3) dest!: res close_network_client split: if_splits)
qed

lemma serialize_zero_error: "aws_iot_mqtt_internal_serialize_zero buf n mt \<noteq> Some (Inl SUCCESS)"
  by (cases mt) (auto simp: aws_iot_mqtt_internal_serialize_zero_def aws_iot_mqtt_internal_init_header_def
      split: if_splits sum.splits bind_split_asm)

lemma disconnect_result:
  "valid (aws_iot_mqtt_disconnect E TheClient s) (\<lambda>(rc, s'). (wf_client s \<longrightarrow> wf_client s') \<and>
    (if \<not> state_is_connected (clientState s) then rc = NETWORK_DISCONNECTED_ERROR \<and> s' = s
     else if rc = SUCCESS then clientState s' = CLIENT_STATE_DISCONNECTED_MANUALLY
     else clientState s' = clientState s))"
proof -
  have keeps: "wf_client s \<longrightarrow> wf_client s1"
    if "aws_iot_mqtt_internal_disconnect E (set_clientState CLIENT_STATE_DISCONNECTING s) = ret (rc, s1)" for rc s1
    using internal_disconnect_keeps [OF that] by (auto simp: keeps_def)
  show ?thesis
    unfolding aws_iot_mqtt_disconnect_def
    by (intro wp) (auto dest: keeps split: if_splits)
qed

text \<open>
  C5: connecting.  Over the TLS network, \<open>aws_iot_mqtt_connect\<close> on a valid client refuses to
  connect from the states in which the client is connected, connecting or disconnecting and then
  changes nothing.  Otherwise the client ends in exactly one of two states, and always valid:
  \<open>SUCCESS\<close> means that it is idle, that the server's CONNACK with return code 0 is in the receive
  buffer and that no ping is outstanding; with any other result it is disconnected.
\<close>

theorem connect_outcome:
  assumes "net E = tls_ops (gtod E) m" and "callbacks_ok E" and "wf_client s"
    and "aws_iot_mqtt_connect E TheClient p s = ret (rc, s')"
  shows "wf_client s' \<and>
    (if \<not> aws_iot_mqtt_is_client_state_valid_for_connect (clientState s)
     then rc = NETWORK_ALREADY_CONNECTED_ERROR \<and> s' = s
     else if rc = SUCCESS
     then clientState s' = CLIENT_STATE_CONNECTED_IDLE \<and> \<not> cs_isPingOutstanding (clientStatus (cl s')) \<and>
       (\<exists>h flags rest. readBuf (cdata s') = mqtt_frame h [flags, 0] @ rest \<and> uint (header_type h) = 2)
     else clientState s' = CLIENT_STATE_DISCONNECTED_ERROR)"
proof -
  have "network (net E)"
    using assms(1) by (simp add: tls.network_axioms)
  from validD [OF connect_result [OF this assms(2,3)] assms(4)] show ?thesis
    by (simp add: accepted_def split: if_splits)
qed

lemma script_st_connect:
  assumes "networkStack (cl s) = networkStack sample_client" and "wd s = (rx, tx)"
  shows "st_connect script_env s = ret (SUCCESS, s)"
proof -
  have "handshake_loop script_tls w = ret (SUCCESS, w)" for w
    by (subst handshake_loop.simps) simp
  then show ?thesis
    using assms
    by (simp add: st_connect_def tls_ops_def iot_tls_connect_def sample_client_def script_tls_def tls_setup_contexts_def)
qed

end
