(* ===== verification/Client_Session.thy ===== *)
theory Client_Session
  imports Client_Ops
begin

text \<open>
  Whole conversations of the client over a connection whose incoming bytes are given: connecting,
  publishing, subscribing and unsubscribing send exactly the frame of the request and take their
  result from the reply.
\<close>

section \<open>Conversations over the scripted connection\<close>

text \<open>
  The client against a peer whose bytes are given: what is sent is the frame of the request, and
  the reply decides the result.  \<open>script_after\<close> is the client after it has put \<open>buf\<close> into the
  transmit buffer, sent it and received the packet \<open>r\<close>.
\<close>

definition script_after :: "mem \<Rightarrow> u8 list \<Rightarrow> u8 list \<Rightarrow> u8 list \<Rightarrow> script st \<Rightarrow> script st" where
  "script_after buf r rest tx s =
     upd_data (\<lambda>d. d\<lparr>writeBuf := buf, readBuf := r @ drop (length r) (readBuf d)\<rparr>) (s\<lparr>wd := (rest, tx)\<rparr>)"

lemma script_after_simps [simp]:
  "clientStatus (cl (script_after buf r rest tx s)) = clientStatus (cl s)"
  "networkStack (cl (script_after buf r rest tx s)) = networkStack (cl s)"
  "wd (script_after buf r rest tx s) = (rest, tx)"
  "cdata (script_after buf r rest tx s) =
     (cdata s)\<lparr>writeBuf := buf, readBuf := r @ drop (length r) (readBuf (cdata s))\<rparr>"
  by (simp_all add: script_after_def)

definition script_ready :: "script st \<Rightarrow> bool" where
  "script_ready s \<longleftrightarrow> wf_client s \<and> 1000 \<le> uint (packetTimeoutMs (cdata s)) \<and> 1000 \<le> uint (commandTimeoutMs (cdata s))"

lemma script_start:
  assumes "script_ready s"
  obtains t where "start_ms script_env (commandTimeoutMs (cdata s)) s = (t, s)" and "running t"
  using assms start_ms_running [of "commandTimeoutMs (cdata s)" s] that unfolding script_ready_def by blast

lemma script_exchange:
  fixes s :: "script st"
  assumes "running t" and "script_ready s" and "0 < length f" and "length f < 512"
    and "length buf = 512" and "take (length f) buf = f" and "unat len = length f"
    and "length body < 128" and "wd s = (mqtt_frame h body @ rest, tx)"
    and "mt \<in> {CONNACK, PUBACK, SUBACK, UNSUBACK}" and "uint (header_type h) = msgCode mt"
  shows "aws_iot_mqtt_internal_send_packet script_env len t (set_writeBuf buf s) =
      ret (SUCCESS, (set_writeBuf buf s)\<lparr>wd := (mqtt_frame h body @ rest, tx @ f)\<rparr>)"
    and "aws_iot_mqtt_internal_wait_for_read script_env mt t
        ((set_writeBuf buf s)\<lparr>wd := (mqtt_frame h body @ rest, tx @ f)\<rparr>) =
      ret (SUCCESS, script_after buf (mqtt_frame h body) rest (tx @ f) s)"
proof -
  have wf: "wf_client s" and p: "1000 \<le> uint (packetTimeoutMs (cdata s))"
    using assms(2) by (simp_all add: script_ready_def)
  have wf': "wf_client (set_writeBuf buf s)"
    using wf assms(5) by (simp add: wf_data_def config_defs)
  have "0 < len"
    using assms(3,7) by (simp add: word_less_nat_alt)
  from script_send [OF assms(1) this wf', of "mqtt_frame h body @ rest" tx]
  show "aws_iot_mqtt_internal_send_packet script_env len t (set_writeBuf buf s) =
      ret (SUCCESS, (set_writeBuf buf s)\<lparr>wd := (mqtt_frame h body @ rest, tx @ f)\<rparr>)"
    using assms(4,6,7,9) by simp
  show "aws_iot_mqtt_internal_wait_for_read script_env mt t
        ((set_writeBuf buf s)\<lparr>wd := (mqtt_frame h body @ rest, tx @ f)\<rparr>) =
      ret (SUCCESS, script_after buf (mqtt_frame h body) rest (tx @ f) s)"
    using script_wait_ack [OF assms(1), of "(set_writeBuf buf s)\<lparr>wd := (mqtt_frame h body @ rest, tx @ f)\<rparr>" body h rest "tx @ f" mt]
      wf' p assms(8,10,11)
    by (simp add: script_after_def upd_data_def set_writeBuf_def)
qed

lemma script_ready_after:
  assumes "script_ready s" and "length buf = 512" and "length r \<le> 512"
  shows "script_ready (script_after buf r rest tx s)"
  using assms by (simp add: script_ready_def wf_data_def config_defs)

lemma script_close: "wd s = (rx, tx) \<Longrightarrow> close_network script_env s = ret (SUCCESS, s)"
proof -
  have "close_notify_loop script_tls w = ret w" for w
    by (subst close_notify_loop.simps) (simp add: MBEDTLS_ERR_SSL_WANT_WRITE_def)
  then show ?thesis
    by (simp add: close_network_def tls_ops_def iot_tls_disconnect_def iot_tls_destroy_def script_tls_def)
qed

text \<open>The frame a serialiser stores when it fits.\<close>

lemma serialised_fits:
  fixes r :: "(IoT_Error_t + mem \<times> 'l::len word) option"
  assumes "r = serialised buf n h body" and "length buf = 512" and "n = 512"
    and "length (mqtt_frame h body) + slack body \<le> 512" and "(512 :: nat) < 2 ^ LENGTH('l)"
  shows "\<exists>b len. r = Some (Inr (b, len)) \<and> length b = 512 \<and>
    take (length (mqtt_frame h body)) b = mqtt_frame h body \<and> unat len = length (mqtt_frame h body)"
proof -
  let ?f = "mqtt_frame h body"
  have "length ?f < 2 ^ LENGTH('l)"
    using assms(4,5) by linarith
  then have "unat (of_nat (length ?f) :: 'l word) = length ?f"
    by (simp add: unsigned_of_nat take_bit_nat_eq_self_iff)
  then show ?thesis
    using assms by (simp add: serialised_def framed_def)
qed


subsection \<open>Connecting\<close>

lemma script_st_connect_any:
  assumes "tls_pRootCALocation (tlsConnectParams (networkStack (cl s))) = Some ca" and "0 \<in> set ca" and "wd s = (rx, tx)"
  shows "\<exists>n. st_connect script_env s = ret (SUCCESS, \<lparr>cl = (cl s)\<lparr>networkStack := n\<rparr>, wd = (rx, tx)\<rparr>)"
proof -
  have h: "handshake_loop script_tls w = ret (SUCCESS, w)" for w
    by (subst handshake_loop.simps) simp
  have "\<exists>k. c_strlen ca = Some k"
    using assms(2) by (induction ca) auto
  then obtain k where "c_strlen ca = Some k" ..
  then show ?thesis
    using assms(1,3) h
    by (cases "tls_ServerVerificationFlag (tlsConnectParams (networkStack (cl s)))")
      (auto simp: st_connect_def tls_ops_def iot_tls_connect_def script_tls_def tls_setup_contexts_def Let_def
        intro: exI [of _ "networkStack (cl s)"])
qed

lemma connack_frame:
  assumes "uint (header_type h) = msgCode CONNACK" and "n \<ge> 4"
  shows "aws_iot_mqtt_deserialize_connack (mqtt_frame h [f, c] @ rest) n =
    Some (Inr (flags_sessionpresent f, connack_return_code c))"
proof -
  have "aws_iot_mqtt_internal_decode_remaining_length_from_buffer (mqtt_frame h [f, c] @ rest) 1 = Some (Inr (2, 1))"
    using frame_decode [of "[f, c]" h rest] by (simp add: enc_len.simps)
  moreover have "aws_iot_mqtt_internal_read_char (mqtt_frame h [f, c] @ rest) 2 = Some (f, 3)"
    "aws_iot_mqtt_internal_read_char (mqtt_frame h [f, c] @ rest) 3 = Some (c, 4)"
    by (simp_all add: mqtt_frame_def enc_len.simps mem_get_def aws_iot_mqtt_internal_read_char_def)
  moreover have "\<not> n < 4"
    using assms(2) by simp
  ultimately show ?thesis
    using assms(1) by (simp add: aws_iot_mqtt_deserialize_connack_def numeral_2_eq_2 [symmetric] Let_def)
qed

lemma copied_fields:
  "pClientID (copy_connect_params p q) = pClientID p" "clientIDLen (copy_connect_params p q) = clientIDLen p"
  "MQTTVersion (copy_connect_params p q) = MQTTVersion p"
  by (simp_all add: copy_connect_params_def)

lemma copied_body:
  "connect_body (copy_connect_params p q) = connect_body (p\<lparr>pPassword := pUsername p\<rparr>)"
  "connect_readable (copy_connect_params p q) = connect_readable (p\<lparr>pPassword := pUsername p\<rparr>)"
  by (simp_all add: connect_body_def connect_readable_def copy_connect_params_def connect_flags_def Let_def)

lemma script_connect:
  fixes s :: "script st" and p :: IoT_Client_Connect_Params
  defines "q \<equiv> p\<lparr>pPassword := pUsername p\<rparr>"
  assumes "script_ready s" and "aws_iot_mqtt_is_client_state_valid_for_connect (clientState s)"
    and "tls_pRootCALocation (tlsConnectParams (networkStack (cl s))) = Some ca" and "0 \<in> set ca"
    and "connect_readable q" and "pClientID p = None \<longleftrightarrow> clientIDLen p = 0" and "MQTTVersion p = MQTT_3_1_1"
    and "length (mqtt_frame (header_of CONNECT QOS0 0 0) (connect_body q)) + slack (connect_body q) < 512"
    and "wd s = (mqtt_frame 0x20 [flags, code] @ rest, tx)"
  shows "\<exists>s'. aws_iot_mqtt_connect script_env TheClient (Some p) s =
      ret (if code = 0 then SUCCESS else connack_return_code code, s') \<and>
    wd s' = (rest, tx @ mqtt_frame (header_of CONNECT QOS0 0 0) (connect_body q)) \<and>
    clientState s' = (if code = 0 then CLIENT_STATE_CONNECTED_IDLE else CLIENT_STATE_DISCONNECTED_ERROR) \<and>
    messageHandlers (cdata s') = messageHandlers (cdata s) \<and> script_ready s'"
proof -
  let ?f = "mqtt_frame (header_of CONNECT QOS0 0 0) (connect_body q)"
  let ?r = "mqtt_frame 0x20 [flags, code]"
  define s1 where "s1 = upd_data (\<lambda>d. d\<lparr>options := copy_connect_params p (options d)\<rparr>) (set_clientState CLIENT_STATE_CONNECTING s)"
  have net: "networkStack (cl s1) = networkStack (cl s)" and w1: "wd s1 = (?r @ rest, tx)"
    using assms(10) by (simp_all add: s1_def)
  obtain n where c: "st_connect script_env s1 = ret (SUCCESS, \<lparr>cl = (cl s1)\<lparr>networkStack := n\<rparr>, wd = (?r @ rest, tx)\<rparr>)"
    using script_st_connect_any [of s1, OF _ assms(5) w1] net assms(4) by auto
  define s2 where "s2 = \<lparr>cl = (cl s1)\<lparr>networkStack := n\<rparr>, wd = (?r @ rest, tx)\<rparr>"
  have r2: "script_ready s2"
    using assms(2) by (simp add: s2_def s1_def script_ready_def wf_data_def)
  obtain t where t: "start_ms script_env (commandTimeoutMs (cdata s2)) s2 = (t, s2)" "running t"
    using script_start [OF r2] .
  define s3 where "s3 = upd_data (\<lambda>d. d\<lparr>keepAliveInterval := keepAliveIntervalInSec (options d)\<rparr>) s2"
  have r3: "script_ready s3" and w3: "wd s3 = (?r @ rest, tx)"
    using r2 by (simp_all add: s3_def s2_def script_ready_def wf_data_def)
  have o3: "options (cdata s3) = copy_connect_params p (options (cdata s))" "clientState s3 = CLIENT_STATE_CONNECTING"
    by (simp_all add: s3_def s2_def s1_def)
  have sz: "length (writeBuf (cdata s3)) = 512" "writeBufSize (cdata s3) = 512" "readBufSize (cdata s3) = 512"
    using r3 by (simp_all add: script_ready_def wf_data_def config_defs)
  have "aws_iot_mqtt_serialize_connect (writeBuf (cdata s3)) (writeBufSize (cdata s3)) (options (cdata s3)) =
      serialised (writeBuf (cdata s3)) 512 (header_of CONNECT QOS0 0 0) (connect_body q)"
    using serialize_connect_serialised [of "options (cdata s3)" 512 "writeBuf (cdata s3)"] assms(6-8) sz
    by (simp add: o3 copied_body copied_fields q_def)
  from serialised_fits [OF this sz(1)] assms(9)
  obtain buf len where ser: "aws_iot_mqtt_serialize_connect (writeBuf (cdata s3)) (writeBufSize (cdata s3)) (options (cdata s3)) =
      Some (Inr (buf, len))" and buf: "length buf = 512" "take (length ?f) buf = ?f" "unat len = length ?f"
    by auto
  have pos: "0 < length ?f" "length ?f < 512"
    using assms(9) by (simp_all add: mqtt_frame_def)
  have l0: "len \<noteq> 0"
    using pos buf(3) by auto
  have h: "uint (header_type 0x20) = msgCode CONNACK"
    by (simp add: header_defs)
  note ex = script_exchange [OF t(2) r3 pos buf, of "[flags, code]" "0x20" rest tx CONNACK, OF _ w3 _ h]
  let ?s4 = "script_after buf ?r rest (tx @ ?f) s3"
  have ack: "aws_iot_mqtt_deserialize_connack (readBuf (cdata ?s4)) (readBufSize (cdata ?s4)) =
      Some (Inr (flags_sessionpresent flags, connack_return_code code))"
    using connack_frame [OF h] sz by simp
  have acc: "connack_return_code code = MQTT_CONNACK_CONNECTION_ACCEPTED \<longleftrightarrow> code = 0" "connack_return_code code \<noteq> SUCCESS"
    by (simp_all add: connack_return_code_def)
  obtain t5 s5 where s5: "start_sec script_env (ucast (keepAliveInterval (cdata ?s4)))
      (upd_status (\<lambda>t. t\<lparr>cs_isPingOutstanding := False\<rparr>) ?s4) = (t5, s5)" by fastforce
  have s5': "cl s5 = cl (upd_status (\<lambda>t. t\<lparr>cs_isPingOutstanding := False\<rparr>) ?s4)" "wd s5 = (rest, tx @ ?f)"
    using s5 by (auto simp: start_sec_def countdown_sec_def still_clock_def Let_def)
  have int: "aws_iot_mqtt_internal_connect script_env (Some p) (set_clientState CLIENT_STATE_CONNECTING s) =
      (if code = 0 then ret (SUCCESS, set_pingTimer t5 s5) else ret (connack_return_code code, ?s4))"
    unfolding aws_iot_mqtt_internal_connect_def
    using c t(1) ser l0 ex ack acc s5 unfolding s2_def [symmetric]
    by (cases "connack_return_code code = MQTT_CONNACK_CONNECTION_ACCEPTED") (simp_all add: s1_def s3_def Let_def)
  have "script_ready ?s4" "messageHandlers (cdata ?s4) = messageHandlers (cdata s)"
    using script_ready_after [OF r3 buf(1), of ?r] by (simp_all add: mqtt_frame_def enc_len.simps s3_def s2_def s1_def)
  then show ?thesis
    using assms(3) int acc o3(2) s5' script_close [of ?s4]
    by (auto simp: aws_iot_mqtt_connect_def script_ready_def)
qed


text \<open>
  C29: the connect conversation.  A valid client that may connect, against a peer that answers
  with a CONNACK: the client sends exactly the CONNECT frame of the given parameters and nothing
  else, takes nothing beyond the CONNACK from the connection, and reports the verdict of the
  return code, ending idle for 0 and disconnected otherwise.  The frame is that of the parameters
  with the user name in the place of the password, because this is what
  \<open>aws_iot_mqtt_set_connect_params\<close> stores.
\<close>

theorem connect_conversation:
  fixes s :: "script st" and p :: IoT_Client_Connect_Params
  defines "q \<equiv> p\<lparr>pPassword := pUsername p\<rparr>"
  assumes "script_ready s" and "aws_iot_mqtt_is_client_state_valid_for_connect (clientState s)"
    and "tls_pRootCALocation (tlsConnectParams (networkStack (cl s))) = Some ca" and "0 \<in> set ca"
    and "connect_readable q" and "pClientID p = None \<longleftrightarrow> clientIDLen p = 0" and "MQTTVersion p = MQTT_3_1_1"
    and "length (mqtt_frame (header_of CONNECT QOS0 0 0) (connect_body q)) + slack (connect_body q) < 512"
    and "wd s = (mqtt_frame 0x20 [flags, code] @ rest, tx)"
  shows "\<exists>s'. aws_iot_mqtt_connect script_env TheClient (Some p) s =
      ret (if code = 0 then SUCCESS else connack_return_code code, s') \<and>
    wd s' = (rest, tx @ mqtt_frame (header_of CONNECT QOS0 0 0) (connect_body q)) \<and>
    clientState s' = (if code = 0 then CLIENT_STATE_CONNECTED_IDLE else CLIENT_STATE_DISCONNECTED_ERROR)"
  using script_connect [OF assms(2-5) assms(6-10) [unfolded q_def]] unfolding q_def by blast

subsection \<open>Publishing\<close>

lemma ack_frame:
  assumes "n \<ge> 4"
  shows "\<exists>dup. aws_iot_mqtt_internal_deserialize_ack (mqtt_frame h (enc_u16 i) @ rest) n = Some (Inr (header_type h, dup, i))"
proof -
  have e: "enc_len 2 = [2]" by (simp add: enc_len.simps)
  have "aws_iot_mqtt_internal_decode_remaining_length_from_buffer (mqtt_frame h (enc_u16 i) @ rest) (Suc 0) = Some (Inr (2, 1))"
    using frame_decode [of "enc_u16 i" h rest] by (simp add: e)
  moreover have "aws_iot_mqtt_internal_read_uint16_t (mqtt_frame h (enc_u16 i) @ rest) (Suc (Suc 0)) = Some (i, 4)"
    using read_uint16_enc [of "Suc (Suc 0)" "mqtt_frame h (enc_u16 i) @ rest" i rest] by (simp add: mqtt_frame_def e)
  moreover have "\<not> n < 4" using assms by simp
  ultimately show ?thesis
    by (simp add: aws_iot_mqtt_internal_deserialize_ack_def)
qed

lemma next_packet_id_ready:
  assumes "script_ready s" and "aws_iot_mqtt_get_next_packet_id s = (i, s')"
  shows "script_ready s'" and "wd s' = wd s" and "clientStatus (cl s') = clientStatus (cl s)"
    and "writeBuf (cdata s') = writeBuf (cdata s)"
    and "messageHandlers (cdata s') = messageHandlers (cdata s)"
  using assms next_packet_id_keeps [OF assms(2)]
  by (auto simp: script_ready_def keeps_def aws_iot_mqtt_get_next_packet_id_def Let_def)

lemma ucast_len:
  assumes "unat (len :: u32) = n" shows "unat (ucast len :: size_t) = n"
  using assms by simp

text \<open>The public functions around the internal ones, on a client that may use the connection.\<close>

abbreviation usable :: "'w st \<Rightarrow> bool" where
  "usable s \<equiv> clientState s = CLIENT_STATE_CONNECTED_IDLE \<or> clientState s = CLIENT_STATE_CONNECTED_WAIT_FOR_CB_RETURN"

lemma publish_outer:
  assumes "usable s" and "n \<noteq> 0"
    and "aws_iot_mqtt_internal_publish E (Some t) n p (set_clientState CLIENT_STATE_CONNECTED_PUBLISH_IN_PROGRESS s) = ret (rc, p', s')"
    and "clientState s' = CLIENT_STATE_CONNECTED_PUBLISH_IN_PROGRESS"
  shows "aws_iot_mqtt_publish E TheClient (Some t) n (Some p) s = ret (rc, Some p', set_clientState (clientState s) s')"
  using assms by (auto simp: aws_iot_mqtt_publish_def)

lemma subscribe_outer:
  assumes "usable s"
    and "aws_iot_mqtt_internal_subscribe E (Some t) n q (Some h) d (set_clientState CLIENT_STATE_CONNECTED_SUBSCRIBE_IN_PROGRESS s) = ret (rc, s')"
    and "clientState s' = CLIENT_STATE_CONNECTED_SUBSCRIBE_IN_PROGRESS"
  shows "aws_iot_mqtt_subscribe E TheClient (Some t) n q (Some h) d s = ret (rc, set_clientState (clientState s) s')"
  using assms by (auto simp: aws_iot_mqtt_subscribe_def)

lemma unsubscribe_outer:
  assumes "usable s"
    and "aws_iot_mqtt_internal_unsubscribe E t n (set_clientState CLIENT_STATE_CONNECTED_UNSUBSCRIBE_IN_PROGRESS s) = ret (rc, s')"
    and "clientState s' = CLIENT_STATE_CONNECTED_UNSUBSCRIBE_IN_PROGRESS"
  shows "aws_iot_mqtt_unsubscribe E TheClient (Some t) n s = ret (rc, set_clientState (clientState s) s')"
  using assms by (auto simp: aws_iot_mqtt_unsubscribe_def)

text \<open>
  The publish conversation.  An idle client (or one inside a callback) publishes a message of
  QoS 0 or 1 that fits the transmit buffer: exactly the PUBLISH frame is sent, with a fresh packet
  identifier for QoS 1 (which is also stored in the parameters); for QoS 1 the PUBACK is consumed,
  for QoS 0 nothing is read, and the result is \<open>SUCCESS\<close> with the client back in its state.
\<close>

theorem publish_conversation:
  fixes s :: "script st" and p :: IoT_Publish_Message_Params and topic pm :: mem and len j :: u16
  defines "i \<equiv> if pm_qos p = QOS1 then fst (aws_iot_mqtt_get_next_packet_id s) else pm_id p"
  defines "body \<equiv> publish_body (pm_qos p) i (Some topic) len (Some pm) (pm_payloadLen p)"
  defines "f \<equiv> mqtt_frame (header_of PUBLISH (pm_qos p) 0 (pm_isRetained p)) body"
  assumes "script_ready s"
    and "usable s"
    and "pm_qos p = QOS0 \<or> pm_qos p = QOS1" and "len \<noteq> 0" and "readable (Some topic) len"
    and "pm_payload p = Some pm" and "unat (pm_payloadLen p) \<le> length pm" and "unat (pm_payloadLen p) < 512"
    and "length f + slack body < 512"
    and "wd s = ((if pm_qos p = QOS1 then mqtt_frame 0x40 (enc_u16 j) else []) @ rest, tx)"
  shows "\<exists>s'. aws_iot_mqtt_publish script_env TheClient (Some topic) len (Some p) s =
      ret (SUCCESS, Some (p\<lparr>pm_id := i\<rparr>), s') \<and>
    wd s' = (rest, tx @ f) \<and> clientState s' = clientState s"
proof -
  let ?s = "set_clientState CLIENT_STATE_CONNECTED_PUBLISH_IN_PROGRESS s"
  have r: "script_ready ?s"
    using assms(4) by (simp add: script_ready_def)
  obtain t where t: "start_ms script_env (commandTimeoutMs (cdata ?s)) ?s = (t, ?s)" "running t"
    using script_start [OF r] .
  define s1 where "s1 = (if pm_qos p = QOS1 then snd (aws_iot_mqtt_get_next_packet_id ?s) else ?s)"
  have i: "(if pm_qos p = QOS1 then let (i, s) = aws_iot_mqtt_get_next_packet_id ?s in (p\<lparr>pm_id := i\<rparr>, s) else (p, ?s)) =
      (p\<lparr>pm_id := i\<rparr>, s1)"
    by (auto simp: s1_def i_def aws_iot_mqtt_get_next_packet_id_def Let_def)
  have s1: "script_ready s1" "wd s1 = wd s" "clientState s1 = CLIENT_STATE_CONNECTED_PUBLISH_IN_PROGRESS"
    using r next_packet_id_ready [OF r, of "fst (aws_iot_mqtt_get_next_packet_id ?s)" "snd (aws_iot_mqtt_get_next_packet_id ?s)"]
    by (auto simp: s1_def)
  have sz: "length (writeBuf (cdata s1)) = 512" "writeBufSize (cdata s1) = 512" "readBufSize (cdata s1) = 512"
    using s1(1) by (simp_all add: script_ready_def wf_data_def config_defs)
  have "aws_iot_mqtt_internal_serialize_publish (writeBuf (cdata s1)) (writeBufSize (cdata s1)) 0
      (pm_qos p) (pm_isRetained p) i (Some topic) len (pm_payload p) (pm_payloadLen p) =
      serialised (writeBuf (cdata s1)) 512 (header_of PUBLISH (pm_qos p) 0 (pm_isRetained p)) body"
    using serialize_publish_serialised [OF assms(8,10), of 512 "writeBuf (cdata s1)"] assms(9,11) sz
    by (simp add: body_def)
  from serialised_fits [OF this sz(1)] assms(12)
  obtain buf l where ser: "aws_iot_mqtt_internal_serialize_publish (writeBuf (cdata s1)) (writeBufSize (cdata s1)) 0
      (pm_qos p) (pm_isRetained p) i (Some topic) len (pm_payload p) (pm_payloadLen p) = Some (Inr (buf, l))"
    and buf: "length buf = 512" "take (length f) buf = f" "unat l = length f"
    by (auto simp: f_def)
  have pos: "0 < length f" "length f < 512"
    using assms(12) by (simp_all add: f_def mqtt_frame_def)
  show ?thesis
  proof (cases "pm_qos p = QOS1")
    case True
    have h: "uint (header_type 0x40) = msgCode PUBACK"
      by (simp add: header_defs)
    have w: "wd s1 = (mqtt_frame 0x40 (enc_u16 j) @ rest, tx)"
      using s1(2) assms(13) True by simp
    note ex = script_exchange [OF t(2) s1(1) pos buf(1,2) ucast_len [OF buf(3)], of "enc_u16 j" "0x40" rest tx PUBACK, OF _ w _ h]
    let ?s4 = "script_after buf (mqtt_frame 0x40 (enc_u16 j)) rest (tx @ f) s1"
    obtain dup where "aws_iot_mqtt_internal_deserialize_ack (readBuf (cdata ?s4)) (readBufSize (cdata ?s4)) =
        Some (Inr (header_type 0x40, dup, j))"
      using ack_frame [of 512 "0x40" j] sz by auto
    then have "aws_iot_mqtt_internal_publish script_env (Some topic) len p ?s = ret (SUCCESS, p\<lparr>pm_id := i\<rparr>, ?s4)"
      unfolding aws_iot_mqtt_internal_publish_def t(1)
      using i ser ex True by simp
    then show ?thesis
      using publish_outer [OF assms(5,7)] s1(3) by simp
  next
    case False
    have "aws_iot_mqtt_internal_send_packet script_env (ucast l) t (set_writeBuf buf s1) =
        ret (SUCCESS, (set_writeBuf buf s1)\<lparr>wd := (rest, tx @ f)\<rparr>)"
      using script_send [OF t(2), of "ucast l" "set_writeBuf buf s1" rest tx] s1 buf pos False assms(13)
      by (simp add: script_ready_def wf_data_def config_defs word_less_nat_alt)
    then have "aws_iot_mqtt_internal_publish script_env (Some topic) len p ?s =
        ret (SUCCESS, p\<lparr>pm_id := i\<rparr>, (set_writeBuf buf s1)\<lparr>wd := (rest, tx @ f)\<rparr>)"
      unfolding aws_iot_mqtt_internal_publish_def t(1)
      using i ser False by (simp add: i_def)
    then show ?thesis
      using publish_outer [OF assms(5,7)] s1(3) by simp
  qed
qed

definition script_params :: IoT_Client_Connect_Params where
  "script_params = iotClientConnectParamsDefault\<lparr>pClientID := Some [99, 0], clientIDLen := 1\<rparr>"

definition sample_message :: "QoS \<Rightarrow> IoT_Publish_Message_Params" where
  "sample_message qos = \<lparr> pm_qos = qos, pm_isRetained = 0, pm_isDup = 0, pm_id = 0, pm_payload = Some [1, 2], pm_payloadLen = 2 \<rparr>"

lemma script_client_ready [simp]: "script_ready (script_client st rx)"
  by (simp add: script_ready_def)

lemma script_client_network [simp]: "networkStack (cl (script_client st rx)) = networkStack sample_client"
  by (simp add: script_client_def)

lemma script_params_frame:
  "connect_readable (script_params\<lparr>pPassword := pUsername script_params\<rparr>)"
  "connect_body (script_params\<lparr>pPassword := pUsername script_params\<rparr>) =
     [0, 4, 77, 81, 84, 84, 4, 2, 0, 60, 0, 1, 99]"
  "header_of CONNECT 0 0 0 = 0x10"
  by (simp_all add: script_params_def connect_readable_def readable_def iotClientConnectParamsDefault_def
      connect_body_def enc_str_def enc_u16_def c_bytes_def connect_flags_def set_flags_cleansession_def set_flags_will_def Let_def
      header_of_def aws_iot_mqtt_internal_init_header_def header_defs)

theorem connect_conversation_witness:
  "\<exists>s'. aws_iot_mqtt_connect script_env TheClient (Some script_params)
      (script_client CLIENT_STATE_INITIALIZED [0x20, 2, 0, 0, 7]) = ret (SUCCESS, s') \<and>
    wd s' = ([7], [0x10, 13, 0, 4, 77, 81, 84, 84, 4, 2, 0, 60, 0, 1, 99]) \<and>
    clientState s' = CLIENT_STATE_CONNECTED_IDLE"
proof -
  let ?s = "script_client CLIENT_STATE_INITIALIZED [0x20, 2, 0, 0, 7]"
  have w: "wd ?s = (mqtt_frame 0x20 [0, 0] @ [7], [])"
    by (simp add: mqtt_frame_def enc_len.simps)
  show ?thesis
    using connect_conversation [OF _ _ _ _ script_params_frame(1) _ _ _ w, of "[0]"]
    by (simp add: script_params_frame sample_client_def mqtt_frame_def enc_len.simps slack_def)
      (simp add: script_params_def iotClientConnectParamsDefault_def)
qed

theorem publish_conversation_witness:
  "\<exists>s'. aws_iot_mqtt_publish script_env TheClient (Some [97]) 1 (Some (sample_message QOS1))
      (script_client CLIENT_STATE_CONNECTED_IDLE [0x40, 2, 0, 2, 7]) =
      ret (SUCCESS, Some ((sample_message QOS1)\<lparr>pm_id := 2\<rparr>), s') \<and>
    wd s' = ([7], [0x32, 7, 0, 1, 97, 0, 2, 1, 2]) \<and> clientState s' = CLIENT_STATE_CONNECTED_IDLE"
proof -
  let ?s = "script_client CLIENT_STATE_CONNECTED_IDLE [0x40, 2, 0, 2, 7]"
  have w: "wd ?s = ((if pm_qos (sample_message QOS1) = QOS1 then mqtt_frame 0x40 (enc_u16 2) else []) @ [7], [])"
    by (simp add: sample_message_def mqtt_frame_def enc_u16_def enc_len.simps)
  have i: "fst (aws_iot_mqtt_get_next_packet_id ?s) = 2"
    by (simp add: aws_iot_mqtt_get_next_packet_id_def sample_client_def MAX_PACKET_ID_def)
  have h: "header_of PUBLISH 1 0 0 = 0x32"
    by (simp add: header_of_def aws_iot_mqtt_internal_init_header_def header_defs Let_def)
  have m: "pm_qos (sample_message QOS1) = 1" "pm_isRetained (sample_message QOS1) = 0"
    "pm_payloadLen (sample_message QOS1) = 2" "pm_payload (sample_message QOS1) = Some [1, 2]"
    by (simp_all add: sample_message_def)
  have b: "publish_body 1 2 (Some [97]) 1 (Some [1, 2]) 2 = [0, 1, 97, 0, 2, 1, 2]"
    by (simp add: publish_body_def enc_str_def enc_u16_def c_bytes_def)
  show ?thesis
    using publish_conversation [OF _ _ _ _ _ m(4) _ _ _ w, where topic = "[97]" and len = 1]
    by (simp add: m i h b readable_def mqtt_frame_def slack_def enc_len.simps)
qed

subsection \<open>Subscribing\<close>

abbreviation taken :: "MessageHandlers \<Rightarrow> bool" where
  "taken h \<equiv> mh_topicName h \<noteq> None"

lemma free_index_loop_from:
  assumes "k \<le> length hs" and "length hs = 5"
  shows "free_index_loop hs [k..<5] = Some (k + length (takeWhile taken (drop k hs)))"
  using assms
proof (induction "5 - k" arbitrary: k)
  case 0
  then show ?case by (simp add: AWS_IOT_MQTT_NUM_SUBSCRIBE_HANDLERS_def)
next
  case (Suc m)
  then have k: "k < length hs" by simp
  then have "[k..<5] = k # [Suc k..<5]" and "drop k hs = hs ! k # drop (Suc k) hs"
    using Suc.prems(2) by (simp_all add: upt_conv_Cons Cons_nth_drop_Suc)
  then show ?case
    using Suc.hyps(1) [of "Suc k"] Suc.hyps(2) k Suc.prems by (auto simp: arr_get_def)
qed

lemma free_index:
  assumes "wf_client s"
  shows "aws_iot_mqtt_get_free_message_handler_index s = Some (length (takeWhile taken (messageHandlers (cdata s))))"
  using free_index_loop_from [of 0 "messageHandlers (cdata s)"] assms
  by (simp add: aws_iot_mqtt_get_free_message_handler_index_def wf_data_def config_defs)

lemma free_index_lt:
  assumes "wf_client s"
  shows "length (takeWhile taken (messageHandlers (cdata s))) < 5 \<longleftrightarrow> (\<exists>h \<in> set (messageHandlers (cdata s)). \<not> taken h)"
proof -
  have n: "length (messageHandlers (cdata s)) = 5"
    using assms by (simp add: wf_data_def config_defs)
  show ?thesis
    using n length_takeWhile_le [of taken "messageHandlers (cdata s)"]
      takeWhile_eq_all_conv [of taken "messageHandlers (cdata s)"]
      takeWhile_eq_take [of taken "messageHandlers (cdata s)"]
    by (metis le_neq_implies_less less_irrefl take_all order_refl)
qed

lemma suback_frame:
  assumes "n \<ge> 5"
  shows "\<exists>r. aws_iot_mqtt_deserialize_suback 1 [0, 0, 0] (mqtt_frame 0x90 (enc_u16 i @ [g]) @ rest) n = Some (Inr r)"
proof -
  let ?b = "mqtt_frame 0x90 (enc_u16 i @ [g]) @ rest"
  have e: "enc_len 3 = [3]" by (simp add: enc_len.simps)
  have d: "aws_iot_mqtt_internal_decode_remaining_length_from_buffer ?b (Suc 0) = Some (Inr (3, 1))"
    using frame_decode [of "enc_u16 i @ [g]" "0x90" rest] by (simp add: e)
  have u: "aws_iot_mqtt_internal_read_uint16_t ?b (Suc (Suc 0)) = Some (i, 4)"
    using read_uint16_enc [of "Suc (Suc 0)" ?b i "g # rest"] by (simp add: mqtt_frame_def e)
  have g: "aws_iot_mqtt_internal_read_char ?b 4 = Some (g, 5)"
    by (simp add: aws_iot_mqtt_internal_read_char_def mem_get_def mqtt_frame_def enc_len.simps enc_u16_def)
  have "suback_loop ?b 5 5 1 1 q = Some (Inr (1, q))" for q
    by (subst suback_loop.simps) simp
  then have l: "suback_loop ?b 4 5 1 0 [0, 0, 0] = Some (Inr (1, [ucast g, 0, 0]))"
    using g by (subst suback_loop.simps) simp
  show ?thesis
    using assms d u l by (simp add: aws_iot_mqtt_deserialize_suback_def header_defs linorder_not_less Let_def)
qed

lemma handler_filled:
  "(x :: MessageHandlers)\<lparr>mh_topicName := t, mh_topicNameLen := n, mh_pApplicationHandler := h,
     mh_pApplicationHandlerData := d, mh_qos := q\<rparr> =
   \<lparr> mh_topicName = t, mh_topicNameLen = n, mh_qos = q, mh_pApplicationHandler = h, mh_pApplicationHandlerData = d \<rparr>"
  by (cases x) simp

text \<open>
  C30: the subscribe conversation.  A client that may use the connection subscribes to a topic
  filter that fits the transmit buffer.  If all five slots of the handler table are taken,
  nothing is sent and the table is unchanged.  Otherwise exactly the SUBSCRIBE frame with a fresh
  packet identifier is sent, one SUBACK is consumed, and the filter, its length, QoS, callback and
  argument are stored in the first free slot, all other slots being as before.  The result is
  \<open>SUCCESS\<close> whatever code \<open>g\<close> the SUBACK grants, also for the failure code 0x80.
\<close>

theorem subscribe_conversation:
  fixes s :: "script st" and topic :: mem and len j :: u16 and qos :: QoS
  defines "i \<equiv> fst (aws_iot_mqtt_get_next_packet_id s)"
  defines "body \<equiv> enc_u16 i @ enc_sub_topics [(Some topic, len, qos)]"
  defines "f \<equiv> mqtt_frame (header_of SUBSCRIBE QOS1 0 0) body"
  defines "hs \<equiv> messageHandlers (cdata s)"
  defines "k \<equiv> length (takeWhile (\<lambda>h. mh_topicName h \<noteq> None) hs)"
  assumes "script_ready s" and "usable s" and "readable (Some topic) len" and "length f + slack body < 512"
    and "wd s = (mqtt_frame 0x90 (enc_u16 j @ [g]) @ rest, tx)"
  shows "\<exists>rc s'. aws_iot_mqtt_subscribe script_env TheClient (Some topic) len qos (Some h) d s = ret (rc, s') \<and>
    clientState s' = clientState s \<and>
    (if k = 5 then rc = MQTT_MAX_SUBSCRIPTIONS_REACHED_ERROR \<and> wd s' = wd s \<and> messageHandlers (cdata s') = hs
     else rc = SUCCESS \<and> wd s' = (rest, tx @ f) \<and>
       messageHandlers (cdata s') = hs[k := \<lparr> mh_topicName = Some topic, mh_topicNameLen = len, mh_qos = qos,
         mh_pApplicationHandler = Some h, mh_pApplicationHandlerData = d \<rparr>])"
proof -
  let ?s = "set_clientState CLIENT_STATE_CONNECTED_SUBSCRIBE_IN_PROGRESS s"
  have r: "script_ready ?s"
    using assms(6) by (simp add: script_ready_def)
  obtain t where t: "start_ms script_env (commandTimeoutMs (cdata ?s)) ?s = (t, ?s)" "running t"
    using script_start [OF r] .
  define s1 where "s1 = snd (aws_iot_mqtt_get_next_packet_id ?s)"
  have i: "aws_iot_mqtt_get_next_packet_id ?s = (i, s1)"
    by (simp add: s1_def i_def aws_iot_mqtt_get_next_packet_id_def Let_def)
  note s1 = next_packet_id_ready [OF r i]
  have sz: "length (writeBuf (cdata s1)) = 512" "writeBufSize (cdata s1) = 512" "readBufSize (cdata s1) = 512" "length hs = 5"
    using s1(1,5) by (simp_all add: script_ready_def wf_data_def config_defs hs_def)
  have "aws_iot_mqtt_serialize_subscribe (writeBuf (cdata s1)) (writeBufSize (cdata s1)) 0 i [(Some topic, len, qos)] =
      serialised (writeBuf (cdata s1)) 512 (header_of SUBSCRIBE QOS1 0 0) body"
    using serialize_subscribe_serialised [of "[(Some topic, len, qos)]" 512 "writeBuf (cdata s1)" 0 i] assms(8) sz
      u16_le [of len]
    by (simp add: body_def subs_readable_def)
  from serialised_fits [OF this sz(1)] assms(9)
  obtain buf l where ser: "aws_iot_mqtt_serialize_subscribe (writeBuf (cdata s1)) (writeBufSize (cdata s1)) 0 i
      [(Some topic, len, qos)] = Some (Inr (buf, l))"
    and buf: "length buf = 512" "take (length f) buf = f" "unat l = length f"
    by (auto simp: f_def)
  have pos: "0 < length f" "length f < 512"
    using assms(9) by (simp_all add: f_def mqtt_frame_def)
  have "wf_client (set_writeBuf buf s1)"
    using s1(1) buf(1) sz by (simp add: script_ready_def wf_data_def)
  from free_index [OF this] have free: "aws_iot_mqtt_get_free_message_handler_index (set_writeBuf buf s1) = Some k"
    using s1(5) by (simp add: k_def hs_def)
  have k: "k \<le> 5"
    using length_takeWhile_le [of "\<lambda>h. mh_topicName h \<noteq> None" hs] sz(4) by (simp add: k_def)
  show ?thesis
  proof (cases "k = 5")
    case True
    then have "aws_iot_mqtt_internal_subscribe script_env (Some topic) len qos (Some h) d ?s =
        ret (MQTT_MAX_SUBSCRIPTIONS_REACHED_ERROR, set_writeBuf buf s1)"
      unfolding aws_iot_mqtt_internal_subscribe_def t(1) using i ser free
      by (simp add: AWS_IOT_MQTT_NUM_SUBSCRIBE_HANDLERS_def Let_def)
    from subscribe_outer [OF assms(7) this] show ?thesis
      using True s1 by (simp add: hs_def)
  next
    case False
    have h: "uint (header_type 0x90) = msgCode SUBACK"
      by (simp add: header_defs)
    have w: "wd s1 = (mqtt_frame 0x90 (enc_u16 j @ [g]) @ rest, tx)"
      using s1(2) assms(10) by simp
    note ex = script_exchange [OF t(2) s1(1) pos buf(1,2) ucast_len [OF buf(3)],
        of "enc_u16 j @ [g]" "0x90" rest tx SUBACK, OF _ w _ h]
    let ?s4 = "script_after buf (mqtt_frame 0x90 (enc_u16 j @ [g])) rest (tx @ f) s1"
    obtain q where "aws_iot_mqtt_deserialize_suback 1 [0, 0, 0] (readBuf (cdata ?s4)) (readBufSize (cdata ?s4)) = Some (Inr q)"
      using suback_frame [of 512 j g "drop (length (mqtt_frame 0x90 (enc_u16 j @ [g]))) (readBuf (cdata s1))"] sz by auto
    then have "aws_iot_mqtt_internal_subscribe script_env (Some topic) len qos (Some h) d ?s =
        ret (SUCCESS, upd_data (\<lambda>d'. d'\<lparr>messageHandlers := (messageHandlers d')[k :=
          (hs ! k)\<lparr>mh_topicName := Some topic, mh_topicNameLen := len, mh_pApplicationHandler := Some h,
            mh_pApplicationHandlerData := d, mh_qos := qos\<rparr>]\<rparr>) ?s4)"
      unfolding aws_iot_mqtt_internal_subscribe_def t(1) using i ser free ex False k sz s1(5)
      by (simp add: AWS_IOT_MQTT_NUM_SUBSCRIBE_HANDLERS_def Let_def arr_get_def hs_def split: prod.splits)
    from subscribe_outer [OF assms(7) this] show ?thesis
      using False s1 by (simp add: hs_def handler_filled)
  qed
qed

text \<open>Subscribing to \<open>a/b\<close> with the first slot taken and the rest free.\<close>

definition one_handler :: "script st \<Rightarrow> script st" where
  "one_handler s = upd_data (\<lambda>d. d\<lparr>messageHandlers := [slot_for [[99]] 7 None, free_slot, free_slot, free_slot, free_slot]\<rparr>) s"

lemma one_handler_simps [simp]:
  "script_ready s \<Longrightarrow> script_ready (one_handler s)" "clientStatus (cl (one_handler s)) = clientStatus (cl s)"
  "wd (one_handler s) = wd s" "messageHandlers (cdata (one_handler s)) = [slot_for [[99]] 7 None, free_slot, free_slot, free_slot, free_slot]"
  by (simp_all add: one_handler_def script_ready_def wf_data_def config_defs)

theorem subscribe_conversation_witness:
  "\<exists>s'. aws_iot_mqtt_subscribe script_env TheClient (Some [97, 47, 98, 0]) 3 QOS1 (Some 8) None
      (one_handler (script_client CLIENT_STATE_CONNECTED_IDLE [0x90, 3, 0, 2, 0x80])) = ret (SUCCESS, s') \<and>
    wd s' = ([], [0x82, 8, 0, 2, 0, 3, 97, 47, 98, 1]) \<and>
    map mh_pApplicationHandler (messageHandlers (cdata s')) = [Some 7, Some 8, None, None, None]"
proof -
  let ?s = "one_handler (script_client CLIENT_STATE_CONNECTED_IDLE [0x90, 3, 0, 2, 0x80])"
  have w: "wd ?s = (mqtt_frame 0x90 (enc_u16 2 @ [0x80]) @ [], [])"
    by (simp add: mqtt_frame_def enc_u16_def enc_len.simps)
  have i: "fst (aws_iot_mqtt_get_next_packet_id ?s) = 2"
    by (simp add: aws_iot_mqtt_get_next_packet_id_def one_handler_def sample_client_def MAX_PACKET_ID_def Let_def)
  have h: "header_of SUBSCRIBE 1 0 0 = 0x82"
    by (simp add: header_of_def aws_iot_mqtt_internal_init_header_def header_defs Let_def)
  have k: "length (takeWhile (\<lambda>h. mh_topicName h \<noteq> None) (messageHandlers (cdata ?s))) = 1"
    by (simp add: slot_for_def free_slot_def)
  show ?thesis
    using subscribe_conversation [OF _ _ _ _ w, where topic = "[97, 47, 98, 0]" and len = 3 and qos = 1 and h = 8 and d = None]
    by (auto simp: k i h readable_def mqtt_frame_def slack_def enc_len.simps enc_u16_def enc_str_def c_bytes_def
        slot_for_def free_slot_def)
qed


subsection \<open>Unsubscribing\<close>

text \<open>A handler registered for the topic filter \<open>t\<close>, and the slot once it is given up.\<close>

definition names :: "MessageHandlers \<Rightarrow> u8 list \<Rightarrow> bool" where
  "names h t \<longleftrightarrow> (case mh_topicName h of None \<Rightarrow> False | Some m \<Rightarrow> takeWhile (\<lambda>c. c \<noteq> 0) m = t)"

definition clear :: "u8 list \<Rightarrow> MessageHandlers \<Rightarrow> MessageHandlers" where
  "clear t h = (if names h t then h\<lparr>mh_topicName := None\<rparr> else h)"

definition terminated :: "MessageHandlers list \<Rightarrow> bool" where
  "terminated hs \<longleftrightarrow> (\<forall>h \<in> set hs. \<forall>m. mh_topicName h = Some m \<longrightarrow> 0 \<in> set m)"

lemma slot_is_names:
  assumes "0 \<notin> set t" and "\<And>m. mh_topicName h = Some m \<Longrightarrow> 0 \<in> set m"
  shows "slot_is h (t @ 0 # r) = Some (names h t)"
proof (cases "mh_topicName h")
  case (Some m)
  then obtain n r' where m: "m = n @ 0 # r'" "0 \<notin> set n"
    using split_list_first assms(2) by metis
  have "takeWhile (\<lambda>c. c \<noteq> 0) m = n"
    using m by (auto simp: takeWhile_append)
  then show ?thesis
    using Some m c_streq_c_string [OF m(2) assms(1), of r' r] by (simp add: slot_is_def names_def)
qed (simp add: slot_is_def names_def)

lemma exists_loop_names:
  assumes "0 \<notin> set t" and "terminated hs" and "\<forall>i \<in> set is'. i < length hs"
  shows "exists_loop hs (t @ 0 # r) is' b = Some (b \<or> (\<exists>i \<in> set is'. names (hs ! i) t))"
  using assms(3)
proof (induction is' arbitrary: b)
  case (Cons i is')
  then have "slot_is (hs ! i) (t @ 0 # r) = Some (names (hs ! i) t)"
    using assms(2) by (intro slot_is_names [OF assms(1)]) (auto simp: terminated_def)
  then show ?case
    using Cons by (auto simp: arr_get_def)
qed simp

lemma remove_loop_clear:
  assumes "0 \<notin> set t" and "terminated hs" and "length hs = 5" and "k \<le> 5"
  shows "remove_loop (map (clear t) (take k hs) @ drop k hs) (t @ 0 # r) [k..<5] = Some (map (clear t) hs)"
  using assms(4)
proof (induction "5 - k" arbitrary: k)
  case 0
  then show ?case using assms(3) by simp
next
  case (Suc m)
  then have k: "k < 5" by simp
  let ?hs = "map (clear t) (take k hs) @ drop k hs"
  have nth: "?hs ! k = hs ! k" "k < length ?hs"
    using k assms(3) by (simp_all add: nth_append)
  have "slot_is (hs ! k) (t @ 0 # r) = Some (names (hs ! k) t)"
    using assms(2,3) k by (intro slot_is_names [OF assms(1)]) (auto simp: terminated_def)
  moreover have "(if names (hs ! k) t then ?hs[k := (hs ! k)\<lparr>mh_topicName := None\<rparr>] else ?hs) =
      map (clear t) (take (Suc k) hs) @ drop (Suc k) hs"
    using k assms(3) by (simp add: take_Suc_conv_app_nth clear_def list_update_append
        Cons_nth_drop_Suc [symmetric])
  moreover have "[k..<5] = k # [Suc k..<5]"
    using k by (simp add: upt_conv_Cons)
  ultimately show ?case
    using Suc.hyps(1) [of "Suc k"] Suc.hyps(2) k nth by (simp add: arr_get_def)
qed

lemma unsuback_frame:
  assumes "n \<ge> 4"
  shows "aws_iot_mqtt_deserialize_unsuback (mqtt_frame 0xB0 (enc_u16 i) @ rest) n = Some (Inr i)"
  using ack_frame [OF assms, of "0xB0" i rest]
  by (auto simp: aws_iot_mqtt_deserialize_unsuback_def header_defs)

text \<open>
  The unsubscribe conversation.  When no handler is registered for the topic filter, nothing
  is sent and the result is \<open>FAILURE\<close>.  Otherwise exactly the UNSUBSCRIBE frame with a fresh packet
  identifier is sent, one UNSUBACK is consumed, and every slot registered for this filter is
  freed, also when there is more than one; all other slots are as before.
\<close>

theorem unsubscribe_conversation:
  fixes s :: "script st" and topic :: "u8 list" and len j :: u16
  defines "i \<equiv> fst (aws_iot_mqtt_get_next_packet_id s)"
  defines "body \<equiv> enc_u16 i @ enc_unsub_topics [(Some (topic @ [0]), len)]"
  defines "f \<equiv> mqtt_frame (header_of UNSUBSCRIBE QOS1 0 0) body"
  defines "hs \<equiv> messageHandlers (cdata s)"
  assumes "script_ready s" and "usable s" and "0 \<notin> set topic" and "unat len = length topic" and "terminated hs"
    and "length f + slack body < 512"
    and "wd s = (mqtt_frame 0xB0 (enc_u16 j) @ rest, tx)"
  shows "\<exists>rc s'. aws_iot_mqtt_unsubscribe script_env TheClient (Some (topic @ [0])) len s = ret (rc, s') \<and>
    clientState s' = clientState s \<and>
    (if \<not> (\<exists>h \<in> set hs. names h topic) then rc = FAILURE \<and> s' = s
     else rc = SUCCESS \<and> wd s' = (rest, tx @ f) \<and> messageHandlers (cdata s') = map (clear topic) hs)"
proof -
  let ?s = "set_clientState CLIENT_STATE_CONNECTED_UNSUBSCRIBE_IN_PROGRESS s"
  let ?t = "topic @ 0 # []"
  have r: "script_ready ?s"
    using assms(5) by (simp add: script_ready_def)
  have n: "length hs = 5"
    using assms(5) by (simp add: script_ready_def wf_data_def config_defs hs_def)
  have "(\<exists>i \<in> set [0..<5]. names (hs ! i) topic) \<longleftrightarrow> (\<exists>h \<in> set hs. names h topic)"
    using n by (fastforce simp: in_set_conv_nth)
  then have ex: "exists_loop hs ?t [0..<5] False = Some (\<exists>h \<in> set hs. names h topic)"
    using exists_loop_names [OF assms(7,9), of "[0..<5]" "[]" False] n by simp
  show ?thesis
  proof (cases "\<exists>h \<in> set hs. names h topic")
    case False
    then have "aws_iot_mqtt_internal_unsubscribe script_env ?t len ?s = ret (FAILURE, ?s)"
      using ex by (simp add: aws_iot_mqtt_internal_unsubscribe_def AWS_IOT_MQTT_NUM_SUBSCRIBE_HANDLERS_def hs_def)
    from unsubscribe_outer [OF assms(6) this] show ?thesis
      using False by (simp add: upd_status_def)
  next
    case True
    obtain t where t: "start_ms script_env (commandTimeoutMs (cdata ?s)) ?s = (t, ?s)" "running t"
      using script_start [OF r] .
    define s1 where "s1 = snd (aws_iot_mqtt_get_next_packet_id ?s)"
    have i: "aws_iot_mqtt_get_next_packet_id ?s = (i, s1)"
      by (simp add: s1_def i_def aws_iot_mqtt_get_next_packet_id_def Let_def)
    note s1 = next_packet_id_ready [OF r i]
    have sz: "length (writeBuf (cdata s1)) = 512" "writeBufSize (cdata s1) = 512" "readBufSize (cdata s1) = 512"
      using s1(1) by (simp_all add: script_ready_def wf_data_def config_defs)
    have "aws_iot_mqtt_serialize_unsubscribe (writeBuf (cdata s1)) (writeBufSize (cdata s1)) 0 i [(Some ?t, len)] =
        serialised (writeBuf (cdata s1)) 512 (header_of UNSUBSCRIBE QOS1 0 0) body"
      using serialize_unsubscribe_serialised [of "[(Some ?t, len)]" 512 "writeBuf (cdata s1)" 0 i] assms(8) sz u16_le [of len]
      by (simp add: body_def unsubs_readable_def readable_def)
    from serialised_fits [OF this sz(1)] assms(10)
    obtain buf l where ser: "aws_iot_mqtt_serialize_unsubscribe (writeBuf (cdata s1)) (writeBufSize (cdata s1)) 0 i
        [(Some ?t, len)] = Some (Inr (buf, l))"
      and buf: "length buf = 512" "take (length f) buf = f" "unat l = length f"
      by (auto simp: f_def)
    have pos: "0 < length f" "length f < 512"
      using assms(10) by (simp_all add: f_def mqtt_frame_def)
    have h: "uint (header_type 0xB0) = msgCode UNSUBACK"
      by (simp add: header_defs)
    have w: "wd s1 = (mqtt_frame 0xB0 (enc_u16 j) @ rest, tx)"
      using s1(2) assms(11) by simp
    note xc = script_exchange [OF t(2) s1(1) pos buf(1,2) ucast_len [OF buf(3)], of "enc_u16 j" "0xB0" rest tx UNSUBACK, OF _ w _ h]
    let ?s4 = "script_after buf (mqtt_frame 0xB0 (enc_u16 j)) rest (tx @ f) s1"
    have ack: "aws_iot_mqtt_deserialize_unsuback (readBuf (cdata ?s4)) (readBufSize (cdata ?s4)) = Some (Inr j)"
      using unsuback_frame [of 512 j] sz by simp
    have rm: "remove_loop hs ?t [0..<5] = Some (map (clear topic) hs)"
      using remove_loop_clear [OF assms(7,9) n, of 0 "[]"] by simp
    have "aws_iot_mqtt_internal_unsubscribe script_env ?t len ?s =
        ret (SUCCESS, upd_data (\<lambda>d. d\<lparr>messageHandlers := map (clear topic) hs\<rparr>) ?s4)"
      using ex rm True t(1) i ser xc ack s1(5)
      by (simp add: aws_iot_mqtt_internal_unsubscribe_def AWS_IOT_MQTT_NUM_SUBSCRIBE_HANDLERS_def hs_def)
    from unsubscribe_outer [OF assms(6) this] show ?thesis
      using True s1 by (simp add: hs_def)
  qed
qed

theorem unsubscribe_conversation_witness:
  "\<exists>s'. aws_iot_mqtt_unsubscribe script_env TheClient (Some [99, 0]) 1
      (one_handler (script_client CLIENT_STATE_CONNECTED_IDLE [0xB0, 2, 0, 2])) = ret (SUCCESS, s') \<and>
    wd s' = ([], [0xA2, 5, 0, 2, 0, 1, 99]) \<and>
    map mh_topicName (messageHandlers (cdata s')) = [None, None, None, None, None]"
proof -
  let ?s = "one_handler (script_client CLIENT_STATE_CONNECTED_IDLE [0xB0, 2, 0, 2])"
  have w: "wd ?s = (mqtt_frame 0xB0 (enc_u16 2) @ [], [])"
    by (simp add: mqtt_frame_def enc_u16_def enc_len.simps)
  have i: "fst (aws_iot_mqtt_get_next_packet_id ?s) = 2"
    by (simp add: aws_iot_mqtt_get_next_packet_id_def one_handler_def sample_client_def MAX_PACKET_ID_def Let_def)
  have h: "header_of UNSUBSCRIBE 1 0 0 = 0xA2"
    by (simp add: header_of_def aws_iot_mqtt_internal_init_header_def header_defs Let_def)
  have te: "terminated (messageHandlers (cdata ?s))"
    by (simp add: terminated_def slot_for_def free_slot_def)
  have nm: "names (slot_for [[99]] 7 None) [99]" "\<not> names free_slot [99]"
    by (simp_all add: names_def slot_for_def free_slot_def)
  show ?thesis
    using unsubscribe_conversation [OF _ _ _ _ te _ w, where topic = "[99]" and len = 1]
    by (auto simp: i h mqtt_frame_def slack_def enc_len.simps enc_u16_def enc_str_def c_bytes_def nm clear_def)
      (simp add: free_slot_def)
qed


subsection \<open>Instances of the contracts\<close>

theorem connect_outcome_witness:
  "\<exists>s'. aws_iot_mqtt_connect script_env TheClient (Some script_params)
      (script_client CLIENT_STATE_INITIALIZED [0x20, 2, 0, 0]) = ret (SUCCESS, s') \<and>
    wf_client s' \<and> clientState s' = CLIENT_STATE_CONNECTED_IDLE \<and>
    (\<exists>h flags rest. readBuf (cdata s') = mqtt_frame h [flags, 0] @ rest \<and> uint (header_type h) = 2)"
proof -
  let ?s = "script_client CLIENT_STATE_INITIALIZED [0x20, 2, 0, 0]"
  have w: "wd ?s = (mqtt_frame 0x20 [0, 0] @ [], [])"
    by (simp add: mqtt_frame_def enc_len.simps)
  obtain s' where s': "aws_iot_mqtt_connect script_env TheClient (Some script_params) ?s = ret (SUCCESS, s')"
    using script_connect [OF _ _ _ _ script_params_frame(1) _ _ _ w, of "[0]"]
    by (simp add: script_params_frame sample_client_def mqtt_frame_def enc_len.simps slack_def)
      (auto simp: script_params_def iotClientConnectParamsDefault_def)
  from connect_outcome [OF _ _ _ s', of script_tls] show ?thesis
    using s' by auto
qed

theorem operations_restore_witness:
  "\<exists>s'. perform script_env TheClient Resubscribe (script_client CLIENT_STATE_CONNECTED_IDLE []) = ret (SUCCESS, s') \<and>
     wf_client s' \<and> clientState s' = CLIENT_STATE_CONNECTED_IDLE"
proof -
  let ?s = "script_client CLIENT_STATE_CONNECTED_IDLE []"
  have "aws_iot_mqtt_get_free_message_handler_index (set_clientState st ?s) = Some 0" for st
    using free_index [of "set_clientState st ?s"] sample_client_wf by (simp add: sample_client_def)
  then obtain s' where s': "perform script_env TheClient Resubscribe ?s = ret (SUCCESS, s')"
    by (simp add: aws_iot_mqtt_resubscribe_def aws_iot_mqtt_internal_resubscribe_def)
  from operations_restore [OF _ _ s'] show ?thesis
    using s' by simp
qed


subsection \<open>Resubscribing\<close>

definition sub_body :: "u16 \<Rightarrow> MessageHandlers \<Rightarrow> u8 list" where
  "sub_body i h = enc_u16 i @ enc_sub_topics [(mh_topicName h, mh_topicNameLen h, mh_qos h)]"

definition sub_frame :: "u16 \<Rightarrow> MessageHandlers \<Rightarrow> u8 list" where
  "sub_frame i h = mqtt_frame (header_of SUBSCRIBE QOS1 0 0) (sub_body i h)"

definition sub_ok :: "MessageHandlers \<Rightarrow> bool" where
  "sub_ok h \<longleftrightarrow> readable (mh_topicName h) (mh_topicNameLen h) \<and>
     (\<forall>i. length (sub_frame i h) + slack (sub_body i h) < 512)"

definition suback_of :: "u16 \<times> u8 \<Rightarrow> u8 list" where
  "suback_of jg = mqtt_frame 0x90 (enc_u16 (fst jg) @ [snd jg])"

lemma packet_ids_cong:
  "nextPacketId (cdata s) = nextPacketId (cdata s') \<Longrightarrow> packet_ids k s = packet_ids k s'"
proof (induction k arbitrary: s s')
  case (Suc k)
  show ?case
    using Suc.prems Suc.IH [of "snd (aws_iot_mqtt_get_next_packet_id s)" "snd (aws_iot_mqtt_get_next_packet_id s')"]
    by (auto simp: aws_iot_mqtt_get_next_packet_id_def Let_def split_beta split: if_splits)
qed simp

lemma packet_ids_Suc:
  "packet_ids (Suc k) s = fst (aws_iot_mqtt_get_next_packet_id s) # packet_ids k (snd (aws_iot_mqtt_get_next_packet_id s))"
  by (simp add: split_beta Let_def)

lemma script_resubscribe_step:
  fixes s :: "script st"
  assumes "script_ready s" and "itr < 5" and "sub_ok (messageHandlers (cdata s) ! itr)"
    and "wd s = (suback_of a @ rest, tx)"
  shows "\<exists>s'. resubscribe_loop script_env (itr # itrs) s = resubscribe_loop script_env itrs s' \<and> script_ready s' \<and>
    wd s' = (rest, tx @ sub_frame (fst (aws_iot_mqtt_get_next_packet_id s)) (messageHandlers (cdata s) ! itr)) \<and>
    clientStatus (cl s') = clientStatus (cl s) \<and> messageHandlers (cdata s') = messageHandlers (cdata s) \<and>
    nextPacketId (cdata s') = fst (aws_iot_mqtt_get_next_packet_id s)"
proof -
  let ?h = "messageHandlers (cdata s) ! itr"
  obtain t where t: "start_ms script_env (commandTimeoutMs (cdata s)) s = (t, s)" "running t"
    using script_start [OF assms(1)] .
  obtain i s1 where i: "aws_iot_mqtt_get_next_packet_id s = (i, s1)" by fastforce
  note s1 = next_packet_id_ready [OF assms(1) i]
  have sz: "length (writeBuf (cdata s1)) = 512" "writeBufSize (cdata s1) = 512" "readBufSize (cdata s1) = 512"
    "length (messageHandlers (cdata s1)) = 5"
    using s1(1) by (simp_all add: script_ready_def wf_data_def config_defs)
  have fit: "readable (mh_topicName ?h) (mh_topicNameLen ?h)" "length (sub_frame i ?h) + slack (sub_body i ?h) < 512"
    using assms(3) by (simp_all add: sub_ok_def)
  have "aws_iot_mqtt_serialize_subscribe (writeBuf (cdata s1)) (writeBufSize (cdata s1)) 0 i
      [(mh_topicName ?h, mh_topicNameLen ?h, mh_qos ?h)] =
      serialised (writeBuf (cdata s1)) 512 (header_of SUBSCRIBE QOS1 0 0) (sub_body i ?h)"
    using serialize_subscribe_serialised [of "[(mh_topicName ?h, mh_topicNameLen ?h, mh_qos ?h)]" 512 "writeBuf (cdata s1)" 0 i]
      fit(1) sz u16_le [of "mh_topicNameLen ?h"]
    by (simp add: sub_body_def subs_readable_def)
  from serialised_fits [OF this sz(1)] fit(2)
  obtain buf l where ser: "aws_iot_mqtt_serialize_subscribe (writeBuf (cdata s1)) (writeBufSize (cdata s1)) 0 i
      [(mh_topicName ?h, mh_topicNameLen ?h, mh_qos ?h)] = Some (Inr (buf, l))"
    and buf: "length buf = 512" "take (length (sub_frame i ?h)) buf = sub_frame i ?h" "unat l = length (sub_frame i ?h)"
    by (auto simp: sub_frame_def)
  have pos: "0 < length (sub_frame i ?h)" "length (sub_frame i ?h) < 512"
    using fit(2) by (simp_all add: sub_frame_def mqtt_frame_def)
  have h: "uint (header_type 0x90) = msgCode SUBACK"
    by (simp add: header_defs)
  have w: "wd s1 = (mqtt_frame 0x90 (enc_u16 (fst a) @ [snd a]) @ rest, tx)"
    using s1(2) assms(4) by (simp add: suback_of_def)
  note ex = script_exchange [OF t(2) s1(1) pos buf(1,2) ucast_len [OF buf(3)],
      of "enc_u16 (fst a) @ [snd a]" "0x90" rest tx SUBACK, OF _ w _ h]
  let ?r = "mqtt_frame 0x90 (enc_u16 (fst a) @ [snd a])"
  let ?s4 = "script_after buf ?r rest (tx @ sub_frame i ?h) s1"
  obtain q where ack: "aws_iot_mqtt_deserialize_suback 1 [0, 0, 0] (readBuf (cdata ?s4)) (readBufSize (cdata ?s4)) = Some (Inr q)"
    using suback_frame [of 512 "fst a" "snd a" "drop (length ?r) (readBuf (cdata s1))"] sz by auto
  have len: "length ?r = 5"
    by (simp add: mqtt_frame_def enc_len.simps)
  have "resubscribe_loop script_env (itr # itrs) s = resubscribe_loop script_env itrs ?s4"
    using t(1) i ser ex ack s1(5) sz(4) assms(2) by (simp add: arr_get_def)
  moreover have "script_ready ?s4"
    using script_ready_after [OF s1(1) buf(1)] len by simp
  moreover have "nextPacketId (cdata ?s4) = i"
    using next_packet_id_data [of s] i by simp
  ultimately show ?thesis
    using s1 i by (intro exI [of _ ?s4]) simp
qed

lemma script_resubscribe_loop:
  fixes s :: "script st"
  assumes "script_ready s" and "\<forall>i \<in> set itrs. i < 5 \<and> sub_ok (messageHandlers (cdata s) ! i)"
    and "length acks = length itrs" and "wd s = (concat (map suback_of acks) @ rest, tx)"
  shows "\<exists>s'. resubscribe_loop script_env itrs s = ret (SUCCESS, s') \<and> clientStatus (cl s') = clientStatus (cl s) \<and>
    wd s' = (rest, tx @ concat (map2 sub_frame (packet_ids (length itrs) s) (map ((!) (messageHandlers (cdata s))) itrs)))"
  using assms
proof (induction itrs arbitrary: s acks tx)
  case (Cons itr itrs)
  obtain a acks' where acks: "acks = a # acks'"
    using Cons.prems(3) by (cases acks) auto
  obtain s1 where s1: "resubscribe_loop script_env (itr # itrs) s = resubscribe_loop script_env itrs s1" "script_ready s1"
    "wd s1 = (concat (map suback_of acks') @ rest,
       tx @ sub_frame (fst (aws_iot_mqtt_get_next_packet_id s)) (messageHandlers (cdata s) ! itr))"
    "clientStatus (cl s1) = clientStatus (cl s)" "messageHandlers (cdata s1) = messageHandlers (cdata s)"
    "nextPacketId (cdata s1) = fst (aws_iot_mqtt_get_next_packet_id s)"
    using script_resubscribe_step [of s itr a "concat (map suback_of acks') @ rest" tx itrs] Cons.prems acks
    by (auto simp del: resubscribe_loop.simps)
  have ids: "packet_ids n s1 = packet_ids n (snd (aws_iot_mqtt_get_next_packet_id s))" for n
    using s1(6) by (intro packet_ids_cong) (simp add: next_packet_id_data)
  have "\<exists>s'. resubscribe_loop script_env itrs s1 = ret (SUCCESS, s') \<and> clientStatus (cl s') = clientStatus (cl s1) \<and>
    wd s' = (rest, (tx @ sub_frame (fst (aws_iot_mqtt_get_next_packet_id s)) (messageHandlers (cdata s) ! itr))
      @ concat (map2 sub_frame (packet_ids (length itrs) s1) (map ((!) (messageHandlers (cdata s1))) itrs)))"
    using s1(2-5) Cons.prems(2,3) acks by (intro Cons.IH) (auto simp del: resubscribe_loop.simps)
  then show ?case
    using s1 ids by (simp add: packet_ids_Suc del: resubscribe_loop.simps packet_ids.simps)
qed auto

text \<open>
  What is resubscribed.  On an idle client \<open>aws_iot_mqtt_resubscribe\<close> sends one SUBSCRIBE
  frame, with consecutive packet identifiers, for each handler in front of the first free slot of
  the table, in order, and waits for a SUBACK each time.  Handlers behind a free slot are not
  subscribed again: the index of the first free slot is used as the number of subscriptions.
\<close>

theorem resubscribe_conversation:
  fixes s :: "script st"
  defines "hs \<equiv> takeWhile (\<lambda>h. mh_topicName h \<noteq> None) (messageHandlers (cdata s))"
  assumes "script_ready s" and "clientState s = CLIENT_STATE_CONNECTED_IDLE" and "\<forall>h \<in> set hs. sub_ok h"
    and "length acks = length hs" and "wd s = (concat (map suback_of acks) @ rest, tx)"
  shows "\<exists>s'. aws_iot_mqtt_resubscribe script_env TheClient s = ret (SUCCESS, s') \<and>
    clientState s' = CLIENT_STATE_CONNECTED_IDLE \<and>
    wd s' = (rest, tx @ concat (map2 sub_frame (packet_ids (length hs) s) hs))"
proof -
  let ?s = "set_clientState CLIENT_STATE_CONNECTED_RESUBSCRIBE_IN_PROGRESS s"
  have r: "script_ready ?s" and n: "length (messageHandlers (cdata s)) = 5"
    using assms(2) by (simp_all add: script_ready_def wf_data_def config_defs)
  have le: "length hs \<le> 5"
    using length_takeWhile_le [of "\<lambda>h. mh_topicName h \<noteq> None" "messageHandlers (cdata s)"] n by (simp add: hs_def)
  have nth: "map ((!) (messageHandlers (cdata s))) [0..<length hs] = hs"
    using n le takeWhile_nth [of _ "\<lambda>h. mh_topicName h \<noteq> None" "messageHandlers (cdata s)"]
    by (intro nth_equalityI) (auto simp: hs_def)
  have ids: "packet_ids k ?s = packet_ids k s" for k
    by (rule packet_ids_cong) simp
  have "\<forall>i \<in> set [0..<length hs]. i < 5 \<and> sub_ok (messageHandlers (cdata ?s) ! i)"
  proof
    fix i assume "i \<in> set [0..<length hs]"
    then have "i < 5" "messageHandlers (cdata s) ! i \<in> (!) (messageHandlers (cdata s)) ` set [0..<length hs]"
      using le by simp_all
    then have "i < 5" "messageHandlers (cdata s) ! i \<in> set hs"
      unfolding list.set_map [symmetric] nth by simp_all
    then show "i < 5 \<and> sub_ok (messageHandlers (cdata ?s) ! i)"
      using assms(4) by simp
  qed
  then have "\<exists>s'. resubscribe_loop script_env [0..<length hs] ?s = ret (SUCCESS, s') \<and>
    clientStatus (cl s') = clientStatus (cl ?s) \<and>
    wd s' = (rest, tx @ concat (map2 sub_frame (packet_ids (length hs) s) hs))"
    using script_resubscribe_loop [OF r, of "[0..<length hs]" acks rest tx] assms(5,6) by (simp add: nth ids)
  then obtain s' where
    s': "resubscribe_loop script_env [0..<length hs] ?s = ret (SUCCESS, s')"
    "clientStatus (cl s') = clientStatus (cl ?s)"
    "wd s' = (rest, tx @ concat (map2 sub_frame (packet_ids (length hs) s) hs))"
    by blast
  have "aws_iot_mqtt_get_free_message_handler_index ?s = Some (length hs)"
    using free_index [of ?s] r by (simp add: script_ready_def hs_def)
  then show ?thesis
    using assms(3) s' by (simp add: aws_iot_mqtt_resubscribe_def aws_iot_mqtt_internal_resubscribe_def)
qed

text \<open>With a hole in the second slot, the handler in the third one is forgotten.\<close>

theorem resubscribe_conversation_witness:
  "\<exists>s'. aws_iot_mqtt_resubscribe script_env TheClient
      (upd_data (\<lambda>d. d\<lparr>messageHandlers := [slot_for [[99]] 7 None, free_slot, slot_for [[97]] 8 None, free_slot, free_slot]\<rparr>)
        (script_client CLIENT_STATE_CONNECTED_IDLE [0x90, 3, 0, 2, 0])) = ret (SUCCESS, s') \<and>
    wd s' = ([], [0x82, 6, 0, 2, 0, 1, 99, 0])"
proof -
  let ?s = "upd_data (\<lambda>d. d\<lparr>messageHandlers := [slot_for [[99]] 7 None, free_slot, slot_for [[97]] 8 None, free_slot, free_slot]\<rparr>)
        (script_client CLIENT_STATE_CONNECTED_IDLE [0x90, 3, 0, 2, 0])"
  have w: "wd ?s = (concat (map suback_of [(2, 0)]) @ [], [])"
    by (simp add: suback_of_def mqtt_frame_def enc_u16_def enc_len.simps)
  have r: "script_ready ?s"
    using sample_client_wf by (simp add: script_ready_def wf_data_def config_defs)
  have hs: "takeWhile (\<lambda>h. mh_topicName h \<noteq> None) (messageHandlers (cdata ?s)) = [slot_for [[99]] 7 None]"
    by (simp add: slot_for_def free_slot_def)
  have h: "header_of SUBSCRIBE 1 0 0 = 0x82"
    by (simp add: header_of_def aws_iot_mqtt_internal_init_header_def header_defs Let_def)
  have f: "sub_frame i (slot_for [[99]] 7 None) = 0x82 # 6 # enc_u16 i @ [0, 1, 99, 0]" "sub_ok (slot_for [[99]] 7 None)" for i
    by (simp_all add: sub_ok_def sub_frame_def sub_body_def h mqtt_frame_def enc_str_def enc_u16_def c_bytes_def slot_for_def
        enc_len.simps slack_def readable_def)
  have i: "packet_ids 1 ?s = [2]"
    by (simp add: aws_iot_mqtt_get_next_packet_id_def sample_client_def MAX_PACKET_ID_def Let_def)
  show ?thesis
    using resubscribe_conversation [OF r _ _ _ w] unfolding hs
    using i f by (auto simp: enc_u16_def)
qed

end
