(* ===== verification/Client_Yield.thy ===== *)
theory Client_Yield
  imports Client_Session
begin

text \<open>
  \<open>src/aws_iot_mqtt_client_yield.c\<close>: the function the application calls to let the client read
  incoming packets, keep the connection alive and reconnect.  The body of the \<open>do\<close> loop is
  \<open>yield_body\<close>; its first result says whether the loop is left by \<open>break\<close> or \<open>return\<close>.
\<close>

section \<open>Operations\<close>

definition aws_iot_mqtt_force_client_disconnect :: "'w env \<Rightarrow> 'w st \<Rightarrow> 'w st exec" where
  "aws_iot_mqtt_force_client_disconnect E s =
     bnd (close_network E (set_clientState CLIENT_STATE_DISCONNECTED_ERROR s)) (\<lambda>(rc, s). ret s)"

definition aws_iot_mqtt_handle_disconnect :: "'w env \<Rightarrow> 'w st \<Rightarrow> (IoT_Error_t \<times> 'w st) exec" where
  "aws_iot_mqtt_handle_disconnect E s =
     bnd (aws_iot_mqtt_disconnect E TheClient s) (\<lambda>(rc, s).
     bnd (if rc \<noteq> SUCCESS then aws_iot_mqtt_force_client_disconnect E s else ret s) (\<lambda>s.
     bnd (case disconnectHandler (cdata s) of
            None \<Rightarrow> ret s
          | Some h \<Rightarrow> disc E h (disconnectHandlerData (cdata s)) s) (\<lambda>s.
     ret (NETWORK_DISCONNECTED_ERROR, set_clientState CLIENT_STATE_DISCONNECTED_ERROR s))))"

definition aws_iot_mqtt_handle_reconnect :: "'w env \<Rightarrow> 'w st \<Rightarrow> (IoT_Error_t \<times> 'w st) exec" where
  "aws_iot_mqtt_handle_reconnect E s =
     (let (expired, s) = timer_expired E (reconnectDelayTimer (cl s)) s
      in if \<not> expired then ret (NETWORK_ATTEMPTING_RECONNECT, s)
      else
        let (rc, s) = (case net_isConnected (net E) of
                         None \<Rightarrow> (NETWORK_PHYSICAL_LAYER_DISCONNECTED, s)
                       | Some isConnected \<Rightarrow> let (rc, w) = isConnected (wd s) in (rc, s\<lparr>wd := w\<rparr>))
        in bnd (if rc = NETWORK_PHYSICAL_LAYER_CONNECTED then aws_iot_mqtt_attempt_reconnect E TheClient s
                else ret (rc, s)) (\<lambda>(rc', s).
           if rc = NETWORK_PHYSICAL_LAYER_CONNECTED \<and> rc' = NETWORK_RECONNECTED then
             let (r, s) = aws_iot_mqtt_set_client_state TheClient CLIENT_STATE_CONNECTED_IDLE
                   CLIENT_STATE_CONNECTED_YIELD_IN_PROGRESS s
             in if r \<noteq> SUCCESS then ret (r, s) else ret (NETWORK_RECONNECTED, s)
           else
             let s = upd_data (\<lambda>d. d\<lparr>currentReconnectWaitInterval := currentReconnectWaitInterval d * 2\<rparr>) s
             in if AWS_IOT_MQTT_MAX_RECONNECT_WAIT_INTERVAL < currentReconnectWaitInterval (cdata s)
             then ret (NETWORK_RECONNECT_TIMED_OUT_ERROR, s)
             else
               let (t, s) = start_ms E (currentReconnectWaitInterval (cdata s)) s
               in ret (rc', set_reconnectDelayTimer t s)))"

definition aws_iot_mqtt_keep_alive :: "'w env \<Rightarrow> clientRef \<Rightarrow> 'w st \<Rightarrow> (IoT_Error_t \<times> 'w st) exec" where
  "aws_iot_mqtt_keep_alive E pClient s =
     (if pClient = NullClient then ret (NULL_VALUE_ERROR, s)
      else if keepAliveInterval (cdata s) = 0 then ret (SUCCESS, s)
      else
        let (expired, s) = timer_expired E (pingTimer (cl s)) s
        in if \<not> expired then ret (SUCCESS, s)
        else if cs_isPingOutstanding (clientStatus (cl s)) then aws_iot_mqtt_handle_disconnect E s
        else
          let (timer, s) = start_ms E (commandTimeoutMs (cdata s)) s
          in bnd (access (aws_iot_mqtt_internal_serialize_zero (writeBuf (cdata s)) (writeBufSize (cdata s)) PINGREQ)) (\<lambda>r.
             case r of
               Inl rc \<Rightarrow> ret (rc, s)
             | Inr (buf, serialized_len) \<Rightarrow>
                 bnd (aws_iot_mqtt_internal_send_packet E serialized_len timer (set_writeBuf buf s)) (\<lambda>(rc, s).
                 if rc \<noteq> SUCCESS then aws_iot_mqtt_handle_disconnect E s
                 else
                   let s = upd_status (\<lambda>t. t\<lparr>cs_isPingOutstanding := True\<rparr>) s;
                       (t, s) = start_sec E (ucast (keepAliveInterval (cdata s))) s
                   in ret (SUCCESS, set_pingTimer t s))))"

text \<open>The result of reading decides what happens next: keeping the connection alive, or giving it
  up after an error of the TLS layer.\<close>

definition yield_react :: "'w env \<Rightarrow> IoT_Error_t \<Rightarrow> 'w st \<Rightarrow> (IoT_Error_t \<times> 'w st) exec" where
  "yield_react E yieldRc s =
     (if yieldRc = SUCCESS then aws_iot_mqtt_keep_alive E TheClient s
      else if yieldRc \<in> {NETWORK_SSL_READ_ERROR, NETWORK_SSL_READ_TIMEOUT_ERROR,
                         NETWORK_SSL_WRITE_ERROR, NETWORK_SSL_WRITE_TIMEOUT_ERROR}
      then aws_iot_mqtt_handle_disconnect E s
      else ret (yieldRc, s))"

definition yield_settle :: "'w env \<Rightarrow> IoT_Error_t \<Rightarrow> 'w st \<Rightarrow> (bool \<times> IoT_Error_t \<times> 'w st) exec" where
  "yield_settle E yieldRc s =
     (if yieldRc = NETWORK_DISCONNECTED_ERROR then
        let s = upd_data (\<lambda>d. d\<lparr>counterNetworkDisconnected := counterNetworkDisconnected d + 1\<rparr>) s
        in if cs_isAutoReconnectEnabled (clientStatus (cl s)) then
             let (r, s) = aws_iot_mqtt_set_client_state TheClient CLIENT_STATE_DISCONNECTED_ERROR
                   CLIENT_STATE_PENDING_RECONNECT s
             in if r \<noteq> SUCCESS then ret (True, r, s)
             else
               let s = upd_data (\<lambda>d. d\<lparr>currentReconnectWaitInterval := AWS_IOT_MQTT_MIN_RECONNECT_WAIT_INTERVAL\<rparr>) s;
                   (t, s) = start_ms E (currentReconnectWaitInterval (cdata s)) s
               in ret (False, NETWORK_ATTEMPTING_RECONNECT, set_reconnectDelayTimer t s)
           else ret (True, yieldRc, s)
      else if yieldRc \<noteq> SUCCESS then ret (True, yieldRc, s)
      else ret (False, yieldRc, s))"

definition yield_body :: "'w env \<Rightarrow> Timer \<Rightarrow> 'w st \<Rightarrow> (bool \<times> IoT_Error_t \<times> 'w st) exec" where
  "yield_body E timer s =
     (if aws_iot_mqtt_get_client_state TheClient s = CLIENT_STATE_PENDING_RECONNECT then
        if AWS_IOT_MQTT_MAX_RECONNECT_WAIT_INTERVAL < currentReconnectWaitInterval (cdata s)
        then ret (True, NETWORK_RECONNECT_TIMED_OUT_ERROR, s)
        else bnd (aws_iot_mqtt_handle_reconnect E s) (\<lambda>(yieldRc, s). ret (False, yieldRc, s))
      else
        bnd (aws_iot_mqtt_internal_cycle_read E timer s) (\<lambda>(yieldRc, pt, s).
        bnd (yield_react E yieldRc s) (\<lambda>(yieldRc, s).
        yield_settle E yieldRc s)))"

partial_function (option) yield_loop :: "'w env \<Rightarrow> Timer \<Rightarrow> 'w st \<Rightarrow> (IoT_Error_t \<times> 'w st) exec" where
  "yield_loop E timer s =
     bnd (yield_body E timer s) (\<lambda>(stop, yieldRc, s).
     if stop then ret (yieldRc, s)
     else
       let (expired, s) = timer_expired E timer s
       in if expired then ret (yieldRc, s) else yield_loop E timer s)"

definition aws_iot_mqtt_internal_yield :: "'w env \<Rightarrow> u32 \<Rightarrow> 'w st \<Rightarrow> (IoT_Error_t \<times> 'w st) exec" where
  "aws_iot_mqtt_internal_yield E timeout_ms s =
     (let (timer, s) = start_ms E timeout_ms s in yield_loop E timer s)"

definition aws_iot_mqtt_yield :: "'w env \<Rightarrow> clientRef \<Rightarrow> u32 \<Rightarrow> 'w st \<Rightarrow> (IoT_Error_t \<times> 'w st) exec" where
  "aws_iot_mqtt_yield E pClient timeout_ms s =
     (if pClient = NullClient \<or> timeout_ms = 0 then ret (NULL_VALUE_ERROR, s)
      else
        let st = aws_iot_mqtt_get_client_state pClient s
        in if st = CLIENT_STATE_DISCONNECTED_MANUALLY then ret (NETWORK_MANUALLY_DISCONNECTED, s)
        else if st \<noteq> CLIENT_STATE_PENDING_RECONNECT \<and> \<not> aws_iot_mqtt_is_client_connected pClient s
        then ret (NETWORK_DISCONNECTED_ERROR, s)
        else if st \<noteq> CLIENT_STATE_PENDING_RECONNECT \<and> st \<noteq> CLIENT_STATE_CONNECTED_IDLE
        then ret (MQTT_CLIENT_NOT_IDLE_ERROR, s)
        else
          let (rc, s) = (if st \<noteq> CLIENT_STATE_PENDING_RECONNECT
                then aws_iot_mqtt_set_client_state pClient CLIENT_STATE_CONNECTED_IDLE
                       CLIENT_STATE_CONNECTED_YIELD_IN_PROGRESS s
                else (SUCCESS, s))
          in if rc \<noteq> SUCCESS then ret (rc, s)
          else bnd (aws_iot_mqtt_internal_yield E timeout_ms s) (\<lambda>(yieldRc, s).
            if yieldRc \<noteq> NETWORK_DISCONNECTED_ERROR \<and> yieldRc \<noteq> NETWORK_ATTEMPTING_RECONNECT then
              let (rc, s) = aws_iot_mqtt_set_client_state pClient CLIENT_STATE_CONNECTED_YIELD_IN_PROGRESS
                    CLIENT_STATE_CONNECTED_IDLE s
              in ret (if yieldRc = SUCCESS \<and> rc \<noteq> SUCCESS then rc else yieldRc, s)
            else ret (yieldRc, s)))"


section \<open>Return codes of the reading side\<close>

text \<open>The codes that tell the application that the connection is gone come only from
  \<open>_aws_iot_mqtt_handle_disconnect\<close> and the reconnection, never from reading a packet.\<close>

abbreviation link_codes :: "IoT_Error_t set" where
  "link_codes \<equiv> {NETWORK_DISCONNECTED_ERROR, NETWORK_ATTEMPTING_RECONNECT, NETWORK_RECONNECTED}"

lemma send_packet_code:
  "aws_iot_mqtt_internal_send_packet E len t s = ret (rc, s') \<Longrightarrow> rc \<notin> link_codes"
  by (auto simp: aws_iot_mqtt_internal_send_packet_def bnd_eq_ret split: if_splits)

lemma read_into_code:
  assumes "network (net E)" and "read_into E off n t s = ret (rc, rl, s')"
  shows "rc \<notin> link_codes"
  using assms(2) network.read_codes [OF assms(1)]
  by (fastforce simp: read_into_def st_read_def bnd_eq_ret)

lemma decode_rem_loop_code:
  assumes "network (net E)" and "decode_rem_loop E t mult len n s = ret (rc, n', s')"
  shows "rc \<notin> link_codes"
proof -
  have "valid (decode_rem_loop E t mult len n s) (\<lambda>(rc, n', s'). rc \<notin> link_codes)"
  proof (rule valid_resI)
    fix y assume "decode_rem_loop E t mult len n s = Some y"
    then show "res_ok (\<lambda>(rc, n', s'). rc \<notin> link_codes) y"
      using assms(1)
    proof (induction rule: decode_rem_loop.raw_induct [rotated, consumes 1, case_names step])
      case (step loop E t mult len n s y)
      have IH: "valid (loop E t m l n s1) (\<lambda>(rc, n', s'). rc \<notin> link_codes)" for m l n s1
        using step.IH [OF _ step.prems] by (rule valid_resI)
      show ?case
        by (rule valid_res [OF _ step.hyps], intro wp)
          (use network.read_codes [OF step.prems] in \<open>fastforce simp: st_read_def bnd_eq_ret intro: IH\<close>)+
    qed
  qed
  from validD [OF this assms(2)] show ?thesis by simp
qed

lemma read_packet_code:
  assumes "network (net E)" and "aws_iot_mqtt_internal_read_packet E t s = ret (rc, pt, s')"
  shows "rc \<notin> link_codes"
proof -
  have "valid (aws_iot_mqtt_internal_read_packet E t s) (\<lambda>(rc, pt, s'). rc \<notin> link_codes)"
    unfolding aws_iot_mqtt_internal_read_packet_def aws_iot_mqtt_internal_decode_packet_remaining_len_def
    by (intro wp) (auto simp: bnd_eq_ret Let_def dest: read_into_code [OF assms(1)] decode_rem_loop_code [OF assms(1)]
        split: if_splits)
  from validD [OF this assms(2)] show ?thesis by simp
qed

lemma deserialize_publish_code:
  "aws_iot_mqtt_internal_deserialize_publish buf n = Some (Inl rc) \<Longrightarrow> rc \<notin> link_codes"
  by (auto simp: aws_iot_mqtt_internal_deserialize_publish_def aws_iot_mqtt_read_string_with_len_def Let_def
      dest!: decode_len_error split: if_splits sum.splits bind_split_asm)

lemma serialize_ack_code:
  "aws_iot_mqtt_internal_serialize_ack buf n mt dup i = Some (Inl rc) \<Longrightarrow> rc \<notin> link_codes"
  by (cases mt) (auto simp: aws_iot_mqtt_internal_serialize_ack_def aws_iot_mqtt_internal_init_header_def Let_def
      split: if_splits sum.splits bind_split_asm)

lemma cycle_read_code:
  assumes "network (net E)" and "callbacks_ok E" and "aws_iot_mqtt_internal_cycle_read E t s = ret (rc, pt, s')"
  shows "rc \<notin> link_codes"
proof -
  have hp: "rc \<notin> link_codes" if "aws_iot_mqtt_internal_handle_publish E t s = ret (rc, s')" for rc s s'
  proof -
    have "valid (aws_iot_mqtt_internal_handle_publish E t s) (\<lambda>(rc, s'). rc \<notin> link_codes)"
      unfolding aws_iot_mqtt_internal_handle_publish_def
      by (intro wp) (auto intro!: validI dest: deliver_message_keeps [OF assms(2)] deserialize_publish_code
          serialize_ack_code send_packet_code)
    from validD [OF this that] show ?thesis by simp
  qed
  have "valid (aws_iot_mqtt_internal_cycle_read E t s) (\<lambda>(rc, pt, s'). rc \<notin> link_codes)"
    unfolding aws_iot_mqtt_internal_cycle_read_def
    by (intro wp) (auto dest: hp read_packet_code [OF assms(1)])
  from validD [OF this assms(3)] show ?thesis by simp
qed


lemma wait_loop_code:
  assumes "network (net E)" and "callbacks_ok E"
  shows "valid (wait_loop E pt t rpt s) (\<lambda>(rc, rpt', s'). rc \<notin> link_codes)"
proof (rule valid_resI)
  fix y assume "wait_loop E pt t rpt s = Some y"
  then show "res_ok (\<lambda>(rc, rpt', s'). rc \<notin> link_codes) y"
    using assms
  proof (induction rule: wait_loop.raw_induct [rotated, consumes 1, case_names step])
    case (step loop E pt t rpt s y)
    have IH: "valid (loop E pt t r s1) (\<lambda>(rc, rpt', s'). rc \<notin> link_codes)" for r s1
      using step.IH step.prems by (blast intro: valid_resI)
    show ?case
      by (rule valid_res [OF _ step.hyps], intro wp)
        (auto dest: cycle_read_code [OF step.prems] intro!: valid_mono [OF IH])
  qed
qed

lemma wait_for_read_code:
  assumes "network (net E)" and "callbacks_ok E" and "aws_iot_mqtt_internal_wait_for_read E mt t s = ret (rc, s')"
  shows "rc \<notin> link_codes"
proof -
  have "valid (aws_iot_mqtt_internal_wait_for_read E mt t s) (\<lambda>(rc, s'). rc \<notin> link_codes)"
    unfolding aws_iot_mqtt_internal_wait_for_read_def
    by (intro wp) (auto dest!: validD [OF wait_loop_code [OF assms(1,2)]])
  from validD [OF this assms(3)] show ?thesis by simp
qed

lemma serialize_subscribe_code:
  "aws_iot_mqtt_serialize_subscribe buf n dup i ts = Some (Inl rc) \<Longrightarrow> rc \<notin> link_codes"
  by (auto simp: aws_iot_mqtt_serialize_subscribe_def aws_iot_mqtt_internal_init_header_def Let_def
      split: if_splits sum.splits bind_split_asm)

lemma deserialize_suback_code:
  "aws_iot_mqtt_deserialize_suback m q buf n = Some (Inl rc) \<Longrightarrow> rc \<notin> link_codes"
  by (auto simp: aws_iot_mqtt_deserialize_suback_def Let_def
      dest!: decode_len_error suback_loop_error split: if_splits sum.splits bind_split_asm)

lemma resubscribe_loop_code:
  assumes "network (net E)" and "callbacks_ok E"
  shows "valid (resubscribe_loop E itrs s) (\<lambda>(rc, s'). rc \<notin> link_codes)"
proof (induction itrs arbitrary: s)
  case (Cons itr itrs)
  show ?case
    unfolding resubscribe_loop.simps
    by (intro wp) (auto dest: serialize_subscribe_code send_packet_code wait_for_read_code [OF assms]
        deserialize_suback_code intro!: valid_mono [OF Cons])
qed simp

lemma resubscribe_code:
  assumes "network (net E)" and "callbacks_ok E" and "clientState s = CLIENT_STATE_CONNECTED_IDLE"
    and "aws_iot_mqtt_resubscribe E TheClient s = ret (rc, s')"
  shows "rc \<notin> link_codes"
proof -
  have "valid (aws_iot_mqtt_resubscribe E TheClient s) (\<lambda>(rc, s'). rc \<notin> link_codes)"
    unfolding aws_iot_mqtt_resubscribe_def aws_iot_mqtt_internal_resubscribe_def
    by (intro wp) (auto simp: assms(3) bnd_eq_ret dest!: validD [OF resubscribe_loop_code [OF assms(1,2)]] split: if_splits)
  from validD [OF this assms(4)] show ?thesis by simp
qed

section \<open>Disconnecting and reconnecting\<close>

lemma force_disconnect_result:
  "valid (aws_iot_mqtt_force_client_disconnect E s) (\<lambda>s'. cl s' = cl (set_clientState CLIENT_STATE_DISCONNECTED_ERROR s))"
  unfolding aws_iot_mqtt_force_client_disconnect_def by (intro wp) (auto dest: close_network_client)

lemma handle_disconnect_result:
  "valid (aws_iot_mqtt_handle_disconnect E s) (\<lambda>(rc, s').
     rc = NETWORK_DISCONNECTED_ERROR \<and> clientState s' = CLIENT_STATE_DISCONNECTED_ERROR)"
  unfolding aws_iot_mqtt_handle_disconnect_def by (intro wp) auto

lemma handle_disconnect_wf:
  assumes "callbacks_ok E" and "wf_client s"
  shows "valid (aws_iot_mqtt_handle_disconnect E s) (\<lambda>(rc, s'). wf_client s')"
  unfolding aws_iot_mqtt_handle_disconnect_def
  by (intro wp) (auto simp: assms(2) keeps_def dest!: validD [OF disconnect_result] validD [OF force_disconnect_result]
      callbacks_disc [OF assms(1)] split: if_splits option.splits)

lemma attempt_reconnect_result:
  assumes "network (net E)" and "callbacks_ok E" and "wf_client s"
    and "aws_iot_mqtt_is_client_state_valid_for_connect (clientState s)"
  shows "valid (aws_iot_mqtt_attempt_reconnect E TheClient s) (\<lambda>(rc, s'). wf_client s' \<and> rc \<noteq> NETWORK_DISCONNECTED_ERROR \<and>
    clientState s' = (if rc = NETWORK_ATTEMPTING_RECONNECT then CLIENT_STATE_PENDING_RECONNECT else CLIENT_STATE_CONNECTED_IDLE))"
proof -
  have c: "\<not> state_is_connected (clientState s)"
    using assms(4) by (cases "clientState s") simp_all
  note res = validD [OF connect_result [OF assms(1-3)]]
  have resub: "wf_client s2 \<and> clientState s2 = CLIENT_STATE_CONNECTED_IDLE \<and> rc \<notin> link_codes"
    if "aws_iot_mqtt_resubscribe E TheClient s1 = ret (rc, s2)" "wf_client s1" "clientState s1 = CLIENT_STATE_CONNECTED_IDLE" for s1 rc s2
    using resubscribe_keeps [OF assms(2) that(1)] resubscribe_code [OF assms(1,2) that(3,1)] that by (auto simp: keeps_def)
  show ?thesis
    unfolding aws_iot_mqtt_attempt_reconnect_def
    by (intro wp) (use assms(4) c in \<open>auto dest!: res dest: resub split: if_splits\<close>)
qed


definition link_up :: "'w env \<Rightarrow> bool" where
  "link_up E \<longleftrightarrow> (\<exists>f. net_isConnected (net E) = Some f \<and> (\<forall>w. fst (f w) = NETWORK_PHYSICAL_LAYER_CONNECTED))"

lemma tls_link_up: "net E = tls_ops (gtod E) m \<Longrightarrow> link_up E"
  by (simp add: link_up_def tls_ops_def iot_tls_is_connected_def)

lemma wf_data_ignores [simp]:
  "wf_data (d\<lparr>currentReconnectWaitInterval := x\<rparr>) = wf_data d"
  "wf_data (d\<lparr>counterNetworkDisconnected := x\<rparr>) = wf_data d"
  by (simp_all add: wf_data_def)

lemma handle_reconnect_result:
  assumes "network (net E)" and "link_up E" and "callbacks_ok E" and "wf_client s"
    and "clientState s = CLIENT_STATE_PENDING_RECONNECT"
  shows "valid (aws_iot_mqtt_handle_reconnect E s) (\<lambda>(rc, s'). wf_client s' \<and>
    (clientState s' = CLIENT_STATE_CONNECTED_YIELD_IN_PROGRESS \<and> rc = NETWORK_RECONNECTED \<or>
     clientState s' = CLIENT_STATE_CONNECTED_IDLE \<and> rc \<notin> {NETWORK_DISCONNECTED_ERROR, NETWORK_ATTEMPTING_RECONNECT, NETWORK_RECONNECTED} \<or>
     clientState s' = CLIENT_STATE_PENDING_RECONNECT \<and> rc \<in> {NETWORK_ATTEMPTING_RECONNECT, NETWORK_RECONNECT_TIMED_OUT_ERROR}))"
proof -
  obtain f where f: "net_isConnected (net E) = Some f" "\<And>w. fst (f w) = NETWORK_PHYSICAL_LAYER_CONNECTED"
    using assms(2) by (auto simp: link_up_def)
  have poll: "rc = NETWORK_PHYSICAL_LAYER_CONNECTED \<and> cl s2 = cl s1"
    if "(let (rc, w) = f (wd s1) in (rc, s1\<lparr>wd := w\<rparr>)) = (rc, s2)" for rc and s1 s2 :: "'a st"
    using f(2) [of "wd s1"] that by (auto simp: split_beta)
  have att: "wf_client s2 \<and> rc \<noteq> NETWORK_DISCONNECTED_ERROR \<and>
      clientState s2 = (if rc = NETWORK_ATTEMPTING_RECONNECT then CLIENT_STATE_PENDING_RECONNECT else CLIENT_STATE_CONNECTED_IDLE)"
    if "aws_iot_mqtt_attempt_reconnect E TheClient s1 = ret (rc, s2)" "cl s1 = cl s" for s1 rc s2
    using validD [OF attempt_reconnect_result [OF assms(1,3)] that(1)] that(2) assms(4,5) by simp
  show ?thesis
    unfolding aws_iot_mqtt_handle_reconnect_def f(1) option.case
  proof (intro wp, goal_cases)
    case (1 e s1)
    then show ?case using assms(4,5) by (auto dest: timer_expired_client)
  next
    case (2 e s1 rc s2 x rc' s3 r s4)
    then show ?case using poll [of s1 rc s2] att [of s2 rc' s3] by (auto dest!: timer_expired_client split: if_splits)
  next
    case (3 e s1 rc s2 x rc' s3 r s4)
    then show ?case using poll [of s1 rc s2] att [of s2 rc' s3] by (auto dest!: timer_expired_client split: if_splits)
  next
    case (4 e s1 rc s2 x rc' s3)
    then show ?case using poll [of s1 rc s2] att [of s2 rc' s3] by (auto dest!: timer_expired_client split: if_splits)
  next
    case (5 e s1 rc s2 x rc' s3 t s4)
    then show ?case using poll [of s1 rc s2] att [of s2 rc' s3] by (auto dest!: timer_expired_client start_ms_data split: if_splits)
  qed
qed


section \<open>Yielding\<close>

lemma serialize_zero_code:
  "aws_iot_mqtt_internal_serialize_zero buf n mt = Some (Inl rc) \<Longrightarrow> rc \<notin> link_codes"
  by (cases mt) (auto simp: aws_iot_mqtt_internal_serialize_zero_def aws_iot_mqtt_internal_init_header_def
      split: if_splits sum.splits bind_split_asm)

lemma keep_alive_result:
  assumes "callbacks_ok E" and "wf_client s"
  shows "valid (aws_iot_mqtt_keep_alive E TheClient s) (\<lambda>(rc, s'). wf_client s' \<and>
    (rc = NETWORK_DISCONNECTED_ERROR \<and> clientState s' = CLIENT_STATE_DISCONNECTED_ERROR \<or>
     rc \<notin> link_codes \<and> clientState s' = clientState s))"
proof -
  have hd: "valid (aws_iot_mqtt_handle_disconnect E s1) (\<lambda>(rc, s'). wf_client s' \<and>
      (rc = NETWORK_DISCONNECTED_ERROR \<and> clientState s' = CLIENT_STATE_DISCONNECTED_ERROR \<or>
       rc \<notin> link_codes \<and> clientState s' = clientState s))" if "wf_client s1" for s1
    using valid_conj [OF handle_disconnect_result handle_disconnect_wf [OF assms(1) that]] by (rule valid_mono) auto
  have sent: "keeps s s3" if "timer_expired E t0 s = (e, s0)" "start_ms E n s0 = (t, s1)"
    "aws_iot_mqtt_internal_serialize_zero (writeBuf (cdata s1)) sz PINGREQ = Some (Inr (buf, len))"
    "aws_iot_mqtt_internal_send_packet E len t (set_writeBuf buf s1) = ret (rc, s3)" for t0 e s0 n t s1 sz buf len rc s3
    using that by (auto simp: keeps_def wf_data_def dest!: keepsD serialize_zero_length)
  show ?thesis
    unfolding aws_iot_mqtt_keep_alive_def
  proof (intro wp hd, goal_cases)
    case (4 e s0)
    then show ?case using assms(2) by (auto dest!: timer_expired_client)
  next
    case (5 e s0 t s1 r rc)
    then show ?case using assms(2) by (auto dest!: timer_expired_client start_ms_data serialize_zero_code)
  next
    case (6 e s0 t s1 r x buf len y rc s3)
    then show ?case using assms(2) sent [of _ e s0 _ t s1 _ buf len rc s3] by (auto simp: keeps_def)
  next
    case (7 e s0 t s1 r x buf len y rc s3 t4 s4)
    then show ?case using assms(2) sent [of _ e s0 _ t s1 _ buf len rc s3] by (auto simp: keeps_def dest!: start_sec_client)
  qed (use assms(2) in \<open>auto dest!: timer_expired_client\<close>)
qed

text \<open>What the loop maintains: the client is either working on the connection, waiting to
  reconnect, or (only when the loop ends) disconnected.\<close>

definition yield_ok :: "IoT_Error_t \<Rightarrow> 'w st \<Rightarrow> bool" where
  "yield_ok rc s \<longleftrightarrow> wf_client s \<and>
     (clientState s \<in> {CLIENT_STATE_CONNECTED_YIELD_IN_PROGRESS, CLIENT_STATE_CONNECTED_IDLE} \<and>
        rc \<notin> {NETWORK_DISCONNECTED_ERROR, NETWORK_ATTEMPTING_RECONNECT} \<or>
      clientState s = CLIENT_STATE_PENDING_RECONNECT \<and>
        rc \<in> {NETWORK_ATTEMPTING_RECONNECT, NETWORK_RECONNECT_TIMED_OUT_ERROR} \<or>
      clientState s = CLIENT_STATE_DISCONNECTED_ERROR \<and> rc = NETWORK_DISCONNECTED_ERROR)"

definition yielding :: "'w st \<Rightarrow> bool" where
  "yielding s \<longleftrightarrow> wf_client s \<and>
     clientState s \<in> {CLIENT_STATE_CONNECTED_YIELD_IN_PROGRESS, CLIENT_STATE_CONNECTED_IDLE, CLIENT_STATE_PENDING_RECONNECT}"

definition yield_result :: "'w st \<Rightarrow> IoT_Error_t \<Rightarrow> 'w st \<Rightarrow> bool" where
  "yield_result s rc s' \<longleftrightarrow> wf_client s' \<and>
     (rc = NETWORK_DISCONNECTED_ERROR \<and> clientState s' = CLIENT_STATE_DISCONNECTED_ERROR \<or>
      rc \<notin> link_codes \<and> clientState s' = clientState s)"

lemma yield_react_result:
  assumes "callbacks_ok E" and "wf_client s" and "rc \<notin> link_codes"
  shows "valid (yield_react E rc s) (\<lambda>(rc', s'). yield_result s rc' s')"
proof -
  have "valid (aws_iot_mqtt_handle_disconnect E s) (\<lambda>(rc', s'). yield_result s rc' s')"
    using valid_conj [OF handle_disconnect_result handle_disconnect_wf [OF assms(1,2)]]
    by (rule valid_mono) (auto simp: yield_result_def)
  moreover have "valid (aws_iot_mqtt_keep_alive E TheClient s) (\<lambda>(rc', s'). yield_result s rc' s')"
    using keep_alive_result [OF assms(1,2)] by (simp add: yield_result_def)
  moreover have "yield_result s rc s"
    using assms(2,3) by (simp add: yield_result_def)
  ultimately show ?thesis
    by (simp add: yield_react_def)
qed

lemma yield_settle_result:
  assumes "yield_result s rc s1"
    and "clientState s \<in> {CLIENT_STATE_CONNECTED_YIELD_IN_PROGRESS, CLIENT_STATE_CONNECTED_IDLE}"
  shows "valid (yield_settle E rc s1) (\<lambda>(stop, rc, s'). yield_ok rc s' \<and> (\<not> stop \<longrightarrow> yielding s'))"
  unfolding yield_settle_def
  by (intro wp) (use assms in \<open>auto simp: yield_result_def yield_ok_def yielding_def dest!: start_ms_data split: if_splits\<close>)

lemma yield_body_result:
  assumes "network (net E)" and "link_up E" and "callbacks_ok E" and "yielding s"
  shows "valid (yield_body E t s) (\<lambda>(stop, rc, s'). yield_ok rc s' \<and> (\<not> stop \<longrightarrow> yielding s'))"
proof (cases "clientState s = CLIENT_STATE_PENDING_RECONNECT")
  case True
  have wf: "wf_client s" using assms(4) by (simp add: yielding_def)
  have "valid (aws_iot_mqtt_handle_reconnect E s) (\<lambda>(rc, s'). yield_ok rc s' \<and> yielding s')"
    by (rule valid_mono [OF handle_reconnect_result [OF assms(1-3) wf True]]) (auto simp: yield_ok_def yielding_def)
  then have hr: "yield_ok rc s1 \<and> yielding s1" if "aws_iot_mqtt_handle_reconnect E s = ret (rc, s1)" for rc s1
    using validD that by fastforce
  have "yield_body E t s = (if AWS_IOT_MQTT_MAX_RECONNECT_WAIT_INTERVAL < currentReconnectWaitInterval (cdata s)
      then ret (True, NETWORK_RECONNECT_TIMED_OUT_ERROR, s)
      else bnd (aws_iot_mqtt_handle_reconnect E s) (\<lambda>(yieldRc, s). ret (False, yieldRc, s)))"
    using True by (simp add: yield_body_def)
  then show ?thesis
    using True wf by (simp only:, intro wp) (auto simp: yield_ok_def [of _ s] dest: hr)
next
  case False
  have rd: "keeps s s1 \<and> rc \<notin> link_codes" if "aws_iot_mqtt_internal_cycle_read E t s = ret (rc, pt, s1)" for rc pt s1
    using cycle_read_keeps [OF assms(3) that] cycle_read_code [OF assms(1,3) that] by simp
  have st: "clientState s \<in> {CLIENT_STATE_CONNECTED_YIELD_IN_PROGRESS, CLIENT_STATE_CONNECTED_IDLE}"
    using False assms(4) by (auto simp: yielding_def)
  have eq: "yield_body E t s = bnd (aws_iot_mqtt_internal_cycle_read E t s) (\<lambda>(yieldRc, pt, s).
      bnd (yield_react E yieldRc s) (\<lambda>(yieldRc, s). yield_settle E yieldRc s))"
    using False by (simp add: yield_body_def)
  show ?thesis
    unfolding eq
  proof (intro valid_bnd_ret valid_case_prod)
    fix x rc y pt s1 z rc' s2
    assume "aws_iot_mqtt_internal_cycle_read E t s = ret x" "x = (rc, y)" "y = (pt, s1)"
    then have wf: "wf_client s1" "clientState s1 = clientState s" "rc \<notin> link_codes"
      using rd [of rc pt s1] assms(4) by (auto simp: yielding_def keeps_def)
    assume "yield_react E rc s1 = ret z" "z = (rc', s2)"
    then have "yield_result s rc' s2"
      using validD [OF yield_react_result [OF assms(3) wf(1,3)], of "(rc', s2)"] wf(2) by (simp add: yield_result_def)
    from yield_settle_result [OF this st]
    show "valid (yield_settle E rc' s2) (\<lambda>(stop, rc, s'). yield_ok rc s' \<and> (\<not> stop \<longrightarrow> yielding s'))" .
  qed
qed

lemma yield_loop_result:
  assumes "network (net E)" and "link_up E" and "callbacks_ok E" and "yielding s"
  shows "valid (yield_loop E t s) (\<lambda>(rc, s'). yield_ok rc s')"
proof (rule valid_resI)
  fix y assume "yield_loop E t s = Some y"
  then show "res_ok (\<lambda>(rc, s'). yield_ok rc s') y"
    using assms
  proof (induction rule: yield_loop.raw_induct [rotated, consumes 1, case_names step])
    case (step loop E t s y)
    have IH: "valid (loop E t s1) (\<lambda>(rc, s'). yield_ok rc s')" if "yielding s1" for s1
      using step.IH step.prems(1-3) that by (blast intro: valid_resI)
    have body: "yield_ok rc s1 \<and> (\<not> stop \<longrightarrow> yielding s1)" if "yield_body E t s = ret (stop, rc, s1)" for stop rc s1
      using validD [OF yield_body_result [OF step.prems] that] by simp
    have poll: "yield_ok rc s2 = yield_ok rc s1 \<and> yielding s2 = yielding s1"
      if "timer_expired E t s1 = (e, s2)" for e rc s1 s2
      using timer_expired_client [OF that] by (simp add: yield_ok_def yielding_def)
    show ?case
      by (rule valid_res [OF _ step.hyps], intro wp)
        (auto dest: body dest: poll intro!: valid_mono [OF IH])
  qed
qed

lemma yield_result_states:
  assumes "network (net E)" and "link_up E" and "callbacks_ok E" and "wf_client s"
    and "clientState s \<in> {CLIENT_STATE_CONNECTED_IDLE, CLIENT_STATE_PENDING_RECONNECT}" and "timeout \<noteq> 0"
  shows "valid (aws_iot_mqtt_yield E TheClient timeout s) (\<lambda>(rc, s'). wf_client s' \<and>
    (clientState s' = CLIENT_STATE_CONNECTED_IDLE \<and> rc \<notin> {NETWORK_DISCONNECTED_ERROR, NETWORK_ATTEMPTING_RECONNECT} \<or>
     clientState s' = CLIENT_STATE_PENDING_RECONNECT \<and> rc \<in> {NETWORK_ATTEMPTING_RECONNECT, NETWORK_RECONNECT_TIMED_OUT_ERROR} \<or>
     clientState s' = CLIENT_STATE_DISCONNECTED_ERROR \<and> rc = NETWORK_DISCONNECTED_ERROR))"
proof -
  have run: "yield_ok rc s2" if "aws_iot_mqtt_internal_yield E timeout s1 = ret (rc, s2)" "yielding s1" for s1 rc s2
  proof -
    have "valid (aws_iot_mqtt_internal_yield E timeout s1) (\<lambda>(rc, s'). yield_ok rc s')"
      unfolding aws_iot_mqtt_internal_yield_def
      by (intro wp yield_loop_result assms(1-3)) (use that(2) in \<open>auto simp: yielding_def dest!: start_ms_data\<close>)
    from validD [OF this that(1)] show ?thesis by simp
  qed
  show ?thesis
    unfolding aws_iot_mqtt_yield_def
    by (intro wp) (use assms(4-6) in \<open>auto simp: yield_ok_def yielding_def dest!: run split: if_splits\<close>)
qed


text \<open>
  C19: yielding.  Over the TLS network, with callbacks that hand the client back, a valid client:
  without a time, after a manual disconnect, when it is not connected and when it is busy,
  \<open>aws_iot_mqtt_yield\<close> says so and changes nothing.  From an idle client, or one that is waiting to
  reconnect, it always comes back valid and in one of three states, and the result tells which:
  \<open>NETWORK_DISCONNECTED_ERROR\<close> means disconnected, \<open>NETWORK_ATTEMPTING_RECONNECT\<close> and
  \<open>NETWORK_RECONNECT_TIMED_OUT_ERROR\<close> from a pending client mean that the reconnection is still
  pending, and every other result leaves the client idle; in particular it is never left in the
  state of a yield in progress.
\<close>

theorem yield_outcome:
  assumes "net E = tls_ops (gtod E) m" and "callbacks_ok E" and "wf_client s"
    and "aws_iot_mqtt_yield E TheClient timeout s = ret (rc, s')"
  shows "if timeout = 0 then rc = NULL_VALUE_ERROR \<and> s' = s
    else if clientState s = CLIENT_STATE_DISCONNECTED_MANUALLY then rc = NETWORK_MANUALLY_DISCONNECTED \<and> s' = s
    else if clientState s \<noteq> CLIENT_STATE_PENDING_RECONNECT \<and> \<not> state_is_connected (clientState s)
    then rc = NETWORK_DISCONNECTED_ERROR \<and> s' = s
    else if clientState s \<notin> {CLIENT_STATE_PENDING_RECONNECT, CLIENT_STATE_CONNECTED_IDLE}
    then rc = MQTT_CLIENT_NOT_IDLE_ERROR \<and> s' = s
    else wf_client s' \<and>
      (clientState s' = CLIENT_STATE_CONNECTED_IDLE \<and> rc \<notin> {NETWORK_DISCONNECTED_ERROR, NETWORK_ATTEMPTING_RECONNECT} \<or>
       clientState s' = CLIENT_STATE_PENDING_RECONNECT \<and> rc \<in> {NETWORK_ATTEMPTING_RECONNECT, NETWORK_RECONNECT_TIMED_OUT_ERROR} \<or>
       clientState s' = CLIENT_STATE_DISCONNECTED_ERROR \<and> rc = NETWORK_DISCONNECTED_ERROR)"
proof (cases "timeout = 0 \<or> clientState s \<notin> {CLIENT_STATE_PENDING_RECONNECT, CLIENT_STATE_CONNECTED_IDLE}")
  case True
  then show ?thesis
    using assms(4) by (auto simp: aws_iot_mqtt_yield_def Let_def split: if_splits)
next
  case False
  have "network (net E)"
    using assms(1) by (simp add: tls.network_axioms)
  moreover have "clientState s \<in> {CLIENT_STATE_CONNECTED_IDLE, CLIENT_STATE_PENDING_RECONNECT}" "timeout \<noteq> 0"
    using False by auto
  ultimately show ?thesis
    using validD [OF yield_result_states [OF _ tls_link_up [OF assms(1)] assms(2,3)] assms(4)] by auto
qed


section \<open>Keeping the scripted connection alive\<close>

lemma serialize_zero_frame:
  assumes "mt = DISCONNECT \<or> mt = PINGREQ" and "length buf = 512"
  shows "aws_iot_mqtt_internal_serialize_zero buf 512 mt =
    Some (Inr (mqtt_frame (header_of mt QOS0 0 0) [] @ drop 2 buf, 2))"
proof -
  let ?h = "header_of mt QOS0 0 0"
  have "aws_iot_mqtt_internal_init_header mt QOS0 0 0 = Inr ?h"
    using assms(1) by (auto simp: header_of_def aws_iot_mqtt_internal_init_header_def Let_def)
  moreover have "emit buf 0 [?h] = Some (?h # drop (Suc 0) buf, Suc 0)"
    "emit (?h # drop (Suc 0) buf) (Suc 0) (enc_len 0) = Some (?h # 0 # drop 2 buf, 2)"
    using assms(2) by (simp_all add: emit_def mem_write_def enc_len.simps numeral_2_eq_2)
  ultimately show ?thesis
    by (simp add: aws_iot_mqtt_internal_serialize_zero_def put_len_emit mqtt_frame_def enc_len.simps)
qed

lemma script_send_zero:
  fixes s :: "script st"
  assumes "script_ready s" and "mt = DISCONNECT \<or> mt = PINGREQ" and "running t" and "wd s = (rx, tx)"
  shows "aws_iot_mqtt_internal_send_packet script_env 2 t
      (set_writeBuf (mqtt_frame (header_of mt QOS0 0 0) [] @ drop 2 (writeBuf (cdata s))) s) =
    ret (SUCCESS, (set_writeBuf (mqtt_frame (header_of mt QOS0 0 0) [] @ drop 2 (writeBuf (cdata s))) s)
      \<lparr>wd := (rx, tx @ mqtt_frame (header_of mt QOS0 0 0) [])\<rparr>)"
proof -
  let ?s = "set_writeBuf (mqtt_frame (header_of mt QOS0 0 0) [] @ drop 2 (writeBuf (cdata s))) s"
  have "wf_client ?s"
    using assms(1) by (simp add: script_ready_def wf_data_def config_defs mqtt_frame_def enc_len.simps)
  from script_send [OF assms(3) _ this, of 2 rx tx] assms(4) show ?thesis
    by (simp add: mqtt_frame_def enc_len.simps)
qed

lemma script_disconnect:
  fixes s :: "script st"
  assumes "script_ready s" and "state_is_connected (clientState s)" and "wd s = (rx, tx)"
  shows "\<exists>s'. aws_iot_mqtt_disconnect script_env TheClient s = ret (SUCCESS, s') \<and>
    clientState s' = CLIENT_STATE_DISCONNECTED_MANUALLY \<and> clientStatus (cl s') = (clientStatus (cl s))\<lparr>cs_clientState := CLIENT_STATE_DISCONNECTED_MANUALLY\<rparr> \<and>
    wd s' = (rx, tx @ mqtt_frame (header_of DISCONNECT QOS0 0 0) []) \<and>
    cdata s' = (cdata s)\<lparr>writeBuf := writeBuf (cdata s')\<rparr>"
proof -
  let ?s = "set_clientState CLIENT_STATE_DISCONNECTING s"
  let ?b = "mqtt_frame (header_of DISCONNECT QOS0 0 0) [] @ drop 2 (writeBuf (cdata s))"
  have r: "script_ready ?s" "wd ?s = (rx, tx)" and r': "script_ready (set_writeBuf ?b ?s)"
    using assms by (simp_all add: script_ready_def wf_data_def config_defs mqtt_frame_def enc_len.simps)
  obtain t where t: "start_ms script_env (commandTimeoutMs (cdata (set_writeBuf ?b ?s))) (set_writeBuf ?b ?s) = (t, set_writeBuf ?b ?s)" "running t"
    using script_start [OF r'] .
  have sz: "length (writeBuf (cdata s)) = 512" "writeBufSize (cdata s) = 512"
    using assms(1) by (simp_all add: script_ready_def wf_data_def config_defs)
  have "aws_iot_mqtt_internal_disconnect script_env ?s =
      ret (SUCCESS, (set_writeBuf ?b ?s)\<lparr>wd := (rx, tx @ mqtt_frame (header_of DISCONNECT QOS0 0 0) [])\<rparr>)"
    using t(1) script_send_zero [OF r(1) _ t(2) r(2), of DISCONNECT] serialize_zero_frame [OF _ sz(1), of DISCONNECT]
    by (simp add: aws_iot_mqtt_internal_disconnect_def sz script_close)
  then show ?thesis
    using assms(2) by (simp add: aws_iot_mqtt_disconnect_def)
qed

lemma script_read_nothing:
  fixes s :: "script st"
  assumes "script_ready s" and "wd s = ([], tx)" and "running t"
  shows "aws_iot_mqtt_internal_cycle_read script_env t s = ret (NETWORK_SSL_READ_ERROR, None, s)"
proof -
  obtain t' where "start_ms script_env (packetTimeoutMs (cdata s)) s = (t', s)"
    using start_ms_running [of "packetTimeoutMs (cdata s)" s] assms(1) unfolding script_ready_def by blast
  moreover have "iot_tls_read still_clock script_tls 1 t ([], tx) = ret (NETWORK_SSL_READ_ERROR, [], None, ([], tx))"
    unfolding iot_tls_read_def
    by (subst tls_read_loop.simps)
      (simp add: MBEDTLS_ERR_SSL_WANT_READ_def MBEDTLS_ERR_SSL_WANT_WRITE_def MBEDTLS_ERR_SSL_TIMEOUT_def)
  ultimately show ?thesis
    using assms(1,2)
    by (simp add: aws_iot_mqtt_internal_cycle_read_def aws_iot_mqtt_internal_read_packet_def read_into_def st_read_def
        tls_ops_def mem_write_def)
qed

lemma script_handle_disconnect:
  fixes s :: "script st"
  assumes "script_ready s" and "state_is_connected (clientState s)" and "wd s = (rx, tx)" and "disconnectHandler (cdata s) = None"
  shows "\<exists>s'. aws_iot_mqtt_handle_disconnect script_env s = ret (NETWORK_DISCONNECTED_ERROR, s') \<and>
    clientState s' = CLIENT_STATE_DISCONNECTED_ERROR \<and> wd s' = (rx, tx @ mqtt_frame (header_of DISCONNECT QOS0 0 0) []) \<and>
    clientStatus (cl s') = (clientStatus (cl s))\<lparr>cs_clientState := CLIENT_STATE_DISCONNECTED_ERROR\<rparr> \<and>
    cdata s' = (cdata s)\<lparr>writeBuf := writeBuf (cdata s')\<rparr>"
proof -
  obtain s1 where s1: "aws_iot_mqtt_disconnect script_env TheClient s = ret (SUCCESS, s1)"
    "clientStatus (cl s1) = (clientStatus (cl s))\<lparr>cs_clientState := CLIENT_STATE_DISCONNECTED_MANUALLY\<rparr>"
    "wd s1 = (rx, tx @ mqtt_frame (header_of DISCONNECT QOS0 0 0) [])" "cdata s1 = (cdata s)\<lparr>writeBuf := writeBuf (cdata s1)\<rparr>"
    using script_disconnect [OF assms(1-3)] by blast
  have "disconnectHandler (cdata s1) = None"
    by (subst s1, use assms(4) in simp)
  then show ?thesis
    using s1 by (simp add: aws_iot_mqtt_handle_disconnect_def)
qed

lemma zero_frames:
  "mqtt_frame (header_of DISCONNECT QOS0 0 0) [] = [0xE0, 0]" "mqtt_frame (header_of PINGREQ QOS0 0 0) [] = [0xC0, 0]"
  by (simp_all add: mqtt_frame_def enc_len.simps header_of_def aws_iot_mqtt_internal_init_header_def Let_def header_defs)

text \<open>
  A lost connection is reported.  An idle client without automatic reconnection and without
  a disconnect handler yields while the TLS connection reports an error: the yield returns (it
  does not run until its time is over) with \<open>NETWORK_DISCONNECTED_ERROR\<close>, a DISCONNECT packet has
  been sent as a farewell and nothing else, the client is in the state of a connection lost by
  error although the disconnect function itself ends in the manually disconnected state, and the
  counter of lost connections has gone up by one.
\<close>

theorem yield_connection_lost:
  fixes s :: "script st"
  assumes "script_ready s" and "clientState s = CLIENT_STATE_CONNECTED_IDLE" and "wd s = ([], tx)"
    and "\<not> cs_isAutoReconnectEnabled (clientStatus (cl s))" and "disconnectHandler (cdata s) = None"
    and "1000 \<le> uint timeout"
  shows "\<exists>s'. aws_iot_mqtt_yield script_env TheClient timeout s = ret (NETWORK_DISCONNECTED_ERROR, s') \<and>
    clientState s' = CLIENT_STATE_DISCONNECTED_ERROR \<and> wd s' = ([], tx @ [0xE0, 0]) \<and>
    aws_iot_mqtt_get_network_disconnected_count s' = aws_iot_mqtt_get_network_disconnected_count s + 1"
proof -
  let ?s = "set_clientState CLIENT_STATE_CONNECTED_YIELD_IN_PROGRESS s"
  have r: "script_ready ?s" "wd ?s = ([], tx)" "state_is_connected (clientState ?s)"
    using assms(1,3) by (simp_all add: script_ready_def)
  obtain t where t: "start_ms script_env timeout ?s = (t, ?s)" "running t"
    using start_ms_running [OF assms(6), of ?s] by blast
  obtain s1 where s1: "aws_iot_mqtt_handle_disconnect script_env ?s = ret (NETWORK_DISCONNECTED_ERROR, s1)"
    "clientState s1 = CLIENT_STATE_DISCONNECTED_ERROR" "wd s1 = ([], tx @ [0xE0, 0])"
    "clientStatus (cl s1) = (clientStatus (cl ?s))\<lparr>cs_clientState := CLIENT_STATE_DISCONNECTED_ERROR\<rparr>"
    "cdata s1 = (cdata ?s)\<lparr>writeBuf := writeBuf (cdata s1)\<rparr>"
    using script_handle_disconnect [OF r(1,3,2)] assms(5) unfolding zero_frames by auto
  have d: "\<not> cs_isAutoReconnectEnabled (clientStatus (cl s1))"
    "counterNetworkDisconnected (cdata s1) = counterNetworkDisconnected (cdata s)"
    by (subst s1, use assms in simp)+
  let ?s2 = "upd_data (\<lambda>d. d\<lparr>counterNetworkDisconnected := counterNetworkDisconnected d + 1\<rparr>) s1"
  from s1(1)
  have "yield_body script_env t ?s = ret (True, NETWORK_DISCONNECTED_ERROR, ?s2)"
    using script_read_nothing [OF r(1,2) t(2)] d(1)
    by (simp add: yield_body_def yield_react_def yield_settle_def)
  then have "aws_iot_mqtt_internal_yield script_env timeout ?s = ret (NETWORK_DISCONNECTED_ERROR, ?s2)"
    using t(1) by (simp add: aws_iot_mqtt_internal_yield_def yield_loop.simps)
  moreover have "timeout \<noteq> 0"
    using assms(6) by auto
  ultimately show ?thesis
    using assms(2) s1(2,3) d(2)
    by (simp add: aws_iot_mqtt_yield_def aws_iot_mqtt_get_network_disconnected_count_def)
qed

text \<open>
  The keep-alive.  With a keep-alive interval, once the ping timer has run out: if no ping is
  outstanding, exactly a PINGREQ is sent, the ping is noted as outstanding and the timer is started
  again for the interval; if the answer to the previous ping is still missing, the connection is
  given up (DISCONNECT is sent, the result is \<open>NETWORK_DISCONNECTED_ERROR\<close> and the client is
  disconnected).  Without an interval, or before the timer has run out, nothing happens.
\<close>

theorem keep_alive_ping:
  fixes s :: "script st"
  assumes "script_ready s" and "state_is_connected (clientState s)" and "wd s = (rx, tx)"
    and "disconnectHandler (cdata s) = None"
  shows "\<exists>rc s'. aws_iot_mqtt_keep_alive script_env TheClient s = ret (rc, s') \<and>
    (if keepAliveInterval (cdata s) = 0 \<or> \<not> fst (has_timer_expired still_clock (pingTimer (cl s)) (rx, tx))
     then rc = SUCCESS \<and> s' = s
     else if cs_isPingOutstanding (clientStatus (cl s))
     then rc = NETWORK_DISCONNECTED_ERROR \<and> clientState s' = CLIENT_STATE_DISCONNECTED_ERROR \<and>
       wd s' = (rx, tx @ [0xE0, 0])
     else rc = SUCCESS \<and> clientState s' = clientState s \<and> wd s' = (rx, tx @ [0xC0, 0]) \<and>
       cs_isPingOutstanding (clientStatus (cl s')) \<and>
       end_time (pingTimer (cl s')) = \<lparr>tv_sec = uint (keepAliveInterval (cdata s)), tv_usec = 0\<rparr>)"
proof -
  have pure: "snd (has_timer_expired still_clock (pingTimer (cl s)) (rx, tx)) = (rx, tx)"
    by (simp add: has_timer_expired_def still_clock_def Let_def)
  have poll: "timer_expired script_env (pingTimer (cl s)) s = (fst (has_timer_expired still_clock (pingTimer (cl s)) (rx, tx)), s)"
    using pure assms(3) by (simp add: timer_expired_def split_beta)
  let ?b = "mqtt_frame (header_of PINGREQ QOS0 0 0) [] @ drop 2 (writeBuf (cdata s))"
  obtain t where t: "start_ms script_env (commandTimeoutMs (cdata s)) s = (t, s)" "running t"
    using script_start [OF assms(1)] .
  have sz: "length (writeBuf (cdata s)) = 512" "writeBufSize (cdata s) = 512"
    using assms(1) by (simp_all add: script_ready_def wf_data_def config_defs)
  note send = script_send_zero [OF assms(1) _ t(2) assms(3), of PINGREQ] serialize_zero_frame [OF _ sz(1), of PINGREQ]
  show ?thesis
    using script_handle_disconnect [OF assms] poll t(1) send
    by (auto simp: aws_iot_mqtt_keep_alive_def sz zero_frames start_sec_def countdown_sec_def still_clock_def
        timeradd_def Let_def uint_up_ucast is_up set_pingTimer_def)
qed

theorem keep_alive_ping_witness:
  "\<exists>s'. aws_iot_mqtt_keep_alive script_env TheClient (script_client CLIENT_STATE_CONNECTED_IDLE [1]) = ret (SUCCESS, s') \<and>
    wd s' = ([1], [0xC0, 0]) \<and> cs_isPingOutstanding (clientStatus (cl s'))"
  using keep_alive_ping [of "script_client CLIENT_STATE_CONNECTED_IDLE [1]" "[1]" "[]"]
  by (simp add: script_ready_def script_client_def sample_client_def wf_data_def config_defs
      has_timer_expired_def still_clock_def timersub_def init_timer_def Let_def) blast

definition offline_client :: "script st" where
  "offline_client = upd_status (\<lambda>t. t\<lparr>cs_isAutoReconnectEnabled := False\<rparr>) (script_client CLIENT_STATE_CONNECTED_IDLE [])"

lemma offline_client_simps [simp]:
  "script_ready offline_client" "clientState offline_client = CLIENT_STATE_CONNECTED_IDLE" "wd offline_client = ([], [])"
  "\<not> cs_isAutoReconnectEnabled (clientStatus (cl offline_client))" "disconnectHandler (cdata offline_client) = None"
  "wf_client offline_client"
  by (simp_all add: offline_client_def script_ready_def)
    (simp_all add: script_client_def sample_client_def)

theorem yield_connection_lost_witness:
  "\<exists>s'. aws_iot_mqtt_yield script_env TheClient 5000 offline_client = ret (NETWORK_DISCONNECTED_ERROR, s') \<and>
    clientState s' = CLIENT_STATE_DISCONNECTED_ERROR \<and> wd s' = ([], [0xE0, 0])"
  using yield_connection_lost [of offline_client "[]" 5000] by auto

theorem yield_outcome_witness:
  "\<exists>s'. aws_iot_mqtt_yield script_env TheClient 5000 (script_client CLIENT_STATE_DISCONNECTED_MANUALLY []) =
      ret (NETWORK_MANUALLY_DISCONNECTED, s') \<and> s' = script_client CLIENT_STATE_DISCONNECTED_MANUALLY []"
proof -
  let ?s = "script_client CLIENT_STATE_DISCONNECTED_MANUALLY []"
  obtain rc s' where r: "aws_iot_mqtt_yield script_env TheClient 5000 ?s = ret (rc, s')"
    by (simp add: aws_iot_mqtt_yield_def)
  have "rc = NETWORK_MANUALLY_DISCONNECTED \<and> s' = ?s"
    using yield_outcome [OF _ _ _ r, of script_tls] by simp
  then show ?thesis using r by simp
qed

text \<open>
  The disconnect handler has no say in the state.  Whatever the disconnect handler of the
  application does to the client, even when it has connected it again, and whatever the network
  answers, giving up a connection ends with \<open>NETWORK_DISCONNECTED_ERROR\<close> and the client in the
  state of a connection lost by error.
\<close>

theorem handle_disconnect_overrides:
  assumes "aws_iot_mqtt_handle_disconnect E s = ret (rc, s')"
  shows "rc = NETWORK_DISCONNECTED_ERROR \<and> clientState s' = CLIENT_STATE_DISCONNECTED_ERROR"
  using validD [OF handle_disconnect_result assms] by simp

text \<open>An application whose disconnect handler leaves the client connected.\<close>

definition reconnected_env :: "script env" where
  "reconnected_env = script_env\<lparr>disc := (\<lambda>h data s. ret (set_clientState CLIENT_STATE_CONNECTED_IDLE s))\<rparr>"

theorem handle_disconnect_overrides_witness:
  "\<exists>s'. aws_iot_mqtt_handle_disconnect reconnected_env
      (upd_data (\<lambda>d. d\<lparr>disconnectHandler := Some 7\<rparr>) (script_client CLIENT_STATE_INITIALIZED [])) =
      ret (NETWORK_DISCONNECTED_ERROR, s') \<and> clientState s' = CLIENT_STATE_DISCONNECTED_ERROR"
proof -
  let ?s = "upd_data (\<lambda>d. d\<lparr>disconnectHandler := Some 7\<rparr>) (script_client CLIENT_STATE_INITIALIZED [])"
  have "close_notify_loop script_tls w = ret w" for w
    by (subst close_notify_loop.simps) (simp add: MBEDTLS_ERR_SSL_WANT_WRITE_def)
  then have "close_network reconnected_env s = ret (SUCCESS, s)" if "wd s = (rx, tx)" for s rx tx
    using that by (simp add: close_network_def reconnected_env_def tls_ops_def iot_tls_disconnect_def iot_tls_destroy_def script_tls_def)
  then obtain rc s' where r: "aws_iot_mqtt_handle_disconnect reconnected_env ?s = ret (rc, s')"
    by (simp add: aws_iot_mqtt_handle_disconnect_def aws_iot_mqtt_disconnect_def aws_iot_mqtt_force_client_disconnect_def
        reconnected_env_def)
  then show ?thesis
    using handle_disconnect_overrides [OF r] by simp
qed

end
