(* ===== verification/Client_Api.thy ===== *)
theory Client_Api
  imports Client_Yield
begin

text \<open>
  The public functions of the client as one interface.  \<open>call\<close> performs one call of the
  application and \<open>api_run\<close> a sequence of them; \<open>life_step\<close> is the life cycle that the functions
  promise, over the connection state alone.  Every call follows the life cycle and leaves a valid
  client in one of its five resting states.
\<close>

section \<open>Calls of the application\<close>

datatype api_call =
    Connect "IoT_Client_Connect_Params option"
  | Disconnect
  | Operate operation
  | Yield u32
  | AttemptReconnect
  | SetAutoReconnect bool
  | SetDisconnectHandler "handler option" "addr option"
  | ResetDisconnectedCount

fun call :: "'w env \<Rightarrow> api_call \<Rightarrow> 'w st \<Rightarrow> (IoT_Error_t \<times> 'w st) exec" where
  "call E (Connect p) s = aws_iot_mqtt_connect E TheClient p s"
| "call E Disconnect s = aws_iot_mqtt_disconnect E TheClient s"
| "call E (Operate x) s = perform E TheClient x s"
| "call E (Yield timeout) s = aws_iot_mqtt_yield E TheClient timeout s"
| "call E AttemptReconnect s = aws_iot_mqtt_attempt_reconnect E TheClient s"
| "call E (SetAutoReconnect b) s = ret (aws_iot_mqtt_autoreconnect_set_status TheClient b s)"
| "call E (SetDisconnectHandler h d) s = ret (aws_iot_mqtt_set_disconnect_handler TheClient h d s)"
| "call E ResetDisconnectedCount s = ret (SUCCESS, aws_iot_mqtt_reset_network_disconnected_count s)"

inductive api_run :: "'w env \<Rightarrow> 'w st \<Rightarrow> (api_call \<times> IoT_Error_t) list \<Rightarrow> 'w st \<Rightarrow> bool" for E where
  start: "length (writeBuf (cdata s0)) = AWS_IOT_MQTT_TX_BUF_LEN \<Longrightarrow> length (readBuf (cdata s0)) = AWS_IOT_MQTT_RX_BUF_LEN \<Longrightarrow>
    length (messageHandlers (cdata s0)) = AWS_IOT_MQTT_NUM_SUBSCRIBE_HANDLERS \<Longrightarrow>
    aws_iot_mqtt_init TheClient ip s0 = (SUCCESS, s) \<Longrightarrow> api_run E s0 [] s"
| step: "api_run E s0 tr s \<Longrightarrow> call E c s = ret (rc, s') \<Longrightarrow> api_run E s0 (tr @ [(c, rc)]) s'"

inductive_cases api_run_startE: "api_run E s0 [] s"
inductive_cases api_run_stepE: "api_run E s0 (tr @ [x]) s"

section \<open>The life cycle\<close>

abbreviation resting :: "ClientState set" where
  "resting \<equiv> {CLIENT_STATE_INITIALIZED, CLIENT_STATE_CONNECTED_IDLE, CLIENT_STATE_DISCONNECTED_ERROR,
    CLIENT_STATE_DISCONNECTED_MANUALLY, CLIENT_STATE_PENDING_RECONNECT}"

inductive life_step :: "ClientState \<Rightarrow> api_call \<Rightarrow> IoT_Error_t \<Rightarrow> ClientState \<Rightarrow> bool" where
  connected: "st \<noteq> CLIENT_STATE_CONNECTED_IDLE \<Longrightarrow> life_step st (Connect p) SUCCESS CLIENT_STATE_CONNECTED_IDLE"
| connect_failed: "st \<noteq> CLIENT_STATE_CONNECTED_IDLE \<Longrightarrow> rc \<noteq> SUCCESS \<Longrightarrow>
    life_step st (Connect p) rc CLIENT_STATE_DISCONNECTED_ERROR"
| connect_again: "life_step CLIENT_STATE_CONNECTED_IDLE (Connect p) NETWORK_ALREADY_CONNECTED_ERROR CLIENT_STATE_CONNECTED_IDLE"
| disconnected: "life_step CLIENT_STATE_CONNECTED_IDLE Disconnect SUCCESS CLIENT_STATE_DISCONNECTED_MANUALLY"
| disconnect_failed: "rc \<noteq> SUCCESS \<Longrightarrow> life_step CLIENT_STATE_CONNECTED_IDLE Disconnect rc CLIENT_STATE_CONNECTED_IDLE"
| disconnect_again: "st \<noteq> CLIENT_STATE_CONNECTED_IDLE \<Longrightarrow> life_step st Disconnect NETWORK_DISCONNECTED_ERROR st"
| operated: "life_step CLIENT_STATE_CONNECTED_IDLE (Operate x) rc CLIENT_STATE_CONNECTED_IDLE"
| refused: "st \<noteq> CLIENT_STATE_CONNECTED_IDLE \<Longrightarrow> rc \<noteq> SUCCESS \<Longrightarrow> life_step st (Operate x) rc st"
| yielded: "st \<in> {CLIENT_STATE_CONNECTED_IDLE, CLIENT_STATE_PENDING_RECONNECT} \<Longrightarrow>
    rc \<notin> {NETWORK_DISCONNECTED_ERROR, NETWORK_ATTEMPTING_RECONNECT} \<Longrightarrow> life_step st (Yield n) rc CLIENT_STATE_CONNECTED_IDLE"
| lost: "st \<in> {CLIENT_STATE_CONNECTED_IDLE, CLIENT_STATE_PENDING_RECONNECT} \<Longrightarrow>
    life_step st (Yield n) NETWORK_DISCONNECTED_ERROR CLIENT_STATE_DISCONNECTED_ERROR"
| pending: "st \<in> {CLIENT_STATE_CONNECTED_IDLE, CLIENT_STATE_PENDING_RECONNECT} \<Longrightarrow>
    rc \<in> {NETWORK_ATTEMPTING_RECONNECT, NETWORK_RECONNECT_TIMED_OUT_ERROR} \<Longrightarrow> life_step st (Yield n) rc CLIENT_STATE_PENDING_RECONNECT"
| not_yielded: "(rc, st) \<in> {(NETWORK_MANUALLY_DISCONNECTED, CLIENT_STATE_DISCONNECTED_MANUALLY),
      (NETWORK_DISCONNECTED_ERROR, CLIENT_STATE_INITIALIZED), (NETWORK_DISCONNECTED_ERROR, CLIENT_STATE_DISCONNECTED_ERROR)} \<Longrightarrow>
    life_step st (Yield n) rc st"
| no_time: "life_step st (Yield 0) NULL_VALUE_ERROR st"
| reconnected: "st \<noteq> CLIENT_STATE_CONNECTED_IDLE \<Longrightarrow> rc \<notin> {NETWORK_ATTEMPTING_RECONNECT, SUCCESS} \<Longrightarrow>
    life_step st AttemptReconnect rc CLIENT_STATE_CONNECTED_IDLE"
| reconnect_failed: "st \<noteq> CLIENT_STATE_CONNECTED_IDLE \<Longrightarrow>
    life_step st AttemptReconnect NETWORK_ATTEMPTING_RECONNECT CLIENT_STATE_PENDING_RECONNECT"
| reconnect_again: "life_step CLIENT_STATE_CONNECTED_IDLE AttemptReconnect NETWORK_ALREADY_CONNECTED_ERROR CLIENT_STATE_CONNECTED_IDLE"
| configured: "c \<in> {SetAutoReconnect b, SetDisconnectHandler h d, ResetDisconnectedCount} \<Longrightarrow> life_step st c rc st"

inductive_simps life_step_simps:
  "life_step st (Connect p) rc st'" "life_step st Disconnect rc st'" "life_step st (Operate x) rc st'"
  "life_step st (Yield n) rc st'" "life_step st AttemptReconnect rc st'"

lemma attempt_reconnect_never_success:
  "valid (aws_iot_mqtt_attempt_reconnect E c s) (\<lambda>(rc, s'). rc \<noteq> SUCCESS)"
  unfolding aws_iot_mqtt_attempt_reconnect_def by (intro wp) auto

lemma call_follows:
  assumes "net E = tls_ops (gtod E) m" and "callbacks_ok E" and "wf_client s" and "clientState s \<in> resting"
    and "call E c s = ret (rc, s')"
  shows "wf_client s' \<and> life_step (clientState s) c rc (clientState s')"
proof -
  have n: "network (net E)"
    using assms(1) by (simp add: tls.network_axioms)
  have v: "aws_iot_mqtt_is_client_state_valid_for_connect (clientState s) \<longleftrightarrow> clientState s \<noteq> CLIENT_STATE_CONNECTED_IDLE"
    "state_is_connected (clientState s) \<longleftrightarrow> clientState s = CLIENT_STATE_CONNECTED_IDLE"
    using assms(4) by auto
  show ?thesis
  proof (cases c)
    case (Connect p)
    then show ?thesis
      using validD [OF connect_result [OF n assms(2,3), of p], of "(rc, s')"] assms(3,5) v
      by (auto simp: life_step_simps split: if_splits)
  next
    case Disconnect
    then show ?thesis
      using validD [OF disconnect_result [of E s], of "(rc, s')"] assms(3,5) v
      by (auto simp: life_step_simps split: if_splits)
  next
    case (Operate x)
    then show ?thesis
      using perform.restores [OF assms(2,3), of TheClient x rc s'] assms(4,5)
      by (auto simp: life_step_simps)
  next
    case (Yield t)
    then show ?thesis
    proof (cases "t = 0 \<or> clientState s \<notin> {CLIENT_STATE_PENDING_RECONNECT, CLIENT_STATE_CONNECTED_IDLE}")
      case True
      then show ?thesis
        using Yield assms(3-5) by (auto simp: aws_iot_mqtt_yield_def Let_def life_step_simps split: if_splits)
    next
      case False
      then show ?thesis
        using validD [OF yield_result_states [OF n tls_link_up [OF assms(1)] assms(2,3)], of t "(rc, s')"] Yield assms(4,5)
        by (auto simp: life_step_simps)
    qed
  next
    case AttemptReconnect
    show ?thesis
    proof (cases "clientState s = CLIENT_STATE_CONNECTED_IDLE")
      case True
      then show ?thesis
        using AttemptReconnect assms(3,5) by (auto simp: aws_iot_mqtt_attempt_reconnect_def life_step_simps)
    next
      case False
      then show ?thesis
        using validD [OF attempt_reconnect_result [OF n assms(2,3)], of "(rc, s')"]
          validD [OF attempt_reconnect_never_success, of E TheClient s "(rc, s')"] AttemptReconnect assms(5) v
        by (auto simp: life_step_simps split: if_splits)
    qed
  qed (use assms(3,5) in \<open>auto simp: aws_iot_mqtt_autoreconnect_set_status_def aws_iot_mqtt_set_disconnect_handler_def
      aws_iot_mqtt_reset_network_disconnected_count_def wf_data_def intro!: life_step.configured split: if_splits\<close>)
qed

lemma life_step_resting: "life_step st c rc st' \<Longrightarrow> st \<in> resting \<Longrightarrow> st' \<in> resting"
  by (induction rule: life_step.induct) auto

lemma api_run_invariant:
  assumes "net E = tls_ops (gtod E) m" and "callbacks_ok E" and "api_run E s0 tr s"
  shows "wf_client s \<and> clientState s \<in> resting"
  using assms(3)
proof induction
  case (start s0 ip s)
  then show ?case
    by (auto simp: aws_iot_mqtt_init_def Let_def wf_data_def iot_tls_init_def iot_tls_set_connect_params_def
        split: option.splits if_splits)
next
  case (step s0 tr s c rc s')
  then show ?case
    using call_follows [OF assms(1,2), of s c rc s'] life_step_resting by blast
qed

text \<open>The life cycle along a sequence of calls.\<close>

inductive life_run :: "(api_call \<times> IoT_Error_t) list \<Rightarrow> ClientState \<Rightarrow> bool" where
  born: "life_run [] CLIENT_STATE_INITIALIZED"
| lived: "life_run tr st \<Longrightarrow> life_step st c rc st' \<Longrightarrow> life_run (tr @ [(c, rc)]) st'"

lemma api_run_life:
  assumes "net E = tls_ops (gtod E) m" and "callbacks_ok E" and "api_run E s0 tr s"
  shows "life_run tr (clientState s)"
  using assms(3)
proof induction
  case (start s0 ip s)
  then show ?case
    using life_run.born by (auto simp: aws_iot_mqtt_init_def Let_def iot_tls_init_def split: option.splits if_splits)
next
  case (step s0 tr s c rc s')
  then show ?case
    using call_follows [OF assms(1,2), of s c rc s'] api_run_invariant [OF assms(1,2), of s0 tr s] life_run.lived by blast
qed

text \<open>
  C1: the client follows its life cycle.  Over the TLS network and with callbacks that hand the
  client back, every sequence of public calls after a successful initialisation is a run of the
  life cycle \<open>life_step\<close> with the results that the calls returned, and ends with a valid client
  in one of the five resting states: initialised, idle, disconnected by error, disconnected
  manually, or waiting to reconnect.
\<close>

theorem client_refines_life_cycle:
  assumes "net E = tls_ops (gtod E) m" and "callbacks_ok E" and "api_run E s0 tr s"
  shows "life_run tr (clientState s) \<and> wf_client s \<and> clientState s \<in> resting"
  using api_run_life [OF assms] api_run_invariant [OF assms] by blast

text \<open>What the life cycle promises: an idle or pending client has connected or tried to reconnect.\<close>

fun connecting :: "api_call \<times> IoT_Error_t \<Rightarrow> bool" where
  "connecting (Connect p, rc) = (rc = SUCCESS)"
| "connecting (AttemptReconnect, rc) = True"
| "connecting x = False"

lemma connected_before:
  assumes "life_run tr st" and "st \<in> {CLIENT_STATE_CONNECTED_IDLE, CLIENT_STATE_PENDING_RECONNECT}"
  shows "list_ex connecting tr"
  using assms
proof induction
  case (lived tr st c rc st')
  from lived.hyps(2) lived.prems lived.IH show ?case
    by (cases rule: life_step.cases) (auto simp: list_ex_iff)
qed simp

text \<open>
  No operation succeeds on a client that has never connected.  If publishing, subscribing,
  unsubscribing or resubscribing returned \<open>SUCCESS\<close> somewhere in a sequence of public calls, an
  earlier call of the sequence was a successful connect or an attempt to reconnect.
\<close>

theorem success_needs_connection:
  assumes "net E = tls_ops (gtod E) m" and "callbacks_ok E" and "api_run E s0 (tr @ [(Operate x, SUCCESS)]) s"
  shows "list_ex connecting tr"
proof -
  obtain s1 where s1: "api_run E s0 tr s1" "call E (Operate x) s1 = ret (SUCCESS, s)"
    using assms(3) by (auto elim: api_run_stepE)
  then have "life_step (clientState s1) (Operate x) SUCCESS (clientState s)"
    using api_run_invariant [OF assms(1,2) s1(1)] call_follows [OF assms(1,2) _ _ s1(2)] by blast
  then have "clientState s1 = CLIENT_STATE_CONNECTED_IDLE"
    by (simp add: life_step_simps)
  then show ?thesis
    using connected_before [OF api_run_life [OF assms(1,2) s1(1)]] by simp
qed

section \<open>A run of the scripted client\<close>

definition script_init :: IoT_Client_Init_Params where
  "script_init = iotClientInitParamsDefault\<lparr>pHostURL := Some [104, 0], port := 8883, pRootCALocation := Some [99, 0],
     pDevicePrivateKeyLocation := Some [107, 0], pDeviceCertLocation := Some [100, 0]\<rparr>"

lemma script_run:
  "\<exists>s. api_run script_env (script_client CLIENT_STATE_INVALID [0x20, 2, 0, 0])
     ([(Connect (Some script_params), SUCCESS)] @ [(Operate Resubscribe, SUCCESS)]) s"
proof -
  let ?s0 = "script_client CLIENT_STATE_INVALID [0x20, 2, 0, 0]"
  obtain s1 where s1: "aws_iot_mqtt_init TheClient (Some script_init) ?s0 = (SUCCESS, s1)"
    by (simp add: aws_iot_mqtt_init_def script_init_def iotClientInitParamsDefault_def iot_tls_init_def Let_def)
  then have w: "wd s1 = (mqtt_frame 0x20 [0, 0] @ [], [])"
    and p1: "script_ready s1" "clientState s1 = CLIENT_STATE_INITIALIZED"
      "tls_pRootCALocation (tlsConnectParams (networkStack (cl s1))) = Some [99, 0]"
      "map mh_topicName (messageHandlers (cdata s1)) = replicate 5 None"
    by (auto simp: aws_iot_mqtt_init_def script_init_def iotClientInitParamsDefault_def iot_tls_init_def Let_def
        iot_tls_set_connect_params_def mqtt_frame_def enc_len.simps script_ready_def wf_data_def config_defs)
      (auto simp: sample_client_def)
  obtain s2 where s2: "aws_iot_mqtt_connect script_env TheClient (Some script_params) s1 = ret (SUCCESS, s2)"
    "clientState s2 = CLIENT_STATE_CONNECTED_IDLE" "script_ready s2" "messageHandlers (cdata s2) = messageHandlers (cdata s1)"
    using script_connect [OF p1(1) _ p1(3) _ script_params_frame(1) _ _ _ w]
    by (simp add: p1(2) script_params_frame mqtt_frame_def enc_len.simps slack_def)
      (auto simp: script_params_def iotClientConnectParamsDefault_def)
  have "aws_iot_mqtt_get_free_message_handler_index (set_clientState st s2) = Some 0" for st
  proof -
    obtain h hs where "messageHandlers (cdata s2) = h # hs" "mh_topicName h = None"
      using p1(4) unfolding s2(4) by (cases "messageHandlers (cdata s1)") (auto simp: numeral_eq_Suc)
    then show ?thesis
      by (simp add: aws_iot_mqtt_get_free_message_handler_index_def config_defs upt_rec arr_get_def)
  qed
  then obtain s3 where s3: "perform script_env TheClient Resubscribe s2 = ret (SUCCESS, s3)"
    using s2(2) by (simp add: aws_iot_mqtt_resubscribe_def aws_iot_mqtt_internal_resubscribe_def)
  have "api_run script_env ?s0 [] s1"
    by (rule api_run.start [OF _ _ _ s1]) (simp_all add: config_defs sample_client_def)
  from api_run.step [OF api_run.step [OF this, of "Connect (Some script_params)"], of SUCCESS s2 "Operate Resubscribe"]
  show ?thesis
    using s2(1) s3 by auto
qed

theorem client_refines_life_cycle_witness:
  "\<exists>s. api_run script_env (script_client CLIENT_STATE_INVALID [0x20, 2, 0, 0])
      ([(Connect (Some script_params), SUCCESS)] @ [(Operate Resubscribe, SUCCESS)]) s \<and>
    life_run ([(Connect (Some script_params), SUCCESS)] @ [(Operate Resubscribe, SUCCESS)]) (clientState s)"
proof -
  obtain s where r: "api_run script_env (script_client CLIENT_STATE_INVALID [0x20, 2, 0, 0])
      ([(Connect (Some script_params), SUCCESS)] @ [(Operate Resubscribe, SUCCESS)]) s"
    using script_run by blast
  with client_refines_life_cycle [OF _ _ r, of script_tls] show ?thesis
    by auto
qed

theorem success_needs_connection_witness:
  "list_ex connecting [(Connect (Some script_params), SUCCESS)]"
proof -
  obtain s where r: "api_run script_env (script_client CLIENT_STATE_INVALID [0x20, 2, 0, 0])
      ([(Connect (Some script_params), SUCCESS)] @ [(Operate Resubscribe, SUCCESS)]) s"
    using script_run by blast
  show ?thesis
    by (rule success_needs_connection [OF _ _ r, of script_tls]) simp_all
qed

end
