(* ===== verification/Threads.thy ===== *)
theory Threads
  imports Client_State
begin

text \<open>
  The build with threads: \<open>platform/linux/pthread/threads_pthread_wrapper.c\<close>, the functions of \<open>aws_iot_mqtt_client.c\<close> that lock and
  unlock a mutex of the client, and \<open>aws_iot_mqtt_set_client_state\<close> with the mutex around it.

  The pthread library is a parameter, the record \<open>'m pthread_ops\<close>; what POSIX says of a mutex is the locale
  \<open>posix_mutex\<close>.  Several threads run \<open>aws_iot_mqtt_set_client_state\<close> statement by statement in any order, and the locale shows that
  this is the same as running the single-threaded function of \<open>Client_State\<close> for one call after the other.
\<close>

section \<open>The wrapper\<close>

text \<open>\<open>None\<close> is a thread that waits; the first argument of the locking functions is the thread.\<close>

record 'm pthread_ops =
  pthread_mutex_init :: "'m \<Rightarrow> int \<times> 'm"
  pthread_mutex_lock :: "nat \<Rightarrow> 'm \<Rightarrow> (int \<times> 'm) option"
  pthread_mutex_trylock :: "nat \<Rightarrow> 'm \<Rightarrow> int \<times> 'm"
  pthread_mutex_unlock :: "nat \<Rightarrow> 'm \<Rightarrow> int \<times> 'm"
  pthread_mutex_destroy :: "'m \<Rightarrow> int \<times> 'm"

definition aws_iot_thread_mutex_init :: "'m pthread_ops \<Rightarrow> 'm \<Rightarrow> IoT_Error_t \<times> 'm" where
  "aws_iot_thread_mutex_init P m = (case pthread_mutex_init P m of (rc, m) \<Rightarrow> (if rc \<noteq> 0 then MUTEX_INIT_ERROR else SUCCESS, m))"

definition aws_iot_thread_mutex_lock :: "'m pthread_ops \<Rightarrow> nat \<Rightarrow> 'm \<Rightarrow> (IoT_Error_t \<times> 'm) option" where
  "aws_iot_thread_mutex_lock P t m = map_option (\<lambda>(rc, m). (if rc \<noteq> 0 then MUTEX_LOCK_ERROR else SUCCESS, m)) (pthread_mutex_lock P t m)"

definition aws_iot_thread_mutex_trylock :: "'m pthread_ops \<Rightarrow> nat \<Rightarrow> 'm \<Rightarrow> IoT_Error_t \<times> 'm" where
  "aws_iot_thread_mutex_trylock P t m = (case pthread_mutex_trylock P t m of (rc, m) \<Rightarrow> (if rc \<noteq> 0 then MUTEX_LOCK_ERROR else SUCCESS, m))"

definition aws_iot_thread_mutex_unlock :: "'m pthread_ops \<Rightarrow> nat \<Rightarrow> 'm \<Rightarrow> IoT_Error_t \<times> 'm" where
  "aws_iot_thread_mutex_unlock P t m = (case pthread_mutex_unlock P t m of (rc, m) \<Rightarrow> (if rc \<noteq> 0 then MUTEX_UNLOCK_ERROR else SUCCESS, m))"

definition aws_iot_thread_mutex_destroy :: "'m pthread_ops \<Rightarrow> 'm \<Rightarrow> IoT_Error_t \<times> 'm" where
  "aws_iot_thread_mutex_destroy P m = (case pthread_mutex_destroy P m of (rc, m) \<Rightarrow> (if rc \<noteq> 0 then MUTEX_DESTROY_ERROR else SUCCESS, m))"

section \<open>The mutex of the client\<close>

text \<open>\<open>block\<close> is the member \<open>isBlockOnThreadLockEnabled\<close>; the pointer to the mutex of a client is not NULL.\<close>

definition aws_iot_mqtt_client_lock_mutex :: "'m pthread_ops \<Rightarrow> bool \<Rightarrow> clientRef \<Rightarrow> nat \<Rightarrow> 'm \<Rightarrow> (IoT_Error_t \<times> 'm) option" where
  "aws_iot_mqtt_client_lock_mutex P block pClient t m =
     (case pClient of
        NullClient \<Rightarrow> Some (NULL_VALUE_ERROR, m)
      | TheClient \<Rightarrow> if \<not> block then Some (aws_iot_thread_mutex_trylock P t m) else aws_iot_thread_mutex_lock P t m)"

definition aws_iot_mqtt_client_unlock_mutex :: "'m pthread_ops \<Rightarrow> clientRef \<Rightarrow> nat \<Rightarrow> 'm \<Rightarrow> IoT_Error_t \<times> 'm" where
  "aws_iot_mqtt_client_unlock_mutex P pClient t m = (case pClient of NullClient \<Rightarrow> (NULL_VALUE_ERROR, m) | TheClient \<Rightarrow> aws_iot_thread_mutex_unlock P t m)"

section \<open>Threads that change the state\<close>

text \<open>Where a thread is in \<open>aws_iot_mqtt_set_client_state\<close>: before the lock, the comparison, the assignment, the unlock, and returned.\<close>

datatype phase = Enter | Compare | Assign | Leave IoT_Error_t | Return IoT_Error_t

record state_call =
  call_expected :: ClientState
  call_new :: ClientState
  call_phase :: phase

record ('m, 'w) system =
  sy_mutex :: 'm
  sy_client :: "'w st"
  sy_calls :: "state_call list"

text \<open>One statement of thread \<open>t\<close>; \<open>None\<close> when it waits or has returned.\<close>

definition set_state_step :: "'m pthread_ops \<Rightarrow> bool \<Rightarrow> nat \<Rightarrow> ('m, 'w) system \<Rightarrow> ('m, 'w) system option" where
  "set_state_step P block t sys =
     (let c = sy_calls sys ! t; go = (\<lambda>ph. (sy_calls sys)[t := c\<lparr>call_phase := ph\<rparr>]) in
      if length (sy_calls sys) \<le> t then None
      else case call_phase c of
        Enter \<Rightarrow> map_option (\<lambda>(rc, m). sys\<lparr>sy_mutex := m, sy_calls := go (if rc \<noteq> SUCCESS then Return rc else Compare)\<rparr>)
          (aws_iot_mqtt_client_lock_mutex P block TheClient t (sy_mutex sys))
      | Compare \<Rightarrow> Some (sys\<lparr>sy_calls := go (if call_expected c = aws_iot_mqtt_get_client_state TheClient (sy_client sys) then Assign else Leave MQTT_UNEXPECTED_CLIENT_STATE_ERROR)\<rparr>)
      | Assign \<Rightarrow> Some (sys\<lparr>sy_client := set_clientState (call_new c) (sy_client sys), sy_calls := go (Leave SUCCESS)\<rparr>)
      | Leave rc \<Rightarrow> (case aws_iot_mqtt_client_unlock_mutex P TheClient t (sy_mutex sys) of (threadRc, m) \<Rightarrow>
          Some (sys\<lparr>sy_mutex := m, sy_calls := go (Return (if rc = SUCCESS \<and> threadRc \<noteq> SUCCESS then threadRc else rc))\<rparr>))
      | Return rc \<Rightarrow> None)"

text \<open>A schedule: the threads in the order in which they take a step; one that waits or has returned does nothing.\<close>

definition schedule :: "'m pthread_ops \<Rightarrow> bool \<Rightarrow> nat list \<Rightarrow> ('m, 'w) system \<Rightarrow> ('m, 'w) system" where
  "schedule P block ts sys = fold (\<lambda>t sys. case set_state_step P block t sys of None \<Rightarrow> sys | Some sys' \<Rightarrow> sys') ts sys"

text \<open>The calls one after the other, with the function of the build without threads.\<close>

fun serial :: "state_call list \<Rightarrow> nat list \<Rightarrow> 'w st \<Rightarrow> (nat \<times> IoT_Error_t) list \<times> 'w st" where
  "serial cs [] s = ([], s)"
| "serial cs (i # is) s =
     (case aws_iot_mqtt_set_client_state TheClient (call_expected (cs ! i)) (call_new (cs ! i)) s of
        (rc, s) \<Rightarrow> case serial cs is s of (rs, s) \<Rightarrow> ((i, rc) # rs, s))"

definition all_enter :: "state_call list \<Rightarrow> bool" where
  "all_enter cs \<longleftrightarrow> (\<forall>c \<in> set cs. call_phase c = Enter)"

lemma serial_snoc:
  "serial cs (is @ [i]) s =
     (case serial cs is s of (rs, s') \<Rightarrow> case aws_iot_mqtt_set_client_state TheClient (call_expected (cs ! i)) (call_new (cs ! i)) s' of (rc, s'') \<Rightarrow> (rs @ [(i, rc)], s''))"
  by (induction "is" arbitrary: s) (auto split: prod.splits)

section \<open>A mutex according to POSIX\<close>

text \<open>
  \<open>holder m\<close> is the thread that has locked the mutex.  A locking function succeeds only when nobody has, and then the thread has; when it
  fails nothing changes; nobody waits for a mutex that is free; and the thread that has it can unlock it.
\<close>

locale posix_mutex =
  fixes P :: "'m pthread_ops" and holder :: "'m \<Rightarrow> nat option"
  assumes init_law: "pthread_mutex_init P m = (0, m') \<Longrightarrow> holder m' = None"
    and lock_law: "pthread_mutex_lock P t m = Some (0, m') \<Longrightarrow> holder m = None \<and> holder m' = Some t"
    and lock_failed: "pthread_mutex_lock P t m = Some (e, m') \<Longrightarrow> e \<noteq> 0 \<Longrightarrow> holder m' = holder m"
    and lock_waits: "pthread_mutex_lock P t m = None \<Longrightarrow> holder m \<noteq> None"
    and trylock_law: "pthread_mutex_trylock P t m = (0, m') \<Longrightarrow> holder m = None \<and> holder m' = Some t"
    and trylock_failed: "pthread_mutex_trylock P t m = (e, m') \<Longrightarrow> e \<noteq> 0 \<Longrightarrow> holder m' = holder m"
    and unlock_law: "holder m = Some t \<Longrightarrow> \<exists>m'. pthread_mutex_unlock P t m = (0, m') \<and> holder m' = None"
begin

lemma lock_cases:
  assumes "aws_iot_mqtt_client_lock_mutex P block TheClient t m = Some (rc, m')"
  shows "rc = SUCCESS \<and> holder m = None \<and> holder m' = Some t \<or> rc = MUTEX_LOCK_ERROR \<and> holder m' = holder m"
  using assms lock_law lock_failed trylock_law trylock_failed
  by (auto simp: aws_iot_mqtt_client_lock_mutex_def aws_iot_thread_mutex_lock_def aws_iot_thread_mutex_trylock_def split: if_splits prod.splits)

lemma unlocked: "holder m = Some t \<Longrightarrow> \<exists>m'. aws_iot_mqtt_client_unlock_mutex P TheClient t m = (SUCCESS, m') \<and> holder m' = None"
  using unlock_law by (fastforce simp: aws_iot_mqtt_client_unlock_mutex_def aws_iot_thread_mutex_unlock_def)

text \<open>
  The invariant: \<open>ord\<close> are the calls that got the mutex, in this order.  Everyone else has not started or was refused; who has the mutex is the last of them, and
  the client is as if all calls before it, or all with it once it has assigned, had run one after the other.
\<close>

definition at_phase :: "state_call list \<Rightarrow> 'w st \<Rightarrow> nat list \<Rightarrow> ('m, 'w) system \<Rightarrow> nat \<Rightarrow> phase \<Rightarrow> bool" where
  "at_phase cs s0 ord sys j ph \<longleftrightarrow>
     (case ph of
        Enter \<Rightarrow> j \<notin> set ord
      | Compare \<Rightarrow> holder (sy_mutex sys) = Some j \<and> (\<exists>os. ord = os @ [j] \<and> sy_client sys = snd (serial cs os s0))
      | Assign \<Rightarrow> holder (sy_mutex sys) = Some j \<and> (\<exists>os. ord = os @ [j] \<and> sy_client sys = snd (serial cs os s0) \<and> clientState (sy_client sys) = call_expected (cs ! j))
      | Leave rc \<Rightarrow> holder (sy_mutex sys) = Some j \<and> (\<exists>os. ord = os @ [j]) \<and> sy_client sys = snd (serial cs ord s0) \<and> (j, rc) \<in> set (fst (serial cs ord s0))
      | Return rc \<Rightarrow> holder (sy_mutex sys) \<noteq> Some j \<and> (if j \<in> set ord then (j, rc) \<in> set (fst (serial cs ord s0)) else rc = MUTEX_LOCK_ERROR))"

definition linear :: "state_call list \<Rightarrow> 'w st \<Rightarrow> nat list \<Rightarrow> ('m, 'w) system \<Rightarrow> bool" where
  "linear cs s0 ord sys \<longleftrightarrow>
     length (sy_calls sys) = length cs \<and> distinct ord \<and> set ord \<subseteq> {..<length cs} \<and>
     (\<forall>j < length cs. sy_calls sys ! j = (cs ! j)\<lparr>call_phase := call_phase (sy_calls sys ! j)\<rparr> \<and> at_phase cs s0 ord sys j (call_phase (sy_calls sys ! j))) \<and>
     (case holder (sy_mutex sys) of None \<Rightarrow> sy_client sys = snd (serial cs ord s0)
      | Some j \<Rightarrow> j < length cs \<and> call_phase (sy_calls sys ! j) \<noteq> Enter \<and> (\<forall>rc. call_phase (sy_calls sys ! j) \<noteq> Return rc))"

lemma linear_start:
  assumes "all_enter (sy_calls sys)" and "holder (sy_mutex sys) = None"
  shows "linear (sy_calls sys) (sy_client sys) [] sys"
  using assms by (auto simp: linear_def at_phase_def all_enter_def)

text \<open>What happens to the others when one thread takes a step.\<close>

lemma at_phase_others:
  assumes "at_phase cs s0 ord sys j ph" and "j \<noteq> t"
    and "holder (sy_mutex sys') = Some j \<longleftrightarrow> holder (sy_mutex sys) = Some j" and "holder (sy_mutex sys) = Some j \<Longrightarrow> sy_client sys' = sy_client sys \<and> ord' = ord"
    and "ord' = ord \<or> ord' = ord @ [t]"
  shows "at_phase cs s0 ord' sys' j ph"
  using assms by (cases ph) (auto simp: at_phase_def serial_snoc split: prod.splits)

lemma linear_update:
  assumes "linear cs s0 ord sys" and "t < length cs" and "sy_calls sys' = (sy_calls sys)[t := (sy_calls sys ! t)\<lparr>call_phase := ph\<rparr>]" and "at_phase cs s0 ord' sys' t ph"
    and "ord' = ord \<or> ord' = ord @ [t] \<and> t \<notin> set ord"
    and "\<And>j. j \<noteq> t \<Longrightarrow> holder (sy_mutex sys') = Some j \<longleftrightarrow> holder (sy_mutex sys) = Some j"
    and "\<And>j. j \<noteq> t \<Longrightarrow> holder (sy_mutex sys) = Some j \<Longrightarrow> sy_client sys' = sy_client sys \<and> ord' = ord"
    and "holder (sy_mutex sys') = None \<Longrightarrow> sy_client sys' = snd (serial cs ord' s0)" and "holder (sy_mutex sys') = Some t \<Longrightarrow> ph \<noteq> Enter \<and> (\<forall>rc. ph \<noteq> Return rc)"
  shows "linear cs s0 ord' sys'"
proof -
  have l: "length (sy_calls sys) = length cs" "distinct ord" "set ord \<subseteq> {..<length cs}"
    and a: "\<And>j. j < length cs \<Longrightarrow> sy_calls sys ! j = (cs ! j)\<lparr>call_phase := call_phase (sy_calls sys ! j)\<rparr>" "\<And>j. j < length cs \<Longrightarrow> at_phase cs s0 ord sys j (call_phase (sy_calls sys ! j))"
    and h: "\<And>j. holder (sy_mutex sys) = Some j \<Longrightarrow> j < length cs \<and> call_phase (sy_calls sys ! j) \<noteq> Enter \<and> (\<forall>rc. call_phase (sy_calls sys ! j) \<noteq> Return rc)"
    using assms(1) by (auto simp: linear_def)
  have c: "sy_calls sys' ! j = (cs ! j)\<lparr>call_phase := call_phase (sy_calls sys' ! j)\<rparr>" if "j < length cs" for j
    using a(1) [OF that] that assms(2,3) l(1) by (cases "j = t") (auto, metis state_call.update_convs(3) state_call.surjective)
  have p: "at_phase cs s0 ord' sys' j (call_phase (sy_calls sys' ! j))" if "j < length cs" for j
  proof (cases "j = t")
    case True
    then show ?thesis
      using assms(2-4) l(1) by simp
  next
    case False
    then show ?thesis
      using at_phase_others [OF a(2) [OF that] False assms(6) [OF False] assms(7) [OF False]] assms(3,5) by auto
  qed
  have "j < length cs \<and> call_phase (sy_calls sys' ! j) \<noteq> Enter \<and> (\<forall>rc. call_phase (sy_calls sys' ! j) \<noteq> Return rc)" if "holder (sy_mutex sys') = Some j" for j
    using h [of j] that assms(2,3,6,9) l(1) by (cases "j = t") auto
  moreover have "distinct ord'" "set ord' \<subseteq> {..<length cs}" "length (sy_calls sys') = length cs"
    using l assms(2,3,5) by auto
  ultimately show ?thesis
    using c p assms(8) unfolding linear_def by (auto split: option.splits)
qed

lemma linear_step:
  assumes "linear cs s0 ord sys" and "set_state_step P block t sys = Some sys'"
  shows "\<exists>ord'. linear cs s0 ord' sys'"
proof -
  let ?c = "sy_calls sys ! t"
  have tl: "t < length cs"
    using assms by (auto simp: linear_def set_state_step_def Let_def split: if_splits)
  then have eq: "?c = (cs ! t)\<lparr>call_phase := call_phase ?c\<rparr>" and ph: "at_phase cs s0 ord sys t (call_phase ?c)"
    using assms(1) unfolding linear_def by blast+
  have t: "t < length cs" "call_expected ?c = call_expected (cs ! t)" "call_new ?c = call_new (cs ! t)" "at_phase cs s0 ord sys t (call_phase ?c)"
    using tl ph arg_cong [OF eq, of call_expected] arg_cong [OF eq, of call_new] by simp_all
  have h: "call_phase ?c = Enter \<Longrightarrow> holder (sy_mutex sys) \<noteq> Some t" and n: "holder (sy_mutex sys) = None \<Longrightarrow> sy_client sys = snd (serial cs ord s0)"
    using assms(1) by (auto simp: linear_def)
  have l: "\<not> length (sy_calls sys) \<le> t"
    using assms(1) t(1) by (simp add: linear_def)
  note up = linear_update [OF assms(1) t(1)]
  show ?thesis
  proof (cases "call_phase ?c")
    case Enter
    then obtain rc m where m: "aws_iot_mqtt_client_lock_mutex P block TheClient t (sy_mutex sys) = Some (rc, m)"
      "sys' = sys\<lparr>sy_mutex := m, sy_calls := (sy_calls sys)[t := ?c\<lparr>call_phase := if rc \<noteq> SUCCESS then Return rc else Compare\<rparr>]\<rparr>"
      using assms(2) l by (auto simp: set_state_step_def Let_def)
    have o: "t \<notin> set ord"
      using t(4) Enter by (simp add: at_phase_def)
    consider "rc = SUCCESS" "holder (sy_mutex sys) = None" "holder m = Some t" | "rc = MUTEX_LOCK_ERROR" "holder m = holder (sy_mutex sys)"
      using lock_cases [OF m(1)] by metis
    then show ?thesis
    proof cases
      case 1
      then show ?thesis
        using o n m(2) by (intro exI [of _ "ord @ [t]"] up [where ph = Compare]) (auto simp: at_phase_def)
    next
      case 2
      then show ?thesis
        using o n h Enter m(2) by (intro exI [of _ ord] up [where ph = "Return MUTEX_LOCK_ERROR"]) (auto simp: at_phase_def)
    qed
  next
    case Compare
    then have o: "holder (sy_mutex sys) = Some t" "\<exists>os. ord = os @ [t] \<and> sy_client sys = snd (serial cs os s0)"
      using t(4) by (auto simp: at_phase_def)
    let ?e = "call_expected (cs ! t) = clientState (sy_client sys)"
    have s: "sys' = sys\<lparr>sy_calls := (sy_calls sys)[t := ?c\<lparr>call_phase := if ?e then Assign else Leave MQTT_UNEXPECTED_CLIENT_STATE_ERROR\<rparr>]\<rparr>"
      using assms(2) l Compare t(2) by (auto simp: set_state_step_def Let_def aws_iot_mqtt_get_client_state_def)
    have "at_phase cs s0 ord sys' t (if ?e then Assign else Leave MQTT_UNEXPECTED_CLIENT_STATE_ERROR)"
      using o s by (auto simp: at_phase_def serial_snoc aws_iot_mqtt_set_client_state_def aws_iot_mqtt_get_client_state_def split: prod.splits)
    then show ?thesis
      using o(1) s by (intro exI [of _ ord] up) (auto split: if_splits)
  next
    case Assign
    then obtain os where o: "holder (sy_mutex sys) = Some t" "ord = os @ [t]" "sy_client sys = snd (serial cs os s0)" "clientState (sy_client sys) = call_expected (cs ! t)"
      using t(4) by (auto simp: at_phase_def)
    have s: "sys' = sys\<lparr>sy_client := set_clientState (call_new (cs ! t)) (sy_client sys), sy_calls := (sy_calls sys)[t := ?c\<lparr>call_phase := Leave SUCCESS\<rparr>]\<rparr>"
      using assms(2) l Assign t(3) by (auto simp: set_state_step_def Let_def)
    have "at_phase cs s0 ord sys' t (Leave SUCCESS)"
      using o s by (auto simp: at_phase_def serial_snoc aws_iot_mqtt_set_client_state_def aws_iot_mqtt_get_client_state_def split: prod.splits)
    then show ?thesis
      using o(1) s by (intro exI [of _ ord] up) auto
  next
    case (Leave rc)
    then have o: "holder (sy_mutex sys) = Some t" "t \<in> set ord" "sy_client sys = snd (serial cs ord s0)" "(t, rc) \<in> set (fst (serial cs ord s0))"
      using t(4) by (auto simp: at_phase_def)
    obtain m where m: "aws_iot_mqtt_client_unlock_mutex P TheClient t (sy_mutex sys) = (SUCCESS, m)" "holder m = None"
      using unlocked [OF o(1)] by blast
    have s: "sys' = sys\<lparr>sy_mutex := m, sy_calls := (sy_calls sys)[t := ?c\<lparr>call_phase := Return rc\<rparr>]\<rparr>"
      using assms(2) l Leave m(1) by (auto simp: set_state_step_def Let_def)
    then show ?thesis
      using o m(2) by (intro exI [of _ ord] up [where ph = "Return rc"]) (auto simp: at_phase_def)
  next
    case (Return rc)
    then show ?thesis
      using assms(2) l by (simp add: set_state_step_def Let_def)
  qed
qed

lemma linear_schedule:
  assumes "all_enter (sy_calls sys)" and "holder (sy_mutex sys) = None"
  shows "\<exists>ord. linear (sy_calls sys) (sy_client sys) ord (schedule P block ts sys)"
proof (induction ts rule: rev_induct)
  case Nil
  then show ?case
    using linear_start [OF assms] by (auto simp: schedule_def)
next
  case (snoc t ts)
  then show ?case
    using linear_step by (fastforce simp: schedule_def split: option.splits)
qed

text \<open>No deadlock: as long as a call has not returned, one can take a step.\<close>

lemma never_stuck:
  assumes "linear cs s0 ord sys" and "j < length cs" and "\<forall>rc. call_phase (sy_calls sys ! j) \<noteq> Return rc"
  shows "\<exists>t. set_state_step P block t sys \<noteq> None"
proof (cases "holder (sy_mutex sys)")
  case None
  have l: "length (sy_calls sys) = length cs" and a: "at_phase cs s0 ord sys j (call_phase (sy_calls sys ! j))"
    using assms(1,2) by (auto simp: linear_def)
  then have "call_phase (sy_calls sys ! j) = Enter"
    using None assms(3) by (cases "call_phase (sy_calls sys ! j)") (auto simp: at_phase_def)
  moreover have "aws_iot_mqtt_client_lock_mutex P block TheClient j (sy_mutex sys) \<noteq> None"
    using lock_waits [of j "sy_mutex sys"] None by (cases "pthread_mutex_lock P j (sy_mutex sys)") (auto simp: aws_iot_mqtt_client_lock_mutex_def aws_iot_thread_mutex_lock_def)
  ultimately have "set_state_step P block j sys \<noteq> None"
    using l assms(2) by (auto simp: set_state_step_def Let_def)
  then show ?thesis ..
next
  case (Some t)
  then have "t < length (sy_calls sys)" "call_phase (sy_calls sys ! t) \<noteq> Enter" "\<forall>rc. call_phase (sy_calls sys ! t) \<noteq> Return rc"
    using assms(1) by (auto simp: linear_def)
  then have "set_state_step P block t sys \<noteq> None"
    by (cases "call_phase (sy_calls sys ! t)") (auto simp: set_state_step_def Let_def split: prod.splits)
  then show ?thesis ..
qed

end

section \<open>An implementation of the mutex\<close>

text \<open>A mutex of the default type: who has it.  Locking waits while somebody has it, trying does not.\<close>

definition plain_mutex :: "nat option pthread_ops" where
  "plain_mutex =
     \<lparr>pthread_mutex_init = (\<lambda>m. (0, None)), pthread_mutex_lock = (\<lambda>t m. if m = None then Some (0, Some t) else None),
      pthread_mutex_trylock = (\<lambda>t m. if m = None then (0, Some t) else (16, m)), pthread_mutex_unlock = (\<lambda>t m. if m = Some t then (0, None) else (1, m)),
      pthread_mutex_destroy = (\<lambda>m. if m = None then (0, None) else (16, m))\<rparr>"

interpretation plain: posix_mutex plain_mutex id
  by unfold_locales (auto simp: plain_mutex_def split: if_splits)

section \<open>The client with threads\<close>

text \<open>
  C10: state changes are atomic.  Let any number of threads call \<open>aws_iot_mqtt_set_client_state\<close> of one client in the build
  with threads, blocking or not, and let their statements interleave in any way, with any mutex that is one according to POSIX.  Then the
  calls that got the mutex can be put into an order such that each of them that has returned has the result, and, when nobody has the mutex, the client has
  the state, of running the single-threaded function for them one after the other in this order.  Every other call
  that has returned did so with \<open>MUTEX_LOCK_ERROR\<close> and without effect, and as long as a call has not returned some thread can go on.
\<close>

theorem state_changes_atomic:
  assumes "posix_mutex P holder" and "all_enter (sy_calls sys)" and "holder (sy_mutex sys) = None" and "sys' = schedule P block ts sys"
  shows "\<exists>ord. distinct ord \<and> set ord \<subseteq> {..<length (sy_calls sys)} \<and>
    (holder (sy_mutex sys') = None \<longrightarrow> sy_client sys' = snd (serial (sy_calls sys) ord (sy_client sys))) \<and>
    (\<forall>j < length (sy_calls sys). \<forall>rc. call_phase (sy_calls sys' ! j) = Return rc \<longrightarrow>
       (if j \<in> set ord then (j, rc) \<in> set (fst (serial (sy_calls sys) ord (sy_client sys))) else rc = MUTEX_LOCK_ERROR)) \<and>
    ((\<exists>j < length (sy_calls sys). \<forall>rc. call_phase (sy_calls sys' ! j) \<noteq> Return rc) \<longrightarrow> (\<exists>t. set_state_step P block t sys' \<noteq> None))"
proof -
  obtain ord where l: "posix_mutex.linear holder (sy_calls sys) (sy_client sys) ord sys'"
    using posix_mutex.linear_schedule [OF assms(1-3), of block ts] assms(4) by blast
  note d = posix_mutex.linear_def [OF assms(1)] posix_mutex.at_phase_def [OF assms(1)]
  have r: "(if j \<in> set ord then (j, rc) \<in> set (fst (serial (sy_calls sys) ord (sy_client sys))) else rc = MUTEX_LOCK_ERROR)"
    if "j < length (sy_calls sys)" "call_phase (sy_calls sys' ! j) = Return rc" for j rc
    using l that unfolding d by fastforce
  have o: "holder (sy_mutex sys') = None \<longrightarrow> sy_client sys' = snd (serial (sy_calls sys) ord (sy_client sys))" "distinct ord" "set ord \<subseteq> {..<length (sy_calls sys)}"
    using l unfolding d by auto
  have "(\<exists>j < length (sy_calls sys). \<forall>rc. call_phase (sy_calls sys' ! j) \<noteq> Return rc) \<longrightarrow> (\<exists>t. set_state_step P block t sys' \<noteq> None)"
    using posix_mutex.never_stuck [OF assms(1) l, of _ block] by blast
  then show ?thesis
    using r o by (intro exI [of _ ord] conjI) simp_all
qed

text \<open>Two threads that both want to connect an initialised client, their statements mixed.\<close>

definition demo_calls :: "state_call list" where
  "demo_calls = replicate 2 \<lparr>call_expected = CLIENT_STATE_INITIALIZED, call_new = CLIENT_STATE_CONNECTING, call_phase = Enter\<rparr>"

definition demo_system :: "(nat option, unit) system" where
  "demo_system = \<lparr>sy_mutex = None, sy_client = \<lparr>cl = sample_client, wd = ()\<rparr>, sy_calls = demo_calls\<rparr>"

lemma demo_schedule:
  "map call_phase (sy_calls (schedule plain_mutex True [0, 1, 0, 1, 0, 1, 0, 1, 1, 1] demo_system)) = [Return SUCCESS, Return MQTT_UNEXPECTED_CLIENT_STATE_ERROR]"
  by (simp add: schedule_def set_state_step_def demo_system_def demo_calls_def numeral_2_eq_2 plain_mutex_def aws_iot_mqtt_client_lock_mutex_def aws_iot_thread_mutex_lock_def
      aws_iot_mqtt_client_unlock_mutex_def aws_iot_thread_mutex_unlock_def aws_iot_mqtt_get_client_state_def Let_def sample_client_def upd_status_def)

theorem state_changes_atomic_witness:
  "\<exists>ord. distinct ord \<and> (0, SUCCESS) \<in> set (fst (serial demo_calls ord (sy_client demo_system))) \<and> (1, MQTT_UNEXPECTED_CLIENT_STATE_ERROR) \<in> set (fst (serial demo_calls ord (sy_client demo_system)))"
proof -
  let ?s = "schedule plain_mutex True [0, 1, 0, 1, 0, 1, 0, 1, 1, 1] demo_system"
  have l: "length (sy_calls ?s) = 2"
    using arg_cong [OF demo_schedule, of length] by simp
  have p: "call_phase (sy_calls ?s ! 0) = Return SUCCESS" "call_phase (sy_calls ?s ! 1) = Return MQTT_UNEXPECTED_CLIENT_STATE_ERROR"
    using arg_cong [OF demo_schedule, of "\<lambda>x. x ! 0"] arg_cong [OF demo_schedule, of "\<lambda>x. x ! 1"] l by simp_all
  have e: "all_enter (sy_calls demo_system)" "id (sy_mutex demo_system) = None" "sy_calls demo_system = demo_calls" "length demo_calls = 2"
    by (simp_all add: demo_system_def demo_calls_def all_enter_def)
  obtain ord where o: "distinct ord" "\<forall>j < 2. \<forall>rc. call_phase (sy_calls ?s ! j) = Return rc \<longrightarrow>
      (if j \<in> set ord then (j, rc) \<in> set (fst (serial demo_calls ord (sy_client demo_system))) else rc = MUTEX_LOCK_ERROR)"
    using state_changes_atomic [OF plain.posix_mutex_axioms e(1,2) refl, of True "[0, 1, 0, 1, 0, 1, 0, 1, 1, 1]"] unfolding e(3,4) by (elim exE conjE) blast
  show ?thesis
    using o(1) o(2) [rule_format, OF _ p(1)] o(2) [rule_format, OF _ p(2)] by (intro exI [of _ ord]) (auto split: if_splits)
qed

end
