(* ===== verification/Jsmn.thy ===== *)
theory Jsmn
  imports Prelude
begin

text \<open>
  The JSON tokeniser \<open>external_libs/jsmn/jsmn.c\<close> that the shadow code calls, in the configuration
  of this repository (neither \<open>JSMN_STRICT\<close> nor \<open>JSMN_PARENT_LINKS\<close> is defined).  A token pointer
  is an index into the token array; an access outside the text or the array gives \<open>None\<close>.
  Positions, \<open>unsigned int\<close> and \<open>int\<close> in C, are natural numbers and integers: they stay below the
  length of the text and the size of the token array.
\<close>

section \<open>Data\<close>

datatype jsmntype_t = JSMN_UNDEFINED | JSMN_OBJECT | JSMN_ARRAY | JSMN_STRING | JSMN_PRIMITIVE

definition JSMN_ERROR_NOMEM :: int where "JSMN_ERROR_NOMEM = -1"
definition JSMN_ERROR_INVAL :: int where "JSMN_ERROR_INVAL = -2"
definition JSMN_ERROR_PART :: int where "JSMN_ERROR_PART = -3"

lemmas jsmnerr_defs = JSMN_ERROR_NOMEM_def JSMN_ERROR_INVAL_def JSMN_ERROR_PART_def

record jsmntok_t =
  tok_type :: jsmntype_t
  tok_start :: int
  tok_end :: int
  tok_size :: int

record jsmn_parser =
  pos :: nat
  toknext :: nat
  toksuper :: int

type_synonym toks = "jsmntok_t list"

text \<open>The characters of the tokeniser's \<open>switch\<close> statements.\<close>

abbreviation (input) QUOTE :: u8 where "QUOTE \<equiv> 34"
abbreviation (input) COMMA :: u8 where "COMMA \<equiv> 44"
abbreviation (input) COLON :: u8 where "COLON \<equiv> 58"
abbreviation (input) LBRACKET :: u8 where "LBRACKET \<equiv> 91"
abbreviation (input) BACKSLASH :: u8 where "BACKSLASH \<equiv> 92"
abbreviation (input) RBRACKET :: u8 where "RBRACKET \<equiv> 93"
abbreviation (input) LBRACE :: u8 where "LBRACE \<equiv> 123"
abbreviation (input) RBRACE :: u8 where "RBRACE \<equiv> 125"
abbreviation (input) SPACES :: "u8 set" where "SPACES \<equiv> {9, 13, 10, 32}"

section \<open>Operations\<close>

definition jsmn_alloc_token :: "jsmn_parser \<Rightarrow> toks \<Rightarrow> nat \<Rightarrow> (nat option \<times> jsmn_parser \<times> toks) option" where
  "jsmn_alloc_token parser tokens num_tokens =
     (if toknext parser \<ge> num_tokens then Some (None, parser, tokens)
      else do {
        tok \<leftarrow> arr_get tokens (toknext parser);
        Some (Some (toknext parser), parser\<lparr>toknext := toknext parser + 1\<rparr>,
          tokens[toknext parser := tok\<lparr>tok_start := -1, tok_end := -1, tok_size := 0\<rparr>]) })"

definition jsmn_fill_token :: "toks \<Rightarrow> nat \<Rightarrow> jsmntype_t \<Rightarrow> int \<Rightarrow> int \<Rightarrow> toks option" where
  "jsmn_fill_token tokens i ty start e = do {
     tok \<leftarrow> arr_get tokens i;
     Some (tokens[i := tok\<lparr>tok_type := ty, tok_start := start, tok_end := e, tok_size := 0\<rparr>]) }"

text \<open>The loop of \<open>jsmn_parse_primitive\<close>: whether the end was found, and the position.\<close>

function prim_loop :: "mem \<Rightarrow> nat \<Rightarrow> nat \<Rightarrow> (bool \<times> nat) option" where
  "prim_loop js len p =
     (if p < len then do {
        c \<leftarrow> mem_get js p;
        if c = 0 then Some (True, p)
        else if c \<in> insert COLON (SPACES \<union> {COMMA, RBRACKET, RBRACE}) then Some (True, p)
        else if c < 32 \<or> c \<ge> 127 then Some (False, p)
        else prim_loop js len (p + 1) }
      else Some (True, p))"
  by pat_completeness auto
termination by (relation "measure (\<lambda>(js, len, p). len - p)") auto

declare prim_loop.simps [simp del]

definition jsmn_parse_primitive ::
  "jsmn_parser \<Rightarrow> mem \<Rightarrow> nat \<Rightarrow> toks option \<Rightarrow> nat \<Rightarrow> (int \<times> jsmn_parser \<times> toks option) option" where
  "jsmn_parse_primitive parser js len tokens num_tokens =
     (let start = pos parser in do {
      (found, p) \<leftarrow> prim_loop js len start;
      if \<not> found then Some (JSMN_ERROR_INVAL, parser, tokens)
      else case tokens of
        None \<Rightarrow> Some (0, parser\<lparr>pos := p - 1\<rparr>, None)
      | Some ts \<Rightarrow> do {
          (tok, parser, ts) \<leftarrow> jsmn_alloc_token (parser\<lparr>pos := p\<rparr>) ts num_tokens;
          case tok of
            None \<Rightarrow> Some (JSMN_ERROR_NOMEM, parser\<lparr>pos := start\<rparr>, Some ts)
          | Some i \<Rightarrow> do {
              ts \<leftarrow> jsmn_fill_token ts i JSMN_PRIMITIVE (int start) (int p);
              Some (0, parser\<lparr>pos := p - 1\<rparr>, Some ts) } } })"

text \<open>The hexadecimal digits behind \<open>\u\<close>: the position behind them, unless another character
  is among them.\<close>

definition is_hex :: "u8 \<Rightarrow> bool" where
  "is_hex c \<longleftrightarrow> 48 \<le> c \<and> c \<le> 57 \<or> 65 \<le> c \<and> c \<le> 70 \<or> 97 \<le> c \<and> c \<le> 102"

fun hex_loop :: "mem \<Rightarrow> nat \<Rightarrow> nat \<Rightarrow> nat \<Rightarrow> nat option option" where
  "hex_loop js len 0 p = Some (Some p)"
| "hex_loop js len (Suc i) p =
     (if p < len then do {
        c \<leftarrow> mem_get js p;
        if c = 0 then Some (Some p)
        else if is_hex c then hex_loop js len i (p + 1)
        else Some None }
      else Some (Some p))"

lemma hex_loop_ge: "hex_loop js len i p = Some (Some q) \<Longrightarrow> p \<le> q"
  by (induction js len i p rule: hex_loop.induct) (auto split: if_splits bind_split_asm)

text \<open>The loop of \<open>jsmn_parse_string\<close>: the position of the closing quote, or an error.\<close>

function str_loop :: "mem \<Rightarrow> nat \<Rightarrow> nat \<Rightarrow> (int + nat) option" where
  "str_loop js len p =
     (if p < len then do {
        c \<leftarrow> mem_get js p;
        if c = 0 then Some (Inl JSMN_ERROR_PART)
        else if c = QUOTE then Some (Inr p)
        else if c = BACKSLASH \<and> p + 1 < len then do {
          d \<leftarrow> mem_get js (p + 1);
          if d \<in> {QUOTE, 47, BACKSLASH, 98, 102, 114, 110, 116} then str_loop js len (p + 2)
          else if d = 117 then do {
            h \<leftarrow> hex_loop js len 4 (p + 2);
            case h of
              None \<Rightarrow> Some (Inl JSMN_ERROR_INVAL)
            | Some q \<Rightarrow> str_loop js len q }
          else Some (Inl JSMN_ERROR_INVAL) }
        else str_loop js len (p + 1) }
      else Some (Inl JSMN_ERROR_PART))"
  by pat_completeness auto
termination
  by (relation "measure (\<lambda>(js, len, p). len - p)") (auto dest!: hex_loop_ge)

declare str_loop.simps [simp del]

definition jsmn_parse_string ::
  "jsmn_parser \<Rightarrow> mem \<Rightarrow> nat \<Rightarrow> toks option \<Rightarrow> nat \<Rightarrow> (int \<times> jsmn_parser \<times> toks option) option" where
  "jsmn_parse_string parser js len tokens num_tokens =
     (let start = pos parser in do {
      r \<leftarrow> str_loop js len (start + 1);
      case r of
        Inl e \<Rightarrow> Some (e, parser, tokens)
      | Inr p \<Rightarrow> (case tokens of
          None \<Rightarrow> Some (0, parser\<lparr>pos := p\<rparr>, None)
        | Some ts \<Rightarrow> do {
            (tok, parser, ts) \<leftarrow> jsmn_alloc_token (parser\<lparr>pos := p\<rparr>) ts num_tokens;
            case tok of
              None \<Rightarrow> Some (JSMN_ERROR_NOMEM, parser\<lparr>pos := start\<rparr>, Some ts)
            | Some i \<Rightarrow> do {
                ts \<leftarrow> jsmn_fill_token ts i JSMN_STRING (int start + 1) (int p);
                Some (0, parser, Some ts) } }) })"

text \<open>The searches of \<open>jsmn_parse\<close> from the last token downwards.\<close>

definition tok_open :: "jsmntok_t \<Rightarrow> bool" where
  "tok_open t \<longleftrightarrow> tok_start t \<noteq> -1 \<and> tok_end t = -1"

definition is_container :: "jsmntok_t \<Rightarrow> bool" where
  "is_container t \<longleftrightarrow> tok_type t = JSMN_ARRAY \<or> tok_type t = JSMN_OBJECT"

fun find_down :: "(jsmntok_t \<Rightarrow> bool) \<Rightarrow> toks \<Rightarrow> nat \<Rightarrow> nat option option" where
  "find_down P ts 0 = Some None"
| "find_down P ts (Suc i) = do {
     t \<leftarrow> arr_get ts i;
     if P t then Some (Some i) else find_down P ts i }"

text \<open>\<open>tokens[parser->toksuper].size++\<close>\<close>

definition bump_super :: "jsmn_parser \<Rightarrow> toks \<Rightarrow> toks option" where
  "bump_super parser ts =
     (if toksuper parser \<noteq> -1 then
        if toksuper parser < 0 then None
        else do {
          t \<leftarrow> arr_get ts (nat (toksuper parser));
          Some (ts[nat (toksuper parser) := t\<lparr>tok_size := tok_size t + 1\<rparr>]) }
      else Some ts)"

definition bump_super_opt :: "jsmn_parser \<Rightarrow> toks option \<Rightarrow> toks option option" where
  "bump_super_opt parser tokens =
     (case tokens of None \<Rightarrow> Some None | Some ts \<Rightarrow> do { ts \<leftarrow> bump_super parser ts; Some (Some ts) })"

text \<open>The cases of the \<open>switch\<close> in \<open>jsmn_parse\<close>.  \<open>Inl\<close> is a \<open>return\<close> with an error.\<close>

type_synonym jsmn_state = "jsmn_parser \<times> toks option \<times> int"

definition jsmn_open :: "u8 \<Rightarrow> nat \<Rightarrow> jsmn_state \<Rightarrow> (int \<times> jsmn_parser \<times> toks option + jsmn_state) option" where
  "jsmn_open c num_tokens st =
     (case st of (parser, tokens, count) \<Rightarrow>
      let count = count + 1 in
      case tokens of
        None \<Rightarrow> Some (Inr (parser, None, count))
      | Some ts \<Rightarrow> do {
          (tok, parser, ts) \<leftarrow> jsmn_alloc_token parser ts num_tokens;
          case tok of
            None \<Rightarrow> Some (Inl (JSMN_ERROR_NOMEM, parser, Some ts))
          | Some i \<Rightarrow> do {
              ts \<leftarrow> bump_super parser ts;
              t \<leftarrow> arr_get ts i;
              let ts = ts[i := t\<lparr>tok_type := (if c = LBRACE then JSMN_OBJECT else JSMN_ARRAY),
                                 tok_start := int (pos parser)\<rparr>];
              Some (Inr (parser\<lparr>toksuper := int (toknext parser) - 1\<rparr>, Some ts, count)) } })"

definition jsmn_close :: "u8 \<Rightarrow> jsmn_state \<Rightarrow> (int \<times> jsmn_parser \<times> toks option + jsmn_state) option" where
  "jsmn_close c st =
     (case st of (parser, tokens, count) \<Rightarrow>
      case tokens of
        None \<Rightarrow> Some (Inr (parser, None, count))
      | Some ts \<Rightarrow>
          let ty = (if c = RBRACE then JSMN_OBJECT else JSMN_ARRAY) in do {
          r \<leftarrow> find_down tok_open ts (toknext parser);
          case r of
            None \<Rightarrow> Some (Inl (JSMN_ERROR_INVAL, parser, Some ts))
          | Some i \<Rightarrow> do {
              t \<leftarrow> arr_get ts i;
              if tok_type t \<noteq> ty then Some (Inl (JSMN_ERROR_INVAL, parser, Some ts))
              else do {
                let ts = ts[i := t\<lparr>tok_end := int (pos parser) + 1\<rparr>];
                r \<leftarrow> find_down tok_open ts (i + 1);
                let super = (case r of None \<Rightarrow> -1 | Some j \<Rightarrow> int j);
                Some (Inr (parser\<lparr>toksuper := super\<rparr>, Some ts, count)) } } })"

definition jsmn_comma :: "jsmn_state \<Rightarrow> jsmn_state option" where
  "jsmn_comma st =
     (case st of (parser, tokens, count) \<Rightarrow>
      case tokens of
        None \<Rightarrow> Some st
      | Some ts \<Rightarrow>
          if toksuper parser = -1 then Some st
          else if toksuper parser < 0 then None
          else do {
            t \<leftarrow> arr_get ts (nat (toksuper parser));
            if is_container t then Some st
            else do {
              r \<leftarrow> find_down (\<lambda>t. is_container t \<and> tok_open t) ts (toknext parser);
              Some (case r of None \<Rightarrow> parser | Some i \<Rightarrow> parser\<lparr>toksuper := int i\<rparr>, tokens, count) } })"

definition jsmn_value ::
  "(int \<times> jsmn_parser \<times> toks option) option \<Rightarrow> int \<Rightarrow> (int \<times> jsmn_parser \<times> toks option + jsmn_state) option" where
  "jsmn_value m count = do {
     (r, parser, tokens) \<leftarrow> m;
     if r < 0 then Some (Inl (r, parser, tokens))
     else do {
       tokens \<leftarrow> bump_super_opt parser tokens;
       Some (Inr (parser, tokens, count + 1)) } }"

definition jsmn_step ::
  "mem \<Rightarrow> nat \<Rightarrow> nat \<Rightarrow> u8 \<Rightarrow> jsmn_state \<Rightarrow> (int \<times> jsmn_parser \<times> toks option + jsmn_state) option" where
  "jsmn_step js len num_tokens c st =
     (case st of (parser, tokens, count) \<Rightarrow>
      if c \<in> {LBRACE, LBRACKET} then jsmn_open c num_tokens st
      else if c \<in> {RBRACE, RBRACKET} then jsmn_close c st
      else if c = QUOTE then jsmn_value (jsmn_parse_string parser js len tokens num_tokens) count
      else if c \<in> SPACES then Some (Inr st)
      else if c = COLON then Some (Inr (parser\<lparr>toksuper := int (toknext parser) - 1\<rparr>, tokens, count))
      else if c = COMMA then map_option Inr (jsmn_comma st)
      else jsmn_value (jsmn_parse_primitive parser js len tokens num_tokens) count)"

text \<open>What \<open>jsmn_parse\<close> does behind the loop.\<close>

definition jsmn_finish :: "jsmn_state \<Rightarrow> (int \<times> jsmn_parser \<times> toks option) option" where
  "jsmn_finish st =
     (case st of (parser, tokens, count) \<Rightarrow>
      case tokens of
        None \<Rightarrow> Some (count, parser, None)
      | Some ts \<Rightarrow> do {
          r \<leftarrow> find_down tok_open ts (toknext parser);
          Some (if r \<noteq> None then JSMN_ERROR_PART else count, parser, tokens) })"

text \<open>The position never moves backwards, which is why the loop ends.\<close>

lemma prim_loop_ge: "prim_loop js len p = Some (b, q) \<Longrightarrow> p \<le> q"
  by (induction js len p rule: prim_loop.induct) (auto simp: prim_loop.simps split: if_splits bind_split_asm)

lemma prim_loop_gt:
  assumes "prim_loop js len p = Some (True, q)" and "p < len" and "mem_get js p = Some c"
    and "c \<noteq> 0" and "c \<notin> insert COLON (SPACES \<union> {COMMA, RBRACKET, RBRACE})"
  shows "p < q"
  using assms(1) [unfolded prim_loop.simps [of js len p]] assms(2-) prim_loop_ge [of js len "p + 1" True q]
  by (simp split: if_splits)

lemma str_loop_ge: "str_loop js len p = Some (Inr q) \<Longrightarrow> p \<le> q"
proof (induction "len - p" arbitrary: p rule: less_induct)
  case less
  have IH: "p' \<le> q" if "p < p'" "p < len" "str_loop js len p' = Some (Inr q)" for p'
    using less(1) [OF _ that(3)] that(1,2) by simp
  from less.prems show ?case
    unfolding str_loop.simps [of js len p]
    by (auto split: if_splits bind_split_asm option.splits dest!: IH [rotated 2] hex_loop_ge)
qed

lemma alloc_pos: "jsmn_alloc_token p ts n = Some (r, p', ts') \<Longrightarrow> pos p' = pos p"
  by (auto simp: jsmn_alloc_token_def split: if_splits bind_split_asm)

lemma jsmn_step_pos:
  assumes "jsmn_step js len n c (p, ts, k) = Some (Inr (p', ts', k'))"
    and "pos p < len" and "mem_get js (pos p) = Some c" and "c \<noteq> 0"
  shows "pos p \<le> pos p'"
proof -
  have s: "pos p \<le> pos p'" if "jsmn_parse_string p js len ts n = Some (r, p', ts')" for r p' ts'
    using that by (auto simp: jsmn_parse_string_def Let_def dest!: str_loop_ge alloc_pos
        split: bind_split_asm sum.splits option.splits)
  have q: "pos p \<le> pos p'" if "jsmn_parse_primitive p js len ts n = Some (r, p', ts')"
    and c: "c \<notin> insert COLON (SPACES \<union> {COMMA, RBRACKET, RBRACE})" for r p' ts'
    using that prim_loop_gt [OF _ assms(2-4) c]
    by (fastforce simp: jsmn_parse_primitive_def Let_def dest!: alloc_pos split: bind_split_asm option.splits if_splits)
  show ?thesis
    using assms(1)
    by (auto simp: jsmn_step_def jsmn_open_def jsmn_close_def jsmn_value_def jsmn_comma_def Let_def
        dest!: alloc_pos s q split: if_splits bind_split_asm option.splits)
qed

function jsmn_loop :: "mem \<Rightarrow> nat \<Rightarrow> nat \<Rightarrow> jsmn_state \<Rightarrow> (int \<times> jsmn_parser \<times> toks option) option" where
  "jsmn_loop js len num_tokens (parser, tokens, count) =
     (if pos parser < len then do {
        c \<leftarrow> mem_get js (pos parser);
        if c = 0 then jsmn_finish (parser, tokens, count)
        else do {
          r \<leftarrow> jsmn_step js len num_tokens c (parser, tokens, count);
          case r of
            Inl e \<Rightarrow> Some e
          | Inr (parser', tokens', count') \<Rightarrow>
              jsmn_loop js len num_tokens (parser'\<lparr>pos := pos parser' + 1\<rparr>, tokens', count') } }
      else jsmn_finish (parser, tokens, count))"
  by pat_completeness auto
termination
  by (relation "measure (\<lambda>(js, len, n, p, ts, k). len - pos p)") (auto dest!: jsmn_step_pos)

declare jsmn_loop.simps [simp del]

definition jsmn_parse :: "jsmn_parser \<Rightarrow> mem \<Rightarrow> nat \<Rightarrow> toks option \<Rightarrow> nat \<Rightarrow> (int \<times> jsmn_parser \<times> toks option) option" where
  "jsmn_parse parser js len tokens num_tokens = jsmn_loop js len num_tokens (parser, tokens, int (toknext parser))"

definition jsmn_init :: "jsmn_parser \<Rightarrow> jsmn_parser" where
  "jsmn_init parser = parser\<lparr>pos := 0, toknext := 0, toksuper := -1\<rparr>"

section \<open>The tokeniser stays inside its text and its token array\<close>

lemma hex_loop_defined: "len \<le> length js \<Longrightarrow> \<exists>h. hex_loop js len i p = Some h"
  by (induction js len i p rule: hex_loop.induct) (auto simp: mem_get_def)

lemma prim_loop_defined:
  assumes "len \<le> length js" and "p \<le> len"
  shows "\<exists>b q. prim_loop js len p = Some (b, q) \<and> q \<le> len"
  using assms(2)
proof (induction "len - p" arbitrary: p rule: less_induct)
  case less
  then show ?case
    unfolding prim_loop.simps [of js len p] using assms(1) less(1) [of "p + 1"] by (auto simp: mem_get_def)
qed

lemma str_loop_defined:
  assumes "len \<le> length js"
  shows "\<exists>r. str_loop js len p = Some r \<and>
    (case r of Inl e \<Rightarrow> e \<in> {JSMN_ERROR_INVAL, JSMN_ERROR_PART} | Inr q \<Rightarrow> q < len)"
proof (induction "len - p" arbitrary: p rule: less_induct)
  case less
  show ?case
  proof (cases "p < len")
    case True
    have IH: "\<exists>r. str_loop js len p' = Some r \<and>
        (case r of Inl e \<Rightarrow> e \<in> {JSMN_ERROR_INVAL, JSMN_ERROR_PART} | Inr q \<Rightarrow> q < len)" if "p < p'" for p'
      using less that True by simp
    obtain h where h: "hex_loop js len 4 (p + 2) = Some h"
      using hex_loop_defined [OF assms] by blast
    show ?thesis
      unfolding str_loop.simps [of js len p]
      using True assms h IH [of "p + 1"] IH [of "p + 2"] hex_loop_ge [of js len 4 "p + 2"] IH
      by (auto simp: mem_get_def split: option.splits)
  qed (simp add: str_loop.simps [of js len p])
qed

lemma put_token:
  assumes "toknext p < num" and "num \<le> length ts"
  shows "\<exists>ts1. jsmn_alloc_token p ts num = Some (Some (toknext p), p\<lparr>toknext := toknext p + 1\<rparr>, ts1) \<and>
    jsmn_fill_token ts1 (toknext p) ty a b =
      Some (ts[toknext p := \<lparr>tok_type = ty, tok_start = a, tok_end = b, tok_size = 0\<rparr>])"
  using assms by (cases "ts ! toknext p") (simp add: jsmn_alloc_token_def jsmn_fill_token_def arr_get_def)

lemma no_token:
  "num \<le> toknext p \<Longrightarrow> jsmn_alloc_token p ts num = Some (None, p, ts)"
  by (simp add: jsmn_alloc_token_def)

definition jsmn_errors :: "int set" where
  "jsmn_errors = {JSMN_ERROR_NOMEM, JSMN_ERROR_INVAL, JSMN_ERROR_PART}"

text \<open>One more token of a string or a primitive.\<close>

definition one_token :: "jsmn_parser \<Rightarrow> toks \<Rightarrow> nat \<Rightarrow> nat \<Rightarrow> jsmntype_t \<Rightarrow> int \<times> jsmn_parser \<times> toks option \<Rightarrow> bool" where
  "one_token p ts len num ty res \<longleftrightarrow>
     (\<exists>e p'. e \<in> jsmn_errors \<and> res = (e, p', Some ts)) \<or>
     (\<exists>a q q'. toknext p < num \<and> pos p \<le> a \<and> a \<le> q \<and> q \<le> q' + 1 \<and> a \<le> q' \<and> pos p \<le> q' \<and> q' < len \<and>
        res = (0, p\<lparr>pos := q', toknext := toknext p + 1\<rparr>,
          Some (ts[toknext p := \<lparr>tok_type = ty, tok_start = int a, tok_end = int q, tok_size = 0\<rparr>])))"

lemma one_token_error: "e \<in> jsmn_errors \<Longrightarrow> one_token p ts len num ty (e, p', Some ts)"
  by (auto simp: one_token_def)

lemma one_token_ok:
  assumes "toknext p < num" and "pos p \<le> a" and "a \<le> q" and "q \<le> q' + 1" and "a \<le> q'" and "pos p \<le> q'" and "q' < len"
  shows "one_token p ts len num ty (0, p\<lparr>pos := q', toknext := toknext p + 1\<rparr>,
    Some (ts[toknext p := \<lparr>tok_type = ty, tok_start = int a, tok_end = int q, tok_size = 0\<rparr>]))"
  unfolding one_token_def using assms by blast

lemma parse_string_token:
  assumes "len \<le> length js" and "num \<le> length ts"
  shows "\<exists>res. jsmn_parse_string p js len (Some ts) num = Some res \<and> one_token p ts len num JSMN_STRING res"
proof -
  obtain r where r: "str_loop js len (pos p + 1) = Some r"
    "case r of Inl e \<Rightarrow> e \<in> {JSMN_ERROR_INVAL, JSMN_ERROR_PART} | Inr q \<Rightarrow> q < len"
    using str_loop_defined [OF assms(1)] by blast
  show ?thesis
  proof (cases r)
    case (Inl e)
    then show ?thesis
      using r by (auto simp: jsmn_parse_string_def jsmn_errors_def intro!: one_token_error)
  next
    case (Inr q)
    then have q: "q < len" "pos p + 1 \<le> q"
      using r str_loop_ge [of js len "pos p + 1" q] by simp_all
    show ?thesis
    proof (cases "toknext p < num")
      case True
      then show ?thesis
        using r(1) Inr q put_token [of "p\<lparr>pos := q\<rparr>" num ts JSMN_STRING "int (pos p) + 1" "int q"] assms(2)
          one_token_ok [of p num "pos p + 1" q q len ts JSMN_STRING]
        by (cases p) (auto simp: jsmn_parse_string_def add.commute [of "1 :: int"])
    next
      case False
      then show ?thesis
        using r(1) Inr no_token [of num "p\<lparr>pos := q\<rparr>" ts]
        by (auto simp: jsmn_parse_string_def jsmn_errors_def intro!: one_token_error)
    qed
  qed
qed

lemma parse_primitive_token:
  assumes "len \<le> length js" and "num \<le> length ts" and "pos p < len" and "mem_get js (pos p) = Some c" and "c \<noteq> 0"
    and "c \<notin> insert COLON (SPACES \<union> {COMMA, RBRACKET, RBRACE})"
  shows "\<exists>res. jsmn_parse_primitive p js len (Some ts) num = Some res \<and> one_token p ts len num JSMN_PRIMITIVE res"
proof -
  obtain b q where r: "prim_loop js len (pos p) = Some (b, q)" "q \<le> len"
    using prim_loop_defined [OF assms(1)] assms(3) by (meson less_imp_le)
  show ?thesis
  proof (cases b)
    case False
    then show ?thesis
      using r by (auto simp: jsmn_parse_primitive_def jsmn_errors_def intro!: one_token_error)
  next
    case True
    then have q: "pos p < q"
      using prim_loop_gt [OF _ assms(3-6)] r(1) by simp
    show ?thesis
    proof (cases "toknext p < num")
      case more: True
      then show ?thesis
        using r True q put_token [of "p\<lparr>pos := q\<rparr>" num ts JSMN_PRIMITIVE "int (pos p)" "int q"] assms(2)
          one_token_ok [of p num "pos p" q "q - 1" len ts JSMN_PRIMITIVE]
        by (cases p) (auto simp: jsmn_parse_primitive_def)
    next
      case False
      then show ?thesis
        using r(1) True no_token [of num "p\<lparr>pos := q\<rparr>" ts]
        by (auto simp: jsmn_parse_primitive_def jsmn_errors_def intro!: one_token_error)
    qed
  qed
qed

text \<open>
  The invariant at the head of the loop: the parser is inside the text and the array, and every
  token that has been handed out describes a range of the text behind the token before it; a
  token without an end is a container that is still open.
\<close>

definition tok_ok :: "nat \<Rightarrow> jsmntok_t \<Rightarrow> bool" where
  "tok_ok p t \<longleftrightarrow> 0 \<le> tok_start t \<and> tok_start t < int p \<and> 0 \<le> tok_size t \<and> tok_type t \<noteq> JSMN_UNDEFINED \<and>
     (tok_end t = -1 \<and> is_container t \<or> tok_start t \<le> tok_end t \<and> tok_end t \<le> int p)"

definition toks_ok :: "nat \<Rightarrow> toks \<Rightarrow> bool" where
  "toks_ok p ts \<longleftrightarrow> (\<forall>t \<in> set ts. tok_ok p t) \<and> sorted_wrt (\<lambda>t t'. tok_start t < tok_start t') ts"

definition jsmn_inv :: "nat \<Rightarrow> nat \<Rightarrow> nat \<Rightarrow> jsmn_parser \<Rightarrow> toks \<Rightarrow> int \<Rightarrow> bool" where
  "jsmn_inv len num sz p ts k \<longleftrightarrow> pos p \<le> len \<and> toknext p \<le> num \<and> num \<le> sz \<and> length ts = sz \<and>
     -1 \<le> toksuper p \<and> toksuper p < int (toknext p) \<and> k = int (toknext p) \<and> toks_ok (pos p) (take (toknext p) ts)"

lemma tok_ok_mono: "tok_ok p t \<Longrightarrow> p \<le> q \<Longrightarrow> tok_ok q t"
  by (auto simp: tok_ok_def)

lemma toks_ok_mono: "toks_ok p ts \<Longrightarrow> p \<le> q \<Longrightarrow> toks_ok q ts"
  by (auto simp: toks_ok_def intro: tok_ok_mono)

lemma toks_ok_snoc:
  assumes "toks_ok p ts" and "p \<le> q" and "tok_ok q t" and "int p \<le> tok_start t"
  shows "toks_ok q (ts @ [t])"
  using assms tok_ok_mono by (fastforce simp: toks_ok_def sorted_wrt_append tok_ok_def)

lemma toks_ok_update:
  assumes "toks_ok p ts" and "i < length ts" and "tok_ok p t" and "tok_start t = tok_start (ts ! i)"
  shows "toks_ok p (ts[i := t])"
  using assms
  by (auto simp: toks_ok_def sorted_wrt_iff_nth_less nth_list_update set_conv_nth)

lemma toks_ok_nth: "toks_ok p (take n ts) \<Longrightarrow> i < n \<Longrightarrow> n \<le> length ts \<Longrightarrow> tok_ok p (ts ! i)"
  unfolding toks_ok_def by (metis in_set_conv_nth length_take min.absorb2 nth_take)

lemma take_snoc_update: "n < length ts \<Longrightarrow> take (Suc n) (ts[n := t]) = take n ts @ [t]"
  by (simp add: take_Suc_conv_app_nth)

lemma find_down_spec:
  assumes "n \<le> length ts"
  shows "\<exists>r. find_down P ts n = Some r \<and>
    (case r of None \<Rightarrow> \<forall>i < n. \<not> P (ts ! i) | Some i \<Rightarrow> i < n \<and> P (ts ! i) \<and> (\<forall>j. i < j \<and> j < n \<longrightarrow> \<not> P (ts ! j)))"
  using assms
proof (induction n)
  case (Suc n)
  then obtain r where r: "find_down P ts n = Some r"
    "case r of None \<Rightarrow> \<forall>i < n. \<not> P (ts ! i) | Some i \<Rightarrow> i < n \<and> P (ts ! i) \<and> (\<forall>j. i < j \<and> j < n \<longrightarrow> \<not> P (ts ! j))"
    by auto
  show ?case
  proof (cases "P (ts ! n)")
    case True
    then show ?thesis
      using Suc.prems by (auto simp: arr_get_def)
  next
    case False
    then show ?thesis
      using Suc.prems r by (auto simp: arr_get_def less_Suc_eq split: option.splits)
  qed
qed simp

text \<open>The count in the superior token does not matter for the invariant.\<close>

lemma bump_super_ok:
  assumes "-1 \<le> toksuper p" and "toksuper p < int n" and "n \<le> length ts" and "toks_ok q (take n ts)"
  shows "\<exists>ts'. bump_super p ts = Some ts' \<and> length ts' = length ts \<and> toks_ok q (take n ts') \<and>
    (\<forall>j. tok_start (ts' ! j) = tok_start (ts ! j) \<and> tok_end (ts' ! j) = tok_end (ts ! j) \<and> tok_type (ts' ! j) = tok_type (ts ! j)) \<and>
    (\<forall>j \<ge> n. ts' ! j = ts ! j)"
proof (cases "toksuper p = -1")
  case True
  then show ?thesis
    using assms by (auto simp: bump_super_def)
next
  case False
  let ?i = "nat (toksuper p)"
  let ?t = "(ts ! ?i)\<lparr>tok_size := tok_size (ts ! ?i) + 1\<rparr>"
  have i: "?i < n"
    using assms(1,2) False by simp
  then have "tok_ok q (ts ! ?i)"
    using toks_ok_nth [OF assms(4) _ assms(3)] by blast
  then have "tok_ok q ?t"
    by (auto simp: tok_ok_def is_container_def)
  then have "toks_ok q (take n (ts[?i := ?t]))"
    using toks_ok_update [OF assms(4), of ?i ?t] i assms(3) by (simp add: take_update_swap)
  then show ?thesis
    using False assms(1,3) i
    by (auto simp: bump_super_def arr_get_def nth_list_update intro!: exI [of _ "ts[?i := ?t]"])
qed

definition step_ok :: "nat \<Rightarrow> nat \<Rightarrow> nat \<Rightarrow> int \<times> jsmn_parser \<times> toks option + jsmn_state \<Rightarrow> bool" where
  "step_ok len num sz res \<longleftrightarrow>
     (case res of
        Inl (e, p', tokens) \<Rightarrow> e \<in> jsmn_errors \<and> (\<exists>ts'. tokens = Some ts' \<and> length ts' = sz)
      | Inr (p', tokens, k') \<Rightarrow> \<exists>ts'. tokens = Some ts' \<and> jsmn_inv len num sz (p'\<lparr>pos := pos p' + 1\<rparr>) ts' k')"

lemma value_step:
  assumes "jsmn_inv len num sz p ts k" and "m = Some res" and "one_token p ts len num ty res" and "ty \<noteq> JSMN_UNDEFINED"
  shows "\<exists>r. jsmn_value m k = Some r \<and> step_ok len num sz r"
proof -
  consider (err) e p' where "e \<in> jsmn_errors" "res = (e, p', Some ts)"
    | (tok) a q q' where "toknext p < num" "pos p \<le> a" "a \<le> q" "q \<le> q' + 1" "a \<le> q'" "pos p \<le> q'" "q' < len"
      "res = (0, p\<lparr>pos := q', toknext := toknext p + 1\<rparr>,
        Some (ts[toknext p := \<lparr>tok_type = ty, tok_start = int a, tok_end = int q, tok_size = 0\<rparr>]))"
    using assms(3) unfolding one_token_def by blast
  then show ?thesis
  proof cases
    case err
    then show ?thesis
      using assms(1,2) by (auto simp: jsmn_value_def step_ok_def jsmn_errors_def jsmnerr_defs jsmn_inv_def)
  next
    case tok
    let ?p = "p\<lparr>pos := q', toknext := toknext p + 1\<rparr>"
    let ?t = "\<lparr>tok_type = ty, tok_start = int a, tok_end = int q, tok_size = 0\<rparr>"
    let ?ts = "ts[toknext p := ?t]"
    have n: "toknext p < length ts"
      using assms(1) tok(1) by (simp add: jsmn_inv_def)
    have "tok_ok (q' + 1) ?t"
      using tok assms(4) by (simp add: tok_ok_def)
    then have "toks_ok (q' + 1) (take (toknext ?p) ?ts)"
      using assms(1) tok n toks_ok_snoc [of "pos p" "take (toknext p) ts" "q' + 1" ?t]
      by (simp add: take_snoc_update jsmn_inv_def)
    then obtain ts' where "bump_super ?p ?ts = Some ts'" "length ts' = length ?ts" "toks_ok (q' + 1) (take (toknext ?p) ts')"
      using bump_super_ok [of ?p "toknext ?p" ?ts "q' + 1"] assms(1) n by (auto simp: jsmn_inv_def)
    then show ?thesis
      using tok assms(1,2) by (auto simp: jsmn_value_def bump_super_opt_def step_ok_def jsmn_inv_def)
  qed
qed

lemma open_step:
  assumes "jsmn_inv len num sz p ts k" and "pos p < len"
  shows "\<exists>r. jsmn_open c num (p, Some ts, k) = Some r \<and> step_ok len num sz r"
proof (cases "toknext p < num")
  case False
  then show ?thesis
    using assms(1) no_token [of num p ts] by (auto simp: jsmn_open_def step_ok_def jsmn_errors_def jsmn_inv_def)
next
  case True
  let ?n = "toknext p"
  let ?p = "p\<lparr>toknext := ?n + 1\<rparr>"
  let ?ts = "ts[?n := (ts ! ?n)\<lparr>tok_start := -1, tok_end := -1, tok_size := 0\<rparr>]"
  let ?ty = "if c = LBRACE then JSMN_OBJECT else JSMN_ARRAY"
  have n: "?n < length ts"
    using assms(1) True by (simp add: jsmn_inv_def)
  then have a: "jsmn_alloc_token p ts num = Some (Some ?n, ?p, ?ts)"
    using True by (simp add: jsmn_alloc_token_def arr_get_def)
  obtain ts1 where b: "bump_super ?p ?ts = Some ts1" "length ts1 = length ts" "toks_ok (pos p) (take ?n ts1)"
    "tok_end (ts1 ! ?n) = -1" "ts1 ! ?n = ?ts ! ?n"
    using bump_super_ok [of ?p ?n ?ts "pos p"] assms(1) n by (auto simp: jsmn_inv_def)
  let ?t = "(ts1 ! ?n)\<lparr>tok_type := ?ty, tok_start := int (pos p)\<rparr>"
  have "tok_ok (pos p + 1) ?t" "int (pos p) \<le> tok_start ?t"
    using b(4,5) n by (auto simp: tok_ok_def is_container_def)
  then have "toks_ok (pos p + 1) (take (?n + 1) (ts1[?n := ?t]))"
    using toks_ok_snoc [OF b(3), of "pos p + 1" ?t] n b(2) by (simp add: take_snoc_update)
  then show ?thesis
    using a b(1,2) n assms True by (auto simp: jsmn_open_def step_ok_def jsmn_inv_def arr_get_def Let_def)
qed

lemma close_step:
  assumes "jsmn_inv len num sz p ts k" and "pos p < len"
  shows "\<exists>r. jsmn_close c (p, Some ts, k) = Some r \<and> step_ok len num sz r"
proof -
  let ?ty = "if c = RBRACE then JSMN_OBJECT else JSMN_ARRAY"
  have n: "toknext p \<le> length ts" and ok: "toks_ok (pos p) (take (toknext p) ts)"
    using assms(1) by (simp_all add: jsmn_inv_def)
  obtain r where r: "find_down tok_open ts (toknext p) = Some r"
    "case r of None \<Rightarrow> True | Some i \<Rightarrow> i < toknext p \<and> tok_open (ts ! i)"
    using find_down_spec [OF n, of tok_open] by (auto split: option.splits)
  show ?thesis
  proof (cases "\<exists>i. r = Some i \<and> tok_type (ts ! i) = ?ty")
    case False
    then show ?thesis
      using r assms n by (auto simp: jsmn_close_def step_ok_def jsmn_errors_def jsmn_inv_def arr_get_def Let_def split: option.splits)
  next
    case True
    then obtain i where i: "r = Some i" "tok_type (ts ! i) = ?ty" "i < toknext p" "i < length ts"
      using r(2) n by auto
    let ?t = "(ts ! i)\<lparr>tok_end := int (pos p) + 1\<rparr>"
    have "tok_ok (pos p + 1) ?t"
      using toks_ok_nth [OF ok i(3) n] by (auto simp: tok_ok_def)
    then have "toks_ok (pos p + 1) (take (toknext p) (ts[i := ?t]))"
      using toks_ok_update [OF toks_ok_mono [OF ok], of "pos p + 1" i ?t] i n by (simp add: take_update_swap)
    moreover obtain r' where "find_down tok_open (ts[i := ?t]) (Suc i) = Some r'" "case r' of None \<Rightarrow> True | Some j \<Rightarrow> j < Suc i"
      using find_down_spec [of "Suc i" "ts[i := ?t]" tok_open] i(4) by (auto split: option.splits)
    ultimately show ?thesis
      using r(1) i assms by (auto simp: jsmn_close_def step_ok_def jsmn_inv_def arr_get_def Let_def split: option.splits)
  qed
qed

lemma comma_step:
  assumes "jsmn_inv len num sz p ts k" and "pos p < len"
  shows "\<exists>st. jsmn_comma (p, Some ts, k) = Some st \<and> step_ok len num sz (Inr st)"
proof -
  have n: "toknext p \<le> length ts"
    using assms(1) by (simp add: jsmn_inv_def)
  have same: "step_ok len num sz (Inr (p\<lparr>toksuper := s\<rparr>, Some ts, k))" if "-1 \<le> s" "s < int (toknext p)" for s
    using assms that by (auto simp: step_ok_def jsmn_inv_def intro: toks_ok_mono)
  obtain r where r: "find_down (\<lambda>t. is_container t \<and> tok_open t) ts (toknext p) = Some r"
    "case r of None \<Rightarrow> True | Some i \<Rightarrow> i < toknext p"
    using find_down_spec [OF n, of "\<lambda>t. is_container t \<and> tok_open t"] by (auto split: option.splits)
  have s: "-1 \<le> toksuper p" "toksuper p < int (toknext p)"
    using assms(1) by (simp_all add: jsmn_inv_def)
  have "step_ok len num sz (Inr (p, Some ts, k))"
    using same [OF s] by simp
  then show ?thesis
    using r s n same by (auto simp: jsmn_comma_def arr_get_def split: option.splits)
qed

lemma jsmn_step_ok:
  assumes "jsmn_inv len num sz p ts k" and "pos p < len" and "len \<le> length js" and "mem_get js (pos p) = Some c" and "c \<noteq> 0"
  shows "\<exists>r. jsmn_step js len num c (p, Some ts, k) = Some r \<and> step_ok len num sz r"
proof -
  have num: "num \<le> length ts"
    using assms(1) by (simp add: jsmn_inv_def)
  consider "c \<in> {LBRACE, LBRACKET}" | "c \<in> {RBRACE, RBRACKET}" | "c = QUOTE" | "c \<in> SPACES" | "c = COLON" | "c = COMMA"
    | (other) "c \<notin> {LBRACE, LBRACKET, RBRACE, RBRACKET, QUOTE, COLON, COMMA}" "c \<notin> SPACES"
    by blast
  then show ?thesis
  proof cases
    case 1
    then show ?thesis
      using open_step [OF assms(1,2), of c] by (auto simp: jsmn_step_def)
  next
    case 2
    then show ?thesis
      using close_step [OF assms(1,2), of c] by (auto simp: jsmn_step_def)
  next
    case 3
    then show ?thesis
      using parse_string_token [OF assms(3) num, of p] value_step [OF assms(1), of _ _ JSMN_STRING]
      by (auto simp: jsmn_step_def)
  next
    case 6
    then show ?thesis
      using comma_step [OF assms(1,2)] by (auto simp: jsmn_step_def)
  next
    case other
    then have c: "c \<notin> insert COLON (SPACES \<union> {COMMA, RBRACKET, RBRACE})"
      by auto
    have "jsmn_step js len num c (p, Some ts, k) = jsmn_value (jsmn_parse_primitive p js len (Some ts) num) k"
      using other by (simp add: jsmn_step_def)
    then show ?thesis
      using parse_primitive_token [OF assms(3) num assms(2,4,5) c] value_step [OF assms(1), of _ _ JSMN_PRIMITIVE] by auto
  qed (use assms in \<open>auto simp: jsmn_step_def step_ok_def jsmn_inv_def intro: toks_ok_mono\<close>)
qed

definition parsed :: "nat \<Rightarrow> nat \<Rightarrow> nat \<Rightarrow> int \<times> jsmn_parser \<times> toks option \<Rightarrow> bool" where
  "parsed len num sz res \<longleftrightarrow> (\<exists>r p' ts'. res = (r, p', Some ts') \<and> length ts' = sz \<and>
     (r \<in> jsmn_errors \<or>
      (\<exists>n \<le> num. r = int n \<and> toks_ok len (take n ts') \<and> (\<forall>t \<in> set (take n ts'). \<not> tok_open t))))"

lemma finish_ok:
  assumes "jsmn_inv len num sz p ts k"
  shows "\<exists>res. jsmn_finish (p, Some ts, k) = Some res \<and> parsed len num sz res"
proof -
  have n: "toknext p \<le> length ts"
    using assms by (simp add: jsmn_inv_def)
  obtain r where r: "find_down tok_open ts (toknext p) = Some r" "r = None \<longrightarrow> (\<forall>i < toknext p. \<not> tok_open (ts ! i))"
    using find_down_spec [OF n, of tok_open] by (auto split: option.splits)
  have ok: "toks_ok len (take (toknext p) ts)"
    using assms toks_ok_mono by (auto simp: jsmn_inv_def)
  show ?thesis
  proof (cases r)
    case None
    then have "\<forall>t \<in> set (take (toknext p) ts). \<not> tok_open t"
      using r(2) n by (auto simp: in_set_conv_nth)
    then show ?thesis
      using r(1) None ok assms by (auto simp: jsmn_finish_def parsed_def jsmn_inv_def)
  next
    case (Some i)
    then show ?thesis
      using r(1) assms by (auto simp: jsmn_finish_def parsed_def jsmn_errors_def jsmn_inv_def)
  qed
qed

lemma jsmn_loop_ok:
  assumes "jsmn_inv len num sz p ts k" and "len \<le> length js"
  shows "\<exists>res. jsmn_loop js len num (p, Some ts, k) = Some res \<and> parsed len num sz res"
  using assms(1)
proof (induction "len - pos p" arbitrary: p ts k rule: less_induct)
  case less
  show ?case
  proof (cases "pos p < len \<and> mem_get js (pos p) \<noteq> Some 0")
    case False
    then show ?thesis
      unfolding jsmn_loop.simps [of js len num p] using finish_ok [OF less.prems] by auto
  next
    case True
    obtain c where c: "mem_get js (pos p) = Some c" "c \<noteq> 0"
      using True assms(2) by (auto simp: mem_get_def)
    obtain r where r: "jsmn_step js len num c (p, Some ts, k) = Some r" "step_ok len num sz r"
      using jsmn_step_ok [OF less.prems _ assms(2) c] True by blast
    show ?thesis
    proof (cases r)
      case (Inl e)
      then show ?thesis
        unfolding jsmn_loop.simps [of js len num p] using True c r by (auto simp: step_ok_def parsed_def)
    next
      case (Inr st)
      then obtain p' ts' k' where st: "r = Inr (p', Some ts', k')" "jsmn_inv len num sz (p'\<lparr>pos := pos p' + 1\<rparr>) ts' k'"
        using r(2) by (cases st) (auto simp: step_ok_def)
      have "pos p \<le> pos p'"
        using jsmn_step_pos [of js len num c p "Some ts" k p' "Some ts'" k'] r(1) st(1) True c by simp
      then have "len - pos (p'\<lparr>pos := pos p' + 1\<rparr>) < len - pos p"
        using True by (simp, linarith)
      from less(1) [OF this st(2)]
      have "\<exists>res. jsmn_loop js len num (p'\<lparr>pos := pos p' + 1\<rparr>, Some ts', k') = Some res \<and> parsed len num sz res" .
      then show ?thesis
        unfolding jsmn_loop.simps [of js len num p] using True c r(1) st(1) by simp
    qed
  qed
qed


end
