(* ===== verification/Json_Utils.thy ===== *)
theory Json_Utils
  imports Iot_Types Jsmn
begin

text \<open>
  \<open>src/aws_iot_json_utils.c\<close>: comparing a token with a key and reading the value of a token.
  The conversions of \<open>sscanf\<close> and \<open>snprintf\<close> that the shadow code uses are modelled on the text up
  to the terminating NUL: \<open>%u\<close> and \<open>%i\<close> for integers as functions, those for floating-point
  numbers (\<open>%f\<close>, \<open>%lf\<close>) as the parameters \<open>clib\<close>, a \<open>float\<close> and a \<open>double\<close> being their bits.
  A result is \<open>None\<close> where C leaves the behaviour undefined: an access outside the text or the
  buffer, and an integer that does not fit the object it is stored in.
\<close>

section \<open>Conversions of the C library\<close>

text \<open>The bytes of a string literal.\<close>

definition cs :: "string \<Rightarrow> u8 list" where
  "cs s = map of_char s"

record clib =
  scanf_f :: "u8 list \<Rightarrow> 32 word option"
  scanf_lf :: "u8 list \<Rightarrow> 64 word option"
  printf_float :: "32 word \<Rightarrow> u8 list"
  printf_double :: "64 word \<Rightarrow> u8 list"

definition c_text :: "mem \<Rightarrow> u8 list option" where
  "c_text m = (if 0 \<in> set m then Some (takeWhile (\<lambda>c. c \<noteq> 0) m) else None)"

definition is_space :: "u8 \<Rightarrow> bool" where
  "is_space c \<longleftrightarrow> c = 32 \<or> 9 \<le> c \<and> c \<le> 13"

text \<open>The value of a digit in bases up to 16, and 16 for other characters.\<close>

definition digit_val :: "u8 \<Rightarrow> nat" where
  "digit_val c =
     (if 48 \<le> c \<and> c \<le> 57 then unat c - 48
      else if 97 \<le> c \<and> c \<le> 102 then unat c - 87
      else if 65 \<le> c \<and> c \<le> 70 then unat c - 55
      else 16)"

fun scan_digits :: "nat \<Rightarrow> nat \<Rightarrow> u8 list \<Rightarrow> nat" where
  "scan_digits b acc [] = acc"
| "scan_digits b acc (c # r) = (if digit_val c < b then scan_digits b (acc * b + digit_val c) r else acc)"

fun has_digit :: "nat \<Rightarrow> u8 list \<Rightarrow> bool" where
  "has_digit b [] = False"
| "has_digit b (c # r) = (digit_val c < b)"

definition scan_sign :: "u8 list \<Rightarrow> int \<times> u8 list" where
  "scan_sign s = (case s of [] \<Rightarrow> (1, []) | c # r \<Rightarrow> if c = 45 then (-1, r) else if c = 43 then (1, r) else (1, s))"

definition scanf_u :: "u8 list \<Rightarrow> int option" where
  "scanf_u s =
     (let (sign, r) = scan_sign (dropWhile is_space s)
      in if has_digit 10 r then Some (sign * int (scan_digits 10 0 r)) else None)"

definition scanf_i :: "u8 list \<Rightarrow> int option" where
  "scanf_i s =
     (let (sign, r) = scan_sign (dropWhile is_space s)
      in if take 1 r = [48] \<and> take 1 (drop 1 r) \<in> {[120], [88]} then
           if has_digit 16 (drop 2 r) then Some (sign * int (scan_digits 16 0 (drop 2 r))) else None
         else if take 1 r = [48] then Some (sign * int (scan_digits 8 0 r))
         else if has_digit 10 r then Some (sign * int (scan_digits 10 0 r))
         else None)"

text \<open>\<open>%u\<close> and \<open>%d\<close> of \<open>printf\<close>.\<close>

fun dec :: "nat \<Rightarrow> u8 list" where
  "dec n = (if n < 10 then [48 + of_nat n] else dec (n div 10) @ [48 + of_nat (n mod 10)])"

declare dec.simps [simp del]

definition dec_int :: "int \<Rightarrow> u8 list" where
  "dec_int v = (if v < 0 then 45 # dec (nat (- v)) else dec (nat v))"

section \<open>Operations\<close>

text \<open>\<open>jsonString + token->start\<close>\<close>

definition at_token :: "mem \<Rightarrow> jsmntok_t \<Rightarrow> mem option" where
  "at_token js token =
     (if 0 \<le> tok_start token \<and> nat (tok_start token) \<le> length js then Some (drop (nat (tok_start token)) js) else None)"

definition jsoneq :: "mem \<Rightarrow> jsmntok_t \<Rightarrow> mem \<Rightarrow> int option" where
  "jsoneq json tok s =
     (if tok_type tok = JSMN_STRING then do {
        n \<leftarrow> c_strlen s;
        if int n = tok_end tok - tok_start tok then do {
          t \<leftarrow> at_token json tok;
          eq \<leftarrow> c_strneq t s n;
          Some (if eq then 0 else -1) }
        else Some (-1) }
      else Some (-1))"

definition parse_unsigned :: "nat \<Rightarrow> mem \<Rightarrow> jsmntok_t \<Rightarrow> (IoT_Error_t \<times> int option) option" where
  "parse_unsigned bits jsonString token =
     (if tok_type token \<noteq> JSMN_PRIMITIVE then Some (JSON_PARSE_ERROR, None)
      else do {
        t \<leftarrow> at_token jsonString token;
        c \<leftarrow> mem_get t 0;
        if c = 45 then Some (JSON_PARSE_ERROR, None)
        else do {
          s \<leftarrow> c_text t;
          case scanf_u s of
            None \<Rightarrow> Some (JSON_PARSE_ERROR, None)
          | Some v \<Rightarrow> if 0 \<le> v \<and> v < 2 ^ bits then Some (SUCCESS, Some v) else None } })"

definition parse_signed :: "nat \<Rightarrow> mem \<Rightarrow> jsmntok_t \<Rightarrow> (IoT_Error_t \<times> int option) option" where
  "parse_signed bits jsonString token =
     (if tok_type token \<noteq> JSMN_PRIMITIVE then Some (JSON_PARSE_ERROR, None)
      else do {
        t \<leftarrow> at_token jsonString token;
        s \<leftarrow> c_text t;
        case scanf_i s of
          None \<Rightarrow> Some (JSON_PARSE_ERROR, None)
        | Some v \<Rightarrow> if - (2 ^ (bits - 1)) \<le> v \<and> v < 2 ^ (bits - 1) then Some (SUCCESS, Some v) else None })"

definition parseUnsignedInteger32Value :: "mem \<Rightarrow> jsmntok_t \<Rightarrow> (IoT_Error_t \<times> int option) option" where
  "parseUnsignedInteger32Value = parse_unsigned 32"

definition parseUnsignedInteger16Value :: "mem \<Rightarrow> jsmntok_t \<Rightarrow> (IoT_Error_t \<times> int option) option" where
  "parseUnsignedInteger16Value = parse_unsigned 16"

definition parseUnsignedInteger8Value :: "mem \<Rightarrow> jsmntok_t \<Rightarrow> (IoT_Error_t \<times> int option) option" where
  "parseUnsignedInteger8Value = parse_unsigned 8"

definition parseInteger32Value :: "mem \<Rightarrow> jsmntok_t \<Rightarrow> (IoT_Error_t \<times> int option) option" where
  "parseInteger32Value = parse_signed 32"

definition parseInteger16Value :: "mem \<Rightarrow> jsmntok_t \<Rightarrow> (IoT_Error_t \<times> int option) option" where
  "parseInteger16Value = parse_signed 16"

definition parseInteger8Value :: "mem \<Rightarrow> jsmntok_t \<Rightarrow> (IoT_Error_t \<times> int option) option" where
  "parseInteger8Value = parse_signed 8"

definition parseFloatValue :: "clib \<Rightarrow> mem \<Rightarrow> jsmntok_t \<Rightarrow> (IoT_Error_t \<times> 32 word option) option" where
  "parseFloatValue lib jsonString token =
     (if tok_type token \<noteq> JSMN_PRIMITIVE then Some (JSON_PARSE_ERROR, None)
      else do {
        t \<leftarrow> at_token jsonString token;
        s \<leftarrow> c_text t;
        Some (case scanf_f lib s of None \<Rightarrow> (JSON_PARSE_ERROR, None) | Some f \<Rightarrow> (SUCCESS, Some f)) })"

definition parseDoubleValue :: "clib \<Rightarrow> mem \<Rightarrow> jsmntok_t \<Rightarrow> (IoT_Error_t \<times> 64 word option) option" where
  "parseDoubleValue lib jsonString token =
     (if tok_type token \<noteq> JSMN_PRIMITIVE then Some (JSON_PARSE_ERROR, None)
      else do {
        t \<leftarrow> at_token jsonString token;
        s \<leftarrow> c_text t;
        Some (case scanf_lf lib s of None \<Rightarrow> (JSON_PARSE_ERROR, None) | Some d \<Rightarrow> (SUCCESS, Some d)) })"

text \<open>The comparison of single characters with \<open>&&\<close>, which stops at the first difference.\<close>

fun starts_with :: "mem \<Rightarrow> u8 list \<Rightarrow> bool option" where
  "starts_with m [] = Some True"
| "starts_with [] (c # r) = None"
| "starts_with (x # m) (c # r) = (if x = c then starts_with m r else Some False)"

definition parseBooleanValue :: "mem \<Rightarrow> jsmntok_t \<Rightarrow> (IoT_Error_t \<times> bool option) option" where
  "parseBooleanValue jsonString token =
     (if tok_type token \<noteq> JSMN_PRIMITIVE then Some (JSON_PARSE_ERROR, None)
      else do {
        t \<leftarrow> at_token jsonString token;
        b \<leftarrow> starts_with t (cs ''true'');
        if b then Some (SUCCESS, Some True)
        else do {
          b \<leftarrow> starts_with t (cs ''false'');
          if b then Some (SUCCESS, Some False) else Some (JSON_PARSE_ERROR, None) } })"

definition parseStringValue :: "mem \<Rightarrow> mem \<Rightarrow> jsmntok_t \<Rightarrow> (IoT_Error_t \<times> mem) option" where
  "parseStringValue buf jsonString token =
     (if tok_type token \<noteq> JSMN_STRING then Some (JSON_PARSE_ERROR, buf)
      else do {
        let n = nat ((tok_end token - tok_start token) mod 2 ^ 16);
        t \<leftarrow> at_token jsonString token;
        bs \<leftarrow> mem_read t 0 n;
        buf \<leftarrow> mem_write buf 0 bs;
        buf \<leftarrow> mem_write buf n [0];
        Some (SUCCESS, buf) })"

section \<open>Printed integers are read back\<close>

lemma digit_val_48: "n < 10 \<Longrightarrow> digit_val (48 + of_nat n) = n"
proof -
  assume n: "n < 10"
  then have "unat (48 + of_nat n :: u8) = 48 + n"
    by (simp add: unat_word_ariths unsigned_of_nat take_bit_eq_mod)
  then show ?thesis
    using n by (simp add: digit_val_def word_le_nat_alt)
qed

lemma digit_val_le: "digit_val c < 10 \<longleftrightarrow> 48 \<le> c \<and> c \<le> 57"
  by (auto simp: digit_val_def word_le_nat_alt)

lemma dec_digits: "\<forall>c \<in> set (dec n). digit_val c < 10"
proof (induction n rule: dec.induct)
  case (1 n)
  then show ?case
    by (subst dec.simps) (auto simp: digit_val_48)
qed

lemma dec_not_Nil: "dec n \<noteq> []"
  by (subst dec.simps) simp

lemma scan_digits_append:
  assumes "\<forall>c \<in> set s. digit_val c < b"
  shows "scan_digits b acc (s @ r) = scan_digits b (scan_digits b acc s) r"
  using assms by (induction s arbitrary: acc) auto

lemma scan_digits_dec: "scan_digits 10 0 (dec n) = n"
proof (induction n rule: dec.induct)
  case (1 n)
  show ?case
  proof (cases "n < 10")
    case True
    then show ?thesis
      by (simp add: dec.simps digit_val_48)
  next
    case False
    then show ?thesis
      using 1 scan_digits_append [OF dec_digits [of "n div 10"], of 0] by (simp add: dec.simps [of n] digit_val_48)
  qed
qed

lemma scan_digits_stop: "\<not> has_digit b r \<Longrightarrow> scan_digits b acc r = acc"
  by (cases r) auto

lemma scan_dec: "\<not> has_digit 10 r \<Longrightarrow> scan_digits 10 0 (dec n @ r) = n"
  using scan_digits_append [OF dec_digits, of 0] scan_digits_dec [of n] scan_digits_stop by simp

lemma dec_head: "\<exists>c r. dec n = c # r \<and> digit_val c < 10 \<and> (c = 48 \<longrightarrow> n = 0)"
proof (induction n rule: dec.induct)
  case (1 n)
  show ?case
  proof (cases "n < 10")
    case True
    then have "48 + of_nat n = (48 :: u8) \<longleftrightarrow> n = 0"
      using digit_val_48 [of n] by (auto simp: digit_val_def)
    then show ?thesis
      using True by (simp add: dec.simps digit_val_48)
  next
    case False
    then show ?thesis
      using 1 by (auto simp: dec.simps [of n])
  qed
qed

lemma digit_not_special: "digit_val c < 10 \<Longrightarrow> \<not> is_space c \<and> c \<noteq> 45 \<and> c \<noteq> 43 \<and> c \<noteq> 0 \<and> c \<noteq> 120 \<and> c \<noteq> 88"
  by (auto simp: digit_val_le is_space_def word_le_nat_alt)

lemma scanf_u_dec:
  assumes "\<not> has_digit 10 r"
  shows "scanf_u (dec n @ r) = Some (int n)"
proof -
  obtain c s where c: "dec n = c # s" "digit_val c < 10"
    using dec_head by blast
  then show ?thesis
    using digit_not_special [OF c(2)] scan_dec [OF assms, of n] by (simp add: scanf_u_def scan_sign_def)
qed

text \<open>The text behind a number ends it: no digit follows, and no \<open>x\<close> that would start a hexadecimal number.\<close>

definition ends_number :: "u8 list \<Rightarrow> bool" where
  "ends_number r \<longleftrightarrow> \<not> has_digit 10 r \<and> take 1 r \<notin> {[120], [88]}"

lemma scanf_i_digits:
  assumes "ends_number r"
  shows "(if take 1 (dec n @ r) = [48] \<and> take 1 (drop 1 (dec n @ r)) \<in> {[120], [88]} then
      if has_digit 16 (drop 2 (dec n @ r)) then Some (v * int (scan_digits 16 0 (drop 2 (dec n @ r)))) else None
    else if take 1 (dec n @ r) = [48] then Some (v * int (scan_digits 8 0 (dec n @ r)))
    else if has_digit 10 (dec n @ r) then Some (v * int (scan_digits 10 0 (dec n @ r))) else None) = Some (v * int n)"
proof -
  obtain c s where c: "dec n = c # s" "digit_val c < 10" "c = 48 \<longrightarrow> n = 0"
    using dec_head by blast
  show ?thesis
  proof (cases "n = 0")
    case True
    then have d: "dec n = [48]"
      by (simp add: dec.simps)
    have "\<not> has_digit 8 r"
      using assms by (cases r) (auto simp: ends_number_def)
    then show ?thesis
      using True d assms by (simp add: ends_number_def scan_digits_stop digit_val_def)
  next
    case False
    then show ?thesis
      using c scan_dec [of r n] assms by (simp add: ends_number_def)
  qed
qed

lemma scanf_i_dec:
  assumes "ends_number r"
  shows "scanf_i (dec_int v @ r) = Some v"
proof (cases "v < 0")
  case True
  have "\<not> is_space 45"
    by (simp add: is_space_def)
  then have "scan_sign (dropWhile is_space (dec_int v @ r)) = (-1, dec (nat (- v)) @ r)"
    using True by (simp add: dec_int_def scan_sign_def)
  then show ?thesis
    using scanf_i_digits [OF assms, of "nat (- v)" "-1"] True by (simp add: scanf_i_def)
next
  case False
  obtain c s where c: "dec (nat v) = c # s" "digit_val c < 10"
    using dec_head by blast
  then have "scan_sign (dropWhile is_space (dec_int v @ r)) = (1, dec (nat v) @ r)"
    using False digit_not_special [OF c(2)] by (simp add: dec_int_def scan_sign_def)
  then show ?thesis
    using scanf_i_digits [OF assms, of "nat v" 1] False by (simp add: scanf_i_def)
qed

lemma c_text_append: "0 \<notin> set s \<Longrightarrow> c_text (s @ 0 # r) = Some s"
  by (auto simp: c_text_def takeWhile_append2 takeWhile_tail)

lemma number_text:
  assumes "0 \<notin> set r"
  shows "c_text (dec n @ r @ 0 # post) = Some (dec n @ r)" and "c_text (dec_int v @ r @ 0 # post) = Some (dec_int v @ r)"
proof -
  have d: "0 \<notin> set (dec k)" for k
    using dec_digits [of k] digit_not_special by blast
  then have "0 \<notin> set (dec n @ r)" "0 \<notin> set (dec_int v @ r)"
    using assms by (auto simp: dec_int_def)
  from this [THEN c_text_append, of post]
  show "c_text (dec n @ r @ 0 # post) = Some (dec n @ r)" "c_text (dec_int v @ r @ 0 # post) = Some (dec_int v @ r)"
    by simp_all
qed

lemma parse_signed_dec:
  assumes "ends_number r" and "0 \<notin> set r" and "tok_type tok = JSMN_PRIMITIVE"
    and "at_token js tok = Some (dec_int v @ r @ 0 # post)" and "- (2 ^ (b - 1)) \<le> v" and "v < 2 ^ (b - 1)"
  shows "parse_signed b js tok = Some (SUCCESS, Some v)"
  using assms number_text(2) [OF assms(2)] scanf_i_dec [OF assms(1)] by (simp add: parse_signed_def)

lemma parse_unsigned_dec:
  assumes "ends_number r" and "0 \<notin> set r" and "tok_type tok = JSMN_PRIMITIVE"
    and "at_token js tok = Some (dec n @ r @ 0 # post)" and "n < 2 ^ b"
  shows "parse_unsigned b js tok = Some (SUCCESS, Some (int n))"
proof -
  obtain c q where c: "dec n = c # q" "digit_val c < 10"
    using dec_head by blast
  have "int n < 2 ^ b"
    using assms(5) by (metis of_nat_less_iff of_nat_numeral of_nat_power)
  then show ?thesis
    using assms(1,3,4) number_text(1) [OF assms(2), of n post] scanf_u_dec [of r n] c digit_not_special [OF c(2)]
    by (simp add: parse_unsigned_def ends_number_def)
qed

text \<open>
  Printed integers are read back.  An integer of 8, 16 or 32 bits, signed or unsigned, printed
  in decimal the way \<open>convertDataToString\<close> prints it and standing in a NUL-terminated text where
  no digit and no \<open>x\<close> follows, is what the parser of that type reads from a primitive token that
  starts there.
\<close>

theorem integer_roundtrip:
  assumes "ends_number r" and "0 \<notin> set r" and "tok_type token = JSMN_PRIMITIVE" and "tok_start token = int (length pre)"
  shows "(- (2 ^ 31) \<le> v \<and> v < 2 ^ 31 \<longrightarrow> parseInteger32Value (pre @ dec_int v @ r @ 0 # post) token = Some (SUCCESS, Some v)) \<and>
    (- (2 ^ 15) \<le> v \<and> v < 2 ^ 15 \<longrightarrow> parseInteger16Value (pre @ dec_int v @ r @ 0 # post) token = Some (SUCCESS, Some v)) \<and>
    (- (2 ^ 7) \<le> v \<and> v < 2 ^ 7 \<longrightarrow> parseInteger8Value (pre @ dec_int v @ r @ 0 # post) token = Some (SUCCESS, Some v)) \<and>
    (n < 2 ^ 32 \<longrightarrow> parseUnsignedInteger32Value (pre @ dec n @ r @ 0 # post) token = Some (SUCCESS, Some (int n))) \<and>
    (n < 2 ^ 16 \<longrightarrow> parseUnsignedInteger16Value (pre @ dec n @ r @ 0 # post) token = Some (SUCCESS, Some (int n))) \<and>
    (n < 2 ^ 8 \<longrightarrow> parseUnsignedInteger8Value (pre @ dec n @ r @ 0 # post) token = Some (SUCCESS, Some (int n)))"
proof -
  have at: "at_token (pre @ s) token = Some s" for s
    using assms(4) by (simp add: at_token_def)
  have s: "parse_signed b (pre @ dec_int v @ r @ 0 # post) token = Some (SUCCESS, Some v)"
    if "- (2 ^ (b - 1)) \<le> v" "v < 2 ^ (b - 1)" for b
    by (rule parse_signed_dec [OF assms(1-3) at that])
  have u: "parse_unsigned b (pre @ dec n @ r @ 0 # post) token = Some (SUCCESS, Some (int n))" if "n < 2 ^ b" for b
    by (rule parse_unsigned_dec [OF assms(1-3) at that])
  show ?thesis
    using s [of 32] s [of 16] s [of 8] u [of 32] u [of 16] u [of 8]
    by (simp add: parseInteger32Value_def parseInteger16Value_def parseInteger8Value_def
        parseUnsignedInteger32Value_def parseUnsignedInteger16Value_def parseUnsignedInteger8Value_def)
qed

theorem integer_roundtrip_witness:
  "parseInteger32Value ([123, 58] @ dec_int (-120) @ [125] @ 0 # [9])
     \<lparr>tok_type = JSMN_PRIMITIVE, tok_start = 2, tok_end = 6, tok_size = 0\<rparr> = Some (SUCCESS, Some (-120))"
  using integer_roundtrip [of "[125]" "\<lparr>tok_type = JSMN_PRIMITIVE, tok_start = 2, tok_end = 6, tok_size = 0\<rparr>" "[123, 58]" "-120" "[9]" 0]
  by (simp add: ends_number_def digit_val_def)

end
