(* ===== verification/Jsmn_Render.thy ===== *)
theory Jsmn_Render
  imports Jsmn
begin

text \<open>
  What the tokeniser finds in a JSON text.  A JSON value with the white space in front of its
  members and elements is a tree; \<open>render\<close> is its text and \<open>toks_of\<close> the token array that the
  documentation of jsmn promises for it: one token per key and value in the order of the text,
  with its range, and as its size the number of members, elements or, for a key, of values.
  \<open>jsmn_parse\<close> computes exactly these tokens.
\<close>

section \<open>JSON texts and their tokens\<close>

datatype json = JObj members | JArr elems | JStr "u8 list" | JPrim "u8 list"
and members = MNil | MCons "u8 list" "u8 list" "u8 list" json members
and elems = ENil | ECons "u8 list" json elems

primrec render :: "json \<Rightarrow> u8 list" and render_members :: "members \<Rightarrow> u8 list" and render_elems :: "elems \<Rightarrow> u8 list" where
  "render (JObj ms) = LBRACE # render_members ms @ [RBRACE]"
| "render (JArr es) = LBRACKET # render_elems es @ [RBRACKET]"
| "render (JStr s) = QUOTE # s @ [QUOTE]"
| "render (JPrim s) = s"
| "render_members MNil = []"
| "render_members (MCons w k w' v ms) =
     w @ QUOTE # k @ QUOTE # COLON # w' @ render v @ (if ms = MNil then [] else COMMA # render_members ms)"
| "render_elems ENil = []"
| "render_elems (ECons w v es) = w @ render v @ (if es = ENil then [] else COMMA # render_elems es)"

primrec members_count :: "members \<Rightarrow> nat" where
  "members_count MNil = 0"
| "members_count (MCons w k w' v ms) = Suc (members_count ms)"

primrec elems_count :: "elems \<Rightarrow> nat" where
  "elems_count ENil = 0"
| "elems_count (ECons w v es) = Suc (elems_count es)"

abbreviation token :: "jsmntype_t \<Rightarrow> nat \<Rightarrow> nat \<Rightarrow> nat \<Rightarrow> jsmntok_t" where
  "token ty a b n \<equiv> \<lparr>tok_type = ty, tok_start = int a, tok_end = int b, tok_size = int n\<rparr>"

primrec toks_of :: "json \<Rightarrow> nat \<Rightarrow> toks" and toks_members :: "members \<Rightarrow> nat \<Rightarrow> toks"
  and toks_elems :: "elems \<Rightarrow> nat \<Rightarrow> toks" where
  "toks_of (JObj ms) p =
     token JSMN_OBJECT p (p + length (render_members ms) + 2) (members_count ms) # toks_members ms (p + 1)"
| "toks_of (JArr es) p =
     token JSMN_ARRAY p (p + length (render_elems es) + 2) (elems_count es) # toks_elems es (p + 1)"
| "toks_of (JStr s) p = [token JSMN_STRING (p + 1) (p + 1 + length s) 0]"
| "toks_of (JPrim s) p = [token JSMN_PRIMITIVE p (p + length s) 0]"
| "toks_members MNil p = []"
| "toks_members (MCons w k w' v ms) p =
     token JSMN_STRING (p + length w + 1) (p + length w + 1 + length k) 1 #
     toks_of v (p + length w + length k + 3 + length w') @
     toks_members ms (p + length w + length k + 3 + length w' + length (render v) + 1)"
| "toks_elems ENil p = []"
| "toks_elems (ECons w v es) p =
     toks_of v (p + length w) @ toks_elems es (p + length w + length (render v) + 1)"

definition ws_ok :: "u8 list \<Rightarrow> bool" where
  "ws_ok w \<longleftrightarrow> set w \<subseteq> SPACES"

definition str_ok :: "u8 list \<Rightarrow> bool" where
  "str_ok s \<longleftrightarrow> set s \<inter> {0, QUOTE, BACKSLASH} = {}"

definition prim_ok :: "u8 list \<Rightarrow> bool" where
  "prim_ok s \<longleftrightarrow> s \<noteq> [] \<and> (\<forall>c \<in> set s. 32 < c \<and> c < 127 \<and> c \<notin> {COLON, COMMA, RBRACKET, RBRACE}) \<and>
     hd s \<notin> {LBRACE, LBRACKET, QUOTE}"

primrec wf_json :: "json \<Rightarrow> bool" and wf_members :: "members \<Rightarrow> bool" and wf_elems :: "elems \<Rightarrow> bool" where
  "wf_json (JObj ms) = wf_members ms"
| "wf_json (JArr es) = wf_elems es"
| "wf_json (JStr s) = str_ok s"
| "wf_json (JPrim s) = prim_ok s"
| "wf_members MNil = True"
| "wf_members (MCons w k w' v ms) = (ws_ok w \<and> str_ok k \<and> ws_ok w' \<and> wf_json v \<and> wf_members ms)"
| "wf_elems ENil = True"
| "wf_elems (ECons w v es) = (ws_ok w \<and> wf_json v \<and> wf_elems es)"

section \<open>Steps of the tokeniser\<close>

text \<open>The superior token with one more child, and the innermost container that is open.\<close>

definition bump :: "int \<Rightarrow> toks \<Rightarrow> toks" where
  "bump s ts = (if s = -1 then ts else ts[nat s := (ts ! nat s)\<lparr>tok_size := tok_size (ts ! nat s) + 1\<rparr>])"

definition innermost :: "toks \<Rightarrow> int" where
  "innermost ts = (case find_down tok_open ts (length ts) of Some (Some i) \<Rightarrow> int i | _ \<Rightarrow> -1)"

lemma length_bump [simp]: "length (bump s ts) = length ts"
  by (simp add: bump_def)

lemma find_down_append: "n \<le> length xs \<Longrightarrow> find_down P (xs @ ys) n = find_down P xs n"
  by (induction n) (auto simp: arr_get_def nth_append)

lemma find_down_skip:
  assumes "\<forall>y \<in> set ys. \<not> P y"
  shows "find_down P (xs @ ys @ zs) (length xs + length ys) = find_down P xs (length xs)"
  using assms
proof (induction ys arbitrary: zs rule: rev_induct)
  case Nil
  then show ?case by (simp add: find_down_append)
next
  case (snoc y ys)
  then show ?case
    using snoc.IH [of "y # zs"] by (simp add: arr_get_def nth_append)
qed

lemma find_down_hit:
  assumes "P t" and "\<forall>y \<in> set ys. \<not> P y"
  shows "find_down P (xs @ t # ys @ zs) (Suc (length xs + length ys)) = Some (Some (length xs))"
  using find_down_skip [OF assms(2), of "xs @ [t]" zs] assms(1) by (simp add: arr_get_def nth_append)

lemma find_down_cong:
  assumes "\<And>i. i < n \<Longrightarrow> P (xs ! i) = P (ys ! i)" and "length xs = length ys"
  shows "find_down P xs n = find_down P ys n"
  using assms by (induction n) (auto simp: arr_get_def)

lemma innermost_bump: "s < int (length ts) \<Longrightarrow> innermost (bump s ts) = innermost ts"
proof -
  have "tok_open (bump s ts ! i) = tok_open (ts ! i)" if "i < length ts" for i
    using that by (cases "i = nat s") (auto simp: bump_def tok_open_def)
  then show ?thesis
    using find_down_cong [of "length ts" tok_open "bump s ts" ts] by (simp add: innermost_def)
qed

lemma innermost_snoc:
  "tok_open t \<Longrightarrow> \<forall>y \<in> set ys. \<not> tok_open y \<Longrightarrow> innermost (xs @ t # ys) = int (length xs)"
  using find_down_hit [of tok_open t ys xs "[]"] by (simp add: innermost_def)

lemma bump_last: "bump (int (length xs)) (xs @ t # ys) = xs @ t\<lparr>tok_size := tok_size t + 1\<rparr> # ys"
  by (simp add: bump_def)

lemma bump_append: "s < int (length xs) \<Longrightarrow> -1 \<le> s \<Longrightarrow> bump s (xs @ ys) = bump s xs @ ys"
  by (cases "s = -1") (auto simp: bump_def list_update_append nth_append)

lemma bump_super_eq:
  assumes "-1 \<le> toksuper p" and "toksuper p < int (length ts)"
  shows "bump_super p ts = Some (bump (toksuper p) ts)"
  using assms by (auto simp: bump_super_def bump_def arr_get_def)

text \<open>Reading a text \<open>T\<close> that is followed by anything.\<close>

lemma text_get: "drop p T = c # xs \<Longrightarrow> mem_get (T @ post) p = Some c \<and> p < length T \<and> drop (Suc p) T = xs"
proof -
  assume *: "drop p T = c # xs"
  then have p: "p < length T"
    by (metis drop_all leI list.simps(3))
  moreover have "T ! p = c \<and> drop (Suc p) T = xs"
    using * p by (metis Cons_nth_drop_Suc list.inject)
  ultimately show ?thesis
    by (simp add: mem_get_def nth_append)
qed

lemma text_skip: "drop p T = s @ xs \<Longrightarrow> drop (p + length s) T = xs"
  by (metis add.commute append_eq_conv_conj drop_drop)

abbreviation scan :: "u8 list \<Rightarrow> u8 list \<Rightarrow> nat \<Rightarrow> jsmn_parser \<Rightarrow> toks \<Rightarrow> int \<Rightarrow> (int \<times> jsmn_parser \<times> toks option) option" where
  "scan T post num p ts k \<equiv> jsmn_loop (T @ post) (length T) num (p, Some ts, k)"

lemma scan_char:
  assumes "drop (pos p) T = c # xs" and "c \<noteq> 0"
    and "jsmn_step (T @ post) (length T) num c (p, Some ts, k) = Some (Inr (p', Some ts', k'))"
  shows "scan T post num p ts k = scan T post num (p'\<lparr>pos := pos p' + 1\<rparr>) ts' k'"
  unfolding jsmn_loop.simps [of "T @ post" "length T" num p] using text_get [OF assms(1)] assms(2,3) by simp

lemma scan_ws:
  assumes "ws_ok w" and "drop (pos p) T = w @ xs"
  shows "scan T post num p ts k = scan T post num (p\<lparr>pos := pos p + length w\<rparr>) ts k"
  using assms
proof (induction w arbitrary: p)
  case (Cons c w)
  then have c: "c \<in> SPACES" "ws_ok w"
    by (auto simp: ws_ok_def)
  then have "jsmn_step (T @ post) (length T) num c (p, Some ts, k) = Some (Inr (p, Some ts, k))"
    by (auto simp: jsmn_step_def)
  then have "scan T post num p ts k = scan T post num (p\<lparr>pos := pos p + 1\<rparr>) ts k"
    using scan_char Cons.prems(2) c(1) by fastforce
  also have "\<dots> = scan T post num (p\<lparr>pos := pos p + length (c # w)\<rparr>) ts k"
    using Cons.IH [OF c(2), of "p\<lparr>pos := pos p + 1\<rparr>"] text_get [of "pos p" T c "w @ xs"] Cons.prems(2) by simp
  finally show ?case .
qed simp

lemma str_loop_plain:
  assumes "str_ok s" and "drop p T = s @ QUOTE # xs"
  shows "str_loop (T @ post) (length T) p = Some (Inr (p + length s))"
  using assms
proof (induction s arbitrary: p)
  case Nil
  then show ?case
    using text_get [of p T QUOTE xs post] by (simp add: str_loop.simps [of _ _ p])
next
  case (Cons c s)
  then have c: "c \<notin> {0, QUOTE, BACKSLASH}" "str_ok s"
    by (auto simp: str_ok_def)
  then show ?case
    using Cons.IH [OF c(2), of "p + 1"] text_get [of p T c "s @ QUOTE # xs" post] Cons.prems(2)
    by (simp add: str_loop.simps [of _ _ p])
qed

definition ends_primitive :: "u8 list \<Rightarrow> bool" where
  "ends_primitive xs \<longleftrightarrow> xs = [] \<or> hd xs \<in> insert COLON (SPACES \<union> {COMMA, RBRACKET, RBRACE})"

lemma prim_loop_plain:
  assumes "\<forall>c \<in> set s. 32 < c \<and> c < 127 \<and> c \<notin> {COLON, COMMA, RBRACKET, RBRACE}" and "drop p T = s @ xs"
    and "ends_primitive xs" and "p \<le> length T"
  shows "prim_loop (T @ post) (length T) p = Some (True, p + length s)"
  using assms
proof (induction s arbitrary: p)
  case Nil
  show ?case
  proof (cases xs)
    case Nil
    with Nil.prems show ?thesis
      unfolding prim_loop.simps [of _ _ p] by simp
  next
    case (Cons c ys)
    have "mem_get (T @ post) p = Some c" "p < length T" "c \<in> insert COLON (SPACES \<union> {COMMA, RBRACKET, RBRACE})"
      using text_get [of p T c ys post] Nil.prems Cons by (simp_all add: ends_primitive_def)
    then show ?thesis
      unfolding prim_loop.simps [of _ _ p] by simp
  qed
next
  case (Cons c s)
  have r: "32 < c" "c < 127" "c \<notin> {COLON, COMMA, RBRACKET, RBRACE}"
    using Cons.prems(1) by simp_all
  have c: "\<not> c < 32" "\<not> 127 \<le> c"
    using r(1,2) by (simp_all add: not_less not_le less_imp_le)
  have "c \<notin> insert 0 SPACES"
    using r(1) by (rule contrapos_pn) auto
  with r(3) have d: "c \<notin> insert COLON (SPACES \<union> {COMMA, RBRACKET, RBRACE})" "c \<noteq> 0"
    by simp_all
  have g: "mem_get (T @ post) p = Some c" "p < length T" "drop (p + 1) T = s @ xs"
    using text_get [of p T c "s @ xs" post] Cons.prems(2) by simp_all
  have "prim_loop (T @ post) (length T) (p + 1) = Some (True, p + 1 + length s)"
    using Cons.IH [OF _ g(3) Cons.prems(3)] Cons.prems(1) g(2) by simp
  then show ?case
    unfolding prim_loop.simps [of _ _ p] using g(1,2) c d by simp
qed

lemma parser_order [simp]:
  "p\<lparr>toknext := a, pos := b\<rparr> = p\<lparr>pos := b, toknext := a\<rparr>"
  "p\<lparr>toksuper := c, pos := b\<rparr> = p\<lparr>pos := b, toksuper := c\<rparr>"
  "p\<lparr>toksuper := c, toknext := a\<rparr> = p\<lparr>toknext := a, toksuper := c\<rparr>"
  by (cases p; simp)+

text \<open>The state between two tokens: \<open>pre\<close> are the tokens handed out, \<open>new\<close> the rest of the array.\<close>

definition between :: "nat \<Rightarrow> jsmn_parser \<Rightarrow> toks \<Rightarrow> toks \<Rightarrow> bool" where
  "between num p pre new \<longleftrightarrow> toknext p = length pre \<and> num \<le> length (pre @ new) \<and> -1 \<le> toksuper p \<and> toksuper p < int (length pre)"

lemma between_token:
  assumes "between num p pre new" and "length pre < num"
  shows "\<exists>t new'. new = t # new' \<and>
    jsmn_alloc_token p (pre @ new) num = Some (Some (length pre), p\<lparr>toknext := Suc (length pre)\<rparr>,
      pre @ t\<lparr>tok_start := -1, tok_end := -1, tok_size := 0\<rparr> # new')"
proof -
  have "new \<noteq> []"
    using assms by (auto simp: between_def)
  then obtain t new' where "new = t # new'"
    by (cases new) auto
  then show ?thesis
    using assms by (simp add: between_def jsmn_alloc_token_def arr_get_def)
qed

lemma scan_value_token:
  assumes "between num p pre new" and "length pre < num" and "drop (pos p) T = c # xs" and "c \<noteq> 0"
    and "jsmn_step (T @ post) (length T) num c (p, Some (pre @ new), k) =
      jsmn_value (Some (0, p\<lparr>pos := q, toknext := Suc (length pre)\<rparr>, Some (pre @ t # tl new))) k"
  shows "scan T post num p (pre @ new) k =
    scan T post num (p\<lparr>pos := q + 1, toknext := Suc (length pre)\<rparr>) (bump (toksuper p) pre @ t # tl new) (k + 1)"
proof -
  have "bump_super (p\<lparr>pos := q, toknext := Suc (length pre)\<rparr>) (pre @ t # tl new) = Some (bump (toksuper p) pre @ t # tl new)"
    using assms(1) by (subst bump_super_eq) (auto simp: between_def bump_append)
  then have "jsmn_step (T @ post) (length T) num c (p, Some (pre @ new), k) =
      Some (Inr (p\<lparr>pos := q, toknext := Suc (length pre)\<rparr>, Some (bump (toksuper p) pre @ t # tl new), k + 1))"
    by (simp add: assms(5) jsmn_value_def bump_super_opt_def)
  from scan_char [OF assms(3,4) this] show ?thesis
    by (cases p) simp
qed

lemma scan_string:
  assumes "between num p pre new" and "length pre < num" and "str_ok s" and "drop (pos p) T = QUOTE # s @ QUOTE # xs"
  shows "scan T post num p (pre @ new) k =
    scan T post num (p\<lparr>pos := pos p + length s + 2, toknext := Suc (length pre)\<rparr>)
      (bump (toksuper p) pre @ token JSMN_STRING (pos p + 1) (pos p + 1 + length s) 0 # tl new) (k + 1)"
proof -
  let ?q = "pos p + 1 + length s"
  have "drop (pos p + 1) T = s @ QUOTE # xs"
    using text_get [OF assms(4)] by simp
  then have "str_loop (T @ post) (length T) (pos p + 1) = Some (Inr ?q)"
    using str_loop_plain [OF assms(3)] by simp
  moreover obtain t new' where "new = t # new'" "jsmn_alloc_token (p\<lparr>pos := ?q\<rparr>) (pre @ new) num =
      Some (Some (length pre), p\<lparr>pos := ?q, toknext := Suc (length pre)\<rparr>,
        pre @ t\<lparr>tok_start := -1, tok_end := -1, tok_size := 0\<rparr> # new')"
    using between_token [of num "p\<lparr>pos := ?q\<rparr>" pre new] assms(1,2) by (auto simp: between_def)
  ultimately have "jsmn_parse_string p (T @ post) (length T) (Some (pre @ new)) num =
      Some (0, p\<lparr>pos := ?q, toknext := Suc (length pre)\<rparr>, Some (pre @ token JSMN_STRING (pos p + 1) ?q 0 # tl new))"
    by (cases t) (simp add: jsmn_parse_string_def jsmn_fill_token_def arr_get_def Let_def add.commute [of "1 :: int"])
  then have "jsmn_step (T @ post) (length T) num QUOTE (p, Some (pre @ new), k) =
      jsmn_value (Some (0, p\<lparr>pos := ?q, toknext := Suc (length pre)\<rparr>, Some (pre @ token JSMN_STRING (pos p + 1) ?q 0 # tl new))) k"
    by (simp add: jsmn_step_def)
  from scan_value_token [OF assms(1,2,4) _ this] show ?thesis
    by (simp add: add.commute [of _ 2])
qed

lemma prim_head:
  assumes "prim_ok s"
  obtains c s' where "s = c # s'" "c \<noteq> 0" "c \<notin> {LBRACE, LBRACKET, RBRACE, RBRACKET, QUOTE, COLON, COMMA} \<union> SPACES"
proof -
  obtain c s' where s: "s = c # s'"
    using assms by (cases s) (auto simp: prim_ok_def)
  then have r: "32 < c" "c \<notin> {LBRACE, LBRACKET, RBRACE, RBRACKET, QUOTE, COLON, COMMA}"
    using assms by (auto simp: prim_ok_def)
  have "c \<notin> insert 0 SPACES"
    using r(1) by (rule contrapos_pn) auto
  with that s r(2) show thesis by blast
qed

lemma scan_primitive:
  assumes "between num p pre new" and "length pre < num" and "prim_ok s" and "drop (pos p) T = s @ xs" and "ends_primitive xs"
  shows "scan T post num p (pre @ new) k =
    scan T post num (p\<lparr>pos := pos p + length s, toknext := Suc (length pre)\<rparr>)
      (bump (toksuper p) pre @ token JSMN_PRIMITIVE (pos p) (pos p + length s) 0 # tl new) (k + 1)"
proof -
  let ?q = "pos p + length s"
  obtain c s' where s: "s = c # s'" "c \<noteq> 0" "c \<notin> {LBRACE, LBRACKET, RBRACE, RBRACKET, QUOTE, COLON, COMMA} \<union> SPACES"
    using prim_head [OF assms(3)] .
  have d: "drop (pos p) T = c # s' @ xs"
    using assms(4) s(1) by simp
  have "prim_loop (T @ post) (length T) (pos p) = Some (True, ?q)"
  proof (rule prim_loop_plain [OF _ assms(4,5)])
    show "\<forall>c \<in> set s. 32 < c \<and> c < 127 \<and> c \<notin> {COLON, COMMA, RBRACKET, RBRACE}"
      using assms(3) by (simp add: prim_ok_def)
    show "pos p \<le> length T"
      using text_get [OF d, of post] by simp
  qed
  moreover obtain t new' where "new = t # new'" "jsmn_alloc_token (p\<lparr>pos := ?q\<rparr>) (pre @ new) num =
      Some (Some (length pre), p\<lparr>pos := ?q, toknext := Suc (length pre)\<rparr>,
        pre @ t\<lparr>tok_start := -1, tok_end := -1, tok_size := 0\<rparr> # new')"
    using between_token [of num "p\<lparr>pos := ?q\<rparr>" pre new] assms(1,2) by (auto simp: between_def)
  ultimately have "jsmn_parse_primitive p (T @ post) (length T) (Some (pre @ new)) num =
      Some (0, p\<lparr>pos := ?q - 1, toknext := Suc (length pre)\<rparr>, Some (pre @ token JSMN_PRIMITIVE (pos p) ?q 0 # tl new))"
    by (cases t, cases p) (simp add: jsmn_parse_primitive_def jsmn_fill_token_def arr_get_def Let_def)
  then have "jsmn_step (T @ post) (length T) num c (p, Some (pre @ new), k) =
      jsmn_value (Some (0, p\<lparr>pos := ?q - 1, toknext := Suc (length pre)\<rparr>, Some (pre @ token JSMN_PRIMITIVE (pos p) ?q 0 # tl new))) k"
    using s(3) by (simp add: jsmn_step_def)
  from scan_value_token [OF assms(1,2) d s(2) this] show ?thesis
    using s(1) by simp
qed

lemma scan_open:
  assumes "between num p pre new" and "length pre < num" and "drop (pos p) T = c # xs" and "c = LBRACE \<or> c = LBRACKET"
  shows "scan T post num p (pre @ new) k =
    scan T post num (p\<lparr>pos := pos p + 1, toknext := Suc (length pre), toksuper := int (length pre)\<rparr>)
      (bump (toksuper p) pre @
        \<lparr>tok_type = (if c = LBRACE then JSMN_OBJECT else JSMN_ARRAY), tok_start = int (pos p), tok_end = -1, tok_size = 0\<rparr> # tl new) (k + 1)"
proof -
  let ?ty = "if c = LBRACE then JSMN_OBJECT else JSMN_ARRAY"
  obtain t new' where t: "new = t # new'" "jsmn_alloc_token p (pre @ new) num =
      Some (Some (length pre), p\<lparr>toknext := Suc (length pre)\<rparr>, pre @ t\<lparr>tok_start := -1, tok_end := -1, tok_size := 0\<rparr> # new')"
    using between_token [OF assms(1,2)] by blast
  have b: "bump_super (p\<lparr>toknext := Suc (length pre)\<rparr>) (pre @ t\<lparr>tok_start := -1, tok_end := -1, tok_size := 0\<rparr> # new') =
      Some (bump (toksuper p) pre @ t\<lparr>tok_start := -1, tok_end := -1, tok_size := 0\<rparr> # new')"
    using assms(1) by (subst bump_super_eq) (auto simp: between_def bump_append)
  have e: "(bump (toksuper p) pre @ x # new')[length pre := y] = bump (toksuper p) pre @ y # new'"
    "(bump (toksuper p) pre @ x # new') ! length pre = x" for x y :: jsmntok_t
    by (simp_all add: list_update_append nth_append)
  have "jsmn_step (T @ post) (length T) num c (p, Some (pre @ new), k) =
      Some (Inr (p\<lparr>toknext := Suc (length pre), toksuper := int (length pre)\<rparr>, Some (bump (toksuper p) pre @
        \<lparr>tok_type = ?ty, tok_start = int (pos p), tok_end = -1, tok_size = 0\<rparr> # new'), k + 1))"
    using assms(4) t b e by (cases t) (auto simp: jsmn_step_def jsmn_open_def arr_get_def Let_def)
  from scan_char [OF assms(3) _ this] show ?thesis
    using assms(4) t(1) by (cases p) auto
qed

lemma scan_close:
  assumes "toknext p = Suc (length pre + length dn)" and "drop (pos p) T = c # xs"
    and "c = RBRACE \<and> tok_type t = JSMN_OBJECT \<or> c = RBRACKET \<and> tok_type t = JSMN_ARRAY"
    and "tok_open t" and "\<forall>y \<in> set dn. \<not> tok_open y"
  shows "scan T post num p (pre @ t # dn @ new) k =
    scan T post num (p\<lparr>pos := pos p + 1, toksuper := innermost pre\<rparr>) (pre @ t\<lparr>tok_end := int (pos p) + 1\<rparr> # dn @ new) k"
proof -
  let ?t = "t\<lparr>tok_end := int (pos p) + 1\<rparr>"
  have f: "find_down tok_open (pre @ t # dn @ new) (toknext p) = Some (Some (length pre))"
    using find_down_hit [OF assms(4,5), of pre new] assms(1) by simp
  have "\<not> tok_open ?t"
    by (simp add: tok_open_def)
  then have g: "find_down tok_open (pre @ ?t # dn @ new) (Suc (length pre)) = find_down tok_open pre (length pre)"
    using find_down_skip [of "[?t]" tok_open pre "dn @ new"] by simp
  obtain r where r: "find_down tok_open pre (length pre) = Some r"
    using find_down_spec [of "length pre" pre tok_open] by blast
  have "jsmn_step (T @ post) (length T) num c (p, Some (pre @ t # dn @ new), k) =
      Some (Inr (p\<lparr>toksuper := innermost pre\<rparr>, Some (pre @ ?t # dn @ new), k))"
    using assms(3) f g r by (auto simp: jsmn_step_def jsmn_close_def innermost_def arr_get_def nth_append Let_def split: option.splits)
  from scan_char [OF assms(2) _ this] show ?thesis
    using assms(3) by (cases p) auto
qed

lemma scan_comma:
  assumes "toknext p = Suc (length pre + length dn)" and "drop (pos p) T = COMMA # xs"
    and "is_container t" and "tok_open t" and "\<forall>y \<in> set dn. \<not> tok_open y"
    and "toksuper p = int (length pre) \<or>
      (\<exists>i < length dn. toksuper p = int (Suc (length pre + i)) \<and> \<not> is_container (dn ! i))"
  shows "scan T post num p (pre @ t # dn @ new) k =
    scan T post num (p\<lparr>pos := pos p + 1, toksuper := int (length pre)\<rparr>) (pre @ t # dn @ new) k"
proof -
  have f: "find_down (\<lambda>t. is_container t \<and> tok_open t) (pre @ t # dn @ new) (toknext p) = Some (Some (length pre))"
    using find_down_hit [of "\<lambda>t. is_container t \<and> tok_open t" t dn pre new] assms(1,3-5) by simp
  have "jsmn_comma (p, Some (pre @ t # dn @ new), k) = Some (p\<lparr>toksuper := int (length pre)\<rparr>, Some (pre @ t # dn @ new), k)"
    using assms(6)
  proof
    assume "toksuper p = int (length pre)"
    then show ?thesis
      using assms(3) by (cases p) (simp add: jsmn_comma_def arr_get_def)
  next
    assume "\<exists>i < length dn. toksuper p = int (Suc (length pre + i)) \<and> \<not> is_container (dn ! i)"
    then obtain i where i: "i < length dn" "toksuper p = int (Suc (length pre + i))" "\<not> is_container (dn ! i)"
      by blast
    have "nat (toksuper p) = Suc (length pre + i)"
      using i(2) by linarith
    then have "arr_get (pre @ t # dn @ new) (nat (toksuper p)) = Some (dn ! i)"
      using i(1) by (simp add: nth_append)
    then show ?thesis
      using i f by (simp add: jsmn_comma_def del: arr_get_Some)
  qed
  then have "jsmn_step (T @ post) (length T) num COMMA (p, Some (pre @ t # dn @ new), k) =
      Some (Inr (p\<lparr>toksuper := int (length pre)\<rparr>, Some (pre @ t # dn @ new), k))"
    by (simp add: jsmn_step_def)
  from scan_char [OF assms(2) _ this] show ?thesis
    by (cases p) simp
qed

lemma scan_colon:
  assumes "drop (pos p) T = COLON # xs"
  shows "scan T post num p ts k = scan T post num (p\<lparr>pos := pos p + 1, toksuper := int (toknext p) - 1\<rparr>) ts k"
proof -
  have "jsmn_step (T @ post) (length T) num COLON (p, Some ts, k) = Some (Inr (p\<lparr>toksuper := int (toknext p) - 1\<rparr>, Some ts, k))"
    by (simp add: jsmn_step_def)
  from scan_char [OF assms _ this] show ?thesis
    by (cases p) simp
qed

lemma toks_closed:
  shows "\<forall>t \<in> set (toks_of j p). \<not> tok_open t" and "\<forall>t \<in> set (toks_members ms q). \<not> tok_open t"
    and "\<forall>t \<in> set (toks_elems es q). \<not> tok_open t"
  by (induction j and ms and es arbitrary: p and q and q) (auto simp: tok_open_def)

section \<open>The tokens of a JSON text\<close>

text \<open>What scanning a value, the members of an object and the elements of an array comes to.\<close>

definition scans_value :: "u8 list \<Rightarrow> u8 list \<Rightarrow> nat \<Rightarrow> json \<Rightarrow> bool" where
  "scans_value T post num j \<longleftrightarrow> (\<forall>p pre new xs k.
     between num p pre new \<longrightarrow> length pre + length (toks_of j (pos p)) \<le> num \<longrightarrow> wf_json j \<longrightarrow>
     drop (pos p) T = render j @ xs \<longrightarrow> ends_primitive xs \<longrightarrow>
     (\<exists>s. (s = toksuper p \<or> s = innermost pre) \<and>
       scan T post num p (pre @ new) k =
       scan T post num (p\<lparr>pos := pos p + length (render j), toknext := length pre + length (toks_of j (pos p)), toksuper := s\<rparr>)
         (bump (toksuper p) pre @ toks_of j (pos p) @ drop (length (toks_of j (pos p))) new)
         (k + int (length (toks_of j (pos p))))))"

definition scans_inside :: "u8 list \<Rightarrow> u8 list \<Rightarrow> nat \<Rightarrow> jsmntype_t \<Rightarrow> u8 \<Rightarrow> u8 list \<Rightarrow> (nat \<Rightarrow> toks) \<Rightarrow> nat \<Rightarrow> bool" where
  "scans_inside T post num ty c txt tk n \<longleftrightarrow> (\<forall>p pre t dn new xs k.
     toknext p = Suc (length pre + length dn) \<longrightarrow> num \<le> length (pre @ t # dn @ new) \<longrightarrow> toksuper p = int (length pre) \<longrightarrow>
     tok_type t = ty \<longrightarrow> tok_open t \<longrightarrow> (\<forall>y \<in> set dn. \<not> tok_open y) \<longrightarrow>
     toknext p + length (tk (pos p)) \<le> num \<longrightarrow> drop (pos p) T = txt @ c # xs \<longrightarrow>
     (\<exists>s. scan T post num p (pre @ t # dn @ new) k =
       scan T post num (p\<lparr>pos := pos p + length txt, toknext := toknext p + length (tk (pos p)), toksuper := s\<rparr>)
         (pre @ t\<lparr>tok_size := tok_size t + int n\<rparr> # dn @ tk (pos p) @ drop (length (tk (pos p))) new)
         (k + int (length (tk (pos p))))))"

lemma scans_nothing: "(\<And>q. tk q = []) \<Longrightarrow> scans_inside T post num ty c [] tk 0"
  unfolding scans_inside_def
proof (intro allI impI)
  fix p :: jsmn_parser and pre dn new :: toks and t :: jsmntok_t and k :: int
  assume tk: "\<And>q. tk q = []" and "toknext p = Suc (length pre + length dn)"
  have "p\<lparr>pos := pos p, toknext := toknext p, toksuper := toksuper p\<rparr> = p"
    by simp
  with tk show "\<exists>s. scan T post num p (pre @ t # dn @ new) k =
      scan T post num (p\<lparr>pos := pos p + length [], toknext := toknext p + length (tk (pos p)), toksuper := s\<rparr>)
        (pre @ t\<lparr>tok_size := tok_size t + int 0\<rparr> # dn @ tk (pos p) @ drop (length (tk (pos p))) new) (k + int (length (tk (pos p))))"
    by (intro exI [of _ "toksuper p"]) simp
qed

lemma scans_container:
  assumes "scans_inside T post num ty d txt tk n"
    and "c = LBRACE \<and> d = RBRACE \<and> ty = JSMN_OBJECT \<or> c = LBRACKET \<and> d = RBRACKET \<and> ty = JSMN_ARRAY"
    and "\<And>q. \<forall>t \<in> set (tk q). \<not> tok_open t"
    and "between num p pre new" and "length pre + Suc (length (tk (pos p + 1))) \<le> num" and "drop (pos p) T = c # txt @ d # xs"
  shows "scan T post num p (pre @ new) k =
    scan T post num (p\<lparr>pos := pos p + length txt + 2, toknext := length pre + Suc (length (tk (pos p + 1))), toksuper := innermost pre\<rparr>)
      (bump (toksuper p) pre @ (token ty (pos p) (pos p + length txt + 2) n # tk (pos p + 1)) @ drop (Suc (length (tk (pos p + 1)))) new)
      (k + int (Suc (length (tk (pos p + 1)))))"
proof -
  let ?tk = "tk (pos p + 1)"
  let ?pre = "bump (toksuper p) pre"
  let ?t = "\<lparr>tok_type = ty, tok_start = int (pos p), tok_end = -1, tok_size = 0\<rparr>"
  let ?p = "p\<lparr>pos := pos p + 1, toknext := Suc (length pre), toksuper := int (length pre)\<rparr>"
  have new: "new \<noteq> []"
    using assms(4,5) by (auto simp: between_def)
  have d: "drop (pos ?p) T = txt @ d # xs"
    using text_get [OF assms(6)] by simp
  have "scan T post num p (pre @ new) k = scan T post num ?p (?pre @ ?t # tl new) (k + 1)"
    using scan_open [OF assms(4) _ assms(6), of post k] assms(2,5) by auto
  also obtain s where "\<dots> = scan T post num (?p\<lparr>pos := pos ?p + length txt, toknext := toknext ?p + length ?tk, toksuper := s\<rparr>)
      (?pre @ ?t\<lparr>tok_size := int n\<rparr> # [] @ ?tk @ drop (length ?tk) (tl new)) (k + 1 + int (length ?tk))"
    using assms(1) [unfolded scans_inside_def, rule_format, of ?p ?pre "[]" ?t "tl new" xs "k + 1"] d assms(4,5) new
    by (auto simp: between_def tok_open_def)
  also have "\<dots> = scan T post num (?p\<lparr>pos := pos p + length txt + 2, toknext := length pre + Suc (length ?tk), toksuper := innermost pre\<rparr>)
      (?pre @ (token ty (pos p) (pos p + length txt + 2) n # ?tk) @ drop (Suc (length ?tk)) new) (k + int (Suc (length ?tk)))"
    using scan_close [of "?p\<lparr>pos := pos ?p + length txt, toknext := toknext ?p + length ?tk, toksuper := s\<rparr>" ?pre ?tk T d xs
        "?t\<lparr>tok_size := int n\<rparr>" post num "drop (length ?tk) (tl new)" "k + 1 + int (length ?tk)"]
      text_skip [OF d] assms(2,3) assms(4) innermost_bump [of "toksuper p" pre]
    by (auto simp: tok_open_def between_def drop_Suc add.commute algebra_simps)
  finally show ?thesis
    by (cases p) simp
qed

lemma scan_member:
  assumes "scans_value T post num v" and "ws_ok w" and "str_ok ky" and "ws_ok w'" and "wf_json v"
    and "toknext p = Suc (length pre + length dn)" and "num \<le> length (pre @ t # dn @ new)" and "toksuper p = int (length pre)"
    and "tok_open t" and "\<forall>y \<in> set dn. \<not> tok_open y"
    and "drop (pos p) T = w @ QUOTE # ky @ QUOTE # COLON # w' @ render v @ xs" and "ends_primitive xs"
    and "q = pos p + length w + length ky + 3 + length w'"
    and "Suc (length pre + length dn) + Suc (length (toks_of v q)) \<le> num"
  shows "\<exists>s. (s = int (length pre) \<or> s = int (Suc (length pre + length dn))) \<and>
    scan T post num p (pre @ t # dn @ new) k =
    scan T post num (p\<lparr>pos := q + length (render v), toknext := Suc (length pre + length dn) + Suc (length (toks_of v q)), toksuper := s\<rparr>)
      (pre @ t\<lparr>tok_size := tok_size t + 1\<rparr> # dn @
        (token JSMN_STRING (pos p + length w + 1) (pos p + length w + 1 + length ky) 1 # toks_of v q) @
        drop (Suc (length (toks_of v q))) new)
      (k + 1 + int (length (toks_of v q)))"
proof -
  let ?pre = "pre @ t # dn"
  let ?n = "length ?pre"
  let ?a = "pos p + length w"
  let ?t = "t\<lparr>tok_size := tok_size t + 1\<rparr>"
  let ?key = "token JSMN_STRING (?a + 1) (?a + 1 + length ky) 0"
  let ?p1 = "p\<lparr>pos := ?a\<rparr>"
  let ?p2 = "p\<lparr>pos := ?a + length ky + 2, toknext := Suc ?n\<rparr>"
  let ?p3 = "p\<lparr>pos := q, toknext := Suc ?n, toksuper := int ?n\<rparr>"
  have d1: "drop ?a T = QUOTE # ky @ QUOTE # COLON # w' @ render v @ xs"
    using text_skip [OF assms(11)] .
  have d2: "drop (?a + length ky + 2) T = COLON # w' @ render v @ xs"
    using text_skip [of ?a T "QUOTE # ky @ [QUOTE]" "COLON # w' @ render v @ xs"] d1 by simp
  have d3: "drop (?a + length ky + 3) T = w' @ render v @ xs"
    using text_skip [of "?a + length ky + 2" T "[COLON]" "w' @ render v @ xs"] d2 by (simp add: numeral_3_eq_3)
  have d4: "drop q T = render v @ xs"
    using text_skip [OF d3] assms(13) by simp
  have "scan T post num p (?pre @ new) k = scan T post num ?p1 (?pre @ new) k"
    using scan_ws [OF assms(2,11)] .
  also have "\<dots> = scan T post num ?p2 ((pre @ ?t # dn) @ ?key # tl new) (k + 1)"
    using scan_string [of num ?p1 ?pre new ky T "COLON # w' @ render v @ xs" post k] d1 assms(3,6-8,14)
    by (simp add: between_def bump_last)
  also have "\<dots> = scan T post num (p\<lparr>pos := ?a + length ky + 3, toknext := Suc ?n, toksuper := int ?n\<rparr>) ((pre @ ?t # dn @ [?key]) @ tl new) (k + 1)"
    using scan_colon [of ?p2 T "w' @ render v @ xs"] d2 by (simp add: numeral_3_eq_3 numeral_2_eq_2)
  also have "\<dots> = scan T post num ?p3 ((pre @ ?t # dn @ [?key]) @ tl new) (k + 1)"
    using scan_ws [OF assms(4), of "p\<lparr>pos := ?a + length ky + 3, toknext := Suc ?n, toksuper := int ?n\<rparr>" T "render v @ xs"] d3 assms(13)
    by simp
  finally have pre: "scan T post num p (?pre @ new) k = scan T post num ?p3 ((pre @ ?t # dn @ [?key]) @ tl new) (k + 1)" .
  have inner: "innermost (pre @ ?t # dn @ [?key]) = int (length pre)"
    using innermost_snoc [of ?t "dn @ [?key]" pre] assms(9,10) by (simp add: tok_open_def)
  have new: "new \<noteq> []"
    using assms(7,14) by auto
  have bt: "between num ?p3 (pre @ ?t # dn @ [?key]) (tl new)"
    using assms(7) new by (cases new) (simp_all add: between_def)
  obtain s where "s = int ?n \<or> s = int (length pre)" "scan T post num ?p3 ((pre @ ?t # dn @ [?key]) @ tl new) (k + 1) =
      scan T post num (?p3\<lparr>pos := q + length (render v), toknext := Suc ?n + length (toks_of v q), toksuper := s\<rparr>)
        (bump (int ?n) (pre @ ?t # dn @ [?key]) @ toks_of v q @ drop (length (toks_of v q)) (tl new)) (k + 1 + int (length (toks_of v q)))"
    using assms(1) [unfolded scans_value_def, rule_format, OF bt _ assms(5), of xs "k + 1"] d4 assms(12,14) inner by auto
  moreover have "bump (int ?n) (pre @ ?t # dn @ [?key]) = pre @ ?t # dn @ [token JSMN_STRING (?a + 1) (?a + 1 + length ky) 1]"
    using bump_last [of "pre @ ?t # dn" ?key "[]"] by simp
  ultimately show ?thesis
    using pre by (intro exI [of _ s]) (auto simp: drop_Suc)
qed

lemma scans_all:
  shows "scans_value T post num j"
    and "wf_members ms \<Longrightarrow> scans_inside T post num JSMN_OBJECT RBRACE (render_members ms) (toks_members ms) (members_count ms)"
    and "wf_elems es \<Longrightarrow> scans_inside T post num JSMN_ARRAY RBRACKET (render_elems es) (toks_elems es) (elems_count es)"
proof (induction j and ms and es)
  case (JObj ms)
  show ?case
    unfolding scans_value_def
  proof (intro allI impI)
    fix p pre new xs k
    assume *: "between num p pre new" "length pre + length (toks_of (JObj ms) (pos p)) \<le> num" "wf_json (JObj ms)"
      "drop (pos p) T = render (JObj ms) @ xs"
    have d: "drop (pos p) T = LBRACE # render_members ms @ RBRACE # xs"
      using *(4) by simp
    have "scans_inside T post num JSMN_OBJECT RBRACE (render_members ms) (toks_members ms) (members_count ms)"
      using JObj *(3) by simp
    from scans_container [OF this _ toks_closed(2) *(1) _ d] *(2)
    show "\<exists>s. (s = toksuper p \<or> s = innermost pre) \<and> scan T post num p (pre @ new) k =
       scan T post num (p\<lparr>pos := pos p + length (render (JObj ms)), toknext := length pre + length (toks_of (JObj ms) (pos p)), toksuper := s\<rparr>)
         (bump (toksuper p) pre @ toks_of (JObj ms) (pos p) @ drop (length (toks_of (JObj ms) (pos p))) new)
         (k + int (length (toks_of (JObj ms) (pos p))))"
      by (intro exI [of _ "innermost pre"]) simp
  qed
next
  case (JArr es)
  show ?case
    unfolding scans_value_def
  proof (intro allI impI)
    fix p pre new xs k
    assume *: "between num p pre new" "length pre + length (toks_of (JArr es) (pos p)) \<le> num" "wf_json (JArr es)"
      "drop (pos p) T = render (JArr es) @ xs"
    have d: "drop (pos p) T = LBRACKET # render_elems es @ RBRACKET # xs"
      using *(4) by simp
    have "scans_inside T post num JSMN_ARRAY RBRACKET (render_elems es) (toks_elems es) (elems_count es)"
      using JArr *(3) by simp
    from scans_container [OF this _ toks_closed(3) *(1) _ d] *(2)
    show "\<exists>s. (s = toksuper p \<or> s = innermost pre) \<and> scan T post num p (pre @ new) k =
       scan T post num (p\<lparr>pos := pos p + length (render (JArr es)), toknext := length pre + length (toks_of (JArr es) (pos p)), toksuper := s\<rparr>)
         (bump (toksuper p) pre @ toks_of (JArr es) (pos p) @ drop (length (toks_of (JArr es) (pos p))) new)
         (k + int (length (toks_of (JArr es) (pos p))))"
      by (intro exI [of _ "innermost pre"]) simp
  qed
next
  case (JStr s)
  show ?case
    unfolding scans_value_def
  proof (intro allI impI)
    fix p pre new xs k
    assume *: "between num p pre new" "length pre + length (toks_of (JStr s) (pos p)) \<le> num" "wf_json (JStr s)"
      "drop (pos p) T = render (JStr s) @ xs"
    then show "\<exists>s'. (s' = toksuper p \<or> s' = innermost pre) \<and> scan T post num p (pre @ new) k =
       scan T post num (p\<lparr>pos := pos p + length (render (JStr s)), toknext := length pre + length (toks_of (JStr s) (pos p)), toksuper := s'\<rparr>)
         (bump (toksuper p) pre @ toks_of (JStr s) (pos p) @ drop (length (toks_of (JStr s) (pos p))) new)
         (k + int (length (toks_of (JStr s) (pos p))))"
      using scan_string [OF *(1), of s T xs post k] by (intro exI [of _ "toksuper p"]) (simp add: drop_Suc)
  qed
next
  case (JPrim s)
  show ?case
    unfolding scans_value_def
  proof (intro allI impI)
    fix p pre new xs k
    assume *: "between num p pre new" "length pre + length (toks_of (JPrim s) (pos p)) \<le> num" "wf_json (JPrim s)"
      "drop (pos p) T = render (JPrim s) @ xs" "ends_primitive xs"
    then show "\<exists>s'. (s' = toksuper p \<or> s' = innermost pre) \<and> scan T post num p (pre @ new) k =
       scan T post num (p\<lparr>pos := pos p + length (render (JPrim s)), toknext := length pre + length (toks_of (JPrim s) (pos p)), toksuper := s'\<rparr>)
         (bump (toksuper p) pre @ toks_of (JPrim s) (pos p) @ drop (length (toks_of (JPrim s) (pos p))) new)
         (k + int (length (toks_of (JPrim s) (pos p))))"
      using scan_primitive [OF *(1), of s T xs post k] by (intro exI [of _ "toksuper p"]) (simp add: drop_Suc)
  qed
next
  case MNil
  show ?case
    using scans_nothing by simp
next
  case (MCons w ky w' v ms)
  have IH: "scans_inside T post num JSMN_OBJECT RBRACE (render_members ms) (toks_members ms) (members_count ms)"
    using MCons by simp
  show ?case
    unfolding scans_inside_def
  proof (intro allI impI)
    fix p :: jsmn_parser and pre dn new :: toks and t xs k
    define q where "q = pos p + length w + length ky + 3 + length w'"
    define m where "m = token JSMN_STRING (pos p + length w + 1) (pos p + length w + 1 + length ky) 1 # toks_of v q"
    assume *: "toknext p = Suc (length pre + length dn)" "num \<le> length (pre @ t # dn @ new)" "toksuper p = int (length pre)"
      "tok_type t = JSMN_OBJECT" "tok_open t" "\<forall>y \<in> set dn. \<not> tok_open y"
      "toknext p + length (toks_members (MCons w ky w' v ms) (pos p)) \<le> num"
      "drop (pos p) T = render_members (MCons w ky w' v ms) @ RBRACE # xs"
    let ?rest = "(if ms = MNil then [] else COMMA # render_members ms) @ RBRACE # xs"
    let ?t = "t\<lparr>tok_size := tok_size t + 1\<rparr>"
    let ?tk = "toks_members ms (q + length (render v) + 1)"
    have tks: "toks_members (MCons w ky w' v ms) (pos p) = m @ ?tk"
      by (simp add: m_def q_def)
    have pm: "pos p + length (render_members (MCons w ky w' v ms)) =
        q + length (render v) + (if ms = MNil then 0 else Suc (length (render_members ms)))"
      by (simp add: q_def)
    have closed: "\<forall>y \<in> set (dn @ m). \<not> tok_open y"
      using *(6) toks_closed(1) by (auto simp: m_def tok_open_def)
    have d: "drop (pos p) T = w @ QUOTE # ky @ QUOTE # COLON # w' @ render v @ ?rest"
      using *(8) by simp
    have e: "ends_primitive ?rest"
      by (simp add: ends_primitive_def)
    have n: "Suc (length pre + length dn) + Suc (length (toks_of v q)) \<le> num"
      and n2: "Suc (length pre + length dn) + length m + length ?tk \<le> num"
      using *(1,7) unfolding tks by (simp_all add: m_def)
    obtain s where s: "s = int (length pre) \<or> s = int (Suc (length pre + length dn))"
      "scan T post num p (pre @ t # dn @ new) k =
       scan T post num (p\<lparr>pos := q + length (render v), toknext := Suc (length pre + length dn) + length m, toksuper := s\<rparr>)
        (pre @ ?t # dn @ m @ drop (length m) new) (k + int (length m))"
      using scan_member [OF MCons.IH(1) _ _ _ _ *(1-3,5,6) d e q_def n, of k] MCons.prems
      by (auto simp: m_def algebra_simps)
    have "pos p + length (w @ QUOTE # ky @ QUOTE # COLON # w' @ render v) = q + length (render v)"
      by (simp add: q_def)
    then have d': "drop (q + length (render v)) T = ?rest"
      using text_skip [of "pos p" T "w @ QUOTE # ky @ QUOTE # COLON # w' @ render v" ?rest] d by (simp only: append_Cons append_assoc)
    show "\<exists>s. scan T post num p (pre @ t # dn @ new) k =
       scan T post num (p\<lparr>pos := pos p + length (render_members (MCons w ky w' v ms)),
           toknext := toknext p + length (toks_members (MCons w ky w' v ms) (pos p)), toksuper := s\<rparr>)
         (pre @ t\<lparr>tok_size := tok_size t + int (members_count (MCons w ky w' v ms))\<rparr> # dn @
           toks_members (MCons w ky w' v ms) (pos p) @ drop (length (toks_members (MCons w ky w' v ms) (pos p))) new)
         (k + int (length (toks_members (MCons w ky w' v ms) (pos p))))"
    proof (cases "ms = MNil")
      case True
      then show ?thesis
        using s(2) *(1) unfolding tks pm by (intro exI [of _ s]) (simp add: algebra_simps)
    next
      case False
      let ?p1 = "p\<lparr>pos := q + length (render v), toknext := Suc (length pre + length dn) + length m, toksuper := s\<rparr>"
      let ?p2 = "p\<lparr>pos := q + length (render v) + 1, toknext := Suc (length pre + length dn) + length m, toksuper := int (length pre)\<rparr>"
      have super: "s = int (length pre) \<or>
          (\<exists>i < length (dn @ m). s = int (Suc (length pre + i)) \<and> \<not> is_container ((dn @ m) ! i))"
        using s(1) by (auto simp: m_def is_container_def intro!: exI [of _ "length dn"])
      have "scan T post num p (pre @ t # dn @ new) k = scan T post num ?p2 (pre @ ?t # (dn @ m) @ drop (length m) new) (k + int (length m))"
        using scan_comma [of ?p1 pre "dn @ m" T "render_members ms @ RBRACE # xs" ?t post num "drop (length m) new" "k + int (length m)"]
          d' False closed *(4,5) super s(2) by (simp add: is_container_def tok_open_def)
      also obtain s' where "\<dots> = scan T post num (?p2\<lparr>pos := pos ?p2 + length (render_members ms), toknext := toknext ?p2 + length ?tk, toksuper := s'\<rparr>)
          (pre @ ?t\<lparr>tok_size := tok_size ?t + int (members_count ms)\<rparr> # (dn @ m) @ ?tk @ drop (length ?tk) (drop (length m) new))
          (k + int (length m) + int (length ?tk))"
        using IH [unfolded scans_inside_def, rule_format, of ?p2 pre "dn @ m" ?t "drop (length m) new" xs "k + int (length m)"]
          text_get [of "q + length (render v)" T COMMA "render_members ms @ RBRACE # xs"] d' False closed *(1,2,4,5) n2
        by (auto simp: tok_open_def algebra_simps)
      finally show ?thesis
        using False *(1) unfolding tks pm by (intro exI [of _ s']) (simp add: algebra_simps)
    qed
  qed
next
  case ENil
  show ?case
    using scans_nothing by simp
next
  case (ECons w v es)
  have IH: "scans_inside T post num JSMN_ARRAY RBRACKET (render_elems es) (toks_elems es) (elems_count es)"
    using ECons by simp
  show ?case
    unfolding scans_inside_def
  proof (intro allI impI)
    fix p :: jsmn_parser and pre dn new :: toks and t xs k
    define q where "q = pos p + length w"
    define m where "m = toks_of v q"
    assume *: "toknext p = Suc (length pre + length dn)" "num \<le> length (pre @ t # dn @ new)" "toksuper p = int (length pre)"
      "tok_type t = JSMN_ARRAY" "tok_open t" "\<forall>y \<in> set dn. \<not> tok_open y"
      "toknext p + length (toks_elems (ECons w v es) (pos p)) \<le> num"
      "drop (pos p) T = render_elems (ECons w v es) @ RBRACKET # xs"
    let ?rest = "(if es = ENil then [] else COMMA # render_elems es) @ RBRACKET # xs"
    let ?t = "t\<lparr>tok_size := tok_size t + 1\<rparr>"
    let ?tk = "toks_elems es (q + length (render v) + 1)"
    let ?p1 = "p\<lparr>pos := q + length (render v), toknext := Suc (length pre + length dn) + length m, toksuper := int (length pre)\<rparr>"
    have tks: "toks_elems (ECons w v es) (pos p) = m @ ?tk"
      by (simp add: m_def q_def)
    have n2: "Suc (length pre + length dn) + length m + length ?tk \<le> num"
      using *(1,7) unfolding tks by simp
    have closed: "\<forall>y \<in> set (dn @ m). \<not> tok_open y"
      using *(6) toks_closed(1) by (auto simp: m_def)
    have d: "drop (pos p) T = w @ render v @ ?rest" and dq: "drop q T = render v @ ?rest"
      using *(8) text_skip [of "pos p" T w "render v @ ?rest"] by (simp_all add: q_def)
    have bt: "between num (p\<lparr>pos := q\<rparr>) (pre @ t # dn) new"
      using *(1-3) by (simp add: between_def)
    have "innermost (pre @ t # dn) = int (length pre)"
      using innermost_snoc [OF *(5,6)] .
    then have s: "scan T post num p (pre @ t # dn @ new) k = scan T post num ?p1 (pre @ ?t # dn @ m @ drop (length m) new) (k + int (length m))"
      using scan_ws [of w p T "render v @ ?rest" post num "pre @ t # dn @ new" k] d dq ECons.prems *(1,3) n2
        ECons.IH(1) [unfolded scans_value_def, rule_format, OF bt, of ?rest k]
      by (auto simp: m_def q_def bump_last ends_primitive_def)
    have d': "drop (q + length (render v)) T = ?rest"
      using text_skip [OF dq] .
    show "\<exists>s. scan T post num p (pre @ t # dn @ new) k =
       scan T post num (p\<lparr>pos := pos p + length (render_elems (ECons w v es)),
           toknext := toknext p + length (toks_elems (ECons w v es) (pos p)), toksuper := s\<rparr>)
         (pre @ t\<lparr>tok_size := tok_size t + int (elems_count (ECons w v es))\<rparr> # dn @
           toks_elems (ECons w v es) (pos p) @ drop (length (toks_elems (ECons w v es) (pos p))) new)
         (k + int (length (toks_elems (ECons w v es) (pos p))))"
    proof (cases "es = ENil")
      case True
      then show ?thesis
        using s *(1) unfolding tks by (intro exI [of _ "int (length pre)"]) (simp add: q_def algebra_simps)
    next
      case False
      let ?p2 = "p\<lparr>pos := q + length (render v) + 1, toknext := Suc (length pre + length dn) + length m, toksuper := int (length pre)\<rparr>"
      have "scan T post num p (pre @ t # dn @ new) k = scan T post num ?p2 (pre @ ?t # (dn @ m) @ drop (length m) new) (k + int (length m))"
        using scan_comma [of ?p1 pre "dn @ m" T "render_elems es @ RBRACKET # xs" ?t post num "drop (length m) new" "k + int (length m)"]
          d' False closed *(4,5) s by (simp add: is_container_def tok_open_def)
      also obtain s' where "\<dots> = scan T post num (?p2\<lparr>pos := pos ?p2 + length (render_elems es), toknext := toknext ?p2 + length ?tk, toksuper := s'\<rparr>)
          (pre @ ?t\<lparr>tok_size := tok_size ?t + int (elems_count es)\<rparr> # (dn @ m) @ ?tk @ drop (length ?tk) (drop (length m) new))
          (k + int (length m) + int (length ?tk))"
        using IH [unfolded scans_inside_def, rule_format, of ?p2 pre "dn @ m" ?t "drop (length m) new" xs "k + int (length m)"]
          text_get [of "q + length (render v)" T COMMA "render_elems es @ RBRACKET # xs"] d' False closed *(1,2,4,5) n2
        by (auto simp: tok_open_def algebra_simps)
      finally show ?thesis
        using False *(1) unfolding tks by (intro exI [of _ s']) (simp add: q_def algebra_simps)
    qed
  qed
qed

lemma jsmn_tokens:
  assumes "wf_json j" and "ws_ok w" and "ws_ok w'" and "T = w @ render j @ w'"
    and "length (toks_of j (length w)) \<le> num" and "num \<le> length ts"
  shows "\<exists>p'. jsmn_parse (jsmn_init p) (T @ post) (length T) (Some ts) num =
    Some (int (length (toks_of j (length w))), p', Some (toks_of j (length w) @ drop (length (toks_of j (length w))) ts))"
proof -
  let ?tk = "toks_of j (length w)"
  let ?p = "jsmn_init p"
  let ?p1 = "?p\<lparr>pos := length w\<rparr>"
  have p: "pos ?p = 0" "toknext ?p = 0" "toksuper ?p = -1"
    by (simp_all add: jsmn_init_def)
  have d: "drop (pos ?p) T = w @ render j @ w'" "drop (pos ?p1) T = render j @ w'"
    using p assms(4) by simp_all
  have e: "ends_primitive w'"
    using assms(3) by (cases w') (auto simp: ends_primitive_def ws_ok_def)
  have b: "between num ?p1 [] ts"
    using p assms(6) by (simp add: between_def)
  have "jsmn_parse ?p (T @ post) (length T) (Some ts) num = scan T post num ?p1 ([] @ ts) 0"
    using scan_ws [OF assms(2) d(1), of post num ts 0] p by (simp add: jsmn_parse_def)
  also obtain s where "\<dots> = scan T post num (?p1\<lparr>pos := length w + length (render j), toknext := length ?tk, toksuper := s\<rparr>)
      (?tk @ drop (length ?tk) ts) (int (length ?tk))"
    using scans_all(1) [of T post num j, unfolded scans_value_def, rule_format, OF b _ assms(1) d(2) e, of 0] assms(5) p
    by (auto simp: bump_def)
  also have "\<dots> = scan T post num (?p1\<lparr>pos := length T, toknext := length ?tk, toksuper := s\<rparr>) (?tk @ drop (length ?tk) ts) (int (length ?tk))"
    using scan_ws [OF assms(3), of "?p1\<lparr>pos := length w + length (render j), toknext := length ?tk, toksuper := s\<rparr>" T "[]"] assms(4)
    by (simp add: add.assoc)
  also have "\<dots> = jsmn_finish (?p1\<lparr>pos := length T, toknext := length ?tk, toksuper := s\<rparr>, Some (?tk @ drop (length ?tk) ts), int (length ?tk))"
    by (subst jsmn_loop.simps) simp
  also have "\<dots> = Some (int (length ?tk), ?p1\<lparr>pos := length T, toknext := length ?tk, toksuper := s\<rparr>, Some (?tk @ drop (length ?tk) ts))"
    using find_down_skip [of ?tk tok_open "[]" "drop (length ?tk) ts"] toks_closed(1) [of j "length w"]
    by (simp add: jsmn_finish_def)
  finally show ?thesis
    by blast
qed

text \<open>
  C12: the tokeniser finds the tokens of a JSON text.  For the text of a JSON value (objects,
  arrays, strings without escapes and primitives, nested as deeply as one likes) with white
  space around it and a token array that is large enough, \<open>jsmn_parse\<close> returns the number of
  tokens of the value, fills the front of the array with exactly these tokens and leaves the rest
  of the array alone, whatever the array held before and whatever follows the text.
\<close>

theorem jsmn_parse_tokens:
  assumes "wf_json j" and "ws_ok w" and "ws_ok w'" and "T = w @ render j @ w'"
    and "length (toks_of j (length w)) \<le> num" and "num \<le> length ts"
  shows "\<exists>p'. jsmn_parse (jsmn_init p) (T @ post) (length T) (Some ts) num =
    Some (int (length (toks_of j (length w))), p', Some (toks_of j (length w) @ drop (length (toks_of j (length w))) ts))"
  using jsmn_tokens [OF assms] .

text \<open>The text \<open>{"a":[1,true], "b":"x"}\<close> and its seven tokens.\<close>

definition sample_json :: json where
  "sample_json = JObj (MCons [] [97] [] (JArr (ECons [] (JPrim [49]) (ECons [] (JPrim [116, 114, 117, 101]) ENil)))
     (MCons [32] [98] [] (JStr [120]) MNil))"

definition no_token_yet :: jsmntok_t where
  "no_token_yet = \<lparr>tok_type = JSMN_UNDEFINED, tok_start = 0, tok_end = 0, tok_size = 0\<rparr>"

lemma sample_json_wf: "wf_json sample_json"
  by (simp add: sample_json_def ws_ok_def str_ok_def prim_ok_def)

lemma sample_json_text:
  "render sample_json = [123, 34, 97, 34, 58, 91, 49, 44, 116, 114, 117, 101, 93, 44, 32, 34, 98, 34, 58, 34, 120, 34, 125]"
  by (simp add: sample_json_def)

lemma sample_json_toks:
  "toks_of sample_json 0 =
    [token JSMN_OBJECT 0 23 2, token JSMN_STRING 2 3 1, token JSMN_ARRAY 5 13 2, token JSMN_PRIMITIVE 6 7 0,
     token JSMN_PRIMITIVE 8 12 0, token JSMN_STRING 16 17 1, token JSMN_STRING 20 21 0]"
  by (simp add: sample_json_def)

theorem jsmn_parse_tokens_witness:
  "\<exists>p'. jsmn_parse (jsmn_init \<lparr>pos = 9, toknext = 9, toksuper = 9\<rparr>) (render sample_json @ [0]) 23 (Some (replicate 8 no_token_yet)) 8 =
    Some (7, p', Some ([token JSMN_OBJECT 0 23 2, token JSMN_STRING 2 3 1, token JSMN_ARRAY 5 13 2, token JSMN_PRIMITIVE 6 7 0,
      token JSMN_PRIMITIVE 8 12 0, token JSMN_STRING 16 17 1, token JSMN_STRING 20 21 0] @ [no_token_yet]))"
  using jsmn_parse_tokens [OF sample_json_wf, of "[]" "[]" "render sample_json" 8 "replicate 8 no_token_yet"
      "\<lparr>pos = 9, toknext = 9, toksuper = 9\<rparr>" "[0]"]
  by (simp add: ws_ok_def sample_json_text sample_json_toks eval_nat_numeral)


end
