(* ===== verification/Shadow_Json.thy ===== *)
theory Shadow_Json
  imports Json_Utils Jsmn_Render
begin

text \<open>
  \<open>src/aws_iot_shadow_json.c\<close>: building the JSON documents of shadow requests and taking apart
  the ones that arrive.  The static and external variables of the file are the record
  \<open>json_globals\<close>.  A document is the \<open>char\<close> array that it is built in; every \<open>snprintf\<close> writes
  into it with the size that the code passes, so that a size that is too large shows as an access
  outside the array (\<open>None\<close>).  The arguments of a variadic call are a list; reading one more than
  there are is undefined.
\<close>

section \<open>Data\<close>

definition MAX_SIZE_OF_UNIQUE_CLIENT_ID_BYTES :: nat where "MAX_SIZE_OF_UNIQUE_CLIENT_ID_BYTES = 80"
definition MAX_SIZE_CLIENT_ID_WITH_SEQUENCE :: nat where "MAX_SIZE_CLIENT_ID_WITH_SEQUENCE = MAX_SIZE_OF_UNIQUE_CLIENT_ID_BYTES + 10"
definition MAX_SIZE_CLIENT_TOKEN_CLIENT_SEQUENCE :: nat where "MAX_SIZE_CLIENT_TOKEN_CLIENT_SEQUENCE = MAX_SIZE_CLIENT_ID_WITH_SEQUENCE + 20"
definition MAX_JSON_TOKEN_EXPECTED :: nat where "MAX_JSON_TOKEN_EXPECTED = 120"

lemmas shadow_config = MAX_SIZE_OF_UNIQUE_CLIENT_ID_BYTES_def MAX_SIZE_CLIENT_ID_WITH_SEQUENCE_def
  MAX_SIZE_CLIENT_TOKEN_CLIENT_SEQUENCE_def MAX_JSON_TOKEN_EXPECTED_def

definition SHADOW_CLIENT_TOKEN_STRING :: mem where
  "SHADOW_CLIENT_TOKEN_STRING = cs ''clientToken'' @ [0]"

definition SHADOW_VERSION_STRING :: mem where
  "SHADOW_VERSION_STRING = cs ''version'' @ [0]"

datatype JsonPrimitiveType =
    SHADOW_JSON_INT32 | SHADOW_JSON_INT16 | SHADOW_JSON_INT8
  | SHADOW_JSON_UINT32 | SHADOW_JSON_UINT16 | SHADOW_JSON_UINT8
  | SHADOW_JSON_FLOAT | SHADOW_JSON_DOUBLE | SHADOW_JSON_BOOL | SHADOW_JSON_STRING | SHADOW_JSON_OBJECT

text \<open>The object that \<open>pData\<close> points to; an integer with the type it was declared with.\<close>

datatype jdata = DInt JsonPrimitiveType int | DFloat "32 word" | DDouble "64 word" | DBool bool | DString mem

record jsonStruct_t =
  js_pKey :: cptr
  js_pData :: "jdata option"
  js_type :: JsonPrimitiveType
  js_cb :: "handler option"

record json_globals =
  mqttClientID :: mem
  clientTokenNum :: u32
  shadowJsonParser :: jsmn_parser
  jsonTokenStruct :: toks

section \<open>Printing into a buffer\<close>

text \<open>\<open>snprintf\<close> at an offset of a buffer: at most \<open>n\<close> bytes with the NUL are written, the result
  is the length of the whole text.\<close>

definition c_snprintf :: "mem \<Rightarrow> nat \<Rightarrow> size_t \<Rightarrow> u8 list \<Rightarrow> (int \<times> mem) option" where
  "c_snprintf buf off n s =
     (if n = 0 then Some (int (length s), buf)
      else do {
        buf \<leftarrow> mem_write buf off (take (unat n - 1) s @ [0]);
        Some (int (length s), buf) })"

definition c_sprintf :: "mem \<Rightarrow> nat \<Rightarrow> u8 list \<Rightarrow> mem option" where
  "c_sprintf buf off s = mem_write buf off (s @ [0])"

text \<open>The bytes that \<open>strncpy\<close> stores: those up to a NUL, and NULs up to \<open>n\<close>.\<close>

fun strncpy_bytes :: "mem \<Rightarrow> nat \<Rightarrow> u8 list option" where
  "strncpy_bytes src 0 = Some []"
| "strncpy_bytes [] (Suc n) = None"
| "strncpy_bytes (c # src) (Suc n) = (if c = 0 then Some (replicate (Suc n) 0) else map_option (Cons c) (strncpy_bytes src n))"

definition c_strncpy :: "mem \<Rightarrow> mem \<Rightarrow> nat \<Rightarrow> mem option" where
  "c_strncpy dst src n = do { bs \<leftarrow> strncpy_bytes src n; mem_write dst 0 bs }"

text \<open>\<open>%s\<close> of a pointer that must not be NULL.\<close>

definition c_arg :: "cptr \<Rightarrow> u8 list option" where
  "c_arg p = (case p of None \<Rightarrow> None | Some m \<Rightarrow> c_text m)"

section \<open>Client tokens and empty requests\<close>

definition resetClientTokenSequenceNum :: "'a json_globals_scheme \<Rightarrow> 'a json_globals_scheme" where
  "resetClientTokenSequenceNum g = g\<lparr>clientTokenNum := 0\<rparr>"

text \<open>The text \<open>%s-%d\<close>; the unsigned counter is printed as a signed number.\<close>

definition client_token :: "'a json_globals_scheme \<Rightarrow> u8 list option" where
  "client_token g = do { i \<leftarrow> c_text (mqttClientID g); Some (i @ cs ''-'' @ dec_int (sint (clientTokenNum g))) }"

definition FillWithClientToken :: "mem \<Rightarrow> nat \<Rightarrow> 'a json_globals_scheme \<Rightarrow> (mem \<times> 'a json_globals_scheme) option" where
  "FillWithClientToken buf off g = do {
     s \<leftarrow> client_token g;
     buf \<leftarrow> c_sprintf buf off s;
     Some (buf, g\<lparr>clientTokenNum := clientTokenNum g + 1\<rparr>) }"

definition FillWithClientTokenSize ::
  "mem \<Rightarrow> nat \<Rightarrow> size_t \<Rightarrow> 'a json_globals_scheme \<Rightarrow> (int \<times> mem \<times> 'a json_globals_scheme) option" where
  "FillWithClientTokenSize buf off maxSize g = do {
     s \<leftarrow> client_token g;
     (r, buf) \<leftarrow> c_snprintf buf off maxSize s;
     Some (r, buf, g\<lparr>clientTokenNum := clientTokenNum g + 1\<rparr>) }"

definition emptyJsonWithClientToken :: "mem \<Rightarrow> 'a json_globals_scheme \<Rightarrow> (mem \<times> 'a json_globals_scheme) option" where
  "emptyJsonWithClientToken doc g = do {
     doc \<leftarrow> c_sprintf doc 0 (cs ''{\"clientToken\":\"'');
     n \<leftarrow> c_strlen doc;
     (doc, g) \<leftarrow> FillWithClientToken doc n g;
     n \<leftarrow> c_strlen doc;
     doc \<leftarrow> c_sprintf doc n (cs ''\"}'');
     Some (doc, g) }"

definition aws_iot_shadow_internal_get_request_json :: "mem \<Rightarrow> 'a json_globals_scheme \<Rightarrow> (mem \<times> 'a json_globals_scheme) option" where
  "aws_iot_shadow_internal_get_request_json = emptyJsonWithClientToken"

definition aws_iot_shadow_internal_delete_request_json :: "mem \<Rightarrow> 'a json_globals_scheme \<Rightarrow> (mem \<times> 'a json_globals_scheme) option" where
  "aws_iot_shadow_internal_delete_request_json = emptyJsonWithClientToken"

definition checkReturnValueOfSnPrintf :: "int \<Rightarrow> size_t \<Rightarrow> IoT_Error_t" where
  "checkReturnValueOfSnPrintf snPrintfReturn maxSizeOfJsonDocument =
     (if snPrintfReturn < 0 then SHADOW_JSON_ERROR
      else if word_of_int snPrintfReturn \<ge> maxSizeOfJsonDocument then SHADOW_JSON_BUFFER_TRUNCATED
      else SUCCESS)"

definition aws_iot_fill_with_client_token ::
  "mem \<Rightarrow> size_t \<Rightarrow> 'a json_globals_scheme \<Rightarrow> (IoT_Error_t \<times> mem \<times> 'a json_globals_scheme) option" where
  "aws_iot_fill_with_client_token buf maxSize g = do {
     (r, buf, g) \<leftarrow> FillWithClientTokenSize buf 0 maxSize g;
     Some (checkReturnValueOfSnPrintf r maxSize, buf, g) }"

section \<open>Building a document\<close>

definition aws_iot_shadow_init_json_document :: "cptr \<Rightarrow> size_t \<Rightarrow> (IoT_Error_t \<times> cptr) option" where
  "aws_iot_shadow_init_json_document pJsonDocument maxSize =
     (case pJsonDocument of
        None \<Rightarrow> Some (NULL_VALUE_ERROR, None)
      | Some doc \<Rightarrow> do {
          (r, doc) \<leftarrow> c_snprintf doc 0 maxSize (cs ''{\"state\":{'');
          Some (checkReturnValueOfSnPrintf r maxSize, Some doc) })"

text \<open>The text of a value, as far as \<open>convertDataToString\<close> prints it.\<close>

definition value_text :: "clib \<Rightarrow> JsonPrimitiveType \<Rightarrow> jdata \<Rightarrow> u8 list option" where
  "value_text lib ty d =
     (case d of
        DInt t v \<Rightarrow> if t = ty \<and> ty \<in> {SHADOW_JSON_INT32, SHADOW_JSON_INT16, SHADOW_JSON_INT8, SHADOW_JSON_UINT32, SHADOW_JSON_UINT16, SHADOW_JSON_UINT8}
          then Some (dec_int v) else None
      | DDouble x \<Rightarrow> if ty = SHADOW_JSON_DOUBLE then Some (printf_double lib x) else None
      | DFloat x \<Rightarrow> if ty = SHADOW_JSON_FLOAT then Some (printf_float lib x) else None
      | DBool b \<Rightarrow> if ty = SHADOW_JSON_BOOL then Some (if b then cs ''true'' else cs ''false'') else None
      | DString m \<Rightarrow> if ty = SHADOW_JSON_STRING then do { s \<leftarrow> c_text m; Some (cs ''\"'' @ s @ cs ''\"'') } else None)"

definition convertDataToString ::
  "clib \<Rightarrow> mem \<Rightarrow> nat \<Rightarrow> size_t \<Rightarrow> JsonPrimitiveType \<Rightarrow> jdata \<Rightarrow> (IoT_Error_t \<times> mem) option" where
  "convertDataToString lib buf off maxSize ty d =
     (if maxSize = 0 then Some (SHADOW_JSON_ERROR, buf)
      else if ty = SHADOW_JSON_OBJECT then Some (checkReturnValueOfSnPrintf 0 maxSize, buf)
      else do {
        s \<leftarrow> value_text lib ty d;
        (r, buf) \<leftarrow> c_snprintf buf off maxSize (s @ cs '','');
        Some (checkReturnValueOfSnPrintf r maxSize, buf) })"

text \<open>\<open>maxSizeOfJsonDocument - strlen(pJsonDocument)\<close>\<close>

definition rem_size :: "mem \<Rightarrow> size_t \<Rightarrow> (nat \<times> size_t) option" where
  "rem_size doc maxSize = do { n \<leftarrow> c_strlen doc; Some (n, maxSize - of_nat n) }"

text \<open>The loop over the arguments, with its \<open>int8_t\<close> counter and the size that was last computed.\<close>

fun add_members ::
  "clib \<Rightarrow> size_t \<Rightarrow> u8 \<Rightarrow> int \<Rightarrow> jsonStruct_t option list \<Rightarrow> mem \<Rightarrow> size_t \<Rightarrow> (IoT_Error_t \<times> mem \<times> size_t) option" where
  "add_members lib maxSize count i args doc rem =
     (if i < uint count then do {
        (n, temp) \<leftarrow> rem_size doc maxSize;
        if temp \<le> 1 then Some (SHADOW_JSON_ERROR, doc, rem)
        else case args of
          [] \<Rightarrow> None
        | a # args' \<Rightarrow> (case a of
            None \<Rightarrow> Some (NULL_VALUE_ERROR, doc, temp)
          | Some p \<Rightarrow> do {
              k \<leftarrow> c_arg (js_pKey p);
              (r, doc) \<leftarrow> c_snprintf doc n temp (cs ''\"'' @ k @ cs ''\":'');
              let rc = checkReturnValueOfSnPrintf r temp;
              if rc \<noteq> SUCCESS then Some (rc, doc, temp)
              else case js_pData p of
                None \<Rightarrow> Some (NULL_VALUE_ERROR, doc, temp)
              | Some d \<Rightarrow> do {
                  n \<leftarrow> c_strlen doc;
                  (rc, doc) \<leftarrow> convertDataToString lib doc n temp (js_type p) d;
                  if rc \<noteq> SUCCESS then Some (rc, doc, temp)
                  else add_members lib maxSize count (if i = 127 then -128 else i + 1) args' doc temp } }) }
      else Some (SUCCESS, doc, rem))"

declare add_members.simps [simp del]

definition add_section ::
  "clib \<Rightarrow> u8 list \<Rightarrow> cptr \<Rightarrow> size_t \<Rightarrow> u8 \<Rightarrow> jsonStruct_t option list \<Rightarrow> (IoT_Error_t \<times> cptr) option" where
  "add_section lib label pJsonDocument maxSize count args =
     (case pJsonDocument of
        None \<Rightarrow> Some (NULL_VALUE_ERROR, None)
      | Some doc \<Rightarrow> do {
          (n, rem) \<leftarrow> rem_size doc maxSize;
          if rem \<le> 1 then Some (SHADOW_JSON_ERROR, Some doc)
          else do {
            (r, doc) \<leftarrow> c_snprintf doc n rem (cs ''\"'' @ label @ cs ''\":{'');
            let rc = checkReturnValueOfSnPrintf r rem;
            if rc \<noteq> SUCCESS then Some (rc, Some doc)
            else do {
              (rc, doc, rem) \<leftarrow> add_members lib maxSize count 0 args doc rem;
              if rc \<noteq> SUCCESS then Some (rc, Some doc)
              else do {
                n \<leftarrow> c_strlen doc;
                if n = 0 then None
                else do {
                  (r, doc) \<leftarrow> c_snprintf doc (n - 1) rem (cs ''},'');
                  Some (checkReturnValueOfSnPrintf r rem, Some doc) } } } } })"

definition aws_iot_shadow_add_desired ::
  "clib \<Rightarrow> cptr \<Rightarrow> size_t \<Rightarrow> u8 \<Rightarrow> jsonStruct_t option list \<Rightarrow> (IoT_Error_t \<times> cptr) option" where
  "aws_iot_shadow_add_desired lib = add_section lib (cs ''desired'')"

definition aws_iot_shadow_add_reported ::
  "clib \<Rightarrow> cptr \<Rightarrow> size_t \<Rightarrow> u8 \<Rightarrow> jsonStruct_t option list \<Rightarrow> (IoT_Error_t \<times> cptr) option" where
  "aws_iot_shadow_add_reported lib = add_section lib (cs ''reported'')"

definition aws_iot_finalize_json_document ::
  "cptr \<Rightarrow> size_t \<Rightarrow> 'a json_globals_scheme \<Rightarrow> (IoT_Error_t \<times> cptr \<times> 'a json_globals_scheme) option" where
  "aws_iot_finalize_json_document pJsonDocument maxSize g =
     (case pJsonDocument of
        None \<Rightarrow> Some (NULL_VALUE_ERROR, None, g)
      | Some doc \<Rightarrow> do {
          (n, rem) \<leftarrow> rem_size doc maxSize;
          if rem \<le> 1 then Some (SHADOW_JSON_ERROR, Some doc, g)
          else if n = 0 then None
          else do {
            (r, doc) \<leftarrow> c_snprintf doc (n - 1) rem (cs ''}, \"'' @ cs ''clientToken'' @ cs ''\":\"'');
            let rc = checkReturnValueOfSnPrintf r rem;
            if rc \<noteq> SUCCESS then Some (rc, Some doc, g)
            else do {
              (n, rem) \<leftarrow> rem_size doc maxSize;
              if rem \<le> 1 then Some (SHADOW_JSON_ERROR, Some doc, g)
              else do {
                (r, doc, g) \<leftarrow> FillWithClientTokenSize doc n rem g;
                let rc = checkReturnValueOfSnPrintf r rem;
                if rc \<noteq> SUCCESS then Some (rc, Some doc, g)
                else do {
                  (n, rem) \<leftarrow> rem_size doc maxSize;
                  if rem \<le> 1 then Some (SHADOW_JSON_ERROR, Some doc, g)
                  else do {
                    (r, doc) \<leftarrow> c_snprintf doc n rem (cs ''\"}'');
                    Some (checkReturnValueOfSnPrintf r rem, Some doc, g) } } } } } })"
section \<open>Taking a document apart\<close>

text \<open>
  The tokens of the last document stay in \<open>jsonTokenStruct\<close>; what \<open>isJsonValidAndParse\<close> stores in
  its parameter \<open>pJsonHandler\<close> is lost, and the functions below ignore the handler they get.
\<close>

definition parse_document :: "mem \<Rightarrow> 'a json_globals_scheme \<Rightarrow> (int \<times> 'a json_globals_scheme) option" where
  "parse_document doc g = do {
     n \<leftarrow> c_strlen doc;
     (r, p, ts) \<leftarrow> jsmn_parse (jsmn_init (shadowJsonParser g)) doc n (Some (jsonTokenStruct g)) MAX_JSON_TOKEN_EXPECTED;
     ts \<leftarrow> ts;
     Some (r, g\<lparr>shadowJsonParser := p, jsonTokenStruct := ts\<rparr>) }"

definition isJsonValidAndParse :: "mem \<Rightarrow> 'a json_globals_scheme \<Rightarrow> (int option \<times> 'a json_globals_scheme) option" where
  "isJsonValidAndParse pJsonDocument g = do {
     (tokenCount, g) \<leftarrow> parse_document pJsonDocument g;
     if tokenCount < 0 then Some (None, g)
     else if tokenCount < 1 then Some (None, g)
     else do {
       t \<leftarrow> arr_get (jsonTokenStruct g) 0;
       if tok_type t \<noteq> JSMN_OBJECT then Some (None, g)
       else Some (Some tokenCount, g) } }"

definition isReceivedJsonValid :: "mem \<Rightarrow> 'a json_globals_scheme \<Rightarrow> (bool \<times> 'a json_globals_scheme) option" where
  "isReceivedJsonValid pJsonDocument g = do {
     (tokenCount, g) \<leftarrow> parse_document pJsonDocument g;
     if tokenCount < 0 then Some (False, g)
     else if tokenCount < 1 then Some (False, g)
     else do {
       t \<leftarrow> arr_get (jsonTokenStruct g) 0;
       Some (tok_type t = JSMN_OBJECT, g) } }"

text \<open>Storing a value through \<open>pData\<close>, which must point to an object of the declared type.\<close>

definition store_int :: "jsonStruct_t \<Rightarrow> (IoT_Error_t \<times> int option) option \<Rightarrow> (IoT_Error_t \<times> jsonStruct_t) option" where
  "store_int p r = do {
     (rc, v) \<leftarrow> r;
     case v of
       None \<Rightarrow> Some (rc, p)
     | Some v \<Rightarrow> (case js_pData p of
         Some (DInt t u) \<Rightarrow> if t = js_type p then Some (rc, p\<lparr>js_pData := Some (DInt t v)\<rparr>) else None
       | _ \<Rightarrow> None) }"

definition store_bool :: "jsonStruct_t \<Rightarrow> (IoT_Error_t \<times> bool option) option \<Rightarrow> (IoT_Error_t \<times> jsonStruct_t) option" where
  "store_bool p r = do {
     (rc, v) \<leftarrow> r;
     case v of
       None \<Rightarrow> Some (rc, p)
     | Some v \<Rightarrow> (case js_pData p of Some (DBool u) \<Rightarrow> Some (rc, p\<lparr>js_pData := Some (DBool v)\<rparr>) | _ \<Rightarrow> None) }"

definition store_float :: "jsonStruct_t \<Rightarrow> (IoT_Error_t \<times> 32 word option) option \<Rightarrow> (IoT_Error_t \<times> jsonStruct_t) option" where
  "store_float p r = do {
     (rc, v) \<leftarrow> r;
     case v of
       None \<Rightarrow> Some (rc, p)
     | Some v \<Rightarrow> (case js_pData p of Some (DFloat u) \<Rightarrow> Some (rc, p\<lparr>js_pData := Some (DFloat v)\<rparr>) | _ \<Rightarrow> None) }"

definition store_double :: "jsonStruct_t \<Rightarrow> (IoT_Error_t \<times> 64 word option) option \<Rightarrow> (IoT_Error_t \<times> jsonStruct_t) option" where
  "store_double p r = do {
     (rc, v) \<leftarrow> r;
     case v of
       None \<Rightarrow> Some (rc, p)
     | Some v \<Rightarrow> (case js_pData p of Some (DDouble u) \<Rightarrow> Some (rc, p\<lparr>js_pData := Some (DDouble v)\<rparr>) | _ \<Rightarrow> None) }"

definition UpdateValueIfNoObject :: "clib \<Rightarrow> mem \<Rightarrow> jsonStruct_t \<Rightarrow> jsmntok_t \<Rightarrow> (IoT_Error_t \<times> jsonStruct_t) option" where
  "UpdateValueIfNoObject lib pJsonString pDataStruct tok =
     (case js_type pDataStruct of
        SHADOW_JSON_BOOL \<Rightarrow> store_bool pDataStruct (parseBooleanValue pJsonString tok)
      | SHADOW_JSON_INT32 \<Rightarrow> store_int pDataStruct (parseInteger32Value pJsonString tok)
      | SHADOW_JSON_INT16 \<Rightarrow> store_int pDataStruct (parseInteger16Value pJsonString tok)
      | SHADOW_JSON_INT8 \<Rightarrow> store_int pDataStruct (parseInteger8Value pJsonString tok)
      | SHADOW_JSON_UINT32 \<Rightarrow> store_int pDataStruct (parseUnsignedInteger32Value pJsonString tok)
      | SHADOW_JSON_UINT16 \<Rightarrow> store_int pDataStruct (parseUnsignedInteger16Value pJsonString tok)
      | SHADOW_JSON_UINT8 \<Rightarrow> store_int pDataStruct (parseUnsignedInteger8Value pJsonString tok)
      | SHADOW_JSON_FLOAT \<Rightarrow> store_float pDataStruct (parseFloatValue lib pJsonString tok)
      | SHADOW_JSON_DOUBLE \<Rightarrow> store_double pDataStruct (parseDoubleValue lib pJsonString tok)
      | SHADOW_JSON_STRING \<Rightarrow> Some (SUCCESS, pDataStruct)
      | SHADOW_JSON_OBJECT \<Rightarrow> Some (SUCCESS, pDataStruct))"

text \<open>The search of the tokens from \<open>i\<close> on for a string token that equals \<open>key\<close>.\<close>

function key_loop :: "mem \<Rightarrow> toks \<Rightarrow> cptr \<Rightarrow> int \<Rightarrow> nat \<Rightarrow> nat option option" where
  "key_loop doc ts key tokenCount i =
     (if int i < tokenCount then do {
        t \<leftarrow> arr_get ts i;
        r \<leftarrow> jsoneq doc t (case key of None \<Rightarrow> [] | Some k \<Rightarrow> k);
        if r = 0 then Some (Some i) else key_loop doc ts key tokenCount (i + 1) }
      else Some None)"
  by pat_completeness auto
termination
  by (relation "measure (\<lambda>(doc, ts, key, n, i). nat (n - int i))") auto

declare key_loop.simps [simp del]

text \<open>The result: whether the key was found, the structure with the value, and the length and position of the value.\<close>

definition isJsonKeyMatchingAndUpdateValue ::
  "clib \<Rightarrow> mem \<Rightarrow> int \<Rightarrow> jsonStruct_t \<Rightarrow> 'a json_globals_scheme \<Rightarrow> (jsonStruct_t \<times> (u32 \<times> int) option) option" where
  "isJsonKeyMatchingAndUpdateValue lib pJsonDocument tokenCount pDataStruct g = do {
     r \<leftarrow> key_loop pJsonDocument (jsonTokenStruct g) (js_pKey pDataStruct) tokenCount 1;
     case r of
       None \<Rightarrow> Some (pDataStruct, None)
     | Some i \<Rightarrow> do {
         dataToken \<leftarrow> arr_get (jsonTokenStruct g) (i + 1);
         let dataLength = word_of_int (tok_end dataToken - tok_start dataToken);
         (rc, pDataStruct) \<leftarrow> UpdateValueIfNoObject lib pJsonDocument pDataStruct dataToken;
         Some (pDataStruct, Some (dataLength, tok_start dataToken)) } }"

definition extractClientToken :: "mem \<Rightarrow> mem \<Rightarrow> 'a json_globals_scheme \<Rightarrow> (bool \<times> mem \<times> 'a json_globals_scheme) option" where
  "extractClientToken pJsonDocument pExtractedClientToken g = do {
     (tokenCount, g) \<leftarrow> parse_document pJsonDocument g;
     if tokenCount < 0 then Some (False, pExtractedClientToken, g)
     else if tokenCount < 1 then Some (False, pExtractedClientToken, g)
     else do {
       t \<leftarrow> arr_get (jsonTokenStruct g) 0;
       if tok_type t \<noteq> JSMN_OBJECT then Some (False, pExtractedClientToken, g)
       else do {
         r \<leftarrow> key_loop pJsonDocument (jsonTokenStruct g) (Some SHADOW_CLIENT_TOKEN_STRING) tokenCount 1;
         case r of
           None \<Rightarrow> Some (False, pExtractedClientToken, g)
         | Some i \<Rightarrow> do {
             t \<leftarrow> arr_get (jsonTokenStruct g) (i + 1);
             let n = nat ((tok_end t - tok_start t) mod 2 ^ 8);
             src \<leftarrow> at_token pJsonDocument t;
             buf \<leftarrow> c_strncpy pExtractedClientToken src n;
             buf \<leftarrow> mem_write buf n [0];
             Some (True, buf, g) } } } }"

text \<open>A version that cannot be read does not end the search.\<close>

function version_loop :: "mem \<Rightarrow> toks \<Rightarrow> int \<Rightarrow> nat \<Rightarrow> int option option" where
  "version_loop doc ts tokenCount i =
     (if int i < tokenCount then do {
        t \<leftarrow> arr_get ts i;
        r \<leftarrow> jsoneq doc t SHADOW_VERSION_STRING;
        if r = 0 then do {
          t \<leftarrow> arr_get ts (i + 1);
          (rc, v) \<leftarrow> parseUnsignedInteger32Value doc t;
          if rc = SUCCESS then Some v else version_loop doc ts tokenCount (i + 1) }
        else version_loop doc ts tokenCount (i + 1) }
      else Some None)"
  by pat_completeness auto
termination
  by (relation "measure (\<lambda>(doc, ts, n, i). nat (n - int i))") auto

declare version_loop.simps [simp del]

definition extractVersionNumber :: "mem \<Rightarrow> int \<Rightarrow> 'a json_globals_scheme \<Rightarrow> int option option" where
  "extractVersionNumber pJsonDocument tokenCount g = version_loop pJsonDocument (jsonTokenStruct g) tokenCount 1"

section \<open>What the building functions write\<close>

text \<open>A buffer of \<open>n\<close> bytes that holds the text \<open>T\<close>.\<close>

definition holds :: "mem \<Rightarrow> u8 list \<Rightarrow> nat \<Rightarrow> bool" where
  "holds doc T n \<longleftrightarrow> (\<exists>r. doc = T @ 0 # r) \<and> 0 \<notin> set T \<and> length doc = n"

lemma holds_strlen: "holds doc T n \<Longrightarrow> c_strlen doc = Some (length T)"
  by (auto simp: holds_def)

lemma holds_text: "holds doc T n \<Longrightarrow> c_text doc = Some T"
  by (auto simp: holds_def c_text_append)

lemma holds_length: "holds doc T n \<Longrightarrow> length T < n"
  by (auto simp: holds_def)

lemma holds_write:
  assumes "length doc = n" and "take (length T) doc = T" and "0 \<notin> set T" and "0 \<notin> set s" and "length T + length s < n"
  shows "\<exists>doc'. mem_write doc (length T) (s @ [0]) = Some doc' \<and> holds doc' (T @ s) n"
  using assms by (auto simp: mem_write_def holds_def)

lemma snprintf_holds:
  assumes "length doc = n" and "take (length T) doc = T" and "0 \<notin> set T" and "0 \<notin> set s"
    and "length T + length s < n" and "length s < unat rem"
  shows "\<exists>doc'. c_snprintf doc (length T) rem s = Some (int (length s), doc') \<and> holds doc' (T @ s) n"
  using holds_write [OF assms(1-5)] assms(6) by (auto simp: c_snprintf_def)

lemma snprintf_append:
  assumes "holds doc T n" and "0 \<notin> set s" and "length T + length s < n" and "length s < unat rem"
  shows "\<exists>doc'. c_snprintf doc (length T) rem s = Some (int (length s), doc') \<and> holds doc' (T @ s) n"
  using assms by (intro snprintf_holds) (auto simp: holds_def)

text \<open>Printing over the last character.\<close>

lemma snprintf_over:
  assumes "holds doc (T @ [x]) n" and "0 \<notin> set s" and "length T + length s < n" and "length s < unat rem"
  shows "\<exists>doc'. c_snprintf doc (length T) rem s = Some (int (length s), doc') \<and> holds doc' (T @ s) n"
  using assms by (intro snprintf_holds) (auto simp: holds_def)

lemma check_ok: "l < unat rem \<Longrightarrow> checkReturnValueOfSnPrintf (int l) rem = SUCCESS"
  using unsigned_less [of rem, where ?'a = nat]
  by (simp add: checkReturnValueOfSnPrintf_def word_le_nat_alt unsigned_of_nat take_bit_nat_eq_self)

lemma rem_size_holds:
  assumes "holds doc T n" and "length T < unat maxSize"
  shows "rem_size doc maxSize = Some (length T, maxSize - of_nat (length T))"
    and "unat (maxSize - of_nat (length T)) = unat maxSize - length T"
proof -
  show "rem_size doc maxSize = Some (length T, maxSize - of_nat (length T))"
    using holds_strlen [OF assms(1)] by (simp add: rem_size_def)
  have "unat (of_nat (length T) :: size_t) = length T"
    using assms(2) unsigned_less [of maxSize, where ?'a = nat] by (simp add: unsigned_of_nat take_bit_nat_eq_self)
  then show "unat (maxSize - of_nat (length T)) = unat maxSize - length T"
    using assms(2) by (simp add: unat_sub word_le_nat_alt)
qed

lemma size_not_small: "1 < unat (w :: size_t) \<Longrightarrow> \<not> w \<le> 1"
  by (simp add: word_le_nat_alt)

text \<open>An argument that denotes the member \<open>k : j\<close>.\<close>

definition arg_is :: "clib \<Rightarrow> jsonStruct_t option \<Rightarrow> u8 list \<times> json \<Rightarrow> bool" where
  "arg_is lib a kj \<longleftrightarrow>
     (case a of None \<Rightarrow> False | Some p \<Rightarrow>
        c_arg (js_pKey p) = Some (fst kj) \<and> str_ok (fst kj) \<and> js_type p \<noteq> SHADOW_JSON_OBJECT \<and>
        wf_json (snd kj) \<and> 0 \<notin> set (render (snd kj)) \<and>
        (case js_pData p of None \<Rightarrow> False | Some d \<Rightarrow> value_text lib (js_type p) d = Some (render (snd kj))))"

definition member_text :: "u8 list \<times> json \<Rightarrow> u8 list" where
  "member_text kj = cs ''\"'' @ fst kj @ cs ''\":'' @ render (snd kj) @ cs '',''"

lemma cs_chars [simp]:
  "cs ''\"'' = [QUOTE]" "cs ''\":'' = [QUOTE, COLON]" "cs '','' = [COMMA]" "cs ''\":{'' = [QUOTE, COLON, LBRACE]"
  "cs ''},'' = [RBRACE, COMMA]" "cs ''\"}'' = [QUOTE, RBRACE]" "cs ''\":\"'' = [QUOTE, COLON, QUOTE]"
  by (simp_all add: cs_def of_char_def)

lemma convertDataToString_append:
  assumes "holds doc T n" and "value_text lib ty d = Some s" and "ty \<noteq> SHADOW_JSON_OBJECT" and "0 \<notin> set s"
    and "length T + length s + 1 < n" and "length s + 1 < unat rem"
  shows "\<exists>doc'. convertDataToString lib doc (length T) rem ty d = Some (SUCCESS, doc') \<and> holds doc' (T @ s @ [COMMA]) n"
proof -
  obtain doc' where "c_snprintf doc (length T) rem (s @ [COMMA]) = Some (int (length (s @ [COMMA])), doc')" "holds doc' (T @ s @ [COMMA]) n"
    using snprintf_append [OF assms(1), of "s @ [COMMA]" rem] assms(4-6) by auto
  moreover have "rem \<noteq> 0"
    using assms(6) by auto
  ultimately show ?thesis
    using assms(2,3) check_ok [of "length (s @ [COMMA])" rem] assms(6) by (simp add: convertDataToString_def)
qed

lemma str_ok_no_NUL: "str_ok k \<Longrightarrow> 0 \<notin> set k"
  by (auto simp: str_ok_def)

lemma add_member:
  assumes "holds doc T n" and "unat maxSize \<le> n" and "length T + length (member_text kj) < unat maxSize"
    and "arg_is lib a kj" and "i < uint count"
  shows "\<exists>doc'. add_members lib maxSize count i (a # args) doc rem =
      add_members lib maxSize count (if i = 127 then -128 else i + 1) args doc' (maxSize - of_nat (length T)) \<and>
    holds doc' (T @ member_text kj) n"
proof -
  obtain k j where kj: "kj = (k, j)"
    by (cases kj)
  obtain p d where p: "a = Some p" "c_arg (js_pKey p) = Some k" "str_ok k" "js_type p \<noteq> SHADOW_JSON_OBJECT"
    "0 \<notin> set (render j)" "js_pData p = Some d" "value_text lib (js_type p) d = Some (render j)"
    using assms(4) kj by (auto simp: arg_is_def split: option.splits)
  let ?rem = "maxSize - of_nat (length T)"
  let ?key = "QUOTE # k @ [QUOTE, COLON]"
  have T: "length T < unat maxSize" "length T + length ?key + length (render j) + 1 < unat maxSize"
    using assms(3) kj by (simp_all add: member_text_def)
  have rem: "unat ?rem = unat maxSize - length T"
    by (rule rem_size_holds(2) [OF assms(1) T(1)])
  have nul: "0 \<notin> set ?key"
    using str_ok_no_NUL [OF p(3)] by simp
  have key: "length ?key < unat ?rem" "length T + length ?key < n"
    "length (T @ ?key) + length (render j) + 1 < n" "length (render j) + 1 < unat ?rem"
    using T(2) rem assms(2) by auto
  obtain doc1 where d1: "c_snprintf doc (length T) ?rem ?key = Some (int (length ?key), doc1)" "holds doc1 (T @ ?key) n"
    using snprintf_append [OF assms(1) nul key(2,1)] by auto
  obtain doc2 where d2: "convertDataToString lib doc1 (length (T @ ?key)) ?rem (js_type p) d = Some (SUCCESS, doc2)"
    "holds doc2 ((T @ ?key) @ render j @ [COMMA]) n"
    using convertDataToString_append [OF d1(2) p(7,4,5) key(3,4)] by auto
  have rs: "rem_size doc maxSize = Some (length T, ?rem)" "\<not> ?rem \<le> 1"
    using rem_size_holds(1) [OF assms(1) T(1)] rem T by (auto intro!: size_not_small)
  have "checkReturnValueOfSnPrintf (int (length ?key)) ?rem = SUCCESS"
    by (rule check_ok) (use T rem in simp)
  then have "add_members lib maxSize count i (a # args) doc rem =
      add_members lib maxSize count (if i = 127 then -128 else i + 1) args doc2 ?rem"
    using rs p(1,2,6) d1 d2(1) holds_strlen [OF d1(2)] assms(5)
    by (subst add_members.simps) simp
  then show ?thesis
    using d2(2) kj by (auto simp: member_text_def)
qed

lemma add_members_text:
  assumes "list_all2 (arg_is lib) args kjs" and "holds doc T n" and "unat maxSize \<le> n"
    and "length T + length (concat (map member_text kjs)) < unat maxSize"
    and "0 \<le> i" and "i + int (length kjs) = uint count" and "uint count \<le> 127"
  shows "\<exists>doc' rem'. add_members lib maxSize count i args doc rem = Some (SUCCESS, doc', rem') \<and>
    holds doc' (T @ concat (map member_text kjs)) n \<and> (kjs \<noteq> [] \<longrightarrow> 2 < unat rem')"
  using assms
proof (induction args kjs arbitrary: i doc T rem rule: list_all2_induct)
  case Nil
  then show ?case
    by (subst add_members.simps) auto
next
  case (Cons a args kj kjs)
  have i: "i < uint count" "i \<noteq> 127"
    using Cons.prems(4-6) by auto
  have l: "length T + length (member_text kj) < unat maxSize"
    using Cons.prems(3) by simp
  obtain doc1 where d1: "add_members lib maxSize count i (a # args) doc rem =
      add_members lib maxSize count (i + 1) args doc1 (maxSize - of_nat (length T))" "holds doc1 (T @ member_text kj) n"
    using add_member [OF Cons.prems(1,2) l Cons.hyps(1) i(1)] i(2) by auto
  have r: "unat (maxSize - of_nat (length T)) = unat maxSize - length T"
    using rem_size_holds(2) [OF Cons.prems(1)] l by simp
  have "2 < unat (maxSize - of_nat (length T))"
    using r l by (cases kj) (simp add: member_text_def)
  moreover obtain doc' rem' where
    "add_members lib maxSize count (i + 1) args doc1 (maxSize - of_nat (length T)) = Some (SUCCESS, doc', rem')"
    "holds doc' ((T @ member_text kj) @ concat (map member_text kjs)) n" "kjs \<noteq> [] \<longrightarrow> 2 < unat rem'"
    using Cons.IH [OF d1(2) Cons.prems(2), of "i + 1" "maxSize - of_nat (length T)"] Cons.prems(3-6) by auto
  moreover have "kjs = [] \<longrightarrow> rem' = maxSize - of_nat (length T)"
    using calculation(2) Cons.hyps(2) Cons.prems(4-6) by (auto simp: add_members.simps)
  ultimately show ?case
    using d1(1) by auto
qed

text \<open>The members of an object as the functions print them.\<close>

primrec obj :: "(u8 list \<times> json) list \<Rightarrow> members" where
  "obj [] = MNil"
| "obj (kj # kjs) = MCons [] (fst kj) [] (snd kj) (obj kjs)"

lemma obj_MNil [simp]: "obj kjs = MNil \<longleftrightarrow> kjs = []"
  by (cases kjs) auto

lemma members_text: "kjs \<noteq> [] \<Longrightarrow> concat (map member_text kjs) = render_members (obj kjs) @ [COMMA]"
  by (induction kjs) (auto simp: member_text_def)

lemma wf_obj: "wf_members (obj kjs) \<longleftrightarrow> (\<forall>kj \<in> set kjs. str_ok (fst kj) \<and> wf_json (snd kj))"
  by (induction kjs) (auto simp: ws_ok_def)

lemma add_section_text:
  assumes "list_all2 (arg_is lib) args kjs" and "kjs \<noteq> []" and "uint count = int (length kjs)" and "length kjs \<le> 127"
    and "holds doc T n" and "unat maxSize \<le> n" and "str_ok label"
    and "length T + length (member_text (label, JObj (obj kjs))) < unat maxSize"
  shows "\<exists>doc'. add_section lib label (Some doc) maxSize count args = Some (SUCCESS, Some doc') \<and>
    holds doc' (T @ member_text (label, JObj (obj kjs))) n"
proof -
  let ?rem = "maxSize - of_nat (length T)"
  let ?head = "QUOTE # label @ [QUOTE, COLON, LBRACE]"
  let ?ms = "concat (map member_text kjs)"
  have ms: "?ms = render_members (obj kjs) @ [COMMA]"
    by (rule members_text [OF assms(2)])
  have len: "length T + length ?head + length (render_members (obj kjs)) + 2 < unat maxSize"
    using assms(8) by (simp add: member_text_def)
  then have T: "length T < unat maxSize"
    by simp
  have rem: "unat ?rem = unat maxSize - length T" "rem_size doc maxSize = Some (length T, ?rem)" "\<not> ?rem \<le> 1"
    using rem_size_holds [OF assms(5) T] len by (auto intro!: size_not_small)
  have nul: "0 \<notin> set ?head"
    using str_ok_no_NUL [OF assms(7)] by simp
  have head: "length ?head < unat ?rem" "length T + length ?head < n"
    using len rem(1) assms(6) by auto
  obtain doc1 where d1: "c_snprintf doc (length T) ?rem ?head = Some (int (length ?head), doc1)" "holds doc1 (T @ ?head) n"
    using snprintf_append [OF assms(5) nul head(2,1)] by auto
  obtain doc2 rem2 where d2: "add_members lib maxSize count 0 args doc1 ?rem = Some (SUCCESS, doc2, rem2)"
    "holds doc2 ((T @ ?head) @ ?ms) n" "2 < unat rem2"
    using add_members_text [OF assms(1) d1(2) assms(6), of 0 count ?rem] len ms assms(2-4) by auto
  then have h2: "holds doc2 ((T @ ?head @ render_members (obj kjs)) @ [COMMA]) n"
    by (simp add: ms)
  obtain doc3 where d3: "c_snprintf doc2 (length (T @ ?head @ render_members (obj kjs))) rem2 [RBRACE, COMMA] = Some (2, doc3)"
    "holds doc3 ((T @ ?head @ render_members (obj kjs)) @ [RBRACE, COMMA]) n"
    using snprintf_over [OF h2, of "[RBRACE, COMMA]" rem2] d2(3) len assms(6) by auto
  have "checkReturnValueOfSnPrintf (int (length ?head)) ?rem = SUCCESS" "checkReturnValueOfSnPrintf (int 2) rem2 = SUCCESS"
    by (rule check_ok, use len rem d2 in simp)+
  then have "add_section lib label (Some doc) maxSize count args = Some (SUCCESS, Some doc3)"
    using rem d1(1) d2(1) d3(1) holds_strlen [OF h2] by (simp add: add_section_def)
  then show ?thesis
    using d3(2) by (simp add: member_text_def)
qed

lemma dec_int_no_NUL: "0 \<notin> set (dec_int v)"
  using dec_digits digit_not_special by (auto simp: dec_int_def)

lemma client_token_no_NUL: "client_token g = Some tok \<Longrightarrow> 0 \<notin> set tok"
  using dec_int_no_NUL
  by (auto simp: client_token_def c_text_def cs_def of_char_def dest: set_takeWhileD split: bind_splits if_splits)

text \<open>One round of \<open>tempSize\<close>, \<open>snprintf\<close> and check when there is room.\<close>

lemma print_step:
  assumes "holds d t n" and "unat maxSize \<le> n" and "0 \<notin> set s" and "length t + length s < unat maxSize" and "s \<noteq> []"
  shows "rem_size d maxSize = Some (length t, maxSize - of_nat (length t))" and "\<not> maxSize - of_nat (length t) \<le> 1"
    and "\<exists>d'. c_snprintf d (length t) (maxSize - of_nat (length t)) s = Some (int (length s), d') \<and> holds d' (t @ s) n"
    and "checkReturnValueOfSnPrintf (int (length s)) (maxSize - of_nat (length t)) = SUCCESS"
proof -
  have r: "unat (maxSize - of_nat (length t)) = unat maxSize - length t"
    using rem_size_holds(2) [OF assms(1)] assms(4) by simp
  moreover have "1 < unat maxSize - length t"
    using assms(4,5) by (cases s) auto
  ultimately show "rem_size d maxSize = Some (length t, maxSize - of_nat (length t))" "\<not> maxSize - of_nat (length t) \<le> 1"
    using rem_size_holds(1) [OF assms(1)] assms(4) by (auto intro!: size_not_small)
  show "\<exists>d'. c_snprintf d (length t) (maxSize - of_nat (length t)) s = Some (int (length s), d') \<and> holds d' (t @ s) n"
    "checkReturnValueOfSnPrintf (int (length s)) (maxSize - of_nat (length t)) = SUCCESS"
    using assms r by (auto intro!: snprintf_append check_ok)
qed

lemma finalize_text:
  assumes "holds doc (T @ [x]) n" and "unat maxSize \<le> n" and "client_token g = Some tok"
    and "length T + length tok + 20 < unat maxSize"
  shows "\<exists>doc'. aws_iot_finalize_json_document (Some doc) maxSize g =
      Some (SUCCESS, Some doc', g\<lparr>clientTokenNum := clientTokenNum g + 1\<rparr>) \<and>
    holds doc' (T @ (RBRACE # COMMA # 32 # QUOTE # cs ''clientToken'' @ [QUOTE, COLON, QUOTE]) @ tok @ [QUOTE, RBRACE]) n"
proof -
  let ?head = "RBRACE # COMMA # 32 # QUOTE # cs ''clientToken'' @ [QUOTE, COLON, QUOTE]"
  have tok: "0 \<notin> set tok"
    by (rule client_token_no_NUL [OF assms(3)])
  have cs: "length (cs ''clientToken'') = 11" "0 \<notin> set (cs ''clientToken'')" "cs ''}, \"'' = [RBRACE, COMMA, 32, QUOTE]"
    by (simp_all add: cs_def of_char_def)
  let ?rem = "maxSize - of_nat (length (T @ [x]))"
  have r0: "rem_size doc maxSize = Some (length (T @ [x]), ?rem)" "\<not> ?rem \<le> 1" "unat ?rem = unat maxSize - length (T @ [x])"
    using rem_size_holds [OF assms(1), of maxSize] assms(4) by (auto intro!: size_not_small)
  have h: "length ?head < unat ?rem" "length T + length ?head < n" "0 \<notin> set ?head"
    using r0(3) assms(2,4) cs(1,2) by simp_all
  obtain doc1 where d1: "c_snprintf doc (length T) ?rem ?head = Some (int (length ?head), doc1)" "holds doc1 (T @ ?head) n"
    using snprintf_over [OF assms(1) h(3,2,1)] by auto
  have c1: "checkReturnValueOfSnPrintf (int (length ?head)) ?rem = SUCCESS"
    by (rule check_ok [OF h(1)])
  have t1: "length (T @ ?head) + length tok < unat maxSize" "tok \<noteq> []"
    using assms(3,4) cs(1) by (auto simp: client_token_def cs_def split: bind_splits)
  obtain doc2 where d2: "c_snprintf doc1 (length (T @ ?head)) (maxSize - of_nat (length (T @ ?head))) tok = Some (int (length tok), doc2)"
    "holds doc2 ((T @ ?head) @ tok) n"
    using print_step(3) [OF d1(2) assms(2) tok t1] by blast
  have t2: "0 \<notin> set [QUOTE, RBRACE]" "length ((T @ ?head) @ tok) + length [QUOTE, RBRACE] < unat maxSize" "[QUOTE, RBRACE] \<noteq> ([] :: u8 list)"
    using assms(4) cs(1) by simp_all
  obtain doc3 where d3: "c_snprintf doc2 (length ((T @ ?head) @ tok)) (maxSize - of_nat (length ((T @ ?head) @ tok))) [QUOTE, RBRACE] =
      Some (int (length [QUOTE, RBRACE]), doc3)" "holds doc3 (((T @ ?head) @ tok) @ [QUOTE, RBRACE]) n"
    using print_step(3) [OF d2(2) assms(2) t2] by blast
  have fill: "FillWithClientTokenSize doc1 (length (T @ ?head)) (maxSize - of_nat (length (T @ ?head))) g =
      Some (int (length tok), doc2, g\<lparr>clientTokenNum := clientTokenNum g + 1\<rparr>)"
    using d2(1) assms(3) by (simp add: FillWithClientTokenSize_def)
  have "aws_iot_finalize_json_document (Some doc) maxSize g =
      Some (SUCCESS, Some doc3, g\<lparr>clientTokenNum := clientTokenNum g + 1\<rparr>)"
    unfolding aws_iot_finalize_json_document_def
    using r0(1,2) d1(1) c1 print_step(1,2,4) [OF d1(2) assms(2) tok t1] fill print_step(1,2,4) [OF d2(2) assms(2) t2] d3(1) cs(3)
    by (simp del: of_nat_Suc)
  then show ?thesis
    using d3(2) by auto
qed

text \<open>The document of an update: the object \<open>state\<close> with its sections, and the client token.\<close>

definition shadow_json :: "(u8 list \<times> json) list \<Rightarrow> u8 list \<Rightarrow> json" where
  "shadow_json sections tok =
     JObj (MCons [] (cs ''state'') [] (JObj (obj sections)) (MCons [32] (cs ''clientToken'') [] (JStr tok) MNil))"

lemma shadow_json_text:
  assumes "sections \<noteq> []"
  shows "render (shadow_json sections tok) =
    butlast (cs ''{\"state\":{'' @ concat (map member_text sections)) @
    (RBRACE # COMMA # 32 # QUOTE # cs ''clientToken'' @ [QUOTE, COLON, QUOTE]) @ tok @ [QUOTE, RBRACE]"
proof -
  have "cs ''{\"state\":{'' = LBRACE # QUOTE # cs ''state'' @ [QUOTE, COLON, LBRACE]"
    by (simp add: cs_def of_char_def)
  then show ?thesis
    by (simp add: shadow_json_def members_text [OF assms] butlast_append)
qed

text \<open>The calls that an application makes for an update of both sections, with their results.\<close>

definition build_update ::
  "clib \<Rightarrow> mem \<Rightarrow> size_t \<Rightarrow> jsonStruct_t option list \<Rightarrow> jsonStruct_t option list \<Rightarrow> 'a json_globals_scheme \<Rightarrow>
   (IoT_Error_t list \<times> cptr \<times> 'a json_globals_scheme) option" where
  "build_update lib buf maxSize ds rs g = do {
     (rc1, d) \<leftarrow> aws_iot_shadow_init_json_document (Some buf) maxSize;
     (rc2, d) \<leftarrow> aws_iot_shadow_add_desired lib d maxSize (of_nat (length ds)) ds;
     (rc3, d) \<leftarrow> aws_iot_shadow_add_reported lib d maxSize (of_nat (length rs)) rs;
     (rc4, d, g) \<leftarrow> aws_iot_finalize_json_document d maxSize g;
     Some ([rc1, rc2, rc3, rc4], d, g) }"

lemma update_document:
  assumes "list_all2 (arg_is lib) ds kds" and "kds \<noteq> []" and "length kds \<le> 127"
    and "list_all2 (arg_is lib) rs krs" and "krs \<noteq> []" and "length krs \<le> 127"
    and "client_token g = Some tok" and "unat maxSize \<le> length buf"
    and "j = shadow_json [(cs ''desired'', JObj (obj kds)), (cs ''reported'', JObj (obj krs))] tok"
    and "length (render j) < unat maxSize"
  shows "\<exists>doc. build_update lib buf maxSize ds rs g =
      Some ([SUCCESS, SUCCESS, SUCCESS, SUCCESS], Some doc, g\<lparr>clientTokenNum := clientTokenNum g + 1\<rparr>) \<and>
    holds doc (render j) (length buf)"
proof -
  let ?n = "length buf"
  let ?D = "member_text (cs ''desired'', JObj (obj kds))"
  let ?R = "member_text (cs ''reported'', JObj (obj krs))"
  let ?S = "cs ''{\"state\":{''"
  define T where "T = butlast (?S @ ?D @ ?R)"
  have S: "length ?S = 10" "0 \<notin> set ?S" "str_ok (cs ''desired'')" "str_ok (cs ''reported'')"
    by (simp_all add: cs_def of_char_def str_ok_def)
  have T: "?S @ ?D @ ?R = T @ [COMMA]"
    by (simp add: T_def member_text_def butlast_append)
  have len: "length (render j) = length T + length tok + 20" "length (?S @ ?D @ ?R) = length T + 1"
    by (simp add: assms(9) shadow_json_text T_def cs_def, subst T, simp)
  have cnt: "uint (of_nat (length ds) :: u8) = int (length kds)" "uint (of_nat (length rs) :: u8) = int (length krs)"
    using list_all2_lengthD [OF assms(1)] list_all2_lengthD [OF assms(4)] assms(3,6)
    by (simp_all add: unsigned_of_nat take_bit_nat_eq_self)
  have sz: "0 + length ?S < ?n" "length ?S < unat maxSize" "length ?S + length ?D < unat maxSize"
    "length (?S @ ?D) + length ?R < unat maxSize" "length T + length tok + 20 < unat maxSize"
    using len assms(8,10) by simp_all
  obtain d1 where d1: "c_snprintf buf 0 maxSize ?S = Some (int (length ?S), d1)" "holds d1 ?S ?n"
    using snprintf_holds [of buf ?n "[]" ?S maxSize] sz(1,2) S(2) by auto
  have i: "aws_iot_shadow_init_json_document (Some buf) maxSize = Some (SUCCESS, Some d1)"
    using d1(1) check_ok [OF sz(2)] by (simp add: aws_iot_shadow_init_json_document_def)
  obtain d2 where d2: "add_section lib (cs ''desired'') (Some d1) maxSize (of_nat (length ds)) ds = Some (SUCCESS, Some d2)" "holds d2 (?S @ ?D) ?n"
    using add_section_text [OF assms(1,2) cnt(1) assms(3) d1(2) assms(8) S(3) sz(3)] by blast
  obtain d3 where d3: "add_section lib (cs ''reported'') (Some d2) maxSize (of_nat (length rs)) rs = Some (SUCCESS, Some d3)" "holds d3 ((?S @ ?D) @ ?R) ?n"
    using add_section_text [OF assms(4,5) cnt(2) assms(6) d2(2) assms(8) S(4) sz(4)] by blast
  then have h3: "holds d3 (T @ [COMMA]) ?n"
    using T by simp
  obtain d4 where d4: "aws_iot_finalize_json_document (Some d3) maxSize g = Some (SUCCESS, Some d4, g\<lparr>clientTokenNum := clientTokenNum g + 1\<rparr>)"
    "holds d4 (render j) ?n"
    using finalize_text [OF h3 assms(8,7) sz(5)] by (auto simp: assms(9) shadow_json_text T_def)
  show ?thesis
    using i d2(1) d3(1) d4
    by (simp add: build_update_def aws_iot_shadow_add_desired_def aws_iot_shadow_add_reported_def)
qed

text \<open>
  C11: an update document is built as promised.  If every argument denotes a member, each section has
  between 1 and 127 of them, and the buffer and the size passed have room for the whole text and its
  NUL, then initialising, adding the desired and the reported members and finalising all succeed,
  stay inside the buffer, and leave the JSON text with exactly the members given, in their order,
  and the token \<open><client id>-<number>\<close>; the counter of the tokens advances by one.
\<close>

theorem update_document_built:
  assumes "list_all2 (arg_is lib) ds kds" and "kds \<noteq> []" and "length kds \<le> 127"
    and "list_all2 (arg_is lib) rs krs" and "krs \<noteq> []" and "length krs \<le> 127"
    and "client_token g = Some tok" and "unat maxSize \<le> length buf"
    and "j = shadow_json [(cs ''desired'', JObj (obj kds)), (cs ''reported'', JObj (obj krs))] tok"
    and "length (render j) < unat maxSize"
  shows "\<exists>doc. build_update lib buf maxSize ds rs g =
      Some ([SUCCESS, SUCCESS, SUCCESS, SUCCESS], Some doc, g\<lparr>clientTokenNum := clientTokenNum g + 1\<rparr>) \<and>
    length doc = length buf \<and> c_text doc = Some (render j)"
  using update_document [OF assms] holds_text by (auto simp: holds_def)

text \<open>
  A value that does not fit is written past the end of the document.  The size passed for the
  value is the one computed before its key was printed, so in a buffer of exactly the size given a
  first member whose key fits and whose value does not makes \<open>aws_iot_shadow_add_desired\<close> and
  \<open>aws_iot_shadow_add_reported\<close> leave the buffer instead of returning
  \<open>SHADOW_JSON_BUFFER_TRUNCATED\<close>.
\<close>

theorem member_overruns_document:
  assumes "holds doc T (unat maxSize)" and "arg_is lib a (k, j)" and "0 < count" and "str_ok label"
    and "length T + length label + length k + 7 < unat maxSize"
    and "unat maxSize \<le> length T + length label + length k + 8 + length (render j)"
  shows "add_section lib label (Some doc) maxSize count (a # args) = None"
proof -
  let ?n = "unat maxSize"
  let ?head = "QUOTE # label @ [QUOTE, COLON, LBRACE]"
  let ?key = "QUOTE # k @ [QUOTE, COLON]"
  let ?rem = "maxSize - of_nat (length (T @ ?head))"
  obtain p d where p: "a = Some p" "c_arg (js_pKey p) = Some k" "str_ok k" "js_type p \<noteq> SHADOW_JSON_OBJECT"
    "js_pData p = Some d" "value_text lib (js_type p) d = Some (render j)"
    using assms(2) by (auto simp: arg_is_def split: option.splits)
  have s1: "0 \<notin> set ?head" "length T + length ?head < ?n" "?head \<noteq> []"
    using str_ok_no_NUL [OF assms(4)] assms(5) by simp_all
  obtain d1 where d1: "c_snprintf doc (length T) (maxSize - of_nat (length T)) ?head = Some (int (length ?head), d1)" "holds d1 (T @ ?head) ?n"
    using print_step(3) [OF assms(1) _ s1] by auto
  have s2: "0 \<notin> set ?key" "length (T @ ?head) + length ?key < ?n" "?key \<noteq> []"
    using str_ok_no_NUL [OF p(3)] assms(5) by simp_all
  obtain d2 where d2: "c_snprintf d1 (length (T @ ?head)) ?rem ?key = Some (int (length ?key), d2)" "holds d2 ((T @ ?head) @ ?key) ?n"
    using print_step(3) [OF d1(2) _ s2] by auto
  have r: "unat ?rem = ?n - length (T @ ?head)"
    using rem_size_holds(2) [OF d1(2)] s2(2) by simp
  have nz: "?rem \<noteq> 0"
    using r s2(2) by (auto simp: unat_eq_zero)
  have "mem_write d2 (length ((T @ ?head) @ ?key)) (take (unat ?rem - 1) (render j @ [COMMA]) @ [0]) = None"
    unfolding mem_write_None using d2(2) r assms(5,6) by (auto simp: holds_def min_def)
  then have over: "convertDataToString lib d2 (length ((T @ ?head) @ ?key)) ?rem (js_type p) d = None"
    using nz p(4,6) by (simp add: convertDataToString_def c_snprintf_def)
  have "(0 :: int) < uint count"
    using assms(3) by (simp add: word_less_def)
  then have "add_members lib maxSize count 0 (a # args) d1 rem = None" for rem
    using print_step(1,2,4) [OF d1(2) _ s2] d2(1) holds_strlen [OF d2(2)] over p(1,2,5)
    by (subst add_members.simps) simp
  then show ?thesis
    using print_step(1,2,4) [OF assms(1) _ s1] d1(1) by (simp add: add_section_def)
qed

section \<open>Samples\<close>

definition no_float :: clib where
  "no_float = \<lparr>scanf_f = (\<lambda>s. None), scanf_lf = (\<lambda>s. None), printf_float = (\<lambda>x. cs ''0.000000''), printf_double = (\<lambda>x. cs ''0.000000'')\<rparr>"

definition temperature :: jsonStruct_t where
  "temperature = \<lparr>js_pKey = Some (cs ''t'' @ [0]), js_pData = Some (DInt SHADOW_JSON_INT32 (-5)), js_type = SHADOW_JSON_INT32, js_cb = None\<rparr>"

definition window_open :: jsonStruct_t where
  "window_open = \<lparr>js_pKey = Some (cs ''w'' @ [0]), js_pData = Some (DBool True), js_type = SHADOW_JSON_BOOL, js_cb = None\<rparr>"

definition sample_globals :: json_globals where
  "sample_globals = \<lparr>mqttClientID = cs ''c'' @ [0], clientTokenNum = 7, shadowJsonParser = \<lparr>pos = 0, toknext = 0, toksuper = -1\<rparr>,
     jsonTokenStruct = replicate 120 no_token_yet\<rparr>"

lemma sample_args:
  "arg_is no_float (Some temperature) (cs ''t'', JPrim (cs ''-5''))" "arg_is no_float (Some window_open) (cs ''w'', JPrim (cs ''true''))"
  by (simp_all add: arg_is_def temperature_def window_open_def c_arg_def c_text_def cs_def of_char_def str_ok_def value_text_def
      dec_int_def dec.simps prim_ok_def)

lemma sample_token: "client_token sample_globals = Some (cs ''c-7'')"
  by (simp add: client_token_def sample_globals_def c_text_def cs_def of_char_def dec_int_def dec.simps)

theorem update_document_built_witness:
  "\<exists>doc. build_update no_float (replicate 100 1) 100 [Some temperature] [Some window_open] sample_globals =
    Some ([SUCCESS, SUCCESS, SUCCESS, SUCCESS], Some doc, sample_globals\<lparr>clientTokenNum := 8\<rparr>) \<and>
    c_text doc = Some (cs ''{\"state\":{\"desired\":{\"t\":-5},\"reported\":{\"w\":true}}, \"clientToken\":\"c-7\"}'')"
proof -
  let ?j = "shadow_json [(cs ''desired'', JObj (obj [(cs ''t'', JPrim (cs ''-5''))])), (cs ''reported'', JObj (obj [(cs ''w'', JPrim (cs ''true''))]))] (cs ''c-7'')"
  have r: "render ?j = cs ''{\"state\":{\"desired\":{\"t\":-5},\"reported\":{\"w\":true}}, \"clientToken\":\"c-7\"}''"
    by (simp add: shadow_json_def cs_def of_char_def)
  have l: "length (render ?j) < unat (100 :: size_t)"
    unfolding r by (simp add: cs_def)
  have n: "clientTokenNum sample_globals + 1 = 8"
    by (simp add: sample_globals_def)
  show ?thesis
    using update_document_built [OF _ _ _ _ _ _ sample_token _ refl l, of no_float "[Some temperature]" "[Some window_open]" "replicate 100 1"]
      sample_args r n
    by auto
qed

theorem member_overruns_document_witness:
  "add_section no_float (cs ''desired'') (Some (cs ''{\"state\":{'' @ [0] @ replicate 16 1)) 27 1 [Some temperature] = None"
  using member_overruns_document [of "cs ''{\"state\":{'' @ [0] @ replicate 16 1" "cs ''{\"state\":{''" 27 no_float "Some temperature" "cs ''t''" "JPrim (cs ''-5'')" 1 "cs ''desired''" "[]"]
    sample_args(1)
  by (simp add: holds_def cs_def of_char_def str_ok_def)

section \<open>Get and delete requests\<close>

lemma length_dec: "n < 10 ^ k \<Longrightarrow> 0 < k \<Longrightarrow> length (dec n) \<le> k"
proof (induction n arbitrary: k rule: dec.induct)
  case (1 n)
  show ?case
  proof (cases "n < 10")
    case True
    then show ?thesis
      using 1(3) by (simp add: dec.simps)
  next
    case False
    obtain k' where k: "k = Suc k'"
      using 1(3) by (cases k) auto
    then have "n div 10 < 10 ^ k'"
      using 1(2) by (simp add: less_mult_imp_div_less)
    moreover have "0 < k'"
      using 1(2) k False by (cases k') auto
    ultimately show ?thesis
      using 1(1) [OF False, of k'] k False by (simp add: dec.simps [of n])
  qed
qed

lemma length_counter: "length (dec_int (sint (n :: u32))) \<le> 11"
proof -
  have "- (2 ^ 31) \<le> sint n" "sint n < 2 ^ 31"
    using sint_greater_eq [of n] sint_less [of n] by simp_all
  then have "nat (- sint n) < 10 ^ 10" "nat (sint n) < 10 ^ 11"
    by (simp_all add: nat_less_iff)
  then show ?thesis
    using length_dec [of "nat (- sint n)" 10] length_dec [of "nat (sint n)" 11] by (simp add: dec_int_def)
qed

lemma sprintf_append:
  assumes "holds doc T n" and "0 \<notin> set s" and "length T + length s < n"
  shows "\<exists>doc'. c_sprintf doc (length T) s = Some doc' \<and> holds doc' (T @ s) n"
  using assms holds_write [of doc n T s] by (auto simp: c_sprintf_def holds_def)

lemma empty_json_text:
  assumes "client_token g = Some tok" and "length doc = n" and "length tok + 18 < n"
  shows "\<exists>doc'. emptyJsonWithClientToken doc g = Some (doc', g\<lparr>clientTokenNum := clientTokenNum g + 1\<rparr>) \<and>
    holds doc' (cs ''{\"clientToken\":\"'' @ tok @ [QUOTE, RBRACE]) n"
proof -
  let ?h = "cs ''{\"clientToken\":\"''"
  have h: "0 \<notin> set ?h" "length ?h = 16"
    by (simp_all add: cs_def of_char_def)
  obtain d1 where d1: "c_sprintf doc 0 ?h = Some d1" "holds d1 ?h n"
    using holds_write [of doc n "[]" ?h] h assms(2,3) by (auto simp: c_sprintf_def)
  obtain d2 where d2: "c_sprintf d1 (length ?h) tok = Some d2" "holds d2 (?h @ tok) n"
    using sprintf_append [OF d1(2) client_token_no_NUL [OF assms(1)]] h assms(3) by auto
  obtain d3 where d3: "c_sprintf d2 (length (?h @ tok)) [QUOTE, RBRACE] = Some d3" "holds d3 ((?h @ tok) @ [QUOTE, RBRACE]) n"
    using sprintf_append [OF d2(2), of "[QUOTE, RBRACE]"] h assms(3) by auto
  show ?thesis
    using d1(1) holds_strlen [OF d1(2)] d2(1) holds_strlen [OF d2(2)] d3 assms(1)
    by (simp add: emptyJsonWithClientToken_def FillWithClientToken_def)
qed

lemma client_token_length:
  assumes "length (mqttClientID g) = MAX_SIZE_OF_UNIQUE_CLIENT_ID_BYTES" and "client_token g = Some tok"
  shows "length tok \<le> 91"
proof -
  obtain i where i: "c_text (mqttClientID g) = Some i" "tok = i @ cs ''-'' @ dec_int (sint (clientTokenNum g))"
    using assms(2) by (auto simp: client_token_def split: bind_splits)
  then have "0 \<in> set (mqttClientID g)" "i = takeWhile (\<lambda>c. c \<noteq> 0) (mqttClientID g)"
    by (auto simp: c_text_def split: if_splits)
  then have "length i < length (mqttClientID g)"
    by (metis (mono_tags, lifting) length_takeWhile_le nat_less_le set_takeWhileD takeWhile_eq_all_conv takeWhile_eq_take take_all_iff order_refl)
  then show ?thesis
    using i(2) length_counter [of "clientTokenNum g"] assms(1) by (simp add: cs_def shadow_config)
qed

lemma request_document:
  assumes "length (mqttClientID g) = MAX_SIZE_OF_UNIQUE_CLIENT_ID_BYTES" and "client_token g = Some tok"
    and "length doc = MAX_SIZE_CLIENT_TOKEN_CLIENT_SEQUENCE"
  shows "\<exists>doc'. aws_iot_shadow_internal_get_request_json doc g = Some (doc', g\<lparr>clientTokenNum := clientTokenNum g + 1\<rparr>) \<and>
    aws_iot_shadow_internal_delete_request_json doc g = Some (doc', g\<lparr>clientTokenNum := clientTokenNum g + 1\<rparr>) \<and>
    holds doc' (render (JObj (MCons [] (cs ''clientToken'') [] (JStr tok) MNil))) (length doc)"
proof -
  have n: "length tok + 18 < length doc"
    using client_token_length [OF assms(1,2)] assms(3) by (simp add: shadow_config)
  have "cs ''{\"clientToken\":\"'' @ tok @ [QUOTE, RBRACE] = render (JObj (MCons [] (cs ''clientToken'') [] (JStr tok) MNil))"
    by (simp add: cs_def of_char_def)
  then show ?thesis
    using empty_json_text [OF assms(2) refl n]
    by (simp add: aws_iot_shadow_internal_get_request_json_def aws_iot_shadow_internal_delete_request_json_def)
qed

text \<open>
  The documents of get and delete requests fit.  With a NUL-terminated client identifier in its
  80 bytes, whatever the counter is, the request document fits into the 110 bytes that
  \<open>aws_iot_shadow_get\<close> and \<open>aws_iot_shadow_delete\<close> reserve for it, and is the object whose only
  member is the client token.
\<close>

theorem request_document_fits:
  assumes "length (mqttClientID g) = MAX_SIZE_OF_UNIQUE_CLIENT_ID_BYTES" and "client_token g = Some tok"
    and "length doc = MAX_SIZE_CLIENT_TOKEN_CLIENT_SEQUENCE"
  shows "\<exists>doc'. aws_iot_shadow_internal_get_request_json doc g = Some (doc', g\<lparr>clientTokenNum := clientTokenNum g + 1\<rparr>) \<and>
    aws_iot_shadow_internal_delete_request_json doc g = Some (doc', g\<lparr>clientTokenNum := clientTokenNum g + 1\<rparr>) \<and>
    length doc' = length doc \<and> c_text doc' = Some (render (JObj (MCons [] (cs ''clientToken'') [] (JStr tok) MNil)))"
  using request_document [OF assms] holds_text by (fastforce simp: holds_def)

theorem request_document_fits_witness:
  "\<exists>doc'. aws_iot_shadow_internal_get_request_json (replicate 110 1) (sample_globals\<lparr>mqttClientID := cs ''c'' @ replicate 79 0\<rparr>) =
      Some (doc', sample_globals\<lparr>mqttClientID := cs ''c'' @ replicate 79 0, clientTokenNum := 8\<rparr>) \<and>
    c_text doc' = Some (cs ''{\"clientToken\":\"c-7\"}'')"
proof -
  let ?g = "sample_globals\<lparr>mqttClientID := cs ''c'' @ replicate 79 0\<rparr>"
  have "client_token ?g = Some (cs ''c-7'')"
    by (simp add: client_token_def sample_globals_def c_text_def cs_def of_char_def dec_int_def dec.simps)
  then show ?thesis
    using request_document_fits [of ?g "cs ''c-7''" "replicate 110 1"]
    by (auto simp: shadow_config cs_def of_char_def sample_globals_def)
qed
end
