(* ===== verification/Shadow_Doc.thy ===== *)
theory Shadow_Doc
  imports Shadow_Json
begin

text \<open>
  What the shadow code reads from a JSON document.  The search of \<open>isJsonKeyMatchingAndUpdateValue\<close>
  and \<open>extractClientToken\<close> runs over the flat array of tokens; \<open>lookup\<close> is what it is meant to
  find: the value of the first member, in the order of the text and at any depth, with the given
  key.  The two agree on documents in which the key does not occur as a string value.
\<close>

section \<open>Looking up a key in a tree\<close>

primrec lookup :: "u8 list \<Rightarrow> json \<Rightarrow> json option" and lookup_members :: "u8 list \<Rightarrow> members \<Rightarrow> json option"
  and lookup_elems :: "u8 list \<Rightarrow> elems \<Rightarrow> json option" where
  "lookup k (JObj ms) = lookup_members k ms"
| "lookup k (JArr es) = lookup_elems k es"
| "lookup k (JStr s) = None"
| "lookup k (JPrim s) = None"
| "lookup_members k MNil = None"
| "lookup_members k (MCons w k' w' v ms) =
     (if k' = k then Some v else case lookup k v of None \<Rightarrow> lookup_members k ms | Some x \<Rightarrow> Some x)"
| "lookup_elems k ENil = None"
| "lookup_elems k (ECons w v es) = (case lookup k v of None \<Rightarrow> lookup_elems k es | Some x \<Rightarrow> Some x)"

text \<open>\<open>k\<close> is not among the string values.\<close>

primrec no_value :: "u8 list \<Rightarrow> json \<Rightarrow> bool" and no_value_members :: "u8 list \<Rightarrow> members \<Rightarrow> bool"
  and no_value_elems :: "u8 list \<Rightarrow> elems \<Rightarrow> bool" where
  "no_value k (JObj ms) = no_value_members k ms"
| "no_value k (JArr es) = no_value_elems k es"
| "no_value k (JStr s) = (s \<noteq> k)"
| "no_value k (JPrim s) = True"
| "no_value_members k MNil = True"
| "no_value_members k (MCons w k' w' v ms) = (no_value k v \<and> no_value_members k ms)"
| "no_value_elems k ENil = True"
| "no_value_elems k (ECons w v es) = (no_value k v \<and> no_value_elems k es)"

lemma wf_no_NUL:
  "wf_json j \<Longrightarrow> 0 \<notin> set (render j)"
  "wf_members ms \<Longrightarrow> 0 \<notin> set (render_members ms)"
  "wf_elems es \<Longrightarrow> 0 \<notin> set (render_elems es)"
proof (induction j and ms and es)
  case (JPrim s)
  then have "\<forall>c \<in> set s. 32 < c"
    by (simp add: prim_ok_def)
  then show ?case
    by auto
next
  case (MCons w k w' v ms)
  then have "0 \<notin> set w" "0 \<notin> set k" "0 \<notin> set w'"
    by (auto simp: ws_ok_def str_ok_def)
  then show ?case
    using MCons by simp
next
  case (ECons w v es)
  then have "0 \<notin> set w"
    by (auto simp: ws_ok_def)
  then show ?case
    using ECons by simp
qed (simp_all add: str_ok_def)

lemma lookup_wf:
  "wf_json j \<Longrightarrow> lookup k j = Some v \<Longrightarrow> wf_json v"
  "wf_members ms \<Longrightarrow> lookup_members k ms = Some v \<Longrightarrow> wf_json v"
  "wf_elems es \<Longrightarrow> lookup_elems k es = Some v \<Longrightarrow> wf_json v"
  by (induction j and ms and es) (auto split: if_splits option.splits)

section \<open>The search of the tokens\<close>

lemma strneq_eq:
  assumes "0 \<notin> set s" and "length s = length k"
  shows "c_strneq (s @ r) (k @ [0]) (length k) = Some (s = k)"
  using assms(2,1) by (induction s k rule: list_induct2) auto

lemma jsoneq_string:
  assumes "drop p doc = s @ r" and "p \<le> length doc" and "0 \<notin> set s" and "0 \<notin> set k"
  shows "jsoneq doc (token JSMN_STRING p (p + length s) n) (k @ [0]) = Some (if s = k then 0 else -1)"
  using assms strneq_eq [OF assms(3), of k r] by (auto simp: jsoneq_def at_token_def)

lemma jsoneq_other: "ty \<noteq> JSMN_STRING \<Longrightarrow> jsoneq doc (token ty a b n) k = Some (-1)"
  by (simp add: jsoneq_def)

text \<open>What a search of \<open>ts\<close> for \<open>k\<close> finds: nothing, or a key that is followed by the tokens of its value.\<close>

definition found :: "mem \<Rightarrow> u8 list \<Rightarrow> toks \<Rightarrow> json option \<Rightarrow> bool" where
  "found doc k ts r \<longleftrightarrow>
     (case r of
        None \<Rightarrow> \<forall>t \<in> set ts. jsoneq doc t (k @ [0]) = Some (-1)
      | Some v \<Rightarrow> \<exists>pre t q post rest c. ts = pre @ t # toks_of v q @ post \<and>
          (\<forall>t \<in> set pre. jsoneq doc t (k @ [0]) = Some (-1)) \<and> jsoneq doc t (k @ [0]) = Some 0 \<and>
          drop q doc = render v @ c # rest \<and> c \<in> {COMMA, RBRACE, RBRACKET})"

lemma found_Nil: "found doc k [] None"
  by (simp add: found_def)

lemma found_append:
  assumes "found doc k ts r" and "found doc k ts' r'"
  shows "found doc k (ts @ ts') (case r of None \<Rightarrow> r' | Some v \<Rightarrow> Some v)"
proof (cases r)
  case None
  then have n: "\<forall>t \<in> set ts. jsoneq doc t (k @ [0]) = Some (-1)"
    using assms(1) by (simp add: found_def)
  show ?thesis
  proof (cases r')
    case None
    then show ?thesis
      using n assms(2) \<open>r = None\<close> by (auto simp: found_def)
  next
    case (Some v)
    then obtain pre t q post rest c where "ts' = pre @ t # toks_of v q @ post"
      "\<forall>t \<in> set pre. jsoneq doc t (k @ [0]) = Some (-1)" "jsoneq doc t (k @ [0]) = Some 0"
      "drop q doc = render v @ c # rest" "c \<in> {COMMA, RBRACE, RBRACKET}"
      using assms(2) by (auto simp: found_def)
    then have "found doc k (ts @ ts') (Some v)"
      unfolding found_def option.case
      by (intro exI [of _ "ts @ pre"] exI [of _ t] exI [of _ q] exI [of _ post] exI [of _ rest] exI [of _ c]) (use n in auto)
    then show ?thesis
      using \<open>r = None\<close> Some by simp
  qed
next
  case (Some v)
  then obtain pre t q post rest c where "ts = pre @ t # toks_of v q @ post"
    "\<forall>t \<in> set pre. jsoneq doc t (k @ [0]) = Some (-1)" "jsoneq doc t (k @ [0]) = Some 0"
    "drop q doc = render v @ c # rest" "c \<in> {COMMA, RBRACE, RBRACKET}"
    using assms(1) by (auto simp: found_def)
  then have "found doc k (ts @ ts') (Some v)"
    unfolding found_def option.case
    by (intro exI [of _ pre] exI [of _ t] exI [of _ q] exI [of _ "post @ ts'"] exI [of _ rest] exI [of _ c]) simp
  then show ?thesis
    using Some by simp
qed

lemma found_skip: "jsoneq doc t (k @ [0]) = Some (-1) \<Longrightarrow> found doc k ts r \<Longrightarrow> found doc k (t # ts) r"
  using found_append [of doc k "[t]" None ts r] by (simp add: found_def)

lemma found_key:
  assumes "jsoneq doc t (k @ [0]) = Some 0" and "drop q doc = render v @ c # rest" and "c \<in> {COMMA, RBRACE, RBRACKET}"
  shows "found doc k (t # toks_of v q @ post) (Some v)"
  unfolding found_def option.case
  by (intro exI [of _ "[]"] exI [of _ t] exI [of _ q] exI [of _ post] exI [of _ rest] exI [of _ c]) (use assms in simp)

lemma text_after: "drop p doc = s @ r \<Longrightarrow> drop (p + length s) doc = r"
  by (metis add.commute append_eq_conv_conj drop_drop)

lemma text_bound: "drop p doc = s @ c # r \<Longrightarrow> p + length s < length doc"
  by (metis append_is_Nil_conv drop_all linorder_not_less list.distinct(1) text_after)

lemma found_object:
  assumes "ty \<noteq> JSMN_STRING" and "drop p doc = a # s @ r" and "\<And>p. drop p doc = s @ r \<Longrightarrow> found doc k (f p) x"
  shows "found doc k (token ty p b n # f (p + 1)) x"
  using found_skip [OF jsoneq_other [OF assms(1)] assms(3)] text_after [of p doc "[a]"] assms(2) by simp

text \<open>One member in front of others; \<open>tail\<close> is the text behind its value.\<close>

lemma found_member:
  assumes "0 \<notin> set k" and "0 \<notin> set k'" and "drop p doc = w @ QUOTE # k' @ QUOTE # COLON # w' @ render v @ tail"
    and "\<exists>c r. tail = c # r \<and> c \<in> {COMMA, RBRACE, RBRACKET}" and "q = p + length w + length k' + 3 + length w'"
    and "drop q doc = render v @ tail \<Longrightarrow> found doc k (toks_of v q) r1"
    and "drop (q + length (render v)) doc = tail \<Longrightarrow> found doc k ts r2"
  shows "found doc k (token JSMN_STRING (p + length w + 1) (p + length w + 1 + length k') 1 # toks_of v q @ ts)
    (if k' = k then Some v else case r1 of None \<Rightarrow> r2 | Some x \<Rightarrow> Some x)"
proof -
  let ?t = "token JSMN_STRING (p + length w + 1) (p + length w + 1 + length k') 1"
  have d1: "drop (p + length w + 1) doc = k' @ QUOTE # COLON # w' @ render v @ tail"
    using text_after [of p doc "w @ [QUOTE]"] assms(3) by simp
  have "q = p + length w + 1 + length (k' @ QUOTE # COLON # w')"
    using assms(5) by simp
  then have dq: "drop q doc = render v @ tail"
    using text_after [of "p + length w + 1" doc "k' @ QUOTE # COLON # w'" "render v @ tail"] d1 by simp
  have t: "jsoneq doc ?t (k @ [0]) = Some (if k' = k then 0 else -1)"
    using jsoneq_string [OF d1 _ assms(2,1), of 1] text_bound [OF d1] by simp
  show ?thesis
  proof (cases "k' = k")
    case True
    then show ?thesis
      using t dq assms(4) found_key [of doc ?t k q v] by auto
  next
    case False
    then show ?thesis
      using found_skip [OF _ found_append [OF assms(6) [OF dq] assms(7)], of ?t] text_after [OF dq] t by simp
  qed
qed

lemma lookup_tokens:
  assumes "0 \<notin> set k"
  shows "wf_json j \<Longrightarrow> no_value k j \<Longrightarrow> drop p doc = render j @ r \<Longrightarrow> found doc k (toks_of j p) (lookup k j)"
    and "wf_members ms \<Longrightarrow> no_value_members k ms \<Longrightarrow> drop p doc = render_members ms @ RBRACE # r \<Longrightarrow>
      found doc k (toks_members ms p) (lookup_members k ms)"
    and "wf_elems es \<Longrightarrow> no_value_elems k es \<Longrightarrow> drop p doc = render_elems es @ RBRACKET # r \<Longrightarrow>
      found doc k (toks_elems es p) (lookup_elems k es)"
proof (induction j and ms and es arbitrary: p r and p r and p r)
  case (JObj ms)
  have "found doc k (toks_members ms p) (lookup_members k ms)" if "drop p doc = render_members ms @ RBRACE # r" for p
    using JObj.IH [OF _ _ that] JObj.prems by simp
  then show ?case
    using found_object [where ty = JSMN_OBJECT and p = p and a = LBRACE and s = "render_members ms" and r = "RBRACE # r" and
        f = "toks_members ms" and b = "p + length (render_members ms) + 2" and n = "members_count ms"] JObj.prems(3) by simp
next
  case (JArr es)
  have "found doc k (toks_elems es p) (lookup_elems k es)" if "drop p doc = render_elems es @ RBRACKET # r" for p
    using JArr.IH [OF _ _ that] JArr.prems by simp
  then show ?case
    using found_object [where ty = JSMN_ARRAY and p = p and a = LBRACKET and s = "render_elems es" and r = "RBRACKET # r" and
        f = "toks_elems es" and b = "p + length (render_elems es) + 2" and n = "elems_count es"] JArr.prems(3) by simp
next
  case (JStr s)
  then have d: "drop (p + 1) doc = s @ QUOTE # r"
    using text_after [of p doc "[QUOTE]"] by simp
  then have "jsoneq doc (token JSMN_STRING (p + 1) (p + 1 + length s) 0) (k @ [0]) = Some (-1)"
    using jsoneq_string [OF d _ _ assms, of 0] text_bound [OF d] JStr.prems str_ok_no_NUL by simp
  then show ?case
    by (simp add: found_def)
next
  case (MCons w k' w' v ms)
  let ?q = "p + length w + length k' + 3 + length w'"
  let ?tail = "if ms = MNil then RBRACE # r else COMMA # render_members ms @ RBRACE # r"
  have ok: "wf_json v" "wf_members ms" "no_value k v" "no_value_members k ms" "0 \<notin> set k'"
    using MCons.prems str_ok_no_NUL by simp_all
  have d: "drop p doc = w @ QUOTE # k' @ QUOTE # COLON # w' @ render v @ ?tail"
    using MCons.prems(3) by simp
  have "found doc k (toks_members ms (?q + length (render v) + 1)) (lookup_members k ms)"
    if "drop (?q + length (render v)) doc = ?tail"
    using that MCons.IH(2) [OF ok(2,4), of "?q + length (render v) + 1" r] text_after [of "?q + length (render v)" doc "[COMMA]"]
    by (cases "ms = MNil") (simp_all add: found_Nil)
  from found_member [OF assms ok(5) d _ refl MCons.IH(1) [OF ok(1,3)] this] show ?case
    by (simp add: ac_simps)
next
  case (ECons w v es)
  let ?q = "p + length w"
  let ?tail = "if es = ENil then RBRACKET # r else COMMA # render_elems es @ RBRACKET # r"
  have dq: "drop ?q doc = render v @ ?tail"
    using text_after [of p doc w] ECons.prems(3) by simp
  have "found doc k (toks_elems es (?q + length (render v) + 1)) (lookup_elems k es)"
    using text_after [OF dq] ECons.IH(2) [of "?q + length (render v) + 1" r] text_after [of "?q + length (render v)" doc "[COMMA]"] ECons.prems
    by (cases "es = ENil") (simp_all add: found_Nil)
  from found_append [OF ECons.IH(1) [OF _ _ dq] this] show ?case
    using ECons.prems by simp
qed (simp_all add: found_def jsoneq_def)

section \<open>Reading documents\<close>

text \<open>A buffer that holds the text of a JSON object with at most 120 tokens.\<close>

definition document :: "json \<Rightarrow> mem \<Rightarrow> 'a json_globals_scheme \<Rightarrow> bool" where
  "document j doc g \<longleftrightarrow> wf_json j \<and> (\<exists>ms. j = JObj ms) \<and> (\<exists>r. doc = render j @ 0 # r) \<and>
     length (toks_of j 0) \<le> MAX_JSON_TOKEN_EXPECTED \<and> length (jsonTokenStruct g) = MAX_JSON_TOKEN_EXPECTED"

text \<open>The tokens of the document, in front of what was in the array before.\<close>

definition parsed_as :: "json \<Rightarrow> 'a json_globals_scheme \<Rightarrow> bool" where
  "parsed_as j g \<longleftrightarrow> (\<exists>rest. jsonTokenStruct g = toks_of j 0 @ rest)"

lemma parse_document_tokens:
  assumes "document j doc g"
  shows "\<exists>p ts. parse_document doc g = Some (int (length (toks_of j 0)), g\<lparr>shadowJsonParser := p, jsonTokenStruct := ts\<rparr>) \<and>
    parsed_as j (g\<lparr>shadowJsonParser := p, jsonTokenStruct := ts\<rparr>) \<and> length ts = MAX_JSON_TOKEN_EXPECTED"
proof -
  let ?tk = "toks_of j 0"
  obtain r where r: "wf_json j" "doc = render j @ 0 # r" "length ?tk \<le> MAX_JSON_TOKEN_EXPECTED"
    "length (jsonTokenStruct g) = MAX_JSON_TOKEN_EXPECTED"
    using assms by (auto simp: document_def)
  obtain p where "jsmn_parse (jsmn_init (shadowJsonParser g)) doc (length (render j)) (Some (jsonTokenStruct g)) MAX_JSON_TOKEN_EXPECTED =
      Some (int (length ?tk), p, Some (?tk @ drop (length ?tk) (jsonTokenStruct g)))"
    using jsmn_tokens [of j "[]" "[]" "render j" MAX_JSON_TOKEN_EXPECTED "jsonTokenStruct g" "shadowJsonParser g" "0 # r"] r
    by (auto simp: ws_ok_def)
  then show ?thesis
    using wf_no_NUL(1) [OF r(1)] r(2-4)
    by (intro exI [of _ p] exI [of _ "?tk @ drop (length ?tk) (jsonTokenStruct g)"]) (simp add: parse_document_def parsed_as_def)
qed

lemma document_object: "document j doc g \<Longrightarrow> parsed_as j g' \<Longrightarrow>
  0 < length (toks_of j 0) \<and> (\<exists>t. arr_get (jsonTokenStruct g') 0 = Some t \<and> tok_type t = JSMN_OBJECT)"
  by (auto simp: document_def parsed_as_def arr_get_def)

lemma isJsonValidAndParse_document:
  assumes "document j doc g"
  shows "\<exists>g'. isJsonValidAndParse doc g = Some (Some (int (length (toks_of j 0))), g') \<and> parsed_as j g' \<and>
    length (jsonTokenStruct g') = MAX_JSON_TOKEN_EXPECTED"
proof -
  obtain p ts where "parse_document doc g = Some (int (length (toks_of j 0)), g\<lparr>shadowJsonParser := p, jsonTokenStruct := ts\<rparr>)"
    "parsed_as j (g\<lparr>shadowJsonParser := p, jsonTokenStruct := ts\<rparr>)" "length ts = MAX_JSON_TOKEN_EXPECTED"
    using parse_document_tokens [OF assms] by blast
  then show ?thesis
    using document_object [OF assms, of "g\<lparr>shadowJsonParser := p, jsonTokenStruct := ts\<rparr>"]
    by (auto simp: isJsonValidAndParse_def simp del: arr_get_Some)
qed

lemma key_loop_skip:
  assumes "\<forall>t \<in> set pre. jsoneq doc t k = Some (-1)" and "int (length us + length pre) \<le> n"
  shows "key_loop doc (us @ pre @ post) (Some k) n (length us) = key_loop doc (us @ pre @ post) (Some k) n (length us + length pre)"
  using assms
proof (induction pre arbitrary: us)
  case (Cons t pre)
  then have "key_loop doc (us @ (t # pre) @ post) (Some k) n (length us) = key_loop doc ((us @ [t]) @ pre @ post) (Some k) n (length (us @ [t]))"
    by (subst key_loop.simps) (simp add: arr_get_def nth_append)
  then show ?case
    using Cons.IH [of "us @ [t]"] Cons.prems by simp
qed simp

lemma key_loop_hit:
  assumes "\<forall>t \<in> set pre. jsoneq doc t k = Some (-1)" and "jsoneq doc t k = Some 0" and "int (length us + length pre) < n"
  shows "key_loop doc (us @ pre @ t # post) (Some k) n (length us) = Some (Some (length us + length pre))"
  unfolding key_loop_skip [OF assms(1) less_imp_le [OF assms(3)]]
  by (subst key_loop.simps) (use assms(2,3) in \<open>simp add: arr_get_def nth_append\<close>)

lemma toks_inside:
  shows "\<forall>t \<in> set (toks_of j p). tok_end t \<le> int (p + length (render j))"
    and "\<forall>t \<in> set (toks_members ms p). tok_end t \<le> int (p + length (render_members ms))"
    and "\<forall>t \<in> set (toks_elems es p). tok_end t \<le> int (p + length (render_elems es))"
  by (induction j and ms and es arbitrary: p and p and p) fastforce+

lemma key_search:
  assumes "document j doc g" and "parsed_as j g'" and "no_value k j" and "0 \<notin> set k" and "n = int (length (toks_of j 0))"
  shows "lookup k j = None \<Longrightarrow> key_loop doc (jsonTokenStruct g') (Some (k @ [0])) n 1 = Some None"
    and "lookup k j = Some v \<Longrightarrow> \<exists>i q post c rest. key_loop doc (jsonTokenStruct g') (Some (k @ [0])) n 1 = Some (Some i) \<and>
      drop (i + 1) (jsonTokenStruct g') = toks_of v q @ post \<and> set (toks_of v q) \<subseteq> set (toks_of j 0) \<and>
      drop q doc = render v @ c # rest \<and> c \<in> {COMMA, RBRACE, RBRACKET}"
proof -
  obtain r t0 tk rest where d: "wf_json j" "doc = render j @ 0 # r" and tk: "toks_of j 0 = t0 # tk" "tok_type t0 = JSMN_OBJECT"
    and ts: "jsonTokenStruct g' = t0 # tk @ rest"
    using assms(1,2) by (auto simp: document_def parsed_as_def)
  have f: "found doc k (t0 # tk) (lookup k j)"
    using lookup_tokens(1) [OF assms(4) d(1) assms(3), of 0 doc "0 # r"] d(2) tk(1) by simp
  have n: "n = int (Suc (length tk))"
    using assms(5) tk(1) by simp
  show "key_loop doc (jsonTokenStruct g') (Some (k @ [0])) n 1 = Some None" if "lookup k j = None"
    using key_loop_skip [of tk doc "k @ [0]" "[t0]" n rest] f n that ts
    by (simp add: found_def key_loop.simps [of _ _ _ _ "Suc (length tk)"])
  show "\<exists>i q post c rest. key_loop doc (jsonTokenStruct g') (Some (k @ [0])) n 1 = Some (Some i) \<and>
      drop (i + 1) (jsonTokenStruct g') = toks_of v q @ post \<and> set (toks_of v q) \<subseteq> set (toks_of j 0) \<and>
      drop q doc = render v @ c # rest \<and> c \<in> {COMMA, RBRACE, RBRACKET}"
    if "lookup k j = Some v"
  proof -
    from f that obtain pre t q post rest' c where p: "t0 # tk = pre @ t # toks_of v q @ post"
      "\<forall>t \<in> set pre. jsoneq doc t (k @ [0]) = Some (-1)" "jsoneq doc t (k @ [0]) = Some 0"
      and q: "drop q doc = render v @ c # rest'" "c \<in> {COMMA, RBRACE, RBRACKET}"
      by (auto simp: found_def)
    have "jsoneq doc t0 (k @ [0]) \<noteq> Some 0"
      using tk(2) by (simp add: jsoneq_def)
    then obtain pre' where pre: "pre = t0 # pre'" "tk = pre' @ t # toks_of v q @ post"
      using p(1,3) by (cases pre) auto
    have "key_loop doc ([t0] @ pre' @ t # toks_of v q @ post @ rest) (Some (k @ [0])) n (length [t0]) = Some (Some (length [t0] + length pre'))"
      by (rule key_loop_hit) (use p pre n in auto)
    then show ?thesis
      using ts tk pre q by (intro exI [of _ "Suc (length pre')"] exI [of _ q] exI [of _ "post @ rest"] exI [of _ c] exI [of _ rest']) auto
  qed
qed

lemma strncpy_plain: "0 \<notin> set s \<Longrightarrow> strncpy_bytes (s @ r) (length s) = Some s"
  by (induction s) auto

lemma at_token_pos: "p \<le> length doc \<Longrightarrow> at_token doc (token ty p b n) = Some (drop p doc)"
  by (simp add: at_token_def)

lemma token_text:
  assumes "drop q doc = render v @ c # rest" and "v = JStr s"
  shows "at_token doc (token JSMN_STRING (q + 1) (q + 1 + length s) 0) = Some (s @ QUOTE # c # rest)"
  using text_after [of q doc "[QUOTE]"] text_bound [OF assms(1)] assms at_token_pos [of "q + 1" doc JSMN_STRING "q + 1 + length s" 0] by simp

text \<open>The client token of a document: what \<open>extractClientToken\<close> is meant to find.\<close>

abbreviation client_token_of :: "json \<Rightarrow> json option" where
  "client_token_of j \<equiv> lookup (cs ''clientToken'') j"

lemma token_key: "SHADOW_CLIENT_TOKEN_STRING = cs ''clientToken'' @ [0]" "0 \<notin> set (cs ''clientToken'')"
  "SHADOW_VERSION_STRING = cs ''version'' @ [0]" "0 \<notin> set (cs ''version'')"
  by (simp_all add: SHADOW_CLIENT_TOKEN_STRING_def SHADOW_VERSION_STRING_def cs_def of_char_def)

text \<open>Parsing the document once more changes the parser and its tokens only.\<close>

definition reparsed :: "json \<Rightarrow> 'a json_globals_scheme \<Rightarrow> 'a json_globals_scheme \<Rightarrow> bool" where
  "reparsed j g g' \<longleftrightarrow> (\<exists>p ts. g' = g\<lparr>shadowJsonParser := p, jsonTokenStruct := ts\<rparr>) \<and> parsed_as j g' \<and>
     length (jsonTokenStruct g') = MAX_JSON_TOKEN_EXPECTED"

lemma extract_after_parse:
  assumes "document j doc g"
  shows "\<exists>g'. reparsed j g g' \<and> extractClientToken doc buf g = do {
      r \<leftarrow> key_loop doc (jsonTokenStruct g') (Some (cs ''clientToken'' @ [0])) (int (length (toks_of j 0))) 1;
      case r of
        None \<Rightarrow> Some (False, buf, g')
      | Some i \<Rightarrow> do {
          t \<leftarrow> arr_get (jsonTokenStruct g') (i + 1);
          let n = nat ((tok_end t - tok_start t) mod 2 ^ 8);
          src \<leftarrow> at_token doc t;
          buf \<leftarrow> c_strncpy buf src n;
          buf \<leftarrow> mem_write buf n [0];
          Some (True, buf, g') } }"
proof -
  obtain p ts where p: "parse_document doc g = Some (int (length (toks_of j 0)), g\<lparr>shadowJsonParser := p, jsonTokenStruct := ts\<rparr>)"
    "parsed_as j (g\<lparr>shadowJsonParser := p, jsonTokenStruct := ts\<rparr>)" "length ts = MAX_JSON_TOKEN_EXPECTED"
    using parse_document_tokens [OF assms] by blast
  let ?g = "g\<lparr>shadowJsonParser := p, jsonTokenStruct := ts\<rparr>"
  have "reparsed j g ?g"
    using p(2,3) by (auto simp: reparsed_def)
  moreover have "extractClientToken doc buf g = do {
      r \<leftarrow> key_loop doc (jsonTokenStruct ?g) (Some (cs ''clientToken'' @ [0])) (int (length (toks_of j 0))) 1;
      case r of
        None \<Rightarrow> Some (False, buf, ?g)
      | Some i \<Rightarrow> do {
          t \<leftarrow> arr_get (jsonTokenStruct ?g) (i + 1);
          let n = nat ((tok_end t - tok_start t) mod 2 ^ 8);
          src \<leftarrow> at_token doc t;
          buf \<leftarrow> c_strncpy buf src n;
          buf \<leftarrow> mem_write buf n [0];
          Some (True, buf, ?g) } }"
    using p document_object [OF assms p(2)]
    by (cases "key_loop doc ts (Some (cs ''clientToken'' @ [0])) (int (length (toks_of j 0))) 1")
      (auto simp: extractClientToken_def token_key simp del: arr_get_Some split: option.split)
  ultimately show ?thesis
    by blast
qed

lemma extract_token:
  assumes "document j doc g" and "no_value (cs ''clientToken'') j" and "client_token_of j = Some (JStr s)" and "length s < 256"
  shows "if length s < length buf
    then \<exists>buf' g'. extractClientToken doc buf g = Some (True, buf', g') \<and> length buf' = length buf \<and> take (length s + 1) buf' = s @ [0] \<and> reparsed j g g'
    else extractClientToken doc buf g = None"
proof -
  obtain g' where g': "reparsed j g g'"
    and e: "extractClientToken doc buf g = do {
      r \<leftarrow> key_loop doc (jsonTokenStruct g') (Some (cs ''clientToken'' @ [0])) (int (length (toks_of j 0))) 1;
      case r of
        None \<Rightarrow> Some (False, buf, g')
      | Some i \<Rightarrow> do {
          t \<leftarrow> arr_get (jsonTokenStruct g') (i + 1);
          let n = nat ((tok_end t - tok_start t) mod 2 ^ 8);
          src \<leftarrow> at_token doc t;
          buf \<leftarrow> c_strncpy buf src n;
          buf \<leftarrow> mem_write buf n [0];
          Some (True, buf, g') } }"
    using extract_after_parse [OF assms(1), of buf] by blast
  obtain i q post c rest where k: "key_loop doc (jsonTokenStruct g') (Some (cs ''clientToken'' @ [0])) (int (length (toks_of j 0))) 1 = Some (Some i)"
    "drop (i + 1) (jsonTokenStruct g') = toks_of (JStr s) q @ post" "drop q doc = render (JStr s) @ c # rest"
    using key_search(2) [OF assms(1) _ assms(2) token_key(2) refl assms(3)] g' unfolding reparsed_def by blast
  let ?t = "token JSMN_STRING (q + 1) (q + 1 + length s) 0"
  have t: "arr_get (jsonTokenStruct g') (i + 1) = Some ?t"
    using k(2) by (metis arr_get_def drop_eq_Nil hd_append2 hd_drop_conv_nth leI list.discI list.sel(1) toks_of.simps(3) append_is_Nil_conv)
  have s: "0 \<notin> set s"
    using lookup_wf(1) [OF _ assms(3)] assms(1) str_ok_no_NUL by (auto simp: document_def)
  have n: "nat ((tok_end ?t - tok_start ?t) mod 2 ^ 8) = length s"
    using assms(4) by simp
  have b: "strncpy_bytes (s @ QUOTE # c # rest) (length s) = Some s"
    by (rule strncpy_plain [OF s])
  have "extractClientToken doc buf g = do {
      buf \<leftarrow> mem_write buf 0 s;
      buf \<leftarrow> mem_write buf (length s) [0];
      Some (True, buf, g') }"
    unfolding e k(1) using t n token_text [OF k(3) refl] b by (simp add: c_strncpy_def del: arr_get_Some)
  then show ?thesis
    using g' by (auto simp: mem_write_def)
qed

lemma no_token_extracted:
  assumes "document j doc g" and "no_value (cs ''clientToken'') j" and "client_token_of j = None"
  shows "\<exists>g'. extractClientToken doc buf g = Some (False, buf, g')"
  using extract_after_parse [OF assms(1), of buf] key_search(1) [OF assms(1) _ assms(2) token_key(2) refl assms(3)]
  by (fastforce simp: reparsed_def)

text \<open>
  Extracting the client token.  On a document whose client token is a string of at most 255
  characters, and in which \<open>clientToken\<close> is not also a string value, \<open>extractClientToken\<close> finds the
  token and stores it with its NUL exactly when the buffer has room for it; with less room it writes
  past the end of the buffer, for it does not know its size.  On a document without a client token
  it returns false and leaves the buffer alone.
\<close>

theorem client_token_extracted:
  assumes "document j doc g" and "no_value (cs ''clientToken'') j"
  shows "case client_token_of j of
      None \<Rightarrow> \<exists>g'. extractClientToken doc buf g = Some (False, buf, g')
    | Some (JStr s) \<Rightarrow> length s < 256 \<longrightarrow>
        (if length s < length buf
         then \<exists>buf' g'. extractClientToken doc buf g = Some (True, buf', g') \<and> length buf' = length buf \<and> take (length s + 1) buf' = s @ [0]
         else extractClientToken doc buf g = None)
    | _ \<Rightarrow> True"
proof (cases "client_token_of j")
  case None
  then show ?thesis
    using no_token_extracted [OF assms, of buf] by simp
next
  case (Some v)
  then show ?thesis
    using extract_token [OF assms, of _ buf] by (cases v) (auto split: if_splits)
qed

text \<open>The range of an integer type, and the parser for it.\<close>

fun int_range :: "JsonPrimitiveType \<Rightarrow> int \<Rightarrow> bool" where
  "int_range SHADOW_JSON_INT32 x = (- (2 ^ 31) \<le> x \<and> x < 2 ^ 31)"
| "int_range SHADOW_JSON_INT16 x = (- (2 ^ 15) \<le> x \<and> x < 2 ^ 15)"
| "int_range SHADOW_JSON_INT8 x = (- (2 ^ 7) \<le> x \<and> x < 2 ^ 7)"
| "int_range SHADOW_JSON_UINT32 x = (0 \<le> x \<and> x < 2 ^ 32)"
| "int_range SHADOW_JSON_UINT16 x = (0 \<le> x \<and> x < 2 ^ 16)"
| "int_range SHADOW_JSON_UINT8 x = (0 \<le> x \<and> x < 2 ^ 8)"
| "int_range _ x = False"

lemma update_integer:
  assumes "int_range (js_type p) x" and "js_pData p = Some (DInt (js_type p) u)" and "ends_number r" and "0 \<notin> set r"
    and "tok_type tok = JSMN_PRIMITIVE" and "at_token js tok = Some (dec_int x @ r @ 0 # post)"
  shows "UpdateValueIfNoObject lib js p tok = Some (SUCCESS, p\<lparr>js_pData := Some (DInt (js_type p) x)\<rparr>)"
proof -
  have s: "parse_signed b js tok = Some (SUCCESS, Some x)" if "- (2 ^ (b - 1)) \<le> x" "x < 2 ^ (b - 1)" for b
    by (rule parse_signed_dec [OF assms(3-6) that])
  have u: "parse_unsigned b js tok = Some (SUCCESS, Some x)" if "0 \<le> x" "x < 2 ^ b" for b
  proof -
    have "nat x < 2 ^ b"
      using that by (simp add: nat_less_iff)
    then show ?thesis
      using parse_unsigned_dec [OF assms(3-5), of js "nat x" post b] assms(6) that by (simp add: dec_int_def)
  qed
  note p = parseInteger32Value_def parseInteger16Value_def parseInteger8Value_def
    parseUnsignedInteger32Value_def parseUnsignedInteger16Value_def parseUnsignedInteger8Value_def
  show ?thesis
    using assms(1,2) s [of 32] s [of 16] s [of 8] u [of 32] u [of 16] u [of 8]
    by (cases "js_type p") (simp_all add: UpdateValueIfNoObject_def store_int_def p)
qed

lemma ends_value:
  assumes "c \<in> {COMMA, RBRACE, RBRACKET}"
  shows "ends_number (c # r)"
  using assms by (auto simp: ends_number_def digit_val_def)

text \<open>Where the value of a key stands, for a value that is not a string.\<close>

lemma primitive_found:
  assumes "document j doc g" and "parsed_as j g'" and "no_value k j" and "0 \<notin> set k" and "lookup k j = Some (JPrim s)"
  shows "\<exists>i q c r post. key_loop doc (jsonTokenStruct g') (Some (k @ [0])) (int (length (toks_of j 0))) 1 = Some (Some i) \<and>
    arr_get (jsonTokenStruct g') (i + 1) = Some (token JSMN_PRIMITIVE q (q + length s) 0) \<and>
    at_token doc (token JSMN_PRIMITIVE q (q + length s) 0) = Some (s @ (c # r) @ 0 # post) \<and>
    c \<in> {COMMA, RBRACE, RBRACKET} \<and> 0 \<notin> set (c # r)"
proof -
  obtain i q post c rest where k: "key_loop doc (jsonTokenStruct g') (Some (k @ [0])) (int (length (toks_of j 0))) 1 = Some (Some i)"
    "drop (i + 1) (jsonTokenStruct g') = toks_of (JPrim s) q @ post" "set (toks_of (JPrim s) q) \<subseteq> set (toks_of j 0)"
    "drop q doc = render (JPrim s) @ c # rest" "c \<in> {COMMA, RBRACE, RBRACKET}"
    using key_search(2) [OF assms(1-4) refl assms(5)] by blast
  obtain r where doc: "doc = render j @ 0 # r" "0 \<notin> set (render j)"
    using assms(1) wf_no_NUL by (auto simp: document_def)
  have t: "arr_get (jsonTokenStruct g') (i + 1) = Some (token JSMN_PRIMITIVE q (q + length s) 0)"
    using k(2) by (metis arr_get_def drop_eq_Nil hd_append2 hd_drop_conv_nth leI list.discI list.sel(1) toks_of.simps(4) append_is_Nil_conv)
  have "token JSMN_PRIMITIVE q (q + length s) 0 \<in> set (toks_of j 0)"
    using k(3) by simp
  then have q: "q + length s \<le> length (render j)"
    using toks_inside(1) [of j 0] by fastforce
  then have "0 \<in> set (drop (q + length s) doc)"
    using doc(1) by simp
  then have "0 \<in> set (c # rest)"
    using text_after [OF k(4)] by simp
  moreover have "c \<noteq> 0"
    using k(5) by auto
  ultimately obtain r post where r: "rest = r @ 0 # post" "0 \<notin> set r"
    using split_list_first [of 0 rest] by auto
  show ?thesis
    using k(1,4,5) t q r \<open>c \<noteq> 0\<close> doc(1) at_token_pos [of q doc JSMN_PRIMITIVE "q + length s" 0]
    by (intro exI [of _ i] exI [of _ q] exI [of _ c] exI [of _ r] exI [of _ post]) (simp del: arr_get_Some)
qed

lemma absent_value:
  assumes "document j doc g" and "parsed_as j g'" and "js_pKey p = Some (k @ [0])" and "0 \<notin> set k" and "no_value k j" and "lookup k j = None"
  shows "isJsonKeyMatchingAndUpdateValue lib doc (int (length (toks_of j 0))) p g' = Some (p, None)"
  using key_search(1) [OF assms(1,2,5,4) refl assms(6)] assms(3) by (simp add: isJsonKeyMatchingAndUpdateValue_def)

lemma integer_value:
  assumes "document j doc g" and "parsed_as j g'" and "js_pKey p = Some (k @ [0])" and "0 \<notin> set k" and "no_value k j"
    and "lookup k j = Some (JPrim (dec_int x))" and "int_range (js_type p) x" and "js_pData p = Some (DInt (js_type p) u)"
  shows "\<exists>q. isJsonKeyMatchingAndUpdateValue lib doc (int (length (toks_of j 0))) p g' =
      Some (p\<lparr>js_pData := Some (DInt (js_type p) x)\<rparr>, Some (of_nat (length (dec_int x)), int q)) \<and>
    take (length (dec_int x)) (drop q doc) = dec_int x"
proof -
  let ?t = "\<lambda>q. token JSMN_PRIMITIVE q (q + length (dec_int x)) 0"
  obtain i q c r post where k: "key_loop doc (jsonTokenStruct g') (Some (k @ [0])) (int (length (toks_of j 0))) 1 = Some (Some i)"
    "arr_get (jsonTokenStruct g') (i + 1) = Some (?t q)" "at_token doc (?t q) = Some (dec_int x @ (c # r) @ 0 # post)"
    "c \<in> {COMMA, RBRACE, RBRACKET}" "0 \<notin> set (c # r)"
    using primitive_found [OF assms(1,2,5,4,6)] by blast
  have d: "drop q doc = dec_int x @ (c # r) @ 0 # post"
    using k(3) by (simp add: at_token_def split: if_splits)
  have "UpdateValueIfNoObject lib doc p (?t q) = Some (SUCCESS, p\<lparr>js_pData := Some (DInt (js_type p) x)\<rparr>)"
    using k(3) by (intro update_integer [OF assms(7,8) ends_value [OF k(4)] k(5)]) simp_all
  then show ?thesis
    using k(1,2) assms(3) d by (intro exI [of _ q]) (simp add: isJsonKeyMatchingAndUpdateValue_def Let_def del: arr_get_Some)
qed

text \<open>
  Reading a registered value.  On a document in which the key of the structure does not occur as a
  string value, \<open>isJsonKeyMatchingAndUpdateValue\<close> finds the first member with that key, at any depth.
  If its value is a decimal integer in the range of the declared type, it is stored through \<open>pData\<close>,
  and the length and the position returned are those of the value's text.  If there is no such
  member, nothing changes.
\<close>

theorem registered_value_read:
  assumes "document j doc g" and "js_pKey p = Some (k @ [0])" and "0 \<notin> set k" and "no_value k j"
  shows "\<exists>tokenCount g'. isJsonValidAndParse doc g = Some (Some tokenCount, g') \<and>
    (case lookup k j of
       None \<Rightarrow> isJsonKeyMatchingAndUpdateValue lib doc tokenCount p g' = Some (p, None)
     | Some (JPrim s) \<Rightarrow> \<forall>x u. s = dec_int x \<and> int_range (js_type p) x \<and> js_pData p = Some (DInt (js_type p) u) \<longrightarrow>
         (\<exists>q. isJsonKeyMatchingAndUpdateValue lib doc tokenCount p g' =
           Some (p\<lparr>js_pData := Some (DInt (js_type p) x)\<rparr>, Some (of_nat (length s), int q)) \<and> take (length s) (drop q doc) = s)
     | _ \<Rightarrow> True)"
proof -
  let ?n = "int (length (toks_of j 0))"
  obtain g' where g': "isJsonValidAndParse doc g = Some (Some ?n, g')" "parsed_as j g'"
    using isJsonValidAndParse_document [OF assms(1)] by blast
  show ?thesis
    using g'(1) absent_value [OF assms(1) g'(2) assms(2-4), of lib] integer_value [OF assms(1) g'(2) assms(2-4), of _ _ lib]
    by (intro exI [of _ ?n] exI [of _ g']) (auto split: option.split json.split)
qed

lemma version_loop_key:
  assumes "key_loop doc ts (Some SHADOW_VERSION_STRING) n i = Some m"
    and "\<And>m'. m = Some m' \<Longrightarrow> \<exists>t. arr_get ts (m' + 1) = Some t \<and> parseUnsignedInteger32Value doc t = Some (SUCCESS, r)"
  shows "version_loop doc ts n i = (case m of None \<Rightarrow> Some None | Some m' \<Rightarrow> Some r)"
  using assms
proof (induction doc ts "Some SHADOW_VERSION_STRING" n i rule: key_loop.induct)
  case (1 doc ts n i)
  show ?case
  proof (cases "int i < n")
    case True
    then obtain t e where t: "arr_get ts i = Some t" "jsoneq doc t SHADOW_VERSION_STRING = Some e"
      using 1(2) by (subst (asm) key_loop.simps) (auto split: bind_splits simp del: arr_get_Some)
    show ?thesis
    proof (cases "e = 0")
      case True
      then have "m = Some i"
        using 1(2) t \<open>int i < n\<close> by (subst (asm) key_loop.simps) (simp del: arr_get_Some)
      then show ?thesis
        using 1(3) t True \<open>int i < n\<close> by (subst version_loop.simps) (auto simp del: arr_get_Some)
    next
      case False
      then have "key_loop doc ts (Some SHADOW_VERSION_STRING) n (i + 1) = Some m"
        using 1(2) t \<open>int i < n\<close> by (subst (asm) key_loop.simps) (simp del: arr_get_Some)
      then show ?thesis
        using 1(1) [OF True t(1) _ False _ 1(3)] t False \<open>int i < n\<close> by (subst version_loop.simps) (simp del: arr_get_Some)
    qed
  next
    case False
    then show ?thesis
      using 1(2) by (subst (asm) key_loop.simps, subst version_loop.simps) auto
  qed
qed

lemma version_found:
  assumes "document j doc g" and "parsed_as j g'" and "no_value (cs ''version'') j"
  shows "lookup (cs ''version'') j = None \<Longrightarrow> extractVersionNumber doc (int (length (toks_of j 0))) g' = Some None"
    and "lookup (cs ''version'') j = Some (JPrim (dec v)) \<Longrightarrow> v < 2 ^ 32 \<Longrightarrow>
      extractVersionNumber doc (int (length (toks_of j 0))) g' = Some (Some (int v))"
proof -
  let ?n = "int (length (toks_of j 0))"
  show "extractVersionNumber doc ?n g' = Some None" if "lookup (cs ''version'') j = None"
    using version_loop_key [of doc "jsonTokenStruct g'" ?n 1 None] key_search(1) [OF assms token_key(4) refl that]
    by (simp add: extractVersionNumber_def token_key)
  show "extractVersionNumber doc ?n g' = Some (Some (int v))"
    if v: "lookup (cs ''version'') j = Some (JPrim (dec v))" "v < 2 ^ 32"
  proof -
    obtain i q c r post where k: "key_loop doc (jsonTokenStruct g') (Some SHADOW_VERSION_STRING) ?n 1 = Some (Some i)"
      "arr_get (jsonTokenStruct g') (i + 1) = Some (token JSMN_PRIMITIVE q (q + length (dec v)) 0)"
      "at_token doc (token JSMN_PRIMITIVE q (q + length (dec v)) 0) = Some (dec v @ (c # r) @ 0 # post)"
      "c \<in> {COMMA, RBRACE, RBRACKET}" "0 \<notin> set (c # r)"
      using primitive_found [OF assms token_key(4) v(1)] unfolding token_key by blast
    have "parseUnsignedInteger32Value doc (token JSMN_PRIMITIVE q (q + length (dec v)) 0) = Some (SUCCESS, Some (int v))"
      unfolding parseUnsignedInteger32Value_def
      by (rule parse_unsigned_dec [OF ends_value [OF k(4)] k(5) _ k(3) v(2)]) simp
    then show ?thesis
      using version_loop_key [OF k(1), of "Some (int v)"] k(2) by (simp add: extractVersionNumber_def del: arr_get_Some)
  qed
qed

lemma args_wf: "list_all2 (arg_is lib) as kjs \<Longrightarrow> wf_members (obj kjs)"
  by (induction as kjs rule: list_all2_induct) (auto simp: arg_is_def ws_ok_def split: option.splits)

text \<open>
  C24: a document that the library builds is one that it can track.  Under the conditions of the
  building functions, and when \<open>clientToken\<close> is neither a key nor a string value of the state and
  the document has at most 120 tokens, \<open>extractClientToken\<close> finds in the finished document exactly
  the client token that was put into it.
\<close>

theorem update_token_roundtrip:
  assumes "list_all2 (arg_is lib) ds kds" and "kds \<noteq> []" and "length kds \<le> 127"
    and "list_all2 (arg_is lib) rs krs" and "krs \<noteq> []" and "length krs \<le> 127"
    and "client_token g = Some tok" and "unat maxSize \<le> length buf"
    and "j = shadow_json [(cs ''desired'', JObj (obj kds)), (cs ''reported'', JObj (obj krs))] tok"
    and "length (render j) < unat maxSize"
    and "str_ok tok" and "no_value (cs ''clientToken'') j"
    and "lookup_members (cs ''clientToken'') (obj kds) = None" and "lookup_members (cs ''clientToken'') (obj krs) = None"
    and "length (toks_of j 0) \<le> MAX_JSON_TOKEN_EXPECTED" and "length (jsonTokenStruct g) = MAX_JSON_TOKEN_EXPECTED"
    and "length tok < length out" and "length tok < 256"
  shows "\<exists>out' g'. (do { (rcs, d, g) \<leftarrow> build_update lib buf maxSize ds rs g; doc \<leftarrow> d; extractClientToken doc out g }) =
      Some (True, out', g') \<and> take (length tok + 1) out' = tok @ [0]"
proof -
  let ?g = "g\<lparr>clientTokenNum := clientTokenNum g + 1\<rparr>"
  obtain doc where doc: "build_update lib buf maxSize ds rs g = Some ([SUCCESS, SUCCESS, SUCCESS, SUCCESS], Some doc, ?g)"
    "holds doc (render j) (length buf)"
    using update_document [OF assms(1-10)] by blast
  have "wf_members (obj kds)" "wf_members (obj krs)"
    using args_wf [OF assms(1)] args_wf [OF assms(4)] by simp_all
  then have wf: "wf_json j"
    using assms(11) by (simp add: assms(9) shadow_json_def ws_ok_def str_ok_def cs_def of_char_def)
  have d: "document j doc ?g"
    using doc(2) wf assms(15,16) by (auto simp: document_def holds_def) (simp add: assms(9) shadow_json_def)
  have l: "lookup (cs ''clientToken'') j = Some (JStr tok)"
    using assms(13,14) by (simp add: assms(9) shadow_json_def) (simp add: cs_def of_char_def)
  show ?thesis
    using extract_token [OF d assms(12) l assms(18), of out] assms(17) doc(1) by auto
qed

section \<open>Samples\<close>

definition sample_update :: json where
  "sample_update = shadow_json [(cs ''desired'', JObj (obj [(cs ''t'', JPrim (cs ''-5''))])), (cs ''reported'', JObj (obj [(cs ''w'', JPrim (cs ''true''))]))] (cs ''c-7'')"

lemma sample_update_facts:
  "wf_json sample_update" "no_value (cs ''clientToken'') sample_update" "no_value (cs ''t'') sample_update"
  "lookup (cs ''clientToken'') sample_update = Some (JStr (cs ''c-7''))" "lookup (cs ''t'') sample_update = Some (JPrim (cs ''-5''))"
  "length (toks_of sample_update 0) = 13"
  by (simp_all add: sample_update_def shadow_json_def ws_ok_def str_ok_def prim_ok_def cs_def of_char_def)

lemma sample_document: "document sample_update (render sample_update @ 0 # [9]) sample_globals"
  using sample_update_facts by (auto simp: document_def shadow_config sample_globals_def) (simp add: sample_update_def shadow_json_def)

theorem client_token_extracted_witness:
  "(\<exists>buf' g'. extractClientToken (render sample_update @ 0 # [9]) (replicate 4 1) sample_globals = Some (True, buf', g') \<and> take 4 buf' = cs ''c-7'' @ [0]) \<and>
   extractClientToken (render sample_update @ 0 # [9]) (replicate 3 1) sample_globals = None"
proof -
  have l: "length (cs ''c-7'') = 3"
    by (simp add: cs_def)
  show ?thesis
    using client_token_extracted [OF sample_document sample_update_facts(2), of "replicate 4 1"]
      client_token_extracted [OF sample_document sample_update_facts(2), of "replicate 3 1"] sample_update_facts(4) l
    by auto
qed

theorem registered_value_read_witness:
  "\<exists>tokenCount g' q. isJsonValidAndParse (render sample_update @ 0 # [9]) sample_globals = Some (Some tokenCount, g') \<and>
    isJsonKeyMatchingAndUpdateValue no_float (render sample_update @ 0 # [9]) tokenCount (temperature\<lparr>js_pData := Some (DInt SHADOW_JSON_INT32 9)\<rparr>) g' =
      Some (temperature, Some (2, int q))"
proof -
  let ?p = "temperature\<lparr>js_pData := Some (DInt SHADOW_JSON_INT32 9)\<rparr>"
  have p: "js_pKey ?p = Some (cs ''t'' @ [0])" "0 \<notin> set (cs ''t'')"
    "int_range (js_type ?p) (-5)" "js_pData ?p = Some (DInt (js_type ?p) 9)"
    "?p\<lparr>js_pData := Some (DInt (js_type ?p) (-5))\<rparr> = temperature" "of_nat (length (cs ''-5'')) = (2 :: u32)"
    by (simp_all add: temperature_def cs_def of_char_def)
  have d: "cs ''-5'' = dec_int (-5)"
    by (simp add: cs_def of_char_def dec_int_def dec.simps)
  show ?thesis
    using registered_value_read [OF sample_document p(1,2) sample_update_facts(3), of no_float] sample_update_facts(5) p(3-6) d
    by fastforce
qed

theorem update_token_roundtrip_witness:
  "\<exists>out' g'. (do { (rcs, d, g) \<leftarrow> build_update no_float (replicate 100 1) 100 [Some temperature] [Some window_open] sample_globals; doc \<leftarrow> d;
      extractClientToken doc (replicate 90 1) g }) = Some (True, out', g') \<and> take 4 out' = cs ''c-7'' @ [0]"
proof -
  have r: "length (render sample_update) < unat (100 :: size_t)"
    by (simp add: sample_update_def shadow_json_def cs_def)
  have f: "str_ok (cs ''c-7'')" "lookup_members (cs ''clientToken'') (obj [(cs ''t'', JPrim (cs ''-5''))]) = None"
    "lookup_members (cs ''clientToken'') (obj [(cs ''w'', JPrim (cs ''true''))]) = None"
    "length (toks_of sample_update 0) \<le> MAX_JSON_TOKEN_EXPECTED" "length (jsonTokenStruct sample_globals) = MAX_JSON_TOKEN_EXPECTED"
    "length (cs ''c-7'') = 3"
    using sample_update_facts(6) by (simp_all add: str_ok_def cs_def of_char_def sample_globals_def shadow_config)
  show ?thesis
    using update_token_roundtrip [OF _ _ _ _ _ _ sample_token _ sample_update_def r f(1) sample_update_facts(2) f(2-5),
        where out = "replicate 90 1" and lib = no_float and ds = "[Some temperature]" and rs = "[Some window_open]" and buf = "replicate 100 1"]
      sample_args f(6)
    by simp
qed

text \<open>
  A string value that equals the key is taken for it: in \<open>{"n":"clientToken","clientToken":"c-7"}\<close>
  the token that is found is \<open>clientToken\<close>.
\<close>

lemma value_taken_for_key:
  "\<exists>buf g. extractClientToken (render (JObj (obj [(cs ''n'', JStr (cs ''clientToken'')), (cs ''clientToken'', JStr (cs ''c-7''))])) @ [0])
     (replicate 90 1) sample_globals = Some (True, buf, g) \<and> c_text buf = Some (cs ''clientToken'')"
proof -
  let ?j = "JObj (obj [(cs ''n'', JStr (cs ''clientToken'')), (cs ''clientToken'', JStr (cs ''c-7''))])"
  have d: "document ?j (render ?j @ [0]) sample_globals"
    by (simp add: document_def shadow_config sample_globals_def ws_ok_def str_ok_def) (simp add: cs_def of_char_def)
  let ?t = "token JSMN_STRING 6 17 0"
  let ?u = "token JSMN_STRING 20 31 1"
  have t: "toks_of ?j 0 = [token JSMN_OBJECT 0 39 2, token JSMN_STRING 2 3 1, ?t, ?u, token JSMN_STRING 34 37 0]"
    by (simp add: cs_def)
  obtain g rest where g: "jsonTokenStruct g = toks_of ?j 0 @ rest" and e: "extractClientToken (render ?j @ [0]) (replicate 90 1) sample_globals = do {
      r \<leftarrow> key_loop (render ?j @ [0]) (jsonTokenStruct g) (Some (cs ''clientToken'' @ [0])) (int (length (toks_of ?j 0))) 1;
      case r of
        None \<Rightarrow> Some (False, replicate 90 1, g)
      | Some i \<Rightarrow> do {
          t \<leftarrow> arr_get (jsonTokenStruct g) (i + 1);
          let n = nat ((tok_end t - tok_start t) mod 2 ^ 8);
          src \<leftarrow> at_token (render ?j @ [0]) t;
          buf \<leftarrow> c_strncpy (replicate 90 1) src n;
          buf \<leftarrow> mem_write buf n [0];
          Some (True, buf, g) } }"
    using extract_after_parse [OF d, of "replicate 90 1"] unfolding reparsed_def parsed_as_def by blast
  have k: "key_loop (render ?j @ [0]) (jsonTokenStruct g) (Some (cs ''clientToken'' @ [0])) (int (length (toks_of ?j 0))) 1 = Some (Some 2)"
    unfolding g t by (simp add: key_loop.simps arr_get_def jsoneq_def at_token_def cs_def of_char_def)
  have b: "strncpy_bytes [99, 108, 105, 101, 110, 116, 84, 111, 107, 101, 110, 34, 58, 34, 99, 45, 55, 34, 125, 0] n =
      Some [99, 108, 105, 101, 110, 116, 84, 111, 107, 101, 110]" if "n = Suc (Suc (Suc (Suc (Suc (Suc (Suc (Suc (Suc (Suc (Suc 0))))))))))" for n
    by (simp add: that)
  show ?thesis
    unfolding e k using g t b [of 11] by (simp add: arr_get_def at_token_def c_strncpy_def mem_write_def c_text_def cs_def of_char_def)
qed
end
