(* ===== verification/Shadow_Records.thy ===== *)
theory Shadow_Records
  imports Client_Api Shadow_Doc
begin

text \<open>
  \<open>src/aws_iot_shadow_records.c\<close>: the tables of the shadow client (requests that wait for their
  acknowledgement, subscriptions to acknowledgement topics, registered delta keys) and the two
  callbacks that the MQTT client calls for messages on shadow topics.

  The variables of the shadow files are the record \<open>shadow_globals\<close>; it extends those of
  \<open>src/aws_iot_shadow_json.c\<close> and is part of the world that the MQTT client runs in, so that a
  callback that runs while the client waits for a packet sees and changes them.  The structures that
  an application registers live in \<open>structs\<close>.  \<open>senv\<close> collects the application's callbacks and
  the contents of local variables that the code leaves uninitialised.

  A topic that is registered with the MQTT client is kept by value; its buffer in
  \<open>SubscriptionList\<close> is only rewritten when the slot is taken anew.
\<close>

section \<open>Data\<close>

definition SHADOW_MAX_SIZE_OF_RX_BUFFER :: nat where "SHADOW_MAX_SIZE_OF_RX_BUFFER = AWS_IOT_MQTT_RX_BUF_LEN + 1"
definition MAX_ACKS_TO_COMEIN_AT_ANY_GIVEN_TIME :: nat where "MAX_ACKS_TO_COMEIN_AT_ANY_GIVEN_TIME = 10"
definition MAX_THINGNAME_HANDLED_AT_ANY_GIVEN_TIME :: nat where "MAX_THINGNAME_HANDLED_AT_ANY_GIVEN_TIME = 10"
definition MAX_SIZE_OF_THING_NAME :: nat where "MAX_SIZE_OF_THING_NAME = 20"
definition MAX_SHADOW_TOPIC_LENGTH_BYTES :: nat where "MAX_SHADOW_TOPIC_LENGTH_BYTES = 60 + MAX_SIZE_OF_THING_NAME"
definition MAX_TOPICS_AT_ANY_GIVEN_TIME :: nat where "MAX_TOPICS_AT_ANY_GIVEN_TIME = 2 * MAX_THINGNAME_HANDLED_AT_ANY_GIVEN_TIME"
definition SUBSCRIBE_SETTLING_TIME :: u32 where "SUBSCRIBE_SETTLING_TIME = 2"

lemmas records_config = SHADOW_MAX_SIZE_OF_RX_BUFFER_def MAX_ACKS_TO_COMEIN_AT_ANY_GIVEN_TIME_def
  MAX_THINGNAME_HANDLED_AT_ANY_GIVEN_TIME_def MAX_SIZE_OF_THING_NAME_def MAX_SHADOW_TOPIC_LENGTH_BYTES_def
  MAX_TOPICS_AT_ANY_GIVEN_TIME_def

datatype ShadowActions_t = SHADOW_GET | SHADOW_UPDATE | SHADOW_DELETE
datatype Shadow_Ack_Status_t = SHADOW_ACK_TIMEOUT | SHADOW_ACK_REJECTED | SHADOW_ACK_ACCEPTED
datatype ShadowAckTopicTypes_t = SHADOW_ACCEPTED | SHADOW_REJECTED | SHADOW_ACTION

record ToBeReceivedAckRecord_t =
  clientTokenID :: mem
  ar_thingName :: mem
  ar_action :: ShadowActions_t
  ar_callback :: "handler option"
  ar_pCallbackContext :: "addr option"
  ar_isFree :: bool
  ar_timer :: Timer

record JsonTokenTable_t =
  tt_pKey :: cptr
  tt_pStruct :: addr
  tt_callback :: "handler option"
  tt_isFree :: bool

record SubscriptionRecord_t =
  sr_Topic :: mem
  sr_count :: u8
  sr_isFree :: bool
  sr_isSticky :: bool

record shadow_globals = json_globals +
  AckWaitList :: "ToBeReceivedAckRecord_t list"
  pMqttClient :: clientRef
  myThingName :: mem
  shadowDeltaTopic :: mem
  SubscriptionList :: "SubscriptionRecord_t list"
  shadowRxBuf :: mem
  tokenTable :: "JsonTokenTable_t list"
  tokenTableIndex :: u32
  deltaTopicSubscribedFlag :: bool
  shadowJsonVersionNum :: u32
  shadowDiscardOldDeltaFlag :: bool
  structs :: "addr \<Rightarrow> jsonStruct_t"

record 'u sworld =
  sh :: shadow_globals
  outside :: 'u

type_synonym 'u sst = "'u sworld st"

abbreviation shs :: "'u sst \<Rightarrow> shadow_globals" where
  "shs s \<equiv> sh (wd s)"

definition upd_sh :: "(shadow_globals \<Rightarrow> shadow_globals) \<Rightarrow> 'u sst \<Rightarrow> 'u sst" where
  "upd_sh f s = s\<lparr>wd := (wd s)\<lparr>sh := f (sh (wd s))\<rparr>\<rparr>"

record 'u senv =
  base :: "'u sworld env"
  clibrary :: clib
  action_cb :: "handler \<Rightarrow> mem \<Rightarrow> ShadowActions_t \<Rightarrow> Shadow_Ack_Status_t \<Rightarrow> addr option \<Rightarrow> 'u sst \<Rightarrow> 'u sst exec"
  json_cb :: "handler \<Rightarrow> int \<Rightarrow> u32 \<Rightarrow> addr \<Rightarrow> 'u sst \<Rightarrow> 'u sst exec"
  stale_publish :: IoT_Publish_Message_Params
  stale_timeout :: u32
  stale_data :: "addr option"

text \<open>The addresses of the two callbacks of this file.\<close>

definition AckStatusCallback_ptr :: handler where "AckStatusCallback_ptr = 0"
definition shadow_delta_callback_ptr :: handler where "shadow_delta_callback_ptr = 1"

lemma upd_sh_simps [simp]:
  "cl (upd_sh f s) = cl s" "shs (upd_sh f s) = f (shs s)" "outside (wd (upd_sh f s)) = outside (wd s)"
  by (simp_all add: upd_sh_def)

text \<open>\<open>strstr\<close>: a text that does not end is overrun unless the needle is found before.\<close>

fun c_strstr :: "mem \<Rightarrow> u8 list \<Rightarrow> bool option" where
  "c_strstr [] needle = (if needle = [] then Some True else None)"
| "c_strstr (c # m) needle = do {
     b \<leftarrow> starts_with (c # m) needle;
     if b then Some True else if c = 0 then Some False else c_strstr m needle }"

section \<open>Topics\<close>

fun action_text :: "ShadowActions_t \<Rightarrow> u8 list" where
  "action_text SHADOW_GET = cs ''get''"
| "action_text SHADOW_UPDATE = cs ''update''"
| "action_text SHADOW_DELETE = cs ''delete''"

fun ack_text :: "ShadowAckTopicTypes_t \<Rightarrow> u8 list" where
  "ack_text SHADOW_ACCEPTED = cs ''/accepted''"
| "ack_text SHADOW_REJECTED = cs ''/rejected''"
| "ack_text SHADOW_ACTION = []"

definition topicNameFromThingAndAction :: "mem \<Rightarrow> cptr \<Rightarrow> ShadowActions_t \<Rightarrow> ShadowAckTopicTypes_t \<Rightarrow> mem option" where
  "topicNameFromThingAndAction pTopic pThingName action ackType = do {
     t \<leftarrow> c_arg pThingName;
     (r, pTopic) \<leftarrow> c_snprintf pTopic 0 (of_nat MAX_SHADOW_TOPIC_LENGTH_BYTES)
       (cs ''$aws/things/'' @ t @ cs ''/shadow/'' @ action_text action @ ack_text ackType);
     Some pTopic }"

text \<open>The local topic buffers of the callers; what they hold before is not read.\<close>

abbreviation topic_buffer :: mem where
  "topic_buffer \<equiv> replicate MAX_SHADOW_TOPIC_LENGTH_BYTES 0"

definition isAckForMyThingName :: "mem \<Rightarrow> 'a shadow_globals_scheme \<Rightarrow> bool option" where
  "isAckForMyThingName pTopicName g = do {
     t \<leftarrow> c_text (myThingName g);
     mine \<leftarrow> c_strstr pTopicName t;
     if \<not> mine then Some False
     else do {
       b \<leftarrow> c_strstr pTopicName (cs ''get/accepted'');
       if b then Some True
       else do {
         b \<leftarrow> c_strstr pTopicName (cs ''update/accepted'');
         if b then Some True else c_strstr pTopicName (cs ''delta'') } } }"

section \<open>Tables\<close>

definition initDeltaTokens :: "'u sst \<Rightarrow> 'u sst" where
  "initDeltaTokens = upd_sh (\<lambda>g. g\<lparr>tokenTable := map (\<lambda>e. e\<lparr>tt_isFree := True\<rparr>) (tokenTable g),
     tokenTableIndex := 0, deltaTopicSubscribedFlag := False\<rparr>)"

fun free_subscription_loop :: "SubscriptionRecord_t list \<Rightarrow> nat list \<Rightarrow> (int \<times> SubscriptionRecord_t list) option" where
  "free_subscription_loop l [] = Some (-1, l)"
| "free_subscription_loop l (i # is') = do {
     r \<leftarrow> arr_get l i;
     if sr_isFree r then Some (int i, l[i := r\<lparr>sr_isFree := False\<rparr>]) else free_subscription_loop l is' }"

definition getNextFreeIndexOfSubscriptionList :: "'u sst \<Rightarrow> (int \<times> 'u sst) option" where
  "getNextFreeIndexOfSubscriptionList s = do {
     (i, l) \<leftarrow> free_subscription_loop (SubscriptionList (shs s)) [0..<MAX_TOPICS_AT_ANY_GIVEN_TIME];
     Some (i, upd_sh (\<lambda>g. g\<lparr>SubscriptionList := l\<rparr>) s) }"

fun find_subscription_loop :: "SubscriptionRecord_t list \<Rightarrow> mem \<Rightarrow> nat list \<Rightarrow> nat option option" where
  "find_subscription_loop l pTopic [] = Some None"
| "find_subscription_loop l pTopic (i # is') = do {
     r \<leftarrow> arr_get l i;
     if sr_isFree r then find_subscription_loop l pTopic is'
     else do {
       eq \<leftarrow> c_streq pTopic (sr_Topic r);
       if eq then Some (Some i) else find_subscription_loop l pTopic is' } }"

definition findIndexOfSubscriptionList :: "mem \<Rightarrow> 'u sst \<Rightarrow> nat option option" where
  "findIndexOfSubscriptionList pTopic s = find_subscription_loop (SubscriptionList (shs s)) pTopic [0..<MAX_TOPICS_AT_ANY_GIVEN_TIME]"

text \<open>An update of one slot.\<close>

definition set_sub :: "nat \<Rightarrow> (SubscriptionRecord_t \<Rightarrow> SubscriptionRecord_t) \<Rightarrow> 'u sst \<Rightarrow> 'u sst" where
  "set_sub i f = upd_sh (\<lambda>g. g\<lparr>SubscriptionList := (SubscriptionList g)[i := f (SubscriptionList g ! i)]\<rparr>)"

definition set_ack :: "nat \<Rightarrow> (ToBeReceivedAckRecord_t \<Rightarrow> ToBeReceivedAckRecord_t) \<Rightarrow> 'u sst \<Rightarrow> 'u sst" where
  "set_ack i f = upd_sh (\<lambda>g. g\<lparr>AckWaitList := (AckWaitList g)[i := f (AckWaitList g ! i)]\<rparr>)"

definition initializeRecords :: "clientRef \<Rightarrow> 'u sst \<Rightarrow> 'u sst" where
  "initializeRecords pClient = upd_sh (\<lambda>g. g\<lparr>
     AckWaitList := map (\<lambda>r. r\<lparr>ar_isFree := True\<rparr>) (AckWaitList g),
     SubscriptionList := map (\<lambda>r. r\<lparr>sr_isFree := True, sr_count := 0, sr_isSticky := False\<rparr>) (SubscriptionList g),
     pMqttClient := pClient\<rparr>)"

fun present_loop :: "SubscriptionRecord_t list \<Rightarrow> mem \<Rightarrow> mem \<Rightarrow> nat list \<Rightarrow> bool \<Rightarrow> bool \<Rightarrow> bool option" where
  "present_loop l acc rej [] isAcceptedPresent isRejectedPresent = Some (isRejectedPresent \<and> isAcceptedPresent)"
| "present_loop l acc rej (i # is') isAcceptedPresent isRejectedPresent = do {
     r \<leftarrow> arr_get l i;
     if sr_isFree r then present_loop l acc rej is' isAcceptedPresent isRejectedPresent
     else do {
       eq \<leftarrow> c_streq acc (sr_Topic r);
       if eq then present_loop l acc rej is' True isRejectedPresent
       else do {
         eq \<leftarrow> c_streq rej (sr_Topic r);
         present_loop l acc rej is' isAcceptedPresent (if eq then True else isRejectedPresent) } } }"

definition isSubscriptionPresent :: "cptr \<Rightarrow> ShadowActions_t \<Rightarrow> 'u sst \<Rightarrow> bool option" where
  "isSubscriptionPresent pThingName action s = do {
     acc \<leftarrow> topicNameFromThingAndAction topic_buffer pThingName action SHADOW_ACCEPTED;
     rej \<leftarrow> topicNameFromThingAndAction topic_buffer pThingName action SHADOW_REJECTED;
     present_loop (SubscriptionList (shs s)) acc rej [0..<MAX_TOPICS_AT_ANY_GIVEN_TIME] False False }"

fun increment_loop :: "mem \<Rightarrow> mem \<Rightarrow> bool \<Rightarrow> SubscriptionRecord_t list \<Rightarrow> nat list \<Rightarrow> SubscriptionRecord_t list option" where
  "increment_loop acc rej isSticky l [] = Some l"
| "increment_loop acc rej isSticky l (i # is') = do {
     r \<leftarrow> arr_get l i;
     if sr_isFree r then increment_loop acc rej isSticky l is'
     else do {
       a \<leftarrow> c_streq acc (sr_Topic r);
       b \<leftarrow> (if a then Some True else c_streq rej (sr_Topic r));
       increment_loop acc rej isSticky (if b then l[i := r\<lparr>sr_count := sr_count r + 1, sr_isSticky := isSticky\<rparr>] else l) is' } }"

definition incrementSubscriptionCnt :: "cptr \<Rightarrow> ShadowActions_t \<Rightarrow> bool \<Rightarrow> 'u sst \<Rightarrow> 'u sst option" where
  "incrementSubscriptionCnt pThingName action isSticky s = do {
     acc \<leftarrow> topicNameFromThingAndAction topic_buffer pThingName action SHADOW_ACCEPTED;
     rej \<leftarrow> topicNameFromThingAndAction topic_buffer pThingName action SHADOW_REJECTED;
     l \<leftarrow> increment_loop acc rej isSticky (SubscriptionList (shs s)) [0..<MAX_TOPICS_AT_ANY_GIVEN_TIME];
     Some (upd_sh (\<lambda>g. g\<lparr>SubscriptionList := l\<rparr>) s) }"

fun free_ack_loop :: "ToBeReceivedAckRecord_t list \<Rightarrow> nat list \<Rightarrow> nat option option" where
  "free_ack_loop l [] = Some None"
| "free_ack_loop l (i # is') = do {
     r \<leftarrow> arr_get l i;
     if ar_isFree r then Some (Some i) else free_ack_loop l is' }"

definition getNextFreeIndexOfAckWaitList :: "'u sst \<Rightarrow> nat option option" where
  "getNextFreeIndexOfAckWaitList s = free_ack_loop (AckWaitList (shs s)) [0..<MAX_ACKS_TO_COMEIN_AT_ANY_GIVEN_TIME]"

definition addToAckWaitList ::
  "'u sworld env \<Rightarrow> nat \<Rightarrow> mem \<Rightarrow> ShadowActions_t \<Rightarrow> mem \<Rightarrow> handler option \<Rightarrow> addr option \<Rightarrow> u32 \<Rightarrow> 'u sst \<Rightarrow> 'u sst exec" where
  "addToAckWaitList E index pThingName action pExtractedClientToken callback pCallbackContext timeout_seconds s =
     bnd (access (arr_get (AckWaitList (shs s)) index)) (\<lambda>r.
     bnd (access (c_strncpy (clientTokenID r) pExtractedClientToken MAX_SIZE_CLIENT_ID_WITH_SEQUENCE)) (\<lambda>tok.
     bnd (access (c_strncpy (ar_thingName r) pThingName MAX_SIZE_OF_THING_NAME)) (\<lambda>thing.
     let (t, s) = start_sec E timeout_seconds s
     in ret (set_ack index (\<lambda>r. r\<lparr>ar_callback := callback, clientTokenID := tok, ar_thingName := thing,
               ar_pCallbackContext := pCallbackContext, ar_action := action, ar_timer := t, ar_isFree := False\<rparr>) s))))"

section \<open>Subscriptions to acknowledgement topics\<close>

definition unsubscribe_topic :: "'u sworld env \<Rightarrow> mem \<Rightarrow> 'u sst \<Rightarrow> 'u sst exec" where
  "unsubscribe_topic E topic s =
     bnd (access (findIndexOfSubscriptionList topic s)) (\<lambda>indexSubList.
     case indexSubList of
       None \<Rightarrow> ret s
     | Some i \<Rightarrow>
         bnd (access (arr_get (SubscriptionList (shs s)) i)) (\<lambda>r.
         if \<not> sr_isSticky r \<and> sr_count r = 1 then
           bnd (access (c_strlen topic)) (\<lambda>n.
           bnd (aws_iot_mqtt_unsubscribe E (pMqttClient (shs s)) (Some topic) (of_nat n) s) (\<lambda>(rc, s).
           ret (if rc = SUCCESS then set_sub i (\<lambda>r. r\<lparr>sr_isFree := True\<rparr>) s else s)))
         else if sr_count r > 1 then ret (set_sub i (\<lambda>r. r\<lparr>sr_count := sr_count r - 1\<rparr>) s)
         else ret s))"

definition unsubscribeFromAcceptedAndRejected :: "'u sworld env \<Rightarrow> nat \<Rightarrow> 'u sst \<Rightarrow> 'u sst exec" where
  "unsubscribeFromAcceptedAndRejected E index s =
     bnd (access (arr_get (AckWaitList (shs s)) index)) (\<lambda>r.
     bnd (access (topicNameFromThingAndAction topic_buffer (Some (ar_thingName r)) (ar_action r) SHADOW_ACCEPTED)) (\<lambda>acc.
     bnd (access (topicNameFromThingAndAction topic_buffer (Some (ar_thingName r)) (ar_action r) SHADOW_REJECTED)) (\<lambda>rej.
     bnd (unsubscribe_topic E acc s) (\<lambda>s. unsubscribe_topic E rej s))))"

partial_function (option) settle_loop :: "'w env \<Rightarrow> Timer \<Rightarrow> 'w st \<Rightarrow> 'w st exec" where
  "settle_loop E t s = (let (e, s) = timer_expired E t s in if e then ret s else settle_loop E t s)"

text \<open>Writing the topic of a slot and subscribing to it.\<close>

definition subscribe_slot ::
  "'u sworld env \<Rightarrow> nat \<Rightarrow> cptr \<Rightarrow> ShadowActions_t \<Rightarrow> ShadowAckTopicTypes_t \<Rightarrow> 'u sst \<Rightarrow> (IoT_Error_t \<times> 'u sst) exec" where
  "subscribe_slot E i pThingName action ackType s =
     bnd (access (arr_get (SubscriptionList (shs s)) i)) (\<lambda>r.
     bnd (access (topicNameFromThingAndAction (sr_Topic r) pThingName action ackType)) (\<lambda>topic.
     bnd (access (c_strlen topic)) (\<lambda>n.
     aws_iot_mqtt_subscribe E (pMqttClient (shs s)) (Some topic) (of_nat n) QOS0 (Some AckStatusCallback_ptr) None
       (set_sub i (\<lambda>r. r\<lparr>sr_Topic := topic\<rparr>) s))))"

text \<open>The slots are given back when a subscription failed.  An index of \<open>-1\<close> is used like any other.\<close>

definition clear_entries :: "'u sworld env \<Rightarrow> int \<Rightarrow> int \<Rightarrow> 'u sst \<Rightarrow> 'u sst exec" where
  "clear_entries E indexAcceptedSubList indexRejectedSubList s =
     (let s = (if indexAcceptedSubList \<ge> 0 then set_sub (nat indexAcceptedSubList) (\<lambda>r. r\<lparr>sr_isFree := True\<rparr>) s
               else if indexRejectedSubList \<ge> 0 then set_sub (nat indexRejectedSubList) (\<lambda>r. r\<lparr>sr_isFree := True\<rparr>) s
               else s)
      in bnd (access (if indexAcceptedSubList < 0 then None else arr_get (SubscriptionList (shs s)) (nat indexAcceptedSubList))) (\<lambda>r.
         if sr_count r = 1 then
           bnd (access (c_strlen (sr_Topic r))) (\<lambda>n.
           bnd (aws_iot_mqtt_unsubscribe E (pMqttClient (shs s)) (Some (sr_Topic r)) (of_nat n) s) (\<lambda>(rc, s).
           ret s))
         else ret s))"

definition subscribeToShadowActionAcks ::
  "'u sworld env \<Rightarrow> cptr \<Rightarrow> ShadowActions_t \<Rightarrow> bool \<Rightarrow> 'u sst \<Rightarrow> (IoT_Error_t \<times> 'u sst) exec" where
  "subscribeToShadowActionAcks E pThingName action isSticky s =
     bnd (access (getNextFreeIndexOfSubscriptionList s)) (\<lambda>(indexAcceptedSubList, s).
     bnd (access (getNextFreeIndexOfSubscriptionList s)) (\<lambda>(indexRejectedSubList, s).
     bnd (if indexAcceptedSubList \<ge> 0 \<and> indexRejectedSubList \<ge> 0 then
            bnd (subscribe_slot E (nat indexAcceptedSubList) pThingName action SHADOW_ACCEPTED s) (\<lambda>(ret_val, s).
            if ret_val \<noteq> SUCCESS then ret (ret_val, True, s)
            else
              let s = set_sub (nat indexAcceptedSubList) (\<lambda>r. r\<lparr>sr_count := 1, sr_isSticky := isSticky\<rparr>) s
              in bnd (subscribe_slot E (nat indexRejectedSubList) pThingName action SHADOW_REJECTED s) (\<lambda>(ret_val, s).
              if ret_val \<noteq> SUCCESS then ret (ret_val, True, s)
              else
                let s = set_sub (nat indexRejectedSubList) (\<lambda>r. r\<lparr>sr_count := 1, sr_isSticky := isSticky\<rparr>) s;
                    (subSettlingtimer, s) = start_sec E SUBSCRIBE_SETTLING_TIME s
                in bnd (settle_loop E subSettlingtimer s) (\<lambda>s. ret (ret_val, False, s))))
          else ret (SUCCESS, True, s)) (\<lambda>(ret_val, clearBothEntriesFromList, s).
     if clearBothEntriesFromList then
       bnd (clear_entries E indexAcceptedSubList indexRejectedSubList s) (\<lambda>s. ret (ret_val, s))
     else ret (ret_val, s))))"

definition publishToShadowAction ::
  "'u senv \<Rightarrow> 'u sworld env \<Rightarrow> cptr \<Rightarrow> ShadowActions_t \<Rightarrow> cptr \<Rightarrow> 'u sst \<Rightarrow> (IoT_Error_t \<times> 'u sst) exec" where
  "publishToShadowAction S E pThingName action pJsonDocumentToBeSent s =
     (case pJsonDocumentToBeSent of
        None \<Rightarrow> ret (NULL_VALUE_ERROR, s)
      | Some doc \<Rightarrow>
        if pThingName = None then ret (NULL_VALUE_ERROR, s)
        else bnd (access (topicNameFromThingAndAction topic_buffer pThingName action SHADOW_ACTION)) (\<lambda>topic.
          bnd (access (c_strlen doc)) (\<lambda>len.
          bnd (access (c_strlen topic)) (\<lambda>n.
          let msgParams = (stale_publish S)\<lparr>pm_qos := QOS0, pm_payloadLen := of_nat len, pm_payload := Some doc\<rparr>
          in bnd (aws_iot_mqtt_publish E (pMqttClient (shs s)) (Some topic) (of_nat n) (Some msgParams) s) (\<lambda>(rc, params, s).
             ret (rc, s))))))"

section \<open>Acknowledgements\<close>

text \<open>\<open>memcpy\<close> of the payload and its NUL; the buffer is one byte too short for a payload of its own size.\<close>

definition receive_payload :: "publish_fields \<Rightarrow> 'u sst \<Rightarrow> 'u sst option" where
  "receive_payload params s = do {
     bs \<leftarrow> mem_read (readBuf (cdata s)) (pf_payload params) (unat (pf_payloadLen params));
     rx \<leftarrow> mem_write (shadowRxBuf (shs s)) 0 bs;
     rx \<leftarrow> mem_write rx (unat (pf_payloadLen params)) [0];
     Some (upd_sh (\<lambda>g. g\<lparr>shadowRxBuf := rx\<rparr>) s) }"

text \<open>The status that the topic stands for; without one of the two words the variable is not set.\<close>

definition ack_status :: "mem \<Rightarrow> Shadow_Ack_Status_t option" where
  "ack_status topicName = do {
     a \<leftarrow> c_strstr topicName (cs ''accepted'');
     if a then Some SHADOW_ACK_ACCEPTED
     else do {
       r \<leftarrow> c_strstr topicName (cs ''rejected'');
       if r then Some SHADOW_ACK_REJECTED else None } }"

fun ack_loop :: "'u senv \<Rightarrow> 'u sworld env \<Rightarrow> mem \<Rightarrow> mem \<Rightarrow> nat list \<Rightarrow> 'u sst \<Rightarrow> 'u sst exec" where
  "ack_loop S E topicName tok [] s = ret s"
| "ack_loop S E topicName tok (i # is') s =
     bnd (access (arr_get (AckWaitList (shs s)) i)) (\<lambda>r.
     if ar_isFree r then ack_loop S E topicName tok is' s
     else bnd (access (c_streq (clientTokenID r) tok)) (\<lambda>eq.
       if \<not> eq then ack_loop S E topicName tok is' s
       else bnd (access (ack_status topicName)) (\<lambda>status.
         bnd (case ar_callback r of
                None \<Rightarrow> ret s
              | Some f \<Rightarrow> action_cb S f (ar_thingName r) (ar_action r) status (ar_pCallbackContext r) s) (\<lambda>s.
         bnd (unsubscribeFromAcceptedAndRejected E i s) (\<lambda>s.
         ret (set_ack i (\<lambda>r. r\<lparr>ar_isFree := True\<rparr>) s))))))"

text \<open>A function of \<open>src/aws_iot_shadow_json.c\<close> on the shadow variables of the state.\<close>

definition on_globals :: "(shadow_globals \<Rightarrow> ('a \<times> shadow_globals) option) \<Rightarrow> 'u sst \<Rightarrow> ('a \<times> 'u sst) option" where
  "on_globals f s = do { (a, g) \<leftarrow> f (shs s); Some (a, upd_sh (\<lambda>_. g) s) }"

definition newer_version :: "int \<Rightarrow> 'u sst \<Rightarrow> bool" where
  "newer_version v s \<longleftrightarrow> uint (shadowJsonVersionNum (shs s)) < v"

definition AckStatusCallback ::
  "'u senv \<Rightarrow> 'u sworld env \<Rightarrow> nat \<Rightarrow> publish_fields \<Rightarrow> 'u sst \<Rightarrow> 'u sst exec" where
  "AckStatusCallback S E topicName params s =
     (if pf_payloadLen params > of_nat SHADOW_MAX_SIZE_OF_RX_BUFFER then ret s
      else
        let topic = drop topicName (readBuf (cdata s))
        in bnd (access (receive_payload params s)) (\<lambda>s.
           bnd (access (on_globals (isJsonValidAndParse (shadowRxBuf (shs s))) s)) (\<lambda>(valid, s).
           case valid of
             None \<Rightarrow> ret s
           | Some tokenCount \<Rightarrow>
               bnd (access (isAckForMyThingName topic (shs s))) (\<lambda>mine.
               bnd (if mine then access (extractVersionNumber (shadowRxBuf (shs s)) tokenCount (shs s)) else ret None) (\<lambda>version.
               let s = (case version of
                          None \<Rightarrow> s
                        | Some v \<Rightarrow> if newer_version v s then upd_sh (\<lambda>g. g\<lparr>shadowJsonVersionNum := word_of_int v\<rparr>) s else s)
               in bnd (access (on_globals (\<lambda>g. do { (r, t, g) \<leftarrow> extractClientToken (shadowRxBuf g)
                         (replicate MAX_SIZE_CLIENT_TOKEN_CLIENT_SEQUENCE 0) g; Some ((r, t), g) }) s)) (\<lambda>((r, tok), s).
                  if r then ack_loop S E topic tok [0..<MAX_ACKS_TO_COMEIN_AT_ANY_GIVEN_TIME] s
                  else ret s))))))"

fun expired_loop :: "'u senv \<Rightarrow> 'u sworld env \<Rightarrow> nat list \<Rightarrow> 'u sst \<Rightarrow> 'u sst exec" where
  "expired_loop S E [] s = ret s"
| "expired_loop S E (i # is') s =
     bnd (access (arr_get (AckWaitList (shs s)) i)) (\<lambda>r.
     if ar_isFree r then expired_loop S E is' s
     else
       let (e, s) = timer_expired E (ar_timer r) s
       in if \<not> e then expired_loop S E is' s
       else bnd (case ar_callback r of
                   None \<Rightarrow> ret s
                 | Some f \<Rightarrow> action_cb S f (ar_thingName r) (ar_action r) SHADOW_ACK_TIMEOUT (ar_pCallbackContext r) s) (\<lambda>s.
            bnd (unsubscribeFromAcceptedAndRejected E i (set_ack i (\<lambda>r. r\<lparr>ar_isFree := True\<rparr>) s)) (\<lambda>s.
            expired_loop S E is' s)))"

definition HandleExpiredResponseCallbacks :: "'u senv \<Rightarrow> 'u sworld env \<Rightarrow> 'u sst \<Rightarrow> 'u sst exec" where
  "HandleExpiredResponseCallbacks S E s = expired_loop S E [0..<MAX_ACKS_TO_COMEIN_AT_ANY_GIVEN_TIME] s"

section \<open>Deltas\<close>

definition registerJsonTokenOnDelta :: "'u sworld env \<Rightarrow> addr \<Rightarrow> 'u sst \<Rightarrow> (IoT_Error_t \<times> 'u sst) exec" where
  "registerJsonTokenOnDelta E pStruct s =
     bnd (if \<not> deltaTopicSubscribedFlag (shs s) then
            bnd (access (do {
              t \<leftarrow> c_text (myThingName (shs s));
              (r, topic) \<leftarrow> c_snprintf (shadowDeltaTopic (shs s)) 0 (of_nat MAX_SHADOW_TOPIC_LENGTH_BYTES)
                (cs ''$aws/things/'' @ t @ cs ''/shadow/update/delta'');
              n \<leftarrow> c_strlen topic;
              Some (topic, n) })) (\<lambda>(topic, n).
            bnd (aws_iot_mqtt_subscribe E (pMqttClient (shs s)) (Some topic) (of_nat n) QOS0 (Some shadow_delta_callback_ptr) None
                   (upd_sh (\<lambda>g. g\<lparr>shadowDeltaTopic := topic\<rparr>) s)) (\<lambda>(rc, s).
            ret (rc, upd_sh (\<lambda>g. g\<lparr>deltaTopicSubscribedFlag := True\<rparr>) s)))
          else ret (SUCCESS, s)) (\<lambda>(rc, s).
     if unat (tokenTableIndex (shs s)) \<ge> MAX_JSON_TOKEN_EXPECTED then ret (FAILURE, s)
     else
       let i = unat (tokenTableIndex (shs s)); p = structs (shs s) pStruct
       in bnd (access (arr_get (tokenTable (shs s)) i)) (\<lambda>e.
          ret (rc, upd_sh (\<lambda>g. g\<lparr>
            tokenTable := (tokenTable g)[i := e\<lparr>tt_pKey := js_pKey p, tt_callback := js_cb p, tt_pStruct := pStruct, tt_isFree := False\<rparr>],
            tokenTableIndex := tokenTableIndex g + 1\<rparr>) s)))"

function delta_loop :: "'u senv \<Rightarrow> int \<Rightarrow> nat \<Rightarrow> 'u sst \<Rightarrow> 'u sst exec" where
  "delta_loop S tokenCount i s =
     (if i < unat (tokenTableIndex (shs s)) then
        bnd (access (arr_get (tokenTable (shs s)) i)) (\<lambda>e.
        bnd (if tt_isFree e then ret s
             else bnd (access (isJsonKeyMatchingAndUpdateValue (clibrary S) (shadowRxBuf (shs s)) tokenCount
                         (structs (shs s) (tt_pStruct e)) (shs s))) (\<lambda>(p, r).
               let s = upd_sh (\<lambda>g. g\<lparr>structs := (structs g)(tt_pStruct e := p)\<rparr>) s
               in case (r, tt_callback e) of
                    (Some (dataLength, DataPosition), Some f) \<Rightarrow> json_cb S f DataPosition dataLength (tt_pStruct e) s
                  | _ \<Rightarrow> ret s)) (\<lambda>s.
        delta_loop S tokenCount (i + 1) s))
      else ret s)"
  by pat_completeness auto
termination
proof (relation "measure (\<lambda>(S, n, i, s). 2 ^ 32 - i)")
  fix s :: "'u sst" and S :: "'u senv" and n :: int and i x :: nat and y :: "'u sst"
  assume "i < unat (tokenTableIndex (shs s))"
  moreover have "unat (tokenTableIndex (shs s)) < 2 ^ 32"
    using unsigned_less [of "tokenTableIndex (shs s)", where ?'a = nat] by simp
  ultimately have "i < 2 ^ 32"
    by (rule less_trans)
  then show "((S, n, i + 1, y), S, n, i, s) \<in> measure (\<lambda>(S, n, i, s). 2 ^ 32 - i)"
    by simp
qed simp

declare delta_loop.simps [simp del]

definition shadow_delta_callback :: "'u senv \<Rightarrow> publish_fields \<Rightarrow> 'u sst \<Rightarrow> 'u sst exec" where
  "shadow_delta_callback S params s =
     (if pf_payloadLen params > of_nat SHADOW_MAX_SIZE_OF_RX_BUFFER then ret s
      else bnd (access (receive_payload params s)) (\<lambda>s.
        bnd (access (on_globals (isJsonValidAndParse (shadowRxBuf (shs s))) s)) (\<lambda>(valid, s).
        case valid of
          None \<Rightarrow> ret s
        | Some tokenCount \<Rightarrow>
            bnd (if shadowDiscardOldDeltaFlag (shs s)
                 then access (extractVersionNumber (shadowRxBuf (shs s)) tokenCount (shs s)) else ret None) (\<lambda>version.
            case version of
              None \<Rightarrow> delta_loop S tokenCount 0 s
            | Some v \<Rightarrow>
                if newer_version v s
                then delta_loop S tokenCount 0 (upd_sh (\<lambda>g. g\<lparr>shadowJsonVersionNum := word_of_int v\<rparr>) s)
                else ret s))))"

section \<open>The callbacks of the client\<close>

text \<open>
  The MQTT client with the callbacks of this file in place.  \<open>AckStatusCallback\<close> unsubscribes, and
  while it waits for the UNSUBACK further messages may arrive and call it again; \<open>shadow_env S n\<close>
  is the client in which such calls are nested at most \<open>n\<close> deep (a deeper one does not return).
\<close>

fun shadow_env :: "'u senv \<Rightarrow> nat \<Rightarrow> 'u sworld env" where
  "shadow_env S 0 = (base S)\<lparr>app := (\<lambda>h topic len msg data s.
     if h \<in> {AckStatusCallback_ptr, shadow_delta_callback_ptr} then None else app (base S) h topic len msg data s)\<rparr>"
| "shadow_env S (Suc n) = (base S)\<lparr>app := (\<lambda>h topic len msg data s.
     if h = AckStatusCallback_ptr then bnd (AckStatusCallback S (shadow_env S n) topic msg s) (\<lambda>s. ret (msg, s))
     else if h = shadow_delta_callback_ptr then bnd (shadow_delta_callback S msg s) (\<lambda>s. ret (msg, s))
     else app (base S) h topic len msg data s)\<rparr>"

section \<open>Messages with documents\<close>

text \<open>The message in the receive buffer has the text of \<open>j\<close> as its payload.\<close>

definition carries :: "publish_fields \<Rightarrow> json \<Rightarrow> 'u sst \<Rightarrow> bool" where
  "carries params j s \<longleftrightarrow>
     mem_read (readBuf (cdata s)) (pf_payload params) (unat (pf_payloadLen params)) = Some (render j) \<and>
     length (render j) < SHADOW_MAX_SIZE_OF_RX_BUFFER \<and> wf_json j \<and> (\<exists>ms. j = JObj ms) \<and>
     length (toks_of j 0) \<le> MAX_JSON_TOKEN_EXPECTED \<and>
     length (shadowRxBuf (shs s)) = SHADOW_MAX_SIZE_OF_RX_BUFFER \<and> length (jsonTokenStruct (shs s)) = MAX_JSON_TOKEN_EXPECTED"

text \<open>The shadow variables after a document was received: only the buffer and the parser have changed.\<close>

definition received :: "json \<Rightarrow> shadow_globals \<Rightarrow> shadow_globals \<Rightarrow> bool" where
  "received j g g' \<longleftrightarrow> (\<exists>rx p ts. g' = g\<lparr>shadowRxBuf := rx, shadowJsonParser := p, jsonTokenStruct := ts\<rparr> \<and>
     holds rx (render j) SHADOW_MAX_SIZE_OF_RX_BUFFER \<and> parsed_as j g' \<and> length ts = MAX_JSON_TOKEN_EXPECTED)"

lemma receivedI:
  "g' = g\<lparr>shadowRxBuf := rx, shadowJsonParser := p, jsonTokenStruct := ts\<rparr> \<Longrightarrow> holds rx (render j) SHADOW_MAX_SIZE_OF_RX_BUFFER \<Longrightarrow>
   parsed_as j g' \<Longrightarrow> length ts = MAX_JSON_TOKEN_EXPECTED \<Longrightarrow> received j g g'"
  unfolding received_def by blast

lemma upd_sh_upd_sh [simp]: "upd_sh f (upd_sh g s) = upd_sh (f \<circ> g) s"
  by (simp add: upd_sh_def)

lemma upd_sh_const: "upd_sh f s = upd_sh (\<lambda>_. f (shs s)) s"
  by (simp add: upd_sh_def)

lemma received_document:
  "received j g g' \<Longrightarrow> wf_json j \<Longrightarrow> (\<exists>ms. j = JObj ms) \<Longrightarrow> length (toks_of j 0) \<le> MAX_JSON_TOKEN_EXPECTED \<Longrightarrow>
   document j (shadowRxBuf g') g'"
  by (auto simp: received_def document_def holds_def)

lemma isJsonValidAndParse_exact:
  assumes "document j doc g"
  shows "\<exists>p ts. isJsonValidAndParse doc g = Some (Some (int (length (toks_of j 0))), g\<lparr>shadowJsonParser := p, jsonTokenStruct := ts\<rparr>) \<and>
    parsed_as j (g\<lparr>shadowJsonParser := p, jsonTokenStruct := ts\<rparr>) \<and> length ts = MAX_JSON_TOKEN_EXPECTED"
proof -
  obtain p ts where "parse_document doc g = Some (int (length (toks_of j 0)), g\<lparr>shadowJsonParser := p, jsonTokenStruct := ts\<rparr>)"
    "parsed_as j (g\<lparr>shadowJsonParser := p, jsonTokenStruct := ts\<rparr>)" "length ts = MAX_JSON_TOKEN_EXPECTED"
    using parse_document_tokens [OF assms] by blast
  then show ?thesis
    using document_object [OF assms, of "g\<lparr>shadowJsonParser := p, jsonTokenStruct := ts\<rparr>"]
    by (intro exI [of _ p] exI [of _ ts]) (auto simp: isJsonValidAndParse_def simp del: arr_get_Some)
qed

lemma mem_read_length: "mem_read buf off n = Some bs \<Longrightarrow> length bs = n"
  by (auto simp: mem_read_def split: if_splits)

lemma receive_document:
  assumes "carries params j s"
  shows "\<exists>s1 g. receive_payload params s = Some s1 \<and>
    on_globals (isJsonValidAndParse (shadowRxBuf (shs s1))) s1 = Some (Some (int (length (toks_of j 0))), upd_sh (\<lambda>_. g) s) \<and>
    received j (shs s) g \<and> cl s1 = cl s"
proof -
  let ?n = "unat (pf_payloadLen params)"
  let ?rx = "render j @ 0 # drop (length (render j) + 1) (shadowRxBuf (shs s))"
  have c: "mem_read (readBuf (cdata s)) (pf_payload params) ?n = Some (render j)" "wf_json j" "\<exists>ms. j = JObj ms"
    "length (render j) < SHADOW_MAX_SIZE_OF_RX_BUFFER" "length (toks_of j 0) \<le> MAX_JSON_TOKEN_EXPECTED"
    "length (shadowRxBuf (shs s)) = SHADOW_MAX_SIZE_OF_RX_BUFFER" "length (jsonTokenStruct (shs s)) = MAX_JSON_TOKEN_EXPECTED"
    using assms by (auto simp: carries_def)
  have n: "?n = length (render j)"
    using mem_read_length [OF c(1)] by simp
  let ?s1 = "upd_sh (\<lambda>g. g\<lparr>shadowRxBuf := ?rx\<rparr>) s"
  have r: "receive_payload params s = Some ?s1"
    using c(1,4,6) n by (simp add: receive_payload_def mem_write_def)
  have h: "holds ?rx (render j) SHADOW_MAX_SIZE_OF_RX_BUFFER"
    using wf_no_NUL(1) [OF c(2)] c(4,6) by (simp add: holds_def)
  have d: "document j ?rx (shs ?s1)"
    using c by (simp add: document_def)
  obtain p ts where p: "isJsonValidAndParse ?rx (shs ?s1) = Some (Some (int (length (toks_of j 0))), (shs ?s1)\<lparr>shadowJsonParser := p, jsonTokenStruct := ts\<rparr>)"
    "parsed_as j ((shs ?s1)\<lparr>shadowJsonParser := p, jsonTokenStruct := ts\<rparr>)" "length ts = MAX_JSON_TOKEN_EXPECTED"
    using isJsonValidAndParse_exact [OF d] by blast
  let ?g = "(shs s)\<lparr>shadowRxBuf := ?rx, shadowJsonParser := p, jsonTokenStruct := ts\<rparr>"
  have g: "(shs ?s1)\<lparr>shadowJsonParser := p, jsonTokenStruct := ts\<rparr> = ?g"
    by simp
  have "received j (shs s) ?g"
    by (rule receivedI [OF refl h _ p(3)]) (use p(2) g in simp)
  moreover have "on_globals (isJsonValidAndParse (shadowRxBuf (shs ?s1))) ?s1 = Some (Some (int (length (toks_of j 0))), upd_sh (\<lambda>_. ?g) s)"
    using p(1) g by (simp add: on_globals_def comp_def)
  ultimately show ?thesis
    using r by (intro exI [of _ ?s1] exI [of _ ?g]) simp
qed

lemma payload_fits: "carries params j s \<Longrightarrow> \<not> pf_payloadLen params > of_nat SHADOW_MAX_SIZE_OF_RX_BUFFER"
  by (auto simp: carries_def word_less_nat_alt records_config config_defs dest!: mem_read_length)

text \<open>The version of a document, where there is a readable one.\<close>

definition has_version :: "json \<Rightarrow> nat option \<Rightarrow> bool" where
  "has_version j v \<longleftrightarrow> no_value (cs ''version'') j \<and>
     (case v of None \<Rightarrow> lookup (cs ''version'') j = None
      | Some n \<Rightarrow> lookup (cs ''version'') j = Some (JPrim (dec n)) \<and> n < 2 ^ 32)"

lemma version_of_received:
  assumes "received j g g'" and "carries params j s" and "has_version j v"
  shows "extractVersionNumber (shadowRxBuf g') (int (length (toks_of j 0))) g' = Some (map_option int v)"
proof -
  have d: "document j (shadowRxBuf g') g'"
    using received_document [OF assms(1)] assms(2) by (simp add: carries_def)
  have "parsed_as j g'"
    using assms(1) by (auto simp: received_def)
  then show ?thesis
    using version_found [OF d] assms(3) by (auto simp: has_version_def split: option.splits)
qed

lemma newer_version_nat: "newer_version (int v) s \<longleftrightarrow> unat (shadowJsonVersionNum (shs s)) < v"
  unfolding newer_version_def by (simp only: uint_nat of_nat_less_iff)

lemma version_gate:
  assumes "carries params j s" and "shadowDiscardOldDeltaFlag (shs s)" and "has_version j (Some v)"
  shows "\<exists>g. received j (shs s) g \<and>
    shadow_delta_callback S params s =
      (if unat (shadowJsonVersionNum (shs s)) < v
       then delta_loop S (int (length (toks_of j 0))) 0 (upd_sh (\<lambda>_. g\<lparr>shadowJsonVersionNum := of_nat v\<rparr>) s)
       else ret (upd_sh (\<lambda>_. g) s))"
proof -
  obtain s1 g where r: "receive_payload params s = Some s1"
    "on_globals (isJsonValidAndParse (shadowRxBuf (shs s1))) s1 = Some (Some (int (length (toks_of j 0))), upd_sh (\<lambda>_. g) s)"
    "received j (shs s) g"
    using receive_document [OF assms(1)] by blast
  have f: "shadowDiscardOldDeltaFlag g" "shadowJsonVersionNum g = shadowJsonVersionNum (shs s)"
    using r(3) assms(2) by (auto simp: received_def)
  show ?thesis
    using r payload_fits [OF assms(1)] version_of_received [OF r(3) assms(1,3)] f
    by (intro exI [of _ g]) (simp add: shadow_delta_callback_def newer_version_nat comp_def del: of_nat_numeral)
qed

text \<open>
  Old deltas are ignored.  When the message carries a document with a version and old deltas are
  to be discarded, a version that is not newer than the last one received leaves everything but the
  receive buffer and the parser alone, and no callback runs; a newer version becomes the last one
  and the registered keys are then looked up in the document.
\<close>

theorem delta_version_gate:
  assumes "carries params j s" and "shadowDiscardOldDeltaFlag (shs s)" and "has_version j (Some v)"
  shows "\<exists>g. received j (shs s) g \<and>
    shadow_delta_callback S params s =
      (if unat (shadowJsonVersionNum (shs s)) < v
       then delta_loop S (int (length (toks_of j 0))) 0 (upd_sh (\<lambda>_. g\<lparr>shadowJsonVersionNum := of_nat v\<rparr>) s)
       else ret (upd_sh (\<lambda>_. g) s))"
  by (rule version_gate [OF assms])

section \<open>Acknowledgements\<close>

lemma c_text_split: "c_text m = Some s \<Longrightarrow> \<exists>r. m = s @ 0 # r \<and> 0 \<notin> set s"
proof -
  assume "c_text m = Some s"
  then have "0 \<in> set m" "s = takeWhile (\<lambda>c. c \<noteq> 0) m"
    by (auto simp: c_text_def split: if_splits)
  moreover from this obtain ys zs where "m = ys @ 0 # zs" "0 \<notin> set ys"
    using split_list_first by metis
  moreover from this have "takeWhile (\<lambda>c. c \<noteq> 0) ys = ys"
    by (auto simp: takeWhile_eq_all_conv)
  ultimately show ?thesis
    by (auto simp: takeWhile_tail)
qed

lemma c_text_prefix: "take (length s + 1) m = s @ [0] \<Longrightarrow> 0 \<notin> set s \<Longrightarrow> c_text m = Some s"
  using c_text_append [of s "drop (length s + 1) m"] append_take_drop_id [of "length s + 1" m] by simp

lemma c_streq_text: "c_text a = Some x \<Longrightarrow> c_text b = Some y \<Longrightarrow> c_streq a b = Some (x = y)"
  using c_text_split c_streq_c_string by metis

text \<open>A request that waits for the acknowledgement with the token \<open>tok\<close>, and the first such request.\<close>

definition waits_for :: "u8 list \<Rightarrow> ToBeReceivedAckRecord_t \<Rightarrow> bool" where
  "waits_for tok r \<longleftrightarrow> \<not> ar_isFree r \<and> c_text (clientTokenID r) = Some tok"

definition first_waiting :: "u8 list \<Rightarrow> 'u sst \<Rightarrow> nat list \<Rightarrow> nat option" where
  "first_waiting tok s is = find (\<lambda>i. waits_for tok (AckWaitList (shs s) ! i)) is"

text \<open>What happens to the request in slot \<open>i\<close>.\<close>

definition answer :: "'u senv \<Rightarrow> 'u sworld env \<Rightarrow> nat \<Rightarrow> Shadow_Ack_Status_t \<Rightarrow> 'u sst \<Rightarrow> 'u sst exec" where
  "answer S E i status s =
     (let r = AckWaitList (shs s) ! i
      in bnd (case ar_callback r of
                None \<Rightarrow> ret s
              | Some f \<Rightarrow> action_cb S f (ar_thingName r) (ar_action r) status (ar_pCallbackContext r) s) (\<lambda>s.
         bnd (unsubscribeFromAcceptedAndRejected E i s) (\<lambda>s.
         ret (set_ack i (\<lambda>r. r\<lparr>ar_isFree := True\<rparr>) s))))"

lemma ack_loop_first:
  assumes "\<forall>r \<in> set (AckWaitList (shs s)). 0 \<in> set (clientTokenID r)" and "\<forall>i \<in> set is. i < length (AckWaitList (shs s))"
    and "c_text buf = Some tok" and "ack_status topic = Some status"
  shows "ack_loop S E topic buf is s = (case first_waiting tok s is of None \<Rightarrow> ret s | Some i \<Rightarrow> answer S E i status s)"
  using assms(2)
proof (induction "is")
  case Nil
  then show ?case
    by (simp add: first_waiting_def)
next
  case (Cons i js)
  let ?r = "AckWaitList (shs s) ! i"
  have i: "arr_get (AckWaitList (shs s)) i = Some ?r"
    using Cons.prems by simp
  have "0 \<in> set (clientTokenID ?r)"
    using assms(1) Cons.prems by simp
  then obtain x where x: "c_text (clientTokenID ?r) = Some x"
    by (auto simp: c_text_def)
  show ?case
    using Cons.IH Cons.prems i x c_streq_text [OF x assms(3)] assms(4)
    by (auto simp: first_waiting_def waits_for_def answer_def Let_def simp del: arr_get_Some split: option.split)
qed

text \<open>The version that a message leaves behind.\<close>

definition version_after :: "bool \<Rightarrow> nat option \<Rightarrow> u32 \<Rightarrow> u32" where
  "version_after mine v old = (case v of Some n \<Rightarrow> if mine \<and> unat old < n then of_nat n else old | None \<Rightarrow> old)"

lemma reparsed_version:
  assumes "received j g g'" and "reparsed j (g'\<lparr>shadowJsonVersionNum := v\<rparr>) g''"
  shows "\<exists>g1. received j g g1 \<and> g'' = g1\<lparr>shadowJsonVersionNum := v\<rparr>"
proof -
  obtain p ts where p: "g'' = g'\<lparr>shadowJsonVersionNum := v, shadowJsonParser := p, jsonTokenStruct := ts\<rparr>"
    "parsed_as j g''" "length (jsonTokenStruct g'') = MAX_JSON_TOKEN_EXPECTED"
    using assms(2) by (auto simp: reparsed_def)
  let ?g1 = "g'\<lparr>shadowJsonParser := p, jsonTokenStruct := ts\<rparr>"
  obtain rx p' ts' where "g' = g\<lparr>shadowRxBuf := rx, shadowJsonParser := p', jsonTokenStruct := ts'\<rparr>"
    and rx: "holds rx (render j) SHADOW_MAX_SIZE_OF_RX_BUFFER"
    using assms(1) by (auto simp: received_def)
  then have g1: "?g1 = g\<lparr>shadowRxBuf := rx, shadowJsonParser := p, jsonTokenStruct := ts\<rparr>"
    by simp
  have "received j g ?g1"
    by (rule receivedI [OF g1 rx]) (use p in \<open>simp_all add: parsed_as_def\<close>)
  moreover have "g'' = ?g1\<lparr>shadowJsonVersionNum := v\<rparr>"
    using p(1) by simp
  ultimately show ?thesis
    by blast
qed

text \<open>The client token of a document that was received.\<close>

lemma token_of_received:
  assumes "received j (shs s) g" and "carries params j s" and "no_value (cs ''clientToken'') j"
    and "client_token_of j = Some (JStr tok)" and "length tok < MAX_SIZE_CLIENT_TOKEN_CLIENT_SEQUENCE"
  shows "\<exists>buf g1. on_globals (\<lambda>g. do { (r, t, g) \<leftarrow> extractClientToken (shadowRxBuf g) (replicate MAX_SIZE_CLIENT_TOKEN_CLIENT_SEQUENCE 0) g;
      Some ((r, t), g) }) (upd_sh (\<lambda>_. g\<lparr>shadowJsonVersionNum := v\<rparr>) s) =
      Some ((True, buf), upd_sh (\<lambda>_. g1\<lparr>shadowJsonVersionNum := v\<rparr>) s) \<and> c_text buf = Some tok \<and> received j (shs s) g1"
proof -
  let ?g = "g\<lparr>shadowJsonVersionNum := v\<rparr>"
  let ?buf = "replicate MAX_SIZE_CLIENT_TOKEN_CLIENT_SEQUENCE 0"
  have "document j (shadowRxBuf g) g"
    using received_document [OF assms(1)] assms(2) by (simp add: carries_def)
  then have d: "document j (shadowRxBuf ?g) ?g"
    by (simp add: document_def)
  have l: "length tok < 256" "length tok < length ?buf"
    using assms(5) by (simp_all add: shadow_config)
  obtain buf g' where e: "extractClientToken (shadowRxBuf ?g) ?buf ?g = Some (True, buf, g')"
    "take (length tok + 1) buf = tok @ [0]" "reparsed j ?g g'"
    using extract_token [OF d assms(3,4) l(1), of ?buf] l(2) by auto
  have "c_text buf = Some tok"
    using c_text_prefix [OF e(2)] lookup_wf(1) [OF _ assms(4)] assms(2) str_ok_no_NUL by (auto simp: carries_def)
  then show ?thesis
    using reparsed_version [OF assms(1) e(3)] e(1) by (auto simp: on_globals_def comp_def)
qed

lemma ack_dispatch:
  assumes "carries params j s" and "has_version j v" and "no_value (cs ''clientToken'') j"
    and "client_token_of j = Some (JStr tok)" and "length tok < MAX_SIZE_CLIENT_TOKEN_CLIENT_SEQUENCE"
    and "length (AckWaitList (shs s)) = MAX_ACKS_TO_COMEIN_AT_ANY_GIVEN_TIME"
    and "\<forall>r \<in> set (AckWaitList (shs s)). 0 \<in> set (clientTokenID r)"
    and "isAckForMyThingName (drop topic (readBuf (cdata s))) (shs s) = Some mine"
    and "ack_status (drop topic (readBuf (cdata s))) = Some status"
  shows "\<exists>g s1. received j (shs s) g \<and>
    s1 = upd_sh (\<lambda>_. g\<lparr>shadowJsonVersionNum := version_after mine v (shadowJsonVersionNum (shs s))\<rparr>) s \<and>
    AckStatusCallback S E topic params s =
      (case first_waiting tok s [0..<MAX_ACKS_TO_COMEIN_AT_ANY_GIVEN_TIME] of None \<Rightarrow> ret s1 | Some i \<Rightarrow> answer S E i status s1)"
proof -
  let ?topic = "drop topic (readBuf (cdata s))"
  let ?v = "version_after mine v (shadowJsonVersionNum (shs s))"
  obtain s1 g where r: "receive_payload params s = Some s1"
    "on_globals (isJsonValidAndParse (shadowRxBuf (shs s1))) s1 = Some (Some (int (length (toks_of j 0))), upd_sh (\<lambda>_. g) s)"
    "received j (shs s) g"
    using receive_document [OF assms(1)] by blast
  have same: "myThingName g = myThingName (shs s)" "shadowJsonVersionNum g = shadowJsonVersionNum (shs s)"
    using r(3) by (auto simp: received_def)
  then have mine: "isAckForMyThingName ?topic g = Some mine"
    using assms(8) by (simp add: isAckForMyThingName_def)
  let ?g = "g\<lparr>shadowJsonVersionNum := ?v\<rparr>"
  obtain buf g1 where a3: "on_globals (\<lambda>g. do { (r, t, g) \<leftarrow> extractClientToken (shadowRxBuf g) (replicate MAX_SIZE_CLIENT_TOKEN_CLIENT_SEQUENCE 0) g;
      Some ((r, t), g) }) (upd_sh (\<lambda>_. ?g) s) = Some ((True, buf), upd_sh (\<lambda>_. g1\<lparr>shadowJsonVersionNum := ?v\<rparr>) s)"
    and t: "c_text buf = Some tok" and g1: "received j (shs s) g1"
    using token_of_received [OF r(3) assms(1,3-5)] by blast
  let ?s1 = "upd_sh (\<lambda>_. g1\<lparr>shadowJsonVersionNum := ?v\<rparr>) s"
  define w where "w = (if mine then map_option int v else None)"
  have a1: "(if mine then access (extractVersionNumber (shadowRxBuf (shs (upd_sh (\<lambda>_. g) s))) (int (length (toks_of j 0))) (shs (upd_sh (\<lambda>_. g) s)))
      else ret None) = ret w"
    using version_of_received [OF r(3) assms(1,2)] by (simp add: w_def)
  have a2: "(case w of None \<Rightarrow> upd_sh (\<lambda>_. g) s
      | Some n \<Rightarrow> if newer_version n (upd_sh (\<lambda>_. g) s)
          then upd_sh (\<lambda>g. g\<lparr>shadowJsonVersionNum := word_of_int n\<rparr>) (upd_sh (\<lambda>_. g) s) else upd_sh (\<lambda>_. g) s) = upd_sh (\<lambda>_. ?g) s"
    using same(2) by (cases v) (auto simp: w_def version_after_def newer_version_nat comp_def simp flip: same(2))
  have a4: "ack_loop S E ?topic buf [0..<MAX_ACKS_TO_COMEIN_AT_ANY_GIVEN_TIME] ?s1 =
      (case first_waiting tok s [0..<MAX_ACKS_TO_COMEIN_AT_ANY_GIVEN_TIME] of None \<Rightarrow> ret ?s1 | Some i \<Rightarrow> answer S E i status ?s1)"
  proof -
    have a: "AckWaitList (shs ?s1) = AckWaitList (shs s)"
      using g1 by (auto simp: received_def)
    then have "first_waiting tok ?s1 [0..<MAX_ACKS_TO_COMEIN_AT_ANY_GIVEN_TIME] = first_waiting tok s [0..<MAX_ACKS_TO_COMEIN_AT_ANY_GIVEN_TIME]"
      by (simp add: first_waiting_def)
    then show ?thesis
      using ack_loop_first [of ?s1 "[0..<MAX_ACKS_TO_COMEIN_AT_ANY_GIVEN_TIME]" buf tok ?topic status S E] a assms(6,7,9) t by simp
  qed
  have "AckStatusCallback S E topic params s =
      (case first_waiting tok s [0..<MAX_ACKS_TO_COMEIN_AT_ANY_GIVEN_TIME] of None \<Rightarrow> ret ?s1 | Some i \<Rightarrow> answer S E i status ?s1)"
    using r(1,2) payload_fits [OF assms(1)] mine unfolding AckStatusCallback_def Let_def
    by (simp add: a1 a2 a3 a4 split del: if_split)
  then show ?thesis
    using g1 by blast
qed


lemma starts_with_defined: "length n \<le> length m \<Longrightarrow> \<exists>b. starts_with m n = Some b"
  by (induction m n rule: starts_with.induct) auto

lemma starts_with_append: "starts_with (n @ m) n = Some True"
  by (induction n) auto

lemma c_strstr_found: "0 \<notin> set pre \<Longrightarrow> c_strstr (pre @ n @ post) n = Some True"
proof (induction pre)
  case Nil
  then show ?case
    using starts_with_append [of n post] by (cases n; cases post) auto
next
  case (Cons c pre)
  obtain b where "starts_with (c # pre @ n @ post) n = Some b"
    using starts_with_defined [of n "c # pre @ n @ post"] by auto
  then show ?case
    using Cons by auto
qed

text \<open>
  The payload can decide the status.  The topic name in the receive buffer is not terminated, so
  the search for the word \<open>accepted\<close> runs on into the payload behind it: whatever the topic is, also
  one that ends in \<open>rejected\<close>, a document in which the word occurs is reported as accepted.
\<close>

theorem payload_decides_status:
  assumes "drop topic (readBuf (cdata s)) = t @ render j @ rest" and "0 \<notin> set t" and "wf_json j"
    and "render j = a @ cs ''accepted'' @ b"
  shows "ack_status (drop topic (readBuf (cdata s))) = Some SHADOW_ACK_ACCEPTED"
proof -
  have "0 \<notin> set (t @ a)"
    using assms(2) wf_no_NUL(1) [OF assms(3)] assms(4) by simp
  from c_strstr_found [OF this, of "cs ''accepted''" "b @ rest"] show ?thesis
    using assms(1,4) by (simp add: ack_status_def)
qed

section \<open>Slots of the subscription list\<close>

lemma free_subscription_loop_first:
  assumes "\<forall>m \<in> set is. m < length l" and "first_free = find (\<lambda>m. sr_isFree (l ! m)) is"
  shows "free_subscription_loop l is = Some (case first_free of None \<Rightarrow> (-1, l) | Some m \<Rightarrow> (int m, l[m := (l ! m)\<lparr>sr_isFree := False\<rparr>]))"
  using assms by (induction "is" arbitrary: first_free) (auto simp: arr_get_def)

lemma find_first: "i < n \<Longrightarrow> P i \<Longrightarrow> \<forall>m < i. \<not> P m \<Longrightarrow> find P [0..<n] = Some i"
  by (auto simp: find_Some_iff)

lemma set_sub_simps [simp]:
  "cl (set_sub i f s) = cl s" "SubscriptionList (shs (set_sub i f s)) = (SubscriptionList (shs s))[i := f (SubscriptionList (shs s) ! i)]"
  "pMqttClient (shs (set_sub i f s)) = pMqttClient (shs s)"
  by (simp_all add: set_sub_def)

lemma c_strlen_defined: "\<exists>n. c_strlen (x @ 0 # y) = Some n"
  by (induction x) auto

lemma snprintf_topic:
  assumes "length buf = MAX_SHADOW_TOPIC_LENGTH_BYTES"
  shows "\<exists>y. c_snprintf buf 0 (of_nat MAX_SHADOW_TOPIC_LENGTH_BYTES) s =
    Some (int (length s), take (MAX_SHADOW_TOPIC_LENGTH_BYTES - 1) s @ 0 # y)"
proof -
  define x where "x = take (MAX_SHADOW_TOPIC_LENGTH_BYTES - 1) s"
  have u: "unat (of_nat MAX_SHADOW_TOPIC_LENGTH_BYTES :: size_t) = MAX_SHADOW_TOPIC_LENGTH_BYTES" "of_nat MAX_SHADOW_TOPIC_LENGTH_BYTES \<noteq> (0 :: size_t)"
    by (simp_all add: records_config)
  have "length x + 1 \<le> length buf"
    using assms by (simp add: x_def records_config)
  then have "c_snprintf buf 0 (of_nat MAX_SHADOW_TOPIC_LENGTH_BYTES) s = Some (int (length s), x @ 0 # drop (length x + 1) buf)"
    unfolding c_snprintf_def u(1) x_def [symmetric] using u(2) by (simp add: mem_write_def)
  then show ?thesis
    unfolding x_def by blast
qed

lemma topic_text:
  assumes "length buf = MAX_SHADOW_TOPIC_LENGTH_BYTES" and "c_arg thing = Some t"
  shows "\<exists>x y. topicNameFromThingAndAction buf thing action ack = Some (x @ 0 # y) \<and> 0 \<notin> set x \<and> x \<noteq> [] \<and>
    length x < MAX_SHADOW_TOPIC_LENGTH_BYTES"
proof -
  define z where "z = cs ''$aws/things/'' @ t @ cs ''/shadow/'' @ action_text action @ ack_text ack"
  have "0 \<notin> set t"
    using c_text_split assms(2) by (fastforce simp: c_arg_def split: option.splits)
  then have "0 \<notin> set z" "z \<noteq> []"
    by (cases action; cases ack; simp add: z_def cs_def of_char_def)+
  then have "0 \<notin> set (take (MAX_SHADOW_TOPIC_LENGTH_BYTES - 1) z)" "take (MAX_SHADOW_TOPIC_LENGTH_BYTES - 1) z \<noteq> []"
    "length (take (MAX_SHADOW_TOPIC_LENGTH_BYTES - 1) z) < MAX_SHADOW_TOPIC_LENGTH_BYTES"
    by (auto dest: in_set_takeD simp: records_config)
  moreover obtain y where "topicNameFromThingAndAction buf thing action ack = Some (take (MAX_SHADOW_TOPIC_LENGTH_BYTES - 1) z @ 0 # y)"
    using snprintf_topic [OF assms(1), of z] assms(2) by (auto simp: topicNameFromThingAndAction_def z_def [symmetric])
  ultimately show ?thesis
    by blast
qed

lemma topic_defined:
  assumes "length buf = MAX_SHADOW_TOPIC_LENGTH_BYTES" and "c_arg thing = Some t"
  shows "\<exists>topic n. topicNameFromThingAndAction buf thing action ack = Some topic \<and> c_strlen topic = Some n"
  using topic_text [OF assms] c_strlen_c_string by blast

text \<open>The two slots that a subscription takes: the first two that are free.\<close>

lemma take_two_slots:
  assumes "length (SubscriptionList (shs s)) = MAX_TOPICS_AT_ANY_GIVEN_TIME" and "i < k" and "k < MAX_TOPICS_AT_ANY_GIVEN_TIME"
    and "sr_isFree (SubscriptionList (shs s) ! i)" and "sr_isFree (SubscriptionList (shs s) ! k)"
    and "\<forall>m < k. m \<noteq> i \<longrightarrow> \<not> sr_isFree (SubscriptionList (shs s) ! m)"
  shows "getNextFreeIndexOfSubscriptionList s = Some (int i, set_sub i (\<lambda>r. r\<lparr>sr_isFree := False\<rparr>) s)"
    and "getNextFreeIndexOfSubscriptionList (set_sub i (\<lambda>r. r\<lparr>sr_isFree := False\<rparr>) s) =
      Some (int k, set_sub k (\<lambda>r. r\<lparr>sr_isFree := False\<rparr>) (set_sub i (\<lambda>r. r\<lparr>sr_isFree := False\<rparr>) s))"
proof -
  let ?l = "SubscriptionList (shs s)"
  let ?l' = "?l[i := (?l ! i)\<lparr>sr_isFree := False\<rparr>]"
  have f: "find (\<lambda>m. sr_isFree (?l ! m)) [0..<MAX_TOPICS_AT_ANY_GIVEN_TIME] = Some i"
    "find (\<lambda>m. sr_isFree (?l' ! m)) [0..<MAX_TOPICS_AT_ANY_GIVEN_TIME] = Some k"
    by (rule find_first, use assms in \<open>auto simp: nth_list_update\<close>)+
  have "free_subscription_loop ?l [0..<MAX_TOPICS_AT_ANY_GIVEN_TIME] = Some (int i, ?l')"
    "free_subscription_loop ?l' [0..<MAX_TOPICS_AT_ANY_GIVEN_TIME] = Some (int k, ?l'[k := (?l' ! k)\<lparr>sr_isFree := False\<rparr>])"
    using free_subscription_loop_first [OF _ f(1) [symmetric]] free_subscription_loop_first [OF _ f(2) [symmetric]] assms(1) by simp_all
  then show "getNextFreeIndexOfSubscriptionList s = Some (int i, set_sub i (\<lambda>r. r\<lparr>sr_isFree := False\<rparr>) s)"
    "getNextFreeIndexOfSubscriptionList (set_sub i (\<lambda>r. r\<lparr>sr_isFree := False\<rparr>) s) =
      Some (int k, set_sub k (\<lambda>r. r\<lparr>sr_isFree := False\<rparr>) (set_sub i (\<lambda>r. r\<lparr>sr_isFree := False\<rparr>) s))"
    by (simp_all add: getNextFreeIndexOfSubscriptionList_def set_sub_def upd_sh_def)
qed

text \<open>
  A refused subscription loses a slot.  When the MQTT client refuses the subscription to the
  \<open>accepted\<close> topic (and leaves the shadow's tables alone), \<open>subscribeToShadowActionAcks\<close> passes the
  error on and frees the slot of that topic, but the slot that it had reserved for the \<open>rejected\<close>
  topic stays taken for ever.
\<close>

theorem refused_subscription_leaks_slot:
  assumes "length (SubscriptionList (shs s)) = MAX_TOPICS_AT_ANY_GIVEN_TIME" and "i < k" and "k < MAX_TOPICS_AT_ANY_GIVEN_TIME"
    and "sr_isFree (SubscriptionList (shs s) ! i)" and "sr_isFree (SubscriptionList (shs s) ! k)"
    and "\<forall>m < k. m \<noteq> i \<longrightarrow> \<not> sr_isFree (SubscriptionList (shs s) ! m)"
    and "sr_count (SubscriptionList (shs s) ! i) \<noteq> 1" and "length (sr_Topic (SubscriptionList (shs s) ! i)) = MAX_SHADOW_TOPIC_LENGTH_BYTES"
    and "c_arg pThingName = Some t" and "rc \<noteq> SUCCESS"
    and "\<And>topic n s1. cl s1 = cl s \<Longrightarrow>
      \<exists>s2. aws_iot_mqtt_subscribe E (pMqttClient (shs s)) (Some topic) n QOS0 (Some AckStatusCallback_ptr) None s1 = ret (rc, s2) \<and> shs s2 = shs s1"
  shows "\<exists>s'. subscribeToShadowActionAcks E pThingName action isSticky s = ret (rc, s') \<and>
    sr_isFree (SubscriptionList (shs s') ! i) \<and> \<not> sr_isFree (SubscriptionList (shs s') ! k)"
proof -
  let ?busy = "\<lambda>r. r\<lparr>sr_isFree := False\<rparr>"
  let ?s1 = "set_sub k ?busy (set_sub i ?busy s)"
  let ?r = "(SubscriptionList (shs s) ! i)\<lparr>sr_isFree := False\<rparr>"
  have ik: "i < length (SubscriptionList (shs s))" "k < length (SubscriptionList (shs s))" "i \<noteq> k"
    using assms(1-3) by auto
  have r: "arr_get (SubscriptionList (shs ?s1)) i = Some ?r"
    using ik by (simp add: nth_list_update)
  obtain topic n where topic: "topicNameFromThingAndAction (sr_Topic ?r) pThingName action SHADOW_ACCEPTED = Some topic" "c_strlen topic = Some n"
    using topic_defined [OF _ assms(9), of "sr_Topic ?r" action SHADOW_ACCEPTED] assms(8) by auto
  let ?s2 = "set_sub i (\<lambda>r. r\<lparr>sr_Topic := topic\<rparr>) ?s1"
  obtain s3 where s3: "aws_iot_mqtt_subscribe E (pMqttClient (shs s)) (Some topic) (of_nat n) QOS0 (Some AckStatusCallback_ptr) None ?s2 = ret (rc, s3)"
    "shs s3 = shs ?s2"
    using assms(11) [of ?s2 topic "of_nat n"] by auto
  have "subscribe_slot E i pThingName action SHADOW_ACCEPTED ?s1 = ret (rc, s3)"
    using r topic s3(1) by (simp add: subscribe_slot_def del: arr_get_Some)
  moreover have "clear_entries E (int i) (int k) s3 = ret (set_sub i (\<lambda>r. r\<lparr>sr_isFree := True\<rparr>) s3)"
    using s3(2) ik assms(7) by (simp add: clear_entries_def nth_list_update arr_get_def)
  ultimately have "subscribeToShadowActionAcks E pThingName action isSticky s = ret (rc, set_sub i (\<lambda>r. r\<lparr>sr_isFree := True\<rparr>) s3)"
    using take_two_slots [OF assms(1-6)] assms(10) by (simp add: subscribeToShadowActionAcks_def)
  moreover have "sr_isFree (SubscriptionList (shs (set_sub i (\<lambda>r. r\<lparr>sr_isFree := True\<rparr>) s3)) ! i)"
    "\<not> sr_isFree (SubscriptionList (shs (set_sub i (\<lambda>r. r\<lparr>sr_isFree := True\<rparr>) s3)) ! k)"
    using s3(2) ik by (simp_all add: nth_list_update)
  ultimately show ?thesis
    by blast
qed

text \<open>
  With no slot left the code leaves the list.  When every slot is taken, as after enough refused
  subscriptions, \<open>subscribeToShadowActionAcks\<close> reads the entry with the index \<open>-1\<close>.
\<close>

theorem exhausted_slots_fault:
  assumes "length (SubscriptionList (shs s)) = MAX_TOPICS_AT_ANY_GIVEN_TIME" and "\<forall>r \<in> set (SubscriptionList (shs s)). \<not> sr_isFree r"
  shows "subscribeToShadowActionAcks E pThingName action isSticky s = Some Fault"
proof -
  let ?l = "SubscriptionList (shs s)"
  have "find (\<lambda>m. sr_isFree (?l ! m)) [0..<MAX_TOPICS_AT_ANY_GIVEN_TIME] = None"
    using assms by (auto simp: find_None_iff)
  then have "free_subscription_loop ?l [0..<MAX_TOPICS_AT_ANY_GIVEN_TIME] = Some (-1, ?l)"
    using free_subscription_loop_first [of "[0..<MAX_TOPICS_AT_ANY_GIVEN_TIME]" ?l None] assms(1) by simp
  then have "getNextFreeIndexOfSubscriptionList s = Some (-1, s)"
    by (simp add: getNextFreeIndexOfSubscriptionList_def upd_sh_def)
  then show ?thesis
    by (simp add: subscribeToShadowActionAcks_def clear_entries_def)
qed

section \<open>Samples\<close>

text \<open>A device \<open>d\<close> whose request with the token \<open>c-7\<close> waits in the first slot, and a message for it.\<close>

definition idle_ack :: ToBeReceivedAckRecord_t where
  "idle_ack = \<lparr>clientTokenID = replicate 90 0, ar_thingName = replicate 20 0, ar_action = SHADOW_GET, ar_callback = None,
     ar_pCallbackContext = None, ar_isFree = True, ar_timer = init_timer\<rparr>"

definition idle_sub :: SubscriptionRecord_t where
  "idle_sub = \<lparr>sr_Topic = replicate 80 0, sr_count = 0, sr_isFree = True, sr_isSticky = False\<rparr>"

definition sample_shadow :: shadow_globals where
  "sample_shadow = \<lparr>mqttClientID = cs ''c'' @ replicate 79 0, clientTokenNum = 8, shadowJsonParser = \<lparr>pos = 0, toknext = 0, toksuper = -1\<rparr>,
     jsonTokenStruct = replicate 120 no_token_yet,
     AckWaitList = idle_ack\<lparr>clientTokenID := cs ''c-7'' @ replicate 87 0, ar_callback := Some 7, ar_isFree := False\<rparr> # replicate 9 idle_ack,
     pMqttClient = TheClient, myThingName = cs ''d'' @ replicate 19 0, shadowDeltaTopic = replicate 80 0,
     SubscriptionList = replicate 20 idle_sub, shadowRxBuf = replicate 513 0,
     tokenTable = replicate 120 \<lparr>tt_pKey = None, tt_pStruct = 0, tt_callback = None, tt_isFree = True\<rparr>, tokenTableIndex = 0,
     deltaTopicSubscribedFlag = False, shadowJsonVersionNum = 4, shadowDiscardOldDeltaFlag = True, structs = (\<lambda>a. temperature)\<rparr>"

definition shadow_state :: "u8 list \<Rightarrow> json \<Rightarrow> unit sst" where
  "shadow_state t j = \<lparr>cl = sample_client\<lparr>clientData := (clientData sample_client)\<lparr>readBuf := t @ render j @ replicate (512 - length t - length (render j)) 0\<rparr>\<rparr>,
     wd = \<lparr>sh = sample_shadow, outside = ()\<rparr>\<rparr>"

definition message_of :: "u8 list \<Rightarrow> json \<Rightarrow> publish_fields" where
  "message_of t j = \<lparr>pf_dup = 0, pf_qos = QOS0, pf_retained = 0, pf_packetId = None, pf_topicName = 0, pf_topicNameLen = of_nat (length t),
     pf_payload = length t, pf_payloadLen = of_nat (length (render j))\<rparr>"

definition sample_ack :: "u8 list \<Rightarrow> json" where
  "sample_ack v = JObj (MCons [] (cs ''version'') [] (JPrim v) (MCons [] (cs ''clientToken'') [] (JStr (cs ''c-7'')) MNil))"

lemma shadow_state_carries:
  assumes "wf_json j" and "\<exists>ms. j = JObj ms" and "length (render j) \<le> 512" and "length (toks_of j 0) \<le> 120"
  shows "carries (message_of t j) j (shadow_state t j)"
proof -
  have "unat (of_nat (length (render j)) :: size_t) = length (render j)"
    using assms(3) by (simp add: unsigned_of_nat take_bit_nat_eq_self)
  then show ?thesis
    using assms by (simp add: carries_def message_of_def shadow_state_def mem_read_def sample_shadow_def records_config shadow_config config_defs)
qed

lemma sample_ack_facts:
  assumes "v = 4 \<or> v = 5"
  shows "wf_json (sample_ack (dec v))" "has_version (sample_ack (dec v)) (Some v)" "no_value (cs ''clientToken'') (sample_ack (dec v))"
    "client_token_of (sample_ack (dec v)) = Some (JStr (cs ''c-7''))" "length (render (sample_ack (dec v))) = 33"
    "length (toks_of (sample_ack (dec v)) 0) = 5"
proof -
  have d: "length (dec v) = 1" "v < 2 ^ 32"
    using assms by (elim disjE; simp add: dec.simps)+
  have "prim_ok (dec v)"
    using assms by (elim disjE; simp add: dec.simps prim_ok_def)
  then show "wf_json (sample_ack (dec v))"
    by (simp add: sample_ack_def ws_ok_def str_ok_def cs_def of_char_def)
  show "has_version (sample_ack (dec v)) (Some v)" "no_value (cs ''clientToken'') (sample_ack (dec v))"
    "client_token_of (sample_ack (dec v)) = Some (JStr (cs ''c-7''))"
    using d by (simp_all add: sample_ack_def has_version_def cs_def of_char_def)
  show "length (render (sample_ack (dec v))) = 33" "length (toks_of (sample_ack (dec v)) 0) = 5"
    by (simp_all add: sample_ack_def cs_def d)
qed

lemma sample_ack_carried: "v = 4 \<or> v = 5 \<Longrightarrow> carries (message_of t (sample_ack (dec v))) (sample_ack (dec v)) (shadow_state t (sample_ack (dec v)))"
  using sample_ack_facts [of v] by (intro shadow_state_carries) (auto simp: sample_ack_def)

theorem delta_version_gate_witness:
  "\<forall>S. \<exists>g. received (sample_ack (dec 4)) sample_shadow g \<and>
     shadow_delta_callback S (message_of [] (sample_ack (dec 4))) (shadow_state [] (sample_ack (dec 4))) =
       ret (upd_sh (\<lambda>_. g) (shadow_state [] (sample_ack (dec 4))))"
proof
  fix S :: "unit senv"
  have "shs (shadow_state [] j) = sample_shadow" for j
    by (simp add: shadow_state_def)
  then show "\<exists>g. received (sample_ack (dec 4)) sample_shadow g \<and>
     shadow_delta_callback S (message_of [] (sample_ack (dec 4))) (shadow_state [] (sample_ack (dec 4))) =
       ret (upd_sh (\<lambda>_. g) (shadow_state [] (sample_ack (dec 4))))"
    using delta_version_gate [OF sample_ack_carried [of 4 "[]"] _ sample_ack_facts(2) [of 4], of S]
    by (auto simp: sample_shadow_def)
qed

definition accepted_topic :: "u8 list" where
  "accepted_topic = cs ''$aws/things/d/shadow/get/accepted''"

definition rejected_topic :: "u8 list" where
  "rejected_topic = cs ''$aws/things/d/shadow/get/rejected''"

lemma accepted_topic_facts:
  assumes "topic = accepted_topic @ rest"
  shows "isAckForMyThingName topic sample_shadow = Some True" and "ack_status topic = Some SHADOW_ACK_ACCEPTED"
proof -
  have "c_text (myThingName sample_shadow) = Some (cs ''d'')"
    by (simp add: sample_shadow_def c_text_def cs_def of_char_def)
  moreover have "c_strstr topic (cs ''d'') = Some True"
    using c_strstr_found [of "cs ''$aws/things/''" "cs ''d''" "cs ''/shadow/get/accepted'' @ rest"]
    by (simp add: assms accepted_topic_def cs_def of_char_def)
  moreover have "c_strstr topic (cs ''get/accepted'') = Some True"
    using c_strstr_found [of "cs ''$aws/things/d/shadow/''" "cs ''get/accepted''" rest]
    by (simp add: assms accepted_topic_def cs_def of_char_def)
  ultimately show "isAckForMyThingName topic sample_shadow = Some True"
    by (simp add: isAckForMyThingName_def)
  have "c_strstr topic (cs ''accepted'') = Some True"
    using c_strstr_found [of "cs ''$aws/things/d/shadow/get/''" "cs ''accepted''" rest]
    by (simp add: assms accepted_topic_def cs_def of_char_def)
  then show "ack_status topic = Some SHADOW_ACK_ACCEPTED"
    by (simp add: ack_status_def)
qed


definition sample_refusal :: json where
  "sample_refusal = JObj (MCons [] (cs ''message'') [] (JStr (cs ''not accepted'')) MNil)"

theorem payload_decides_status_witness:
  "ack_status (drop 0 (readBuf (cdata (shadow_state rejected_topic sample_refusal)))) = Some SHADOW_ACK_ACCEPTED"
  using payload_decides_status [of 0 "shadow_state rejected_topic sample_refusal" rejected_topic sample_refusal _ "cs ''{\"message\":\"not ''" "cs ''\"}''"]
  by (simp add: shadow_state_def sample_refusal_def rejected_topic_def cs_def of_char_def ws_ok_def str_ok_def)

theorem refused_subscription_leaks_slot_witness:
  "\<forall>E. \<exists>s'. subscribeToShadowActionAcks E (Some (cs ''d'' @ [0])) SHADOW_GET False (shadow_state [] sample_refusal) = ret (NETWORK_DISCONNECTED_ERROR, s') \<and>
     sr_isFree (SubscriptionList (shs s') ! 0) \<and> \<not> sr_isFree (SubscriptionList (shs s') ! 1)"
proof
  fix E :: "unit sworld env"
  let ?s = "shadow_state [] sample_refusal"
  have s: "SubscriptionList (shs ?s) = replicate 20 idle_sub" "pMqttClient (shs ?s) = TheClient" "clientState ?s = CLIENT_STATE_INITIALIZED"
    by (simp_all add: shadow_state_def sample_shadow_def sample_client_def)
  have e: "\<exists>s2. aws_iot_mqtt_subscribe E (pMqttClient (shs ?s)) (Some topic) n QOS0 (Some AckStatusCallback_ptr) None s1 = ret (NETWORK_DISCONNECTED_ERROR, s2) \<and> shs s2 = shs s1"
    if "cl s1 = cl ?s" for topic n s1
    using that s(2,3) by (simp add: aws_iot_mqtt_subscribe_def)
  have c: "c_arg (Some (cs ''d'' @ [0])) = Some (cs ''d'')"
    by (simp add: c_arg_def c_text_def cs_def of_char_def)
  show "\<exists>s'. subscribeToShadowActionAcks E (Some (cs ''d'' @ [0])) SHADOW_GET False ?s = ret (NETWORK_DISCONNECTED_ERROR, s') \<and>
     sr_isFree (SubscriptionList (shs s') ! 0) \<and> \<not> sr_isFree (SubscriptionList (shs s') ! 1)"
    by (rule refused_subscription_leaks_slot [OF _ _ _ _ _ _ _ _ c _ e]) (simp_all add: s idle_sub_def records_config)
qed

theorem exhausted_slots_fault_witness:
  "\<forall>E. subscribeToShadowActionAcks E None SHADOW_GET False
     (upd_sh (\<lambda>g. g\<lparr>SubscriptionList := replicate 20 (idle_sub\<lparr>sr_isFree := False\<rparr>)\<rparr>) (shadow_state [] sample_refusal)) = Some Fault"
  by (intro allI exhausted_slots_fault) (simp_all add: records_config)
end
