(* ===== verification/Shadow_Api.thy ===== *)
theory Shadow_Api
  imports Shadow_Records
begin

text \<open>
  The public functions of the shadow client: \<open>src/aws_iot_shadow_actions.c\<close> and
  \<open>src/aws_iot_shadow.c\<close>.  They run on the MQTT client with the callbacks of the shadow in place
  (\<open>shadow_env S n\<close>).
\<close>

section \<open>Actions\<close>

definition aws_iot_shadow_internal_action ::
  "'u senv \<Rightarrow> 'u sworld env \<Rightarrow> cptr \<Rightarrow> ShadowActions_t \<Rightarrow> cptr \<Rightarrow> handler option \<Rightarrow> addr option \<Rightarrow> u32 \<Rightarrow> bool \<Rightarrow>
   'u sst \<Rightarrow> (IoT_Error_t \<times> 'u sst) exec" where
  "aws_iot_shadow_internal_action S E pThingName action pJsonDocumentToBeSent callback pCallbackContext timeout_seconds isSticky s =
     (case (pThingName, pJsonDocumentToBeSent) of
        (Some thing, Some doc) \<Rightarrow>
          bnd (access (on_globals (\<lambda>g. do { (r, t, g) \<leftarrow> extractClientToken doc (replicate MAX_SIZE_CLIENT_ID_WITH_SEQUENCE 0) g;
                                      Some ((r, t), g) }) s)) (\<lambda>((isClientTokenPresent, extractedClientToken), s).
          bnd (if isClientTokenPresent \<and> callback \<noteq> None then
                 bnd (access (getNextFreeIndexOfAckWaitList s)) (\<lambda>index.
                 case index of
                   None \<Rightarrow> ret (FAILURE, None, s)
                 | Some i \<Rightarrow>
                     bnd (access (isSubscriptionPresent pThingName action s)) (\<lambda>present.
                     if \<not> present then
                       bnd (subscribeToShadowActionAcks E pThingName action isSticky s) (\<lambda>(rc, s). ret (rc, index, s))
                     else bnd (access (incrementSubscriptionCnt pThingName action isSticky s)) (\<lambda>s. ret (SUCCESS, index, s))))
               else ret (SUCCESS, None, s)) (\<lambda>(ret_val, index, s).
          bnd (if ret_val = SUCCESS then publishToShadowAction S E pThingName action pJsonDocumentToBeSent s
               else ret (ret_val, s)) (\<lambda>(ret_val, s).
          case (ret_val = SUCCESS, index) of
            (True, Some i) \<Rightarrow>
              bnd (addToAckWaitList E i thing action extractedClientToken callback pCallbackContext timeout_seconds s) (\<lambda>s.
              ret (ret_val, s))
          | _ \<Rightarrow> ret (ret_val, s))))
      | _ \<Rightarrow> ret (NULL_VALUE_ERROR, s))"

section \<open>Initialisation and connection\<close>

record ShadowInitParameters_t =
  si_pHost :: cptr
  si_port :: u16
  si_pRootCA :: cptr
  si_pClientCRT :: cptr
  si_pClientKey :: cptr
  si_enableAutoReconnect :: bool
  si_disconnectHandler :: "handler option"

record ShadowConnectParameters_t =
  sc_pMyThingName :: cptr
  sc_pMqttClientId :: cptr
  sc_mqttClientIdLen :: u16
  sc_deleteActionHandler :: "handler option"

definition aws_iot_shadow_reset_last_received_version :: "'u sst \<Rightarrow> 'u sst" where
  "aws_iot_shadow_reset_last_received_version = upd_sh (\<lambda>g. g\<lparr>shadowJsonVersionNum := 0\<rparr>)"

definition aws_iot_shadow_get_last_received_version :: "'u sst \<Rightarrow> u32" where
  "aws_iot_shadow_get_last_received_version s = shadowJsonVersionNum (shs s)"

definition aws_iot_shadow_enable_discard_old_delta_msgs :: "'u sst \<Rightarrow> 'u sst" where
  "aws_iot_shadow_enable_discard_old_delta_msgs = upd_sh (\<lambda>g. g\<lparr>shadowDiscardOldDeltaFlag := True\<rparr>)"

definition aws_iot_shadow_disable_discard_old_delta_msgs :: "'u sst \<Rightarrow> 'u sst" where
  "aws_iot_shadow_disable_discard_old_delta_msgs = upd_sh (\<lambda>g. g\<lparr>shadowDiscardOldDeltaFlag := False\<rparr>)"

text \<open>Two members of the parameters are not set; they keep what was in the local variable.\<close>

definition aws_iot_shadow_init ::
  "'u senv \<Rightarrow> clientRef \<Rightarrow> ShadowInitParameters_t option \<Rightarrow> 'u sst \<Rightarrow> IoT_Error_t \<times> 'u sst" where
  "aws_iot_shadow_init S pClient pParams s =
     (case pParams of
        None \<Rightarrow> (NULL_VALUE_ERROR, s)
      | Some p \<Rightarrow>
        if pClient = NullClient then (NULL_VALUE_ERROR, s)
        else
          let mqttInitParams = \<lparr>enableAutoReconnect = si_enableAutoReconnect p, pHostURL = si_pHost p, port = si_port p,
                pRootCALocation = si_pRootCA p, pDeviceCertLocation = si_pClientCRT p, pDevicePrivateKeyLocation = si_pClientKey p,
                mqttPacketTimeout_ms = stale_timeout S, mqttCommandTimeout_ms = 20000, tlsHandshakeTimeout_ms = 5000,
                isSSLHostnameVerify = True, ip_disconnectHandler = si_disconnectHandler p, ip_disconnectHandlerData = stale_data S\<rparr>;
              (rc, s) = aws_iot_mqtt_init pClient (Some mqttInitParams) s
          in if rc \<noteq> SUCCESS then (rc, s)
          else (SUCCESS, initDeltaTokens (aws_iot_shadow_reset_last_received_version (upd_sh resetClientTokenSequenceNum s))))"

definition myThingName_ptr :: addr where "myThingName_ptr = 0"

text \<open>
  The topic of the delete handler is a local variable.  When \<open>aws_iot_shadow_connect\<close> returns, the
  pointer that the client keeps dangles: the registered topic has no readable byte left.
\<close>

definition dangle_topic :: "nat \<Rightarrow> 'w st \<Rightarrow> 'w st" where
  "dangle_topic i = upd_data (\<lambda>d. d\<lparr>messageHandlers := (messageHandlers d)[i := (messageHandlers d ! i)\<lparr>mh_topicName := Some []\<rparr>]\<rparr>)"

definition aws_iot_shadow_connect ::
  "'u sworld env \<Rightarrow> clientRef \<Rightarrow> ShadowConnectParameters_t option \<Rightarrow> 'u sst \<Rightarrow> (IoT_Error_t \<times> 'u sst) exec" where
  "aws_iot_shadow_connect E pClient pParams s =
     (case pParams of
        None \<Rightarrow> ret (NULL_VALUE_ERROR, s)
      | Some p \<Rightarrow>
        if pClient = NullClient \<or> sc_pMqttClientId p = None then ret (NULL_VALUE_ERROR, s)
        else
          bnd (access (do {
            t \<leftarrow> c_arg (sc_pMyThingName p);
            (r, thing) \<leftarrow> c_snprintf (myThingName (shs s)) 0 (of_nat MAX_SIZE_OF_THING_NAME) t;
            i \<leftarrow> c_arg (sc_pMqttClientId p);
            (r, cid) \<leftarrow> c_snprintf (mqttClientID (shs s)) 0 (of_nat MAX_SIZE_OF_UNIQUE_CLIENT_ID_BYTES) i;
            Some (upd_sh (\<lambda>g. g\<lparr>myThingName := thing, mqttClientID := cid\<rparr>) s) })) (\<lambda>s.
          let ConnectParams = iotClientConnectParamsDefault\<lparr>keepAliveIntervalInSec := 10, MQTTVersion := MQTT_3_1_1,
                isCleanSession := True, isWillMsgPresent := False, pClientID := sc_pMqttClientId p,
                clientIDLen := sc_mqttClientIdLen p, pPassword := None, pUsername := None\<rparr>
          in bnd (aws_iot_mqtt_connect E pClient (Some ConnectParams) s) (\<lambda>(rc, s).
             let s = (if rc = SUCCESS then initializeRecords pClient s else s)
             in case sc_deleteActionHandler p of
                  None \<Rightarrow> ret (rc, s)
                | Some h \<Rightarrow>
                    bnd (access (do {
                      t \<leftarrow> c_text (myThingName (shs s));
                      (r, topic) \<leftarrow> c_snprintf topic_buffer 0 (of_nat MAX_SHADOW_TOPIC_LENGTH_BYTES)
                        (cs ''$aws/things/'' @ t @ cs ''/shadow/delete/accepted'');
                      n \<leftarrow> c_strlen topic;
                      slot \<leftarrow> aws_iot_mqtt_get_free_message_handler_index s;
                      Some (topic, n, slot) })) (\<lambda>(deleteAcceptedTopic, n, slot).
                    bnd (aws_iot_mqtt_subscribe E pClient (Some deleteAcceptedTopic) (of_nat n) QOS1 (Some h) (Some myThingName_ptr) s) (\<lambda>(rc, s).
                    ret (rc, if rc = SUCCESS then dangle_topic slot s else s))))))"

section \<open>Use of the shadow\<close>

definition aws_iot_shadow_register_delta ::
  "'u sworld env \<Rightarrow> clientRef \<Rightarrow> addr option \<Rightarrow> 'u sst \<Rightarrow> (IoT_Error_t \<times> 'u sst) exec" where
  "aws_iot_shadow_register_delta E pClient pStruct s =
     (case pStruct of
        None \<Rightarrow> ret (NULL_VALUE_ERROR, s)
      | Some a \<Rightarrow>
        if pClient = NullClient then ret (NULL_VALUE_ERROR, s)
        else if \<not> aws_iot_mqtt_is_client_connected pClient s then ret (MQTT_CONNECTION_ERROR, s)
        else registerJsonTokenOnDelta E a s)"

definition aws_iot_shadow_yield :: "'u senv \<Rightarrow> 'u sworld env \<Rightarrow> clientRef \<Rightarrow> u32 \<Rightarrow> 'u sst \<Rightarrow> (IoT_Error_t \<times> 'u sst) exec" where
  "aws_iot_shadow_yield S E pClient timeout s =
     (if pClient = NullClient then ret (NULL_VALUE_ERROR, s)
      else bnd (HandleExpiredResponseCallbacks S E s) (\<lambda>s. aws_iot_mqtt_yield E pClient timeout s))"

definition aws_iot_shadow_disconnect :: "'u sworld env \<Rightarrow> clientRef \<Rightarrow> 'u sst \<Rightarrow> (IoT_Error_t \<times> 'u sst) exec" where
  "aws_iot_shadow_disconnect E pClient s = aws_iot_mqtt_disconnect E pClient s"

definition aws_iot_shadow_update ::
  "'u senv \<Rightarrow> 'u sworld env \<Rightarrow> clientRef \<Rightarrow> cptr \<Rightarrow> cptr \<Rightarrow> handler option \<Rightarrow> addr option \<Rightarrow> u8 \<Rightarrow> bool \<Rightarrow>
   'u sst \<Rightarrow> (IoT_Error_t \<times> 'u sst) exec" where
  "aws_iot_shadow_update S E pClient pThingName pJsonString callback pContextData timeout_seconds isPersistentSubscribe s =
     (if pClient = NullClient then ret (NULL_VALUE_ERROR, s)
      else if \<not> aws_iot_mqtt_is_client_connected pClient s then ret (MQTT_CONNECTION_ERROR, s)
      else aws_iot_shadow_internal_action S E pThingName SHADOW_UPDATE pJsonString callback pContextData
             (ucast timeout_seconds) isPersistentSubscribe s)"

text \<open>A request without a document of the application: \<open>aws_iot_shadow_delete\<close> and \<open>aws_iot_shadow_get\<close>.\<close>

definition request_action ::
  "(mem \<Rightarrow> shadow_globals \<Rightarrow> (mem \<times> shadow_globals) option) \<Rightarrow> ShadowActions_t \<Rightarrow>
   'u senv \<Rightarrow> 'u sworld env \<Rightarrow> clientRef \<Rightarrow> cptr \<Rightarrow> handler option \<Rightarrow> addr option \<Rightarrow> u8 \<Rightarrow> bool \<Rightarrow>
   'u sst \<Rightarrow> (IoT_Error_t \<times> 'u sst) exec" where
  "request_action request action S E pClient pThingName callback pContextData timeout_seconds isPersistentSubscribe s =
     (if pClient = NullClient then ret (NULL_VALUE_ERROR, s)
      else if \<not> aws_iot_mqtt_is_client_connected pClient s then ret (MQTT_CONNECTION_ERROR, s)
      else bnd (access (on_globals (request (replicate MAX_SIZE_CLIENT_TOKEN_CLIENT_SEQUENCE 0)) s)) (\<lambda>(doc, s).
        aws_iot_shadow_internal_action S E pThingName action (Some doc) callback pContextData
          (ucast timeout_seconds) isPersistentSubscribe s))"

definition aws_iot_shadow_delete ::
  "'u senv \<Rightarrow> 'u sworld env \<Rightarrow> clientRef \<Rightarrow> cptr \<Rightarrow> handler option \<Rightarrow> addr option \<Rightarrow> u8 \<Rightarrow> bool \<Rightarrow>
   'u sst \<Rightarrow> (IoT_Error_t \<times> 'u sst) exec" where
  "aws_iot_shadow_delete = request_action aws_iot_shadow_internal_delete_request_json SHADOW_DELETE"

definition aws_iot_shadow_get ::
  "'u senv \<Rightarrow> 'u sworld env \<Rightarrow> clientRef \<Rightarrow> cptr \<Rightarrow> handler option \<Rightarrow> addr option \<Rightarrow> u8 \<Rightarrow> bool \<Rightarrow>
   'u sst \<Rightarrow> (IoT_Error_t \<times> 'u sst) exec" where
  "aws_iot_shadow_get = request_action aws_iot_shadow_internal_get_request_json SHADOW_GET"

definition aws_iot_shadow_set_autoreconnect_status :: "clientRef \<Rightarrow> bool \<Rightarrow> 'u sst \<Rightarrow> IoT_Error_t \<times> 'u sst" where
  "aws_iot_shadow_set_autoreconnect_status pClient newStatus s = aws_iot_mqtt_autoreconnect_set_status pClient newStatus s"

section \<open>A request is tracked\<close>

lemma strncpy_text:
  "0 \<notin> set s \<Longrightarrow> strncpy_bytes (s @ 0 # r) n = Some (if n \<le> length s then take n s else s @ replicate (n - length s) 0)"
  by (induction s arbitrary: n; case_tac n) auto

lemma strncpy_length: "strncpy_bytes src n = Some bs \<Longrightarrow> length bs = n"
  by (induction src n arbitrary: bs rule: strncpy_bytes.induct) (auto split: if_splits)

lemma present_cong: "SubscriptionList (shs s') = SubscriptionList (shs s) \<Longrightarrow> isSubscriptionPresent thing action s' = isSubscriptionPresent thing action s"
  by (simp add: isSubscriptionPresent_def)

lemma topic_terminated:
  assumes "c_arg thing = Some t"
  shows "\<exists>topic. topicNameFromThingAndAction topic_buffer thing action ack = Some topic \<and> 0 \<in> set topic"
  using topic_text [OF _ assms, of topic_buffer action ack] by auto

lemma increment_loop_defined:
  assumes "0 \<in> set acc" and "0 \<in> set rej" and "\<forall>r \<in> set l. 0 \<in> set (sr_Topic r)" and "\<forall>i \<in> set is. i < length l"
  shows "\<exists>l'. increment_loop acc rej isSticky l is = Some l'"
  using assms(3,4)
proof (induction "is" arbitrary: l)
  case (Cons i js)
  have i: "arr_get l i = Some (l ! i)" "0 \<in> set (sr_Topic (l ! i))"
    using Cons.prems by simp_all
  obtain a b where ab: "c_streq acc (sr_Topic (l ! i)) = Some a" "c_streq rej (sr_Topic (l ! i)) = Some b"
    using c_streq_defined assms(1,2) i(2) by meson
  have "\<forall>r \<in> set (l[i := (l ! i)\<lparr>sr_count := c, sr_isSticky := isSticky\<rparr>]). 0 \<in> set (sr_Topic r)" for c
    using Cons.prems(1) i(2) by (auto dest!: set_update_subset_insert [THEN subsetD])
  then have "\<exists>l'. increment_loop acc rej isSticky (l[i := (l ! i)\<lparr>sr_count := c, sr_isSticky := isSticky\<rparr>]) js = Some l'" for c
    using Cons.IH Cons.prems(2) by simp
  then show ?case
    using i(1) ab Cons.IH [OF Cons.prems(1)] Cons.prems(2) by (auto simp del: arr_get_Some)
qed simp

lemma increment_defined:
  assumes "c_arg thing = Some t" and "length (SubscriptionList (shs s)) = MAX_TOPICS_AT_ANY_GIVEN_TIME"
    and "\<forall>r \<in> set (SubscriptionList (shs s)). 0 \<in> set (sr_Topic r)"
  shows "\<exists>l. incrementSubscriptionCnt thing action isSticky s = Some (upd_sh (\<lambda>g. g\<lparr>SubscriptionList := l\<rparr>) s)"
proof -
  obtain acc rej where t: "topicNameFromThingAndAction topic_buffer thing action SHADOW_ACCEPTED = Some acc" "0 \<in> set acc"
    "topicNameFromThingAndAction topic_buffer thing action SHADOW_REJECTED = Some rej" "0 \<in> set rej"
    using topic_terminated [OF assms(1)] by meson
  show ?thesis
    using increment_loop_defined [OF t(2,4) assms(3), of "[0..<MAX_TOPICS_AT_ANY_GIVEN_TIME]" isSticky] t(1,3) assms(2)
    by (auto simp: incrementSubscriptionCnt_def)
qed

lemma free_ack_first:
  assumes "length l = MAX_ACKS_TO_COMEIN_AT_ANY_GIVEN_TIME" and "i < length l" and "ar_isFree (l ! i)" and "\<forall>m < i. \<not> ar_isFree (l ! m)"
  shows "free_ack_loop l [0..<MAX_ACKS_TO_COMEIN_AT_ANY_GIVEN_TIME] = Some (Some i)"
proof -
  have "free_ack_loop l is = Some (find (\<lambda>m. ar_isFree (l ! m)) is)" if "\<forall>m \<in> set is. m < length l" for "is"
    using that by (induction "is") (auto simp: arr_get_def)
  then show ?thesis
    using find_first [OF assms(2), of "\<lambda>m. ar_isFree (l ! m)"] assms by simp
qed

lemma add_to_ack_list:
  assumes "i < length (AckWaitList (shs s))" and "length (clientTokenID (AckWaitList (shs s) ! i)) = MAX_SIZE_CLIENT_ID_WITH_SEQUENCE"
    and "length (ar_thingName (AckWaitList (shs s) ! i)) = MAX_SIZE_OF_THING_NAME"
    and "c_text tokbuf = Some tok" and "length tok < MAX_SIZE_CLIENT_ID_WITH_SEQUENCE" and "c_text thing = Some t"
    and "\<And>w. sh (snd (gtod E w)) = sh w"
  shows "\<exists>s' r. addToAckWaitList E i thing action tokbuf callback ctx timeout s = ret s' \<and>
    shs s' = (shs s)\<lparr>AckWaitList := (AckWaitList (shs s))[i := r]\<rparr> \<and>
    waits_for tok r \<and> ar_callback r = callback \<and> ar_action r = action \<and> ar_pCallbackContext r = ctx"
proof -
  let ?r = "AckWaitList (shs s) ! i"
  obtain x y where x: "tokbuf = tok @ 0 # x" "0 \<notin> set tok" "thing = t @ 0 # y" "0 \<notin> set t"
    using c_text_split [OF assms(4)] c_text_split [OF assms(6)] by blast
  let ?tok = "tok @ replicate (MAX_SIZE_CLIENT_ID_WITH_SEQUENCE - length tok) 0"
  have tok: "c_strncpy (clientTokenID ?r) tokbuf MAX_SIZE_CLIENT_ID_WITH_SEQUENCE = Some ?tok"
    using strncpy_text [OF x(2), of x] x(1) assms(2,5) by (simp add: c_strncpy_def mem_write_def)
  obtain bs where bs: "strncpy_bytes thing MAX_SIZE_OF_THING_NAME = Some bs"
    using strncpy_text [OF x(4), of y] x(3) by simp
  then have name: "c_strncpy (ar_thingName ?r) thing MAX_SIZE_OF_THING_NAME = Some bs"
    using strncpy_length [OF bs] assms(3) by (simp add: c_strncpy_def mem_write_def)
  obtain tm s1 where s1: "start_sec E timeout s = (tm, s1)"
    by (cases "start_sec E timeout s")
  have sh1: "shs s1 = shs s"
    using s1 assms(7) [of "wd s"] by (auto simp: start_sec_def countdown_sec_def Let_def split: prod.splits)
  let ?r' = "?r\<lparr>ar_callback := callback, clientTokenID := ?tok, ar_thingName := bs, ar_pCallbackContext := ctx,
    ar_action := action, ar_timer := tm, ar_isFree := False\<rparr>"
  have "c_text ?tok = Some tok"
    using x(2) assms(5) by (cases "MAX_SIZE_CLIENT_ID_WITH_SEQUENCE - length tok") (auto simp: c_text_append)
  then have "waits_for tok ?r'"
    by (simp add: waits_for_def)
  moreover have "addToAckWaitList E i thing action tokbuf callback ctx timeout s =
      ret (set_ack i (\<lambda>r. r\<lparr>ar_callback := callback, clientTokenID := ?tok, ar_thingName := bs, ar_pCallbackContext := ctx,
        ar_action := action, ar_timer := tm, ar_isFree := False\<rparr>) s1)"
    using assms(1) tok name s1 by (simp add: addToAckWaitList_def arr_get_def)
  ultimately show ?thesis
    using sh1 by (intro exI conjI) (auto simp: set_ack_def)
qed

text \<open>
  The environment of an undisturbed request: the clock does not advance while the request is sent
  and the network takes a packet at once, and neither of them touches the shadow's variables.
\<close>

definition delivers :: "'u sworld env \<Rightarrow> bool" where
  "delivers E \<longleftrightarrow> (\<exists>now. wf_tv now \<and> (\<forall>w. fst (gtod E w) = now \<and> sh (snd (gtod E w)) = sh w)) \<and>
     (\<forall>buf n t w. 0 < n \<and> unat n \<le> length buf \<longrightarrow> (\<exists>w'. net_write (net E) buf 0 n t w = ret (SUCCESS, n, w') \<and> sh w' = sh w))"

definition same_shadow :: "'u sst \<Rightarrow> 'u sst \<Rightarrow> bool" where
  "same_shadow s s' \<longleftrightarrow> cl s' = cl s \<and> shs s' = shs s"

lemma same_shadow_simps [simp]: "same_shadow s s" "same_shadow s (s\<lparr>wd := w\<rparr>) \<longleftrightarrow> sh w = shs s"
  by (auto simp: same_shadow_def)

lemma clock_unexpired:
  assumes "delivers E" and "0 < uint ms"
  shows "\<exists>t s1. start_ms E ms s = (t, s1) \<and> same_shadow s s1 \<and> (\<forall>s2. \<exists>s3. timer_expired E t s2 = (False, s3) \<and> same_shadow s2 s3)"
proof -
  obtain now where now: "wf_tv now" "\<And>w. gtod E w = (now, snd (gtod E w))" "\<And>w. sh (snd (gtod E w)) = sh w"
    using assms(1) unfolding delivers_def by (metis prod.collapse)
  obtain t where t: "countdown_ms (gtod E) ms (wd s) = (t, snd (gtod E (wd s)))" "wf_tv (end_time t)"
    "us (end_time t) = us now + uint ms * 1000"
    using countdown_ms_us [of "gtod E" "wd s" now "snd (gtod E (wd s))" ms] now(1,2) by blast
  have "has_timer_expired (gtod E) t w = (False, snd (gtod E w))" for w
    using has_timer_expired_us [of "gtod E" w now "snd (gtod E w)" t] now(1,2) t(2,3) assms(2) by simp
  then show ?thesis
    using t(1) now(3) by (auto simp: start_ms_def timer_expired_def same_shadow_def)
qed

lemma send_delivered:
  assumes "delivers E" and "\<forall>s2. \<exists>s3. timer_expired E t s2 = (False, s3) \<and> same_shadow s2 s3"
    and "0 < len" and "unat len < 512" and "wf_client s"
  shows "\<exists>s'. aws_iot_mqtt_internal_send_packet E len t s = ret (SUCCESS, s') \<and> same_shadow s s'"
proof -
  obtain s3 where s3: "timer_expired E t s = (False, s3)" "same_shadow s s3"
    using assms(2) by blast
  have "unat len \<le> length (writeBuf (cdata s3))"
    using assms(4,5) s3(2) by (simp add: wf_data_def config_defs same_shadow_def)
  then obtain w where w: "net_write (net E) (writeBuf (cdata s3)) 0 len t (wd s3) = ret (SUCCESS, len, w)" "sh w = shs s3"
    using assms(1,3) unfolding delivers_def by blast
  have "send_loop E len t 0 s = ret (len, s3\<lparr>wd := w\<rparr>)"
    using s3(1) w(1) assms(3) by (subst send_loop.simps) (simp add: send_loop_full)
  moreover have "\<not> len \<ge> writeBufSize (cdata s)"
    using assms(4,5) by (simp add: wf_data_def config_defs word_le_nat_alt)
  ultimately show ?thesis
    using s3(2) w(2) by (simp add: aws_iot_mqtt_internal_send_packet_def same_shadow_def)
qed

lemma publish_delivered:
  fixes p :: IoT_Publish_Message_Params
  assumes "delivers E" and "wf_client s" and "usable s" and "0 < uint (commandTimeoutMs (cdata s))"
    and "n \<noteq> 0" and "readable (Some topic) n" and "pm_qos p = QOS0" and "pm_payload p = Some pm"
    and "unat (pm_payloadLen p) \<le> length pm" and "unat n + unat (pm_payloadLen p) < 500"
  shows "\<exists>s'. aws_iot_mqtt_publish E TheClient (Some topic) n (Some p) s = ret (SUCCESS, Some p, s') \<and> shs s' = shs s"
proof -
  let ?s = "set_clientState CLIENT_STATE_CONNECTED_PUBLISH_IN_PROGRESS s"
  let ?body = "publish_body (pm_qos p) (pm_id p) (Some topic) n (Some pm) (pm_payloadLen p)"
  let ?f = "mqtt_frame (header_of PUBLISH (pm_qos p) 0 (pm_isRetained p)) ?body"
  obtain t s1 where s1: "start_ms E (commandTimeoutMs (cdata ?s)) ?s = (t, s1)" "same_shadow ?s s1"
    and t: "\<forall>s2. \<exists>s3. timer_expired E t s2 = (False, s3) \<and> same_shadow s2 s3"
    using clock_unexpired [OF assms(1), of "commandTimeoutMs (cdata ?s)" ?s] assms(4) by auto
  have wf: "wf_client s1"
    using assms(2) s1(2) by (simp add: same_shadow_def)
  then have sz: "length (writeBuf (cdata s1)) = 512" "writeBufSize (cdata s1) = 512"
    by (simp_all add: wf_data_def config_defs)
  have b: "length ?body = 2 + unat n + unat (pm_payloadLen p)"
    using assms(6,7,9) by (auto simp: publish_body_def enc_str_def enc_u16_def c_bytes_def readable_def)
  have f: "0 < length ?f" "length ?f + slack ?body < 512"
    using b assms(10) length_enc_len(2) [of "length ?body"] by (auto simp: mqtt_frame_def slack_def)
  have "aws_iot_mqtt_internal_serialize_publish (writeBuf (cdata s1)) (writeBufSize (cdata s1)) 0
      (pm_qos p) (pm_isRetained p) (pm_id p) (Some topic) n (pm_payload p) (pm_payloadLen p) =
      serialised (writeBuf (cdata s1)) 512 (header_of PUBLISH (pm_qos p) 0 (pm_isRetained p)) ?body"
    using serialize_publish_serialised [OF assms(6,9), of 512 "writeBuf (cdata s1)"] assms(8,10) sz by simp
  from serialised_fits [OF this sz(1)] f(2) obtain buf l where
    ser: "aws_iot_mqtt_internal_serialize_publish (writeBuf (cdata s1)) (writeBufSize (cdata s1)) 0
      (pm_qos p) (pm_isRetained p) (pm_id p) (Some topic) n (pm_payload p) (pm_payloadLen p) = Some (Inr (buf, l))"
    and buf: "length buf = 512" "unat l = length ?f"
    by auto
  have "unat (ucast l :: size_t) = length ?f"
    using buf(2) by (simp add: ucast_len)
  then have "0 < (ucast l :: size_t)" "unat (ucast l :: size_t) < 512" "wf_client (set_writeBuf buf s1)"
    using f wf buf(1) by (simp_all add: word_less_nat_alt wf_data_def config_defs)
  from send_delivered [OF assms(1) t this] obtain s2 where
    s2: "aws_iot_mqtt_internal_send_packet E (ucast l) t (set_writeBuf buf s1) = ret (SUCCESS, s2)" "same_shadow (set_writeBuf buf s1) s2"
    by blast
  have "aws_iot_mqtt_internal_publish E (Some topic) n p ?s = ret (SUCCESS, p, s2)"
    unfolding aws_iot_mqtt_internal_publish_def s1(1) using ser s2(1) assms(7) by simp
  moreover have "clientState s2 = CLIENT_STATE_CONNECTED_PUBLISH_IN_PROGRESS" "shs s2 = shs s"
    using s1(2) s2(2) by (simp_all add: same_shadow_def)
  ultimately show ?thesis
    using publish_outer [OF assms(3,5)] by simp
qed

text \<open>A client on which a QoS 0 message goes out.\<close>

definition can_publish :: "'u sst \<Rightarrow> bool" where
  "can_publish s \<longleftrightarrow> wf_client s \<and> usable s \<and> 0 < uint (commandTimeoutMs (cdata s)) \<and> pMqttClient (shs s) = TheClient"

lemma publish_action:
  assumes "delivers E" and "can_publish s" and "c_arg thing = Some t" and "c_text doc = Some d" and "length d < 400"
  shows "\<exists>s2. publishToShadowAction S E thing action (Some doc) s = ret (SUCCESS, s2) \<and> shs s2 = shs s"
proof -
  obtain x y where x: "topicNameFromThingAndAction topic_buffer thing action SHADOW_ACTION = Some (x @ 0 # y)" "0 \<notin> set x" "x \<noteq> []"
    "length x < MAX_SHADOW_TOPIC_LENGTH_BYTES"
    using topic_text [OF _ assms(3), of topic_buffer action SHADOW_ACTION] by auto
  obtain r where doc: "doc = d @ 0 # r" "0 \<notin> set d"
    using c_text_split [OF assms(4)] by blast
  let ?n = "of_nat (length x) :: u16" and ?len = "of_nat (length d) :: size_t"
  have u: "unat ?n = length x" "unat ?len = length d"
    using x(4) assms(5) by (simp_all add: unsigned_of_nat take_bit_nat_eq_self records_config)
  let ?m = "(stale_publish S)\<lparr>pm_qos := QOS0, pm_payloadLen := ?len, pm_payload := Some doc\<rparr>"
  have n: "?n \<noteq> 0" "readable (Some (x @ 0 # y)) ?n" "unat (pm_payloadLen ?m) \<le> length doc" "unat ?n + unat (pm_payloadLen ?m) < 500"
    using u x(3,4) assms(5) doc(1) by (auto simp: readable_def records_config unat_eq_zero [symmetric] simp del: unat_eq_zero)
  obtain s2 where "aws_iot_mqtt_publish E TheClient (Some (x @ 0 # y)) ?n (Some ?m) s = ret (SUCCESS, Some ?m, s2)" "shs s2 = shs s"
    using publish_delivered [OF assms(1) _ _ _ n(1,2) _ _ n(3,4)] assms(2) by (auto simp: can_publish_def)
  moreover have "thing \<noteq> None"
    using assms(3) by (auto simp: c_arg_def split: option.splits)
  moreover have "c_strlen doc = Some (length d)"
    using doc by simp
  ultimately show ?thesis
    using x(1,2) assms(2) by (auto simp: publishToShadowAction_def can_publish_def)
qed

text \<open>The shadow's tables are as the code dimensions them, and slot \<open>i\<close> is the first free one for a request.\<close>

definition can_track :: "'u sst \<Rightarrow> nat \<Rightarrow> bool" where
  "can_track s i \<longleftrightarrow>
     length (jsonTokenStruct (shs s)) = MAX_JSON_TOKEN_EXPECTED \<and>
     length (SubscriptionList (shs s)) = MAX_TOPICS_AT_ANY_GIVEN_TIME \<and> (\<forall>r \<in> set (SubscriptionList (shs s)). 0 \<in> set (sr_Topic r)) \<and>
     length (AckWaitList (shs s)) = MAX_ACKS_TO_COMEIN_AT_ANY_GIVEN_TIME \<and> i < MAX_ACKS_TO_COMEIN_AT_ANY_GIVEN_TIME \<and>
     ar_isFree (AckWaitList (shs s) ! i) \<and> (\<forall>m < i. \<not> ar_isFree (AckWaitList (shs s) ! m)) \<and>
     length (clientTokenID (AckWaitList (shs s) ! i)) = MAX_SIZE_CLIENT_ID_WITH_SEQUENCE \<and>
     length (ar_thingName (AckWaitList (shs s) ! i)) = MAX_SIZE_OF_THING_NAME"

text \<open>The request \<open>r\<close> was entered into slot \<open>i\<close>; else only subscription counts and the parser have changed.\<close>

definition tracked :: "nat \<Rightarrow> ToBeReceivedAckRecord_t \<Rightarrow> shadow_globals \<Rightarrow> shadow_globals \<Rightarrow> bool" where
  "tracked i r g g' \<longleftrightarrow> (\<exists>l p ts. g' = g\<lparr>shadowJsonParser := p, jsonTokenStruct := ts, SubscriptionList := l, AckWaitList := (AckWaitList g)[i := r]\<rparr> \<and>
     length ts = MAX_JSON_TOKEN_EXPECTED)"

text \<open>A request with the client token, callback, action and context given.\<close>

definition request_of :: "u8 list \<Rightarrow> handler \<Rightarrow> ShadowActions_t \<Rightarrow> addr option \<Rightarrow> ToBeReceivedAckRecord_t \<Rightarrow> bool" where
  "request_of tok h action ctx r \<longleftrightarrow> waits_for tok r \<and> ar_callback r = Some h \<and> ar_action r = action \<and> ar_pCallbackContext r = ctx"

lemma action_tracked:
  assumes "delivers E" and "can_publish s" and "can_track s i" and "document j doc (shs s)" and "no_value (cs ''clientToken'') j"
    and "client_token_of j = Some (JStr tok)" and "length tok < MAX_SIZE_CLIENT_ID_WITH_SEQUENCE" and "length (render j) < 400"
    and "c_text thing = Some t" and "isSubscriptionPresent (Some thing) action s = Some True"
  shows "\<exists>s' r. aws_iot_shadow_internal_action S E (Some thing) action (Some doc) (Some h) ctx timeout isSticky s = ret (SUCCESS, s') \<and>
    tracked i r (shs s) (shs s') \<and> request_of tok h action ctx r"
proof -
  let ?buf = "replicate MAX_SIZE_CLIENT_ID_WITH_SEQUENCE (0 :: u8)"
  note a = assms(3) [unfolded can_track_def]
  have l: "length tok < 256" "length tok < length ?buf"
    using assms(7) by (simp_all add: shadow_config)
  obtain buf g where e: "extractClientToken doc ?buf (shs s) = Some (True, buf, g)" "take (length tok + 1) buf = tok @ [0]" "reparsed j (shs s) g"
    using extract_token [OF assms(4-6) l(1), of ?buf] l(2) by auto
  have buf: "c_text buf = Some tok"
    using c_text_prefix [OF e(2)] lookup_wf(1) [OF _ assms(6)] assms(4) str_ok_no_NUL by (auto simp: document_def)
  have doc: "c_text doc = Some (render j)"
    using assms(4) wf_no_NUL(1) [of j] by (auto simp: document_def c_text_append simp del: render.simps)
  let ?s1 = "upd_sh (\<lambda>_. g) s"
  have g: "AckWaitList g = AckWaitList (shs s)" "SubscriptionList g = SubscriptionList (shs s)" "pMqttClient g = pMqttClient (shs s)"
    using e(3) by (auto simp: reparsed_def)
  have free: "getNextFreeIndexOfAckWaitList ?s1 = Some (Some i)"
    using free_ack_first [of "AckWaitList (shs s)" i] a g(1) by (simp add: getNextFreeIndexOfAckWaitList_def)
  have arg: "c_arg (Some thing) = Some t"
    using assms(9) by (simp add: c_arg_def)
  have present: "isSubscriptionPresent (Some thing) action ?s1 = Some True"
    using present_cong [of ?s1 s] g(2) assms(10) by simp
  obtain lst where incr: "incrementSubscriptionCnt (Some thing) action isSticky ?s1 = Some (upd_sh (\<lambda>g. g\<lparr>SubscriptionList := lst\<rparr>) ?s1)"
    using increment_defined [OF arg, of ?s1 action isSticky] a g(2) by auto
  let ?s2 = "upd_sh (\<lambda>g. g\<lparr>SubscriptionList := lst\<rparr>) ?s1"
  have "can_publish ?s2"
    using assms(2) g(3) by (simp add: can_publish_def)
  from publish_action [OF assms(1) this arg doc assms(8), of S action]
  obtain s3 where s3: "publishToShadowAction S E (Some thing) action (Some doc) ?s2 = ret (SUCCESS, s3)" "shs s3 = shs ?s2"
    by blast
  have ack3: "AckWaitList (shs s3) = AckWaitList (shs s)"
    using s3(2) g(1) by simp
  have "i < length (AckWaitList (shs s3))" "length (clientTokenID (AckWaitList (shs s3) ! i)) = MAX_SIZE_CLIENT_ID_WITH_SEQUENCE"
    "length (ar_thingName (AckWaitList (shs s3) ! i)) = MAX_SIZE_OF_THING_NAME" "\<And>w. sh (snd (gtod E w)) = sh w"
    using a ack3 assms(1) by (auto simp: delivers_def)
  from add_to_ack_list [OF this(1-3) buf assms(7,9) this(4)] obtain s4 r where
    s4: "addToAckWaitList E i thing action buf (Some h) ctx timeout s3 = ret s4" "shs s4 = (shs s3)\<lparr>AckWaitList := (AckWaitList (shs s3))[i := r]\<rparr>"
      "waits_for tok r" "ar_callback r = Some h" "ar_action r = action" "ar_pCallbackContext r = ctx"
    by blast
  have "on_globals (\<lambda>g. do { (r, t, g) \<leftarrow> extractClientToken doc ?buf g; Some ((r, t), g) }) s = Some ((True, buf), ?s1)"
    using e(1) by (simp add: on_globals_def)
  then have "aws_iot_shadow_internal_action S E (Some thing) action (Some doc) (Some h) ctx timeout isSticky s = ret (SUCCESS, s4)"
    using free present incr s3(1) s4(1) by (simp add: aws_iot_shadow_internal_action_def del: upd_sh_upd_sh)
  moreover have "tracked i r (shs s) (shs s4)"
    using s3(2) s4(2) e(3) unfolding tracked_def reparsed_def by fastforce
  ultimately show ?thesis
    using s4(3-) by (auto simp: request_of_def)
qed

text \<open>Whatever the client does later, an acknowledgement with the token of the request in slot \<open>i\<close> answers it.\<close>

lemma tracked_answered:
  assumes "tracked i r g g'" and "request_of tok h action ctx r" and "i < MAX_ACKS_TO_COMEIN_AT_ANY_GIVEN_TIME"
    and "length (AckWaitList g) = MAX_ACKS_TO_COMEIN_AT_ANY_GIVEN_TIME" and "\<forall>r \<in> set (AckWaitList g). 0 \<in> set (clientTokenID r)"
    and "\<forall>m < i. \<not> waits_for tok (AckWaitList g ! m)" and "shs s = g'"
    and "carries params j s" and "has_version j v" and "no_value (cs ''clientToken'') j" and "client_token_of j = Some (JStr tok)"
    and "length tok < MAX_SIZE_CLIENT_ID_WITH_SEQUENCE"
    and "isAckForMyThingName (drop topic (readBuf (cdata s))) (shs s) = Some mine" and "ack_status (drop topic (readBuf (cdata s))) = Some status"
  shows "\<exists>s1. AckWaitList (shs s1) = AckWaitList g' \<and> AckStatusCallback S E topic params s =
    bnd (action_cb S h (ar_thingName r) action status ctx s1) (\<lambda>s.
    bnd (unsubscribeFromAcceptedAndRejected E i s) (\<lambda>s. ret (set_ack i (\<lambda>r. r\<lparr>ar_isFree := True\<rparr>) s)))"
proof -
  have r: "waits_for tok r" "0 \<in> set (clientTokenID r)"
    using assms(2) by (auto simp: request_of_def waits_for_def c_text_def split: if_splits)
  have l: "AckWaitList (shs s) = (AckWaitList g)[i := r]"
    using assms(1,7) by (auto simp: tracked_def)
  then have len: "length (AckWaitList (shs s)) = MAX_ACKS_TO_COMEIN_AT_ANY_GIVEN_TIME"
    and nul: "\<forall>r \<in> set (AckWaitList (shs s)). 0 \<in> set (clientTokenID r)"
    using assms(4,5) r(2) by (auto dest!: set_update_subset_insert [THEN subsetD])
  have w: "waits_for tok (AckWaitList (shs s) ! i)" "\<forall>m < i. \<not> waits_for tok (AckWaitList (shs s) ! m)"
    using l r(1) assms(3,4,6) by simp_all
  then have f: "first_waiting tok s [0..<MAX_ACKS_TO_COMEIN_AT_ANY_GIVEN_TIME] = Some i"
    using find_first [of i MAX_ACKS_TO_COMEIN_AT_ANY_GIVEN_TIME "\<lambda>m. waits_for tok (AckWaitList (shs s) ! m)"] assms(3)
    by (simp add: first_waiting_def)
  have tok: "length tok < MAX_SIZE_CLIENT_TOKEN_CLIENT_SEQUENCE"
    using assms(12) by (simp add: shadow_config)
  obtain g1 s1 where g1: "received j (shs s) g1" "s1 = upd_sh (\<lambda>_. g1\<lparr>shadowJsonVersionNum := version_after mine v (shadowJsonVersionNum (shs s))\<rparr>) s"
    "AckStatusCallback S E topic params s = answer S E i status s1"
    using ack_dispatch [OF assms(8-11) tok len nul assms(13,14), of S E] f by auto
  moreover have "AckWaitList (shs s1) = AckWaitList g'"
    using g1(1,2) assms(7) by (auto simp: received_def)
  ultimately show ?thesis
    using l assms(2,3,4,7) by (intro exI [of _ s1]) (simp add: answer_def request_of_def)
qed

text \<open>
  What \<open>aws_iot_shadow_get\<close> and \<open>aws_iot_shadow_delete\<close> share: a function that writes a request document
  whose only member is the next client token, and the action to be requested.
\<close>

locale shadow_request =
  fixes request :: "mem \<Rightarrow> shadow_globals \<Rightarrow> (mem \<times> shadow_globals) option" and action :: ShadowActions_t
  assumes builds: "length (mqttClientID g) = MAX_SIZE_OF_UNIQUE_CLIENT_ID_BYTES \<Longrightarrow> client_token g = Some tok \<Longrightarrow>
    \<exists>doc. request (replicate MAX_SIZE_CLIENT_TOKEN_CLIENT_SEQUENCE 0) g = Some (doc, g\<lparr>clientTokenNum := clientTokenNum g + 1\<rparr>) \<and>
      holds doc (render (JObj (MCons [] (cs ''clientToken'') [] (JStr tok) MNil))) MAX_SIZE_CLIENT_TOKEN_CLIENT_SEQUENCE"
begin

lemma tracked_by:
  assumes "delivers E" and "can_publish s" and "can_track s i"
    and "length (mqttClientID (shs s)) = MAX_SIZE_OF_UNIQUE_CLIENT_ID_BYTES" and "client_token (shs s) = Some tok" and "str_ok tok"
    and "tok \<noteq> cs ''clientToken''" and "length tok < MAX_SIZE_CLIENT_ID_WITH_SEQUENCE"
    and "c_text thing = Some t" and "isSubscriptionPresent (Some thing) action s = Some True"
  shows "\<exists>s' r. request_action request action S E TheClient (Some thing) (Some h) ctx timeout isSticky s = ret (SUCCESS, s') \<and>
    tracked i r ((shs s)\<lparr>clientTokenNum := clientTokenNum (shs s) + 1\<rparr>) (shs s') \<and> request_of tok h action ctx r"
proof -
  let ?j = "JObj (MCons [] (cs ''clientToken'') [] (JStr tok) MNil)"
  let ?g = "(shs s)\<lparr>clientTokenNum := clientTokenNum (shs s) + 1\<rparr>"
  let ?s1 = "upd_sh (\<lambda>_. ?g) s"
  obtain doc where doc: "request (replicate MAX_SIZE_CLIENT_TOKEN_CLIENT_SEQUENCE 0) (shs s) = Some (doc, ?g)"
    "holds doc (render ?j) MAX_SIZE_CLIENT_TOKEN_CLIENT_SEQUENCE"
    using builds [OF assms(4,5)] by blast
  have wf: "wf_json ?j" "no_value (cs ''clientToken'') ?j" "client_token_of ?j = Some (JStr tok)" "length (toks_of ?j 0) \<le> MAX_JSON_TOKEN_EXPECTED"
    using assms(6,7) by (simp_all add: ws_ok_def str_ok_def cs_def of_char_def shadow_config)
  have len: "length (render ?j) < 400"
    using assms(8) by (simp add: cs_def shadow_config)
  have d: "document ?j doc (shs ?s1)"
    using doc(2) wf(1,4) assms(3) by (simp add: document_def holds_def can_track_def)
  have p: "can_publish ?s1" "can_track ?s1 i"
    using assms(2,3) by (simp_all add: can_publish_def can_track_def)
  have "isSubscriptionPresent (Some thing) action ?s1 = Some True"
    using present_cong [of ?s1 s] assms(10) by simp
  from action_tracked [OF assms(1) p d wf(2,3) assms(8) len assms(9) this, of S h ctx "ucast timeout" isSticky] show ?thesis
    using doc(1) assms(2) by (fastforce simp: request_action_def on_globals_def can_publish_def)
qed

lemma answered_by:
  assumes "delivers E" and "can_publish s" and "can_track s i"
    and "length (mqttClientID (shs s)) = MAX_SIZE_OF_UNIQUE_CLIENT_ID_BYTES" and "client_token (shs s) = Some tok" and "str_ok tok"
    and "tok \<noteq> cs ''clientToken''" and "length tok < MAX_SIZE_CLIENT_ID_WITH_SEQUENCE"
    and "c_text thing = Some t" and "isSubscriptionPresent (Some thing) action s = Some True"
    and "\<forall>r \<in> set (AckWaitList (shs s)). 0 \<in> set (clientTokenID r)" and "\<forall>m < i. \<not> waits_for tok (AckWaitList (shs s) ! m)"
  shows "\<exists>s' r. request_action request action S E TheClient (Some thing) (Some h) ctx timeout isSticky s = ret (SUCCESS, s') \<and>
    tracked i r ((shs s)\<lparr>clientTokenNum := clientTokenNum (shs s) + 1\<rparr>) (shs s') \<and> request_of tok h action ctx r \<and>
    (\<forall>F topic params j v mine status s2. shs s2 = shs s' \<and> carries params j s2 \<and> has_version j v \<and>
       no_value (cs ''clientToken'') j \<and> client_token_of j = Some (JStr tok) \<and>
       isAckForMyThingName (drop topic (readBuf (cdata s2))) (shs s2) = Some mine \<and> ack_status (drop topic (readBuf (cdata s2))) = Some status \<longrightarrow>
       (\<exists>s3. AckWaitList (shs s3) = AckWaitList (shs s') \<and> AckStatusCallback S F topic params s2 =
          bnd (action_cb S h (ar_thingName r) action status ctx s3) (\<lambda>s.
          bnd (unsubscribeFromAcceptedAndRejected F i s) (\<lambda>s. ret (set_ack i (\<lambda>r. r\<lparr>ar_isFree := True\<rparr>) s)))))"
proof -
  let ?g = "(shs s)\<lparr>clientTokenNum := clientTokenNum (shs s) + 1\<rparr>"
  obtain s' r where r: "request_action request action S E TheClient (Some thing) (Some h) ctx timeout isSticky s = ret (SUCCESS, s')"
    "tracked i r ?g (shs s')" "request_of tok h action ctx r"
    using tracked_by [OF assms(1-10)] by blast
  have a: "i < MAX_ACKS_TO_COMEIN_AT_ANY_GIVEN_TIME" "length (AckWaitList ?g) = MAX_ACKS_TO_COMEIN_AT_ANY_GIVEN_TIME"
    "\<forall>r \<in> set (AckWaitList ?g). 0 \<in> set (clientTokenID r)" "\<forall>m < i. \<not> waits_for tok (AckWaitList ?g ! m)"
    using assms(3,11,12) by (simp_all add: can_track_def)
  show ?thesis
    using r tracked_answered [OF r(2,3) a _ _ _ _ _ assms(8)] by blast
qed

end

interpretation get_request: shadow_request aws_iot_shadow_internal_get_request_json SHADOW_GET
  by unfold_locales (use request_document [of _ _ "replicate MAX_SIZE_CLIENT_TOKEN_CLIENT_SEQUENCE 0"] in fastforce)

interpretation delete_request: shadow_request aws_iot_shadow_internal_delete_request_json SHADOW_DELETE
  by unfold_locales (use request_document [of _ _ "replicate MAX_SIZE_CLIENT_TOKEN_CLIENT_SEQUENCE 0"] in fastforce)


section \<open>A sample request\<close>

definition ready_env :: "unit sworld env" where
  "ready_env = \<lparr> gtod = still_clock,
     net = \<lparr>net_connect = (\<lambda>p n w. ret (SUCCESS, n, w)), net_read = (\<lambda>n t w. ret (NETWORK_SSL_NOTHING_TO_READ, [], None, w)),
       net_write = (\<lambda>buf off n t w. ret (SUCCESS, n, w)), net_disconnect = (\<lambda>w. ret (SUCCESS, w)),
       net_isConnected = None, net_destroy = (\<lambda>w. ret (SUCCESS, w))\<rparr>,
     app = (\<lambda>h topic len msg data s. ret (msg, s)), disc = (\<lambda>h data s. ret s) \<rparr>"

definition subscribed_slot :: "u8 list \<Rightarrow> SubscriptionRecord_t" where
  "subscribed_slot t = idle_sub\<lparr>sr_Topic := t @ replicate (80 - length t) 0, sr_count := 1, sr_isFree := False\<rparr>"

definition ready_shadow :: "unit sst" where
  "ready_shadow = set_clientState CLIENT_STATE_CONNECTED_IDLE \<lparr>cl = sample_client,
     wd = \<lparr>sh = sample_shadow\<lparr>SubscriptionList := subscribed_slot (cs ''$aws/things/d/shadow/get/accepted'')
       # subscribed_slot (cs ''$aws/things/d/shadow/get/rejected'') # replicate 18 idle_sub\<rparr>, outside = ()\<rparr>\<rparr>"

lemma ready_env_delivers: "delivers ready_env"
  by (auto simp: delivers_def ready_env_def still_clock_def wf_tv_def intro!: exI [of _ "\<lparr>tv_sec = 0, tv_usec = 0\<rparr>"])

lemma ready_shadow_facts:
  "can_track ready_shadow 1" "client_token (shs ready_shadow) = Some (cs ''c-8'')"
  "length (mqttClientID (shs ready_shadow)) = MAX_SIZE_OF_UNIQUE_CLIENT_ID_BYTES"
  by (simp_all add: can_track_def ready_shadow_def sample_shadow_def subscribed_slot_def idle_ack_def idle_sub_def records_config shadow_config
    client_token_def c_text_def cs_def of_char_def dec_int_def dec.simps)

lemma ready_shadow_publish: "can_publish ready_shadow"
  by (simp add: can_publish_def ready_shadow_def sample_shadow_def sample_client_def wf_data_def config_defs)

lemma ready_shadow_subscribed: "isSubscriptionPresent (Some (cs ''d'' @ [0])) SHADOW_GET ready_shadow = Some True"
  by code_simp

definition ready_reply :: json where
  "ready_reply = JObj (MCons [] (cs ''version'') [] (JPrim (dec 5)) (MCons [] (cs ''clientToken'') [] (JStr (cs ''c-8'')) MNil))"

lemma ready_reply_facts:
  "wf_json ready_reply" "has_version ready_reply (Some 5)" "no_value (cs ''clientToken'') ready_reply"
  "client_token_of ready_reply = Some (JStr (cs ''c-8''))" "length (render ready_reply) = 33" "length (toks_of ready_reply 0) = 5"
  by (simp_all add: ready_reply_def has_version_def dec.simps prim_ok_def ws_ok_def str_ok_def cs_def of_char_def)

lemma reply_carried:
  assumes "length (shadowRxBuf (shs s)) = SHADOW_MAX_SIZE_OF_RX_BUFFER" and "length (jsonTokenStruct (shs s)) = MAX_JSON_TOKEN_EXPECTED"
    and "readBuf (cdata s) = accepted_topic @ render ready_reply @ rest"
  shows "carries (message_of accepted_topic ready_reply) ready_reply s"
proof -
  have "unat (of_nat (length (render ready_reply)) :: size_t) = length (render ready_reply)"
    by (simp add: ready_reply_facts(5))
  moreover have "\<exists>ms. ready_reply = JObj ms"
    by (simp add: ready_reply_def)
  ultimately show ?thesis
    using assms ready_reply_facts(1,5,6) by (simp add: carries_def message_of_def mem_read_def records_config shadow_config config_defs)
qed

lemma ready_shadow_waiting:
  "\<forall>r \<in> set (AckWaitList (shs ready_shadow)). 0 \<in> set (clientTokenID r)"
  "\<forall>m < 1. \<not> waits_for (cs ''c-8'') (AckWaitList (shs ready_shadow) ! m)"
  by (simp_all add: ready_shadow_def sample_shadow_def idle_ack_def waits_for_def c_text_def cs_def of_char_def)

end
