(* ===== verification/Shadow_Delta.thy ===== *)
theory Shadow_Delta
  imports Shadow_Records
begin

text \<open>
  What a delta message does to the structures that the application has registered.  The
  specification is on the JSON tree: \<open>mentions\<close> says whether the document has a member with the key
  of a structure, \<open>applied\<close> how the structure changes.
\<close>

section \<open>One structure\<close>

definition mentions :: "json \<Rightarrow> jsonStruct_t \<Rightarrow> bool" where
  "mentions j p \<longleftrightarrow> (\<exists>k v. js_pKey p = Some (k @ [0]) \<and> 0 \<notin> set k \<and> lookup k j = Some v)"

definition applied :: "json \<Rightarrow> jsonStruct_t \<Rightarrow> jsonStruct_t \<Rightarrow> bool" where
  "applied j p p' \<longleftrightarrow>
     (if mentions j p then \<exists>k x. js_pKey p = Some (k @ [0]) \<and> lookup k j = Some (JPrim (dec_int x)) \<and> p' = p\<lparr>js_pData := Some (DInt (js_type p) x)\<rparr>
      else p' = p)"

text \<open>A structure with an integer type whose key stands, if at all, for an integer of its range.\<close>

definition expects :: "json \<Rightarrow> jsonStruct_t \<Rightarrow> bool" where
  "expects j p \<longleftrightarrow> (\<exists>k. js_pKey p = Some (k @ [0]) \<and> 0 \<notin> set k \<and> no_value k j \<and>
     (lookup k j = None \<or>
      (\<exists>x u. lookup k j = Some (JPrim (dec_int x)) \<and> int_range (js_type p) x \<and> js_pData p = Some (DInt (js_type p) u))))"

lemma value_applied:
  assumes "document j doc g" and "parsed_as j g'" and "expects j p"
  shows "\<exists>p' r. isJsonKeyMatchingAndUpdateValue lib doc (int (length (toks_of j 0))) p g' = Some (p', r) \<and> applied j p p' \<and>
    (r \<noteq> None \<longleftrightarrow> mentions j p)"
proof -
  obtain k where k: "js_pKey p = Some (k @ [0])" "0 \<notin> set k" "no_value k j"
    and v: "lookup k j = None \<or> (\<exists>x u. lookup k j = Some (JPrim (dec_int x)) \<and> int_range (js_type p) x \<and> js_pData p = Some (DInt (js_type p) u))"
    using assms(3) by (auto simp: expects_def)
  from v show ?thesis
  proof (elim disjE exE conjE)
    assume n: "lookup k j = None"
    then show ?thesis
      using absent_value [OF assms(1,2) k n] k(1) by (simp add: applied_def mentions_def)
  next
    fix x u assume x: "lookup k j = Some (JPrim (dec_int x))" "int_range (js_type p) x" "js_pData p = Some (DInt (js_type p) u)"
    then show ?thesis
      using integer_value [OF assms(1,2) k x, of lib] k(1,2) by (auto simp: applied_def mentions_def)
  qed
qed

section \<open>All registered structures\<close>

text \<open>The registered entries, and a callback of the application that only touches what is outside.\<close>

definition enrolled :: "shadow_globals \<Rightarrow> JsonTokenTable_t list" where
  "enrolled g = take (unat (tokenTableIndex g)) (tokenTable g)"

definition reports :: "'u senv \<Rightarrow> (handler \<Rightarrow> addr \<Rightarrow> 'u \<Rightarrow> 'u) \<Rightarrow> bool" where
  "reports S note \<longleftrightarrow> (\<forall>f q n a s. json_cb S f q n a s = ret (s\<lparr>wd := (wd s)\<lparr>outside := note f a (outside (wd s))\<rparr>\<rparr>))"

definition notify :: "(handler \<Rightarrow> addr \<Rightarrow> 'u \<Rightarrow> 'u) \<Rightarrow> JsonTokenTable_t \<Rightarrow> 'u \<Rightarrow> 'u" where
  "notify note e = (case tt_callback e of None \<Rightarrow> id | Some f \<Rightarrow> note f (tt_pStruct e))"

lemma delta_entry:
  assumes "document j (shadowRxBuf (shs s)) (shs s)" and "parsed_as j (shs s)" and "reports S note"
    and "i < unat (tokenTableIndex (shs s))" and "arr_get (tokenTable (shs s)) i = Some e" and "\<not> tt_isFree e"
    and "expects j (structs (shs s) (tt_pStruct e))"
  shows "\<exists>p'. applied j (structs (shs s) (tt_pStruct e)) p' \<and>
    delta_loop S (int (length (toks_of j 0))) i s = delta_loop S (int (length (toks_of j 0))) (i + 1)
      (s\<lparr>wd := (wd s)\<lparr>sh := (shs s)\<lparr>structs := (structs (shs s))(tt_pStruct e := p')\<rparr>,
         outside := (if mentions j (structs (shs s) (tt_pStruct e)) then notify note e else id) (outside (wd s))\<rparr>\<rparr>)"
proof -
  let ?p = "structs (shs s) (tt_pStruct e)" and ?n = "int (length (toks_of j 0))"
  obtain p' r where p': "isJsonKeyMatchingAndUpdateValue (clibrary S) (shadowRxBuf (shs s)) ?n ?p (shs s) = Some (p', r)"
    "applied j ?p p'" "r \<noteq> None \<longleftrightarrow> mentions j ?p"
    using value_applied [OF assms(1,2,7)] by blast
  have w: "(wd s)\<lparr>sh := g, outside := outside (wd s)\<rparr> = (wd s)\<lparr>sh := g\<rparr>" for g
    by simp
  show ?thesis
    using p' assms(3-6) w
    by (intro exI [of _ p'], subst delta_loop.simps)
      (auto simp: reports_def notify_def upd_sh_def Let_def comp_def simp del: arr_get_Some split: option.split)
qed

text \<open>The whole table from entry \<open>i\<close> on; \<open>es\<close> are the entries left.\<close>

lemma delta_entries:
  assumes "document j (shadowRxBuf (shs s)) (shs s)" and "parsed_as j (shs s)" and "reports S note"
    and "drop i (enrolled (shs s)) = es" and "\<forall>e \<in> set es. \<not> tt_isFree e \<and> expects j (structs (shs s) (tt_pStruct e))"
    and "distinct (map tt_pStruct es)" and "unat (tokenTableIndex (shs s)) \<le> length (tokenTable (shs s))"
  shows "\<exists>s' st. delta_loop S (int (length (toks_of j 0))) i s = ret s' \<and> cl s' = cl s \<and> shs s' = (shs s)\<lparr>structs := st\<rparr> \<and>
    (\<forall>e \<in> set es. applied j (structs (shs s) (tt_pStruct e)) (st (tt_pStruct e))) \<and>
    (\<forall>a. a \<notin> tt_pStruct ` set es \<longrightarrow> st a = structs (shs s) a) \<and>
    outside (wd s') = fold (notify note) (filter (\<lambda>e. mentions j (structs (shs s) (tt_pStruct e))) es) (outside (wd s))"
  using assms
proof (induction es arbitrary: i s)
  case Nil
  then have "\<not> i < unat (tokenTableIndex (shs s))"
    by (simp add: enrolled_def)
  then have "delta_loop S (int (length (toks_of j 0))) i s = ret s"
    by (subst delta_loop.simps) simp
  then show ?case
    by (intro exI [of _ s] exI [of _ "structs (shs s)"]) simp
next
  case (Cons e es)
  let ?n = "int (length (toks_of j 0))" and ?t = "tt_pStruct e"
  have i: "i < length (enrolled (shs s))"
    using Cons.prems(4) by (metis drop_eq_Nil leI list.discI)
  then have "enrolled (shs s) ! i = e" "drop (i + 1) (enrolled (shs s)) = es"
    using Cons.prems(4) Cons_nth_drop_Suc [OF i] by simp_all
  note i = i this
  have e: "i < unat (tokenTableIndex (shs s))" "arr_get (tokenTable (shs s)) i = Some e"
    using i by (auto simp: enrolled_def arr_get_def)
  obtain p' where p': "applied j (structs (shs s) ?t) p'"
    and step: "delta_loop S ?n i s = delta_loop S ?n (i + 1)
      (s\<lparr>wd := (wd s)\<lparr>sh := (shs s)\<lparr>structs := (structs (shs s))(?t := p')\<rparr>,
         outside := (if mentions j (structs (shs s) ?t) then notify note e else id) (outside (wd s))\<rparr>\<rparr>)" (is "_ = delta_loop S ?n (i + 1) ?s1")
    using delta_entry [OF Cons.prems(1-3) e] Cons.prems(5) by auto
  have fresh: "?t \<notin> tt_pStruct ` set es"
    using Cons.prems(6) by auto
  have same: "structs (shs ?s1) (tt_pStruct x) = structs (shs s) (tt_pStruct x)" if "x \<in> set es" for x
    using fresh image_eqI [OF refl that, of tt_pStruct] by auto
  have "\<exists>s' st. delta_loop S ?n (i + 1) ?s1 = ret s' \<and> cl s' = cl ?s1 \<and> shs s' = (shs ?s1)\<lparr>structs := st\<rparr> \<and>
    (\<forall>e \<in> set es. applied j (structs (shs ?s1) (tt_pStruct e)) (st (tt_pStruct e))) \<and>
    (\<forall>a. a \<notin> tt_pStruct ` set es \<longrightarrow> st a = structs (shs ?s1) a) \<and>
    outside (wd s') = fold (notify note) (filter (\<lambda>e. mentions j (structs (shs ?s1) (tt_pStruct e))) es) (outside (wd ?s1))"
  proof (rule Cons.IH)
    show "document j (shadowRxBuf (shs ?s1)) (shs ?s1)" "parsed_as j (shs ?s1)" "reports S note" "drop (i + 1) (enrolled (shs ?s1)) = es"
      "distinct (map tt_pStruct es)" "unat (tokenTableIndex (shs ?s1)) \<le> length (tokenTable (shs ?s1))"
      using Cons.prems i(3) by (simp_all add: document_def parsed_as_def enrolled_def)
    show "\<forall>e \<in> set es. \<not> tt_isFree e \<and> expects j (structs (shs ?s1) (tt_pStruct e))"
      using Cons.prems(5) same by auto
  qed
  then obtain s' st where r: "delta_loop S ?n (i + 1) ?s1 = ret s'" "cl s' = cl s" "shs s' = (shs s)\<lparr>structs := st\<rparr>"
    "\<forall>x \<in> set es. applied j (structs (shs s) (tt_pStruct x)) (st (tt_pStruct x))"
    "\<forall>a. a \<notin> tt_pStruct ` set es \<longrightarrow> st a = structs (shs ?s1) a"
    "outside (wd s') = fold (notify note) (filter (\<lambda>e. mentions j (structs (shs s) (tt_pStruct e))) es) (outside (wd ?s1))"
    using same by (auto cong: filter_cong)
  have "st ?t = p'" "\<forall>a. a \<notin> tt_pStruct ` set (e # es) \<longrightarrow> st a = structs (shs s) a"
    using r(5) fresh by auto
  then show ?case
    using step r p' by (intro exI [of _ s'] exI [of _ st]) simp
qed

text \<open>
  C14: a delta reaches the registered structures.  When a message carries a newer version, every
  registered structure whose key is a member of the document, at any depth, gets the member's value,
  and its callback runs once; the callbacks run in the order of registration.  Structures whose key
  is absent and structures that are not registered keep their values, and no callback runs for them.
  (The structures are distinct and of integer types, and the callbacks only touch the application.)
\<close>

theorem delta_dispatched:
  assumes "carries params j s" and "shadowDiscardOldDeltaFlag (shs s)" and "has_version j (Some v)"
    and "unat (shadowJsonVersionNum (shs s)) < v" and "reports S note"
    and "unat (tokenTableIndex (shs s)) \<le> length (tokenTable (shs s))"
    and "\<forall>e \<in> set (enrolled (shs s)). \<not> tt_isFree e \<and> expects j (structs (shs s) (tt_pStruct e))"
    and "distinct (map tt_pStruct (enrolled (shs s)))"
  shows "\<exists>s'. shadow_delta_callback S params s = ret s' \<and> cl s' = cl s \<and> shadowJsonVersionNum (shs s') = of_nat v \<and>
    (\<forall>e \<in> set (enrolled (shs s)). applied j (structs (shs s) (tt_pStruct e)) (structs (shs s') (tt_pStruct e))) \<and>
    (\<forall>a. a \<notin> tt_pStruct ` set (enrolled (shs s)) \<longrightarrow> structs (shs s') a = structs (shs s) a) \<and>
    outside (wd s') = fold (notify note) (filter (\<lambda>e. mentions j (structs (shs s) (tt_pStruct e))) (enrolled (shs s))) (outside (wd s))"
proof -
  obtain g where g: "received j (shs s) g"
    and e: "shadow_delta_callback S params s = delta_loop S (int (length (toks_of j 0))) 0 (upd_sh (\<lambda>_. g\<lparr>shadowJsonVersionNum := of_nat v\<rparr>) s)"
      (is "_ = delta_loop S ?n 0 ?s1")
    using version_gate [OF assms(1-3), of S] assms(4) by auto
  obtain rx p ts where g': "g = (shs s)\<lparr>shadowRxBuf := rx, shadowJsonParser := p, jsonTokenStruct := ts\<rparr>"
    using g by (auto simp: received_def)
  have d: "document j (shadowRxBuf (shs ?s1)) (shs ?s1)" "parsed_as j (shs ?s1)"
    using received_document [OF g] g assms(1) by (auto simp: carries_def document_def received_def parsed_as_def)
  have same: "enrolled (shs ?s1) = enrolled (shs s)" "structs (shs ?s1) = structs (shs s)" "tokenTableIndex (shs ?s1) = tokenTableIndex (shs s)"
    "tokenTable (shs ?s1) = tokenTable (shs s)"
    by (simp_all add: g' enrolled_def)
  show ?thesis
    using delta_entries [OF d assms(5), of 0 "enrolled (shs s)"] assms(6-8) e same by auto
qed

section \<open>A sample delta\<close>

text \<open>Two structures are registered; the document mentions the second only.\<close>

definition speed :: jsonStruct_t where
  "speed = temperature\<lparr>js_pKey := Some (cs ''speed'' @ [0]), js_pData := Some (DInt SHADOW_JSON_INT8 0), js_type := SHADOW_JSON_INT8\<rparr>"

definition delta_shadow :: shadow_globals where
  "delta_shadow = sample_shadow\<lparr>tokenTable := map (\<lambda>a. \<lparr>tt_pKey = None, tt_pStruct = a, tt_callback = Some (a + 20), tt_isFree = False\<rparr>) [0..<120],
     tokenTableIndex := 2, structs := (\<lambda>a. if a = 0 then temperature else speed)\<rparr>"

definition sample_delta :: json where
  "sample_delta = JObj (MCons [] (cs ''version'') [] (JPrim (dec 5)) (MCons [] (cs ''state'') [] (JObj (MCons [] (cs ''speed'') [] (JPrim (dec_int (-7))) MNil)) MNil))"

definition delta_state :: "(handler \<times> addr) list sst" where
  "delta_state = \<lparr>cl = cl (shadow_state [] sample_delta), wd = \<lparr>sh = delta_shadow, outside = []\<rparr>\<rparr>"

lemma sample_delta_facts:
  "wf_json sample_delta" "has_version sample_delta (Some 5)" "length (render sample_delta) = 34" "length (toks_of sample_delta 0) = 7"
  "lookup (cs ''speed'') sample_delta = Some (JPrim (dec_int (-7)))" "lookup (cs ''t'') sample_delta = None"
  "no_value (cs ''speed'') sample_delta" "no_value (cs ''t'') sample_delta"
  by (simp_all add: sample_delta_def has_version_def dec.simps dec_int_def prim_ok_def ws_ok_def str_ok_def cs_def of_char_def)

lemma delta_state_carries: "carries (message_of [] sample_delta) sample_delta delta_state"
proof -
  have "carries (message_of [] sample_delta) sample_delta (shadow_state [] sample_delta)"
    using sample_delta_facts(1,3,4) by (intro shadow_state_carries) (auto simp: sample_delta_def)
  then show ?thesis
    by (simp add: carries_def delta_state_def delta_shadow_def shadow_state_def)
qed

lemma delta_state_registered:
  "enrolled (shs delta_state) = [\<lparr>tt_pKey = None, tt_pStruct = 0, tt_callback = Some 20, tt_isFree = False\<rparr>,
     \<lparr>tt_pKey = None, tt_pStruct = 1, tt_callback = Some 21, tt_isFree = False\<rparr>]"
  by (simp add: enrolled_def delta_state_def delta_shadow_def take_map upt_rec)

lemma delta_state_expects:
  "expects sample_delta temperature" "expects sample_delta speed" "\<not> mentions sample_delta temperature" "mentions sample_delta speed"
  using sample_delta_facts(5-8)
  by (auto simp: expects_def mentions_def speed_def temperature_def cs_def of_char_def)

lemma dec_int_inject: "dec_int x = dec_int y \<longleftrightarrow> x = y"
proof
  assume "dec_int x = dec_int y"
  moreover have "ends_number []"
    by (simp add: ends_number_def)
  ultimately show "x = y"
    using scanf_i_dec [of "[]" x] scanf_i_dec [of "[]" y] by (metis option.inject)
qed simp

definition noting :: "(handler \<times> addr) list senv \<Rightarrow> (handler \<times> addr) list senv" where
  "noting S = S\<lparr>json_cb := (\<lambda>f q n a s. ret (s\<lparr>wd := (wd s)\<lparr>outside := (f, a) # outside (wd s)\<rparr>\<rparr>))\<rparr>"

theorem delta_dispatched_witness:
  "\<forall>S. \<exists>s'. shadow_delta_callback (noting S) (message_of [] sample_delta) delta_state = ret s' \<and> shadowJsonVersionNum (shs s') = 5 \<and>
     structs (shs s') 0 = temperature \<and> js_pData (structs (shs s') 1) = Some (DInt SHADOW_JSON_INT8 (-7)) \<and> outside (wd s') = [(21, 1)]"
proof
  fix S :: "(handler \<times> addr) list senv"
  have s: "shadowDiscardOldDeltaFlag (shs delta_state)" "unat (shadowJsonVersionNum (shs delta_state)) < 5"
    "unat (tokenTableIndex (shs delta_state)) \<le> length (tokenTable (shs delta_state))"
    "structs (shs delta_state) 0 = temperature" "structs (shs delta_state) 1 = speed" "outside (wd delta_state) = []"
    by (simp_all add: delta_state_def delta_shadow_def sample_shadow_def)
  have r: "reports (noting S) (\<lambda>f a xs. (f, a) # xs)"
    by (simp add: reports_def noting_def)
  obtain s' where s': "shadow_delta_callback (noting S) (message_of [] sample_delta) delta_state = ret s'" "shadowJsonVersionNum (shs s') = of_nat 5"
    "applied sample_delta temperature (structs (shs s') 0)" "applied sample_delta speed (structs (shs s') 1)" "outside (wd s') = [(21, 1)]"
    using delta_dispatched [OF delta_state_carries s(1) sample_delta_facts(2) s(2) r s(3)] s(4-6) delta_state_registered delta_state_expects
    by (auto simp: notify_def)
  moreover have "structs (shs s') 0 = temperature"
    using s'(3) delta_state_expects(3) by (simp add: applied_def)
  moreover have "js_pData (structs (shs s') 1) = Some (DInt SHADOW_JSON_INT8 (-7))"
  proof -
    obtain k x where k: "js_pKey speed = Some (k @ [0])" "lookup k sample_delta = Some (JPrim (dec_int x))"
      "structs (shs s') 1 = speed\<lparr>js_pData := Some (DInt (js_type speed) x)\<rparr>"
      using s'(4) delta_state_expects(4) by (auto simp: applied_def)
    then have "dec_int x = dec_int (-7)"
      using sample_delta_facts(5) by (auto simp: speed_def)
    then have "x = -7"
      by (simp add: dec_int_inject)
    then show ?thesis
      using k(3) by (simp add: speed_def)
  qed
  ultimately show "\<exists>s'. shadow_delta_callback (noting S) (message_of [] sample_delta) delta_state = ret s' \<and> shadowJsonVersionNum (shs s') = 5 \<and>
        structs (shs s') 0 = temperature \<and> js_pData (structs (shs s') 1) = Some (DInt SHADOW_JSON_INT8 (-7)) \<and>
        outside (wd s') = [(21, 1)]"
    by auto
qed
end
