(* ===== verification/Usart.thy ===== *)
theory Usart
  imports Prelude
begin

text \<open>
  The serial driver of the connect shield, \<open>platform/connect_shield/src/stm32l476rg/usart.c\<close>: two ring
  buffers per port, filled and emptied by the interrupt handler on one side and by
  \<open>usart_read\<close> and \<open>usart_write\<close> on the other.

  A port is the record \<open>usart_t\<close>; of its hardware registers the bits that the code tests or sets are
  kept (\<open>UE\<close> and \<open>TXEIE\<close> of CR1, the divider BRR).  A result \<open>None\<close> is undefined behaviour: an access
  outside \<open>m_usart\<close> or a ring, a freed ring, or a division by zero.  The bytes that \<open>usart_read\<close>
  stores are returned as a list.  The configuration of pins and clocks in \<open>usart_init\<close> is outside
  the model.

  The locale \<open>byte_fifo\<close> is the contract of a ring.  The step relations \<open>rx_step\<close> and \<open>tx_step\<close>
  interleave the interrupt handler with the single statements of the loops of \<open>usart_read\<close> and
  \<open>usart_write\<close>.
\<close>

section \<open>Rings\<close>

record ring =
  rb_head :: u16
  rb_tail :: u16
  rb_size :: u16
  rb_data :: "mem option"

text \<open>\<open>(i + 1) % size\<close>, computed in \<open>int\<close>.\<close>

definition ring_next :: "ring \<Rightarrow> u16 \<Rightarrow> u16 option" where
  "ring_next r i = (if rb_size r = 0 then None else Some (of_nat ((unat i + 1) mod unat (rb_size r))))"

definition ring_get :: "ring \<Rightarrow> (u8 option \<times> ring) option" where
  "ring_get r =
     (if rb_tail r = rb_head r then Some (None, r)
      else do {
        d \<leftarrow> rb_data r;
        b \<leftarrow> mem_get d (unat (rb_tail r));
        t \<leftarrow> ring_next r (rb_tail r);
        Some (Some b, r\<lparr>rb_tail := t\<rparr>) })"

definition ring_put :: "u8 \<Rightarrow> ring \<Rightarrow> (bool \<times> ring) option" where
  "ring_put b r = do {
     head \<leftarrow> ring_next r (rb_head r);
     if head \<noteq> rb_tail r then do {
       d \<leftarrow> rb_data r;
       d \<leftarrow> mem_write d (unat (rb_head r)) [b];
       Some (True, r\<lparr>rb_data := Some d, rb_head := head\<rparr>) }
     else Some (False, r) }"

text \<open>The loops over the caller's buffer; they stop at the first byte that cannot be had or stored.\<close>

fun get_loop :: "('q \<Rightarrow> (u8 option \<times> 'q) option) \<Rightarrow> nat \<Rightarrow> 'q \<Rightarrow> (u8 list \<times> 'q) option" where
  "get_loop get 0 q = Some ([], q)"
| "get_loop get (Suc n) q = do {
     (r, q) \<leftarrow> get q;
     case r of
       None \<Rightarrow> Some ([], q)
     | Some b \<Rightarrow> do { (bs, q) \<leftarrow> get_loop get n q; Some (b # bs, q) } }"

fun put_loop :: "(u8 \<Rightarrow> 'q \<Rightarrow> (bool \<times> 'q) option) \<Rightarrow> u8 list \<Rightarrow> 'q \<Rightarrow> (nat \<times> 'q) option" where
  "put_loop put [] q = Some (0, q)"
| "put_loop put (b # bs) q = do {
     (ok, q) \<leftarrow> put b q;
     if ok then do { (n, q) \<leftarrow> put_loop put bs q; Some (Suc n, q) } else Some (0, q) }"

section \<open>Ports\<close>

record usart_t =
  CR1_UE :: bool
  CR1_TXEIE :: bool
  BRR :: u32
  baudrate :: u32
  us_rx :: ring
  us_tx :: ring

definition USART_DBG :: u8 where "USART_DBG = 3"

text \<open>The bound counts the ports, so the handle 4 passes although the last port is 3.\<close>

definition usart_get_by_handle :: "usart_t list \<Rightarrow> u8 \<Rightarrow> nat option" where
  "usart_get_by_handle us handle = (if handle \<noteq> 0 \<and> unat handle \<le> length us then Some (unat handle) else None)"

text \<open>What the interrupt finds in the status register, and the byte in RDR.\<close>

record isr =
  ISR_RXNE :: bool
  ISR_TXE :: bool
  RDR :: u8

text \<open>The handler of one port; the second result is the byte written to TDR.\<close>

definition USART_IRQHandler :: "isr \<Rightarrow> usart_t \<Rightarrow> (usart_t \<times> u8 option) option" where
  "USART_IRQHandler f u = do {
     u \<leftarrow> (if ISR_RXNE f then do { (ok, r) \<leftarrow> ring_put (RDR f) (us_rx u); Some (u\<lparr>us_rx := r\<rparr>) } else Some u);
     if ISR_TXE f \<and> CR1_TXEIE u then do {
       (b, r) \<leftarrow> ring_get (us_tx u);
       case b of
         Some c \<Rightarrow> Some (u\<lparr>us_tx := r\<rparr>, Some c)
       | None \<Rightarrow> Some (u\<lparr>CR1_TXEIE := False\<rparr>, None) }
     else Some (u, None) }"

text \<open>\<open>malloc\<close> is the parameter \<open>alloc\<close>; it may return NULL.\<close>

definition usart_open :: "(nat \<Rightarrow> mem option) \<Rightarrow> u8 \<Rightarrow> usart_t list \<Rightarrow> usart_t list option" where
  "usart_open alloc handle us =
     (case usart_get_by_handle us handle of
        None \<Rightarrow> Some us
      | Some h \<Rightarrow> do {
          u \<leftarrow> arr_get us h;
          let rxb = alloc (unat (rb_size (us_rx u)));
          let txb = alloc (unat (rb_size (us_tx u)));
          Some (us[h := u\<lparr>us_rx := (us_rx u)\<lparr>rb_head := 0, rb_tail := 0, rb_data := rxb\<rparr>,
                         us_tx := (us_tx u)\<lparr>rb_head := 0, rb_tail := 0, rb_data := txb\<rparr>, CR1_UE := True\<rparr>]) })"

text \<open>Storing bytes into the transmit ring of port \<open>h\<close>, without the echo to the debug port.\<close>

definition write_port :: "nat \<Rightarrow> u8 list \<Rightarrow> usart_t list \<Rightarrow> (int \<times> usart_t list) option" where
  "write_port h bytes us = do {
     u \<leftarrow> arr_get us h;
     if \<not> CR1_UE u then Some (-1, us)
     else do {
       (i, r) \<leftarrow> put_loop ring_put bytes (us_tx u);
       Some (int i, us[h := u\<lparr>us_tx := r, CR1_TXEIE := CR1_TXEIE u \<or> 0 < i\<rparr>]) } }"

text \<open>The echo to the debug port.\<close>

definition echo :: "u8 \<Rightarrow> u8 list \<Rightarrow> usart_t list \<Rightarrow> usart_t list option" where
  "echo handle bytes us =
     (if bytes \<noteq> [] \<and> handle \<noteq> USART_DBG then do { (r, us) \<leftarrow> write_port (unat USART_DBG) bytes us; Some us } else Some us)"

definition usart_write :: "u8 \<Rightarrow> u8 list \<Rightarrow> usart_t list \<Rightarrow> (int \<times> usart_t list) option" where
  "usart_write handle bytes us =
     (case usart_get_by_handle us handle of
        None \<Rightarrow> Some (-1, us)
      | Some h \<Rightarrow> do {
          (i, us) \<leftarrow> write_port h bytes us;
          us \<leftarrow> (if i = -1 then Some us else echo handle (take (nat i) bytes) us);
          Some (i, us) })"

definition usart_read :: "u8 \<Rightarrow> u16 \<Rightarrow> usart_t list \<Rightarrow> (int \<times> u8 list \<times> usart_t list) option" where
  "usart_read handle len us =
     (case usart_get_by_handle us handle of
        None \<Rightarrow> Some (-1, [], us)
      | Some h \<Rightarrow> do {
          u \<leftarrow> arr_get us h;
          if \<not> CR1_UE u then Some (-1, [], us)
          else do {
            (bs, r) \<leftarrow> get_loop ring_get (unat len) (us_rx u);
            us \<leftarrow> echo handle bs (us[h := u\<lparr>us_rx := r\<rparr>]);
            Some (int (length bs), bs, us) } })"

text \<open>
  Waiting for the transmit ring to run empty.  Between two tests the interrupts \<open>irqs n\<close> arrive; the
  bytes they put on the line are collected.
\<close>

partial_function (option) flush_loop :: "(nat \<Rightarrow> isr) \<Rightarrow> nat \<Rightarrow> nat \<Rightarrow> usart_t list \<Rightarrow> (u8 list \<times> usart_t list) exec" where
  "flush_loop irqs n h us =
     bnd (access (arr_get us h)) (\<lambda>u.
     if rb_head (us_tx u) = rb_tail (us_tx u) then ret ([], us)
     else bnd (access (USART_IRQHandler (irqs n) u)) (\<lambda>(u, b).
       bnd (flush_loop irqs (n + 1) h (us[h := u])) (\<lambda>(bs, us).
       ret (case b of None \<Rightarrow> bs | Some c \<Rightarrow> c # bs, us))))"

definition usart_flush :: "(nat \<Rightarrow> isr) \<Rightarrow> u8 \<Rightarrow> usart_t list \<Rightarrow> (u8 list \<times> usart_t list) exec" where
  "usart_flush irqs handle us =
     (case usart_get_by_handle us handle of None \<Rightarrow> ret ([], us) | Some h \<Rightarrow> flush_loop irqs 0 h us)"

definition usart_close :: "u8 \<Rightarrow> usart_t list \<Rightarrow> usart_t list option" where
  "usart_close handle us =
     (case usart_get_by_handle us handle of
        None \<Rightarrow> Some us
      | Some h \<Rightarrow> do {
          u \<leftarrow> arr_get us h;
          Some (us[h := u\<lparr>us_rx := (us_rx u)\<lparr>rb_head := 0, rb_tail := 0, rb_data := None\<rparr>,
                         us_tx := (us_tx u)\<lparr>rb_head := 0, rb_tail := 0, rb_data := None\<rparr>, CR1_UE := False\<rparr>]) })"

text \<open>The divider of the baud rate; \<open>clock\<close> is \<open>SystemCoreClock\<close>, the prescalers are 1.\<close>

definition baud_divider :: "u32 \<Rightarrow> u32 \<Rightarrow> u32 option" where
  "baud_divider clock rate = (if rate = 0 then None else Some (clock div rate))"

definition usart_init :: "u32 \<Rightarrow> u8 \<Rightarrow> u32 \<Rightarrow> u16 \<Rightarrow> u16 \<Rightarrow> usart_t list \<Rightarrow> usart_t list option" where
  "usart_init clock handle rate rx_size tx_size us =
     (case usart_get_by_handle us handle of
        None \<Rightarrow> Some us
      | Some h \<Rightarrow> do {
          u \<leftarrow> arr_get us h;
          brr \<leftarrow> baud_divider clock rate;
          Some (us[h := u\<lparr>baudrate := rate, us_rx := (us_rx u)\<lparr>rb_size := rx_size\<rparr>, us_tx := (us_tx u)\<lparr>rb_size := tx_size\<rparr>,
                         BRR := brr, CR1_UE := False, CR1_TXEIE := False\<rparr>]) })"

definition usart_change_baudrate :: "u32 \<Rightarrow> u8 \<Rightarrow> u32 \<Rightarrow> usart_t list \<Rightarrow> usart_t list option" where
  "usart_change_baudrate clock handle rate us =
     (case usart_get_by_handle us handle of
        None \<Rightarrow> Some us
      | Some h \<Rightarrow> do {
          u \<leftarrow> arr_get us h;
          if baudrate u \<noteq> rate then do {
            brr \<leftarrow> baud_divider clock rate;
            Some (us[h := u\<lparr>baudrate := rate, BRR := brr, CR1_UE := True\<rparr>]) }
          else Some us })"

section \<open>A ring is a queue\<close>

text \<open>The \<open>n\<close> cells from index \<open>t\<close> on, and the number of bytes between tail and head.\<close>

definition cells :: "mem \<Rightarrow> nat \<Rightarrow> nat \<Rightarrow> u8 list" where
  "cells d t n = map (\<lambda>k. d ! ((t + k) mod length d)) [0..<n]"

definition gap :: "nat \<Rightarrow> nat \<Rightarrow> nat \<Rightarrow> nat" where
  "gap t h n = (if t \<le> h then h - t else h + n - t)"

lemma cells_Suc: "cells d t (Suc n) = cells d t n @ [d ! ((t + n) mod length d)]"
  by (simp add: cells_def)

lemma cells_front: "cells d t (Suc n) = d ! (t mod length d) # cells d (Suc t mod length d) n"
proof (cases "length d = 0")
  case False
  have "(Suc t mod length d + k) mod length d = (t + Suc k) mod length d" for k
    by (simp add: mod_simps)
  then show ?thesis
    by (simp add: cells_def upt_conv_Cons map_Suc_upt [symmetric] comp_def del: upt_Suc)
qed (simp add: cells_def upt_conv_Cons map_Suc_upt [symmetric] comp_def del: upt_Suc)

lemma add_mod_once: "a < n \<Longrightarrow> b < n \<Longrightarrow> (a + b) mod n = (if a + b < n then a + b else a + b - n)" for n :: nat
  by (simp add: le_mod_geq)

lemma cells_update:
  assumes "n < length d" and "t < length d"
  shows "cells (d[(t + n) mod length d := b]) t n = cells d t n"
proof -
  have "(t + n) mod length d \<noteq> (t + k) mod length d" if "k < n" for k
    using that assms by (auto simp: add_mod_once split: if_splits)
  then show ?thesis
    by (auto simp: cells_def)
qed

lemma Suc_mod: "h < n \<Longrightarrow> Suc h mod n = (if Suc h = n then 0 else Suc h)"
  by (simp add: mod_Suc)

lemma gap_simps:
  assumes "t < n" and "h < n"
  shows "gap t h n < n" and "gap t h n = 0 \<longleftrightarrow> t = h" and "(t + gap t h n) mod n = h"
    and "Suc h mod n \<noteq> t \<longleftrightarrow> Suc (gap t h n) < n" and "Suc h mod n \<noteq> t \<Longrightarrow> gap t (Suc h mod n) n = Suc (gap t h n)"
    and "t \<noteq> h \<Longrightarrow> Suc (gap (Suc t mod n) h n) = gap t h n"
proof -
  show "(t + gap t h n) mod n = h"
    using assms by (cases "t \<le> h") (simp_all add: gap_def)
qed (use assms in \<open>auto simp: gap_def Suc_mod\<close>)

definition ring_ok :: "ring \<Rightarrow> bool" where
  "ring_ok r \<longleftrightarrow> (\<exists>d. rb_data r = Some d \<and> length d = unat (rb_size r)) \<and>
     rb_head r < rb_size r \<and> rb_tail r < rb_size r"

definition ring_content :: "ring \<Rightarrow> u8 list" where
  "ring_content r = cells (the (rb_data r)) (unat (rb_tail r)) (gap (unat (rb_tail r)) (unat (rb_head r)) (unat (rb_size r)))"

definition ring_room :: "ring \<Rightarrow> nat" where
  "ring_room r = unat (rb_size r) - 1"

lemma ring_next_update [simp]:
  "ring_next (r\<lparr>rb_data := x\<rparr>) i = ring_next r i" "ring_next (r\<lparr>rb_tail := t\<rparr>) i = ring_next r i" "ring_next (r\<lparr>rb_head := h\<rparr>) i = ring_next r i"
  by (simp_all add: ring_next_def)

lemma ring_next_ok:
  assumes "i < rb_size r"
  shows "\<exists>j. ring_next r i = Some j \<and> unat j = Suc (unat i) mod unat (rb_size r) \<and> j < rb_size r"
proof -
  have s: "0 < unat (rb_size r)" "rb_size r \<noteq> 0"
    using assms by (auto simp: word_less_nat_alt)
  have m: "Suc (unat i) mod unat (rb_size r) < unat (rb_size r)"
    using s(1) by simp
  then have "Suc (unat i) mod unat (rb_size r) < 65536"
    using u16_lt [of "rb_size r"] by linarith
  then have "unat (of_nat (Suc (unat i) mod unat (rb_size r)) :: u16) = Suc (unat i) mod unat (rb_size r)"
    by (simp add: unsigned_of_nat take_bit_nat_eq_self)
  then show ?thesis
    using s m by (simp add: ring_next_def word_less_nat_alt)
qed

lemma ring_content_empty: "ring_ok r \<Longrightarrow> ring_content r = [] \<longleftrightarrow> rb_tail r = rb_head r"
  using gap_simps(2) [of "unat (rb_tail r)" "unat (rb_size r)" "unat (rb_head r)"]
  by (auto simp: ring_content_def ring_ok_def cells_def word_less_nat_alt word_unat_eq_iff)

lemma ring_content_length: "length (ring_content r) = gap (unat (rb_tail r)) (unat (rb_head r)) (unat (rb_size r))"
  by (simp add: ring_content_def cells_def)

text \<open>The single statements: storing a byte at the head, moving the head, moving the tail.\<close>

lemma ring_room_next:
  assumes "ring_ok r" and "ring_next r (rb_head r) = Some j"
  shows "j \<noteq> rb_tail r \<longleftrightarrow> length (ring_content r) < ring_room r"
proof -
  have lt: "unat (rb_tail r) < unat (rb_size r)" "unat (rb_head r) < unat (rb_size r)"
    using assms(1) by (auto simp: ring_ok_def word_less_nat_alt)
  have "unat j = Suc (unat (rb_head r)) mod unat (rb_size r)"
    using ring_next_ok [of "rb_head r" r] assms by (auto simp: ring_ok_def)
  then show ?thesis
    using gap_simps(4) [OF lt] lt by (auto simp: ring_content_length ring_room_def word_unat_eq_iff)
qed

lemma ring_store:
  assumes "ring_ok r" and "rb_data r = Some d" and "mem_write d (unat (rb_head r)) [b] = Some d'"
  shows "ring_ok (r\<lparr>rb_data := Some d'\<rparr>)" and "ring_content (r\<lparr>rb_data := Some d'\<rparr>) = ring_content r"
    and "mem_get d' (unat (rb_head r)) = Some b" and "ring_room (r\<lparr>rb_data := Some d'\<rparr>) = ring_room r"
proof -
  let ?t = "unat (rb_tail r)" and ?h = "unat (rb_head r)" and ?n = "unat (rb_size r)"
  have lt: "?t < ?n" "?h < ?n" "length d = ?n"
    using assms(1,2) by (auto simp: ring_ok_def word_less_nat_alt)
  have d': "d' = d[?h := b]"
    using assms(3) lt by (simp add: mem_write_def upd_conv_take_nth_drop)
  show "ring_ok (r\<lparr>rb_data := Some d'\<rparr>)" "mem_get d' ?h = Some b" "ring_room (r\<lparr>rb_data := Some d'\<rparr>) = ring_room r"
    using assms(1,2) lt d' by (auto simp: ring_ok_def mem_get_def ring_room_def)
  show "ring_content (r\<lparr>rb_data := Some d'\<rparr>) = ring_content r"
    using cells_update [of "gap ?t ?h ?n" d ?t b] gap_simps(1,3) [OF lt(1,2)] lt assms(2) d' by (simp add: ring_content_def)
qed

lemma ring_publish:
  assumes "ring_ok r" and "ring_next r (rb_head r) = Some j" and "length (ring_content r) < ring_room r"
    and "rb_data r = Some d" and "mem_get d (unat (rb_head r)) = Some b"
  shows "ring_ok (r\<lparr>rb_head := j\<rparr>)" and "ring_content (r\<lparr>rb_head := j\<rparr>) = ring_content r @ [b]" and "ring_room (r\<lparr>rb_head := j\<rparr>) = ring_room r"
proof -
  let ?t = "unat (rb_tail r)" and ?h = "unat (rb_head r)" and ?n = "unat (rb_size r)"
  have lt: "?t < ?n" "?h < ?n" "length d = ?n"
    using assms(1,4) by (auto simp: ring_ok_def word_less_nat_alt)
  have j: "unat j = Suc ?h mod ?n" "j < rb_size r"
    using ring_next_ok [of "rb_head r" r] assms(1,2) by (auto simp: ring_ok_def)
  have "Suc ?h mod ?n \<noteq> ?t"
    using ring_room_next [OF assms(1,2)] assms(3) j(1) by (simp add: word_unat_eq_iff)
  then have "gap ?t (unat j) ?n = Suc (gap ?t ?h ?n)"
    using gap_simps(5) [OF lt(1,2)] j(1) by simp
  then show "ring_content (r\<lparr>rb_head := j\<rparr>) = ring_content r @ [b]"
    using gap_simps(3) [OF lt(1,2)] lt assms(4,5) by (simp add: ring_content_def cells_Suc mem_get_def)
  show "ring_ok (r\<lparr>rb_head := j\<rparr>)" "ring_room (r\<lparr>rb_head := j\<rparr>) = ring_room r"
    using assms(1) j(2) by (auto simp: ring_ok_def ring_room_def)
qed

lemma ring_advance:
  assumes "ring_ok r" and "ring_content r = b # bs" and "ring_next r (rb_tail r) = Some j"
  shows "ring_ok (r\<lparr>rb_tail := j\<rparr>)" and "ring_content (r\<lparr>rb_tail := j\<rparr>) = bs" and "ring_room (r\<lparr>rb_tail := j\<rparr>) = ring_room r"
    and "\<exists>d. rb_data r = Some d \<and> mem_get d (unat (rb_tail r)) = Some b"
proof -
  obtain d where d: "rb_data r = Some d" "length d = unat (rb_size r)"
    using assms(1) by (auto simp: ring_ok_def)
  let ?t = "unat (rb_tail r)" and ?h = "unat (rb_head r)" and ?n = "unat (rb_size r)"
  have lt: "?t < ?n" "?h < ?n"
    using assms(1) by (auto simp: ring_ok_def word_less_nat_alt)
  have j: "unat j = Suc ?t mod ?n" "j < rb_size r"
    using ring_next_ok [of "rb_tail r" r] assms(1,3) by (auto simp: ring_ok_def)
  have "rb_tail r \<noteq> rb_head r"
    using ring_content_empty [OF assms(1)] assms(2) by simp
  then have "Suc (gap (Suc ?t mod ?n) ?h ?n) = gap ?t ?h ?n"
    using gap_simps(6) [OF lt] by (simp add: word_unat_eq_iff)
  then have c: "ring_content r = d ! ?t # cells d (Suc ?t mod ?n) (gap (Suc ?t mod ?n) ?h ?n)"
    using cells_front [of d ?t "gap (Suc ?t mod ?n) ?h ?n"] d lt by (simp add: ring_content_def)
  show "ring_content (r\<lparr>rb_tail := j\<rparr>) = bs"
    using c assms(2) j(1) d(1) by (simp add: ring_content_def)
  show "ring_ok (r\<lparr>rb_tail := j\<rparr>)" "ring_room (r\<lparr>rb_tail := j\<rparr>) = ring_room r" "\<exists>d. rb_data r = Some d \<and> mem_get d ?t = Some b"
    using assms(1,2) j(2) c d lt by (auto simp: ring_ok_def ring_room_def mem_get_def)
qed

lemma ring_put_queue:
  assumes "ring_ok r"
  shows "\<exists>r'. ring_put b r = Some (length (ring_content r) < ring_room r, r') \<and> ring_ok r' \<and> ring_room r' = ring_room r \<and>
    ring_content r' = (if length (ring_content r) < ring_room r then ring_content r @ [b] else ring_content r)"
proof -
  obtain d where d: "rb_data r = Some d" "unat (rb_head r) < length d"
    using assms by (auto simp: ring_ok_def word_less_nat_alt)
  then obtain d' where d': "mem_write d (unat (rb_head r)) [b] = Some d'"
    by (simp add: mem_write_def)
  obtain j where j: "ring_next r (rb_head r) = Some j"
    using ring_next_ok [of "rb_head r" r] assms by (auto simp: ring_ok_def)
  note s = ring_store [OF assms d(1) d']
  show ?thesis
  proof (cases "length (ring_content r) < ring_room r")
    case True
    then show ?thesis
      using ring_publish [of "r\<lparr>rb_data := Some d'\<rparr>" j d' b] s j d(1) d' ring_room_next [OF assms j] by (simp add: ring_put_def)
  next
    case False
    then show ?thesis
      using j ring_room_next [OF assms j] assms by (simp add: ring_put_def)
  qed
qed

lemma ring_get_queue:
  assumes "ring_ok r" and "ring_content r = b # bs"
  shows "\<exists>r'. ring_get r = Some (Some b, r') \<and> ring_ok r' \<and> ring_room r' = ring_room r \<and> ring_content r' = bs"
proof -
  obtain j where j: "ring_next r (rb_tail r) = Some j"
    using ring_next_ok [of "rb_tail r" r] assms(1) by (auto simp: ring_ok_def)
  have "rb_tail r \<noteq> rb_head r"
    using ring_content_empty [OF assms(1)] assms(2) by simp
  then show ?thesis
    using ring_advance [OF assms j] j by (auto simp: ring_get_def)
qed

text \<open>The contract of a bounded queue of bytes, and the loops of the driver over it.\<close>

locale byte_fifo =
  fixes put :: "u8 \<Rightarrow> 'q \<Rightarrow> (bool \<times> 'q) option" and get :: "'q \<Rightarrow> (u8 option \<times> 'q) option"
    and content :: "'q \<Rightarrow> u8 list" and room :: "'q \<Rightarrow> nat" and ok :: "'q \<Rightarrow> bool"
  assumes put_law: "ok q \<Longrightarrow> \<exists>q'. put b q = Some (length (content q) < room q, q') \<and> ok q' \<and> room q' = room q \<and>
      content q' = (if length (content q) < room q then content q @ [b] else content q)"
    and get_none: "ok q \<Longrightarrow> content q = [] \<Longrightarrow> get q = Some (None, q)"
    and get_some: "ok q \<Longrightarrow> content q = b # bs \<Longrightarrow> \<exists>q'. get q = Some (Some b, q') \<and> ok q' \<and> room q' = room q \<and> content q' = bs"
    and bounded: "ok q \<Longrightarrow> length (content q) \<le> room q"
begin

lemma get_loop_queue:
  "ok q \<Longrightarrow> \<exists>q'. get_loop get n q = Some (take n (content q), q') \<and> ok q' \<and> room q' = room q \<and> content q' = drop n (content q)"
proof (induction n arbitrary: q)
  case (Suc n)
  show ?case
  proof (cases "content q")
    case Nil
    then show ?thesis
      using get_none [OF Suc.prems] Suc.prems by simp
  next
    case (Cons b bs)
    obtain q1 where q1: "get q = Some (Some b, q1)" "ok q1" "room q1 = room q" "content q1 = bs"
      using get_some [OF Suc.prems Cons] by blast
    then show ?thesis
      using Suc.IH [OF q1(2)] Cons by auto
  qed
qed simp

lemma put_loop_queue:
  "ok q \<Longrightarrow> \<exists>q'. put_loop put bs q = Some (min (length bs) (room q - length (content q)), q') \<and> ok q' \<and> room q' = room q \<and>
     content q' = content q @ take (room q - length (content q)) bs"
proof (induction bs arbitrary: q)
  case (Cons b bs)
  obtain q1 where q1: "put b q = Some (length (content q) < room q, q1)" "ok q1" "room q1 = room q"
    "content q1 = (if length (content q) < room q then content q @ [b] else content q)"
    using put_law [OF Cons.prems] by blast
  show ?case
  proof (cases "length (content q) < room q")
    case True
    then obtain k where k: "room q - length (content q) = Suc k"
      by (metis Suc_diff_Suc)
    then have "room q1 - length (content q1) = k"
      using q1(3,4) True by simp
    then show ?thesis
      using Cons.IH [OF q1(2)] q1 True k by auto
  next
    case False
    then show ?thesis
      using q1 Cons.prems by auto
  qed
qed simp

end

interpretation ring: byte_fifo ring_put ring_get ring_content ring_room ring_ok
proof unfold_locales
  show "\<exists>q'. ring_put b q = Some (length (ring_content q) < ring_room q, q') \<and> ring_ok q' \<and> ring_room q' = ring_room q \<and>
      ring_content q' = (if length (ring_content q) < ring_room q then ring_content q @ [b] else ring_content q)" if "ring_ok q" for q b
    using ring_put_queue [OF that] .
  show "ring_get q = Some (None, q)" if "ring_ok q" "ring_content q = []" for q
    using that ring_content_empty by (simp add: ring_get_def)
  show "\<exists>q'. ring_get q = Some (Some b, q') \<and> ring_ok q' \<and> ring_room q' = ring_room q \<and> ring_content q' = bs"
    if "ring_ok q" "ring_content q = b # bs" for q b bs
    using ring_get_queue [OF that] .
  show "length (ring_content q) \<le> ring_room q" if "ring_ok q" for q
    using gap_simps(1) [of "unat (rb_tail q)" "unat (rb_size q)" "unat (rb_head q)"] that
    by (auto simp: ring_content_length ring_room_def ring_ok_def word_less_nat_alt)
qed

section \<open>Interrupts between the statements\<close>

text \<open>
  Receiving.  \<open>rx_copied\<close> is the byte that the loop of \<open>usart_read\<close> has copied while its tail is still
  the old one; \<open>rx_in\<close> are the bytes that the interrupt handler has stored and \<open>rx_out\<close> those that the
  loop has delivered.
\<close>

record rx_sys =
  rx_ring :: ring
  rx_copied :: "u8 option"
  rx_in :: "u8 list"
  rx_out :: "u8 list"

inductive rx_step :: "rx_sys \<Rightarrow> rx_sys \<Rightarrow> bool" where
  rx_interrupt: "ring_put b (rx_ring s) = Some (stored, r) \<Longrightarrow>
    rx_step s (s\<lparr>rx_ring := r, rx_in := (if stored then rx_in s @ [b] else rx_in s)\<rparr>)"
| rx_copy: "rx_copied s = None \<Longrightarrow> rb_tail (rx_ring s) \<noteq> rb_head (rx_ring s) \<Longrightarrow> rb_data (rx_ring s) = Some d \<Longrightarrow>
    mem_get d (unat (rb_tail (rx_ring s))) = Some b \<Longrightarrow> rx_step s (s\<lparr>rx_copied := Some b\<rparr>)"
| rx_advance: "rx_copied s = Some b \<Longrightarrow> ring_next (rx_ring s) (rb_tail (rx_ring s)) = Some t \<Longrightarrow>
    rx_step s (s\<lparr>rx_ring := (rx_ring s)\<lparr>rb_tail := t\<rparr>, rx_copied := None, rx_out := rx_out s @ [b]\<rparr>)"

definition rx_inv :: "rx_sys \<Rightarrow> bool" where
  "rx_inv s \<longleftrightarrow> ring_ok (rx_ring s) \<and> rx_in s = rx_out s @ ring_content (rx_ring s) \<and>
     (case rx_copied s of None \<Rightarrow> True | Some b \<Rightarrow> \<exists>bs. ring_content (rx_ring s) = b # bs)"

lemma rx_step_inv: "rx_step s s' \<Longrightarrow> rx_inv s \<Longrightarrow> rx_inv s'"
proof (induction rule: rx_step.induct)
  case (rx_interrupt b s stored r)
  then show ?case
    using ring_put_queue [of "rx_ring s" b] by (auto simp: rx_inv_def split: option.splits)
next
  case (rx_copy s d b)
  have ok: "ring_ok (rx_ring s)"
    using rx_copy.prems by (simp add: rx_inv_def)
  then obtain c bs where c: "ring_content (rx_ring s) = c # bs"
    using ring_content_empty rx_copy.hyps(2) by (metis neq_Nil_conv)
  obtain j where "ring_next (rx_ring s) (rb_tail (rx_ring s)) = Some j"
    using ring_next_ok [of "rb_tail (rx_ring s)" "rx_ring s"] ok by (auto simp: ring_ok_def)
  then have "c = b"
    using ring_advance(4) [OF ok c] rx_copy.hyps(3,4) by auto
  then show ?case
    using rx_copy.prems c by (simp add: rx_inv_def)
next
  case (rx_advance s b t)
  then obtain bs where c: "ring_ok (rx_ring s)" "ring_content (rx_ring s) = b # bs" "rx_in s = rx_out s @ b # bs"
    by (auto simp: rx_inv_def)
  then show ?case
    using ring_advance [OF c(1,2) rx_advance.hyps(2)] by (simp add: rx_inv_def)
qed

text \<open>
  Sending.  The loop of \<open>usart_write\<close> computes the next head and compares it with the tail, stores the
  byte and only then moves the head; the interrupt handler takes bytes from the tail.
\<close>

datatype tx_at = TxTest | TxStore u8 u16 | TxPublish u8 u16

record tx_sys =
  tx_ring :: ring
  tx_at :: tx_at
  tx_in :: "u8 list"
  tx_out :: "u8 list"

inductive tx_step :: "tx_sys \<Rightarrow> tx_sys \<Rightarrow> bool" where
  tx_test: "tx_at s = TxTest \<Longrightarrow> ring_next (tx_ring s) (rb_head (tx_ring s)) = Some h \<Longrightarrow> h \<noteq> rb_tail (tx_ring s) \<Longrightarrow>
    tx_step s (s\<lparr>tx_at := TxStore b h\<rparr>)"
| tx_store: "tx_at s = TxStore b h \<Longrightarrow> rb_data (tx_ring s) = Some d \<Longrightarrow> mem_write d (unat (rb_head (tx_ring s))) [b] = Some d' \<Longrightarrow>
    tx_step s (s\<lparr>tx_ring := (tx_ring s)\<lparr>rb_data := Some d'\<rparr>, tx_at := TxPublish b h\<rparr>)"
| tx_publish: "tx_at s = TxPublish b h \<Longrightarrow>
    tx_step s (s\<lparr>tx_ring := (tx_ring s)\<lparr>rb_head := h\<rparr>, tx_at := TxTest, tx_in := tx_in s @ [b]\<rparr>)"
| tx_interrupt: "ring_get (tx_ring s) = Some (r, q) \<Longrightarrow>
    tx_step s (s\<lparr>tx_ring := q, tx_out := (case r of None \<Rightarrow> tx_out s | Some b \<Rightarrow> tx_out s @ [b])\<rparr>)"

definition tx_inv :: "tx_sys \<Rightarrow> bool" where
  "tx_inv s \<longleftrightarrow> ring_ok (tx_ring s) \<and> tx_in s = tx_out s @ ring_content (tx_ring s) \<and>
     (case tx_at s of
        TxTest \<Rightarrow> True
      | TxStore b h \<Rightarrow> ring_next (tx_ring s) (rb_head (tx_ring s)) = Some h \<and> length (ring_content (tx_ring s)) < ring_room (tx_ring s)
      | TxPublish b h \<Rightarrow> ring_next (tx_ring s) (rb_head (tx_ring s)) = Some h \<and> length (ring_content (tx_ring s)) < ring_room (tx_ring s) \<and>
          (\<exists>d. rb_data (tx_ring s) = Some d \<and> mem_get d (unat (rb_head (tx_ring s))) = Some b))"

lemma ring_get_frame:
  assumes "ring_get r = Some (b, q)"
  shows "rb_head q = rb_head r" and "rb_data q = rb_data r" and "ring_next q i = ring_next r i"
  using assms by (auto simp: ring_get_def split: if_splits bind_splits)

lemma ring_get_cases:
  assumes "ring_ok r" and "ring_get r = Some (b, q)"
  shows "ring_ok q" and "ring_content r = (case b of None \<Rightarrow> [] | Some c \<Rightarrow> [c]) @ ring_content q" and "ring_room q = ring_room r"
proof -
  have "ring_ok q \<and> ring_content r = (case b of None \<Rightarrow> [] | Some c \<Rightarrow> [c]) @ ring_content q \<and> ring_room q = ring_room r"
  proof (cases "ring_content r")
    case Nil
    then show ?thesis
      using ring.get_none [OF assms(1) Nil] assms by auto
  next
    case (Cons c cs)
    then show ?thesis
      using ring_get_queue [OF assms(1) Cons] assms(2) by auto
  qed
  then show "ring_ok q" "ring_content r = (case b of None \<Rightarrow> [] | Some c \<Rightarrow> [c]) @ ring_content q" "ring_room q = ring_room r"
    by auto
qed

lemma tx_step_inv: "tx_step s s' \<Longrightarrow> tx_inv s \<Longrightarrow> tx_inv s'"
proof (induction rule: tx_step.induct)
  case (tx_test s h b)
  then show ?case
    using ring_room_next [of "tx_ring s" h] by (simp add: tx_inv_def)
next
  case (tx_store s b h d d')
  have i: "ring_ok (tx_ring s)" "tx_in s = tx_out s @ ring_content (tx_ring s)" "ring_next (tx_ring s) (rb_head (tx_ring s)) = Some h"
    "length (ring_content (tx_ring s)) < ring_room (tx_ring s)"
    using tx_store.prems tx_store.hyps(1) by (auto simp: tx_inv_def)
  then show ?case
    using ring_store [OF i(1) tx_store.hyps(2,3)] by (simp add: tx_inv_def)
next
  case (tx_publish s b h)
  then obtain d where i: "ring_ok (tx_ring s)" "tx_in s = tx_out s @ ring_content (tx_ring s)" "ring_next (tx_ring s) (rb_head (tx_ring s)) = Some h"
    "length (ring_content (tx_ring s)) < ring_room (tx_ring s)" "rb_data (tx_ring s) = Some d" "mem_get d (unat (rb_head (tx_ring s))) = Some b"
    by (auto simp: tx_inv_def)
  then show ?case
    using ring_publish [OF i(1,3-6)] by (simp add: tx_inv_def)
next
  case (tx_interrupt s r q)
  have ok: "ring_ok (tx_ring s)"
    using tx_interrupt.prems by (simp add: tx_inv_def)
  show ?case
    using tx_interrupt.prems ring_get_cases [OF ok tx_interrupt.hyps] ring_get_frame [OF tx_interrupt.hyps]
    by (auto simp: tx_inv_def split: tx_at.splits option.splits)
qed

text \<open>
  C6: the rings are first-in first-out under interrupts.  However the interrupt handler interleaves with
  the single statements of \<open>usart_read\<close>, the bytes that the driver has stored are those it has
  delivered followed by those in the ring; and the same holds for \<open>usart_write\<close> and the bytes put on
  the line.  So bytes are delivered in order, none twice and none that never came, and the rings
  stay well formed.
\<close>

theorem rings_interleaved:
  assumes "rx_step\<^sup>*\<^sup>* a s" and "ring_ok (rx_ring a)" and "rx_copied a = None" and "rx_in a = rx_out a @ ring_content (rx_ring a)"
    and "tx_step\<^sup>*\<^sup>* b t" and "ring_ok (tx_ring b)" and "tx_at b = TxTest" and "tx_in b = tx_out b @ ring_content (tx_ring b)"
  shows "ring_ok (rx_ring s) \<and> rx_in s = rx_out s @ ring_content (rx_ring s) \<and>
    ring_ok (tx_ring t) \<and> tx_in t = tx_out t @ ring_content (tx_ring t)"
proof -
  have "rx_inv s"
    using assms(1)
  proof induction
    case base
    then show ?case
      using assms(2-4) by (simp add: rx_inv_def)
  qed (rule rx_step_inv)
  moreover have "tx_inv t"
    using assms(5)
  proof induction
    case base
    then show ?case
      using assms(6-8) by (simp add: tx_inv_def)
  qed (rule tx_step_inv)
  ultimately show ?thesis
    by (simp add: rx_inv_def tx_inv_def)
qed

section \<open>Reading, writing and flushing a port\<close>

definition port_ok :: "usart_t \<Rightarrow> bool" where
  "port_ok u \<longleftrightarrow> CR1_UE u \<and> ring_ok (us_rx u) \<and> ring_ok (us_tx u)"

text \<open>The bytes of \<open>bs\<close> that still fit into a ring, and their arrival in the transmit ring of a port.\<close>

definition fitting :: "u8 list \<Rightarrow> ring \<Rightarrow> u8 list" where
  "fitting bs r = take (ring_room r - length (ring_content r)) bs"

definition queued :: "usart_t \<Rightarrow> u8 list \<Rightarrow> usart_t \<Rightarrow> bool" where
  "queued u bs u' \<longleftrightarrow> port_ok u' \<and> us_rx u' = us_rx u \<and> ring_room (us_tx u') = ring_room (us_tx u) \<and> ring_content (us_tx u') = ring_content (us_tx u) @ fitting bs (us_tx u)"

lemma write_port_queued:
  assumes "h < length us" and "port_ok (us ! h)"
  shows "\<exists>u'. write_port h bs us = Some (int (length (fitting bs (us_tx (us ! h)))), us[h := u']) \<and> queued (us ! h) bs u'"
proof -
  have "ring_ok (us_tx (us ! h))" "CR1_UE (us ! h)" "arr_get us h = Some (us ! h)"
    using assms by (auto simp: port_ok_def)
  then show ?thesis
    using ring.put_loop_queue [of "us_tx (us ! h)" bs] assms(2)
    by (auto simp: write_port_def fitting_def queued_def port_ok_def min.commute simp del: arr_get_Some)
qed

lemma echo_queued:
  assumes "length us = 4" and "port_ok (us ! 3)" and "handle \<noteq> USART_DBG"
  shows "\<exists>u'. echo handle bs us = Some (us[3 := u']) \<and> queued (us ! 3) bs u'"
proof (cases "bs = []")
  case True
  then show ?thesis
    using assms(2) by (intro exI [of _ "us ! 3"]) (simp add: echo_def queued_def fitting_def)
next
  case False
  obtain u' where "write_port 3 bs us = Some (int (length (fitting bs (us_tx (us ! 3)))), us[3 := u'])" "queued (us ! 3) bs u'"
    using write_port_queued [of 3 us bs] assms(1,2) by auto
  then show ?thesis
    using False assms(3) by (intro exI [of _ u']) (simp add: echo_def USART_DBG_def)
qed

lemma port_reads:
  assumes "length us = 4" and "handle = 1 \<or> handle = 2" and "h = unat handle" and "port_ok (us ! h)" and "port_ok (us ! 3)"
    and "bs = take (unat len) (ring_content (us_rx (us ! h)))"
  shows "\<exists>r d. usart_read handle len us = Some (int (length bs), bs, us[h := (us ! h)\<lparr>us_rx := r\<rparr>, 3 := d]) \<and>
    ring_ok r \<and> ring_room r = ring_room (us_rx (us ! h)) \<and> ring_content r = drop (unat len) (ring_content (us_rx (us ! h))) \<and> queued (us ! 3) bs d"
proof -
  have h: "h < 3" "usart_get_by_handle us handle = Some h" "handle \<noteq> USART_DBG" "arr_get us h = Some (us ! h)" "CR1_UE (us ! h)"
    using assms by (auto simp: usart_get_by_handle_def USART_DBG_def port_ok_def)
  obtain r where r: "get_loop ring_get (unat len) (us_rx (us ! h)) = Some (bs, r)" "ring_ok r"
    "ring_room r = ring_room (us_rx (us ! h))" "ring_content r = drop (unat len) (ring_content (us_rx (us ! h)))"
    using ring.get_loop_queue [of "us_rx (us ! h)" "unat len"] assms(4,6) by (auto simp: port_ok_def)
  let ?us = "us[h := (us ! h)\<lparr>us_rx := r\<rparr>]"
  have e: "length ?us = 4" "port_ok (?us ! 3)" "?us ! 3 = us ! 3"
    using assms(1,5) h(1) by simp_all
  obtain d where "echo handle bs ?us = Some (?us[3 := d])" "queued (us ! 3) bs d"
    using echo_queued [OF e(1,2) h(3)] e(3) by auto
  then show ?thesis
    using h r by (auto simp: usart_read_def simp del: arr_get_Some)
qed

lemma port_writes:
  assumes "length us = 4" and "handle = 1 \<or> handle = 2" and "h = unat handle" and "port_ok (us ! h)" and "port_ok (us ! 3)"
  shows "\<exists>u d. usart_write handle bs us = Some (int (length (fitting bs (us_tx (us ! h)))), us[h := u, 3 := d]) \<and>
    queued (us ! h) bs u \<and> queued (us ! 3) (fitting bs (us_tx (us ! h))) d"
proof -
  have h: "h < 3" "usart_get_by_handle us handle = Some h" "handle \<noteq> USART_DBG"
    using assms by (auto simp: usart_get_by_handle_def USART_DBG_def)
  obtain u where u: "write_port h bs us = Some (int (length (fitting bs (us_tx (us ! h)))), us[h := u])" "queued (us ! h) bs u"
    using write_port_queued [of h us bs] assms(1,4) h(1) by auto
  let ?us = "us[h := u]"
  have e: "length ?us = 4" "port_ok (?us ! 3)" "?us ! 3 = us ! 3"
    using assms(1,5) h(1) by simp_all
  obtain d where "echo handle (fitting bs (us_tx (us ! h))) ?us = Some (?us[3 := d])" "queued (us ! 3) (fitting bs (us_tx (us ! h))) d"
    using echo_queued [OF e(1,2) h(3)] e(3) by auto
  moreover have "take (length (fitting bs (us_tx (us ! h)))) bs = fitting bs (us_tx (us ! h))"
    by (simp add: fitting_def min_def)
  ultimately show ?thesis
    using h(2) u by (auto simp: usart_write_def)
qed

text \<open>
  Reading and writing a port.  On an open port that is not the debug port, \<open>usart_read\<close> returns the
  oldest bytes of the receive ring, as many as asked for and present, and takes them out of it;
  \<open>usart_write\<close> appends as many bytes to the transmit ring as fit and returns their number.  Either
  echoes these bytes to the debug port as far as they fit there, and the other ports are left alone.
\<close>

theorem port_read_write:
  assumes "length us = 4" and "handle = 1 \<or> handle = 2" and "h = unat handle" and "port_ok (us ! h)" and "port_ok (us ! 3)"
  shows "(\<exists>r d. usart_read handle len us = Some (int (min (unat len) (length (ring_content (us_rx (us ! h))))),
        take (unat len) (ring_content (us_rx (us ! h))), us[h := (us ! h)\<lparr>us_rx := r\<rparr>, 3 := d]) \<and>
      ring_ok r \<and> ring_content r = drop (unat len) (ring_content (us_rx (us ! h))) \<and>
      queued (us ! 3) (take (unat len) (ring_content (us_rx (us ! h)))) d) \<and>
    (\<exists>u d. usart_write handle bs us = Some (int (length (fitting bs (us_tx (us ! h)))), us[h := u, 3 := d]) \<and>
      queued (us ! h) bs u \<and> queued (us ! 3) (fitting bs (us_tx (us ! h))) d)"
  using port_reads [OF assms refl, of len] port_writes [OF assms, of bs] by (auto simp: min.commute)

text \<open>Every interrupt finds the transmitter ready and sends the next byte.\<close>

lemma flush_sends:
  assumes "h < length us" and "ring_ok (us_tx (us ! h))" and "CR1_TXEIE (us ! h)" and "\<forall>k. ISR_TXE (irqs k) \<and> \<not> ISR_RXNE (irqs k)"
    and "ring_content (us_tx (us ! h)) = bs"
  shows "\<exists>r. flush_loop irqs n h us = ret (bs, us[h := (us ! h)\<lparr>us_tx := r\<rparr>]) \<and> ring_ok r \<and> ring_content r = []"
  using assms
proof (induction bs arbitrary: n us)
  case Nil
  then have "rb_tail (us_tx (us ! h)) = rb_head (us_tx (us ! h))"
    using ring_content_empty by blast
  then show ?case
    using Nil.prems by (intro exI [of _ "us_tx (us ! h)"]) (subst flush_loop.simps, simp add: arr_get_def)
next
  case (Cons b bs)
  let ?u = "us ! h"
  obtain r where r: "ring_get (us_tx ?u) = Some (Some b, r)" "ring_ok r" "ring_content r = bs"
    using ring_get_queue [OF Cons.prems(2,5)] by blast
  have ne: "rb_head (us_tx ?u) \<noteq> rb_tail (us_tx ?u)"
    using ring_content_empty [OF Cons.prems(2)] Cons.prems(5) by auto
  have irq: "USART_IRQHandler (irqs n) ?u = Some (?u\<lparr>us_tx := r\<rparr>, Some b)"
    using r(1) Cons.prems(3,4) by (simp add: USART_IRQHandler_def)
  let ?us = "us[h := ?u\<lparr>us_tx := r\<rparr>]"
  obtain r' where "flush_loop irqs (n + 1) h ?us = ret (bs, ?us[h := (?us ! h)\<lparr>us_tx := r'\<rparr>])" "ring_ok r'" "ring_content r' = []"
    using Cons.IH [of ?us "n + 1"] Cons.prems(1,3,4) r(2,3) by auto
  then show ?case
    using Cons.prems(1) ne irq by (intro exI [of _ r']) (subst flush_loop.simps, simp add: arr_get_def)
qed

text \<open>
  Flushing a port ends.  When the line is ready at every interrupt, \<open>usart_flush\<close> of an open port with
  the transmit interrupt enabled returns after everything that was in the transmit ring has been put
  on the line, in order, and the ring is empty.
\<close>

theorem usart_flush_drains:
  assumes "length us = 4" and "handle \<in> {1, 2, 3}" and "h = unat handle" and "port_ok (us ! h)" and "CR1_TXEIE (us ! h)"
    and "\<forall>k. ISR_TXE (irqs k) \<and> \<not> ISR_RXNE (irqs k)"
  shows "\<exists>r. usart_flush irqs handle us = ret (ring_content (us_tx (us ! h)), us[h := (us ! h)\<lparr>us_tx := r\<rparr>]) \<and> ring_content r = []"
proof -
  have "usart_get_by_handle us handle = Some h" "h < length us"
    using assms(1-3) by (auto simp: usart_get_by_handle_def)
  then show ?thesis
    using flush_sends [of h us irqs _ 0] assms(4-6) by (auto simp: usart_flush_def port_ok_def)
qed

text \<open>
  The handle behind the last port is not refused.  The bound of \<open>usart_get_by_handle\<close> lets the handle 4
  pass, so every function of the driver leaves the array of the four ports for it.
\<close>

theorem usart_handle_4:
  assumes "length us = 4"
  shows "usart_read 4 len us = None \<and> usart_write 4 bs us = None \<and> usart_open alloc 4 us = None \<and> usart_close 4 us = None \<and>
    usart_flush irqs 4 us = Some Fault"
proof -
  have "usart_get_by_handle us 4 = Some 4" "arr_get us 4 = None"
    using assms by (auto simp: usart_get_by_handle_def arr_get_def)
  then show ?thesis
    by (simp add: usart_read_def usart_write_def write_port_def usart_open_def usart_close_def usart_flush_def flush_loop.simps)
qed

section \<open>Samples\<close>

definition ring_at :: "u16 \<Rightarrow> u16 \<Rightarrow> mem \<Rightarrow> ring" where
  "ring_at h t d = \<lparr>rb_head = h, rb_tail = t, rb_size = 4, rb_data = Some d\<rparr>"

lemma ring_at_ok: "ring_ok (ring_at 0 0 [0, 0, 0, 0])" "ring_ok (ring_at 2 0 [79, 75, 0, 0])"
  by (simp_all add: ring_ok_def ring_at_def)

lemma ring_at_content: "ring_content (ring_at 0 0 [0, 0, 0, 0]) = []" "ring_content (ring_at 2 0 [79, 75, 0, 0]) = [79, 75]"
  by (simp_all add: ring_content_def ring_at_def cells_def gap_def upt_rec)

text \<open>A byte is received; while the loop has copied it, a second one arrives.\<close>

definition rx_empty :: rx_sys where
  "rx_empty = \<lparr>rx_ring = ring_at 0 0 [0, 0, 0, 0], rx_copied = None, rx_in = [], rx_out = []\<rparr>"

definition rx_overtaken :: rx_sys where
  "rx_overtaken = \<lparr>rx_ring = ring_at 2 1 [65, 66, 0, 0], rx_copied = None, rx_in = [65, 66], rx_out = [65]\<rparr>"

lemma rx_sample: "rx_step\<^sup>*\<^sup>* rx_empty rx_overtaken"
proof -
  note step = converse_rtranclp_into_rtranclp [where r = rx_step]
  note d = ring_put_def ring_next_def mem_write_def mem_get_def ring_at_def
  let ?s = "\<lambda>h d c i. \<lparr>rx_ring = ring_at h 0 d, rx_copied = c, rx_in = i, rx_out = []\<rparr>"
  have 1: "rx_step rx_empty (?s 1 [65, 0, 0, 0] None [65])"
    using rx_interrupt [of 65 rx_empty True "ring_at 1 0 [65, 0, 0, 0]"] by (simp add: rx_empty_def d)
  have 2: "rx_step (?s 1 [65, 0, 0, 0] None [65]) (?s 1 [65, 0, 0, 0] (Some 65) [65])"
    using rx_copy [of "?s 1 [65, 0, 0, 0] None [65]" "[65, 0, 0, 0]" 65] by (simp add: d)
  have 3: "rx_step (?s 1 [65, 0, 0, 0] (Some 65) [65]) (?s 2 [65, 66, 0, 0] (Some 65) [65, 66])"
    using rx_interrupt [of 66 "?s 1 [65, 0, 0, 0] (Some 65) [65]" True "ring_at 2 0 [65, 66, 0, 0]"] by (simp add: d)
  have 4: "rx_step (?s 2 [65, 66, 0, 0] (Some 65) [65, 66]) rx_overtaken"
    using rx_advance [of "?s 2 [65, 66, 0, 0] (Some 65) [65, 66]" 65 1] by (simp add: rx_overtaken_def d)
  show ?thesis
    by (rule step [OF 1 step [OF 2 step [OF 3 step [OF 4 rtranclp.rtrancl_refl]]]])
qed

definition tx_full :: tx_sys where
  "tx_full = \<lparr>tx_ring = ring_at 2 0 [79, 75, 0, 0], tx_at = TxTest, tx_in = [79, 75], tx_out = []\<rparr>"

lemma tx_sample: "tx_step\<^sup>*\<^sup>* tx_full (tx_full\<lparr>tx_ring := ring_at 2 1 [79, 75, 0, 0], tx_out := [79]\<rparr>)"
  using tx_interrupt [of tx_full "Some 79" "ring_at 2 1 [79, 75, 0, 0]"]
  by (intro r_into_rtranclp) (simp add: tx_full_def ring_get_def ring_next_def mem_get_def ring_at_def)

theorem rings_interleaved_witness:
  "rx_step\<^sup>*\<^sup>* rx_empty rx_overtaken \<and> rx_in rx_overtaken = rx_out rx_overtaken @ ring_content (rx_ring rx_overtaken) \<and>
   [79, 75] = [79] @ ring_content (ring_at 2 1 [79, 75, 0, 0])"
  using rings_interleaved [OF rx_sample _ _ _ tx_sample] ring_at_ok ring_at_content rx_sample by (simp add: rx_empty_def tx_full_def)

definition sample_ports :: "usart_t list" where
  "sample_ports = replicate 4 \<lparr>CR1_UE = True, CR1_TXEIE = True, BRR = 8, baudrate = 115200,
     us_rx = ring_at 2 0 [79, 75, 0, 0], us_tx = ring_at 2 0 [79, 75, 0, 0]\<rparr>"

lemma sample_ports_ok: "h < 4 \<Longrightarrow> port_ok (sample_ports ! h)"
  by (simp add: sample_ports_def port_ok_def ring_at_ok)

theorem port_read_write_witness:
  "(\<exists>us. usart_read 1 8 sample_ports = Some (2, [79, 75], us)) \<and> (\<exists>us. usart_write 1 [33, 34] sample_ports = Some (1, us))"
proof -
  have f: "length (fitting [33, 34] (us_tx (sample_ports ! 1))) = 1" "ring_content (us_rx (sample_ports ! 1)) = [79, 75]"
    using ring_at_content(2) by (simp_all add: fitting_def sample_ports_def) (simp add: ring_room_def ring_at_def)
  then show ?thesis
    using port_read_write [of sample_ports 1 1 8 "[33, 34]"] sample_ports_ok by (auto simp: sample_ports_def [THEN arg_cong [of _ _ length]])
qed

theorem usart_flush_drains_witness:
  "\<exists>r. usart_flush (\<lambda>k. \<lparr>ISR_RXNE = False, ISR_TXE = True, RDR = 0\<rparr>) 2 sample_ports = ret ([79, 75], sample_ports[2 := (sample_ports ! 2)\<lparr>us_tx := r\<rparr>])"
proof -
  have "length sample_ports = 4" "CR1_TXEIE (sample_ports ! 2)" "ring_content (us_tx (sample_ports ! 2)) = [79, 75]"
    using ring_at_content(2) by (simp_all add: sample_ports_def)
  then show ?thesis
    using usart_flush_drains [of sample_ports 2 2 "\<lambda>k. \<lparr>ISR_RXNE = False, ISR_TXE = True, RDR = 0\<rparr>"] sample_ports_ok [of 2] by auto
qed

theorem usart_handle_4_witness: "usart_read 4 1 sample_ports = None"
  using usart_handle_4 [of sample_ports 1] by (simp add: sample_ports_def)

end
