(* ===== verification/At_Parser.thy ===== *)
theory At_Parser
  imports Usart
begin

text \<open>
  The parser for the answers of the modem, \<open>platform/connect_shield/src/at_parser.c\<close>.  It hashes the
  characters of a line and looks the hash up in two tables of expected answers.

  What the parser uses of the board is the record \<open>'w board\<close>, an argument of every operation: the
  serial driver, the C library's \<open>fprintf\<close> to a port (\<open>bd_print\<close>, the text already formatted),
  \<open>delay_ms\<close>, the start of the pulse generator (\<open>pwm_init\<close>, \<open>pwm_start\<close>) and the invocation of a callback.  \<open>'w\<close> is the state of all these.

  The locale \<open>serial_line\<close> states what the driver promises about the bytes that arrive and those that
  are sent.  Inside it the waiting loops are shown to compute \<open>next_event\<close> and \<open>first_event\<close>, functions
  of the characters that arrive alone: how they are spread over the polls does not matter.  The driver of
  \<open>Usart\<close>, run together with a schedule of interrupts, satisfies the contract (interpretation \<open>port1\<close>).
\<close>

section \<open>Data\<close>

type_synonym at_event_t = u8

definition AT_GENERIC_EVENT_MASK :: u8 where "AT_GENERIC_EVENT_MASK = 0x80"
definition AT_SPECIFIC_EVENT_MASK :: u8 where "AT_SPECIFIC_EVENT_MASK = 0x40"
definition AT_NO_EVENT :: at_event_t where "AT_NO_EVENT = AT_GENERIC_EVENT_MASK OR 0"
definition AT_IDLE_EVENT :: at_event_t where "AT_IDLE_EVENT = AT_GENERIC_EVENT_MASK OR 1"
definition AT_TIMEOUT_EVENT :: at_event_t where "AT_TIMEOUT_EVENT = AT_GENERIC_EVENT_MASK OR 2"
definition AT_COMMAND_SUCCESS_EVENT :: at_event_t where "AT_COMMAND_SUCCESS_EVENT = AT_GENERIC_EVENT_MASK OR 3"
definition AT_COMMAND_FAILURE_EVENT :: at_event_t where "AT_COMMAND_FAILURE_EVENT = AT_GENERIC_EVENT_MASK OR 4"
definition AT_COMMAND_NOTIFICATION_EVENT :: at_event_t where "AT_COMMAND_NOTIFICATION_EVENT = AT_GENERIC_EVENT_MASK OR 5"

lemmas at_event_defs = AT_GENERIC_EVENT_MASK_def AT_SPECIFIC_EVENT_MASK_def AT_NO_EVENT_def AT_IDLE_EVENT_def AT_TIMEOUT_EVENT_def
  AT_COMMAND_SUCCESS_EVENT_def AT_COMMAND_FAILURE_EVENT_def AT_COMMAND_NOTIFICATION_EVENT_def

text \<open>Pointers to contexts and functions are addresses; 0 is NULL.\<close>

record at_callback_t =
  cb_ctx :: nat
  cb_fct :: nat

record at_map_entry_t =
  at_hash :: u32
  at_evt :: at_event_t
  at_cb :: at_callback_t

text \<open>A table is the list of its entries, NULL the empty one; its size is kept beside it, as in C.\<close>

record at_t =
  locked :: u8
  at_io :: u8
  generic_table :: "at_map_entry_t list"
  generic_table_size :: u8
  specific_table :: "at_map_entry_t list"
  specific_table_size :: u8
  async_cb :: at_callback_t

record 'w board =
  bd_read :: "u8 \<Rightarrow> u16 \<Rightarrow> 'w \<Rightarrow> (int \<times> u8 list \<times> 'w) exec"
  bd_write :: "u8 \<Rightarrow> u8 list \<Rightarrow> 'w \<Rightarrow> (int \<times> 'w) exec"
  bd_print :: "u8 \<Rightarrow> u8 list \<Rightarrow> 'w \<Rightarrow> 'w exec"
  bd_delay :: "nat \<Rightarrow> 'w \<Rightarrow> 'w exec"
  bd_pwm :: "'w \<Rightarrow> 'w exec"
  bd_call :: "at_callback_t \<Rightarrow> at_event_t \<Rightarrow> at_t \<Rightarrow> 'w \<Rightarrow> (at_t \<times> 'w) exec"

section \<open>Operations\<close>

definition at_init :: "u8 \<Rightarrow> at_map_entry_t list \<Rightarrow> u8 \<Rightarrow> at_t \<Rightarrow> at_t" where
  "at_init io table n at = at\<lparr>at_io := io, locked := 0, generic_table := table, generic_table_size := n,
     specific_table := [], specific_table_size := 0\<rparr>"

definition at_set_specific :: "at_map_entry_t list \<Rightarrow> at_t \<Rightarrow> at_t" where
  "at_set_specific table at = at\<lparr>specific_table := table, specific_table_size := of_nat (length table)\<rparr>"

definition at_set_async_cb :: "nat \<Rightarrow> nat \<Rightarrow> at_t \<Rightarrow> at_t" where
  "at_set_async_cb context callback at = at\<lparr>async_cb := \<lparr>cb_ctx = context, cb_fct = callback\<rparr>\<rparr>"

definition at_unlock :: "at_t \<Rightarrow> at_t" where
  "at_unlock at = at\<lparr>specific_table := [], specific_table_size := 0, locked := 0\<rparr>"

text \<open>The search over the first \<open>n\<close> entries; \<open>None\<close> is a table that ends before its size.\<close>

fun find_entry :: "u32 \<Rightarrow> at_map_entry_t list \<Rightarrow> nat \<Rightarrow> at_map_entry_t option option" where
  "find_entry h t 0 = Some None"
| "find_entry h [] (Suc n) = None"
| "find_entry h (e # t) (Suc n) = (if h = at_hash e then Some (Some e) else find_entry h t n)"

definition at_hash_map_contains :: "u32 \<Rightarrow> at_t \<Rightarrow> at_map_entry_t option option" where
  "at_hash_map_contains h at = do {
     r \<leftarrow> find_entry h (generic_table at) (unat (generic_table_size at));
     case r of
       Some e \<Rightarrow> Some (Some e)
     | None \<Rightarrow> find_entry h (specific_table at) (unat (specific_table_size at)) }"

definition is_response :: "at_event_t \<Rightarrow> bool" where
  "is_response e \<longleftrightarrow> e = AT_COMMAND_SUCCESS_EVENT \<or> e = AT_COMMAND_FAILURE_EVENT"

text \<open>The body of \<open>at_process_recv\<close> for a line that is in a table.\<close>

definition deliver :: "'w board \<Rightarrow> at_map_entry_t \<Rightarrow> at_t \<Rightarrow> 'w \<Rightarrow> (at_t \<times> 'w) exec" where
  "deliver bd entry at w =
     bnd (if is_response (at_evt entry) then bnd (bd_delay bd 100 w) (\<lambda>w. ret (at_unlock at, w)) else ret (at, w)) (\<lambda>(at, w).
     bnd (if cb_fct (at_cb entry) \<noteq> 0 then bd_call bd (at_cb entry) (at_evt entry) at w else ret (at, w)) (\<lambda>(at, w).
     if cb_fct (async_cb at) \<noteq> 0 then
       if is_response (at_evt entry) then
         bnd (bd_call bd (async_cb at) (at_evt entry) at w) (\<lambda>(at, w). ret (at\<lparr>async_cb := \<lparr>cb_ctx = 0, cb_fct = 0\<rparr>\<rparr>, w))
       else if at_evt entry = AT_COMMAND_NOTIFICATION_EVENT then bd_call bd (async_cb at) (at_evt entry) at w
       else ret (at, w)
     else ret (at, w)))"

definition blank :: "u8 \<Rightarrow> bool" where
  "blank c \<longleftrightarrow> c = 32 \<or> c = 13 \<or> c = 10"

definition terminator :: "u8 \<Rightarrow> bool" where
  "terminator c \<longleftrightarrow> c = 10 \<or> c = 62 \<or> c = 44 \<or> c = 58"

definition hash_step :: "u32 \<Rightarrow> u8 \<Rightarrow> u32" where
  "hash_step h c = (push_bit 5 h + h) + ucast c"

text \<open>
  The loop of \<open>at_process_recv\<close>: one poll of the port, then the test \<open>read && (c != '\n')\<close>.  The
  \<open>continue\<close> for a blank at the start of a line goes to that test with \<open>read\<close> zero and leaves the loop.
\<close>

partial_function (option) recv_loop :: "'w board \<Rightarrow> u16 \<Rightarrow> u32 \<Rightarrow> u8 \<Rightarrow> at_t \<Rightarrow> 'w \<Rightarrow> (at_event_t \<times> at_t \<times> 'w) exec" where
  "recv_loop bd read hash c at w =
     bnd (bd_read bd (at_io at) 1 w) (\<lambda>(r, bs, w).
     if r = 1 then
       let c = (case bs of [] \<Rightarrow> c | b # _ \<Rightarrow> b) in
       let read = read + 1 in
       if read = 1 \<and> blank c then ret (AT_TIMEOUT_EVENT, at, w)
       else let hash = hash_step hash c in
         bnd (if terminator c then access (at_hash_map_contains hash at) else ret None) (\<lambda>entry.
         case entry of
           Some e \<Rightarrow> bnd (deliver bd e at w) (\<lambda>(at, w). ret (at_evt e, at, w))
         | None \<Rightarrow> if read \<noteq> 0 \<and> c \<noteq> 10 then recv_loop bd read hash c at w else ret (AT_TIMEOUT_EVENT, at, w))
     else if read \<noteq> 0 \<and> c \<noteq> 10 then recv_loop bd read hash c at w
     else ret (AT_TIMEOUT_EVENT, at, w))"

definition at_process_recv :: "'w board \<Rightarrow> at_t \<Rightarrow> 'w \<Rightarrow> (at_event_t \<times> at_t \<times> 'w) exec" where
  "at_process_recv bd at w = recv_loop bd 0 5381 0 at w"

text \<open>\<open>do event = at_process_recv(at); while(...)\<close>, ended by the first event with \<open>P\<close>.\<close>

partial_function (option) wait_until :: "'w board \<Rightarrow> (at_event_t \<Rightarrow> bool) \<Rightarrow> at_t \<Rightarrow> 'w \<Rightarrow> (at_event_t \<times> at_t \<times> 'w) exec" where
  "wait_until bd P at w =
     bnd (at_process_recv bd at w) (\<lambda>(e, at, w). if P e then ret (e, at, w) else wait_until bd P at w)"

definition at_wait_for_timeout :: "'w board \<Rightarrow> at_t \<Rightarrow> 'w \<Rightarrow> (at_event_t \<times> at_t \<times> 'w) exec" where
  "at_wait_for_timeout bd at w = wait_until bd (\<lambda>e. e = AT_TIMEOUT_EVENT) at w"

definition at_wait_for_notification :: "'w board \<Rightarrow> at_t \<Rightarrow> 'w \<Rightarrow> (at_event_t \<times> at_t \<times> 'w) exec" where
  "at_wait_for_notification bd at w = wait_until bd (\<lambda>e. e = AT_COMMAND_NOTIFICATION_EVENT) at w"

definition at_wait_for_response :: "'w board \<Rightarrow> at_t \<Rightarrow> 'w \<Rightarrow> (at_event_t \<times> at_t \<times> 'w) exec" where
  "at_wait_for_response bd at w = wait_until bd is_response at w"

definition at_wait_for_event :: "'w board \<Rightarrow> at_event_t \<Rightarrow> at_t \<Rightarrow> 'w \<Rightarrow> (at_event_t \<times> at_t \<times> 'w) exec" where
  "at_wait_for_event bd evt at w = wait_until bd (\<lambda>e. e = evt) at w"

text \<open>\<open>while(at->locked) at_process_recv(at);\<close>\<close>

partial_function (option) unlock_loop :: "'w board \<Rightarrow> at_t \<Rightarrow> 'w \<Rightarrow> (at_t \<times> 'w) exec" where
  "unlock_loop bd at w =
     (if locked at \<noteq> 0 then bnd (at_process_recv bd at w) (\<lambda>(e, at, w). unlock_loop bd at w) else ret (at, w))"

definition at_lock :: "'w board \<Rightarrow> at_t \<Rightarrow> 'w \<Rightarrow> (at_t \<times> 'w) exec" where
  "at_lock bd at w =
     bnd (unlock_loop bd at w) (\<lambda>(at, w).
     bnd (at_wait_for_timeout bd at w) (\<lambda>(e, at, w).
     ret (at\<lparr>locked := 1\<rparr>, w)))"

definition at_print :: "'w board \<Rightarrow> u8 list \<Rightarrow> at_t \<Rightarrow> 'w \<Rightarrow> 'w exec" where
  "at_print bd txt at w = bd_print bd (at_io at) txt w"

text \<open>
  Writing and reading whole buffers.  Both return \<open>len\<close> whatever happens.  Handing the driver a range
  that leaves the caller's object is a fault; received bytes are stored as they come.
\<close>

partial_function (option) write_loop :: "'w board \<Rightarrow> u8 \<Rightarrow> mem \<Rightarrow> u16 \<Rightarrow> u16 \<Rightarrow> 'w \<Rightarrow> 'w exec" where
  "write_loop bd io data len i w =
     (if i < len then
        bnd (access (mem_read data (unat i) (unat (len - i)))) (\<lambda>chunk.
        bnd (bd_write bd io chunk w) (\<lambda>(written, w).
        if written = -1 then ret w
        else write_loop bd io data len (if 0 < written then i + of_int written else i) w))
      else ret w)"

definition at_write :: "'w board \<Rightarrow> at_t \<Rightarrow> mem \<Rightarrow> u16 \<Rightarrow> 'w \<Rightarrow> (u16 \<times> 'w) exec" where
  "at_write bd at data len w = bnd (write_loop bd (at_io at) data len 0 w) (\<lambda>w. ret (len, w))"

partial_function (option) read_loop :: "'w board \<Rightarrow> u8 \<Rightarrow> mem \<Rightarrow> u16 \<Rightarrow> u16 \<Rightarrow> 'w \<Rightarrow> (mem \<times> 'w) exec" where
  "read_loop bd io data len i w =
     (if i < len then
        bnd (bd_read bd io (len - i) w) (\<lambda>(read, bs, w).
        bnd (access (mem_write data (unat i) bs)) (\<lambda>data.
        if read = -1 then ret (data, w)
        else read_loop bd io data len (if 0 < read then i + of_int read else i) w))
      else ret (data, w))"

definition at_read :: "'w board \<Rightarrow> at_t \<Rightarrow> mem \<Rightarrow> u16 \<Rightarrow> 'w \<Rightarrow> (u16 \<times> mem \<times> 'w) exec" where
  "at_read bd at data len w = bnd (read_loop bd (at_io at) data len 0 w) (\<lambda>(data, w). ret (len, data, w))"

section \<open>The events of a stream of characters\<close>

definition tables_ok :: "at_t \<Rightarrow> bool" where
  "tables_ok at \<longleftrightarrow> unat (generic_table_size at) = length (generic_table at) \<and> unat (specific_table_size at) = length (specific_table at)"

definition no_callbacks :: "at_t \<Rightarrow> bool" where
  "no_callbacks at \<longleftrightarrow> cb_fct (async_cb at) = 0 \<and> (\<forall>e \<in> set (generic_table at @ specific_table at). cb_fct (at_cb e) = 0)"

definition entry_for :: "u32 \<Rightarrow> at_t \<Rightarrow> at_map_entry_t option" where
  "entry_for h at = find (\<lambda>e. at_hash e = h) (generic_table at @ specific_table at)"

text \<open>The rest of a line whose first characters have the hash \<open>h\<close>: the entry found, and what follows it.\<close>

fun line_entry :: "at_t \<Rightarrow> u32 \<Rightarrow> u8 list \<Rightarrow> (at_map_entry_t option \<times> u8 list) option" where
  "line_entry at h [] = None"
| "line_entry at h (c # cs) =
     (case (if terminator c then entry_for (hash_step h c) at else None) of
        Some e \<Rightarrow> Some (Some e, cs)
      | None \<Rightarrow> if c = 10 then Some (None, cs) else line_entry at (hash_step h c) cs)"

lemma line_entry_shorter: "line_entry at h cs = Some (r, ds) \<Longrightarrow> length ds < length cs"
proof (induction cs arbitrary: h)
  case (Cons c cs)
  then show ?case
    by (fastforce split: option.splits if_splits)
qed simp

text \<open>The first line that is in a table, with blanks at the start of a line and unknown lines skipped.\<close>

function next_event :: "at_t \<Rightarrow> u8 list \<Rightarrow> (at_map_entry_t \<times> u8 list) option" where
  "next_event at [] = None"
| "next_event at (c # cs) =
     (if blank c then next_event at cs
      else case line_entry at 5381 (c # cs) of
        None \<Rightarrow> None
      | Some (Some e, ds) \<Rightarrow> Some (e, ds)
      | Some (None, ds) \<Rightarrow> next_event at ds)"
  by pat_completeness auto

termination
  by (relation "measure (\<lambda>(at, cs). length cs)") (auto dest: line_entry_shorter simp del: line_entry.simps)

lemma next_event_shorter: "next_event at cs = Some (e, ds) \<Longrightarrow> length ds < length cs"
proof (induction at cs rule: next_event.induct)
  case (2 at c cs)
  show ?case
  proof (cases "blank c")
    case True
    then show ?thesis
      using 2 by fastforce
  next
    case False
    then obtain r es where l: "line_entry at 5381 (c # cs) = Some (r, es)"
      using "2.prems" by (auto simp del: line_entry.simps split: option.splits)
    show ?thesis
    proof (cases r)
      case None
      then show ?thesis
        using 2 False l line_entry_shorter [OF l] by (fastforce simp del: line_entry.simps)
    qed (use "2.prems" False l line_entry_shorter [OF l] in \<open>auto simp del: line_entry.simps\<close>)
  qed
qed simp

text \<open>What a found entry does to the parser, and the first event with \<open>P\<close>.\<close>

definition after_entry :: "at_map_entry_t \<Rightarrow> at_t \<Rightarrow> at_t" where
  "after_entry e at = (if is_response (at_evt e) then at_unlock at else at)"

function first_event :: "(at_event_t \<Rightarrow> bool) \<Rightarrow> at_t \<Rightarrow> u8 list \<Rightarrow> (at_event_t \<times> at_t \<times> u8 list) option" where
  "first_event P at cs =
     (case next_event at cs of
        None \<Rightarrow> None
      | Some (e, ds) \<Rightarrow> if P (at_evt e) then Some (at_evt e, after_entry e at, ds) else first_event P (after_entry e at) ds)"
  by pat_completeness auto

termination
  by (relation "measure (\<lambda>(P, at, cs). length cs)") (auto dest: next_event_shorter)

declare first_event.simps [simp del]

lemma find_entry_find: "n = length t \<Longrightarrow> find_entry h t n = Some (find (\<lambda>e. at_hash e = h) t)"
  by (induction h t n rule: find_entry.induct) auto

lemma find_append: "find P (xs @ ys) = (case find P xs of None \<Rightarrow> find P ys | Some x \<Rightarrow> Some x)"
  by (induction xs) auto

lemma contains_entry: "tables_ok at \<Longrightarrow> at_hash_map_contains h at = Some (entry_for h at)"
  by (auto simp: tables_ok_def at_hash_map_contains_def entry_for_def find_entry_find find_append split: option.splits)

lemma lookup_no_callback: "no_callbacks at \<Longrightarrow> entry_for h at = Some e \<Longrightarrow> cb_fct (at_cb e) = 0"
  using nth_mem by (fastforce simp: no_callbacks_def entry_for_def find_Some_iff simp del: set_append)

lemma after_entry_kept:
  assumes "tables_ok at" and "no_callbacks at"
  shows "tables_ok (after_entry e at)" and "no_callbacks (after_entry e at)" and "at_io (after_entry e at) = at_io at"
  using assms by (auto simp: after_entry_def at_unlock_def tables_ok_def no_callbacks_def)

lemma answer_kept:
  "first_event P at cs = Some (evt, at', r) \<Longrightarrow> tables_ok at \<Longrightarrow> no_callbacks at \<Longrightarrow>
   tables_ok at' \<and> no_callbacks at' \<and> at_io at' = at_io at \<and> generic_table at' = generic_table at \<and> P evt"
proof (induction P at cs rule: first_event.induct)
  case (1 P at cs)
  obtain e ds where n: "next_event at cs = Some (e, ds)"
    using "1.prems"(1) by (auto simp: first_event.simps [of P at cs] split: option.splits)
  have g: "generic_table (after_entry e at) = generic_table at"
    by (simp add: after_entry_def at_unlock_def)
  show ?case
  proof (cases "P (at_evt e)")
    case True
    then show ?thesis
      using "1.prems" n g after_entry_kept [OF "1.prems"(2,3)] by (auto simp: first_event.simps [of P at cs])
  next
    case False
    then show ?thesis
      using "1.IH" [OF n refl False] "1.prems" n g after_entry_kept [OF "1.prems"(2,3)] by (auto simp: first_event.simps [of P at cs])
  qed
qed

text \<open>Positions in a buffer of at most 65535 bytes.\<close>

lemma u16_sub: "i < len \<Longrightarrow> unat (len - i) = unat len - unat i" for i len :: u16
  by (simp add: unat_sub word_less_nat_alt less_imp_le)

lemma u16_forward: "i < len \<Longrightarrow> k \<le> unat (len - i) \<Longrightarrow> unat (i + of_nat k) = unat i + k" for i len :: u16
proof -
  assume "i < len" and "k \<le> unat (len - i)"
  then have "unat i + k < 65536" "k < 65536"
    using u16_lt [of len] u16_sub [of i len] unfolding word_less_nat_alt by linarith+
  then show "unat (i + of_nat k) = unat i + k"
    by (simp add: unat_word_ariths unsigned_of_nat take_bit_nat_eq_self)
qed

section \<open>The contract of the serial line\<close>

text \<open>
  \<open>rest w\<close> are the characters that will be read, in order, and \<open>gaps w\<close> bounds the empty polls before the
  next one; \<open>quiet w\<close> says that the next poll is empty.  \<open>sent w\<close> are the bytes handed over so far,
  and \<open>cap w\<close> the number that can be handed over at once.  The device at the other end is a machine with
  the state \<open>peer w\<close>: to a text that is sent it answers with \<open>react\<close>.
\<close>

locale serial_line =
  fixes bd :: "'w board" and io :: u8 and ok :: "'w \<Rightarrow> bool" and rest :: "'w \<Rightarrow> u8 list" and gaps :: "'w \<Rightarrow> nat"
    and quiet :: "'w \<Rightarrow> bool" and sent :: "'w \<Rightarrow> u8 list" and cap :: "'w \<Rightarrow> nat" and peer :: "'w \<Rightarrow> 'm"
    and react :: "'m \<Rightarrow> u8 list \<Rightarrow> 'm \<times> u8 list"
  assumes read_law: "ok w \<Longrightarrow> \<exists>p w'. bd_read bd io n w = ret (int (length p), p, w') \<and> ok w' \<and> rest w = p @ rest w' \<and>
      length p \<le> unat n \<and> (quiet w \<longrightarrow> p = []) \<and> (p = [] \<and> n \<noteq> 0 \<and> rest w \<noteq> [] \<longrightarrow> gaps w' < gaps w) \<and>
      sent w' = sent w \<and> cap w \<le> cap w' \<and> peer w' = peer w"
    and write_law: "ok w \<Longrightarrow> length bs \<le> cap w \<Longrightarrow> \<exists>w'. bd_write bd io bs w = ret (int (length bs), w') \<and> ok w' \<and>
      (peer w', rest w') = (let (m, r) = react (peer w) bs in (m, rest w @ r)) \<and> sent w' = sent w @ bs \<and> cap w \<le> cap w' + length bs"
    and print_law: "ok w \<Longrightarrow> length bs \<le> cap w \<Longrightarrow> \<exists>w'. bd_print bd io bs w = ret w' \<and> ok w' \<and>
      (peer w', rest w') = (let (m, r) = react (peer w) bs in (m, rest w @ r)) \<and> sent w' = sent w @ bs \<and> cap w \<le> cap w' + length bs"
    and delay_law: "ok w \<Longrightarrow> \<exists>w'. bd_delay bd ms w = ret w' \<and> ok w' \<and> rest w' = rest w \<and> sent w' = sent w \<and> cap w \<le> cap w' \<and> peer w' = peer w"
    and quiet_law: "rest w = [] \<Longrightarrow> quiet w"
begin

text \<open>Reading takes characters from the line and sends nothing; sending makes the device answer.\<close>

definition took :: "'w \<Rightarrow> u8 list \<Rightarrow> 'w \<Rightarrow> bool" where
  "took w r w' \<longleftrightarrow> ok w' \<and> rest w' = r \<and> sent w' = sent w \<and> cap w \<le> cap w' \<and> peer w' = peer w"

definition said :: "'w \<Rightarrow> u8 list \<Rightarrow> 'w \<Rightarrow> bool" where
  "said w bs w' \<longleftrightarrow> ok w' \<and> (peer w', rest w') = (let (m, r) = react (peer w) bs in (m, rest w @ r)) \<and> sent w' = sent w @ bs \<and>
     cap w \<le> cap w' + length bs"

lemma took_trans: "took w r v \<Longrightarrow> took v s u \<Longrightarrow> took w s u"
  by (auto simp: took_def)

text \<open>A loop that is not changed by empty polls gets the next character.\<close>

lemma next_char:
  assumes "ok w" and "rest w = b # bs" and skip: "\<And>w w'. bd_read bd io 1 w = ret (0, [], w') \<Longrightarrow> F w = F w'"
  shows "\<exists>v w'. F w = F v \<and> bd_read bd io 1 v = ret (1, [b], w') \<and> took w bs w'"
  using assms(1,2)
proof (induction "gaps w" arbitrary: w rule: less_induct)
  case less
  obtain p w' where p: "bd_read bd io 1 w = ret (int (length p), p, w')" "ok w'" "rest w = p @ rest w'" "length p \<le> 1"
    "p = [] \<longrightarrow> gaps w' < gaps w" "took w (rest w') w'"
    using read_law [OF less.prems(1), of 1] less.prems(2) by (auto simp: took_def)
  show ?case
  proof (cases p)
    case Nil
    then obtain v u where "F w' = F v" "bd_read bd io 1 v = ret (1, [b], u)" "took w' bs u"
      using less.hyps [of w'] less.prems(2) p by auto
    then show ?thesis
      using skip [of w w'] p Nil took_trans [of w "rest w'" w' bs u] by (auto simp: took_def)
  next
    case (Cons c cs)
    then have "p = [b]"
      using p(3,4) less.prems(2) by (cases cs) auto
    then show ?thesis
      using p less.prems(2) by (auto simp: took_def)
  qed
qed

lemma deliver_plain:
  assumes "ok w" and "no_callbacks at" and "cb_fct (at_cb e) = 0"
  shows "\<exists>w'. deliver bd e at w = ret (after_entry e at, w') \<and> took w (rest w) w'"
proof (cases "is_response (at_evt e)")
  case True
  obtain w' where w': "bd_delay bd 100 w = ret w'" "took w (rest w) w'"
    using delay_law [OF assms(1), of 100] by (auto simp: took_def)
  have "cb_fct (async_cb (at_unlock at)) = 0"
    using assms(2) by (simp add: at_unlock_def no_callbacks_def)
  then show ?thesis
    using True assms(3) w' by (simp add: deliver_def after_entry_def)
next
  case False
  then show ?thesis
    using assms by (simp add: deliver_def after_entry_def took_def no_callbacks_def)
qed

text \<open>The rest of a line, once its first character has been read.\<close>

lemma recv_line:
  assumes "ok w" and "line_entry at h (rest w) = Some (r, ds)" and "unat read + length (rest w) < 65536" and "read \<noteq> 0" and "c \<noteq> 10"
    and "tables_ok at" and "no_callbacks at" and "at_io at = io"
  shows "\<exists>w'. recv_loop bd read h c at w = ret (case r of None \<Rightarrow> (AT_TIMEOUT_EVENT, at, w') | Some e \<Rightarrow> (at_evt e, after_entry e at, w')) \<and> took w ds w'"
  using assms(1-5)
proof (induction "rest w" arbitrary: w h read c)
  case (Cons b bs)
  have "recv_loop bd read h c at w = recv_loop bd read h c at w'" if "bd_read bd io 1 w = ret (0, [], w')" for w w'
    using that Cons.prems(4,5) assms(8) by (simp add: recv_loop.simps [of bd read h c at w])
  then obtain v u where v: "recv_loop bd read h c at w = recv_loop bd read h c at v" "bd_read bd io 1 v = ret (1, [b], u)" "took w bs u"
    using next_char [OF Cons.prems(1) Cons.hyps(2) [symmetric], of "recv_loop bd read h c at"] by blast
  have n: "unat (read + 1) = unat read + 1"
    using Cons.prems(3) Cons.hyps(2) [symmetric] by (simp add: unat_word_ariths take_bit_nat_eq_self)
  then have n0: "read + 1 \<noteq> 0" "read + 1 \<noteq> 1"
    using Cons.prems(4) by (auto simp: unat_eq_0)
  note step = recv_loop.simps [of bd read h c at v]
  let ?l = "if terminator b then entry_for (hash_step h b) at else None"
  show ?case
  proof (cases ?l)
    case None
    then have body: "recv_loop bd read h c at v = (if b \<noteq> 10 then recv_loop bd (read + 1) (hash_step h b) b at u else ret (AT_TIMEOUT_EVENT, at, u))"
      using v(2) n0 assms(6,8) by (subst step) (auto simp: contains_entry Let_def)
    show ?thesis
    proof (cases "b = 10")
      case True
      then show ?thesis
        using body v(1,3) Cons.prems(2) Cons.hyps(2) [symmetric] None by auto
    next
      case False
      have "\<exists>w'. recv_loop bd (read + 1) (hash_step h b) b at u =
          ret (case r of None \<Rightarrow> (AT_TIMEOUT_EVENT, at, w') | Some e \<Rightarrow> (at_evt e, after_entry e at, w')) \<and> took u ds w'"
        using Cons.hyps(1) [of u "hash_step h b" "read + 1" b] v(3) Cons.prems(2,3) Cons.hyps(2) [symmetric] None False n n0
        by (auto simp: took_def)
      then show ?thesis
        using body v(1,3) False took_trans by auto
    qed
  next
    case (Some e)
    then have e: "terminator b" "entry_for (hash_step h b) at = Some e"
      by (auto split: if_splits)
    obtain w' where w': "deliver bd e at u = ret (after_entry e at, w')" "took u bs w'"
      using deliver_plain [of u at e] v(3) assms(7) lookup_no_callback [OF assms(7) e(2)] by (auto simp: took_def)
    have "recv_loop bd read h c at v = ret (at_evt e, after_entry e at, w')"
      using v(2) n0 assms(6,8) e w'(1) by (subst step) (auto simp: contains_entry Let_def)
    moreover have "r = Some e" "ds = bs"
      using Cons.prems(2) Cons.hyps(2) [symmetric] e by auto
    ultimately show ?thesis
      using v(1,3) w'(2) took_trans by auto
  qed
qed simp

text \<open>A whole line: the first character is read when the parser stands before it.\<close>

lemma recv_start:
  assumes "bd_read bd io 1 v = ret (1, [c], u)" and "at_io at = io" and "tables_ok at" and "no_callbacks at" and "ok u" and "length (rest u) < 65535"
  shows "blank c \<Longrightarrow> at_process_recv bd at v = ret (AT_TIMEOUT_EVENT, at, u)"
    and "\<not> blank c \<Longrightarrow> line_entry at 5381 (c # rest u) = Some (r, ds) \<Longrightarrow>
      \<exists>w'. at_process_recv bd at v = ret (case r of None \<Rightarrow> (AT_TIMEOUT_EVENT, at, w') | Some e \<Rightarrow> (at_evt e, after_entry e at, w')) \<and> took u ds w'"
proof -
  note step = recv_loop.simps [of bd 0 5381 0 at v]
  show "at_process_recv bd at v = ret (AT_TIMEOUT_EVENT, at, u)" if "blank c"
    using that assms(1,2) by (simp add: at_process_recv_def step)
  assume nb: "\<not> blank c" and l: "line_entry at 5381 (c # rest u) = Some (r, ds)"
  then have c: "c \<noteq> 10"
    by (simp add: blank_def)
  show "\<exists>w'. at_process_recv bd at v = ret (case r of None \<Rightarrow> (AT_TIMEOUT_EVENT, at, w') | Some e \<Rightarrow> (at_evt e, after_entry e at, w')) \<and> took u ds w'"
  proof (cases "if terminator c then entry_for (hash_step 5381 c) at else None")
    case None
    then have body: "at_process_recv bd at v = recv_loop bd 1 (hash_step 5381 c) c at u"
      using assms(1-3) nb c unfolding at_process_recv_def by (subst step) (auto simp: contains_entry Let_def)
    show ?thesis
      using recv_line [of u at "hash_step 5381 c" r ds 1 c] assms(2-6) c l None body by auto
  next
    case (Some e)
    then have e: "terminator c" "entry_for (hash_step 5381 c) at = Some e"
      by (auto split: if_splits)
    obtain w' where w': "deliver bd e at u = ret (after_entry e at, w')" "took u (rest u) w'"
      using deliver_plain [OF assms(5,4) lookup_no_callback [OF assms(4) e(2)]] by blast
    have "at_process_recv bd at v = ret (at_evt e, after_entry e at, w')"
      using assms(1-3) nb e w'(1) unfolding at_process_recv_def by (subst step) (auto simp: contains_entry Let_def)
    moreover have "r = Some e" "ds = rest u"
      using l e by auto
    ultimately show ?thesis
      using w'(2) by auto
  qed
qed

text \<open>A loop that is not changed by timeouts gets the next event: empty polls, blanks and unknown lines are skipped.\<close>

lemma next_line:
  assumes "at_io at = io" and "tables_ok at" and "no_callbacks at" and "ok w" and "length (rest w) < 65536" and "next_event at (rest w) = Some (e, ds)"
    and skip: "\<And>w w'. at_process_recv bd at w = ret (AT_TIMEOUT_EVENT, at, w') \<Longrightarrow> F w = F w'"
  shows "\<exists>v w'. F w = F v \<and> at_process_recv bd at v = ret (at_evt e, after_entry e at, w') \<and> took w ds w'"
  using assms(4-6)
proof (induction "length (rest w)" arbitrary: w rule: less_induct)
  case less
  obtain c r where c: "rest w = c # r"
    using less.prems(3) by (cases "rest w") auto
  have poll: "F w = F w'" if "bd_read bd io 1 w = ret (0, [], w')" for w w'
    using that assms(1) by (intro skip) (simp add: at_process_recv_def recv_loop.simps [of bd 0])
  obtain v u where v: "F w = F v" "bd_read bd io 1 v = ret (1, [c], u)" "took w r u"
    using next_char [OF less.prems(1) c, of F] poll by blast
  have u: "ok u" "rest u = r" "length (rest u) < 65535"
    using v(3) c less.prems(2) by (auto simp: took_def)
  note start = recv_start [OF v(2) assms(1-3) u(1,3)]
  have again: "\<exists>v w'. F w = F v \<and> at_process_recv bd at v = ret (at_evt e, after_entry e at, w') \<and> took w ds w'"
    if t: "at_process_recv bd at v = ret (AT_TIMEOUT_EVENT, at, x)" "took w es x" "next_event at es = Some (e, ds)" "length es < length (rest w)" for x es
  proof -
    obtain y z where "F x = F y" "at_process_recv bd at y = ret (at_evt e, after_entry e at, z)" "took x ds z"
      using less.hyps [of x] t less.prems(2) by (auto simp: took_def)
    then show ?thesis
      using v(1) skip [OF t(1)] took_trans [OF t(2)] by metis
  qed
  show ?case
  proof (cases "blank c")
    case True
    then show ?thesis
      using again [OF start(1) v(3)] less.prems(3) c by simp
  next
    case False
    then obtain f es where l: "line_entry at 5381 (c # r) = Some (f, es)"
      using less.prems(3) c by (auto simp del: line_entry.simps split: option.splits)
    obtain x where x: "at_process_recv bd at v = ret (case f of None \<Rightarrow> (AT_TIMEOUT_EVENT, at, x) | Some e \<Rightarrow> (at_evt e, after_entry e at, x))" "took w es x"
      using start(2) [OF False] l u(2) v(3) took_trans by (metis (no_types))
    show ?thesis
    proof (cases f)
      case None
      then show ?thesis
        using again [of x es] x l less.prems(3) c False line_entry_shorter [OF l] by (simp del: line_entry.simps)
    next
      case (Some g)
      then have "g = e" "es = ds"
        using l less.prems(3) c False by (auto simp del: line_entry.simps)
      then show ?thesis
        using x v(1) Some by auto
    qed
  qed
qed

lemma wait_next:
  assumes "\<not> P AT_TIMEOUT_EVENT" and "at_io at = io" and "tables_ok at" and "no_callbacks at"
    and "ok w" and "length (rest w) < 65536" and "next_event at (rest w) = Some (e, ds)"
  shows "\<exists>w'. wait_until bd P at w =
      (if P (at_evt e) then ret (at_evt e, after_entry e at, w') else wait_until bd P (after_entry e at) w') \<and> took w ds w'"
proof -
  have "wait_until bd P at w = wait_until bd P at w'" if "at_process_recv bd at w = ret (AT_TIMEOUT_EVENT, at, w')" for w w'
    using that assms(1) by (simp add: wait_until.simps [of bd P at w])
  then obtain v w' where "wait_until bd P at w = wait_until bd P at v" "at_process_recv bd at v = ret (at_evt e, after_entry e at, w')" "took w ds w'"
    using next_line [OF assms(2-7), of "wait_until bd P at"] by blast
  then show ?thesis
    by (auto simp: wait_until.simps [of bd P at v])
qed

lemma wait_answer:
  "first_event P at (rest w) = Some (evt, at', ds) \<Longrightarrow> \<not> P AT_TIMEOUT_EVENT \<Longrightarrow> at_io at = io \<Longrightarrow> tables_ok at \<Longrightarrow> no_callbacks at \<Longrightarrow>
   ok w \<Longrightarrow> length (rest w) < 65536 \<Longrightarrow> \<exists>w'. wait_until bd P at w = ret (evt, at', w') \<and> took w ds w'"
proof (induction P at "rest w" arbitrary: w rule: first_event.induct)
  case (1 P at)
  obtain e es where n: "next_event at (rest w) = Some (e, es)"
    using "1.prems"(1) by (auto simp: first_event.simps [of P at] split: option.splits)
  obtain x where x: "wait_until bd P at w =
      (if P (at_evt e) then ret (at_evt e, after_entry e at, x) else wait_until bd P (after_entry e at) x)" "took w es x"
    using wait_next [where P = P, OF "1.prems"(2-7) n] by blast
  show ?case
  proof (cases "P (at_evt e)")
    case True
    then show ?thesis
      using "1.prems"(1) n x by (auto simp: first_event.simps [of P at])
  next
    case False
    have "\<exists>w'. wait_until bd P (after_entry e at) x = ret (evt, at', w') \<and> took x ds w'"
      using "1.hyps" [OF n, of e x] "1.prems" n x False after_entry_kept [of at e] next_event_shorter [OF n]
      by (auto simp: first_event.simps [of P at] took_def)
    then show ?thesis
      using x False took_trans by auto
  qed
qed

text \<open>Locking when nothing is pending, and when a blank is.\<close>

lemma lock_quiet:
  assumes "ok w" and "at_io at = io" and "locked at = 0" and "quiet w"
  shows "\<exists>w'. at_lock bd at w = ret (at\<lparr>locked := 1\<rparr>, w') \<and> took w (rest w) w'"
proof -
  obtain w' where w': "bd_read bd io 1 w = ret (0, [], w')" "took w (rest w) w'"
    using read_law [OF assms(1), of 1] assms(4) by (auto simp: took_def)
  then have "at_process_recv bd at w = ret (AT_TIMEOUT_EVENT, at, w')"
    using assms(2) by (simp add: at_process_recv_def recv_loop.simps [of bd 0])
  then show ?thesis
    using assms(3) w'(2)
    by (simp add: at_lock_def unlock_loop.simps [of bd at w] at_wait_for_timeout_def wait_until.simps [of bd _ at w])
qed

lemma lock_blank:
  assumes "at_io at = io" and "locked at = 0" and "bd_read bd io 1 w = ret (1, [c], w')" and "blank c"
  shows "at_lock bd at w = ret (at\<lparr>locked := 1\<rparr>, w')"
proof -
  have "at_process_recv bd at w = ret (AT_TIMEOUT_EVENT, at, w')"
    using assms by (simp add: at_process_recv_def recv_loop.simps [of bd 0])
  then show ?thesis
    using assms(2)
    by (simp add: at_lock_def unlock_loop.simps [of bd at w] at_wait_for_timeout_def wait_until.simps [of bd _ at w])
qed

text \<open>Reading a given number of characters.\<close>

lemma read_loop_all:
  assumes "ok w" and "i \<le> len" and "unat len - unat i \<le> length (rest w)"
  shows "if unat len \<le> length data
    then \<exists>w'. read_loop bd io data len i w =
      ret (take (unat i) data @ take (unat len - unat i) (rest w) @ drop (unat len) data, w') \<and> took w (drop (unat len - unat i) (rest w)) w'
    else i < len \<longrightarrow> read_loop bd io data len i w = Some Fault"
  using assms
proof (induction "(unat len - unat i, gaps w)" arbitrary: i w data rule: wf_induct_rule [OF wf_lex_prod [OF wf_less wf_less]])
  case less: 1
  show ?case
  proof (cases "i < len")
    case False
    then have "i = len"
      using less.prems(2) by simp
    then show ?thesis
      using less.prems(1) by (simp add: read_loop.simps took_def)
  next
    case True
    obtain p w' where p: "bd_read bd io (len - i) w = ret (int (length p), p, w')" "rest w = p @ rest w'" "length p \<le> unat (len - i)"
      "p = [] \<and> len - i \<noteq> 0 \<and> rest w \<noteq> [] \<longrightarrow> gaps w' < gaps w" "took w (rest w') w'"
      using read_law [OF less.prems(1), of "len - i"] by (auto simp: took_def)
    note n = u16_sub [OF True] u16_forward [OF True p(3)]
    have lt: "unat i < unat len"
      using True by (simp add: word_less_nat_alt)
    let ?j = "i + of_nat (length p)"
    have j: "?j \<le> len" "(if 0 < int (length p) then i + of_int (int (length p)) else i) = ?j"
      using n p(3) lt by (auto simp: word_le_nat_alt)
    have dec: "((unat len - unat ?j, gaps w'), (unat len - unat i, gaps w)) \<in> {(x, y). x < y} <*lex*> {(x, y). x < y}"
      using p(3,4) n lt less.prems(3) True by (cases p) auto
    show ?thesis
    proof (cases "unat i + length p \<le> length data")
      case False
      then have "read_loop bd io data len i w = Some Fault" "\<not> unat len \<le> length data"
        using True p(1,3) n lt by (simp_all add: read_loop.simps [of bd io data len i w] mem_write_def)
      then show ?thesis
        by simp
    next
      case inside: True
      let ?d = "take (unat i) data @ p @ drop (unat i + length p) data"
      have body: "read_loop bd io data len i w = read_loop bd io ?d len ?j w'"
        using True p(1) inside j(2) by (simp add: read_loop.simps [of bd io data len i w] mem_write_def)
      have IH: "if unat len \<le> length ?d
        then \<exists>u. read_loop bd io ?d len ?j w' =
          ret (take (unat ?j) ?d @ take (unat len - unat ?j) (rest w') @ drop (unat len) ?d, u) \<and> took w' (drop (unat len - unat ?j) (rest w')) u
        else ?j < len \<longrightarrow> read_loop bd io ?d len ?j w' = Some Fault"
        using less.hyps [OF dec, of ?d] p(2,5) n less.prems(3) j(1) by (auto simp: took_def)
      have len: "length ?d = length data" "take (unat ?j) ?d = take (unat i) data @ p"
        using inside n by auto
      show ?thesis
      proof (cases "unat len \<le> length data")
        case True
        have "drop (unat len) ?d = drop (unat len) data" "take (unat len - unat i) (rest w) = p @ take (unat len - unat ?j) (rest w')"
          "drop (unat len - unat i) (rest w) = drop (unat len - unat ?j) (rest w')"
          using n p(2,3) inside lt by auto
        then show ?thesis
          using IH True len body took_trans [OF p(5)] by auto
      next
        case False
        then have "?j < len"
          using n inside by (simp add: word_less_nat_alt)
        then show ?thesis
          using IH False len body by simp
      qed
    qed
  qed
qed

lemma at_read_all:
  assumes "ok w" and "at_io at = io" and "unat len \<le> length (rest w)" and "unat len \<le> length data"
  shows "\<exists>w'. at_read bd at data len w = ret (len, take (unat len) (rest w) @ drop (unat len) data, w') \<and> took w (drop (unat len) (rest w)) w'"
  using read_loop_all [OF assms(1), of 0 len data] assms by (auto simp: at_read_def)

lemma at_read_overrun:
  assumes "ok w" and "at_io at = io" and "unat len \<le> length (rest w)" and "length data < unat len"
  shows "at_read bd at data len w = Some Fault"
proof -
  have "0 < len"
    using assms(4) by (simp add: word_less_nat_alt)
  then show ?thesis
    using read_loop_all [OF assms(1), of 0 len data] assms by (auto simp: at_read_def)
qed

lemma at_read_char:
  assumes "ok w" and "at_io at = io" and "rest w = c # cs"
  shows "\<exists>w'. at_read bd at [x] 1 w = ret (1, [c], w') \<and> took w cs w'"
  using at_read_all [OF assms(1,2), of 1 "[x]"] assms(3) by auto

text \<open>Writing a buffer that can be handed over at once.\<close>

lemma at_write_all:
  assumes "ok w" and "at_io at = io" and "unat len \<le> length data" and "unat len \<le> cap w"
  shows "if len = 0 then at_write bd at data len w = ret (len, w) else \<exists>w'. at_write bd at data len w = ret (len, w') \<and> said w (take (unat len) data) w'"
proof (cases "len = 0")
  case True
  then show ?thesis
    by (simp add: at_write_def write_loop.simps)
next
  case False
  then have pos: "0 < len" "0 < uint len" "uint len \<noteq> -1"
    by (auto simp: word_neq_0_conv word_less_def)
  obtain w' where w': "bd_write bd io (take (unat len) data) w = ret (int (unat len), w')" "said w (take (unat len) data) w'"
    using write_law [of w "take (unat len) data"] assms by (auto simp: said_def)
  have "write_loop bd io data len 0 w = ret w'"
    using pos w'(1) assms(3) by (simp add: write_loop.simps [of bd io data len 0 w] write_loop.simps [of bd io data len len] mem_read_def)
  then show ?thesis
    using w' assms(2) False by (simp add: at_write_def)
qed

end

section \<open>The serial driver keeps the contract\<close>

text \<open>
  The driver of \<open>Usart\<close> on port 1 with the interrupts that are served before each of its calls; \<open>ln_wire\<close>
  collects the bytes put on the line.  The device at the other end follows a script: when what it has
  heard is the next text of the script, the interrupts that bring its answer are scheduled behind the others.
\<close>

record line =
  ln_ports :: "usart_t list"
  ln_irqs :: "isr list list"
  ln_wire :: "u8 list"
  ln_heard :: "u8 list"
  ln_script :: "(u8 list \<times> isr list list) list"

fun serve :: "isr list \<Rightarrow> usart_t \<Rightarrow> (usart_t \<times> u8 list) option" where
  "serve [] u = Some (u, [])"
| "serve (f # fs) u = do {
     (u, b) \<leftarrow> USART_IRQHandler f u;
     (u, bs) \<leftarrow> serve fs u;
     Some (u, (case b of None \<Rightarrow> [] | Some c \<Rightarrow> [c]) @ bs) }"

definition arrive :: "line \<Rightarrow> line option" where
  "arrive ln = do {
     u \<leftarrow> arr_get (ln_ports ln) 1;
     (u, bs) \<leftarrow> serve (concat (take 1 (ln_irqs ln))) u;
     Some (ln\<lparr>ln_ports := (ln_ports ln)[1 := u], ln_irqs := tl (ln_irqs ln), ln_wire := ln_wire ln @ bs\<rparr>) }"

definition line_read :: "u8 \<Rightarrow> u16 \<Rightarrow> line \<Rightarrow> (int \<times> u8 list \<times> line) exec" where
  "line_read io n ln =
     bnd (access (arrive ln)) (\<lambda>ln.
     bnd (access (usart_read io n (ln_ports ln))) (\<lambda>(r, bs, us). ret (r, bs, ln\<lparr>ln_ports := us\<rparr>)))"

definition hears :: "u8 list \<Rightarrow> line \<Rightarrow> line" where
  "hears bs ln =
     (case ln_script ln of
        (txt, irqs) # script \<Rightarrow>
          if ln_heard ln @ bs = txt then ln\<lparr>ln_heard := [], ln_script := script, ln_irqs := ln_irqs ln @ irqs\<rparr>
          else ln\<lparr>ln_heard := ln_heard ln @ bs\<rparr>
      | [] \<Rightarrow> ln\<lparr>ln_heard := ln_heard ln @ bs\<rparr>)"

definition line_write :: "u8 \<Rightarrow> u8 list \<Rightarrow> line \<Rightarrow> (int \<times> line) exec" where
  "line_write io bs ln =
     bnd (access (arrive ln)) (\<lambda>ln.
     bnd (access (usart_write io bs (ln_ports ln))) (\<lambda>(r, us). ret (r, hears (take (nat r) bs) (ln\<lparr>ln_ports := us\<rparr>))))"

definition line_board :: "line board" where
  "line_board = \<lparr>bd_read = line_read, bd_write = line_write, bd_print = (\<lambda>io bs ln. bnd (line_write io bs ln) (\<lambda>(r, ln). ret ln)),
     bd_delay = (\<lambda>ms ln. access (arrive ln)), bd_pwm = (\<lambda>ln. access (arrive ln)), bd_call = (\<lambda>cb e at ln. ret (at, ln))\<rparr>"

definition arrivals :: "isr list \<Rightarrow> u8 list" where
  "arrivals fs = map RDR (filter ISR_RXNE fs)"

definition ln_port :: "line \<Rightarrow> usart_t" where
  "ln_port ln = ln_ports ln ! 1"

definition line_rest :: "line \<Rightarrow> u8 list" where
  "line_rest ln = ring_content (us_rx (ln_port ln)) @ arrivals (concat (ln_irqs ln))"

text \<open>The script as the contract sees it.\<close>

definition line_peer :: "line \<Rightarrow> u8 list \<times> (u8 list \<times> u8 list) list" where
  "line_peer ln = (ln_heard ln, map (\<lambda>(txt, irqs). (txt, arrivals (concat irqs))) (ln_script ln))"

fun follow :: "u8 list \<times> (u8 list \<times> u8 list) list \<Rightarrow> u8 list \<Rightarrow> (u8 list \<times> (u8 list \<times> u8 list) list) \<times> u8 list" where
  "follow (heard, []) bs = ((heard @ bs, []), [])"
| "follow (heard, (txt, reply) # script) bs =
     (if heard @ bs = txt then (([], script), reply) else ((heard @ bs, (txt, reply) # script), []))"

definition line_ok :: "line \<Rightarrow> bool" where
  "line_ok ln \<longleftrightarrow> length (ln_ports ln) = 4 \<and> port_ok (ln_port ln) \<and> port_ok (ln_ports ln ! 3) \<and>
     length (line_rest ln) + length (concat (map snd (snd (line_peer ln)))) \<le> ring_room (us_rx (ln_port ln))"

definition line_quiet :: "line \<Rightarrow> bool" where
  "line_quiet ln \<longleftrightarrow> ring_content (us_rx (ln_port ln)) = [] \<and> arrivals (concat (take 1 (ln_irqs ln))) = []"

definition line_gaps :: "line \<Rightarrow> nat" where
  "line_gaps ln = length (ln_irqs ln)"

definition line_sent :: "line \<Rightarrow> u8 list" where
  "line_sent ln = ln_wire ln @ ring_content (us_tx (ln_port ln))"

definition line_cap :: "line \<Rightarrow> nat" where
  "line_cap ln = ring_room (us_tx (ln_port ln)) - length (ring_content (us_tx (ln_port ln)))"

lemma arrivals_append [simp]: "arrivals (a @ b) = arrivals a @ arrivals b"
  by (simp add: arrivals_def)

lemma irq_rx:
  assumes "port_ok u" and "length (ring_content (us_rx u)) + length (arrivals [f]) \<le> ring_room (us_rx u)"
  shows "\<exists>r. (if ISR_RXNE f then do { (ok, r) \<leftarrow> ring_put (RDR f) (us_rx u); Some (u\<lparr>us_rx := r\<rparr>) } else Some u) = Some (u\<lparr>us_rx := r\<rparr>) \<and>
    ring_ok r \<and> ring_content r = ring_content (us_rx u) @ arrivals [f] \<and> ring_room r = ring_room (us_rx u)"
proof (cases "ISR_RXNE f")
  case True
  then show ?thesis
    using ring_put_queue [of "us_rx u" "RDR f"] assms by (auto simp: port_ok_def arrivals_def)
next
  case False
  then show ?thesis
    using assms(1) by (intro exI [of _ "us_rx u"]) (simp add: port_ok_def arrivals_def)
qed

lemma irq_effect:
  assumes "port_ok u" and "length (ring_content (us_rx u)) + length (arrivals [f]) \<le> ring_room (us_rx u)"
  shows "\<exists>u' b. USART_IRQHandler f u = Some (u', b) \<and> port_ok u' \<and>
    ring_content (us_rx u') = ring_content (us_rx u) @ arrivals [f] \<and> ring_room (us_rx u') = ring_room (us_rx u) \<and>
    ring_content (us_tx u) = (case b of None \<Rightarrow> [] | Some c \<Rightarrow> [c]) @ ring_content (us_tx u') \<and> ring_room (us_tx u') = ring_room (us_tx u)"
proof -
  obtain r where r: "(if ISR_RXNE f then do { (ok, r) \<leftarrow> ring_put (RDR f) (us_rx u); Some (u\<lparr>us_rx := r\<rparr>) } else Some u) = Some (u\<lparr>us_rx := r\<rparr>)"
    "ring_ok r" "ring_content r = ring_content (us_rx u) @ arrivals [f]" "ring_room r = ring_room (us_rx u)"
    using irq_rx [OF assms] by blast
  obtain b q where q: "ring_get (us_tx u) = Some (b, q)"
    using ring.get_none [of "us_tx u"] ring_get_queue [of "us_tx u"] assms(1) by (cases "ring_content (us_tx u)") (auto simp: port_ok_def)
  have t: "ring_ok q" "ring_content (us_tx u) = (case b of None \<Rightarrow> [] | Some c \<Rightarrow> [c]) @ ring_content q" "ring_room q = ring_room (us_tx u)"
    using ring_get_cases [OF _ q] assms(1) by (auto simp: port_ok_def)
  show ?thesis
    using r t q assms(1) unfolding USART_IRQHandler_def by (cases b) (auto simp: port_ok_def)
qed

lemma serve_effect:
  "port_ok u \<Longrightarrow> length (ring_content (us_rx u)) + length (arrivals fs) \<le> ring_room (us_rx u) \<Longrightarrow>
   \<exists>u' bs. serve fs u = Some (u', bs) \<and> port_ok u' \<and>
     ring_content (us_rx u') = ring_content (us_rx u) @ arrivals fs \<and> ring_room (us_rx u') = ring_room (us_rx u) \<and>
     ring_content (us_tx u) = bs @ ring_content (us_tx u') \<and> ring_room (us_tx u') = ring_room (us_tx u)"
proof (induction fs arbitrary: u)
  case (Cons f fs)
  have a: "arrivals (f # fs) = arrivals [f] @ arrivals fs"
    by (simp add: arrivals_def)
  then obtain u1 b where u1: "USART_IRQHandler f u = Some (u1, b)" "port_ok u1"
    "ring_content (us_rx u1) = ring_content (us_rx u) @ arrivals [f]" "ring_room (us_rx u1) = ring_room (us_rx u)"
    "ring_content (us_tx u) = (case b of None \<Rightarrow> [] | Some c \<Rightarrow> [c]) @ ring_content (us_tx u1)" "ring_room (us_tx u1) = ring_room (us_tx u)"
    using irq_effect [of u f] Cons.prems by auto
  obtain u2 bs where "serve fs u1 = Some (u2, bs)" "port_ok u2"
    "ring_content (us_rx u2) = ring_content (us_rx u1) @ arrivals fs" "ring_room (us_rx u2) = ring_room (us_rx u1)"
    "ring_content (us_tx u1) = bs @ ring_content (us_tx u2)" "ring_room (us_tx u2) = ring_room (us_tx u1)"
    using Cons.IH [OF u1(2)] u1(3,4) Cons.prems(2) a by auto
  then show ?case
    using u1 a by auto
qed (simp add: arrivals_def)

lemma arrive_effect:
  assumes "line_ok ln"
  shows "\<exists>ln'. arrive ln = Some ln' \<and> line_ok ln' \<and> line_rest ln' = line_rest ln \<and> line_sent ln' = line_sent ln \<and> line_cap ln \<le> line_cap ln' \<and>
    line_peer ln' = line_peer ln \<and>
    ln_irqs ln' = tl (ln_irqs ln) \<and> ring_content (us_rx (ln_port ln')) = ring_content (us_rx (ln_port ln)) @ arrivals (concat (take 1 (ln_irqs ln)))"
proof -
  have split: "arrivals (concat (ln_irqs ln)) = arrivals (concat (take 1 (ln_irqs ln))) @ arrivals (concat (tl (ln_irqs ln)))"
    by (cases "ln_irqs ln") (simp_all add: arrivals_def)
  have four: "length (ln_ports ln) = 4" "port_ok (ln_port ln)" "port_ok (ln_ports ln ! 3)"
    using assms by (auto simp: line_ok_def)
  obtain u bs where u: "serve (concat (take 1 (ln_irqs ln))) (ln_port ln) = Some (u, bs)" "port_ok u"
    "ring_content (us_rx u) = ring_content (us_rx (ln_port ln)) @ arrivals (concat (take 1 (ln_irqs ln)))"
    "ring_room (us_rx u) = ring_room (us_rx (ln_port ln))"
    "ring_content (us_tx (ln_port ln)) = bs @ ring_content (us_tx u)" "ring_room (us_tx u) = ring_room (us_tx (ln_port ln))"
    using serve_effect [OF four(2), of "concat (take 1 (ln_irqs ln))"] assms split by (auto simp: line_ok_def line_rest_def)
  let ?ln = "ln\<lparr>ln_ports := (ln_ports ln)[1 := u], ln_irqs := tl (ln_irqs ln), ln_wire := ln_wire ln @ bs\<rparr>"
  have p: "ln_port ?ln = u"
    using four(1) by (simp add: ln_port_def)
  have "arr_get (ln_ports ln) 1 = Some (ln_port ln)"
    using four(1) by (simp add: ln_port_def)
  then have "arrive ln = Some ?ln"
    using u(1) by (simp add: arrive_def del: arr_get_Some)
  moreover have rest: "line_rest ?ln = line_rest ln"
    using p u(3) split by (simp add: line_rest_def)
  moreover have "line_ok ?ln"
    using assms rest p u(2,4) four by (simp add: line_ok_def line_peer_def)
  ultimately show ?thesis
    using p u(3,5,6) by (auto simp: line_sent_def line_cap_def line_peer_def)
qed

lemma hears_follow:
  assumes "line_ok ln"
  shows "line_ok (hears bs ln)" and "(line_peer (hears bs ln), line_rest (hears bs ln)) = (let (m, r) = follow (line_peer ln) bs in (m, line_rest ln @ r))"
    and "line_sent (hears bs ln) = line_sent ln" and "line_cap (hears bs ln) = line_cap ln"
  using assms
  by (cases "ln_script ln"; auto simp: hears_def line_ok_def line_peer_def line_rest_def ln_port_def line_sent_def line_cap_def)+

lemma line_read_effect:
  assumes "line_ok ln"
  shows "\<exists>p ln'. line_read 1 n ln = ret (int (length p), p, ln') \<and> line_ok ln' \<and> line_rest ln = p @ line_rest ln' \<and> length p \<le> unat n \<and>
    (line_quiet ln \<longrightarrow> p = []) \<and> (p = [] \<and> n \<noteq> 0 \<and> line_rest ln \<noteq> [] \<longrightarrow> line_gaps ln' < line_gaps ln) \<and>
    line_sent ln' = line_sent ln \<and> line_cap ln \<le> line_cap ln' \<and> line_peer ln' = line_peer ln \<and>
    p = take (unat n) (ring_content (us_rx (ln_port ln)) @ arrivals (concat (take 1 (ln_irqs ln))))"
proof -
  obtain l1 where l1: "arrive ln = Some l1" "line_ok l1" "line_rest l1 = line_rest ln" "line_sent l1 = line_sent ln" "line_cap ln \<le> line_cap l1"
    "line_peer l1 = line_peer ln" "ln_irqs l1 = tl (ln_irqs ln)" "ring_content (us_rx (ln_port l1)) = ring_content (us_rx (ln_port ln)) @ arrivals (concat (take 1 (ln_irqs ln)))"
    using arrive_effect [OF assms] by blast
  let ?p = "take (unat n) (ring_content (us_rx (ln_port l1)))"
  have four: "length (ln_ports l1) = 4" "port_ok (ln_ports l1 ! 1)" "port_ok (ln_ports l1 ! 3)"
    using l1(2) by (auto simp: line_ok_def ln_port_def)
  obtain r d where r: "usart_read 1 n (ln_ports l1) = Some (int (length ?p), ?p, (ln_ports l1)[1 := (ln_port l1)\<lparr>us_rx := r\<rparr>, 3 := d])"
    "ring_ok r" "ring_room r = ring_room (us_rx (ln_port l1))" "ring_content r = drop (unat n) (ring_content (us_rx (ln_port l1)))" "queued (ln_ports l1 ! 3) ?p d"
    using port_reads [OF four(1) _ _ four(2,3), of 1 ?p n] by (auto simp: ln_port_def)
  let ?ln = "l1\<lparr>ln_ports := (ln_ports l1)[1 := (ln_port l1)\<lparr>us_rx := r\<rparr>, 3 := d]\<rparr>"
  have p: "ln_port ?ln = (ln_port l1)\<lparr>us_rx := r\<rparr>"
    using four(1) by (simp add: ln_port_def)
  have rest: "line_rest l1 = ?p @ line_rest ?ln"
    using p r(4) by (simp add: line_rest_def)
  have "port_ok d"
    using r(5) by (simp add: queued_def)
  moreover have peer: "line_peer ?ln = line_peer l1"
    by (simp add: line_peer_def)
  moreover have "length (line_rest ?ln) + length (concat (map snd (snd (line_peer l1)))) \<le> ring_room (us_rx (ln_port l1))"
    using rest l1(2) by (auto simp: line_ok_def)
  ultimately have "line_ok ?ln"
    using p r(2,3) four by (simp add: line_ok_def port_ok_def ln_port_def)
  moreover have "line_quiet ln \<longrightarrow> ?p = []"
    using l1(8) by (simp add: line_quiet_def)
  moreover have "?p = [] \<and> n \<noteq> 0 \<and> line_rest ln \<noteq> [] \<longrightarrow> line_gaps ?ln < line_gaps ln"
    using l1(7,8) by (cases "ln_irqs ln") (auto simp: line_gaps_def line_rest_def arrivals_def unat_eq_0)
  moreover have "line_sent ?ln = line_sent ln" "line_cap ln \<le> line_cap ?ln"
    using p l1(4,5) by (simp_all add: line_sent_def line_cap_def)
  moreover have "line_read 1 n ln = ret (int (length ?p), ?p, ?ln)"
    using l1(1) r(1) by (simp add: line_read_def)
  ultimately show ?thesis
    using rest l1(3,8) peer l1(6) by (intro exI [of _ ?p] exI [of _ ?ln]) simp
qed

lemma line_write_effect:
  assumes "line_ok ln" and "length bs \<le> line_cap ln"
  shows "\<exists>ln'. line_write 1 bs ln = ret (int (length bs), ln') \<and> line_ok ln' \<and>
    (line_peer ln', line_rest ln') = (let (m, r) = follow (line_peer ln) bs in (m, line_rest ln @ r)) \<and> line_sent ln' = line_sent ln @ bs \<and>
    line_cap ln \<le> line_cap ln' + length bs"
proof -
  obtain l1 where l1: "arrive ln = Some l1" "line_ok l1" "line_rest l1 = line_rest ln" "line_sent l1 = line_sent ln" "line_cap ln \<le> line_cap l1"
    "line_peer l1 = line_peer ln"
    using arrive_effect [OF assms(1)] by blast
  have four: "length (ln_ports l1) = 4" "port_ok (ln_ports l1 ! 1)" "port_ok (ln_ports l1 ! 3)"
    using l1(2) by (auto simp: line_ok_def ln_port_def)
  have fit: "fitting bs (us_tx (ln_port l1)) = bs"
    using assms(2) l1(5) by (simp add: fitting_def line_cap_def)
  obtain u d where u: "usart_write 1 bs (ln_ports l1) = Some (int (length bs), (ln_ports l1)[1 := u, 3 := d])" "queued (ln_port l1) bs u"
    "queued (ln_ports l1 ! 3) bs d"
    using port_writes [OF four(1) _ _ four(2,3), of 1 bs] fit by (auto simp: ln_port_def)
  let ?ln = "l1\<lparr>ln_ports := (ln_ports l1)[1 := u, 3 := d]\<rparr>"
  have p: "ln_port ?ln = u"
    using four(1) by (simp add: ln_port_def)
  have q: "port_ok u" "us_rx u = us_rx (ln_port l1)" "ring_room (us_tx u) = ring_room (us_tx (ln_port l1))"
    "ring_content (us_tx u) = ring_content (us_tx (ln_port l1)) @ bs" "port_ok d"
    using u(2,3) fit by (auto simp: queued_def)
  have ok: "line_ok ?ln" "line_rest ?ln = line_rest l1" "line_peer ?ln = line_peer l1"
    using l1(2) p q four by (simp_all add: line_ok_def line_rest_def line_peer_def)
  have "line_sent ?ln = line_sent ln @ bs" "line_cap ln \<le> line_cap ?ln + length bs"
    using p q(3,4) l1(4,5) by (auto simp: line_sent_def line_cap_def)
  moreover have "line_write 1 bs ln = ret (int (length bs), hears bs ?ln)"
    using l1(1) u(1) by (simp add: line_write_def)
  ultimately show ?thesis
    using hears_follow [OF ok(1), of bs] ok(2,3) l1(3,6) by simp
qed

interpretation port1: serial_line line_board 1 line_ok line_rest line_gaps line_quiet line_sent line_cap line_peer follow
proof unfold_locales
  fix w n ms and bs :: "u8 list"
  show "line_rest w = [] \<Longrightarrow> line_quiet w"
    by (cases "ln_irqs w") (auto simp: line_rest_def line_quiet_def arrivals_def)
  assume ok: "line_ok w"
  show "\<exists>p w'. bd_read line_board 1 n w = ret (int (length p), p, w') \<and> line_ok w' \<and> line_rest w = p @ line_rest w' \<and> length p \<le> unat n \<and>
      (line_quiet w \<longrightarrow> p = []) \<and> (p = [] \<and> n \<noteq> 0 \<and> line_rest w \<noteq> [] \<longrightarrow> line_gaps w' < line_gaps w) \<and>
      line_sent w' = line_sent w \<and> line_cap w \<le> line_cap w' \<and> line_peer w' = line_peer w"
    using line_read_effect [OF ok, of n] unfolding line_board_def board.simps by blast
  show "\<exists>w'. bd_delay line_board ms w = ret w' \<and> line_ok w' \<and> line_rest w' = line_rest w \<and> line_sent w' = line_sent w \<and> line_cap w \<le> line_cap w' \<and>
      line_peer w' = line_peer w"
    using arrive_effect [OF ok] by (auto simp: line_board_def)
  assume fits: "length bs \<le> line_cap w"
  obtain w' where w': "line_write 1 bs w = ret (int (length bs), w')" "line_ok w'"
    "(line_peer w', line_rest w') = (let (m, r) = follow (line_peer w) bs in (m, line_rest w @ r))" "line_sent w' = line_sent w @ bs"
    "line_cap w \<le> line_cap w' + length bs"
    using line_write_effect [OF ok fits] by blast
  then show "\<exists>w'. bd_write line_board 1 bs w = ret (int (length bs), w') \<and> line_ok w' \<and>
      (line_peer w', line_rest w') = (let (m, r) = follow (line_peer w) bs in (m, line_rest w @ r)) \<and> line_sent w' = line_sent w @ bs \<and>
      line_cap w \<le> line_cap w' + length bs"
    by (intro exI [of _ w']) (simp add: line_board_def)
  show "\<exists>w'. bd_print line_board 1 bs w = ret w' \<and> line_ok w' \<and>
      (line_peer w', line_rest w') = (let (m, r) = follow (line_peer w) bs in (m, line_rest w @ r)) \<and> line_sent w' = line_sent w @ bs \<and>
      line_cap w \<le> line_cap w' + length bs"
    using w' by (intro exI [of _ w']) (simp add: line_board_def)
qed

section \<open>Properties\<close>

text \<open>
  C16: waiting for an answer is a function of the characters received.  Let \<open>at\<close> have consistent tables
  and no callbacks, and let the characters that arrive on the line contain the answer: \<open>first_event P\<close> finds the
  first line of the tables whose event satisfies \<open>P\<close>, past blanks, unknown lines and other events.  Then
  the waiting loop ends with that event, has taken exactly the characters up to the end of that line
  and has sent nothing, however the interrupts spread the characters over the polls.  It holds for
  \<open>at_wait_for_response\<close>, \<open>at_wait_for_notification\<close> and \<open>at_wait_for_event\<close>.
\<close>

theorem answer_received:
  assumes "line_ok ln" and "length (line_rest ln) < 65536" and "at_io at = 1" and "tables_ok at" and "no_callbacks at"
    and "wait = at_wait_for_response line_board \<and> P = is_response \<or>
      wait = at_wait_for_notification line_board \<and> P = (\<lambda>e. e = AT_COMMAND_NOTIFICATION_EVENT) \<or>
      wait = at_wait_for_event line_board evt0 \<and> P = (\<lambda>e. e = evt0) \<and> evt0 \<noteq> AT_TIMEOUT_EVENT"
    and "first_event P at (line_rest ln) = Some (evt, at', r)"
  shows "\<exists>ln'. wait at ln = ret (evt, at', ln') \<and> line_ok ln' \<and> line_rest ln' = r \<and> line_sent ln' = line_sent ln"
proof -
  have w: "wait at ln = wait_until line_board P at ln" "\<not> P AT_TIMEOUT_EVENT"
    using assms(6)
    by (auto simp: at_wait_for_response_def [abs_def] at_wait_for_notification_def [abs_def] at_wait_for_event_def [abs_def] is_response_def at_event_defs)
  show ?thesis
    using port1.wait_answer [where P = P, OF assms(7) w(2) assms(3-5,1,2)] w(1) by (auto simp: port1.took_def)
qed

text \<open>
  Reading a given number of characters.  When they arrive, \<open>at_read\<close> returns, stores exactly the next
  \<open>len\<close> characters at the start of the buffer and leaves the others on the line; when the buffer is
  shorter than \<open>len\<close> it is overrun.
\<close>

theorem at_read_exact:
  assumes "line_ok ln" and "at_io at = 1" and "unat len \<le> length (line_rest ln)"
  shows "if unat len \<le> length data
    then \<exists>ln'. at_read line_board at data len ln = ret (len, take (unat len) (line_rest ln) @ drop (unat len) data, ln') \<and>
      line_ok ln' \<and> line_rest ln' = drop (unat len) (line_rest ln) \<and> line_sent ln' = line_sent ln
    else at_read line_board at data len ln = Some Fault"
  using port1.at_read_all [OF assms(1,2,3), of data] port1.at_read_overrun [OF assms(1,2,3), of data] by (auto simp: port1.took_def)

text \<open>
  Locking does not drain the line.  \<open>at_lock\<close> reads until a timeout, but a blank at the start of a
  line counts as one.  So when the characters that have arrived begin with a blank, as every answer of
  the modem does, \<open>at_lock\<close> takes this single character and leaves all others to be mistaken for the
  answer to the next command.
\<close>

theorem at_lock_stops_at_blank:
  assumes "line_ok ln" and "at_io at = 1" and "locked at = 0" and "ring_content (us_rx (ln_port ln)) = c # cs" and "blank c"
  shows "\<exists>ln'. at_lock line_board at ln = ret (at\<lparr>locked := 1\<rparr>, ln') \<and> line_rest ln = c # line_rest ln'"
proof -
  obtain p ln' where p: "line_read 1 1 ln = ret (int (length p), p, ln')" "line_rest ln = p @ line_rest ln'"
    "p = take 1 (ring_content (us_rx (ln_port ln)) @ arrivals (concat (take 1 (ln_irqs ln))))"
    using line_read_effect [OF assms(1), of 1] by auto
  then have "bd_read line_board 1 1 ln = ret (1, [c], ln')" "line_rest ln = c # line_rest ln'"
    using assms(4) by (simp_all add: line_board_def)
  then show ?thesis
    using port1.lock_blank [OF assms(2,3) _ assms(5)] by blast
qed

section \<open>Samples\<close>

text \<open>A receive ring of sixteen cells with \<open>'\r'\<close> in it, and two batches of interrupts with the rest of an answer.\<close>

definition sample_ring :: "u16 \<Rightarrow> mem \<Rightarrow> ring" where
  "sample_ring h d = \<lparr>rb_head = h, rb_tail = 0, rb_size = 16, rb_data = Some (d @ replicate (16 - length d) 0)\<rparr>"

definition receiving :: "u8 list \<Rightarrow> isr list" where
  "receiving bs = map (\<lambda>b. \<lparr>ISR_RXNE = True, ISR_TXE = False, RDR = b\<rparr>) bs"

definition sample_line :: line where
  "sample_line = \<lparr>ln_ports = replicate 4 \<lparr>CR1_UE = True, CR1_TXEIE = False, BRR = 8, baudrate = 115200,
     us_rx = sample_ring 1 [13], us_tx = sample_ring 0 []\<rparr>, ln_irqs = [receiving [10, 79], [], receiving [75, 13, 10, 33]], ln_wire = [],
     ln_heard = [], ln_script = []\<rparr>"

definition sample_at :: at_t where
  "sample_at = \<lparr>locked = 0, at_io = 1, generic_table = [\<lparr>at_hash = 0x7c89a236, at_evt = AT_COMMAND_SUCCESS_EVENT, at_cb = \<lparr>cb_ctx = 0, cb_fct = 0\<rparr>\<rparr>],
     generic_table_size = 1, specific_table = [], specific_table_size = 0, async_cb = \<lparr>cb_ctx = 0, cb_fct = 0\<rparr>\<rparr>"

lemma sample_ring_facts:
  "ring_ok (sample_ring 1 [13])" "ring_content (sample_ring 1 [13]) = [13]" "ring_room (sample_ring 1 [13]) = 15"
  "ring_ok (sample_ring 0 [])" "ring_content (sample_ring 0 []) = []"
  by (simp_all add: ring_ok_def ring_content_def ring_room_def sample_ring_def cells_def gap_def)

lemma sample_line_facts:
  "line_ok sample_line" "line_rest sample_line = [13, 10, 79, 75, 13, 10, 33]" "ring_content (us_rx (ln_port sample_line)) = [13]" "line_sent sample_line = []"
proof -
  have p: "ln_port sample_line = ln_ports sample_line ! 3" "us_rx (ln_port sample_line) = sample_ring 1 [13]" "us_tx (ln_port sample_line) = sample_ring 0 []"
    "CR1_UE (ln_port sample_line)" "length (ln_ports sample_line) = 4"
    by (simp_all add: ln_port_def sample_line_def)
  have a: "arrivals (concat (ln_irqs sample_line)) = [10, 79, 75, 13, 10, 33]" "ln_wire sample_line = []"
    by (simp_all add: sample_line_def arrivals_def receiving_def)
  have "line_peer sample_line = ([], [])"
    by (simp add: sample_line_def line_peer_def)
  note a = a this
  show rest: "line_rest sample_line = [13, 10, 79, 75, 13, 10, 33]"
    using p a by (simp add: line_rest_def sample_ring_facts)
  show "line_ok sample_line" "ring_content (us_rx (ln_port sample_line)) = [13]" "line_sent sample_line = []"
    using p a rest by (simp_all add: line_ok_def port_ok_def line_sent_def sample_ring_facts)
qed

lemma sample_at_facts: "tables_ok sample_at" "no_callbacks sample_at" "at_io sample_at = 1" "locked sample_at = 0"
  by (simp_all add: tables_ok_def no_callbacks_def sample_at_def)

lemma sample_answer: "first_event is_response sample_at [13, 10, 79, 75, 13, 10, 33] = Some (AT_COMMAND_SUCCESS_EVENT, sample_at, [33])"
  by code_simp

theorem answer_received_witness:
  "\<exists>ln'. at_wait_for_response line_board sample_at sample_line = ret (AT_COMMAND_SUCCESS_EVENT, sample_at, ln') \<and> line_rest ln' = [33]"
  using answer_received [OF sample_line_facts(1) _ sample_at_facts(3,1,2), of "at_wait_for_response line_board" is_response 0] sample_answer
  by (auto simp: sample_line_facts(2))

theorem at_read_exact_witness:
  "(\<exists>ln'. at_read line_board sample_at [0, 0, 0] 2 sample_line = ret (2, [13, 10, 0], ln')) \<and> at_read line_board sample_at [0] 2 sample_line = Some Fault"
proof -
  have "\<exists>ln'. at_read line_board sample_at [0, 0, 0] 2 sample_line = ret (2, [13, 10, 0], ln')"
    using at_read_exact [OF sample_line_facts(1) sample_at_facts(3), of 2 "[0, 0, 0]"] by (auto simp: sample_line_facts(2))
  moreover have "at_read line_board sample_at [0] 2 sample_line = Some Fault"
    using at_read_exact [OF sample_line_facts(1) sample_at_facts(3), of 2 "[0]"] by (auto simp: sample_line_facts(2))
  ultimately show ?thesis ..
qed

theorem at_lock_stops_at_blank_witness:
  "\<exists>ln'. at_lock line_board sample_at sample_line = ret (sample_at\<lparr>locked := 1\<rparr>, ln') \<and> line_rest ln' = [10, 79, 75, 13, 10, 33]"
  using at_lock_stops_at_blank [OF sample_line_facts(1) sample_at_facts(3,4), of 13 "[]"] by (auto simp: sample_line_facts(2,3) blank_def)

end
