(* ===== verification/Modem.thy ===== *)
theory Modem
  imports At_Parser Json_Utils
begin

text \<open>
  The commands of the modem, \<open>platform/connect_shield/src/modem.c\<close>: start-up, network registration, one TCP
  socket, and the exchange of smart-card commands (APDUs) with the SIM.

  The static parser \<open>m_at\<close> and the board are passed along.  Of the C library, the conversions
  \<open>%d\<close>, \<open>%s\<close> and \<open>%02X\<close> of \<open>at_print\<close> are applied here; the text goes to \<open>bd_print\<close>.  A fault is an access
  outside a buffer of the caller.
\<close>

section \<open>Events and the table of answers\<close>

definition MODEM_SYSLOADING_EVENT :: at_event_t where "MODEM_SYSLOADING_EVENT = AT_SPECIFIC_EVENT_MASK OR 0"
definition MODEM_SYSSTART_EVENT :: at_event_t where "MODEM_SYSSTART_EVENT = AT_SPECIFIC_EVENT_MASK OR 1"
definition MODEM_CME_ERROR_EVENT :: at_event_t where "MODEM_CME_ERROR_EVENT = AT_SPECIFIC_EVENT_MASK OR 2"
definition MODEM_CPIN_READY_EVENT :: at_event_t where "MODEM_CPIN_READY_EVENT = AT_SPECIFIC_EVENT_MASK OR 3"
definition MODEM_CPIN_SIM_PIN_EVENT :: at_event_t where "MODEM_CPIN_SIM_PIN_EVENT = AT_SPECIFIC_EVENT_MASK OR 4"
definition MODEM_CREG_EVENT :: at_event_t where "MODEM_CREG_EVENT = AT_SPECIFIC_EVENT_MASK OR 5"
definition MODEM_SISI_1_EVENT :: at_event_t where "MODEM_SISI_1_EVENT = AT_SPECIFIC_EVENT_MASK OR 6"
definition MODEM_SISR_1_EVENT :: at_event_t where "MODEM_SISR_1_EVENT = AT_SPECIFIC_EVENT_MASK OR 7"
definition MODEM_SISW_1_EVENT :: at_event_t where "MODEM_SISW_1_EVENT = AT_SPECIFIC_EVENT_MASK OR 8"
definition MODEM_CSIM_EVENT :: at_event_t where "MODEM_CSIM_EVENT = AT_SPECIFIC_EVENT_MASK OR 9"

definition MODEM_MAX_PACKET_SIZE :: u16 where "MODEM_MAX_PACKET_SIZE = 1500"

lemmas modem_event_defs = MODEM_SYSLOADING_EVENT_def MODEM_SYSSTART_EVENT_def MODEM_CME_ERROR_EVENT_def MODEM_CPIN_READY_EVENT_def
  MODEM_CPIN_SIM_PIN_EVENT_def MODEM_CREG_EVENT_def MODEM_SISI_1_EVENT_def MODEM_SISR_1_EVENT_def MODEM_SISW_1_EVENT_def MODEM_CSIM_EVENT_def

definition answer_entry :: "u32 \<Rightarrow> at_event_t \<Rightarrow> at_map_entry_t" where
  "answer_entry h e = \<lparr>at_hash = h, at_evt = e, at_cb = \<lparr>cb_ctx = 0, cb_fct = 0\<rparr>\<rparr>"

definition m_modem_generic_table :: "at_map_entry_t list" where
  "m_modem_generic_table =
    [answer_entry 0x7c89a236 AT_COMMAND_SUCCESS_EVENT,
     answer_entry 0x88718ac6 AT_COMMAND_FAILURE_EVENT,
     answer_entry 0xca2f91d7 MODEM_SYSLOADING_EVENT,
     answer_entry 0x09565007 MODEM_SYSSTART_EVENT,
     answer_entry 0x5e224a29 AT_COMMAND_FAILURE_EVENT,
     answer_entry 0x8f0ad8e0 MODEM_CPIN_READY_EVENT,
     answer_entry 0xe9e8a4fb MODEM_CPIN_SIM_PIN_EVENT,
     answer_entry 0x7117678b MODEM_CREG_EVENT,
     answer_entry 0x0b66e692 MODEM_SISI_1_EVENT,
     answer_entry 0x0c09c31b MODEM_SISR_1_EVENT,
     answer_entry 0x0c643da0 MODEM_SISW_1_EVENT,
     answer_entry 0x711805b6 MODEM_CSIM_EVENT]"

section \<open>Commands\<close>

definition crlf :: "u8 list" where "crlf = [13, 10]"

definition modem_send_at_command_no_wait_response :: "'w board \<Rightarrow> u8 list \<Rightarrow> at_t \<Rightarrow> 'w \<Rightarrow> (at_t \<times> 'w) exec" where
  "modem_send_at_command_no_wait_response bd cmd at w =
     bnd (at_lock bd at w) (\<lambda>(at, w).
     bnd (at_print bd cmd at w) (\<lambda>w.
     ret (at, w)))"

definition modem_send_at_command :: "'w board \<Rightarrow> u8 list \<Rightarrow> at_t \<Rightarrow> 'w \<Rightarrow> (at_t \<times> 'w) exec" where
  "modem_send_at_command bd cmd at w =
     bnd (modem_send_at_command_no_wait_response bd cmd at w) (\<lambda>(at, w).
     bnd (at_wait_for_response bd at w) (\<lambda>(e, at, w).
     ret (at, w)))"

text \<open>A sequence of commands, each sent after the answer to the one before.\<close>

fun send_all :: "'w board \<Rightarrow> u8 list list \<Rightarrow> at_t \<Rightarrow> 'w \<Rightarrow> (at_t \<times> 'w) exec" where
  "send_all bd [] at w = ret (at, w)"
| "send_all bd (c # cmds) at w = bnd (modem_send_at_command bd c at w) (\<lambda>(at, w). send_all bd cmds at w)"

section \<open>Reading the parameters of an answer\<close>

text \<open>\<open>at_read(&m_at, &c, 1)\<close>\<close>

definition read_char :: "'w board \<Rightarrow> at_t \<Rightarrow> u8 \<Rightarrow> 'w \<Rightarrow> (u8 \<times> 'w) exec" where
  "read_char bd at c w = bnd (at_read bd at [c] 1 w) (\<lambda>(n, d, w). bnd (access (mem_get d 0)) (\<lambda>c. ret (c, w)))"

definition dec_digit :: "u8 \<Rightarrow> bool" where
  "dec_digit c \<longleftrightarrow> 48 \<le> c \<and> c \<le> 57"

definition hex_digit :: "u8 \<Rightarrow> bool" where
  "hex_digit c \<longleftrightarrow> 48 \<le> c \<and> c \<le> 57 \<or> 65 \<le> c \<and> c \<le> 70 \<or> 97 \<le> c \<and> c \<le> 102"

text \<open>\<open>while(c != '\n') at_read(&m_at, &c, 1);\<close>\<close>

partial_function (option) skip_line :: "'w board \<Rightarrow> at_t \<Rightarrow> u8 \<Rightarrow> 'w \<Rightarrow> (u8 \<times> 'w) exec" where
  "skip_line bd at c w = (if c \<noteq> 10 then bnd (read_char bd at c w) (\<lambda>(c, w). skip_line bd at c w) else ret (c, w))"

text \<open>
  The loop over decimal digits.  \<open>v\<close> has the width of the variable it is stored in, so long numbers wrap.
\<close>

partial_function (option) read_number :: "'w board \<Rightarrow> at_t \<Rightarrow> 'a::len word \<Rightarrow> u8 \<Rightarrow> 'w \<Rightarrow> ('a word \<times> u8 \<times> 'w) exec" where
  "read_number bd at v c w =
     (if dec_digit c then bnd (read_char bd at c w) (\<lambda>(c', w). read_number bd at (v * 10 + (ucast c - 48)) c' w) else ret (v, c, w))"

text \<open>The same loops where the end of the line makes the function return: the character is then \<open>None\<close>.\<close>

partial_function (option) scan_while :: "'w board \<Rightarrow> at_t \<Rightarrow> (u8 \<Rightarrow> bool) \<Rightarrow> u8 \<Rightarrow> 'w \<Rightarrow> (u8 option \<times> 'w) exec" where
  "scan_while bd at T c w =
     (if T c then bnd (read_char bd at c w) (\<lambda>(c, w). if c = 10 then ret (None, w) else scan_while bd at T c w) else ret (Some c, w))"

partial_function (option) scan_number :: "'w board \<Rightarrow> at_t \<Rightarrow> u8 \<Rightarrow> u8 \<Rightarrow> 'w \<Rightarrow> (u8 \<times> u8 option \<times> 'w) exec" where
  "scan_number bd at v c w =
     (if dec_digit c then
        bnd (read_char bd at c w) (\<lambda>(c', w).
        let v = v * 10 + (c - 48) in
        if c' = 10 then ret (v, None, w) else scan_number bd at v c' w)
      else ret (v, Some c, w))"

section \<open>Service state, start-up and registration\<close>

partial_function (option) sisi_loop :: "'w board \<Rightarrow> u8 \<Rightarrow> at_t \<Rightarrow> 'w \<Rightarrow> (bool \<times> u8 \<times> at_t \<times> 'w) exec" where
  "sisi_loop bd srv_state at w =
     bnd (at_process_recv bd at w) (\<lambda>(evt, at, w).
     bnd (if evt = MODEM_SISI_1_EVENT then
            bnd (read_char bd at 0 w) (\<lambda>(c, w).
            bnd (read_number bd at srv_state c w) (\<lambda>(srv_state, c, w).
            bnd (skip_line bd at c w) (\<lambda>(c, w).
            ret (srv_state, w))))
          else ret (srv_state, w)) (\<lambda>(srv_state, w).
     if is_response evt then ret (evt \<noteq> 0, srv_state, at, w) else sisi_loop bd srv_state at w))"

definition modem_send_query_at_sisi :: "'w board \<Rightarrow> at_t \<Rightarrow> 'w \<Rightarrow> (bool \<times> u8 \<times> at_t \<times> 'w) exec" where
  "modem_send_query_at_sisi bd at w =
     bnd (modem_send_at_command_no_wait_response bd (cs ''AT^SISI?'' @ crlf) at w) (\<lambda>(at, w).
     sisi_loop bd 0 at w)"

text \<open>The query of the PIN.  Behind \<open>+CPIN: SIM PIN\<close> and a failed response the loop goes on.\<close>

partial_function (option) cpin_loop :: "'w board \<Rightarrow> at_t \<Rightarrow> 'w \<Rightarrow> (at_t \<times> 'w) exec" where
  "cpin_loop bd at w =
     bnd (at_process_recv bd at w) (\<lambda>(evt, at, w).
     bnd (if evt = MODEM_CPIN_SIM_PIN_EVENT then
            bnd (at_wait_for_response bd at w) (\<lambda>(e, at, w).
            if e = AT_COMMAND_SUCCESS_EVENT then
              bnd (modem_send_at_command bd (cs ''AT+CPIN='' @ [34] @ cs ''1111'' @ [34] @ crlf) at w) (\<lambda>(at, w).
              ret (AT_COMMAND_SUCCESS_EVENT, at, w))
            else ret (evt, at, w))
          else if evt = MODEM_CPIN_READY_EVENT then at_wait_for_response bd at w
          else ret (evt, at, w)) (\<lambda>(evt, at, w).
     if is_response evt then ret (at, w) else cpin_loop bd at w))"

text \<open>A quoted word of a command.\<close>

definition quoted :: "u8 list \<Rightarrow> u8 list" where
  "quoted s = [34] @ s @ [34]"

definition modem_init :: "'w board \<Rightarrow> u8 \<Rightarrow> u8 \<Rightarrow> at_t \<Rightarrow> 'w \<Rightarrow> (u8 \<times> at_t \<times> 'w) exec" where
  "modem_init bd io first at w =
     (if first = 0 then ret (first, at, w)
      else let at = at_init io m_modem_generic_table (of_nat (length m_modem_generic_table)) at in
        bnd (bd_pwm bd w) (\<lambda>w.
        bnd (wait_until bd (\<lambda>e. e = MODEM_SYSSTART_EVENT) at w) (\<lambda>(e, at, w).
        bnd (send_all bd [cs ''AT'' @ crlf, cs ''ATE0'' @ crlf, cs ''AT^SPOW=1,0,0'' @ crlf, cs ''AT+CMEE=2'' @ crlf] at w) (\<lambda>(at, w).
        bnd (modem_send_at_command_no_wait_response bd (cs ''AT+CPIN?'' @ crlf) at w) (\<lambda>(at, w).
        bnd (cpin_loop bd at w) (\<lambda>(at, w).
        bnd (send_all bd
          [cs ''AT^SCFG='' @ quoted (cs ''Tcp/WithURCs'') @ cs '','' @ quoted (cs ''off'') @ crlf,
           cs ''AT^SICS=1,'' @ quoted (cs ''conType'') @ cs '','' @ quoted (cs ''GPRS0'') @ crlf,
           cs ''AT^SICS=1,'' @ quoted (cs ''alphabet'') @ cs '','' @ quoted (cs ''1'') @ crlf,
           cs ''AT^SICS=1,'' @ quoted (cs ''APN'') @ cs '','' @ quoted (cs ''internet'') @ crlf] at w) (\<lambda>(at, w).
        ret (0, at, w))))))))"

text \<open>
  The parameters of \<open>+CREG:\<close>.  Without a character in the third result the line ended too early and
  \<open>modem_bring_up\<close> returns false.
\<close>

definition read_creg :: "'w board \<Rightarrow> at_t \<Rightarrow> u8 \<Rightarrow> u8 \<Rightarrow> u8 \<Rightarrow> 'w \<Rightarrow> (u8 \<times> u8 \<times> u8 option \<times> 'w) exec" where
  "read_creg bd at mode status c w =
     bnd (scan_while bd at (\<lambda>c. \<not> dec_digit c) c w) (\<lambda>(r, w). case r of None \<Rightarrow> ret (mode, status, None, w) | Some c \<Rightarrow>
     bnd (scan_number bd at mode c w) (\<lambda>(mode, r, w). case r of None \<Rightarrow> ret (mode, status, None, w) | Some c \<Rightarrow>
     bnd (scan_while bd at (\<lambda>c. \<not> dec_digit c) c w) (\<lambda>(r, w). case r of None \<Rightarrow> ret (mode, status, None, w) | Some c \<Rightarrow>
     bnd (scan_number bd at status c w) (\<lambda>(status, r, w). case r of None \<Rightarrow> ret (mode, status, None, w) | Some c \<Rightarrow>
     bnd (skip_line bd at c w) (\<lambda>(c, w). ret (mode, status, Some c, w))))))"

partial_function (option) creg_loop :: "'w board \<Rightarrow> u8 \<Rightarrow> u8 \<Rightarrow> u8 \<Rightarrow> at_t \<Rightarrow> 'w \<Rightarrow> (u8 \<times> u8 option \<times> at_t \<times> 'w) exec" where
  "creg_loop bd mode status c at w =
     bnd (at_process_recv bd at w) (\<lambda>(evt, at, w).
     bnd (if evt = MODEM_CREG_EVENT then read_creg bd at mode status c w else ret (mode, status, Some c, w)) (\<lambda>(mode, status, r, w).
     case r of
       None \<Rightarrow> ret (status, None, at, w)
     | Some c \<Rightarrow> if is_response evt then ret (status, Some c, at, w) else creg_loop bd mode status c at w))"

text \<open>The parameter \<open>c\<close> is the content of the local variable of this name, which the code does not initialise.\<close>

partial_function (option) modem_bring_up :: "'w board \<Rightarrow> u8 \<Rightarrow> at_t \<Rightarrow> 'w \<Rightarrow> (bool \<times> at_t \<times> 'w) exec" where
  "modem_bring_up bd c at w =
     bnd (modem_send_at_command_no_wait_response bd (cs ''AT+CREG?'' @ crlf) at w) (\<lambda>(at, w).
     bnd (creg_loop bd 0 0 c at w) (\<lambda>(status, r, at, w).
     case r of
       None \<Rightarrow> ret (False, at, w)
     | Some c \<Rightarrow> if status \<noteq> 1 \<and> status \<noteq> 5 then modem_bring_up bd c at w else ret (True, at, w)))"

section \<open>The socket\<close>

partial_function (option) connect_loop :: "'w board \<Rightarrow> at_t \<Rightarrow> 'w \<Rightarrow> (int \<times> at_t \<times> 'w) exec" where
  "connect_loop bd at w =
     bnd (modem_send_query_at_sisi bd at w) (\<lambda>(b, srv_state, at, w).
     if srv_state = 5 \<or> srv_state = 6 then ret (-1, at, w)
     else if srv_state \<noteq> 4 then connect_loop bd at w
     else ret (1, at, w))"

definition modem_open_tcp_socket :: "'w board \<Rightarrow> mem \<Rightarrow> u16 \<Rightarrow> at_t \<Rightarrow> 'w \<Rightarrow> (int \<times> at_t \<times> 'w) exec" where
  "modem_open_tcp_socket bd address p at w =
     bnd (modem_send_at_command bd (cs ''AT^SISS='' @ dec 1 @ cs '','' @ quoted (cs ''srvtype'') @ cs '','' @ quoted (cs ''socket'') @ crlf) at w) (\<lambda>(at, w).
     bnd (access (c_text address)) (\<lambda>a.
     bnd (modem_send_at_command bd (cs ''AT^SISS='' @ dec 1 @ cs '','' @ quoted (cs ''address'') @ cs '','' @
            quoted (cs ''socktcp://'' @ a @ cs '':'' @ dec (unat p)) @ crlf) at w) (\<lambda>(at, w).
     bnd (modem_send_at_command bd (cs ''AT^SISS='' @ dec 1 @ cs '','' @ quoted (cs ''conId'') @ cs '','' @ quoted (dec 1) @ crlf) at w) (\<lambda>(at, w).
     bnd (modem_send_at_command bd (cs ''AT^SISO='' @ dec 1 @ crlf) at w) (\<lambda>(at, w).
     connect_loop bd at w)))))"

text \<open>\<open>do { evt = at_process_recv(&m_at); ... } while((handle == 1) && (evt != wanted));\<close> the result is \<open>false\<close> for \<open>return -1\<close>.\<close>

partial_function (option) await_transfer :: "'w board \<Rightarrow> int \<Rightarrow> at_event_t \<Rightarrow> at_t \<Rightarrow> 'w \<Rightarrow> (bool \<times> at_t \<times> 'w) exec" where
  "await_transfer bd handle wanted at w =
     bnd (at_process_recv bd at w) (\<lambda>(evt, at, w).
     if evt = MODEM_CME_ERROR_EVENT \<or> evt = AT_COMMAND_FAILURE_EVENT then ret (False, at, w)
     else if handle = 1 \<and> evt \<noteq> wanted then await_transfer bd handle wanted at w
     else ret (True, at, w))"

definition packet :: "u16 \<Rightarrow> u16" where
  "packet n = (if MODEM_MAX_PACKET_SIZE < n then MODEM_MAX_PACKET_SIZE else n)"

text \<open>The number behind \<open>^SISR: 1,\<close> or \<open>^SISW: 1,\<close> and the rest of its line.\<close>

definition read_count :: "'w board \<Rightarrow> at_t \<Rightarrow> 'w \<Rightarrow> (u16 \<times> 'w) exec" where
  "read_count bd at w =
     bnd (read_char bd at 0 w) (\<lambda>(c, w).
     bnd (read_number bd at 0 c w) (\<lambda>(n, c, w).
     bnd (skip_line bd at c w) (\<lambda>(c, w). ret (n, w))))"

text \<open>The loop of \<open>modem_read_socket\<close>; the sum \<open>read\<close> is kept unbounded.\<close>

partial_function (option) socket_read_loop ::
  "'w board \<Rightarrow> int \<Rightarrow> mem \<Rightarrow> u16 \<Rightarrow> u16 \<Rightarrow> int \<Rightarrow> at_t \<Rightarrow> 'w \<Rightarrow> (int \<times> mem \<times> at_t \<times> 'w) exec" where
  "socket_read_loop bd handle data len i read at w =
     (if i < len then
        bnd (modem_send_query_at_sisi bd at w) (\<lambda>(b, srv_state, at, w).
        if srv_state = 5 \<or> srv_state = 6 then ret (-1, data, at, w)
        else
          bnd (modem_send_at_command_no_wait_response bd
            (cs ''AT^SISR='' @ dec_int handle @ cs '','' @ dec (unat (packet (len - i))) @ crlf) at w) (\<lambda>(at, w).
          bnd (await_transfer bd handle MODEM_SISR_1_EVENT at w) (\<lambda>(go, at, w).
          if \<not> go then ret (-1, data, at, w)
          else
            bnd (read_count bd at w) (\<lambda>(toread, w).
            bnd (if toread \<noteq> 0 then
                   bnd (at_read bd at (drop (unat i) data) toread w) (\<lambda>(n, d, w). ret (take (unat i) data @ d, w))
                 else ret (data, w)) (\<lambda>(data, w).
            bnd (at_wait_for_response bd at w) (\<lambda>(evt, at, w).
            if evt = AT_COMMAND_FAILURE_EVENT then ret (-1, data, at, w)
            else socket_read_loop bd handle data len (i + toread) (read + uint toread) at w))))))
      else ret (read, data, at, w))"

definition modem_read_socket :: "'w board \<Rightarrow> int \<Rightarrow> mem \<Rightarrow> u16 \<Rightarrow> at_t \<Rightarrow> 'w \<Rightarrow> (int \<times> mem \<times> at_t \<times> 'w) exec" where
  "modem_read_socket bd handle data len at w =
     (if handle \<noteq> 1 then ret (-1, data, at, w) else socket_read_loop bd handle data len 0 0 at w)"

partial_function (option) socket_write_loop ::
  "'w board \<Rightarrow> int \<Rightarrow> mem \<Rightarrow> u16 \<Rightarrow> u16 \<Rightarrow> int \<Rightarrow> at_t \<Rightarrow> 'w \<Rightarrow> (int \<times> at_t \<times> 'w) exec" where
  "socket_write_loop bd handle data len i written at w =
     (if i < len then
        bnd (modem_send_query_at_sisi bd at w) (\<lambda>(b, srv_state, at, w).
        if srv_state = 5 \<or> srv_state = 6 then ret (-1, at, w)
        else
          bnd (modem_send_at_command_no_wait_response bd
            (cs ''AT^SISW='' @ dec_int handle @ cs '','' @ dec (unat (packet (len - i))) @ crlf) at w) (\<lambda>(at, w).
          bnd (await_transfer bd handle MODEM_SISW_1_EVENT at w) (\<lambda>(go, at, w).
          if \<not> go then ret (-1, at, w)
          else
            bnd (read_count bd at w) (\<lambda>(towrite, w).
            bnd (if towrite \<noteq> 0 then bnd (at_write bd at (drop (unat i) data) towrite w) (\<lambda>(n, w). ret w) else ret w) (\<lambda>w.
            bnd (at_wait_for_response bd at w) (\<lambda>(evt, at, w).
            if evt = AT_COMMAND_FAILURE_EVENT then ret (-1, at, w)
            else socket_write_loop bd handle data len (i + towrite) (written + uint towrite) at w))))))
      else ret (written, at, w))"

definition modem_write_socket :: "'w board \<Rightarrow> int \<Rightarrow> mem \<Rightarrow> u16 \<Rightarrow> at_t \<Rightarrow> 'w \<Rightarrow> (int \<times> at_t \<times> 'w) exec" where
  "modem_write_socket bd handle data len at w = socket_write_loop bd handle data len 0 0 at w"

definition modem_close_socket :: "'w board \<Rightarrow> int \<Rightarrow> at_t \<Rightarrow> 'w \<Rightarrow> (at_t \<times> 'w) exec" where
  "modem_close_socket bd handle at w =
     (if handle \<noteq> 1 then ret (at, w) else modem_send_at_command bd (cs ''AT^SISC='' @ dec_int handle @ crlf) at w)"

section \<open>APDUs\<close>

definition hex_char :: "u8 \<Rightarrow> u8" where
  "hex_char d = (if d < 10 then 48 + d else 55 + d)"

text \<open>\<open>"%02X"\<close>\<close>

definition hex2 :: "u8 \<Rightarrow> u8 list" where
  "hex2 b = [hex_char (drop_bit 4 b), hex_char (b AND 15)]"

fun print_apdu :: "'w board \<Rightarrow> at_t \<Rightarrow> mem \<Rightarrow> nat \<Rightarrow> nat \<Rightarrow> 'w \<Rightarrow> 'w exec" where
  "print_apdu bd at apdu i 0 w = ret w"
| "print_apdu bd at apdu i (Suc n) w =
     bnd (access (mem_get apdu i)) (\<lambda>b.
     bnd (at_print bd (hex2 b) at w) (\<lambda>w. print_apdu bd at apdu (Suc i) n w))"

definition hex_value :: "u8 \<Rightarrow> u8" where
  "hex_value c = (if 48 \<le> c \<and> c \<le> 57 then c - 48 else if 97 \<le> c \<and> c \<le> 102 then c - 97 + 10 else if 65 \<le> c \<and> c \<le> 70 then c - 65 + 10 else 0)"

text \<open>
  The loop over pairs of digits: \<open>off\<close> is how far the pointer \<open>response\<close> has moved, \<open>rlen\<close> is
  \<open>*response_len\<close>.  A second character that is no digit counts as zero.
\<close>

partial_function (option) read_pairs ::
  "'w board \<Rightarrow> at_t \<Rightarrow> mem \<Rightarrow> nat \<Rightarrow> u16 \<Rightarrow> u8 \<Rightarrow> 'w \<Rightarrow> (mem \<times> nat \<times> u16 \<times> u8 option \<times> 'w) exec" where
  "read_pairs bd at response off rlen c w =
     (if hex_digit c then
        bnd (access (mem_write response off [hex_value c])) (\<lambda>response.
        bnd (read_char bd at c w) (\<lambda>(c', w).
        if c' = 10 then ret (response, off, rlen, None, w)
        else
          bnd (access (mem_write response off [push_bit 4 (hex_value c) OR hex_value c'])) (\<lambda>response.
          bnd (read_char bd at c' w) (\<lambda>(c, w).
          if c = 10 then ret (response, off + 1, rlen + 1, None, w) else read_pairs bd at response (off + 1) (rlen + 1) c w))))
      else ret (response, off, rlen, Some c, w))"

definition read_csim :: "'w board \<Rightarrow> at_t \<Rightarrow> mem \<Rightarrow> nat \<Rightarrow> u16 \<Rightarrow> 'w \<Rightarrow> (bool \<times> mem \<times> nat \<times> u16 \<times> 'w) exec" where
  "read_csim bd at response off rlen w =
     bnd (scan_while bd at (\<lambda>c. \<not> dec_digit c) 0 w) (\<lambda>(r, w). case r of None \<Rightarrow> ret (False, response, off, rlen, w) | Some c \<Rightarrow>
     bnd (scan_while bd at dec_digit c w) (\<lambda>(r, w). case r of None \<Rightarrow> ret (False, response, off, rlen, w) | Some c \<Rightarrow>
     bnd (scan_while bd at (\<lambda>c. \<not> hex_digit c) c w) (\<lambda>(r, w). case r of None \<Rightarrow> ret (False, response, off, rlen, w) | Some c \<Rightarrow>
     bnd (read_pairs bd at response off rlen c w) (\<lambda>(response, off, rlen, r, w). case r of None \<Rightarrow> ret (False, response, off, rlen, w) | Some c \<Rightarrow>
     bnd (skip_line bd at c w) (\<lambda>(c, w). ret (True, response, off, rlen, w))))))"

partial_function (option) csim_loop :: "'w board \<Rightarrow> mem \<Rightarrow> nat \<Rightarrow> u16 \<Rightarrow> at_t \<Rightarrow> 'w \<Rightarrow> (bool \<times> mem \<times> u16 \<times> at_t \<times> 'w) exec" where
  "csim_loop bd response off rlen at w =
     bnd (at_process_recv bd at w) (\<lambda>(evt, at, w).
     bnd (if evt = MODEM_CSIM_EVENT then read_csim bd at response off rlen w else ret (True, response, off, rlen, w)) (\<lambda>(go, response, off, rlen, w).
     if \<not> go then ret (False, response, rlen, at, w)
     else if is_response evt then ret (evt \<noteq> 0, response, rlen, at, w)
     else csim_loop bd response off rlen at w))"

definition modem_send_apdu :: "'w board \<Rightarrow> mem \<Rightarrow> u16 \<Rightarrow> mem \<Rightarrow> at_t \<Rightarrow> 'w \<Rightarrow> (bool \<times> mem \<times> u16 \<times> at_t \<times> 'w) exec" where
  "modem_send_apdu bd apdu apdu_len response at w =
     (if 256 < apdu_len then ret (False, response, 0, at, w)
      else
        bnd (at_lock bd at w) (\<lambda>(at, w).
        bnd (at_print bd (cs ''AT+CSIM='' @ dec (unat apdu_len * 2) @ cs '','' @ [34]) at w) (\<lambda>w.
        bnd (print_apdu bd at apdu 0 (unat apdu_len) w) (\<lambda>w.
        bnd (at_print bd ([34] @ crlf) at w) (\<lambda>w.
        csim_loop bd response 0 0 at w)))))"

section \<open>The table of answers\<close>

text \<open>The hash of a text, and the text that the comment beside each entry names.\<close>

definition djb2 :: "u8 list \<Rightarrow> u32" where
  "djb2 s = fold (\<lambda>c h. hash_step h c) s 5381"

definition answer_texts :: "u8 list list" where
  "answer_texts =
    [cs ''OK'' @ crlf, cs ''ERROR'' @ crlf, cs ''^SYSLOADING'' @ crlf, cs ''^SYSSTART'' @ crlf, cs ''+CME ERROR:'', cs ''+CPIN: READY'' @ crlf,
     cs ''+CPIN: SIM PIN'' @ crlf, cs ''+CREG:'', cs ''^SISI: 1,'', cs ''^SISR: 1,'', cs ''^SISW: 1,'', cs ''+CSIM:'']"

text \<open>\<open>m_at\<close> between two commands.\<close>

definition modem_at :: "u8 \<Rightarrow> at_t \<Rightarrow> bool" where
  "modem_at io at \<longleftrightarrow> at_io at = io \<and> generic_table at = m_modem_generic_table \<and> generic_table_size at = of_nat (length m_modem_generic_table) \<and>
     specific_table at = [] \<and> specific_table_size at = 0 \<and> cb_fct (async_cb at) = 0"

lemma modem_at_ok:
  assumes "modem_at io at"
  shows "at_io at = io" and "tables_ok at" and "no_callbacks at" and "entry_for h at = find (\<lambda>e. at_hash e = h) m_modem_generic_table"
    and "modem_at io (at\<lparr>locked := l\<rparr>)" and "modem_at io (after_entry e at)"
  using assms by (auto simp: modem_at_def tables_ok_def no_callbacks_def entry_for_def m_modem_generic_table_def answer_entry_def after_entry_def at_unlock_def)

text \<open>A text that is found in the table with its last character and not before.\<close>

fun hits :: "u32 \<Rightarrow> u8 list \<Rightarrow> at_map_entry_t option" where
  "hits h [] = None"
| "hits h (c # s) =
     (case (if terminator c then find (\<lambda>e. at_hash e = hash_step h c) m_modem_generic_table else None) of
        Some e \<Rightarrow> if s = [] then Some e else None
      | None \<Rightarrow> if c = 10 then None else hits (hash_step h c) s)"

lemma hits_line_entry: "modem_at io at \<Longrightarrow> hits h p = Some e \<Longrightarrow> line_entry at h (p @ r) = Some (Some e, r)"
proof (induction p arbitrary: h)
  case (Cons c p)
  then show ?case
    by (auto simp: modem_at_ok(4) split: option.splits if_splits)
qed simp

lemma next_event_blanks: "\<forall>b \<in> set bl. blank b \<Longrightarrow> next_event at (bl @ r) = next_event at r"
  by (induction bl) auto

lemma next_event_hit:
  assumes "modem_at io at" and "hits 5381 p = Some e" and "\<not> blank (hd p)" and "\<forall>b \<in> set bl. blank b"
  shows "next_event at (bl @ p @ r) = Some (e, r)"
proof -
  obtain c q where p: "p = c # q"
    using assms(2) by (cases p) auto
  have "line_entry at 5381 (c # q @ r) = Some (Some e, r)"
    using hits_line_entry [OF assms(1,2)] p by simp
  then have "next_event at (p @ r) = Some (e, r)"
    using assms(3) p by (simp del: line_entry.simps)
  then show ?thesis
    using next_event_blanks [OF assms(4)] by simp
qed

lemma texts_hit:
  "hits 5381 (cs ''OK'' @ crlf) = Some (answer_entry 0x7c89a236 AT_COMMAND_SUCCESS_EVENT)"
  "hits 5381 (cs ''ERROR'' @ crlf) = Some (answer_entry 0x88718ac6 AT_COMMAND_FAILURE_EVENT)"
  "hits 5381 (cs ''^SYSSTART'' @ crlf) = Some (answer_entry 0x09565007 MODEM_SYSSTART_EVENT)"
  "hits 5381 (cs ''+CME ERROR:'') = Some (answer_entry 0x5e224a29 AT_COMMAND_FAILURE_EVENT)"
  "hits 5381 (cs ''+CPIN: READY'' @ crlf) = Some (answer_entry 0x8f0ad8e0 MODEM_CPIN_READY_EVENT)"
  "hits 5381 (cs ''+CREG:'') = Some (answer_entry 0x7117678b MODEM_CREG_EVENT)"
  "hits 5381 (cs ''^SISI: 1,'') = Some (answer_entry 0x0b66e692 MODEM_SISI_1_EVENT)"
  "hits 5381 (cs ''^SISR: 1,'') = Some (answer_entry 0x0c09c31b MODEM_SISR_1_EVENT)"
  "hits 5381 (cs ''^SISW: 1,'') = Some (answer_entry 0x0c643da0 MODEM_SISW_1_EVENT)"
  "hits 5381 (cs ''+CSIM:'') = Some (answer_entry 0x711805b6 MODEM_CSIM_EVENT)"
  "hits 5381 (cs ''+CPIN: SIM PIN'' @ crlf) = Some (answer_entry 0xe9e8a4fb MODEM_CPIN_SIM_PIN_EVENT)"
  by code_simp+

text \<open>
  The table of answers is right.  Each entry has the hash of the text that the comment beside it
  names, the hashes are pairwise different, and when such a text arrives, after blanks and whatever follows
  it, the parser reports exactly the event of its entry at the end of the text: no beginning of a text
  that ends with a separator is in the table.
\<close>

theorem answer_table_correct:
  assumes "modem_at io at" and "i < 12" and "\<forall>b \<in> set bl. blank b"
  shows "map at_hash m_modem_generic_table = map djb2 answer_texts \<and> distinct (map at_hash m_modem_generic_table) \<and>
    next_event at (bl @ answer_texts ! i @ r) = Some (m_modem_generic_table ! i, r)"
proof -
  have a: "map at_hash m_modem_generic_table = map djb2 answer_texts" "distinct (map at_hash m_modem_generic_table)"
    by code_simp+
  have "\<forall>j \<in> set [0..<12]. hits 5381 (answer_texts ! j) = Some (m_modem_generic_table ! j) \<and> \<not> blank (hd (answer_texts ! j))"
    by code_simp
  then have "hits 5381 (answer_texts ! i) = Some (m_modem_generic_table ! i)" "\<not> blank (hd (answer_texts ! i))"
    using assms(2) by simp_all
  then show ?thesis
    using a next_event_hit [OF assms(1) _ _ assms(3)] by blast
qed

text \<open>The parser after \<open>at_init\<close>.\<close>

definition idle_at :: at_t where
  "idle_at = at_init 1 m_modem_generic_table 12
     \<lparr>locked = 0, at_io = 0, generic_table = [], generic_table_size = 0, specific_table = [], specific_table_size = 0, async_cb = \<lparr>cb_ctx = 0, cb_fct = 0\<rparr>\<rparr>"

lemma idle_at_ok: "modem_at 1 idle_at" "locked idle_at = 0"
  by (simp_all add: modem_at_def idle_at_def at_init_def m_modem_generic_table_def)

theorem answer_table_correct_witness:
  "next_event idle_at ([13, 10] @ answer_texts ! 0 @ [88]) = Some (answer_entry 0x7c89a236 AT_COMMAND_SUCCESS_EVENT, [88])"
  using answer_table_correct [OF idle_at_ok(1), of 0 "[13, 10]" "[88]"] by (simp add: blank_def m_modem_generic_table_def)

end
