(* ===== verification/Modem_Exchange.thy ===== *)
theory Modem_Exchange
  imports Modem
begin

text \<open>
  What the commands of the modem do on a serial line.  The lemmas about the scanning loops and the
  exchanges are proved in the locale \<open>serial_line\<close>, for any device at the other end; the properties
  state them for the serial driver, with a device that follows a script.
\<close>

section \<open>Characters, numbers and digits\<close>

text \<open>The value of a run of digits, at the width of the variable.\<close>

definition number :: "'a::len word \<Rightarrow> u8 list \<Rightarrow> 'a word" where
  "number v s = fold (\<lambda>c v. v * 10 + (ucast c - 48)) s v"

text \<open>The byte that a pair of digits stands for, and the pair that prints a byte.\<close>

definition pair_byte :: "u8 \<times> u8 \<Rightarrow> u8" where
  "pair_byte p = (push_bit 4 (hex_value (fst p)) OR hex_value (snd p))"

definition byte_pair :: "u8 \<Rightarrow> u8 \<times> u8" where
  "byte_pair b = (hex_char (drop_bit 4 b), hex_char (b AND 15))"

lemma hex_digit_not_nl: "hex_digit c \<Longrightarrow> c \<noteq> 10"
  by (auto simp: hex_digit_def)

lemma nibbleE: "d < 16 \<Longrightarrow> \<forall>n \<in> set [0..<16]. P (of_nat n) \<Longrightarrow> P d" for d :: u8
proof -
  assume "d < 16" and P: "\<forall>n \<in> set [0..<16]. P (of_nat n)"
  then have "unat d \<in> set [0..<16]"
    by (simp add: word_less_nat_alt)
  then have "P (of_nat (unat d))"
    using P by blast
  then show "P d"
    by simp
qed

lemma hex_char_value: "d < 16 \<Longrightarrow> hex_value (hex_char d) = d \<and> hex_digit (hex_char d)"
  by (erule nibbleE) code_simp

lemma nibbles: "push_bit 4 (drop_bit 4 b) OR (b AND 15) = b" "drop_bit 4 b < 16" "b AND 15 < 16" for b :: u8
proof -
  have m: "(15 :: u8) = mask 4"
    by (simp add: mask_eq_exp_minus_1)
  show "push_bit 4 (drop_bit 4 b) OR (b AND 15) = b"
    unfolding m by (rule bit_word_eqI) (auto simp: bit_simps)
  have "unat b div 16 < 16"
    using u8_lt [of b] by linarith
  then show "drop_bit 4 b < 16"
    by (simp add: word_less_nat_alt drop_bit_eq_div unat_div)
  show "b AND 15 < 16"
    using word_and_le1 [of b 15] by (simp add: word_le_nat_alt word_less_nat_alt)
qed

lemma byte_pair_facts: "pair_byte (byte_pair b) = b" "hex_digit (fst (byte_pair b))" "hex_digit (snd (byte_pair b))"
  using hex_char_value [OF nibbles(2), of b] hex_char_value [OF nibbles(3), of b] nibbles(1) [of b]
  by (simp_all add: pair_byte_def byte_pair_def)

lemma hex_text: "concat (map hex2 bs) = concat (map (\<lambda>(a, b). [a, b]) (map byte_pair bs))"
  by (simp add: comp_def hex2_def [abs_def] byte_pair_def)

lemma pair_bytes: "map pair_byte (map byte_pair bs) = bs"
  using byte_pair_facts by (induction bs) auto

lemma dec_digit_dec: "\<forall>c \<in> set (dec n). dec_digit c"
  using dec_digits [of n] by (simp add: digit_val_le dec_digit_def)

lemma number_dec: "number 0 (dec n) = (of_nat n :: 'a::len word)"
proof (induction n rule: dec.induct)
  case (1 n)
  have d: "ucast (48 + of_nat k :: u8) - 48 = (of_nat k :: 'a word)" if "k < 10" for k
  proof -
    have "unat (48 + of_nat k :: u8) = 48 + k"
      using that by (simp add: unat_word_ariths unsigned_of_nat take_bit_nat_eq_self)
    then have "(ucast (48 + of_nat k :: u8) :: 'a word) = of_nat (48 + k)"
      by (metis of_nat_unat)
    then show ?thesis
      by simp
  qed
  show ?case
  proof (cases "n < 10")
    case True
    then show ?thesis
      using d [of n] by (simp add: dec.simps [of n] number_def)
  next
    case False
    have "(of_nat n :: 'a word) = of_nat (n div 10) * 10 + of_nat (n mod 10)"
      by (metis of_nat_add of_nat_mult of_nat_numeral div_mult_mod_eq)
    then show ?thesis
      using 1 False d [of "n mod 10"] by (simp add: dec.simps [of n] number_def)
  qed
qed

context serial_line
begin

lemma read_char_next:
  assumes "ok w" and "at_io at = io" and "rest w = c # r"
  shows "\<exists>w'. read_char bd at x w = ret (c, w') \<and> took w r w'"
  using at_read_char [OF assms, of x] by (auto simp: read_char_def)

lemma took_same: "ok w \<Longrightarrow> took w (rest w) w"
  by (simp add: took_def)

text \<open>In the loops the character \<open>c\<close> has been read already: the text to scan is \<open>c # rest w\<close>.\<close>

lemma skip_line_end:
  "c # rest w = s @ 10 # r \<Longrightarrow> 10 \<notin> set s \<Longrightarrow> ok w \<Longrightarrow> at_io at = io \<Longrightarrow> \<exists>w'. skip_line bd at c w = ret (10, w') \<and> took w r w'"
proof (induction s arbitrary: c w)
  case Nil
  then show ?case
    using took_same by (auto simp: skip_line.simps)
next
  case (Cons b s)
  then obtain d t where d: "rest w = d # t" "d # t = s @ 10 # r"
    by (cases "rest w") auto
  obtain v where v: "read_char bd at c w = ret (d, v)" "took w t v"
    using read_char_next [OF Cons.prems(3,4) d(1)] by blast
  then have "skip_line bd at c w = skip_line bd at d v" "ok v" "d # rest v = s @ 10 # r"
    using Cons.prems(1,2) d(2) by (simp_all add: skip_line.simps [of bd at b w] took_def)
  then show ?case
    using Cons.IH [of d v] Cons.prems(2,4) took_trans [OF v(2)] by auto
qed

lemma scan_while_stop:
  "c # rest w = s @ d # r \<Longrightarrow> \<forall>x \<in> set s. T x \<Longrightarrow> \<not> T d \<Longrightarrow> 10 \<notin> set (tl s) \<Longrightarrow> d \<noteq> 10 \<Longrightarrow> ok w \<Longrightarrow> at_io at = io \<Longrightarrow>
   \<exists>w'. scan_while bd at T c w = ret (Some d, w') \<and> took w r w'"
proof (induction s arbitrary: c w)
  case Nil
  then show ?case
    using took_same by (auto simp: scan_while.simps)
next
  case (Cons b s)
  then obtain e t where e: "rest w = e # t" "e # t = s @ d # r"
    by (cases "rest w") auto
  obtain v where v: "read_char bd at c w = ret (e, v)" "took w t v"
    using read_char_next [OF Cons.prems(6,7) e(1)] by blast
  have "e \<noteq> 10"
    using e(2) Cons.prems(4,5) by (cases s) auto
  then have "scan_while bd at T c w = scan_while bd at T e v" "ok v" "e # rest v = s @ d # r"
    using Cons.prems(1,2) e(2) v by (simp_all add: scan_while.simps [of bd at T b w] took_def)
  then show ?case
    using Cons.IH [of e v] Cons.prems(2-5,7) took_trans [OF v(2)] by (cases s) auto
qed

lemma read_number_stop:
  "c # rest w = s @ d # r \<Longrightarrow> \<forall>x \<in> set s. dec_digit x \<Longrightarrow> \<not> dec_digit d \<Longrightarrow> ok w \<Longrightarrow> at_io at = io \<Longrightarrow>
   \<exists>w'. read_number bd at v c w = ret (number v s, d, w') \<and> took w r w'"
proof (induction s arbitrary: c v w)
  case Nil
  then show ?case
    using took_same by (auto simp: read_number.simps number_def)
next
  case (Cons b s)
  then obtain e t where e: "rest w = e # t" "e # t = s @ d # r"
    by (cases "rest w") auto
  obtain u where u: "read_char bd at c w = ret (e, u)" "took w t u"
    using read_char_next [OF Cons.prems(4,5) e(1)] by blast
  then have "read_number bd at v c w = read_number bd at (v * 10 + (ucast b - 48)) e u" "ok u" "e # rest u = s @ d # r"
    using Cons.prems(1,2) e(2) by (simp_all add: read_number.simps [of bd at v b w] took_def)
  then show ?case
    using Cons.IH [of e u "v * 10 + (ucast b - 48)"] Cons.prems(2,3,5) took_trans [OF u(2)] by (auto simp: number_def)
qed

lemma scan_number_stop:
  "c # rest w = s @ d # r \<Longrightarrow> \<forall>x \<in> set s. dec_digit x \<Longrightarrow> \<not> dec_digit d \<Longrightarrow> d \<noteq> 10 \<Longrightarrow> ok w \<Longrightarrow> at_io at = io \<Longrightarrow>
   \<exists>w'. scan_number bd at v c w = ret (number v s, Some d, w') \<and> took w r w'"
proof (induction s arbitrary: c v w)
  case Nil
  then show ?case
    using took_same by (auto simp: scan_number.simps number_def)
next
  case (Cons b s)
  then obtain e t where e: "rest w = e # t" "e # t = s @ d # r"
    by (cases "rest w") auto
  obtain u where u: "read_char bd at c w = ret (e, u)" "took w t u"
    using read_char_next [OF Cons.prems(5,6) e(1)] by blast
  have "e \<noteq> 10"
    using e(2) Cons.prems(2,4) by (cases s) (auto simp: dec_digit_def)
  then have "scan_number bd at v c w = scan_number bd at (v * 10 + (b - 48)) e u" "ok u" "e # rest u = s @ d # r"
    using Cons.prems(1,2) e(2) u by (simp_all add: scan_number.simps [of bd at v b w] took_def)
  then show ?case
    using Cons.IH [of e u "v * 10 + (b - 48)"] Cons.prems(2-4,6) took_trans [OF u(2)] by (auto simp: number_def)
qed

text \<open>Pairs of digits: the bytes are stored one after the other, and one too many leaves the buffer.\<close>

lemma read_pairs_stop:
  "c # rest w = concat (map (\<lambda>(a, b). [a, b]) ps) @ d # r \<Longrightarrow> \<forall>(a, b) \<in> set ps. hex_digit a \<and> hex_digit b \<Longrightarrow> \<not> hex_digit d \<Longrightarrow> d \<noteq> 10 \<Longrightarrow>
   ok w \<Longrightarrow> at_io at = io \<Longrightarrow> off \<le> length response \<Longrightarrow>
   if off + length ps \<le> length response
   then \<exists>w'. read_pairs bd at response off rlen c w =
     ret (take off response @ map pair_byte ps @ drop (off + length ps) response, off + length ps, rlen + of_nat (length ps), Some d, w') \<and> took w r w'
   else read_pairs bd at response off rlen c w = Some Fault"
proof (induction ps arbitrary: c w response off rlen)
  case Nil
  then show ?case
    using took_same by (auto simp: read_pairs.simps)
next
  case (Cons p ps)
  obtain b where p: "p = (c, b)" "hex_digit c" "hex_digit b" "rest w = b # concat (map (\<lambda>(a, b). [a, b]) ps) @ d # r"
    using Cons.prems(1,2) by (cases p) auto
  obtain e t where e: "concat (map (\<lambda>(a, b). [a, b]) ps) @ d # r = e # t"
    by (cases "concat (map (\<lambda>(a, b). [a, b]) ps) @ d # r") auto
  have e10: "e \<noteq> 10"
    using e Cons.prems(2,4) hex_digit_not_nl by (cases ps) auto
  obtain v where v: "read_char bd at c w = ret (b, v)" "took w (e # t) v"
    using read_char_next [OF Cons.prems(5,6), of b] p(4) e by auto
  then have v': "ok v" "rest v = e # t"
    by (simp_all add: took_def)
  obtain u where u: "read_char bd at b v = ret (e, u)" "took v t u"
    using read_char_next [OF v'(1) Cons.prems(6) v'(2)] by blast
  show ?case
  proof (cases "off < length response")
    case False
    then show ?thesis
      using p(2) by (simp add: read_pairs.simps [of bd at response off rlen c w] mem_write_def)
  next
    case True
    let ?R = "response[off := pair_byte p]"
    have w2: "mem_write response off [x] = Some (response[off := x])" for x
      using True by (simp add: mem_write_def upd_conv_take_nth_drop)
    have w3: "mem_write (response[off := y]) off [x] = Some (response[off := x])" for x y
      using True by (simp add: mem_write_def upd_conv_take_nth_drop)
    have body: "read_pairs bd at response off rlen c w = read_pairs bd at ?R (off + 1) (rlen + 1) e u"
      using p v(1) u(1) e10 hex_digit_not_nl [OF p(3)] by (simp add: read_pairs.simps [of bd at response off rlen c w] w2 w3 pair_byte_def)
    have "ok u" "e # rest u = concat (map (\<lambda>(a, b). [a, b]) ps) @ d # r"
      using u(2) e by (auto simp: took_def)
    then have IH: "if off + 1 + length ps \<le> length ?R
      then \<exists>w'. read_pairs bd at ?R (off + 1) (rlen + 1) e u =
        ret (take (off + 1) ?R @ map pair_byte ps @ drop (off + 1 + length ps) ?R, off + 1 + length ps, rlen + 1 + of_nat (length ps), Some d, w') \<and> took u r w'
      else read_pairs bd at ?R (off + 1) (rlen + 1) e u = Some Fault"
      using Cons.IH [of e u "off + 1" ?R "rlen + 1"] Cons.prems(2-4,6) True by auto
    have "take (off + 1) ?R = take off response @ [pair_byte p]"
      using True by (simp add: take_Suc_conv_app_nth)
    then show ?thesis
      using IH body took_trans [OF v(2) took_trans [OF u(2)]] by (auto simp: ac_simps)
  qed
qed

end

section \<open>Commands and their answers\<close>

text \<open>Texts sent one after the other to a machine.\<close>

fun reacts :: "('m \<Rightarrow> u8 list \<Rightarrow> 'm \<times> u8 list) \<Rightarrow> 'm \<Rightarrow> u8 list list \<Rightarrow> 'm \<times> u8 list" where
  "reacts react m [] = (m, [])"
| "reacts react m (t # ts) = (let (m, r) = react m t; (m, rs) = reacts react m ts in (m, r @ rs))"

lemma hex2_length: "length (hex2 b) = 2"
  by (simp add: hex2_def)

definition apdu_texts :: "u8 list \<Rightarrow> u8 list list" where
  "apdu_texts apdu = (cs ''AT+CSIM='' @ dec (length apdu * 2) @ cs '','' @ [34]) # map hex2 apdu @ [[34] @ crlf]"

definition csim_line :: "nat \<Rightarrow> u8 list \<Rightarrow> u8 list" where
  "csim_line n resp = cs ''+CSIM:'' @ [32] @ dec n @ cs '','' @ [34] @ concat (map hex2 resp) @ [34] @ crlf"

definition ok_line :: "u8 list" where
  "ok_line = cs ''OK'' @ crlf"

lemma event_facts:
  "\<not> is_response AT_TIMEOUT_EVENT" "AT_TIMEOUT_EVENT \<noteq> MODEM_CSIM_EVENT" "AT_TIMEOUT_EVENT \<noteq> MODEM_SISI_1_EVENT"
  "AT_TIMEOUT_EVENT \<noteq> MODEM_SISR_1_EVENT" "AT_TIMEOUT_EVENT \<noteq> MODEM_SISW_1_EVENT" "AT_TIMEOUT_EVENT \<noteq> MODEM_CME_ERROR_EVENT"
  "AT_TIMEOUT_EVENT \<noteq> AT_COMMAND_FAILURE_EVENT"
  "\<not> is_response MODEM_CSIM_EVENT" "\<not> is_response MODEM_SISI_1_EVENT" "\<not> is_response MODEM_SISR_1_EVENT" "\<not> is_response MODEM_SISW_1_EVENT"
  "is_response AT_COMMAND_SUCCESS_EVENT" "is_response AT_COMMAND_FAILURE_EVENT"
  "AT_COMMAND_SUCCESS_EVENT \<noteq> MODEM_CSIM_EVENT" "AT_COMMAND_FAILURE_EVENT \<noteq> MODEM_CSIM_EVENT"
  "AT_COMMAND_SUCCESS_EVENT \<noteq> MODEM_SISI_1_EVENT" "AT_COMMAND_FAILURE_EVENT \<noteq> MODEM_SISI_1_EVENT"
  "MODEM_SISR_1_EVENT \<noteq> MODEM_CME_ERROR_EVENT" "MODEM_SISR_1_EVENT \<noteq> AT_COMMAND_FAILURE_EVENT"
  "MODEM_SISW_1_EVENT \<noteq> MODEM_CME_ERROR_EVENT" "MODEM_SISW_1_EVENT \<noteq> AT_COMMAND_FAILURE_EVENT"
  "AT_COMMAND_SUCCESS_EVENT \<noteq> AT_COMMAND_FAILURE_EVENT" "AT_COMMAND_SUCCESS_EVENT \<noteq> 0" "AT_COMMAND_FAILURE_EVENT \<noteq> 0"
  by (simp_all add: is_response_def at_event_defs modem_event_defs)

lemma text_heads:
  "\<not> blank (hd (cs ''OK'' @ crlf))" "\<not> blank (hd (cs ''ERROR'' @ crlf))" "\<not> blank (hd (cs ''+CME ERROR:''))" "\<not> blank (hd (cs ''+CSIM:''))"
  "\<not> blank (hd (cs ''^SISI: 1,''))" "\<not> blank (hd (cs ''^SISR: 1,''))" "\<not> blank (hd (cs ''^SISW: 1,''))"
  by code_simp+

text \<open>The parser after a final answer to a command that began with it unlocked.\<close>

lemma unlocked_again: "modem_at io at \<Longrightarrow> locked at = 0 \<Longrightarrow> at_unlock (at\<lparr>locked := 1\<rparr>) = at"
  by (simp add: at_unlock_def modem_at_def)

lemma after_entry_answer:
  "after_entry (answer_entry h e) at = (if is_response e then at_unlock at else at)" "at_evt (answer_entry h e) = e"
  by (simp_all add: after_entry_def answer_entry_def)

context serial_line
begin

lemma said_print:
  assumes "ok w" and "length txt \<le> cap w" and "at_io at = io"
  shows "\<exists>w'. at_print bd txt at w = ret w' \<and> said w txt w'"
  using print_law [OF assms(1,2)] assms(3) by (auto simp: at_print_def said_def)

lemma said_after_took: "took w (rest w) v \<Longrightarrow> said v txt u \<Longrightarrow> said w txt u"
  by (auto simp: took_def said_def)

lemma send_no_wait:
  assumes "ok w" and "modem_at io at" and "locked at = 0" and "quiet w" and "length cmd \<le> cap w"
  shows "\<exists>w'. modem_send_at_command_no_wait_response bd cmd at w = ret (at\<lparr>locked := 1\<rparr>, w') \<and> said w cmd w'"
proof -
  obtain v where v: "at_lock bd at w = ret (at\<lparr>locked := 1\<rparr>, v)" "took w (rest w) v"
    using lock_quiet [OF assms(1) modem_at_ok(1) [OF assms(2)] assms(3,4)] by blast
  then obtain u where "at_print bd cmd (at\<lparr>locked := 1\<rparr>) v = ret u" "said v cmd u"
    using said_print [of v cmd "at\<lparr>locked := 1\<rparr>"] modem_at_ok(1) [OF assms(2)] assms(5) by (auto simp: took_def)
  then show ?thesis
    using v said_after_took by (simp add: modem_send_at_command_no_wait_response_def)
qed

text \<open>The next event of a loop that ignores timeouts, for an answer in the table.\<close>

lemma next_answer:
  assumes "modem_at io at" and "hits 5381 p = Some (answer_entry h e)" and "\<not> blank (hd p)" and "\<forall>b \<in> set bl. blank b"
    and "ok w" and "length (rest w) < 65536" and "rest w = bl @ p @ r"
    and "\<And>w w'. at_process_recv bd at w = ret (AT_TIMEOUT_EVENT, at, w') \<Longrightarrow> F w = F w'"
  shows "\<exists>v w'. F w = F v \<and> at_process_recv bd at v = ret (e, if is_response e then at_unlock at else at, w') \<and> took w r w'"
proof -
  have "next_event at (rest w) = Some (answer_entry h e, r)"
    using next_event_hit [OF assms(1-4), of r] assms(7) by simp
  then show ?thesis
    using next_line [where F = F, OF modem_at_ok(1-3) [OF assms(1)] assms(5,6) _ assms(8)] by (simp add: after_entry_answer)
qed

lemma wait_ok:
  assumes "modem_at io at" and "ok w" and "length (rest w) < 65536" and "rest w = bl @ ok_line @ r" and "\<forall>b \<in> set bl. blank b"
  shows "\<exists>w'. at_wait_for_response bd at w = ret (AT_COMMAND_SUCCESS_EVENT, at_unlock at, w') \<and> took w r w'"
proof -
  have "wait_until bd is_response at w = wait_until bd is_response at w'" if "at_process_recv bd at w = ret (AT_TIMEOUT_EVENT, at, w')" for w w'
    using that event_facts by (simp add: wait_until.simps [of bd is_response at w])
  then obtain v u where "wait_until bd is_response at w = wait_until bd is_response at v"
    "at_process_recv bd at v = ret (AT_COMMAND_SUCCESS_EVENT, at_unlock at, u)" "took w r u"
    using next_answer [OF assms(1) texts_hit(1) text_heads(1) assms(5,2,3), of r "wait_until bd is_response at"] assms(4) event_facts
    by (auto simp: ok_line_def)
  then show ?thesis
    using event_facts by (simp add: at_wait_for_response_def wait_until.simps [of bd is_response at v])
qed

section \<open>An APDU and its response\<close>

lemma csim_skip: "at_process_recv bd at w = ret (AT_TIMEOUT_EVENT, at, w') \<Longrightarrow> csim_loop bd response off rlen at w = csim_loop bd response off rlen at w'"
  using event_facts by (simp add: csim_loop.simps [of bd response off rlen at w])

lemma read_csim_line:
  assumes "ok w" and "at_io at = io" and "resp \<noteq> []"
    and "rest w = [32] @ dec n @ cs '','' @ [34] @ concat (map hex2 resp) @ [34] @ crlf @ r"
  shows "if length resp \<le> length response
    then \<exists>w'. read_csim bd at response 0 0 w = ret (True, resp @ drop (length resp) response, length resp, of_nat (length resp), w') \<and> took w r w'
    else read_csim bd at response 0 0 w = Some Fault"
proof -
  have nd: "\<not> dec_digit 44" "\<not> dec_digit 0" "\<not> dec_digit 32" "\<not> dec_digit 34" "\<not> hex_digit 44" "\<not> hex_digit 34" "cs '','' = [44]"
    by code_simp+
  have dn: "10 \<notin> set (dec n)" "\<not> dec_digit 10"
    using dec_digit_dec [of n] by (auto simp: dec_digit_def)
  obtain d ds where d: "dec n = d # ds"
    using dec_not_Nil by (cases "dec n") auto
  then have dd: "dec_digit d" "d \<noteq> 10"
    using dec_digit_dec [of n] dn(1) by auto
  obtain b bs where b: "resp = b # bs"
    using assms(3) by (cases resp) auto
  let ?h = "concat (map hex2 resp) @ [34] @ crlf @ r"
  obtain w1 where w1: "scan_while bd at (\<lambda>c. \<not> dec_digit c) 0 w = ret (Some d, w1)" "took w (ds @ [44, 34] @ ?h) w1"
    using scan_while_stop [of 0 w "[0, 32]" d "ds @ [44, 34] @ ?h" "\<lambda>c. \<not> dec_digit c" at] assms(1,2,4) d dd nd by auto
  obtain w2 where w2: "scan_while bd at dec_digit d w1 = ret (Some 44, w2)" "took w1 (34 # ?h) w2"
    using scan_while_stop [of d w1 "d # ds" 44 "34 # ?h" dec_digit at] w1(2) dec_digit_dec [of n] dn assms(2) d nd by (auto simp: took_def)
  let ?c = "fst (byte_pair b)"
  have h: "?h = ?c # [snd (byte_pair b)] @ concat (map hex2 bs) @ [34] @ crlf @ r"
    using b by (simp add: hex2_def byte_pair_def)
  have "hex_digit ?c" "?c \<noteq> 10"
    using byte_pair_facts(2) hex_digit_not_nl by auto
  then obtain w3 where w3: "scan_while bd at (\<lambda>c. \<not> hex_digit c) 44 w2 = ret (Some ?c, w3)"
    "took w2 ([snd (byte_pair b)] @ concat (map hex2 bs) @ [34] @ crlf @ r) w3"
    using scan_while_stop [of 44 w2 "[44, 34]" ?c _ "\<lambda>c. \<not> hex_digit c" at] w2(2) h assms(2) nd by (auto simp: took_def)
  have pairs: "?c # rest w3 = concat (map (\<lambda>(a, b). [a, b]) (map byte_pair resp)) @ 34 # crlf @ r"
    "\<forall>(a, b) \<in> set (map byte_pair resp). hex_digit a \<and> hex_digit b"
    using w3(2) h hex_text [of resp] byte_pair_facts(2,3) by (auto simp: took_def split: prod.splits) (metis fst_conv snd_conv)+
  have ok3: "ok w3"
    using w3(2) by (simp add: took_def)
  note rp = read_pairs_stop [OF pairs nd(6) _ ok3 assms(2), of 0 response 0]
  show ?thesis
  proof (cases "length resp \<le> length response")
    case False
    then show ?thesis
      using rp w1(1) w2(1) w3(1) by (simp add: read_csim_def)
  next
    case True
    then obtain w4 where w4: "read_pairs bd at response 0 0 ?c w3 = ret (resp @ drop (length resp) response, length resp, of_nat (length resp), Some 34, w4)"
      "took w3 (crlf @ r) w4"
      using rp pair_bytes [of resp] by auto
    then obtain w5 where w5: "skip_line bd at 34 w4 = ret (10, w5)" "took w4 r w5"
      using skip_line_end [of 34 w4 "[34, 13]" r at] assms(2) by (auto simp: took_def crlf_def)
    have "read_csim bd at response 0 0 w = ret (True, resp @ drop (length resp) response, length resp, of_nat (length resp), w5)"
      using w1(1) w2(1) w3(1) w4(1) w5(1) by (simp add: read_csim_def)
    then show ?thesis
      using True took_trans [OF w1(2) took_trans [OF w2(2) took_trans [OF w3(2) took_trans [OF w4(2) w5(2)]]]] by auto
  qed
qed

end

context serial_line
begin

lemma csim_exchange:
  assumes "modem_at io at" and "ok w" and "length (rest w) < 65536" and "resp \<noteq> []"
    and "rest w = bl @ csim_line n resp @ bl' @ ok_line @ r" and "\<forall>b \<in> set bl. blank b" and "\<forall>b \<in> set bl'. blank b"
  shows "if length resp \<le> length response
    then \<exists>w'. csim_loop bd response 0 0 at w = ret (True, resp @ drop (length resp) response, of_nat (length resp), at_unlock at, w') \<and> took w r w'
    else csim_loop bd response 0 0 at w = Some Fault"
proof -
  let ?s = "[32] @ dec n @ cs '','' @ [34] @ concat (map hex2 resp) @ [34] @ crlf @ bl' @ ok_line @ r"
  obtain v u where v: "csim_loop bd response 0 0 at w = csim_loop bd response 0 0 at v" "at_process_recv bd at v = ret (MODEM_CSIM_EVENT, at, u)" "took w ?s u"
    using next_answer [OF assms(1) texts_hit(10) text_heads(4) assms(6,2,3), of ?s "csim_loop bd response 0 0 at"] csim_skip assms(5) event_facts
    by (auto simp: csim_line_def)
  have u: "ok u" "rest u = ?s"
    using v(3) by (simp_all add: took_def)
  note line = read_csim_line [OF u(1) modem_at_ok(1) [OF assms(1)] assms(4) u(2), of response]
  note body = v(1,2) csim_loop.simps [of bd response 0 0 at v]
  show ?thesis
  proof (cases "length resp \<le> length response")
    case False
    then show ?thesis
      using line body by simp
  next
    case True
    let ?R = "resp @ drop (length resp) response"
    let ?F = "csim_loop bd ?R (length resp) (of_nat (length resp)) at"
    obtain x where x: "read_csim bd at response 0 0 u = ret (True, ?R, length resp, of_nat (length resp), x)" "took w (bl' @ ok_line @ r) x"
      using line True took_trans [OF v(3)] by auto
    then have "csim_loop bd response 0 0 at w = ?F x" "ok x" "rest x = bl' @ (cs ''OK'' @ crlf) @ r"
      using body event_facts by (auto simp: took_def ok_line_def)
    moreover have "length (rest x) < 65536"
      using x(2) assms(3,5) by (simp add: took_def)
    ultimately obtain y z where "csim_loop bd response 0 0 at w = ?F y" "at_process_recv bd at y = ret (AT_COMMAND_SUCCESS_EVENT, at_unlock at, z)" "took x r z"
      using next_answer [OF assms(1) texts_hit(1) text_heads(1) assms(7), of x r ?F] csim_skip event_facts by auto
    then show ?thesis
      using True event_facts took_trans [OF x(2)] csim_loop.simps [of bd ?R "length resp" "of_nat (length resp)" at y] by auto
  qed
qed

lemma csim_failure:
  assumes "modem_at io at" and "ok w" and "length (rest w) < 65536" and "rest w = bl @ p @ r" and "\<forall>b \<in> set bl. blank b"
    and "p = cs ''ERROR'' @ crlf \<or> p = cs ''+CME ERROR:''"
  shows "\<exists>w'. csim_loop bd response 0 0 at w = ret (True, response, 0, at_unlock at, w') \<and> took w r w'"
proof -
  obtain h where "hits 5381 p = Some (answer_entry h AT_COMMAND_FAILURE_EVENT)" "\<not> blank (hd p)"
    using assms(6) texts_hit(2,4) text_heads(2,3) by metis
  then obtain v u where "csim_loop bd response 0 0 at w = csim_loop bd response 0 0 at v" "at_process_recv bd at v = ret (AT_COMMAND_FAILURE_EVENT, at_unlock at, u)"
    "took w r u"
    using next_answer [OF assms(1) _ _ assms(5,2,3,4), of h AT_COMMAND_FAILURE_EVENT "csim_loop bd response 0 0 at"] csim_skip event_facts by auto
  then show ?thesis
    using event_facts csim_loop.simps [of bd response 0 0 at v] by auto
qed

text \<open>Texts sent one after the other.\<close>

definition spoke :: "'w \<Rightarrow> u8 list list \<Rightarrow> 'w \<Rightarrow> bool" where
  "spoke w ts w' \<longleftrightarrow> ok w' \<and> (peer w', rest w') = (let (m, r) = reacts react (peer w) ts in (m, rest w @ r)) \<and>
     sent w' = sent w @ concat ts \<and> cap w \<le> cap w' + length (concat ts)"

lemma spoke_Nil: "ok w \<Longrightarrow> spoke w [] w"
  by (simp add: spoke_def)

lemma spoke_Cons: "said w t v \<Longrightarrow> spoke v ts u \<Longrightarrow> spoke w (t # ts) u"
  by (auto simp: said_def spoke_def Let_def split: prod.splits)

lemma spoke_append: "spoke w ts v \<Longrightarrow> spoke v us u \<Longrightarrow> spoke w (ts @ us) u"
proof (induction ts arbitrary: w)
  case (Cons t ts)
  have r: "reacts react m (ts @ us) = (let (m, r) = reacts react m ts; (m, rs) = reacts react m us in (m, r @ rs))" for m
    by (induction ts arbitrary: m) (auto simp: Let_def split: prod.splits)
  show ?case
    using Cons.prems r by (auto simp: spoke_def Let_def split: prod.splits)
qed (auto simp: spoke_def Let_def split: prod.splits)

lemma print_apdu_spoke:
  assumes "at_io at = io"
  shows "ok w \<Longrightarrow> i + n \<le> length apdu \<Longrightarrow> 2 * n \<le> cap w \<Longrightarrow>
    \<exists>w'. print_apdu bd at apdu i n w = ret w' \<and> spoke w (map hex2 (take n (drop i apdu))) w'"
proof (induction n arbitrary: i w)
  case (Suc n)
  have t: "take (Suc n) (drop i apdu) = apdu ! i # take n (drop (Suc i) apdu)"
    using Suc.prems(2) by (metis Cons_nth_drop_Suc Suc_le_lessD add_Suc_right le_add1 le_trans not_less_eq_eq take_Suc_Cons add.commute)
  obtain v where v: "at_print bd (hex2 (apdu ! i)) at w = ret v" "said w (hex2 (apdu ! i)) v"
    using said_print [OF Suc.prems(1) _ assms, of "hex2 (apdu ! i)"] Suc.prems(3) by (auto simp: hex2_def)
  moreover have "ok v" "2 * n \<le> cap v"
    using v(2) Suc.prems(3) hex2_length by (auto simp: said_def)
  ultimately obtain u where "print_apdu bd at apdu (Suc i) n v = ret u" "spoke v (map hex2 (take n (drop (Suc i) apdu))) u"
    using Suc.IH [of v "Suc i"] Suc.prems(2) by auto
  then show ?case
    using v spoke_Cons [OF v(2)] t Suc.prems(2) by (auto simp: mem_get_def)
qed (simp add: spoke_Nil)

lemma send_apdu_spoken:
  assumes "ok w" and "modem_at io at" and "locked at = 0" and "quiet w" and "apdu_len \<le> 256" and "unat apdu_len \<le> length m"
    and "length (concat (apdu_texts (take (unat apdu_len) m))) \<le> cap w"
  shows "\<exists>w'. modem_send_apdu bd m apdu_len response at w = csim_loop bd response 0 0 (at\<lparr>locked := 1\<rparr>) w' \<and> spoke w (apdu_texts (take (unat apdu_len) m)) w'"
proof -
  let ?at = "at\<lparr>locked := 1\<rparr>" and ?a = "take (unat apdu_len) m"
  let ?t1 = "cs ''AT+CSIM='' @ dec (unat apdu_len * 2) @ cs '','' @ [34]" and ?t3 = "[34] @ crlf"
  have io: "at_io ?at = io"
    using modem_at_ok(1) [OF assms(2)] by simp
  have len: "length (concat (map hex2 xs)) = 2 * length xs" for xs
    by (induction xs) (simp_all add: hex2_length)
  have texts: "apdu_texts ?a = ?t1 # map hex2 ?a @ [?t3]"
    using assms(6) by (simp add: apdu_texts_def min_def)
  have fits: "length ?t1 + (2 * unat apdu_len + length ?t3) \<le> cap w"
    using assms(6,7) unfolding texts by (simp add: len min_absorb2)
  obtain w1 where w1: "at_lock bd at w = ret (?at, w1)" "took w (rest w) w1"
    using lock_quiet [OF assms(1) modem_at_ok(1) [OF assms(2)] assms(3,4)] by blast
  then obtain w2 where w2: "at_print bd ?t1 ?at w1 = ret w2" "said w1 ?t1 w2"
    using said_print [of w1 ?t1 ?at] io fits by (auto simp: took_def)
  obtain w3 where w3: "print_apdu bd ?at m 0 (unat apdu_len) w2 = ret w3" "spoke w2 (map hex2 ?a) w3"
    using print_apdu_spoke [OF io, of w2 0 "unat apdu_len" m] w1(2) w2(2) fits assms(6) by (auto simp: took_def said_def)
  have "length ?t3 \<le> cap w3"
    using fits w1(2) w2(2) w3(2) assms(6) by (simp add: took_def said_def spoke_def len)
  then obtain w4 where w4: "at_print bd ?t3 ?at w3 = ret w4" "said w3 ?t3 w4"
    using said_print [of w3 ?t3 ?at] io w3(2) by (auto simp: spoke_def)
  have "spoke w3 [?t3] w4"
    using spoke_Cons [OF w4(2)] spoke_Nil w4(2) by (simp add: said_def)
  then have "spoke w (apdu_texts ?a) w4"
    using spoke_Cons [OF said_after_took [OF w1(2) w2(2)]] spoke_append [OF w3(2)] unfolding texts by blast
  moreover have "\<not> 256 < apdu_len"
    using assms(5) by simp
  ultimately show ?thesis
    using w1(1) w2(1) w3(1) w4(1) by (auto simp: modem_send_apdu_def)
qed

end

section \<open>The state of the service and the transfer of data\<close>

definition sisi_cmd :: "u8 list" where
  "sisi_cmd = cs ''AT^SISI?'' @ crlf"

definition sisi_reply :: "nat \<Rightarrow> u8 list" where
  "sisi_reply s = crlf @ cs ''^SISI: 1,'' @ dec s @ cs '',0,0,0,0,0'' @ crlf @ crlf @ ok_line"

definition sisr_cmd :: "nat \<Rightarrow> u8 list" where
  "sisr_cmd n = cs ''AT^SISR='' @ dec_int 1 @ cs '','' @ dec n @ crlf"

definition sisr_reply :: "u8 list \<Rightarrow> u8 list" where
  "sisr_reply chunk = crlf @ cs ''^SISR: 1,'' @ dec (length chunk) @ crlf @ chunk @ crlf @ ok_line"

definition sisw_cmd :: "nat \<Rightarrow> u8 list" where
  "sisw_cmd n = cs ''AT^SISW='' @ dec_int 1 @ cs '','' @ dec n @ crlf"

definition sisw_reply :: "nat \<Rightarrow> u8 list" where
  "sisw_reply n = crlf @ cs ''^SISW: 1,'' @ dec n @ cs '',0'' @ crlf"

lemma blank_crlf: "\<forall>b \<in> set crlf. blank b" "\<forall>b \<in> set (crlf @ crlf). blank b"
  by code_simp+

lemma comma_text: "\<not> dec_digit 44" "\<not> dec_digit 13" "cs '',0'' = [44, 48]" "cs '',0,0,0,0,0'' = [44, 48, 44, 48, 44, 48, 44, 48, 44, 48]"
  by code_simp+

context serial_line
begin

text \<open>The text \<open>txt\<close> was sent and the answer read up to \<open>r\<close>; the device is in the state \<open>m\<close>.\<close>

definition asked :: "'w \<Rightarrow> u8 list \<Rightarrow> 'm \<Rightarrow> u8 list \<Rightarrow> 'w \<Rightarrow> bool" where
  "asked w txt m r w' \<longleftrightarrow> ok w' \<and> rest w' = r \<and> peer w' = m \<and> sent w' = sent w @ txt \<and> cap w \<le> cap w' + length txt"

lemma said_asked: "said w txt v \<Longrightarrow> react (peer w) txt = (m, s) \<Longrightarrow> took v r u \<Longrightarrow> asked w txt m r u"
  by (auto simp: said_def took_def asked_def)

lemma asked_took: "asked w txt m s v \<Longrightarrow> took v r u \<Longrightarrow> asked w txt m r u"
  by (auto simp: took_def asked_def)

lemma asked_more: "asked w txt m s v \<Longrightarrow> asked v txt' m' r u \<Longrightarrow> asked w (txt @ txt') m' r u"
  by (auto simp: asked_def)

text \<open>A number and the rest of its line.\<close>

lemma number_line:
  assumes "ok w" and "at_io at = io" and "rest w = dec n @ d # s @ 10 # r" and "\<not> dec_digit d" and "10 \<notin> set (d # s)"
  shows "\<exists>v u w'. read_char bd at x w = ret (hd (dec n), v) \<and> read_number bd at 0 (hd (dec n)) v = ret (of_nat n :: 'a::len word, d, u) \<and>
    skip_line bd at d u = ret (10, w') \<and> took w r w'"
proof -
  obtain e es where e: "dec n = e # es"
    using dec_not_Nil by (cases "dec n") auto
  obtain v where v: "read_char bd at x w = ret (e, v)" "took w (es @ d # s @ 10 # r) v"
    using read_char_next [OF assms(1,2), of e _ x] assms(3) e by auto
  then have "ok v" "e # rest v = dec n @ d # s @ 10 # r"
    using e by (simp_all add: took_def)
  then obtain u where u: "read_number bd at (0 :: 'a word) e v = ret (of_nat n, d, u)" "took v (s @ 10 # r) u"
    using read_number_stop [of e v "dec n" d "s @ 10 # r" at "0 :: 'a word"] dec_digit_dec [of n] assms(2,4) number_dec [of n, where ?'a = 'a] by auto
  then obtain w' where "skip_line bd at d u = ret (10, w')" "took u r w'"
    using skip_line_end [of d u "d # s" r at] assms(2,5) by (auto simp: took_def)
  then show ?thesis
    using v u e took_trans [OF v(2) took_trans [OF u(2)]] by auto
qed

lemma read_count_line:
  assumes "ok w" and "at_io at = io" and "rest w = dec n @ d # s @ 10 # r" and "\<not> dec_digit d" and "10 \<notin> set (d # s)"
  shows "\<exists>w'. read_count bd at w = ret (of_nat n, w') \<and> took w r w'"
  using number_line [OF assms, of 0, where ?'a = 16] by (auto simp: read_count_def)

text \<open>The query of the state.\<close>

lemma sisi_skip: "at_process_recv bd at w = ret (AT_TIMEOUT_EVENT, at, w') \<Longrightarrow> sisi_loop bd v at w = sisi_loop bd v at w'"
  using event_facts by (simp add: sisi_loop.simps [of bd v at w])

lemma sisi_answer:
  assumes "modem_at io at" and "ok w" and "length (rest w) < 65536" and "rest w = sisi_reply s"
  shows "\<exists>w'. sisi_loop bd 0 at w = ret (True, of_nat s, at_unlock at, w') \<and> took w [] w'"
proof -
  let ?s = "dec s @ 44 # [48, 44, 48, 44, 48, 44, 48, 44, 48, 13] @ 10 # crlf @ ok_line"
  have r: "rest w = crlf @ cs ''^SISI: 1,'' @ ?s"
    using assms(4) by (simp add: sisi_reply_def comma_text crlf_def)
  obtain v u where v: "sisi_loop bd 0 at w = sisi_loop bd 0 at v" "at_process_recv bd at v = ret (MODEM_SISI_1_EVENT, at, u)" "took w ?s u"
    using next_answer [OF assms(1) texts_hit(7) text_heads(5) blank_crlf(1) assms(2,3) r, of "sisi_loop bd 0 at"] sisi_skip event_facts by auto
  then have u: "ok u" "rest u = ?s"
    by (simp_all add: took_def)
  obtain u1 u2 x where "read_char bd at 0 u = ret (hd (dec s), u1)" "read_number bd at (0 :: u8) (hd (dec s)) u1 = ret (of_nat s, 44, u2)"
    "skip_line bd at 44 u2 = ret (10, x)" and x: "took u (crlf @ ok_line) x"
    using number_line [OF u(1) modem_at_ok(1) [OF assms(1)] u(2), of 0] comma_text(1) by auto
  then have F: "sisi_loop bd 0 at w = sisi_loop bd (of_nat s) at x"
    using v(1,2) event_facts by (simp add: sisi_loop.simps [of bd 0 at v])
  have x': "ok x" "rest x = crlf @ (cs ''OK'' @ crlf) @ []" "length (rest x) < 65536"
    using x assms(3) r by (auto simp: took_def ok_line_def)
  obtain y z where "sisi_loop bd (of_nat s) at x = sisi_loop bd (of_nat s) at y" "at_process_recv bd at y = ret (AT_COMMAND_SUCCESS_EVENT, at_unlock at, z)"
    "took x [] z"
    using next_answer [OF assms(1) texts_hit(1) text_heads(1) blank_crlf(1) x'(1,3,2), of "sisi_loop bd (of_nat s) at"] sisi_skip event_facts by auto
  then show ?thesis
    using F event_facts took_trans [OF v(3) took_trans [OF x]] by (auto simp: sisi_loop.simps [of bd "of_nat s" at y])
qed

lemma sisi_query:
  assumes "ok w" and "modem_at io at" and "locked at = 0" and "rest w = []" and "length sisi_cmd \<le> cap w"
    and "react (peer w) sisi_cmd = (m, sisi_reply s)" and "length (sisi_reply s) < 65536"
  shows "\<exists>w'. modem_send_query_at_sisi bd at w = ret (True, of_nat s, at, w') \<and> asked w sisi_cmd m [] w'"
proof -
  obtain v where v: "modem_send_at_command_no_wait_response bd sisi_cmd at w = ret (at\<lparr>locked := 1\<rparr>, v)" "said w sisi_cmd v"
    using send_no_wait [OF assms(1-3) quiet_law [OF assms(4)] assms(5)] by blast
  then have "ok v" "rest v = sisi_reply s"
    using assms(4,6) by (auto simp: said_def)
  then obtain u where "sisi_loop bd 0 (at\<lparr>locked := 1\<rparr>) v = ret (True, of_nat s, at, u)" "took v [] u"
    using sisi_answer [OF modem_at_ok(5) [OF assms(2)], of v s 1] assms(7) unlocked_again [OF assms(2,3)] by auto
  then show ?thesis
    using v said_asked [OF v(2) assms(6)] by (auto simp: modem_send_query_at_sisi_def sisi_cmd_def)
qed

end

context serial_line
begin

text \<open>Waiting for the header of a transfer.\<close>

lemma transfer_skip: "at_process_recv bd at w = ret (AT_TIMEOUT_EVENT, at, w') \<Longrightarrow> await_transfer bd 1 e at w = await_transfer bd 1 e at w'" if "e \<noteq> AT_TIMEOUT_EVENT"
  using that event_facts by (simp add: await_transfer.simps [of bd 1 e at w])

lemma transfer_header:
  assumes "modem_at io at" and "ok w" and "length (rest w) < 65536" and "rest w = crlf @ p @ r" and "hits 5381 p = Some (answer_entry h e)" and "\<not> blank (hd p)"
    and "\<not> is_response e" and "e \<noteq> AT_TIMEOUT_EVENT" and "e \<noteq> MODEM_CME_ERROR_EVENT"
  shows "\<exists>w'. await_transfer bd 1 e at w = ret (True, at, w') \<and> took w r w'"
proof -
  obtain v u where "await_transfer bd 1 e at w = await_transfer bd 1 e at v" "at_process_recv bd at v = ret (e, at, u)" "took w r u"
    using next_answer [OF assms(1,5,6) blank_crlf(1) assms(2-4), of "await_transfer bd 1 e at"] transfer_skip [OF assms(8)] assms(7) by auto
  then show ?thesis
    using assms(7,9) by (auto simp: await_transfer.simps [of bd 1 e at v] is_response_def)
qed

text \<open>The first part of a round: the state, the command, and the count in the answer.\<close>

lemma transfer_start:
  assumes "ok w" and "modem_at io at" and "locked at = 0" and "rest w = []" and "react (peer w) sisi_cmd = (m, sisi_reply 4)"
    and "react m cmd = (m', crlf @ p @ dec n @ d # s @ 10 # r)" and "\<not> dec_digit d" and "10 \<notin> set (d # s)"
    and "hits 5381 p = Some (answer_entry h e)" and "\<not> blank (hd p)" and "\<not> is_response e" and "e \<noteq> AT_TIMEOUT_EVENT" and "e \<noteq> MODEM_CME_ERROR_EVENT"
    and "length sisi_cmd + length cmd \<le> cap w" and "length (sisi_reply 4) < 65536" and "length (crlf @ p @ dec n @ d # s @ 10 # r) < 65536"
  shows "\<exists>w1 w2 w3 w4. modem_send_query_at_sisi bd at w = ret (True, 4, at, w1) \<and>
    modem_send_at_command_no_wait_response bd cmd at w1 = ret (at\<lparr>locked := 1\<rparr>, w2) \<and>
    await_transfer bd 1 e (at\<lparr>locked := 1\<rparr>) w2 = ret (True, at\<lparr>locked := 1\<rparr>, w3) \<and>
    read_count bd (at\<lparr>locked := 1\<rparr>) w3 = ret (of_nat n, w4) \<and> asked w (sisi_cmd @ cmd) m' r w4"
proof -
  let ?at = "at\<lparr>locked := 1\<rparr>"
  have at: "at_io ?at = io" "modem_at io ?at"
    using modem_at_ok(1,5) [OF assms(2)] by simp_all
  obtain w1 where w1: "modem_send_query_at_sisi bd at w = ret (True, 4, at, w1)" "asked w sisi_cmd m [] w1"
    using sisi_query [OF assms(1-4) _ assms(5,15)] assms(14) by auto
  then have q1: "ok w1" "quiet w1" "length cmd \<le> cap w1" "react (peer w1) cmd = (m', crlf @ p @ dec n @ d # s @ 10 # r)"
    using quiet_law assms(6,14) by (auto simp: asked_def)
  obtain w2 where w2: "modem_send_at_command_no_wait_response bd cmd at w1 = ret (?at, w2)" "said w1 cmd w2"
    using send_no_wait [OF q1(1) assms(2,3) q1(2,3)] by blast
  then have r2: "ok w2" "rest w2 = crlf @ p @ dec n @ d # s @ 10 # r"
    using w1(2) q1(4) by (auto simp: said_def asked_def)
  then obtain w3 where w3: "await_transfer bd 1 e ?at w2 = ret (True, ?at, w3)" "took w2 (dec n @ d # s @ 10 # r) w3"
    using transfer_header [OF at(2) r2(1) _ r2(2) assms(9-13)] assms(16) by auto
  then obtain w4 where w4: "read_count bd ?at w3 = ret (of_nat n, w4)" "took w3 r w4"
    using read_count_line [OF _ at(1), of w3 n d s r] assms(7,8) by (auto simp: took_def)
  have "asked w (sisi_cmd @ cmd) m' r w4"
    using asked_more [OF w1(2) said_asked [OF w2(2) q1(4) took_trans [OF w3(2) w4(2)]]] .
  then show ?thesis
    using w1(1) w2(1) w3(1) w4(1) by blast
qed

text \<open>The transferred bytes are stored behind those of the rounds before.\<close>

lemma store_chunk:
  assumes "ok w" and "at_io at = io" and "rest w = chunk @ r" and "length chunk < 65536" and "i + length chunk \<le> length data"
  shows "\<exists>w'. (if (of_nat (length chunk) :: u16) \<noteq> 0 then
      bnd (at_read bd at (drop i data) (of_nat (length chunk)) w) (\<lambda>(n, d, w). ret (take i data @ d, w))
    else ret (data, w)) = ret (take i data @ chunk @ drop (i + length chunk) data, w') \<and> took w r w'"
proof -
  have len: "unat (of_nat (length chunk) :: u16) = length chunk"
    using assms(4) by (simp add: unsigned_of_nat take_bit_nat_eq_self)
  show ?thesis
  proof (cases "chunk = []")
    case True
    then show ?thesis
      using assms(1,3) took_same [OF assms(1)] by auto
  next
    case False
    then have "(of_nat (length chunk) :: u16) \<noteq> 0"
      using len by (metis length_0_conv unat_0)
    moreover have "length chunk \<le> length (drop i data)"
      using assms(5) by simp
    ultimately show ?thesis
      using at_read_all [OF assms(1,2), of "of_nat (length chunk)" "drop i data"] assms(3) len by (auto simp: ac_simps)
  qed
qed

text \<open>One round of \<open>modem_read_socket\<close>.\<close>

lemma socket_read_round:
  assumes "ok w" and "modem_at io at" and "locked at = 0" and "rest w = []" and "i < len"
    and "react (peer w) sisi_cmd = (m, sisi_reply 4)" and "react m cmd = (m', sisr_reply chunk)" and "cmd = sisr_cmd (unat (packet (len - i)))"
    and "length sisi_cmd + length cmd \<le> cap w" and "length (sisi_reply 4) < 65536" and "length (sisr_reply chunk) < 65536"
    and "unat i + length chunk \<le> length data"
  shows "\<exists>w'. socket_read_loop bd 1 data len i n at w =
      socket_read_loop bd 1 (take (unat i) data @ chunk @ drop (unat i + length chunk) data) len (i + of_nat (length chunk)) (n + int (length chunk)) at w' \<and>
    asked w (sisi_cmd @ cmd) m' [] w'"
proof -
  let ?at = "at\<lparr>locked := 1\<rparr>"
  have reply: "sisr_reply chunk = crlf @ cs ''^SISR: 1,'' @ dec (length chunk) @ 13 # [] @ 10 # chunk @ crlf @ ok_line"
    by (simp add: sisr_reply_def crlf_def)
  obtain w1 w2 w3 w4 where w: "modem_send_query_at_sisi bd at w = ret (True, 4, at, w1)" "modem_send_at_command_no_wait_response bd cmd at w1 = ret (?at, w2)"
    "await_transfer bd 1 MODEM_SISR_1_EVENT ?at w2 = ret (True, ?at, w3)" "read_count bd ?at w3 = ret (of_nat (length chunk), w4)"
    "asked w (sisi_cmd @ cmd) m' (chunk @ crlf @ ok_line) w4"
    using transfer_start [OF assms(1-4,6) _ _ _ texts_hit(8) text_heads(6), of cmd m' "length chunk" 13 "[]" "chunk @ crlf @ ok_line"]
      assms(7,9-11) reply comma_text(2) event_facts by auto
  have l: "length chunk < 65536" "at_io ?at = io" "ok w4" "rest w4 = chunk @ crlf @ ok_line"
    using assms(11) modem_at_ok(1) [OF assms(2)] w(5) by (auto simp: sisr_reply_def asked_def)
  obtain w5 where w5: "(if (of_nat (length chunk) :: u16) \<noteq> 0 then
      bnd (at_read bd ?at (drop (unat i) data) (of_nat (length chunk)) w4) (\<lambda>(n, d, w). ret (take (unat i) data @ d, w))
    else ret (data, w4)) = ret (take (unat i) data @ chunk @ drop (unat i + length chunk) data, w5)" "took w4 (crlf @ ok_line) w5"
    using store_chunk [OF l(3,2,4,1) assms(12)] by blast
  have l5: "ok w5" "length (rest w5) < 65536" "rest w5 = crlf @ ok_line @ []"
    using w5(2) assms(11) by (auto simp: took_def sisr_reply_def)
  obtain w6 where w6: "at_wait_for_response bd ?at w5 = ret (AT_COMMAND_SUCCESS_EVENT, at, w6)" "took w5 [] w6"
    using wait_ok [OF modem_at_ok(5) [OF assms(2), of 1] l5 blank_crlf(1)] unlocked_again [OF assms(2,3)] by auto
  have "uint (of_nat (length chunk) :: u16) = int (length chunk)"
    using l(1) by (simp add: unsigned_of_nat take_bit_nat_eq_self)
  then have "socket_read_loop bd 1 data len i n at w =
      socket_read_loop bd 1 (take (unat i) data @ chunk @ drop (unat i + length chunk) data) len (i + of_nat (length chunk)) (n + int (length chunk)) at w6"
    using w(1-4) w5(1) w6(1) assms(5,8) event_facts by (simp add: socket_read_loop.simps [of bd 1 data len i n at w] sisr_cmd_def)
  then show ?thesis
    using asked_took [OF asked_took [OF w(5) w5(2)] w6(2)] by blast
qed

text \<open>One round of \<open>modem_write_socket\<close>: the modem accepts \<open>length chunk\<close> bytes of what was offered.\<close>

lemma socket_write_round:
  assumes "ok w" and "modem_at io at" and "locked at = 0" and "rest w = []" and "i < len"
    and "react (peer w) sisi_cmd = (m, sisi_reply 4)" and "react m cmd = (m', sisw_reply (length chunk))" and "cmd = sisw_cmd (unat (packet (len - i)))"
    and "react m' chunk = (m'', crlf @ ok_line)" and "take (length chunk) (drop (unat i) data) = chunk" and "chunk \<noteq> []" and "length chunk < 65536"
    and "length (sisi_cmd @ cmd @ chunk) \<le> cap w" and "length (sisi_reply 4) < 65536" and "length (sisw_reply (length chunk)) < 65536"
    and "length (crlf @ ok_line) < 65536"
  shows "\<exists>w'. socket_write_loop bd 1 data len i n at w = socket_write_loop bd 1 data len (i + of_nat (length chunk)) (n + int (length chunk)) at w' \<and>
    asked w (sisi_cmd @ cmd @ chunk) m'' [] w'"
proof -
  let ?at = "at\<lparr>locked := 1\<rparr>" and ?k = "of_nat (length chunk) :: u16"
  have k: "unat ?k = length chunk" "?k \<noteq> 0" "uint ?k = int (length chunk)"
    using assms(11,12) by (auto simp: unsigned_of_nat take_bit_nat_eq_self unat_eq_0 [symmetric])
  have reply: "sisw_reply (length chunk) = crlf @ cs ''^SISW: 1,'' @ dec (length chunk) @ 44 # [48, 13] @ 10 # []"
    by (simp add: sisw_reply_def crlf_def comma_text)
  obtain w1 w2 w3 w4 where w: "modem_send_query_at_sisi bd at w = ret (True, 4, at, w1)" "modem_send_at_command_no_wait_response bd cmd at w1 = ret (?at, w2)"
    "await_transfer bd 1 MODEM_SISW_1_EVENT ?at w2 = ret (True, ?at, w3)" "read_count bd ?at w3 = ret (?k, w4)" "asked w (sisi_cmd @ cmd) m' [] w4"
    using transfer_start [OF assms(1-4,6) _ _ _ texts_hit(9) text_heads(7), of cmd m' "length chunk" 44 "[48, 13]" "[]"]
      assms(7,13-15) reply comma_text(1) event_facts by auto
  have l: "at_io ?at = io" "ok w4" "rest w4 = []" "peer w4 = m'" "length chunk \<le> cap w4" "length chunk \<le> length (drop (unat i) data)"
    using modem_at_ok(1) [OF assms(2)] w(5) assms(10,13) by (auto simp: asked_def dest: arg_cong [of _ _ length])
  obtain w5 where w5: "at_write bd ?at (drop (unat i) data) ?k w4 = ret (?k, w5)" "said w4 chunk w5"
    using at_write_all [OF l(2,1), of ?k "drop (unat i) data"] k l(5,6) assms(10) by auto
  have l5: "ok w5" "length (rest w5) < 65536" "rest w5 = crlf @ ok_line @ []"
    using w5(2) l(3,4) assms(9,16) by (auto simp: said_def)
  obtain w6 where w6: "at_wait_for_response bd ?at w5 = ret (AT_COMMAND_SUCCESS_EVENT, at, w6)" "took w5 [] w6"
    using wait_ok [OF modem_at_ok(5) [OF assms(2), of 1] l5 blank_crlf(1)] unlocked_again [OF assms(2,3)] by auto
  have "asked w4 chunk m'' [] w6"
    using said_asked [OF w5(2) _ w6(2)] assms(9) l(4) by blast
  moreover have "socket_write_loop bd 1 data len i n at w = socket_write_loop bd 1 data len (i + ?k) (n + int (length chunk)) at w6"
    using w(1-4) w5(1) w6(1) assms(5,8) k event_facts by (simp add: socket_write_loop.simps [of bd 1 data len i n at w] sisw_cmd_def)
  ultimately show ?thesis
    using asked_more [OF w(5)] by auto
qed

end

section \<open>Properties of the serial line with a scripted modem\<close>

lemma follow_all:
  "ts \<noteq> [] \<Longrightarrow> [] \<notin> set ts \<Longrightarrow> heard @ concat ts = txt \<Longrightarrow> reacts follow (heard, (txt, reply) # script) ts = (([], script), reply)"
proof (induction ts arbitrary: heard)
  case (Cons t ts)
  show ?case
  proof (cases "ts = []")
    case False
    then have "concat ts \<noteq> []"
      using Cons.prems(2) by (cases ts) auto
    then have "heard @ t \<noteq> txt"
      using Cons.prems(3) by auto
    then show ?thesis
      using Cons.IH [of "heard @ t"] Cons.prems(2,3) False by simp
  qed (use Cons.prems(3) in simp)
qed simp

lemma reply_short:
  assumes "line_ok ln" and "line_peer ln = (h, script)" and "(txt, reply) \<in> set script"
  shows "length reply < 65536"
proof -
  have "length reply \<le> length (concat (map snd script))"
    using assms(3) by (induction script) auto
  then have "length reply \<le> unat (rb_size (us_rx (ln_port ln))) - 1"
    using assms(1,2) by (simp add: line_ok_def ring_room_def)
  then show ?thesis
    using u16_lt [of "rb_size (us_rx (ln_port ln))"] by linarith
qed

definition apdu_command :: "u8 list \<Rightarrow> u8 list" where
  "apdu_command apdu = concat (apdu_texts apdu)"

text \<open>The command is sent completely and the answer of the modem is ahead.\<close>

lemma apdu_answered:
  assumes "line_ok ln" and "line_rest ln = []" and "modem_at 1 at" and "locked at = 0" and "apdu_len \<le> 256" and "unat apdu_len \<le> length m"
    and "line_peer ln = ([], (apdu_command (take (unat apdu_len) m), reply) # script)" and "length (apdu_command (take (unat apdu_len) m)) \<le> line_cap ln"
  shows "\<exists>ln'. modem_send_apdu line_board m apdu_len response at ln = csim_loop line_board response 0 0 (at\<lparr>locked := 1\<rparr>) ln' \<and>
    port1.asked ln (apdu_command (take (unat apdu_len) m)) ([], script) reply ln' \<and> length (line_rest ln') < 65536"
proof -
  let ?ts = "apdu_texts (take (unat apdu_len) m)"
  have ts: "?ts \<noteq> []" "[] \<notin> set ?ts"
    by (auto simp: apdu_texts_def hex2_def)
  obtain ln' where ln': "modem_send_apdu line_board m apdu_len response at ln = csim_loop line_board response 0 0 (at\<lparr>locked := 1\<rparr>) ln'" "port1.spoke ln ?ts ln'"
    using port1.send_apdu_spoken [OF assms(1,3,4) port1.quiet_law [OF assms(2)] assms(5,6)] assms(8) by (auto simp: apdu_command_def)
  have "reacts follow (line_peer ln) ?ts = (([], script), reply)"
    using follow_all [OF ts, of "[]" "apdu_command (take (unat apdu_len) m)" reply script] assms(7) by (simp add: apdu_command_def)
  then have "port1.asked ln (apdu_command (take (unat apdu_len) m)) ([], script) reply ln'"
    using ln'(2) assms(2) by (simp add: port1.spoke_def port1.asked_def apdu_command_def)
  moreover have "length reply < 65536"
    using reply_short [OF assms(1,7), of _ reply] by auto
  ultimately show ?thesis
    using ln'(1) by (auto simp: port1.asked_def)
qed

text \<open>One APDU and its response; what is left of the room for sending is part of the result.\<close>

lemma apdu_round:
  assumes "line_ok ln" and "line_rest ln = []" and "modem_at 1 at" and "locked at = 0" and "apdu_len \<le> 256" and "unat apdu_len \<le> length m"
    and "line_peer ln = ([], (apdu_command (take (unat apdu_len) m), bl @ csim_line n resp @ bl' @ ok_line) # script)"
    and "length (apdu_command (take (unat apdu_len) m)) \<le> line_cap ln"
    and "resp \<noteq> []" and "\<forall>b \<in> set bl. blank b" and "\<forall>b \<in> set bl'. blank b"
  shows "if length resp \<le> length response
    then \<exists>ln'. modem_send_apdu line_board m apdu_len response at ln = ret (True, resp @ drop (length resp) response, of_nat (length resp), at, ln') \<and>
      line_ok ln' \<and> line_rest ln' = [] \<and> line_peer ln' = ([], script) \<and> line_sent ln' = line_sent ln @ apdu_command (take (unat apdu_len) m) \<and>
      line_cap ln \<le> line_cap ln' + length (apdu_command (take (unat apdu_len) m))
    else modem_send_apdu line_board m apdu_len response at ln = Some Fault"
proof -
  obtain ln' where ln': "modem_send_apdu line_board m apdu_len response at ln = csim_loop line_board response 0 0 (at\<lparr>locked := 1\<rparr>) ln'"
    "port1.asked ln (apdu_command (take (unat apdu_len) m)) ([], script) (bl @ csim_line n resp @ bl' @ ok_line) ln'" "length (line_rest ln') < 65536"
    using apdu_answered [OF assms(1-8)] by blast
  then have "line_ok ln'" "line_rest ln' = bl @ csim_line n resp @ bl' @ ok_line @ []"
    by (simp_all add: port1.asked_def)
  then show ?thesis
    using port1.csim_exchange [OF modem_at_ok(5) [OF assms(3), of 1] _ ln'(3) assms(9) _ assms(10,11), of n "[]" response] ln'(1)
      unlocked_again [OF assms(3,4)] port1.asked_took [OF ln'(2)] by (auto simp: port1.asked_def)
qed

text \<open>
  C7: an APDU goes to the SIM and its response comes back.  With the line idle, \<open>modem_send_apdu\<close> sends
  exactly \<open>AT+CSIM=<2n>,"<hex digits>"\<close> for the first \<open>apdu_len\<close> bytes of the caller.  When the modem
  answers with \<open>+CSIM: <n>,"<hex digits>"\<close> and \<open>OK\<close>, after any blanks and spread over interrupts in any
  way, the function returns true with the decoded bytes at the start of the response buffer and their
  number, the parser is unlocked again and nothing is left unread.  The length of the answer is not
  compared with the buffer: a longer response is written beyond its end.
\<close>

theorem apdu_exchanged:
  assumes "line_ok ln" and "line_rest ln = []" and "modem_at 1 at" and "locked at = 0" and "apdu_len \<le> 256" and "unat apdu_len \<le> length m"
    and "line_peer ln = ([], (apdu_command (take (unat apdu_len) m), bl @ csim_line n resp @ bl' @ ok_line) # script)"
    and "length (apdu_command (take (unat apdu_len) m)) \<le> line_cap ln"
    and "resp \<noteq> []" and "\<forall>b \<in> set bl. blank b" and "\<forall>b \<in> set bl'. blank b"
  shows "if length resp \<le> length response
    then \<exists>ln'. modem_send_apdu line_board m apdu_len response at ln = ret (True, resp @ drop (length resp) response, of_nat (length resp), at, ln') \<and>
      line_ok ln' \<and> line_rest ln' = [] \<and> line_peer ln' = ([], script) \<and> line_sent ln' = line_sent ln @ apdu_command (take (unat apdu_len) m)
    else modem_send_apdu line_board m apdu_len response at ln = Some Fault"
  using apdu_round [OF assms, of response] by auto

text \<open>
  C40: a refused APDU is reported as sent.  When the modem answers \<open>ERROR\<close> or \<open>+CME ERROR:\<close>, the function
  still returns true, with an empty response: the result is computed as \<open>evt ? true : false\<close> and no event
  is zero.
\<close>

theorem apdu_refusal_reported_as_success:
  assumes "line_ok ln" and "line_rest ln = []" and "modem_at 1 at" and "locked at = 0" and "apdu_len \<le> 256" and "unat apdu_len \<le> length m"
    and "line_peer ln = ([], (apdu_command (take (unat apdu_len) m), bl @ p @ r) # script)"
    and "length (apdu_command (take (unat apdu_len) m)) \<le> line_cap ln" and "\<forall>b \<in> set bl. blank b" and "p = cs ''ERROR'' @ crlf \<or> p = cs ''+CME ERROR:''"
  shows "\<exists>ln'. modem_send_apdu line_board m apdu_len response at ln = ret (True, response, 0, at, ln') \<and> line_rest ln' = r"
proof -
  obtain ln' where ln': "modem_send_apdu line_board m apdu_len response at ln = csim_loop line_board response 0 0 (at\<lparr>locked := 1\<rparr>) ln'"
    "line_ok ln'" "line_rest ln' = bl @ p @ r" "length (line_rest ln') < 65536"
    using apdu_answered [OF assms(1-8), of response] by (auto simp: port1.asked_def)
  then show ?thesis
    using port1.csim_failure [OF modem_at_ok(5) [OF assms(3), of 1] ln'(2,4,3) assms(9,10), of response] unlocked_again [OF assms(3,4)]
    by (auto simp: port1.took_def)
qed

text \<open>The dialogue of a transfer: for every piece of the data the state is queried and the piece transferred.\<close>

fun read_script :: "nat \<Rightarrow> u8 list list \<Rightarrow> (u8 list \<times> u8 list) list" where
  "read_script n [] = []"
| "read_script n (chunk # chunks) =
     (sisi_cmd, sisi_reply 4) # (sisr_cmd (min 1500 n), sisr_reply chunk) # read_script (n - length chunk) chunks"

fun write_script :: "nat \<Rightarrow> u8 list list \<Rightarrow> (u8 list \<times> u8 list) list" where
  "write_script n [] = []"
| "write_script n (chunk # chunks) =
     (sisi_cmd, sisi_reply 4) # (sisw_cmd (min 1500 n), sisw_reply (length chunk)) # (chunk, crlf @ ok_line) # write_script (n - length chunk) chunks"

text \<open>The pieces fill exactly \<open>n\<close> bytes.\<close>

fun fills :: "nat \<Rightarrow> u8 list list \<Rightarrow> bool" where
  "fills n [] \<longleftrightarrow> n = 0"
| "fills n (chunk # chunks) \<longleftrightarrow> 0 < n \<and> length chunk \<le> n \<and> fills (n - length chunk) chunks"

lemma packet_min: "i < len \<Longrightarrow> unat (packet (len - i)) = min 1500 (unat len - unat i)"
  by (auto simp: packet_def MODEM_MAX_PACKET_SIZE_def u16_sub word_less_nat_alt)

lemma socket_read_chunks:
  assumes "modem_at 1 at" and "locked at = 0"
  shows "line_ok ln \<Longrightarrow> line_rest ln = [] \<Longrightarrow> line_peer ln = ([], read_script (unat len - unat i) chunks @ script) \<Longrightarrow>
    fills (unat len - unat i) chunks \<Longrightarrow> i \<le> len \<Longrightarrow> length (concat (map fst (read_script (unat len - unat i) chunks))) \<le> line_cap ln \<Longrightarrow>
    unat len \<le> length data \<Longrightarrow>
    \<exists>ln'. socket_read_loop line_board 1 data len i n at ln =
      ret (n + int (unat len - unat i), take (unat i) data @ concat chunks @ drop (unat len) data, at, ln') \<and>
      port1.asked ln (concat (map fst (read_script (unat len - unat i) chunks))) ([], script) [] ln'"
proof (induction chunks arbitrary: ln i n data)
  case Nil
  then have "i = len"
    by (simp add: word_le_nat_alt word_unat_eq_iff)
  then show ?case
    using Nil.prems(1-3) by (auto simp: socket_read_loop.simps port1.asked_def)
next
  case (Cons chunk chunks)
  let ?k = "unat len - unat i" and ?d = "take (unat i) data @ chunk @ drop (unat i + length chunk) data" and ?i = "i + of_nat (length chunk)"
  have i: "i < len" "length chunk \<le> ?k" "fills (?k - length chunk) chunks"
    using Cons.prems(4) by (auto simp: word_less_nat_alt)
  have j: "unat ?i = unat i + length chunk" "unat len - unat ?i = ?k - length chunk" "?i \<le> len"
    using u16_forward [OF i(1), of "length chunk"] u16_sub [OF i(1)] i(1,2) by (auto simp: word_le_nat_alt word_less_nat_alt)
  have cmd: "sisr_cmd (min 1500 ?k) = sisr_cmd (unat (packet (len - i)))"
    using packet_min [OF i(1)] by simp
  have short: "length (sisi_reply 4) < 65536" "length (sisr_reply chunk) < 65536"
    using reply_short [OF Cons.prems(1,3), of sisi_cmd "sisi_reply 4"] reply_short [OF Cons.prems(1,3), of "sisr_cmd (min 1500 ?k)" "sisr_reply chunk"] by auto
  let ?more = "read_script (?k - length chunk) chunks @ script"
  have f: "follow (line_peer ln) sisi_cmd = (([], (sisr_cmd (min 1500 ?k), sisr_reply chunk) # ?more), sisi_reply 4)"
    "follow ([], (sisr_cmd (min 1500 ?k), sisr_reply chunk) # ?more) (sisr_cmd (min 1500 ?k)) = (([], ?more), sisr_reply chunk)"
    using Cons.prems(3) by simp_all
  have inside: "unat i + length chunk \<le> length data"
    using i(1,2) Cons.prems(7) by (simp add: word_less_nat_alt)
  obtain l1 where l1: "socket_read_loop line_board 1 data len i n at ln = socket_read_loop line_board 1 ?d len ?i (n + int (length chunk)) at l1"
    "port1.asked ln (sisi_cmd @ sisr_cmd (min 1500 ?k)) ([], read_script (?k - length chunk) chunks @ script) [] l1"
    using port1.socket_read_round [OF Cons.prems(1) assms Cons.prems(2) i(1) f cmd _ short inside, of n] Cons.prems(6) by auto
  have "length ?d = length data"
    using inside by simp
  then obtain l2 where l2: "socket_read_loop line_board 1 ?d len ?i (n + int (length chunk)) at l1 =
      ret (n + int (length chunk) + int (unat len - unat ?i), take (unat ?i) ?d @ concat chunks @ drop (unat len) ?d, at, l2)"
    "port1.asked l1 (concat (map fst (read_script (?k - length chunk) chunks))) ([], script) [] l2"
    using Cons.IH [of l1 ?i ?d "n + int (length chunk)"] l1(2) i(3) j Cons.prems(6,7) by (auto simp: port1.asked_def)
  have "take (unat ?i) ?d @ concat chunks @ drop (unat len) ?d = take (unat i) data @ concat (chunk # chunks) @ drop (unat len) data"
    using j(1) i(1,2) inside Cons.prems(7) by (simp add: word_less_nat_alt)
  moreover have "n + int (length chunk) + int (unat len - unat ?i) = n + int ?k"
    using j(2) i(2) by simp
  ultimately show ?case
    using l1 l2 port1.asked_more [OF l1(2) l2(2)] by auto
qed

lemma socket_write_chunks:
  assumes "modem_at 1 at" and "locked at = 0"
  shows "line_ok ln \<Longrightarrow> line_rest ln = [] \<Longrightarrow> line_peer ln = ([], write_script (unat len - unat i) chunks @ script) \<Longrightarrow>
    fills (unat len - unat i) chunks \<Longrightarrow> [] \<notin> set chunks \<Longrightarrow> concat chunks = take (unat len - unat i) (drop (unat i) data) \<Longrightarrow> i \<le> len \<Longrightarrow>
    length (concat (map fst (write_script (unat len - unat i) chunks))) \<le> line_cap ln \<Longrightarrow>
    \<exists>ln'. socket_write_loop line_board 1 data len i n at ln = ret (n + int (unat len - unat i), at, ln') \<and>
      port1.asked ln (concat (map fst (write_script (unat len - unat i) chunks))) ([], script) [] ln'"
proof (induction chunks arbitrary: ln i n)
  case Nil
  then have "i = len"
    by (simp add: word_le_nat_alt word_unat_eq_iff)
  then show ?case
    using Nil.prems(1-3) by (auto simp: socket_write_loop.simps port1.asked_def)
next
  case (Cons chunk chunks)
  let ?k = "unat len - unat i" and ?i = "i + of_nat (length chunk)"
  have i: "i < len" "length chunk \<le> ?k" "fills (?k - length chunk) chunks" "chunk \<noteq> []" "[] \<notin> set chunks"
    using Cons.prems(4,5) by (auto simp: word_less_nat_alt)
  have j: "unat ?i = unat i + length chunk" "unat len - unat ?i = ?k - length chunk" "?i \<le> len"
    using u16_forward [OF i(1), of "length chunk"] u16_sub [OF i(1)] i(1,2) by (auto simp: word_le_nat_alt word_less_nat_alt)
  have all: "take ?k (drop (unat i) data) = chunk @ concat chunks"
    using Cons.prems(6) by simp
  have "take (length chunk) (take ?k (drop (unat i) data)) = chunk" "drop (length chunk) (take ?k (drop (unat i) data)) = concat chunks"
    unfolding all by simp_all
  then have chunk: "take (length chunk) (drop (unat i) data) = chunk" "concat chunks = take (?k - length chunk) (drop (unat ?i) data)"
    using i(2) j(1) by (simp_all add: min_absorb1 drop_take ac_simps)
  have cmd: "sisw_cmd (min 1500 ?k) = sisw_cmd (unat (packet (len - i)))"
    using packet_min [OF i(1)] by simp
  have lt: "length chunk < 65536"
    using i(2) u16_lt [of len] by linarith
  have short: "length (sisi_reply 4) < 65536" "length (sisw_reply (length chunk)) < 65536" "length (crlf @ ok_line) < 65536"
    using reply_short [OF Cons.prems(1,3), of sisi_cmd "sisi_reply 4"] reply_short [OF Cons.prems(1,3), of "sisw_cmd (min 1500 ?k)" "sisw_reply (length chunk)"]
      reply_short [OF Cons.prems(1,3), of chunk "crlf @ ok_line"] by auto
  let ?more = "write_script (?k - length chunk) chunks @ script"
  have f: "follow (line_peer ln) sisi_cmd =
      (([], (sisw_cmd (min 1500 ?k), sisw_reply (length chunk)) # (chunk, crlf @ ok_line) # ?more), sisi_reply 4)"
    "follow ([], (sisw_cmd (min 1500 ?k), sisw_reply (length chunk)) # (chunk, crlf @ ok_line) # ?more) (sisw_cmd (min 1500 ?k)) =
      (([], (chunk, crlf @ ok_line) # ?more), sisw_reply (length chunk))"
    "follow ([], (chunk, crlf @ ok_line) # ?more) chunk = (([], ?more), crlf @ ok_line)"
    using Cons.prems(3) by simp_all
  obtain l1 where l1: "socket_write_loop line_board 1 data len i n at ln = socket_write_loop line_board 1 data len ?i (n + int (length chunk)) at l1"
    "port1.asked ln (sisi_cmd @ sisw_cmd (min 1500 ?k) @ chunk) ([], write_script (?k - length chunk) chunks @ script) [] l1"
    using port1.socket_write_round [OF Cons.prems(1) assms Cons.prems(2) i(1) f(1,2) cmd f(3) chunk(1) i(4) lt _ short, of n] Cons.prems(8) by auto
  obtain l2 where l2: "socket_write_loop line_board 1 data len ?i (n + int (length chunk)) at l1 = ret (n + int (length chunk) + int (unat len - unat ?i), at, l2)"
    "port1.asked l1 (concat (map fst (write_script (?k - length chunk) chunks))) ([], script) [] l2"
    using Cons.IH [of l1 ?i "n + int (length chunk)"] l1(2) i(3,5) j chunk(2) Cons.prems(8) by (auto simp: port1.asked_def)
  have "n + int (length chunk) + int (unat len - unat ?i) = n + int ?k"
    using j(2) i(2) by simp
  then show ?case
    using l1 l2 port1.asked_more [OF l1(2) l2(2)] by auto
qed

text \<open>
  C27: reading and writing the socket transfer the data.  Let the line be idle and the modem report the
  connection as up.  When the modem hands out the \<open>len\<close> bytes in any pieces, also empty ones,
  \<open>modem_read_socket\<close> stores them one behind the other at the start of the buffer and returns \<open>len\<close>, having
  asked each time for what is missing but at most 1500 bytes.  When it accepts the data of the caller
  in any non-empty pieces, \<open>modem_write_socket\<close> sends exactly these pieces and returns \<open>len\<close>.  Either leaves
  the parser unlocked and nothing unread.
\<close>

theorem socket_transfer:
  assumes "line_ok ln" and "line_rest ln = []" and "modem_at 1 at" and "locked at = 0" and "fills (unat len) chunks" and "unat len \<le> length data"
    and "dialogue = (if send then write_script (unat len) chunks else read_script (unat len) chunks)"
    and "line_peer ln = ([], dialogue @ script)" and "length (concat (map fst dialogue)) \<le> line_cap ln"
    and "if send then [] \<notin> set chunks \<and> concat chunks = take (unat len) data else True"
  shows "\<exists>ln'. (if send then modem_write_socket line_board 1 data len at ln = ret (int (unat len), at, ln')
      else modem_read_socket line_board 1 data len at ln = ret (int (unat len), concat chunks @ drop (unat len) data, at, ln')) \<and>
    line_ok ln' \<and> line_rest ln' = [] \<and> line_peer ln' = ([], script) \<and> line_sent ln' = line_sent ln @ concat (map fst dialogue)"
proof (cases send)
  case True
  then show ?thesis
    using socket_write_chunks [OF assms(3,4,1,2), of len 0 chunks script data 0] assms(5-10) by (auto simp: modem_write_socket_def port1.asked_def)
next
  case False
  then show ?thesis
    using socket_read_chunks [OF assms(3,4,1,2), of len 0 chunks script data 0] assms(5-9) by (auto simp: modem_read_socket_def port1.asked_def)
qed

text \<open>The connection is closed: nothing is transferred.\<close>

lemma sisi_query_line:
  assumes "line_ok ln" and "line_rest ln = []" and "modem_at 1 at" and "locked at = 0" and "line_peer ln = ([], (sisi_cmd, sisi_reply s) # script)"
    and "length sisi_cmd \<le> line_cap ln"
  shows "\<exists>ln'. modem_send_query_at_sisi line_board at ln = ret (True, of_nat s, at, ln') \<and> port1.asked ln sisi_cmd ([], script) [] ln'"
  using port1.sisi_query [OF assms(1,3,4,2,6), of "([], script)" s] reply_short [OF assms(1,5), of sisi_cmd "sisi_reply s"] assms(5) by auto

text \<open>
  A closed connection ends the transfer.  When the modem reports the state 5 or 6, \<open>modem_read_socket\<close>
  leaves the buffer alone and, like \<open>modem_write_socket\<close>, returns -1 after this one query; for another
  handle than 1 \<open>modem_read_socket\<close> returns -1 at once.
\<close>

theorem socket_closed:
  assumes "line_ok ln" and "line_rest ln = []" and "modem_at 1 at" and "locked at = 0" and "s = 5 \<or> s = 6" and "0 < len"
    and "line_peer ln = ([], (sisi_cmd, sisi_reply s) # script)" and "length sisi_cmd \<le> line_cap ln"
  shows "(\<exists>ln'. modem_read_socket line_board 1 data len at ln = ret (-1, data, at, ln') \<and> modem_write_socket line_board handle data len at ln = ret (-1, at, ln') \<and>
      line_sent ln' = line_sent ln @ sisi_cmd) \<and> (handle \<noteq> 1 \<longrightarrow> modem_read_socket line_board handle data len at ln = ret (-1, data, at, ln))"
proof -
  obtain ln' where "modem_send_query_at_sisi line_board at ln = ret (True, of_nat s, at, ln')" "line_sent ln' = line_sent ln @ sisi_cmd"
    using sisi_query_line [OF assms(1-4,7,8)] by (auto simp: port1.asked_def)
  then show ?thesis
    using assms(5,6) by (auto simp: modem_read_socket_def modem_write_socket_def socket_read_loop.simps [of line_board 1 data len 0]
        socket_write_loop.simps [of line_board handle data len 0])
qed

section \<open>Samples\<close>

text \<open>Ports with empty rings of a thousand cells, and a modem with a script.\<close>

definition fresh_ring :: ring where
  "fresh_ring = \<lparr>rb_head = 0, rb_tail = 0, rb_size = 1000, rb_data = Some (replicate 1000 0)\<rparr>"

definition scripted :: "(u8 list \<times> u8 list) list \<Rightarrow> line" where
  "scripted script = \<lparr>ln_ports = replicate 4 \<lparr>CR1_UE = True, CR1_TXEIE = False, BRR = 8, baudrate = 115200, us_rx = fresh_ring, us_tx = fresh_ring\<rparr>,
     ln_irqs = [], ln_wire = [], ln_heard = [], ln_script = map (\<lambda>(t, r). (t, [receiving r])) script\<rparr>"

lemma scripted_ok:
  assumes "length (concat (map snd script)) \<le> 999"
  shows "line_ok (scripted script)" and "line_rest (scripted script) = []" and "line_peer (scripted script) = ([], script)" and "line_cap (scripted script) = 999"
proof -
  have r: "ring_ok fresh_ring" "ring_content fresh_ring = []" "ring_room fresh_ring = 999"
    by (simp_all add: ring_ok_def ring_content_def ring_room_def fresh_ring_def cells_def gap_def)
  have a: "arrivals (receiving bs) = bs" for bs
    by (induction bs) (simp_all add: arrivals_def receiving_def)
  show peer: "line_peer (scripted script) = ([], script)"
    by (simp add: line_peer_def scripted_def a comp_def case_prod_unfold)
  have p: "us_rx (ln_port (scripted script)) = fresh_ring" "us_tx (ln_port (scripted script)) = fresh_ring" "port_ok (ln_port (scripted script))"
    "port_ok (ln_ports (scripted script) ! 3)" "length (ln_ports (scripted script)) = 4" "ln_irqs (scripted script) = []"
    using r(1) by (simp_all add: ln_port_def scripted_def port_ok_def)
  then show rest: "line_rest (scripted script) = []" and "line_cap (scripted script) = 999"
    using r by (simp_all add: line_rest_def line_cap_def arrivals_def)
  then show "line_ok (scripted script)"
    using p r(3) peer assms by (simp add: line_ok_def)
qed

definition select_apdu :: "u8 list" where "select_apdu = [0, 0xA4, 4, 0]"

definition select_script :: "(u8 list \<times> u8 list) list" where
  "select_script = [(apdu_command select_apdu, crlf @ csim_line 4 [0x90, 0] @ crlf @ ok_line)]"

lemma select_script_short: "length (concat (map snd select_script)) \<le> 999" "length (apdu_command select_apdu) \<le> 999"
  by code_simp+

theorem apdu_exchanged_witness:
  "(\<exists>ln'. modem_send_apdu line_board select_apdu 4 [0, 0, 0] idle_at (scripted select_script) = ret (True, [0x90, 0, 0], 2, idle_at, ln')) \<and>
   modem_send_apdu line_board select_apdu 4 [0] idle_at (scripted select_script) = Some Fault"
proof -
  note s = scripted_ok [OF select_script_short(1)]
  have t: "take (unat (4 :: u16)) select_apdu = select_apdu" "unat (4 :: u16) \<le> length select_apdu"
    by (simp_all add: select_apdu_def)
  have p: "line_peer (scripted select_script) = ([], (apdu_command (take (unat (4 :: u16)) select_apdu), crlf @ csim_line 4 [0x90, 0] @ crlf @ ok_line) # [])"
    "length (apdu_command (take (unat (4 :: u16)) select_apdu)) \<le> line_cap (scripted select_script)"
    unfolding t(1) using s(3,4) select_script_short(2) by (simp_all add: select_script_def)
  note x = apdu_exchanged [OF s(1,2) idle_at_ok _ t(2) p _ blank_crlf(1) blank_crlf(1)]
  have "\<exists>ln'. modem_send_apdu line_board select_apdu 4 [0, 0, 0] idle_at (scripted select_script) = ret (True, [0x90, 0, 0], 2, idle_at, ln')"
    using x [of "[0, 0, 0]"] by auto
  moreover have "modem_send_apdu line_board select_apdu 4 [0] idle_at (scripted select_script) = Some Fault"
    using x [of "[0]"] by auto
  ultimately show ?thesis ..
qed

definition refuse_script :: "(u8 list \<times> u8 list) list" where
  "refuse_script = [(apdu_command select_apdu, crlf @ (cs ''ERROR'' @ crlf) @ [])]"

lemma refuse_script_short: "length (concat (map snd refuse_script)) \<le> 999"
  by code_simp

theorem apdu_refusal_reported_as_success_witness:
  "\<exists>ln'. modem_send_apdu line_board select_apdu 4 [7, 7] idle_at (scripted refuse_script) = ret (True, [7, 7], 0, idle_at, ln')"
proof -
  note s = scripted_ok [OF refuse_script_short]
  have t: "take (unat (4 :: u16)) select_apdu = select_apdu" "unat (4 :: u16) \<le> length select_apdu"
    by (simp_all add: select_apdu_def)
  have p: "line_peer (scripted refuse_script) = ([], (apdu_command (take (unat (4 :: u16)) select_apdu), crlf @ (cs ''ERROR'' @ crlf) @ []) # [])"
    "length (apdu_command (take (unat (4 :: u16)) select_apdu)) \<le> line_cap (scripted refuse_script)"
    unfolding t(1) using s(3,4) select_script_short(2) by (simp_all add: refuse_script_def)
  show ?thesis
    using apdu_refusal_reported_as_success [OF s(1,2) idle_at_ok _ t(2) p blank_crlf(1), of "[7, 7]"] by auto
qed

definition hello_chunks :: "u8 list list" where "hello_chunks = [[72, 101], [], [108, 108, 111]]"

lemma hello_short: "length (concat (map snd (read_script 5 hello_chunks))) \<le> 999" "length (concat (map fst (read_script 5 hello_chunks))) \<le> 999"
  by code_simp+

theorem socket_transfer_witness:
  "\<exists>ln'. modem_read_socket line_board 1 [0, 0, 0, 0, 0, 0] 5 idle_at (scripted (read_script 5 hello_chunks)) = ret (5, [72, 101, 108, 108, 111, 0], idle_at, ln')"
proof -
  note s = scripted_ok [OF hello_short(1)]
  have "fills (unat (5 :: u16)) hello_chunks"
    by (simp add: hello_chunks_def)
  then show ?thesis
    using socket_transfer [OF s(1,2) idle_at_ok, of 5 hello_chunks "[0, 0, 0, 0, 0, 0]" "read_script 5 hello_chunks" False "[]"] s(3,4) hello_short(2)
    by (auto simp: hello_chunks_def)
qed

lemma closed_short: "length (concat (map snd [(sisi_cmd, sisi_reply 6)])) \<le> 999" "length sisi_cmd \<le> 999"
  by code_simp+

theorem socket_closed_witness:
  "\<exists>ln'. modem_read_socket line_board 1 [9] 1 idle_at (scripted [(sisi_cmd, sisi_reply 6)]) = ret (-1, [9], idle_at, ln')"
proof -
  note s = scripted_ok [OF closed_short(1)]
  show ?thesis
    using socket_closed [OF s(1,2) idle_at_ok, of 6 1 "[]" "[9]" 1] s(3,4) closed_short(2) by auto
qed

end
