(* ===== verification/Modem_Setup.thy ===== *)
theory Modem_Setup
  imports Modem_Exchange
begin

text \<open>
  Start-up of the modem, registration with the network and opening the socket: the sequences of commands
  of \<open>modem_init\<close>, \<open>modem_bring_up\<close> and \<open>modem_open_tcp_socket\<close> against a scripted modem.
\<close>

section \<open>Commands that are answered with OK\<close>

definition ok_reply :: "u8 list" where
  "ok_reply = crlf @ ok_line"

definition all_ok :: "u8 list list \<Rightarrow> (u8 list \<times> u8 list) list" where
  "all_ok cmds = map (\<lambda>c. (c, ok_reply)) cmds"

lemma ok_reply_short: "length ok_reply < 65536"
  by (simp add: ok_reply_def ok_line_def crlf_def cs_def)

lemma setup_facts:
  "AT_TIMEOUT_EVENT \<noteq> MODEM_CPIN_SIM_PIN_EVENT" "AT_TIMEOUT_EVENT \<noteq> MODEM_CPIN_READY_EVENT" "AT_TIMEOUT_EVENT \<noteq> MODEM_CREG_EVENT"
  "AT_TIMEOUT_EVENT \<noteq> MODEM_SYSSTART_EVENT" "MODEM_CPIN_READY_EVENT \<noteq> MODEM_CPIN_SIM_PIN_EVENT" "\<not> is_response MODEM_CPIN_READY_EVENT"
  "\<not> is_response MODEM_CPIN_SIM_PIN_EVENT" "\<not> is_response MODEM_CREG_EVENT" "\<not> is_response MODEM_SYSSTART_EVENT" "AT_COMMAND_SUCCESS_EVENT \<noteq> MODEM_CREG_EVENT"
  "\<not> blank (hd (cs ''^SYSSTART'' @ crlf))" "\<not> blank (hd (cs ''+CPIN: READY'' @ crlf))" "\<not> blank (hd (cs ''+CPIN: SIM PIN'' @ crlf))" "\<not> blank (hd (cs ''+CREG:''))"
  by code_simp+

context serial_line
begin

lemma command_ok:
  assumes "ok w" and "modem_at io at" and "locked at = 0" and "rest w = []" and "length cmd \<le> cap w" and "react (peer w) cmd = (m, ok_reply)"
  shows "\<exists>w'. modem_send_at_command bd cmd at w = ret (at, w') \<and> asked w cmd m [] w'"
proof -
  obtain v where v: "modem_send_at_command_no_wait_response bd cmd at w = ret (at\<lparr>locked := 1\<rparr>, v)" "said w cmd v"
    using send_no_wait [OF assms(1-3) quiet_law [OF assms(4)] assms(5)] by blast
  then have r: "ok v" "length (rest v) < 65536" "rest v = crlf @ ok_line @ []"
    using assms(4,6) ok_reply_short by (auto simp: said_def ok_reply_def)
  obtain u where "at_wait_for_response bd (at\<lparr>locked := 1\<rparr>) v = ret (AT_COMMAND_SUCCESS_EVENT, at, u)" "took v [] u"
    using wait_ok [OF modem_at_ok(5) [OF assms(2), of 1] r blank_crlf(1)] unlocked_again [OF assms(2,3)] by auto
  then show ?thesis
    using v(1) said_asked [OF v(2) assms(6)] by (auto simp: modem_send_at_command_def)
qed

lemma asked_cap: "asked w txt m r v \<Longrightarrow> length txt + n \<le> cap w \<Longrightarrow> n \<le> cap v"
  by (simp add: asked_def)

text \<open>The query of the PIN, when the SIM needs none and when it needs one.\<close>

lemma cpin_skip: "at_process_recv bd at w = ret (AT_TIMEOUT_EVENT, at, w') \<Longrightarrow> cpin_loop bd at w = cpin_loop bd at w'"
  using setup_facts event_facts by (simp add: cpin_loop.simps [of bd at w])

lemma cpin_ready:
  assumes "modem_at io at" and "ok w" and "length (rest w) < 65536" and "rest w = crlf @ (cs ''+CPIN: READY'' @ crlf) @ ok_reply"
  shows "\<exists>w'. cpin_loop bd at w = ret (at_unlock at, w') \<and> took w [] w'"
proof -
  obtain v u where v: "cpin_loop bd at w = cpin_loop bd at v" "at_process_recv bd at v = ret (MODEM_CPIN_READY_EVENT, at, u)" "took w ok_reply u"
    using next_answer [OF assms(1) texts_hit(5) setup_facts(12) blank_crlf(1) assms(2-4), of "cpin_loop bd at"] cpin_skip setup_facts by auto
  then have r: "ok u" "length (rest u) < 65536" "rest u = crlf @ ok_line @ []"
    using ok_reply_short by (auto simp: took_def ok_reply_def)
  obtain x where "at_wait_for_response bd at u = ret (AT_COMMAND_SUCCESS_EVENT, at_unlock at, x)" "took u [] x"
    using wait_ok [OF assms(1) r blank_crlf(1)] by blast
  then show ?thesis
    using v setup_facts event_facts took_trans [OF v(3)] by (auto simp: cpin_loop.simps [of bd at v])
qed

lemma cpin_enter:
  assumes "modem_at io at" and "ok w" and "length (rest w) < 65536" and "rest w = crlf @ (cs ''+CPIN: SIM PIN'' @ crlf) @ ok_reply"
    and "cmd = cs ''AT+CPIN='' @ [34] @ cs ''1111'' @ [34] @ crlf" and "length cmd \<le> cap w" and "react (peer w) cmd = (m, ok_reply)"
  shows "\<exists>w'. cpin_loop bd at w = ret (at_unlock at, w') \<and> asked w cmd m [] w'"
proof -
  obtain v u where v: "cpin_loop bd at w = cpin_loop bd at v" "at_process_recv bd at v = ret (MODEM_CPIN_SIM_PIN_EVENT, at, u)" "took w ok_reply u"
    using next_answer [OF assms(1) texts_hit(11) setup_facts(13) blank_crlf(1) assms(2-4), of "cpin_loop bd at"] cpin_skip setup_facts by auto
  then have r: "ok u" "length (rest u) < 65536" "rest u = crlf @ ok_line @ []"
    using ok_reply_short by (auto simp: took_def ok_reply_def)
  obtain x where x: "at_wait_for_response bd at u = ret (AT_COMMAND_SUCCESS_EVENT, at_unlock at, x)" "took w [] x"
    using wait_ok [OF assms(1) r blank_crlf(1)] took_trans [OF v(3)] by blast
  have at: "modem_at io (at_unlock at)" "locked (at_unlock at) = 0"
    using assms(1) by (simp_all add: modem_at_def at_unlock_def)
  obtain y where y: "modem_send_at_command bd cmd (at_unlock at) x = ret (at_unlock at, y)" "asked x cmd m [] y"
    using command_ok [OF _ at, of x cmd m] x(2) assms(6,7) by (auto simp: took_def)
  then have "asked w cmd m [] y"
    using x(2) by (auto simp: asked_def took_def)
  then show ?thesis
    using v(1,2) x(1) y(1) setup_facts event_facts by (auto simp: cpin_loop.simps [of bd at v] assms(5))
qed

end

lemma command_line:
  assumes "line_ok ln" and "line_rest ln = []" and "modem_at 1 at" and "locked at = 0" and "line_peer ln = ([], (cmd, ok_reply) # script)" and "length cmd \<le> line_cap ln"
  shows "\<exists>ln'. modem_send_at_command line_board cmd at ln = ret (at, ln') \<and> port1.asked ln cmd ([], script) [] ln'"
  using port1.command_ok [OF assms(1,3,4,2,6), of "([], script)"] assms(5) by simp

lemma send_all_line:
  assumes "modem_at 1 at" and "locked at = 0"
  shows "line_ok ln \<Longrightarrow> line_rest ln = [] \<Longrightarrow> line_peer ln = ([], all_ok cmds @ script) \<Longrightarrow> length (concat cmds) \<le> line_cap ln \<Longrightarrow>
    \<exists>ln'. send_all line_board cmds at ln = ret (at, ln') \<and> port1.asked ln (concat cmds) ([], script) [] ln'"
proof (induction cmds arbitrary: ln)
  case Nil
  then show ?case
    by (simp add: port1.asked_def all_ok_def)
next
  case (Cons c cmds)
  obtain l1 where l1: "modem_send_at_command line_board c at ln = ret (at, l1)" "port1.asked ln c ([], all_ok cmds @ script) [] l1"
    using command_line [OF Cons.prems(1,2) assms, of c "all_ok cmds @ script"] Cons.prems(3,4) by (auto simp: all_ok_def)
  then have "\<exists>l2. send_all line_board cmds at l1 = ret (at, l2) \<and> port1.asked l1 (concat cmds) ([], script) [] l2"
    using Cons.IH [of l1] Cons.prems(4) port1.asked_cap [OF l1(2), of "length (concat cmds)"] by (auto simp: port1.asked_def)
  then show ?case
    using l1 port1.asked_more [OF l1(2)] by auto
qed

section \<open>Start-up\<close>

definition boot_cmds :: "u8 list list" where
  "boot_cmds = [cs ''AT'' @ crlf, cs ''ATE0'' @ crlf, cs ''AT^SPOW=1,0,0'' @ crlf, cs ''AT+CMEE=2'' @ crlf]"

definition net_cmds :: "u8 list list" where
  "net_cmds =
     [cs ''AT^SCFG='' @ quoted (cs ''Tcp/WithURCs'') @ cs '','' @ quoted (cs ''off'') @ crlf,
      cs ''AT^SICS=1,'' @ quoted (cs ''conType'') @ cs '','' @ quoted (cs ''GPRS0'') @ crlf,
      cs ''AT^SICS=1,'' @ quoted (cs ''alphabet'') @ cs '','' @ quoted (cs ''1'') @ crlf,
      cs ''AT^SICS=1,'' @ quoted (cs ''APN'') @ cs '','' @ quoted (cs ''internet'') @ crlf]"

definition cpin_cmd :: "u8 list" where
  "cpin_cmd = cs ''AT+CPIN?'' @ crlf"

definition pin_cmd :: "u8 list" where
  "pin_cmd = cs ''AT+CPIN='' @ [34] @ cs ''1111'' @ [34] @ crlf"

text \<open>The dialogue about the PIN; \<open>needed\<close> says whether the SIM asks for it.\<close>

definition pin_script :: "bool \<Rightarrow> (u8 list \<times> u8 list) list" where
  "pin_script needed =
     (if needed then [(cpin_cmd, crlf @ (cs ''+CPIN: SIM PIN'' @ crlf) @ ok_reply), (pin_cmd, ok_reply)]
      else [(cpin_cmd, crlf @ (cs ''+CPIN: READY'' @ crlf) @ ok_reply)])"

lemma pin_dialogue:
  assumes "line_ok ln" and "line_rest ln = []" and "modem_at 1 at" and "locked at = 0" and "line_peer ln = ([], pin_script needed @ script)"
    and "length (concat (map fst (pin_script needed))) \<le> line_cap ln"
  shows "\<exists>l1 ln'. modem_send_at_command_no_wait_response line_board cpin_cmd at ln = ret (at\<lparr>locked := 1\<rparr>, l1) \<and>
    cpin_loop line_board (at\<lparr>locked := 1\<rparr>) l1 = ret (at, ln') \<and> port1.asked ln (concat (map fst (pin_script needed))) ([], script) [] ln'"
proof -
  have cap: "length cpin_cmd \<le> line_cap ln"
    using assms(6) by (cases needed) (simp_all add: pin_script_def)
  obtain l1 where l1: "modem_send_at_command_no_wait_response line_board cpin_cmd at ln = ret (at\<lparr>locked := 1\<rparr>, l1)" "port1.said ln cpin_cmd l1"
    using port1.send_no_wait [OF assms(1,3,4) port1.quiet_law [OF assms(2)] cap] by blast
  note at = modem_at_ok(5) [OF assms(3), of 1]
  show ?thesis
  proof (cases needed)
    case True
    let ?r = "crlf @ (cs ''+CPIN: SIM PIN'' @ crlf) @ ok_reply"
    have "line_ok l1" "line_rest l1 = ?r" "line_peer l1 = ([], (pin_cmd, ok_reply) # script)" "length pin_cmd \<le> line_cap l1"
      using l1(2) assms(2,5,6) True by (auto simp: port1.said_def pin_script_def)
    moreover have "length ?r < 65536"
      using reply_short [OF assms(1,5), of cpin_cmd ?r] True by (auto simp: pin_script_def)
    ultimately obtain l2 where "cpin_loop line_board (at\<lparr>locked := 1\<rparr>) l1 = ret (at, l2)" "port1.asked l1 pin_cmd ([], script) [] l2"
      using port1.cpin_enter [OF at, of l1 pin_cmd "([], script)"] unlocked_again [OF assms(3,4)] by (auto simp: pin_cmd_def)
    moreover from this(2) have "port1.asked ln (concat (map fst (pin_script needed))) ([], script) [] l2"
      using l1(2) True by (auto simp: port1.asked_def port1.said_def pin_script_def)
    ultimately show ?thesis
      using l1(1) by blast
  next
    case False
    let ?r = "crlf @ (cs ''+CPIN: READY'' @ crlf) @ ok_reply"
    have r: "line_ok l1" "line_rest l1 = ?r" "follow (line_peer ln) cpin_cmd = (([], script), ?r)"
      using l1(2) assms(2,5) False by (auto simp: port1.said_def pin_script_def)
    moreover have "length ?r < 65536"
      using reply_short [OF assms(1,5), of cpin_cmd ?r] False by (auto simp: pin_script_def)
    ultimately obtain l2 where "cpin_loop line_board (at\<lparr>locked := 1\<rparr>) l1 = ret (at, l2)" "port1.took l1 [] l2"
      using port1.cpin_ready [OF at, of l1] unlocked_again [OF assms(3,4)] by auto
    then show ?thesis
      using l1(1) port1.said_asked [OF l1(2) r(3)] False by (auto simp: pin_script_def)
  qed
qed

lemma wait_start:
  assumes "modem_at 1 at" and "line_ok ln" and "length (line_rest ln) < 65536" and "line_rest ln = bl @ (cs ''^SYSSTART'' @ crlf) @ r" and "\<forall>b \<in> set bl. blank b"
  shows "\<exists>ln'. wait_until line_board (\<lambda>e. e = MODEM_SYSSTART_EVENT) at ln = ret (MODEM_SYSSTART_EVENT, at, ln') \<and> port1.took ln r ln'"
  using port1.wait_next [OF _ modem_at_ok(1-3) [OF assms(1)] assms(2,3), of "\<lambda>e. e = MODEM_SYSSTART_EVENT"]
    next_event_hit [OF assms(1) texts_hit(3) setup_facts(11) assms(5), of r] assms(4) setup_facts by (auto simp: after_entry_answer)

text \<open>
  C28: start-up runs to its end.  After \<open>^SYSSTART\<close> has arrived, \<open>modem_init\<close> sends its commands in the fixed
  order, each once the one before is answered, enters the PIN exactly when the SIM asks for it, and
  returns with the parser initialised and unlocked, nothing unread and \<open>first\<close> cleared, so that
  a second call does nothing.
\<close>

theorem modem_init_completes:
  assumes "line_ok ln" and "line_rest ln = bl @ (cs ''^SYSSTART'' @ crlf)" and "\<forall>b \<in> set bl. blank b" and "first \<noteq> 0" and "cb_fct (async_cb at) = 0"
    and "line_peer ln = ([], all_ok boot_cmds @ pin_script needed @ all_ok net_cmds @ script)" and "length (line_rest ln) < 65536"
    and "length (concat boot_cmds) + (length (concat (map fst (pin_script needed))) + length (concat net_cmds)) \<le> line_cap ln"
  shows "\<exists>at' ln'. modem_init line_board 1 first at ln = ret (0, at', ln') \<and> modem_at 1 at' \<and> locked at' = 0 \<and> line_ok ln' \<and> line_rest ln' = [] \<and>
    line_peer ln' = ([], script) \<and> line_sent ln' = line_sent ln @ concat boot_cmds @ concat (map fst (pin_script needed)) @ concat net_cmds \<and>
    modem_init line_board 1 0 at' ln' = ret (0, at', ln')"
proof -
  let ?at = "at_init 1 m_modem_generic_table (of_nat (length m_modem_generic_table)) at"
  have at: "modem_at 1 ?at" "locked ?at = 0"
    using assms(5) by (simp_all add: modem_at_def at_init_def)
  obtain l0 where l0: "bd_pwm line_board ln = ret l0" "port1.took ln (line_rest ln) l0"
    using arrive_effect [OF assms(1)] by (auto simp: line_board_def port1.took_def)
  then obtain l1 where l1: "wait_until line_board (\<lambda>e. e = MODEM_SYSSTART_EVENT) ?at l0 = ret (MODEM_SYSSTART_EVENT, ?at, l1)" "port1.took ln [] l1"
    using wait_start [OF at(1), of l0 bl "[]"] assms(2,3,7) port1.took_trans [OF l0(2)] by (auto simp: port1.took_def)
  obtain l2 where l2: "send_all line_board boot_cmds ?at l1 = ret (?at, l2)" "port1.asked l1 (concat boot_cmds) ([], pin_script needed @ all_ok net_cmds @ script) [] l2"
    using send_all_line [OF at, of l1 boot_cmds] l1(2) assms(6,8) by (auto simp: port1.took_def)
  have c2: "length (concat (map fst (pin_script needed))) + length (concat net_cmds) \<le> line_cap l2"
    using port1.asked_cap [OF l2(2)] l1(2) assms(8) by (auto simp: port1.took_def)
  obtain l3 l4 where l3: "modem_send_at_command_no_wait_response line_board cpin_cmd ?at l2 = ret (?at\<lparr>locked := 1\<rparr>, l3)"
    "cpin_loop line_board (?at\<lparr>locked := 1\<rparr>) l3 = ret (?at, l4)"
    and l4: "port1.asked l2 (concat (map fst (pin_script needed))) ([], all_ok net_cmds @ script) [] l4"
    using pin_dialogue [OF _ _ at, of l2 needed "all_ok net_cmds @ script"] l2(2) c2 by (auto simp: port1.asked_def)
  obtain l5 where l5: "send_all line_board net_cmds ?at l4 = ret (?at, l5)" "port1.asked l4 (concat net_cmds) ([], script) [] l5"
    using send_all_line [OF at, of l4 net_cmds script] l4 port1.asked_cap [OF l4 c2] by (auto simp: port1.asked_def)
  have "modem_init line_board 1 first at ln = ret (0, ?at, l5)"
    using l0(1) l1(1) l2(1) l3 l5(1) assms(4) by (simp add: modem_init_def boot_cmds_def net_cmds_def cpin_cmd_def Let_def)
  moreover have "line_sent l5 = line_sent ln @ concat boot_cmds @ concat (map fst (pin_script needed)) @ concat net_cmds"
    "line_ok l5" "line_rest l5 = []" "line_peer l5 = ([], script)"
    using l1(2) l2(2) l4 l5(2) by (simp_all add: port1.took_def port1.asked_def)
  ultimately show ?thesis
    using at by (auto simp: modem_init_def)
qed

section \<open>Registration\<close>

definition creg_cmd :: "u8 list" where
  "creg_cmd = cs ''AT+CREG?'' @ crlf"

definition creg_reply :: "nat \<Rightarrow> nat \<Rightarrow> u8 list" where
  "creg_reply n s = crlf @ cs ''+CREG:'' @ [32] @ dec n @ cs '','' @ dec s @ crlf @ ok_reply"

text \<open>The field that is taken for the status, when the variable \<open>c\<close> holds \<open>c\<close> at first.\<close>

definition creg_field :: "u8 \<Rightarrow> nat \<Rightarrow> nat \<Rightarrow> nat" where
  "creg_field c n s = (if dec_digit c then n else s)"

context serial_line
begin

text \<open>One field: what precedes it is skipped, and the digits are read.\<close>

lemma creg_number:
  assumes "c # rest w = skip @ dec n @ d # r" and "\<forall>x \<in> set skip. \<not> dec_digit x" and "10 \<notin> set (tl skip)" and "\<not> dec_digit d" and "d \<noteq> 10"
    and "ok w" and "at_io at = io"
  shows "\<exists>e v w'. scan_while bd at (\<lambda>c. \<not> dec_digit c) c w = ret (Some e, v) \<and> scan_number bd at 0 e v = ret (of_nat n, Some d, w') \<and> took w r w'"
proof -
  obtain e es where e: "dec n = e # es"
    using dec_not_Nil by (cases "dec n") auto
  then have "dec_digit e" "e \<noteq> 10"
    using dec_digit_dec [of n] by (auto simp: dec_digit_def)
  then obtain v where v: "scan_while bd at (\<lambda>c. \<not> dec_digit c) c w = ret (Some e, v)" "took w (es @ d # r) v"
    using scan_while_stop [of c w skip e "es @ d # r" "\<lambda>c. \<not> dec_digit c" at] assms e by auto
  then obtain w' where "scan_number bd at 0 e v = ret (of_nat n, Some d, w')" "took v r w'"
    using scan_number_stop [of e v "dec n" d r at 0] dec_digit_dec [of n] assms(4,5,7) e number_dec [of n, where ?'a = 8] by (auto simp: took_def)
  then show ?thesis
    using v took_trans [OF v(2)] by blast
qed

lemma read_creg_line:
  assumes "ok w" and "at_io at = io" and "rest w = [32] @ dec n @ cs '','' @ dec s @ crlf @ r"
  shows "\<exists>mode w'. read_creg bd at 0 0 c w = ret (mode, of_nat (creg_field c n s), Some 10, w') \<and> took w r w'"
proof -
  have nd: "\<not> dec_digit 32" "\<not> dec_digit 44" "\<not> dec_digit 13" "cs '','' = [44]" "10 \<notin> set (dec s)"
    using dec_digit_dec [of s] by (auto simp: dec_digit_def cs_def)
  show ?thesis
  proof (cases "dec_digit c")
    case True
    obtain v where v: "scan_number bd at 0 c w = ret (number 0 [c], Some 32, v)" "took w (dec n @ 44 # dec s @ crlf @ r) v"
      using scan_number_stop [of c w "[c]" 32 "dec n @ 44 # dec s @ crlf @ r" at 0] assms True nd by auto
    then obtain e u x where e: "scan_while bd at (\<lambda>c. \<not> dec_digit c) 32 v = ret (Some e, u)" "scan_number bd at 0 e u = ret (of_nat n, Some 44, x)"
      and x: "took v (dec s @ crlf @ r) x"
      using creg_number [of 32 v "[32]" n 44 "dec s @ crlf @ r" at] assms(2) nd by (auto simp: took_def)
    obtain y where y: "skip_line bd at 44 x = ret (10, y)" "took x r y"
      using skip_line_end [of 44 x "44 # dec s @ [13]" r at] x assms(2) nd(5) by (auto simp: took_def crlf_def)
    have "scan_while bd at (\<lambda>c. \<not> dec_digit c) c w = ret (Some c, w)"
      using True by (simp add: scan_while.simps)
    then show ?thesis
      using v(1) e y(1) True took_trans [OF v(2) took_trans [OF x y(2)]] by (auto simp: read_creg_def creg_field_def)
  next
    case False
    obtain e u x where e: "scan_while bd at (\<lambda>c. \<not> dec_digit c) c w = ret (Some e, u)" "scan_number bd at 0 e u = ret (of_nat n, Some 44, x)"
      and x: "took w (dec s @ crlf @ r) x"
      using creg_number [of c w "[c, 32]" n 44 "dec s @ crlf @ r" at] assms False nd by auto
    then obtain f v z where f: "scan_while bd at (\<lambda>c. \<not> dec_digit c) 44 x = ret (Some f, v)" "scan_number bd at 0 f v = ret (of_nat s, Some 13, z)"
      and z: "took x (10 # r) z"
      using creg_number [of 44 x "[44]" s 13 "10 # r" at] assms(2) nd by (auto simp: took_def crlf_def)
    then obtain y where y: "skip_line bd at 13 z = ret (10, y)" "took z r y"
      using skip_line_end [of 13 z "[13]" r at] assms(2) by (auto simp: took_def)
    show ?thesis
      using e f y(1) False took_trans [OF x took_trans [OF z y(2)]] by (auto simp: read_creg_def creg_field_def)
  qed
qed

lemma creg_skip: "at_process_recv bd at w = ret (AT_TIMEOUT_EVENT, at, w') \<Longrightarrow> creg_loop bd mode status c at w = creg_loop bd mode status c at w'"
  using setup_facts event_facts by (simp add: creg_loop.simps [of bd mode status c at w])

lemma creg_answer:
  assumes "modem_at io at" and "ok w" and "length (rest w) < 65536" and "rest w = creg_reply n s"
  shows "\<exists>w'. creg_loop bd 0 0 c at w = ret (of_nat (creg_field c n s), Some 10, at_unlock at, w') \<and> took w [] w'"
proof -
  let ?s = "[32] @ dec n @ cs '','' @ dec s @ crlf @ ok_reply"
  have r: "rest w = crlf @ cs ''+CREG:'' @ ?s"
    using assms(4) by (simp add: creg_reply_def)
  obtain v u where v: "creg_loop bd 0 0 c at w = creg_loop bd 0 0 c at v" "at_process_recv bd at v = ret (MODEM_CREG_EVENT, at, u)" "took w ?s u"
    using next_answer [OF assms(1) texts_hit(6) setup_facts(14) blank_crlf(1) assms(2,3) r, of "creg_loop bd 0 0 c at"] creg_skip setup_facts by auto
  then obtain mode x where x: "read_creg bd at 0 0 c u = ret (mode, of_nat (creg_field c n s), Some 10, x)" "took u ok_reply x"
    using read_creg_line [OF _ modem_at_ok(1) [OF assms(1)], of u n s ok_reply c] by (auto simp: took_def)
  let ?F = "creg_loop bd mode (of_nat (creg_field c n s)) 10 at"
  have F: "creg_loop bd 0 0 c at w = ?F x"
    using v(1,2) x(1) setup_facts by (simp add: creg_loop.simps [of bd 0 0 c at v])
  have x': "ok x" "length (rest x) < 65536" "rest x = crlf @ (cs ''OK'' @ crlf) @ []"
    using x(2) ok_reply_short by (auto simp: took_def ok_reply_def ok_line_def)
  obtain y z where "?F x = ?F y" "at_process_recv bd at y = ret (AT_COMMAND_SUCCESS_EVENT, at_unlock at, z)" "took x [] z"
    using next_answer [OF assms(1) texts_hit(1) text_heads(1) blank_crlf(1) x', of ?F] creg_skip event_facts by auto
  then show ?thesis
    using F setup_facts event_facts took_trans [OF v(3) took_trans [OF x(2)]]
    by (auto simp: creg_loop.simps [of bd mode "of_nat (creg_field c n s)" 10 at y])
qed

end

text \<open>
  Registration reads a field that depends on an uninitialised variable.  Let the modem answer
  \<open>+CREG: n,s\<close>.  When the local variable \<open>c\<close> of \<open>modem_bring_up\<close> happens to hold no digit, the function
  takes the status \<open>s\<close>: it returns true when \<open>s\<close> is 1 or 5 and asks again otherwise.  When \<open>c\<close> holds
  a digit, this stale digit is taken for the mode and \<open>n\<close> for the status.
\<close>

theorem modem_bring_up_field:
  assumes "line_ok ln" and "line_rest ln = []" and "modem_at 1 at" and "locked at = 0" and "line_peer ln = ([], (creg_cmd, creg_reply n s) # script)"
    and "length creg_cmd \<le> line_cap ln" and "n < 256" and "s < 256" and "status = (if dec_digit c then n else s)"
  shows "\<exists>ln'. modem_bring_up line_board c at ln = (if status = 1 \<or> status = 5 then ret (True, at, ln') else modem_bring_up line_board 10 at ln') \<and>
    line_ok ln' \<and> line_rest ln' = [] \<and> line_peer ln' = ([], script) \<and> line_sent ln' = line_sent ln @ creg_cmd"
proof -
  obtain l1 where l1: "modem_send_at_command_no_wait_response line_board creg_cmd at ln = ret (at\<lparr>locked := 1\<rparr>, l1)" "port1.said ln creg_cmd l1"
    using port1.send_no_wait [OF assms(1,3,4) port1.quiet_law [OF assms(2)] assms(6)] by blast
  then have r: "line_ok l1" "line_rest l1 = creg_reply n s" "follow (line_peer ln) creg_cmd = (([], script), creg_reply n s)"
    using assms(2,5) by (auto simp: port1.said_def)
  have "length (creg_reply n s) < 65536"
    using reply_short [OF assms(1,5), of creg_cmd] by simp
  then obtain ln' where ln': "creg_loop line_board 0 0 c (at\<lparr>locked := 1\<rparr>) l1 = ret (of_nat status, Some 10, at, ln')" "port1.took l1 [] ln'"
    using port1.creg_answer [OF modem_at_ok(5) [OF assms(3), of 1], of l1 n s c] r unlocked_again [OF assms(3,4)] assms(9) by (auto simp: creg_field_def)
  have "status < 256"
    using assms(7-9) by simp
  then have "unat (of_nat status :: u8) = status"
    by (simp add: unsigned_of_nat take_bit_nat_eq_self)
  then have "(of_nat status :: u8) = 1 \<longleftrightarrow> status = 1" "(of_nat status :: u8) = 5 \<longleftrightarrow> status = 5"
    by (simp_all add: word_unat_eq_iff)
  then show ?thesis
    using l1(1) ln' port1.said_asked [OF l1(2) r(3) ln'(2)] by (auto simp: modem_bring_up.simps [of line_board c at ln] creg_cmd_def port1.asked_def)
qed

section \<open>Opening the socket\<close>

definition open_cmds :: "u8 list \<Rightarrow> u16 \<Rightarrow> u8 list list" where
  "open_cmds host p =
     [cs ''AT^SISS='' @ dec 1 @ cs '','' @ quoted (cs ''srvtype'') @ cs '','' @ quoted (cs ''socket'') @ crlf,
      cs ''AT^SISS='' @ dec 1 @ cs '','' @ quoted (cs ''address'') @ cs '','' @ quoted (cs ''socktcp://'' @ host @ cs '':'' @ dec (unat p)) @ crlf,
      cs ''AT^SISS='' @ dec 1 @ cs '','' @ quoted (cs ''conId'') @ cs '','' @ quoted (dec 1) @ crlf,
      cs ''AT^SISO='' @ dec 1 @ crlf]"

definition polls :: "nat list \<Rightarrow> (u8 list \<times> u8 list) list" where
  "polls ss = map (\<lambda>s. (sisi_cmd, sisi_reply s)) ss"

lemma connect_polls:
  assumes "modem_at 1 at" and "locked at = 0" and "f \<in> {4, 5, 6}"
  shows "line_ok ln \<Longrightarrow> line_rest ln = [] \<Longrightarrow> line_peer ln = ([], polls (ss @ [f]) @ script) \<Longrightarrow> \<forall>s \<in> set ss. s < 256 \<and> s \<notin> {4, 5, 6} \<Longrightarrow>
    length (concat (map fst (polls (ss @ [f])))) \<le> line_cap ln \<Longrightarrow>
    \<exists>ln'. connect_loop line_board at ln = ret (if f = 4 then 1 else -1, at, ln') \<and> port1.asked ln (concat (map fst (polls (ss @ [f])))) ([], script) [] ln'"
proof (induction ss arbitrary: ln)
  case Nil
  then obtain ln' where "modem_send_query_at_sisi line_board at ln = ret (True, of_nat f, at, ln')" "port1.asked ln sisi_cmd ([], script) [] ln'"
    using sisi_query_line [OF Nil.prems(1,2) assms(1,2), of f script] by (auto simp: polls_def)
  then show ?case
    using assms(3) by (auto simp: connect_loop.simps [of line_board at ln] polls_def)
next
  case (Cons s ss)
  then obtain l1 where l1: "modem_send_query_at_sisi line_board at ln = ret (True, of_nat s, at, l1)" "port1.asked ln sisi_cmd ([], polls (ss @ [f]) @ script) [] l1"
    using sisi_query_line [OF Cons.prems(1,2) assms(1,2), of s "polls (ss @ [f]) @ script"] by (auto simp: polls_def)
  have "unat (of_nat s :: u8) = s" "s \<noteq> 4" "s \<noteq> 5" "s \<noteq> 6"
    using Cons.prems(4) by (auto simp: unsigned_of_nat take_bit_nat_eq_self)
  then have "(of_nat s :: u8) \<noteq> 4" "(of_nat s :: u8) \<noteq> 5" "(of_nat s :: u8) \<noteq> 6"
    by auto
  then have "connect_loop line_board at ln = connect_loop line_board at l1"
    using l1(1) by (simp add: connect_loop.simps [of line_board at ln])
  moreover have "\<exists>ln'. connect_loop line_board at l1 = ret (if f = 4 then 1 else -1, at, ln') \<and>
      port1.asked l1 (concat (map fst (polls (ss @ [f])))) ([], script) [] ln'"
    using Cons.IH [of l1] Cons.prems(4,5) l1(2) port1.asked_cap [OF l1(2), of "length (concat (map fst (polls (ss @ [f]))))"] by (auto simp: port1.asked_def polls_def)
  ultimately show ?case
    using port1.asked_more [OF l1(2)] by (auto simp: polls_def)
qed

text \<open>
  Opening the socket.  \<open>modem_open_tcp_socket\<close> sends the service type, the address
  \<open>socktcp://<host>:<port>\<close>, the connection and the request to open, then asks for the state until it is
  final: it returns the handle 1 when the connection is up, and -1 when the modem reports it closing or
  closed.
\<close>

theorem socket_opened:
  assumes "line_ok ln" and "line_rest ln = []" and "modem_at 1 at" and "locked at = 0" and "0 \<notin> set host" and "f \<in> {4, 5, 6}"
    and "\<forall>s \<in> set ss. s < 256 \<and> s \<notin> {4, 5, 6}" and "dialogue = all_ok (open_cmds host p) @ polls (ss @ [f])"
    and "line_peer ln = ([], dialogue @ script)" and "length (concat (map fst dialogue)) \<le> line_cap ln"
  shows "\<exists>ln'. modem_open_tcp_socket line_board (host @ [0]) p at ln = ret (if f = 4 then 1 else -1, at, ln') \<and>
    line_ok ln' \<and> line_rest ln' = [] \<and> line_peer ln' = ([], script) \<and> line_sent ln' = line_sent ln @ concat (map fst dialogue)"
proof -
  have fst: "map fst (all_ok cmds) = cmds" for cmds
    by (simp add: all_ok_def comp_def)
  obtain l1 where l1: "send_all line_board (open_cmds host p) at ln = ret (at, l1)" "port1.asked ln (concat (open_cmds host p)) ([], polls (ss @ [f]) @ script) [] l1"
    using send_all_line [OF assms(3,4,1,2), of "open_cmds host p" "polls (ss @ [f]) @ script"] assms(8-10) fst by auto
  obtain l2 where l2: "connect_loop line_board at l1 = ret (if f = 4 then 1 else -1, at, l2)" "port1.asked l1 (concat (map fst (polls (ss @ [f])))) ([], script) [] l2"
    using connect_polls [OF assms(3,4,6), of l1 ss script] l1(2) assms(7,8,10) port1.asked_cap [OF l1(2), of "length (concat (map fst (polls (ss @ [f]))))"] fst
    by (auto simp: port1.asked_def)
  have "c_text (host @ [0]) = Some host"
    using assms(5) by (auto simp: c_text_def takeWhile_tail)
  then have "modem_open_tcp_socket line_board (host @ [0]) p at ln = bnd (send_all line_board (open_cmds host p) at ln) (\<lambda>(at, w). connect_loop line_board at w)"
    by (simp add: modem_open_tcp_socket_def open_cmds_def bnd_assoc case_prod_unfold)
  then show ?thesis
    using l1 l2 assms(8) fst by (auto simp: port1.asked_def)
qed

section \<open>Samples\<close>

definition init_script :: "(u8 list \<times> u8 list) list" where
  "init_script = all_ok boot_cmds @ pin_script True @ all_ok net_cmds"

definition init_line :: line where
  "init_line = (scripted init_script)\<lparr>ln_irqs := [receiving (crlf @ (cs ''^SYSSTART'' @ crlf))]\<rparr>"

lemma init_short: "length (concat (map snd init_script)) \<le> 500" "length (crlf @ cs ''^SYSSTART'' @ crlf) \<le> 400"
  "length (concat boot_cmds) + (length (concat (map fst (pin_script True))) + length (concat net_cmds)) \<le> 999"
  by code_simp+

lemma arrivals_received: "arrivals (receiving bs) = bs"
  by (induction bs) (simp_all add: arrivals_def receiving_def)

lemma init_line_ok: "line_ok init_line" "line_rest init_line = crlf @ (cs ''^SYSSTART'' @ crlf)" "line_peer init_line = ([], init_script)" "line_cap init_line = 999"
proof -
  have s: "length (concat (map snd init_script)) \<le> 999"
    using init_short(1) by simp
  have p: "ln_port init_line = ln_port (scripted init_script)" "ln_ports init_line = ln_ports (scripted init_script)"
    by (simp_all add: init_line_def ln_port_def)
  have e: "ring_content (us_rx (ln_port (scripted init_script))) = []" "ring_room (us_rx (ln_port (scripted init_script))) = 999"
    by (simp_all add: ln_port_def scripted_def fresh_ring_def ring_content_def ring_room_def cells_def gap_def)
  show peer: "line_peer init_line = ([], init_script)"
    using scripted_ok(3) [OF s] by (simp add: init_line_def line_peer_def)
  show "line_cap init_line = 999"
    using scripted_ok(4) [OF s] p by (simp add: line_cap_def)
  show rest: "line_rest init_line = crlf @ (cs ''^SYSSTART'' @ crlf)"
    using p(1) e(1) by (simp add: line_rest_def) (simp add: init_line_def arrivals_received)
  show "line_ok init_line"
    using scripted_ok(1) [OF s] p e(2) peer rest init_short(1,2) by (auto simp: line_ok_def)
qed

theorem modem_init_completes_witness:
  "\<exists>at' ln'. modem_init line_board 1 1 idle_at init_line = ret (0, at', ln') \<and> line_sent ln' = line_sent init_line @ concat boot_cmds @ concat (map fst (pin_script True)) @ concat net_cmds"
proof -
  have "length (line_rest init_line) < 65536"
    using init_line_ok(2) init_short(2) by simp
  then show ?thesis
    using modem_init_completes [OF init_line_ok(1,2) blank_crlf(1), of 1 idle_at True "[]"] init_line_ok(3,4) init_short(3) idle_at_ok(1)
    by (auto simp: init_script_def modem_at_def)
qed

lemma creg_short: "length (concat (map snd [(creg_cmd, creg_reply 1 0)])) \<le> 999" "length creg_cmd \<le> 999"
  by code_simp+

text \<open>With the stale digit 7 in \<open>c\<close> a device that is not registered is reported as registered.\<close>

theorem modem_bring_up_field_witness:
  "\<exists>ln'. modem_bring_up line_board 55 idle_at (scripted [(creg_cmd, creg_reply 1 0)]) = ret (True, idle_at, ln')"
proof -
  note s = scripted_ok [OF creg_short(1)]
  have "dec_digit 55"
    by code_simp
  then show ?thesis
    using modem_bring_up_field [OF s(1,2) idle_at_ok, of 1 0 "[]" 1 55] s(3,4) creg_short(2) by auto
qed

definition open_script :: "(u8 list \<times> u8 list) list" where
  "open_script = all_ok (open_cmds [104, 111] 80) @ polls ([3] @ [4])"

lemma open_short: "length (concat (map snd open_script)) \<le> 999" "length (concat (map fst open_script)) \<le> 999"
  by code_simp+

theorem socket_opened_witness:
  "\<exists>ln'. modem_open_tcp_socket line_board [104, 111, 0] 80 idle_at (scripted open_script) = ret (1, idle_at, ln')"
proof -
  note s = scripted_ok [OF open_short(1)]
  show ?thesis
    using socket_opened [OF s(1,2) idle_at_ok, of "[104, 111]" 4 "[3]" open_script 80 "[]"] s(3,4) open_short(2) by (auto simp: open_script_def)
qed

end
