(* ===== verification/Se_Applet.thy ===== *)
theory Se_Applet
  imports Modem_Exchange
begin

text \<open>
  The way from an applet to the modem: \<open>SEInterface.cpp\<close> (APDUs and the automatic answers to \<open>61xx\<close> and
  \<open>6Cxx\<close>), \<open>Applet.cpp\<close> (logical channels), \<open>MF.cpp\<close> (the PIN and the files of the card) and
  \<open>ConnectShield_SE.cpp\<close>, whose \<open>transmitApdu\<close> is \<open>modem_send_apdu\<close>.

  The virtual method \<open>transmitApdu\<close> is a function of type \<open>'w link\<close>.  The locale \<open>card_link\<close> is its contract:
  an APDU is answered by the card behind the link.  Inside it selecting an applet, verifying the PIN and reading a
  file are followed through whole dialogues with the card; it is interpreted on \<open>modem_send_apdu\<close> over the
  interrupt-driven port.
\<close>

section \<open>SEInterface\<close>

text \<open>\<open>transmitApdu(apdu, apduLen, response, &responseLen)\<close>, where \<open>responseLen\<close> has a value before the call, which not every implementation changes.\<close>

type_synonym 'w link = "mem \<Rightarrow> u16 \<Rightarrow> mem \<Rightarrow> u16 \<Rightarrow> 'w \<Rightarrow> (bool \<times> mem \<times> u16 \<times> 'w) exec"

record se_iface =
  si_apdu :: mem
  si_apduLen :: u16
  si_apduResponse :: mem
  si_apduResponseLen :: u16

partial_function (option) SEInterface_transmit :: "'w link \<Rightarrow> se_iface \<Rightarrow> 'w \<Rightarrow> (bool \<times> se_iface \<times> 'w) exec" where
  "SEInterface_transmit L se w =
     bnd (bnd (L (si_apdu se) (si_apduLen se) (si_apduResponse se) (si_apduResponseLen se) w) (\<lambda>(ok, r, n, w). ret (ok, se\<lparr>si_apduResponse := r, si_apduResponseLen := n\<rparr>, w))) (\<lambda>(ok, se, w).
     if \<not> ok then ret (False, se, w)
     else if si_apduResponseLen se = 2 then
       bnd (access (mem_get (si_apduResponse se) 0)) (\<lambda>sw1.
       if sw1 = 0x6C then
         bnd (access (do { x \<leftarrow> mem_get (si_apduResponse se) 1; mem_write (si_apdu se) 4 [x] })) (\<lambda>a.
         SEInterface_transmit L (se\<lparr>si_apdu := a\<rparr>) w)
       else if sw1 = 0x61 then
         bnd (access (do { cla \<leftarrow> mem_get (si_apdu se) 0; x \<leftarrow> mem_get (si_apduResponse se) 1;
                           mem_write (si_apdu se) 0 [0 OR (cla AND 3), 0xC0, 0, 0, x] })) (\<lambda>a.
         SEInterface_transmit L (se\<lparr>si_apdu := a, si_apduLen := 5\<rparr>) w)
       else ret (True, se, w))
     else ret (True, se, w))"

text \<open>The four cases of a command: without data, with an expected length, with data, and with both.\<close>

definition SEInterface_transmit_case1 :: "'w link \<Rightarrow> u8 \<Rightarrow> u8 \<Rightarrow> u8 \<Rightarrow> u8 \<Rightarrow> se_iface \<Rightarrow> 'w \<Rightarrow> (bool \<times> se_iface \<times> 'w) exec" where
  "SEInterface_transmit_case1 L cla ins p1 p2 se w =
     bnd (access (mem_write (si_apdu se) 0 [cla, ins, p1, p2])) (\<lambda>a.
     SEInterface_transmit L (se\<lparr>si_apdu := a, si_apduLen := 4\<rparr>) w)"

definition SEInterface_transmit_case2 :: "'w link \<Rightarrow> u8 \<Rightarrow> u8 \<Rightarrow> u8 \<Rightarrow> u8 \<Rightarrow> u8 \<Rightarrow> se_iface \<Rightarrow> 'w \<Rightarrow> (bool \<times> se_iface \<times> 'w) exec" where
  "SEInterface_transmit_case2 L cla ins p1 p2 le se w =
     bnd (access (mem_write (si_apdu se) 0 [cla, ins, p1, p2, le])) (\<lambda>a.
     SEInterface_transmit L (se\<lparr>si_apdu := a, si_apduLen := 5\<rparr>) w)"

definition SEInterface_transmit_case3 :: "'w link \<Rightarrow> u8 \<Rightarrow> u8 \<Rightarrow> u8 \<Rightarrow> u8 \<Rightarrow> mem \<Rightarrow> u16 \<Rightarrow> se_iface \<Rightarrow> 'w \<Rightarrow> (bool \<times> se_iface \<times> 'w) exec" where
  "SEInterface_transmit_case3 L cla ins p1 p2 bytes dataLen se w =
     bnd (access (do { d \<leftarrow> mem_read bytes 0 (unat dataLen); mem_write (si_apdu se) 0 ([cla, ins, p1, p2, ucast dataLen] @ d) })) (\<lambda>a.
     SEInterface_transmit L (se\<lparr>si_apdu := a, si_apduLen := 5 + dataLen\<rparr>) w)"

definition SEInterface_transmit_case4 ::
  "'w link \<Rightarrow> u8 \<Rightarrow> u8 \<Rightarrow> u8 \<Rightarrow> u8 \<Rightarrow> mem \<Rightarrow> u16 \<Rightarrow> u8 \<Rightarrow> se_iface \<Rightarrow> 'w \<Rightarrow> (bool \<times> se_iface \<times> 'w) exec" where
  "SEInterface_transmit_case4 L cla ins p1 p2 bytes dataLen le se w =
     bnd (access (do { d \<leftarrow> mem_read bytes 0 (unat dataLen); mem_write (si_apdu se) 0 ([cla, ins, p1, p2, ucast dataLen] @ d @ [le]) })) (\<lambda>a.
     SEInterface_transmit L (se\<lparr>si_apdu := a, si_apduLen := 5 + dataLen + 1\<rparr>) w)"

definition SEInterface_getStatusWord :: "se_iface \<Rightarrow> u16 option" where
  "SEInterface_getStatusWord se =
     (if 2 \<le> si_apduResponseLen se then do {
        a \<leftarrow> mem_get (si_apduResponse se) (unat (si_apduResponseLen se) - 2);
        b \<leftarrow> mem_get (si_apduResponse se) (unat (si_apduResponseLen se) - 1);
        Some (push_bit 8 (ucast a) OR ucast b) }
      else Some 0)"

definition SEInterface_getResponseLength :: "se_iface \<Rightarrow> u16" where
  "SEInterface_getResponseLength se = (if 2 < si_apduResponseLen se then si_apduResponseLen se - 2 else 0)"

text \<open>The bytes that \<open>getResponse\<close> copies to its argument; it returns their number.\<close>

definition SEInterface_getResponse :: "se_iface \<Rightarrow> u8 list option" where
  "SEInterface_getResponse se =
     (if 2 < si_apduResponseLen se then mem_read (si_apduResponse se) 0 (unat (si_apduResponseLen se - 2)) else Some [])"

section \<open>Applet\<close>

text \<open>The methods of the class work on every extension of the record, as they are inherited by its subclasses.\<close>

record Applet =
  ap_seiface :: bool
  ap_channel :: u8
  ap_isSelected :: bool
  ap_isBasic :: bool
  ap_aid :: "u8 list"

definition Applet_create :: "u8 list \<Rightarrow> Applet" where
  "Applet_create aid = \<lparr>ap_seiface = False, ap_channel = 0, ap_isSelected = False, ap_isBasic = False, ap_aid = aid\<rparr>"

definition Applet_init :: "'a Applet_scheme \<Rightarrow> 'a Applet_scheme" where
  "Applet_init ap = ap\<lparr>ap_seiface := True\<rparr>"

text \<open>The result is \<open>_isSelected\<close>, so \<open>false\<close> after a successful deselection.\<close>

definition Applet_deselect :: "'w link \<Rightarrow> 'a Applet_scheme \<Rightarrow> se_iface \<Rightarrow> 'w \<Rightarrow> (bool \<times> 'a Applet_scheme \<times> se_iface \<times> 'w) exec" where
  "Applet_deselect L ap se w =
     bnd (if \<not> ap_seiface ap \<or> \<not> ap_isSelected ap then ret (ap, se, w)
          else if \<not> ap_isBasic ap then
            bnd (SEInterface_transmit_case1 L 0 0x70 0x80 (ap_channel ap) se w) (\<lambda>(ok, se, w).
            if ok then bnd (access (SEInterface_getStatusWord se)) (\<lambda>sw. ret (if sw = 0x9000 then ap\<lparr>ap_isSelected := False\<rparr> else ap, se, w))
            else ret (ap, se, w))
          else ret (ap\<lparr>ap_isSelected := False\<rparr>, se, w)) (\<lambda>(ap, se, w).
     ret (ap_isSelected ap, ap, se, w))"

text \<open>The command SELECT with the AID, and whether the card accepted it.\<close>

definition select_aid :: "'w link \<Rightarrow> u8 \<Rightarrow> 'a Applet_scheme \<Rightarrow> se_iface \<Rightarrow> 'w \<Rightarrow> (bool \<times> se_iface \<times> 'w) exec" where
  "select_aid L cla ap se w =
     bnd (SEInterface_transmit_case3 L cla 0xA4 4 0 (ap_aid ap) (of_nat (length (ap_aid ap))) se w) (\<lambda>(ok, se, w).
     if ok then bnd (access (SEInterface_getStatusWord se)) (\<lambda>sw. ret (sw = 0x9000 \<or> sw AND 0xFF00 = 0x6100, se, w))
     else ret (False, se, w))"

text \<open>
  The number of the channel is copied to the member \<open>_channel\<close>, one byte, whatever the length of the response: a longer
  one is written over the members behind it.
\<close>

definition store_channel :: "u8 list \<Rightarrow> 'a Applet_scheme \<Rightarrow> 'a Applet_scheme option" where
  "store_channel bs ap = (case bs of [] \<Rightarrow> Some ap | [c] \<Rightarrow> Some (ap\<lparr>ap_channel := c\<rparr>) | _ \<Rightarrow> None)"

definition Applet_select :: "'w link \<Rightarrow> bool \<Rightarrow> 'a Applet_scheme \<Rightarrow> se_iface \<Rightarrow> 'w \<Rightarrow> (bool \<times> 'a Applet_scheme \<times> se_iface \<times> 'w) exec" where
  "Applet_select L isBasic ap se w =
     (if \<not> ap_seiface ap then ret (False, ap, se, w)
      else bnd (Applet_deselect L ap se w) (\<lambda>(_, ap, se, w).
        if isBasic then
          bnd (select_aid L 0 ap se w) (\<lambda>(ok, se, w).
          ret (ok, if ok then ap\<lparr>ap_channel := 0, ap_isSelected := True, ap_isBasic := True\<rparr> else ap\<lparr>ap_channel := 0\<rparr>, se, w))
        else
          bnd (SEInterface_transmit_case2 L 0 0x70 0 0 1 se w) (\<lambda>(ok, se, w).
          if \<not> ok then ret (False, ap, se, w)
          else bnd (access (SEInterface_getStatusWord se)) (\<lambda>sw.
            if sw \<noteq> 0x9000 then ret (False, ap, se, w)
            else bnd (access (do { bs \<leftarrow> SEInterface_getResponse se; store_channel bs ap })) (\<lambda>ap.
              bnd (select_aid L (0 OR ap_channel ap) ap se w) (\<lambda>(ok, se, w).
              if ok then ret (True, ap\<lparr>ap_isSelected := True, ap_isBasic := False\<rparr>, se, w)
              else bnd (SEInterface_transmit_case1 L 0 0x70 0x80 (ap_channel ap) se w) (\<lambda>(_, se, w). ret (False, ap, se, w))))))))"

text \<open>The destructor deselects.\<close>

definition Applet_destroy :: "'w link \<Rightarrow> 'a Applet_scheme \<Rightarrow> se_iface \<Rightarrow> 'w \<Rightarrow> (se_iface \<times> 'w) exec" where
  "Applet_destroy L ap se w = (if ap_isSelected ap then bnd (Applet_deselect L ap se w) (\<lambda>(_, ap, se, w). ret (se, w)) else ret (se, w))"

definition Applet_transmit_case1 :: "'w link \<Rightarrow> u8 \<Rightarrow> u8 \<Rightarrow> u8 \<Rightarrow> u8 \<Rightarrow> 'a Applet_scheme \<Rightarrow> se_iface \<Rightarrow> 'w \<Rightarrow> (bool \<times> se_iface \<times> 'w) exec" where
  "Applet_transmit_case1 L cla ins p1 p2 ap se w =
     (if ap_isSelected ap then SEInterface_transmit_case1 L (cla OR ap_channel ap) ins p1 p2 se w else ret (False, se, w))"

definition Applet_transmit_case2 :: "'w link \<Rightarrow> u8 \<Rightarrow> u8 \<Rightarrow> u8 \<Rightarrow> u8 \<Rightarrow> u8 \<Rightarrow> 'a Applet_scheme \<Rightarrow> se_iface \<Rightarrow> 'w \<Rightarrow> (bool \<times> se_iface \<times> 'w) exec" where
  "Applet_transmit_case2 L cla ins p1 p2 le ap se w =
     (if ap_isSelected ap then SEInterface_transmit_case2 L (cla OR ap_channel ap) ins p1 p2 le se w else ret (False, se, w))"

definition Applet_transmit_case3 :: "'w link \<Rightarrow> u8 \<Rightarrow> u8 \<Rightarrow> u8 \<Rightarrow> u8 \<Rightarrow> mem \<Rightarrow> u16 \<Rightarrow> 'a Applet_scheme \<Rightarrow> se_iface \<Rightarrow> 'w \<Rightarrow> (bool \<times> se_iface \<times> 'w) exec" where
  "Applet_transmit_case3 L cla ins p1 p2 bytes dataLen ap se w =
     (if ap_isSelected ap then SEInterface_transmit_case3 L (cla OR ap_channel ap) ins p1 p2 bytes dataLen se w else ret (False, se, w))"

definition Applet_transmit_case4 ::
  "'w link \<Rightarrow> u8 \<Rightarrow> u8 \<Rightarrow> u8 \<Rightarrow> u8 \<Rightarrow> mem \<Rightarrow> u16 \<Rightarrow> u8 \<Rightarrow> 'a Applet_scheme \<Rightarrow> se_iface \<Rightarrow> 'w \<Rightarrow> (bool \<times> se_iface \<times> 'w) exec" where
  "Applet_transmit_case4 L cla ins p1 p2 bytes dataLen le ap se w =
     (if ap_isSelected ap then SEInterface_transmit_case4 L (cla OR ap_channel ap) ins p1 p2 bytes dataLen le se w else ret (False, se, w))"

definition Applet_getStatusWord :: "'a Applet_scheme \<Rightarrow> se_iface \<Rightarrow> u16 option" where
  "Applet_getStatusWord ap se = (if ap_isSelected ap then SEInterface_getStatusWord se else Some 0)"

definition Applet_getResponse :: "'a Applet_scheme \<Rightarrow> se_iface \<Rightarrow> u8 list option" where
  "Applet_getResponse ap se = (if ap_isSelected ap then SEInterface_getResponse se else Some [])"

definition Applet_getResponseLength :: "'a Applet_scheme \<Rightarrow> se_iface \<Rightarrow> u16" where
  "Applet_getResponseLength ap se = (if ap_isSelected ap then SEInterface_getResponseLength se else 0)"

text \<open>A command has been accepted when it could be transmitted and the card answered \<open>9000\<close>.\<close>

definition checked :: "'a Applet_scheme \<Rightarrow> (bool \<times> se_iface \<times> 'w) exec \<Rightarrow> (bool \<times> se_iface \<times> 'w) exec" where
  "checked ap x = bnd x (\<lambda>(ok, se, w). if ok then bnd (access (Applet_getStatusWord ap se)) (\<lambda>sw. ret (sw = 0x9000, se, w)) else ret (False, se, w))"

section \<open>MF\<close>

definition MF_AID :: "u8 list" where
  "MF_AID = [0xA0, 0x00, 0x00, 0x00, 0x87, 0x10, 0x01, 0xFF, 0x33, 0xFF, 0xFF, 0x89, 0x01, 0x01, 0x01, 0x00]"

definition MF_create :: Applet where
  "MF_create = Applet_create MF_AID"

text \<open>A command with the PIN data.\<close>

definition pin_command :: "'w link \<Rightarrow> u8 \<Rightarrow> u8 list \<Rightarrow> Applet \<Rightarrow> se_iface \<Rightarrow> 'w \<Rightarrow> (bool \<times> se_iface \<times> 'w) exec" where
  "pin_command L ins pinData ap se w = checked ap (Applet_transmit_case3 L 0 ins 0 1 pinData (of_nat (length pinData)) ap se w)"

definition pad_pin :: "u8 list \<Rightarrow> u8 list" where
  "pad_pin pin = pin @ replicate (8 - length pin) 0xFF"

definition MF_verifyPin :: "'w link \<Rightarrow> u8 list \<Rightarrow> Applet \<Rightarrow> se_iface \<Rightarrow> 'w \<Rightarrow> (bool \<times> se_iface \<times> 'w) exec" where
  "MF_verifyPin L pin ap se w =
     (if 8 < length pin then ret (False, se, w) else pin_command L 0x20 (pad_pin pin) ap se w)"

definition MF_changePin :: "'w link \<Rightarrow> u8 list \<Rightarrow> u8 list \<Rightarrow> Applet \<Rightarrow> se_iface \<Rightarrow> 'w \<Rightarrow> (bool \<times> se_iface \<times> 'w) exec" where
  "MF_changePin L oldPin newPin ap se w =
     (if 8 < length oldPin \<or> 8 < length newPin then ret (False, se, w) else pin_command L 0x24 (pad_pin oldPin @ pad_pin newPin) ap se w)"

text \<open>The size in the file control parameters: a TLV with the tag \<open>80\<close> inside the template \<open>62\<close>.\<close>

fun size_loop :: "mem \<Rightarrow> u16 \<Rightarrow> nat \<Rightarrow> u16 \<Rightarrow> u16 option" where
  "size_loop m i 0 sz = Some sz"
| "size_loop m i (Suc l) sz = do { b \<leftarrow> mem_get m (unat i); size_loop m (i + 1) l (push_bit 8 sz OR ucast b) }"

partial_function (option) tlv_loop :: "mem \<Rightarrow> u16 \<Rightarrow> u16 \<Rightarrow> u16 option exec" where
  "tlv_loop m dataLen i =
     (if i < dataLen then
        bnd (access (mem_get m (unat i))) (\<lambda>t.
        bnd (access (mem_get m (unat (i + 1)))) (\<lambda>l.
        if t = 0x80 then bnd (access (size_loop m (i + 1 + 1) (unat l) 0)) (\<lambda>sz. ret (Some sz))
        else tlv_loop m dataLen (i + 1 + (1 + ucast l))))
      else ret None)"

definition getEFSize :: "mem \<Rightarrow> u16 \<Rightarrow> u16 option exec" where
  "getEFSize m dataLen = bnd (access (mem_get m 0)) (\<lambda>t. if t = 0x62 then tlv_loop m dataLen 2 else ret None)"

text \<open>Storing behind a pointer that may be NULL; \<open>getResponse\<close> does not touch it when there is no data.\<close>

definition store_at :: "mem option \<Rightarrow> nat \<Rightarrow> u8 list \<Rightarrow> mem option option" where
  "store_at m i bs = (if bs = [] then Some m else do { d \<leftarrow> m; d \<leftarrow> mem_write d i bs; Some (Some d) })"

text \<open>READ BINARY until the whole file is there; a card that answers \<open>9000\<close> without data is asked again and again.\<close>

partial_function (option) ef_loop ::
  "'w link \<Rightarrow> u16 \<Rightarrow> mem option \<Rightarrow> u16 \<Rightarrow> Applet \<Rightarrow> se_iface \<Rightarrow> 'w \<Rightarrow> (bool \<times> mem option \<times> u16 \<times> se_iface \<times> 'w) exec" where
  "ef_loop L dataLen m i ap se w =
     (if i < dataLen then
        bnd (Applet_transmit_case2 L 0 0xB0 (ucast (drop_bit 8 i)) (ucast i) (if 255 \<le> unat dataLen - unat i then 255 else ucast (dataLen - i)) ap se w) (\<lambda>(ok, se, w).
        if \<not> ok then ret (False, m, i, se, w)
        else bnd (access (Applet_getStatusWord ap se)) (\<lambda>sw.
          if sw \<noteq> 0x9000 then ret (False, m, i, se, w)
          else bnd (access (Applet_getResponse ap se)) (\<lambda>bs.
            bnd (access (store_at m (unat i) bs)) (\<lambda>m.
            ef_loop L dataLen m (i + of_nat (length bs)) ap se w))))
      else ret (True, m, i, se, w))"

text \<open>
  The results are \<open>ok\<close>, \<open>*data\<close> (\<open>None\<close> when it is not written or NULL) and \<open>*dataLen\<close>, whose value before the call is an
  argument.  \<open>malloc\<close> is the parameter \<open>alloc\<close>; it may return NULL.
\<close>

definition MF_readEF ::
  "(nat \<Rightarrow> mem option) \<Rightarrow> 'w link \<Rightarrow> mem \<Rightarrow> u16 \<Rightarrow> u16 \<Rightarrow> Applet \<Rightarrow> se_iface \<Rightarrow> 'w \<Rightarrow> (bool \<times> mem option \<times> u16 \<times> se_iface \<times> 'w) exec" where
  "MF_readEF alloc L path pathLen dataLen ap se w =
     bnd (Applet_transmit_case4 L 0 0xA4 8 4 path pathLen 0 ap se w) (\<lambda>(ok, se, w).
     if \<not> ok then ret (False, None, dataLen, se, w)
     else bnd (access (Applet_getStatusWord ap se)) (\<lambda>sw.
       if sw \<noteq> 0x9000 then ret (False, None, dataLen, se, w)
       else bnd (getEFSize (si_apduResponse se) (SEInterface_getResponseLength se)) (\<lambda>sz.
         case sz of
           None \<Rightarrow> ret (False, None, dataLen, se, w)
         | Some dataLen \<Rightarrow>
             bnd (ef_loop L dataLen (alloc (unat dataLen + 1)) 0 ap se w) (\<lambda>(ok, m, i, se, w).
             if \<not> ok then ret (False, m, dataLen, se, w)
             else bnd (access (store_at m (unat i) [0])) (\<lambda>m. ret (True, m, dataLen + 1, se, w))))))"

text \<open>The two files with fixed names; the names are passed as text, not as the bytes that they spell.\<close>

definition MF_readCertificate :: "(nat \<Rightarrow> mem option) \<Rightarrow> 'w link \<Rightarrow> u16 \<Rightarrow> Applet \<Rightarrow> se_iface \<Rightarrow> 'w \<Rightarrow> (bool \<times> mem option \<times> u16 \<times> se_iface \<times> 'w) exec" where
  "MF_readCertificate alloc L = MF_readEF alloc L (cs ''7FAA6F01'' @ [0]) 8"

definition MF_readPrivateKey :: "(nat \<Rightarrow> mem option) \<Rightarrow> 'w link \<Rightarrow> u16 \<Rightarrow> Applet \<Rightarrow> se_iface \<Rightarrow> 'w \<Rightarrow> (bool \<times> mem option \<times> u16 \<times> se_iface \<times> 'w) exec" where
  "MF_readPrivateKey alloc L = MF_readEF alloc L (cs ''7FAA6F02'' @ [0]) 8"

section \<open>ConnectShieldSE\<close>

definition ConnectShieldSE_transmitApdu :: "'w board \<Rightarrow> (at_t \<times> 'w) link" where
  "ConnectShieldSE_transmitApdu bd apdu apduLen response responseLen aw =
     (case aw of (at, w) \<Rightarrow> bnd (modem_send_apdu bd apdu apduLen response at w) (\<lambda>(ok, r, n, at, w). ret (ok, r, n, at, w)))"

section \<open>Dialogues with a card\<close>

text \<open>
  A dialogue is a list of APDUs with their responses.  \<open>dialog a ps r\<close> says that sending \<open>a\<close> leads through the exchanges
  \<open>ps\<close> to the response \<open>r\<close>: \<open>6Cxx\<close> makes the interface repeat the command with \<open>xx\<close> as its fifth byte, and
  \<open>61xx\<close> makes it ask for the \<open>xx\<close> bytes that are ready.
\<close>

inductive dialog :: "u8 list \<Rightarrow> (u8 list \<times> u8 list) list \<Rightarrow> u8 list \<Rightarrow> bool" where
  final: "\<not> (length r = 2 \<and> hd r \<in> {0x6C, 0x61}) \<Longrightarrow> dialog a [(a, r)] r"
| again: "dialog (a[4 := x]) ps r \<Longrightarrow> dialog a ((a, [0x6C, x]) # ps) r"
| more: "dialog [hd a AND 3, 0xC0, 0, 0, x] ps r \<Longrightarrow> dialog a ((a, [0x61, x]) # ps) r"

inductive_cases dialog_NilE: "dialog a [] r"

text \<open>The responses fit into the buffer of the interface.\<close>

definition fitting_responses :: "(u8 list \<times> u8 list) list \<Rightarrow> bool" where
  "fitting_responses ps \<longleftrightarrow> (\<forall>(a, r) \<in> set ps. 0 < length r \<and> length r \<le> 258)"

lemma fitting_responses_simps [simp]:
  "fitting_responses []"
  "fitting_responses ((a, r) # ps) \<longleftrightarrow> 0 < length r \<and> length r \<le> 258 \<and> fitting_responses ps"
  "fitting_responses (ps @ qs) \<longleftrightarrow> fitting_responses ps \<and> fitting_responses qs"
  by (auto simp: fitting_responses_def)

definition iface_ok :: "se_iface \<Rightarrow> bool" where
  "iface_ok se \<longleftrightarrow> length (si_apdu se) = 262 \<and> length (si_apduResponse se) = 258"

text \<open>The response that the interface holds.\<close>

definition holds :: "u8 list \<Rightarrow> se_iface \<Rightarrow> bool" where
  "holds r se \<longleftrightarrow> iface_ok se \<and> length r \<le> 258 \<and> si_apduResponseLen se = of_nat (length r) \<and> take (length r) (si_apduResponse se) = r"

lemma holds_ok: "holds r se \<Longrightarrow> iface_ok se"
  by (simp add: holds_def)

lemma holds_len: "holds r se \<Longrightarrow> unat (si_apduResponseLen se) = length r"
  by (simp add: holds_def unsigned_of_nat take_bit_nat_eq_self)

lemma holds_get: "holds r se \<Longrightarrow> i < length r \<Longrightarrow> mem_get (si_apduResponse se) i = Some (r ! i)"
  unfolding holds_def iface_ok_def mem_get_def using nth_take [of i "length r" "si_apduResponse se"] by simp

lemma holds_status:
  assumes "holds (d @ [a, b]) se"
  shows "SEInterface_getStatusWord se = Some (push_bit 8 (ucast a) OR ucast b)"
proof -
  have "2 \<le> si_apduResponseLen se"
    using holds_len [OF assms] by (simp add: word_le_nat_alt)
  then show ?thesis
    using holds_len [OF assms] holds_get [OF assms, of "length d"] holds_get [OF assms, of "Suc (length d)"]
    by (simp add: SEInterface_getStatusWord_def nth_append)
qed

lemma holds_response:
  assumes "holds (d @ [a, b]) se"
  shows "SEInterface_getResponse se = Some d" and "unat (SEInterface_getResponseLength se) = length d"
proof -
  have n: "unat (si_apduResponseLen se) = length d + 2"
    using holds_len [OF assms] by simp
  have "2 \<le> si_apduResponseLen se"
    using n by (simp add: word_le_nat_alt)
  then have m: "unat (si_apduResponseLen se - 2) = length d"
    using n by (simp add: unat_sub)
  have l: "2 < si_apduResponseLen se \<longleftrightarrow> d \<noteq> []"
    using n by (auto simp: word_less_nat_alt)
  show "unat (SEInterface_getResponseLength se) = length d"
    using m l by (auto simp: SEInterface_getResponseLength_def)
  have "take (length d) (take (length (d @ [a, b])) (si_apduResponse se)) = d"
    using assms by (simp add: holds_def)
  then have "take (length d) (si_apduResponse se) = d"
    by (simp add: take_take)
  moreover have "length d \<le> length (si_apduResponse se)"
    using assms by (simp add: holds_def iface_ok_def)
  ultimately show "SEInterface_getResponse se = Some d"
    using m l by (auto simp: SEInterface_getResponse_def mem_read_def)
qed

lemma status_words: "push_bit 8 (ucast (0x90 :: u8)) OR ucast (0 :: u8) = (0x9000 :: u16)"
  by simp

section \<open>The contract of a link to a card\<close>

text \<open>A sequence of exchanges takes the card from one state to another.\<close>

primrec plays :: "('c \<Rightarrow> u8 list \<Rightarrow> u8 list \<Rightarrow> 'c \<Rightarrow> bool) \<Rightarrow> (u8 list \<times> u8 list) list \<Rightarrow> 'c \<Rightarrow> 'c \<Rightarrow> bool" where
  "plays answers [] c c' \<longleftrightarrow> c = c'"
| "plays answers (p # ps) c c' \<longleftrightarrow> (\<exists>d. answers c (fst p) (snd p) d \<and> plays answers ps d c')"

lemma plays_append: "plays answers (ps @ qs) c c' \<longleftrightarrow> (\<exists>d. plays answers ps c d \<and> plays answers qs d c')"
  by (induction ps arbitrary: c) auto

lemma mem_write_update: "i < length m \<Longrightarrow> mem_write m i [x] = Some (m[i := x])"
  by (simp add: mem_write_def upd_conv_take_nth_drop)

lemma mem_write_start: "length bs \<le> length m \<Longrightarrow> mem_write m 0 bs = Some (bs @ drop (length bs) m)"
  by (simp add: mem_write_def)

lemma small_u16: "n \<le> 65535 \<Longrightarrow> unat (of_nat n :: u16) = n"
  by (simp add: unsigned_of_nat take_bit_nat_eq_self)

lemma low_byte: "ucast (of_nat k :: u16) = (of_nat k :: u8)"
  by (simp add: unsigned_of_nat word_of_nat_eq_iff take_bit_take_bit)

text \<open>
  \<open>ok w\<close> says that the link is ready, and \<open>card w\<close> is the card behind it, which moves from \<open>c\<close> to \<open>d\<close> with the response \<open>r\<close> to
  the APDU \<open>a\<close> when \<open>answers c a r d\<close>.  The law: an APDU of at most 256 bytes is passed on, and its response is stored at
  the start of the buffer of the interface.
\<close>

locale card_link =
  fixes L :: "'w link" and ok :: "'w \<Rightarrow> bool" and card :: "'w \<Rightarrow> 'c" and answers :: "'c \<Rightarrow> u8 list \<Rightarrow> u8 list \<Rightarrow> 'c \<Rightarrow> bool"
  assumes exchange_law: "ok w \<Longrightarrow> n \<le> 256 \<Longrightarrow> unat n \<le> length m \<Longrightarrow> answers (card w) (take (unat n) m) r c \<Longrightarrow> r \<noteq> [] \<Longrightarrow> length r \<le> length buf \<Longrightarrow> length buf = 258 \<Longrightarrow>
    \<exists>w'. L m n buf old w = ret (True, r @ drop (length r) buf, of_nat (length r), w') \<and> ok w' \<and> card w' = c"
begin

definition answered :: "u8 list \<Rightarrow> 'c \<Rightarrow> (bool \<times> se_iface \<times> 'w) exec \<Rightarrow> bool" where
  "answered r c x \<longleftrightarrow> (\<exists>se w. x = ret (True, se, w) \<and> holds r se \<and> ok w \<and> card w = c)"

text \<open>One exchange.\<close>

lemma exchange:
  assumes "ok w" and "iface_ok se" and "si_apduLen se \<le> 256" and "answers (card w) (take (unat (si_apduLen se)) (si_apdu se)) r c" and "0 < length r" and "length r \<le> 258"
  shows "\<exists>se1 w1. bnd (L (si_apdu se) (si_apduLen se) (si_apduResponse se) (si_apduResponseLen se) w) (\<lambda>(ok, r, n, w). ret (ok, se\<lparr>si_apduResponse := r, si_apduResponseLen := n\<rparr>, w)) = ret (True, se1, w1) \<and>
    holds r se1 \<and> ok w1 \<and> card w1 = c \<and> si_apdu se1 = si_apdu se \<and> si_apduLen se1 = si_apduLen se"
proof -
  have "unat (si_apduLen se) \<le> length (si_apdu se)"
    using assms(2,3) by (simp add: iface_ok_def word_le_nat_alt)
  then obtain w1 where "L (si_apdu se) (si_apduLen se) (si_apduResponse se) (si_apduResponseLen se) w = ret (True, r @ drop (length r) (si_apduResponse se), of_nat (length r), w1)" "ok w1" "card w1 = c"
    using exchange_law [OF assms(1,3) _ assms(4), of "si_apduResponse se"] assms(2,5,6) by (auto simp: iface_ok_def)
  then show ?thesis
    using assms(2,6) by (simp add: holds_def iface_ok_def)
qed

lemma transmit_dialog:
  "dialog a ps r \<Longrightarrow> ok w \<Longrightarrow> iface_ok se \<Longrightarrow> 0 < si_apduLen se \<Longrightarrow> si_apduLen se \<le> 256 \<Longrightarrow> take (unat (si_apduLen se)) (si_apdu se) = a \<Longrightarrow>
   plays answers ps (card w) c \<Longrightarrow> fitting_responses ps \<Longrightarrow> answered r c (SEInterface_transmit L se w)"
proof (induction arbitrary: se w rule: dialog.induct)
  case (final r a)
  obtain se1 w1 where x: "bnd (L (si_apdu se) (si_apduLen se) (si_apduResponse se) (si_apduResponseLen se) w) (\<lambda>(ok, r, n, w). ret (ok, se\<lparr>si_apduResponse := r, si_apduResponseLen := n\<rparr>, w)) = ret (True, se1, w1)"
    "holds r se1" "ok w1" "card w1 = c"
    using exchange [of w se r c] final.prems by auto
  have "si_apduResponseLen se1 = 2 \<longleftrightarrow> length r = 2"
    using holds_len [OF x(2)] by (auto simp: word_unat_eq_iff)
  moreover have "length r = 2 \<Longrightarrow> mem_get (si_apduResponse se1) 0 = Some (hd r)"
    using holds_get [OF x(2), of 0] by (cases r) auto
  ultimately show ?case
    using x final.hyps unfolding answered_def SEInterface_transmit.simps [of L se w] by (cases "length r = 2") auto
next
  case (again a x ps r)
  obtain d where d: "answers (card w) (take (unat (si_apduLen se)) (si_apdu se)) [0x6C, x] d" "plays answers ps d c"
    using again.prems by auto
  obtain se1 w1 where y: "bnd (L (si_apdu se) (si_apduLen se) (si_apduResponse se) (si_apduResponseLen se) w) (\<lambda>(ok, r, n, w). ret (ok, se\<lparr>si_apduResponse := r, si_apduResponseLen := n\<rparr>, w)) = ret (True, se1, w1)"
    "holds [0x6C, x] se1" "ok w1" "card w1 = d" "si_apdu se1 = si_apdu se" "si_apduLen se1 = si_apduLen se"
    using exchange [of w se "[0x6C, x]" d] again.prems d(1) by auto
  let ?se = "se1\<lparr>si_apdu := (si_apdu se)[4 := x]\<rparr>"
  have "SEInterface_transmit L se w = SEInterface_transmit L ?se w1"
    using y(1,5,6) holds_get [OF y(2), of 0] holds_get [OF y(2), of 1] y(2) again.prems(2)
    by (subst SEInterface_transmit.simps) (simp add: holds_def iface_ok_def mem_write_update)
  moreover have "answered r c (SEInterface_transmit L ?se w1)"
    using again.IH [of w1 ?se] again.prems d(2) y(2-) by (simp add: holds_def iface_ok_def take_update_swap)
  ultimately show ?case
    by simp
next
  case (more a x ps r)
  obtain d where d: "answers (card w) (take (unat (si_apduLen se)) (si_apdu se)) [0x61, x] d" "plays answers ps d c"
    using more.prems by auto
  obtain se1 w1 where y: "bnd (L (si_apdu se) (si_apduLen se) (si_apduResponse se) (si_apduResponseLen se) w) (\<lambda>(ok, r, n, w). ret (ok, se\<lparr>si_apduResponse := r, si_apduResponseLen := n\<rparr>, w)) = ret (True, se1, w1)"
    "holds [0x61, x] se1" "ok w1" "card w1 = d" "si_apdu se1 = si_apdu se" "si_apduLen se1 = si_apduLen se"
    using exchange [of w se "[0x61, x]" d] more.prems d(1) by auto
  have hd: "mem_get (si_apdu se) 0 = Some (hd a)"
    using more.prems(2,3,5) by (cases "si_apdu se") (auto simp: iface_ok_def mem_get_def word_less_nat_alt take_Cons')
  let ?g = "[hd a AND 3, 0xC0, 0, 0, x]"
  let ?se = "se1\<lparr>si_apdu := ?g @ drop (length ?g) (si_apdu se), si_apduLen := 5\<rparr>"
  have "SEInterface_transmit L se w = SEInterface_transmit L ?se w1"
    using y(1,5,6) holds_get [OF y(2), of 0] holds_get [OF y(2), of 1] y(2) more.prems(2) hd
    by (subst SEInterface_transmit.simps) (simp add: holds_def iface_ok_def mem_write_start)
  moreover have "answered r c (SEInterface_transmit L ?se w1)"
    using more.IH [of w1 ?se] more.prems d(2) y(2-) by (simp add: holds_def iface_ok_def)
  ultimately show ?case
    by simp
qed

text \<open>The four cases.\<close>

lemma transmit_cases:
  assumes "ok w" and "iface_ok se" and "plays answers ps (card w) c" and "fitting_responses ps"
  shows "dialog [cla, ins, p1, p2] ps r \<Longrightarrow> answered r c (SEInterface_transmit_case1 L cla ins p1 p2 se w)"
    and "dialog [cla, ins, p1, p2, le] ps r \<Longrightarrow> answered r c (SEInterface_transmit_case2 L cla ins p1 p2 le se w)"
    and "length d \<le> 251 \<Longrightarrow> n = of_nat (length d) \<Longrightarrow> dialog ([cla, ins, p1, p2, of_nat (length d)] @ d) ps r \<Longrightarrow> answered r c (SEInterface_transmit_case3 L cla ins p1 p2 d n se w)"
    and "length d \<le> 250 \<Longrightarrow> n = of_nat (length d) \<Longrightarrow> dialog ([cla, ins, p1, p2, of_nat (length d)] @ d @ [le]) ps r \<Longrightarrow>
      answered r c (SEInterface_transmit_case4 L cla ins p1 p2 d n le se w)"
proof -
  have go: "answered r c (SEInterface_transmit L (se\<lparr>si_apdu := a @ drop (length a) (si_apdu se), si_apduLen := k\<rparr>) w)"
    if "dialog a ps r" "k = of_nat (length a)" "0 < length a" "length a \<le> 256" for a k
    using transmit_dialog [OF that(1) assms(1), of "se\<lparr>si_apdu := a @ drop (length a) (si_apdu se), si_apduLen := k\<rparr>" c] that(2-) assms
    by (simp add: iface_ok_def small_u16 word_le_nat_alt word_less_nat_alt)
  have l: "length (si_apdu se) = 262"
    using assms(2) by (simp add: iface_ok_def)
  show "dialog [cla, ins, p1, p2] ps r \<Longrightarrow> answered r c (SEInterface_transmit_case1 L cla ins p1 p2 se w)"
    using go [of "[cla, ins, p1, p2]" 4] l by (simp add: SEInterface_transmit_case1_def mem_write_start)
  show "dialog [cla, ins, p1, p2, le] ps r \<Longrightarrow> answered r c (SEInterface_transmit_case2 L cla ins p1 p2 le se w)"
    using go [of "[cla, ins, p1, p2, le]" 5] l by (simp add: SEInterface_transmit_case2_def mem_write_start)
  show "answered r c (SEInterface_transmit_case3 L cla ins p1 p2 d n se w)"
    if "length d \<le> 251" "n = of_nat (length d)" "dialog ([cla, ins, p1, p2, of_nat (length d)] @ d) ps r"
    using go [OF that(3), of "5 + n"] that l by (simp add: SEInterface_transmit_case3_def mem_write_start mem_read_def small_u16 low_byte)
  show "answered r c (SEInterface_transmit_case4 L cla ins p1 p2 d n le se w)"
    if "length d \<le> 250" "n = of_nat (length d)" "dialog ([cla, ins, p1, p2, of_nat (length d)] @ d @ [le]) ps r"
    using go [OF that(3), of "5 + n + 1"] that l by (simp add: SEInterface_transmit_case4_def mem_write_start mem_read_def small_u16 low_byte)
qed

end

section \<open>Files\<close>

text \<open>
  File control parameters: the template \<open>62\<close> with fields of other tags before the field \<open>80\<close>, whose bytes are the size of
  the file, most significant first.
\<close>

definition tlv :: "u8 \<times> u8 list \<Rightarrow> u8 list" where
  "tlv f = [fst f, of_nat (length (snd f))] @ snd f"

definition big_endian :: "u8 list \<Rightarrow> nat" where
  "big_endian bs = foldl (\<lambda>s b. 256 * s + unat b) 0 bs"

definition announces :: "u8 list \<Rightarrow> nat \<Rightarrow> bool" where
  "announces fcp n \<longleftrightarrow>
     (\<exists>l fs bs r. fcp = [0x62, l] @ concat (map tlv fs) @ tlv (0x80, bs) @ r \<and> (\<forall>f \<in> set fs. fst f \<noteq> 0x80 \<and> length (snd f) < 256) \<and>
        length bs < 256 \<and> big_endian bs = n)"

lemma size_step: "push_bit 8 (of_nat s :: u16) OR ucast b = of_nat (256 * s + unat (b :: u8))"
proof -
  have "push_bit 8 (of_nat s :: u16) AND ucast b = 0"
    by (rule bit_word_eqI) (auto simp: bit_simps dest: bit_imp_le_length)
  then have "push_bit 8 (of_nat s :: u16) OR ucast b = push_bit 8 (of_nat s) + ucast b"
    by (rule disjunctive_add_eq_or [symmetric])
  then show ?thesis
    by (simp add: push_bit_eq_mult mult.commute)
qed

lemma size_loop_bytes:
  assumes "m = p @ bs @ r" and "length m < 65536"
  shows "size_loop m (of_nat (length p)) (length bs) (of_nat s) = Some (of_nat (foldl (\<lambda>s b. 256 * s + unat b) s bs))"
  using assms
proof (induction bs arbitrary: p s)
  case (Cons b bs)
  have "mem_get m (unat (of_nat (length p) :: u16)) = Some b"
    using Cons.prems by (simp add: small_u16 mem_get_def nth_append)
  moreover have "size_loop m (of_nat (length (p @ [b]))) (length bs) (of_nat (256 * s + unat b)) = Some (of_nat (foldl (\<lambda>s b. 256 * s + unat b) (256 * s + unat b) bs))"
    using Cons.IH [of "p @ [b]" "256 * s + unat b"] Cons.prems by simp
  ultimately show ?case
    by (simp add: size_step add.commute)
qed simp

lemma tlv_loop_size:
  assumes "m = p @ concat (map tlv fs) @ tlv (0x80, bs) @ r" and "length m < 65000" and "length p + length (concat (map tlv fs)) < unat dataLen"
    and "\<forall>f \<in> set fs. fst f \<noteq> 0x80 \<and> length (snd f) < 256" and "length bs < 256"
  shows "tlv_loop m dataLen (of_nat (length p)) = ret (Some (of_nat (big_endian bs)))"
  using assms
proof (induction fs arbitrary: p)
  case Nil
  have i: "of_nat (length p) < dataLen" "mem_get m (unat (of_nat (length p) :: u16)) = Some 0x80" "mem_get m (unat (of_nat (length p) + 1 :: u16)) = Some (of_nat (length bs))"
    using Nil.prems small_u16 [of "Suc (length p)"] by (simp_all add: word_less_nat_alt small_u16 mem_get_def nth_append tlv_def add.commute)
  have "size_loop m (of_nat (length (p @ [0x80, of_nat (length bs)]))) (length bs) (of_nat 0) = Some (of_nat (big_endian bs))"
    using size_loop_bytes [of m "p @ [0x80, of_nat (length bs)]" bs r 0] Nil.prems by (simp add: tlv_def big_endian_def)
  then have "size_loop m (of_nat (length p) + 1 + 1) (unat (of_nat (length bs) :: u8)) 0 = Some (of_nat (big_endian bs))"
    using Nil.prems(5) by (simp add: unsigned_of_nat take_bit_nat_eq_self add.commute)
  then show ?case
    using i by (simp add: tlv_loop.simps [of m dataLen])
next
  case (Cons f fs)
  let ?l = "length (snd f)"
  have i: "of_nat (length p) < dataLen" "mem_get m (unat (of_nat (length p) :: u16)) = Some (fst f)" "mem_get m (unat (of_nat (length p) + 1 :: u16)) = Some (of_nat ?l)" "fst f \<noteq> 0x80"
    using Cons.prems small_u16 [of "Suc (length p)"] by (simp_all add: word_less_nat_alt small_u16 mem_get_def nth_append tlv_def add.commute)
  have "ucast (of_nat ?l :: u8) = (of_nat ?l :: u16)"
    using Cons.prems(4) by (simp add: unsigned_of_nat take_bit_nat_eq_self)
  then have "tlv_loop m dataLen (of_nat (length p)) = tlv_loop m dataLen (of_nat (length (p @ tlv f)))"
    using i by (subst tlv_loop.simps) (simp add: tlv_def algebra_simps)
  then show ?case
    using Cons.IH [of "p @ tlv f"] Cons.prems by simp
qed

lemma announced_size:
  assumes "announces fcp n" and "holds (fcp @ [a, b]) se"
  shows "getEFSize (si_apduResponse se) (SEInterface_getResponseLength se) = ret (Some (of_nat n))"
proof -
  obtain l fs bs r where f: "fcp = [0x62, l] @ concat (map tlv fs) @ tlv (0x80, bs) @ r" "\<forall>f \<in> set fs. fst f \<noteq> 0x80 \<and> length (snd f) < 256"
    "length bs < 256" "big_endian bs = n"
    using assms(1) by (auto simp: announces_def)
  let ?m = "si_apduResponse se"
  have m: "?m = [0x62, l] @ concat (map tlv fs) @ tlv (0x80, bs) @ (r @ [a, b] @ drop (length fcp + 2) ?m)"
    using assms(2) append_take_drop_id [of "length (fcp @ [a, b])" ?m] f(1) by (simp add: holds_def)
  have "length ?m < 65000"
    using assms(2) by (simp add: holds_def iface_ok_def)
  then have "tlv_loop ?m (SEInterface_getResponseLength se) 2 = ret (Some (of_nat n))"
    using tlv_loop_size [OF m _ _ f(2,3), of "SEInterface_getResponseLength se"] holds_response(2) [OF assms(2)] f(1,4) by (simp add: tlv_def)
  moreover have "mem_get ?m 0 = Some 0x62"
    using holds_get [OF assms(2), of 0] f(1) by simp
  ultimately show ?thesis
    by (simp add: getEFSize_def)
qed

text \<open>
  Reading the bytes from \<open>i\<close> on of \<open>n\<close> bytes that are stored at the offset \<open>b\<close>, in any pieces: READ BINARY asks for what is missing, at
  most \<open>mx\<close> bytes, and the card answers with no more than that.
\<close>

inductive reading :: "u8 \<Rightarrow> nat \<Rightarrow> nat \<Rightarrow> nat \<Rightarrow> nat \<Rightarrow> u8 list \<Rightarrow> (u8 list \<times> u8 list) list \<Rightarrow> bool" for ch mx b n where
  read_all: "reading ch mx b n n [] []"
| read_part: "i < n \<Longrightarrow> dialog [ch, 0xB0, of_nat ((b + i) div 256), of_nat (b + i), of_nat (min mx (n - i))] p (c @ [0x90, 0]) \<Longrightarrow> length c \<le> min mx (n - i) \<Longrightarrow>
    reading ch mx b n (i + length c) bs q \<Longrightarrow> reading ch mx b n i (c @ bs) (p @ q)"

text \<open>The parts of a session with the applet on channel \<open>ch\<close>: open and select, verify the PIN, serve a file, close.\<close>

definition opens :: "u8 \<Rightarrow> u8 list \<Rightarrow> (u8 list \<times> u8 list) list \<Rightarrow> bool" where
  "opens ch aid ps \<longleftrightarrow> (\<exists>p q d. ps = p @ q \<and> dialog [0, 0x70, 0, 0, 1] p [ch, 0x90, 0] \<and> dialog ([ch, 0xA4, 4, 0, of_nat (length aid)] @ aid) q (d @ [0x90, 0]))"

definition accepts :: "u8 \<Rightarrow> u8 list \<Rightarrow> (u8 list \<times> u8 list) list \<Rightarrow> bool" where
  "accepts ch pin ps \<longleftrightarrow> (\<exists>d. dialog ([ch, 0x20, 0, 1, 8] @ pad_pin pin) ps (d @ [0x90, 0]))"

definition serves :: "u8 \<Rightarrow> u8 list \<Rightarrow> u8 list \<Rightarrow> (u8 list \<times> u8 list) list \<Rightarrow> bool" where
  "serves ch path content ps \<longleftrightarrow>
     (\<exists>p q fcp. ps = p @ q \<and> dialog ([ch, 0xA4, 8, 4, of_nat (length path)] @ path @ [0]) p (fcp @ [0x90, 0]) \<and>
        announces fcp (length content) \<and> reading ch 255 0 (length content) 0 content q)"

definition closes :: "u8 \<Rightarrow> (u8 list \<times> u8 list) list \<Rightarrow> bool" where
  "closes ch ps \<longleftrightarrow> (\<exists>d. dialog [0, 0x70, 0x80, ch] ps (d @ [0x90, 0]))"

lemma high_byte: "i < 65536 \<Longrightarrow> ucast (drop_bit 8 (of_nat i :: u16)) = (of_nat (i div 256) :: u8)"
proof -
  assume "i < 65536"
  then have "drop_bit 8 (of_nat i :: u16) = of_nat (i div 256)"
    by (simp add: word_unat_eq_iff drop_bit_eq_div unat_div small_u16 unsigned_of_nat take_bit_nat_eq_self)
  then show ?thesis
    by (simp add: low_byte)
qed

lemma asked_length:
  assumes "i < n" and "n < 65536"
  shows "(if 255 \<le> unat (of_nat n :: u16) - unat (of_nat i :: u16) then 255 else ucast (of_nat n - of_nat i :: u16)) = (of_nat (min 255 (n - i)) :: u8)"
proof -
  have "of_nat n - of_nat i = (of_nat (n - i) :: u16)"
    using assms by simp
  then show ?thesis
    using assms by (auto simp: small_u16 low_byte min_def simp del: of_nat_diff)
qed

context card_link
begin

lemma status_ok: "answered (d @ [0x90, 0]) c x \<Longrightarrow> \<exists>se w. x = ret (True, se, w) \<and> holds (d @ [0x90, 0]) se \<and> SEInterface_getStatusWord se = Some 0x9000 \<and> iface_ok se \<and> ok w \<and> card w = c"
  by (auto simp: answered_def holds_status holds_ok)

lemma selecting_aid:
  assumes "ok w" and "iface_ok se" and "plays answers ps (card w) c" and "fitting_responses ps" and "length (ap_aid ap) \<le> 251"
    and "dialog ([cla, 0xA4, 4, 0, of_nat (length (ap_aid ap))] @ ap_aid ap) ps (d @ [0x90, 0])"
  shows "\<exists>se' w'. select_aid L cla ap se w = ret (True, se', w') \<and> iface_ok se' \<and> ok w' \<and> card w' = c"
  using status_ok [OF transmit_cases(3) [OF assms(1-5) refl assms(6)]] by (auto simp: select_aid_def)

lemma applet_selected:
  assumes "opens ch (ap_aid ap) ps" and "ok w" and "iface_ok se" and "plays answers ps (card w) c" and "fitting_responses ps" and "length (ap_aid ap) \<le> 251"
    and "ap_seiface ap" and "\<not> ap_isSelected ap"
  shows "\<exists>se' w'. Applet_select L False ap se w = ret (True, ap\<lparr>ap_channel := ch, ap_isSelected := True, ap_isBasic := False\<rparr>, se', w') \<and> iface_ok se' \<and> ok w' \<and> card w' = c"
proof -
  obtain p q d e where pq: "ps = p @ q" "dialog [0, 0x70, 0, 0, 1] p ([ch] @ [0x90, 0])" "dialog ([ch, 0xA4, 4, 0, of_nat (length (ap_aid ap))] @ ap_aid ap) q (d @ [0x90, 0])"
    "plays answers p (card w) e" "plays answers q e c" "fitting_responses p" "fitting_responses q"
    using assms(1,4,5) by (auto simp: opens_def plays_append)
  obtain se1 w1 where x: "SEInterface_transmit_case2 L 0 0x70 0 0 1 se w = ret (True, se1, w1)" "holds ([ch] @ [0x90, 0]) se1" "SEInterface_getStatusWord se1 = Some 0x9000"
    "iface_ok se1" "ok w1" "card w1 = e"
    using status_ok [OF transmit_cases(2) [OF assms(2,3) pq(4,6,2)]] by auto
  obtain se2 w2 where y: "select_aid L ch (ap\<lparr>ap_channel := ch\<rparr>) se1 w1 = ret (True, se2, w2)" "iface_ok se2" "ok w2" "card w2 = c"
    using selecting_aid [OF x(5,4), of q c "ap\<lparr>ap_channel := ch\<rparr>" ch d] pq(3,5,7) x(6) assms(6) by auto
  have "SEInterface_getResponse se1 = Some [ch]"
    by (rule holds_response(1) [OF x(2)])
  then show ?thesis
    using x y assms(7,8) by (simp add: Applet_select_def Applet_deselect_def store_channel_def)
qed

lemma applet_deselected:
  assumes "closes (ap_channel ap) ps" and "ok w" and "iface_ok se" and "plays answers ps (card w) c" and "fitting_responses ps"
    and "ap_seiface ap" and "ap_isSelected ap" and "\<not> ap_isBasic ap"
  shows "\<exists>se' w'. Applet_deselect L ap se w = ret (False, ap\<lparr>ap_isSelected := False\<rparr>, se', w') \<and> iface_ok se' \<and> ok w' \<and> card w' = c"
proof -
  obtain d where "dialog [0, 0x70, 0x80, ap_channel ap] ps (d @ [0x90, 0])"
    using assms(1) by (auto simp: closes_def)
  then show ?thesis
    using status_ok [OF transmit_cases(1) [OF assms(2-5)]] assms(6-8) by (fastforce simp: Applet_deselect_def)
qed

lemma pin_verified:
  assumes "accepts (ap_channel ap) pin ps" and "ok w" and "iface_ok se" and "plays answers ps (card w) c" and "fitting_responses ps"
    and "ap_isSelected ap" and "length pin \<le> 8"
  shows "\<exists>se' w'. MF_verifyPin L pin ap se w = ret (True, se', w') \<and> iface_ok se' \<and> ok w' \<and> card w' = c"
proof -
  obtain d where d: "dialog ([ap_channel ap, 0x20, 0, 1, 8] @ pad_pin pin) ps (d @ [0x90, 0])"
    using assms(1) by (auto simp: accepts_def)
  have l: "length (pad_pin pin) = 8"
    using assms(7) by (simp add: pad_pin_def)
  have "answered (d @ [0x90, 0]) c (SEInterface_transmit_case3 L (ap_channel ap) 0x20 0 1 (pad_pin pin) (of_nat (length (pad_pin pin))) se w)"
    using transmit_cases(3) [OF assms(2-5), where d = "pad_pin pin" and r = "d @ [0x90, 0]" and cla = "ap_channel ap" and ins = "0x20" and ?p1.0 = "0" and ?p2.0 = "1"] d l by simp
  then show ?thesis
    using status_ok assms(6,7) by (fastforce simp: MF_verifyPin_def pin_command_def checked_def Applet_transmit_case3_def Applet_getStatusWord_def)
qed

lemma file_loop:
  "reading (ap_channel ap) 255 0 n i content ps \<Longrightarrow> ok w \<Longrightarrow> iface_ok se \<Longrightarrow> plays answers ps (card w) c \<Longrightarrow> fitting_responses ps \<Longrightarrow>
   ap_isSelected ap \<Longrightarrow> n < 65536 \<Longrightarrow> length pre = i \<Longrightarrow> length junk = n + 1 - i \<Longrightarrow>
   \<exists>se' w' x. ef_loop L (of_nat n) (Some (pre @ junk)) (of_nat i) ap se w = ret (True, Some (pre @ content @ [x]), of_nat n, se', w') \<and> iface_ok se' \<and> ok w' \<and> card w' = c"
proof (induction arbitrary: w se pre junk rule: reading.induct)
  case read_all
  then obtain x where "junk = [x]"
    by (auto simp: length_Suc_conv)
  then show ?case
    using read_all by (simp add: ef_loop.simps [of L])
next
  case (read_part i p ch bs q)
  obtain e where e: "plays answers p (card w) e" "plays answers q e c"
    using read_part.prems(3) by (auto simp: plays_append)
  have i: "of_nat i < (of_nat n :: u16)"
    using read_part.hyps(1) read_part.prems(6) by (simp add: word_less_nat_alt small_u16)
  obtain se1 w1 where x: "SEInterface_transmit_case2 L (ap_channel ap) 0xB0 (of_nat (i div 256)) (of_nat i) (of_nat (min 255 (n - i))) se w = ret (True, se1, w1)"
    "holds (ch @ [0x90, 0]) se1" "SEInterface_getStatusWord se1 = Some 0x9000" "iface_ok se1" "ok w1" "card w1 = e"
    using status_ok [OF transmit_cases(2) [OF read_part.prems(1,2) e(1) _ read_part.hyps(2)]] read_part.prems(4) by auto
  have st: "store_at (Some (pre @ junk)) i ch = Some (Some ((pre @ ch) @ drop (length ch) junk))"
    using read_part.hyps(3) read_part.prems(7,8) by (auto simp: store_at_def mem_write_def)
  have "ef_loop L (of_nat n) (Some (pre @ junk)) (of_nat i) ap se w = ef_loop L (of_nat n) (Some ((pre @ ch) @ drop (length ch) junk)) (of_nat (i + length ch)) ap se1 w1"
    using i x st read_part.hyps(1) read_part.prems(5,6) holds_response(1) [OF x(2)] asked_length [OF read_part.hyps(1) read_part.prems(6)] high_byte [of i] low_byte [of i]
    by (subst ef_loop.simps) (simp add: Applet_transmit_case2_def Applet_getStatusWord_def Applet_getResponse_def small_u16)
  then show ?case
    using read_part.IH [OF x(5,4), of "pre @ ch" "drop (length ch) junk"] e(2) x(6) read_part.prems(4-) read_part.hyps(3) by auto
qed

lemma file_read:
  assumes "serves (ap_channel ap) path content ps" and "ok w" and "iface_ok se" and "plays answers ps (card w) c" and "fitting_responses ps"
    and "ap_isSelected ap" and "length path \<le> 250" and "pathLen = of_nat (length path)" and "length content < 65535" and "alloc (length content + 1) = Some buf" and "length buf = length content + 1"
  shows "\<exists>se' w'. MF_readEF alloc L path pathLen n ap se w = ret (True, Some (content @ [0]), of_nat (length content + 1), se', w') \<and> iface_ok se' \<and> ok w' \<and> card w' = c"
proof -
  obtain p q fcp e where pq: "ps = p @ q" "dialog ([ap_channel ap, 0xA4, 8, 4, of_nat (length path)] @ path @ [0]) p (fcp @ [0x90, 0])"
    "announces fcp (length content)" "reading (ap_channel ap) 255 0 (length content) 0 content q" "plays answers p (card w) e" "plays answers q e c"
    "fitting_responses p" "fitting_responses q"
    using assms(1,4,5) by (auto simp: serves_def plays_append)
  obtain se1 w1 where x: "SEInterface_transmit_case4 L (ap_channel ap) 0xA4 8 4 path pathLen 0 se w = ret (True, se1, w1)"
    "holds (fcp @ [0x90, 0]) se1" "SEInterface_getStatusWord se1 = Some 0x9000" "iface_ok se1" "ok w1" "card w1 = e"
    using status_ok [OF transmit_cases(4) [OF assms(2,3) pq(5,7) assms(7,8) pq(2)]] by auto
  obtain se2 w2 z where y: "ef_loop L (of_nat (length content)) (Some buf) 0 ap se1 w1 = ret (True, Some (content @ [z]), of_nat (length content), se2, w2)" "iface_ok se2" "ok w2" "card w2 = c"
    using file_loop [OF pq(4) x(5,4), of c "[]" buf] pq(6,8) x(6) assms(6,9,11) by auto
  have "store_at (Some (content @ [z])) (length content) [0] = Some (Some (content @ [0]))"
    by (simp add: store_at_def mem_write_def)
  then show ?thesis
    using x y announced_size [OF pq(3) x(2)] assms(6,9,10)
    by (simp add: MF_readEF_def Applet_transmit_case4_def Applet_getStatusWord_def small_u16 add.commute)
qed

end

section \<open>The card behind the modem\<close>

text \<open>An exchange as the modem sees it: the command, and the response between empty lines and \<open>OK\<close>.\<close>

definition exchange_text :: "u8 list \<times> u8 list \<Rightarrow> u8 list \<times> u8 list" where
  "exchange_text e = (apdu_command (fst e), crlf @ csim_line (2 * length (snd e)) (snd e) @ crlf @ ok_line)"

text \<open>The link is ready: the line is idle, the parser unlocked, and what is still to be sent fits into the transmit ring.\<close>

definition shield_ok :: "at_t \<times> line \<Rightarrow> bool" where
  "shield_ok aw \<longleftrightarrow> (case aw of (at, ln) \<Rightarrow> line_ok ln \<and> line_rest ln = [] \<and> modem_at 1 at \<and> locked at = 0 \<and> fst (line_peer ln) = [] \<and>
     length (concat (map fst (snd (line_peer ln)))) \<le> line_cap ln)"

definition shield_card :: "at_t \<times> line \<Rightarrow> (u8 list \<times> u8 list) list \<times> u8 list" where
  "shield_card aw = (snd (line_peer (snd aw)), line_sent (snd aw))"

definition shield_answers :: "(u8 list \<times> u8 list) list \<times> u8 list \<Rightarrow> u8 list \<Rightarrow> u8 list \<Rightarrow> (u8 list \<times> u8 list) list \<times> u8 list \<Rightarrow> bool" where
  "shield_answers c a r d \<longleftrightarrow> fst c = exchange_text (a, r) # fst d \<and> snd d = snd c @ apdu_command a"

interpretation shield: card_link "ConnectShieldSE_transmitApdu line_board" shield_ok shield_card shield_answers
proof unfold_locales
  fix w :: "at_t \<times> line" and n old :: u16 and m buf :: mem and r :: "u8 list" and c :: "(u8 list \<times> u8 list) list \<times> u8 list"
  assume a: "shield_ok w" "n \<le> 256" "unat n \<le> length m" "shield_answers (shield_card w) (take (unat n) m) r c" "r \<noteq> []" "length r \<le> length buf" "length buf = 258"
  obtain at ln where w: "w = (at, ln)"
    by (cases w)
  have l: "line_ok ln" "line_rest ln = []" "modem_at 1 at" "locked at = 0" "length (concat (map fst (snd (line_peer ln)))) \<le> line_cap ln"
    using a(1) by (simp_all add: shield_ok_def w)
  have p: "line_peer ln = ([], (apdu_command (take (unat n) m), crlf @ csim_line (2 * length r) r @ crlf @ ok_line) # fst c)" "snd c = line_sent ln @ apdu_command (take (unat n) m)"
    using a(1,4) by (auto simp: shield_ok_def shield_card_def shield_answers_def exchange_text_def w prod_eq_iff)
  then have "length (apdu_command (take (unat n) m)) \<le> line_cap ln"
    using l(5) by simp
  then obtain ln' where "modem_send_apdu line_board m n buf at ln = ret (True, r @ drop (length r) buf, of_nat (length r), at, ln')" "line_ok ln'" "line_rest ln' = []"
    "line_peer ln' = ([], fst c)" "line_sent ln' = line_sent ln @ apdu_command (take (unat n) m)" "line_cap ln \<le> line_cap ln' + length (apdu_command (take (unat n) m))"
    using apdu_round [OF l(1-4) a(2,3) p(1) _ a(5) blank_crlf(1) blank_crlf(1), of buf] a(6) by auto
  then show "\<exists>w'. ConnectShieldSE_transmitApdu line_board m n buf old w = ret (True, r @ drop (length r) buf, of_nat (length r), w') \<and> shield_ok w' \<and> shield_card w' = c"
    using l p by (auto simp: ConnectShieldSE_transmitApdu_def w shield_ok_def shield_card_def prod_eq_iff)
qed

lemma shield_plays: "plays shield_answers ps (map exchange_text ps @ script, s) (script, s @ concat (map (apdu_command \<circ> fst) ps))"
proof (induction ps arbitrary: s)
  case (Cons e ps)
  have "shield_answers (map exchange_text (e # ps) @ script, s) (fst e) (snd e) (map exchange_text ps @ script, s @ apdu_command (fst e))"
    by (simp add: shield_answers_def)
  then show ?case
    using Cons.IH [of "s @ apdu_command (fst e)"] by auto
qed simp

text \<open>
  A file of the card is read over the modem.  The applet is selected on a logical channel, and the card
  answers the selection of the file with parameters that announce \<open>n\<close> bytes and hands these out in any pieces,
  directly or by way of \<open>61xx\<close> and \<open>6Cxx\<close>.  Then \<open>MF::readEF\<close> returns true with exactly the content of the file and a
  terminating zero, and has sent exactly the \<open>AT+CSIM\<close> commands of the dialogue.
\<close>

theorem file_fetched:
  assumes "serves (ap_channel ap) path content ps" and "shield_ok (at, ln)" and "iface_ok se" and "snd (line_peer ln) = map exchange_text ps @ script" and "fitting_responses ps"
    and "ap_isSelected ap" and "length path \<le> 250" and "length content < 65535" and "alloc (length content + 1) = Some buf" and "length buf = length content + 1"
  shows "\<exists>se' at' ln'. MF_readEF alloc (ConnectShieldSE_transmitApdu line_board) path (of_nat (length path)) n ap se (at, ln) =
      ret (True, Some (content @ [0]), of_nat (length content + 1), se', at', ln') \<and> shield_ok (at', ln') \<and> snd (line_peer ln') = script \<and>
    line_sent ln' = line_sent ln @ concat (map (apdu_command \<circ> fst) ps)"
proof -
  have "plays shield_answers ps (shield_card (at, ln)) (script, line_sent ln @ concat (map (apdu_command \<circ> fst) ps))"
    using shield_plays [of ps script "line_sent ln"] assms(4) by (simp add: shield_card_def)
  from shield.file_read [where alloc = alloc, OF assms(1,2,3) this assms(5-7) refl assms(8-10), of n] show ?thesis
    by (auto simp: shield_card_def)
qed

text \<open>Deselection reports the opposite of what its comment says.\<close>

lemma deselect_reports_inverse:
  assumes "Applet_deselect L ap se w = ret (b, ap', se', w')"
  shows "b \<longleftrightarrow> ap_isSelected ap'"
  using assms unfolding Applet_deselect_def by (auto simp: bnd_eq_ret)

text \<open>A response of more than one byte to MANAGE CHANNEL is written over the members of the applet.\<close>

lemma channel_overrun: "1 < length bs \<Longrightarrow> store_channel bs ap = None"
  by (auto simp: store_channel_def split: list.splits)

section \<open>Instances\<close>

text \<open>A file with the bytes \<open>1 2 3\<close>, announced through \<open>61xx\<close> and read in two pieces.\<close>

definition file_dialogue :: "(u8 list \<times> u8 list) list" where
  "file_dialogue =
     [([1, 0xA4, 8, 4, 2, 0x7F, 0xAA, 0], [0x61, 8]), ([1, 0xC0, 0, 0, 8], [0x62, 6, 0x82, 1, 0x41, 0x80, 1, 3, 0x90, 0]),
      ([1, 0xB0, 0, 0, 3], [1, 2, 0x90, 0]), ([1, 0xB0, 0, 2, 1], [3, 0x90, 0])]"

lemma dialog_final: "0x61 \<noteq> hd r \<Longrightarrow> 0x6C \<noteq> hd r \<Longrightarrow> dialog a [(a, r)] r"
  by (rule final) auto

lemma file_dialogue_serves: "serves 1 [0x7F, 0xAA] [1, 2, 3] file_dialogue"
proof -
  let ?fcp = "[0x62, 6, 0x82, 1, 0x41, 0x80, 1, 3] :: u8 list"
  have "dialog [1, 0xC0, 0, 0, 8] [([1, 0xC0, 0, 0, 8], ?fcp @ [0x90, 0])] (?fcp @ [0x90, 0])"
    by (rule dialog_final) simp_all
  then have p: "dialog ([1, 0xA4, 8, 4, of_nat (length [0x7F, 0xAA :: u8])] @ [0x7F, 0xAA] @ [0]) (take 2 file_dialogue) (?fcp @ [0x90, 0])"
    using more [of "[1, 0xA4, 8, 4, 2, 0x7F, 0xAA, 0]" 8 "[([1, 0xC0, 0, 0, 8], ?fcp @ [0x90, 0])]" "?fcp @ [0x90, 0]"] by (simp add: file_dialogue_def)
  have f: "announces ?fcp (length [1, 2, 3 :: u8])"
    unfolding announces_def by (intro exI [of _ 6] exI [of _ "[(0x82, [0x41])]"] exI [of _ "[3]"] exI [of _ "[]"]) (simp add: tlv_def big_endian_def)
  have d: "dialog [1, 0xB0, 0, 0, 3] [([1, 0xB0, 0, 0, 3], [1, 2] @ [0x90, 0])] ([1, 2] @ [0x90, 0])"
    "dialog [1, 0xB0, 0, 2, 1] [([1, 0xB0, 0, 2, 1], [3] @ [0x90, 0])] ([3] @ [0x90, 0])"
    by (rule dialog_final; simp)+
  have "reading 1 255 0 3 (2 + length [3 :: u8]) [] []"
    using read_all [of 1 255 0 3] by simp
  then have "reading 1 255 0 3 2 ([3] @ []) ([([1, 0xB0, 0, 2, 1], [3] @ [0x90, 0])] @ [])"
    using d(2) by (intro read_part [where i = 2]) simp_all
  then have "reading 1 255 0 3 (0 + length [1, 2 :: u8]) ([3] @ []) ([([1, 0xB0, 0, 2, 1], [3] @ [0x90, 0])] @ [])"
    by (simp add: numeral_2_eq_2)
  then have "reading 1 255 0 3 0 ([1, 2] @ [3] @ []) ([([1, 0xB0, 0, 0, 3], [1, 2] @ [0x90, 0])] @ [([1, 0xB0, 0, 2, 1], [3] @ [0x90, 0])] @ [])"
    using d(1) by (intro read_part [where i = 0]) simp_all
  then have q: "reading 1 255 0 (length [1, 2, 3 :: u8]) 0 [1, 2, 3] (drop 2 file_dialogue)"
    by (simp add: file_dialogue_def numeral_3_eq_3)
  show ?thesis
    unfolding serves_def by (intro exI [of _ "take 2 file_dialogue"] exI [of _ "drop 2 file_dialogue"] exI [of _ ?fcp] conjI p f q) simp
qed

definition fresh_iface :: se_iface where
  "fresh_iface = \<lparr>si_apdu = replicate 262 0, si_apduLen = 0, si_apduResponse = replicate 258 0, si_apduResponseLen = 0\<rparr>"

definition open_mf :: Applet where
  "open_mf = (Applet_init MF_create)\<lparr>ap_channel := 1, ap_isSelected := True\<rparr>"

lemma fresh_iface_ok: "iface_ok fresh_iface"
  by (simp add: iface_ok_def fresh_iface_def)

lemma file_script_short:
  "length (concat (map snd (map exchange_text file_dialogue))) \<le> 999" "length (concat (map fst (map exchange_text file_dialogue))) \<le> 999"
  by code_simp+

lemma scripted_shield:
  assumes "length (concat (map snd script)) \<le> 999" and "length (concat (map fst script)) \<le> 999"
  shows "shield_ok (idle_at, scripted script)"
  using scripted_ok [OF assms(1)] idle_at_ok assms(2) by (simp add: shield_ok_def)

theorem file_fetched_witness:
  "\<exists>se' at' ln'. MF_readEF (\<lambda>n. Some (replicate n 0)) (ConnectShieldSE_transmitApdu line_board) [0x7F, 0xAA] 2 0 open_mf fresh_iface
     (idle_at, scripted (map exchange_text file_dialogue)) = ret (True, Some [1, 2, 3, 0], 4, se', at', ln')"
proof -
  have "serves (ap_channel open_mf) [0x7F, 0xAA] [1, 2, 3] file_dialogue" "ap_isSelected open_mf"
    using file_dialogue_serves by (simp_all add: open_mf_def)
  moreover have "snd (line_peer (scripted (map exchange_text file_dialogue))) = map exchange_text file_dialogue @ []"
    using scripted_ok(3) [OF file_script_short(1)] by simp
  moreover have "fitting_responses file_dialogue"
    by (simp add: file_dialogue_def)
  ultimately show ?thesis
    using file_fetched [of open_mf "[0x7F, 0xAA]" "[1, 2, 3]" file_dialogue idle_at "scripted (map exchange_text file_dialogue)" fresh_iface "[]"
        "\<lambda>n. Some (replicate n 0)" "[0, 0, 0, 0]" 0] scripted_shield [OF file_script_short] fresh_iface_ok by auto
qed

end
