(* ===== verification/Se_Keys.thy ===== *)
theory Se_Keys
  imports Modem_Exchange
begin

text \<open>
  Keys and certificates in the secure element, \<open>mbedtls/src/mbedtls_se.c\<close>: paths that name an elementary file,
  a PKCS#11 object or a key container, and the RSA operations that the element performs for mbedTLS.

  The applets are C++ classes (\<open>MF\<close>, \<open>MIAS\<close>); what the file calls of them is the record \<open>'s se_ops\<close>, an
  argument of every operation, with \<open>'s\<close> the state of the element and of both applets.  mbedTLS's
  parsers and \<open>mbedtls_pk_setup_rsa_alt\<close> are the record \<open>('c, 'p) mbed_ops\<close>.  The file has two branches for each call,
  one for C++ and one for C through accessors that forward to the same methods; they differ
  only in \<open>mbedtls_se_p11_read_object\<close>, which therefore has the argument \<open>cpp\<close>.

  A result \<open>None\<close> is undefined behaviour: an access outside an object, a call through a NULL applet, or the
  use of a variable that was not initialised (\<open>Uninit\<close>).
\<close>

section \<open>Interfaces\<close>

datatype applet = MF | MIAS

text \<open>A key pair; the pointer to the next one is the tail of a list.\<close>

record mias_key_pair_t =
  kid :: u8
  flags :: u16
  size_in_bits :: u16
  pub_file_id :: "u8 list"
  has_cert :: bool

text \<open>An object that the applet has allocated, or nothing: \<open>(ok, data, size)\<close>.\<close>

type_synonym 's fetch = "'s \<Rightarrow> bool \<times> mem option \<times> u16 \<times> 's"

record 's se_ops =
  op_new :: "'s \<Rightarrow> 's"
  op_select :: "applet \<Rightarrow> 's \<Rightarrow> bool \<times> 's"
  op_deselect :: "applet \<Rightarrow> 's \<Rightarrow> 's"
  op_verifyPin :: "applet \<Rightarrow> u8 list \<Rightarrow> 's \<Rightarrow> bool \<times> 's"
  op_readEF :: "u8 list \<Rightarrow> 's fetch"
  op_p11GetObjectByLabel :: "u8 list \<Rightarrow> 's fetch"
  op_getCertificateByContainerId :: "u8 \<Rightarrow> 's fetch"
  op_getKeyPairByContainerId :: "u8 \<Rightarrow> 's \<Rightarrow> mias_key_pair_t option \<times> 's"
  op_decryptInit :: "u8 \<Rightarrow> u8 \<Rightarrow> 's \<Rightarrow> bool \<times> 's"
  op_decryptFinal :: "u8 list \<Rightarrow> 's \<Rightarrow> bool \<times> u8 list \<times> 's"
  op_signInit :: "u8 \<Rightarrow> u8 \<Rightarrow> 's \<Rightarrow> bool \<times> 's"
  op_signFinal :: "u8 list \<Rightarrow> 's \<Rightarrow> bool \<times> u8 list \<times> 's"

text \<open>\<open>mias_key_t\<close>, the context that mbedTLS hands back to the RSA functions.\<close>

record mias_key_t =
  key_pin :: mem
  key_kp :: mias_key_pair_t

record ('c, 'p) mbed_ops =
  op_crt_parse :: "mem \<Rightarrow> 'c \<Rightarrow> int \<times> 'c"
  op_parse_key :: "mem \<Rightarrow> 'p \<Rightarrow> int \<times> 'p"
  op_setup_rsa_alt :: "mias_key_t \<Rightarrow> 'p \<Rightarrow> int \<times> 'p"

text \<open>The static pointers \<open>_mf\<close> and \<open>_mias\<close>, set together by \<open>mbedtls_se_init\<close>, and the element.\<close>

record 's se =
  se_created :: bool
  se_card :: 's

definition MBEDTLS_ERR_SE_MIAS_SELECT_ERROR :: int where "MBEDTLS_ERR_SE_MIAS_SELECT_ERROR = -0x5280"
definition MBEDTLS_ERR_SE_MIAS_VERIFY_PIN_ERROR :: int where "MBEDTLS_ERR_SE_MIAS_VERIFY_PIN_ERROR = -0x5300"
definition MBEDTLS_ERR_SE_MIAS_IO_ERROR :: int where "MBEDTLS_ERR_SE_MIAS_IO_ERROR = -0x5380"
definition MBEDTLS_ERR_SE_MIAS_READ_OBJECT_ERROR :: int where "MBEDTLS_ERR_SE_MIAS_READ_OBJECT_ERROR = -0x5400"
definition MBEDTLS_ERR_SE_EF_VERIFY_PIN_ERROR :: int where "MBEDTLS_ERR_SE_EF_VERIFY_PIN_ERROR = -0x5480"
definition MBEDTLS_ERR_SE_EF_INVALID_NAME_ERROR :: int where "MBEDTLS_ERR_SE_EF_INVALID_NAME_ERROR = -0x5500"
definition MBEDTLS_ERR_SE_EF_READ_OBJECT_ERROR :: int where "MBEDTLS_ERR_SE_EF_READ_OBJECT_ERROR = -0x5580"
definition MBEDTLS_ERR_SE_BAD_KEY_NAME_ERROR :: int where "MBEDTLS_ERR_SE_BAD_KEY_NAME_ERROR = -0x5600"
definition MBEDTLS_ERR_MD_FEATURE_UNAVAILABLE :: int where "MBEDTLS_ERR_MD_FEATURE_UNAVAILABLE = -0x5080"

definition MBEDTLS_SE_EF_KEY_NAME_PREFIX :: "u8 list" where "MBEDTLS_SE_EF_KEY_NAME_PREFIX = cs ''SE://EF/''"
definition MBEDTLS_SE_MIAS_KEY_NAME_PREFIX :: "u8 list" where "MBEDTLS_SE_MIAS_KEY_NAME_PREFIX = cs ''SE://MIAS/''"
definition MBEDTLS_SE_MIAS_P11_KEY_NAME_PREFIX :: "u8 list" where "MBEDTLS_SE_MIAS_P11_KEY_NAME_PREFIX = cs ''SE://MIAS_P11/''"

text \<open>A pointer variable, as far as \<open>free\<close> cares.\<close>

datatype cell = Uninit | Ptr mem

section \<open>Names\<close>

text \<open>
  The loop over pairs of digits, with the counters of 16 bits of the code: \<open>j = i + 2\<close> wraps to at most 1 for
  the last two values of \<open>i\<close>, and the inner loop does not run then.
\<close>

function hex_loop_se :: "mem \<Rightarrow> u16 \<Rightarrow> u16 \<Rightarrow> mem \<Rightarrow> nat \<Rightarrow> u16 \<Rightarrow> (mem \<times> u16) option" where
  "hex_loop_se hexstr hexstrLen i bytes off bytesLen =
     (if i < hexstrLen then
        case (if i < i + 2 then do {
                a \<leftarrow> mem_get hexstr (unat i);
                b \<leftarrow> mem_get hexstr (unat (i + 1));
                Some (push_bit 4 (hex_value a) OR hex_value b, i + 2) }
              else Some (0, i)) of
          None \<Rightarrow> None
        | Some (d, i) \<Rightarrow>
            if off < length bytes then hex_loop_se hexstr hexstrLen i (bytes[off := d]) (off + 1) (bytesLen + 1) else None
      else Some (bytes, bytesLen))"
  by pat_completeness auto

termination
  by (relation "measure (\<lambda>(hexstr, len, i, bytes, off, n). length bytes - off)") auto

declare hex_loop_se.simps [simp del]

definition hex_string_2_bytes_array :: "mem \<Rightarrow> u16 \<Rightarrow> mem \<Rightarrow> (mem \<times> u16) option" where
  "hex_string_2_bytes_array hexstr hexstrLen bytes = hex_loop_se hexstr hexstrLen 0 bytes 0 0"

text \<open>\<open>while(*path) { cid *= 10; cid += *path - '0'; path++; }\<close>\<close>

fun container_id :: "u8 \<Rightarrow> mem \<Rightarrow> u8 option" where
  "container_id cid [] = None"
| "container_id cid (c # path) = (if c = 0 then Some cid else container_id (cid * 10 + (c - 48)) path)"

text \<open>\<open>memcmp(path, prefix, strlen(prefix)) == 0\<close> reads that many bytes of the path.\<close>

definition has_prefix :: "u8 list \<Rightarrow> mem \<Rightarrow> bool option" where
  "has_prefix prefix path = map_option (\<lambda>p. p = prefix) (mem_read path 0 (length prefix))"

text \<open>A string argument whose length is passed as \<open>uint16_t\<close>.\<close>

definition text_arg :: "mem \<Rightarrow> u8 list option" where
  "text_arg s = do { t \<leftarrow> c_text s; Some (take (unat (of_nat (length t) :: u16)) t) }"

section \<open>Reading objects\<close>

definition select_se :: "'s se_ops \<Rightarrow> applet \<Rightarrow> 's se \<Rightarrow> (bool \<times> 's se) option" where
  "select_se ops a se =
     (if se_created se then let (ok, c) = op_select ops a (se_card se) in Some (ok, se\<lparr>se_card := c\<rparr>) else None)"

definition deselect_se :: "'s se_ops \<Rightarrow> applet \<Rightarrow> 's se \<Rightarrow> 's se" where
  "deselect_se ops a se = se\<lparr>se_card := op_deselect ops a (se_card se)\<rparr>"

definition verify_se :: "'s se_ops \<Rightarrow> applet \<Rightarrow> mem \<Rightarrow> 's se \<Rightarrow> (bool \<times> 's se) option" where
  "verify_se ops a pin se = do { p \<leftarrow> text_arg pin; let (ok, c) = op_verifyPin ops a p (se_card se) in Some (ok, se\<lparr>se_card := c\<rparr>) }"

text \<open>An object that was fetched: the pointer is written when something was allocated.\<close>

definition fetch_se :: "'s fetch \<Rightarrow> cell \<Rightarrow> 's se \<Rightarrow> bool \<times> cell \<times> u16 \<times> 's se" where
  "fetch_se f obj se =
     (let (ok, d, n, c) = f (se_card se) in (ok, case d of None \<Rightarrow> obj | Some m \<Rightarrow> Ptr m, n, se\<lparr>se_card := c\<rparr>))"

text \<open>The variable \<open>ret\<close> has no value when \<open>select\<close> fails, and returning it is undefined.\<close>

definition mbedtls_se_read_ef :: "'s se_ops \<Rightarrow> u8 list \<Rightarrow> cell \<Rightarrow> mem \<Rightarrow> 's se \<Rightarrow> (int \<times> cell \<times> int \<times> 's se) option" where
  "mbedtls_se_read_ef ops efname obj pin se = do {
     (sel, se) \<leftarrow> select_se ops MF se;
     (ret, obj, data_size, se) \<leftarrow>
       (if sel then do {
          (v, se) \<leftarrow> verify_se ops MF pin se;
          if v then do {
            let (ok, obj, n, se) = fetch_se (op_readEF ops efname) obj se;
            if ok then Some (Some 0, obj, uint n, se) else Some (Some MBEDTLS_ERR_SE_EF_READ_OBJECT_ERROR, obj, -1, se) }
          else Some (Some MBEDTLS_ERR_SE_EF_VERIFY_PIN_ERROR, obj, -1, se) }
        else Some (None, obj, -1, se));
     let se = deselect_se ops MF se;
     ret \<leftarrow> ret;
     Some (ret, obj, data_size, se) }"

definition mbedtls_se_read_object :: "(nat \<Rightarrow> mem option) \<Rightarrow> 's se_ops \<Rightarrow> mem \<Rightarrow> cell \<Rightarrow> mem \<Rightarrow> 's se \<Rightarrow> (int \<times> cell \<times> int \<times> 's se) option" where
  "mbedtls_se_read_object alloc ops path obj pin se = do {
     t \<leftarrow> c_text path;
     if odd (length t) then Some (MBEDTLS_ERR_SE_EF_INVALID_NAME_ERROR, obj, -1, se)
     else do {
       efname \<leftarrow> alloc (unat (of_nat (length t div 2) :: u16));
       (efname, efname_len) \<leftarrow> hex_string_2_bytes_array path (of_nat (length t)) efname;
       efname \<leftarrow> mem_read efname 0 (unat efname_len);
       mbedtls_se_read_ef ops efname obj pin se } }"

text \<open>The C branch deselects \<open>_mf\<close> instead of \<open>_mias\<close>.\<close>

definition mbedtls_se_p11_read_object :: "bool \<Rightarrow> 's se_ops \<Rightarrow> mem \<Rightarrow> cell \<Rightarrow> mem \<Rightarrow> 's se \<Rightarrow> (int \<times> cell \<times> int \<times> 's se) option" where
  "mbedtls_se_p11_read_object cpp ops label obj pin se = do {
     (sel, se) \<leftarrow> select_se ops MIAS se;
     (ret, obj, sz, se) \<leftarrow>
       (if sel then do {
          (v, se) \<leftarrow> verify_se ops MIAS pin se;
          if v then do {
            l \<leftarrow> text_arg label;
            let (ok, obj, n, se) = fetch_se (op_p11GetObjectByLabel ops l) obj se;
            if ok then Some (Some 0, obj, uint n, se) else Some (Some MBEDTLS_ERR_SE_MIAS_READ_OBJECT_ERROR, obj, -1, se) }
          else Some (Some MBEDTLS_ERR_SE_MIAS_READ_OBJECT_ERROR, obj, -1, se) }
        else Some (None, obj, -1, se));
     let se = deselect_se ops (if cpp then MIAS else MF) se;
     ret \<leftarrow> ret;
     Some (ret, obj, sz, se) }"

section \<open>RSA operations\<close>

datatype mbedtls_md_type_t = MD_NONE | MD_MD2 | MD_MD4 | MD_MD5 | MD_SHA1 | MD_SHA224 | MD_SHA256 | MD_SHA384 | MD_SHA512 | MD_RIPEMD160

definition ALGO_RSA_PKCS1_PADDING :: u8 where "ALGO_RSA_PKCS1_PADDING = 0x1A"

text \<open>\<open>ALGO_SHAxxx_WITH_RSA_PKCS1_PADDING\<close>\<close>

definition mias_alg :: "mbedtls_md_type_t \<Rightarrow> u8 option" where
  "mias_alg md =
     (case md of
        MD_SHA1 \<Rightarrow> Some (0x10 OR 0x02)
      | MD_SHA224 \<Rightarrow> Some (0x30 OR 0x02)
      | MD_SHA256 \<Rightarrow> Some (0x40 OR 0x02)
      | MD_SHA384 \<Rightarrow> Some (0x50 OR 0x02)
      | MD_SHA512 \<Rightarrow> Some (0x60 OR 0x02)
      | _ \<Rightarrow> None)"

definition mbedtls_mias_pk_rsa_alt_key_len :: "mias_key_t \<Rightarrow> size_t" where
  "mbedtls_mias_pk_rsa_alt_key_len ctx = ucast (size_in_bits (key_kp ctx) div 8)"

text \<open>
  The common part of both operations: select, verify the PIN, initialise with an algorithm and the key, finish;
  the bytes produced go to the start of \<open>output\<close>, whatever its size.
\<close>

definition rsa_session ::
  "'s se_ops \<Rightarrow> mias_key_t \<Rightarrow> ('s \<Rightarrow> bool \<times> 's) \<Rightarrow> ('s \<Rightarrow> bool \<times> u8 list \<times> 's) option \<Rightarrow> mem \<Rightarrow> 's se \<Rightarrow> (int \<times> mem \<times> 's se) option" where
  "rsa_session ops ctx init final output se = do {
     (sel, se) \<leftarrow> select_se ops MIAS se;
     (ret, output, se) \<leftarrow>
       (if sel then do {
          (v, se) \<leftarrow> verify_se ops MIAS (key_pin ctx) se;
          if v then do {
            let (ok, c) = init (se_card se);
            let se = se\<lparr>se_card := c\<rparr>;
            if ok then do {
              f \<leftarrow> final;
              let (ok, bytes, c) = f (se_card se);
              output \<leftarrow> mem_write output 0 bytes;
              Some (if ok then 0 else MBEDTLS_ERR_SE_MIAS_IO_ERROR, output, se\<lparr>se_card := c\<rparr>) }
            else Some (MBEDTLS_ERR_SE_MIAS_IO_ERROR, output, se) }
          else Some (MBEDTLS_ERR_SE_MIAS_VERIFY_PIN_ERROR, output, se) }
        else Some (MBEDTLS_ERR_SE_MIAS_SELECT_ERROR, output, se));
     Some (ret, output, deselect_se ops MIAS se) }"

text \<open>
  The length of the plaintext is stored over the parameter \<open>olen\<close> itself (\<open>(uint16_t*) &olen\<close>), so the caller's
  \<open>*olen\<close>, the third argument here, is returned as it was; \<open>output_max_len\<close> is not used.
\<close>

definition mbedtls_mias_pk_rsa_alt_decrypt ::
  "'s se_ops \<Rightarrow> mias_key_t \<Rightarrow> size_t \<Rightarrow> mem \<Rightarrow> mem \<Rightarrow> size_t \<Rightarrow> 's se \<Rightarrow> (int \<times> size_t \<times> mem \<times> 's se) option" where
  "mbedtls_mias_pk_rsa_alt_decrypt ops ctx olen input output output_max_len se = do {
     (ret, output, se) \<leftarrow> rsa_session ops ctx (op_decryptInit ops ALGO_RSA_PKCS1_PADDING (kid (key_kp ctx)))
       (map_option (op_decryptFinal ops) (mem_read input 0 (unat (size_in_bits (key_kp ctx) div 8)))) output se;
     Some (ret, olen, output, se) }"

text \<open>\<open>hashlen\<close> is passed on as \<open>uint16_t\<close>.\<close>

definition mbedtls_mias_pk_rsa_alt_sign ::
  "'s se_ops \<Rightarrow> mias_key_t \<Rightarrow> mbedtls_md_type_t \<Rightarrow> u32 \<Rightarrow> mem \<Rightarrow> mem \<Rightarrow> 's se \<Rightarrow> (int \<times> mem \<times> 's se) option" where
  "mbedtls_mias_pk_rsa_alt_sign ops ctx md_alg hashlen hash sig se =
     (case mias_alg md_alg of
        None \<Rightarrow> Some (MBEDTLS_ERR_MD_FEATURE_UNAVAILABLE, sig, se)
      | Some alg \<Rightarrow> rsa_session ops ctx (op_signInit ops alg (kid (key_kp ctx)))
          (map_option (op_signFinal ops) (mem_read hash 0 (unat (ucast hashlen :: u16)))) sig se)"

section \<open>Interface\<close>

definition mbedtls_se_init :: "'s se_ops \<Rightarrow> 's se \<Rightarrow> int \<times> 's se" where
  "mbedtls_se_init ops se = (0, se\<lparr>se_created := True, se_card := op_new ops (se_card se)\<rparr>)"

text \<open>Parsing what was read and releasing it; freeing a pointer that was never written is undefined.\<close>

definition parse_object :: "(mem \<Rightarrow> 'c \<Rightarrow> int \<times> 'c) \<Rightarrow> int \<times> cell \<times> int \<times> 's se \<Rightarrow> 'c \<Rightarrow> (int \<times> 'c \<times> 's se) option" where
  "parse_object parse r c =
     (case r of (rc, obj, obj_size, se) \<Rightarrow>
        (case obj of
           Uninit \<Rightarrow> None
         | Ptr m \<Rightarrow>
             if rc = 0 then do { m \<leftarrow> mem_read m 0 (nat obj_size); let (rc, c) = parse m c in Some (rc, c, se) }
             else Some (rc, c, se)))"

definition mbedtls_x509_crt_parse_se ::
  "bool \<Rightarrow> (nat \<Rightarrow> mem option) \<Rightarrow> ('c, 'p) mbed_ops \<Rightarrow> 's se_ops \<Rightarrow> 'c \<Rightarrow> mem \<Rightarrow> mem \<Rightarrow> 's se \<Rightarrow> (int \<times> 'c \<times> 's se) option" where
  "mbedtls_x509_crt_parse_se cpp alloc tls ops cert path pin se = do {
     ef \<leftarrow> has_prefix MBEDTLS_SE_EF_KEY_NAME_PREFIX path;
     if ef then do {
       r \<leftarrow> mbedtls_se_read_object alloc ops (drop (length MBEDTLS_SE_EF_KEY_NAME_PREFIX) path) Uninit pin se;
       parse_object (op_crt_parse tls) r cert }
     else do {
       p11 \<leftarrow> has_prefix MBEDTLS_SE_MIAS_P11_KEY_NAME_PREFIX path;
       if p11 then do {
         r \<leftarrow> mbedtls_se_p11_read_object cpp ops (drop (length MBEDTLS_SE_MIAS_P11_KEY_NAME_PREFIX) path) Uninit pin se;
         parse_object (op_crt_parse tls) r cert }
       else do {
         mias \<leftarrow> has_prefix MBEDTLS_SE_MIAS_KEY_NAME_PREFIX path;
         if mias then do {
           cid \<leftarrow> container_id 0 (drop (length MBEDTLS_SE_MIAS_KEY_NAME_PREFIX) path);
           (sel, se) \<leftarrow> select_se ops MIAS se;
           (ret, cert, se) \<leftarrow>
             (if sel then do {
                let (ok, obj, n, se) = fetch_se (op_getCertificateByContainerId ops cid) Uninit se;
                if ok then parse_object (op_crt_parse tls) (0, obj, uint n, se) cert else Some (MBEDTLS_ERR_SE_BAD_KEY_NAME_ERROR, cert, se) }
              else Some (MBEDTLS_ERR_SE_BAD_KEY_NAME_ERROR, cert, se));
           Some (ret, cert, deselect_se ops MIAS se) }
         else Some (MBEDTLS_ERR_SE_BAD_KEY_NAME_ERROR, cert, se) } } }"

text \<open>
  In the MIAS branch \<open>mias_key->kp\<close> is uninitialised when the applet cannot be selected.  The key pair found there is used
  for the RSA operations; \<open>parse_key\<close> with a NULL key comes first.
\<close>

definition mbedtls_pk_parse_se ::
  "bool \<Rightarrow> (nat \<Rightarrow> mem option) \<Rightarrow> ('c, 'p) mbed_ops \<Rightarrow> 's se_ops \<Rightarrow> 'p \<Rightarrow> mem \<Rightarrow> mem \<Rightarrow> 's se \<Rightarrow> (int \<times> 'p \<times> 's se) option" where
  "mbedtls_pk_parse_se cpp alloc tls ops pk path pin se = do {
     ef \<leftarrow> has_prefix MBEDTLS_SE_EF_KEY_NAME_PREFIX path;
     if ef then do {
       r \<leftarrow> mbedtls_se_read_object alloc ops (drop (length MBEDTLS_SE_EF_KEY_NAME_PREFIX) path) Uninit pin se;
       parse_object (op_parse_key tls) r pk }
     else do {
       p11 \<leftarrow> has_prefix MBEDTLS_SE_MIAS_P11_KEY_NAME_PREFIX path;
       if p11 then do {
         r \<leftarrow> mbedtls_se_p11_read_object cpp ops (drop (length MBEDTLS_SE_MIAS_P11_KEY_NAME_PREFIX) path) Uninit pin se;
         parse_object (op_parse_key tls) r pk }
       else do {
         mias \<leftarrow> has_prefix MBEDTLS_SE_MIAS_KEY_NAME_PREFIX path;
         if mias then do {
           let (_, pk) = op_parse_key tls [] pk;
           p \<leftarrow> c_text pin;
           cid \<leftarrow> container_id 0 (drop (length MBEDTLS_SE_MIAS_KEY_NAME_PREFIX) path);
           (sel, se) \<leftarrow> select_se ops MIAS se;
           (kp, se) \<leftarrow> (if sel then let (kp, c) = op_getKeyPairByContainerId ops cid (se_card se) in Some (kp, se\<lparr>se_card := c\<rparr>) else None);
           let se = deselect_se ops MIAS se;
           case kp of
             Some k \<Rightarrow> let (ret, pk) = op_setup_rsa_alt tls \<lparr>key_pin = p @ [0], key_kp = k\<rparr> pk in Some (ret, pk, se)
           | None \<Rightarrow> Some (MBEDTLS_ERR_SE_BAD_KEY_NAME_ERROR, pk, se) }
         else Some (MBEDTLS_ERR_SE_BAD_KEY_NAME_ERROR, pk, se) } } }"

section \<open>Names\<close>

lemma hex_loop_pairs:
  "hexstr = pre @ concat (map (\<lambda>(a, b). [a, b]) ps) @ r \<Longrightarrow> unat i = length pre \<Longrightarrow> unat len = length pre + 2 * length ps \<Longrightarrow> off + length ps \<le> length bytes \<Longrightarrow>
    hex_loop_se hexstr len i bytes off n = Some (take off bytes @ map pair_byte ps @ drop (off + length ps) bytes, n + of_nat (length ps))"
proof (induction ps arbitrary: pre i bytes off n)
  case Nil
  then have "\<not> i < len"
    by (simp add: word_less_nat_alt)
  then show ?case
    by (simp add: hex_loop_se.simps)
next
  case (Cons p ps)
  obtain a b where p: "p = (a, b)"
    by (cases p)
  have lt: "length pre + 2 < 65536"
  proof -
    have "length pre + 2 \<le> unat len"
      using Cons.prems(3) by simp
    then show ?thesis
      using u16_lt [of len] by linarith
  qed
  then have i: "unat (i + 1) = length pre + 1" "unat (i + 2) = length pre + 2" "i < len" "i < i + 2"
    using Cons.prems(2,3) by (auto simp: unat_word_ariths word_less_nat_alt)
  have get: "mem_get hexstr (unat i) = Some a" "mem_get hexstr (unat (i + 1)) = Some b"
    using Cons.prems(1,2) i(1) p by (simp_all add: mem_get_def nth_append)
  have off: "off < length bytes"
    using Cons.prems(4) by simp
  have step: "hex_loop_se hexstr len i bytes off n = hex_loop_se hexstr len (i + 2) (bytes[off := pair_byte p]) (off + 1) (n + 1)"
    using i(3,4) get off p by (simp add: hex_loop_se.simps [of hexstr len i] pair_byte_def)
  have "hex_loop_se hexstr len (i + 2) (bytes[off := pair_byte p]) (off + 1) (n + 1) =
      Some (take (off + 1) (bytes[off := pair_byte p]) @ map pair_byte ps @ drop (off + 1 + length ps) (bytes[off := pair_byte p]), n + 1 + of_nat (length ps))"
    using Cons.IH [of "pre @ [a, b]" "i + 2" "off + 1" "bytes[off := pair_byte p]" "n + 1"] Cons.prems p i(2) by auto
  moreover have "take (off + 1) (bytes[off := pair_byte p]) = take off bytes @ [pair_byte p]"
    using off by (simp add: take_Suc_conv_app_nth)
  ultimately show ?case
    using step by (simp add: ac_simps)
qed

lemma hex_name:
  assumes "2 * length bs < 65536" and "length bs \<le> length buf"
  shows "hex_string_2_bytes_array (concat (map hex2 bs) @ r) (of_nat (2 * length bs)) buf = Some (bs @ drop (length bs) buf, of_nat (length bs))"
proof -
  have "unat (of_nat (2 * length bs) :: u16) = 2 * length bs"
    using assms(1) by (simp add: unsigned_of_nat take_bit_nat_eq_self del: of_nat_mult)
  then show ?thesis
    using hex_loop_pairs [of "concat (map hex2 bs) @ r" "[]" "map byte_pair bs" r 0 "of_nat (2 * length bs)" 0 buf 0] assms(2)
      hex_text [of bs] pair_bytes [of bs] unfolding hex_string_2_bytes_array_def by auto
qed

lemma container_id_dec: "0 \<notin> set t \<Longrightarrow> container_id v (t @ 0 # r) = Some (number v t)"
  by (induction t arbitrary: v) (auto simp: number_def)

text \<open>
  Names of files and containers.  The hexadecimal name of a file, as \<open>%02X\<close> prints it, is decoded to its
  bytes, which fill the start of the buffer, together with their number.  A decimal container number is
  reduced modulo 256: \<open>SE://MIAS/256\<close> names the container 0.
\<close>

theorem se_names:
  assumes "2 * length bs < 65536" and "length bs \<le> length buf"
  shows "hex_string_2_bytes_array (concat (map hex2 bs) @ r) (of_nat (2 * length bs)) buf = Some (bs @ drop (length bs) buf, of_nat (length bs)) \<and>
    container_id 0 (dec n @ 0 # r) = Some (of_nat n)"
proof -
  have "0 \<notin> set (dec n)"
    using dec_digit_dec [of n] by (auto simp: dec_digit_def)
  then show ?thesis
    using hex_name [OF assms] container_id_dec [of "dec n" 0 r] number_dec [of n, where ?'a = 8] by simp
qed

section \<open>Sessions\<close>

text \<open>The calls that reach the element, with their results.\<close>

datatype card_call = Selected applet bool | Verified applet bool | Used applet | Deselected applet

text \<open>The applets with a log of these calls.\<close>

definition logged :: "'s se_ops \<Rightarrow> ('s \<times> card_call list) se_ops" where
  "logged ops =
     \<lparr>op_new = (\<lambda>(c, l). (op_new ops c, l)),
      op_select = (\<lambda>a (c, l). let (b, c) = op_select ops a c in (b, c, l @ [Selected a b])),
      op_deselect = (\<lambda>a (c, l). (op_deselect ops a c, l @ [Deselected a])),
      op_verifyPin = (\<lambda>a p (c, l). let (b, c) = op_verifyPin ops a p c in (b, c, l @ [Verified a b])),
      op_readEF = (\<lambda>n (c, l). let (b, d, k, c) = op_readEF ops n c in (b, d, k, c, l @ [Used MF])),
      op_p11GetObjectByLabel = (\<lambda>n (c, l). let (b, d, k, c) = op_p11GetObjectByLabel ops n c in (b, d, k, c, l @ [Used MIAS])),
      op_getCertificateByContainerId = (\<lambda>n (c, l). let (b, d, k, c) = op_getCertificateByContainerId ops n c in (b, d, k, c, l @ [Used MIAS])),
      op_getKeyPairByContainerId = (\<lambda>n (c, l). let (kp, c) = op_getKeyPairByContainerId ops n c in (kp, c, l @ [Used MIAS])),
      op_decryptInit = (\<lambda>g k (c, l). let (b, c) = op_decryptInit ops g k c in (b, c, l @ [Used MIAS])),
      op_decryptFinal = (\<lambda>d (c, l). let (b, bs, c) = op_decryptFinal ops d c in (b, bs, c, l @ [Used MIAS])),
      op_signInit = (\<lambda>g k (c, l). let (b, c) = op_signInit ops g k c in (b, c, l @ [Used MIAS])),
      op_signFinal = (\<lambda>d (c, l). let (b, bs, c) = op_signFinal ops d c in (b, bs, c, l @ [Used MIAS]))\<rparr>"

text \<open>A complete session: the applet is used only after it was selected and the PIN accepted, and it is deselected at the end.\<close>

definition session :: "applet \<Rightarrow> card_call list \<Rightarrow> bool" where
  "session a l \<longleftrightarrow> l = [Selected a False, Deselected a] \<or> l = [Selected a True, Verified a False, Deselected a] \<or>
     (\<exists>n. l = [Selected a True, Verified a True] @ replicate n (Used a) @ [Deselected a])"

text \<open>What was added to the log.\<close>

abbreviation log_of :: "('s \<times> card_call list) se \<Rightarrow> card_call list" where
  "log_of se \<equiv> snd (se_card se)"

lemma sessionI:
  "session a ([Selected a False] @ [Deselected a])" "session a ([Selected a True, Verified a False] @ [Deselected a])"
  "session a ([Selected a True, Verified a True, Used a] @ [Deselected a])" "session a ([Selected a True, Verified a True, Used a, Used a] @ [Deselected a])"
proof -
  show "session a ([Selected a True, Verified a True, Used a] @ [Deselected a])"
    by (auto simp: session_def intro: exI [of _ 1])
  show "session a ([Selected a True, Verified a True, Used a, Used a] @ [Deselected a])"
    by (auto simp: session_def numeral_2_eq_2 intro: exI [of _ 2])
qed (simp_all add: session_def)

lemma select_log: "select_se (logged ops) a se = Some (b, se') \<Longrightarrow> log_of se' = log_of se @ [Selected a b]"
  by (auto simp: select_se_def logged_def split: if_splits prod.splits)

lemma verify_log: "verify_se (logged ops) a pin se = Some (b, se') \<Longrightarrow> log_of se' = log_of se @ [Verified a b]"
  by (auto simp: verify_se_def logged_def split: bind_splits prod.splits)

lemma deselect_log: "log_of (deselect_se (logged ops) a se) = log_of se @ [Deselected a]"
  by (auto simp: deselect_se_def logged_def split: prod.splits)

lemma fetch_log:
  "fetch_se (op_readEF (logged ops) name) obj se = (b, obj', n, se') \<Longrightarrow> log_of se' = log_of se @ [Used MF]"
  "fetch_se (op_p11GetObjectByLabel (logged ops) name) obj se = (b, obj', n, se') \<Longrightarrow> log_of se' = log_of se @ [Used MIAS]"
  by (auto simp: fetch_se_def logged_def split: prod.splits)

lemma rsa_log:
  "snd (snd (op_decryptInit (logged ops) g k c)) = snd c @ [Used MIAS]" "snd (snd (op_signInit (logged ops) g k c)) = snd c @ [Used MIAS]"
  "snd (snd (snd (op_decryptFinal (logged ops) d c))) = snd c @ [Used MIAS]" "snd (snd (snd (op_signFinal (logged ops) d c))) = snd c @ [Used MIAS]"
  by (auto simp: logged_def split: prod.splits)

lemma read_ef_session:
  assumes "mbedtls_se_read_ef (logged ops) name obj pin se = Some (r, obj', n, se')"
  shows "\<exists>l. log_of se' = log_of se @ l \<and> session MF l"
proof -
  obtain s1 where s1: "select_se (logged ops) MF se = Some (True, s1)"
    using assms by (auto simp: mbedtls_se_read_ef_def split: bind_splits if_splits)
  obtain v s2 where s2: "verify_se (logged ops) MF pin s1 = Some (v, s2)"
    using assms s1 by (auto simp: mbedtls_se_read_ef_def split: bind_splits)
  show ?thesis
  proof (cases v)
    case True
    obtain b o3 k s3 where s3: "fetch_se (op_readEF (logged ops) name) obj s2 = (b, o3, k, s3)"
      by (metis prod_cases4)
    then have "se' = deselect_se (logged ops) MF s3"
      using assms s1 s2 True by (auto simp: mbedtls_se_read_ef_def split: if_splits)
    then show ?thesis
      using select_log [OF s1] verify_log [OF s2] fetch_log(1) [OF s3] deselect_log [of ops MF s3] sessionI(3) [of MF] True by simp
  next
    case False
    then have "se' = deselect_se (logged ops) MF s2"
      using assms s1 s2 by (auto simp: mbedtls_se_read_ef_def)
    then show ?thesis
      using select_log [OF s1] verify_log [OF s2] deselect_log [of ops MF s2] sessionI(2) [of MF] False by simp
  qed
qed

lemma p11_session:
  assumes "mbedtls_se_p11_read_object cpp (logged ops) label obj pin se = Some (r, obj', n, se')"
  shows "\<exists>l. log_of se' = log_of se @ l @ [Deselected (if cpp then MIAS else MF)] \<and> session MIAS (l @ [Deselected MIAS])"
proof -
  let ?d = "if cpp then MIAS else MF"
  obtain s1 where s1: "select_se (logged ops) MIAS se = Some (True, s1)"
    using assms by (auto simp: mbedtls_se_p11_read_object_def split: bind_splits if_splits)
  obtain v s2 where s2: "verify_se (logged ops) MIAS pin s1 = Some (v, s2)"
    using assms s1 by (auto simp: mbedtls_se_p11_read_object_def split: bind_splits)
  show ?thesis
  proof (cases v)
    case True
    obtain t where t: "text_arg label = Some t"
      using assms s1 s2 True by (auto simp: mbedtls_se_p11_read_object_def split: bind_splits)
    obtain b o3 k s3 where s3: "fetch_se (op_p11GetObjectByLabel (logged ops) t) obj s2 = (b, o3, k, s3)"
      by (metis prod_cases4)
    then have "se' = deselect_se (logged ops) ?d s3"
      using assms s1 s2 t True by (auto simp: mbedtls_se_p11_read_object_def split: if_splits)
    then have "log_of se' = log_of se @ [Selected MIAS True, Verified MIAS True, Used MIAS] @ [Deselected ?d]"
      using select_log [OF s1] verify_log [OF s2] fetch_log(2) [OF s3] deselect_log [of ops ?d s3] True by simp
    then show ?thesis
      using sessionI(3) [of MIAS] by (intro exI [of _ "[Selected MIAS True, Verified MIAS True, Used MIAS]"]) simp
  next
    case False
    then have "se' = deselect_se (logged ops) ?d s2"
      using assms s1 s2 by (auto simp: mbedtls_se_p11_read_object_def)
    then have "log_of se' = log_of se @ [Selected MIAS True, Verified MIAS False] @ [Deselected ?d]"
      using select_log [OF s1] verify_log [OF s2] deselect_log [of ops ?d s2] False by simp
    then show ?thesis
      using sessionI(2) [of MIAS] by (intro exI [of _ "[Selected MIAS True, Verified MIAS False]"]) simp
  qed
qed

text \<open>Compiled as C, the function leaves MIAS selected: it deselects MF instead.\<close>

lemma p11_c_build:
  assumes "mbedtls_se_p11_read_object False (logged ops) label obj pin se = Some (r, obj', n, se')"
  shows "\<exists>l b. log_of se' = log_of se @ l @ [Deselected MF] \<and> Selected MIAS b \<in> set l \<and> Deselected MIAS \<notin> set l"
  using p11_session [OF assms] by (fastforce simp: session_def)

lemma rsa_session_log:
  assumes "rsa_session (logged ops) ctx init final output se = Some (r, output', se')"
    and i: "\<And>c. snd (snd (init c)) = snd c @ [Used MIAS]" and f: "\<And>g c. final = Some g \<Longrightarrow> snd (snd (snd (g c))) = snd c @ [Used MIAS]"
  shows "\<exists>l. log_of se' = log_of se @ l \<and> session MIAS l"
proof -
  obtain sel s1 where s1: "select_se (logged ops) MIAS se = Some (sel, s1)"
    using assms(1) by (auto simp: rsa_session_def split: bind_splits)
  show ?thesis
  proof (cases sel)
    case False
    then have "se' = deselect_se (logged ops) MIAS s1"
      using assms(1) s1 by (auto simp: rsa_session_def)
    then show ?thesis
      using select_log [OF s1] deselect_log [of ops MIAS s1] sessionI(1) [of MIAS] False by simp
  next
    case sel: True
    obtain v s2 where s2: "verify_se (logged ops) MIAS (key_pin ctx) s1 = Some (v, s2)"
      using assms(1) s1 sel by (auto simp: rsa_session_def split: bind_splits)
    obtain b c where c: "init (se_card s2) = (b, c)"
      by (cases "init (se_card s2)")
    have l: "snd c = log_of se @ [Selected MIAS True, Verified MIAS v, Used MIAS]"
      using i [of "se_card s2"] c select_log [OF s1] verify_log [OF s2] sel by simp
    consider "\<not> v" "se' = deselect_se (logged ops) MIAS s2" | "v" "se' = deselect_se (logged ops) MIAS (s2\<lparr>se_card := c\<rparr>)"
      | g where "v" "final = Some g" "se' = deselect_se (logged ops) MIAS (s2\<lparr>se_card := snd (snd (g c))\<rparr>)"
      using assms(1) s1 s2 sel c by (auto simp: rsa_session_def Let_def split: bind_splits if_splits prod.splits)
    then show ?thesis
    proof cases
      case 1
      then show ?thesis
        using select_log [OF s1] verify_log [OF s2] deselect_log [of ops MIAS s2] sessionI(2) [of MIAS] sel by simp
    next
      case 2
      then show ?thesis
        using l deselect_log [of ops MIAS "s2\<lparr>se_card := c\<rparr>"] sessionI(3) [of MIAS] by simp
    next
      case 3
      then show ?thesis
        using l f [OF 3(2), of c] deselect_log [of ops MIAS "s2\<lparr>se_card := snd (snd (g c))\<rparr>"] sessionI(4) [of MIAS] by simp
    qed
  qed
qed


section \<open>Loading certificates and keys\<close>

lemma c_text_ok: "0 \<notin> set p \<Longrightarrow> c_text (p @ 0 # r) = Some p"
  unfolding c_text_def by (subst takeWhile_append2) auto

lemma text_arg_ok: "0 \<notin> set p \<Longrightarrow> length p < 65536 \<Longrightarrow> text_arg (p @ 0 # r) = Some p"
  by (simp add: text_arg_def c_text_ok unsigned_of_nat take_bit_nat_eq_self)

lemma hex2_nonzero: "0 \<notin> set (hex2 b)"
  using byte_pair_facts(2,3) [of b] by (auto simp: hex2_def byte_pair_def hex_digit_def)

lemma prefix_facts:
  "has_prefix MBEDTLS_SE_EF_KEY_NAME_PREFIX (MBEDTLS_SE_EF_KEY_NAME_PREFIX @ r) = Some True"
  "has_prefix MBEDTLS_SE_EF_KEY_NAME_PREFIX (MBEDTLS_SE_MIAS_P11_KEY_NAME_PREFIX @ r) = Some False"
  "has_prefix MBEDTLS_SE_MIAS_P11_KEY_NAME_PREFIX (MBEDTLS_SE_MIAS_P11_KEY_NAME_PREFIX @ r) = Some True"
  "has_prefix MBEDTLS_SE_EF_KEY_NAME_PREFIX (MBEDTLS_SE_MIAS_KEY_NAME_PREFIX @ r) = Some False"
  "4 \<le> length r \<Longrightarrow> has_prefix MBEDTLS_SE_MIAS_P11_KEY_NAME_PREFIX (MBEDTLS_SE_MIAS_KEY_NAME_PREFIX @ r) = Some False"
  "has_prefix MBEDTLS_SE_MIAS_KEY_NAME_PREFIX (MBEDTLS_SE_MIAS_KEY_NAME_PREFIX @ r) = Some True"
  "length r < 4 \<Longrightarrow> has_prefix MBEDTLS_SE_MIAS_P11_KEY_NAME_PREFIX (MBEDTLS_SE_MIAS_KEY_NAME_PREFIX @ r) = None"
  by (auto simp: has_prefix_def mem_read_def MBEDTLS_SE_EF_KEY_NAME_PREFIX_def MBEDTLS_SE_MIAS_P11_KEY_NAME_PREFIX_def MBEDTLS_SE_MIAS_KEY_NAME_PREFIX_def cs_def)

text \<open>Where a path leads: the applet that is asked, and the operation for the object.\<close>

definition leads_to :: "(nat \<Rightarrow> mem option) \<Rightarrow> 's se_ops \<Rightarrow> mem \<Rightarrow> applet \<Rightarrow> 's fetch \<Rightarrow> bool" where
  "leads_to alloc ops path a f \<longleftrightarrow>
     (\<exists>name buf. path = MBEDTLS_SE_EF_KEY_NAME_PREFIX @ concat (map hex2 name) @ [0] \<and> 2 * length name < 65536 \<and> alloc (length name) = Some buf \<and>
        length buf = length name \<and> a = MF \<and> f = op_readEF ops name) \<or>
     (\<exists>label. path = MBEDTLS_SE_MIAS_P11_KEY_NAME_PREFIX @ label @ [0] \<and> 0 \<notin> set label \<and> length label < 65536 \<and> a = MIAS \<and> f = op_p11GetObjectByLabel ops label)"

text \<open>The reading of such an object, common to certificates and keys.\<close>

definition read_path :: "bool \<Rightarrow> (nat \<Rightarrow> mem option) \<Rightarrow> 's se_ops \<Rightarrow> applet \<Rightarrow> mem \<Rightarrow> mem \<Rightarrow> 's se \<Rightarrow> (int \<times> cell \<times> int \<times> 's se) option" where
  "read_path cpp alloc ops a path pin se =
     (if a = MF then mbedtls_se_read_object alloc ops (drop (length MBEDTLS_SE_EF_KEY_NAME_PREFIX) path) Uninit pin se
      else mbedtls_se_p11_read_object cpp ops (drop (length MBEDTLS_SE_MIAS_P11_KEY_NAME_PREFIX) path) Uninit pin se)"

lemma parse_by_path:
  assumes "leads_to alloc ops path a f"
  shows "mbedtls_x509_crt_parse_se cpp alloc tls ops cert path pin se = Option.bind (read_path cpp alloc ops a path pin se) (\<lambda>r. parse_object (op_crt_parse tls) r cert)"
    and "mbedtls_pk_parse_se cpp alloc tls ops pk path pin se = Option.bind (read_path cpp alloc ops a path pin se) (\<lambda>r. parse_object (op_parse_key tls) r pk)"
  using assms by (auto simp: leads_to_def mbedtls_x509_crt_parse_se_def mbedtls_pk_parse_se_def read_path_def prefix_facts)

text \<open>The file name is decoded and the file read.\<close>

lemma read_object_name:
  assumes "2 * length name < 65536" and "alloc (length name) = Some buf" and "length buf = length name"
  shows "mbedtls_se_read_object alloc ops (concat (map hex2 name) @ [0]) obj pin se = mbedtls_se_read_ef ops name obj pin se"
proof -
  let ?t = "concat (map hex2 name)"
  have t: "c_text (?t @ [0]) = Some ?t"
    using hex2_nonzero by (intro c_text_ok) auto
  have l: "length ?t = 2 * length name"
    by (induction name) (simp_all add: hex2_length)
  have n: "unat (of_nat (length name) :: u16) = length name"
    using assms(1) by (simp add: unsigned_of_nat take_bit_nat_eq_self)
  have "hex_string_2_bytes_array (?t @ [0]) (of_nat (2 * length name)) buf = Some (name, of_nat (length name))"
    using hex_name [OF assms(1), of buf "[0]"] assms(3) by simp
  then show ?thesis
    using t l n assms(2) by (simp add: mbedtls_se_read_object_def mem_read_def del: of_nat_mult)
qed

lemma read_path_result:
  assumes "leads_to alloc ops path a f" and "se_created se" and "pin = p @ [0]" and "0 \<notin> set p" and "length p < 65536"
    and "op_select ops a (se_card se) = (True, c1)" and "op_verifyPin ops a p c1 = (v, c2)" and "v \<longrightarrow> f c2 = (True, Some obj, n, c3)"
  shows "read_path True alloc ops a path pin se =
    (if v then Some (0, Ptr obj, uint n, se\<lparr>se_card := op_deselect ops a c3\<rparr>)
     else Some (if a = MF then MBEDTLS_ERR_SE_EF_VERIFY_PIN_ERROR else MBEDTLS_ERR_SE_MIAS_READ_OBJECT_ERROR, Uninit, -1, se\<lparr>se_card := op_deselect ops a c2\<rparr>))"
proof -
  have s: "select_se ops a se = Some (True, se\<lparr>se_card := c1\<rparr>)" "verify_se ops a pin (se\<lparr>se_card := c1\<rparr>) = Some (v, se\<lparr>se_card := c2\<rparr>)"
    "v \<longrightarrow> fetch_se f Uninit (se\<lparr>se_card := c2\<rparr>) = (True, Ptr obj, n, se\<lparr>se_card := c3\<rparr>)"
    using assms(2,6,7,8) text_arg_ok [OF assms(4,5), of "[]"] by (simp_all add: select_se_def verify_se_def fetch_se_def assms(3))
  show ?thesis
  proof (cases a)
    case MF
    then obtain name buf where name: "path = MBEDTLS_SE_EF_KEY_NAME_PREFIX @ concat (map hex2 name) @ [0]" "2 * length name < 65536" "alloc (length name) = Some buf"
      "length buf = length name" "f = op_readEF ops name"
      using assms(1) by (auto simp: leads_to_def)
    then show ?thesis
      using s MF read_object_name [where alloc = alloc and ops = ops, OF name(2-4)] by (auto simp: read_path_def mbedtls_se_read_ef_def deselect_se_def)
  next
    case MIAS
    then obtain label where label: "path = MBEDTLS_SE_MIAS_P11_KEY_NAME_PREFIX @ label @ [0]" "0 \<notin> set label" "length label < 65536" "f = op_p11GetObjectByLabel ops label"
      using assms(1) by (auto simp: leads_to_def)
    then show ?thesis
      using s MIAS text_arg_ok [OF label(2,3), of "[]"] by (auto simp: read_path_def mbedtls_se_p11_read_object_def deselect_se_def)
  qed
qed

text \<open>
  Certificates and keys are loaded from where the path says.  For \<open>SE://EF/<hex name>\<close> and
  \<open>SE://MIAS_P11/<label>\<close>, when the applet can be selected, the PIN is accepted and the object is found,
  both interface functions hand exactly the bytes of the object to mbedTLS's parser, return its result
  and leave the applet deselected.
\<close>

theorem se_object_loaded:
  assumes "leads_to alloc ops path a f" and "se_created se" and "pin = p @ [0]" and "0 \<notin> set p" and "length p < 65536"
    and "op_select ops a (se_card se) = (True, c1)" and "op_verifyPin ops a p c1 = (True, c2)" and "f c2 = (True, Some obj, n, c3)" and "unat n \<le> length obj"
  shows "mbedtls_x509_crt_parse_se True alloc tls ops cert path pin se =
      (let (rc, cert') = op_crt_parse tls (take (unat n) obj) cert in Some (rc, cert', se\<lparr>se_card := op_deselect ops a c3\<rparr>)) \<and>
    mbedtls_pk_parse_se True alloc tls ops pk path pin se =
      (let (rc, pk') = op_parse_key tls (take (unat n) obj) pk in Some (rc, pk', se\<lparr>se_card := op_deselect ops a c3\<rparr>))"
proof -
  have "mem_read obj 0 (nat (uint n)) = Some (take (unat n) obj)"
    using assms(9) by (simp add: mem_read_def unsigned_of_nat nat_uint_eq)
  then show ?thesis
    unfolding parse_by_path [OF assms(1)] read_path_result [OF assms(1-7) impI [OF assms(8)]] by (simp add: parse_object_def)
qed

text \<open>
  C39: a refused PIN ends in undefined behaviour.  When the PIN is not accepted, nothing is read, but both functions
  still call \<open>free\<close> on the local pointer \<open>obj\<close>, which was never initialised.
\<close>

theorem se_refused_pin_undefined:
  assumes "leads_to alloc ops path a f" and "se_created se" and "pin = p @ [0]" and "0 \<notin> set p" and "length p < 65536"
    and "op_select ops a (se_card se) = (True, c1)" and "op_verifyPin ops a p c1 = (False, c2)"
  shows "mbedtls_x509_crt_parse_se True alloc tls ops cert path pin se = None \<and> mbedtls_pk_parse_se True alloc tls ops pk path pin se = None"
  using read_path_result [OF assms] unfolding parse_by_path [OF assms(1)] by (simp add: parse_object_def)

text \<open>A key pair that is looked up, and a session with it.\<close>

lemma container_key_parsed:
  assumes "se_created se" and "0 \<notin> set p" and "3 \<le> length (dec n @ r)" and "op_select ops MIAS (se_card se) = (True, c1)" and "op_getKeyPairByContainerId ops (of_nat n) c1 = (Some k, c2)"
  shows "mbedtls_pk_parse_se cpp alloc tls ops pk (MBEDTLS_SE_MIAS_KEY_NAME_PREFIX @ dec n @ 0 # r) (p @ [0]) se =
    (let (rc, pk') = op_setup_rsa_alt tls \<lparr>key_pin = p @ [0], key_kp = k\<rparr> (snd (op_parse_key tls [] pk)) in Some (rc, pk', se\<lparr>se_card := op_deselect ops MIAS c2\<rparr>))"
proof -
  have "0 \<notin> set (dec n)"
    using dec_digit_dec [of n] by (auto simp: dec_digit_def)
  then have cid: "container_id 0 (dec n @ 0 # r) = Some (of_nat n)"
    using container_id_dec [of "dec n" 0 r] number_dec [of n, where ?'a = 8] by simp
  have "c_text (p @ [0]) = Some p"
    using c_text_ok [OF assms(2), of "[]"] .
  then show ?thesis
    using assms(1,3-5) prefix_facts(4-6) [of "dec n @ 0 # r"] cid
    by (auto simp: mbedtls_pk_parse_se_def select_se_def deselect_se_def split: prod.splits)
qed

lemma rsa_session_result:
  assumes "se_created se" and "0 \<notin> set p" and "length p < 65536" and "key_pin ctx = p @ [0]" and "op_select ops MIAS (se_card se) = (True, c1)"
    and "op_verifyPin ops MIAS p c1 = (True, c2)" and "init c2 = (True, c3)" and "f c3 = (b, bytes, c4)"
  shows "rsa_session ops ctx init (Some f) output se =
    (if length bytes \<le> length output then Some (if b then 0 else MBEDTLS_ERR_SE_MIAS_IO_ERROR, bytes @ drop (length bytes) output, se\<lparr>se_card := op_deselect ops MIAS c4\<rparr>) else None)"
  using assms(1,5-8) text_arg_ok [OF assms(2,3), of "[]"]
  by (simp add: rsa_session_def select_se_def verify_se_def deselect_se_def assms(4) mem_write_def Let_def)

text \<open>
  A key in a container is used through the element.  For \<open>SE://MIAS/<n>\<close> (in an object of at least 14
  bytes, which the comparison with the longer prefix reads), \<open>mbedtls_pk_parse_se\<close> looks the
  key pair up in the container \<open>n\<close> modulo 256 and sets the key up with a copy of the PIN; signing with this key verifies
  that PIN, initialises with the algorithm of the digest and the identifier of the key pair, and stores
  the signature at the start of the caller's buffer.
\<close>

theorem se_container_key:
  assumes "se_created se" and "0 \<notin> set p" and "length p < 65536" and "3 \<le> length (dec n @ r)" and "path = MBEDTLS_SE_MIAS_KEY_NAME_PREFIX @ dec n @ 0 # r"
    and "op_select ops MIAS (se_card se) = (True, c1)" and "op_getKeyPairByContainerId ops (of_nat n) c1 = (Some k, c2)"
    and "key = \<lparr>key_pin = p @ [0], key_kp = k\<rparr>" and "mias_alg md = Some alg" and "hashlen \<le> length hash" and "hashlen < 65536"
    and "op_select ops MIAS d0 = (True, d1)" and "op_verifyPin ops MIAS p d1 = (True, d2)" and "op_signInit ops alg (kid k) d2 = (True, d3)"
    and "op_signFinal ops (take hashlen hash) d3 = (True, s, d4)" and "length s \<le> length sig"
  shows "mbedtls_pk_parse_se cpp alloc tls ops pk path (p @ [0]) se =
      (let (rc, pk') = op_setup_rsa_alt tls key (snd (op_parse_key tls [] pk)) in Some (rc, pk', se\<lparr>se_card := op_deselect ops MIAS c2\<rparr>)) \<and>
    mbedtls_mias_pk_rsa_alt_sign ops key md (of_nat hashlen) hash sig (se\<lparr>se_card := d0\<rparr>) =
      Some (0, s @ drop (length s) sig, se\<lparr>se_card := op_deselect ops MIAS d4\<rparr>)"
proof -
  have "unat (ucast (of_nat hashlen :: u32) :: u16) = hashlen"
    using assms(11) by (simp add: unsigned_ucast_eq unsigned_of_nat take_bit_nat_eq_self)
  then have "mem_read hash 0 (unat (ucast (of_nat hashlen :: u32) :: u16)) = Some (take hashlen hash)"
    using assms(10) by (simp add: mem_read_def)
  then have "mbedtls_mias_pk_rsa_alt_sign ops key md (of_nat hashlen) hash sig (se\<lparr>se_card := d0\<rparr>) = Some (0, s @ drop (length s) sig, se\<lparr>se_card := op_deselect ops MIAS d4\<rparr>)"
    using rsa_session_result [where init = "op_signInit ops alg (kid k)" and se = "se\<lparr>se_card := d0\<rparr>" and ctx = key and f = "op_signFinal ops (take hashlen hash)", OF _ assms(2,3) _ _ assms(13-15)]
      assms(1,8,9,12,16) by (simp add: mbedtls_mias_pk_rsa_alt_sign_def)
  then show ?thesis
    using container_key_parsed [OF assms(1,2,4,6,7)] assms(5,8) by simp
qed

text \<open>
  The length of a decrypted message is lost.  When decryption succeeds the plaintext is in the output buffer,
  but the caller's \<open>*olen\<close> keeps its old value; and a plaintext longer than the buffer is written beyond its end, whatever
  \<open>output_max_len\<close> says.
\<close>

theorem se_decrypt_length_lost:
  assumes "se_created se" and "0 \<notin> set p" and "length p < 65536" and "key = \<lparr>key_pin = p @ [0], key_kp = k\<rparr>" and "len = unat (size_in_bits k div 8)"
    and "len \<le> length input" and "op_select ops MIAS (se_card se) = (True, c1)" and "op_verifyPin ops MIAS p c1 = (True, c2)"
    and "op_decryptInit ops ALGO_RSA_PKCS1_PADDING (kid k) c2 = (True, c3)" and "op_decryptFinal ops (take len input) c3 = (True, plain, c4)"
  shows "mbedtls_mias_pk_rsa_alt_decrypt ops key olen input output omax se =
    (if length plain \<le> length output then Some (0, olen, plain @ drop (length plain) output, se\<lparr>se_card := op_deselect ops MIAS c4\<rparr>) else None)"
  using rsa_session_result [where init = "op_decryptInit ops ALGO_RSA_PKCS1_PADDING (kid k)" and ctx = key and f = "op_decryptFinal ops (take len input)", OF assms(1-3) _ assms(7-10)] assms(4-6)
  by (simp add: mbedtls_mias_pk_rsa_alt_decrypt_def mem_read_def)

section \<open>Samples\<close>

text \<open>An element whose state is a counter of calls; the PIN is \<open>1234\<close>, and it holds one object and one key.\<close>

definition demo_ops :: "nat se_ops" where
  "demo_ops =
     \<lparr>op_new = (\<lambda>c. 0), op_select = (\<lambda>a c. (True, c + 1)), op_deselect = (\<lambda>a c. c + 1), op_verifyPin = (\<lambda>a p c. (p = [49, 50, 51, 52], c + 1)),
      op_readEF = (\<lambda>n c. (True, Some [7, 8, 9], 2, c + 1)), op_p11GetObjectByLabel = (\<lambda>n c. (True, Some [7, 8, 9], 2, c + 1)),
      op_getCertificateByContainerId = (\<lambda>n c. (False, None, 0, c + 1)),
      op_getKeyPairByContainerId = (\<lambda>n c. (if n = 3 then Some \<lparr>kid = 4, flags = 5, size_in_bits = 16, pub_file_id = [0, 0], has_cert = False\<rparr> else None, c + 1)),
      op_decryptInit = (\<lambda>g k c. (True, c + 1)), op_decryptFinal = (\<lambda>d c. (True, rev d, c + 1)),
      op_signInit = (\<lambda>g k c. (True, c + 1)), op_signFinal = (\<lambda>d c. (True, d @ d, c + 1))\<rparr>"

definition demo_tls :: "(u8 list, mias_key_t option) mbed_ops" where
  "demo_tls = \<lparr>op_crt_parse = (\<lambda>m c. (0, m)), op_parse_key = (\<lambda>m k. (-1, None)), op_setup_rsa_alt = (\<lambda>key k. (0, Some key))\<rparr>"

definition demo_se :: "nat se" where
  "demo_se = \<lparr>se_created = True, se_card = 0\<rparr>"

definition demo_path :: mem where
  "demo_path = MBEDTLS_SE_EF_KEY_NAME_PREFIX @ concat (map hex2 [0x7F, 0xAA]) @ [0]"

lemma demo_leads: "leads_to (\<lambda>n. Some (replicate n 0)) demo_ops demo_path MF (op_readEF demo_ops [0x7F, 0xAA])"
  unfolding leads_to_def demo_path_def by (intro disjI1 exI [of _ "[0x7F, 0xAA]"] exI [of _ "replicate 2 0"]) (simp add: numeral_2_eq_2)

theorem se_names_witness: "hex_string_2_bytes_array [55, 70, 65, 65] 4 [0, 0, 0] = Some ([0x7F, 0xAA, 0], 2) \<and> container_id 0 (dec 259 @ [0]) = Some 3"
proof -
  have "concat (map hex2 [0x7F, 0xAA]) @ [] = [55, 70, 65, 65]"
    by code_simp
  moreover have "(of_nat 259 :: u8) = 3"
    by simp
  ultimately show ?thesis
    using se_names [of "[0x7F, 0xAA]" "[0, 0, 0]" "[]" 259] by simp
qed


theorem se_object_loaded_witness:
  "mbedtls_x509_crt_parse_se True (\<lambda>n. Some (replicate n 0)) demo_tls demo_ops [] demo_path ([49, 50, 51, 52] @ [0]) demo_se = Some (0, [7, 8], \<lparr>se_created = True, se_card = 4\<rparr>)"
  using se_object_loaded [OF demo_leads _ refl, of demo_se "[49, 50, 51, 52]" 1 2 "[7, 8, 9]" 2 3 demo_tls "[]" None]
  by (simp add: demo_se_def demo_ops_def demo_tls_def)

theorem se_refused_pin_undefined_witness:
  "mbedtls_x509_crt_parse_se True (\<lambda>n. Some (replicate n 0)) demo_tls demo_ops [] demo_path ([49] @ [0]) demo_se = None"
  using se_refused_pin_undefined [OF demo_leads _ refl, of demo_se "[49]" 1 2 demo_tls "[]" None]
  by (simp add: demo_se_def demo_ops_def)

theorem se_container_key_witness:
  "mbedtls_mias_pk_rsa_alt_sign demo_ops \<lparr>key_pin = [49, 50, 51, 52] @ [0], key_kp = \<lparr>kid = 4, flags = 5, size_in_bits = 16, pub_file_id = [0, 0], has_cert = False\<rparr>\<rparr> MD_SHA256 1 [5] [0, 0, 0] \<lparr>se_created = True, se_card = 0\<rparr> =
   Some (0, [5, 5, 0], \<lparr>se_created = True, se_card = 5\<rparr>)"
proof -
  have "dec 3 = [51]" "mias_alg MD_SHA256 = Some 66"
    by code_simp+
  then show ?thesis
    using se_container_key [of demo_se "[49, 50, 51, 52]" 3 "[0, 0]" "MBEDTLS_SE_MIAS_KEY_NAME_PREFIX @ dec 3 @ 0 # [0, 0]" demo_ops 1 "\<lparr>kid = 4, flags = 5, size_in_bits = 16, pub_file_id = [0, 0], has_cert = False\<rparr>" 2
        "\<lparr>key_pin = [49, 50, 51, 52] @ [0], key_kp = \<lparr>kid = 4, flags = 5, size_in_bits = 16, pub_file_id = [0, 0], has_cert = False\<rparr>\<rparr>" MD_SHA256 66 1 "[5]" 0 1 2 3 "[5, 5]" 4 "[0, 0, 0]"
        True "\<lambda>n. Some []" demo_tls None]
    by (simp add: demo_se_def demo_ops_def)
qed

lemma demo_decrypt:
  "se_created demo_se" "0 \<notin> set [49, 50, 51, 52 :: u8]" "length [49, 50, 51, 52 :: u8] < 65536"
  "2 = unat (size_in_bits \<lparr>kid = 4, flags = 5, size_in_bits = 16, pub_file_id = [0, 0], has_cert = False\<rparr> div 8)" "2 \<le> length [1, 2 :: u8]"
  "op_select demo_ops MIAS (se_card demo_se) = (True, 1)" "op_verifyPin demo_ops MIAS [49, 50, 51, 52] 1 = (True, 2)"
  "op_decryptInit demo_ops ALGO_RSA_PKCS1_PADDING (kid \<lparr>kid = 4, flags = 5, size_in_bits = 16, pub_file_id = [0, 0], has_cert = False\<rparr>) 2 = (True, 3)"
  "op_decryptFinal demo_ops (take 2 [1, 2]) 3 = (True, [2, 1], 4)" "op_deselect demo_ops MIAS 4 = 5"
  by (simp_all add: demo_se_def demo_ops_def)

theorem se_decrypt_length_lost_witness:
  "mbedtls_mias_pk_rsa_alt_decrypt demo_ops \<lparr>key_pin = [49, 50, 51, 52] @ [0], key_kp = \<lparr>kid = 4, flags = 5, size_in_bits = 16, pub_file_id = [0, 0], has_cert = False\<rparr>\<rparr> 99 [1, 2] [0, 0, 0] 3 demo_se =
   Some (0, 99, [2, 1, 0], \<lparr>se_created = True, se_card = 5\<rparr>)"
  unfolding se_decrypt_length_lost [OF demo_decrypt(1-3) refl demo_decrypt(4-9)] demo_decrypt(10)
  by (simp add: demo_se_def)

end
