(* ===== verification/Se_Mias.thy ===== *)
theory Se_Mias
  imports Se_Applet Se_Keys
begin

text \<open>
  The applet MIAS, \<open>external_libs/gemalto/common/src/MIAS.cpp\<close>: key pairs and certificates in containers, PKCS#11
  objects, digests, signatures and decryption on the card.

  The class extends \<open>Applet\<close>, and its record extends the record of an applet.  The list \<open>_keypairs\<close> is a
  list.  Bytes that a method writes to a buffer of the caller are results; where the code reads memory that it has not
  written (a fresh key pair, \<open>ef_size\<close>, \<open>size\<close>, the local arrays), the content is an argument.
\<close>

section \<open>State\<close>

definition ALGO_SHA1 :: u8 where "ALGO_SHA1 = 0x10"
definition ALGO_SHA224 :: u8 where "ALGO_SHA224 = 0x30"
definition ALGO_SHA256 :: u8 where "ALGO_SHA256 = 0x40"
definition ALGO_SHA384 :: u8 where "ALGO_SHA384 = 0x50"
definition ALGO_SHA512 :: u8 where "ALGO_SHA512 = 0x60"

definition RSA_KEY_PAIR_FLAG :: u16 where "RSA_KEY_PAIR_FLAG = 1"
definition SIGNATURE_KEY_PAIR_FLAG :: u16 where "SIGNATURE_KEY_PAIR_FLAG = 4"
definition DECRYPTION_KEY_PAIR_FLAG :: u16 where "DECRYPTION_KEY_PAIR_FLAG = 8"

definition TAG_FILE_SIZE :: u8 where "TAG_FILE_SIZE = 0x81"

lemmas algo_defs = ALGO_SHA1_def ALGO_SHA224_def ALGO_SHA256_def ALGO_SHA384_def ALGO_SHA512_def

record mias_t = Applet +
  mi_keypairs :: "mias_key_pair_t list"
  mi_hashAlgo :: u8
  mi_signAlgo :: u8
  mi_signKey :: u8
  mi_decryptKey :: u8
  mi_decryptAlgo :: u8

definition MIAS_AID :: "u8 list" where
  "MIAS_AID = [0xA0, 0x00, 0x00, 0x00, 0x18, 0x80, 0x00, 0x00, 0x00, 0x06, 0x62, 0x41, 0x51]"

definition MIAS_create :: mias_t where
  "MIAS_create = \<lparr>ap_seiface = False, ap_channel = 0, ap_isSelected = False, ap_isBasic = False, ap_aid = MIAS_AID,
     mi_keypairs = [], mi_hashAlgo = 0, mi_signAlgo = 0, mi_signKey = 0, mi_decryptKey = 0, mi_decryptAlgo = 0\<rparr>"

text \<open>The destructor releases the list, and then runs that of the base class.\<close>

definition MIAS_destroy :: "'w link \<Rightarrow> mias_t \<Rightarrow> se_iface \<Rightarrow> 'w \<Rightarrow> (se_iface \<times> 'w) exec" where
  "MIAS_destroy L ap se w = Applet_destroy L (ap\<lparr>mi_keypairs := []\<rparr>) se w"

text \<open>A two-byte number, and a byte of the response buffer of the interface.\<close>

definition be16 :: "u8 \<Rightarrow> u8 \<Rightarrow> u16" where
  "be16 a b = push_bit 8 (ucast a) OR ucast b"

definition resp_get :: "se_iface \<Rightarrow> nat \<Rightarrow> u8 option" where
  "resp_get se k = mem_get (si_apduResponse se) k"

text \<open>READ BINARY at an offset.\<close>

definition read_binary :: "'w link \<Rightarrow> u16 \<Rightarrow> u8 \<Rightarrow> mias_t \<Rightarrow> se_iface \<Rightarrow> 'w \<Rightarrow> (bool \<times> se_iface \<times> 'w) exec" where
  "read_binary L off len ap se w = checked ap (Applet_transmit_case2 L 0 0xB0 (ucast (drop_bit 8 off)) (ucast off) len ap se w)"

section \<open>Digests, signatures, decryption\<close>

definition MIAS_mseSetBeforeHash :: "'w link \<Rightarrow> u8 \<Rightarrow> mias_t \<Rightarrow> se_iface \<Rightarrow> 'w \<Rightarrow> (bool \<times> se_iface \<times> 'w) exec" where
  "MIAS_mseSetBeforeHash L alg ap se w = checked ap (Applet_transmit_case3 L 0 0x22 0x41 0xAA [0x80, 0x01, alg] 3 ap se w)"

definition block_size :: "u8 \<Rightarrow> u16 option" where
  "block_size alg =
     (if alg = ALGO_SHA1 \<or> alg = ALGO_SHA224 \<or> alg = ALGO_SHA256 then Some 64
      else if alg = ALGO_SHA384 \<or> alg = ALGO_SHA512 then Some 128 else None)"

partial_function (option) hash_loop :: "'w link \<Rightarrow> u16 \<Rightarrow> mem \<Rightarrow> u16 \<Rightarrow> u16 \<Rightarrow> mias_t \<Rightarrow> se_iface \<Rightarrow> 'w \<Rightarrow> (bool \<times> se_iface \<times> 'w) exec" where
  "hash_loop L block m dataLen i ap se w =
     (if i < dataLen then
        bnd (checked ap (Applet_transmit_case3 L 0 0x2A 0x90 0x80 (drop (unat i) m) (min (dataLen - i) block) ap se w)) (\<lambda>(ok, se, w).
        if ok then hash_loop L block m dataLen (i + min (dataLen - i) block) ap se w else ret (False, se, w))
      else ret (True, se, w))"

definition MIAS_psoHashInternally :: "'w link \<Rightarrow> u8 \<Rightarrow> mem \<Rightarrow> u16 \<Rightarrow> mias_t \<Rightarrow> se_iface \<Rightarrow> 'w \<Rightarrow> (bool \<times> se_iface \<times> 'w) exec" where
  "MIAS_psoHashInternally L alg m dataLen ap se w =
     (case block_size alg of None \<Rightarrow> ret (False, se, w) | Some block \<Rightarrow> hash_loop L block m dataLen 0 ap se w)"

text \<open>The second result are the bytes stored at the start of the caller's buffer; the length stored is their number.\<close>

definition MIAS_psoHashInternallyFinal :: "'w link \<Rightarrow> mias_t \<Rightarrow> se_iface \<Rightarrow> 'w \<Rightarrow> (bool \<times> u8 list \<times> se_iface \<times> 'w) exec" where
  "MIAS_psoHashInternallyFinal L ap se w =
     bnd (checked ap (Applet_transmit_case4 L 0 0x2A 0x90 0xA0 [0x80, 0x00] 2 0 ap se w)) (\<lambda>(ok, se, w).
     if ok then bnd (access (Applet_getResponse ap se)) (\<lambda>bs. ret (True, bs, se, w)) else ret (False, [], se, w))"

definition digest_length :: "u8 \<Rightarrow> u8 option" where
  "digest_length alg =
     (if alg = ALGO_SHA1 then Some 20 else if alg = ALGO_SHA224 then Some 28 else if alg = ALGO_SHA256 then Some 32
      else if alg = ALGO_SHA384 then Some 48 else if alg = ALGO_SHA512 then Some 64 else None)"

text \<open>The number of bytes read from \<open>hash\<close> is that of the algorithm, whatever \<open>hashLen\<close> is.\<close>

definition MIAS_psoHashExternally :: "'w link \<Rightarrow> u8 \<Rightarrow> mem \<Rightarrow> mias_t \<Rightarrow> se_iface \<Rightarrow> 'w \<Rightarrow> (bool \<times> se_iface \<times> 'w) exec" where
  "MIAS_psoHashExternally L alg hash ap se w =
     (case digest_length alg of
        None \<Rightarrow> ret (False, se, w)
      | Some n \<Rightarrow>
          bnd (access (mem_read hash 0 (unat n))) (\<lambda>h.
          checked ap (Applet_transmit_case4 L 0 0x2A 0x90 0xA0 ([0x90, n] @ h) (2 + ucast n) 0 ap se w)))"

definition MIAS_mseSetBeforeSignature :: "'w link \<Rightarrow> u8 \<Rightarrow> u8 \<Rightarrow> mias_t \<Rightarrow> se_iface \<Rightarrow> 'w \<Rightarrow> (bool \<times> se_iface \<times> 'w) exec" where
  "MIAS_mseSetBeforeSignature L alg key ap se w =
     checked ap (Applet_transmit_case3 L 0 0x22 0x41 0xB6 [0x80, 0x01, alg, 0x84, 0x01, key] 6 ap se w)"

text \<open>The response is collected in pieces for as long as the card answers \<open>61xx\<close> with data.\<close>

partial_function (option) signature_loop :: "'w link \<Rightarrow> u8 list \<Rightarrow> mias_t \<Rightarrow> se_iface \<Rightarrow> 'w \<Rightarrow> (bool \<times> u8 list \<times> se_iface \<times> 'w) exec" where
  "signature_loop L sig ap se w =
     (if Applet_getResponseLength ap se = 0 then ret (False, sig, se, w)
      else
        bnd (access (Applet_getResponse ap se)) (\<lambda>bs.
        bnd (access (Applet_getStatusWord ap se)) (\<lambda>sw.
        if sw AND 0xFF00 = 0x6100 then
          bnd (Applet_transmit_case2 L 0 0xC0 0 0 (ucast (sw AND 0x00FF)) ap se w) (\<lambda>(ok, se, w).
          if ok then signature_loop L (sig @ bs) ap se w else ret (False, sig @ bs, se, w))
        else ret (sw = 0x9000, sig @ bs, se, w))))"

definition MIAS_psoComputeDigitalSignature :: "'w link \<Rightarrow> mias_t \<Rightarrow> se_iface \<Rightarrow> 'w \<Rightarrow> (bool \<times> u8 list \<times> se_iface \<times> 'w) exec" where
  "MIAS_psoComputeDigitalSignature L ap se w =
     bnd (Applet_transmit_case2 L 0 0x2A 0x9E 0x9A 0 ap se w) (\<lambda>(ok, se, w).
     if ok then signature_loop L [] ap se w else ret (False, [], se, w))"

definition MIAS_mseSetBeforeDecrypt :: "'w link \<Rightarrow> u8 \<Rightarrow> u8 \<Rightarrow> mias_t \<Rightarrow> se_iface \<Rightarrow> 'w \<Rightarrow> (bool \<times> se_iface \<times> 'w) exec" where
  "MIAS_mseSetBeforeDecrypt L alg key ap se w =
     checked ap (Applet_transmit_case3 L 0 0x22 0x41 0xB8 [0x80, 0x01, alg, 0x84, 0x01, key] 6 ap se w)"

text \<open>More than 254 bytes go in two commands, the first one with the chaining bit in its class.\<close>

definition MIAS_psoDecipher :: "'w link \<Rightarrow> mem \<Rightarrow> u16 \<Rightarrow> mias_t \<Rightarrow> se_iface \<Rightarrow> 'w \<Rightarrow> (bool \<times> u8 list \<times> se_iface \<times> 'w) exec" where
  "MIAS_psoDecipher L m dataLen ap se w =
     bnd (if dataLen < 255 then
            bnd (access (mem_read m 0 (unat dataLen))) (\<lambda>d.
            checked ap (Applet_transmit_case3 L 0 0x2A 0x80 0x86 (0x81 # d) (dataLen + 1) ap se w))
          else
            bnd (access (mem_read m 0 0xFE)) (\<lambda>d.
            bnd (checked ap (Applet_transmit_case3 L 0x10 0x2A 0x80 0x86 (0x81 # d) 0xFF ap se w)) (\<lambda>(ok, se, w).
            if ok then checked ap (Applet_transmit_case3 L 0 0x2A 0x80 0x86 (drop 0xFE m) (dataLen - 0xFE) ap se w) else ret (False, se, w)))) (\<lambda>(ok, se, w).
     if ok then bnd (access (Applet_getResponse ap se)) (\<lambda>bs. ret (True, bs, se, w)) else ret (False, [], se, w))"

section \<open>Key pairs\<close>

text \<open>
  The size in the parameters of a file; \<open>i\<close> and \<open>len\<close> are bytes and wrap around.  The value is kept when the tag does not
  occur.
\<close>

partial_function (option) fcp_loop :: "mem \<Rightarrow> u8 \<Rightarrow> u8 \<Rightarrow> u16 \<Rightarrow> u16 exec" where
  "fcp_loop m len i sz =
     (if i < len then
        bnd (access (mem_get m (unat i))) (\<lambda>t.
        bnd (access (mem_get m (unat i + 1))) (\<lambda>l.
        bnd (access (if t = TAG_FILE_SIZE then do { a \<leftarrow> mem_get m (unat i + 2); b \<leftarrow> mem_get m (unat i + 3); Some (be16 a b) } else Some sz)) (\<lambda>sz.
        fcp_loop m len (i + (2 + l)) sz)))
      else ret sz)"

text \<open>
  The key pair of the container number \<open>i\<close>, from its record: the size of the signature key, or of the exchange key
  when there is no signature key.  For other sizes than 1024 and 2048 bits the member \<open>kid\<close> keeps what \<open>malloc\<close> found, \<open>raw\<close>.
\<close>

definition container_pair :: "u8 \<Rightarrow> u8 \<Rightarrow> mem \<Rightarrow> mias_key_pair_t option" where
  "container_pair raw i m = do {
     a \<leftarrow> mem_get m 4;
     b \<leftarrow> mem_get m 5;
     (bits, fl) \<leftarrow>
       (if be16 a b = 0 then do {
          c \<leftarrow> mem_get m 6;
          d \<leftarrow> mem_get m 7;
          Some (be16 c d, SIGNATURE_KEY_PAIR_FLAG OR DECRYPTION_KEY_PAIR_FLAG) }
        else Some (be16 a b, SIGNATURE_KEY_PAIR_FLAG));
     let exchange = (fl AND (SIGNATURE_KEY_PAIR_FLAG OR DECRYPTION_KEY_PAIR_FLAG) = SIGNATURE_KEY_PAIR_FLAG OR DECRYPTION_KEY_PAIR_FLAG);
     let signing = (fl AND (SIGNATURE_KEY_PAIR_FLAG OR DECRYPTION_KEY_PAIR_FLAG) = SIGNATURE_KEY_PAIR_FLAG);
     let (k, fl) =
       (if bits = 0x400 \<and> exchange then (0x10 OR (i + 1), fl OR RSA_KEY_PAIR_FLAG)
        else if bits = 0x400 \<and> signing then (0x20 OR (i + 1), fl OR RSA_KEY_PAIR_FLAG)
        else if bits = 0x800 \<and> exchange then (0x30 OR (i + 1), fl OR RSA_KEY_PAIR_FLAG)
        else if bits = 0x800 \<and> signing then (0x40 OR (i + 1), fl OR RSA_KEY_PAIR_FLAG)
        else (raw, fl));
     Some \<lparr>kid = k, flags = fl, size_in_bits = bits, pub_file_id = [0, 0], has_cert = False\<rparr> }"

text \<open>A record whose first byte is zero is an empty container; a transmission that fails is skipped.\<close>

partial_function (option) container_loop ::
  "'w link \<Rightarrow> u8 \<Rightarrow> u16 \<Rightarrow> u8 \<Rightarrow> u16 \<Rightarrow> mias_t \<Rightarrow> se_iface \<Rightarrow> 'w \<Rightarrow> (mias_t \<times> se_iface \<times> 'w) exec" where
  "container_loop L raw sz i off ap se w =
     (if off < sz then
        bnd (Applet_transmit_case2 L 0 0xB0 (ucast (drop_bit 8 off AND 0xFF)) (ucast (off AND 0xFF)) 0x0B ap se w) (\<lambda>(ok, se, w).
        if \<not> ok then container_loop L raw sz (i + 1) (off + 0x0B) ap se w
        else
          bnd (access (Applet_getStatusWord ap se)) (\<lambda>sw.
          if sw \<noteq> 0x9000 then ret (ap, se, w)
          else
            bnd (access (do {
              b \<leftarrow> resp_get se 0;
              if b \<noteq> 0 then map_option (\<lambda>k. ap\<lparr>mi_keypairs := k # mi_keypairs ap\<rparr>) (container_pair raw i (si_apduResponse se)) else Some ap })) (\<lambda>ap.
            container_loop L raw sz (i + 1) (off + 0x0B) ap se w)))
      else ret (ap, se, w))"

text \<open>The first key pair with a container number is found by the low digit of its identifier.\<close>

definition in_container :: "int \<Rightarrow> mias_key_pair_t \<Rightarrow> bool" where
  "in_container n k \<longleftrightarrow> uint (kid k AND 0x0F) - 1 = n"

fun mark_pair :: "int \<Rightarrow> u8 list \<Rightarrow> mias_key_pair_t list \<Rightarrow> mias_key_pair_t list" where
  "mark_pair n f [] = []"
| "mark_pair n f (k # ks) = (if in_container n k then k\<lparr>pub_file_id := f, has_cert := True\<rparr> # ks else k # mark_pair n f ks)"

text \<open>
  An entry of the file directory: two bytes of file identifier, two of size, eight of name and eight of directory.  Files \<open>kxc<nn>\<close> and
  \<open>ksc<nn>\<close> of the directory \<open>mscp\<close> hold the certificate of the container \<open>nn\<close>.
\<close>

definition mark_entry :: "mem \<Rightarrow> mias_key_pair_t list \<Rightarrow> mias_key_pair_t list option" where
  "mark_entry m ks = do {
     d \<leftarrow> mem_read m 12 4;
     if d = cs ''mscp'' then do {
       name \<leftarrow> mem_read m 4 3;
       if name = cs ''kxc'' \<or> name = cs ''ksc'' then do {
         x \<leftarrow> mem_get m 7;
         y \<leftarrow> mem_get m 8;
         f \<leftarrow> mem_read m 0 2;
         Some (mark_pair ((uint x - 48) * 10 + (uint y - 48)) f ks) }
       else Some ks }
     else Some ks }"

fun directory_loop :: "'w link \<Rightarrow> nat \<Rightarrow> u16 \<Rightarrow> mias_t \<Rightarrow> se_iface \<Rightarrow> 'w \<Rightarrow> (mias_t \<times> se_iface \<times> 'w) exec" where
  "directory_loop L 0 off ap se w = ret (ap, se, w)"
| "directory_loop L (Suc n) off ap se w =
     bnd (read_binary L off 0x15 ap se w) (\<lambda>(ok, se, w).
     bnd (access (if ok then map_option (\<lambda>ks. ap\<lparr>mi_keypairs := ks\<rparr>) (mark_entry (si_apduResponse se) (mi_keypairs ap)) else Some ap)) (\<lambda>ap.
     directory_loop L n (off + 0x15) ap se w))"

definition read_directory :: "'w link \<Rightarrow> mias_t \<Rightarrow> se_iface \<Rightarrow> 'w \<Rightarrow> (mias_t \<times> se_iface \<times> 'w) exec" where
  "read_directory L ap se w =
     bnd (checked ap (Applet_transmit_case4 L 0 0xA4 8 4 [0x01, 0x01] 2 0x15 ap se w)) (\<lambda>(ok, se, w).
     if \<not> ok then ret (ap, se, w)
     else bnd (read_binary L 0 0x01 ap se w) (\<lambda>(ok, se, w).
       if \<not> ok then ret (ap, se, w)
       else bnd (access (resp_get se 0)) (\<lambda>n. directory_loop L (unat n) 1 ap se w)))"

definition MIAS_listKeyPairs :: "'w link \<Rightarrow> u8 \<Rightarrow> mias_t \<Rightarrow> se_iface \<Rightarrow> 'w \<Rightarrow> (bool \<times> mias_t \<times> se_iface \<times> 'w) exec" where
  "MIAS_listKeyPairs L raw ap se w =
     (if mi_keypairs ap \<noteq> [] then ret (True, ap, se, w)
      else
        bnd (checked ap (Applet_transmit_case4 L 0 0xA4 8 4 [0x00, 0x02] 2 0x15 ap se w)) (\<lambda>(ok, se, w).
        if \<not> ok \<or> \<not> 2 < Applet_getResponseLength ap se then ret (False, ap, se, w)
        else bnd (access (resp_get se 0)) (\<lambda>t.
          if t \<noteq> 0x62 then ret (False, ap, se, w)
          else
            bnd (access (resp_get se 1)) (\<lambda>len.
            bnd (fcp_loop (si_apduResponse se) (len + 2) 2 0) (\<lambda>sz.
            bnd (container_loop L raw sz 0 0 ap se w) (\<lambda>(ap, se, w).
            bnd (read_directory L ap se w) (\<lambda>(ap, se, w). ret (True, ap, se, w))))))))"

definition MIAS_getKeyPairByContainerId :: "'w link \<Rightarrow> u8 \<Rightarrow> u8 \<Rightarrow> mias_t \<Rightarrow> se_iface \<Rightarrow> 'w \<Rightarrow> (mias_key_pair_t option \<times> mias_t \<times> se_iface \<times> 'w) exec" where
  "MIAS_getKeyPairByContainerId L raw cid ap se w =
     bnd (MIAS_listKeyPairs L raw ap se w) (\<lambda>(_, ap, se, w). ret (find (in_container (uint cid)) (mi_keypairs ap), ap, se, w))"

section \<open>Certificates\<close>

text \<open>
  The content of the file, 238 bytes at a time.  Where a command fails the bytes of the buffer are left as they are and
  reading goes on behind them; \<open>len\<close> is one byte.
\<close>

partial_function (option) cert_loop ::
  "'w link \<Rightarrow> u16 \<Rightarrow> mem option \<Rightarrow> u16 \<Rightarrow> mias_t \<Rightarrow> se_iface \<Rightarrow> 'w \<Rightarrow> (mem option \<times> u16 \<times> se_iface \<times> 'w) exec" where
  "cert_loop L ef_size m off ap se w =
     (if off < ef_size then
        bnd (read_binary L off (if unat ef_size < unat off + 0xEE then ucast (ef_size - off) else 0xEE) ap se w) (\<lambda>(ok, se, w).
        bnd (access (if ok then do { bs \<leftarrow> Applet_getResponse ap se; m \<leftarrow> store_at m (unat off) bs; Some (m, of_nat (length bs) :: u8) }
                     else Some (m, if unat ef_size < unat off + 0xEE then ucast (ef_size - off) else 0xEE))) (\<lambda>(m, len).
        cert_loop L ef_size m (off + ucast len) ap se w))
      else ret (m, off, se, w))"

text \<open>\<open>ef0\<close> is the value of \<open>ef_size\<close> before it is set.  A compressed certificate is released again and refused.\<close>

definition MIAS_getCertificateByContainerId ::
  "(nat \<Rightarrow> mem option) \<Rightarrow> 'w link \<Rightarrow> u8 \<Rightarrow> u16 \<Rightarrow> u8 \<Rightarrow> u16 \<Rightarrow> mias_t \<Rightarrow> se_iface \<Rightarrow> 'w \<Rightarrow> (bool \<times> mem option \<times> u16 \<times> mias_t \<times> se_iface \<times> 'w) exec" where
  "MIAS_getCertificateByContainerId alloc L raw ef0 cid certLen ap se w =
     bnd (MIAS_getKeyPairByContainerId L raw cid ap se w) (\<lambda>(kp, ap, se, w).
     case kp of
       None \<Rightarrow> ret (False, None, certLen, ap, se, w)
     | Some k \<Rightarrow>
         if \<not> has_cert k then ret (False, None, certLen, ap, se, w)
         else bnd (checked ap (Applet_transmit_case4 L 0 0xA4 8 4 (pub_file_id k) 2 0x1C ap se w)) (\<lambda>(ok, se, w).
           if \<not> ok then ret (False, None, certLen, ap, se, w)
           else
             bnd (access (resp_get se 0)) (\<lambda>t.
             bnd (if t = 0x62 then bnd (access (resp_get se 1)) (\<lambda>len. fcp_loop (si_apduResponse se) (len + 2) 2 ef0) else ret ef0) (\<lambda>ef_size.
             if ef_size = 0 then ret (False, None, certLen, ap, se, w)
             else
               bnd (cert_loop L ef_size (alloc (unat (ef_size + 1))) 0 ap se w) (\<lambda>(m, off, se, w).
               bnd (access (do { m \<leftarrow> store_at m (unat off) [0]; d \<leftarrow> m; a \<leftarrow> mem_get d 0; b \<leftarrow> mem_get d 1; Some (d, a, b) })) (\<lambda>(d, a, b).
               if a = 1 \<and> b = 0 then ret (False, None, ef_size + 1, ap, se, w)
               else ret (True, Some d, ef_size + 1, ap, se, w)))))))"

section \<open>PIN\<close>

definition MIAS_verifyPin :: "'w link \<Rightarrow> u8 list \<Rightarrow> mias_t \<Rightarrow> se_iface \<Rightarrow> 'w \<Rightarrow> (bool \<times> se_iface \<times> 'w) exec" where
  "MIAS_verifyPin L pin ap se w = checked ap (Applet_transmit_case3 L 0 0x20 0x00 0x81 pin (of_nat (length pin)) ap se w)"

text \<open>The new PIN is copied to \<open>data[oldPinLen]\<close>, one byte before the end of the old one; \<open>raw\<close> is the local array before.\<close>

definition MIAS_changePin :: "mem \<Rightarrow> 'w link \<Rightarrow> u8 list \<Rightarrow> u8 list \<Rightarrow> mias_t \<Rightarrow> se_iface \<Rightarrow> 'w \<Rightarrow> (bool \<times> se_iface \<times> 'w) exec" where
  "MIAS_changePin raw L oldPin newPin ap se w =
     (let dataLen = (1 + of_nat (length oldPin) + of_nat (length newPin) :: u16) in
      if 17 < dataLen then ret (False, se, w)
      else
        bnd (access (do {
          d \<leftarrow> mem_write raw 0 [of_nat (length oldPin)];
          d \<leftarrow> mem_write d 1 oldPin;
          mem_write d (length oldPin) newPin })) (\<lambda>d.
        checked ap (Applet_transmit_case3 L 0x80 0x24 0x00 0x81 d dataLen ap se w)))"

section \<open>PKCS#11 objects\<close>

record mias_file_t =
  efid :: u16
  fl_dir :: "u8 list"
  fl_name :: "u8 list"
  fl_size :: u16

text \<open>\<open>getResponse(record)\<close>: the response is copied to the local array of 21 bytes, and its length returned.\<close>

definition get_record :: "mias_t \<Rightarrow> se_iface \<Rightarrow> mem \<Rightarrow> (nat \<times> mem) option" where
  "get_record ap se record = do { bs \<leftarrow> Applet_getResponse ap se; r \<leftarrow> mem_write record 0 bs; Some (length bs, r) }"

definition file_entry :: "mem \<Rightarrow> mias_file_t option" where
  "file_entry r = do {
     a \<leftarrow> mem_read r 0 4;
     name \<leftarrow> mem_read r 4 8;
     dir \<leftarrow> mem_read r 12 8;
     Some \<lparr>efid = be16 (a ! 0) (a ! 1), fl_dir = dir, fl_name = name, fl_size = be16 (a ! 2) (a ! 3)\<rparr> }"

text \<open>\<open>k\<close> entries are still to be read, beginning with number \<open>i\<close>.\<close>

fun files_loop :: "'w link \<Rightarrow> nat \<Rightarrow> u16 \<Rightarrow> mias_file_t list \<Rightarrow> mem \<Rightarrow> mias_t \<Rightarrow> se_iface \<Rightarrow> 'w \<Rightarrow> (mias_file_t list \<times> mem \<times> se_iface \<times> 'w) exec" where
  "files_loop L 0 i files record ap se w = ret (files, record, se, w)"
| "files_loop L (Suc k) i files record ap se w =
     bnd (read_binary L (1 + i * 0x15) 0x15 ap se w) (\<lambda>(ok, se, w).
     if \<not> ok then files_loop L k (i + 1) files record ap se w
     else
       bnd (access (get_record ap se record)) (\<lambda>(n, record).
       bnd (access (if n = 0x15 then map_option (\<lambda>f. f # files) (file_entry record) else Some files)) (\<lambda>files.
       files_loop L k (i + 1) files record ap se w)))"

text \<open>\<open>dir\<close> is a string of at most eight characters; of the name six are compared.\<close>

definition is_p11_data :: "mias_file_t \<Rightarrow> bool" where
  "is_p11_data f \<longleftrightarrow> takeWhile (\<lambda>b. b \<noteq> 0) (fl_dir f) = cs ''p11'' \<and> (take 6 (fl_name f) = cs ''pubdat'' \<or> take 6 (fl_name f) = cs ''pridat'')"

text \<open>Reading \<open>n\<close> bytes into the array; \<open>None\<close> when the command fails or the length is another one.\<close>

definition read_record :: "'w link \<Rightarrow> u16 \<Rightarrow> u8 \<Rightarrow> mem \<Rightarrow> mias_t \<Rightarrow> se_iface \<Rightarrow> 'w \<Rightarrow> (mem option \<times> mem \<times> se_iface \<times> 'w) exec" where
  "read_record L off n record ap se w =
     bnd (read_binary L off n ap se w) (\<lambda>(ok, se, w).
     if \<not> ok then ret (None, record, se, w)
     else bnd (access (get_record ap se record)) (\<lambda>(k, record). ret (if k = unat n then Some record else None, record, se, w)))"

text \<open>
  The label of the object: its length at offset 16, then the characters, terminated in the array.  The length of the response is
  compared before the copy, not with the size of the array.
\<close>

definition read_label :: "'w link \<Rightarrow> mem \<Rightarrow> mias_t \<Rightarrow> se_iface \<Rightarrow> 'w \<Rightarrow> (u8 list option \<times> mem \<times> se_iface \<times> 'w) exec" where
  "read_label L record ap se w =
     bnd (read_record L 16 1 record ap se w) (\<lambda>(r, record, se, w).
     case r of
       None \<Rightarrow> ret (None, record, se, w)
     | Some r \<Rightarrow>
         bnd (access (mem_get r 0)) (\<lambda>n.
         bnd (read_binary L 17 n ap se w) (\<lambda>(ok, se, w).
         if \<not> ok \<or> Applet_getResponseLength ap se \<noteq> ucast n then ret (None, record, se, w)
         else
           bnd (access (do {
             (k, record) \<leftarrow> get_record ap se record;
             record \<leftarrow> mem_write record k [0];
             l \<leftarrow> mem_read record 0 k;
             Some (l, record) })) (\<lambda>(l, record). ret (Some l, record, se, w)))))"

text \<open>A field with a length of one byte is skipped.\<close>

definition skip_field :: "'w link \<Rightarrow> u16 \<Rightarrow> mem \<Rightarrow> mias_t \<Rightarrow> se_iface \<Rightarrow> 'w \<Rightarrow> (u16 option \<times> mem \<times> se_iface \<times> 'w) exec" where
  "skip_field L off record ap se w =
     bnd (read_record L off 1 record ap se w) (\<lambda>(r, record, se, w).
     case r of
       None \<Rightarrow> ret (None, record, se, w)
     | Some r \<Rightarrow> bnd (access (mem_get r 0)) (\<lambda>n. ret (Some (off + (1 + ucast n)), record, se, w)))"

text \<open>The length of the value, in one byte or in the number of bytes that its low digit says; \<open>sz0\<close> is the variable before.\<close>

definition value_size :: "u16 \<Rightarrow> mem \<Rightarrow> (u16 \<times> nat) option" where
  "value_size sz0 record = do {
     a \<leftarrow> mem_get record 0;
     if a < 0x80 then Some (ucast a, 0)
     else do {
       bs \<leftarrow> mem_read record 1 (unat (a AND 0x0F));
       Some (foldl (\<lambda>s b. push_bit 8 s OR ucast b) sz0 bs, unat (a AND 0x0F)) } }"

partial_function (option) value_loop ::
  "'w link \<Rightarrow> u16 \<Rightarrow> mem option \<Rightarrow> u16 \<Rightarrow> u16 \<Rightarrow> mias_t \<Rightarrow> se_iface \<Rightarrow> 'w \<Rightarrow> (mem option \<times> u16 \<times> se_iface \<times> 'w) exec" where
  "value_loop L sz m i off ap se w =
     (if i < sz then
        bnd (read_binary L off (ucast (if unat sz < unat i + 0xEE then sz - i else 0xEE)) ap se w) (\<lambda>(ok, se, w).
        bnd (access (if ok then do { bs \<leftarrow> Applet_getResponse ap se; m \<leftarrow> store_at m (unat i) bs; Some (m, of_nat (length bs) :: u16) }
                     else Some (m, if unat sz < unat i + 0xEE then sz - i else 0xEE))) (\<lambda>(m, len).
        value_loop L sz m (i + len) (off + len) ap se w))
      else ret (m, i, se, w))"

definition read_value ::
  "(nat \<Rightarrow> mem option) \<Rightarrow> 'w link \<Rightarrow> u16 \<Rightarrow> u16 \<Rightarrow> mem \<Rightarrow> mias_t \<Rightarrow> se_iface \<Rightarrow> 'w \<Rightarrow> ((mem option \<times> u16) option \<times> mem \<times> se_iface \<times> 'w) exec" where
  "read_value alloc L sz0 off record ap se w =
     bnd (read_record L off 5 record ap se w) (\<lambda>(r, record, se, w).
     case r of
       None \<Rightarrow> ret (None, record, se, w)
     | Some r \<Rightarrow>
         bnd (access (value_size sz0 r)) (\<lambda>(sz, k).
         bnd (value_loop L sz (alloc (unat (sz + 1))) 0 (off + of_nat k + 1) ap se w) (\<lambda>(m, i, se, w).
         bnd (access (store_at m (unat i) [0])) (\<lambda>m. ret (Some (m, sz + 1), record, se, w)))))"

text \<open>One file: its label is compared, CKA_APPLICATION and CKA_OBJECT_ID are skipped, and CKA_VALUE is read.\<close>

definition read_object ::
  "(nat \<Rightarrow> mem option) \<Rightarrow> 'w link \<Rightarrow> u16 \<Rightarrow> u8 list \<Rightarrow> mias_file_t \<Rightarrow> mem \<Rightarrow> mias_t \<Rightarrow> se_iface \<Rightarrow> 'w \<Rightarrow> ((mem option \<times> u16) option \<times> mem \<times> se_iface \<times> 'w) exec" where
  "read_object alloc L sz0 label f record ap se w =
     bnd (checked ap (Applet_transmit_case3 L 0 0xA4 8 4 [ucast (drop_bit 8 (efid f)), ucast (efid f)] 2 ap se w)) (\<lambda>(ok, se, w).
     if \<not> ok then ret (None, record, se, w)
     else bnd (read_label L record ap se w) (\<lambda>(l, record, se, w).
       if l \<noteq> Some label then ret (None, record, se, w)
       else bnd (skip_field L (17 + of_nat (length label)) record ap se w) (\<lambda>(off, record, se, w).
         case off of
           None \<Rightarrow> ret (None, record, se, w)
         | Some off \<Rightarrow> bnd (skip_field L off record ap se w) (\<lambda>(off, record, se, w).
             case off of
               None \<Rightarrow> ret (None, record, se, w)
             | Some off \<Rightarrow> read_value alloc L sz0 off record ap se w))))"

fun search_loop ::
  "(nat \<Rightarrow> mem option) \<Rightarrow> 'w link \<Rightarrow> u16 \<Rightarrow> u8 list \<Rightarrow> mias_file_t list \<Rightarrow> mem \<Rightarrow> mias_t \<Rightarrow> se_iface \<Rightarrow> 'w \<Rightarrow> ((mem option \<times> u16) option \<times> se_iface \<times> 'w) exec" where
  "search_loop alloc L sz0 label [] record ap se w = ret (None, se, w)"
| "search_loop alloc L sz0 label (f # fs) record ap se w =
     bnd (if is_p11_data f then read_object alloc L sz0 label f record ap se w else ret (None, record, se, w)) (\<lambda>(r, record, se, w).
     case r of Some x \<Rightarrow> ret (Some x, se, w) | None \<Rightarrow> search_loop alloc L sz0 label fs record ap se w)"

text \<open>The number of files is received in a variable of one byte.\<close>

definition MIAS_p11GetObjectByLabel ::
  "(nat \<Rightarrow> mem option) \<Rightarrow> 'w link \<Rightarrow> u16 \<Rightarrow> mem \<Rightarrow> u8 list \<Rightarrow> mias_t \<Rightarrow> se_iface \<Rightarrow> 'w \<Rightarrow> (bool \<times> mem option \<times> u16 \<times> se_iface \<times> 'w) exec" where
  "MIAS_p11GetObjectByLabel alloc L sz0 record label ap se w =
     bnd (checked ap (Applet_transmit_case3 L 0 0xA4 8 4 [0x01, 0x01] 2 ap se w)) (\<lambda>(ok, se, w).
     if \<not> ok then ret (False, None, 0, se, w)
     else bnd (read_binary L 0 1 ap se w) (\<lambda>(ok, se, w).
       if \<not> ok then ret (False, None, 0, se, w)
       else bnd (access (do { bs \<leftarrow> Applet_getResponse ap se; mem_write [0] 0 bs; Some bs })) (\<lambda>bs.
         if length bs \<noteq> 1 then ret (False, None, 0, se, w)
         else
           bnd (files_loop L (unat (hd bs)) 0 [] record ap se w) (\<lambda>(files, record, se, w).
           bnd (search_loop alloc L sz0 label files record ap se w) (\<lambda>(r, se, w).
           ret (case r of None \<Rightarrow> (False, None, 0, se, w) | Some (m, n) \<Rightarrow> (True, m, n, se, w)))))))"

section \<open>Interface\<close>

definition MIAS_hashInit :: "'w link \<Rightarrow> u8 \<Rightarrow> mias_t \<Rightarrow> se_iface \<Rightarrow> 'w \<Rightarrow> (bool \<times> mias_t \<times> se_iface \<times> 'w) exec" where
  "MIAS_hashInit L alg ap se w =
     (let ap = ap\<lparr>mi_hashAlgo := alg\<rparr> in bnd (MIAS_mseSetBeforeHash L alg ap se w) (\<lambda>(ok, se, w). ret (ok, ap, se, w)))"

definition MIAS_hashUpdate :: "'w link \<Rightarrow> mem \<Rightarrow> u16 \<Rightarrow> mias_t \<Rightarrow> se_iface \<Rightarrow> 'w \<Rightarrow> (bool \<times> se_iface \<times> 'w) exec" where
  "MIAS_hashUpdate L m dataLen ap se w = MIAS_psoHashInternally L (mi_hashAlgo ap) m dataLen ap se w"

definition MIAS_hashFinal :: "'w link \<Rightarrow> mias_t \<Rightarrow> se_iface \<Rightarrow> 'w \<Rightarrow> (bool \<times> u8 list \<times> se_iface \<times> 'w) exec" where
  "MIAS_hashFinal L ap se w = MIAS_psoHashInternallyFinal L ap se w"

definition MIAS_signInit :: "'w link \<Rightarrow> u8 \<Rightarrow> u8 \<Rightarrow> mias_t \<Rightarrow> se_iface \<Rightarrow> 'w \<Rightarrow> (bool \<times> mias_t \<times> se_iface \<times> 'w) exec" where
  "MIAS_signInit L alg key ap se w =
     (let ap = ap\<lparr>mi_signAlgo := alg, mi_signKey := key\<rparr> in bnd (MIAS_mseSetBeforeSignature L alg key ap se w) (\<lambda>(ok, se, w). ret (ok, ap, se, w)))"

definition MIAS_signFinal :: "'w link \<Rightarrow> mem \<Rightarrow> mias_t \<Rightarrow> se_iface \<Rightarrow> 'w \<Rightarrow> (bool \<times> u8 list \<times> se_iface \<times> 'w) exec" where
  "MIAS_signFinal L hash ap se w =
     bnd (MIAS_psoHashExternally L (mi_signAlgo ap AND 0xF0) hash ap se w) (\<lambda>(ok, se, w).
     if ok then MIAS_psoComputeDigitalSignature L ap se w else ret (False, [], se, w))"

definition MIAS_decryptInit :: "'w link \<Rightarrow> u8 \<Rightarrow> u8 \<Rightarrow> mias_t \<Rightarrow> se_iface \<Rightarrow> 'w \<Rightarrow> (bool \<times> mias_t \<times> se_iface \<times> 'w) exec" where
  "MIAS_decryptInit L alg key ap se w =
     (let ap = ap\<lparr>mi_decryptAlgo := alg, mi_decryptKey := key\<rparr> in bnd (MIAS_mseSetBeforeDecrypt L alg key ap se w) (\<lambda>(ok, se, w). ret (ok, ap, se, w)))"

definition MIAS_decryptFinal :: "'w link \<Rightarrow> mem \<Rightarrow> u16 \<Rightarrow> mias_t \<Rightarrow> se_iface \<Rightarrow> 'w \<Rightarrow> (bool \<times> u8 list \<times> se_iface \<times> 'w) exec" where
  "MIAS_decryptFinal L m dataLen ap se w = MIAS_psoDecipher L m dataLen ap se w"


end
