(* ===== verification/Se_Mias_Card.thy ===== *)
theory Se_Mias_Card
  imports Se_Mias
begin

text \<open>
  What the MIAS applet of \<open>MIAS.cpp\<close> does with a card: each operation against the exchanges that a card
  answers, over any link that satisfies \<open>card_link\<close>, and then over the modem.  The responses may come directly
  or by way of \<open>61xx\<close> and \<open>6Cxx\<close>.
\<close>

section \<open>Commands of a selected applet\<close>

context card_link
begin

lemma command_cases:
  assumes "ok w" and "iface_ok se" and "plays answers ps (card w) c" and "fitting_responses ps" and "ap_isSelected ap"
  shows "dialog [ap_channel ap, ins, p1, p2, le] ps r \<Longrightarrow> answered r c (Applet_transmit_case2 L 0 ins p1 p2 le ap se w)"
    and "length d \<le> 251 \<Longrightarrow> n = of_nat (length d) \<Longrightarrow> dialog ([cla OR ap_channel ap, ins, p1, p2, of_nat (length d)] @ d) ps r \<Longrightarrow>
      answered r c (Applet_transmit_case3 L cla ins p1 p2 d n ap se w)"
    and "length d \<le> 250 \<Longrightarrow> n = of_nat (length d) \<Longrightarrow> dialog ([ap_channel ap, ins, p1, p2, of_nat (length d)] @ d @ [le]) ps r \<Longrightarrow>
      answered r c (Applet_transmit_case4 L 0 ins p1 p2 d n le ap se w)"
  using transmit_cases [OF assms(1-4)] assms(5) by (simp_all add: Applet_transmit_case2_def Applet_transmit_case3_def Applet_transmit_case4_def)

lemma checked_answered: "answered (d @ [0x90, 0]) c x \<Longrightarrow> ap_isSelected ap \<Longrightarrow> answered (d @ [0x90, 0]) c (checked ap x)"
  unfolding answered_def checked_def Applet_getStatusWord_def using holds_status [where d = d and a = "0x90" and b = "0"] by fastforce

text \<open>The commands whose response only has to be \<open>9000\<close>.\<close>

lemma accepted_cases:
  assumes "ok w" and "iface_ok se" and "plays answers ps (card w) c" and "fitting_responses ps" and "ap_isSelected ap"
  shows "dialog [ap_channel ap, ins, p1, p2, le] ps (d @ [0x90, 0]) \<Longrightarrow> answered (d @ [0x90, 0]) c (checked ap (Applet_transmit_case2 L 0 ins p1 p2 le ap se w))"
    and "length b \<le> 251 \<Longrightarrow> n = of_nat (length b) \<Longrightarrow> dialog ([cla OR ap_channel ap, ins, p1, p2, of_nat (length b)] @ b) ps (d @ [0x90, 0]) \<Longrightarrow>
      answered (d @ [0x90, 0]) c (checked ap (Applet_transmit_case3 L cla ins p1 p2 b n ap se w))"
    and "length b \<le> 250 \<Longrightarrow> n = of_nat (length b) \<Longrightarrow> dialog ([ap_channel ap, ins, p1, p2, of_nat (length b)] @ b @ [le]) ps (d @ [0x90, 0]) \<Longrightarrow>
      answered (d @ [0x90, 0]) c (checked ap (Applet_transmit_case4 L 0 ins p1 p2 b n le ap se w))"
  using command_cases [OF assms] by (blast intro: checked_answered [OF _ assms(5)])+

end

section \<open>Signatures\<close>

text \<open>
  The data that the card hands out from the response \<open>r\<close> on: for as long as the status is \<open>61xx\<close> the next piece is asked
  for with GET RESPONSE.
\<close>

inductive collected :: "u8 \<Rightarrow> u8 list \<Rightarrow> (u8 list \<times> u8 list) list \<Rightarrow> u8 list \<Rightarrow> bool" for ch where
  last_piece: "bs \<noteq> [] \<Longrightarrow> collected ch (bs @ [0x90, 0]) [] bs"
| next_piece: "bs \<noteq> [] \<Longrightarrow> dialog [ch, 0xC0, 0, 0, x] p r \<Longrightarrow> collected ch r q sg \<Longrightarrow> collected ch (bs @ [0x61, x]) (p @ q) (bs @ sg)"

text \<open>
  A card that signs the digest \<open>hash\<close> with the key number \<open>key\<close>: it takes the algorithm and the key, the digest with its length, and
  the command to sign.
\<close>

definition signs :: "u8 \<Rightarrow> u8 \<Rightarrow> u8 \<Rightarrow> u8 list \<Rightarrow> u8 list \<Rightarrow> (u8 list \<times> u8 list) list \<Rightarrow> bool" where
  "signs ch alg key hash sg ps \<longleftrightarrow>
     (\<exists>p q s t d e r. ps = p @ q @ s @ t \<and>
        dialog [ch, 0x22, 0x41, 0xB6, 6, 0x80, 1, alg, 0x84, 1, key] p (d @ [0x90, 0]) \<and>
        dialog ([ch, 0x2A, 0x90, 0xA0, of_nat (2 + length hash), 0x90, of_nat (length hash)] @ hash @ [0]) q (e @ [0x90, 0]) \<and>
        dialog [ch, 0x2A, 0x9E, 0x9A, 0] s r \<and> collected ch r t sg)"

lemma status_61: "(push_bit 8 (ucast (0x61 :: u8)) OR ucast (x :: u8)) AND 0xFF00 = (0x6100 :: u16)" "ucast ((push_bit 8 (ucast (0x61 :: u8)) OR ucast x) AND 0x00FF :: u16) = x"
proof -
  have m: "0xFF00 = push_bit 8 (mask 8 :: u16)" "0x00FF = (mask 8 :: u16)"
    by (simp_all add: mask_eq_exp_minus_1)
  have "ucast x AND 0xFF00 = (0 :: u16)"
    unfolding m(1) by (rule bit_word_eqI) (auto simp: bit_simps dest: bit_imp_le_length)
  then show "(push_bit 8 (ucast (0x61 :: u8)) OR ucast (x :: u8)) AND 0xFF00 = (0x6100 :: u16)"
    by (simp add: bit.conj_disj_distrib2)
  have "ucast x AND 0x00FF = (ucast x :: u16)"
    unfolding m(2) by (rule bit_word_eqI) (auto simp: bit_simps dest: bit_imp_le_length)
  moreover have "ucast (ucast x :: u16) = x"
    by (rule bit_word_eqI) (simp add: bit_simps)
  ultimately show "ucast ((push_bit 8 (ucast (0x61 :: u8)) OR ucast x) AND 0x00FF :: u16) = x"
    by (simp add: bit.conj_disj_distrib2)
qed

lemma status_not_61: "(0x9000 :: u16) AND 0xFF00 \<noteq> 0x6100"
  by simp

context card_link
begin

lemma signature_collected:
  "collected (ap_channel ap) r ps sg \<Longrightarrow> holds r se \<Longrightarrow> ok w \<Longrightarrow> plays answers ps (card w) c \<Longrightarrow> fitting_responses ps \<Longrightarrow> ap_isSelected ap \<Longrightarrow>
   \<exists>se' w'. signature_loop L pre ap se w = ret (True, pre @ sg, se', w') \<and> iface_ok se' \<and> ok w' \<and> card w' = c"
proof (induction arbitrary: se w pre rule: collected.induct)
  case (last_piece bs)
  have n: "Applet_getResponseLength ap se \<noteq> 0" "Applet_getResponse ap se = Some bs" "Applet_getStatusWord ap se = Some 0x9000"
    using holds_response [OF last_piece.prems(1)] holds_status [OF last_piece.prems(1)] last_piece.hyps last_piece.prems(5)
    by (auto simp: Applet_getResponseLength_def Applet_getResponse_def Applet_getStatusWord_def word_unat_eq_iff)
  then show ?case
    using last_piece.prems holds_ok by (subst signature_loop.simps) (auto simp: ret_def)
next
  case (next_piece bs x p r q sg)
  obtain e where e: "plays answers p (card w) e" "plays answers q e c" "fitting_responses p" "fitting_responses q"
    using next_piece.prems(3,4) by (auto simp: plays_append)
  have n: "Applet_getResponseLength ap se \<noteq> 0" "Applet_getResponse ap se = Some bs" "Applet_getStatusWord ap se = Some (push_bit 8 (ucast (0x61 :: u8)) OR ucast x)"
    using holds_response [OF next_piece.prems(1)] holds_status [OF next_piece.prems(1)] next_piece.hyps(1) next_piece.prems(5)
    by (auto simp: Applet_getResponseLength_def Applet_getResponse_def Applet_getStatusWord_def word_unat_eq_iff)
  obtain se1 w1 where x: "Applet_transmit_case2 L 0 0xC0 0 0 x ap se w = ret (True, se1, w1)" "holds r se1" "ok w1" "card w1 = e"
    using command_cases(1) [OF next_piece.prems(2) holds_ok [OF next_piece.prems(1)] e(1,3) next_piece.prems(5) next_piece.hyps(2)] by (auto simp: answered_def)
  have "signature_loop L pre ap se w = signature_loop L (pre @ bs) ap se1 w1"
    using n x(1) status_61 [of x] by (subst signature_loop.simps) simp
  then show ?case
    using next_piece.IH [OF x(2,3) _ e(4) next_piece.prems(5), of "pre @ bs"] e(2) x(4) by simp
qed

lemma signature_made:
  assumes "signs (ap_channel ap) alg key hash sg ps" and "ok w" and "iface_ok se" and "plays answers ps (card w) c" and "fitting_responses ps" and "ap_isSelected ap"
    and "digest_length (alg AND 0xF0) = Some n" and "unat n = length hash"
  shows "\<exists>se1 w1 se' w'. MIAS_signInit L alg key ap se w = ret (True, ap\<lparr>mi_signAlgo := alg, mi_signKey := key\<rparr>, se1, w1) \<and>
    MIAS_signFinal L (hash @ rest) (ap\<lparr>mi_signAlgo := alg, mi_signKey := key\<rparr>) se1 w1 = ret (True, sg, se', w') \<and> iface_ok se' \<and> ok w' \<and> card w' = c"
proof -
  let ?ap = "ap\<lparr>mi_signAlgo := alg, mi_signKey := key\<rparr>"
  obtain p q s t d e r c1 c2 c3 where d: "dialog [ap_channel ap, 0x22, 0x41, 0xB6, 6, 0x80, 1, alg, 0x84, 1, key] p (d @ [0x90, 0])"
    "dialog ([ap_channel ap, 0x2A, 0x90, 0xA0, of_nat (2 + length hash), 0x90, of_nat (length hash)] @ hash @ [0]) q (e @ [0x90, 0])"
    "dialog [ap_channel ap, 0x2A, 0x9E, 0x9A, 0] s r" "collected (ap_channel ap) r t sg"
    and c: "plays answers p (card w) c1" "plays answers q c1 c2" "plays answers s c2 c3" "plays answers t c3 c"
    and f: "fitting_responses p" "fitting_responses q" "fitting_responses s" "fitting_responses t"
    using assms(1,4,5) by (auto simp: signs_def plays_append)
  obtain se1 w1 where x: "MIAS_mseSetBeforeSignature L alg key ?ap se w = ret (True, se1, w1)" "iface_ok se1" "ok w1" "card w1 = c1"
    using accepted_cases(2) [OF assms(2,3) c(1) f(1), where ap = ?ap and b = "[0x80, 1, alg, 0x84, 1, key]" and n = 6 and cla = 0] d(1) assms(6) holds_ok
    by (fastforce simp: MIAS_mseSetBeforeSignature_def answered_def)
  have n: "n = of_nat (length hash)"
    unfolding assms(8) [symmetric] by simp
  have l: "length hash \<le> 64"
    using assms(7,8) by (auto simp: digest_length_def split: if_splits)
  have "2 + ucast n = (of_nat (length ([0x90, n] @ hash)) :: u16)"
    by (simp add: assms(8) [symmetric])
  then have "answered (e @ [0x90, 0]) c2 (checked ?ap (Applet_transmit_case4 L 0 0x2A 0x90 0xA0 ([0x90, n] @ hash) (2 + ucast n) 0 ?ap se1 w1))"
    using accepted_cases(3) [OF x(3,2) _ f(2), where ap = ?ap and b = "[0x90, n] @ hash" and le = 0] c(2) d(2) x(4) assms(6) l n by simp
  moreover have "MIAS_psoHashExternally L (alg AND 0xF0) (hash @ rest) ?ap se1 w1 = checked ?ap (Applet_transmit_case4 L 0 0x2A 0x90 0xA0 ([0x90, n] @ hash) (2 + ucast n) 0 ?ap se1 w1)"
    using assms(7,8) by (simp add: MIAS_psoHashExternally_def mem_read_def)
  ultimately obtain se2 w2 where y: "MIAS_psoHashExternally L (alg AND 0xF0) (hash @ rest) ?ap se1 w1 = ret (True, se2, w2)" "iface_ok se2" "ok w2" "card w2 = c2"
    using holds_ok by (auto simp: answered_def)
  obtain se3 w3 where z: "Applet_transmit_case2 L 0 0x2A 0x9E 0x9A 0 ?ap se2 w2 = ret (True, se3, w3)" "holds r se3" "ok w3" "card w3 = c3"
    using command_cases(1) [OF y(3,2) _ f(3), where ap = ?ap and c = c3 and r = r] c(3) d(3) y(4) assms(6) by (fastforce simp: answered_def)
  obtain se4 w4 where "signature_loop L [] ?ap se3 w3 = ret (True, sg, se4, w4)" "iface_ok se4" "ok w4" "card w4 = c"
    using signature_collected [of ?ap r t sg se3 w3 c "[]"] d(4) z c(4) f(4) assms(6) by auto
  then show ?thesis
    using x(1) y(1) z(1) by (auto simp: MIAS_signInit_def MIAS_signFinal_def MIAS_psoComputeDigitalSignature_def Let_def)
qed

end

section \<open>Key pairs\<close>

text \<open>
  Parameters of a file that the applet understands: the template \<open>62\<close>, with fields of which those with the tag \<open>81\<close> say the
  size in two bytes.
\<close>

definition announces16 :: "u8 list \<Rightarrow> nat \<Rightarrow> bool" where
  "announces16 fcp n \<longleftrightarrow>
     (\<exists>fs. fcp = [0x62, of_nat (length (concat (map tlv fs)))] @ concat (map tlv fs) \<and> length (concat (map tlv fs)) \<le> 253 \<and>
        (\<forall>f \<in> set fs. fst f = 0x81 \<longrightarrow> length (snd f) = 2 \<and> big_endian (snd f) = n) \<and> (\<exists>f \<in> set fs. fst f = 0x81))"

lemma be16_value: "be16 a b = of_nat (256 * unat a + unat b)"
  using size_step [of "unat a" b] by (simp add: be16_def)

lemma small_byte: "unat (b :: u8) < 256"
  using unsigned_less [of b, where ?'a = nat] by (simp del: unsigned_less)

lemma fcp_loop_fields:
  assumes "m = p @ concat (map tlv fs) @ r" and "unat len = length p + length (concat (map tlv fs))"
    and "\<forall>f \<in> set fs. fst f = 0x81 \<longrightarrow> length (snd f) = 2 \<and> big_endian (snd f) = n"
  shows "fcp_loop m len (of_nat (length p)) sz = ret (if \<exists>f \<in> set fs. fst f = 0x81 then of_nat n else sz)"
  using assms
proof (induction fs arbitrary: p sz)
  case Nil
  then have p: "length p = unat len"
    by simp
  have "of_nat (length p) = len"
    unfolding p by simp
  then show ?case
    by (simp add: fcp_loop.simps [of m len])
next
  case (Cons f fs)
  have l: "length p + 2 + length (snd f) + length (concat (map tlv fs)) = unat len"
    using Cons.prems(2) by (simp add: tlv_def [of f])
  then have u: "length p + 2 + length (snd f) < 256"
    using small_byte [of len] by linarith
  let ?i = "of_nat (length p) :: u8"
  have i: "unat ?i = length p" "?i < len" "unat (of_nat (length (snd f)) :: u8) = length (snd f)"
    using l u by (simp_all add: word_less_nat_alt unsigned_of_nat take_bit_nat_eq_self)
  have g: "mem_get m (unat ?i) = Some (fst f)" "mem_get m (unat ?i + 1) = Some (of_nat (length (snd f)))"
    using Cons.prems(1) i(1) by (simp_all add: mem_get_def nth_append tlv_def [of f])
  have v: "do { a \<leftarrow> mem_get m (unat ?i + 2); b \<leftarrow> mem_get m (unat ?i + 3); Some (be16 a b) } = Some (of_nat n)" if t: "fst f = 0x81"
  proof -
    obtain a b where "snd f = [a, b]" "256 * unat a + unat b = n"
      using Cons.prems(3) t by (auto simp: big_endian_def length_Suc_conv numeral_2_eq_2)
    then show ?thesis
      using Cons.prems(1) i(1) be16_value [of a b] by (simp add: mem_get_def nth_append tlv_def [of f] numeral_3_eq_3)
  qed
  let ?sz = "if fst f = 0x81 then of_nat n else sz"
  have "?i + (2 + of_nat (length (snd f))) = of_nat (length (p @ tlv f))"
    by (simp add: tlv_def)
  moreover have "fcp_loop m len ?i sz = fcp_loop m len (?i + (2 + of_nat (length (snd f)))) ?sz"
    using i(2) g v by (subst fcp_loop.simps) (auto simp: TAG_FILE_SIZE_def)
  ultimately show ?case
    using Cons.IH [of "p @ tlv f" ?sz] Cons.prems by auto
qed

lemma announced16_size:
  assumes "announces16 fcp n" and "holds (fcp @ [a, b]) se"
  shows "\<exists>l. resp_get se 0 = Some 0x62 \<and> resp_get se 1 = Some l \<and> fcp_loop (si_apduResponse se) (l + 2) 2 sz = ret (of_nat n)"
proof -
  obtain fs where f: "fcp = [0x62, of_nat (length (concat (map tlv fs)))] @ concat (map tlv fs)" "length (concat (map tlv fs)) \<le> 253"
    "\<forall>f \<in> set fs. fst f = 0x81 \<longrightarrow> length (snd f) = 2 \<and> big_endian (snd f) = n" "\<exists>f \<in> set fs. fst f = 0x81"
    using assms(1) by (auto simp: announces16_def)
  let ?m = "si_apduResponse se" and ?l = "of_nat (length (concat (map tlv fs))) :: u8"
  have m: "?m = [0x62, ?l] @ concat (map tlv fs) @ ([a, b] @ drop (length fcp + 2) ?m)"
    using assms(2) append_take_drop_id [of "length (fcp @ [a, b])" ?m] f(1) by (simp add: holds_def)
  have "?l + 2 = of_nat (length (concat (map tlv fs)) + 2)"
    by simp
  then have "unat (?l + 2) = length (concat (map tlv fs)) + 2"
    using f(2) by (simp only: unsigned_of_nat) (simp add: take_bit_nat_eq_self)
  then have "fcp_loop ?m (?l + 2) 2 sz = ret (of_nat n)"
    using fcp_loop_fields [OF m _ f(3), of "?l + 2" sz] f(4) by simp
  then show ?thesis
    using holds_get [OF assms(2), of 0] holds_get [OF assms(2), of 1] f(1) unfolding resp_get_def by simp
qed

text \<open>Records of \<open>k\<close> bytes, the first one at the offset \<open>b\<close>, read one after the other from number \<open>i\<close> on.\<close>

primrec records :: "u8 \<Rightarrow> nat \<Rightarrow> nat \<Rightarrow> nat \<Rightarrow> u8 list list \<Rightarrow> (u8 list \<times> u8 list) list \<Rightarrow> bool" where
  "records ch b k i [] ps \<longleftrightarrow> ps = []"
| "records ch b k i (r # rs) ps \<longleftrightarrow>
     (\<exists>p q. ps = p @ q \<and> length r = k \<and> dialog [ch, 0xB0, of_nat ((b + k * i) div 256), of_nat (b + k * i), of_nat k] p (r @ [0x90, 0]) \<and> records ch b k (Suc i) rs q)"

text \<open>
  The key pair in the container number \<open>i\<close>: none when the first byte of the record is zero, else a signature key with
  the size in bytes 4 and 5, or an exchange key with the size in bytes 6 and 7.
\<close>

definition container_key :: "nat \<Rightarrow> u8 list \<Rightarrow> mias_key_pair_t option" where
  "container_key i r =
     (if r ! 0 = 0 then None
      else
        let s = be16 (r ! 4) (r ! 5); bits = (if s = 0 then be16 (r ! 6) (r ! 7) else s) in
        Some \<lparr>kid = (if bits = 1024 then if s = 0 then 0x10 else 0x20 else if s = 0 then 0x30 else 0x40) OR (of_nat i + 1),
          flags = RSA_KEY_PAIR_FLAG OR SIGNATURE_KEY_PAIR_FLAG OR (if s = 0 then DECRYPTION_KEY_PAIR_FLAG else 0),
          size_in_bits = bits, pub_file_id = [0, 0], has_cert = False\<rparr>)"

definition rsa_container :: "u8 list \<Rightarrow> bool" where
  "rsa_container r \<longleftrightarrow> r ! 0 = 0 \<or> (let s = be16 (r ! 4) (r ! 5) in (if s = 0 then be16 (r ! 6) (r ! 7) else s) \<in> {1024, 2048})"

text \<open>An entry of the directory that names the file of a certificate: the container and the file.\<close>

definition certifies :: "u8 list \<Rightarrow> (int \<times> u8 list) option" where
  "certifies e =
     (if take 4 (drop 12 e) = cs ''mscp'' \<and> (take 3 (drop 4 e) = cs ''kxc'' \<or> take 3 (drop 4 e) = cs ''ksc'')
      then Some ((uint (e ! 7) - 48) * 10 + (uint (e ! 8) - 48), take 2 e) else None)"

primrec container_keys :: "nat \<Rightarrow> u8 list list \<Rightarrow> mias_key_pair_t list" where
  "container_keys i [] = []"
| "container_keys i (r # rs) = container_keys (Suc i) rs @ (case container_key i r of None \<Rightarrow> [] | Some k \<Rightarrow> [k])"

definition certify :: "u8 list \<Rightarrow> mias_key_pair_t list \<Rightarrow> mias_key_pair_t list" where
  "certify e ks = (case certifies e of None \<Rightarrow> ks | Some (n, f) \<Rightarrow> mark_pair n f ks)"

text \<open>The file of the certificate of container \<open>n\<close>, according to the last entry for it.\<close>

definition certificate_file :: "nat \<Rightarrow> u8 list list \<Rightarrow> u8 list option" where
  "certificate_file n es = foldl (\<lambda>x e. case certifies e of Some (k, f) \<Rightarrow> if k = int n then Some f else x | None \<Rightarrow> x) None es"

definition with_certificate :: "u8 list option \<Rightarrow> mias_key_pair_t \<Rightarrow> mias_key_pair_t" where
  "with_certificate f k = (case f of None \<Rightarrow> k | Some f \<Rightarrow> k\<lparr>pub_file_id := f, has_cert := True\<rparr>)"

text \<open>The key pair of container \<open>n\<close> on a card with these containers and files.\<close>

definition card_key :: "u8 list list \<Rightarrow> u8 list list \<Rightarrow> nat \<Rightarrow> mias_key_pair_t option" where
  "card_key rs es n = (if n < length rs then map_option (with_certificate (certificate_file n es)) (container_key n (rs ! n)) else None)"

lemmas key_flags = RSA_KEY_PAIR_FLAG_def SIGNATURE_KEY_PAIR_FLAG_def DECRYPTION_KEY_PAIR_FLAG_def

lemma container_pair_key:
  assumes "length r = 11" and "rsa_container r" and "r ! 0 \<noteq> 0" and "holds (r @ [a, b]) se"
  shows "container_pair raw (of_nat i) (si_apduResponse se) = container_key i r"
proof -
  have g: "mem_get (si_apduResponse se) j = Some (r ! j)" if "j < 11" for j
    using holds_get [OF assms(4), of j] assms(1) that by (simp add: nth_append)
  show ?thesis
    using assms(2,3) by (cases "be16 (r ! 4) (r ! 5) = 0") (auto simp: container_pair_def container_key_def rsa_container_def g key_flags Let_def)
qed

lemma low_digit:
  assumes "i < 15" and "(c :: u8) AND 0x0F = 0"
  shows "uint ((c OR (of_nat i + 1)) AND 0x0F) = int i + 1"
proof -
  have "i \<in> set [0..<15]"
    using assms(1) by simp
  then have "uint ((of_nat i + 1 :: u8) AND 0x0F) = int i + 1"
    by (simp add: upt_rec) auto
  then show ?thesis
    using assms(2) by (simp add: bit.conj_disj_distrib2)
qed

lemma container_digit:
  assumes "i < 15" and "container_key i r = Some k"
  shows "in_container n k \<longleftrightarrow> n = int i"
proof -
  have "\<exists>c. kid k = c OR (of_nat i + 1) \<and> c AND 0x0F = 0"
    using assms(2) by (auto simp: container_key_def Let_def split: if_splits)
  then show ?thesis
    using low_digit [OF assms(1)] by (auto simp: in_container_def)
qed

text \<open>Looking a container up in the list that was built.\<close>

lemma find_container_keys:
  "i + length rs \<le> 15 \<Longrightarrow> find (in_container n) (container_keys i rs) = (if int i \<le> n \<and> n < int (i + length rs) then container_key (nat n) (rs ! (nat n - i)) else None)"
proof (induction rs arbitrary: i)
  case (Cons r rs)
  have d: "find (in_container n) (case container_key i r of None \<Rightarrow> [] | Some k \<Rightarrow> [k]) = (if n = int i then container_key i r else None)"
    using Cons.prems container_digit [of i r] by (auto split: option.splits)
  have f: "find P (xs @ ys) = (case find P xs of None \<Rightarrow> find P ys | Some x \<Rightarrow> Some x)" for P and xs ys :: "mias_key_pair_t list"
    by (induction xs) auto
  show ?case
    using Cons.IH [of "Suc i"] Cons.prems d by (auto simp: f nth_Cons' Suc_diff_Suc split: option.splits)
qed auto

lemma mark_pair_find:
  "find (in_container n) (mark_pair k f ks) = (if k = n then map_option (\<lambda>x. x\<lparr>pub_file_id := f, has_cert := True\<rparr>) (find (in_container n) ks) else find (in_container n) ks)"
proof -
  have i: "in_container n (x\<lparr>pub_file_id := f, has_cert := True\<rparr>) \<longleftrightarrow> in_container n x" "in_container k x \<Longrightarrow> in_container n x \<longleftrightarrow> k = n" for x
    by (auto simp: in_container_def)
  show ?thesis
    by (induction ks) (auto simp: i)
qed

lemma certify_find:
  "find (in_container (int n)) (fold certify es ks) = map_option (with_certificate (certificate_file n es)) (find (in_container (int n)) ks)"
proof (induction es rule: rev_induct)
  case (snoc e es)
  then show ?case
    by (cases "find (in_container (int n)) ks") (auto simp: certify_def certificate_file_def with_certificate_def mark_pair_find split: option.splits)
qed (simp add: certificate_file_def with_certificate_def option.map_ident)

lemma card_key_found:
  assumes "length rs \<le> 15"
  shows "find (in_container (int n)) (fold certify es (container_keys 0 rs)) = card_key rs es n"
  using find_container_keys [of 0 rs "int n"] assms by (simp add: certify_find card_key_def)

lemma mark_entry_certify:
  assumes "length e = 21" and "holds (e @ [a, b]) se"
  shows "mark_entry (si_apduResponse se) ks = Some (certify e ks)"
proof -
  have g: "mem_get (si_apduResponse se) j = Some (e ! j)" if "j < 21" for j
    using holds_get [OF assms(2), of j] assms(1) that by (simp add: nth_append)
  have "take 23 (si_apduResponse se) = e @ [a, b]"
    using assms by (simp add: holds_def)
  then have t: "take k (drop j (si_apduResponse se)) = take k (drop j e)" if "j + k \<le> 21" for j k
  proof -
    have "take k (drop j (take 23 (si_apduResponse se))) = take k (drop j (si_apduResponse se))"
      using that by (simp add: drop_take min_def)
    then show ?thesis
      using that assms(1) \<open>take 23 (si_apduResponse se) = e @ [a, b]\<close> by simp
  qed
  have "mem_read (si_apduResponse se) j k = Some (take k (drop j e))" if "j + k \<le> 21" for j k
    using t [OF that] that assms(2) by (simp add: mem_read_def holds_def iface_ok_def)
  then show ?thesis
    using g by (auto simp: mark_entry_def certify_def certifies_def split: option.splits)
qed

text \<open>
  A card with the containers \<open>rs\<close> and the files \<open>es\<close> that are listed in its directory.
\<close>

definition lists_keys :: "u8 \<Rightarrow> u8 list list \<Rightarrow> u8 list list \<Rightarrow> (u8 list \<times> u8 list) list \<Rightarrow> bool" where
  "lists_keys ch rs es ps \<longleftrightarrow>
     (\<exists>p q s t u fcp d. ps = p @ q @ s @ t @ u \<and> dialog [ch, 0xA4, 8, 4, 2, 0x00, 0x02, 0x15] p (fcp @ [0x90, 0]) \<and> announces16 fcp (11 * length rs) \<and>
        records ch 0 11 0 rs q \<and> dialog [ch, 0xA4, 8, 4, 2, 0x01, 0x01, 0x15] s (d @ [0x90, 0]) \<and>
        dialog [ch, 0xB0, 0, 0, 1] t ([of_nat (length es)] @ [0x90, 0]) \<and> records ch 1 21 0 es u)"

lemma low_mask: "off AND 0xFF = (take_bit 8 off :: u16)"
  by (simp add: take_bit_eq_mask mask_eq_exp_minus_1)

lemma offset_bytes:
  assumes "n < 65536"
  shows "ucast (drop_bit 8 (of_nat n :: u16) AND 0xFF) = (of_nat (n div 256) :: u8)" and "ucast ((of_nat n :: u16) AND 0xFF) = (of_nat n :: u8)"
proof -
  have "ucast (take_bit 8 x :: u16) = (ucast x :: u8)" for x
    by (rule bit_word_eqI) (auto simp: bit_simps)
  then show "ucast (drop_bit 8 (of_nat n :: u16) AND 0xFF) = (of_nat (n div 256) :: u8)" "ucast ((of_nat n :: u16) AND 0xFF) = (of_nat n :: u8)"
    using high_byte [OF assms] low_byte [of n] by (simp_all add: low_mask)
qed

lemma of_nat_less_u16: "m < n \<Longrightarrow> n \<le> 65535 \<Longrightarrow> (of_nat m :: u16) < of_nat n"
  by (simp add: word_less_nat_alt small_u16)

context card_link
begin

lemma containers_read:
  "records (ap_channel ap) 0 11 i rs ps \<Longrightarrow> ok w \<Longrightarrow> iface_ok se \<Longrightarrow> plays answers ps (card w) c \<Longrightarrow> fitting_responses ps \<Longrightarrow> ap_isSelected ap \<Longrightarrow>
   i + length rs \<le> 15 \<Longrightarrow> \<forall>r \<in> set rs. rsa_container r \<Longrightarrow>
   \<exists>se' w'. container_loop L raw (of_nat (11 * (i + length rs))) (of_nat i) (of_nat (11 * i)) ap se w =
     ret (ap\<lparr>mi_keypairs := container_keys i rs @ mi_keypairs ap\<rparr>, se', w') \<and> iface_ok se' \<and> ok w' \<and> card w' = c"
proof (induction rs arbitrary: i ps ap se w)
  case Nil
  then show ?case
    by (simp add: container_loop.simps [of L])
next
  case (Cons r rs)
  obtain p q e where pq: "length r = 11" "dialog [ap_channel ap, 0xB0, of_nat (11 * i div 256), of_nat (11 * i), 11] p (r @ [0x90, 0])" "records (ap_channel ap) 0 11 (Suc i) rs q"
    "plays answers p (card w) e" "plays answers q e c" "fitting_responses p" "fitting_responses q"
    using Cons.prems(1,4,5) by (auto simp: plays_append)
  obtain se1 w1 where x: "Applet_transmit_case2 L 0 0xB0 (of_nat (11 * i div 256)) (of_nat (11 * i)) 0x0B ap se w = ret (True, se1, w1)" "holds (r @ [0x90, 0]) se1" "ok w1" "card w1 = e"
    using command_cases(1) [OF Cons.prems(2,3) pq(4,6) Cons.prems(6) pq(2)] by (auto simp: answered_def)
  let ?ap = "ap\<lparr>mi_keypairs := (case container_key i r of None \<Rightarrow> [] | Some k \<Rightarrow> [k]) @ mi_keypairs ap\<rparr>"
  have k: "do { b \<leftarrow> resp_get se1 0;
      if b \<noteq> 0 then map_option (\<lambda>k. ap\<lparr>mi_keypairs := k # mi_keypairs ap\<rparr>) (container_pair raw (of_nat i) (si_apduResponse se1)) else Some ap } = Some ?ap"
    using container_pair_key [where r = r and se = se1 and raw = raw and i = i] pq(1) x(2) Cons.prems(8) holds_get [OF x(2), of 0]
    by (auto simp: resp_get_def nth_append container_key_def Let_def)
  have less: "of_nat (11 * i) < (of_nat (11 * (i + length (r # rs))) :: u16)"
    by (rule of_nat_less_u16) (use Cons.prems(7) in simp_all)
  have sw: "Applet_getStatusWord ap se1 = Some 0x9000"
    using holds_status [OF x(2)] Cons.prems(6) by (simp add: Applet_getStatusWord_def)
  have o: "of_nat i + 1 = (of_nat (Suc i) :: u8)" "of_nat (11 * i) + 0x0B = (of_nat (11 * Suc i) :: u16)" "i + length (r # rs) = Suc i + length rs" "11 * i < 65536"
    using Cons.prems(7) by simp_all
  have "container_loop L raw (of_nat (11 * (i + length (r # rs)))) (of_nat i) (of_nat (11 * i)) ap se w =
      container_loop L raw (of_nat (11 * (i + length (r # rs)))) (of_nat i + 1) (of_nat (11 * i) + 0x0B) ?ap se1 w1"
    by (subst container_loop.simps)
      (simp only: less x(1) k sw offset_bytes [OF o(4)] if_True bnd_simps access_simps prod.case not_True_eq_False if_False simp_thms)
  then have "container_loop L raw (of_nat (11 * (i + length (r # rs)))) (of_nat i) (of_nat (11 * i)) ap se w =
      container_loop L raw (of_nat (11 * (Suc i + length rs))) (of_nat (Suc i)) (of_nat (11 * Suc i)) ?ap se1 w1"
    by (simp only: o)
  then show ?case
    using Cons.IH [of ?ap "Suc i" q w1 se1] pq(3,5,7) x(3,4) holds_ok [OF x(2)] Cons.prems(6-8) by auto
qed

lemma directory_read:
  "records (ap_channel ap) 1 21 i es ps \<Longrightarrow> ok w \<Longrightarrow> iface_ok se \<Longrightarrow> plays answers ps (card w) c \<Longrightarrow> fitting_responses ps \<Longrightarrow> ap_isSelected ap \<Longrightarrow>
   i + length es \<le> 255 \<Longrightarrow>
   \<exists>se' w'. directory_loop L (length es) (of_nat (1 + 21 * i)) ap se w = ret (ap\<lparr>mi_keypairs := fold certify es (mi_keypairs ap)\<rparr>, se', w') \<and> iface_ok se' \<and> ok w' \<and> card w' = c"
proof (induction es arbitrary: i ps ap se w)
  case (Cons e es)
  let ?o = "1 + 21 * i"
  obtain p q d where pq: "length e = 21" "dialog [ap_channel ap, 0xB0, of_nat (?o div 256), of_nat ?o, 21] p (e @ [0x90, 0])" "records (ap_channel ap) 1 21 (Suc i) es q"
    "plays answers p (card w) d" "plays answers q d c" "fitting_responses p" "fitting_responses q"
    using Cons.prems(1,4,5) by (auto simp: plays_append)
  have o: "ucast (drop_bit 8 (of_nat ?o :: u16)) = (of_nat (?o div 256) :: u8)" "ucast (of_nat ?o :: u16) = (of_nat ?o :: u8)"
    using high_byte [of ?o] low_byte [of ?o] Cons.prems(7) by simp_all
  obtain se1 w1 where x: "read_binary L (of_nat ?o) 0x15 ap se w = ret (True, se1, w1)" "holds (e @ [0x90, 0]) se1" "ok w1" "card w1 = d"
    using accepted_cases(1) [OF Cons.prems(2,3) pq(4,6) Cons.prems(6) pq(2)] unfolding read_binary_def o by (auto simp: answered_def)
  let ?ap = "ap\<lparr>mi_keypairs := certify e (mi_keypairs ap)\<rparr>"
  have "of_nat ?o + 0x15 = (of_nat (1 + 21 * Suc i) :: u16)"
    by simp
  then have "directory_loop L (length (e # es)) (of_nat ?o) ap se w = directory_loop L (length es) (of_nat (1 + 21 * Suc i)) ?ap se1 w1"
    using x(1) mark_entry_certify [OF pq(1) x(2)] by (simp del: of_nat_add of_nat_mult of_nat_Suc)
  then show ?case
    using Cons.IH [of ?ap "Suc i" q w1 se1] pq(3,5,7) x(3,4) holds_ok [OF x(2)] Cons.prems(6,7) by auto
qed simp

end

context card_link
begin

lemma file_chosen:
  assumes "ok w" and "iface_ok se" and "plays answers ps (card w) c" and "fitting_responses ps" and "ap_isSelected ap" and "dialog [ap_channel ap, 0xA4, 8, 4, 2, a, b, le] ps (d @ [0x90, 0])"
  shows "\<exists>se' w'. checked ap (Applet_transmit_case4 L 0 0xA4 8 4 [a, b] 2 le ap se w) = ret (True, se', w') \<and> holds (d @ [0x90, 0]) se' \<and> ok w' \<and> card w' = c"
  using accepted_cases(3) [OF assms(1-5), where b = "[a, b]" and n = 2 and d = d] assms(6) unfolding answered_def by simp

lemma binary_read:
  assumes "ok w" and "iface_ok se" and "plays answers ps (card w) c" and "fitting_responses ps" and "ap_isSelected ap" and "off < 65536"
    and "dialog [ap_channel ap, 0xB0, of_nat (off div 256), of_nat off, le] ps (d @ [0x90, 0])"
  shows "\<exists>se' w'. read_binary L (of_nat off) le ap se w = ret (True, se', w') \<and> holds (d @ [0x90, 0]) se' \<and> ok w' \<and> card w' = c"
  using accepted_cases(1) [OF assms(1-5,7)] unfolding read_binary_def high_byte [OF assms(6)] low_byte answered_def by simp

lemma keys_listed:
  assumes "lists_keys (ap_channel ap) rs es ps" and "ok w" and "iface_ok se" and "plays answers ps (card w) c" and "fitting_responses ps" and "ap_isSelected ap"
    and "length rs \<le> 15" and "length es \<le> 255" and "\<forall>r \<in> set rs. rsa_container r" and "mi_keypairs ap = []"
  shows "\<exists>se' w'. MIAS_listKeyPairs L raw ap se w = ret (True, ap\<lparr>mi_keypairs := fold certify es (container_keys 0 rs)\<rparr>, se', w') \<and> iface_ok se' \<and> ok w' \<and> card w' = c"
proof -
  obtain p q s t u fcp d c1 c2 c3 c4 where d: "dialog [ap_channel ap, 0xA4, 8, 4, 2, 0x00, 0x02, 0x15] p (fcp @ [0x90, 0])" "announces16 fcp (11 * length rs)"
    "records (ap_channel ap) 0 11 0 rs q" "dialog [ap_channel ap, 0xA4, 8, 4, 2, 0x01, 0x01, 0x15] s (d @ [0x90, 0])"
    "dialog [ap_channel ap, 0xB0, 0, 0, 1] t ([of_nat (length es)] @ [0x90, 0])" "records (ap_channel ap) 1 21 0 es u"
    and c: "plays answers p (card w) c1" "plays answers q c1 c2" "plays answers s c2 c3" "plays answers t c3 c4" "plays answers u c4 c"
    and f: "fitting_responses p" "fitting_responses q" "fitting_responses s" "fitting_responses t" "fitting_responses u"
    using assms(1,4,5) unfolding lists_keys_def by (auto simp: plays_append)
  obtain se1 w1 where x1: "checked ap (Applet_transmit_case4 L 0 0xA4 8 4 [0x00, 0x02] 2 0x15 ap se w) = ret (True, se1, w1)" "holds (fcp @ [0x90, 0]) se1" "ok w1" "card w1 = c1"
    using file_chosen [OF assms(2,3) c(1) f(1) assms(6) d(1)] by blast
  obtain l where l: "resp_get se1 0 = Some 0x62" "resp_get se1 1 = Some l" "fcp_loop (si_apduResponse se1) (l + 2) 2 0 = ret (of_nat (11 * length rs))"
    using announced16_size [OF d(2) x1(2), of 0] by blast
  have "2 < length fcp"
    using d(2) by (auto simp: announces16_def tlv_def dest: split_list)
  then have len: "2 < Applet_getResponseLength ap se1"
    using holds_response(2) [OF x1(2)] assms(6) by (simp add: Applet_getResponseLength_def word_less_nat_alt)
  let ?ap = "ap\<lparr>mi_keypairs := container_keys 0 rs\<rparr>"
  obtain se2 w2 where x2: "container_loop L raw (of_nat (11 * length rs)) 0 0 ap se1 w1 = ret (?ap, se2, w2)" "iface_ok se2" "ok w2" "card w2 = c2"
    using containers_read [OF d(3) x1(3) holds_ok [OF x1(2)] _ f(2) assms(6), of c2 raw] c(2) x1(4) assms(7,9,10) by auto
  obtain se3 w3 where x3: "checked ?ap (Applet_transmit_case4 L 0 0xA4 8 4 [0x01, 0x01] 2 0x15 ?ap se2 w2) = ret (True, se3, w3)" "iface_ok se3" "ok w3" "card w3 = c3"
    using file_chosen [OF x2(3,2) _ f(3), of c3 ?ap 1 1 "0x15" d] d(4) c(3) x2(4) assms(6) holds_ok by auto
  obtain se4 w4 where x4: "read_binary L 0 1 ?ap se3 w3 = ret (True, se4, w4)" "holds ([of_nat (length es)] @ [0x90, 0]) se4" "ok w4" "card w4 = c4"
    using binary_read [OF x3(3,2) _ f(4), of c4 ?ap 0 1 "[of_nat (length es)]"] d(5) c(4) x3(4) assms(6) by auto
  have n: "resp_get se4 0 = Some (of_nat (length es))" "unat (of_nat (length es) :: u8) = length es"
    using holds_get [OF x4(2), of 0] assms(8) by (simp_all add: resp_get_def unsigned_of_nat take_bit_nat_eq_self)
  obtain se5 w5 where x5: "directory_loop L (length es) 1 ?ap se4 w4 = ret (ap\<lparr>mi_keypairs := fold certify es (container_keys 0 rs)\<rparr>, se5, w5)" "iface_ok se5" "ok w5" "card w5 = c"
    using directory_read [of ?ap 0 es u w4 se4 c] d(6) x4(3,4) holds_ok [OF x4(2)] c(5) f(5) assms(6,8) by auto
  have "read_directory L ?ap se2 w2 = ret (ap\<lparr>mi_keypairs := fold certify es (container_keys 0 rs)\<rparr>, se5, w5)"
    using x3(1) x4(1) n x5(1) by (simp add: read_directory_def)
  then show ?thesis
    using x1(1) len l x2(1) x5(2-4) assms(10) by (simp add: MIAS_listKeyPairs_def)
qed

lemma key_found:
  assumes "lists_keys (ap_channel ap) rs es ps" and "ok w" and "iface_ok se" and "plays answers ps (card w) c" and "fitting_responses ps" and "ap_isSelected ap"
    and "length rs \<le> 15" and "length es \<le> 255" and "\<forall>r \<in> set rs. rsa_container r" and "mi_keypairs ap = []"
  shows "\<exists>ks se' w'. MIAS_getKeyPairByContainerId L raw n ap se w = ret (card_key rs es (unat n), ap\<lparr>mi_keypairs := ks\<rparr>, se', w') \<and>
    (\<forall>k. find (in_container (int k)) ks = card_key rs es k) \<and> iface_ok se' \<and> ok w' \<and> card w' = c"
proof -
  have "find (in_container (uint n)) (fold certify es (container_keys 0 rs)) = card_key rs es (unat n)"
    using card_key_found [OF assms(7), of "unat n" es] by simp
  then show ?thesis
    using keys_listed [OF assms, of raw] card_key_found [OF assms(7), of _ es] unfolding MIAS_getKeyPairByContainerId_def
    by (intro exI [of _ "fold certify es (container_keys 0 rs)"]) auto
qed

end

text \<open>The list is read once: when it is not empty no command is sent.\<close>

lemma keys_kept: "mi_keypairs ap \<noteq> [] \<Longrightarrow> MIAS_getKeyPairByContainerId L raw n ap se w = ret (find (in_container (uint n)) (mi_keypairs ap), ap, se, w)"
  by (simp add: MIAS_getKeyPairByContainerId_def MIAS_listKeyPairs_def)

section \<open>Certificates\<close>

text \<open>The file of a certificate: its parameters, and its content in pieces of at most 238 bytes.\<close>

definition serves_file :: "u8 \<Rightarrow> u8 list \<Rightarrow> u8 list \<Rightarrow> (u8 list \<times> u8 list) list \<Rightarrow> bool" where
  "serves_file ch f content ps \<longleftrightarrow>
     (\<exists>p q fcp. ps = p @ q \<and> length f = 2 \<and> dialog ([ch, 0xA4, 8, 4, 2] @ f @ [0x1C]) p (fcp @ [0x90, 0]) \<and>
        announces16 fcp (length content) \<and> reading ch 238 0 (length content) 0 content q)"

lemma asked_238:
  assumes "i < n" and "n < 65536"
  shows "(if unat (of_nat n :: u16) < unat (of_nat i :: u16) + 0xEE then ucast (of_nat n - of_nat i :: u16) else 0xEE) = (of_nat (min 238 (n - i)) :: u8)"
    and "ucast (if unat (of_nat n :: u16) < unat (of_nat i :: u16) + 0xEE then of_nat n - of_nat i else 0xEE :: u16) = (of_nat (min 238 (n - i)) :: u8)"
proof -
  have d: "of_nat n - of_nat i = (of_nat (n - i) :: u16)"
    using assms by simp
  have "(if unat (of_nat n :: u16) < unat (of_nat i :: u16) + 0xEE then of_nat n - of_nat i else 0xEE :: u16) = of_nat (min 238 (n - i))"
    unfolding d using assms by (auto simp: small_u16 min_def simp del: of_nat_diff)
  then show "ucast (if unat (of_nat n :: u16) < unat (of_nat i :: u16) + 0xEE then of_nat n - of_nat i else 0xEE :: u16) = (of_nat (min 238 (n - i)) :: u8)"
    by (simp only: low_byte)
  show "(if unat (of_nat n :: u16) < unat (of_nat i :: u16) + 0xEE then ucast (of_nat n - of_nat i :: u16) else 0xEE) = (of_nat (min 238 (n - i)) :: u8)"
    unfolding d using assms by (auto simp: small_u16 min_def low_byte simp del: of_nat_diff)
qed

lemma store_piece:
  assumes "length pre = i" and "length ch \<le> length junk"
  shows "store_at (Some (pre @ junk)) i ch = Some (Some ((pre @ ch) @ drop (length ch) junk))"
  using assms by (auto simp: store_at_def mem_write_def)

lemma first_two:
  assumes "content \<noteq> []" and "take 2 (content @ [0]) \<noteq> [1, 0]"
  shows "mem_get (content @ [0]) 0 = Some ((content @ [0]) ! 0)" and "mem_get (content @ [0]) 1 = Some ((content @ [0]) ! 1)"
    and "\<not> ((content @ [0]) ! 0 = 1 \<and> (content @ [0]) ! 1 = 0)"
  using assms by (cases content; cases "tl content"; auto simp: mem_get_def)+

context card_link
begin

lemma certificate_pieces:
  "reading (ap_channel ap) 238 0 n i content ps \<Longrightarrow> ok w \<Longrightarrow> iface_ok se \<Longrightarrow> plays answers ps (card w) c \<Longrightarrow> fitting_responses ps \<Longrightarrow>
   ap_isSelected ap \<Longrightarrow> n < 65536 \<Longrightarrow> length pre = i \<Longrightarrow> length junk = n + 1 - i \<Longrightarrow>
   \<exists>se' w' x. cert_loop L (of_nat n) (Some (pre @ junk)) (of_nat i) ap se w = ret (Some (pre @ content @ [x]), of_nat n, se', w') \<and> iface_ok se' \<and> ok w' \<and> card w' = c"
proof (induction arbitrary: w se pre junk rule: reading.induct)
  case read_all
  then obtain x where "junk = [x]"
    by (auto simp: length_Suc_conv)
  then show ?case
    using read_all by (simp add: cert_loop.simps [of L])
next
  case (read_part i p ch bs q)
  obtain e where e: "plays answers p (card w) e" "plays answers q e c" "fitting_responses p" "fitting_responses q"
    using read_part.prems(3,4) by (auto simp: plays_append)
  have i: "of_nat i < (of_nat n :: u16)" "i < 65536"
    using read_part.hyps(1) read_part.prems(6) by (simp_all add: of_nat_less_u16)
  obtain se1 w1 where x: "read_binary L (of_nat i) (of_nat (min 238 (n - i))) ap se w = ret (True, se1, w1)" "holds (ch @ [0x90, 0]) se1" "ok w1" "card w1 = e"
    using binary_read [OF read_part.prems(1,2) e(1,3) read_part.prems(5) i(2), of "of_nat (min 238 (n - i))" ch] read_part.hyps(2) by auto
  have g: "Applet_getResponse ap se1 = Some ch" "unat (of_nat i :: u16) = i"
    using holds_response(1) [OF x(2)] read_part.prems(5) i(2) by (simp_all add: Applet_getResponse_def small_u16)
  have st: "store_at (Some (pre @ junk)) i ch = Some (Some ((pre @ ch) @ drop (length ch) junk))"
    using read_part.hyps(3) read_part.prems(7,8) by (intro store_piece) auto
  have "ucast (of_nat (length ch) :: u8) = (of_nat (length ch) :: u16)"
    using read_part.hyps(3) by (simp add: unsigned_of_nat take_bit_nat_eq_self)
  then have o: "of_nat i + ucast (of_nat (length ch) :: u8) = (of_nat (i + length ch) :: u16)"
    by simp
  have "cert_loop L (of_nat n) (Some (pre @ junk)) (of_nat i) ap se w = cert_loop L (of_nat n) (Some ((pre @ ch) @ drop (length ch) junk)) (of_nat (i + length ch)) ap se1 w1"
    by (subst cert_loop.simps)
      (simp only: i(1) asked_238(1) [OF read_part.hyps(1) read_part.prems(6), unfolded g(2)] x(1) g st o if_True bnd_simps access_simps prod.case Option.bind.simps)
  then show ?case
    using read_part.IH [OF x(3) holds_ok [OF x(2)], of "pre @ ch" "drop (length ch) junk"] e(2,4) x(4) read_part.prems(5-) read_part.hyps(3) by auto
qed

lemma certificate_read:
  assumes "find (in_container (uint n)) (mi_keypairs ap) = Some k" and "has_cert k" and "serves_file (ap_channel ap) (pub_file_id k) content ps"
    and "ok w" and "iface_ok se" and "plays answers ps (card w) c" and "fitting_responses ps" and "ap_isSelected ap"
    and "content \<noteq> []" and "length content < 65535" and "take 2 (content @ [0]) \<noteq> [1, 0]" and "alloc (length content + 1) = Some buf" and "length buf = length content + 1"
  shows "\<exists>se' w'. MIAS_getCertificateByContainerId alloc L raw ef0 n certLen ap se w = ret (True, Some (content @ [0]), of_nat (length content + 1), ap, se', w') \<and>
    iface_ok se' \<and> ok w' \<and> card w' = c"
proof -
  let ?n = "length content"
  obtain p q fcp e where pq: "length (pub_file_id k) = 2" "dialog ([ap_channel ap, 0xA4, 8, 4, 2] @ pub_file_id k @ [0x1C]) p (fcp @ [0x90, 0])"
    "announces16 fcp ?n" "reading (ap_channel ap) 238 0 ?n 0 content q" "plays answers p (card w) e" "plays answers q e c" "fitting_responses p" "fitting_responses q"
    using assms(3,6,7) by (auto simp: serves_file_def plays_append)
  obtain a b where ab: "pub_file_id k = [a, b]"
    using pq(1) by (auto simp: numeral_2_eq_2 length_Suc_conv)
  obtain se1 w1 where x: "checked ap (Applet_transmit_case4 L 0 0xA4 8 4 [a, b] 2 0x1C ap se w) = ret (True, se1, w1)" "holds (fcp @ [0x90, 0]) se1" "ok w1" "card w1 = e"
    using file_chosen [OF assms(4,5) pq(5,7) assms(8), of a b "0x1C" fcp] pq(2) ab by auto
  obtain l where l: "resp_get se1 0 = Some 0x62" "resp_get se1 1 = Some l" "fcp_loop (si_apduResponse se1) (l + 2) 2 ef0 = ret (of_nat ?n)"
    using announced16_size [OF pq(3) x(2), of ef0] by blast
  obtain se2 w2 z where y: "cert_loop L (of_nat ?n) (Some buf) 0 ap se1 w1 = ret (Some (content @ [z]), of_nat ?n, se2, w2)" "iface_ok se2" "ok w2" "card w2 = c"
    using certificate_pieces [OF pq(4) x(3) holds_ok [OF x(2)], of c "[]" buf] pq(6,8) x(4) assms(8,10,13) by auto
  have keys: "mi_keypairs ap \<noteq> []"
    using assms(1) by auto
  have n: "unat (of_nat ?n :: u16) = ?n" "(of_nat ?n :: u16) \<noteq> 0" "of_nat ?n + 1 = (of_nat (?n + 1) :: u16)" "unat (of_nat (?n + 1) :: u16) = ?n + 1"
    using assms(9,10) small_u16 [of ?n] small_u16 [of "?n + 1"] by (auto simp: word_unat_eq_iff add.commute)
  have st: "store_at (Some (content @ [z])) ?n [0] = Some (Some (content @ [0]))"
    by (simp add: store_at_def mem_write_def)
  note hd = first_two [OF assms(9,11)]
  show ?thesis
    unfolding MIAS_getCertificateByContainerId_def keys_kept [OF keys] assms(1)
    using x(1) l y st hd assms(2,12) ab n by (simp add: add.commute)
qed

end

section \<open>Digests and decryption\<close>

text \<open>The message goes to the card in blocks of \<open>k\<close> bytes, the last one may be shorter.\<close>

inductive hashed :: "u8 \<Rightarrow> nat \<Rightarrow> u8 list \<Rightarrow> (u8 list \<times> u8 list) list \<Rightarrow> bool" for ch k where
  hash_end: "hashed ch k [] []"
| hash_block: "bs \<noteq> [] \<Longrightarrow> dialog ([ch, 0x2A, 0x90, 0x80, of_nat (length (take k bs))] @ take k bs) p (d @ [0x90, 0]) \<Longrightarrow> hashed ch k (drop k bs) q \<Longrightarrow> hashed ch k bs (p @ q)"

text \<open>A whole digest: the algorithm, the message, and the command for the result.\<close>

definition digests :: "u8 \<Rightarrow> u8 \<Rightarrow> nat \<Rightarrow> u8 list \<Rightarrow> u8 list \<Rightarrow> (u8 list \<times> u8 list) list \<Rightarrow> bool" where
  "digests ch alg k msg digest ps \<longleftrightarrow>
     (\<exists>p q s d. ps = p @ q @ s \<and> dialog [ch, 0x22, 0x41, 0xAA, 3, 0x80, 1, alg] p (d @ [0x90, 0]) \<and> hashed ch k msg q \<and>
        dialog [ch, 0x2A, 0x90, 0xA0, 2, 0x80, 0, 0] s (digest @ [0x90, 0]))"

definition deciphers :: "u8 \<Rightarrow> u8 \<Rightarrow> u8 \<Rightarrow> u8 list \<Rightarrow> u8 list \<Rightarrow> (u8 list \<times> u8 list) list \<Rightarrow> bool" where
  "deciphers ch alg key c plain ps \<longleftrightarrow>
     (\<exists>p q d. ps = p @ q \<and> dialog [ch, 0x22, 0x41, 0xB8, 6, 0x80, 1, alg, 0x84, 1, key] p (d @ [0x90, 0]) \<and>
        dialog ([ch, 0x2A, 0x80, 0x86, of_nat (1 + length c), 0x81] @ c) q (plain @ [0x90, 0]))"

context card_link
begin

text \<open>A command with data that is accepted.\<close>

lemma data_accepted:
  assumes "ok w" and "iface_ok se" and "plays answers ps (card w) c" and "fitting_responses ps" and "ap_isSelected ap" and "length b \<le> 251" and "n = of_nat (length b)"
    and "dialog ([ap_channel ap, ins, p1, p2, of_nat (length b)] @ b) ps (d @ [0x90, 0])"
  shows "\<exists>se' w'. checked ap (Applet_transmit_case3 L 0 ins p1 p2 b n ap se w) = ret (True, se', w') \<and> holds (d @ [0x90, 0]) se' \<and> ok w' \<and> card w' = c"
  using accepted_cases(2) [OF assms(1-7), where cla = 0] assms(8) unfolding answered_def by simp

lemma message_hashed:
  "hashed (ap_channel ap) k bs ps \<Longrightarrow> ok w \<Longrightarrow> iface_ok se \<Longrightarrow> plays answers ps (card w) c \<Longrightarrow> fitting_responses ps \<Longrightarrow> ap_isSelected ap \<Longrightarrow>
   0 < k \<Longrightarrow> k \<le> 251 \<Longrightarrow> length pre + length bs < 65536 \<Longrightarrow>
   \<exists>se' w'. hash_loop L (of_nat k) (pre @ bs @ rest) (of_nat (length pre + length bs)) (of_nat (length pre)) ap se w = ret (True, se', w') \<and> iface_ok se' \<and> ok w' \<and> card w' = c"
proof (induction arbitrary: w se pre rule: hashed.induct)
  case hash_end
  then show ?case
    by (simp add: hash_loop.simps [of L])
next
  case (hash_block bs p d q)
  let ?n = "length pre + length bs" and ?l = "min (length bs) k" and ?i = "of_nat (length pre) :: u16"
  obtain e where e: "plays answers p (card w) e" "plays answers q e c" "fitting_responses p" "fitting_responses q"
    using hash_block.prems(3,4) by (auto simp: plays_append)
  have i: "?i < of_nat ?n" "unat ?i = length pre"
    using hash_block.hyps(1) hash_block.prems(8) by (auto intro!: of_nat_less_u16 small_u16 simp del: of_nat_add)
  have "of_nat ?n - ?i = (of_nat (length bs) :: u16)"
    by simp
  then have l: "min (of_nat ?n - ?i) (of_nat k) = (of_nat ?l :: u16)"
    using hash_block.prems(7,8) by (auto simp: min_def word_le_nat_alt small_u16)
  obtain se1 w1 where x: "checked ap (Applet_transmit_case3 L 0 0x2A 0x90 0x80 (take k bs) (of_nat ?l) ap se w) = ret (True, se1, w1)" "holds (d @ [0x90, 0]) se1" "ok w1" "card w1 = e"
    using data_accepted [OF hash_block.prems(1,2) e(1,3) hash_block.prems(5), of "take k bs" "of_nat ?l" "0x2A" "0x90" "0x80" d] hash_block.hyps(2) min.coboundedI2 [OF hash_block.prems(7)] by auto
  have "Applet_transmit_case3 L 0 0x2A 0x90 0x80 (drop (length pre) (pre @ bs @ rest)) (of_nat ?l) ap se w = Applet_transmit_case3 L 0 0x2A 0x90 0x80 (take k bs) (of_nat ?l) ap se w"
    using hash_block.prems(8) by (simp add: Applet_transmit_case3_def SEInterface_transmit_case3_def mem_read_def small_u16 trans_le_add1)
  then have "hash_loop L (of_nat k) (pre @ bs @ rest) (of_nat ?n) ?i ap se w = hash_loop L (of_nat k) (pre @ bs @ rest) (of_nat ?n) (?i + of_nat ?l) ap se1 w1"
    by (subst hash_loop.simps) (simp only: i l x(1) if_True bnd_simps prod.case)
  moreover have "?i + of_nat ?l = of_nat (length (pre @ take k bs))" "pre @ bs @ rest = (pre @ take k bs) @ drop k bs @ rest" "length (pre @ take k bs) + length (drop k bs) = ?n"
    by simp_all
  ultimately show ?case
    using hash_block.IH [OF x(3) holds_ok [OF x(2)] _ e(4) hash_block.prems(5-7), of "pre @ take k bs"] e(2) x(4) hash_block.prems(8) by metis
qed

lemma digest_made:
  assumes "digests (ap_channel ap) alg k msg digest ps" and "ok w" and "iface_ok se" and "plays answers ps (card w) c" and "fitting_responses ps" and "ap_isSelected ap"
    and "block_size alg = Some (of_nat k)" and "k = 64 \<or> k = 128" and "length msg < 65536"
  shows "\<exists>se1 w1 se2 w2 se' w'. MIAS_hashInit L alg ap se w = ret (True, ap\<lparr>mi_hashAlgo := alg\<rparr>, se1, w1) \<and>
    MIAS_hashUpdate L (msg @ rest) (of_nat (length msg)) (ap\<lparr>mi_hashAlgo := alg\<rparr>) se1 w1 = ret (True, se2, w2) \<and>
    MIAS_hashFinal L (ap\<lparr>mi_hashAlgo := alg\<rparr>) se2 w2 = ret (True, digest, se', w') \<and> iface_ok se' \<and> ok w' \<and> card w' = c"
proof -
  let ?ap = "ap\<lparr>mi_hashAlgo := alg\<rparr>"
  obtain p q s d c1 c2 where d: "dialog [ap_channel ap, 0x22, 0x41, 0xAA, 3, 0x80, 1, alg] p (d @ [0x90, 0])" "hashed (ap_channel ap) k msg q"
    "dialog [ap_channel ap, 0x2A, 0x90, 0xA0, 2, 0x80, 0, 0] s (digest @ [0x90, 0])" "plays answers p (card w) c1" "plays answers q c1 c2" "plays answers s c2 c"
    "fitting_responses p" "fitting_responses q" "fitting_responses s"
    using assms(1,4,5) by (auto simp: digests_def plays_append)
  obtain se1 w1 where x: "MIAS_mseSetBeforeHash L alg ?ap se w = ret (True, se1, w1)" "holds (d @ [0x90, 0]) se1" "ok w1" "card w1 = c1"
    using data_accepted [OF assms(2,3) d(4,7), of ?ap "[0x80, 1, alg]" 3] d(1) assms(6) by (fastforce simp: MIAS_mseSetBeforeHash_def)
  obtain se2 w2 where y: "hash_loop L (of_nat k) (msg @ rest) (of_nat (length msg)) 0 ?ap se1 w1 = ret (True, se2, w2)" "iface_ok se2" "ok w2" "card w2 = c2"
    using message_hashed [of ?ap k msg q w1 se1 c2 "[]" rest] d(2,5,8) x(3,4) holds_ok [OF x(2)] assms(6,8,9) by auto
  obtain se3 w3 where z: "checked ?ap (Applet_transmit_case4 L 0 0x2A 0x90 0xA0 [0x80, 0x00] 2 0 ?ap se2 w2) = ret (True, se3, w3)" "holds (digest @ [0x90, 0]) se3" "ok w3" "card w3 = c"
    using accepted_cases(3) [OF y(3,2) _ d(9), where ap = ?ap and b = "[0x80, 0x00]" and n = 2 and c = c and d = digest] d(3,6) y(4) assms(6) by (fastforce simp: answered_def)
  show ?thesis
    using x(1) y(1) z(1,3,4) holds_ok [OF z(2)] holds_response(1) [OF z(2)] assms(6,7)
    by (simp add: MIAS_hashInit_def MIAS_hashUpdate_def MIAS_psoHashInternally_def MIAS_hashFinal_def MIAS_psoHashInternallyFinal_def Applet_getResponse_def)
qed

lemma decrypted:
  assumes "deciphers (ap_channel ap) alg key ct plain ps" and "ok w" and "iface_ok se" and "plays answers ps (card w) c" and "fitting_responses ps" and "ap_isSelected ap"
    and "length ct \<le> 250"
  shows "\<exists>se1 w1 se' w'. MIAS_decryptInit L alg key ap se w = ret (True, ap\<lparr>mi_decryptAlgo := alg, mi_decryptKey := key\<rparr>, se1, w1) \<and>
    MIAS_decryptFinal L (ct @ rest) (of_nat (length ct)) (ap\<lparr>mi_decryptAlgo := alg, mi_decryptKey := key\<rparr>) se1 w1 = ret (True, plain, se', w') \<and> iface_ok se' \<and> ok w' \<and> card w' = c"
proof -
  let ?ap = "ap\<lparr>mi_decryptAlgo := alg, mi_decryptKey := key\<rparr>"
  obtain p q d c1 where d: "dialog [ap_channel ap, 0x22, 0x41, 0xB8, 6, 0x80, 1, alg, 0x84, 1, key] p (d @ [0x90, 0])"
    "dialog ([ap_channel ap, 0x2A, 0x80, 0x86, of_nat (1 + length ct), 0x81] @ ct) q (plain @ [0x90, 0])" "plays answers p (card w) c1" "plays answers q c1 c"
    "fitting_responses p" "fitting_responses q"
    using assms(1,4,5) by (auto simp: deciphers_def plays_append)
  obtain se1 w1 where x: "MIAS_mseSetBeforeDecrypt L alg key ?ap se w = ret (True, se1, w1)" "holds (d @ [0x90, 0]) se1" "ok w1" "card w1 = c1"
    using data_accepted [OF assms(2,3) d(3,5), of ?ap "[0x80, 1, alg, 0x84, 1, key]" 6] d(1) assms(6) by (fastforce simp: MIAS_mseSetBeforeDecrypt_def)
  obtain se2 w2 where y: "checked ?ap (Applet_transmit_case3 L 0 0x2A 0x80 0x86 (0x81 # ct) (of_nat (length ct) + 1) ?ap se1 w1) = ret (True, se2, w2)" "holds (plain @ [0x90, 0]) se2" "ok w2" "card w2 = c"
    using data_accepted [OF x(3) holds_ok [OF x(2)] _ d(6), of c ?ap "0x81 # ct" "of_nat (length ct) + 1" "0x2A" "0x80" "0x86" plain] d(2,4) x(4) assms(6,7) by (auto simp: add.commute)
  have "of_nat (length ct) < (255 :: u16)" "unat (of_nat (length ct) :: u16) = length ct"
    using assms(7) by (simp_all add: word_less_nat_alt small_u16)
  then show ?thesis
    using x(1) y(1,3,4) holds_ok [OF y(2)] holds_response(1) [OF y(2)] assms(6)
    by (simp add: MIAS_decryptInit_def MIAS_decryptFinal_def MIAS_psoDecipher_def mem_read_def Applet_getResponse_def)
qed

lemma mias_pin_verified:
  assumes "dialog ([ap_channel ap, 0x20, 0, 0x81, of_nat (length pin)] @ pin) ps (d @ [0x90, 0])" and "ok w" and "iface_ok se" and "plays answers ps (card w) c" and "fitting_responses ps"
    and "ap_isSelected ap" and "length pin \<le> 251"
  shows "\<exists>se' w'. MIAS_verifyPin L pin ap se w = ret (True, se', w') \<and> iface_ok se' \<and> ok w' \<and> card w' = c"
  using data_accepted [OF assms(2-7) refl assms(1)] holds_ok unfolding MIAS_verifyPin_def by blast

end

section \<open>PKCS#11 objects\<close>

definition entry_file :: "u8 list \<Rightarrow> mias_file_t" where
  "entry_file e = \<lparr>efid = be16 (e ! 0) (e ! 1), fl_dir = take 8 (drop 12 e), fl_name = take 8 (drop 4 e), fl_size = be16 (e ! 2) (e ! 3)\<rparr>"

text \<open>The length of the value in DER, with one byte or with two bytes behind \<open>82\<close>: the length and the number of bytes behind the first.\<close>

definition der_size :: "u8 list \<Rightarrow> nat \<Rightarrow> nat \<Rightarrow> bool" where
  "der_size d n k \<longleftrightarrow> length d = 5 \<and> (d ! 0 < 0x80 \<and> n = unat (d ! 0) \<and> k = 0 \<or> d ! 0 = 0x82 \<and> n = 256 * unat (d ! 1) + unat (d ! 2) \<and> k = 2)"

text \<open>A file is selected and its label read.\<close>

definition labelled :: "u8 \<Rightarrow> u8 list \<Rightarrow> u8 list \<Rightarrow> (u8 list \<times> u8 list) list \<Rightarrow> bool" where
  "labelled ch e l ps \<longleftrightarrow>
     (\<exists>p q s d. ps = p @ q @ s \<and> length l \<le> 20 \<and> dialog [ch, 0xA4, 8, 4, 2, e ! 0, e ! 1] p (d @ [0x90, 0]) \<and>
        dialog [ch, 0xB0, 0, 16, 1] q ([of_nat (length l)] @ [0x90, 0]) \<and> dialog [ch, 0xB0, 0, 17, of_nat (length l)] s (l @ [0x90, 0]))"

text \<open>The rest of an object with its value: two fields of \<open>a\<close> and \<open>b\<close> bytes, the length and the value.\<close>

definition valued :: "u8 \<Rightarrow> nat \<Rightarrow> u8 list \<Rightarrow> (u8 list \<times> u8 list) list \<Rightarrow> bool" where
  "valued ch n v ps \<longleftrightarrow>
     (\<exists>p q s t a b d k. ps = p @ q @ s @ t \<and> n + 2 + unat a + unat b + k + 1 + length v < 65536 \<and>
        dialog [ch, 0xB0, of_nat (n div 256), of_nat n, 1] p ([a] @ [0x90, 0]) \<and>
        dialog [ch, 0xB0, of_nat ((n + 1 + unat a) div 256), of_nat (n + 1 + unat a), 1] q ([b] @ [0x90, 0]) \<and>
        dialog [ch, 0xB0, of_nat ((n + 2 + unat a + unat b) div 256), of_nat (n + 2 + unat a + unat b), 5] s (d @ [0x90, 0]) \<and>
        der_size d (length v) k \<and> reading ch 238 (n + 2 + unat a + unat b + k + 1) (length v) 0 v t)"

text \<open>
  The search through the files, in the order in which they are visited: others are passed over, files of data with another
  label are left, and the first one with the label has the value.
\<close>

inductive finds :: "u8 \<Rightarrow> u8 list \<Rightarrow> u8 list \<Rightarrow> u8 list list \<Rightarrow> (u8 list \<times> u8 list) list \<Rightarrow> bool" for ch label v where
  pass_over: "\<not> is_p11_data (entry_file e) \<Longrightarrow> finds ch label v es ps \<Longrightarrow> finds ch label v (e # es) ps"
| other_label: "is_p11_data (entry_file e) \<Longrightarrow> labelled ch e l p \<Longrightarrow> l \<noteq> label \<Longrightarrow> finds ch label v es ps \<Longrightarrow> finds ch label v (e # es) (p @ ps)"
| this_label: "is_p11_data (entry_file e) \<Longrightarrow> labelled ch e label p \<Longrightarrow> valued ch (17 + length label) v q \<Longrightarrow> finds ch label v (e # es) (p @ q)"

definition holds_object :: "u8 \<Rightarrow> u8 list \<Rightarrow> u8 list \<Rightarrow> (u8 list \<times> u8 list) list \<Rightarrow> bool" where
  "holds_object ch label v ps \<longleftrightarrow>
     (\<exists>p q s t d es. ps = p @ q @ s @ t \<and> length es \<le> 255 \<and> dialog [ch, 0xA4, 8, 4, 2, 1, 1] p (d @ [0x90, 0]) \<and>
        dialog [ch, 0xB0, 0, 0, 1] q ([of_nat (length es)] @ [0x90, 0]) \<and> records ch 1 21 0 es s \<and> finds ch label v (rev es) t)"

lemma efid_bytes: "[ucast (drop_bit 8 (be16 a b)), ucast (be16 a b)] = [a, b]"
proof -
  have "ucast (drop_bit 8 (be16 a b)) = a" "ucast (be16 a b) = b"
    unfolding be16_def by (rule bit_word_eqI; auto simp: bit_simps dest: bit_imp_le_length)+
  then show ?thesis
    by simp
qed

lemma value_size_der:
  assumes "der_size d n k"
  shows "value_size sz0 (d @ r) = Some (of_nat n, k)"
proof (cases "d ! 0 < 0x80")
  case True
  then show ?thesis
    using assms by (auto simp: der_size_def value_size_def mem_get_def nth_append)
next
  case False
  then have d: "d ! 0 = 0x82" "n = 256 * unat (d ! 1) + unat (d ! 2)" "k = 2" "length d = 5"
    using assms by (auto simp: der_size_def)
  then obtain a b c e f where "d = [a, b, c, e, f]"
    by (auto simp: length_Suc_conv numeral_eq_Suc)
  moreover have "push_bit 8 (push_bit 8 sz0 OR ucast b) OR ucast c = be16 b c" for b c :: u8
    unfolding be16_def by (rule bit_word_eqI) (auto simp: bit_simps)
  ultimately show ?thesis
    using d be16_value [of b c] by (simp add: value_size_def mem_get_def mem_read_def)
qed

context card_link
begin

lemma record_read:
  assumes "ok w" and "iface_ok se" and "plays answers ps (card w) c" and "fitting_responses ps" and "ap_isSelected ap" and "off < 65536"
    and "dialog [ap_channel ap, 0xB0, of_nat (off div 256), of_nat off, le] ps (d @ [0x90, 0])" and "unat le = length d" and "length d \<le> length record"
  shows "\<exists>se' w'. read_record L (of_nat off) le record ap se w = ret (Some (d @ drop (length d) record), d @ drop (length d) record, se', w') \<and> iface_ok se' \<and> ok w' \<and> card w' = c"
proof -
  obtain se1 w1 where x: "read_binary L (of_nat off) le ap se w = ret (True, se1, w1)" "holds (d @ [0x90, 0]) se1" "ok w1" "card w1 = c"
    using binary_read [OF assms(1-7)] by blast
  then show ?thesis
    using holds_response(1) [OF x(2)] holds_ok [OF x(2)] assms(5,8,9) by (simp add: read_record_def get_record_def Applet_getResponse_def mem_write_start)
qed

lemma label_read:
  assumes "labelled (ap_channel ap) e l ps" and "ok w" and "iface_ok se" and "plays answers ps (card w) c" and "fitting_responses ps" and "ap_isSelected ap" and "length record = 21"
  shows "\<exists>se1 w1 record' se' w'. checked ap (Applet_transmit_case3 L 0 0xA4 8 4 [e ! 0, e ! 1] 2 ap se w) = ret (True, se1, w1) \<and>
    read_label L record ap se1 w1 = ret (Some l, record', se', w') \<and> length record' = 21 \<and> iface_ok se' \<and> ok w' \<and> card w' = c"
proof -
  obtain p q s d c1 c2 where d: "length l \<le> 20" "dialog [ap_channel ap, 0xA4, 8, 4, 2, e ! 0, e ! 1] p (d @ [0x90, 0])"
    "dialog [ap_channel ap, 0xB0, 0, 16, 1] q ([of_nat (length l)] @ [0x90, 0])" "dialog [ap_channel ap, 0xB0, 0, 17, of_nat (length l)] s (l @ [0x90, 0])"
    "plays answers p (card w) c1" "plays answers q c1 c2" "plays answers s c2 c" "fitting_responses p" "fitting_responses q" "fitting_responses s"
    using assms(1,4,5) by (auto simp: labelled_def plays_append)
  obtain se1 w1 where x: "checked ap (Applet_transmit_case3 L 0 0xA4 8 4 [e ! 0, e ! 1] 2 ap se w) = ret (True, se1, w1)" "holds (d @ [0x90, 0]) se1" "ok w1" "card w1 = c1"
    using data_accepted [OF assms(2,3) d(5,8) assms(6), of "[e ! 0, e ! 1]" 2 "0xA4" 8 4 d] d(2) by auto
  obtain se2 w2 where y: "read_record L 16 1 record ap se1 w1 =
      ret (Some (of_nat (length l) # drop 1 record), of_nat (length l) # drop 1 record, se2, w2)" "iface_ok se2" "ok w2" "card w2 = c2"
    using record_read [OF x(3) holds_ok [OF x(2)] _ d(9) assms(6), of c2 16 1 "[of_nat (length l)]" "record"] d(3,6) x(4) assms(7) by auto
  obtain se3 w3 where z: "read_binary L 17 (of_nat (length l)) ap se2 w2 = ret (True, se3, w3)" "holds (l @ [0x90, 0]) se3" "ok w3" "card w3 = c"
    using binary_read [OF y(3,2) _ d(10) assms(6), of c 17 "of_nat (length l)" l] d(4,7) y(4) by auto
  have len: "Applet_getResponseLength ap se3 = ucast (of_nat (length l) :: u8)"
    using holds_response(2) [OF z(2)] d(1) assms(6) by (simp add: Applet_getResponseLength_def word_unat_eq_iff unsigned_of_nat take_bit_nat_eq_self)
  let ?r = "of_nat (length l) # drop 1 record" and ?rec = "l @ [0] @ drop (length l + 1) (of_nat (length l) # drop 1 record)"
  have "mem_write (l @ drop (length l) ?r) (length l) [0] = Some ?rec"
    using d(1) assms(7) by (simp add: mem_write_def)
  then have rec: "get_record ap se3 ?r = Some (length l, l @ drop (length l) ?r)" "mem_write (l @ drop (length l) ?r) (length l) [0] = Some ?rec" "mem_read ?rec 0 (length l) = Some l"
    using holds_response(1) [OF z(2)] d(1) assms(6,7) by (simp_all add: get_record_def Applet_getResponse_def mem_write_start mem_read_def)
  have "read_label L record ap se1 w1 = ret (Some l, ?rec, se3, w3)"
    unfolding read_label_def using y(1) z(1) len rec by (simp add: mem_get_def)
  then show ?thesis
    using x(1) z(3,4) holds_ok [OF z(2)] d(1) assms(7) by auto
qed

lemma field_skipped:
  assumes "ok w" and "iface_ok se" and "plays answers ps (card w) c" and "fitting_responses ps" and "ap_isSelected ap" and "off < 65536"
    and "dialog [ap_channel ap, 0xB0, of_nat (off div 256), of_nat off, 1] ps ([a] @ [0x90, 0])" and "length record = 21"
  shows "\<exists>record' se' w'. skip_field L (of_nat off) record ap se w = ret (Some (of_nat (off + 1 + unat a)), record', se', w') \<and> length record' = 21 \<and> iface_ok se' \<and> ok w' \<and> card w' = c"
  using record_read [OF assms(1-7), of "record"] assms(8) by (auto simp: skip_field_def mem_get_def)

lemma value_pieces:
  "reading (ap_channel ap) 238 b n i content ps \<Longrightarrow> ok w \<Longrightarrow> iface_ok se \<Longrightarrow> plays answers ps (card w) c \<Longrightarrow> fitting_responses ps \<Longrightarrow>
   ap_isSelected ap \<Longrightarrow> b + n < 65536 \<Longrightarrow> length pre = i \<Longrightarrow> length junk = n + 1 - i \<Longrightarrow>
   \<exists>se' w' x. value_loop L (of_nat n) (Some (pre @ junk)) (of_nat i) (of_nat (b + i)) ap se w = ret (Some (pre @ content @ [x]), of_nat n, se', w') \<and> iface_ok se' \<and> ok w' \<and> card w' = c"
proof (induction arbitrary: w se pre junk rule: reading.induct)
  case read_all
  then obtain x where "junk = [x]"
    by (auto simp: length_Suc_conv)
  then show ?case
    using read_all by (simp add: value_loop.simps [of L])
next
  case (read_part i p ch bs q)
  obtain e where e: "plays answers p (card w) e" "plays answers q e c" "fitting_responses p" "fitting_responses q"
    using read_part.prems(3,4) by (auto simp: plays_append)
  have i: "of_nat i < (of_nat n :: u16)" "i < 65536" "b + i < 65536" "n < 65536"
    using read_part.hyps(1) read_part.prems(6) by (simp_all add: of_nat_less_u16)
  obtain se1 w1 where x: "read_binary L (of_nat (b + i)) (of_nat (min 238 (n - i))) ap se w = ret (True, se1, w1)" "holds (ch @ [0x90, 0]) se1" "ok w1" "card w1 = e"
    using binary_read [OF read_part.prems(1,2) e(1,3) read_part.prems(5) i(3) read_part.hyps(2)] by blast
  have g: "Applet_getResponse ap se1 = Some ch" "unat (of_nat i :: u16) = i"
    using holds_response(1) [OF x(2)] read_part.prems(5) i(2) by (simp_all add: Applet_getResponse_def small_u16)
  have st: "store_at (Some (pre @ junk)) i ch = Some (Some ((pre @ ch) @ drop (length ch) junk))"
    using read_part.hyps(3) read_part.prems(7,8) by (intro store_piece) auto
  have o: "of_nat i + of_nat (length ch) = (of_nat (i + length ch) :: u16)" "of_nat (b + i) + of_nat (length ch) = (of_nat (b + (i + length ch)) :: u16)"
    by simp_all
  have "value_loop L (of_nat n) (Some (pre @ junk)) (of_nat i) (of_nat (b + i)) ap se w =
      value_loop L (of_nat n) (Some ((pre @ ch) @ drop (length ch) junk)) (of_nat (i + length ch)) (of_nat (b + (i + length ch))) ap se1 w1"
    by (subst value_loop.simps)
      (simp only: i(1) asked_238(2) [OF read_part.hyps(1) i(4), unfolded g(2)] x(1) g st o if_True bnd_simps access_simps prod.case Option.bind.simps)
  then show ?case
    using read_part.IH [OF x(3) holds_ok [OF x(2)], of "pre @ ch" "drop (length ch) junk"] e(2,4) x(4) read_part.prems(5-) read_part.hyps(3) by auto
qed

end

context card_link
begin

lemma value_read:
  assumes "valued (ap_channel ap) n v ps" and "ok w" and "iface_ok se" and "plays answers ps (card w) c" and "fitting_responses ps" and "ap_isSelected ap" and "length record = 21"
    and "alloc (length v + 1) = Some buf" and "length buf = length v + 1"
  shows "\<exists>o1 o2 r1 r2 r3 se1 w1 se2 w2 se' w'. skip_field L (of_nat n) record ap se w = ret (Some o1, r1, se1, w1) \<and> skip_field L o1 r1 ap se1 w1 = ret (Some o2, r2, se2, w2) \<and>
    read_value alloc L sz0 o2 r2 ap se2 w2 = ret (Some (Some (v @ [0]), of_nat (length v + 1)), r3, se', w') \<and> iface_ok se' \<and> ok w' \<and> card w' = c"
proof -
  obtain p q s t a b d k c1 c2 c3 where b: "n + 2 + unat a + unat b + k + 1 + length v < 65536"
    and d: "dialog [ap_channel ap, 0xB0, of_nat (n div 256), of_nat n, 1] p ([a] @ [0x90, 0])"
    "dialog [ap_channel ap, 0xB0, of_nat ((n + 1 + unat a) div 256), of_nat (n + 1 + unat a), 1] q ([b] @ [0x90, 0])"
    "dialog [ap_channel ap, 0xB0, of_nat ((n + 2 + unat a + unat b) div 256), of_nat (n + 2 + unat a + unat b), 5] s (d @ [0x90, 0])"
    "der_size d (length v) k" "reading (ap_channel ap) 238 (n + 2 + unat a + unat b + k + 1) (length v) 0 v t"
    and c: "plays answers p (card w) c1" "plays answers q c1 c2" "plays answers s c2 c3" "plays answers t c3 c"
    and f: "fitting_responses p" "fitting_responses q" "fitting_responses s" "fitting_responses t"
    using assms(1,4,5) unfolding valued_def plays_append by (auto simp: plays_append)
  obtain r1 se1 w1 where x: "skip_field L (of_nat n) record ap se w = ret (Some (of_nat (n + 1 + unat a)), r1, se1, w1)" "length r1 = 21" "iface_ok se1" "ok w1" "card w1 = c1"
    using field_skipped [OF assms(2,3) c(1) f(1) assms(6) _ d(1) assms(7)] b by auto
  obtain r2 se2 w2 where y: "skip_field L (of_nat (n + 1 + unat a)) r1 ap se1 w1 = ret (Some (of_nat (n + 1 + unat a + 1 + unat b)), r2, se2, w2)" "length r2 = 21" "iface_ok se2" "ok w2" "card w2 = c2"
    using field_skipped [OF x(4,3) _ f(2) assms(6) _ d(2) x(2), of c2] c(2) x(5) b by auto
  let ?o = "n + 2 + unat a + unat b"
  have len: "length d = 5" "unat (5 :: u8) = length d" "length d \<le> length r2" "?o < 65536"
    using d(4) y(2) b by (simp_all add: der_size_def)
  obtain se3 w3 where z: "read_record L (of_nat ?o) 5 r2 ap se2 w2 = ret (Some (d @ drop (length d) r2), d @ drop (length d) r2, se3, w3)" "iface_ok se3" "ok w3" "card w3 = c3"
    using record_read [OF y(4,3) _ f(3) assms(6) len(4) d(3) len(2,3), of c3] c(3) y(5) by auto
  obtain se4 w4 x' where v: "value_loop L (of_nat (length v)) (Some buf) 0 (of_nat (?o + k + 1)) ap se3 w3 = ret (Some (v @ [x']), of_nat (length v), se4, w4)" "iface_ok se4" "ok w4" "card w4 = c"
    using value_pieces [OF d(5) z(3,2) _ f(4) assms(6), of c "[]" buf] c(4) z(4) b assms(9) by auto
  have m: "of_nat ?o + of_nat k + 1 = (of_nat (?o + k + 1) :: u16)" "of_nat (length v) + 1 = (of_nat (length v + 1) :: u16)" "unat (of_nat (length v + 1) :: u16) = length v + 1" "unat (of_nat (length v) :: u16) = length v"
    using small_u16 [of "length v + 1"] small_u16 [of "length v"] b by simp_all
  have st: "store_at (Some (v @ [x'])) (length v) [0] = Some (Some (v @ [0]))"
    by (simp add: store_at_def mem_write_def)
  have "read_value alloc L sz0 (of_nat ?o) r2 ap se2 w2 = ret (Some (Some (v @ [0]), of_nat (length v + 1)), d @ drop (length d) r2, se4, w4)"
    unfolding read_value_def by (simp only: z(1) value_size_der [OF d(4)] m assms(8) v(1) st bnd_simps access_simps prod.case option.case)
  moreover have "?o = n + 1 + unat a + 1 + unat b"
    by simp
  ultimately show ?thesis
    using x(1) y(1) v(2-4) by metis
qed

lemma object_searched:
  "finds (ap_channel ap) label v es ps \<Longrightarrow> ok w \<Longrightarrow> iface_ok se \<Longrightarrow> plays answers ps (card w) c \<Longrightarrow> fitting_responses ps \<Longrightarrow> ap_isSelected ap \<Longrightarrow> length record = 21 \<Longrightarrow>
   alloc (length v + 1) = Some buf \<Longrightarrow> length buf = length v + 1 \<Longrightarrow>
   \<exists>se' w'. search_loop alloc L sz0 label (map entry_file es) record ap se w = ret (Some (Some (v @ [0]), of_nat (length v + 1)), se', w') \<and> iface_ok se' \<and> ok w' \<and> card w' = c"
proof (induction arbitrary: w se "record" rule: finds.induct)
  case (pass_over e es ps)
  then show ?case
    by simp
next
  case (other_label e l p es ps)
  obtain d where d: "plays answers p (card w) d" "plays answers ps d c" "fitting_responses p" "fitting_responses ps"
    using other_label.prems(3,4) by (auto simp: plays_append)
  obtain se1 w1 r se2 w2 where x: "checked ap (Applet_transmit_case3 L 0 0xA4 8 4 [e ! 0, e ! 1] 2 ap se w) = ret (True, se1, w1)"
    "read_label L record ap se1 w1 = ret (Some l, r, se2, w2)" "length r = 21" "iface_ok se2" "ok w2" "card w2 = d"
    using label_read [OF other_label.hyps(2) other_label.prems(1,2) d(1,3) other_label.prems(5,6)] by blast
  have "read_object alloc L sz0 label (entry_file e) record ap se w = ret (None, r, se2, w2)"
    using x(1,2) other_label.hyps(3) unfolding read_object_def by (simp add: entry_file_def efid_bytes [simplified])
  then show ?case
    using other_label.IH [OF x(5,4) _ d(4) other_label.prems(5) x(3) other_label.prems(7,8)] d(2) x(6) other_label.hyps(1) by simp
next
  case (this_label e p q es)
  obtain d where d: "plays answers p (card w) d" "plays answers q d c" "fitting_responses p" "fitting_responses q"
    using this_label.prems(3,4) by (auto simp: plays_append)
  obtain se1 w1 r se2 w2 where x: "checked ap (Applet_transmit_case3 L 0 0xA4 8 4 [e ! 0, e ! 1] 2 ap se w) = ret (True, se1, w1)"
    "read_label L record ap se1 w1 = ret (Some label, r, se2, w2)" "length r = 21" "iface_ok se2" "ok w2" "card w2 = d"
    using label_read [OF this_label.hyps(2) this_label.prems(1,2) d(1,3) this_label.prems(5,6)] by blast
  obtain o1 o2 r1 r2 r3 se3 w3 se4 w4 se5 w5 where y: "skip_field L (of_nat (17 + length label)) r ap se2 w2 = ret (Some o1, r1, se3, w3)" "skip_field L o1 r1 ap se3 w3 = ret (Some o2, r2, se4, w4)"
    "read_value alloc L sz0 o2 r2 ap se4 w4 = ret (Some (Some (v @ [0]), of_nat (length v + 1)), r3, se5, w5)" "iface_ok se5" "ok w5" "card w5 = c"
    using value_read [where alloc = alloc, OF this_label.hyps(3) x(5,4) _ d(4) this_label.prems(5) x(3) this_label.prems(7,8), of c sz0] d(2) x(6) by blast
  have "read_object alloc L sz0 label (entry_file e) record ap se w = ret (Some (Some (v @ [0]), of_nat (length v + 1)), r3, se5, w5)"
    using x(1,2) y(1-3) unfolding read_object_def by (simp add: entry_file_def efid_bytes [simplified])
  then show ?case
    using y(4-6) this_label.hyps(1) by simp
qed

lemma files_read:
  "records (ap_channel ap) 1 21 i es ps \<Longrightarrow> ok w \<Longrightarrow> iface_ok se \<Longrightarrow> plays answers ps (card w) c \<Longrightarrow> fitting_responses ps \<Longrightarrow> ap_isSelected ap \<Longrightarrow>
   i + length es \<le> 255 \<Longrightarrow> length record = 21 \<Longrightarrow>
   \<exists>r se' w'. files_loop L (length es) (of_nat i) fs record ap se w = ret (map entry_file (rev es) @ fs, r, se', w') \<and> length r = 21 \<and> iface_ok se' \<and> ok w' \<and> card w' = c"
proof (induction es arbitrary: i ps fs "record" se w)
  case (Cons e es)
  let ?o = "1 + 21 * i"
  obtain p q d where pq: "length e = 21" "dialog [ap_channel ap, 0xB0, of_nat (?o div 256), of_nat ?o, 21] p (e @ [0x90, 0])" "records (ap_channel ap) 1 21 (Suc i) es q"
    "plays answers p (card w) d" "plays answers q d c" "fitting_responses p" "fitting_responses q"
    using Cons.prems(1,4,5) by (auto simp: plays_append)
  have o: "1 + of_nat i * 0x15 = (of_nat ?o :: u16)" "of_nat i + 1 = (of_nat (Suc i) :: u16)" "?o < 65536"
    using Cons.prems(7) by simp_all
  obtain se1 w1 where x: "read_binary L (of_nat ?o) 0x15 ap se w = ret (True, se1, w1)" "holds (e @ [0x90, 0]) se1" "ok w1" "card w1 = d"
    using binary_read [OF Cons.prems(2,3) pq(4,6) Cons.prems(6) o(3) pq(2)] by blast
  have g: "get_record ap se1 record = Some (0x15, e)"
    using holds_response(1) [OF x(2)] Cons.prems(6,8) pq(1) by (simp add: get_record_def Applet_getResponse_def mem_write_start)
  have "e ! j = take 4 e ! j" if "j < 4" for j
    using that by simp
  then have n: "file_entry e = Some (entry_file e)"
    using pq(1) by (simp add: file_entry_def entry_file_def mem_read_def)
  have "files_loop L (length (e # es)) (of_nat i) fs record ap se w = files_loop L (length es) (of_nat (Suc i)) (entry_file e # fs) e ap se1 w1"
    by (simp only: list.size files_loop.simps o add_Suc_right add_0_right x(1) g n bnd_simps access_simps prod.case option.map simp_thms if_True if_False)
  then show ?case
    using Cons.IH [of "Suc i" q w1 se1 e "entry_file e # fs"] pq(1,3,5,7) x(3,4) holds_ok [OF x(2)] Cons.prems(6,7) by auto
qed simp

lemma object_read:
  assumes "holds_object (ap_channel ap) label v ps" and "ok w" and "iface_ok se" and "plays answers ps (card w) c" and "fitting_responses ps" and "ap_isSelected ap" and "length record = 21"
    and "alloc (length v + 1) = Some buf" and "length buf = length v + 1"
  shows "\<exists>se' w'. MIAS_p11GetObjectByLabel alloc L sz0 record label ap se w = ret (True, Some (v @ [0]), of_nat (length v + 1), se', w') \<and> iface_ok se' \<and> ok w' \<and> card w' = c"
proof -
  obtain p q s t d es c1 c2 c3 where e: "length es \<le> 255" "dialog [ap_channel ap, 0xA4, 8, 4, 2, 1, 1] p (d @ [0x90, 0])"
    "dialog [ap_channel ap, 0xB0, 0, 0, 1] q ([of_nat (length es)] @ [0x90, 0])" "records (ap_channel ap) 1 21 0 es s" "finds (ap_channel ap) label v (rev es) t"
    and c: "plays answers p (card w) c1" "plays answers q c1 c2" "plays answers s c2 c3" "plays answers t c3 c"
    and f: "fitting_responses p" "fitting_responses q" "fitting_responses s" "fitting_responses t"
    using assms(1,4,5) by (auto simp: holds_object_def plays_append)
  obtain se1 w1 where x1: "checked ap (Applet_transmit_case3 L 0 0xA4 8 4 [0x01, 0x01] 2 ap se w) = ret (True, se1, w1)" "holds (d @ [0x90, 0]) se1" "ok w1" "card w1 = c1"
    using data_accepted [OF assms(2,3) c(1) f(1) assms(6), of "[1, 1]" 2 "0xA4" 8 4 d] e(2) by auto
  obtain se2 w2 where x2: "read_binary L 0 1 ap se1 w1 = ret (True, se2, w2)" "holds ([of_nat (length es)] @ [0x90, 0]) se2" "ok w2" "card w2 = c2"
    using binary_read [OF x1(3) holds_ok [OF x1(2)] _ f(2) assms(6), of c2 0 1 "[of_nat (length es)]"] e(3) c(2) x1(4) by auto
  have n: "Applet_getResponse ap se2 = Some [of_nat (length es)]" "unat (of_nat (length es) :: u8) = length es"
    using holds_response(1) [OF x2(2)] e(1) assms(6) by (simp_all add: Applet_getResponse_def unsigned_of_nat take_bit_nat_eq_self)
  obtain r se3 w3 where x3: "files_loop L (length es) 0 [] record ap se2 w2 = ret (map entry_file (rev es), r, se3, w3)" "length r = 21" "iface_ok se3" "ok w3" "card w3 = c3"
    using files_read [OF e(4) x2(3) holds_ok [OF x2(2)] _ f(3) assms(6) _ assms(7), of c3 "[]"] e(1) c(3) x2(4) by auto
  obtain se4 w4 where x4: "search_loop alloc L sz0 label (map entry_file (rev es)) r ap se3 w3 = ret (Some (Some (v @ [0]), of_nat (length v + 1)), se4, w4)" "iface_ok se4" "ok w4" "card w4 = c"
    using object_searched [where alloc = alloc, OF e(5) x3(4,3) _ f(4) assms(6) x3(2) assms(8,9), of c sz0] c(4) x3(5) by auto
  show ?thesis
    using x1(1) x2(1) n x3(1) x4 by (simp add: MIAS_p11GetObjectByLabel_def mem_write_def)
qed

end

end
