(* ===== verification/Se_Mias_Faults.thy ===== *)
theory Se_Mias_Faults
  imports Se_Mias_Card
begin

text \<open>
  What holds of the MIAS applet whatever the card does, and where it goes wrong: the list of key pairs stays well formed, but a
  certificate that cannot be read, a change of the PIN, a long label or a long ciphertext are not handled as they should be.
\<close>

section \<open>What can go wrong\<close>

text \<open>A response to READ BINARY with another status than \<open>9000\<close>.\<close>

context card_link
begin

lemma binary_refused:
  assumes "ok w" and "iface_ok se" and "plays answers ps (card w) c" and "fitting_responses ps" and "ap_isSelected ap" and "off < 65536"
    and "dialog [ap_channel ap, 0xB0, of_nat (off div 256), of_nat off, le] ps (d @ [a, b])" and "push_bit 8 (ucast a) OR ucast b \<noteq> (0x9000 :: u16)"
  shows "\<exists>se' w'. read_binary L (of_nat off) le ap se w = ret (False, se', w') \<and> iface_ok se' \<and> ok w' \<and> card w' = c"
proof -
  obtain se1 w1 where x: "Applet_transmit_case2 L 0 0xB0 (of_nat (off div 256)) (of_nat off) le ap se w = ret (True, se1, w1)" "holds (d @ [a, b]) se1" "ok w1" "card w1 = c"
    using command_cases(1) [OF assms(1-5,7)] by (auto simp: answered_def)
  then show ?thesis
    unfolding read_binary_def high_byte [OF assms(6)] low_byte
    using holds_status [OF x(2)] holds_ok [OF x(2)] assms(5,8) by (simp add: checked_def Applet_getStatusWord_def)
qed

text \<open>The bytes of a certificate whose only READ BINARY fails are those that the memory held before.\<close>

lemma certificate_not_read:
  assumes "find (in_container (uint i)) (mi_keypairs ap) = Some k" and "has_cert k" and "pub_file_id k = [f, g]"
    and "dialog [ap_channel ap, 0xA4, 8, 4, 2, f, g, 0x1C] p (fcp @ [0x90, 0])" and "announces16 fcp n" and "0 < n" and "n \<le> 238"
    and "dialog [ap_channel ap, 0xB0, 0, 0, of_nat n] q (d @ [a, b])" and "push_bit 8 (ucast a) OR ucast b \<noteq> (0x9000 :: u16)"
    and "ok w" and "iface_ok se" and "plays answers (p @ q) (card w) c" and "fitting_responses (p @ q)" and "ap_isSelected ap"
    and "alloc (n + 1) = Some buf" and "length buf = n + 1" and "take 2 (take n buf @ [0]) \<noteq> [1, 0]"
  shows "\<exists>se' w'. MIAS_getCertificateByContainerId alloc L raw ef0 i certLen ap se w = ret (True, Some (take n buf @ [0]), of_nat (n + 1), ap, se', w') \<and>
    iface_ok se' \<and> ok w' \<and> card w' = c"
proof -
  obtain e where e: "plays answers p (card w) e" "plays answers q e c" "fitting_responses p" "fitting_responses q"
    using assms(12,13) by (auto simp: plays_append)
  obtain se1 w1 where x: "checked ap (Applet_transmit_case4 L 0 0xA4 8 4 [f, g] 2 0x1C ap se w) = ret (True, se1, w1)" "holds (fcp @ [0x90, 0]) se1" "ok w1" "card w1 = e"
    using file_chosen [OF assms(10,11) e(1,3) assms(14,4)] by blast
  obtain l where l: "resp_get se1 0 = Some 0x62" "resp_get se1 1 = Some l" "fcp_loop (si_apduResponse se1) (l + 2) 2 ef0 = ret (of_nat n)"
    using announced16_size [OF assms(5) x(2), of ef0] by blast
  obtain se2 w2 where y: "read_binary L 0 (of_nat n) ap se1 w1 = ret (False, se2, w2)" "iface_ok se2" "ok w2" "card w2 = c"
    using binary_refused [OF x(3) holds_ok [OF x(2)] _ e(4) assms(14), of c 0 "of_nat n" d a b] e(2) x(4) assms(8,9) by auto
  have u: "unat (of_nat n :: u16) = n" "unat (of_nat (n + 1) :: u16) = n + 1"
    using assms(7) small_u16 [of n] small_u16 [of "n + 1"] by simp_all
  have n: "(of_nat n :: u16) \<noteq> 0" "0 < (of_nat n :: u16)" "of_nat n + 1 = (of_nat (n + 1) :: u16)" "min 238 n = n"
    using assms(6,7) u(1) by (auto simp: word_unat_eq_iff word_less_nat_alt add.commute)
  have up: "ucast (of_nat n :: u8) = (of_nat n :: u16)"
    using assms(7) by (simp add: unsigned_of_nat take_bit_nat_eq_self)
  have ask: "(if unat (of_nat n :: u16) < unat (0 :: u16) + 0xEE then ucast (of_nat n - 0 :: u16) else 0xEE) = (of_nat n :: u8)"
    using assms(7) u(1) by (cases "n = 238") (simp_all add: low_byte)
  have "cert_loop L (of_nat n) (Some buf) (of_nat n) ap se2 w2 = ret (Some buf, of_nat n, se2, w2)"
    by (simp add: cert_loop.simps [of L])
  then have loop: "cert_loop L (of_nat n) (Some buf) 0 ap se1 w1 = ret (Some buf, of_nat n, se2, w2)"
    by (subst cert_loop.simps) (simp only: n(2) up ask y(1) if_True if_False bnd_simps access_simps prod.case add_0_left)
  have st: "store_at (Some buf) n [0] = Some (Some (take n buf @ [0]))"
    using assms(16) by (simp add: store_at_def mem_write_def)
  have "take n buf \<noteq> []"
    using assms(6,16) by auto
  note hd = first_two [OF this assms(17)]
  have keys: "mi_keypairs ap \<noteq> []"
    using assms(1) by auto
  show ?thesis
    unfolding MIAS_getCertificateByContainerId_def keys_kept [OF keys] assms(1)
    using x(1) l loop st hd y(2-4) assms(2,3,15) n u by (simp add: add.commute)
qed

text \<open>A label of more than 20 characters is written over the end of the local array.\<close>

lemma long_label_overruns:
  assumes "dialog [ap_channel ap, 0xB0, 0, 16, 1] p ([of_nat (length l)] @ [0x90, 0])" and "dialog [ap_channel ap, 0xB0, 0, 17, of_nat (length l)] q (l @ [0x90, 0])"
    and "20 < length l" and "length l < 256" and "ok w" and "iface_ok se" and "plays answers (p @ q) (card w) c" and "fitting_responses (p @ q)" and "ap_isSelected ap" and "length record = 21"
  shows "read_label L record ap se w = Some Fault"
proof -
  obtain e where e: "plays answers p (card w) e" "plays answers q e c" "fitting_responses p" "fitting_responses q"
    using assms(7,8) by (auto simp: plays_append)
  obtain se2 w2 where y: "read_record L 16 1 record ap se w = ret (Some (of_nat (length l) # drop 1 record), of_nat (length l) # drop 1 record, se2, w2)" "iface_ok se2" "ok w2" "card w2 = e"
    using record_read [OF assms(5,6) e(1,3) assms(9), of 16 1 "[of_nat (length l)]" "record"] assms(1,10) by auto
  obtain se3 w3 where z: "read_binary L 17 (of_nat (length l)) ap se2 w2 = ret (True, se3, w3)" "holds (l @ [0x90, 0]) se3"
    using binary_read [OF y(3,2) _ e(4) assms(9), of c 17 "of_nat (length l)" l] assms(2) e(2) y(4) by auto
  have "Applet_getResponseLength ap se3 = ucast (of_nat (length l) :: u8)"
    using holds_response(2) [OF z(2)] assms(4,9) by (simp add: Applet_getResponseLength_def word_unat_eq_iff unsigned_of_nat take_bit_nat_eq_self)
  then show ?thesis
    unfolding read_label_def using y(1) z(1) holds_response(1) [OF z(2)] assms(3,9,10)
    by (auto simp: mem_get_def get_record_def Applet_getResponse_def mem_write_def bind_eq_None_conv)
qed

end

text \<open>The modem takes no APDU of more than 256 bytes, and nothing is sent then.\<close>

lemma long_apdu_refused: "256 < n \<Longrightarrow> ConnectShieldSE_transmitApdu bd m n buf old (at, w) = ret (False, buf, 0, at, w)"
  by (simp add: ConnectShieldSE_transmitApdu_def modem_send_apdu_def)

lemma long_command_refused:
  assumes "iface_ok se" and "251 < unat n" and "unat n \<le> 255" and "unat n \<le> length d"
  shows "\<exists>se'. iface_ok se' \<and> checked ap (Applet_transmit_case3 (ConnectShieldSE_transmitApdu bd) cla ins p1 p2 d n ap se (at, w)) = ret (False, se', at, w)"
proof -
  have "unat (5 + n) = 5 + unat n"
    using assms(3) by (subst unat_add_lem [THEN iffD1]) simp_all
  then have "256 < 5 + n"
    using assms(2) by (simp add: word_less_nat_alt)
  then show ?thesis
    using assms(1,3,4) long_apdu_refused [where bd = bd and at = at and w = w]
    by (auto simp: checked_def Applet_transmit_case3_def SEInterface_transmit_case3_def mem_read_def mem_write_def SEInterface_transmit.simps iface_ok_def)
qed

text \<open>What the card gets to change the PIN: the last digit of the old one is missing, and a byte of the stack is added.\<close>

lemma changed_pin:
  assumes "oldPin \<noteq> []" and "newPin \<noteq> []" and "length oldPin + length newPin \<le> 16" and "length raw = 17"
  shows "MIAS_changePin raw L oldPin newPin ap se w =
    checked ap (Applet_transmit_case3 L 0x80 0x24 0x00 0x81 ([of_nat (length oldPin)] @ butlast oldPin @ newPin @ drop (length oldPin + length newPin) raw)
      (of_nat (1 + length oldPin + length newPin)) ap se w)"
proof -
  obtain ds z where o: "oldPin = ds @ [z]"
    using assms(1) by (cases oldPin rule: rev_cases) auto
  have "mem_write raw 0 [of_nat (length oldPin)] = Some (of_nat (length oldPin) # drop 1 raw)"
    using assms(4) by (simp add: mem_write_start)
  moreover have "mem_write (of_nat (length oldPin) # drop 1 raw) 1 oldPin = Some (of_nat (length oldPin) # oldPin @ drop (1 + length oldPin) raw)"
    using assms(3,4) by (simp add: mem_write_def add.commute)
  moreover have "mem_write (of_nat (length oldPin) # oldPin @ drop (1 + length oldPin) raw) (length oldPin) newPin =
      Some ([of_nat (length oldPin)] @ ds @ newPin @ drop (length oldPin + length newPin) raw)"
    using assms(2-4) o by (cases newPin) (auto simp: mem_write_def add.commute add.left_commute)
  moreover have "\<not> 17 < (1 + of_nat (length oldPin) + of_nat (length newPin) :: u16)"
    using small_u16 [of "1 + length oldPin + length newPin"] assms(3) by (simp add: word_less_nat_alt add.assoc)
  ultimately show ?thesis
    using o by (simp add: MIAS_changePin_def Let_def add.assoc)
qed

text \<open>A length of the form \<open>81 nn\<close> is put behind the low byte of a variable that has no value yet.\<close>

lemma one_byte_length: "value_size sz0 (0x81 # n # r) = Some (push_bit 8 sz0 OR ucast n, 1)"
  by (simp add: value_size_def mem_get_def mem_read_def)

section \<open>The list of key pairs is well formed\<close>

text \<open>
  A key pair in the list: the file name has two bytes, the flags say RSA exactly for 1024 and 2048 bits, and then the high digit of the
  identifier has the bits for the size and the purpose.
\<close>

definition wf_kid :: "u8 \<Rightarrow> u16 \<Rightarrow> u16 \<Rightarrow> bool" where
  "wf_kid i fl bits \<longleftrightarrow>
     fl \<in> {4, 12} \<and> bits \<notin> {1024, 2048} \<or>
     fl \<in> {5, 13} \<and> bits \<in> {1024, 2048} \<and> (\<exists>d. i = (if bits = 1024 then if fl = 13 then 0x10 else 0x20 else if fl = 13 then 0x30 else 0x40) OR d)"

definition wf_pair :: "mias_key_pair_t \<Rightarrow> bool" where
  "wf_pair k \<longleftrightarrow> length (pub_file_id k) = 2 \<and> wf_kid (kid k) (flags k) (size_in_bits k)"

definition wf_keys :: "mias_t \<Rightarrow> mias_t \<Rightarrow> bool" where
  "wf_keys ap ap' \<longleftrightarrow> (\<forall>k \<in> set (mi_keypairs ap'). wf_pair k) \<and> ap' = ap\<lparr>mi_keypairs := mi_keypairs ap'\<rparr>"

lemma wf_keys_trans: "wf_keys ap ap' \<Longrightarrow> wf_keys ap' ap'' \<Longrightarrow> wf_keys ap ap''"
  unfolding wf_keys_def by (metis mias_t.update_convs(1) mias_t.surjective)

lemma container_pair_wf: "container_pair raw i m = Some k \<Longrightarrow> wf_pair k"
  unfolding container_pair_def by (auto simp: wf_pair_def wf_kid_def key_flags Let_def split: bind_splits if_splits; blast)

lemma mark_pair_wf: "\<forall>k \<in> set ks. wf_pair k \<Longrightarrow> length f = 2 \<Longrightarrow> \<forall>k \<in> set (mark_pair n f ks). wf_pair k"
proof (induction ks)
  case (Cons k ks)
  have "wf_pair k \<Longrightarrow> wf_pair (k\<lparr>pub_file_id := f, has_cert := True\<rparr>)"
    using Cons.prems(2) by (simp add: wf_pair_def)
  then show ?case
    using Cons by simp
qed simp

lemma mark_entry_wf: "mark_entry m ks = Some ks' \<Longrightarrow> \<forall>k \<in> set ks. wf_pair k \<Longrightarrow> \<forall>k \<in> set ks'. wf_pair k"
proof -
  assume a: "mark_entry m ks = Some ks'" "\<forall>k \<in> set ks. wf_pair k"
  have "mem_read m 0 2 = Some f \<Longrightarrow> length f = 2" for f
    by (auto simp: mem_read_def split: if_splits)
  then show ?thesis
    using a mark_pair_wf [OF a(2)] unfolding mark_entry_def by (auto split: bind_splits if_splits)
qed

lemma container_loop_wf:
  "valid (container_loop L raw sz i off ap se w) (\<lambda>(ap', se', w'). (\<forall>k \<in> set (mi_keypairs ap). wf_pair k) \<longrightarrow> wf_keys ap ap')"
proof (rule valid_resI)
  fix y assume "container_loop L raw sz i off ap se w = Some y"
  then show "res_ok (\<lambda>(ap', se', w'). (\<forall>k \<in> set (mi_keypairs ap). wf_pair k) \<longrightarrow> wf_keys ap ap') y"
  proof (induction rule: container_loop.raw_induct [rotated, consumes 1, case_names step])
    case (step loop L raw sz i off ap se w y)
    have IH: "valid (loop L raw sz i' off' ap1 se1 w1) (\<lambda>(ap', se', w'). (\<forall>k \<in> set (mi_keypairs ap1). wf_pair k) \<longrightarrow> wf_keys ap1 ap')" for i' off' ap1 se1 w1
      using step.IH by (rule valid_resI)
    show ?case
      by (rule valid_res [OF _ step.hyps], intro wp)
        (auto intro!: valid_mono [OF IH] intro: wf_keys_trans dest!: container_pair_wf simp: wf_keys_def split: bind_splits if_splits)
  qed
qed

lemma directory_loop_wf:
  "valid (directory_loop L n off ap se w) (\<lambda>(ap', se', w'). (\<forall>k \<in> set (mi_keypairs ap). wf_pair k) \<longrightarrow> wf_keys ap ap')"
proof (induction n arbitrary: off ap se w)
  case 0
  then show ?case
    by (simp add: wf_keys_def)
next
  case (Suc n)
  show ?case
    unfolding directory_loop.simps
    by (intro wp) (auto intro!: valid_mono [OF Suc.IH] intro: wf_keys_trans dest: mark_entry_wf simp: wf_keys_def split: if_splits)
qed

lemma list_keys_wf:
  assumes "MIAS_listKeyPairs L raw ap se w = ret (b, ap', se', w')" and "\<forall>k \<in> set (mi_keypairs ap). wf_pair k"
  shows "wf_keys ap ap'"
proof -
  have refl: "wf_keys ap ap"
    using assms(2) by (simp add: wf_keys_def)
  have dir: "wf_keys ap1 ap2" if "read_directory L ap1 se1 w1 = ret (ap2, se2, w2)" "wf_keys ap ap1" for ap1 ap2 se1 se2 w1 w2
    using that validD [OF directory_loop_wf] unfolding read_directory_def by (fastforce simp: bnd_eq_ret wf_keys_def split: if_splits)
  have cont: "wf_keys ap ap1" if "container_loop L raw sz 0 0 ap se1 w1 = ret (ap1, se2, w2)" for sz ap1 se1 se2 w1 w2
    using validD [OF container_loop_wf that] assms(2) by simp
  have "valid (MIAS_listKeyPairs L raw ap se w) (\<lambda>(b, ap', se', w'). wf_keys ap ap')"
    unfolding MIAS_listKeyPairs_def by (intro wp) (auto intro: refl dest: cont wf_keys_trans [OF cont dir [OF _ cont]])
  from validD [OF this assms(1)] show ?thesis
    by simp
qed


text \<open>
  C36: a certificate that could not be read is returned as if it had been.  The file of a certificate of at most 238 bytes is
  selected, and the card refuses to read it, with any status but \<open>9000\<close>.  \<open>getCertificateByContainerId\<close> returns true all the same, with
  the bytes that the memory from \<open>malloc\<close> held before as the certificate.
\<close>

theorem certificate_unread_accepted:
  assumes "find (in_container (uint i)) (mi_keypairs ap) = Some k" and "has_cert k" and "pub_file_id k = [f, g]"
    and "dialog [ap_channel ap, 0xA4, 8, 4, 2, f, g, 0x1C] p (fcp @ [0x90, 0])" and "announces16 fcp n" and "0 < n" and "n \<le> 238"
    and "dialog [ap_channel ap, 0xB0, 0, 0, of_nat n] q (d @ [a, b])" and "push_bit 8 (ucast a) OR ucast b \<noteq> (0x9000 :: u16)"
    and "shield_ok (at, ln)" and "iface_ok se" and "snd (line_peer ln) = map exchange_text (p @ q) @ script" and "fitting_responses (p @ q)" and "ap_isSelected ap"
    and "alloc (n + 1) = Some buf" and "length buf = n + 1" and "take 2 (take n buf @ [0]) \<noteq> [1, 0]"
  shows "\<exists>se' at' ln'. MIAS_getCertificateByContainerId alloc (ConnectShieldSE_transmitApdu line_board) raw ef0 i certLen ap se (at, ln) =
    ret (True, Some (take n buf @ [0]), of_nat (n + 1), ap, se', at', ln')"
proof -
  have "plays shield_answers (p @ q) (shield_card (at, ln)) (script, line_sent ln @ concat (map (apdu_command \<circ> fst) (p @ q)))"
    using shield_plays [of "p @ q" script "line_sent ln"] assms(12) by (simp add: shield_card_def)
  from shield.certificate_not_read [where alloc = alloc, OF assms(1-11) this assms(13-17), of raw ef0 certLen] show ?thesis
    by auto
qed

text \<open>
  C37: \<open>changePin\<close> spoils both PINs.  The new PIN is copied over the last character of the old one: for PINs that fit into the command, what the card gets is
  the length of the old PIN, the old PIN without its last character, the new PIN, and one byte of the stack; so a card that checks the old
  PIN refuses, and the new one would be read as one character less and a foreign byte.
\<close>

theorem pin_change_spoiled:
  assumes "oldPin \<noteq> []" and "newPin \<noteq> []" and "length oldPin + length newPin \<le> 16" and "length raw = 17" and "ap_isSelected ap" and "iface_ok se"
    and "dialog ([0x80 OR ap_channel ap, 0x24, 0, 0x81, of_nat (1 + length oldPin + length newPin), of_nat (length oldPin)] @ butlast oldPin @ newPin @ [raw ! (length oldPin + length newPin)]) ps (d @ [0x90, 0])"
    and "shield_ok (at, ln)" and "snd (line_peer ln) = map exchange_text ps @ script" and "fitting_responses ps"
  shows "\<exists>se' at' ln'. MIAS_changePin raw (ConnectShieldSE_transmitApdu line_board) oldPin newPin ap se (at, ln) = ret (True, se', at', ln') \<and>
    line_sent ln' = line_sent ln @ concat (map (apdu_command \<circ> fst) ps)"
proof -
  let ?n = "length oldPin + length newPin" and ?L = "ConnectShieldSE_transmitApdu line_board"
  let ?d = "[of_nat (length oldPin)] @ butlast oldPin @ newPin @ [raw ! ?n]"
  have l: "length ?d = 1 + ?n" "length ?d \<le> 251"
    using assms(1,3) by (cases oldPin; simp)+
  have "drop ?n raw = raw ! ?n # drop (Suc ?n) raw"
    using assms(3,4) by (intro Cons_nth_drop_Suc [symmetric]) simp
  then have "MIAS_changePin raw ?L oldPin newPin ap se (at, ln) = checked ap (Applet_transmit_case3 ?L 0x80 0x24 0x00 0x81 (?d @ drop (Suc ?n) raw) (of_nat (1 + ?n)) ap se (at, ln))"
    using changed_pin [OF assms(1-4), of ?L ap se "(at, ln)"] by simp
  also have "\<dots> = checked ap (Applet_transmit_case3 ?L 0x80 0x24 0x00 0x81 ?d (of_nat (1 + ?n)) ap se (at, ln))"
    using l(1) assms(3) small_u16 [of "1 + ?n"] by (simp add: Applet_transmit_case3_def SEInterface_transmit_case3_def mem_read_def)
  finally have m: "MIAS_changePin raw ?L oldPin newPin ap se (at, ln) = checked ap (Applet_transmit_case3 ?L 0x80 0x24 0x00 0x81 ?d (of_nat (1 + ?n)) ap se (at, ln))" .
  have p: "plays shield_answers ps (shield_card (at, ln)) (script, line_sent ln @ concat (map (apdu_command \<circ> fst) ps))"
    using shield_plays [of ps script "line_sent ln"] assms(9) by (simp add: shield_card_def)
  have "dialog ([0x80 OR ap_channel ap, 0x24, 0, 0x81, of_nat (length ?d)] @ ?d) ps (d @ [0x90, 0])"
    unfolding l(1) using assms(7) by simp
  then have "shield.answered (d @ [0x90, 0]) (script, line_sent ln @ concat (map (apdu_command \<circ> fst) ps))
      (checked ap (Applet_transmit_case3 ?L 0x80 0x24 0 0x81 ?d (of_nat (1 + ?n)) ap se (at, ln)))"
    using shield.accepted_cases(2) [OF assms(8,6) p assms(10,5) l(2)] l(1) by metis
  then show ?thesis
    unfolding m shield.answered_def by (auto simp: shield_card_def)
qed

section \<open>Instances\<close>

definition demo_pair :: mias_key_pair_t where
  "demo_pair = \<lparr>kid = 0x21, flags = 5, size_in_bits = 1024, pub_file_id = [0x10, 1], has_cert = True\<rparr>"

definition open_mias :: mias_t where
  "open_mias = (Applet_init MIAS_create)\<lparr>ap_channel := 1, ap_isSelected := True, mi_keypairs := [demo_pair]\<rparr>"

lemma open_mias_facts [simp]: "ap_channel open_mias = 1" "ap_isSelected open_mias" "mi_keypairs open_mias = [demo_pair]" "in_container 0 demo_pair"
  by (simp_all add: open_mias_def demo_pair_def in_container_def)


definition unread_dialogue :: "(u8 list \<times> u8 list) list" where
  "unread_dialogue = [([1, 0xA4, 8, 4, 2, 0x10, 1, 0x1C], [0x62, 4, 0x81, 2, 0, 3, 0x90, 0]), ([1, 0xB0, 0, 0, 3], [0x69, 0x82])]"

lemma unread_dialogue_short:
  "length (concat (map snd (map exchange_text unread_dialogue))) \<le> 999" "length (concat (map fst (map exchange_text unread_dialogue))) \<le> 999"
  by code_simp+

text \<open>A file control template with only the size.\<close>

lemma short_fcp: "announces16 [0x62, 4, 0x81, 2, a, b] (256 * unat a + unat b)"
  unfolding announces16_def by (intro exI [of _ "[(0x81, [a, b])]"]) (simp add: tlv_def big_endian_def)

theorem certificate_unread_accepted_witness:
  "\<exists>se' at' ln'. MIAS_getCertificateByContainerId (\<lambda>n. Some (replicate n 0xAA)) (ConnectShieldSE_transmitApdu line_board) 0 0 0 0 open_mias fresh_iface
     (idle_at, scripted (map exchange_text unread_dialogue)) = ret (True, Some [0xAA, 0xAA, 0xAA, 0], 4, open_mias, se', at', ln')"
proof -
  have "dialog [ap_channel open_mias, 0xA4, 8, 4, 2, 0x10, 1, 0x1C] (take 1 unread_dialogue) ([0x62, 4, 0x81, 2, 0, 3] @ [0x90, 0])"
    "dialog [ap_channel open_mias, 0xB0, 0, 0, of_nat 3] (drop 1 unread_dialogue) ([] @ [0x69, 0x82])"
    by (auto simp: unread_dialogue_def intro!: dialog_final)
  moreover have "announces16 [0x62, 4, 0x81, 2, 0, 3] 3"
    using short_fcp [of 0 3] by simp
  moreover have "snd (line_peer (scripted (map exchange_text unread_dialogue))) = map exchange_text (take 1 unread_dialogue @ drop 1 unread_dialogue) @ []"
    using scripted_ok(3) [OF unread_dialogue_short(1)] by simp
  moreover have "replicate 4 (0xAA :: u8) = [0xAA, 0xAA, 0xAA, 0xAA]"
    by code_simp
  moreover have "fitting_responses (take 1 unread_dialogue @ drop 1 unread_dialogue)"
    by (simp add: unread_dialogue_def)
  ultimately show ?thesis
    using certificate_unread_accepted [of 0 open_mias demo_pair "0x10" 1 "take 1 unread_dialogue" "[0x62, 4, 0x81, 2, 0, 3]" 3 "drop 1 unread_dialogue" "[]" "0x69" "0x82" idle_at
        "scripted (map exchange_text unread_dialogue)" fresh_iface "[]" "\<lambda>n. Some (replicate n 0xAA)" "[0xAA, 0xAA, 0xAA, 0xAA]" 0 0 0]
      scripted_shield [OF unread_dialogue_short] fresh_iface_ok by (auto simp: demo_pair_def in_container_def)
qed

definition pin_dialogue :: "(u8 list \<times> u8 list) list" where
  "pin_dialogue = [([0x81, 0x24, 0, 0x81, 5, 2, 49, 51, 52, 7], [0x90, 0])]"

lemma pin_dialogue_short:
  "length (concat (map snd (map exchange_text pin_dialogue))) \<le> 999" "length (concat (map fst (map exchange_text pin_dialogue))) \<le> 999"
  by code_simp+

theorem pin_change_spoiled_witness:
  "\<exists>se' at' ln'. MIAS_changePin (replicate 17 7) (ConnectShieldSE_transmitApdu line_board) [49, 50] [51, 52] open_mias fresh_iface (idle_at, scripted (map exchange_text pin_dialogue)) =
     ret (True, se', at', ln')"
proof -
  have d: "dialog ([0x80 OR ap_channel open_mias, 0x24, 0, 0x81, of_nat (1 + length [49, 50 :: u8] + length [51, 52 :: u8]), of_nat (length [49, 50 :: u8])] @ butlast [49, 50] @ [51, 52] @
      [replicate 17 7 ! (length [49, 50 :: u8] + length [51, 52 :: u8])]) pin_dialogue ([] @ [0x90, 0])"
    by (auto simp: pin_dialogue_def nth_replicate intro!: dialog_final)
  moreover have "snd (line_peer (scripted (map exchange_text pin_dialogue))) = map exchange_text pin_dialogue @ []"
    using scripted_ok(3) [OF pin_dialogue_short(1)] by simp
  moreover have "fitting_responses pin_dialogue"
    by (simp add: pin_dialogue_def)
  ultimately show ?thesis
    using pin_change_spoiled [OF _ _ _ _ _ fresh_iface_ok d scripted_shield [OF pin_dialogue_short]] by auto
qed

end
