(* ===== verification/Se_Chain.thy ===== *)
theory Se_Chain
  imports Se_Mias_Faults
begin

text \<open>
  The whole way of a certificate, a key or a signature: \<open>mbedtls_se.c\<close> calls the applets of \<open>MF.cpp\<close> and
  \<open>MIAS.cpp\<close>, which talk to the card through \<open>SEInterface.cpp\<close>, \<open>modem.c\<close>, \<open>at_parser.c\<close> and the rings of
  \<open>usart.c\<close>.  The record of operations that \<open>Se_Keys\<close> takes as an argument is instantiated with both applets.

  The operations of an applet may run into undefined behaviour or not return.  The state of the element is therefore an
  execution: \<open>ret t\<close> is the state \<open>t\<close>, and an operation on a state that was not reached does not change it.
\<close>

section \<open>The operations of the applets\<close>

definition lift_op :: "('t \<Rightarrow> ('a \<times> 't) exec) \<Rightarrow> 'a \<Rightarrow> 't exec \<Rightarrow> 'a \<times> 't exec" where
  "lift_op f d s = (case bnd s f of Some (Ret (a, t)) \<Rightarrow> (a, ret t) | Some Fault \<Rightarrow> (d, Some Fault) | None \<Rightarrow> (d, None))"

lemma lift_op_ret: "f t = ret (a, t') \<Longrightarrow> lift_op f d (ret t) = (a, ret t')"
  by (simp add: lift_op_def ret_def)

text \<open>What the local variables and \<open>malloc\<close> hold before they are written.\<close>

record uninit =
  un_len :: u16
  un_kid :: u8
  un_ef_size :: u16
  un_size :: u16
  un_record :: mem

type_synonym 'w element = "Applet \<times> mias_t \<times> se_iface \<times> 'w"

text \<open>A method of one applet, on the state of both.\<close>

definition on_mf :: "(Applet \<Rightarrow> se_iface \<Rightarrow> 'w \<Rightarrow> ('a \<times> Applet \<times> se_iface \<times> 'w) exec) \<Rightarrow> 'a \<Rightarrow> 'w element exec \<Rightarrow> 'a \<times> 'w element exec" where
  "on_mf f = lift_op (\<lambda>(mf, mi, se, w). bnd (f mf se w) (\<lambda>(a, mf, se, w). ret (a, mf, mi, se, w)))"

definition on_mias :: "(mias_t \<Rightarrow> se_iface \<Rightarrow> 'w \<Rightarrow> ('a \<times> mias_t \<times> se_iface \<times> 'w) exec) \<Rightarrow> 'a \<Rightarrow> 'w element exec \<Rightarrow> 'a \<times> 'w element exec" where
  "on_mias f = lift_op (\<lambda>(mf, mi, se, w). bnd (f mi se w) (\<lambda>(a, mi, se, w). ret (a, mf, mi, se, w)))"

text \<open>A method that does not change the members of the applet.\<close>

definition keeping :: "('ap \<Rightarrow> se_iface \<Rightarrow> 'w \<Rightarrow> ('a \<times> se_iface \<times> 'w) exec) \<Rightarrow> 'ap \<Rightarrow> se_iface \<Rightarrow> 'w \<Rightarrow> ('a \<times> 'ap \<times> se_iface \<times> 'w) exec" where
  "keeping f ap se w = bnd (f ap se w) (\<lambda>(a, se, w). ret (a, ap, se, w))"

definition flat3 :: "(bool \<times> 'b \<times> 'c) \<times> 's \<Rightarrow> bool \<times> 'b \<times> 'c \<times> 's" where
  "flat3 x = (case x of ((a, b, c), s) \<Rightarrow> (a, b, c, s))"

definition flat2 :: "(bool \<times> 'b) \<times> 's \<Rightarrow> bool \<times> 'b \<times> 's" where
  "flat2 x = (case x of ((a, b), s) \<Rightarrow> (a, b, s))"

text \<open>
  \<open>new\<close> and \<open>init\<close> of both applets, and the calls of the file.  For a digest the caller's bytes are taken as its buffer.
\<close>

definition element_ops :: "(nat \<Rightarrow> mem option) \<Rightarrow> 'w link \<Rightarrow> uninit \<Rightarrow> 'w element exec se_ops" where
  "element_ops alloc L un =
     \<lparr>op_new = (\<lambda>s. bnd s (\<lambda>(mf, mi, se, w). ret (Applet_init MF_create, Applet_init MIAS_create, se, w))),
      op_select = (\<lambda>a. case a of MF \<Rightarrow> on_mf (Applet_select L False) False | MIAS \<Rightarrow> on_mias (Applet_select L False) False),
      op_deselect = (\<lambda>a s. case a of MF \<Rightarrow> snd (on_mf (Applet_deselect L) False s) | MIAS \<Rightarrow> snd (on_mias (Applet_deselect L) False s)),
      op_verifyPin = (\<lambda>a pin. case a of MF \<Rightarrow> on_mf (keeping (MF_verifyPin L pin)) False | MIAS \<Rightarrow> on_mias (keeping (MIAS_verifyPin L pin)) False),
      op_readEF = (\<lambda>name s. flat3 (on_mf (keeping (\<lambda>ap se w. bnd (MF_readEF alloc L name (of_nat (length name)) (un_len un) ap se w) (\<lambda>(b, m, k, se, w). ret ((b, m, k), se, w)))) (False, None, 0) s)),
      op_p11GetObjectByLabel = (\<lambda>label s. flat3 (on_mias (keeping (\<lambda>ap se w.
        bnd (MIAS_p11GetObjectByLabel alloc L (un_size un) (un_record un) label ap se w) (\<lambda>(b, m, k, se, w). ret ((b, m, k), se, w)))) (False, None, 0) s)),
      op_getCertificateByContainerId = (\<lambda>cid s. flat3 (on_mias (\<lambda>ap se w.
        bnd (MIAS_getCertificateByContainerId alloc L (un_kid un) (un_ef_size un) cid (un_len un) ap se w) (\<lambda>(b, m, k, ap, se, w). ret ((b, m, k), ap, se, w))) (False, None, 0) s)),
      op_getKeyPairByContainerId = (\<lambda>cid. on_mias (MIAS_getKeyPairByContainerId L (un_kid un) cid) None),
      op_decryptInit = (\<lambda>alg key. on_mias (MIAS_decryptInit L alg key) False),
      op_decryptFinal = (\<lambda>d s. flat2 (on_mias (keeping (\<lambda>ap se w. bnd (MIAS_decryptFinal L d (of_nat (length d)) ap se w) (\<lambda>(b, p, se, w). ret ((b, p), se, w)))) (False, []) s)),
      op_signInit = (\<lambda>alg key. on_mias (MIAS_signInit L alg key) False),
      op_signFinal = (\<lambda>h s. flat2 (on_mias (keeping (\<lambda>ap se w. bnd (MIAS_signFinal L h ap se w) (\<lambda>(b, p, se, w). ret ((b, p), se, w)))) (False, []) s))\<rparr>"

lemma element_ops_ret:
  "Applet_select L False mf se w = ret (b, mf', se', w') \<Longrightarrow> op_select (element_ops alloc L un) MF (ret (mf, mi, se, w)) = (b, ret (mf', mi, se', w'))"
  "Applet_select L False mi se w = ret (b, mi', se', w') \<Longrightarrow> op_select (element_ops alloc L un) MIAS (ret (mf, mi, se, w)) = (b, ret (mf, mi', se', w'))"
  "Applet_deselect L mf se w = ret (b, mf', se', w') \<Longrightarrow> op_deselect (element_ops alloc L un) MF (ret (mf, mi, se, w)) = ret (mf', mi, se', w')"
  "Applet_deselect L mi se w = ret (b, mi', se', w') \<Longrightarrow> op_deselect (element_ops alloc L un) MIAS (ret (mf, mi, se, w)) = ret (mf, mi', se', w')"
  "MF_verifyPin L pin mf se w = ret (b, se', w') \<Longrightarrow> op_verifyPin (element_ops alloc L un) MF pin (ret (mf, mi, se, w)) = (b, ret (mf, mi, se', w'))"
  "MIAS_verifyPin L pin mi se w = ret (b, se', w') \<Longrightarrow> op_verifyPin (element_ops alloc L un) MIAS pin (ret (mf, mi, se, w)) = (b, ret (mf, mi, se', w'))"
  "MF_readEF alloc L name (of_nat (length name)) (un_len un) mf se w = ret (b, m, k, se', w') \<Longrightarrow>
     op_readEF (element_ops alloc L un) name (ret (mf, mi, se, w)) = (b, m, k, ret (mf, mi, se', w'))"
  "MIAS_p11GetObjectByLabel alloc L (un_size un) (un_record un) label mi se w = ret (b, m, k, se', w') \<Longrightarrow>
     op_p11GetObjectByLabel (element_ops alloc L un) label (ret (mf, mi, se, w)) = (b, m, k, ret (mf, mi, se', w'))"
  "MIAS_getCertificateByContainerId alloc L (un_kid un) (un_ef_size un) cid (un_len un) mi se w = ret (b, m, k, mi', se', w') \<Longrightarrow>
     op_getCertificateByContainerId (element_ops alloc L un) cid (ret (mf, mi, se, w)) = (b, m, k, ret (mf, mi', se', w'))"
  "MIAS_getKeyPairByContainerId L (un_kid un) cid mi se w = ret (kp, mi', se', w') \<Longrightarrow>
     op_getKeyPairByContainerId (element_ops alloc L un) cid (ret (mf, mi, se, w)) = (kp, ret (mf, mi', se', w'))"
  "MIAS_decryptInit L alg key mi se w = ret (b, mi', se', w') \<Longrightarrow> op_decryptInit (element_ops alloc L un) alg key (ret (mf, mi, se, w)) = (b, ret (mf, mi', se', w'))"
  "MIAS_decryptFinal L d (of_nat (length d)) mi se w = ret (b, bs, se', w') \<Longrightarrow> op_decryptFinal (element_ops alloc L un) d (ret (mf, mi, se, w)) = (b, bs, ret (mf, mi, se', w'))"
  "MIAS_signInit L alg key mi se w = ret (b, mi', se', w') \<Longrightarrow> op_signInit (element_ops alloc L un) alg key (ret (mf, mi, se, w)) = (b, ret (mf, mi', se', w'))"
  "MIAS_signFinal L h mi se w = ret (b, bs, se', w') \<Longrightarrow> op_signFinal (element_ops alloc L un) h (ret (mf, mi, se, w)) = (b, bs, ret (mf, mi, se', w'))"
  by (simp_all add: element_ops_def on_mf_def on_mias_def keeping_def flat3_def flat2_def lift_op_ret)

section \<open>The element over the modem\<close>

text \<open>\<open>element_at mf mi c s\<close>: the state \<open>s\<close> was reached, with the applets \<open>mf\<close> and \<open>mi\<close>, a link that is ready and the card in state \<open>c\<close>.\<close>

definition element_at :: "Applet \<Rightarrow> mias_t \<Rightarrow> (u8 list \<times> u8 list) list \<times> u8 list \<Rightarrow> (at_t \<times> line) element exec \<Rightarrow> bool" where
  "element_at mf mi c s \<longleftrightarrow> (\<exists>se w. s = ret (mf, mi, se, w) \<and> iface_ok se \<and> shield_ok w \<and> shield_card w = c)"

abbreviation modem_ops :: "(nat \<Rightarrow> mem option) \<Rightarrow> uninit \<Rightarrow> (at_t \<times> line) element exec se_ops" where
  "modem_ops alloc un \<equiv> element_ops alloc (ConnectShieldSE_transmitApdu line_board) un"

definition ready_applet :: "u8 list \<Rightarrow> 'a Applet_scheme \<Rightarrow> bool" where
  "ready_applet aid ap \<longleftrightarrow> ap_aid ap = aid \<and> ap_seiface ap \<and> \<not> ap_isSelected ap"

abbreviation selected_on :: "u8 \<Rightarrow> 'a Applet_scheme \<Rightarrow> 'a Applet_scheme" where
  "selected_on ch ap \<equiv> ap\<lparr>ap_channel := ch, ap_isSelected := True, ap_isBasic := False\<rparr>"

abbreviation left_on :: "u8 \<Rightarrow> 'a Applet_scheme \<Rightarrow> 'a Applet_scheme" where
  "left_on ch ap \<equiv> ap\<lparr>ap_channel := ch, ap_isBasic := False, ap_isSelected := False\<rparr>"

lemma applet_opened:
  assumes "element_at mf mi c s" and "plays shield_answers ps c c'" and "fitting_responses ps"
  shows "opens ch MF_AID ps \<Longrightarrow> ready_applet MF_AID mf \<Longrightarrow> \<exists>s'. op_select (modem_ops alloc un) MF s = (True, s') \<and> element_at (selected_on ch mf) mi c' s'"
    and "opens ch MIAS_AID ps \<Longrightarrow> ready_applet MIAS_AID mi \<Longrightarrow> \<exists>s'. op_select (modem_ops alloc un) MIAS s = (True, s') \<and> element_at mf (selected_on ch mi) c' s'"
proof -
  obtain se w where s: "s = ret (mf, mi, se, w)" "iface_ok se" "shield_ok w" "plays shield_answers ps (shield_card w) c'"
    using assms(1,2) by (auto simp: element_at_def)
  have aid: "length MF_AID \<le> 251" "length MIAS_AID \<le> 251"
    by (simp_all add: MF_AID_def MIAS_AID_def)
  have go: "\<exists>se' w'. Applet_select (ConnectShieldSE_transmitApdu line_board) False ap se w = ret (True, selected_on ch ap, se', w') \<and> iface_ok se' \<and> shield_ok w' \<and> shield_card w' = c'"
    if "opens ch a ps" "ready_applet a ap" "length a \<le> 251" for a and ap :: "'x Applet_scheme"
    using shield.applet_selected [of ch ap ps w se c'] s assms(3) that by (auto simp: ready_applet_def)
  show "opens ch MF_AID ps \<Longrightarrow> ready_applet MF_AID mf \<Longrightarrow> \<exists>s'. op_select (modem_ops alloc un) MF s = (True, s') \<and> element_at (selected_on ch mf) mi c' s'"
    using go [of MF_AID mf] aid(1) element_ops_ret(1) [where mi = mi and alloc = alloc and un = un] unfolding element_at_def s(1) by metis
  show "opens ch MIAS_AID ps \<Longrightarrow> ready_applet MIAS_AID mi \<Longrightarrow> \<exists>s'. op_select (modem_ops alloc un) MIAS s = (True, s') \<and> element_at mf (selected_on ch mi) c' s'"
    using go [of MIAS_AID mi] aid(2) element_ops_ret(2) [where mf = mf and alloc = alloc and un = un] unfolding element_at_def s(1) by metis
qed

lemma applet_closed:
  assumes "element_at mf mi c s" and "plays shield_answers ps c c'" and "fitting_responses ps"
  shows "closes (ap_channel mf) ps \<Longrightarrow> ap_seiface mf \<Longrightarrow> ap_isSelected mf \<Longrightarrow> \<not> ap_isBasic mf \<Longrightarrow> element_at (mf\<lparr>ap_isSelected := False\<rparr>) mi c' (op_deselect (modem_ops alloc un) MF s)"
    and "closes (ap_channel mi) ps \<Longrightarrow> ap_seiface mi \<Longrightarrow> ap_isSelected mi \<Longrightarrow> \<not> ap_isBasic mi \<Longrightarrow> element_at mf (mi\<lparr>ap_isSelected := False\<rparr>) c' (op_deselect (modem_ops alloc un) MIAS s)"
proof -
  obtain se w where s: "s = ret (mf, mi, se, w)" "iface_ok se" "shield_ok w" "plays shield_answers ps (shield_card w) c'"
    using assms(1,2) by (auto simp: element_at_def)
  note go = shield.applet_deselected [OF _ s(3,2,4) assms(3)]
  show "closes (ap_channel mf) ps \<Longrightarrow> ap_seiface mf \<Longrightarrow> ap_isSelected mf \<Longrightarrow> \<not> ap_isBasic mf \<Longrightarrow> element_at (mf\<lparr>ap_isSelected := False\<rparr>) mi c' (op_deselect (modem_ops alloc un) MF s)"
    using go [of mf] element_ops_ret(3) [where mi = mi and alloc = alloc and un = un] unfolding element_at_def s(1) by metis
  show "closes (ap_channel mi) ps \<Longrightarrow> ap_seiface mi \<Longrightarrow> ap_isSelected mi \<Longrightarrow> \<not> ap_isBasic mi \<Longrightarrow> element_at mf (mi\<lparr>ap_isSelected := False\<rparr>) c' (op_deselect (modem_ops alloc un) MIAS s)"
    using go [of mi] element_ops_ret(4) [where mf = mf and alloc = alloc and un = un] unfolding element_at_def s(1) by metis
qed

text \<open>The commands between.\<close>

lemma applet_commands:
  assumes "element_at mf mi c s" and "plays shield_answers ps c c'" and "fitting_responses ps"
  shows "accepts (ap_channel mf) pin ps \<Longrightarrow> ap_isSelected mf \<Longrightarrow> length pin \<le> 8 \<Longrightarrow> \<exists>s'. op_verifyPin (modem_ops alloc un) MF pin s = (True, s') \<and> element_at mf mi c' s'"
    and "dialog ([ap_channel mi, 0x20, 0, 0x81, of_nat (length pin)] @ pin) ps (d @ [0x90, 0]) \<Longrightarrow> ap_isSelected mi \<Longrightarrow> length pin \<le> 251 \<Longrightarrow>
      \<exists>s'. op_verifyPin (modem_ops alloc un) MIAS pin s = (True, s') \<and> element_at mf mi c' s'"
    and "serves (ap_channel mf) name content ps \<Longrightarrow> ap_isSelected mf \<Longrightarrow> length name \<le> 250 \<Longrightarrow> length content < 65535 \<Longrightarrow> alloc (length content + 1) = Some buf \<Longrightarrow> length buf = length content + 1 \<Longrightarrow>
      \<exists>s'. op_readEF (modem_ops alloc un) name s = (True, Some (content @ [0]), of_nat (length content + 1), s') \<and> element_at mf mi c' s'"
    and "holds_object (ap_channel mi) label content ps \<Longrightarrow> ap_isSelected mi \<Longrightarrow> length (un_record un) = 21 \<Longrightarrow> alloc (length content + 1) = Some buf \<Longrightarrow> length buf = length content + 1 \<Longrightarrow>
      \<exists>s'. op_p11GetObjectByLabel (modem_ops alloc un) label s = (True, Some (content @ [0]), of_nat (length content + 1), s') \<and> element_at mf mi c' s'"
proof -
  obtain se w where s: "s = ret (mf, mi, se, w)" "iface_ok se" "shield_ok w" "plays shield_answers ps (shield_card w) c'"
    using assms(1,2) by (auto simp: element_at_def)
  show "accepts (ap_channel mf) pin ps \<Longrightarrow> ap_isSelected mf \<Longrightarrow> length pin \<le> 8 \<Longrightarrow> \<exists>s'. op_verifyPin (modem_ops alloc un) MF pin s = (True, s') \<and> element_at mf mi c' s'"
    using shield.pin_verified [OF _ s(3,2,4) assms(3)] element_ops_ret(5) [where mi = mi and alloc = alloc and un = un] unfolding element_at_def s(1) by metis
  show "dialog ([ap_channel mi, 0x20, 0, 0x81, of_nat (length pin)] @ pin) ps (d @ [0x90, 0]) \<Longrightarrow> ap_isSelected mi \<Longrightarrow> length pin \<le> 251 \<Longrightarrow>
      \<exists>s'. op_verifyPin (modem_ops alloc un) MIAS pin s = (True, s') \<and> element_at mf mi c' s'"
    using shield.mias_pin_verified [OF _ s(3,2,4) assms(3)] element_ops_ret(6) [where mf = mf and alloc = alloc and un = un] unfolding element_at_def s(1) by metis
  show "serves (ap_channel mf) name content ps \<Longrightarrow> ap_isSelected mf \<Longrightarrow> length name \<le> 250 \<Longrightarrow> length content < 65535 \<Longrightarrow> alloc (length content + 1) = Some buf \<Longrightarrow> length buf = length content + 1 \<Longrightarrow>
      \<exists>s'. op_readEF (modem_ops alloc un) name s = (True, Some (content @ [0]), of_nat (length content + 1), s') \<and> element_at mf mi c' s'"
    using shield.file_read [where alloc = alloc and n = "un_len un", OF _ s(3,2,4) assms(3) _ _ refl] element_ops_ret(7) [where mi = mi and alloc = alloc and un = un] unfolding element_at_def s(1) by metis
  show "holds_object (ap_channel mi) label content ps \<Longrightarrow> ap_isSelected mi \<Longrightarrow> length (un_record un) = 21 \<Longrightarrow> alloc (length content + 1) = Some buf \<Longrightarrow> length buf = length content + 1 \<Longrightarrow>
      \<exists>s'. op_p11GetObjectByLabel (modem_ops alloc un) label s = (True, Some (content @ [0]), of_nat (length content + 1), s') \<and> element_at mf mi c' s'"
    using shield.object_read [where alloc = alloc and ?sz0.0 = "un_size un", OF _ s(3,2,4) assms(3)] element_ops_ret(8) [where mf = mf and alloc = alloc and un = un] unfolding element_at_def s(1) by metis
qed

lemma applet_operations:
  assumes "element_at mf mi c s" and "plays shield_answers ps c c'" and "fitting_responses ps" and "ap_isSelected mi"
  shows "signs (ap_channel mi) alg key hash sg ps \<Longrightarrow> map_option unat (digest_length (alg AND 0xF0)) = Some (length hash) \<Longrightarrow>
      \<exists>s1 s2. op_signInit (modem_ops alloc un) alg key s = (True, s1) \<and> op_signFinal (modem_ops alloc un) hash s1 = (True, sg, s2) \<and>
        element_at mf (mi\<lparr>mi_signAlgo := alg, mi_signKey := key\<rparr>) c' s2"
    and "deciphers (ap_channel mi) alg key ct plain ps \<Longrightarrow> length ct \<le> 250 \<Longrightarrow>
      \<exists>s1 s2. op_decryptInit (modem_ops alloc un) alg key s = (True, s1) \<and> op_decryptFinal (modem_ops alloc un) ct s1 = (True, plain, s2) \<and>
        element_at mf (mi\<lparr>mi_decryptAlgo := alg, mi_decryptKey := key\<rparr>) c' s2"
    and "lists_keys (ap_channel mi) rs es ps \<Longrightarrow> length rs \<le> 15 \<Longrightarrow> length es \<le> 255 \<Longrightarrow> \<forall>r \<in> set rs. rsa_container r \<Longrightarrow> mi_keypairs mi = [] \<Longrightarrow>
      \<exists>ks s'. op_getKeyPairByContainerId (modem_ops alloc un) cid s = (card_key rs es (unat cid), s') \<and> (\<forall>k. find (in_container (int k)) ks = card_key rs es k) \<and>
        element_at mf (mi\<lparr>mi_keypairs := ks\<rparr>) c' s'"
proof -
  obtain se w where s: "s = ret (mf, mi, se, w)" "iface_ok se" "shield_ok w" "plays shield_answers ps (shield_card w) c'"
    using assms(1,2) by (auto simp: element_at_def)
  show "\<exists>s1 s2. op_signInit (modem_ops alloc un) alg key s = (True, s1) \<and> op_signFinal (modem_ops alloc un) hash s1 = (True, sg, s2) \<and>
        element_at mf (mi\<lparr>mi_signAlgo := alg, mi_signKey := key\<rparr>) c' s2"
    if a: "signs (ap_channel mi) alg key hash sg ps" "map_option unat (digest_length (alg AND 0xF0)) = Some (length hash)"
  proof -
    obtain n where "digest_length (alg AND 0xF0) = Some n" "unat n = length hash"
      using a(2) by auto
    then show ?thesis
      using shield.signature_made [OF a(1) s(3,2,4) assms(3,4), of n "[]"] element_ops_ret(13,14) [where mf = mf and alloc = alloc and un = un] unfolding element_at_def s(1) append_Nil2 by metis
  qed
  show "\<exists>s1 s2. op_decryptInit (modem_ops alloc un) alg key s = (True, s1) \<and> op_decryptFinal (modem_ops alloc un) ct s1 = (True, plain, s2) \<and>
        element_at mf (mi\<lparr>mi_decryptAlgo := alg, mi_decryptKey := key\<rparr>) c' s2"
    if a: "deciphers (ap_channel mi) alg key ct plain ps" "length ct \<le> 250"
    using shield.decrypted [OF a(1) s(3,2,4) assms(3,4) a(2), of "[]"] element_ops_ret(11,12) [where mf = mf and alloc = alloc and un = un] unfolding element_at_def s(1) append_Nil2 by metis
  show "\<exists>ks s'. op_getKeyPairByContainerId (modem_ops alloc un) cid s = (card_key rs es (unat cid), s') \<and> (\<forall>k. find (in_container (int k)) ks = card_key rs es k) \<and>
        element_at mf (mi\<lparr>mi_keypairs := ks\<rparr>) c' s'"
    if a: "lists_keys (ap_channel mi) rs es ps" "length rs \<le> 15" "length es \<le> 255" "\<forall>r \<in> set rs. rsa_container r" "mi_keypairs mi = []"
    using shield.key_found [OF a(1) s(3,2,4) assms(3,4) a(2-5), of "un_kid un" cid] element_ops_ret(10) [where mf = mf and alloc = alloc and un = un] unfolding element_at_def s(1) by metis
qed

section \<open>Sessions over the modem\<close>

text \<open>
  The modem is ready for the exchanges \<open>ps\<close> and after them \<open>script\<close>; and they are over: exactly their \<open>AT+CSIM\<close> commands have
  gone over the serial line, nothing is left unread and the parser is unlocked.
\<close>

definition dialogue_ready :: "at_t \<Rightarrow> line \<Rightarrow> (u8 list \<times> u8 list) list \<Rightarrow> (u8 list \<times> u8 list) list \<Rightarrow> bool" where
  "dialogue_ready at ln ps script \<longleftrightarrow>
     line_ok ln \<and> line_rest ln = [] \<and> modem_at 1 at \<and> locked at = 0 \<and> line_peer ln = ([], map exchange_text ps @ script) \<and>
     length (concat (map fst (map exchange_text ps @ script))) \<le> line_cap ln \<and> fitting_responses ps"

definition dialogue_done :: "line \<Rightarrow> (u8 list \<times> u8 list) list \<Rightarrow> (u8 list \<times> u8 list) list \<Rightarrow> at_t \<Rightarrow> line \<Rightarrow> bool" where
  "dialogue_done ln ps script at' ln' \<longleftrightarrow>
     line_sent ln' = line_sent ln @ concat (map (apdu_command \<circ> fst) ps) \<and> line_rest ln' = [] \<and> line_peer ln' = ([], script) \<and> modem_at 1 at' \<and> locked at' = 0"

lemma dialogue_start:
  assumes "dialogue_ready at ln ps script" and "iface_ok se"
  shows "element_at mf mi (shield_card (at, ln)) (ret (mf, mi, se, at, ln))"
    and "plays shield_answers ps (shield_card (at, ln)) (script, line_sent ln @ concat (map (apdu_command \<circ> fst) ps))" and "fitting_responses ps"
  using assms shield_plays [of ps script "line_sent ln"] by (auto simp: dialogue_ready_def element_at_def shield_ok_def shield_card_def)

lemma dialogue_end:
  assumes "element_at mf mi (script, line_sent ln @ concat (map (apdu_command \<circ> fst) ps)) s"
  shows "\<exists>se' at' ln'. s = ret (mf, mi, se', at', ln') \<and> dialogue_done ln ps script at' ln'"
proof -
  obtain se at ln' where x: "s = ret (mf, mi, se, at, ln')" "shield_ok (at, ln')" "shield_card (at, ln') = (script, line_sent ln @ concat (map (apdu_command \<circ> fst) ps))"
    using assms by (auto simp: element_at_def)
  then have "dialogue_done ln ps script at ln'"
    by (auto simp: dialogue_done_def shield_ok_def shield_card_def prod_eq_iff)
  then show ?thesis
    using x(1) by blast
qed

text \<open>
  The card answers one session on the channel \<open>ch\<close>: it opens the channel and selects the MF, accepts the PIN, serves the file and
  closes the channel.
\<close>

definition card_session :: "u8 \<Rightarrow> u8 list \<Rightarrow> u8 list \<Rightarrow> u8 list \<Rightarrow> (u8 list \<times> u8 list) list \<Rightarrow> bool" where
  "card_session ch pin name content ps \<longleftrightarrow>
     (\<exists>po pv pf pc. ps = po @ pv @ pf @ pc \<and> opens ch MF_AID po \<and> accepts ch pin pv \<and> serves ch name content pf \<and> closes ch pc)"

text \<open>The same with the MIAS applet, its PIN and the exchanges that \<open>P\<close> describes.\<close>

definition mias_session :: "u8 \<Rightarrow> u8 list \<Rightarrow> ((u8 list \<times> u8 list) list \<Rightarrow> bool) \<Rightarrow> (u8 list \<times> u8 list) list \<Rightarrow> bool" where
  "mias_session ch pin P ps \<longleftrightarrow>
     (\<exists>po pv pm pc d. ps = po @ pv @ pm @ pc \<and> opens ch MIAS_AID po \<and> dialog ([ch, 0x20, 0, 0x81, of_nat (length pin)] @ pin) pv (d @ [0x90, 0]) \<and> P pm \<and> closes ch pc)"

text \<open>A session starts, and what is in its middle is followed by the end.\<close>

lemma mias_session_start:
  assumes "mias_session ch pin P ps" and "dialogue_ready at ln ps script" and "iface_ok se" and "ready_applet MIAS_AID mi" and "length pin \<le> 251"
  shows "\<exists>pm pc c2 c3 s1 s2. P pm \<and> closes ch pc \<and> fitting_responses pm \<and> fitting_responses pc \<and> plays shield_answers pm c2 c3 \<and>
    plays shield_answers pc c3 (script, line_sent ln @ concat (map (apdu_command \<circ> fst) ps)) \<and>
    op_select (modem_ops alloc un) MIAS (ret (mf, mi, se, at, ln)) = (True, s1) \<and> op_verifyPin (modem_ops alloc un) MIAS pin s1 = (True, s2) \<and> element_at mf (selected_on ch mi) c2 s2"
proof -
  note start = dialogue_start [OF assms(2,3)]
  obtain po pv pm pc d c1 c2 c3 where d: "opens ch MIAS_AID po" "dialog ([ch, 0x20, 0, 0x81, of_nat (length pin)] @ pin) pv (d @ [0x90, 0])" "P pm" "closes ch pc"
    and c: "plays shield_answers po (shield_card (at, ln)) c1" "plays shield_answers pv c1 c2" "plays shield_answers pm c2 c3"
    "plays shield_answers pc c3 (script, line_sent ln @ concat (map (apdu_command \<circ> fst) ps))"
    and f: "fitting_responses po" "fitting_responses pv" "fitting_responses pm" "fitting_responses pc"
    using assms(1) start(2,3) unfolding mias_session_def by (auto simp: plays_append)
  obtain s1 where s1: "op_select (modem_ops alloc un) MIAS (ret (mf, mi, se, at, ln)) = (True, s1)" "element_at mf (selected_on ch mi) c1 s1"
    using applet_opened(2) [OF start(1) c(1) f(1) d(1) assms(4)] by blast
  obtain s2 where "op_verifyPin (modem_ops alloc un) MIAS pin s1 = (True, s2)" "element_at mf (selected_on ch mi) c2 s2"
    using applet_commands(2) [OF s1(2) c(2) f(2)] d(2) assms(5) by fastforce
  then show ?thesis
    using d(3,4) c(3,4) f(3,4) s1(1) by blast
qed

lemma mias_session_end:
  assumes "element_at mf mi c s" and "plays shield_answers ps c (script, line_sent ln @ sent)" and "fitting_responses ps" and "closes ch ps" and "sent = concat (map (apdu_command \<circ> fst) qs)"
    and "ap_channel mi = ch" and "ap_seiface mi" and "ap_isSelected mi" and "\<not> ap_isBasic mi"
  shows "\<exists>se' at' ln'. op_deselect (modem_ops alloc un) MIAS s = ret (mf, mi\<lparr>ap_isSelected := False\<rparr>, se', at', ln') \<and> dialogue_done ln qs script at' ln'"
  using applet_closed(2) [OF assms(1-3)] dialogue_end assms(4-9) by blast

text \<open>
  C8: a certificate or key is loaded from the card, from the path to the wire.  For \<open>SE://EF/<hex name>\<close>, after
  \<open>mbedtls_se_init\<close>, let the modem pass the APDUs on to a card that answers a session: it opens a channel,
  selects the MF, accepts the PIN, announces the size of the file and hands its content out in any pieces, and closes the channel.
  Then both interface functions return what mbedTLS's parser makes of exactly the content of the file and a
  terminating zero.  What has gone over the serial line are exactly the \<open>AT+CSIM\<close> commands of this session; nothing is
  left unread, the channel is closed and the parser of the modem unlocked.
\<close>

theorem certificate_over_modem:
  assumes "card_session ch pin name content ps" and "dialogue_ready at ln ps script" and "iface_ok se" and "ready_applet MF_AID mf"
    and "0 \<notin> set pin" and "length pin \<le> 8" and "length name \<le> 250" and "length content < 65535" and "\<forall>k. \<exists>m. alloc k = Some m \<and> length m = k"
    and "path = MBEDTLS_SE_EF_KEY_NAME_PREFIX @ concat (map hex2 name) @ [0]" and "start = \<lparr>se_created = True, se_card = ret (mf, mi, se, at, ln)\<rparr>"
  shows "\<exists>se' at' ln'.
    mbedtls_x509_crt_parse_se True alloc tls (modem_ops alloc un) cert path (pin @ [0]) start =
      (let (rc, cert') = op_crt_parse tls (content @ [0]) cert in Some (rc, cert', start\<lparr>se_card := ret (left_on ch mf, mi, se', at', ln')\<rparr>)) \<and>
    mbedtls_pk_parse_se True alloc tls (modem_ops alloc un) pk path (pin @ [0]) start =
      (let (rc, pk') = op_parse_key tls (content @ [0]) pk in Some (rc, pk', start\<lparr>se_card := ret (left_on ch mf, mi, se', at', ln')\<rparr>)) \<and>
    dialogue_done ln ps script at' ln'"
proof -
  let ?ops = "modem_ops alloc un"
  note begun = dialogue_start [OF assms(2,3)]
  obtain po pv pf pc c1 c2 c3 where d: "opens ch MF_AID po" "accepts ch pin pv" "serves ch name content pf" "closes ch pc"
    and c: "plays shield_answers po (shield_card (at, ln)) c1" "plays shield_answers pv c1 c2" "plays shield_answers pf c2 c3"
    "plays shield_answers pc c3 (script, line_sent ln @ concat (map (apdu_command \<circ> fst) ps))"
    and f: "fitting_responses po" "fitting_responses pv" "fitting_responses pf" "fitting_responses pc"
    using assms(1) begun(2,3) by (auto simp: card_session_def plays_append)
  obtain buf where buf: "alloc (length content + 1) = Some buf" "length buf = length content + 1"
    using assms(9) by blast
  obtain s1 where s1: "op_select ?ops MF (ret (mf, mi, se, at, ln)) = (True, s1)" "element_at (selected_on ch mf) mi c1 s1"
    using applet_opened(1) [OF begun(1) c(1) f(1) d(1) assms(4)] by blast
  obtain s2 where s2: "op_verifyPin ?ops MF pin s1 = (True, s2)" "element_at (selected_on ch mf) mi c2 s2"
    using applet_commands(1) [OF s1(2) c(2) f(2)] d(2) assms(6) by fastforce
  obtain s3 where s3: "op_readEF ?ops name s2 = (True, Some (content @ [0]), of_nat (length content + 1), s3)" "element_at (selected_on ch mf) mi c3 s3"
    using applet_commands(3) [where alloc = alloc and un = un, OF s2(2) c(3) f(3) _ _ assms(7,8) buf] d(3) by auto
  have "element_at (left_on ch mf) mi (script, line_sent ln @ concat (map (apdu_command \<circ> fst) ps)) (op_deselect ?ops MF s3)"
    using applet_closed(1) [where alloc = alloc and un = un, OF s3(2) c(4) f(4)] d(4) assms(4) by (simp add: ready_applet_def)
  then obtain se' at' ln' where e: "op_deselect ?ops MF s3 = ret (left_on ch mf, mi, se', at', ln')" "dialogue_done ln ps script at' ln'"
    using dialogue_end by blast
  obtain nb where "alloc (length name) = Some nb" "length nb = length name"
    using assms(9) by blast
  then have path: "leads_to alloc ?ops path MF (op_readEF ?ops name)"
    using assms(7,10) by (auto simp: leads_to_def)
  have "read_path True alloc ?ops MF path (pin @ [0]) start = Some (0, Ptr (content @ [0]), uint (of_nat (length content + 1) :: u16), start\<lparr>se_card := ret (left_on ch mf, mi, se', at', ln')\<rparr>)"
    using read_path_result [OF path _ refl assms(5) _ _ s2(1) impI [OF s3(1)], of start] s1(1) e(1) assms(6,11) by simp
  moreover have "nat (uint (of_nat (length content + 1) :: u16)) = length (content @ [0])"
    using assms(8) by (subst nat_uint_eq, subst small_u16) simp_all
  ultimately show ?thesis
    unfolding parse_by_path [OF path] using e(2) by (auto simp: parse_object_def mem_read_def Let_def)
qed



text \<open>
  C9: a signature is made by the card, from mbedTLS to the wire.  Let the card open a channel, select the MIAS
  applet, accept the PIN of the key, take the algorithm and the identifier of the key, the digest and the command to sign, hand the signature out in
  any number of pieces, and close the channel.  Then \<open>mbedtls_mias_pk_rsa_alt_sign\<close> returns 0 with exactly the signature at
  the start of the caller's buffer, after exactly the commands of this session, for each of the five digests.
\<close>

theorem signature_over_modem:
  assumes "mias_session ch pin (signs ch alg (kid k) hash sg) ps" and "dialogue_ready at ln ps script" and "iface_ok se" and "ready_applet MIAS_AID mi"
    and "mias_alg md = Some alg" and "map_option unat (digest_length (alg AND 0xF0)) = Some (length hash)" and "0 \<notin> set pin" and "length pin \<le> 251" and "length sg \<le> length sig"
    and "start = \<lparr>se_created = True, se_card = ret (mf, mi, se, at, ln)\<rparr>"
  shows "\<exists>se' at' ln'.
    mbedtls_mias_pk_rsa_alt_sign (modem_ops alloc un) \<lparr>key_pin = pin @ [0], key_kp = k\<rparr> md (of_nat (length hash)) (hash @ rest) sig start =
      Some (0, sg @ drop (length sg) sig, start\<lparr>se_card := ret (mf, left_on ch (mi\<lparr>mi_signAlgo := alg, mi_signKey := kid k\<rparr>), se', at', ln')\<rparr>) \<and>
    dialogue_done ln ps script at' ln'"
proof -
  let ?ops = "modem_ops alloc un" and ?mi = "(selected_on ch mi)\<lparr>mi_signAlgo := alg, mi_signKey := kid k\<rparr>"
  obtain pm pc c2 c3 s1 s2 where d: "signs ch alg (kid k) hash sg pm" "closes ch pc" "fitting_responses pm" "fitting_responses pc" "plays shield_answers pm c2 c3"
    "plays shield_answers pc c3 (script, line_sent ln @ concat (map (apdu_command \<circ> fst) ps))" "op_select ?ops MIAS (ret (mf, mi, se, at, ln)) = (True, s1)"
    "op_verifyPin ?ops MIAS pin s1 = (True, s2)" "element_at mf (selected_on ch mi) c2 s2"
    using mias_session_start [OF assms(1-4,8), where mf = mf and alloc = alloc and un = un] by blast
  obtain s3 s4 where s: "op_signInit ?ops alg (kid k) s2 = (True, s3)" "op_signFinal ?ops hash s3 = (True, sg, s4)" "element_at mf ?mi c3 s4"
    using applet_operations(1) [where alloc = alloc and un = un, OF d(9,5,3) _ _ assms(6), of "kid k" sg] d(1) by auto
  obtain se' at' ln' where e: "op_deselect ?ops MIAS s4 = ret (mf, ?mi\<lparr>ap_isSelected := False\<rparr>, se', at', ln')" "dialogue_done ln ps script at' ln'"
    using mias_session_end [where alloc = alloc and un = un, OF s(3) d(6,4,2) refl] assms(4) by (auto simp: ready_applet_def)
  have "length hash \<le> 64"
    using assms(6) by (auto simp: digest_length_def split: if_splits)
  then have "unat (ucast (of_nat (length hash) :: u32) :: u16) = length hash"
    by (simp add: unsigned_ucast_eq unsigned_of_nat take_bit_nat_eq_self)
  then have "mem_read (hash @ rest) 0 (unat (ucast (of_nat (length hash) :: u32) :: u16)) = Some hash"
    by (simp add: mem_read_def)
  moreover have "?mi\<lparr>ap_isSelected := False\<rparr> = left_on ch (mi\<lparr>mi_signAlgo := alg, mi_signKey := kid k\<rparr>)"
    by simp
  moreover have "length pin < 65536"
    using assms(8) by simp
  ultimately show ?thesis
    using rsa_session_result [where init = "op_signInit ?ops alg (kid k)" and f = "op_signFinal ?ops hash" and ctx = "\<lparr>key_pin = pin @ [0], key_kp = k\<rparr>" and se = start,
        OF _ assms(7) _ _ _ d(8) s(1,2)] d(7) e assms(5,9,10) by (simp add: mbedtls_mias_pk_rsa_alt_sign_def)
qed

text \<open>
  Decryption of messages of at most 250 bytes, as with a key of 1024 bits; the length of the plaintext is lost, as
  \<open>Se_Keys\<close> shows.
\<close>

lemma decryption_over_modem:
  assumes "mias_session ch pin (deciphers ch ALGO_RSA_PKCS1_PADDING (kid k) ct plain) ps" and "dialogue_ready at ln ps script" and "iface_ok se" and "ready_applet MIAS_AID mi"
    and "length ct = unat (size_in_bits k div 8)" and "length ct \<le> 250" and "0 \<notin> set pin" and "length pin \<le> 251" and "length plain \<le> length out"
    and "start = \<lparr>se_created = True, se_card = ret (mf, mi, se, at, ln)\<rparr>"
  shows "\<exists>se' at' ln'.
    mbedtls_mias_pk_rsa_alt_decrypt (modem_ops alloc un) \<lparr>key_pin = pin @ [0], key_kp = k\<rparr> olen (ct @ rest) out omax start =
      Some (0, olen, plain @ drop (length plain) out, start\<lparr>se_card := ret (mf, left_on ch (mi\<lparr>mi_decryptAlgo := ALGO_RSA_PKCS1_PADDING, mi_decryptKey := kid k\<rparr>), se', at', ln')\<rparr>) \<and>
    dialogue_done ln ps script at' ln'"
proof -
  let ?ops = "modem_ops alloc un" and ?mi = "(selected_on ch mi)\<lparr>mi_decryptAlgo := ALGO_RSA_PKCS1_PADDING, mi_decryptKey := kid k\<rparr>"
  obtain pm pc c2 c3 s1 s2 where d: "deciphers ch ALGO_RSA_PKCS1_PADDING (kid k) ct plain pm" "closes ch pc" "fitting_responses pm" "fitting_responses pc" "plays shield_answers pm c2 c3"
    "plays shield_answers pc c3 (script, line_sent ln @ concat (map (apdu_command \<circ> fst) ps))" "op_select ?ops MIAS (ret (mf, mi, se, at, ln)) = (True, s1)"
    "op_verifyPin ?ops MIAS pin s1 = (True, s2)" "element_at mf (selected_on ch mi) c2 s2"
    using mias_session_start [OF assms(1-4,8), where mf = mf and alloc = alloc and un = un] by blast
  obtain s3 s4 where s: "op_decryptInit ?ops ALGO_RSA_PKCS1_PADDING (kid k) s2 = (True, s3)" "op_decryptFinal ?ops ct s3 = (True, plain, s4)" "element_at mf ?mi c3 s4"
    using applet_operations(2) [where alloc = alloc and un = un, OF d(9,5,3) _ _ assms(6), of ALGO_RSA_PKCS1_PADDING "kid k" plain] d(1) by auto
  obtain se' at' ln' where e: "op_deselect ?ops MIAS s4 = ret (mf, ?mi\<lparr>ap_isSelected := False\<rparr>, se', at', ln')" "dialogue_done ln ps script at' ln'"
    using mias_session_end [where alloc = alloc and un = un, OF s(3) d(6,4,2) refl] assms(4) by (auto simp: ready_applet_def)
  have "mem_read (ct @ rest) 0 (unat (size_in_bits k div 8)) = Some ct"
    using assms(5) by (simp add: mem_read_def)
  moreover have "?mi\<lparr>ap_isSelected := False\<rparr> = left_on ch (mi\<lparr>mi_decryptAlgo := ALGO_RSA_PKCS1_PADDING, mi_decryptKey := kid k\<rparr>)"
    by simp
  moreover have "length pin < 65536"
    using assms(8) by simp
  ultimately show ?thesis
    using rsa_session_result [where init = "op_decryptInit ?ops ALGO_RSA_PKCS1_PADDING (kid k)" and f = "op_decryptFinal ?ops ct" and ctx = "\<lparr>key_pin = pin @ [0], key_kp = k\<rparr>" and se = start,
        OF _ assms(7) _ _ _ d(8) s(1,2)] d(7) e assms(9,10) by (simp add: mbedtls_mias_pk_rsa_alt_decrypt_def)
qed

text \<open>A ciphertext of more than 250 bytes does not get beyond the modem.\<close>

lemma decipher_refused:
  assumes "iface_ok se" and "251 \<le> length ct" and "length ct \<le> 65535"
  shows "\<exists>se'. iface_ok se' \<and> MIAS_decryptFinal (ConnectShieldSE_transmitApdu bd) ct (of_nat (length ct)) ap se (at, w) = ret (False, [], se', at, w)"
proof -
  let ?n = "of_nat (length ct) :: u16" and ?L = "ConnectShieldSE_transmitApdu bd"
  have u: "unat ?n = length ct"
    using assms(3) by (simp add: small_u16)
  show ?thesis
  proof (cases "length ct < 255")
    case True
    then have "?n < 255" "unat (?n + 1) = length ct + 1"
      using of_nat_less_u16 [of "length ct" 255] small_u16 [of "length ct + 1"] by (simp_all add: add.commute)
    moreover obtain se' where "iface_ok se'" "checked ap (Applet_transmit_case3 ?L 0 0x2A 0x80 0x86 (0x81 # ct) (?n + 1) ap se (at, w)) = ret (False, se', at, w)"
      using long_command_refused [OF assms(1), of "?n + 1" "0x81 # ct" ap bd 0 "0x2A" "0x80" "0x86" at w] calculation(2) assms(2) True by auto
    ultimately show ?thesis
      using u by (auto simp: MIAS_decryptFinal_def MIAS_psoDecipher_def mem_read_def)
  next
    case False
    then have "\<not> ?n < 255"
      using u by (simp add: word_less_nat_alt)
    moreover obtain se' where "iface_ok se'" "checked ap (Applet_transmit_case3 ?L 0x10 0x2A 0x80 0x86 (0x81 # take 0xFE ct) 0xFF ap se (at, w)) = ret (False, se', at, w)"
      using long_command_refused [OF assms(1), of "0xFF" "0x81 # take 0xFE ct" ap bd "0x10" "0x2A" "0x80" "0x86" at w] False by auto
    ultimately show ?thesis
      using False by (auto simp: MIAS_decryptFinal_def MIAS_psoDecipher_def mem_read_def)
  qed
qed

text \<open>
  C38: a key of 2048 bits cannot decrypt over the modem.  The applet sends the ciphertext of 256 bytes in two
  commands, the first one with 255 bytes of data, but \<open>modem_send_apdu\<close> takes no APDU of more than 256 bytes.  Whatever the card is, after it has
  accepted the PIN and the key the operation ends with \<open>MBEDTLS_ERR_SE_MIAS_IO_ERROR\<close>; no byte of the ciphertext has been sent, the
  output buffer is as it was and the channel is closed.
\<close>

theorem decryption_2048_refused:
  assumes "mias_session ch pin (\<lambda>pm. \<exists>d. dialog [ch, 0x22, 0x41, 0xB8, 6, 0x80, 1, ALGO_RSA_PKCS1_PADDING, 0x84, 1, kid k] pm (d @ [0x90, 0])) ps" and "dialogue_ready at ln ps script"
    and "iface_ok se" and "ready_applet MIAS_AID mi" and "size_in_bits k = 2048" and "length ct = 256" and "0 \<notin> set pin" and "length pin \<le> 251"
    and "start = \<lparr>se_created = True, se_card = ret (mf, mi, se, at, ln)\<rparr>"
  shows "\<exists>se' at' ln'.
    mbedtls_mias_pk_rsa_alt_decrypt (modem_ops alloc un) \<lparr>key_pin = pin @ [0], key_kp = k\<rparr> olen ct out omax start =
      Some (MBEDTLS_ERR_SE_MIAS_IO_ERROR, olen, out, start\<lparr>se_card := ret (mf, left_on ch (mi\<lparr>mi_decryptAlgo := ALGO_RSA_PKCS1_PADDING, mi_decryptKey := kid k\<rparr>), se', at', ln')\<rparr>) \<and>
    dialogue_done ln ps script at' ln'"
proof -
  let ?ops = "modem_ops alloc un" and ?mi = "(selected_on ch mi)\<lparr>mi_decryptAlgo := ALGO_RSA_PKCS1_PADDING, mi_decryptKey := kid k\<rparr>" and ?L = "ConnectShieldSE_transmitApdu line_board"
  obtain pm pc c2 c3 s1 s2 d where d: "dialog [ch, 0x22, 0x41, 0xB8, 6, 0x80, 1, ALGO_RSA_PKCS1_PADDING, 0x84, 1, kid k] pm (d @ [0x90, 0])" "closes ch pc" "fitting_responses pm"
    "fitting_responses pc" "plays shield_answers pm c2 c3" "plays shield_answers pc c3 (script, line_sent ln @ concat (map (apdu_command \<circ> fst) ps))"
    "op_select ?ops MIAS (ret (mf, mi, se, at, ln)) = (True, s1)" "op_verifyPin ?ops MIAS pin s1 = (True, s2)" "element_at mf (selected_on ch mi) c2 s2"
    using mias_session_start [OF assms(1-4,8), where mf = mf and alloc = alloc and un = un] by blast
  obtain se2 w2 where s2: "s2 = ret (mf, selected_on ch mi, se2, w2)" "iface_ok se2" "shield_ok w2" "shield_card w2 = c2"
    using d(9) by (auto simp: element_at_def)
  obtain se3 w3 where x: "MIAS_mseSetBeforeDecrypt ?L ALGO_RSA_PKCS1_PADDING (kid k) ?mi se2 w2 = ret (True, se3, w3)" "holds (d @ [0x90, 0]) se3" "shield_ok w3" "shield_card w3 = c3"
    using shield.data_accepted [OF s2(3,2) _ d(3), of c3 ?mi "[0x80, 1, ALGO_RSA_PKCS1_PADDING, 0x84, 1, kid k]" 6 "0x22" "0x41" "0xB8" d] d(1,5) s2(4) by (auto simp: MIAS_mseSetBeforeDecrypt_def)
  obtain at3 ln3 where w3: "w3 = (at3, ln3)"
    by (cases w3)
  obtain se4 where y: "iface_ok se4" "MIAS_decryptFinal ?L ct (of_nat (length ct)) ?mi se3 (at3, ln3) = ret (False, [], se4, at3, ln3)"
    using decipher_refused [OF holds_ok [OF x(2)], of ct line_board ?mi at3 ln3] assms(6) by auto
  have "MIAS_decryptInit ?L ALGO_RSA_PKCS1_PADDING (kid k) (selected_on ch mi) se2 w2 = ret (True, ?mi, se3, w3)"
    using x(1) by (simp add: MIAS_decryptInit_def Let_def)
  then have i: "op_decryptInit ?ops ALGO_RSA_PKCS1_PADDING (kid k) s2 = (True, ret (mf, ?mi, se3, at3, ln3))"
    unfolding s2(1) w3 by (rule element_ops_ret(11))
  have f: "op_decryptFinal ?ops ct (ret (mf, ?mi, se3, at3, ln3)) = (False, [], ret (mf, ?mi, se4, at3, ln3))"
    by (rule element_ops_ret(12) [OF y(2)])
  have el: "element_at mf ?mi c3 (ret (mf, ?mi, se4, at3, ln3))"
    using y(1) x(3,4) w3 by (auto simp: element_at_def)
  obtain se' at' ln' where e: "op_deselect ?ops MIAS (ret (mf, ?mi, se4, at3, ln3)) = ret (mf, ?mi\<lparr>ap_isSelected := False\<rparr>, se', at', ln')" "dialogue_done ln ps script at' ln'"
    using mias_session_end [where alloc = alloc and un = un, OF el d(6,4,2) refl] assms(4) by (auto simp: ready_applet_def)
  have "mem_read ct 0 (unat (size_in_bits k div 8)) = Some ct"
    using assms(5,6) by (simp add: mem_read_def)
  moreover have "?mi\<lparr>ap_isSelected := False\<rparr> = left_on ch (mi\<lparr>mi_decryptAlgo := ALGO_RSA_PKCS1_PADDING, mi_decryptKey := kid k\<rparr>)"
    by simp
  moreover have "length pin < 65536"
    using assms(8) by simp
  ultimately show ?thesis
    using rsa_session_result [where init = "op_decryptInit ?ops ALGO_RSA_PKCS1_PADDING (kid k)" and f = "op_decryptFinal ?ops ct" and ctx = "\<lparr>key_pin = pin @ [0], key_kp = k\<rparr>" and se = start,
        OF _ assms(7) _ _ _ d(8) i f] d(7) e assms(9) by (simp add: mbedtls_mias_pk_rsa_alt_decrypt_def)
qed

section \<open>Instances\<close>

lemma dialog_ok: "dialog a [(a, d @ [0x90, 0])] (d @ [0x90, 0])" if "d = [] \<or> hd d \<notin> {0x61, 0x6C}"
  using that by (intro dialog_final) (auto simp: hd_append)

lemma scripted_ready:
  assumes "length (concat (map snd (map exchange_text ps))) \<le> 999" and "length (concat (map fst (map exchange_text ps))) \<le> 999" and "fitting_responses ps"
  shows "dialogue_ready idle_at (scripted (map exchange_text ps)) ps []"
  using scripted_ok [OF assms(1)] idle_at_ok assms(2,3) by (simp add: dialogue_ready_def)

definition mf_start :: Applet where
  "mf_start = Applet_init MF_create"

definition mias_start :: mias_t where
  "mias_start = Applet_init MIAS_create"

lemma start_ready: "ready_applet MF_AID mf_start" "ready_applet MIAS_AID mias_start" "mi_keypairs mias_start = []"
  by (simp_all add: ready_applet_def mf_start_def mias_start_def MF_create_def MIAS_create_def Applet_create_def Applet_init_def)

definition demo_uninit :: uninit where
  "demo_uninit = \<lparr>un_len = 0, un_kid = 0, un_ef_size = 0, un_size = 0, un_record = replicate 21 0\<rparr>"

text \<open>The element after \<open>mbedtls_se_init\<close>, with a modem behind which the card answers \<open>ps\<close>.\<close>

definition demo_element :: "(u8 list \<times> u8 list) list \<Rightarrow> (at_t \<times> line) element exec se" where
  "demo_element ps = \<lparr>se_created = True, se_card = ret (mf_start, mias_start, fresh_iface, idle_at, scripted (map exchange_text ps))\<rparr>"

text \<open>Opening and closing the channel, and a session of the MIAS applet with the PIN \<open>1234\<close>.\<close>

definition mias_opening :: "(u8 list \<times> u8 list) list" where
  "mias_opening = [([0, 0x70, 0, 0, 1], [1] @ [0x90, 0]), ([1, 0xA4, 4, 0, 13] @ MIAS_AID, [] @ [0x90, 0])]"

definition closing :: "(u8 list \<times> u8 list) list" where
  "closing = [([0, 0x70, 0x80, 1], [] @ [0x90, 0])]"

definition demo_session :: "(u8 list \<times> u8 list) list \<Rightarrow> (u8 list \<times> u8 list) list" where
  "demo_session pm = mias_opening @ [([1, 0x20, 0, 0x81, 4] @ [49, 50, 51, 52], [] @ [0x90, 0])] @ pm @ closing"

lemma opening_ok: "opens 1 MIAS_AID mias_opening" "closes 1 closing"
proof -
  show "opens 1 MIAS_AID mias_opening"
    unfolding opens_def mias_opening_def using dialog_ok [of "[1]" "[0, 0x70, 0, 0, 1]"] dialog_ok [of "[]" "[1, 0xA4, 4, 0, 13] @ MIAS_AID"]
    by (intro exI [of _ "[([0, 0x70, 0, 0, 1], [1] @ [0x90, 0])]"] exI [of _ "[([1, 0xA4, 4, 0, 13] @ MIAS_AID, [] @ [0x90, 0])]"] exI [of _ "[]"]) (simp add: MIAS_AID_def)
  show "closes 1 closing"
    unfolding closes_def closing_def using dialog_ok [of "[]" "[0, 0x70, 0x80, 1]"] by (intro exI [of _ "[]"]) simp
qed

lemma demo_session_ok: "P pm \<Longrightarrow> mias_session 1 [49, 50, 51, 52] P (demo_session pm)"
  unfolding mias_session_def demo_session_def using opening_ok dialog_ok [of "[]" "[1, 0x20, 0, 0x81, 4] @ [49, 50, 51, 52]"]
  by (intro exI [of _ mias_opening] exI [of _ "[([1, 0x20, 0, 0x81, 4] @ [49, 50, 51, 52], [] @ [0x90, 0])]"] exI [of _ pm] exI [of _ closing] exI [of _ "[]"]) simp

text \<open>A file session.\<close>

definition session_dialogue :: "(u8 list \<times> u8 list) list" where
  "session_dialogue =
     [([0, 0x70, 0, 0, 1], [1] @ [0x90, 0]), ([1, 0xA4, 4, 0, 16] @ MF_AID, [] @ [0x90, 0]), ([1, 0x20, 0, 1, 8] @ pad_pin [49, 50, 51, 52], [] @ [0x90, 0])] @ file_dialogue @ closing"

lemma session_dialogue_ok: "card_session 1 [49, 50, 51, 52] [0x7F, 0xAA] [1, 2, 3] session_dialogue"
proof -
  have o: "opens 1 MF_AID [([0, 0x70, 0, 0, 1], [1] @ [0x90, 0]), ([1, 0xA4, 4, 0, 16] @ MF_AID, [] @ [0x90, 0])]"
    unfolding opens_def using dialog_ok [of "[1]" "[0, 0x70, 0, 0, 1]"] dialog_ok [of "[]" "[1, 0xA4, 4, 0, 16] @ MF_AID"]
    by (intro exI [of _ "[([0, 0x70, 0, 0, 1], [1] @ [0x90, 0])]"] exI [of _ "[([1, 0xA4, 4, 0, 16] @ MF_AID, [] @ [0x90, 0])]"] exI [of _ "[]"]) (simp add: MF_AID_def)
  have v: "accepts 1 [49, 50, 51, 52] [([1, 0x20, 0, 1, 8] @ pad_pin [49, 50, 51, 52], [] @ [0x90, 0])]"
    unfolding accepts_def using dialog_ok [of "[]" "[1, 0x20, 0, 1, 8] @ pad_pin [49, 50, 51, 52]"] by (intro exI [of _ "[]"]) simp
  show ?thesis
    unfolding card_session_def session_dialogue_def using o v file_dialogue_serves opening_ok(2) by (metis append_Cons append_Nil)
qed

lemma session_dialogue_ready: "dialogue_ready idle_at (scripted (map exchange_text session_dialogue)) session_dialogue []"
proof (rule scripted_ready)
  show "length (concat (map snd (map exchange_text session_dialogue))) \<le> 999" "length (concat (map fst (map exchange_text session_dialogue))) \<le> 999"
    by code_simp+
  show "fitting_responses session_dialogue"
    by (simp add: session_dialogue_def file_dialogue_def closing_def)
qed

lemma demo_alloc: "\<forall>k. \<exists>m. (\<lambda>n. Some (replicate n (0 :: u8))) k = Some m \<and> length m = k"
  by simp

theorem certificate_over_modem_witness:
  "\<exists>s. mbedtls_x509_crt_parse_se True (\<lambda>n. Some (replicate n 0)) demo_tls (modem_ops (\<lambda>n. Some (replicate n 0)) demo_uninit) [] demo_path ([49, 50, 51, 52] @ [0]) (demo_element session_dialogue) =
   Some (0, [1, 2, 3, 0], s)"
proof -
  have t: "op_crt_parse demo_tls (x @ [0]) [] = (0, x @ [0])" for x
    by (simp add: demo_tls_def)
  show ?thesis
    using certificate_over_modem [where alloc = "\<lambda>n. Some (replicate n 0)" and tls = demo_tls and cert = "[]" and pk = None and un = demo_uninit,
        OF session_dialogue_ok session_dialogue_ready fresh_iface_ok start_ready(1) _ _ _ _ demo_alloc demo_path_def demo_element_def]
    unfolding t by auto
qed

text \<open>A container with a signature key of 1024 bits, whose certificate is in the file \<open>1001\<close>.\<close>

definition demo_container :: "u8 list" where
  "demo_container = [1, 0, 0, 0, 4, 0, 0, 0, 0, 0, 0]"

definition demo_entry :: "u8 list" where
  "demo_entry = [0x10, 1, 0, 3, 107, 115, 99, 48, 48, 0, 0, 0, 109, 115, 99, 112, 0, 0, 0, 0, 0]"

definition keys_dialogue :: "(u8 list \<times> u8 list) list" where
  "keys_dialogue =
     [([1, 0xA4, 8, 4, 2, 0, 2, 0x15], [0x62, 4, 0x81, 2, 0, 11] @ [0x90, 0])] @ [([1, 0xB0, 0, 0, 11], demo_container @ [0x90, 0])] @
     [([1, 0xA4, 8, 4, 2, 1, 1, 0x15], [] @ [0x90, 0])] @ [([1, 0xB0, 0, 0, 1], [1] @ [0x90, 0])] @ [([1, 0xB0, 0, 1, 21], demo_entry @ [0x90, 0])]"

lemma one_record:
  assumes "length r = k" and "0 < k" and "hd r \<notin> {0x61, 0x6C}" and "a = [1, 0xB0, of_nat (b div 256), of_nat b, of_nat k]"
  shows "records 1 b k 0 [r] [(a, r @ [0x90, 0])]"
  using dialog_ok [of r a] assms by (cases r) auto

lemma keys_dialogue_ok: "lists_keys 1 [demo_container] [demo_entry] keys_dialogue"
proof -
  have r: "records 1 0 11 0 [demo_container] [([1, 0xB0, 0, 0, 11], demo_container @ [0x90, 0])]" "records 1 1 21 0 [demo_entry] [([1, 0xB0, 0, 1, 21], demo_entry @ [0x90, 0])]"
    by (rule one_record; simp add: demo_container_def demo_entry_def)+
  have f: "announces16 [0x62, 4, 0x81, 2, 0, 11] (11 * length [demo_container])"
    using short_fcp [of 0 11] by simp
  have d: "dialog [1, 0xA4, 8, 4, 2, 0, 2, 0x15] [([1, 0xA4, 8, 4, 2, 0, 2, 0x15], [0x62, 4, 0x81, 2, 0, 11] @ [0x90, 0])] ([0x62, 4, 0x81, 2, 0, 11] @ [0x90, 0])"
    "dialog [1, 0xA4, 8, 4, 2, 1, 1, 0x15] [([1, 0xA4, 8, 4, 2, 1, 1, 0x15], [] @ [0x90, 0])] ([] @ [0x90, 0])"
    "dialog [1, 0xB0, 0, 0, 1] [([1, 0xB0, 0, 0, 1], [1] @ [0x90, 0])] ([of_nat (length [demo_entry])] @ [0x90, 0])"
    using dialog_ok [of "[1]" "[1, 0xB0, 0, 0, 1]"] by (auto intro!: dialog_ok simp del: append_Cons append_Nil)
  show ?thesis
    unfolding lists_keys_def keys_dialogue_def by (intro exI conjI, rule refl) (rule d r f)+
qed

lemma keys_dialogue_ready:
  "dialogue_ready idle_at (scripted (map exchange_text (mias_opening @ keys_dialogue @ closing))) (mias_opening @ keys_dialogue @ closing) []"
proof (rule scripted_ready)
  show "length (concat (map snd (map exchange_text (mias_opening @ keys_dialogue @ closing)))) \<le> 999" "length (concat (map fst (map exchange_text (mias_opening @ keys_dialogue @ closing)))) \<le> 999"
    by code_simp+
  show "fitting_responses (mias_opening @ keys_dialogue @ closing)"
    by (simp add: mias_opening_def keys_dialogue_def closing_def demo_container_def demo_entry_def)
qed

lemma demo_key: "card_key [demo_container] [demo_entry] 0 = Some demo_pair" "rsa_container demo_container"
  by code_simp+


text \<open>A signature of two bytes in two pieces, over a digest of 20 bytes.\<close>

definition demo_hash :: "u8 list" where
  "demo_hash = replicate 20 5"

definition sign_dialogue :: "(u8 list \<times> u8 list) list" where
  "sign_dialogue =
     [([1, 0x22, 0x41, 0xB6, 6, 0x80, 1, 0x12, 0x84, 1, 0x21], [] @ [0x90, 0])] @ [([1, 0x2A, 0x90, 0xA0, 22, 0x90, 20] @ demo_hash @ [0], [] @ [0x90, 0])] @
     [([1, 0x2A, 0x9E, 0x9A, 0], [7] @ [0x61, 1])] @ [([1, 0xC0, 0, 0, 1], [8] @ [0x90, 0])]"

lemma sign_dialogue_ok: "signs 1 0x12 0x21 demo_hash [7, 8] sign_dialogue"
proof -
  have "collected 1 ([8] @ [0x90, 0]) [] [8]"
    by (rule last_piece) simp
  then have c: "collected 1 ([7] @ [0x61, 1]) ([([1, 0xC0, 0, 0, 1], [8] @ [0x90, 0])] @ []) ([7] @ [8])"
    using dialog_ok [of "[8]" "[1, 0xC0, 0, 0, 1]"] next_piece [of "[7]" 1 1 "[([1, 0xC0, 0, 0, 1], [8] @ [0x90, 0])]" "[8] @ [0x90, 0]" "[]" "[8]"] by simp
  have l: "of_nat (2 + length demo_hash) = (22 :: u8)" "of_nat (length demo_hash) = (20 :: u8)"
    by (simp_all add: demo_hash_def)
  have d: "dialog [1, 0x22, 0x41, 0xB6, 6, 0x80, 1, 0x12, 0x84, 1, 0x21] [([1, 0x22, 0x41, 0xB6, 6, 0x80, 1, 0x12, 0x84, 1, 0x21], [] @ [0x90, 0])] ([] @ [0x90, 0])"
    "dialog ([1, 0x2A, 0x90, 0xA0, 22, 0x90, 20] @ demo_hash @ [0]) [([1, 0x2A, 0x90, 0xA0, 22, 0x90, 20] @ demo_hash @ [0], [] @ [0x90, 0])] ([] @ [0x90, 0])"
    "dialog [1, 0x2A, 0x9E, 0x9A, 0] [([1, 0x2A, 0x9E, 0x9A, 0], [7] @ [0x61, 1])] ([7] @ [0x61, 1])"
    by (intro dialog_ok disjI1 refl, intro dialog_ok disjI1 refl, intro dialog_final) simp_all
  have "signs 1 0x12 0x21 demo_hash ([7] @ [8]) (sign_dialogue @ [])"
    unfolding signs_def sign_dialogue_def l append_assoc by (intro exI conjI, rule refl) (rule d c)+
  then show ?thesis
    by simp
qed

lemma sign_dialogue_ready: "dialogue_ready idle_at (scripted (map exchange_text (demo_session sign_dialogue))) (demo_session sign_dialogue) []"
proof (rule scripted_ready)
  show "length (concat (map snd (map exchange_text (demo_session sign_dialogue)))) \<le> 999" "length (concat (map fst (map exchange_text (demo_session sign_dialogue)))) \<le> 999"
    by code_simp+
  show "fitting_responses (demo_session sign_dialogue)"
    by (simp add: demo_session_def mias_opening_def sign_dialogue_def closing_def)
qed

theorem signature_over_modem_witness:
  "\<exists>s. mbedtls_mias_pk_rsa_alt_sign (modem_ops (\<lambda>n. Some (replicate n 0)) demo_uninit) \<lparr>key_pin = [49, 50, 51, 52] @ [0], key_kp = demo_pair\<rparr> MD_SHA1 20 (demo_hash @ []) [0, 0, 0]
     (demo_element (demo_session sign_dialogue)) = Some (0, [7, 8, 0], s)"
proof -
  have k: "signs 1 0x12 (kid demo_pair) demo_hash [7, 8] sign_dialogue" and h: "of_nat (length demo_hash) = (20 :: u32)"
    using sign_dialogue_ok by (simp_all add: demo_pair_def demo_hash_def)
  have "mias_alg MD_SHA1 = Some 0x12" "map_option unat (digest_length (0x12 AND 0xF0)) = Some (length demo_hash)"
    by code_simp+
  then show ?thesis
    using signature_over_modem [where alloc = "\<lambda>n. Some (replicate n 0)" and un = demo_uninit and md = MD_SHA1 and sig = "[0, 0, 0]" and rest = "[]",
        OF demo_session_ok [where P = "signs 1 0x12 (kid demo_pair) demo_hash [7, 8]", OF k] sign_dialogue_ready fresh_iface_ok start_ready(2) _ _ _ _ _ demo_element_def] h by auto
qed

text \<open>The object \<open>k\<close> with the value \<open>1 2 3\<close>.\<close>

definition object_entry :: "u8 list" where
  "object_entry = [0x20, 1, 0, 30, 112, 117, 98, 100, 97, 116, 48, 48, 112, 49, 49, 0, 0, 0, 0, 0, 0]"

definition object_dialogue :: "(u8 list \<times> u8 list) list" where
  "object_dialogue =
     [([1, 0xA4, 8, 4, 2, 1, 1], [] @ [0x90, 0])] @ [([1, 0xB0, 0, 0, 1], [1] @ [0x90, 0])] @ [([1, 0xB0, 0, 1, 21], object_entry @ [0x90, 0])] @
     ([([1, 0xA4, 8, 4, 2, 0x20, 1], [] @ [0x90, 0])] @ [([1, 0xB0, 0, 16, 1], [1] @ [0x90, 0])] @ [([1, 0xB0, 0, 17, 1], [107] @ [0x90, 0])]) @
     [([1, 0xB0, 0, 18, 1], [0] @ [0x90, 0])] @ [([1, 0xB0, 0, 19, 1], [0] @ [0x90, 0])] @ [([1, 0xB0, 0, 20, 5], [3, 1, 2, 3, 0] @ [0x90, 0])] @ ([([1, 0xB0, 0, 21, 3], [1, 2, 3] @ [0x90, 0])] @ [])"

lemma object_labelled:
  "labelled 1 object_entry [107] ([([1, 0xA4, 8, 4, 2, 0x20, 1], [] @ [0x90, 0])] @ [([1, 0xB0, 0, 16, 1], [1] @ [0x90, 0])] @ [([1, 0xB0, 0, 17, 1], [107] @ [0x90, 0])])"
proof -
  have d: "dialog [1, 0xA4, 8, 4, 2, object_entry ! 0, object_entry ! 1] [([1, 0xA4, 8, 4, 2, 0x20, 1], [] @ [0x90, 0])] ([] @ [0x90, 0])"
    "dialog [1, 0xB0, 0, 16, 1] [([1, 0xB0, 0, 16, 1], [1] @ [0x90, 0])] ([of_nat (length [107 :: u8])] @ [0x90, 0])"
    "dialog [1, 0xB0, 0, 17, of_nat (length [107 :: u8])] [([1, 0xB0, 0, 17, 1], [107] @ [0x90, 0])] ([107] @ [0x90, 0])"
    using dialog_ok [of "[]" "[1, 0xA4, 8, 4, 2, 0x20, 1]"] dialog_ok [of "[1]" "[1, 0xB0, 0, 16, 1]"] dialog_ok [of "[107]" "[1, 0xB0, 0, 17, 1]"] by (simp_all add: object_entry_def)
  show ?thesis
    unfolding labelled_def by (intro exI conjI, rule refl) (rule d | simp)+
qed

lemma object_valued:
  "valued 1 18 [1, 2, 3] ([([1, 0xB0, 0, 18, 1], [0] @ [0x90, 0])] @ [([1, 0xB0, 0, 19, 1], [0] @ [0x90, 0])] @ [([1, 0xB0, 0, 20, 5], [3, 1, 2, 3, 0] @ [0x90, 0])] @ ([([1, 0xB0, 0, 21, 3], [1, 2, 3] @ [0x90, 0])] @ []))"
proof -
  have "reading 1 238 21 3 (0 + length [1, 2, 3 :: u8]) [] []"
    using read_all [of 1 238 21 3] by (simp add: numeral_3_eq_3)
  then have r: "reading 1 238 21 3 0 ([1, 2, 3] @ []) ([([1, 0xB0, 0, 21, 3], [1, 2, 3] @ [0x90, 0])] @ [])"
    using dialog_ok [of "[1, 2, 3]" "[1, 0xB0, 0, 21, 3]"] by (intro read_part [where i = 0]) simp_all
  have d: "dialog [1, 0xB0, 0, 18, 1] [([1, 0xB0, 0, 18, 1], [0] @ [0x90, 0])] ([0] @ [0x90, 0])" "dialog [1, 0xB0, 0, 19, 1] [([1, 0xB0, 0, 19, 1], [0] @ [0x90, 0])] ([0] @ [0x90, 0])"
    "dialog [1, 0xB0, 0, 20, 5] [([1, 0xB0, 0, 20, 5], [3, 1, 2, 3, 0] @ [0x90, 0])] ([3, 1, 2, 3, 0] @ [0x90, 0])"
    by (rule dialog_ok; simp)+
  have l: "3 = length [1, 2, 3 :: u8]"
    by simp
  have n: "18 + 1 + unat (0 :: u8) = 19" "18 + 2 + unat (0 :: u8) + unat (0 :: u8) = 20" "20 + 0 + 1 = (21 :: nat)"
    by simp_all
  have o: "of_nat (18 div 256) = (0 :: u8)" "of_nat 18 = (18 :: u8)" "of_nat (19 div 256) = (0 :: u8)" "of_nat 19 = (19 :: u8)" "of_nat (20 div 256) = (0 :: u8)" "of_nat 20 = (20 :: u8)"
    by simp_all
  have "der_size [3, 1, 2, 3, 0] (length [1, 2, 3 :: u8]) 0"
    by (simp add: der_size_def)
  moreover have "18 + 2 + unat (0 :: u8) + unat (0 :: u8) + 0 + 1 + length [1, 2, 3 :: u8] < 65536"
    by simp
  moreover have "reading 1 238 21 (length [1, 2, 3 :: u8]) 0 [1, 2, 3] ([([1, 0xB0, 0, 21, 3], [1, 2, 3] @ [0x90, 0])] @ [])"
    using r unfolding l by simp
  ultimately show ?thesis
    unfolding valued_def using d
    by (intro exI [of _ "[([1, 0xB0, 0, 18, 1], [0] @ [0x90, 0])]"] exI [of _ "[([1, 0xB0, 0, 19, 1], [0] @ [0x90, 0])]"] exI [of _ "[([1, 0xB0, 0, 20, 5], [3, 1, 2, 3, 0] @ [0x90, 0])]"]
        exI [of _ "[([1, 0xB0, 0, 21, 3], [1, 2, 3] @ [0x90, 0])] @ []"] exI [of _ 0] exI [of _ 0] exI [of _ "[3, 1, 2, 3, 0]"] exI [of _ 0])
      (simp only: n o simp_thms)
qed

lemma object_dialogue_ok: "holds_object 1 [107] [1, 2, 3] object_dialogue"
proof -
  have r: "records 1 1 21 0 [object_entry] [([1, 0xB0, 0, 1, 21], object_entry @ [0x90, 0])]"
    by (rule one_record; simp add: object_entry_def)
  have "is_p11_data (entry_file object_entry)"
    by code_simp
  then have f: "finds 1 [107] [1, 2, 3] (rev [object_entry])
     (([([1, 0xA4, 8, 4, 2, 0x20, 1], [] @ [0x90, 0])] @ [([1, 0xB0, 0, 16, 1], [1] @ [0x90, 0])] @ [([1, 0xB0, 0, 17, 1], [107] @ [0x90, 0])]) @
      ([([1, 0xB0, 0, 18, 1], [0] @ [0x90, 0])] @ [([1, 0xB0, 0, 19, 1], [0] @ [0x90, 0])] @ [([1, 0xB0, 0, 20, 5], [3, 1, 2, 3, 0] @ [0x90, 0])] @ ([([1, 0xB0, 0, 21, 3], [1, 2, 3] @ [0x90, 0])] @ [])))"
    using this_label [OF _ object_labelled, of "[1, 2, 3]" _ "[]"] object_valued by simp
  have d: "dialog [1, 0xA4, 8, 4, 2, 1, 1] [([1, 0xA4, 8, 4, 2, 1, 1], [] @ [0x90, 0])] ([] @ [0x90, 0])"
    "dialog [1, 0xB0, 0, 0, 1] [([1, 0xB0, 0, 0, 1], [1] @ [0x90, 0])] ([of_nat (length [object_entry])] @ [0x90, 0])"
    using dialog_ok [of "[]" "[1, 0xA4, 8, 4, 2, 1, 1]"] dialog_ok [of "[1]" "[1, 0xB0, 0, 0, 1]"] by simp_all
  have n: "length [object_entry] \<le> 255"
    by simp
  show ?thesis
    unfolding holds_object_def object_dialogue_def by (intro exI conjI, rule refl) (rule n d r f)+
qed

lemma object_dialogue_ready: "dialogue_ready idle_at (scripted (map exchange_text (demo_session object_dialogue))) (demo_session object_dialogue) []"
proof (rule scripted_ready)
  show "length (concat (map snd (map exchange_text (demo_session object_dialogue)))) \<le> 999" "length (concat (map fst (map exchange_text (demo_session object_dialogue)))) \<le> 999"
    by code_simp+
  show "fitting_responses (demo_session object_dialogue)"
    by (simp add: demo_session_def mias_opening_def object_dialogue_def closing_def object_entry_def)
qed


definition big_key :: mias_key_pair_t where
  "big_key = \<lparr>kid = 0x31, flags = 13, size_in_bits = 2048, pub_file_id = [0, 0], has_cert = False\<rparr>"

definition decrypt_dialogue :: "(u8 list \<times> u8 list) list" where
  "decrypt_dialogue = [([1, 0x22, 0x41, 0xB8, 6, 0x80, 1, 0x1A, 0x84, 1, 0x31], [] @ [0x90, 0])]"

lemma decrypt_dialogue_ready: "dialogue_ready idle_at (scripted (map exchange_text (demo_session decrypt_dialogue))) (demo_session decrypt_dialogue) []"
proof (rule scripted_ready)
  show "length (concat (map snd (map exchange_text (demo_session decrypt_dialogue)))) \<le> 999" "length (concat (map fst (map exchange_text (demo_session decrypt_dialogue)))) \<le> 999"
    by code_simp+
  show "fitting_responses (demo_session decrypt_dialogue)"
    by (simp add: demo_session_def mias_opening_def decrypt_dialogue_def closing_def)
qed

theorem decryption_2048_refused_witness:
  "\<exists>s. mbedtls_mias_pk_rsa_alt_decrypt (modem_ops (\<lambda>n. Some (replicate n 0)) demo_uninit) \<lparr>key_pin = [49, 50, 51, 52] @ [0], key_kp = big_key\<rparr> 99 (replicate 256 1) [0, 0] 2
     (demo_element (demo_session decrypt_dialogue)) = Some (MBEDTLS_ERR_SE_MIAS_IO_ERROR, 99, [0, 0], s)"
proof -
  have "dialog [1, 0x22, 0x41, 0xB8, 6, 0x80, 1, ALGO_RSA_PKCS1_PADDING, 0x84, 1, kid big_key] decrypt_dialogue ([] @ [0x90, 0])"
    using dialog_ok [of "[]" "[1, 0x22, 0x41, 0xB8, 6, 0x80, 1, 0x1A, 0x84, 1, 0x31]"] by (simp add: decrypt_dialogue_def ALGO_RSA_PKCS1_PADDING_def big_key_def)
  then have "\<exists>d. dialog [1, 0x22, 0x41, 0xB8, 6, 0x80, 1, ALGO_RSA_PKCS1_PADDING, 0x84, 1, kid big_key] decrypt_dialogue (d @ [0x90, 0])"
    by blast
  from demo_session_ok [where P = "\<lambda>pm. \<exists>d. dialog [1, 0x22, 0x41, 0xB8, 6, 0x80, 1, ALGO_RSA_PKCS1_PADDING, 0x84, 1, kid big_key] pm (d @ [0x90, 0])", OF this] show ?thesis
    using decryption_2048_refused [where alloc = "\<lambda>n. Some (replicate n 0)" and un = demo_uninit and olen = 99 and out = "[0, 0]" and omax = 2 and ct = "replicate 256 1",
        OF _ decrypt_dialogue_ready fresh_iface_ok start_ready(2) _ _ _ _ demo_element_def, of 1 "[49, 50, 51, 52]" big_key] by (auto simp: big_key_def)
qed

end
