(* ===== verification/Concept_Board.thy ===== *)
theory Concept_Board
  imports Se_Mias_Faults
begin

text \<open>
  The concept board, a second way from the applets to a card: \<open>LSerial.cpp\<close> (a serial port of the operating system),
  \<open>ATInterface.cpp\<close> (the command \<open>AT+CSIM\<close> over it) and \<open>CinterionModem.cpp\<close>, whose \<open>transmitApdu\<close> implements that of
  \<open>SEInterface\<close>; all of \<open>external_libs/gemalto/platform/concept_board/src\<close>.

  The calls of the operating system are the record \<open>tty_ops\<close>.  The locale \<open>posix_tty\<close> is what they promise: a call may
  transfer less than was asked for, or nothing, but not for ever.  It is interpreted on a port with a modem that
  follows a script; on top of it \<open>card_link\<close> is interpreted a second time, so that everything proved of the applets holds
  over this board too.
\<close>

section \<open>LSerial\<close>

text \<open>
  \<open>sys_open\<close> opens the device, \<open>sys_configure\<close> stands for the calls that set its attributes; \<open>sys_read\<close> returns a count and
  the bytes it has stored.
\<close>

record 'w tty_ops =
  sys_open :: "'w \<Rightarrow> int \<times> 'w"
  sys_configure :: "int \<Rightarrow> 'w \<Rightarrow> 'w"
  sys_write :: "int \<Rightarrow> u8 list \<Rightarrow> 'w \<Rightarrow> int \<times> 'w"
  sys_read :: "int \<Rightarrow> nat \<Rightarrow> 'w \<Rightarrow> int \<times> u8 list \<times> 'w"
  sys_close :: "int \<Rightarrow> 'w \<Rightarrow> 'w"

text \<open>\<open>m_uart\<close>, with the world behind it.\<close>

type_synonym 'w serial_port = "int \<times> 'w"

definition LSerial_create :: "'w \<Rightarrow> 'w serial_port" where
  "LSerial_create w = (-1, w)"

definition LSerial_start :: "'w tty_ops \<Rightarrow> 'w serial_port \<Rightarrow> bool \<times> 'w serial_port" where
  "LSerial_start T s = (case sys_open T (snd s) of (u, w) \<Rightarrow> if 0 \<le> u then (True, u, sys_configure T u w) else (False, u, w))"

definition LSerial_stop :: "'w tty_ops \<Rightarrow> 'w serial_port \<Rightarrow> bool \<times> 'w serial_port" where
  "LSerial_stop T s = (case s of (u, w) \<Rightarrow> (True, u, if 0 \<le> u then sys_close T u w else w))"

partial_function (option) tty_send_loop :: "'w tty_ops \<Rightarrow> int \<Rightarrow> mem \<Rightarrow> nat \<Rightarrow> nat \<Rightarrow> 'w \<Rightarrow> (bool \<times> 'w) exec" where
  "tty_send_loop T u data toWrite i w =
     (if i < toWrite then
        bnd (access (mem_read data i (toWrite - i))) (\<lambda>bs.
        case sys_write T u bs w of (k, w) \<Rightarrow>
          if k = -1 then ret (False, w) else tty_send_loop T u data toWrite (if k \<noteq> 0 then i + nat k else i) w)
      else ret (True, w))"

definition LSerial_send :: "'w tty_ops \<Rightarrow> mem \<Rightarrow> nat \<Rightarrow> 'w serial_port \<Rightarrow> (bool \<times> 'w serial_port) exec" where
  "LSerial_send T data toWrite s =
     (case s of (u, w) \<Rightarrow>
        if u < 0 then ret (False, s) else bnd (tty_send_loop T u data toWrite 0 w) (\<lambda>(ok, w). ret (ok, u, w)))"

text \<open>The bytes are stored from \<open>off\<close> on.  The first result of \<open>recv\<close> is \<open>*size\<close> when the method returns true.\<close>

partial_function (option) tty_recv_loop :: "'w tty_ops \<Rightarrow> int \<Rightarrow> mem \<Rightarrow> nat \<Rightarrow> nat \<Rightarrow> nat \<Rightarrow> 'w \<Rightarrow> (bool \<times> mem \<times> 'w) exec" where
  "tty_recv_loop T u m off toRead i w =
     (if i < toRead then
        (case sys_read T u (toRead - i) w of (k, bs, w) \<Rightarrow>
           if k = -1 then ret (False, m, w)
           else if k \<noteq> 0 then bnd (access (mem_write m (off + i) bs)) (\<lambda>m. tty_recv_loop T u m off toRead (i + nat k) w)
           else tty_recv_loop T u m off toRead i w)
      else ret (True, m, w))"

definition LSerial_recv :: "'w tty_ops \<Rightarrow> mem \<Rightarrow> nat \<Rightarrow> nat \<Rightarrow> 'w serial_port \<Rightarrow> (nat option \<times> mem \<times> 'w serial_port) exec" where
  "LSerial_recv T m off toRead s =
     (case s of (u, w) \<Rightarrow>
        if u < 0 then ret (None, m, s)
        else bnd (tty_recv_loop T u m off toRead 0 w) (\<lambda>(ok, m, w). ret (if ok then Some toRead else None, m, u, w)))"

section \<open>ATInterface\<close>

definition ATInterface_open :: "'w tty_ops \<Rightarrow> 'w serial_port \<Rightarrow> bool \<times> 'w serial_port" where
  "ATInterface_open T s = LSerial_start T s"

definition ATInterface_close :: "'w tty_ops \<Rightarrow> 'w serial_port \<Rightarrow> 'w serial_port" where
  "ATInterface_close T s = snd (LSerial_stop T s)"

text \<open>Bytes to hexadecimal digits and back.  A character that is no digit counts as zero.\<close>

fun hex_string_loop :: "mem \<Rightarrow> nat \<Rightarrow> nat \<Rightarrow> mem \<Rightarrow> nat \<Rightarrow> (mem \<times> nat) option" where
  "hex_string_loop bytes i 0 hexstr k = Some (hexstr, k)"
| "hex_string_loop bytes i (Suc n) hexstr k = do {
     b \<leftarrow> mem_get bytes i;
     hexstr \<leftarrow> mem_write hexstr k (hex2 b);
     hex_string_loop bytes (i + 1) n hexstr (k + 2) }"

definition bytesArray2HexString :: "mem \<Rightarrow> u16 \<Rightarrow> mem \<Rightarrow> (mem \<times> u16) option" where
  "bytesArray2HexString bytes bytesLen hexstr = map_option (\<lambda>(h, k). (h, of_nat k)) (hex_string_loop bytes 0 (unat bytesLen) hexstr 0)"

function hex_bytes :: "mem \<Rightarrow> nat \<Rightarrow> nat \<Rightarrow> mem \<Rightarrow> nat \<Rightarrow> (mem \<times> nat) option" where
  "hex_bytes hexstr n i bytes k =
     (if i < n then do {
        a \<leftarrow> mem_get hexstr i;
        b \<leftarrow> mem_get hexstr (i + 1);
        bytes \<leftarrow> mem_write bytes k [push_bit 4 (hex_value a) OR hex_value b];
        hex_bytes hexstr n (i + 2) bytes (k + 1) }
      else Some (bytes, k))"
  by pat_completeness auto
termination
  by (relation "measure (\<lambda>(hexstr, n, i, bytes, k). n - i)") auto

definition hexString2BytesArray :: "mem \<Rightarrow> u16 \<Rightarrow> mem \<Rightarrow> (mem \<times> u16) option" where
  "hexString2BytesArray hexstr hexstrLen bytes = map_option (\<lambda>(m, k). (m, of_nat k)) (hex_bytes hexstr (unat hexstrLen) 0 bytes 0)"

text \<open>A line is read character by character; nothing compares its length with the size of the buffer.\<close>

partial_function (option) line_loop :: "'w tty_ops \<Rightarrow> mem \<Rightarrow> nat \<Rightarrow> 'w serial_port \<Rightarrow> (nat option \<times> mem \<times> 'w serial_port) exec" where
  "line_loop T m off s =
     bnd (LSerial_recv T m off 1 s) (\<lambda>(r, m, s).
     case r of
       None \<Rightarrow> ret (None, m, s)
     | Some k \<Rightarrow>
         if k \<noteq> 0 then bnd (access (mem_get m (off + k - 1))) (\<lambda>c. if c = 10 then ret (Some (off + k), m, s) else line_loop T m (off + k) s)
         else line_loop T m off s)"

definition ATInterface_readLine :: "'w tty_ops \<Rightarrow> mem \<Rightarrow> 'w serial_port \<Rightarrow> (nat option \<times> mem \<times> 'w serial_port) exec" where
  "ATInterface_readLine T m s = line_loop T m 0 s"

text \<open>\<open>sprintf\<close> stores a text and its terminator, and returns the length of the text.\<close>

definition put_text :: "mem \<Rightarrow> nat \<Rightarrow> u8 list \<Rightarrow> (mem \<times> nat) option" where
  "put_text m off txt = map_option (\<lambda>m. (m, off + length txt)) (mem_write m off (txt @ [0]))"

fun put_bytes :: "mem \<Rightarrow> nat \<Rightarrow> mem \<Rightarrow> nat \<Rightarrow> nat \<Rightarrow> (mem \<times> nat) option" where
  "put_bytes m off apdu i 0 = Some (m, off)"
| "put_bytes m off apdu i (Suc n) = do { b \<leftarrow> mem_get apdu i; (m, off) \<leftarrow> put_text m off (hex2 b); put_bytes m off apdu (i + 1) n }"

definition put_command :: "mem \<Rightarrow> mem \<Rightarrow> u16 \<Rightarrow> (mem \<times> nat) option" where
  "put_command m apdu apduLen = do {
     (m, off) \<leftarrow> put_text m 0 (cs ''AT+CSIM='' @ dec (unat apduLen * 2) @ cs '','' @ [34]);
     (m, off) \<leftarrow> put_bytes m off apdu 0 (unat apduLen);
     put_text m off ([34] @ crlf) }"

text \<open>The results of \<open>send\<close> and \<open>readLine\<close> are not looked at: when the port fails the loops go on for ever.\<close>

partial_function (option) await_csim :: "'w tty_ops \<Rightarrow> mem \<Rightarrow> 'w serial_port \<Rightarrow> (bool \<times> mem \<times> 'w serial_port) exec" where
  "await_csim T m s =
     bnd (ATInterface_readLine T m s) (\<lambda>(_, m, s).
     bnd (access (mem_read m 0 7)) (\<lambda>p.
     if p = cs ''ERROR'' @ crlf then ret (False, m, s) else if p \<noteq> cs ''+CSIM: '' then await_csim T m s else ret (True, m, s)))"

partial_function (option) await_ok :: "'w tty_ops \<Rightarrow> mem \<Rightarrow> 'w serial_port \<Rightarrow> (mem \<times> 'w serial_port) exec" where
  "await_ok T m s =
     bnd (ATInterface_readLine T m s) (\<lambda>(_, m, s).
     bnd (access (mem_read m 0 4)) (\<lambda>p. if p \<noteq> cs ''OK'' @ crlf then await_ok T m s else ret (m, s)))"

text \<open>The length up to the comma, and the text from the first digit behind it; both are sought to the end of the buffer.  Characters are unsigned.\<close>

fun csim_length :: "mem \<Rightarrow> u16 \<Rightarrow> (u16 \<times> mem) option" where
  "csim_length [] n = None"
| "csim_length (c # r) n = (if c \<noteq> 44 then csim_length r (n * 10 + (ucast c - 48)) else Some (n, c # r))"

fun csim_digits :: "mem \<Rightarrow> mem option" where
  "csim_digits [] = None"
| "csim_digits (c # r) = (if hex_digit c then Some (c # r) else csim_digits r)"

text \<open>
  \<open>malloc\<close> is \<open>alloc\<close>; \<open>sizeof(buf)\<close> is the size of a pointer.  When the modem answers \<open>ERROR\<close>, \<open>*responseLen\<close> is left as it was.
\<close>

definition ATInterface_sendATCSIM :: "(nat \<Rightarrow> mem option) \<Rightarrow> 'w tty_ops \<Rightarrow> 'w serial_port link" where
  "ATInterface_sendATCSIM alloc T apdu apduLen response responseLen s =
     bnd (access (do { m \<leftarrow> alloc 537; put_command m apdu apduLen })) (\<lambda>(m, off).
     bnd (LSerial_send T m off s) (\<lambda>(_, s).
     bnd (access (mem_write m 0 (replicate 8 0))) (\<lambda>m.
     bnd (await_csim T m s) (\<lambda>(ok, m, s).
     if \<not> ok then ret (False, response, responseLen, s)
     else
       bnd (access (do { (n, r) \<leftarrow> csim_length (drop 7 m) 0; r \<leftarrow> csim_digits r; hexString2BytesArray r n response })) (\<lambda>(response, responseLen).
       bnd (await_ok T m s) (\<lambda>(m, s). ret (True, response, responseLen, s)))))))"

section \<open>CinterionModem\<close>

text \<open>The command and the response are printed.\<close>

definition CinterionModem_transmitApdu :: "(nat \<Rightarrow> mem option) \<Rightarrow> 'w tty_ops \<Rightarrow> 'w serial_port link" where
  "CinterionModem_transmitApdu alloc T apdu apduLen response responseLen s =
     bnd (access (mem_read apdu 0 (unat apduLen))) (\<lambda>_.
     bnd (ATInterface_sendATCSIM alloc T apdu apduLen response responseLen s) (\<lambda>(ok, response, responseLen, s).
     bnd (access (mem_read response 0 (unat responseLen))) (\<lambda>_. ret (ok, response, responseLen, s))))"

section \<open>The text of a command\<close>

lemma put_text_ok:
  assumes "off + length txt < length m"
  shows "\<exists>m'. put_text m off txt = Some (m', off + length txt) \<and> length m' = length m \<and> take (off + length txt) m' = take off m @ txt"
  using assms by (auto simp: put_text_def mem_write_def)

lemma put_bytes_ok:
  assumes "i + n \<le> length apdu" and "off + 2 * n < length m"
  shows "\<exists>m'. put_bytes m off apdu i n = Some (m', off + 2 * n) \<and> length m' = length m \<and>
    take (off + 2 * n) m' = take off m @ concat (map hex2 (take n (drop i apdu)))"
  using assms
proof (induction n arbitrary: m off i)
  case (Suc n)
  have l: "length (hex2 b) = 2" for b
    by (simp add: hex2_def)
  obtain m1 where m1: "put_text m off (hex2 (apdu ! i)) = Some (m1, off + 2)" "length m1 = length m" "take (off + 2) m1 = take off m @ hex2 (apdu ! i)"
    using put_text_ok [of off "hex2 (apdu ! i)" m] Suc.prems by (auto simp: l)
  obtain m2 where "put_bytes m1 (off + 2) apdu (i + 1) n = Some (m2, off + 2 + 2 * n)" "length m2 = length m1"
    "take (off + 2 + 2 * n) m2 = take (off + 2) m1 @ concat (map hex2 (take n (drop (i + 1) apdu)))"
    using Suc.IH [of "i + 1" "off + 2" m1] Suc.prems m1(2) by auto
  moreover have "drop i apdu = apdu ! i # drop (i + 1) apdu"
    using Suc.prems by (simp add: Cons_nth_drop_Suc)
  ultimately show ?case
    using m1 Suc.prems by (simp add: mem_get_def)
qed simp

lemma put_bytes_length: "put_bytes m off apdu i n = Some (m', k) \<Longrightarrow> k = off + 2 * n \<and> length m' = length m"
proof (induction n arbitrary: m off i)
  case (Suc n)
  then show ?case
    by (force simp: put_text_def hex2_def mem_write_def bind_eq_Some_conv split: if_splits)
qed simp

lemma dec_length: "n < 10 ^ k \<Longrightarrow> 0 < k \<Longrightarrow> length (dec n) \<le> k"
proof (induction n arbitrary: k rule: dec.induct)
  case (1 n)
  then show ?case
    by (cases k; cases "k = 1") (auto simp: dec.simps [of n])
qed

lemma dec_long: "10 ^ k \<le> n \<Longrightarrow> k < length (dec n)"
proof (induction n arbitrary: k rule: dec.induct)
  case (1 n)
  show ?case
  proof (cases "n < 10")
    case True
    then have "k = 0"
      using 1(2) power_increasing [of 1 k "10 :: nat"] by (cases "k = 0") auto
    then show ?thesis
      by (simp add: dec.simps [of n])
  next
    case False
    then show ?thesis
      using 1 by (cases k) (auto simp: dec.simps [of n])
  qed
qed

definition csim_header :: "nat \<Rightarrow> u8 list" where
  "csim_header n = cs ''AT+CSIM='' @ dec (n * 2) @ cs '','' @ [34]"

lemma csim_header_length: "length (csim_header n) = 10 + length (dec (n * 2))"
  by (simp add: csim_header_def cs_def)

lemma put_command_ok:
  assumes "unat n \<le> 260" and "unat n \<le> length apdu" and "length m = 537"
  shows "\<exists>m'. put_command m apdu n = Some (m', length (apdu_command (take (unat n) apdu))) \<and> length m' = 537 \<and>
    take (length (apdu_command (take (unat n) apdu))) m' = apdu_command (take (unat n) apdu)"
proof -
  let ?h = "csim_header (unat n)" and ?n = "unat n"
  have h: "length ?h \<le> 13"
    using dec_length [of "?n * 2" 3] assms(1) by (simp add: csim_header_length)
  obtain m1 where m1: "put_text m 0 ?h = Some (m1, length ?h)" "length m1 = 537" "take (length ?h) m1 = ?h"
    using put_text_ok [of 0 ?h m] h assms(3) by auto
  obtain m2 where m2: "put_bytes m1 (length ?h) apdu 0 ?n = Some (m2, length ?h + 2 * ?n)" "length m2 = 537"
    "take (length ?h + 2 * ?n) m2 = ?h @ concat (map hex2 (take ?n apdu))"
    using put_bytes_ok [of 0 ?n apdu "length ?h" m1] h m1(2,3) assms(1,2) by auto
  obtain m3 where m3: "put_text m2 (length ?h + 2 * ?n) ([34] @ crlf) = Some (m3, length ?h + 2 * ?n + 3)" "length m3 = 537"
    "take (length ?h + 2 * ?n + 3) m3 = ?h @ concat (map hex2 (take ?n apdu)) @ [34] @ crlf"
    using put_text_ok [of "length ?h + 2 * ?n" "[34] @ crlf" m2] h m2(2,3) assms(1) by (auto simp: crlf_def numeral_3_eq_3)
  have "apdu_command (take ?n apdu) = ?h @ concat (map hex2 (take ?n apdu)) @ [34] @ crlf"
    using assms(2) by (simp add: apdu_command_def apdu_texts_def csim_header_def)
  moreover have "length (concat (map hex2 (take ?n apdu))) = 2 * ?n"
    using assms(2) by (simp add: length_concat hex2_def comp_def sum_list_triv)
  moreover have "length (?h @ concat (map hex2 (take ?n apdu)) @ [34] @ crlf) = length ?h + 2 * ?n + 3"
    using calculation(2) by (simp add: crlf_def)
  ultimately show ?thesis
    using m1(1) m2(1) m3 unfolding put_command_def csim_header_def [symmetric] by (simp add: add.assoc)
qed

lemma put_command_length:
  assumes "put_command m apdu n = Some (m', k)"
  shows "13 + length (dec (unat n * 2)) + 2 * unat n < length m"
proof -
  obtain m1 k1 m2 k2 where x: "put_text m 0 (csim_header (unat n)) = Some (m1, k1)" "put_bytes m1 k1 apdu 0 (unat n) = Some (m2, k2)" "put_text m2 k2 ([34] @ crlf) = Some (m', k)"
    using assms by (auto simp: put_command_def csim_header_def bind_eq_Some_conv)
  have "k1 = length (csim_header (unat n))" "length m1 = length m"
    using x(1) by (auto simp: put_text_def mem_write_def split: if_splits)
  moreover have "k2 + 3 < length m2"
    using x(3) by (auto simp: put_text_def mem_write_def crlf_def split: if_splits)
  ultimately show ?thesis
    using put_bytes_length [OF x(2)] by (simp add: csim_header_length)
qed

section \<open>Digits\<close>

lemma hex2_value: "push_bit 4 (hex_value (hex2 b ! 0)) OR hex_value (hex2 b ! 1) = b"
  using byte_pair_facts(1) [of b] by (simp add: hex2_def pair_byte_def byte_pair_def)

lemma hex_bytes_ok:
  assumes "k + length rs \<le> length bytes" and "length h = i"
  shows "hex_bytes (h @ concat (map hex2 rs) @ t) (i + 2 * length rs) i bytes k = Some (take k bytes @ rs @ drop (k + length rs) bytes, k + length rs)"
  using assms
proof (induction rs arbitrary: h i bytes k)
  case (Cons r rs)
  have g: "mem_get (h @ concat (map hex2 (r # rs)) @ t) i = Some (hex2 r ! 0)" "mem_get (h @ concat (map hex2 (r # rs)) @ t) (i + 1) = Some (hex2 r ! 1)"
    using Cons.prems(2) by (auto simp: mem_get_def nth_append hex2_def)
  have w: "mem_write bytes k [r] = Some (take k bytes @ r # drop (k + 1) bytes)"
    using Cons.prems(1) by (simp add: mem_write_def)
  have "hex_bytes ((h @ hex2 r) @ concat (map hex2 rs) @ t) (i + 2 + 2 * length rs) (i + 2) (take k bytes @ r # drop (k + 1) bytes) (k + 1) =
      Some (take (k + 1) (take k bytes @ r # drop (k + 1) bytes) @ rs @ drop (k + 1 + length rs) (take k bytes @ r # drop (k + 1) bytes), k + 1 + length rs)"
    using Cons.prems by (intro Cons.IH) (auto simp: hex2_def)
  then show ?case
    using Cons.prems g w hex2_value [of r] by (subst hex_bytes.simps) (simp add: add.commute)
qed (simp add: hex_bytes.simps)

lemma hex_string_loop_ok:
  assumes "i + n \<le> length bytes" and "k + 2 * n \<le> length h"
  shows "hex_string_loop bytes i n h k = Some (take k h @ concat (map hex2 (take n (drop i bytes))) @ drop (k + 2 * n) h, k + 2 * n)"
  using assms
proof (induction n arbitrary: i h k)
  case (Suc n)
  have d: "drop i bytes = bytes ! i # drop (i + 1) bytes"
    using Suc.prems by (simp add: Cons_nth_drop_Suc)
  have w: "mem_write h k (hex2 (bytes ! i)) = Some (take k h @ hex2 (bytes ! i) @ drop (k + 2) h)"
    using Suc.prems by (simp add: mem_write_def hex2_def)
  let ?h = "take k h @ hex2 (bytes ! i) @ drop (k + 2) h"
  have "take (k + 2) ?h = take k h @ hex2 (bytes ! i)" "drop (k + 2 + 2 * n) ?h = drop (k + 2 * Suc n) h" "length ?h = length h"
    using Suc.prems by (auto simp: hex2_def min_def add.commute)
  then show ?case
    using Suc.IH [of "i + 1" "k + 2" ?h] Suc.prems w by (simp add: d mem_get_def)
qed simp

text \<open>What one function writes the other reads.\<close>

lemma hex_string_roundtrip:
  assumes "length bytes \<le> 32767" and "2 * length bytes \<le> length h" and "length bytes \<le> length b"
  shows "\<exists>h'. bytesArray2HexString bytes (of_nat (length bytes)) h = Some (h', of_nat (2 * length bytes)) \<and>
    hexString2BytesArray h' (of_nat (2 * length bytes)) b = Some (bytes @ drop (length bytes) b, of_nat (length bytes))"
proof -
  have n: "unat (of_nat (length bytes) :: u16) = length bytes" "unat (of_nat (2 * length bytes) :: u16) = 2 * length bytes"
    using assms(1) by (simp_all only: small_u16)
  then show ?thesis
    using hex_string_loop_ok [of 0 "length bytes" bytes 0 h] hex_bytes_ok [of 0 bytes b "[]" 0 "drop (2 * length bytes) h"] assms(2,3)
    unfolding bytesArray2HexString_def hexString2BytesArray_def n by simp
qed

lemma csim_length_dec: "csim_length (dec n @ r) 0 = csim_length r (of_nat n)"
proof (induction n arbitrary: r rule: dec.induct)
  case (1 n)
  have c: "csim_length ((48 + of_nat d) # r) a = csim_length r (a * 10 + of_nat d)" if "d < 10" for d a
  proof -
    have "unat (48 + of_nat d :: u8) = 48 + d"
      using that by (subst unat_add_lem [THEN iffD1]) (simp_all add: unsigned_of_nat take_bit_nat_eq_self)
    moreover have "(48 + of_nat d :: u8) \<noteq> 44"
    proof
      assume "(48 + of_nat d :: u8) = 44"
      from arg_cong [OF this, of unat] show False
        using calculation by simp
    qed
    moreover have "ucast (48 + of_nat d :: u8) - 48 = (of_nat d :: u16)"
      using of_nat_unat [of "48 + of_nat d :: u8", symmetric, where 'a = u16] unfolding calculation(1) by simp
    ultimately show ?thesis
      by simp
  qed
  show ?case
  proof (cases "n < 10")
    case False
    have "(of_nat n :: u16) = of_nat (n div 10) * 10 + of_nat (n mod 10)"
      by (metis div_mult_mod_eq of_nat_add of_nat_mult of_nat_numeral)
    then show ?thesis
      using 1 [OF False, of "(48 + of_nat (n mod 10)) # r"] c [of "n mod 10" "of_nat (n div 10)"] False by (simp add: dec.simps [of n])
  qed (use c [of n 0] in \<open>simp add: dec.simps [of n]\<close>)
qed

lemma csim_digits_hex: "\<not> hex_digit c \<Longrightarrow> csim_digits (c # r) = csim_digits r" "csim_digits (hex2 b @ r) = Some (hex2 b @ r)"
proof -
  have "drop_bit 4 b < 16"
    by (simp add: word_less_nat_alt drop_bit_eq_div unat_div div_less_iff_less_mult)
  then show "csim_digits (hex2 b @ r) = Some (hex2 b @ r)"
    using hex_char_value [of "drop_bit 4 b"] by (simp add: hex2_def)
qed simp

text \<open>What is found in the line of the modem.\<close>

lemma csim_line_parsed:
  assumes "r \<noteq> []" and "length r \<le> 258" and "length buf = 258"
  shows "do { (n, t) \<leftarrow> csim_length (drop 7 (csim_line (2 * length r) r @ x)) 0; t \<leftarrow> csim_digits t; hexString2BytesArray t n buf } = Some (r @ drop (length r) buf, of_nat (length r))"
proof -
  obtain b bs where r: "r = b # bs"
    using assms(1) by (cases r) auto
  have n: "unat (of_nat (2 * length r) :: u16) = 2 * length r"
    using assms(2) by (intro small_u16) simp
  have "csim_length (drop 7 (csim_line (2 * length r) r @ x)) 0 = Some (of_nat (2 * length r), [44, 34] @ concat (map hex2 r) @ [34] @ crlf @ x)"
    by (simp add: csim_line_def cs_def csim_length_dec)
  moreover have "csim_digits ([44, 34] @ concat (map hex2 r) @ [34] @ crlf @ x) = Some (concat (map hex2 r) @ [34] @ crlf @ x)"
    using csim_digits_hex(2) [of b] by (simp add: r hex_digit_def)
  moreover have "hexString2BytesArray (concat (map hex2 r) @ [34] @ crlf @ x) (of_nat (2 * length r)) buf = Some (r @ drop (length r) buf, of_nat (length r))"
    using hex_bytes_ok [of 0 r buf "[]" 0 "[34] @ crlf @ x"] assms(2,3) unfolding hexString2BytesArray_def n by simp
  ultimately show ?thesis
    by simp
qed

section \<open>What the operating system promises\<close>

text \<open>
  \<open>rest w\<close> are the characters that the modem has sent and nobody has read, \<open>sent w\<close> those that went to it, and \<open>peer w\<close> is the
  modem, which answers what arrives with \<open>react\<close>.  A call that transfers nothing uses up some patience.
\<close>

locale posix_tty =
  fixes T :: "'w tty_ops" and u :: int and ok :: "'w \<Rightarrow> bool" and rest :: "'w \<Rightarrow> u8 list" and patience :: "'w \<Rightarrow> nat" and sent :: "'w \<Rightarrow> u8 list"
    and peer :: "'w \<Rightarrow> 'm" and react :: "'m \<Rightarrow> u8 list \<Rightarrow> 'm \<times> u8 list"
  assumes descriptor: "0 \<le> u"
    and write_law: "ok w \<Longrightarrow> bs \<noteq> [] \<Longrightarrow> \<exists>k w'. sys_write T u bs w = (int k, w') \<and> k \<le> length bs \<and> ok w' \<and> sent w' = sent w @ take k bs \<and>
      (if k = 0 then peer w' = peer w \<and> rest w' = rest w \<and> patience w' < patience w
       else (peer w', rest w') = (let (m, r) = react (peer w) (take k bs) in (m, rest w @ r)))"
    and read_law: "ok w \<Longrightarrow> rest w \<noteq> [] \<Longrightarrow> 0 < n \<Longrightarrow> \<exists>p w'. sys_read T u n w = (int (length p), p, w') \<and> length p \<le> n \<and> ok w' \<and> rest w = p @ rest w' \<and>
      sent w' = sent w \<and> peer w' = peer w \<and> (p = [] \<longrightarrow> patience w' < patience w)"
begin

definition got :: "'w \<Rightarrow> u8 list \<Rightarrow> 'w \<Rightarrow> bool" where
  "got w r w' \<longleftrightarrow> ok w' \<and> rest w' = r \<and> sent w' = sent w \<and> peer w' = peer w"

lemma got_trans: "got w r v \<Longrightarrow> got v s x \<Longrightarrow> got w s x"
  by (simp add: got_def)

lemma tty_send_loop_all:
  assumes "ok w" and "n \<le> length m" and "i \<le> n"
  shows "\<exists>w' ts. tty_send_loop T u m n i w = ret (True, w') \<and> ok w' \<and> [] \<notin> set ts \<and> concat ts = take (n - i) (drop i m) \<and> sent w' = sent w @ concat ts \<and>
    (peer w', rest w') = (let (p, r) = reacts react (peer w) ts in (p, rest w @ r))"
  using assms(1,3)
proof (induction "(n - i, patience w)" arbitrary: i w rule: wf_induct_rule [OF wf_lex_prod [OF wf_less_than wf_less_than]])
  case (1 i w)
  show ?case
  proof (cases "i < n")
    case True
    let ?bs = "take (n - i) (drop i m)"
    have bs: "?bs \<noteq> []" "length ?bs = n - i"
      using True assms(2) by auto
    obtain k w1 where k: "sys_write T u ?bs w = (int k, w1)" "k \<le> n - i" "ok w1" "sent w1 = sent w @ take k ?bs"
      "if k = 0 then peer w1 = peer w \<and> rest w1 = rest w \<and> patience w1 < patience w else (peer w1, rest w1) = (let (m, r) = react (peer w) (take k ?bs) in (m, rest w @ r))"
      using write_law [OF 1(2) bs(1)] bs(2) by auto
    have step: "tty_send_loop T u m n i w = tty_send_loop T u m n (i + k) w1"
      using True assms(2) k(1) by (subst tty_send_loop.simps) (simp add: mem_read_def)
    have "((n - (i + k), patience w1), (n - i, patience w)) \<in> less_than <*lex*> less_than"
      using True k(2,5) by (cases "k = 0") auto
    moreover have "i + k \<le> n"
      using k(2) True by simp
    ultimately have "\<exists>w' ts. tty_send_loop T u m n (i + k) w1 = ret (True, w') \<and> ok w' \<and> [] \<notin> set ts \<and> concat ts = take (n - (i + k)) (drop (i + k) m) \<and>
        sent w' = sent w1 @ concat ts \<and> (peer w', rest w') = (let (p, r) = reacts react (peer w1) ts in (p, rest w1 @ r))"
      using 1(1) [of "i + k" w1] k(3) by blast
    then obtain w' ts where t: "tty_send_loop T u m n (i + k) w1 = ret (True, w')" "ok w'" "[] \<notin> set ts" "concat ts = take (n - (i + k)) (drop (i + k) m)"
      "sent w' = sent w1 @ concat ts" "(peer w', rest w') = (let (p, r) = reacts react (peer w1) ts in (p, rest w1 @ r))"
      by blast
    show ?thesis
    proof (cases "k = 0")
      case True
      then show ?thesis
        using t k step by auto
    next
      case False
      have "take k ?bs @ concat ts = ?bs"
        using k(2) t(4) append_take_drop_id [of k ?bs] by (simp add: drop_take add.commute diff_diff_eq)
      then show ?thesis
        using t k False step bs by (intro exI [of _ w'] exI [of _ "take k ?bs # ts"]) (auto simp: Let_def split: prod.splits)
    qed
  next
    case False
    then show ?thesis
      using 1(2,3) by (intro exI [of _ w] exI [of _ "[]"]) (simp add: tty_send_loop.simps)
  qed
qed

lemma recv_char:
  assumes "ok w" and "rest w = b # r" and "off < length m"
  shows "\<exists>w'. LSerial_recv T m off 1 (u, w) = ret (Some 1, m[off := b], u, w') \<and> got w r w'"
proof -
  have "\<exists>w'. tty_recv_loop T u m off 1 0 w = ret (True, m[off := b], w') \<and> got w r w'"
    using assms(1,2)
  proof (induction "patience w" arbitrary: w rule: less_induct)
    case less
    obtain p w1 where p: "sys_read T u 1 w = (int (length p), p, w1)" "length p \<le> 1" "ok w1" "rest w = p @ rest w1" "sent w1 = sent w" "peer w1 = peer w" "p = [] \<longrightarrow> patience w1 < patience w"
      using read_law [OF less.prems(1), of 1] less.prems(2) by auto
    show ?case
    proof (cases p)
      case Nil
      then obtain w' where "tty_recv_loop T u m off 1 0 w1 = ret (True, m[off := b], w')" "got w1 r w'"
        using less.hyps [of w1] p less.prems(2) by auto
      then show ?thesis
        using p Nil by (subst tty_recv_loop.simps) (auto simp: got_def)
    next
      case (Cons c q)
      then have "p = [b]" "rest w1 = r"
        using p(2,4) less.prems(2) by auto
      then show ?thesis
        using p assms(3) by (subst tty_recv_loop.simps) (auto simp: got_def mem_write_update tty_recv_loop.simps [of T u "m[off := b]"])
    qed
  qed
  then show ?thesis
    using descriptor by (auto simp: LSerial_recv_def)
qed

text \<open>A line is stored at the start of the buffer.\<close>

lemma line_loop_ok:
  assumes "ok w" and "rest w = l @ 10 # r" and "10 \<notin> set l" and "off + length l < length m"
  shows "\<exists>w'. line_loop T m off (u, w) = ret (Some (off + length l + 1), take off m @ l @ 10 # drop (off + length l + 1) m, u, w') \<and> got w r w'"
  using assms
proof (induction l arbitrary: off m w)
  case Nil
  obtain w' where w': "LSerial_recv T m off 1 (u, w) = ret (Some 1, m[off := 10], u, w')" "got w r w'"
    using recv_char [of w 10 r off m] Nil by auto
  then show ?case
    using Nil by (subst line_loop.simps) (simp add: mem_get_def, simp add: upd_conv_take_nth_drop)
next
  case (Cons b l)
  obtain w1 where w1: "LSerial_recv T m off 1 (u, w) = ret (Some 1, m[off := b], u, w1)" "got w (l @ 10 # r) w1"
    using recv_char [of w b "l @ 10 # r" off m] Cons.prems by auto
  obtain w2 where w2: "line_loop T (m[off := b]) (off + 1) (u, w1) = ret (Some (off + 1 + length l + 1), take (off + 1) (m[off := b]) @ l @ 10 # drop (off + 1 + length l + 1) (m[off := b]), u, w2)" "got w1 r w2"
    using Cons.IH [of w1 "off + 1" "m[off := b]"] Cons.prems w1(2) by (auto simp: got_def)
  have "take (off + 1) (m[off := b]) = take off m @ [b]"
    using Cons.prems(4) by (simp add: take_Suc_conv_app_nth)
  then show ?case
    using w1(1) w2(1) Cons.prems got_trans [OF w1(2) w2(2)] by (subst line_loop.simps) (simp add: mem_get_def)
qed

lemma read_line_ok:
  assumes "ok w" and "rest w = l @ r" and "\<exists>l'. l = l' @ [10] \<and> 10 \<notin> set l'" and "length l \<le> length m" and "n = length l"
  shows "\<exists>w'. ATInterface_readLine T m (u, w) = ret (Some n, l @ drop n m, u, w') \<and> got w r w'"
  using assms line_loop_ok [of w _ r 0 m] by (fastforce simp: ATInterface_readLine_def)

text \<open>The answer of the modem: an empty line, the response, an empty line, \<open>OK\<close>.\<close>

lemma texts_are_lines: "\<exists>l. crlf = l @ [10] \<and> 10 \<notin> set l" "\<exists>l. ok_line = l @ [10] \<and> 10 \<notin> set l"
  by (intro exI [of _ "butlast crlf"] exI [of _ "butlast ok_line"]; simp add: crlf_def ok_line_def cs_def)+

lemma blank_line: "ok w \<Longrightarrow> rest w = crlf @ r \<Longrightarrow> 2 \<le> length m \<Longrightarrow> \<exists>w'. ATInterface_readLine T m (u, w) = ret (Some 2, [13, 10] @ drop 2 m, u, w') \<and> got w r w'"
  using read_line_ok [OF _ _ texts_are_lines(1), of w r m 2] by (simp add: crlf_def)

lemma csim_line_is_line: "\<exists>l. csim_line n r = l @ [10] \<and> 10 \<notin> set l"
proof -
  have "10 \<notin> set (hex2 b)" for b
    using byte_pair_facts(2,3) [of b] hex_digit_not_nl by (auto simp: hex2_def byte_pair_def)
  moreover have "10 \<notin> set (dec n)"
    using dec_digits [of n] by (auto simp: digit_val_def)
  ultimately show ?thesis
    by (intro exI [of _ "butlast (csim_line n r)"]) (auto simp: csim_line_def crlf_def cs_def butlast_append)
qed

lemma csim_line_length: "length r \<le> 258 \<Longrightarrow> length (csim_line (2 * length r) r) \<le> 537"
  using dec_length [of "2 * length r" 3] by (simp add: csim_line_def crlf_def cs_def length_concat hex2_def comp_def sum_list_triv)

lemma await_csim_ok:
  assumes "ok w" and "rest w = crlf @ csim_line (2 * length rs) rs @ x" and "length m = 537" and "length rs \<le> 258"
  shows "\<exists>y w'. await_csim T m (u, w) = ret (True, csim_line (2 * length rs) rs @ y, u, w') \<and> length (csim_line (2 * length rs) rs @ y) = 537 \<and> got w x w'"
proof -
  let ?l = "csim_line (2 * length rs) rs"
  obtain w1 where w1: "ATInterface_readLine T m (u, w) = ret (Some 2, [13, 10] @ drop 2 m, u, w1)" "got w (?l @ x) w1"
    using blank_line [of w "?l @ x" m] assms(1-3) by auto
  obtain w2 where w2: "ATInterface_readLine T ([13, 10] @ drop 2 m) (u, w1) = ret (Some (length ?l), ?l @ drop (length ?l) ([13, 10] @ drop 2 m), u, w2)" "got w1 x w2"
    using read_line_ok [of w1 ?l x "[13, 10] @ drop 2 m" "length ?l"] w1(2) csim_line_is_line csim_line_length [OF assms(4)] assms(3) by (auto simp: got_def)
  have "await_csim T m (u, w) = await_csim T ([13, 10] @ drop 2 m) (u, w1)"
    using w1(1) assms(3) by (subst await_csim.simps) (simp add: mem_read_def cs_def)
  also have "\<dots> = ret (True, ?l @ drop (length ?l) ([13, 10] @ drop 2 m), u, w2)"
    using w2(1) by (subst await_csim.simps) (simp add: mem_read_def csim_line_def cs_def)
  finally show ?thesis
    using got_trans [OF w1(2) w2(2)] csim_line_length [OF assms(4)] assms(3) by (intro exI [of _ "drop (length ?l) ([13, 10] @ drop 2 m)"] exI [of _ w2]) simp
qed

lemma await_ok_ok:
  assumes "ok w" and "rest w = crlf @ ok_line @ x" and "length m = 537"
  shows "\<exists>m' w'. await_ok T m (u, w) = ret (m', u, w') \<and> got w x w'"
proof -
  obtain w1 where w1: "ATInterface_readLine T m (u, w) = ret (Some 2, [13, 10] @ drop 2 m, u, w1)" "got w (ok_line @ x) w1"
    using blank_line [of w "ok_line @ x" m] assms by auto
  obtain w2 where w2: "ATInterface_readLine T ([13, 10] @ drop 2 m) (u, w1) = ret (Some 4, ok_line @ drop 4 ([13, 10] @ drop 2 m), u, w2)" "got w1 x w2"
    using read_line_ok [OF _ _ texts_are_lines(2), of w1 x "[13, 10] @ drop 2 m" 4] w1(2) assms(3) by (auto simp: got_def ok_line_def cs_def crlf_def)
  have "await_ok T m (u, w) = await_ok T ([13, 10] @ drop 2 m) (u, w1)"
    using w1(1) assms(3) by (subst await_ok.simps) (simp add: mem_read_def cs_def)
  also have "\<dots> = ret (ok_line @ drop 4 ([13, 10] @ drop 2 m), u, w2)"
    using w2(1) by (subst await_ok.simps) (simp add: mem_read_def ok_line_def cs_def crlf_def)
  finally show ?thesis
    using got_trans [OF w1(2) w2(2)] by blast
qed

lemma apdu_answered_tty:
  assumes "ok w" and "rest w = []" and "unat n \<le> 260" and "unat n \<le> length apdu" and "alloc 537 = Some b0" and "length b0 = 537"
    and "r \<noteq> []" and "length r \<le> 258" and "length buf = 258"
    and "\<And>ts. [] \<notin> set ts \<Longrightarrow> concat ts = apdu_command (take (unat n) apdu) \<Longrightarrow> reacts react (peer w) ts = (p, crlf @ csim_line (2 * length r) r @ crlf @ ok_line)"
  shows "\<exists>w'. CinterionModem_transmitApdu alloc T apdu n buf old (u, w) = ret (True, r @ drop (length r) buf, of_nat (length r), u, w') \<and>
    ok w' \<and> rest w' = [] \<and> sent w' = sent w @ apdu_command (take (unat n) apdu) \<and> peer w' = p"
proof -
  let ?c = "apdu_command (take (unat n) apdu)" and ?l = "csim_line (2 * length r) r"
  obtain m1 where m1: "put_command b0 apdu n = Some (m1, length ?c)" "length m1 = 537" "take (length ?c) m1 = ?c"
    using put_command_ok [OF assms(3,4,6)] by blast
  have "length ?c \<le> length m1"
    using m1(3) by (metis length_take min.cobounded1 min.commute)
  then obtain w1 ts where s: "tty_send_loop T u m1 (length ?c) 0 w = ret (True, w1)" "ok w1" "[] \<notin> set ts" "concat ts = ?c" "sent w1 = sent w @ ?c"
    "(peer w1, rest w1) = (let (p, r) = reacts react (peer w) ts in (p, rest w @ r))"
    using tty_send_loop_all [OF assms(1), of "length ?c" m1 0] m1(3) by auto
  then have w1: "peer w1 = p" "rest w1 = crlf @ ?l @ crlf @ ok_line @ []"
    using assms(2) assms(10) [OF s(3,4)] by simp_all
  have z: "mem_write m1 0 (replicate 8 0) = Some (replicate 8 0 @ drop 8 m1)"
    using m1(2) by (simp add: mem_write_start)
  obtain y w2 where w2: "await_csim T (replicate 8 0 @ drop 8 m1) (u, w1) = ret (True, ?l @ y, u, w2)" "length (?l @ y) = 537" "got w1 (crlf @ ok_line @ []) w2"
    using await_csim_ok [OF s(2) w1(2), of "replicate 8 0 @ drop 8 m1"] m1(2) assms(8) by auto
  obtain m3 w3 where w3: "await_ok T (?l @ y) (u, w2) = ret (m3, u, w3)" "got w2 [] w3"
    using await_ok_ok [of w2 "[]" "?l @ y"] w2(2,3) by (auto simp: got_def)
  have "ATInterface_sendATCSIM alloc T apdu n buf old (u, w) = ret (True, r @ drop (length r) buf, of_nat (length r), u, w3)"
    using m1(1) s(1) z w2(1) w3(1) csim_line_parsed [OF assms(7-9), of y] assms(5) descriptor
    by (simp add: ATInterface_sendATCSIM_def LSerial_send_def)
  moreover have "unat (of_nat (length r) :: u16) = length r"
    using assms(8) by (intro small_u16) simp
  ultimately have "CinterionModem_transmitApdu alloc T apdu n buf old (u, w) = ret (True, r @ drop (length r) buf, of_nat (length r), u, w3)"
    using assms(4,8,9) by (simp add: CinterionModem_transmitApdu_def mem_read_def)
  then show ?thesis
    using w2(3) w3(2) s(5) w1(1) by (auto simp: got_def)
qed

end

section \<open>The board\<close>

text \<open>
  A port with a modem that follows a script.  \<open>tt_moods\<close> says how many bytes the next calls transfer at most; when it is used up
  they transfer everything.
\<close>

record tty =
  tt_moods :: "nat list"
  tt_rest :: "u8 list"
  tt_sent :: "u8 list"
  tt_peer :: "u8 list \<times> (u8 list \<times> u8 list) list"

definition tt_count :: "tty \<Rightarrow> nat \<Rightarrow> nat" where
  "tt_count w n = (case tt_moods w of [] \<Rightarrow> n | k # _ \<Rightarrow> min k n)"

definition tty_write :: "int \<Rightarrow> u8 list \<Rightarrow> tty \<Rightarrow> int \<times> tty" where
  "tty_write u bs w =
     (let k = tt_count w (length bs); w = w\<lparr>tt_moods := tl (tt_moods w)\<rparr> in
      if k = 0 then (0, w)
      else (let (p, r) = follow (tt_peer w) (take k bs) in (int k, w\<lparr>tt_peer := p, tt_rest := tt_rest w @ r, tt_sent := tt_sent w @ take k bs\<rparr>)))"

definition tty_read :: "int \<Rightarrow> nat \<Rightarrow> tty \<Rightarrow> int \<times> u8 list \<times> tty" where
  "tty_read u n w =
     (let k = tt_count w n in
      (int (length (take k (tt_rest w))), take k (tt_rest w), w\<lparr>tt_moods := tl (tt_moods w), tt_rest := drop k (tt_rest w)\<rparr>))"

definition scripted_tty :: "tty tty_ops" where
  "scripted_tty = \<lparr>sys_open = (\<lambda>w. (3, w)), sys_configure = (\<lambda>u w. w), sys_write = tty_write, sys_read = tty_read, sys_close = (\<lambda>u w. w)\<rparr>"

interpretation scripted_port: posix_tty scripted_tty 3 "\<lambda>_. True" tt_rest "length \<circ> tt_moods" tt_sent tt_peer follow
proof unfold_locales
  fix w :: tty and bs :: "u8 list"
  assume "bs \<noteq> []"
  then show "\<exists>k w'. sys_write scripted_tty 3 bs w = (int k, w') \<and> k \<le> length bs \<and> True \<and> tt_sent w' = tt_sent w @ take k bs \<and>
      (if k = 0 then tt_peer w' = tt_peer w \<and> tt_rest w' = tt_rest w \<and> (length \<circ> tt_moods) w' < (length \<circ> tt_moods) w
       else (tt_peer w', tt_rest w') = (let (m, r) = follow (tt_peer w) (take k bs) in (m, tt_rest w @ r)))"
    by (intro exI [of _ "tt_count w (length bs)"]) (auto simp: scripted_tty_def tty_write_def tt_count_def Let_def split: prod.splits list.splits)
next
  fix w :: tty and n :: nat
  assume "tt_rest w \<noteq> []" "0 < n"
  then show "\<exists>p w'. sys_read scripted_tty 3 n w = (int (length p), p, w') \<and> length p \<le> n \<and> True \<and> tt_rest w = p @ tt_rest w' \<and>
      tt_sent w' = tt_sent w \<and> tt_peer w' = tt_peer w \<and> (p = [] \<longrightarrow> (length \<circ> tt_moods) w' < (length \<circ> tt_moods) w)"
    by (intro exI [of _ "take (tt_count w n) (tt_rest w)"]) (auto simp: scripted_tty_def tty_read_def tt_count_def Let_def split: list.splits)
qed simp

definition board_ok :: "(nat \<Rightarrow> mem option) \<Rightarrow> tty serial_port \<Rightarrow> bool" where
  "board_ok alloc s \<longleftrightarrow> fst s = 3 \<and> tt_rest (snd s) = [] \<and> fst (tt_peer (snd s)) = [] \<and> (\<exists>m. alloc 537 = Some m \<and> length m = 537)"

definition board_card :: "tty serial_port \<Rightarrow> (u8 list \<times> u8 list) list \<times> u8 list" where
  "board_card s = (snd (tt_peer (snd s)), tt_sent (snd s))"

lemma apdu_command_not_Nil: "apdu_command a \<noteq> []"
  by (simp add: apdu_command_def apdu_texts_def)

text \<open>One exchange.  The board takes APDUs of up to 260 bytes.\<close>

lemma board_exchange:
  assumes "board_ok alloc s" and "unat n \<le> 260" and "unat n \<le> length m" and "shield_answers (board_card s) (take (unat n) m) r c" and "r \<noteq> []" and "length r \<le> 258" and "length buf = 258"
  shows "\<exists>s'. CinterionModem_transmitApdu alloc scripted_tty m n buf old s = ret (True, r @ drop (length r) buf, of_nat (length r), s') \<and> board_ok alloc s' \<and> board_card s' = c"
proof -
  obtain w b0 where s: "s = (3, w)" "tt_rest w = []" "fst (tt_peer w) = []" "alloc 537 = Some b0" "length b0 = 537"
    using assms(1) by (cases s) (auto simp: board_ok_def)
  have p: "tt_peer w = ([], (apdu_command (take (unat n) m), crlf @ csim_line (2 * length r) r @ crlf @ ok_line) # fst c)" "snd c = tt_sent w @ apdu_command (take (unat n) m)"
    using assms(4) s(1,3) by (auto simp: board_card_def shield_answers_def exchange_text_def prod_eq_iff)
  have x: "reacts follow (tt_peer w) ts = (([], fst c), crlf @ csim_line (2 * length r) r @ crlf @ ok_line)"
    if "[] \<notin> set ts" "concat ts = apdu_command (take (unat n) m)" for ts
    using follow_all [of ts "[]" "apdu_command (take (unat n) m)"] that apdu_command_not_Nil [of "take (unat n) m"] p(1) by (cases "ts = []") auto
  from scripted_port.apdu_answered_tty [where alloc = alloc, OF TrueI s(2) assms(2,3) s(4,5) assms(5-7) x, of old] obtain w' where
    "CinterionModem_transmitApdu alloc scripted_tty m n buf old (3, w) = ret (True, r @ drop (length r) buf, of_nat (length r), 3, w')" "tt_rest w' = []"
    "tt_sent w' = tt_sent w @ apdu_command (take (unat n) m)" "tt_peer w' = ([], fst c)"
    by blast
  then show ?thesis
    using s(2-) p(2) unfolding s(1) by (intro exI [of _ "(3, w')"]) (simp add: board_ok_def board_card_def prod_eq_iff)
qed

interpretation board: card_link "CinterionModem_transmitApdu alloc scripted_tty" "board_ok alloc" board_card shield_answers for alloc
  by unfold_locales (rule board_exchange, simp_all add: word_le_nat_alt)

text \<open>
  C26: both boards do the same.  Let a modem behind the interrupt-driven port of the connect shield, under any interleaving of
  interrupts, and a modem behind the serial port of the concept board, with transfers of any size, follow the same
  script, whose next entry answers an APDU of at most 256 bytes with \<open>r\<close>.  Then \<open>transmitApdu\<close> of both boards returns true with \<open>r\<close> at the start of the response buffer
  and its length, both have sent the same characters, and both are ready for the rest of the script.
\<close>

theorem boards_equivalent:
  assumes "shield_ok (at, ln)" and "board_ok alloc (3, t)" and "snd (line_peer ln) = exchange_text (take (unat n) apdu, r) # script" and "snd (tt_peer t) = snd (line_peer ln)"
    and "n \<le> 256" and "unat n \<le> length apdu" and "r \<noteq> []" and "length r \<le> 258" and "length buf = 258"
  shows "\<exists>at' ln' t'.
    ConnectShieldSE_transmitApdu line_board apdu n buf old (at, ln) = ret (True, r @ drop (length r) buf, of_nat (length r), at', ln') \<and>
    CinterionModem_transmitApdu alloc scripted_tty apdu n buf old (3, t) = ret (True, r @ drop (length r) buf, of_nat (length r), 3, t') \<and>
    line_sent ln' = line_sent ln @ apdu_command (take (unat n) apdu) \<and> tt_sent t' = tt_sent t @ apdu_command (take (unat n) apdu) \<and>
    shield_ok (at', ln') \<and> board_ok alloc (3, t') \<and> snd (line_peer ln') = script \<and> snd (tt_peer t') = script"
proof -
  let ?c = "apdu_command (take (unat n) apdu)"
  have x: "shield_answers (shield_card (at, ln)) (take (unat n) apdu) r (script, line_sent ln @ ?c)"
    using assms(3) by (simp add: shield_card_def shield_answers_def)
  obtain aw where a: "ConnectShieldSE_transmitApdu line_board apdu n buf old (at, ln) = ret (True, r @ drop (length r) buf, of_nat (length r), aw)"
    "shield_ok aw" "shield_card aw = (script, line_sent ln @ ?c)"
    using shield.exchange_law [OF assms(1,5,6) x assms(7), of buf old] assms(8,9) by auto
  have y: "shield_answers (board_card (3, t)) (take (unat n) apdu) r (script, tt_sent t @ ?c)"
    using assms(3,4) by (simp add: board_card_def shield_answers_def)
  obtain s where s: "CinterionModem_transmitApdu alloc scripted_tty apdu n buf old (3, t) = ret (True, r @ drop (length r) buf, of_nat (length r), s)"
    "board_ok alloc s" "board_card s = (script, tt_sent t @ ?c)"
    using board.exchange_law [where alloc = alloc, OF assms(2,5,6) y assms(7), of buf old] assms(8,9) by auto
  obtain at' ln' t' where "aw = (at', ln')" "s = (3, t')"
    using s(2) by (cases aw; cases s) (auto simp: board_ok_def)
  then show ?thesis
    using a s by (auto simp: shield_card_def board_card_def)
qed

text \<open>The applets over the board: files and signatures.\<close>

lemma board_plays: "snd (tt_peer t) = map exchange_text ps @ script \<Longrightarrow> plays shield_answers ps (board_card (u, t)) (script, tt_sent t @ concat (map (apdu_command \<circ> fst) ps))"
  using shield_plays [of ps script "tt_sent t"] by (simp add: board_card_def)

lemma file_over_board:
  assumes "serves (ap_channel ap) path content ps" and "board_ok alloc (3, t)" and "iface_ok se" and "snd (tt_peer t) = map exchange_text ps @ script" and "fitting_responses ps"
    and "ap_isSelected ap" and "length path \<le> 250" and "length content < 65535" and "alloc (length content + 1) = Some buf" and "length buf = length content + 1"
  shows "\<exists>se' t'. MF_readEF alloc (CinterionModem_transmitApdu alloc scripted_tty) path (of_nat (length path)) n ap se (3, t) =
      ret (True, Some (content @ [0]), of_nat (length content + 1), se', 3, t') \<and> tt_sent t' = tt_sent t @ concat (map (apdu_command \<circ> fst) ps)"
  using board.file_read [where alloc = alloc and alloca = alloc, OF assms(1-3) board_plays [OF assms(4)] assms(5-7) refl assms(8-10), of n] by (auto simp: board_ok_def board_card_def)

lemma signature_over_board:
  assumes "signs (ap_channel ap) alg key hash sg ps" and "board_ok alloc (3, t)" and "iface_ok se" and "snd (tt_peer t) = map exchange_text ps @ script" and "fitting_responses ps"
    and "ap_isSelected ap" and "digest_length (alg AND 0xF0) = Some n" and "unat n = length hash"
  shows "\<exists>se1 w1 se' t'. MIAS_signInit (CinterionModem_transmitApdu alloc scripted_tty) alg key ap se (3, t) = ret (True, ap\<lparr>mi_signAlgo := alg, mi_signKey := key\<rparr>, se1, w1) \<and>
    MIAS_signFinal (CinterionModem_transmitApdu alloc scripted_tty) hash (ap\<lparr>mi_signAlgo := alg, mi_signKey := key\<rparr>) se1 w1 = ret (True, sg, se', 3, t') \<and>
    tt_sent t' = tt_sent t @ concat (map (apdu_command \<circ> fst) ps)"
  using board.signature_made [where alloc = alloc, OF assms(1-3) board_plays [OF assms(4)] assms(5-8), of "[]"] by (fastforce simp: board_ok_def board_card_def)

text \<open>A command of 260 bytes.\<close>

lemma long_command_taken:
  assumes "board_ok alloc s" and "iface_ok se" and "ap_isSelected ap" and "length d = 255" and "shield_answers (board_card s) ([cla OR ap_channel ap, ins, p1, p2, 0xFF] @ d) [0x90, 0] c"
  shows "\<exists>se' s'. checked ap (Applet_transmit_case3 (CinterionModem_transmitApdu alloc scripted_tty) cla ins p1 p2 d 0xFF ap se s) = ret (True, se', s') \<and>
    holds [0x90, 0] se' \<and> board_ok alloc s' \<and> board_card s' = c"
proof -
  let ?L = "CinterionModem_transmitApdu alloc scripted_tty" and ?a = "[cla OR ap_channel ap, ins, p1, p2, 0xFF] @ d"
  let ?m = "?a @ drop 260 (si_apdu se)"
  have l: "length (si_apdu se) = 262" "length (si_apduResponse se) = 258"
    using assms(2) by (simp_all add: iface_ok_def)
  obtain s' where s': "?L ?m 260 (si_apduResponse se) (si_apduResponseLen se) s = ret (True, [0x90, 0] @ drop 2 (si_apduResponse se), 2, s')" "board_ok alloc s'" "board_card s' = c"
    using board_exchange [OF assms(1), of 260 ?m "[0x90, 0]" c "si_apduResponse se" "si_apduResponseLen se"] assms(4,5) l by (auto simp: numeral_2_eq_2 [symmetric])
  let ?se = "se\<lparr>si_apdu := ?m, si_apduLen := 260, si_apduResponse := [0x90, 0] @ drop 2 (si_apduResponse se), si_apduResponseLen := 2\<rparr>"
  have h: "holds ([] @ [0x90, 0]) ?se"
    using l assms(4) by (simp add: holds_def iface_ok_def)
  have "SEInterface_transmit ?L (se\<lparr>si_apdu := ?m, si_apduLen := 260\<rparr>) s = ret (True, ?se, s')"
    using s'(1) by (subst SEInterface_transmit.simps) (simp add: mem_get_def)
  then have "Applet_transmit_case3 ?L cla ins p1 p2 d 0xFF ap se s = ret (True, ?se, s')"
    using l assms(3,4) by (simp add: Applet_transmit_case3_def SEInterface_transmit_case3_def mem_read_def mem_write_start)
  then show ?thesis
    using holds_status [OF h] h s'(2,3) assms(3) by (simp add: checked_def Applet_getStatusWord_def)
qed

text \<open>
  A key of 2048 bits decrypts over the concept board.  The ciphertext of 256 bytes goes to the card in two commands, of 260 and of 7 bytes, and
  \<open>decryptFinal\<close> returns true with the plaintext that the card answers to the second one; the connect shield cannot send the first.
\<close>

theorem decryption_2048_over_board:
  assumes "board_ok alloc (3, t)" and "iface_ok se" and "ap_isSelected ap" and "length ct = 256" and "length pt \<le> 256"
    and "snd (tt_peer t) = map exchange_text [([0x10 OR ap_channel ap, 0x2A, 0x80, 0x86, 0xFF, 0x81] @ take 0xFE ct, [0x90, 0]), ([ap_channel ap, 0x2A, 0x80, 0x86, 2] @ drop 0xFE ct, pt @ [0x90, 0])] @ script"
  shows "\<exists>se' t'. MIAS_decryptFinal (CinterionModem_transmitApdu alloc scripted_tty) ct 256 ap se (3, t) = ret (True, pt, se', 3, t') \<and> snd (tt_peer t') = script"
proof -
  let ?L = "CinterionModem_transmitApdu alloc scripted_tty"
  let ?a = "[0x10 OR ap_channel ap, 0x2A, 0x80, 0x86, 0xFF, 0x81] @ take 0xFE ct" and ?b = "[ap_channel ap, 0x2A, 0x80, 0x86, 2] @ drop 0xFE ct"
  obtain se1 s1 where x: "checked ap (Applet_transmit_case3 ?L 0x10 0x2A 0x80 0x86 (0x81 # take 0xFE ct) 0xFF ap se (3, t)) = ret (True, se1, s1)" "holds [0x90, 0] se1" "board_ok alloc s1"
    "board_card s1 = (exchange_text (?b, pt @ [0x90, 0]) # script, tt_sent t @ apdu_command ?a)"
    using long_command_taken [OF assms(1-3), of "0x81 # take 0xFE ct" "0x10" "0x2A" "0x80" "0x86"] assms(4,6) by (auto simp: shield_answers_def board_card_def)
  have p: "plays shield_answers [(?b, pt @ [0x90, 0])] (board_card s1) (script, (tt_sent t @ apdu_command ?a) @ apdu_command ?b)"
    by (simp add: x(4) shield_answers_def)
  have d: "dialog ([ap_channel ap, 0x2A, 0x80, 0x86, of_nat (length (drop 0xFE ct))] @ drop 0xFE ct) [(?b, pt @ [0x90, 0])] (pt @ [0x90, 0])"
    using final [of "pt @ [0x90, 0]" ?b] assms(4) by (cases pt) auto
  obtain se2 s2 where y: "checked ap (Applet_transmit_case3 ?L 0 0x2A 0x80 0x86 (drop 0xFE ct) 2 ap se1 s1) = ret (True, se2, s2)" "holds (pt @ [0x90, 0]) se2" "board_ok alloc s2"
    "fst (board_card s2) = script"
    using board.data_accepted [where alloc = alloc, OF x(3) holds_ok [OF x(2)] p _ assms(3) _ _ d, of 2] assms(4,5) by auto
  have "MIAS_decryptFinal ?L ct 256 ap se (3, t) = ret (True, pt, se2, s2)"
    using x(1) y(1) holds_response(1) [OF y(2)] assms(3,4) by (simp add: MIAS_decryptFinal_def MIAS_psoDecipher_def mem_read_def Applet_getResponse_def)
  then show ?thesis
    using y(3,4) by (cases s2) (auto simp: board_ok_def board_card_def)
qed

text \<open>
  C31: the command buffer is large enough for 260 bytes and no more.  For an APDU that is there completely, the command \<open>AT+CSIM\<close>
  with its terminator fits into the 537 bytes that \<open>sendATCSIM\<close> allocates exactly when the APDU has at most 260 bytes; a longer one, which the
  interface builds from 255 bytes of data and an expected length, is written past the end.
\<close>

theorem command_buffer_exact:
  assumes "unat n \<le> length apdu" and "length m = 537"
  shows "put_command m apdu n \<noteq> None \<longleftrightarrow> unat n \<le> 260"
proof
  assume "put_command m apdu n \<noteq> None"
  then have "13 + length (dec (unat n * 2)) + 2 * unat n < 537"
    using put_command_length assms(2) by fastforce
  moreover have "261 \<le> unat n \<Longrightarrow> 2 < length (dec (unat n * 2))"
    by (rule dec_long) simp
  ultimately show "unat n \<le> 260"
    by linarith
next
  assume "unat n \<le> 260"
  then show "put_command m apdu n \<noteq> None"
    using put_command_ok [OF _ assms] by auto
qed

text \<open>Waiting for the answer of a port that is not open never ends.\<close>

lemma await_csim_stuck: "await_csim T m s = Some y \<Longrightarrow> \<not> (fst s < 0 \<and> take 7 m = replicate 7 0 \<and> 7 \<le> length m)"
proof (induction rule: await_csim.raw_induct [rotated, consumes 1, case_names step])
  case (step f T m s y)
  have zeros: "replicate 7 0 \<noteq> cs ''ERROR'' @ crlf" "replicate 7 0 \<noteq> cs ''+CSIM: ''"
    by code_simp+
  show ?case
  proof
    assume m: "fst s < 0 \<and> take 7 m = replicate 7 0 \<and> 7 \<le> length m"
    then have "ATInterface_readLine T m s = ret (None, m, s)"
      by (cases s) (simp add: ATInterface_readLine_def line_loop.simps [of T m 0] LSerial_recv_def)
    moreover have "mem_read m 0 7 = Some (replicate 7 0)"
      using m by (simp add: mem_read_def)
    ultimately have "f T m s = Some y"
      using step.hyps zeros by simp
    then show False
      using step.IH m by blast
  qed
qed

text \<open>
  C35: without the port the board hangs.  When the port has not been opened, or opening it has failed, \<open>transmitApdu\<close> does not report an
  error: for every APDU that fits into the command buffer it never returns, since the results of \<open>send\<close> and \<open>readLine\<close> are not looked at.
\<close>

theorem closed_port_hangs:
  assumes "u < 0" and "unat n \<le> 260" and "unat n \<le> length apdu" and "alloc 537 = Some b0" and "length b0 = 537"
  shows "CinterionModem_transmitApdu alloc T apdu n buf old (u, w) = None"
proof -
  obtain m1 k where m1: "put_command b0 apdu n = Some (m1, k)" "length m1 = 537"
    using put_command_ok [OF assms(2,3,5)] by blast
  have "await_csim T (replicate 8 0 @ drop 8 m1) (u, w) = None"
    using await_csim_stuck [of T "replicate 8 0 @ drop 8 m1" "(u, w)"] assms(1) m1(2) by (cases "await_csim T (replicate 8 0 @ drop 8 m1) (u, w)") auto
  then show ?thesis
    using m1 assms by (simp add: CinterionModem_transmitApdu_def ATInterface_sendATCSIM_def LSerial_send_def mem_read_def mem_write_start)
qed

section \<open>Instances\<close>

text \<open>A modem behind a port that first takes one byte, then none, then two.\<close>

definition demo_tty :: "(u8 list \<times> u8 list) list \<Rightarrow> tty" where
  "demo_tty script = \<lparr>tt_moods = [1, 0, 2], tt_rest = [], tt_sent = [], tt_peer = ([], script)\<rparr>"

lemma demo_tty_ok: "board_ok (\<lambda>n. Some (replicate n 0)) (3, demo_tty script)"
  by (simp add: board_ok_def demo_tty_def)

theorem boards_equivalent_witness:
  "\<exists>at' ln' t'.
     ConnectShieldSE_transmitApdu line_board select_apdu 4 (replicate 258 0) 0 (idle_at, scripted select_script) = ret (True, [0x90, 0] @ replicate 256 0, 2, at', ln') \<and>
     CinterionModem_transmitApdu (\<lambda>n. Some (replicate n 0)) scripted_tty select_apdu 4 (replicate 258 0) 0 (3, demo_tty select_script) = ret (True, [0x90, 0] @ replicate 256 0, 2, 3, t')"
proof -
  have s: "select_script = exchange_text (take (unat (4 :: u16)) select_apdu, [0x90, 0]) # []"
    by (simp add: select_script_def exchange_text_def select_apdu_def)
  have "length (concat (map fst select_script)) \<le> 999"
    using select_script_short(2) by (simp add: select_script_def)
  then have "shield_ok (idle_at, scripted select_script)" and "snd (line_peer (scripted select_script)) = select_script"
    using scripted_shield [OF select_script_short(1)] scripted_ok(3) [OF select_script_short(1)] by simp_all
  moreover have "length select_apdu = 4"
    by (simp add: select_apdu_def)
  ultimately show ?thesis
    using boards_equivalent [of idle_at "scripted select_script" "\<lambda>n. Some (replicate n 0)" "demo_tty select_script" 4 select_apdu "[0x90, 0]" "[]" "replicate 258 0" 0] demo_tty_ok [of select_script] s
    by (auto simp: demo_tty_def)
qed

theorem decryption_2048_over_board_witness:
  "\<exists>se' t'. MIAS_decryptFinal (CinterionModem_transmitApdu (\<lambda>n. Some (replicate n 0)) scripted_tty) (replicate 256 7) 256 open_mias fresh_iface
     (3, demo_tty (map exchange_text [([0x10 OR ap_channel open_mias, 0x2A, 0x80, 0x86, 0xFF, 0x81] @ take 0xFE (replicate 256 7), [0x90, 0]),
        ([ap_channel open_mias, 0x2A, 0x80, 0x86, 2] @ drop 0xFE (replicate 256 7), [1, 2, 3] @ [0x90, 0])] @ [])) = ret (True, [1, 2, 3], se', 3, t')"
proof -
  have "ap_isSelected open_mias"
    by (simp add: open_mias_def)
  then show ?thesis
    using decryption_2048_over_board [OF demo_tty_ok fresh_iface_ok, of open_mias "replicate 256 7" "[1, 2, 3]"] by (fastforce simp: demo_tty_def)
qed

theorem command_buffer_exact_witness:
  "put_command (replicate 537 0) (replicate 262 0) 260 \<noteq> None \<and> put_command (replicate 537 0) (replicate 262 0) 261 = None"
  using command_buffer_exact [of 260 "replicate 262 0" "replicate 537 0"] command_buffer_exact [of 261 "replicate 262 0" "replicate 537 0"] by (simp del: not_None_eq)

theorem closed_port_hangs_witness:
  "CinterionModem_transmitApdu (\<lambda>n. Some (replicate n 0)) scripted_tty select_apdu 4 (replicate 258 0) 0 (LSerial_create (demo_tty [])) = None"
  unfolding LSerial_create_def using closed_port_hangs [of "-1" 4 select_apdu "\<lambda>n. Some (replicate n 0)" "replicate 537 0"] by (simp add: select_apdu_def)

end
