(* ===== verification/Spec2Isabelle.thy ===== *)
theory Spec2Isabelle
  imports Client_Api Threads Shadow_Api Shadow_Delta Modem_Setup Se_Chain Concept_Board
begin

text \<open>
  The AWS IoT device SDK for embedded C as shipped with the trust onboarding extension: an MQTT
  client over TLS, on top of it a client of the thing shadow service, and below it the access to keys
  in a secure element that sits behind a cellular modem.  Paths are relative to \<open>src/\<close>.

  \<^bold>\<open>The program and its model.\<close>  An application initialises a client, connects it, publishes and
  subscribes, and calls \<open>aws_iot_mqtt_yield\<close> to let it read packets, keep the connection alive and
  reconnect.  The client writes packets into its transmit buffer, hands them to the function
  pointers of a network, reads replies into its receive buffer and calls the handlers registered
  for a topic.  The shadow functions build and read JSON documents, publish requests on the topics
  of a thing, and are called back by the MQTT client when an acknowledgement or a delta arrives.
  Certificates and keys may be named by a path into the secure element; the element is reached by
  APDUs that the modem passes on to its SIM, the modem is spoken to in AT commands over a serial
  port, and the port is served by interrupts.

  \<^item> \<open>Prelude\<close>: machine words, checked memory, executions (\<open>None\<close> never returns, \<open>Fault\<close> leaves an
    object, \<open>Ret\<close> returns) and the two Hoare-style predicates \<open>valid\<close> and \<open>runs\<close>.
  \<^item> \<open>Iot_Types\<close>: \<open>include/aws_iot_error.h\<close>, \<open>include/aws_iot_mqtt_client.h\<close>,
    \<open>include/aws_iot_mqtt_client_common_internal.h\<close>, the macros of
    \<open>samples/linux/aws/aws_iot_config.h\<close>.  Structs are records, enums datatypes.
  \<^item> \<open>Timer\<close>: \<open>platform/linux/common/timer.c\<close>, with \<open>gettimeofday\<close> as a parameter.
  \<^item> \<open>Mqtt_Codec\<close>: the byte-level half of \<open>src/aws_iot_mqtt_client_common_internal.c\<close>; the locale
    \<open>wire_field\<close> is the contract of a writer and its reader, interpreted for the remaining length,
    16-bit integers and bytes.
  \<^item> \<open>Mqtt_Packets\<close>: the serialisers and deserialisers of \<open>src/aws_iot_mqtt_client_connect.c\<close>,
    \<open>_publish.c\<close>, \<open>_subscribe.c\<close> and \<open>_unsubscribe.c\<close>, against the specification \<open>mqtt_frame\<close>.
  \<^item> \<open>Topic_Match\<close>: \<open>_aws_iot_mqtt_internal_is_topic_matched\<close>, against the level-wise \<open>topic_matches\<close>.
  \<^item> \<open>Tls_Network\<close>: \<open>platform/linux/mbedtls/network_mbedtls_wrapper.c\<close>; mbedTLS is the record
    \<open>mbedtls\<close> of parameters.  The locale \<open>network\<close> is what the client relies on; it is interpreted
    on the functions \<open>iot_tls_*\<close> for every behaviour of mbedTLS and of the clock.
  \<^item> \<open>Client_State\<close>: \<open>src/aws_iot_mqtt_client.c\<close>; \<open>wf_client\<close> is the invariant of the client.
  \<^item> \<open>Threads\<close>: \<open>platform/linux/pthread/threads_pthread_wrapper.c\<close> and the functions of
    \<open>src/aws_iot_mqtt_client.c\<close> that lock and unlock; \<open>set_state_step\<close> is one statement of
    \<open>aws_iot_mqtt_set_client_state\<close> in the build with threads, taken by one of any number of threads.  The
    locale \<open>posix_mutex\<close> is what the pthread functions promise, interpreted on a mutex with an owner.
  \<^item> \<open>Client_IO\<close>: sending, receiving, dispatching and waiting, the second half of
    \<open>src/aws_iot_mqtt_client_common_internal.c\<close>.
  \<^item> \<open>Client_Ops\<close>, \<open>Client_Session\<close>: connect, disconnect, publish, subscribe, resubscribe,
    unsubscribe and reconnect.  The locale \<open>client_op\<close> is the contract that the operations of a
    connected client share; it is interpreted on each of them and on their choice.
    \<open>Client_Session\<close> follows whole conversations over a connection whose bytes are given.
  \<^item> \<open>Client_Yield\<close>: \<open>src/aws_iot_mqtt_client_yield.c\<close>.
  \<^item> \<open>Client_Api\<close>: the public interface as the relation \<open>api_run\<close>, and the abstract life cycle
    \<open>life_step\<close> that it refines.
  \<^item> \<open>Jsmn\<close>, \<open>Jsmn_Render\<close>: \<open>external_libs/jsmn/jsmn.c\<close>, and JSON trees with their text (\<open>render\<close>)
    and the tokens promised for it (\<open>toks_of\<close>).
  \<^item> \<open>Json_Utils\<close>: \<open>src/aws_iot_json_utils.c\<close> with the conversions of the C library it uses.
  \<^item> \<open>Shadow_Json\<close>, \<open>Shadow_Doc\<close>: \<open>src/aws_iot_shadow_json.c\<close>, building documents and reading them;
    \<open>lookup\<close> on JSON trees is the specification of the search for a key.
  \<^item> \<open>Shadow_Records\<close>: \<open>src/aws_iot_shadow_records.c\<close>, the tables of the shadow and its callbacks.
  \<^item> \<open>Shadow_Api\<close>: \<open>src/aws_iot_shadow_actions.c\<close> and \<open>src/aws_iot_shadow.c\<close>.
  \<^item> \<open>Shadow_Delta\<close>: what a delta does to the structures of the application.
  \<^item> \<open>Usart\<close>: \<open>external_libs/gemalto/platform/connect_shield/src/stm32l476rg/usart.c\<close>.  The locale
    \<open>byte_fifo\<close> is the contract of a queue of bytes, interpreted on the rings; \<open>rx_step\<close> and \<open>tx_step\<close>
    interleave the interrupt handler with the single statements of the loops.
  \<^item> \<open>At_Parser\<close>: \<open>at_parser.c\<close> and \<open>at_parser.h\<close> of the same platform.  What they call (the port, \<open>fprintf\<close>,
    \<open>delay_ms\<close>, callbacks) is the record \<open>board\<close>.  The locale \<open>serial_line\<close> is what a client may assume of a
    line with a device at its end; it is interpreted on \<open>line_board\<close>, the functions of \<open>Usart\<close> on port 1 with
    interrupts spread over the polls in any way and a device that follows a script.
  \<^item> \<open>Modem\<close>, \<open>Modem_Exchange\<close>, \<open>Modem_Setup\<close>: \<open>modem.c\<close>, then whole dialogues: APDUs and sockets, start-up,
    registration and connection.
  \<^item> \<open>Se_Keys\<close>: \<open>external_libs/gemalto/mbedtls/src/mbedtls_se.c\<close>; the applets are the record \<open>se_ops\<close>, the
    parsers of mbedTLS the record \<open>mbed_ops\<close>.
  \<^item> \<open>Se_Applet\<close>: \<open>SEInterface.cpp\<close>, \<open>Applet.cpp\<close> and \<open>MF.cpp\<close> of \<open>external_libs/gemalto/common/src\<close> and
    \<open>ConnectShield_SE.cpp\<close>.  The locale \<open>card_link\<close> is the contract of \<open>transmitApdu\<close>, interpreted on
    \<open>modem_send_apdu\<close> over the interrupt-driven port.
  \<^item> \<open>Se_Mias\<close>: \<open>MIAS.cpp\<close> of the same directory: digests, signatures, decryption, key pairs and certificates in
    containers, PIN, PKCS#11 objects.  The record of the applet extends that of \<open>Applet\<close>.
  \<^item> \<open>Se_Mias_Card\<close>: what the applet does with a card that follows its part of the dialogue, proved in \<open>card_link\<close>
    for every link; the predicates \<open>signs\<close>, \<open>digests\<close>, \<open>deciphers\<close>, \<open>lists_keys\<close>, \<open>serves_file\<close> and \<open>holds_object\<close> say what the
    card sends, and \<open>card_key\<close> which key pair its records describe.
  \<^item> \<open>Se_Mias_Faults\<close>: what the applet does with cards that do not, and where it does not do what it means to.
  \<^item> \<open>Se_Chain\<close>: the operations of both applets put in for the record \<open>se_ops\<close> (\<open>element_ops\<close>), and the whole way from
    the path of a certificate, key or object, or from a hash to be signed, to the bytes on the serial line.
  \<^item> \<open>Concept_Board\<close>: \<open>LSerial.cpp\<close>, \<open>ATInterface.cpp\<close> and \<open>CinterionModem.cpp\<close> of
    \<open>external_libs/gemalto/platform/concept_board/src\<close>, another \<open>transmitApdu\<close>.  The locale \<open>posix_tty\<close> is what the calls of the
    operating system promise; \<open>card_link\<close> is interpreted a second time, on this board.

  \<^bold>\<open>What the theorems show.\<close>
  \<^item> Wire format: remaining lengths and packets are written as the MQTT frames, inside the buffer, and
    read back; the readers stay inside the packet, with the exceptions that are stated.
  \<^item> Network: reads and writes end whatever the clock does; a verified connection has passed the
    verification of the server.
  \<^item> Client: waiting for a reply delivers a complete packet of the type waited for; every operation
    keeps the client valid and restores its state; conversations send exactly the frame of the
    request; messages go to exactly the matching handlers; every sequence of calls is a run of the
    life cycle.
  \<^item> JSON: the tokeniser is safe on every text and finds exactly the tokens of a JSON text; integers
    round-trip.
  \<^item> Shadow documents: updates are built as promised when they fit; the client token put into a
    document is the one found in it; values are read by key.
  \<^item> Shadow tables: requests are entered into the table and answered by the acknowledgement with their
    token; old deltas are ignored, newer ones reach exactly the structures they mention.
  \<^item> Serial port: under every interleaving the rings deliver what was stored, in order; flushing ends.
  \<^item> Modem: waiting for an answer is a function of the characters received; APDUs, socket
    transfers, start-up and connection send exactly the commands meant and return the answer.
  \<^item> Secure element: every use is a complete session; objects and keys are those that the path
    names; a file, a PKCS#11 object or a key of the card is loaded, and a signature made, through
    applet, modem, parser and rings as the card has it, with exactly the commands of the session
    on the line; both boards send the same characters and return the same response; the list of key pairs is well formed whatever the card sends.
  \<^item> Threads: under every interleaving the changes of the client's state are those of the
    single-threaded function, one after the other, and some thread can always go on.
  \<^item> Where the code does not do what it means to, the theorem states what it does: values written
    past the document, tokens past their array, lost subscription slots, a status taken from the
    payload, packets of 510 and 511 bytes past the receive buffer, refused APDUs reported as sent, a
    registration status taken from the wrong field, a pointer freed that was never set, a certificate
    that was never read, a PIN overwritten by its successor, 2048-bit decryption that the modem refuses,
    a board that hangs when its port is not open.

  \<^bold>\<open>Bounds and fuel.\<close>  Loops are structural or have a termination proof; loops that the code does not
  bound (waiting for a packet, yield, the settling time of a subscription) are partial functions
  whose value \<open>None\<close> is not returning, and the theorems about conversations prove that they
  return.  A message that arrives while a shadow callback waits for a packet calls the callback
  again: \<open>shadow_env S n\<close> unrolls this to depth \<open>n\<close>, and no theorem depends on \<open>n\<close>.  Positions of the
  tokeniser are unbounded; they stay below the length of the text.  A local array that the code
  does not initialise starts with zero bytes where it is only read after it was written, and is a
  parameter of the model (\<open>senv\<close>, the argument \<open>c\<close> of \<open>modem_bring_up\<close>, the cell \<open>Uninit\<close>, the record \<open>uninit\<close>) where the code reads
  it.  The loops of the parser and of the modem wait for characters and are partial functions; the
  theorems assume that the device sends them and that they fit into the receive ring, as \<open>line_ok\<close>
  says, and that the commands fit into the transmit ring (\<open>line_cap\<close>), and prove that the loops return.

  \<^bold>\<open>Not modelled.\<close>  mbedTLS and CppUTest are third-party code that the SDK only calls or is tested with.
  \<open>PCSCAccess.cpp\<close> calls the smart card service of a desktop system, and the network classes of \<open>external_libs/gemalto\<close>
  forward to the functions of \<open>modem.c\<close>; \<open>pwm.c\<close>, \<open>delay.c\<close> and the clock and pin settings of
  \<open>usart_init\<close> are writes to registers of a vendor header.  Of the build with \<open>_ENABLE_THREAD_SUPPORT_\<close> the
  creation of the three mutexes and the locks around sending and receiving a packet are not modelled: the client is that
  of the build without threads but for the change of its state.  Logging has no effect on the state;
  samples and tests are clients of the library.
\<close>

end
